(* ===== verification/Jobs.thy ===== *)
theory Jobs
  imports Prelude
begin

text \<open>
  The jobs of the background queue and the tables the worker keeps about them: the \<open>Job\<close>
  enum and its errors (\<open>crates/seiran-common/src/traits.rs\<close>), the priorities, the name, the
  handler and the retry configuration of every job and the back-off between two attempts
  (\<open>crates/seiran-common/src/queue/worker.rs\<close>).

  Identifiers (\<open>i64\<close>) and positions (\<open>i16\<close>) are opaque to this code and are \<open>int\<close>. The attempt
  counters are \<open>32 word\<close>, because the worker adds to them and compares them.
\<close>

section \<open>Jobs\<close>

record prev_ap_reaction =
  prev_activity_id :: string
  prev_content :: string
  prev_emoji_url :: "string option"

datatype (plugins only: code size) ap_delivery_kind =
    PostToFollowers int "string option" "string option" "string option"
  | DirectMessage int
  | Announce int string
  | UndoAnnounce int string
  | DeleteNote int
  | Reaction int string string "string option" "prev_ap_reaction option"
  | PollVote int "string list"
  | UndoReaction int string string "string option"
  | UpdateActor
  | SeiranPostUpdate int
  | DeleteActor

datatype (plugins only: code size) job =
    ActorHistorySync "string option" "string option"
  | ApDelivery int ap_delivery_kind
  | InboundActivityProcess string
  | ActorMetadataResolve int
  | AtpRepositoryPublish int string
  | BskyVideoPoll int
  | ProxyFollowSync int bool
  | AccountWithdrawUnfollowAll int string
  | FollowRequestsBulkAccept int
  | BskyPostCommitDeferred int int int
  | BskyDmSend int
  | BskyDmReactionAdd int int string
  | BskyDmReactionRemove int int string
  | BskyDmHide int int
  | RemoteFollowListSync int string
  | RemoteActorResolve string
  | LinkResolve string
  | DmRecipientResolve int string
  | RemoteFeaturedSync int
  | RemoteProfileRefresh int
  | AlsoKnownAsVerify int int
  | RemoteAlsoKnownAsSync int
  | RelayFollowSync int bool
  | OgpFetch int string int
  | LinkCardEmbedResolve int int string
  | RemoteInstanceInfoResolve string
  | FollowImportProcess int
  | BskyListMembershipResolve string
  | PollFetch int
  | PostMergeCleanup int int
  | MigrationFetchRepo int
  | MigrationRequestPlcSignature int
  | MigrationImportProcess int
  | MigrationDeactivateSource int
  | MigrationImportFollows int
  | FetchBridgeOriginal int string string
  | BridgeUserLinkResolve int

datatype job_error = Transient string | Permanent string

fun is_permanent :: "job_error \<Rightarrow> bool" where
  "is_permanent (Transient _) = False"
| "is_permanent (Permanent _) = True"

fun job_error_message :: "job_error \<Rightarrow> string" where
  "job_error_message (Transient m) = m"
| "job_error_message (Permanent m) = m"

text \<open>\<open>impl From<String> for JobError\<close>.\<close>

definition job_error_from_string :: "string \<Rightarrow> job_error" where
  "job_error_from_string s = Transient s"

type_synonym attempt_no = "32 word"

record queued_job =
  qj_job :: job
  qj_priority :: int
  qj_attempt :: attempt_no

text \<open>The module \<open>priority\<close> of the worker.\<close>

definition priority_critical :: int where "priority_critical = 100"
definition priority_high :: int where "priority_high = 50"
definition priority_normal :: int where "priority_normal = 10"
definition priority_low :: int where "priority_low = 1"

fun job_name :: "job \<Rightarrow> string" where
  "job_name (ActorHistorySync _ _) = ''ActorHistorySync''"
| "job_name (ApDelivery _ _) = ''ApDelivery''"
| "job_name (InboundActivityProcess _) = ''InboundActivityProcess''"
| "job_name (ActorMetadataResolve _) = ''ActorMetadataResolve''"
| "job_name (AtpRepositoryPublish _ _) = ''AtpRepositoryPublish''"
| "job_name (BskyVideoPoll _) = ''BskyVideoPoll''"
| "job_name (ProxyFollowSync _ _) = ''ProxyFollowSync''"
| "job_name (AccountWithdrawUnfollowAll _ _) = ''AccountWithdrawUnfollowAll''"
| "job_name (FollowRequestsBulkAccept _) = ''FollowRequestsBulkAccept''"
| "job_name (BskyPostCommitDeferred _ _ _) = ''BskyPostCommitDeferred''"
| "job_name (BskyDmSend _) = ''BskyDmSend''"
| "job_name (BskyDmReactionAdd _ _ _) = ''BskyDmReactionAdd''"
| "job_name (BskyDmReactionRemove _ _ _) = ''BskyDmReactionRemove''"
| "job_name (BskyDmHide _ _) = ''BskyDmHide''"
| "job_name (RemoteFollowListSync _ _) = ''RemoteFollowListSync''"
| "job_name (RemoteActorResolve _) = ''RemoteActorResolve''"
| "job_name (LinkResolve _) = ''LinkResolve''"
| "job_name (DmRecipientResolve _ _) = ''DmRecipientResolve''"
| "job_name (RemoteFeaturedSync _) = ''RemoteFeaturedSync''"
| "job_name (RemoteProfileRefresh _) = ''RemoteProfileRefresh''"
| "job_name (AlsoKnownAsVerify _ _) = ''AlsoKnownAsVerify''"
| "job_name (RemoteAlsoKnownAsSync _) = ''RemoteAlsoKnownAsSync''"
| "job_name (RelayFollowSync _ _) = ''RelayFollowSync''"
| "job_name (OgpFetch _ _ _) = ''OgpFetch''"
| "job_name (LinkCardEmbedResolve _ _ _) = ''LinkCardEmbedResolve''"
| "job_name (RemoteInstanceInfoResolve _) = ''RemoteInstanceInfoResolve''"
| "job_name (FollowImportProcess _) = ''FollowImportProcess''"
| "job_name (BskyListMembershipResolve _) = ''BskyListMembershipResolve''"
| "job_name (PollFetch _) = ''PollFetch''"
| "job_name (PostMergeCleanup _ _) = ''PostMergeCleanup''"
| "job_name (MigrationFetchRepo _) = ''MigrationFetchRepo''"
| "job_name (MigrationRequestPlcSignature _) = ''MigrationRequestPlcSignature''"
| "job_name (MigrationImportProcess _) = ''MigrationImportProcess''"
| "job_name (MigrationDeactivateSource _) = ''MigrationDeactivateSource''"
| "job_name (MigrationImportFollows _) = ''MigrationImportFollows''"
| "job_name (FetchBridgeOriginal _ _ _) = ''FetchBridgeOriginal''"
| "job_name (BridgeUserLinkResolve _) = ''BridgeUserLinkResolve''"

section \<open>Retry configuration\<close>

record retry_config =
  max_attempts :: attempt_no
  base_delay_ms :: nat
  max_delay_ms :: nat

fun retry_config_for :: "job \<Rightarrow> retry_config" where
  "retry_config_for (ActorHistorySync _ _) =
     \<lparr>max_attempts = 3, base_delay_ms = 1000, max_delay_ms = 30000\<rparr>"
| "retry_config_for (ApDelivery _ _) =
     \<lparr>max_attempts = 10, base_delay_ms = 5000, max_delay_ms = 3600000\<rparr>"
| "retry_config_for (InboundActivityProcess _) =
     \<lparr>max_attempts = 3, base_delay_ms = 2000, max_delay_ms = 60000\<rparr>"
| "retry_config_for (ActorMetadataResolve _) =
     \<lparr>max_attempts = 3, base_delay_ms = 1000, max_delay_ms = 30000\<rparr>"
| "retry_config_for (AtpRepositoryPublish _ _) =
     \<lparr>max_attempts = 5, base_delay_ms = 500, max_delay_ms = 10000\<rparr>"
| "retry_config_for (BskyVideoPoll _) =
     \<lparr>max_attempts = 10, base_delay_ms = 3000, max_delay_ms = 3000\<rparr>"
| "retry_config_for (ProxyFollowSync _ _) =
     \<lparr>max_attempts = 10, base_delay_ms = 5000, max_delay_ms = 3600000\<rparr>"
| "retry_config_for (AccountWithdrawUnfollowAll _ _) =
     \<lparr>max_attempts = 10, base_delay_ms = 5000, max_delay_ms = 3600000\<rparr>"
| "retry_config_for (FollowRequestsBulkAccept _) =
     \<lparr>max_attempts = 10, base_delay_ms = 5000, max_delay_ms = 3600000\<rparr>"
| "retry_config_for (BskyPostCommitDeferred _ _ _) =
     \<lparr>max_attempts = 20, base_delay_ms = 3000, max_delay_ms = 3000\<rparr>"
| "retry_config_for (BskyDmSend _) =
     \<lparr>max_attempts = 10, base_delay_ms = 5000, max_delay_ms = 3600000\<rparr>"
| "retry_config_for (BskyDmReactionAdd _ _ _) =
     \<lparr>max_attempts = 10, base_delay_ms = 5000, max_delay_ms = 3600000\<rparr>"
| "retry_config_for (BskyDmReactionRemove _ _ _) =
     \<lparr>max_attempts = 10, base_delay_ms = 5000, max_delay_ms = 3600000\<rparr>"
| "retry_config_for (BskyDmHide _ _) =
     \<lparr>max_attempts = 10, base_delay_ms = 5000, max_delay_ms = 3600000\<rparr>"
| "retry_config_for (RemoteFollowListSync _ _) =
     \<lparr>max_attempts = 3, base_delay_ms = 1000, max_delay_ms = 30000\<rparr>"
| "retry_config_for (RemoteActorResolve _) =
     \<lparr>max_attempts = 3, base_delay_ms = 1000, max_delay_ms = 30000\<rparr>"
| "retry_config_for (LinkResolve _) =
     \<lparr>max_attempts = 3, base_delay_ms = 1000, max_delay_ms = 30000\<rparr>"
| "retry_config_for (DmRecipientResolve _ _) =
     \<lparr>max_attempts = 3, base_delay_ms = 1000, max_delay_ms = 30000\<rparr>"
| "retry_config_for (RemoteFeaturedSync _) =
     \<lparr>max_attempts = 3, base_delay_ms = 1000, max_delay_ms = 30000\<rparr>"
| "retry_config_for (RemoteProfileRefresh _) =
     \<lparr>max_attempts = 3, base_delay_ms = 1000, max_delay_ms = 30000\<rparr>"
| "retry_config_for (AlsoKnownAsVerify _ _) =
     \<lparr>max_attempts = 3, base_delay_ms = 1000, max_delay_ms = 30000\<rparr>"
| "retry_config_for (RemoteAlsoKnownAsSync _) =
     \<lparr>max_attempts = 3, base_delay_ms = 1000, max_delay_ms = 30000\<rparr>"
| "retry_config_for (RelayFollowSync _ _) =
     \<lparr>max_attempts = 10, base_delay_ms = 5000, max_delay_ms = 3600000\<rparr>"
| "retry_config_for (OgpFetch _ _ _) =
     \<lparr>max_attempts = 3, base_delay_ms = 2000, max_delay_ms = 30000\<rparr>"
| "retry_config_for (LinkCardEmbedResolve _ _ _) =
     \<lparr>max_attempts = 3, base_delay_ms = 2000, max_delay_ms = 30000\<rparr>"
| "retry_config_for (RemoteInstanceInfoResolve _) =
     \<lparr>max_attempts = 3, base_delay_ms = 2000, max_delay_ms = 30000\<rparr>"
| "retry_config_for (FollowImportProcess _) =
     \<lparr>max_attempts = 5, base_delay_ms = 2000, max_delay_ms = 60000\<rparr>"
| "retry_config_for (BskyListMembershipResolve _) =
     \<lparr>max_attempts = 3, base_delay_ms = 1000, max_delay_ms = 30000\<rparr>"
| "retry_config_for (PollFetch _) =
     \<lparr>max_attempts = 3, base_delay_ms = 2000, max_delay_ms = 30000\<rparr>"
| "retry_config_for (PostMergeCleanup _ _) =
     \<lparr>max_attempts = 5, base_delay_ms = 5000, max_delay_ms = 120000\<rparr>"
| "retry_config_for (MigrationFetchRepo _) =
     \<lparr>max_attempts = 5, base_delay_ms = 2000, max_delay_ms = 60000\<rparr>"
| "retry_config_for (MigrationRequestPlcSignature _) =
     \<lparr>max_attempts = 3, base_delay_ms = 2000, max_delay_ms = 30000\<rparr>"
| "retry_config_for (MigrationImportProcess _) =
     \<lparr>max_attempts = 5, base_delay_ms = 2000, max_delay_ms = 60000\<rparr>"
| "retry_config_for (MigrationDeactivateSource _) =
     \<lparr>max_attempts = 3, base_delay_ms = 2000, max_delay_ms = 30000\<rparr>"
| "retry_config_for (MigrationImportFollows _) =
     \<lparr>max_attempts = 5, base_delay_ms = 3000, max_delay_ms = 60000\<rparr>"
| "retry_config_for (FetchBridgeOriginal _ _ _) =
     \<lparr>max_attempts = 3, base_delay_ms = 2000, max_delay_ms = 30000\<rparr>"
| "retry_config_for (BridgeUserLinkResolve _) =
     \<lparr>max_attempts = 3, base_delay_ms = 2000, max_delay_ms = 30000\<rparr>"

text \<open>\<open>u64\<close> arithmetic of the back-off: \<open>checked_shl\<close> and \<open>saturating_mul\<close>.\<close>

definition u64_max :: nat where
  "u64_max = 2 ^ 64 - 1"

definition checked_shl_one :: "attempt_no \<Rightarrow> nat option" where
  "checked_shl_one n = (if unat n < 64 then Some (2 ^ unat n) else None)"

definition saturating_mul_u64 :: "nat \<Rightarrow> nat \<Rightarrow> nat" where
  "saturating_mul_u64 a b = min (a * b) u64_max"

definition backoff_delay_ms :: "retry_config \<Rightarrow> attempt_no \<Rightarrow> nat" where
  "backoff_delay_ms config attempt =
     min (saturating_mul_u64 (base_delay_ms config)
            (case checked_shl_one attempt of None \<Rightarrow> u64_max | Some v \<Rightarrow> v))
         (max_delay_ms config)"

section \<open>Dispatch\<close>

text \<open>
  Every job goes to one handler of the \<open>jobs\<close> modules. A handler is named by a constructor with
  the arguments it is called with; \<open>run\<close> stands for the handlers that return a \<open>String\<close> error
  (which becomes \<open>Transient\<close>), \<open>run_native\<close> for those that return a \<open>JobError\<close> themselves.
\<close>

datatype (plugins only: code size) string_handler =
    Run_actor_history_sync "string option" "string option"
  | Run_inbound_activity_process string
  | Run_actor_metadata_resolve int
  | Run_atp_repository_publish int string
  | Run_bsky_video_poll int
  | Run_proxy_follow_sync int bool
  | Run_account_withdraw_unfollow_all int string
  | Run_follow_requests_bulk_accept int
  | Run_bsky_post_commit_deferred int int int
  | Run_bsky_dm_send int
  | Run_bsky_dm_reaction_add int int string
  | Run_bsky_dm_reaction_remove int int string
  | Run_bsky_dm_reaction_hide int int
  | Run_remote_follow_list_sync int string
  | Run_remote_actor_resolve string
  | Run_link_resolve string
  | Run_dm_recipient_resolve int string
  | Run_remote_featured_sync int
  | Run_remote_profile_refresh int
  | Run_also_known_as_verify int int
  | Run_also_known_as_sync int
  | Run_relay_follow_sync int bool
  | Run_ogp_fetch int string int
  | Run_link_card_embed_resolve int int string
  | Run_remote_instance_info_resolve string
  | Run_follow_import int
  | Run_bsky_list_membership_resolve string
  | Run_poll_fetch int
  | Run_post_merge_cleanup int int
  | Run_fetch_bridge_original int string string
  | Run_bridge_user_link_resolve int

datatype (plugins only: code size) native_handler =
    Run_ap_delivery int ap_delivery_kind
  | Run_at_migration_fetch_repo int
  | Run_at_migration_request_plc_signature int
  | Run_at_migration_import_process int
  | Run_at_migration_deactivate_source int
  | Run_at_migration_import_follows int

fun from_string_err :: "string + unit \<Rightarrow> job_error + unit" where
  "from_string_err (Inl s) = Inl (job_error_from_string s)"
| "from_string_err (Inr u) = Inr u"

fun dispatch_job ::
  "(string_handler \<Rightarrow> string + unit) \<Rightarrow> (native_handler \<Rightarrow> job_error + unit) \<Rightarrow> job \<Rightarrow> job_error + unit"
where
  "dispatch_job run run_native (ActorHistorySync ap_uri at_did) =
     from_string_err (run (Run_actor_history_sync ap_uri at_did))"
| "dispatch_job run run_native (ApDelivery actor_id kind) =
     run_native (Run_ap_delivery actor_id kind)"
| "dispatch_job run run_native (InboundActivityProcess raw_activity) =
     from_string_err (run (Run_inbound_activity_process raw_activity))"
| "dispatch_job run run_native (ActorMetadataResolve actor_id) =
     from_string_err (run (Run_actor_metadata_resolve actor_id))"
| "dispatch_job run run_native (AtpRepositoryPublish actor_id commit_type) =
     from_string_err (run (Run_atp_repository_publish actor_id commit_type))"
| "dispatch_job run run_native (BskyVideoPoll media_file_id) =
     from_string_err (run (Run_bsky_video_poll media_file_id))"
| "dispatch_job run run_native (ProxyFollowSync target_actor_id want_follow) =
     from_string_err (run (Run_proxy_follow_sync target_actor_id want_follow))"
| "dispatch_job run run_native (AccountWithdrawUnfollowAll actor_id username) =
     from_string_err (run (Run_account_withdraw_unfollow_all actor_id username))"
| "dispatch_job run run_native (FollowRequestsBulkAccept actor_id) =
     from_string_err (run (Run_follow_requests_bulk_accept actor_id))"
| "dispatch_job run run_native (BskyPostCommitDeferred actor_id post_id pending_media_file_id) =
     from_string_err (run (Run_bsky_post_commit_deferred actor_id post_id pending_media_file_id))"
| "dispatch_job run run_native (BskyDmSend post_id) =
     from_string_err (run (Run_bsky_dm_send post_id))"
| "dispatch_job run run_native (BskyDmReactionAdd post_id actor_id content) =
     from_string_err (run (Run_bsky_dm_reaction_add post_id actor_id content))"
| "dispatch_job run run_native (BskyDmReactionRemove post_id actor_id content) =
     from_string_err (run (Run_bsky_dm_reaction_remove post_id actor_id content))"
| "dispatch_job run run_native (BskyDmHide post_id actor_id) =
     from_string_err (run (Run_bsky_dm_reaction_hide post_id actor_id))"
| "dispatch_job run run_native (RemoteFollowListSync actor_id direction) =
     from_string_err (run (Run_remote_follow_list_sync actor_id direction))"
| "dispatch_job run run_native (RemoteActorResolve uri) =
     from_string_err (run (Run_remote_actor_resolve uri))"
| "dispatch_job run run_native (LinkResolve url) =
     from_string_err (run (Run_link_resolve url))"
| "dispatch_job run run_native (DmRecipientResolve post_id uri) =
     from_string_err (run (Run_dm_recipient_resolve post_id uri))"
| "dispatch_job run run_native (RemoteFeaturedSync actor_id) =
     from_string_err (run (Run_remote_featured_sync actor_id))"
| "dispatch_job run run_native (RemoteProfileRefresh actor_id) =
     from_string_err (run (Run_remote_profile_refresh actor_id))"
| "dispatch_job run run_native (AlsoKnownAsVerify owner_actor_id target_actor_id) =
     from_string_err (run (Run_also_known_as_verify owner_actor_id target_actor_id))"
| "dispatch_job run run_native (RemoteAlsoKnownAsSync owner_actor_id) =
     from_string_err (run (Run_also_known_as_sync owner_actor_id))"
| "dispatch_job run run_native (RelayFollowSync relay_id want_follow) =
     from_string_err (run (Run_relay_follow_sync relay_id want_follow))"
| "dispatch_job run run_native (OgpFetch post_id url position) =
     from_string_err (run (Run_ogp_fetch post_id url position))"
| "dispatch_job run run_native (LinkCardEmbedResolve post_id position url) =
     from_string_err (run (Run_link_card_embed_resolve post_id position url))"
| "dispatch_job run run_native (RemoteInstanceInfoResolve domain) =
     from_string_err (run (Run_remote_instance_info_resolve domain))"
| "dispatch_job run run_native (FollowImportProcess request_id) =
     from_string_err (run (Run_follow_import request_id))"
| "dispatch_job run run_native (BskyListMembershipResolve list_uri) =
     from_string_err (run (Run_bsky_list_membership_resolve list_uri))"
| "dispatch_job run run_native (PollFetch post_id) =
     from_string_err (run (Run_poll_fetch post_id))"
| "dispatch_job run run_native (PostMergeCleanup survivor_post_id doomed_post_id) =
     from_string_err (run (Run_post_merge_cleanup survivor_post_id doomed_post_id))"
| "dispatch_job run run_native (MigrationFetchRepo request_id) =
     run_native (Run_at_migration_fetch_repo request_id)"
| "dispatch_job run run_native (MigrationRequestPlcSignature request_id) =
     run_native (Run_at_migration_request_plc_signature request_id)"
| "dispatch_job run run_native (MigrationImportProcess request_id) =
     run_native (Run_at_migration_import_process request_id)"
| "dispatch_job run run_native (MigrationDeactivateSource request_id) =
     run_native (Run_at_migration_deactivate_source request_id)"
| "dispatch_job run run_native (MigrationImportFollows request_id) =
     run_native (Run_at_migration_import_follows request_id)"
| "dispatch_job run run_native (FetchBridgeOriginal bridge_post_id target_uri protocol) =
     from_string_err (run (Run_fetch_bridge_original bridge_post_id target_uri protocol))"
| "dispatch_job run run_native (BridgeUserLinkResolve actor_id) =
     from_string_err (run (Run_bridge_user_link_resolve actor_id))"

text \<open>The jobs whose handler decides itself whether a failure is permanent.\<close>

fun has_native_errors :: "job \<Rightarrow> bool" where
  "has_native_errors (ApDelivery _ _) = True"
| "has_native_errors (MigrationFetchRepo _) = True"
| "has_native_errors (MigrationRequestPlcSignature _) = True"
| "has_native_errors (MigrationImportProcess _) = True"
| "has_native_errors (MigrationDeactivateSource _) = True"
| "has_native_errors (MigrationImportFollows _) = True"
| "has_native_errors _ = False"

lemmas [queue_defs] =
  job_error_from_string_def backoff_delay_ms_def checked_shl_one_def saturating_mul_u64_def

section \<open>Facts about the tables\<close>

lemma from_string_err_not_permanent [simp]: "from_string_err r \<noteq> Inl (Permanent m)"
  by (cases r) (auto simp: job_error_from_string_def)

lemma from_string_err_Inl:
  "from_string_err r = Inl e \<Longrightarrow> \<not> is_permanent e"
  by (cases r) (auto simp: job_error_from_string_def)

lemma retry_config_bounds:
  "0 < unat (max_attempts (retry_config_for j)) \<and> unat (max_attempts (retry_config_for j)) \<le> 20
   \<and> 0 < base_delay_ms (retry_config_for j)
   \<and> base_delay_ms (retry_config_for j) \<le> max_delay_ms (retry_config_for j)
   \<and> max_delay_ms (retry_config_for j) \<le> 3600000"
  by (cases j) simp_all

lemma backoff_delay_ms_le_max: "backoff_delay_ms c a \<le> max_delay_ms c"
  by (simp add: backoff_delay_ms_def)

text \<open>Without a bound on the width: the saturating arithmetic never shows.\<close>

lemma backoff_delay_ms_exact:
  assumes "0 < base_delay_ms c" and "max_delay_ms c \<le> u64_max"
  shows "backoff_delay_ms c a = min (base_delay_ms c * 2 ^ unat a) (max_delay_ms c)"
proof (cases "unat a < 64")
  case True
  then show ?thesis
    using assms by (auto simp: queue_defs min_def)
next
  case False
  then have "(2::nat) ^ 64 \<le> 2 ^ unat a"
    by (intro power_increasing) auto
  also have "(2::nat) ^ unat a \<le> base_delay_ms c * 2 ^ unat a"
    using assms(1) by simp
  finally have big: "max_delay_ms c \<le> base_delay_ms c * 2 ^ unat a"
    using assms(2) by (simp add: u64_max_def)
  have "u64_max \<le> base_delay_ms c * u64_max"
    using assms(1) by simp
  with False big assms(2) show ?thesis by (simp add: queue_defs)
qed

lemma backoff_delay_ms_mono:
  assumes "0 < base_delay_ms c" "max_delay_ms c \<le> u64_max" "a \<le> b"
  shows "backoff_delay_ms c a \<le> backoff_delay_ms c b"
proof -
  have "unat a \<le> unat b" using assms(3) by (simp add: word_le_nat_alt)
  then have "base_delay_ms c * 2 ^ unat a \<le> base_delay_ms c * 2 ^ unat b"
    by (intro mult_le_mono2 power_increasing) auto
  then show ?thesis
    using assms(1,2) by (simp add: backoff_delay_ms_exact min.coboundedI1 min_le_iff_disj)
qed

lemma retry_config_no_saturation:
  "0 < base_delay_ms (retry_config_for j)" "max_delay_ms (retry_config_for j) \<le> u64_max"
  using retry_config_bounds [of j] by (auto simp: u64_max_def)

section \<open>Properties\<close>

text \<open>
  The wait before the retry of attempt \<open>a\<close> of any job is exactly \<open>base * 2 ^ a\<close> milliseconds
  clamped to the job's maximum, for every 32-bit attempt number: the \<open>u64\<close> overflow guards of the
  code never change the value, and no wait is shorter than the base delay or longer than an hour.
\<close>

theorem backoff_matches_unbounded:
  "backoff_delay_ms (retry_config_for j) a =
     min (base_delay_ms (retry_config_for j) * 2 ^ unat a) (max_delay_ms (retry_config_for j))
   \<and> base_delay_ms (retry_config_for j) \<le> backoff_delay_ms (retry_config_for j) a
   \<and> backoff_delay_ms (retry_config_for j) a \<le> 3600000"
proof -
  have e: "backoff_delay_ms (retry_config_for j) a =
     min (base_delay_ms (retry_config_for j) * 2 ^ unat a) (max_delay_ms (retry_config_for j))"
    by (rule backoff_delay_ms_exact [OF retry_config_no_saturation])
  moreover have "base_delay_ms (retry_config_for j) * 1 \<le> base_delay_ms (retry_config_for j) * 2 ^ unat a"
    by (intro mult_le_mono2) simp
  ultimately show ?thesis
    using retry_config_bounds [of j] by (auto simp: min_def)
qed

text \<open>
  Only AP delivery and the account migration jobs can fail permanently: whatever the handlers
  do, dispatching any other job never yields a permanent error, so a failure of it is always
  subject to retry.
\<close>

theorem permanent_only_from_native_handlers:
  assumes "dispatch_job run run_native j = Inl (Permanent m)"
  shows "has_native_errors j"
  using assms by (cases j) simp_all

theorem permanent_only_from_native_handlers_witness:
  "dispatch_job (\<lambda>_. Inr ()) (\<lambda>_. Inl (Permanent ''no key'')) (ApDelivery 1 DeleteActor)
     = Inl (Permanent ''no key'')
   \<and> has_native_errors (ApDelivery 1 DeleteActor)"
proof -
  have h: "dispatch_job (\<lambda>_. Inr ()) (\<lambda>_. Inl (Permanent ''no key'')) (ApDelivery 1 DeleteActor)
     = Inl (Permanent ''no key'')" by simp
  show ?thesis using h permanent_only_from_native_handlers [OF h] by simp
qed

end
