(* ===== verification/Job_Queue.thy ===== *)
theory Job_Queue
  imports Jobs
begin

text \<open>
  What the worker may rely on when it takes jobs from a queue (the trait \<open>JobQueue\<close> of
  \<open>crates/seiran-common/src/traits.rs\<close>): a queue shows a list of waiting jobs, a job is inserted
  behind every job of the same or a higher priority, and the job at the front is the one taken.
  The locale \<open>job_queue\<close> states this as an interface and derives what a client sees of it.
\<close>

section \<open>The abstract queue\<close>

text \<open>Insertion in front of the first waiting job of a lower priority.\<close>

definition stable_insert :: "queued_job \<Rightarrow> queued_job list \<Rightarrow> queued_job list" where
  "stable_insert x xs =
     takeWhile (\<lambda>y. qj_priority x \<le> qj_priority y) xs @
     x # dropWhile (\<lambda>y. qj_priority x \<le> qj_priority y) xs"

definition by_priority :: "queued_job list \<Rightarrow> bool" where
  "by_priority xs \<longleftrightarrow> sorted (map (\<lambda>x. - qj_priority x) xs)"

text \<open>On a list ordered by priority the insertion is the library's stable insertion, mirrored.\<close>

lemma stable_insert_Cons:
  "stable_insert x (y # ys) =
     (if qj_priority x \<le> qj_priority y then y # stable_insert x ys else x # y # ys)"
  by (simp add: stable_insert_def)

lemma stable_insert_Nil [simp]: "stable_insert x [] = [x]"
  by (simp add: stable_insert_def)

lemma mset_stable_insert [simp]: "mset (stable_insert x xs) = add_mset x (mset xs)"
  by (induction xs) (auto simp: stable_insert_Cons)

lemma length_stable_insert [simp]: "length (stable_insert x xs) = Suc (length xs)"
  by (induction xs) (auto simp: stable_insert_Cons)

lemma by_priority_Cons:
  "by_priority (x # xs) \<longleftrightarrow> (\<forall>y \<in> set xs. qj_priority y \<le> qj_priority x) \<and> by_priority xs"
  by (auto simp: by_priority_def)

lemma set_stable_insert [simp]: "set (stable_insert x xs) = insert x (set xs)"
  by (metis mset_stable_insert set_mset_add_mset_insert set_mset_mset)

lemma by_priority_stable_insert: "by_priority xs \<Longrightarrow> by_priority (stable_insert x xs)"
  by (induction xs) (auto simp: stable_insert_Cons by_priority_Cons by_priority_def)

text \<open>Jobs of one priority keep the order in which they were inserted.\<close>

lemma filter_stable_insert:
  assumes "by_priority xs"
  shows "filter (\<lambda>y. qj_priority y = p) (stable_insert x xs) =
     filter (\<lambda>y. qj_priority y = p) xs @ (if qj_priority x = p then [x] else [])"
  using assms
proof (induction xs)
  case (Cons y ys)
  show ?case
  proof (cases "qj_priority x \<le> qj_priority y")
    case True
    with Cons show ?thesis by (auto simp: stable_insert_Cons by_priority_Cons)
  next
    case False
    with Cons.prems have "\<forall>z \<in> set (y # ys). qj_priority z < qj_priority x"
      by (auto simp: by_priority_Cons)
    then have "filter (\<lambda>z. qj_priority z = p) (y # ys) = []" if "qj_priority x = p"
      using that by (auto simp: filter_empty_conv)
    with False show ?thesis by (auto simp: stable_insert_Cons)
  qed
qed simp

text \<open>
  A history of a queue: pushes and pops in any order, with what the pops return. The abstract queue is a
  list, from whose front a job is taken.
\<close>

datatype queue_op = Op_Push queued_job | Op_Pop

fun run_ops :: "(queued_job \<Rightarrow> 'q \<Rightarrow> 'q) \<Rightarrow> ('q \<Rightarrow> (queued_job \<times> 'q) option) \<Rightarrow> queue_op list \<Rightarrow> 'q \<Rightarrow> queued_job option list \<times> 'q" where
  "run_ops push pop [] q = ([], q)"
| "run_ops push pop (Op_Push x # ops) q = run_ops push pop ops (push x q)"
| "run_ops push pop (Op_Pop # ops) q =
     (case pop q of None \<Rightarrow> apfst (Cons None) (run_ops push pop ops q)
      | Some (x, q') \<Rightarrow> apfst (Cons (Some x)) (run_ops push pop ops q'))"

fun take_front :: "queued_job list \<Rightarrow> (queued_job \<times> queued_job list) option" where
  "take_front [] = None" | "take_front (x # xs) = Some (x, xs)"

section \<open>The interface\<close>

locale job_queue =
  fixes push :: "queued_job \<Rightarrow> 'q \<Rightarrow> 'q"
    and pop :: "'q \<Rightarrow> (queued_job \<times> 'q) option"
    and waiting :: "'q \<Rightarrow> queued_job list"
    and room :: "'q \<Rightarrow> nat"
    and inv :: "'q \<Rightarrow> bool"
  assumes inv_push: "inv q \<Longrightarrow> 0 < room q \<Longrightarrow> inv (push x q)"
    and room_push: "inv q \<Longrightarrow> 0 < room q \<Longrightarrow> room (push x q) = room q - 1"
    and waiting_push: "inv q \<Longrightarrow> 0 < room q \<Longrightarrow> waiting (push x q) = stable_insert x (waiting q)"
    and pop_None: "inv q \<Longrightarrow> pop q = None \<longleftrightarrow> waiting q = []"
    and pop_Some: "inv q \<Longrightarrow> pop q = Some (x, q') \<Longrightarrow>
      waiting q = x # waiting q' \<and> inv q' \<and> room q' = room q"
begin

text \<open>Pushing a list of jobs, and taking jobs until none is left (at most \<open>n\<close>).\<close>

primrec push_all :: "queued_job list \<Rightarrow> 'q \<Rightarrow> 'q" where
  "push_all [] q = q"
| "push_all (x # xs) q = push_all xs (push x q)"

primrec take_jobs :: "nat \<Rightarrow> 'q \<Rightarrow> queued_job list" where
  "take_jobs 0 q = []"
| "take_jobs (Suc n) q = (case pop q of None \<Rightarrow> [] | Some (x, q') \<Rightarrow> x # take_jobs n q')"

lemma take_jobs_waiting: "inv q \<Longrightarrow> take_jobs n q = take n (waiting q)"
proof (induction n arbitrary: q)
  case (Suc n)
  show ?case
  proof (cases "pop q")
    case None
    with Suc.prems show ?thesis by (simp add: pop_None [symmetric])
  next
    case (Some r)
    with Suc show ?thesis by (cases r) (auto dest: pop_Some)
  qed
qed simp

lemma push_all_waiting:
  assumes "inv q" "length xs \<le> room q" "by_priority (waiting q)"
  shows "inv (push_all xs q) \<and> room (push_all xs q) = room q - length xs
    \<and> by_priority (waiting (push_all xs q))
    \<and> mset (waiting (push_all xs q)) = mset xs + mset (waiting q)
    \<and> filter (\<lambda>y. qj_priority y = p) (waiting (push_all xs q)) =
        filter (\<lambda>y. qj_priority y = p) (waiting q) @ filter (\<lambda>y. qj_priority y = p) xs"
  using assms
proof (induction xs arbitrary: q)
  case (Cons x xs)
  then show ?case
    by (auto simp: inv_push room_push waiting_push by_priority_stable_insert filter_stable_insert)
qed simp

text \<open>Forward simulation: every history of the queue is one of the abstract queue, with the same answers.\<close>

lemma run_ops_refines:
  assumes "inv q" "length (filter (\<lambda>op. op \<noteq> Op_Pop) ops) \<le> room q"
  shows "fst (run_ops push pop ops q) = fst (run_ops stable_insert take_front ops (waiting q))
    \<and> waiting (snd (run_ops push pop ops q)) = snd (run_ops stable_insert take_front ops (waiting q))
    \<and> inv (snd (run_ops push pop ops q))"
  using assms
proof (induction ops arbitrary: q)
  case (Cons op ops)
  show ?case
  proof (cases op)
    case (Op_Push x)
    then show ?thesis using Cons.IH [of "push x q"] Cons.prems
      by (simp add: inv_push room_push waiting_push)
  next
    case Op_Pop
    show ?thesis
    proof (cases "pop q")
      case None
      then show ?thesis using Op_Pop Cons.IH [of q] Cons.prems pop_None [of q] by simp
    next
      case (Some r)
      obtain x q' where r: "r = (x, q')" by (cases r)
      show ?thesis using Op_Pop Some r Cons.IH [of q'] Cons.prems pop_Some [of q x q'] by simp
    qed
  qed
qed simp

text \<open>
  The client's view: whatever is pushed into an empty queue comes out once, highest priority
  first, and in the order of insertion among jobs of one priority.
\<close>

lemma take_all_pushed:
  assumes "inv q" "waiting q = []" "length xs \<le> room q"
  shows "mset (take_jobs (length xs) (push_all xs q)) = mset xs
    \<and> by_priority (take_jobs (length xs) (push_all xs q))
    \<and> (\<forall>p. filter (\<lambda>y. qj_priority y = p) (take_jobs (length xs) (push_all xs q)) =
           filter (\<lambda>y. qj_priority y = p) xs)"
proof -
  note p = push_all_waiting [OF assms(1,3)]
  have w: "by_priority (waiting q)" using assms(2) by (simp add: by_priority_def)
  from p [OF w] have "length (waiting (push_all xs q)) = length xs"
    using assms(2) by (metis mset.simps(1) mset_eq_length add_0_right)
  then have "take_jobs (length xs) (push_all xs q) = waiting (push_all xs q)"
    using p [OF w] by (simp add: take_jobs_waiting)
  then show ?thesis using p [OF w] assms(2) by simp
qed

end

section \<open>A weaker interface\<close>

text \<open>
  A queue that only promises the priority order: a bag of jobs of which \<open>pop\<close> takes one with the
  highest priority. \<open>allowed\<close> bounds the jobs that may be pushed.
\<close>

locale priority_bag =
  fixes push :: "queued_job \<Rightarrow> 'q \<Rightarrow> 'q"
    and pop :: "'q \<Rightarrow> (queued_job \<times> 'q) option"
    and contents :: "'q \<Rightarrow> queued_job multiset"
    and room :: "'q \<Rightarrow> nat"
    and inv :: "'q \<Rightarrow> bool"
    and allowed :: "queued_job \<Rightarrow> bool"
  assumes inv_push: "inv q \<Longrightarrow> 0 < room q \<Longrightarrow> allowed x \<Longrightarrow> inv (push x q)"
    and room_push: "inv q \<Longrightarrow> 0 < room q \<Longrightarrow> allowed x \<Longrightarrow> room (push x q) = room q - 1"
    and contents_push: "inv q \<Longrightarrow> 0 < room q \<Longrightarrow> allowed x \<Longrightarrow> contents (push x q) = add_mset x (contents q)"
    and pop_None: "inv q \<Longrightarrow> pop q = None \<longleftrightarrow> contents q = {#}"
    and pop_Some: "inv q \<Longrightarrow> pop q = Some (x, q') \<Longrightarrow>
      contents q = add_mset x (contents q') \<and> (\<forall>y \<in># contents q'. qj_priority y \<le> qj_priority x)
      \<and> inv q' \<and> room q' = room q"
begin

primrec fill :: "queued_job list \<Rightarrow> 'q \<Rightarrow> 'q" where
  "fill [] q = q"
| "fill (x # xs) q = fill xs (push x q)"

primrec drain :: "nat \<Rightarrow> 'q \<Rightarrow> queued_job list" where
  "drain 0 q = []"
| "drain (Suc n) q = (case pop q of None \<Rightarrow> [] | Some (x, q') \<Rightarrow> x # drain n q')"

lemma fill_contents:
  assumes "inv q" "length xs \<le> room q" "list_all allowed xs"
  shows "inv (fill xs q) \<and> contents (fill xs q) = mset xs + contents q"
  using assms by (induction xs arbitrary: q) (auto simp: inv_push room_push contents_push)

lemma drain_contents:
  "inv q \<Longrightarrow> size (contents q) \<le> n \<Longrightarrow> mset (drain n q) = contents q \<and> by_priority (drain n q)"
proof (induction n arbitrary: q)
  case (Suc n)
  show ?case
  proof (cases "pop q")
    case None
    with Suc.prems show ?thesis using pop_None [of q] by (simp add: by_priority_def)
  next
    case (Some r)
    obtain x q' where r: "r = (x, q')" by (cases r)
    note p = pop_Some [OF Suc.prems(1) Some [unfolded r]]
    then have ih: "mset (drain n q') = contents q'" "by_priority (drain n q')"
      using Suc.IH [of q'] Suc.prems(2) by simp_all
    then have "set (drain n q') = set_mset (contents q')" by (metis set_mset_mset)
    with p ih show ?thesis by (simp add: Some r by_priority_Cons)
  qed
qed (simp add: by_priority_def)

lemma drain_filled:
  assumes "inv q" "contents q = {#}" "length xs \<le> room q" "list_all allowed xs"
  shows "mset (drain (length xs) (fill xs q)) = mset xs \<and> by_priority (drain (length xs) (fill xs q))"
  using fill_contents [OF assms(1,3,4)] assms(2) drain_contents [of "fill xs q" "length xs"] by simp

end

text \<open>The stable queue is such a bag.\<close>

sublocale job_queue \<subseteq> bag: priority_bag push pop "\<lambda>q. mset (waiting q)" room
  "\<lambda>q. inv q \<and> by_priority (waiting q)" "\<lambda>x. True"
proof (unfold_locales, goal_cases)
  case (5 q x q')
  then have "waiting q = x # waiting q' \<and> inv q' \<and> room q' = room q" by (intro pop_Some) simp_all
  with 5 show ?case by (simp add: by_priority_Cons)
qed (simp_all add: inv_push room_push waiting_push by_priority_stable_insert pop_None)

end
