(* ===== verification/Memory_Queue.thy ===== *)
theory Memory_Queue
  imports Job_Queue
begin

text \<open>
  The in-process queue \<open>InMemoryJobQueue\<close> of
  \<open>crates/seiran-common/src/queue/memory.rs\<close>: a \<open>BinaryHeap\<close> of \<open>PrioritizedJob\<close>s under a
  mutex, a sequence counter and a \<open>Notify\<close>. The heap of the standard library is its collection
  of entries, of which \<open>pop\<close> removes a greatest one in the order of \<open>impl Ord\<close>. The
  counter is a \<open>u64\<close> and wraps.

  The second half is the queue with its concurrent actors (producers, the sleeping retry tasks
  and one consumer in \<open>dequeue\<close>) as a step relation, with the permit of \<open>Notify\<close>.
\<close>

section \<open>Entries and their order\<close>

text \<open>\<open>impl Ord for PrioritizedJob\<close> reads the priority and the sequence number only.\<close>

datatype job_key = JobKey (key_priority: int) (key_sequence: nat)

definition job_key_le :: "job_key \<Rightarrow> job_key \<Rightarrow> bool" where
  "job_key_le a b \<longleftrightarrow> key_priority a < key_priority b
     \<or> (key_priority a = key_priority b \<and> key_sequence b \<le> key_sequence a)"

instantiation job_key :: linorder
begin

definition less_eq_job_key :: "job_key \<Rightarrow> job_key \<Rightarrow> bool" where
  "less_eq_job_key = job_key_le"

definition less_job_key :: "job_key \<Rightarrow> job_key \<Rightarrow> bool" where
  "less_job_key a b \<longleftrightarrow> job_key_le a b \<and> \<not> job_key_le b a"

instance
  by standard (auto simp: less_eq_job_key_def less_job_key_def job_key_le_def job_key.expand)

end

record prioritized_job =
  pj_priority :: int
  pj_sequence :: nat
  pj_attempt :: attempt_no
  pj_job :: job

definition pj_key :: "prioritized_job \<Rightarrow> job_key" where
  "pj_key pj = JobKey (pj_priority pj) (pj_sequence pj)"

definition queued_of :: "prioritized_job \<Rightarrow> queued_job" where
  "queued_of pj = \<lparr>qj_job = pj_job pj, qj_priority = pj_priority pj, qj_attempt = pj_attempt pj\<rparr>"

lemma qj_priority_queued_of [simp]: "qj_priority (queued_of pj) = pj_priority pj"
  by (simp add: queued_of_def)

section \<open>The queue\<close>

record inner_queue =
  heap :: "prioritized_job list"
  sequence :: nat

definition mq_new :: inner_queue where
  "mq_new = \<lparr>heap = [], sequence = 0\<rparr>"

text \<open>\<open>BinaryHeap::pop\<close>: a greatest entry and the others.\<close>

fun heap_pop :: "prioritized_job list \<Rightarrow> (prioritized_job \<times> prioritized_job list) option" where
  "heap_pop [] = None"
| "heap_pop (x # xs) =
     (case heap_pop xs of None \<Rightarrow> Some (x, [])
      | Some (m, rest) \<Rightarrow> if pj_key x < pj_key m then Some (m, x # rest) else Some (x, xs))"

definition mq_push :: "job \<Rightarrow> int \<Rightarrow> attempt_no \<Rightarrow> inner_queue \<Rightarrow> inner_queue" where
  "mq_push j priority attempt q =
     (let seq = (sequence q + 1) mod 2 ^ 64
      in \<lparr>heap = \<lparr>pj_priority = priority, pj_sequence = seq, pj_attempt = attempt, pj_job = j\<rparr> # heap q,
          sequence = seq\<rparr>)"

text \<open>\<open>JobQueue::enqueue\<close> pushes with attempt 0.\<close>

definition mq_enqueue :: "job \<Rightarrow> int \<Rightarrow> inner_queue \<Rightarrow> inner_queue" where
  "mq_enqueue j priority q = mq_push j priority 0 q"

text \<open>One non-blocking attempt to take a job.\<close>

definition mq_try_dequeue :: "inner_queue \<Rightarrow> (queued_job \<times> inner_queue) option" where
  "mq_try_dequeue q =
     (case heap_pop (heap q) of None \<Rightarrow> None
      | Some (pj, rest) \<Rightarrow> Some (queued_of pj, q\<lparr>heap := rest\<rparr>))"

definition mq_len :: "inner_queue \<Rightarrow> nat" where
  "mq_len q = length (heap q)"

definition mq_is_empty :: "inner_queue \<Rightarrow> bool" where
  "mq_is_empty q \<longleftrightarrow> heap q = []"

lemmas [queue_defs] = mq_new_def mq_push_def mq_enqueue_def mq_try_dequeue_def mq_len_def

section \<open>Refinement of the abstract queue\<close>

text \<open>
  The waiting jobs of a heap, first the one that \<open>pop\<close> takes. Sequence numbers are distinct and
  at most the counter as long as the counter has not wrapped.
\<close>

definition heap_order :: "prioritized_job list \<Rightarrow> prioritized_job list" where
  "heap_order h = rev (sort_key pj_key h)"

definition mq_waiting :: "inner_queue \<Rightarrow> queued_job list" where
  "mq_waiting q = map queued_of (heap_order (heap q))"

definition mq_room :: "inner_queue \<Rightarrow> nat" where
  "mq_room q = 2 ^ 64 - 1 - sequence q"

definition mq_inv :: "inner_queue \<Rightarrow> bool" where
  "mq_inv q \<longleftrightarrow> distinct (map pj_sequence (heap q)) \<and> (\<forall>pj \<in> set (heap q). pj_sequence pj \<le> sequence q)
     \<and> sequence q < 2 ^ 64"

lemma heap_pop_None [simp]: "heap_pop h = None \<longleftrightarrow> h = []"
  by (cases h) (auto split: option.splits prod.splits)

lemma heap_pop_Some:
  assumes "heap_pop h = Some (m, rest)"
  shows "mset h = add_mset m (mset rest) \<and> (\<forall>x \<in> set h. pj_key x \<le> pj_key m)"
  using assms
proof (induction h arbitrary: m rest)
  case (Cons x xs)
  show ?case
  proof (cases "heap_pop xs")
    case None
    with Cons.prems show ?thesis by auto
  next
    case (Some r)
    then obtain n rest' where r: "heap_pop xs = Some (n, rest')" by (cases r) auto
    from Cons.IH [OF r] have m: "mset xs = add_mset n (mset rest')" "\<forall>y \<in> set xs. pj_key y \<le> pj_key n"
      by auto
    from m(1) have "n \<in> set xs" by (metis set_mset_mset union_single_eq_member)
    with Cons.prems r m show ?thesis by (auto split: if_splits)
  qed
qed simp

text \<open>Keys are distinct, so a sorted list is determined by its elements.\<close>

definition key_desc :: "prioritized_job list \<Rightarrow> bool" where
  "key_desc xs \<longleftrightarrow> sorted_wrt (\<lambda>a b. pj_key b \<le> pj_key a) xs"

lemma key_desc_Cons:
  "key_desc (x # xs) \<longleftrightarrow> (\<forall>y \<in> set xs. pj_key y \<le> pj_key x) \<and> key_desc xs"
  by (simp add: key_desc_def)

lemma key_desc_heap_order [simp]: "key_desc (heap_order h)"
  by (simp add: key_desc_def heap_order_def sorted_wrt_rev flip: sorted_wrt_map)

lemma mset_heap_order [simp]: "mset (heap_order h) = mset h"
  by (simp add: heap_order_def)

lemma set_heap_order [simp]: "set (heap_order h) = set h"
  by (simp add: heap_order_def)

text \<open>Distinct sequence numbers make the order unique.\<close>

lemma heap_order_unique:
  assumes "key_desc xs" "mset xs = mset h" "distinct (map pj_sequence h)"
  shows "heap_order h = xs"
proof -
  have "inj_on pj_key (set h)"
    using assms(3) by (auto simp: distinct_map inj_on_def pj_key_def)
  moreover have "sorted (map pj_key (rev xs))"
    using assms(1) by (simp add: key_desc_def sorted_wrt_map sorted_wrt_rev rev_map)
  ultimately have "sort_key pj_key h = rev xs"
    using assms(2) by (simp add: sort_key_inj_key_eq)
  then show ?thesis by (simp add: heap_order_def)
qed

lemma heap_order_pop:
  assumes "heap_pop h = Some (m, rest)" "distinct (map pj_sequence h)"
  shows "heap_order h = m # heap_order rest"
proof -
  from heap_pop_Some [OF assms(1)]
  have m: "mset h = add_mset m (mset rest)" and max: "\<forall>x \<in> set h. pj_key x \<le> pj_key m" by auto
  from m have "set h = insert m (set rest)" by (metis set_mset_add_mset_insert set_mset_mset)
  with max show ?thesis
    using m assms(2) by (intro heap_order_unique) (auto simp: key_desc_Cons)
qed

fun pj_insert :: "prioritized_job \<Rightarrow> prioritized_job list \<Rightarrow> prioritized_job list" where
  "pj_insert x [] = [x]"
| "pj_insert x (y # ys) =
     (if pj_priority x \<le> pj_priority y then y # pj_insert x ys else x # y # ys)"

lemma set_pj_insert [simp]: "set (pj_insert x xs) = insert x (set xs)"
  by (induction xs) auto

lemma mset_pj_insert [simp]: "mset (pj_insert x xs) = add_mset x (mset xs)"
  by (induction xs) auto

lemma key_desc_pj_insert:
  "key_desc xs \<Longrightarrow> \<forall>y \<in> set xs. pj_sequence y < pj_sequence x \<Longrightarrow> key_desc (pj_insert x xs)"
  by (induction xs) (force simp: key_desc_Cons pj_key_def less_eq_job_key_def job_key_le_def key_desc_def)+

lemma map_queued_of_pj_insert:
  "map queued_of (pj_insert x xs) = stable_insert (queued_of x) (map queued_of xs)"
  by (induction xs) (auto simp: stable_insert_Cons)

lemma heap_order_push:
  assumes "distinct (map pj_sequence h)" "\<forall>y \<in> set h. pj_sequence y < pj_sequence x"
  shows "heap_order (x # h) = pj_insert x (heap_order h)"
  using assms by (intro heap_order_unique) (auto simp: key_desc_pj_insert)

text \<open>The laws of the interface.\<close>

definition mq_push_queued :: "queued_job \<Rightarrow> inner_queue \<Rightarrow> inner_queue" where
  "mq_push_queued x q = mq_push (qj_job x) (qj_priority x) (qj_attempt x) q"

lemma mq_inv_new [simp]: "mq_inv mq_new" "mq_waiting mq_new = []" "mq_room mq_new = 2 ^ 64 - 1"
  by (simp_all add: mq_inv_def mq_waiting_def mq_room_def mq_new_def heap_order_def)

lemma mq_push_laws:
  assumes "mq_inv q" "0 < mq_room q"
  shows "mq_inv (mq_push_queued x q)" "mq_room (mq_push_queued x q) = mq_room q - 1"
    "mq_waiting (mq_push_queued x q) = stable_insert x (mq_waiting q)"
proof -
  from assms have s: "sequence q + 1 < 2 ^ 64"
    by (simp add: mq_room_def)
  then have m: "(sequence q + 1) mod 2 ^ 64 = sequence q + 1"
    by (rule mod_less)
  show "mq_inv (mq_push_queued x q)"
    using assms s unfolding mq_push_queued_def mq_push_def m Let_def
    by (auto simp: mq_inv_def)
  show "mq_room (mq_push_queued x q) = mq_room q - 1"
    unfolding mq_push_queued_def mq_push_def m Let_def by (simp add: mq_room_def)
  have "queued_of \<lparr>pj_priority = qj_priority x, pj_sequence = sequence q + 1,
      pj_attempt = qj_attempt x, pj_job = qj_job x\<rparr> = x"
    by (simp add: queued_of_def)
  then show "mq_waiting (mq_push_queued x q) = stable_insert x (mq_waiting q)"
    using assms(1) unfolding mq_push_queued_def mq_push_def m Let_def
    by (subst mq_waiting_def, simp, subst heap_order_push)
       (auto simp: mq_inv_def mq_waiting_def map_queued_of_pj_insert)
qed

lemma mq_try_dequeue_laws:
  assumes "mq_inv q" "mq_try_dequeue q = Some (x, q')"
  shows "mq_waiting q = x # mq_waiting q'" "mq_inv q'" "mq_room q' = mq_room q"
proof -
  from assms(2) obtain pj rest where h: "heap_pop (heap q) = Some (pj, rest)"
    and x: "x = queued_of pj" "q' = q\<lparr>heap := rest\<rparr>"
    by (auto simp: mq_try_dequeue_def split: option.splits)
  from assms(1) have d: "distinct (map pj_sequence (heap q))" by (simp add: mq_inv_def)
  from heap_pop_Some [OF h] have m: "mset (heap q) = add_mset pj (mset rest)" by simp
  show "mq_waiting q = x # mq_waiting q'"
    using x by (simp add: mq_waiting_def heap_order_pop [OF h d])
  have "mset (map pj_sequence (heap q)) = mset (map pj_sequence (pj # rest))"
    using m by simp
  then have "distinct (map pj_sequence (pj # rest))"
    using d by (metis mset_eq_imp_distinct_iff)
  moreover have "set (heap q) = insert pj (set rest)"
    using m by (metis set_mset_add_mset_insert set_mset_mset)
  ultimately show "mq_inv q'" using assms(1) x by (auto simp: mq_inv_def)
  show "mq_room q' = mq_room q" using x by (simp add: mq_room_def)
qed

lemma mq_try_dequeue_None [simp]: "mq_try_dequeue q = None \<longleftrightarrow> mq_waiting q = []"
proof -
  have "mq_try_dequeue q = None \<longleftrightarrow> heap q = []"
    by (auto simp: mq_try_dequeue_def split: option.splits)
  also have "\<dots> \<longleftrightarrow> mq_waiting q = []"
    by (auto simp: mq_waiting_def heap_order_def simp flip: set_empty2)
  finally show ?thesis .
qed

interpretation mem: job_queue mq_push_queued mq_try_dequeue mq_waiting mq_room mq_inv
  by unfold_locales (auto simp: mq_push_laws dest: mq_try_dequeue_laws)

section \<open>The queue and its actors\<close>

text \<open>
  \<open>enqueue\<close> pushes and calls \<open>notify_one\<close>; \<open>enqueue_retry\<close> spawns a task that sleeps and then
  does the same; \<open>dequeue\<close> tries to pop under the lock and otherwise waits for a notification
  or the shutdown token. \<open>notify_one\<close> stores one permit (or wakes the waiter, which consumes it);
  the push and the notification of one call have no \<open>await\<close> between them that another actor
  could see half done other than through the lock, so they are one step here.
\<close>

datatype consumer = Checking | Waiting | Returned queued_job | Returned_None

record mq_system =
  inner :: inner_queue
  permit :: bool
  sleeping :: "queued_job multiset"
  consumer :: consumer
  cancelled :: bool
  submitted :: "queued_job multiset" \<comment> \<open>history: every job handed to the queue\<close>
  delivered :: "queued_job multiset" \<comment> \<open>history: every job \<open>dequeue\<close> returned\<close>

definition mq_system_new :: mq_system where
  "mq_system_new = \<lparr>inner = mq_new, permit = False, sleeping = {#}, consumer = Checking,
     cancelled = False, submitted = {#}, delivered = {#}\<rparr>"

text \<open>The push with its notification.\<close>

definition push_notify :: "queued_job \<Rightarrow> mq_system \<Rightarrow> mq_system" where
  "push_notify x s = s\<lparr>inner := mq_push_queued x (inner s), permit := True\<rparr>"

inductive mq_step :: "mq_system \<Rightarrow> mq_system \<Rightarrow> bool" where
  enqueue: "qj_attempt x = 0 \<Longrightarrow> 0 < mq_room (inner s) \<Longrightarrow>
     mq_step s (push_notify x s\<lparr>submitted := add_mset x (submitted s)\<rparr>)"
| enqueue_retry: "mq_step s (s\<lparr>sleeping := add_mset x (sleeping s),
     submitted := add_mset x (submitted s)\<rparr>)"
| delay_over: "x \<in># sleeping s \<Longrightarrow> 0 < mq_room (inner s) \<Longrightarrow>
     mq_step s (push_notify x s\<lparr>sleeping := sleeping s - {#x#}\<rparr>)"
| take: "consumer s = Checking \<Longrightarrow> mq_try_dequeue (inner s) = Some (x, q') \<Longrightarrow>
     mq_step s (s\<lparr>inner := q', consumer := Returned x, delivered := add_mset x (delivered s)\<rparr>)"
| wait: "consumer s = Checking \<Longrightarrow> mq_try_dequeue (inner s) = None \<Longrightarrow>
     mq_step s (s\<lparr>consumer := Waiting\<rparr>)"
| notified: "consumer s = Waiting \<Longrightarrow> permit s \<Longrightarrow>
     mq_step s (s\<lparr>consumer := Checking, permit := False\<rparr>)"
| shut: "consumer s = Waiting \<Longrightarrow> cancelled s \<Longrightarrow> mq_step s (s\<lparr>consumer := Returned_None\<rparr>)"
| cancel: "mq_step s (s\<lparr>cancelled := True\<rparr>)"
| call_again: "consumer s = Returned x \<Longrightarrow> mq_step s (s\<lparr>consumer := Checking\<rparr>)"

inductive mq_reachable :: "mq_system \<Rightarrow> bool" where
  start: "mq_reachable mq_system_new"
| step: "mq_reachable s \<Longrightarrow> mq_step s t \<Longrightarrow> mq_reachable t"

text \<open>
  No notification is lost (a consumer that waits while jobs are waiting has a permit to wake it)
  and no job is lost or duplicated.
\<close>

definition mq_system_inv :: "mq_system \<Rightarrow> bool" where
  "mq_system_inv s \<longleftrightarrow> mq_inv (inner s)
     \<and> (consumer s = Waiting \<longrightarrow> mq_waiting (inner s) \<noteq> [] \<longrightarrow> permit s)
     \<and> submitted s = delivered s + mset (mq_waiting (inner s)) + sleeping s"

lemma mq_system_inv_new: "mq_system_inv mq_system_new"
  by (simp add: mq_system_inv_def mq_system_new_def)

lemma mq_system_inv_push_notify:
  assumes "mq_system_inv s" "0 < mq_room (inner s)"
  shows "mq_inv (inner (push_notify x s))" "permit (push_notify x s)"
    "mset (mq_waiting (inner (push_notify x s))) = add_mset x (mset (mq_waiting (inner s)))"
  using assms by (auto simp: push_notify_def mq_system_inv_def mq_push_laws)

lemma mq_step_inv: "mq_step s t \<Longrightarrow> mq_system_inv s \<Longrightarrow> mq_system_inv t"
proof (induction rule: mq_step.induct)
  case (enqueue x s)
  then show ?case
    using mq_system_inv_push_notify [of s x] by (auto simp: mq_system_inv_def push_notify_def)
next
  case (delay_over x s)
  then have "sleeping s = add_mset x (sleeping s - {#x#})" by simp
  with delay_over show ?case
    using mq_system_inv_push_notify [of s x]
    by (auto simp: mq_system_inv_def push_notify_def)
next
  case (take s x q')
  then show ?case
    using mq_try_dequeue_laws [of "inner s" x q'] by (auto simp: mq_system_inv_def)
qed (auto simp: mq_system_inv_def)

lemma mq_reachable_inv: "mq_reachable s \<Longrightarrow> mq_system_inv s"
  by (induction rule: mq_reachable.induct) (auto simp: mq_system_inv_new dest: mq_step_inv)

section \<open>Properties\<close>

text \<open>
  C8. Priority and FIFO order of the in-process queue: after pushing any list of jobs (fewer than
  2^64) into a new queue, taking that many jobs gives every job once, in descending priority, and
  jobs of one priority in the order in which they were pushed.
\<close>

theorem memory_queue_drains_stably:
  assumes "length xs < 2 ^ 64"
  shows "mset (mem.take_jobs (length xs) (mem.push_all xs mq_new)) = mset xs
    \<and> by_priority (mem.take_jobs (length xs) (mem.push_all xs mq_new))
    \<and> (\<forall>p. filter (\<lambda>y. qj_priority y = p) (mem.take_jobs (length xs) (mem.push_all xs mq_new)) =
           filter (\<lambda>y. qj_priority y = p) xs)"
  using assms by (intro mem.take_all_pushed) auto

definition demo_jobs :: "queued_job list" where
  "demo_jobs = [\<lparr>qj_job = BskyVideoPoll 1, qj_priority = 10, qj_attempt = 0\<rparr>,
     \<lparr>qj_job = BskyVideoPoll 2, qj_priority = 50, qj_attempt = 0\<rparr>,
     \<lparr>qj_job = BskyVideoPoll 3, qj_priority = 10, qj_attempt = 0\<rparr>,
     \<lparr>qj_job = BskyVideoPoll 4, qj_priority = 50, qj_attempt = 0\<rparr>]"

theorem memory_queue_drains_stably_witness:
  "length demo_jobs < 2 ^ 64
   \<and> by_priority (mem.take_jobs 4 (mem.push_all demo_jobs mq_new))
   \<and> filter (\<lambda>y. qj_priority y = 50) (mem.take_jobs 4 (mem.push_all demo_jobs mq_new)) =
       filter (\<lambda>y. qj_priority y = 50) demo_jobs"
proof -
  have l: "length demo_jobs = 4" by (simp add: demo_jobs_def)
  then have h: "length demo_jobs < 2 ^ 64" by simp
  show ?thesis using memory_queue_drains_stably [OF h] h by (simp add: l)
qed

text \<open>
  C9. Refinement of a stable priority queue: from the empty queue, any sequence of pushes and pops, fewer
  than \<open>2 ^ 64\<close> pushes among them, returns what it returns on the abstract queue, where a push inserts
  behind every job of the same or a higher priority and a pop takes the front, and leaves the same jobs
  waiting in the same order; the length and the emptiness that the queue reports are those of the abstract queue.
\<close>

theorem memory_queue_refines:
  assumes "length (filter (\<lambda>op. op \<noteq> Op_Pop) ops) < 2 ^ 64"
    and "run_ops mq_push_queued mq_try_dequeue ops mq_new = (out, q)"
  shows "run_ops stable_insert take_front ops [] = (out, mq_waiting q)
    \<and> mq_len q = length (mq_waiting q) \<and> (mq_is_empty q \<longleftrightarrow> mq_waiting q = [])"
proof -
  have "length (filter (\<lambda>op. op \<noteq> Op_Pop) ops) \<le> mq_room mq_new" using assms(1) by simp
  then have "run_ops stable_insert take_front ops [] = (out, mq_waiting q)"
    using mem.run_ops_refines [of mq_new ops] assms(2) by (simp add: prod_eq_iff)
  moreover have "mq_len q = length (mq_waiting q)"
    by (simp add: mq_len_def mq_waiting_def heap_order_def)
  ultimately show ?thesis by (auto simp: mq_is_empty_def mq_len_def)
qed

definition demo_ops :: "queue_op list" where
  "demo_ops = [Op_Pop, Op_Push (demo_jobs ! 0), Op_Push (demo_jobs ! 1), Op_Pop, Op_Push (demo_jobs ! 3), Op_Push (demo_jobs ! 2), Op_Pop, Op_Pop]"

theorem memory_queue_refines_witness:
  "run_ops stable_insert take_front demo_ops []
     = ([None, Some (demo_jobs ! 1), Some (demo_jobs ! 3), Some (demo_jobs ! 0)], [demo_jobs ! 2])
   \<and> fst (run_ops mq_push_queued mq_try_dequeue demo_ops mq_new)
     = [None, Some (demo_jobs ! 1), Some (demo_jobs ! 3), Some (demo_jobs ! 0)]"
proof -
  obtain out q where c: "run_ops mq_push_queued mq_try_dequeue demo_ops mq_new = (out, q)" by fastforce
  have l: "length (filter (\<lambda>op. op \<noteq> Op_Pop) demo_ops) < 2 ^ 64" by (simp add: demo_ops_def)
  have a: "run_ops stable_insert take_front demo_ops []
     = ([None, Some (demo_jobs ! 1), Some (demo_jobs ! 3), Some (demo_jobs ! 0)], [demo_jobs ! 2])"
    by (simp add: demo_ops_def demo_jobs_def stable_insert_Cons)
  then show ?thesis using memory_queue_refines [OF l c] c by simp
qed

text \<open>
  C21. No lost wake-up and no lost job: in every reachable state of the queue with its producers,
  its sleeping retries and its consumer, a consumer that waits while a job is in the heap has a
  permit that wakes it, and the jobs handed to the queue are exactly those delivered, those in
  the heap and those whose delay is still running.
\<close>

theorem memory_queue_no_lost_job:
  assumes "mq_reachable s"
  shows "(consumer s = Waiting \<longrightarrow> mq_waiting (inner s) \<noteq> [] \<longrightarrow> (\<exists>t. mq_step s t \<and> consumer t = Checking))
    \<and> submitted s = delivered s + mset (mq_waiting (inner s)) + sleeping s"
  using mq_reachable_inv [OF assms] mq_step.notified [of s] by (force simp: mq_system_inv_def)

text \<open>A consumer that found the queue empty, and a job pushed while it waits.\<close>

definition demo_waiting :: mq_system where
  "demo_waiting = (let x = \<lparr>qj_job = BskyVideoPoll 1, qj_priority = 10, qj_attempt = 0\<rparr>;
     s = mq_system_new\<lparr>consumer := Waiting\<rparr>
     in push_notify x s\<lparr>submitted := add_mset x (submitted s)\<rparr>)"

lemma demo_waiting_reachable: "mq_reachable demo_waiting"
proof -
  have "mq_step mq_system_new (mq_system_new\<lparr>consumer := Waiting\<rparr>)"
    by (rule mq_step.wait) (simp_all add: mq_system_new_def)
  with mq_reachable.start have r: "mq_reachable (mq_system_new\<lparr>consumer := Waiting\<rparr>)"
    by (rule mq_reachable.step)
  show ?thesis unfolding demo_waiting_def Let_def
    by (rule mq_reachable.step [OF r], rule mq_step.enqueue) (simp_all add: mq_system_new_def)
qed

theorem memory_queue_no_lost_job_witness:
  "mq_reachable demo_waiting \<and> consumer demo_waiting = Waiting
   \<and> (\<exists>t. mq_step demo_waiting t \<and> consumer t = Checking)"
proof -
  have c: "consumer demo_waiting = Waiting"
    by (simp add: demo_waiting_def Let_def push_notify_def)
  have "mq_waiting (inner demo_waiting) \<noteq> []"
    by (simp add: demo_waiting_def Let_def push_notify_def mq_system_new_def mq_push_laws)
  with c show ?thesis
    using memory_queue_no_lost_job [OF demo_waiting_reachable] demo_waiting_reachable by blast
qed

end
