(* ===== verification/Worker.thy ===== *)
theory Worker
  imports Memory_Queue
begin

text \<open>
  The worker engine (\<open>crates/seiran-common/src/queue/worker.rs\<close>): one execution of a job with its
  retry decision (\<open>execute_with_retry\<close>) and the main loop \<open>WorkerEngine::run\<close> with its semaphore
  and its graceful stop, over the in-process queue.
\<close>

section \<open>One execution\<close>

text \<open>What the worker did with the job; the code only logs it.\<close>

datatype exec_result =
    Completed
  | Discarded_permanent job_error
  | Retried attempt_no nat
  | Lost_on_requeue string
  | Discarded_exhausted job_error

text \<open>
  \<open>dispatch\<close> is \<open>dispatch_job\<close> with its handlers, \<open>requeue\<close> the queue's \<open>enqueue_retry\<close> (job,
  priority, attempt, delay in milliseconds), \<open>rnd\<close> the random \<open>u32\<close> of the jitter.
\<close>

definition execute_with_retry ::
  "(job \<Rightarrow> job_error + unit) \<Rightarrow> (job \<Rightarrow> int \<Rightarrow> attempt_no \<Rightarrow> nat \<Rightarrow> 'q \<Rightarrow> string + 'q) \<Rightarrow>
   32 word \<Rightarrow> queued_job \<Rightarrow> 'q \<Rightarrow> exec_result \<times> 'q"
where
  "execute_with_retry dispatch requeue rnd qj q =
     (let config = retry_config_for (qj_job qj) in
      case dispatch (qj_job qj) of
        Inr _ \<Rightarrow> (Completed, q)
      | Inl e \<Rightarrow>
          if is_permanent e then (Discarded_permanent e, q)
          else if qj_attempt qj + 1 < max_attempts config then
            (let jitter_ms = unat rnd mod 1000;
                 wait = backoff_delay_ms config (qj_attempt qj) + jitter_ms
             in case requeue (qj_job qj) (qj_priority qj) (qj_attempt qj + 1) wait q of
                  Inl err \<Rightarrow> (Lost_on_requeue err, q)
                | Inr q' \<Rightarrow> (Retried (qj_attempt qj + 1) wait, q'))
          else (Discarded_exhausted e, q))"

text \<open>An attempt number that the worker may see.\<close>

definition attempt_ok :: "queued_job \<Rightarrow> bool" where
  "attempt_ok qj \<longleftrightarrow> qj_attempt qj < max_attempts (retry_config_for (qj_job qj))"

lemma attempt_ok_fresh: "qj_attempt qj = 0 \<Longrightarrow> attempt_ok qj"
  using retry_config_bounds [of "qj_job qj"]
  by (simp add: attempt_ok_def word_less_nat_alt)

lemma attempt_ok_no_overflow:
  assumes "attempt_ok qj"
  shows "unat (qj_attempt qj + 1) = unat (qj_attempt qj) + 1"
proof -
  have "unat (qj_attempt qj) < 20"
    using assms retry_config_bounds [of "qj_job qj"] by (simp add: attempt_ok_def word_less_nat_alt)
  then show ?thesis by (simp add: unat_word_ariths)
qed

lemma execute_with_retry_Retried:
  assumes "execute_with_retry dispatch requeue rnd qj q = (Retried a w, q')"
  shows "a = qj_attempt qj + 1 \<and> a < max_attempts (retry_config_for (qj_job qj))
    \<and> requeue (qj_job qj) (qj_priority qj) a w q = Inr q'
    \<and> backoff_delay_ms (retry_config_for (qj_job qj)) (qj_attempt qj) \<le> w
    \<and> w < backoff_delay_ms (retry_config_for (qj_job qj)) (qj_attempt qj) + 1000"
  using assms by (auto simp: execute_with_retry_def Let_def split: sum.splits if_splits)

lemma execute_with_retry_keeps_queue:
  assumes "execute_with_retry dispatch requeue rnd qj q = (r, q')" "\<And>a w. r \<noteq> Retried a w"
  shows "q' = q"
  using assms by (auto simp: execute_with_retry_def Let_def split: sum.splits if_splits)

section \<open>The main loop\<close>

text \<open>
  The loop first takes a permit of the semaphore, then waits in \<open>dequeue\<close>, then spawns the
  execution and lets the task drop the permit. On shutdown it leaves the loop (a permit it holds
  is dropped), and waits until it can take all permits, at most \<open>DRAIN_TIMEOUT\<close>.
\<close>

datatype engine_phase = Acquiring | Dequeuing | Draining | Stopped bool

record engine =
  queue :: inner_queue
  delayed :: "queued_job multiset"
  running :: "queued_job multiset"
  free_permits :: nat
  phase :: engine_phase
  shutdown :: bool
  enqueued :: "job multiset" \<comment> \<open>history: every job enqueued from outside\<close>
  closed :: "job multiset" \<comment> \<open>history: every job completed or discarded\<close>

definition engine_start :: "nat \<Rightarrow> engine" where
  "engine_start max_concurrent = \<lparr>queue = mq_new, delayed = {#}, running = {#},
     free_permits = max_concurrent, phase = Acquiring, shutdown = False, enqueued = {#}, closed = {#}\<rparr>"

text \<open>\<open>with_max_concurrent\<close> and the default.\<close>

definition DEFAULT_MAX_CONCURRENT_JOBS :: nat where
  "DEFAULT_MAX_CONCURRENT_JOBS = 32"

definition with_max_concurrent :: "nat \<Rightarrow> nat" where
  "with_max_concurrent n = max n 1"

text \<open>\<open>enqueue_retry\<close> of the in-process queue: a sleeping task; it cannot fail.\<close>

definition requeue_sleeping ::
  "job \<Rightarrow> int \<Rightarrow> attempt_no \<Rightarrow> nat \<Rightarrow> queued_job multiset \<Rightarrow> string + queued_job multiset" where
  "requeue_sleeping j p a delay m =
     Inr (add_mset \<lparr>qj_job = j, qj_priority = p, qj_attempt = a\<rparr> m)"

text \<open>The spawned task: it executes the job and drops its permit.\<close>

definition finish_job ::
  "(job \<Rightarrow> job_error + unit) \<Rightarrow> 32 word \<Rightarrow> queued_job \<Rightarrow> engine \<Rightarrow> engine" where
  "finish_job dispatch rnd qj s =
     (let (r, d) = execute_with_retry dispatch requeue_sleeping rnd qj (delayed s)
      in s\<lparr>delayed := d, running := running s - {#qj#}, free_permits := free_permits s + 1,
           closed := (case r of Retried _ _ \<Rightarrow> closed s | _ \<Rightarrow> add_mset (qj_job qj) (closed s))\<rparr>)"

inductive engine_step :: "nat \<Rightarrow> engine \<Rightarrow> engine \<Rightarrow> bool" for max_concurrent :: nat where
  enqueue: "qj_attempt x = 0 \<Longrightarrow> 0 < mq_room (queue s) \<Longrightarrow>
     engine_step max_concurrent s
       (s\<lparr>queue := mq_push_queued x (queue s), enqueued := add_mset (qj_job x) (enqueued s)\<rparr>)"
| delay_over: "x \<in># delayed s \<Longrightarrow> 0 < mq_room (queue s) \<Longrightarrow>
     engine_step max_concurrent s
       (s\<lparr>queue := mq_push_queued x (queue s), delayed := delayed s - {#x#}\<rparr>)"
| acquire: "phase s = Acquiring \<Longrightarrow> 0 < free_permits s \<Longrightarrow>
     engine_step max_concurrent s (s\<lparr>phase := Dequeuing, free_permits := free_permits s - 1\<rparr>)"
| stop_acquiring: "phase s = Acquiring \<Longrightarrow> shutdown s \<Longrightarrow>
     engine_step max_concurrent s (s\<lparr>phase := Draining\<rparr>)"
| spawn: "phase s = Dequeuing \<Longrightarrow> mq_try_dequeue (queue s) = Some (x, q') \<Longrightarrow>
     engine_step max_concurrent s
       (s\<lparr>queue := q', running := add_mset x (running s), phase := Acquiring\<rparr>)"
| stop_dequeuing: "phase s = Dequeuing \<Longrightarrow> shutdown s \<Longrightarrow> mq_try_dequeue (queue s) = None \<Longrightarrow>
     engine_step max_concurrent s (s\<lparr>phase := Draining, free_permits := free_permits s + 1\<rparr>)"
| finish: "x \<in># running s \<Longrightarrow> engine_step max_concurrent s (finish_job dispatch rnd x s)"
| cancel: "engine_step max_concurrent s (s\<lparr>shutdown := True\<rparr>)"
| drained: "phase s = Draining \<Longrightarrow> free_permits s = max_concurrent \<Longrightarrow>
     engine_step max_concurrent s (s\<lparr>phase := Stopped True\<rparr>)"
| drain_timeout: "phase s = Draining \<Longrightarrow> engine_step max_concurrent s (s\<lparr>phase := Stopped False\<rparr>)"

inductive engine_reachable :: "nat \<Rightarrow> engine \<Rightarrow> bool" for max_concurrent :: nat where
  start: "engine_reachable max_concurrent (engine_start max_concurrent)"
| step: "engine_reachable max_concurrent s \<Longrightarrow> engine_step max_concurrent s t \<Longrightarrow>
     engine_reachable max_concurrent t"

text \<open>The permits are accounted for, every attempt number is in bounds, no job disappears.\<close>

definition engine_inv :: "nat \<Rightarrow> engine \<Rightarrow> bool" where
  "engine_inv max_concurrent s \<longleftrightarrow> mq_inv (queue s)
     \<and> free_permits s + size (running s) + (if phase s = Dequeuing then 1 else 0) = max_concurrent
     \<and> (\<forall>x \<in># mset (mq_waiting (queue s)) + delayed s + running s. attempt_ok x)
     \<and> enqueued s = closed s + image_mset qj_job (mset (mq_waiting (queue s)) + delayed s + running s)
     \<and> (phase s = Stopped True \<longrightarrow> running s = {#})"

lemma engine_inv_start: "engine_inv n (engine_start n)"
  by (simp add: engine_inv_def engine_start_def)

text \<open>What a finished execution leaves in the delayed set and in the history.\<close>

lemma finish_job_cases:
  assumes "attempt_ok qj"
  obtains (retried)
      "finish_job dispatch rnd qj s = s\<lparr>delayed := add_mset (qj\<lparr>qj_attempt := qj_attempt qj + 1\<rparr>) (delayed s),
         running := running s - {#qj#}, free_permits := free_permits s + 1\<rparr>"
      "attempt_ok (qj\<lparr>qj_attempt := qj_attempt qj + 1\<rparr>)"
    | (gone) "finish_job dispatch rnd qj s = s\<lparr>running := running s - {#qj#},
         free_permits := free_permits s + 1, closed := add_mset (qj_job qj) (closed s)\<rparr>"
proof -
  obtain r d where e: "execute_with_retry dispatch requeue_sleeping rnd qj (delayed s) = (r, d)"
    by (cases "execute_with_retry dispatch requeue_sleeping rnd qj (delayed s)")
  show ?thesis
  proof (cases "\<exists>a w. r = Retried a w")
    case True
    then obtain a w where r: "r = Retried a w" by blast
    from execute_with_retry_Retried [OF e [unfolded r]]
    have a: "a = qj_attempt qj + 1" "a < max_attempts (retry_config_for (qj_job qj))"
      and d: "d = add_mset \<lparr>qj_job = qj_job qj, qj_priority = qj_priority qj, qj_attempt = a\<rparr> (delayed s)"
      by (auto simp: requeue_sleeping_def)
    have "\<lparr>qj_job = qj_job qj, qj_priority = qj_priority qj, qj_attempt = a\<rparr> = qj\<lparr>qj_attempt := a\<rparr>"
      by (cases qj) simp
    with a d e r show ?thesis
      by (intro retried) (simp_all add: finish_job_def attempt_ok_def)
  next
    case False
    then have "d = delayed s" using execute_with_retry_keeps_queue [OF e] by blast
    with False e show ?thesis
      by (intro gone) (auto simp: finish_job_def split: exec_result.splits)
  qed
qed

lemma engine_inv_finish:
  assumes "engine_inv n s" "x \<in># running s"
  shows "engine_inv n (finish_job dispatch rnd x s)"
proof -
  from assms have ok: "attempt_ok x" by (auto simp: engine_inv_def)
  from assms(2) obtain R where R: "running s = add_mset x R" by (meson mset_add)
  show ?thesis
    using ok
  proof (cases rule: finish_job_cases [where qj = x and dispatch = dispatch and rnd = rnd and s = s])
    case retried
    with assms(1) R show ?thesis by (auto simp: engine_inv_def)
  next
    case gone
    with assms(1) R show ?thesis by (auto simp: engine_inv_def)
  qed
qed

lemma engine_inv_push:
  assumes "engine_inv n s" "0 < mq_room (queue s)"
  shows "mq_inv (mq_push_queued x (queue s))"
    "mset (mq_waiting (mq_push_queued x (queue s))) = add_mset x (mset (mq_waiting (queue s)))"
  using assms by (auto simp: engine_inv_def mq_push_laws)

lemma engine_step_inv: "engine_step n s t \<Longrightarrow> engine_inv n s \<Longrightarrow> engine_inv n t"
proof (induction rule: engine_step.induct)
  case (enqueue x s)
  then show ?case
    using engine_inv_push [of n s x] attempt_ok_fresh [of x] by (auto simp: engine_inv_def)
next
  case (delay_over x s)
  then obtain D where "delayed s = add_mset x D" by (meson mset_add)
  with delay_over show ?case
    using engine_inv_push [of n s x] by (auto simp: engine_inv_def)
next
  case (spawn s x q')
  then show ?case
    using mq_try_dequeue_laws [of "queue s" x q'] by (auto simp: engine_inv_def)
next
  case (finish x s dispatch rnd)
  then show ?case by (intro engine_inv_finish)
qed (auto simp: engine_inv_def split: if_splits)

lemma engine_reachable_inv: "engine_reachable n s \<Longrightarrow> engine_inv n s"
  by (induction rule: engine_reachable.induct) (auto simp: engine_inv_start dest: engine_step_inv)

section \<open>Properties\<close>

text \<open>
  C27. Accounting of the worker: in every reachable state every permit of the semaphore is free, held by a
  running job, or held by the loop while it waits for a job (so at most \<open>max_concurrent\<close> jobs run and none
  of the permits is ever lost); every job waiting, delayed or running is below its attempt limit (so no
  job is executed more than 20 times); and the jobs enqueued are exactly those closed, waiting, delayed
  and running.
\<close>

theorem worker_accounting:
  assumes "engine_reachable n s"
  shows "free_permits s + size (running s) + (if phase s = Dequeuing then 1 else 0) = n
    \<and> (\<forall>x. x \<in># mset (mq_waiting (queue s)) + delayed s + running s \<longrightarrow>
          unat (qj_attempt x) < unat (max_attempts (retry_config_for (qj_job x))) \<and> unat (qj_attempt x) < 20)
    \<and> enqueued s = closed s + image_mset qj_job (mset (mq_waiting (queue s)) + delayed s + running s)"
proof -
  have i: "engine_inv n s" by (rule engine_reachable_inv [OF assms])
  have "unat (qj_attempt x) < unat (max_attempts (retry_config_for (qj_job x)))
      \<and> unat (qj_attempt x) < 20" if "x \<in># mset (mq_waiting (queue s)) + delayed s + running s" for x
  proof -
    from i that have "attempt_ok x" unfolding engine_inv_def by blast
    then have "unat (qj_attempt x) < unat (max_attempts (retry_config_for (qj_job x)))"
      by (simp add: attempt_ok_def word_less_nat_alt)
    then show ?thesis using retry_config_bounds [of "qj_job x"] by linarith
  qed
  with i show ?thesis unfolding engine_inv_def by blast
qed

text \<open>One job enqueued into an engine with one permit, taken and spawned.\<close>

definition demo_job :: queued_job where
  "demo_job = \<lparr>qj_job = BskyVideoPoll 1, qj_priority = 10, qj_attempt = 0\<rparr>"

definition demo_running :: engine where
  "demo_running = (engine_start 1)\<lparr>queue := \<lparr>heap = [], sequence = 1\<rparr>, running := {#demo_job#},
     free_permits := 0, enqueued := {#BskyVideoPoll 1#}\<rparr>"

lemma demo_running_reachable: "engine_reachable 1 demo_running"
proof -
  let ?q = "\<lparr>heap = [\<lparr>pj_priority = 10, pj_sequence = 1, pj_attempt = 0, pj_job = BskyVideoPoll 1\<rparr>],
    sequence = 1\<rparr>"
  let ?s1 = "(engine_start 1)\<lparr>queue := ?q, enqueued := {#BskyVideoPoll 1#}\<rparr>"
  let ?s2 = "?s1\<lparr>phase := Dequeuing, free_permits := 0\<rparr>"
  have e: "?s1 = (engine_start 1)\<lparr>queue := mq_push_queued demo_job (queue (engine_start 1)),
      enqueued := add_mset (qj_job demo_job) (enqueued (engine_start 1))\<rparr>"
    by (simp add: engine_start_def mq_push_queued_def queue_defs demo_job_def)
  have "engine_step 1 (engine_start 1) ?s1"
    unfolding e by (rule engine_step.enqueue) (simp_all add: demo_job_def engine_start_def)
  with engine_reachable.start have r1: "engine_reachable 1 ?s1" by (rule engine_reachable.step)
  have "engine_step 1 ?s1 (?s1\<lparr>phase := Dequeuing, free_permits := free_permits ?s1 - 1\<rparr>)"
    by (rule engine_step.acquire) (simp_all add: engine_start_def)
  then have "engine_step 1 ?s1 ?s2" by (simp add: engine_start_def)
  with r1 have r2: "engine_reachable 1 ?s2" by (rule engine_reachable.step)
  have t: "mq_try_dequeue (queue ?s2) = Some (demo_job, \<lparr>heap = [], sequence = 1\<rparr>)"
    by (simp add: mq_try_dequeue_def queued_of_def demo_job_def)
  have "engine_step 1 ?s2 (?s2\<lparr>queue := \<lparr>heap = [], sequence = 1\<rparr>,
      running := add_mset demo_job (running ?s2), phase := Acquiring\<rparr>)"
    by (rule engine_step.spawn [OF _ t]) simp
  with r2 have "engine_reachable 1 (?s2\<lparr>queue := \<lparr>heap = [], sequence = 1\<rparr>,
      running := add_mset demo_job (running ?s2), phase := Acquiring\<rparr>)"
    by (rule engine_reachable.step)
  then show ?thesis by (simp add: demo_running_def engine_start_def)
qed

theorem worker_accounting_witness:
  "engine_reachable 1 demo_running \<and> running demo_running = {#demo_job#}
   \<and> free_permits demo_running = 0 \<and> unat (qj_attempt demo_job) < 20"
proof -
  have r: "running demo_running = {#demo_job#}" by (simp add: demo_running_def)
  then have "demo_job \<in># mset (mq_waiting (queue demo_running)) + delayed demo_running + running demo_running" by simp
  then have "unat (qj_attempt demo_job) < 20"
    using worker_accounting [OF demo_running_reachable] by blast
  moreover have "free_permits demo_running = 0"
    using worker_accounting [OF demo_running_reachable] r by simp
  ultimately show ?thesis using demo_running_reachable r by blast
qed

text \<open>
  Graceful stop: when the engine has stopped because it could take all permits, no job is
  running, and from the moment it drains no step takes a job out of the queue.
\<close>

theorem worker_graceful_stop:
  assumes "engine_reachable n s"
  shows "(phase s = Stopped True \<longrightarrow> running s = {#})
    \<and> (\<forall>t. engine_step n s t \<longrightarrow> phase s \<in> {Draining, Stopped True, Stopped False} \<longrightarrow>
          set_mset (running t) \<subseteq> set_mset (running s)
          \<and> phase t \<in> {Draining, Stopped True, Stopped False}
          \<and> mset (mq_waiting (queue s)) \<subseteq># mset (mq_waiting (queue t)))"
proof (intro conjI allI impI)
  have i: "engine_inv n s" by (rule engine_reachable_inv [OF assms])
  then show "phase s = Stopped True \<Longrightarrow> running s = {#}" by (simp add: engine_inv_def)
  fix t assume st: "engine_step n s t" and ph: "phase s \<in> {Draining, Stopped True, Stopped False}"
  have "set_mset (running t) \<subseteq> set_mset (running s)
    \<and> phase t \<in> {Draining, Stopped True, Stopped False}
    \<and> mset (mq_waiting (queue s)) \<subseteq># mset (mq_waiting (queue t))"
    using st
  proof (cases rule: engine_step.cases)
    case (enqueue x)
    then show ?thesis using ph engine_inv_push(2) [OF i, of x] by simp
  next
    case (delay_over x)
    then show ?thesis using ph engine_inv_push(2) [OF i, of x] by simp
  next
    case (finish x dispatch rnd)
    then show ?thesis using ph
      by (auto simp: finish_job_def Let_def dest: in_diffD split: prod.splits)
  qed (use ph in auto)
  then show "set_mset (running t) \<subseteq> set_mset (running s)"
    and "phase t \<in> {Draining, Stopped True, Stopped False}"
    and "mset (mq_waiting (queue s)) \<subseteq># mset (mq_waiting (queue t))" by auto
qed

definition demo_stopped :: engine where
  "demo_stopped = (engine_start 1)\<lparr>shutdown := True, phase := Stopped True\<rparr>"

lemma demo_stopped_reachable: "engine_reachable 1 demo_stopped"
proof -
  let ?s1 = "(engine_start 1)\<lparr>shutdown := True\<rparr>"
  let ?s2 = "?s1\<lparr>phase := Draining\<rparr>"
  have r1: "engine_reachable 1 ?s1"
    by (rule engine_reachable.step [OF engine_reachable.start engine_step.cancel])
  have r2: "engine_reachable 1 ?s2"
    by (rule engine_reachable.step [OF r1 engine_step.stop_acquiring]) (simp_all add: engine_start_def)
  have "engine_reachable 1 (?s2\<lparr>phase := Stopped True\<rparr>)"
    by (rule engine_reachable.step [OF r2 engine_step.drained]) (simp_all add: engine_start_def)
  then show ?thesis by (simp add: demo_stopped_def)
qed

theorem worker_graceful_stop_witness:
  "engine_reachable 1 demo_stopped \<and> phase demo_stopped = Stopped True
   \<and> running demo_stopped = {#}"
proof -
  have p: "phase demo_stopped = Stopped True" by (simp add: demo_stopped_def)
  with worker_graceful_stop [OF demo_stopped_reachable] show ?thesis
    using demo_stopped_reachable by blast
qed

end
