(* ===== verification/Float_Score.thy ===== *)
theory Float_Score
  imports Prelude "HOL-Library.Log_Nat"
begin

text \<open>
  Integer valued \<open>f64\<close> arithmetic, as the score of the Redis queue uses it: a result is the integer
  rounded to 53 significant bits, to nearest and to even on a tie (IEEE 754). All values here are
  integers far below the range where a double overflows. The lemmas give monotonicity, the error
  bound and exactness.
\<close>

section \<open>Rounding\<close>

definition round_half_even :: "int \<Rightarrow> int \<Rightarrow> int" where
  "round_half_even m x =
     (let q = x div m; r = x mod m
      in if 2 * r < m \<or> (2 * r = m \<and> even q) then q * m else (q + 1) * m)"

definition f64_ulp :: "int \<Rightarrow> int" where
  "f64_ulp x = 2 ^ nat (bitlen \<bar>x\<bar> - 53)"

definition f64_round :: "int \<Rightarrow> int" where
  "f64_round x = round_half_even (f64_ulp x) x"

lemma round_half_even_cases:
  assumes "0 < m"
  obtains "round_half_even m x = x div m * m" "2 * (x mod m) \<le> m"
    | "round_half_even m x = (x div m + 1) * m" "m \<le> 2 * (x mod m)"
proof (cases "2 * (x mod m) < m \<or> (2 * (x mod m) = m \<and> even (x div m))")
  case True
  then show ?thesis by (intro that(1)) (auto simp: round_half_even_def Let_def)
next
  case False
  then show ?thesis by (intro that(2)) (auto simp: round_half_even_def Let_def)
qed

lemma round_half_even_error:
  assumes "0 < m"
  shows "2 * \<bar>round_half_even m x - x\<bar> \<le> m"
proof -
  have x: "x = x div m * m + x mod m" by simp
  have r: "0 \<le> x mod m" "x mod m < m" using assms by simp_all
  from assms show ?thesis
  proof (cases rule: round_half_even_cases [of m x])
    case 1
    then have "round_half_even m x - x = - (x mod m)" using x by linarith
    with 1 r show ?thesis by simp
  next
    case 2
    then have "round_half_even m x - x = m - x mod m"
      using x by (simp only: distrib_right mult_1_left)
    with 2 r show ?thesis by simp
  qed
qed

lemma round_half_even_multiple [simp]: "0 < m \<Longrightarrow> round_half_even m (k * m) = k * m"
  by (simp add: round_half_even_def Let_def)

lemma round_half_even_mono:
  assumes "0 < m" "x \<le> y"
  shows "round_half_even m x \<le> round_half_even m y"
proof (cases "x div m = y div m")
  case True
  have "x mod m \<le> y mod m"
    using assms(2) True by (simp add: minus_div_mult_eq_mod [symmetric])
  then show ?thesis using True assms(1) by (auto simp: round_half_even_def Let_def)
next
  case False
  with assms have lt: "x div m + 1 \<le> y div m" by (simp add: zdiv_mono1 order_less_le add1_zle_eq)
  have "round_half_even m x \<le> (x div m + 1) * m"
    using assms(1) by (cases rule: round_half_even_cases [of m x]) (use assms(1) in \<open>simp_all add: distrib_right\<close>)
  also have "\<dots> \<le> y div m * m" using lt assms(1) by (simp add: mult_right_mono)
  also have "\<dots> \<le> round_half_even m y"
    using assms(1) by (cases rule: round_half_even_cases [of m y]) (use assms(1) in \<open>simp_all add: distrib_right\<close>)
  finally show ?thesis .
qed

section \<open>Exactness and error\<close>

lemma f64_ulp_pos [simp]: "0 < f64_ulp x"
  by (simp add: f64_ulp_def)

lemma f64_ulp_minus [simp]: "f64_ulp (- x) = f64_ulp x"
  by (simp add: f64_ulp_def)

lemma bitlen_le: "x < 2 ^ n \<Longrightarrow> bitlen x \<le> int n"
  by (simp add: bitlen_le_iff_power)

lemma f64_ulp_le: "\<bar>x\<bar> < 2 ^ n \<Longrightarrow> f64_ulp x \<le> 2 ^ (n - 53)"
proof -
  assume "\<bar>x\<bar> < 2 ^ n"
  then have "bitlen \<bar>x\<bar> \<le> int n" by (intro bitlen_le) simp_all
  then have "nat (bitlen \<bar>x\<bar> - 53) \<le> n - 53" by simp
  then show ?thesis unfolding f64_ulp_def by (rule power_increasing) simp
qed

lemma f64_round_exact: "\<bar>x\<bar> < 2 ^ 53 \<Longrightarrow> f64_round x = x"
proof -
  assume "\<bar>x\<bar> < 2 ^ 53"
  then have "f64_ulp x \<le> 1" using f64_ulp_le [of x 53] by simp
  with f64_ulp_pos [of x] have "f64_ulp x = 1" by linarith
  then show ?thesis by (simp add: f64_round_def round_half_even_def)
qed

lemma f64_round_error: "\<bar>x\<bar> < 2 ^ n \<Longrightarrow> 2 * \<bar>f64_round x - x\<bar> \<le> 2 ^ (n - 53)"
  using round_half_even_error [of "f64_ulp x" x] f64_ulp_le [of x n] by (simp add: f64_round_def)

lemma f64_round_multiple: "f64_ulp x dvd x \<Longrightarrow> f64_round x = x"
  by (elim dvdE) (metis f64_round_def f64_ulp_pos mult.commute round_half_even_multiple)

section \<open>Monotonicity\<close>

text \<open>A power of two is a multiple of the unit of every number below it.\<close>

lemma f64_ulp_dvd_power: "\<bar>x\<bar> \<le> 2 ^ k \<Longrightarrow> f64_ulp x dvd 2 ^ k"
proof -
  assume "\<bar>x\<bar> \<le> 2 ^ k"
  then have "\<bar>x\<bar> < 2 ^ Suc k" by (rule order_le_less_trans) simp
  then have "bitlen \<bar>x\<bar> \<le> int (Suc k)" by (intro bitlen_le) simp_all
  then have "nat (bitlen \<bar>x\<bar> - 53) \<le> k" by simp
  then show ?thesis unfolding f64_ulp_def by (rule le_imp_power_dvd)
qed

lemma f64_round_power: "f64_round (2 ^ k) = 2 ^ k" "f64_round (- (2 ^ k)) = - (2 ^ k)"
  by (rule f64_round_multiple; simp add: f64_ulp_dvd_power)+

lemma round_below: "0 < m \<Longrightarrow> m dvd b \<Longrightarrow> x \<le> b \<Longrightarrow> round_half_even m x \<le> b"
  using round_half_even_mono [of m x b] by (elim dvdE) (simp add: mult.commute [of m])

lemma round_above: "0 < m \<Longrightarrow> m dvd b \<Longrightarrow> b \<le> x \<Longrightarrow> b \<le> round_half_even m x"
  using round_half_even_mono [of m b x] by (elim dvdE) (simp add: mult.commute [of m])

lemma bitlen_less_bounds:
  assumes "bitlen \<bar>x\<bar> < bitlen \<bar>y\<bar>"
  obtains k where "\<bar>x\<bar> < 2 ^ k" "2 ^ k \<le> \<bar>y\<bar>" "f64_ulp y dvd 2 ^ k"
proof
  let ?k = "nat (bitlen \<bar>y\<bar> - 1)"
  have y: "\<bar>y\<bar> > 0" using assms bitlen_nonneg [of "\<bar>x\<bar>"] by (cases "y = 0") simp_all
  show "2 ^ ?k \<le> \<bar>y\<bar>" using bitlen_bounds [OF y] by simp
  show "\<bar>x\<bar> < 2 ^ ?k"
  proof (cases "x = 0")
    case False
    then have "\<bar>x\<bar> < 2 ^ nat (bitlen \<bar>x\<bar>)" using bitlen_bounds [of "\<bar>x\<bar>"] by simp
    also have "(2 :: int) ^ nat (bitlen \<bar>x\<bar>) \<le> 2 ^ ?k" using assms by (intro power_increasing) auto
    finally show ?thesis .
  qed simp
  show "f64_ulp y dvd 2 ^ ?k" unfolding f64_ulp_def by (rule le_imp_power_dvd) simp
qed

lemma f64_round_mono:
  assumes "x \<le> y"
  shows "f64_round x \<le> f64_round y"
proof -
  consider "bitlen \<bar>x\<bar> = bitlen \<bar>y\<bar>" | "bitlen \<bar>x\<bar> < bitlen \<bar>y\<bar>" | "bitlen \<bar>y\<bar> < bitlen \<bar>x\<bar>" by linarith
  then show ?thesis
  proof cases
    case 1
    then have "f64_ulp x = f64_ulp y" by (simp add: f64_ulp_def)
    then show ?thesis using assms by (simp add: f64_round_def round_half_even_mono)
  next
    case 2
    from bitlen_less_bounds [OF 2] obtain k where k: "\<bar>x\<bar> < 2 ^ k" "2 ^ k \<le> \<bar>y\<bar>" "f64_ulp y dvd 2 ^ k" .
    then have "2 ^ k \<le> y" using assms by linarith
    then have "2 ^ k \<le> f64_round y" unfolding f64_round_def using k(3) by (intro round_above) simp_all
    moreover have "f64_round x \<le> 2 ^ k"
      unfolding f64_round_def using k(1) f64_ulp_dvd_power [of x k] by (intro round_below) simp_all
    ultimately show ?thesis by linarith
  next
    case 3
    from bitlen_less_bounds [OF 3] obtain k where k: "\<bar>y\<bar> < 2 ^ k" "2 ^ k \<le> \<bar>x\<bar>" "f64_ulp x dvd 2 ^ k" .
    then have "x \<le> - (2 ^ k)" using assms by linarith
    then have "f64_round x \<le> - (2 ^ k)" unfolding f64_round_def using k(3) by (intro round_below) simp_all
    moreover have "- (2 ^ k) \<le> f64_round y"
      unfolding f64_round_def using k(1) f64_ulp_dvd_power [of y k] by (intro round_above) simp_all
    ultimately show ?thesis by linarith
  qed
qed

end
