(* ===== verification/Numbers.thy ===== *)
theory Numbers
  imports Prelude
begin

text \<open>Reading and printing of decimal numbers, as \<open>str::parse::<i64>\<close> and \<open>Display\<close> do.\<close>

fun digits_value :: "int \<Rightarrow> string \<Rightarrow> int option" where
  "digits_value acc [] = Some acc"
| "digits_value acc (c # s) =
     (if is_ascii_digit c then digits_value (10 * acc + (of_char c - 48)) s else None)"

definition parse_i64 :: "string \<Rightarrow> int option" where
  "parse_i64 s =
     (let (sign, ds) = (case s of c # t \<Rightarrow> if c = CHR ''-'' then (-1, t) else if c = CHR ''+'' then (1, t) else (1, s)
        | [] \<Rightarrow> (1, []))
      in if ds = [] then None
         else (case digits_value 0 ds of
             Some v \<Rightarrow> if - (2 ^ 63) \<le> sign * v \<and> sign * v < 2 ^ 63 then Some (sign * v) else None
           | None \<Rightarrow> None))"

fun decimal :: "nat \<Rightarrow> string" where
  "decimal n = (if n < 10 then [char_of (48 + n)] else decimal (n div 10) @ [char_of (48 + n mod 10)])"

declare decimal.simps [simp del]

definition show_i64 :: "int \<Rightarrow> string" where
  "show_i64 i = (if i < 0 then CHR ''-'' # decimal (nat (- i)) else decimal (nat i))"

lemma digit_char: "k < 10 \<Longrightarrow> is_ascii_digit (char_of (48 + k)) \<and> (of_char (char_of (48 + k)) :: int) = 48 + int k" for k :: nat
proof -
  assume k: "k < 10"
  have "(of_char (char_of (48 + k) :: char) :: int) = of_nat (of_char (char_of (48 + k) :: char) :: nat)"
    by (rule of_nat_of_char [symmetric])
  then show ?thesis using k by (simp add: is_ascii_digit_def)
qed

lemma decimal_digits: "c \<in> set (decimal n) \<Longrightarrow> is_ascii_digit c"
proof (induction n rule: decimal.induct)
  case (1 n)
  show ?case
  proof (cases "n < 10")
    case True
    with 1(2) digit_char show ?thesis by (subst (asm) decimal.simps) simp
  next
    case False
    with 1(2) have "c \<in> set (decimal (n div 10)) \<or> c = char_of (48 + n mod 10)"
      by (subst (asm) decimal.simps) auto
    with 1(1) [OF False] digit_char [of "n mod 10"] show ?thesis by auto
  qed
qed

lemma decimal_nonempty [simp]: "decimal n \<noteq> []"
  by (subst decimal.simps) simp

lemma digits_value_append: "digits_value acc (s @ t) = Option.bind (digits_value acc s) (\<lambda>v. digits_value v t)"
  by (induction s arbitrary: acc) auto

lemma digits_value_decimal: "digits_value 0 (decimal n) = Some (int n)"
proof (induction n rule: decimal.induct)
  case (1 n)
  show ?case
  proof (cases "n < 10")
    case True
    then show ?thesis using digit_char [OF True] by (subst decimal.simps) simp
  next
    case False
    have "int n = 10 * int (n div 10) + int (n mod 10)" by (simp add: zdiv_int zmod_int)
    then show ?thesis using False 1 [OF False] digit_char [of "n mod 10"]
      by (subst decimal.simps) (simp add: digits_value_append)
  qed
qed

lemma parse_show_i64: "- (2 ^ 63) \<le> i \<Longrightarrow> i < 2 ^ 63 \<Longrightarrow> parse_i64 (show_i64 i) = Some i"
proof (cases "i < 0")
  case True
  moreover assume "- (2 ^ 63) \<le> i" "i < 2 ^ 63"
  ultimately show ?thesis by (simp add: parse_i64_def show_i64_def digits_value_decimal)
next
  case False
  moreover assume b: "- (2 ^ 63) \<le> i" "i < 2 ^ 63"
  obtain c s where d: "decimal (nat i) = c # s" by (meson decimal_nonempty neq_Nil_conv)
  then have "is_ascii_digit c" using decimal_digits [of c "nat i"] by simp
  then have "c \<noteq> CHR ''-''" "c \<noteq> CHR ''+''" by (auto simp: is_ascii_digit_def)
  then show ?thesis using False b d digits_value_decimal [of "nat i"] by (simp add: parse_i64_def show_i64_def del: digits_value.simps)
qed

end
