(* ===== verification/Redis_Queue.thy ===== *)
theory Redis_Queue
  imports Job_Queue Float_Score Numbers "HOL-Library.Char_ord" "HOL-Library.List_Lexorder" "HOL-Library.Product_Lexorder"
begin

text \<open>
  The Redis queue (\<open>crates/seiran-common/src/queue/redis.rs\<close>), which the split-role deployment shares
  between processes: a sorted set of ready jobs whose score encodes priority and sequence number, a
  sorted set of delayed jobs, the script that moves due jobs, and the polling loop of \<open>dequeue\<close>.
  A sorted set orders its members by score and then by the bytes of the member. Scores are integer
  valued doubles. The JSON form of an entry (serde on this side, cjson in the script) is a parameter.
\<close>

section \<open>Sorted sets\<close>

type_synonym zset = "(string \<times> int) list"

definition zset_order :: "zset \<Rightarrow> zset" where
  "zset_order z = sort_key (\<lambda>(m, s). (s, m)) z"

definition zadd :: "int \<Rightarrow> string \<Rightarrow> zset \<Rightarrow> zset" where
  "zadd score member z = filter (\<lambda>(m, s). m \<noteq> member) z @ [(member, score)]"

definition zrem :: "string \<Rightarrow> zset \<Rightarrow> bool \<times> zset" where
  "zrem member z = (member \<in> fst ` set z, filter (\<lambda>(m, s). m \<noteq> member) z)"

definition zpopmin :: "zset \<Rightarrow> ((string \<times> int) \<times> zset) option" where
  "zpopmin z = (case zset_order z of [] \<Rightarrow> None | x # rest \<Rightarrow> Some (x, rest))"

definition zrangebyscore :: "int \<Rightarrow> nat \<Rightarrow> zset \<Rightarrow> zset" where
  "zrangebyscore max_score limit z = take limit (zset_order (filter (\<lambda>(m, s). s \<le> max_score) z))"

lemma zpopmin_None: "zpopmin z = None \<longleftrightarrow> z = []"
  by (auto simp: zpopmin_def zset_order_def split: list.split simp flip: set_empty2)

lemma zpopmin_Some:
  assumes "zpopmin z = Some ((m, s), rest)"
  shows "mset z = add_mset (m, s) (mset rest)" "\<forall>(m', s') \<in> set rest. (s, m) \<le> (s', m')"
proof -
  from assms have o: "zset_order z = (m, s) # rest" by (auto simp: zpopmin_def split: list.splits)
  then have "mset (zset_order z) = add_mset (m, s) (mset rest)" by simp
  then show "mset z = add_mset (m, s) (mset rest)" by (simp add: zset_order_def)
  have "sorted (map (\<lambda>(m, s). (s, m)) (zset_order z))" by (simp add: zset_order_def)
  then show "\<forall>(m', s') \<in> set rest. (s, m) \<le> (s', m')" unfolding o by (auto simp: case_prod_beta)
qed

section \<open>Entries and scores\<close>

record envelope =
  e_seq :: nat
  e_priority :: int
  e_attempt :: attempt_no
  e_job :: job

definition queued_of_envelope :: "envelope \<Rightarrow> queued_job" where
  "queued_of_envelope e = \<lparr>qj_job = e_job e, qj_priority = e_priority e, qj_attempt = e_attempt e\<rparr>"

text \<open>
  \<open>serde_json\<close> on \<open>Envelope\<close>, and what \<open>cjson.decode\<close> gives the script: the fields \<open>priority\<close> and \<open>seq\<close>
  as doubles.
\<close>

record envelope_json =
  to_json :: "envelope \<Rightarrow> string + string"
  from_json :: "string \<Rightarrow> string + envelope"
  cjson_decode :: "string \<Rightarrow> (int \<times> int) option"

definition json_laws :: "envelope_json \<Rightarrow> bool" where
  "json_laws S \<longleftrightarrow> (\<forall>e m. to_json S e = Inr m \<longrightarrow>
     from_json S m = Inr e \<and> cjson_decode S m = Some (e_priority e, f64_round (int (e_seq e))))"

definition ready_score :: "int \<Rightarrow> nat \<Rightarrow> int" where
  "ready_score priority seq = f64_round (f64_round (- priority * 10 ^ 15) + f64_round (int seq))"

section \<open>Operations\<close>

record redis =
  rq_ready :: zset
  rq_delayed :: zset
  rq_counter :: nat

definition redis_new :: redis where
  "redis_new = \<lparr>rq_ready = [], rq_delayed = [], rq_counter = 0\<rparr>"

text \<open>\<open>INCR\<close> fails at the end of the \<open>i64\<close> range.\<close>

definition next_seq :: "redis \<Rightarrow> (string + nat) \<times> redis" where
  "next_seq r =
     (if rq_counter r + 1 < 2 ^ 63 then (Inr (rq_counter r + 1), r\<lparr>rq_counter := rq_counter r + 1\<rparr>)
      else (Inl ''increment or decrement would overflow'', r))"

definition push_ready :: "envelope_json \<Rightarrow> job \<Rightarrow> int \<Rightarrow> attempt_no \<Rightarrow> redis \<Rightarrow> (string + unit) \<times> redis" where
  "push_ready S j priority attempt r =
     (case next_seq r of
        (Inl e, r1) \<Rightarrow> (Inl e, r1)
      | (Inr seq, r1) \<Rightarrow>
          (case to_json S \<lparr>e_seq = seq, e_priority = priority, e_attempt = attempt, e_job = j\<rparr> of
             Inl e \<Rightarrow> (Inl e, r1)
           | Inr member \<Rightarrow> (Inr (), r1\<lparr>rq_ready := zadd (ready_score priority seq) member (rq_ready r1)\<rparr>)))"

definition push_delayed ::
  "envelope_json \<Rightarrow> int \<Rightarrow> job \<Rightarrow> int \<Rightarrow> attempt_no \<Rightarrow> nat \<Rightarrow> redis \<Rightarrow> (string + unit) \<times> redis" where
  "push_delayed S now_ms j priority attempt delay_ms r =
     (case next_seq r of
        (Inl e, r1) \<Rightarrow> (Inl e, r1)
      | (Inr seq, r1) \<Rightarrow>
          (case to_json S \<lparr>e_seq = seq, e_priority = priority, e_attempt = attempt, e_job = j\<rparr> of
             Inl e \<Rightarrow> (Inl e, r1)
           | Inr member \<Rightarrow>
               (let ready_at_ms = now_ms + int delay_ms
                in (Inr (), r1\<lparr>rq_delayed := zadd (f64_round ready_at_ms) member (rq_delayed r1)\<rparr>))))"

definition PROMOTE_BATCH_LIMIT :: nat where
  "PROMOTE_BATCH_LIMIT = 200"

text \<open>
  The loop of the script. A member that cjson cannot read stops the script, and what it wrote so far
  stays; the result says whether the script went through.
\<close>

fun promote_members :: "envelope_json \<Rightarrow> string list \<Rightarrow> redis \<Rightarrow> bool \<times> redis" where
  "promote_members S [] r = (True, r)"
| "promote_members S (member # due) r =
     (case zrem member (rq_delayed r) of
        (False, d) \<Rightarrow> promote_members S due r
      | (True, d) \<Rightarrow>
          (case cjson_decode S member of
             None \<Rightarrow> (False, r\<lparr>rq_delayed := d\<rparr>)
           | Some (priority, seq) \<Rightarrow>
               (let score = f64_round (f64_round (- priority * 10 ^ 15) + seq)
                in promote_members S due
                     (r\<lparr>rq_delayed := d, rq_ready := zadd score member (rq_ready r)\<rparr>))))"

definition promote_due :: "envelope_json \<Rightarrow> int \<Rightarrow> redis \<Rightarrow> bool \<times> redis" where
  "promote_due S now_ms r =
     promote_members S (map fst (zrangebyscore now_ms PROMOTE_BATCH_LIMIT (rq_delayed r))) r"

definition redis_enqueue :: "envelope_json \<Rightarrow> job \<Rightarrow> int \<Rightarrow> redis \<Rightarrow> (string + unit) \<times> redis" where
  "redis_enqueue S j priority r = push_ready S j priority 0 r"

definition redis_enqueue_retry ::
  "envelope_json \<Rightarrow> int \<Rightarrow> job \<Rightarrow> int \<Rightarrow> attempt_no \<Rightarrow> nat \<Rightarrow> redis \<Rightarrow> (string + unit) \<times> redis" where
  "redis_enqueue_retry S now_ms j priority attempt delay_ms r = push_delayed S now_ms j priority attempt delay_ms r"

text \<open>One round of the loop of \<open>dequeue\<close>, with the clock and the failures of the connection that it meets.\<close>

record poll_env =
  pl_cancelled :: bool
  pl_now_ms :: int
  pl_promote_fails :: bool
  pl_pop_fails :: bool

datatype poll = Stop | Again | Got queued_job

definition redis_poll :: "envelope_json \<Rightarrow> poll_env \<Rightarrow> redis \<Rightarrow> poll \<times> redis" where
  "redis_poll S e r =
     (if pl_cancelled e then (Stop, r)
      else
        let r1 = (if pl_promote_fails e then r else snd (promote_due S (pl_now_ms e) r))
        in if pl_pop_fails e then (Again, r1)
           else (case zpopmin (rq_ready r1) of
                   None \<Rightarrow> (Again, r1)
                 | Some ((member, score), rest) \<Rightarrow>
                     (let r2 = r1\<lparr>rq_ready := rest\<rparr>
                      in case from_json S member of
                           Inr env \<Rightarrow> (Got (queued_of_envelope env), r2)
                         | Inl err \<Rightarrow> (Again, r2))))"

text \<open>The loop over the rounds: \<open>None\<close> is still polling after them, \<open>Some None\<close> the shutdown.\<close>

fun redis_dequeue :: "envelope_json \<Rightarrow> poll_env list \<Rightarrow> redis \<Rightarrow> queued_job option option \<times> redis" where
  "redis_dequeue S [] r = (None, r)"
| "redis_dequeue S (e # es) r =
     (case redis_poll S e r of
        (Stop, r1) \<Rightarrow> (Some None, r1)
      | (Again, r1) \<Rightarrow> redis_dequeue S es r1
      | (Got x, r1) \<Rightarrow> (Some (Some x), r1))"

lemmas [queue_defs] = next_seq_def push_ready_def push_delayed_def promote_due_def redis_enqueue_def
  redis_enqueue_retry_def redis_poll_def

section \<open>The order of the scores\<close>

lemma priority_product_exact: "\<bar>p\<bar> \<le> 100 \<Longrightarrow> f64_round (- p * 10 ^ 15) = - p * 10 ^ 15"
proof (rule f64_round_multiple)
  assume p: "\<bar>p\<bar> \<le> 100"
  have "\<bar>- p * 10 ^ 15\<bar> \<le> 100 * 10 ^ 15" using p by (simp add: abs_mult)
  also have "\<dots> < (2 :: int) ^ 57" by simp
  finally have "bitlen \<bar>- p * 10 ^ 15\<bar> \<le> 57" by (simp only: bitlen_le_iff_power) simp
  then have "f64_ulp (- p * 10 ^ 15) dvd 2 ^ 4"
    unfolding f64_ulp_def by (intro le_imp_power_dvd) linarith
  moreover have "(2 :: int) ^ 4 dvd - p * 10 ^ 15" by (intro dvd_mult) simp
  ultimately show "f64_ulp (- p * 10 ^ 15) dvd - p * 10 ^ 15" by (rule dvd_trans)
qed

lemma ready_score_small:
  assumes "\<bar>p\<bar> \<le> 100" "s < 2 ^ 49"
  shows "ready_score p s = f64_round (- p * 10 ^ 15 + int s)"
proof -
  have "\<bar>int s\<bar> < 2 ^ 53" using assms(2) by simp
  then show ?thesis unfolding ready_score_def priority_product_exact [OF assms(1)] by (simp add: f64_round_exact)
qed

lemma ready_score_error:
  assumes "\<bar>p\<bar> \<le> 100" "s < 2 ^ 49"
  shows "\<bar>ready_score p s - (- p * 10 ^ 15 + int s)\<bar> \<le> 8"
proof -
  have "\<bar>- p * 10 ^ 15 + int s\<bar> \<le> 100 * 10 ^ 15 + 2 ^ 49" using assms by (simp add: abs_le_iff)
  also have "\<dots> < (2 :: int) ^ 57" by simp
  finally show ?thesis using f64_round_error [of "- p * 10 ^ 15 + int s" 57] ready_score_small [OF assms] by simp
qed

lemma ready_score_priority:
  assumes "\<bar>p\<bar> \<le> 100" "\<bar>p'\<bar> \<le> 100" "s < 2 ^ 49" "s' < 2 ^ 49" "p' < p"
  shows "ready_score p s < ready_score p' s'"
proof -
  have "10 ^ 15 \<le> p * 10 ^ 15 - p' * 10 ^ 15" using assms(5) by simp
  moreover have "int s < 2 ^ 49" using assms(3) by simp
  ultimately show ?thesis
    using ready_score_error [OF assms(1,3)] ready_score_error [OF assms(2,4)] by (simp add: abs_le_iff)
qed

text \<open>
  The score of the Redis queue: below 2^49 jobs and for the priorities up to 100, a job of a
  higher priority always has the smaller score; within a priority a later job never has a smaller
  score, and a strictly larger one as soon as 17 jobs lie between, or always for the priorities up
  to 8 (for larger ones the sum is not exact as a double, so that neighbours can share a score).
\<close>
theorem ready_score_order:
  assumes "\<bar>p\<bar> \<le> 100" "\<bar>p'\<bar> \<le> 100" "s < 2 ^ 49" "s' < 2 ^ 49"
  shows "(p' < p \<longrightarrow> ready_score p s < ready_score p' s')
    \<and> (s \<le> s' \<longrightarrow> ready_score p s \<le> ready_score p s')
    \<and> (s + 17 \<le> s' \<longrightarrow> ready_score p s < ready_score p s')
    \<and> (\<bar>p\<bar> \<le> 8 \<and> s < s' \<longrightarrow> ready_score p s < ready_score p s')"
proof (intro conjI impI)
  show "ready_score p s < ready_score p' s'" if "p' < p" by (rule ready_score_priority [OF assms that])
  show "ready_score p s \<le> ready_score p s'" if "s \<le> s'"
    unfolding ready_score_small [OF assms(1,3)] ready_score_small [OF assms(1,4)] using that by (intro f64_round_mono) simp
  show "ready_score p s < ready_score p s'" if "s + 17 \<le> s'"
    using ready_score_error [OF assms(1,3)] ready_score_error [OF assms(1,4)] that by (simp add: abs_le_iff)
  show "ready_score p s < ready_score p s'" if "\<bar>p\<bar> \<le> 8 \<and> s < s'"
  proof -
    have "f64_round (- p * 10 ^ 15 + int t) = - p * 10 ^ 15 + int t" if "t < 2 ^ 49" for t
    proof (rule f64_round_exact)
      have "\<bar>- p * 10 ^ 15 + int t\<bar> \<le> 8 * 10 ^ 15 + 2 ^ 49" using that \<open>\<bar>p\<bar> \<le> 8 \<and> s < s'\<close> by (simp add: abs_le_iff)
      also have "\<dots> < (2 :: int) ^ 53" by simp
      finally show "\<bar>- p * 10 ^ 15 + int t\<bar> < 2 ^ 53" .
    qed
    with assms that show ?thesis by (simp add: ready_score_small [simplified])
  qed
qed

theorem ready_score_order_witness:
  "ready_score 100 7 < ready_score 50 3 \<and> ready_score 50 3 < ready_score 50 20 \<and> ready_score 50 9 \<le> ready_score 50 10"
  using ready_score_order [of 100 50 7 3] ready_score_order [of 50 50 3 20] ready_score_order [of 50 50 9 10] by simp

section \<open>The queue as a bag with priorities\<close>

definition redis_push :: "envelope_json \<Rightarrow> queued_job \<Rightarrow> redis \<Rightarrow> redis" where
  "redis_push S x r = snd (push_ready S (qj_job x) (qj_priority x) (qj_attempt x) r)"

definition quiet_poll :: poll_env where
  "quiet_poll = \<lparr>pl_cancelled = False, pl_now_ms = 0, pl_promote_fails = False, pl_pop_fails = False\<rparr>"

definition redis_pop :: "envelope_json \<Rightarrow> redis \<Rightarrow> (queued_job \<times> redis) option" where
  "redis_pop S r = (case redis_poll S quiet_poll r of (Got x, r') \<Rightarrow> Some (x, r') | _ \<Rightarrow> None)"

definition envelope_of :: "envelope_json \<Rightarrow> string \<Rightarrow> envelope" where
  "envelope_of S m = projr (from_json S m)"

definition envelopes :: "envelope_json \<Rightarrow> zset \<Rightarrow> envelope multiset" where
  "envelopes S z = image_mset (\<lambda>(m, s). envelope_of S m) (mset z)"

lemma envelopes_simps [simp]:
  "envelopes S [] = {#}" "envelopes S ((m, s) # z) = add_mset (envelope_of S m) (envelopes S z)"
  "envelopes S (y @ z) = envelopes S y + envelopes S z"
  by (simp_all add: envelopes_def)

definition well_formed :: "envelope_json \<Rightarrow> zset \<Rightarrow> bool" where
  "well_formed S z \<longleftrightarrow> (\<forall>(m, s) \<in> set z. to_json S (envelope_of S m) = Inr m)"

lemma well_formed_simps [simp]:
  "well_formed S []" "well_formed S ((m, s) # z) \<longleftrightarrow> to_json S (envelope_of S m) = Inr m \<and> well_formed S z"
  "well_formed S (y @ z) \<longleftrightarrow> well_formed S y \<and> well_formed S z"
  by (auto simp: well_formed_def)

lemma envelope_of_json: "json_laws S \<Longrightarrow> to_json S e = Inr m \<Longrightarrow> envelope_of S m = e"
  by (simp add: json_laws_def envelope_of_def)

lemma from_json_member: "json_laws S \<Longrightarrow> to_json S (envelope_of S m) = Inr m \<Longrightarrow> from_json S m = Inr (envelope_of S m)"
  by (simp add: json_laws_def)

text \<open>A member that is not there is added; one that is there is removed with its entry.\<close>

lemma zadd_fresh: "m \<notin> fst ` set z \<Longrightarrow> zadd s m z = z @ [(m, s)]"
  by (force simp: zadd_def filter_id_conv)

lemma fresh_member:
  "well_formed S z \<Longrightarrow> json_laws S \<Longrightarrow> to_json S e = Inr m \<Longrightarrow> e \<notin># envelopes S z \<Longrightarrow> m \<notin> fst ` set z"
  by (force simp: envelopes_def envelope_of_json)

definition redis_inv :: "envelope_json \<Rightarrow> redis \<Rightarrow> bool" where
  "redis_inv S r \<longleftrightarrow> json_laws S \<and> rq_delayed r = [] \<and> rq_counter r < 2 ^ 49 \<and> well_formed S (rq_ready r)
     \<and> (\<forall>(m, s) \<in> set (rq_ready r). s = ready_score (e_priority (envelope_of S m)) (e_seq (envelope_of S m)))
     \<and> (\<forall>e \<in># envelopes S (rq_ready r). \<bar>e_priority e\<bar> \<le> 100 \<and> e_seq e \<le> rq_counter r)"

definition redis_contents :: "envelope_json \<Rightarrow> redis \<Rightarrow> queued_job multiset" where
  "redis_contents S r = image_mset queued_of_envelope (envelopes S (rq_ready r))"

definition redis_room :: "redis \<Rightarrow> nat" where
  "redis_room r = 2 ^ 49 - 1 - rq_counter r"

text \<open>A job that serialises, with one of the priorities the worker uses.\<close>

definition redis_allowed :: "envelope_json \<Rightarrow> queued_job \<Rightarrow> bool" where
  "redis_allowed S x \<longleftrightarrow> \<bar>qj_priority x\<bar> \<le> 100 \<and>
     (\<forall>n. \<exists>m. to_json S \<lparr>e_seq = n, e_priority = qj_priority x, e_attempt = qj_attempt x, e_job = qj_job x\<rparr> = Inr m)"

lemma redis_push_eq:
  assumes "redis_inv S r" "0 < redis_room r" "redis_allowed S x"
  obtains m e where "to_json S e = Inr m" "queued_of_envelope e = x" "e_seq e = Suc (rq_counter r)"
    "redis_push S x r = r\<lparr>rq_counter := Suc (rq_counter r),
       rq_ready := rq_ready r @ [(m, ready_score (e_priority e) (e_seq e))]\<rparr>"
proof -
  define e where "e = \<lparr>e_seq = rq_counter r + 1, e_priority = qj_priority x, e_attempt = qj_attempt x, e_job = qj_job x\<rparr>"
  obtain m where m: "to_json S e = Inr m" using assms(3) unfolding redis_allowed_def e_def by blast
  have "next_seq r = (Inr (rq_counter r + 1), r\<lparr>rq_counter := rq_counter r + 1\<rparr>)"
    using assms(1) by (simp add: next_seq_def redis_inv_def)
  then have p: "redis_push S x r = r\<lparr>rq_counter := rq_counter r + 1,
      rq_ready := zadd (ready_score (qj_priority x) (rq_counter r + 1)) m (rq_ready r)\<rparr>"
    using m by (simp add: redis_push_def push_ready_def e_def)
  have "e \<notin># envelopes S (rq_ready r)" using assms(1) by (auto simp: redis_inv_def e_def)
  then have "m \<notin> fst ` set (rq_ready r)"
    using assms(1) m by (intro fresh_member) (auto simp: redis_inv_def)
  from zadd_fresh [OF this] p m show ?thesis
    by (intro that [of e m]) (simp_all add: e_def queued_of_envelope_def)
qed

lemma redis_push_laws:
  assumes "redis_inv S r" "0 < redis_room r" "redis_allowed S x"
  shows "redis_inv S (redis_push S x r)" "redis_room (redis_push S x r) = redis_room r - 1"
    "redis_contents S (redis_push S x r) = add_mset x (redis_contents S r)"
proof -
  from redis_push_eq [OF assms] obtain m e where e: "to_json S e = Inr m" "queued_of_envelope e = x"
    "e_seq e = Suc (rq_counter r)" and p: "redis_push S x r = r\<lparr>rq_counter := Suc (rq_counter r),
       rq_ready := rq_ready r @ [(m, ready_score (e_priority e) (e_seq e))]\<rparr>" .
  have em: "envelope_of S m = e" using assms(1) e(1) by (intro envelope_of_json) (simp_all add: redis_inv_def)
  have "e_priority e = qj_priority x" using e(2) by (auto simp: queued_of_envelope_def)
  then show "redis_inv S (redis_push S x r)"
    using assms e unfolding p redis_inv_def
    by (auto simp: em redis_allowed_def redis_room_def intro: le_SucI)
  show "redis_room (redis_push S x r) = redis_room r - 1" by (simp add: p redis_room_def)
  show "redis_contents S (redis_push S x r) = add_mset x (redis_contents S r)"
    by (simp add: p redis_contents_def em e(2))
qed

lemma redis_pop_cases:
  assumes "redis_inv S r"
  shows "redis_pop S r = (case zpopmin (rq_ready r) of None \<Rightarrow> None
    | Some ((m, s), rest) \<Rightarrow> Some (queued_of_envelope (envelope_of S m), r\<lparr>rq_ready := rest\<rparr>))"
proof (cases "zpopmin (rq_ready r)")
  case None
  with assms show ?thesis
    by (simp add: redis_pop_def redis_poll_def quiet_poll_def redis_inv_def promote_due_def zrangebyscore_def zset_order_def)
next
  case (Some x)
  obtain m s rest where x: "x = ((m, s), rest)" by (metis prod.exhaust)
  have "(m, s) \<in> set (rq_ready r)" using zpopmin_Some(1) [OF Some [unfolded x]] by (metis set_mset_mset union_single_eq_member)
  then have "from_json S m = Inr (envelope_of S m)"
    using assms by (intro from_json_member) (auto simp: redis_inv_def well_formed_def)
  with assms show ?thesis
    by (simp add: redis_pop_def redis_poll_def quiet_poll_def redis_inv_def promote_due_def zrangebyscore_def
        zset_order_def Some x)
qed

lemma redis_pop_laws:
  assumes inv: "redis_inv S r" and pop: "redis_pop S r = Some (x, r')"
  shows "redis_contents S r = add_mset x (redis_contents S r')" "redis_inv S r'" "redis_room r' = redis_room r"
    "\<forall>y \<in># redis_contents S r'. qj_priority y \<le> qj_priority x"
proof -
  from pop redis_pop_cases [OF inv] obtain m s rest where z: "zpopmin (rq_ready r) = Some ((m, s), rest)"
    and x: "x = queued_of_envelope (envelope_of S m)" "r' = r\<lparr>rq_ready := rest\<rparr>"
    by (auto split: option.splits prod.splits)
  from zpopmin_Some [OF z] have ms: "mset (rq_ready r) = add_mset (m, s) (mset rest)"
    and least: "\<forall>(m', s') \<in> set rest. (s, m) \<le> (s', m')" .
  have sub: "set (rq_ready r) = insert (m, s) (set rest)" by (metis ms set_mset_add_mset_insert set_mset_mset)
  have env: "envelopes S (rq_ready r) = add_mset (envelope_of S m) (envelopes S rest)" by (simp add: envelopes_def ms)
  show "redis_contents S r = add_mset x (redis_contents S r')" by (simp add: redis_contents_def env x)
  show "redis_inv S r'" using inv by (auto simp: redis_inv_def x(2) well_formed_def sub env)
  show "redis_room r' = redis_room r" by (simp add: redis_room_def x(2))
  show "\<forall>y \<in># redis_contents S r'. qj_priority y \<le> qj_priority x"
  proof
    fix y assume "y \<in># redis_contents S r'"
    then obtain m' s' where y: "(m', s') \<in> set rest" "y = queued_of_envelope (envelope_of S m')"
      by (auto simp: redis_contents_def envelopes_def x(2))
    let ?e = "envelope_of S m" and ?f = "envelope_of S m'"
    have le: "ready_score (e_priority ?e) (e_seq ?e) \<le> ready_score (e_priority ?f) (e_seq ?f)"
      using inv y(1) least sub by (fastforce simp: redis_inv_def less_eq_prod_def)
    have ef: "?e \<in># envelopes S (rq_ready r)" "?f \<in># envelopes S (rq_ready r)"
      using y(1) by (force simp: envelopes_def sub)+
    then have b: "\<bar>e_priority ?e\<bar> \<le> 100" "\<bar>e_priority ?f\<bar> \<le> 100" "e_seq ?e < 2 ^ 49" "e_seq ?f < 2 ^ 49"
      using inv by (force simp: redis_inv_def)+
    have "e_priority ?f \<le> e_priority ?e"
    proof (rule ccontr)
      assume "\<not> ?thesis"
      then have "ready_score (e_priority ?f) (e_seq ?f) < ready_score (e_priority ?e) (e_seq ?e)"
        using ready_score_priority [OF b(2,1,4,3)] by simp
      with le show False by simp
    qed
    then show "qj_priority y \<le> qj_priority x" by (simp add: x y queued_of_envelope_def)
  qed
qed

lemma redis_pop_None: "redis_inv S r \<Longrightarrow> redis_pop S r = None \<longleftrightarrow> redis_contents S r = {#}"
  using zpopmin_None [of "rq_ready r"]
  by (auto simp: redis_pop_cases redis_contents_def envelopes_def split: option.split)

interpretation redis: priority_bag "redis_push S" "redis_pop S" "redis_contents S" redis_room "redis_inv S" "redis_allowed S" for S
  by unfold_locales (simp_all add: redis_push_laws redis_pop_None redis_pop_laws)

text \<open>
  C23. The Redis queue serves by priority and loses nothing: when jobs with the worker's priorities (at
  most 2^49 - 1 of them) are pushed into a new queue, taking that many jobs by the polls of \<open>dequeue\<close>
  gives every job once, in descending priority. Only the order within a priority is weaker than in
  the in-memory queue. The laws ask that the JSON form reads back.
\<close>
theorem redis_queue_drains_by_priority:
  assumes "json_laws S" "length xs < 2 ^ 49" "list_all (redis_allowed S) xs"
  shows "mset (redis.drain S (length xs) (redis.fill S xs redis_new)) = mset xs
    \<and> by_priority (redis.drain S (length xs) (redis.fill S xs redis_new))"
proof (rule redis.drain_filled)
  show "redis_inv S redis_new" using assms(1) by (simp add: redis_inv_def redis_new_def)
  show "length xs \<le> redis_room redis_new" using assms(2) by (simp add: redis_room_def redis_new_def)
qed (simp_all add: redis_contents_def redis_new_def assms(3))

text \<open>A JSON form for the examples: the real beginning, then the numbers in unary.\<close>

definition seq_prefix :: "nat \<Rightarrow> string" where
  "seq_prefix n = [CHR ''{'', CHR 0x22] @ ''seq'' @ [CHR 0x22, CHR '':''] @ decimal n @ [CHR '','']"

definition unary :: "nat \<Rightarrow> string" where
  "unary n = replicate n (CHR ''1'')"

definition demo_json :: envelope_json where
  "demo_json = \<lparr>
     to_json = (\<lambda>e. case e_job e of
         BskyVideoPoll k \<Rightarrow>
           (if 0 \<le> k \<and> 0 \<le> e_priority e
            then Inr (seq_prefix (e_seq e) @ unary (e_seq e) @ ''.'' @ unary (nat (e_priority e)) @ ''.''
              @ unary (unat (e_attempt e)) @ ''.'' @ unary (nat k))
            else Inl ''unsupported'')
       | _ \<Rightarrow> Inl ''unsupported''),
     from_json = (\<lambda>m. case split_once (CHR '','') m of
         Some (p, rest) \<Rightarrow> (case split_on (CHR ''.'') rest of
             [a, b, c, d] \<Rightarrow> Inr \<lparr>e_seq = length a, e_priority = int (length b), e_attempt = of_nat (length c),
               e_job = BskyVideoPoll (int (length d))\<rparr>
           | _ \<Rightarrow> Inl ''malformed'')
       | None \<Rightarrow> Inl ''malformed''),
     cjson_decode = (\<lambda>m. case split_once (CHR '','') m of
         Some (p, rest) \<Rightarrow> (case split_on (CHR ''.'') rest of
             [a, b, c, d] \<Rightarrow> Some (int (length b), f64_round (int (length a)))
           | _ \<Rightarrow> None)
       | None \<Rightarrow> None)\<rparr>"

lemma split_seq_prefix: "split_once (CHR '','') (seq_prefix n @ rest) =
    Some ([CHR ''{'', CHR 0x22] @ ''seq'' @ [CHR 0x22, CHR '':''] @ decimal n, rest)"
proof -
  have "CHR '','' \<notin> set (decimal n)" using decimal_digits [of "CHR '',''" n] by (auto simp: is_ascii_digit_def)
  then show ?thesis by (simp add: split_once_Some_iff seq_prefix_def del: split_once.simps)
qed

lemma demo_json_laws: "json_laws demo_json"
proof -
  have u: "CHR ''.'' \<notin> set (unary n)" for n by (simp add: unary_def)
  show ?thesis
    by (auto simp: json_laws_def demo_json_def split_seq_prefix split_on_piece split_on_last u unary_def
        split: job.splits if_splits)
qed

lemma demo_allowed:
  "0 \<le> k \<Longrightarrow> 0 \<le> p \<Longrightarrow> p \<le> 100 \<Longrightarrow> redis_allowed demo_json \<lparr>qj_job = BskyVideoPoll k, qj_priority = p, qj_attempt = a\<rparr>"
  by (simp add: redis_allowed_def demo_json_def)

definition demo_redis_jobs :: "queued_job list" where
  "demo_redis_jobs = [\<lparr>qj_job = BskyVideoPoll 1, qj_priority = 10, qj_attempt = 0\<rparr>,
     \<lparr>qj_job = BskyVideoPoll 2, qj_priority = 50, qj_attempt = 0\<rparr>]"

theorem redis_queue_drains_by_priority_witness:
  "json_laws demo_json \<and> mset (redis.drain demo_json 2 (redis.fill demo_json demo_redis_jobs redis_new)) = mset demo_redis_jobs
   \<and> by_priority (redis.drain demo_json 2 (redis.fill demo_json demo_redis_jobs redis_new))"
proof -
  have "list_all (redis_allowed demo_json) demo_redis_jobs" by (simp add: demo_redis_jobs_def demo_allowed)
  moreover have "length demo_redis_jobs = 2" by (simp add: demo_redis_jobs_def)
  ultimately show ?thesis
    using redis_queue_drains_by_priority [of demo_json demo_redis_jobs] demo_json_laws by simp
qed

section \<open>Where the order within a priority is lost\<close>

lemma bitlen_eqI: "2 ^ n \<le> x \<Longrightarrow> x < 2 ^ Suc n \<Longrightarrow> bitlen x = int (Suc n)"
  by (intro antisym) (simp_all add: bitlen_le_iff_power bitlen_ge_iff_power nat_add_distrib)

lemma shared_score: "ready_score 50 9 = ready_score 50 10"
proof -
  have "bitlen 49999999999999991 = 56" "bitlen 49999999999999990 = 56"
    using bitlen_eqI [of 55 49999999999999991] bitlen_eqI [of 55 49999999999999990] by simp_all
  then have "f64_round (- 49999999999999991) = f64_round (- 49999999999999990)"
    by (simp add: f64_round_def f64_ulp_def round_half_even_def)
  then show ?thesis using ready_score_small [of 50 9] ready_score_small [of 50 10] by simp
qed

text \<open>
  The order within a priority is not kept in general: with eight numbers drawn before, two jobs of
  the priority HIGH (50) pushed one after the other get the same score, so the sorted set falls back to
  the bytes of the JSON text, in which the sequence number 10 comes before 9: the second job is
  taken first.
\<close>
theorem redis_fifo_inversion:
  assumes "redis_inv S r" "rq_counter r = 8" "rq_ready r = []"
    and "redis_allowed S x" "redis_allowed S y" "qj_priority x = 50" "qj_priority y = 50"
    and "\<forall>e m. to_json S e = Inr m \<longrightarrow> (\<exists>rest. m = seq_prefix (e_seq e) @ rest)"
  shows "redis.drain S 2 (redis.fill S [x, y] r) = [y, x]"
proof -
  have room: "0 < redis_room r" using assms(2) by (simp add: redis_room_def)
  have s9: "Suc 8 = 9" "Suc 9 = 10" by simp_all
  from redis_push_eq [OF assms(1) room assms(4), unfolded assms(2,3) s9] obtain m1 e1 where
    one: "to_json S e1 = Inr m1" "queued_of_envelope e1 = x" "e_seq e1 = 9"
    and p1: "redis_push S x r = r\<lparr>rq_counter := 9, rq_ready := [(m1, ready_score (e_priority e1) 9)]\<rparr>"
    by (metis append_Nil)
  let ?r1 = "redis_push S x r"
  have inv1: "redis_inv S ?r1" and room1: "0 < redis_room ?r1"
    using redis_push_laws [OF assms(1) room assms(4)] by (simp_all add: p1 redis_room_def)
  have r1: "rq_counter ?r1 = 9" "rq_ready ?r1 = [(m1, ready_score (e_priority e1) 9)]" by (simp_all add: p1)
  from redis_push_eq [OF inv1 room1 assms(5), unfolded r1 s9] obtain m2 e2 where
    two: "to_json S e2 = Inr m2" "queued_of_envelope e2 = y" "e_seq e2 = 10"
    and p2: "redis_push S y ?r1 = ?r1\<lparr>rq_counter := 10,
      rq_ready := [(m1, ready_score (e_priority e1) 9), (m2, ready_score (e_priority e2) 10)]\<rparr>"
    by (metis append_Cons append_Nil)
  let ?r2 = "redis_push S y ?r1"
  have inv2: "redis_inv S ?r2" by (rule redis_push_laws [OF inv1 room1 assms(5)])
  have prio: "e_priority e1 = 50" "e_priority e2 = 50"
    using one(2) two(2) assms(6,7) by (auto simp: queued_of_envelope_def)
  have laws: "json_laws S" using assms(1) by (simp add: redis_inv_def)
  have env: "envelope_of S m1 = e1" "envelope_of S m2 = e2" using one(1) two(1) laws by (simp_all add: envelope_of_json)
  from assms(8) one(1,3) two(1,3) obtain t1 t2 where "m1 = seq_prefix 9 @ t1" "m2 = seq_prefix 10 @ t2" by metis
  then have less: "m2 < m1" by (simp add: seq_prefix_def decimal.simps less_char_def)
  then have "\<not> m1 \<le> m2" by (simp add: not_le)
  then have pop2: "zpopmin (rq_ready ?r2) = Some ((m2, ready_score 50 10), [(m1, ready_score 50 9)])"
    using shared_score by (simp add: p2 prio zpopmin_def zset_order_def insort_key_def less_eq_prod_def)
  then have "redis_pop S ?r2 = Some (y, ?r2\<lparr>rq_ready := [(m1, ready_score 50 9)]\<rparr>)"
    by (simp add: redis_pop_cases [OF inv2] env two(2))
  moreover have inv3: "redis_inv S (?r2\<lparr>rq_ready := [(m1, ready_score 50 9)]\<rparr>)"
    using redis_pop_laws(2) [OF inv2 calculation] .
  have "redis_pop S (?r2\<lparr>rq_ready := [(m1, ready_score 50 9)]\<rparr>)
      = Some (x, ?r2\<lparr>rq_ready := []\<rparr>)"
    by (simp add: redis_pop_cases [OF inv3] zpopmin_def zset_order_def env one(2))
  ultimately show ?thesis by (simp add: numeral_2_eq_2)
qed

definition demo_redis_8 :: redis where
  "demo_redis_8 = redis_new\<lparr>rq_counter := 8\<rparr>"

theorem redis_fifo_inversion_witness:
  "redis.drain demo_json 2 (redis.fill demo_json
     [\<lparr>qj_job = BskyVideoPoll 1, qj_priority = 50, qj_attempt = 0\<rparr>, \<lparr>qj_job = BskyVideoPoll 2, qj_priority = 50, qj_attempt = 0\<rparr>]
     demo_redis_8) =
   [\<lparr>qj_job = BskyVideoPoll 2, qj_priority = 50, qj_attempt = 0\<rparr>, \<lparr>qj_job = BskyVideoPoll 1, qj_priority = 50, qj_attempt = 0\<rparr>]"
proof (rule redis_fifo_inversion)
  show "redis_inv demo_json demo_redis_8"
    using demo_json_laws by (simp add: redis_inv_def demo_redis_8_def redis_new_def)
  show "\<forall>e m. to_json demo_json e = Inr m \<longrightarrow> (\<exists>rest. m = seq_prefix (e_seq e) @ rest)"
    by (auto simp: demo_json_def split: job.splits if_splits)
qed (simp_all add: demo_redis_8_def redis_new_def demo_allowed)

section \<open>Many processes\<close>

text \<open>
  Any number of processes enqueue and dequeue; each command of Redis (and the script) is atomic, and the
  commands of different calls interleave. A call draws its number with \<open>INCR\<close> and adds the member by a
  later command: in between its entry is in flight, with the delay of a retry. \<open>submitted\<close> and
  \<open>delivered\<close> are histories. Lost connections and crashing processes are not part of the system.
\<close>

record redis_system =
  store :: redis
  in_flight :: "(envelope \<times> int option) multiset"
  rs_submitted :: "queued_job multiset"
  rs_delivered :: "queued_job multiset"

inductive redis_step :: "envelope_json \<Rightarrow> redis_system \<Rightarrow> redis_system \<Rightarrow> bool" for S :: envelope_json where
  draw: "next_seq (store s) = (Inr n, r) \<Longrightarrow> e_seq e = n \<Longrightarrow> to_json S e = Inr m \<Longrightarrow>
     redis_step S s (s\<lparr>store := r, in_flight := add_mset (e, d) (in_flight s),
       rs_submitted := add_mset (queued_of_envelope e) (rs_submitted s)\<rparr>)"
| refused: "next_seq (store s) = (Inr n, r) \<Longrightarrow> redis_step S s (s\<lparr>store := r\<rparr>)"
| add_ready: "(e, None) \<in># in_flight s \<Longrightarrow> to_json S e = Inr m \<Longrightarrow>
     redis_step S s (s\<lparr>in_flight := in_flight s - {#(e, None)#},
       store := (store s)\<lparr>rq_ready := zadd (ready_score (e_priority e) (e_seq e)) m (rq_ready (store s))\<rparr>\<rparr>)"
| add_delayed: "(e, Some t) \<in># in_flight s \<Longrightarrow> to_json S e = Inr m \<Longrightarrow>
     redis_step S s (s\<lparr>in_flight := in_flight s - {#(e, Some t)#},
       store := (store s)\<lparr>rq_delayed := zadd (f64_round t) m (rq_delayed (store s))\<rparr>\<rparr>)"
| promote: "redis_step S s (s\<lparr>store := snd (promote_due S now_ms (store s))\<rparr>)"
| take: "zpopmin (rq_ready (store s)) = Some ((m, score), rest) \<Longrightarrow> from_json S m = Inr e \<Longrightarrow>
     redis_step S s (s\<lparr>store := (store s)\<lparr>rq_ready := rest\<rparr>,
       rs_delivered := add_mset (queued_of_envelope e) (rs_delivered s)\<rparr>)"
| drop: "zpopmin (rq_ready (store s)) = Some ((m, score), rest) \<Longrightarrow> from_json S m = Inl err \<Longrightarrow>
     redis_step S s (s\<lparr>store := (store s)\<lparr>rq_ready := rest\<rparr>\<rparr>)"

definition redis_system_new :: redis_system where
  "redis_system_new = \<lparr>store = redis_new, in_flight = {#}, rs_submitted = {#}, rs_delivered = {#}\<rparr>"

inductive redis_reachable :: "envelope_json \<Rightarrow> redis_system \<Rightarrow> bool" for S :: envelope_json where
  start: "redis_reachable S redis_system_new"
| step: "redis_reachable S s \<Longrightarrow> redis_step S s t \<Longrightarrow> redis_reachable S t"

text \<open>The entries that are neither refused nor delivered.\<close>

definition store_envelopes :: "envelope_json \<Rightarrow> redis \<Rightarrow> envelope multiset" where
  "store_envelopes S r = envelopes S (rq_ready r) + envelopes S (rq_delayed r)"

definition pending :: "envelope_json \<Rightarrow> redis_system \<Rightarrow> envelope multiset" where
  "pending S s = image_mset fst (in_flight s) + store_envelopes S (store s)"

definition redis_system_inv :: "envelope_json \<Rightarrow> redis_system \<Rightarrow> bool" where
  "redis_system_inv S s \<longleftrightarrow> well_formed S (rq_ready (store s)) \<and> well_formed S (rq_delayed (store s))
     \<and> (\<forall>e \<in># pending S s. count (pending S s) e = 1 \<and> e_seq e \<le> rq_counter (store s))
     \<and> rs_submitted s = rs_delivered s + image_mset queued_of_envelope (pending S s)"

text \<open>The sorted set operations on a set of distinct entries.\<close>

lemma count_pending_once:
  "\<forall>e \<in># add_mset x M. count (add_mset x M) e = 1 \<Longrightarrow> x \<notin># M"
  by (metis One_nat_def add_eq_self_zero count_add_mset count_greater_zero_iff insert_iff
      nat_neq_iff plus_1_eq_Suc set_mset_add_mset_insert)

lemma zadd_envelopes:
  assumes "json_laws S" "well_formed S z" "to_json S e = Inr m" "e \<notin># envelopes S z"
  shows "envelopes S (zadd s m z) = add_mset e (envelopes S z)" "well_formed S (zadd s m z)"
proof -
  from fresh_member [OF assms(2,1,3,4)] have z: "zadd s m z = z @ [(m, s)]" by (rule zadd_fresh)
  have "envelope_of S m = e" using assms(1,3) by (rule envelope_of_json)
  then show "envelopes S (zadd s m z) = add_mset e (envelopes S z)" "well_formed S (zadd s m z)"
    using assms(2,3) by (simp_all add: z)
qed

lemma zrem_envelopes:
  assumes "zrem m z = (True, d)" "well_formed S z" "\<forall>e \<in># envelopes S z. count (envelopes S z) e = 1"
  shows "envelopes S z = add_mset (envelope_of S m) (envelopes S d)" "well_formed S d"
    "to_json S (envelope_of S m) = Inr m"
proof -
  from assms(1) obtain s where m: "(m, s) \<in> set z" and d: "d = filter (\<lambda>(m', s). m' \<noteq> m) z"
    by (auto simp: zrem_def)
  then obtain y w where z: "z = y @ (m, s) # w" by (meson split_list)
  have "envelope_of S m \<notin># envelopes S (y @ w)"
    using assms(3) by (intro count_pending_once) (simp add: z add.commute)
  then have "filter (\<lambda>(m', s). m' \<noteq> m) (y @ w) = y @ w"
    by (force simp: filter_id_conv envelopes_def simp del: filter_append)
  then have "d = y @ w" by (simp add: d z)
  then show "envelopes S z = add_mset (envelope_of S m) (envelopes S d)" "well_formed S d"
    "to_json S (envelope_of S m) = Inr m"
    using assms(2) by (simp_all add: z)
qed

text \<open>The script moves entries and never stops on an entry of this code.\<close>

lemma promote_members_keeps:
  assumes "json_laws S" "well_formed S (rq_ready r)" "well_formed S (rq_delayed r)"
    and "\<forall>e \<in># store_envelopes S r. count (store_envelopes S r) e = 1"
  shows "fst (promote_members S due r) \<and> well_formed S (rq_ready (snd (promote_members S due r)))
    \<and> well_formed S (rq_delayed (snd (promote_members S due r)))
    \<and> store_envelopes S (snd (promote_members S due r)) = store_envelopes S r
    \<and> rq_counter (snd (promote_members S due r)) = rq_counter r"
  using assms(2-4)
proof (induction due arbitrary: r)
  case (Cons m due)
  show ?case
  proof (cases "m \<in> fst ` set (rq_delayed r)")
    case False
    with Cons show ?thesis by (simp add: zrem_def)
  next
    case True
    then obtain d where d: "zrem m (rq_delayed r) = (True, d)" by (simp add: zrem_def)
    let ?e = "envelope_of S m"
    have once: "\<forall>e \<in># envelopes S (rq_delayed r). count (envelopes S (rq_delayed r)) e = 1"
    proof
      fix e assume e: "e \<in># envelopes S (rq_delayed r)"
      then have "count (store_envelopes S r) e = 1" "0 < count (envelopes S (rq_delayed r)) e"
        using Cons.prems(3) by (simp_all add: store_envelopes_def)
      then show "count (envelopes S (rq_delayed r)) e = 1"
        unfolding store_envelopes_def plus_multiset.rep_eq by linarith
    qed
    note rem = zrem_envelopes [OF d Cons.prems(2) once]
    have all: "store_envelopes S r = add_mset ?e (envelopes S (rq_ready r) + envelopes S d)"
      by (simp add: store_envelopes_def rem(1))
    then have "?e \<notin># envelopes S (rq_ready r) + envelopes S d"
      using Cons.prems(3) by (intro count_pending_once) simp
    then have fresh: "?e \<notin># envelopes S (rq_ready r)" by simp
    have dec: "cjson_decode S m = Some (e_priority ?e, f64_round (int (e_seq ?e)))"
      using assms(1) rem(3) by (simp add: json_laws_def)
    let ?r = "r\<lparr>rq_delayed := d, rq_ready := zadd (ready_score (e_priority ?e) (e_seq ?e)) m (rq_ready r)\<rparr>"
    note add = zadd_envelopes [OF assms(1) Cons.prems(1) rem(3) fresh, of "ready_score (e_priority ?e) (e_seq ?e)"]
    have same: "store_envelopes S ?r = store_envelopes S r" by (simp add: store_envelopes_def add(1) rem(1))
    have step: "promote_members S (m # due) r = promote_members S due ?r"
      by (simp add: d dec ready_score_def)
    show ?thesis unfolding step using Cons.IH [of ?r] add(2) rem(2) Cons.prems(3) same by simp
  qed
qed simp

lemma once_sub: "\<forall>e \<in># M. count M e = 1 \<Longrightarrow> N \<subseteq># M \<Longrightarrow> \<forall>e \<in># N. count N e = 1"
  by (metis count_greater_eq_one_iff le_antisym mset_subset_eqD mset_subset_eq_count)

lemma store_once:
  assumes "redis_system_inv S s"
  shows "\<forall>e \<in># store_envelopes S (store s). count (store_envelopes S (store s)) e = 1"
proof (rule once_sub)
  show "\<forall>e \<in># pending S s. count (pending S s) e = 1" using assms unfolding redis_system_inv_def by blast
qed (simp add: pending_def)

lemma system_inv_pending:
  assumes "redis_system_inv S s" "pending S t = pending S s" "well_formed S (rq_ready (store t))"
    "well_formed S (rq_delayed (store t))" "rq_counter (store s) \<le> rq_counter (store t)"
    "rs_submitted t = rs_submitted s" "rs_delivered t = rs_delivered s"
  shows "redis_system_inv S t"
  using assms by (auto simp: redis_system_inv_def intro: le_trans)

lemma redis_step_inv:
  assumes laws: "json_laws S" and step: "redis_step S s t" and inv: "redis_system_inv S s"
  shows "redis_system_inv S t"
  using step
proof cases
  case (draw n r e m d)
  then have r: "r = (store s)\<lparr>rq_counter := n\<rparr>" "n = rq_counter (store s) + 1"
    by (auto simp: next_seq_def split: if_splits)
  have "e \<notin># pending S s" using inv draw(3) r(2) by (auto simp: redis_system_inv_def)
  then have c: "count (pending S s) e = 0" by (simp add: not_in_iff)
  have p: "pending S t = add_mset e (pending S s)" by (simp add: draw(1) r(1) pending_def store_envelopes_def)
  show ?thesis
    using inv c unfolding redis_system_inv_def p
    by (auto simp: draw(1) r draw(3) intro: le_SucI)
next
  case (refused n r)
  then have r: "r = (store s)\<lparr>rq_counter := n\<rparr>" "n = rq_counter (store s) + 1"
    by (auto simp: next_seq_def split: if_splits)
  then show ?thesis
    using inv by (intro system_inv_pending [OF inv]) (simp_all add: refused(1) pending_def store_envelopes_def redis_system_inv_def)
next
  case (add_ready e m)
  let ?f = "in_flight s - {#(e, None)#}"
  have f: "in_flight s = add_mset (e, None) ?f" using add_ready(2) by simp
  then have "image_mset fst (in_flight s) = add_mset e (image_mset fst ?f)" by (metis fst_conv image_mset_add_mset)
  then have p: "pending S s = add_mset e (image_mset fst ?f + store_envelopes S (store s))" by (simp add: pending_def)
  then have "e \<notin># image_mset fst ?f + store_envelopes S (store s)"
    using inv by (intro count_pending_once) (simp add: redis_system_inv_def)
  then have "e \<notin># envelopes S (rq_ready (store s))" by (simp add: store_envelopes_def)
  note z = zadd_envelopes [OF laws _ add_ready(3) this, of "ready_score (e_priority e) (e_seq e)"]
  have wf: "well_formed S (rq_ready (store s))" "well_formed S (rq_delayed (store s))"
    using inv by (simp_all add: redis_system_inv_def)
  show ?thesis
    by (rule system_inv_pending [OF inv])
      (simp_all add: add_ready(1) p z [OF wf(1)] wf, simp add: pending_def store_envelopes_def z [OF wf(1)])
next
  case (add_delayed e d m)
  let ?f = "in_flight s - {#(e, Some d)#}"
  have f: "in_flight s = add_mset (e, Some d) ?f" using add_delayed(2) by simp
  then have "image_mset fst (in_flight s) = add_mset e (image_mset fst ?f)" by (metis fst_conv image_mset_add_mset)
  then have p: "pending S s = add_mset e (image_mset fst ?f + store_envelopes S (store s))" by (simp add: pending_def)
  then have "e \<notin># image_mset fst ?f + store_envelopes S (store s)"
    using inv by (intro count_pending_once) (simp add: redis_system_inv_def)
  then have "e \<notin># envelopes S (rq_delayed (store s))" by (simp add: store_envelopes_def)
  note z = zadd_envelopes [OF laws _ add_delayed(3) this, of "f64_round d"]
  have wf: "well_formed S (rq_ready (store s))" "well_formed S (rq_delayed (store s))"
    using inv by (simp_all add: redis_system_inv_def)
  show ?thesis
    by (rule system_inv_pending [OF inv])
      (simp_all add: add_delayed(1) p z [OF wf(2)] wf, simp add: pending_def store_envelopes_def z [OF wf(2)])
next
  case (promote now_ms)
  note once = store_once [OF inv]
  have wf: "well_formed S (rq_ready (store s))" "well_formed S (rq_delayed (store s))"
    using inv by (simp_all add: redis_system_inv_def)
  note k = promote_members_keeps [OF laws wf once]
  show ?thesis
    by (rule system_inv_pending [OF inv]) (simp_all add: promote pending_def promote_due_def k)
next
  case (take m score rest e)
  note z = zpopmin_Some(1) [OF take(2)]
  have "(m, score) \<in> set (rq_ready (store s))" by (metis z set_mset_mset union_single_eq_member)
  then have "from_json S m = Inr (envelope_of S m)"
    using inv laws by (intro from_json_member) (auto simp: redis_system_inv_def well_formed_def)
  with take(3) have e: "envelope_of S m = e" by simp
  have sub: "set rest \<subseteq> set (rq_ready (store s))" by (metis z set_mset_add_mset_insert set_mset_mset subset_insertI)
  have "envelopes S (rq_ready (store s)) = add_mset e (envelopes S rest)" by (simp add: envelopes_def z e)
  then have p: "pending S s = add_mset e (pending S t)" by (simp add: take(1) pending_def store_envelopes_def)
  have "\<forall>f \<in># pending S s. count (pending S s) f = 1" using inv unfolding redis_system_inv_def by blast
  moreover have "pending S t \<subseteq># pending S s" by (simp add: p)
  ultimately have once: "\<forall>f \<in># pending S t. count (pending S t) f = 1" by (rule once_sub)
  have "\<forall>f \<in># pending S t. e_seq f \<le> rq_counter (store t)"
    using inv by (simp add: redis_system_inv_def p) (simp add: take(1))
  moreover have "rs_submitted t = rs_delivered t + image_mset queued_of_envelope (pending S t)"
    using inv by (simp add: redis_system_inv_def p) (simp add: take(1))
  moreover have "well_formed S (rq_ready (store t))" "well_formed S (rq_delayed (store t))"
    using inv sub by (auto simp: redis_system_inv_def take(1) well_formed_def)
  ultimately show ?thesis using once unfolding redis_system_inv_def by blast
next
  case (drop m score rest err)
  have "(m, score) \<in> set (rq_ready (store s))"
    by (metis zpopmin_Some(1) [OF drop(2)] set_mset_mset union_single_eq_member)
  then have "from_json S m = Inr (envelope_of S m)"
    using inv laws by (intro from_json_member) (auto simp: redis_system_inv_def well_formed_def)
  with drop(3) show ?thesis by simp
qed

lemma redis_reachable_inv: "redis_reachable S s \<Longrightarrow> json_laws S \<Longrightarrow> redis_system_inv S s"
proof (induction rule: redis_reachable.induct)
  case start
  then show ?case
    by (simp add: redis_system_inv_def redis_system_new_def redis_new_def pending_def store_envelopes_def)
next
  case (step s t)
  then show ?case using redis_step_inv by blast
qed

text \<open>
  C22. No job is lost or delivered twice by the shared queue: in every reachable state of any number of
  processes whose commands interleave, the jobs accepted are exactly those delivered, those in flight
  and those in the two sorted sets, each there once, and the promotion script goes through.
\<close>
theorem redis_no_lost_job:
  assumes "redis_reachable S s" "json_laws S"
  shows "rs_submitted s = rs_delivered s + image_mset queued_of_envelope (pending S s)
    \<and> (\<forall>e. count (pending S s) e \<le> 1) \<and> fst (promote_due S now_ms (store s))"
proof -
  have inv: "redis_system_inv S s" using assms by (rule redis_reachable_inv)
  have c: "count (pending S s) e \<le> 1" for e
    using inv by (cases "e \<in># pending S s") (auto simp: redis_system_inv_def not_in_iff)
  have wf: "well_formed S (rq_ready (store s))" "well_formed S (rq_delayed (store s))"
    using inv by (simp_all add: redis_system_inv_def)
  then have "fst (promote_due S now_ms (store s))"
    unfolding promote_due_def using promote_members_keeps [OF assms(2) wf store_once [OF inv]] by blast
  with inv c show ?thesis by (simp add: redis_system_inv_def)
qed

text \<open>A retry that waits in the delayed set.\<close>

definition demo_retry :: envelope where
  "demo_retry = \<lparr>e_seq = 1, e_priority = 10, e_attempt = 1, e_job = BskyVideoPoll 3\<rparr>"

theorem redis_no_lost_job_witness:
  "\<exists>s. redis_reachable demo_json s \<and> rs_submitted s = {#queued_of_envelope demo_retry#}
     \<and> rs_delivered s = {#} \<and> rq_delayed (store s) \<noteq> []
     \<and> image_mset queued_of_envelope (pending demo_json s) = {#queued_of_envelope demo_retry#}"
proof -
  obtain m where m: "to_json demo_json demo_retry = Inr m" by (simp add: demo_json_def demo_retry_def)
  define s where "s = redis_system_new\<lparr>store := redis_new\<lparr>rq_counter := 1\<rparr>, in_flight := {#(demo_retry, Some 5)#},
    rs_submitted := {#queued_of_envelope demo_retry#}\<rparr>"
  define t where "t = s\<lparr>in_flight := {#}, store := (store s)\<lparr>rq_delayed := zadd (f64_round 5) m []\<rparr>\<rparr>"
  have "redis_step demo_json redis_system_new s"
    using redis_step.draw [of redis_system_new 1 "redis_new\<lparr>rq_counter := 1\<rparr>" demo_retry demo_json m "Some 5"] m
    by (simp add: s_def next_seq_def redis_system_new_def redis_new_def demo_retry_def)
  with redis_reachable.start have "redis_reachable demo_json s" by (rule redis_reachable.step)
  moreover have "redis_step demo_json s t"
    using redis_step.add_delayed [of demo_retry 5 s demo_json m] m
    by (simp add: t_def s_def redis_system_new_def redis_new_def)
  ultimately have r: "redis_reachable demo_json t" by (rule redis_reachable.step)
  have "rs_submitted t = {#queued_of_envelope demo_retry#}" "rs_delivered t = {#}" "rq_delayed (store t) \<noteq> []"
    by (simp_all add: t_def s_def redis_system_new_def zadd_def)
  with redis_no_lost_job [OF r demo_json_laws] r show ?thesis by auto
qed

end
