(* ===== verification/Ipld.thy ===== *)
theory Ipld
  imports Prelude "HOL-Library.Char_ord" "HOL-Library.List_Lexorder"
begin

text \<open>
  The data model of the AT repository: content identifiers, the values of DAG-CBOR and of JSON,
  \<open>BTreeMap\<close> as an association list in key order, and the conversions of
  \<open>seiran-common/src/atp/repo.rs\<close> between them.

  The record \<open>atp_libs\<close> holds the functions of the third-party crates that the repository code
  calls (sha2, base32, base64, hex, serde_ipld_dagcbor, the cid crate, serde_json's number
  conversions). Every definition that calls one takes the record as its first argument, and a
  property that needs documented behaviour of one states it as a named hypothesis.
\<close>

section \<open>Ordered maps\<close>

text \<open>\<open>BTreeMap::insert\<close>: the entry at its place in key order, an equal key replaced.\<close>

fun btree_insert :: "'k::linorder \<Rightarrow> 'v \<Rightarrow> ('k \<times> 'v) list \<Rightarrow> ('k \<times> 'v) list" where
  "btree_insert k v [] = [(k, v)]"
| "btree_insert k v ((k', v') # m) =
     (if k < k' then (k, v) # (k', v') # m
      else if k = k' then (k, v) # m
      else (k', v') # btree_insert k v m)"

definition btree_of :: "('k::linorder \<times> 'v) list \<Rightarrow> ('k \<times> 'v) list" where
  "btree_of kvs = fold (\<lambda>(k, v). btree_insert k v) kvs []"

definition btree_ok :: "('k::linorder \<times> 'v) list \<Rightarrow> bool" where
  "btree_ok m \<longleftrightarrow> sorted_wrt (<) (map fst m)"

lemma map_of_btree_insert [simp]: "map_of (btree_insert k v m) = (map_of m)(k \<mapsto> v)"
  by (induction m) (auto simp: fun_eq_iff)

lemma keys_btree_insert [simp]: "fst ` set (btree_insert k v m) = insert k (fst ` set m)"
  by (metis dom_fun_upd dom_map_of_conv_image_fst map_of_btree_insert option.distinct(1))

lemma btree_ok_Nil [simp]: "btree_ok []"
  by (simp add: btree_ok_def)

lemma btree_ok_Cons: "btree_ok ((k, v) # m) \<longleftrightarrow> (\<forall>k' \<in> fst ` set m. k < k') \<and> btree_ok m"
  by (auto simp: btree_ok_def)

lemma btree_ok_insert [simp]: "btree_ok m \<Longrightarrow> btree_ok (btree_insert k v m)"
proof (induction m)
  case (Cons kv m)
  obtain k' v' where kv: "kv = (k', v')" by (cases kv)
  consider "k < k'" | "k = k'" | "k' < k" by fastforce
  then show ?case
    using Cons by cases (auto simp: kv btree_ok_Cons dest: less_trans)
qed (simp add: btree_ok_def)

text \<open>Inserting the entries of an ordered map one after the other rebuilds it.\<close>

lemma btree_insert_last:
  "(\<And>k'. k' \<in> fst ` set m \<Longrightarrow> k' < k) \<Longrightarrow> btree_insert k v m = m @ [(k, v)]"
proof (induction m)
  case (Cons kv m)
  obtain k' v' where kv: "kv = (k', v')" by (cases kv)
  with Cons.prems have "k' < k" by simp
  then have "\<not> k < k'" "k \<noteq> k'" by auto
  with Cons kv show ?case by simp
qed simp

lemma btree_ok_append:
  "btree_ok (m @ n) \<longleftrightarrow> btree_ok m \<and> btree_ok n
     \<and> (\<forall>k \<in> fst ` set m. \<forall>k' \<in> fst ` set n. k < k')"
  by (auto simp: btree_ok_def sorted_wrt_append)

lemma fold_btree_insert_ok:
  "btree_ok (m @ n) \<Longrightarrow> fold (\<lambda>(k, v). btree_insert k v) n m = m @ n"
proof (induction n arbitrary: m)
  case (Cons kv n)
  obtain k v where kv: "kv = (k, v)" by (cases kv)
  have "btree_insert k v m = m @ [(k, v)]"
    using Cons.prems by (intro btree_insert_last) (auto simp: kv btree_ok_append)
  with Cons.IH [of "m @ [(k, v)]"] Cons.prems show ?case by (simp add: kv)
qed simp

lemma btree_of_ok [simp]: "btree_ok m \<Longrightarrow> btree_of m = m"
  by (simp add: btree_of_def fold_btree_insert_ok)

lemma btree_ok_of [simp]: "btree_ok (btree_of kvs)"
proof -
  have "btree_ok m \<Longrightarrow> btree_ok (fold (\<lambda>(k, v). btree_insert k v) kvs m)" for m
    by (induction kvs arbitrary: m) auto
  then show ?thesis by (simp add: btree_of_def)
qed

text \<open>A map over the values leaves the order of the keys alone.\<close>

lemma btree_ok_map_values [simp]: "btree_ok (map (\<lambda>(k, v). (k, f v)) m) \<longleftrightarrow> btree_ok m"
  by (simp add: btree_ok_def comp_def case_prod_unfold)

section \<open>Content identifiers, DAG-CBOR and JSON values\<close>

datatype cid_version = V0 | V1

text \<open>\<open>Multihash<64>\<close>: the code of the hash function and a digest of at most 64 bytes.\<close>

record multihash =
  mh_code :: "64 word"
  mh_digest :: bytes

record cid =
  cid_version :: cid_version
  cid_codec :: "64 word"
  cid_hash :: multihash

text \<open>An \<open>i128\<close> is an \<open>int\<close> (its bounds are hypotheses where they matter), an \<open>f64\<close> its bits.\<close>

datatype ipld =
    INull
  | IBool bool
  | IInteger int
  | IFloat "64 word"
  | IString string
  | IBytes bytes
  | IList "ipld list"
  | IMap "(string \<times> ipld) list"
  | ILink cid

text \<open>\<open>serde_json::Value\<close>, with the three representations of its \<open>Number\<close>.\<close>

datatype json_number = PosInt "64 word" | NegInt "64 word" | Finite_Float "64 word"

datatype json =
    JNull
  | JBool bool
  | JNumber json_number
  | JString string
  | JArray "json list"
  | JObject "(string \<times> json) list"

datatype repo_error = Cbor string | Key string | CidParse string

text \<open>The functions of the crates.\<close>

record atp_libs =
  sha256 :: "bytes \<Rightarrow> 256 word"
  base32_rfc4648 :: "bytes \<Rightarrow> string"
  dagcbor_to_vec :: "ipld \<Rightarrow> string + bytes"
  dagcbor_from_slice :: "bytes \<Rightarrow> string + ipld"
  cid_to_bytes :: "cid \<Rightarrow> bytes"
  cid_read_bytes :: "bytes \<Rightarrow> string + cid \<times> nat"
  cid_display :: "cid \<Rightarrow> string"
  cid_parse :: "string \<Rightarrow> string + cid"
  base64url_encode :: "bytes \<Rightarrow> string"
  base64url_decode :: "string \<Rightarrow> string + bytes"
  hex_encode :: "bytes \<Rightarrow> string"
  hex_decode :: "string \<Rightarrow> string + bytes"
  number_as_i64 :: "json_number \<Rightarrow> int option"
  number_as_f64 :: "json_number \<Rightarrow> 64 word option"
  json_of_i128 :: "int \<Rightarrow> json option"
  json_of_f64 :: "64 word \<Rightarrow> json"

text \<open>\<open>map_err\<close> of a library error into an error of the program.\<close>

fun map_err :: "('a \<Rightarrow> 'b) \<Rightarrow> 'a + 'c \<Rightarrow> 'b + 'c" where
  "map_err f (Inl e) = Inl (f e)"
| "map_err f (Inr x) = Inr x"

lemma map_err_Inr_iff [simp]: "map_err f r = Inr x \<longleftrightarrow> r = Inr x"
  by (cases r) auto

section \<open>Identifiers of blocks\<close>

text \<open>The 32 bytes of a SHA-256 digest, most significant first.\<close>

definition digest_bytes :: "256 word \<Rightarrow> bytes" where
  "digest_bytes d = map (\<lambda>i. ucast (drop_bit (8 * i) d)) (rev [0..<32])"

lemma length_digest_bytes [simp]: "length (digest_bytes d) = 32"
  by (simp add: digest_bytes_def)

text \<open>\<open>Multihash::<64>::wrap\<close> refuses a digest that does not fit.\<close>

definition multihash_wrap :: "64 word \<Rightarrow> bytes \<Rightarrow> string + multihash" where
  "multihash_wrap code digest =
     (if length digest \<le> 64 then Inr \<lparr>mh_code = code, mh_digest = digest\<rparr>
      else Inl ''Multihash size'')"

definition cid_new_v1 :: "64 word \<Rightarrow> multihash \<Rightarrow> cid" where
  "cid_new_v1 codec mh = \<lparr>cid_version = V1, cid_codec = codec, cid_hash = mh\<rparr>"

text \<open>\<open>undefined\<close> is the panic of \<open>expect\<close>; the lemma below shows that it does not happen.\<close>

definition cid_from_dagcbor :: "atp_libs \<Rightarrow> bytes \<Rightarrow> cid" where
  "cid_from_dagcbor L cbor =
     (case multihash_wrap 0x12 (digest_bytes (sha256 L cbor)) of
        Inr mh \<Rightarrow> cid_new_v1 0x71 mh
      | Inl e \<Rightarrow> undefined)"

lemma cid_from_dagcbor_eq:
  "cid_from_dagcbor L cbor =
     \<lparr>cid_version = V1, cid_codec = 0x71,
      cid_hash = \<lparr>mh_code = 0x12, mh_digest = digest_bytes (sha256 L cbor)\<rparr>\<rparr>"
  by (simp add: cid_from_dagcbor_def multihash_wrap_def cid_new_v1_def)

definition cid_to_string :: "atp_libs \<Rightarrow> cid \<Rightarrow> string" where
  "cid_to_string L c = cid_display L c"

definition cid_from_str :: "atp_libs \<Rightarrow> string \<Rightarrow> repo_error + cid" where
  "cid_from_str L s = map_err CidParse (cid_parse L s)"

text \<open>The raw CID of a stored blob, from the hex digest of its row.\<close>

definition cid_from_sha256_hex :: "atp_libs \<Rightarrow> string \<Rightarrow> repo_error + cid" where
  "cid_from_sha256_hex L h =
     rbind (map_err CidParse (hex_decode L h)) (\<lambda>bs.
     rbind (map_err CidParse (multihash_wrap 0x12 bs)) (\<lambda>mh.
     Inr (cid_new_v1 0x55 mh)))"

definition sha256_hexes_of_blob_cids :: "atp_libs \<Rightarrow> cid list \<Rightarrow> string list" where
  "sha256_hexes_of_blob_cids L cids =
     map (\<lambda>c. hex_encode L (mh_digest (cid_hash c))) (filter (\<lambda>c. mh_code (cid_hash c) = 0x12) cids)"

section \<open>JSON and DAG-CBOR\<close>

lemma rfold_cong [fundef_cong]:
  "xs = ys \<Longrightarrow> s = t \<Longrightarrow> (\<And>x u. x \<in> set ys \<Longrightarrow> f x u = g x u) \<Longrightarrow> rfold f xs s = rfold g ys t"
proof (induction xs arbitrary: ys s t)
  case (Cons x xs)
  then show ?case by (cases "g x t") auto
qed simp

lemma rmap_cong [fundef_cong]:
  "xs = ys \<Longrightarrow> (\<And>x. x \<in> set ys \<Longrightarrow> f x = g x) \<Longrightarrow> rmap f xs = rmap g ys"
  by (induction xs arbitrary: ys) auto

lemma size_map_entry [termination_simp]:
  "(k, v) \<in> set m \<Longrightarrow> size v < Suc (size_list (size_prod (\<lambda>x. 0) size) m)"
  by (induction m) auto

text \<open>
  Object members \<open>$link\<close> and \<open>$bytes\<close> stand for a link and for bytes when they are the only
  member of their object and a string.
\<close>

fun json_to_ipld :: "atp_libs \<Rightarrow> json \<Rightarrow> repo_error + ipld" where
  "json_to_ipld L JNull = Inr INull"
| "json_to_ipld L (JBool b) = Inr (IBool b)"
| "json_to_ipld L (JNumber n) =
     (case number_as_i64 L n of
        Some i \<Rightarrow> Inr (IInteger i)
      | None \<Rightarrow>
          (case number_as_f64 L n of
             Some f \<Rightarrow> Inr (IFloat f)
           | None \<Rightarrow> Inl (Cbor ''number is neither i64 nor f64'')))"
| "json_to_ipld L (JString s) = Inr (IString s)"
| "json_to_ipld L (JArray a) = rbind (rmap (json_to_ipld L) a) (\<lambda>items. Inr (IList items))"
| "json_to_ipld L (JObject obj) =
     (case (map_of obj ''$link'', length obj = 1) of
        (Some (JString link), True) \<Rightarrow> rbind (cid_from_str L link) (\<lambda>c. Inr (ILink c))
      | _ \<Rightarrow>
     (case (map_of obj ''$bytes'', length obj = 1) of
        (Some (JString b64), True) \<Rightarrow>
          rbind (map_err Cbor (base64url_decode L b64)) (\<lambda>bs. Inr (IBytes bs))
      | _ \<Rightarrow>
     rbind (rfold (\<lambda>(k, v) m. rbind (json_to_ipld L v) (\<lambda>i. Inr (btree_insert k i m))) obj [])
       (\<lambda>m. Inr (IMap m))))"

text \<open>The inverse direction; \<open>None\<close> is the panic of \<open>json!\<close> on an integer it cannot represent.\<close>

fun ipld_to_json :: "atp_libs \<Rightarrow> ipld \<Rightarrow> json option" where
  "ipld_to_json L INull = Some JNull"
| "ipld_to_json L (IBool b) = Some (JBool b)"
| "ipld_to_json L (IInteger i) = json_of_i128 L i"
| "ipld_to_json L (IFloat f) = Some (json_of_f64 L f)"
| "ipld_to_json L (IString s) = Some (JString s)"
| "ipld_to_json L (IBytes b) = Some (JObject [(''$bytes'', JString (base64url_encode L b))])"
| "ipld_to_json L (IList l) = map_option JArray (those (map (ipld_to_json L) l))"
| "ipld_to_json L (IMap m) =
     map_option (\<lambda>kvs. JObject (btree_of kvs))
       (those (map (\<lambda>(k, v). map_option (Pair k) (ipld_to_json L v)) m))"
| "ipld_to_json L (ILink c) = Some (JObject [(''$link'', JString (cid_display L c))])"

definition decode_dagcbor_to_json :: "atp_libs \<Rightarrow> bytes \<Rightarrow> repo_error + json option" where
  "decode_dagcbor_to_json L cbor =
     rbind (map_err Cbor (dagcbor_from_slice L cbor)) (\<lambda>i. Inr (ipld_to_json L i))"

definition encode_generic_record :: "atp_libs \<Rightarrow> json \<Rightarrow> repo_error + bytes \<times> cid" where
  "encode_generic_record L v =
     rbind (json_to_ipld L v) (\<lambda>i.
     rbind (map_err Cbor (dagcbor_to_vec L i)) (\<lambda>cbor.
     Inr (cbor, cid_from_dagcbor L cbor)))"


text \<open>\<open>collect_blob_cids_inner\<close> pushes into the vector \<open>out\<close>.\<close>

fun json_get :: "json \<Rightarrow> string \<Rightarrow> json option" where
  "json_get (JObject obj) k = map_of obj k"
| "json_get v k = None"

fun json_as_str :: "json \<Rightarrow> string option" where
  "json_as_str (JString s) = Some s"
| "json_as_str v = None"

definition blob_link :: "(string \<times> json) list \<Rightarrow> string option" where
  "blob_link obj =
     (if Option.bind (map_of obj ''$type'') json_as_str = Some ''blob''
      then Option.bind (Option.bind (map_of obj ''ref'') (\<lambda>r. json_get r ''$link'')) json_as_str
      else None)"

fun collect_blob_cids_inner :: "atp_libs \<Rightarrow> json \<Rightarrow> cid list \<Rightarrow> cid list" where
  "collect_blob_cids_inner L (JObject obj) out =
     fold (\<lambda>(k, v). collect_blob_cids_inner L v) obj
       (case blob_link obj of
          Some link \<Rightarrow> (case cid_from_str L link of Inr c \<Rightarrow> out @ [c] | Inl e \<Rightarrow> out)
        | None \<Rightarrow> out)"
| "collect_blob_cids_inner L (JArray a) out = fold (collect_blob_cids_inner L) a out"
| "collect_blob_cids_inner L v out = out"

definition collect_blob_cids :: "atp_libs \<Rightarrow> json \<Rightarrow> cid list" where
  "collect_blob_cids L v = collect_blob_cids_inner L v []"

lemmas [repo_defs] = cid_to_string_def cid_from_str_def cid_from_sha256_hex_def
  decode_dagcbor_to_json_def encode_generic_record_def collect_blob_cids_def

section \<open>What the conversions promise\<close>

text \<open>
  Documented behaviour of serde_json's numbers: an integer in the range of \<open>i64\<close> and a finite
  float are read back as they were written.
\<close>

definition finite_f64 :: "64 word \<Rightarrow> bool" where
  "finite_f64 f \<longleftrightarrow> drop_bit 52 f AND 0x7FF \<noteq> 0x7FF"

definition number_laws :: "atp_libs \<Rightarrow> bool" where
  "number_laws L \<longleftrightarrow>
     (\<forall>i. - (2 ^ 63) \<le> i \<and> i < 2 ^ 63 \<longrightarrow>
        (\<exists>n. json_of_i128 L i = Some (JNumber n) \<and> number_as_i64 L n = Some i)) \<and>
     (\<forall>f. finite_f64 f \<longrightarrow>
        (\<exists>n. json_of_f64 L f = JNumber n \<and> number_as_i64 L n = None \<and> number_as_f64 L n = Some f))"

text \<open>
  The values that JSON can carry: \<open>i64\<close> integers, finite floats, links and bytes whose text form
  the libraries read back, and no map that looks like the text form of a link or of bytes.
\<close>

fun is_IString :: "ipld option \<Rightarrow> bool" where
  "is_IString (Some (IString s)) = True"
| "is_IString v = False"

fun json_safe :: "atp_libs \<Rightarrow> ipld \<Rightarrow> bool" where
  "json_safe L (IInteger i) \<longleftrightarrow> - (2 ^ 63) \<le> i \<and> i < 2 ^ 63"
| "json_safe L (IFloat f) \<longleftrightarrow> finite_f64 f"
| "json_safe L (IBytes b) \<longleftrightarrow> base64url_decode L (base64url_encode L b) = Inr b"
| "json_safe L (ILink c) \<longleftrightarrow> cid_parse L (cid_display L c) = Inr c"
| "json_safe L (IList l) \<longleftrightarrow> list_all (json_safe L) l"
| "json_safe L (IMap m) \<longleftrightarrow> btree_ok m \<and> list_all (\<lambda>(k, v). json_safe L v) m
     \<and> \<not> (length m = 1 \<and> (is_IString (map_of m ''$link'') \<or> is_IString (map_of m ''$bytes'')))"
| "json_safe L v \<longleftrightarrow> True"

end
