(* ===== verification/Demo_Libs.thy ===== *)
theory Demo_Libs
  imports Ipld
begin

text \<open>
  An instance of the libraries. Concrete functions for the crates, on which the witnesses evaluate: serde_json's three number
  representations as documented, and simple codecs with the laws that the properties name.
\<close>

definition demo_as_i64 :: "json_number \<Rightarrow> int option" where
  "demo_as_i64 n = (case n of
      PosInt w \<Rightarrow> (if uint w < 2 ^ 63 then Some (uint w) else None)
    | NegInt w \<Rightarrow> Some (sint w)
    | Finite_Float f \<Rightarrow> None)"

definition demo_of_i128 :: "int \<Rightarrow> json option" where
  "demo_of_i128 i =
     (if 0 \<le> i \<and> i < 2 ^ 64 then Some (JNumber (PosInt (word_of_int i)))
      else if - (2 ^ 63) \<le> i \<and> i < 0 then Some (JNumber (NegInt (word_of_int i)))
      else None)"

definition demo_sum :: "bytes \<Rightarrow> 256 word" where
  "demo_sum bs = fold (\<lambda>b h. h * 257 + ucast b + 1) bs 0"

definition demo_libs :: atp_libs where
  "demo_libs = \<lparr>
     sha256 = demo_sum,
     base32_rfc4648 = (\<lambda>bs. if bs = [] then [] else replicate (unat (last bs) mod 2) (CHR ''A'') @ ''B''),
     dagcbor_to_vec = (\<lambda>i. Inl ''unsupported value''),
     dagcbor_from_slice = (\<lambda>bs. Inl ''unsupported value''),
     cid_to_bytes = (\<lambda>c. ucast (cid_codec c) # of_nat (length (mh_digest (cid_hash c))) # mh_digest (cid_hash c)),
     cid_read_bytes = (\<lambda>bs. case bs of
         codec # len # rest \<Rightarrow>
           Inr (cid_new_v1 (ucast codec) \<lparr>mh_code = 0x12, mh_digest = take (unat len) rest\<rparr>, unat len + 2)
       | _ \<Rightarrow> Inl ''unexpected end''),
     cid_display = (\<lambda>c. string_of_bytes (ucast (cid_codec c) # mh_digest (cid_hash c))),
     cid_parse = (\<lambda>s. case as_bytes s of
         codec # d \<Rightarrow> Inr (cid_new_v1 (ucast codec) \<lparr>mh_code = 0x12, mh_digest = d\<rparr>)
       | [] \<Rightarrow> Inl ''empty''),
     base64url_encode = string_of_bytes,
     base64url_decode = (\<lambda>s. Inr (as_bytes s)),
     hex_encode = string_of_bytes,
     hex_decode = (\<lambda>s. Inr (as_bytes s)),
     number_as_i64 = demo_as_i64,
     number_as_f64 = (\<lambda>n. case n of Finite_Float f \<Rightarrow> Some f | _ \<Rightarrow> None),
     json_of_i128 = demo_of_i128,
     json_of_f64 = (\<lambda>f. if finite_f64 f then JNumber (Finite_Float f) else JNull) \<rparr>"

lemma demo_number_laws: "number_laws demo_libs"
proof -
  have "\<exists>n. demo_of_i128 i = Some (JNumber n) \<and> demo_as_i64 n = Some i"
    if "- (2 ^ 63) \<le> i" "i < 2 ^ 63" for i
  proof (cases "0 \<le> i")
    case True
    with that have "uint (word_of_int i :: 64 word) = i"
      by (simp add: uint_word_of_int)
    with True that show ?thesis by (simp add: demo_of_i128_def demo_as_i64_def)
  next
    case False
    with that have "sint (word_of_int i :: 64 word) = i"
      by (simp add: signed_of_int signed_take_bit_int_eq_self)
    with False that show ?thesis by (simp add: demo_of_i128_def demo_as_i64_def)
  qed
  then show ?thesis by (auto simp: number_laws_def demo_libs_def demo_as_i64_def)
qed

text \<open>
  A codec for the values of a table: a value is written as the byte of its position. It reads back
  whatever it wrote, which is the law that the properties ask of the DAG-CBOR codec.
\<close>

fun position :: "'a \<Rightarrow> 'a list \<Rightarrow> nat option" where
  "position x [] = None"
| "position x (y # ys) = (if x = y then Some 0 else map_option Suc (position x ys))"

definition table_to_vec :: "ipld list \<Rightarrow> ipld \<Rightarrow> string + bytes" where
  "table_to_vec tbl v = (case position v tbl of
      Some k \<Rightarrow> (if k < 256 then Inr [of_nat k] else Inl ''table is full'')
    | None \<Rightarrow> Inl ''not in the table'')"

definition table_from_slice :: "ipld list \<Rightarrow> bytes \<Rightarrow> string + ipld" where
  "table_from_slice tbl bs = (case bs of
      [b] \<Rightarrow> (if unat b < length tbl then Inr (tbl ! unat b) else Inl ''not in the table'')
    | _ \<Rightarrow> Inl ''one byte expected'')"

definition table_libs :: "ipld list \<Rightarrow> atp_libs" where
  "table_libs tbl = demo_libs\<lparr>dagcbor_to_vec := table_to_vec tbl, dagcbor_from_slice := table_from_slice tbl\<rparr>"

lemma position_Some: "position x xs = Some k \<Longrightarrow> k < length xs \<and> xs ! k = x"
  by (induction xs arbitrary: k) (auto split: if_splits)

lemma table_codec: "table_to_vec tbl v = Inr bs \<Longrightarrow> table_from_slice tbl bs = Inr v \<and> length bs = 1"
  by (auto simp: table_to_vec_def table_from_slice_def unsigned_of_nat take_bit_nat_eq_self
      dest!: position_Some split: option.splits if_splits)

lemma table_libs_sel [simp]:
  "dagcbor_to_vec (table_libs tbl) = table_to_vec tbl"
  "dagcbor_from_slice (table_libs tbl) = table_from_slice tbl"
  "sha256 (table_libs tbl) = demo_sum"
  "cid_to_bytes (table_libs tbl) = cid_to_bytes demo_libs"
  "cid_read_bytes (table_libs tbl) = cid_read_bytes demo_libs"
  "base32_rfc4648 (table_libs tbl) = base32_rfc4648 demo_libs"
  "cid_display (table_libs tbl) = cid_display demo_libs"
  "cid_parse (table_libs tbl) = cid_parse demo_libs"
  by (simp_all add: table_libs_def demo_libs_def)

text \<open>The identifiers that the code itself makes are read back.\<close>

lemma demo_cid_read:
  "length d < 256 \<Longrightarrow> codec < 256 \<Longrightarrow>
   cid_read_bytes demo_libs (cid_to_bytes demo_libs (cid_new_v1 codec \<lparr>mh_code = 0x12, mh_digest = d\<rparr>) @ rest)
     = Inr (cid_new_v1 codec \<lparr>mh_code = 0x12, mh_digest = d\<rparr>, length d + 2)"
proof -
  assume len: "length d < 256" and "codec < 256"
  then have "unat codec < 256" by (simp add: word_less_nat_alt)
  then have "ucast (ucast codec :: byte) = codec"
    by (intro unsigned_word_eqI [where 'a = nat]) (simp add: unsigned_ucast_eq take_bit_eq_mod unat_mod)
  moreover have "unat (of_nat (length d) :: byte) = length d"
    using len by (simp add: unsigned_of_nat take_bit_nat_eq_self)
  ultimately show ?thesis by (simp add: demo_libs_def cid_new_v1_def)
qed

end
