(* ===== verification/Ipld_Json.thy ===== *)
theory Ipld_Json
  imports Demo_Libs
begin

text \<open>
  The conversions between DAG-CBOR values and JSON are inverse on the values that JSON can carry,
  and the collection of blob references finds every blob object of a record and nothing else.
\<close>

section \<open>Round trip\<close>

text \<open>A value that becomes a JSON string was a string.\<close>

lemma ipld_to_json_JString:
  assumes "number_laws L" "json_safe L i" "ipld_to_json L i = Some (JString s)"
  shows "i = IString s"
proof (cases i)
  case (IInteger n)
  with assms show ?thesis by (fastforce simp: number_laws_def)
next
  case (IFloat f)
  with assms show ?thesis by (fastforce simp: number_laws_def)
qed (use assms in auto)

lemma those_map_Some:
  "(\<And>x. x \<in> set xs \<Longrightarrow> f x = Some (g x)) \<Longrightarrow> those (map f xs) = Some (map g xs)"
  by (induction xs) auto

lemma map_of_map_values: "map_of (map (\<lambda>(k, v). (k, f v)) m) k = map_option f (map_of m k)"
  by (induction m) auto

lemma rfold_btree_insert:
  assumes "\<And>k v. (k, v) \<in> set n \<Longrightarrow> conv (f v) = Inr v"
  shows "rfold (\<lambda>(k, v) m. rbind (conv v) (\<lambda>i. Inr (btree_insert k i m)))
           (map (\<lambda>(k, v). (k, f v)) n) m
         = Inr (fold (\<lambda>(k, v). btree_insert k v) n m)"
  using assms
proof (induction n arbitrary: m)
  case (Cons kv n)
  obtain k v where kv: "kv = (k, v)" by (cases kv)
  have "conv (f v) = Inr v" using Cons.prems [of k v] by (simp add: kv)
  with Cons.IH [OF Cons.prems [OF list.set_intros(2)]]
  show ?case by (simp add: kv)
qed simp

lemma json_object_back:
  assumes obj: "obj = map (\<lambda>(k, v). (k, f v)) m"
    and str: "\<And>k v s. (k, v) \<in> set m \<Longrightarrow> f v = JString s \<Longrightarrow> v = IString s"
    and bk: "\<And>k v. (k, v) \<in> set m \<Longrightarrow> json_to_ipld L (f v) = Inr v"
    and "btree_ok m"
    and no: "\<not> (length m = 1 \<and> (is_IString (map_of m ''$link'') \<or> is_IString (map_of m ''$bytes'')))"
  shows "json_to_ipld L (JObject obj) = Inr (IMap m)"
proof -
  have look: "(\<exists>s. map_of m k = Some (IString s)) \<or> (\<nexists>s. map_of obj k = Some (JString s))" for k
  proof (rule disjCI)
    assume "\<not> (\<nexists>s. map_of obj k = Some (JString s))"
    then obtain s v where v: "map_of m k = Some v" "f v = JString s"
      by (auto simp: obj map_of_map_values)
    with str [OF map_of_SomeD [OF v(1)] v(2)] show "\<exists>s. map_of m k = Some (IString s)" by simp
  qed
  have len: "length obj = length m" by (simp add: obj)
  have fold: "rfold (\<lambda>(k, v) m. rbind (json_to_ipld L v) (\<lambda>i. Inr (btree_insert k i m))) obj [] = Inr m"
    using rfold_btree_insert [of m "json_to_ipld L" f "[]"] bk fold_btree_insert_ok [of "[]" m] \<open>btree_ok m\<close>
    by (simp add: obj)
  have "length obj = 1 \<Longrightarrow> map_of obj k \<noteq> Some (JString s)"
    if "k = ''$link'' \<or> k = ''$bytes''" for k s
    using look [of k] no that len by auto
  then show ?thesis
    by (simp add: fold len split: option.split json.split bool.split)
qed

lemma ipld_json_back:
  assumes "number_laws L"
  shows "json_safe L i \<Longrightarrow> \<exists>v. ipld_to_json L i = Some v \<and> json_to_ipld L v = Inr i"
proof (induction i)
  case (IInteger n)
  then have "\<exists>m. json_of_i128 L n = Some (JNumber m) \<and> number_as_i64 L m = Some n"
    using assms by (simp add: number_laws_def)
  then show ?case by auto
next
  case (IFloat f)
  then have "\<exists>m. json_of_f64 L f = JNumber m \<and> number_as_i64 L m = None \<and> number_as_f64 L m = Some f"
    using assms by (simp add: number_laws_def)
  then show ?case by auto
next
  case (IList l)
  then have "\<forall>i \<in> set l. \<exists>v. ipld_to_json L i = Some v \<and> json_to_ipld L v = Inr i"
    by (simp add: list_all_iff)
  then obtain g where g: "\<And>i. i \<in> set l \<Longrightarrow> ipld_to_json L i = Some (g i) \<and> json_to_ipld L (g i) = Inr i"
    by metis
  have "rmap (json_to_ipld L) (map g l) = Inr (map (\<lambda>v. v) l)"
    using g by (induction l) auto
  with g show ?case by (simp add: those_map_Some [of l "ipld_to_json L" g])
next
  case (IMap m)
  have safe: "json_safe L v" if "(k, v) \<in> set m" for k v
    using IMap.prems that by (auto simp: list_all_iff)
  have "\<forall>i \<in> snd ` set m. \<exists>v. ipld_to_json L i = Some v \<and> json_to_ipld L v = Inr i"
    using IMap.IH safe by fastforce
  then obtain g where g: "\<And>i. i \<in> snd ` set m \<Longrightarrow> ipld_to_json L i = Some (g i) \<and> json_to_ipld L (g i) = Inr i"
    by metis
  let ?obj = "map (\<lambda>(k, v). (k, g v)) m"
  have "those (map (\<lambda>(k, v). map_option (Pair k) (ipld_to_json L v)) m) = Some ?obj"
    using g by (intro those_map_Some) force
  then have 1: "ipld_to_json L (IMap m) = Some (JObject ?obj)"
    using IMap.prems by simp
  have "json_to_ipld L (JObject ?obj) = Inr (IMap m)"
  proof (rule json_object_back [OF refl])
    fix k v s assume v: "(k, v) \<in> set m" and "g v = JString s"
    with g [of v] have "ipld_to_json L v = Some (JString s)" by force
    with safe [OF v] assms show "v = IString s" by (rule_tac ipld_to_json_JString)
  next
    show "json_to_ipld L (g v) = Inr v" if "(k, v) \<in> set m" for k v using g [of v] that by force
  qed (use IMap.prems in auto)
  with 1 show ?case by blast
qed (auto simp: cid_from_str_def)

text \<open>
  JSON round trip: a DAG-CBOR value that JSON can carry (integers in the range of \<open>i64\<close>, finite
  floats, no map that looks like an encoded link or encoded bytes) is converted to JSON without a
  panic, and \<open>json_to_ipld\<close> reads the JSON back as the same value. The numbers of serde_json behave
  as documented (\<open>number_laws\<close>); base64 and the text form of CIDs are used on the values they read back.
\<close>
theorem ipld_json_round_trip:
  assumes "number_laws L" "json_safe L i"
  shows "\<exists>v. ipld_to_json L i = Some v \<and> json_to_ipld L v = Inr i"
  using assms by (rule ipld_json_back)


definition demo_value :: ipld where
  "demo_value = IMap [(''avatar'', ILink (cid_new_v1 0x55 \<lparr>mh_code = 0x12, mh_digest = [104, 105]\<rparr>)),
     (''data'', IBytes [104, 0, 255]), (''n'', IInteger (- 7)), (''tags'', IList [IString ''a'', INull])]"

theorem ipld_json_round_trip_witness:
  "\<exists>v. ipld_to_json demo_libs demo_value = Some v \<and> json_to_ipld demo_libs v = Inr demo_value"
proof (rule ipld_json_round_trip [OF demo_number_laws])
  show "json_safe demo_libs demo_value"
    by (simp add: demo_value_def demo_libs_def cid_new_v1_def btree_ok_def finite_f64_def)
qed

section \<open>Blob references\<close>

text \<open>The values inside a value.\<close>

inductive subvalue :: "json \<Rightarrow> json \<Rightarrow> bool" where
  subvalue_refl: "subvalue v v"
| subvalue_array: "w \<in> set a \<Longrightarrow> subvalue v w \<Longrightarrow> subvalue v (JArray a)"
| subvalue_object: "(k, w) \<in> set obj \<Longrightarrow> subvalue v w \<Longrightarrow> subvalue v (JObject obj)"

inductive_simps subvalue_simps [simp]:
  "subvalue v JNull" "subvalue v (JBool b)" "subvalue v (JNumber n)" "subvalue v (JString s)"

inductive_simps subvalue_array_iff: "subvalue v (JArray a)"
inductive_simps subvalue_object_iff: "subvalue v (JObject obj)"

definition blob_refs :: "atp_libs \<Rightarrow> json \<Rightarrow> cid set" where
  "blob_refs L v =
     {c. \<exists>obj link. subvalue (JObject obj) v \<and> blob_link obj = Some link \<and> cid_from_str L link = Inr c}"

lemma set_fold_collect:
  assumes "\<And>x out. x \<in> set xs \<Longrightarrow> set (f x out) = set out \<union> g x"
  shows "set (fold f xs out) = set out \<union> (\<Union>x \<in> set xs. g x)"
  using assms by (induction xs arbitrary: out) auto

lemma blob_refs_object:
  "blob_refs L (JObject obj) =
     {c. \<exists>link. blob_link obj = Some link \<and> cid_from_str L link = Inr c}
     \<union> (\<Union>kv \<in> set obj. blob_refs L (snd kv))" (is "?l = ?r")
proof
  show "?l \<subseteq> ?r"
    unfolding blob_refs_def subvalue_object_iff by fastforce
  show "?r \<subseteq> ?l"
  proof
    fix c assume "c \<in> ?r"
    then consider (here) link where "blob_link obj = Some link" "cid_from_str L link = Inr c"
      | (sub) k v where "(k, v) \<in> set obj" "c \<in> blob_refs L v" by auto
    then show "c \<in> ?l"
    proof cases
      case here
      then show ?thesis unfolding blob_refs_def using subvalue_refl by blast
    next
      case sub
      then show ?thesis unfolding blob_refs_def using subvalue_object [OF sub(1)] by blast
    qed
  qed
qed

lemma set_collect_blob_cids_inner:
  "set (collect_blob_cids_inner L v out) = set out \<union> blob_refs L v"
proof (induction L v out rule: collect_blob_cids_inner.induct)
  case (1 L obj out)
  have "set (collect_blob_cids_inner L (JObject obj) out)
        = set (case blob_link obj of
             Some link \<Rightarrow> (case cid_from_str L link of Inr c \<Rightarrow> out @ [c] | Inl e \<Rightarrow> out)
           | None \<Rightarrow> out) \<union> (\<Union>kv \<in> set obj. blob_refs L (snd kv))"
    unfolding collect_blob_cids_inner.simps
    by (rule set_fold_collect) (auto simp: 1)
  then show ?case
    unfolding blob_refs_object by (cases "blob_link obj"; cases "cid_from_str L (the (blob_link obj))") auto
next
  case (2 L a out)
  have "set (collect_blob_cids_inner L (JArray a) out) = set out \<union> (\<Union>v \<in> set a. blob_refs L v)"
    unfolding collect_blob_cids_inner.simps by (rule set_fold_collect) (auto simp: 2)
  then show ?case by (auto simp: blob_refs_def subvalue_array_iff)
qed (auto simp: blob_refs_def)


text \<open>
  Blob references: \<open>collect_blob_cids\<close> returns exactly the CIDs of the blob objects of a record, at
  whatever depth they stand: each value inside the record that is an object of \<open>$type\<close> \<open>blob\<close> with a
  link that parses contributes its CID, and every CID returned comes from one.
\<close>
theorem collect_blob_cids_exact:
  "set (collect_blob_cids L v) =
     {c. \<exists>obj link. subvalue (JObject obj) v \<and> blob_link obj = Some link \<and> cid_from_str L link = Inr c}"
  by (simp add: collect_blob_cids_def set_collect_blob_cids_inner blob_refs_def)

end
