(* ===== verification/Car.thy ===== *)
theory Car
  imports Demo_Libs
begin

text \<open>
  The CARv1 container: \<open>encode_car\<close> and \<open>encode_uvarint\<close> of \<open>seiran-common/src/atp/repo.rs\<close>, and
  the decoder of \<open>seiran-common/src/atp/car.rs\<close>, which reads untrusted input and therefore checks
  every length. The locale \<open>length_prefix\<close> is the contract between the two: a client that writes
  length-prefixed chunks reads them back; it is interpreted on the code's uvarint routines.
\<close>

section \<open>Errors and bounds\<close>

datatype car_error =
    Empty
  | InvalidVarint
  | Truncated
  | TooLarge nat
  | BlockTooLarge nat
  | Header string
  | Bad_Cid string
  | Node string
  | MissingBlock string
  | TooDeep nat
  | InvalidKey
  | MalformedKey string

definition MAX_CAR_SIZE :: nat where "MAX_CAR_SIZE = 512 * 1024 * 1024"
definition MAX_BLOCK_SIZE :: nat where "MAX_BLOCK_SIZE = 16 * 1024 * 1024"
definition MAX_HEADER_SIZE :: nat where "MAX_HEADER_SIZE = 1024 * 1024"
definition MAX_MST_DEPTH :: nat where "MAX_MST_DEPTH = 128"

record car_file =
  roots :: "cid list"
  car_blocks :: "(cid \<times> bytes) list"

text \<open>\<open>data.get(i)\<close>, \<open>data.get(a..b)\<close> and \<open>checked_add\<close> on \<open>usize\<close>.\<close>

definition get_byte :: "bytes \<Rightarrow> nat \<Rightarrow> byte option" where
  "get_byte data i = (if i < length data then Some (data ! i) else None)"

definition get_range :: "bytes \<Rightarrow> nat \<Rightarrow> nat \<Rightarrow> bytes option" where
  "get_range data a b = (if a \<le> b \<and> b \<le> length data then Some (take (b - a) (drop a data)) else None)"

definition checked_add_usize :: "nat \<Rightarrow> nat \<Rightarrow> nat option" where
  "checked_add_usize a b = (if a + b < 2 ^ 64 then Some (a + b) else None)"

section \<open>Variable length integers\<close>

lemma unat_drop_bit_7: "unat (drop_bit 7 n :: 64 word) = unat n div 128"
  by (simp add: drop_bit_eq_div unat_div)

function encode_uvarint :: "64 word \<Rightarrow> bytes \<Rightarrow> bytes" where
  "encode_uvarint n buf =
     (let byte = ucast (n AND 0x7F); n' = drop_bit 7 n
      in if n' = 0 then buf @ [byte] else encode_uvarint n' (buf @ [byte OR 0x80]))"
  by pat_completeness auto

termination
proof (relation "measure (\<lambda>(n, buf). unat n)")
  fix n :: "64 word" and buf :: bytes and byte :: byte and n' :: "64 word"
  assume "n' = drop_bit 7 n" "n' \<noteq> 0"
  then have "unat n' = unat n div 128" by (simp add: unat_drop_bit_7)
  moreover have "unat n' \<noteq> 0" using \<open>n' \<noteq> 0\<close> by (metis unat_0 unsigned_word_eqI)
  ultimately show "((n', buf @ [byte OR 0x80]), n, buf) \<in> measure (\<lambda>(n, buf). unat n)" by simp
qed simp

declare encode_uvarint.simps [simp del]

text \<open>The loop of \<open>read_uvarint\<close>, from its state \<open>result\<close>, \<open>shift\<close> and \<open>*pos\<close>.\<close>

function read_uvarint_loop :: "bytes \<Rightarrow> nat \<Rightarrow> 64 word \<Rightarrow> nat \<Rightarrow> car_error + 64 word \<times> nat" where
  "read_uvarint_loop data pos result shift =
     rbind (ok_or (get_byte data pos) Truncated) (\<lambda>byte.
       let result' = result OR push_bit shift (ucast (byte AND 0x7F))
       in if byte AND 0x80 = 0 then Inr (result', pos + 1)
          else if shift + 7 \<ge> 64 then Inl InvalidVarint
          else read_uvarint_loop data (pos + 1) result' (shift + 7))"
  by pat_completeness auto
termination by (relation "measure (\<lambda>(data, pos, result, shift). 64 - shift)") auto

declare read_uvarint_loop.simps [simp del]

definition read_uvarint :: "bytes \<Rightarrow> nat \<Rightarrow> car_error + 64 word \<times> nat" where
  "read_uvarint data pos = read_uvarint_loop data pos 0 0"

section \<open>Encoder\<close>

definition car_header :: "cid \<Rightarrow> ipld" where
  "car_header root = IMap (btree_insert ''version'' (IInteger 1)
     (btree_insert ''roots'' (IList [ILink root]) []))"

definition encode_block :: "atp_libs \<Rightarrow> cid \<times> bytes \<Rightarrow> bytes \<Rightarrow> bytes" where
  "encode_block L = (\<lambda>(c, block) car.
     let cid_bytes = cid_to_bytes L c; total = length cid_bytes + length block
     in encode_uvarint (of_nat total) car @ cid_bytes @ block)"

definition encode_car :: "atp_libs \<Rightarrow> cid \<Rightarrow> (cid \<times> bytes) list \<Rightarrow> repo_error + bytes" where
  "encode_car L root blocks =
     rbind (map_err Cbor (dagcbor_to_vec L (car_header root))) (\<lambda>header_cbor.
       let car = encode_uvarint (of_nat (length header_cbor)) [] @ header_cbor
       in Inr (fold (encode_block L) blocks car))"

section \<open>Decoder\<close>

fun root_link :: "ipld \<Rightarrow> car_error + cid" where
  "root_link (ILink c) = Inr c"
| "root_link v = Inl (Header ''root is not a link'')"

definition extract_roots :: "ipld \<Rightarrow> car_error + cid list" where
  "extract_roots header = (case header of
      IMap m \<Rightarrow> (case map_of m ''roots'' of
          Some (IList items) \<Rightarrow> rmap root_link items
        | _ \<Rightarrow> Inl (Header ''no roots field''))
    | _ \<Rightarrow> Inl (Header ''header is not a map''))"

text \<open>A length-prefixed chunk with an upper bound on its length: the chunk and the position after it.\<close>

definition read_chunk :: "nat \<Rightarrow> bytes \<Rightarrow> nat \<Rightarrow> car_error + bytes \<times> nat" where
  "read_chunk bound data pos =
     rbind (read_uvarint data pos) (\<lambda>(n, pos).
     if unat n > bound then Inl (BlockTooLarge bound)
     else rbind (ok_or (checked_add_usize pos (unat n)) Truncated) (\<lambda>end.
          rbind (ok_or (get_range data pos end) Truncated) (\<lambda>chunk.
          Inr (chunk, end))))"

text \<open>The body of the loop over the blocks.\<close>

definition read_block :: "atp_libs \<Rightarrow> bytes \<Rightarrow> nat \<Rightarrow> car_error + (cid \<times> bytes) \<times> nat" where
  "read_block L data pos =
     rbind (read_chunk MAX_BLOCK_SIZE data pos) (\<lambda>(entry_bytes, pos).
     rbind (map_err Bad_Cid (cid_read_bytes L entry_bytes)) (\<lambda>(c, cid_len).
     rbind (ok_or (get_range entry_bytes cid_len (length entry_bytes)) Truncated) (\<lambda>block_bytes.
     Inr ((c, block_bytes), pos))))"

lemma read_uvarint_loop_advances:
  "read_uvarint_loop data pos result shift = Inr (n, pos') \<Longrightarrow> pos < pos' \<and> pos' \<le> length data"
proof (induction data pos result shift rule: read_uvarint_loop.induct)
  case (1 data pos result shift)
  from 1(2) obtain byte where b: "get_byte data pos = Some byte"
    by (subst (asm) (1) read_uvarint_loop.simps) (auto simp: rbind_Inr_iff)
  then have len: "pos < length data" by (auto simp: get_byte_def split: if_splits)
  show ?case
  proof (cases "byte AND 0x80 = 0")
    case True
    with b len 1(2) show ?thesis by (simp add: read_uvarint_loop.simps [of data pos] Let_def)
  next
    case False
    with b 1(2) have "\<not> shift + 7 \<ge> 64"
      by (auto simp: read_uvarint_loop.simps [of data pos] Let_def split: if_splits)
    with b False 1 show ?thesis
      by (fastforce simp: read_uvarint_loop.simps [of data pos] Let_def)
  qed
qed

lemma read_uvarint_advances: "read_uvarint data pos = Inr (n, pos') \<Longrightarrow> pos < pos' \<and> pos' \<le> length data"
  by (simp add: read_uvarint_def read_uvarint_loop_advances)

lemma read_chunk_Inr:
  assumes "read_chunk bound data pos = Inr (chunk, end)"
  shows "pos < end \<and> end \<le> length data \<and> length chunk \<le> bound \<and> length chunk < end - pos"
  using assms read_uvarint_advances [of data pos]
  by (fastforce simp: read_chunk_def rbind_Inr_iff get_range_def checked_add_usize_def split: if_splits)

lemma read_block_Inr:
  assumes "read_block L data pos = Inr ((c, b), pos')"
  shows "pos < pos' \<and> pos' \<le> length data \<and> length b \<le> MAX_BLOCK_SIZE \<and> length b < pos' - pos"
  using assms read_chunk_Inr [of MAX_BLOCK_SIZE data pos]
  by (fastforce simp: read_block_def rbind_Inr_iff get_range_def split: if_splits)

function decode_blocks :: "atp_libs \<Rightarrow> bytes \<Rightarrow> nat \<Rightarrow> (cid \<times> bytes) list
    \<Rightarrow> car_error + (cid \<times> bytes) list" where
  "decode_blocks L data pos blocks =
     (if pos < length data then
        rbind (read_block L data pos) (\<lambda>(entry, pos). decode_blocks L data pos (blocks @ [entry]))
      else Inr blocks)"
  by pat_completeness auto
termination
  by (relation "measure (\<lambda>(L, data, pos, blocks). length data - pos)")
    (auto dest: read_block_Inr)

declare decode_blocks.simps [simp del]

definition decode_car :: "atp_libs \<Rightarrow> bytes \<Rightarrow> car_error + car_file" where
  "decode_car L data =
     (if length data > MAX_CAR_SIZE then Inl (TooLarge MAX_CAR_SIZE)
      else if data = [] then Inl Empty
      else
        rbind (read_chunk MAX_HEADER_SIZE data 0) (\<lambda>(header_bytes, pos).
        rbind (map_err Header (dagcbor_from_slice L header_bytes)) (\<lambda>header_ipld.
        rbind (extract_roots header_ipld) (\<lambda>rs.
        rbind (decode_blocks L data pos []) (\<lambda>blocks.
        Inr \<lparr>roots = rs, car_blocks = blocks\<rparr>)))))"

text \<open>Collecting the pairs into a \<open>HashMap\<close>: a later pair replaces an earlier one.\<close>

definition blocks_to_map :: "(cid \<times> bytes) list \<Rightarrow> cid \<Rightarrow> bytes option" where
  "blocks_to_map blocks = map_of (rev blocks)"

lemmas [repo_defs] = read_uvarint_def car_header_def encode_block_def encode_car_def
  extract_roots_def read_chunk_def read_block_def decode_car_def blocks_to_map_def


section \<open>The contract of the length prefixes\<close>

locale length_prefix =
  fixes put :: "64 word \<Rightarrow> bytes \<Rightarrow> bytes"
    and get :: "bytes \<Rightarrow> nat \<Rightarrow> car_error + 64 word \<times> nat"
  assumes put_appends: "put n buf = buf @ put n []"
    and get_put: "get (buf @ put n [] @ rest) (length buf) = Inr (n, length (buf @ put n []))"
begin

lemma put_frames: "fold (\<lambda>chunk buf. put (of_nat (length chunk)) buf @ chunk) chunks buf
    = buf @ concat (map (\<lambda>chunk. put (of_nat (length chunk)) [] @ chunk) chunks)"
proof (induction chunks arbitrary: buf)
  case (Cons chunk chunks)
  then show ?case using put_appends [of "of_nat (length chunk)" buf] by simp
qed simp

lemma get_after_put: "get (put n buf @ rest) (length buf) = Inr (n, length (put n buf))"
  using get_put [of buf n rest] put_appends [of n buf] by simp

lemma put_inj: "put n [] = put m [] \<Longrightarrow> n = m"
  using get_put [of "[]" n "[]"] get_put [of "[]" m "[]"] by simp

end

lemma encode_uvarint_appends: "encode_uvarint n (buf @ buf') = buf @ encode_uvarint n buf'"
proof (induction n buf' rule: encode_uvarint.induct)
  case (1 n buf')
  then show ?case by (simp add: encode_uvarint.simps [of n] Let_def)
qed

lemma encode_uvarint_step:
  "encode_uvarint n [] =
     (if drop_bit 7 n = 0 then [ucast (n AND 0x7F)]
      else (ucast (n AND 0x7F) OR 0x80) # encode_uvarint (drop_bit 7 n) [])"
  using encode_uvarint_appends [of "drop_bit 7 n" "[ucast (n AND 0x7F) OR 0x80]" "[]"]
  by (simp add: encode_uvarint.simps [of n] Let_def)

lemma and_0x7F: "n AND 0x7F = take_bit 7 (n :: 'a::len word)"
  by (simp add: take_bit_eq_mask mask_eq_exp_minus_1)

lemma and_0x80: "(b :: byte) AND 0x80 = 0 \<longleftrightarrow> \<not> bit b 7"
  using and_exp_eq_0_iff_not_bit [of b 7] by simp

lemma last_group:
  fixes n :: "64 word"
  shows "(ucast (n AND 0x7F) :: byte) AND 0x80 = 0" "ucast ((ucast (n AND 0x7F) :: byte) AND 0x7F) = take_bit 7 n"
  unfolding and_0x7F and_0x80 by (auto intro!: bit_word_eqI simp: bit_simps)

lemma more_group:
  fixes n :: "64 word"
  shows "(ucast (n AND 0x7F) OR 0x80 :: byte) AND 0x80 \<noteq> 0"
    "ucast ((ucast (n AND 0x7F) OR 0x80 :: byte) AND 0x7F) = take_bit 7 n"
proof -
  have x: "(0x80 :: byte) = push_bit 7 1" by simp
  show "(ucast (n AND 0x7F) OR 0x80 :: byte) AND 0x80 \<noteq> 0"
    unfolding and_0x80 by (simp add: bit_simps x del: push_bit_of_1)
  show "ucast ((ucast (n AND 0x7F) OR 0x80 :: byte) AND 0x7F) = take_bit 7 n"
    unfolding and_0x7F by (rule bit_word_eqI) (auto simp: bit_simps x simp del: push_bit_of_1)
qed

lemma push_groups:
  "push_bit s (take_bit 7 n) OR push_bit (s + 7) (drop_bit 7 n) = push_bit s (n :: 64 word)"
proof (rule bit_word_eqI)
  fix i
  have "s \<le> i \<Longrightarrow> \<not> i - s < 7 \<Longrightarrow> 7 + (i - (s + 7)) = i - s \<and> s + 7 \<le> i" by auto
  then show "i < LENGTH(64) \<Longrightarrow> bit (push_bit s (take_bit 7 n) OR push_bit (s + 7) (drop_bit 7 n)) i
      \<longleftrightarrow> bit (push_bit s n) i"
    by (cases "i - s < 7") (auto simp: bit_simps)
qed

lemma read_uvarint_loop_encode:
  "s < 64 \<Longrightarrow> unat n < 2 ^ (64 - s) \<Longrightarrow>
   read_uvarint_loop (buf @ encode_uvarint n [] @ rest) (length buf) res s
     = Inr (res OR push_bit s n, length buf + length (encode_uvarint n []))"
proof (induction "unat n" arbitrary: n buf res s rule: less_induct)
  case less
  show ?case
  proof (cases "drop_bit 7 n = 0")
    case True
    then have n: "take_bit 7 n = n"
      by (metis bits_ident push_bit_of_0 add_0)
    from True show ?thesis
      by (simp add: read_uvarint_loop.simps [of _ "length buf"] encode_uvarint_step [of n]
          get_byte_def last_group n Let_def)
  next
    case False
    have d: "unat (drop_bit 7 n) = unat n div 128" by (rule unat_drop_bit_7)
    have nz: "unat (drop_bit 7 n) \<noteq> 0" using False by (metis unat_0 unsigned_word_eqI)
    then have big: "128 \<le> unat n" using d by (metis div_less not_less)
    have s: "s + 7 < 64"
    proof (rule ccontr)
      assume "\<not> s + 7 < 64"
      then have "(2::nat) ^ (64 - s) \<le> 2 ^ 7" by (intro power_increasing) auto
      with less.prems big show False by simp
    qed
    have "(2::nat) ^ (64 - s) = 128 * 2 ^ (64 - (s + 7))"
    proof -
      define k where "k = 64 - (s + 7)"
      then have "64 - s = 7 + k" using s by simp
      then show ?thesis by (simp add: power_add flip: k_def)
    qed
    then have small: "unat (drop_bit 7 n) < 2 ^ (64 - (s + 7))"
      using less.prems(2) by (simp add: d div_less_iff_less_mult mult.commute)
    have smaller: "unat (drop_bit 7 n) < unat n" using d big by simp
    let ?b = "ucast (n AND 0x7F) OR 0x80 :: byte"
    have "read_uvarint_loop ((buf @ [?b]) @ encode_uvarint (drop_bit 7 n) [] @ rest) (length (buf @ [?b]))
        (res OR push_bit s (take_bit 7 n)) (s + 7)
      = Inr ((res OR push_bit s (take_bit 7 n)) OR push_bit (s + 7) (drop_bit 7 n),
          length (buf @ [?b]) + length (encode_uvarint (drop_bit 7 n) []))"
      by (rule less.hyps [OF smaller s small])
    then show ?thesis using False s
      by (simp add: read_uvarint_loop.simps [of _ "length buf"] encode_uvarint_step [of n]
          get_byte_def more_group Let_def or.assoc push_groups nth_append)
  qed
qed

interpretation uvarint: length_prefix encode_uvarint read_uvarint
proof
  show "encode_uvarint n buf = buf @ encode_uvarint n []" for n buf
    using encode_uvarint_appends [of n buf "[]"] by simp
  show "read_uvarint (buf @ encode_uvarint n [] @ rest) (length buf)
      = Inr (n, length (buf @ encode_uvarint n []))" for buf n rest
    using read_uvarint_loop_encode [of 0 n buf rest 0] unsigned_less [of n]
    by (simp add: read_uvarint_def)
qed

section \<open>Round trip of the container\<close>

text \<open>The cid crate reads back the bytes it wrote, whatever follows them.\<close>

definition cid_bytes_law :: "atp_libs \<Rightarrow> cid \<Rightarrow> bool" where
  "cid_bytes_law L c \<longleftrightarrow>
     (\<forall>rest. cid_read_bytes L (cid_to_bytes L c @ rest) = Inr (c, length (cid_to_bytes L c)))"

definition block_entry :: "atp_libs \<Rightarrow> cid \<times> bytes \<Rightarrow> bytes" where
  "block_entry L = (\<lambda>(c, b). cid_to_bytes L c @ b)"

definition block_ok :: "atp_libs \<Rightarrow> cid \<times> bytes \<Rightarrow> bool" where
  "block_ok L entry \<longleftrightarrow> cid_bytes_law L (fst entry) \<and> length (block_entry L entry) \<le> MAX_BLOCK_SIZE"

lemmas car_bounds = MAX_CAR_SIZE_def MAX_BLOCK_SIZE_def MAX_HEADER_SIZE_def

lemma fold_encode_block:
  "fold (encode_block L) bs car = fold (\<lambda>chunk buf. encode_uvarint (of_nat (length chunk)) buf @ chunk)
     (map (block_entry L) bs) car"
  by (induction bs arbitrary: car) (auto simp: encode_block_def block_entry_def Let_def)

lemma read_chunk_frame:
  assumes "length chunk \<le> bound" "length (buf @ encode_uvarint (of_nat (length chunk)) [] @ chunk) < 2 ^ 64"
  shows "read_chunk bound (buf @ (encode_uvarint (of_nat (length chunk)) [] @ chunk) @ rest) (length buf)
    = Inr (chunk, length (buf @ encode_uvarint (of_nat (length chunk)) [] @ chunk))"
proof -
  have "unat (of_nat (length chunk) :: 64 word) = length chunk"
    using assms(2) by (simp add: unsigned_of_nat take_bit_nat_eq_self)
  moreover have "read_uvarint (buf @ encode_uvarint (of_nat (length chunk)) [] @ chunk @ rest) (length buf)
      = Inr (of_nat (length chunk), length (buf @ encode_uvarint (of_nat (length chunk)) []))"
    by (rule uvarint.get_put)
  ultimately show ?thesis
    using assms by (simp add: read_chunk_def checked_add_usize_def get_range_def)
qed

lemma read_block_frame:
  assumes "block_ok L (c, b)" "length (buf @ encode_uvarint (of_nat (length (block_entry L (c, b)))) []
      @ block_entry L (c, b)) < 2 ^ 64"
  shows "read_block L (buf @ (encode_uvarint (of_nat (length (block_entry L (c, b)))) [] @ block_entry L (c, b)) @ rest)
      (length buf)
    = Inr ((c, b), length (buf @ encode_uvarint (of_nat (length (block_entry L (c, b)))) [] @ block_entry L (c, b)))"
  using read_chunk_frame [of "block_entry L (c, b)" MAX_BLOCK_SIZE buf rest] assms
  by (simp add: read_block_def block_ok_def cid_bytes_law_def get_range_def) (simp add: block_entry_def)

abbreviation framed_chunks :: "bytes list \<Rightarrow> bytes" where
  "framed_chunks chunks \<equiv> concat (map (\<lambda>chunk. encode_uvarint (of_nat (length chunk)) [] @ chunk) chunks)"

lemma encode_uvarint_nonempty [simp]: "encode_uvarint n [] \<noteq> []"
  by (subst encode_uvarint_step) simp

lemma decode_blocks_frames:
  "list_all (block_ok L) bs \<Longrightarrow> length (car @ framed_chunks (map (block_entry L) bs)) < 2 ^ 64 \<Longrightarrow>
   decode_blocks L (car @ framed_chunks (map (block_entry L) bs)) (length car) acc = Inr (acc @ bs)"
proof (induction bs arbitrary: car acc)
  case (Cons cb bs)
  obtain c b where cb: "cb = (c, b)" by (cases cb)
  let ?f = "encode_uvarint (of_nat (length (block_entry L (c, b)))) [] @ block_entry L (c, b)"
  let ?rest = "framed_chunks (map (block_entry L) bs)"
  have ok: "block_ok L (c, b)" "list_all (block_ok L) bs" using Cons.prems(1) by (simp_all add: cb)
  have len: "length (car @ ?f @ ?rest) < 2 ^ 64" using Cons.prems(2) by (simp add: cb add.assoc)
  have "read_block L (car @ ?f @ ?rest) (length car) = Inr ((c, b), length (car @ ?f))"
    using ok(1) len by (intro read_block_frame) simp_all
  moreover have "decode_blocks L ((car @ ?f) @ ?rest) (length (car @ ?f)) (acc @ [(c, b)])
      = Inr ((acc @ [(c, b)]) @ bs)"
    using ok(2) len by (intro Cons.IH) simp_all
  ultimately show ?case
    by (subst decode_blocks.simps) (simp add: cb)
qed (simp add: decode_blocks.simps)

lemma extract_roots_header [simp]: "extract_roots (car_header root) = Inr [root]"
  by (simp add: extract_roots_def car_header_def)

lemma encode_car_eq:
  "encode_car L root bs =
     rbind (map_err Cbor (dagcbor_to_vec L (car_header root))) (\<lambda>h.
       Inr (framed_chunks (h # map (block_entry L) bs)))"
proof -
  have "fold (encode_block L) bs (encode_uvarint (of_nat (length h)) [] @ h)
      = framed_chunks (h # map (block_entry L) bs)" for h
    unfolding fold_encode_block
    by (subst uvarint.put_frames) simp
  then show ?thesis by (simp add: encode_car_def Let_def)
qed

lemma decode_encoded_car:
  assumes enc: "encode_car L root bs = Inr car" and size: "length car \<le> MAX_CAR_SIZE"
    and header: "\<And>h. dagcbor_to_vec L (car_header root) = Inr h \<Longrightarrow>
      length h \<le> MAX_HEADER_SIZE \<and> dagcbor_from_slice L h = Inr (car_header root)"
    and blocks: "list_all (block_ok L) bs"
  shows "decode_car L car = Inr \<lparr>roots = [root], car_blocks = bs\<rparr>"
proof -
  from enc obtain h where h: "dagcbor_to_vec L (car_header root) = Inr h"
    and car: "car = framed_chunks (h # map (block_entry L) bs)"
    by (auto simp: encode_car_eq rbind_Inr_iff)
  let ?f = "encode_uvarint (of_nat (length h)) [] @ h"
  have car': "car = ([] @ ?f) @ framed_chunks (map (block_entry L) bs)" by (simp add: car)
  have small: "length car < 2 ^ 64" using size by (simp add: car_bounds)
  have "read_chunk MAX_HEADER_SIZE ([] @ ?f @ framed_chunks (map (block_entry L) bs)) (length ([] :: bytes))
      = Inr (h, length ([] @ ?f))"
    using header [OF h] small by (intro read_chunk_frame) (simp_all add: car)
  moreover have "decode_blocks L (?f @ framed_chunks (map (block_entry L) bs)) (length ?f) [] = Inr ([] @ bs)"
    using blocks small by (intro decode_blocks_frames) (simp_all add: car)
  ultimately show ?thesis
    using header [OF h] size by (simp add: decode_car_def car')
qed

text \<open>
  CAR round trip: the archive that \<open>encode_car\<close> writes for a root and a list of blocks is decoded
  by \<open>decode_car\<close> to exactly that root and those blocks in their order, whenever the archive, its
  header and its blocks respect the decoder's limits. The codecs of the header value and of the CIDs
  read back what they wrote.
\<close>
theorem car_round_trip:
  assumes "encode_car L root bs = Inr car" "length car \<le> MAX_CAR_SIZE"
    and "\<And>h. dagcbor_to_vec L (car_header root) = Inr h \<Longrightarrow>
      length h \<le> MAX_HEADER_SIZE \<and> dagcbor_from_slice L h = Inr (car_header root)"
    and "list_all (block_ok L) bs"
  shows "decode_car L car = Inr \<lparr>roots = [root], car_blocks = bs\<rparr>"
  using assms by (rule decode_encoded_car)

definition demo_root :: cid where
  "demo_root = cid_new_v1 0x71 \<lparr>mh_code = 0x12, mh_digest = [1, 2, 3]\<rparr>"

definition demo_car_libs :: atp_libs where
  "demo_car_libs = table_libs [car_header demo_root]"

definition demo_car :: bytes where
  "demo_car = [1, 0, 8, 113, 3, 1, 2, 3, 42, 43, 44]"

lemma demo_encode_car: "encode_car demo_car_libs demo_root [(demo_root, [42, 43, 44])] = Inr demo_car"
  by (simp add: encode_car_def encode_block_def demo_car_libs_def table_to_vec_def encode_uvarint.simps
      demo_root_def demo_libs_def cid_new_v1_def demo_car_def)

lemma demo_block_ok: "block_ok demo_car_libs (demo_root, [42, 43, 44])"
  using demo_cid_read [of "[1, 2, 3]" 0x71]
  by (simp add: block_ok_def cid_bytes_law_def demo_car_libs_def demo_root_def block_entry_def
      MAX_BLOCK_SIZE_def demo_libs_def cid_new_v1_def)

theorem car_round_trip_witness:
  "decode_car demo_car_libs demo_car = Inr \<lparr>roots = [demo_root], car_blocks = [(demo_root, [42, 43, 44])]\<rparr>"
proof (rule car_round_trip [OF demo_encode_car])
  show "length demo_car \<le> MAX_CAR_SIZE" by (simp add: demo_car_def MAX_CAR_SIZE_def)
  show "length h \<le> MAX_HEADER_SIZE \<and> dagcbor_from_slice demo_car_libs h = Inr (car_header demo_root)"
    if "dagcbor_to_vec demo_car_libs (car_header demo_root) = Inr h" for h
    using table_codec [of "[car_header demo_root]" "car_header demo_root" h] that
    by (simp add: demo_car_libs_def MAX_HEADER_SIZE_def)
  show "list_all (block_ok demo_car_libs) [(demo_root, [42, 43, 44])]" by (simp add: demo_block_ok)
qed

lemma decode_blocks_bounded:
  assumes "decode_blocks L data pos acc = Inr bs" "pos \<le> length data"
  shows "\<exists>ds. bs = acc @ ds \<and> (\<forall>(c, b) \<in> set ds. length b \<le> MAX_BLOCK_SIZE)
    \<and> (\<Sum>(c, b) \<leftarrow> ds. length b + 1) \<le> length data - pos"
  using assms
proof (induction L data pos acc rule: decode_blocks.induct)
  case (1 L data pos acc)
  show ?case
  proof (cases "pos < length data")
    case True
    with 1(2) obtain c b pos' where r: "read_block L data pos = Inr ((c, b), pos')"
      and d: "decode_blocks L data pos' (acc @ [(c, b)]) = Inr bs"
      by (subst (asm) decode_blocks.simps) (auto simp: rbind_Inr_iff)
    from read_block_Inr [OF r] have p: "pos < pos'" "pos' \<le> length data" "length b \<le> MAX_BLOCK_SIZE"
      "length b < pos' - pos" by auto
    from 1(1) [OF True r refl d p(2)] obtain ds where "bs = (acc @ [(c, b)]) @ ds"
      "\<forall>(c, b) \<in> set ds. length b \<le> MAX_BLOCK_SIZE" "(\<Sum>(c, b) \<leftarrow> ds. length b + 1) \<le> length data - pos'"
      by auto
    with p show ?thesis by (intro exI [of _ "(c, b) # ds"]) auto
  next
    case False
    with 1(2) show ?thesis by (simp add: decode_blocks.simps [of L data pos])
  qed
qed

text \<open>
  Resource bounds on untrusted archives: whatever bytes a remote server sends, an archive that
  \<open>decode_car\<close> accepts has at most 512 MiB, every block at most 16 MiB, and the blocks together
  with one byte each fit in the archive (so their number is at most its length).
\<close>
theorem decode_car_bounded:
  assumes "decode_car L data = Inr car"
  shows "length data \<le> MAX_CAR_SIZE \<and> (\<forall>(c, b) \<in> set (car_blocks car). length b \<le> MAX_BLOCK_SIZE)
    \<and> (\<Sum>(c, b) \<leftarrow> car_blocks car. length b + 1) \<le> length data"
proof -
  from assms obtain h pos bs where h: "read_chunk MAX_HEADER_SIZE data 0 = Inr (h, pos)"
    and d: "decode_blocks L data pos [] = Inr bs" and car: "car_blocks car = bs"
    and "length data \<le> MAX_CAR_SIZE"
    by (auto simp: decode_car_def rbind_Inr_iff split: if_splits)
  from read_chunk_Inr [OF h] have "pos \<le> length data" by simp
  from decode_blocks_bounded [OF d this] \<open>length data \<le> MAX_CAR_SIZE\<close> show ?thesis
    by (auto simp: car)
qed

lemma demo_decode_car:
  "decode_car demo_car_libs demo_car = Inr \<lparr>roots = [demo_root], car_blocks = [(demo_root, [42, 43, 44])]\<rparr>"
  using decode_encoded_car [OF demo_encode_car] demo_block_ok
    table_codec [of "[car_header demo_root]" "car_header demo_root"]
  by (simp add: demo_car_libs_def demo_car_def MAX_CAR_SIZE_def MAX_HEADER_SIZE_def)

theorem decode_car_bounded_witness:
  "length demo_car \<le> MAX_CAR_SIZE \<and> (\<Sum>(c, b) \<leftarrow> [(demo_root, [42, 43, 44 :: byte])]. length b + 1) \<le> length demo_car"
  using decode_car_bounded [OF demo_decode_car] by simp

end
