(* ===== verification/Mst.thy ===== *)
theory Mst
  imports Car Utf8
begin

text \<open>
  The Merkle search tree of the AT repository: \<open>build_mst\<close> and \<open>build_layer\<close> of
  \<open>seiran-common/src/atp/repo.rs\<close>, which turn the list of record keys and CIDs of an account into
  blocks, and \<open>walk_mst\<close> and \<open>decode_repo_records\<close> of \<open>mst_walk.rs\<close>, which list the records of an
  archive fetched from another server. The walk has a depth bound, which is the measure of its
  recursion; the builder descends one layer at a time, which is its recursion.
\<close>

section \<open>Builder\<close>

text \<open>The number of leading \<open>a\<close> characters of the lower case base 32 text of the key's digest.\<close>

definition leading_zeros_on_hash :: "atp_libs \<Rightarrow> string \<Rightarrow> nat" where
  "leading_zeros_on_hash L key =
     (let b32 = to_ascii_lowercase (base32_rfc4648 L (digest_bytes (sha256 L (as_bytes key))))
      in length (takeWhile (\<lambda>c. c = CHR ''a'') b32) mod 2 ^ 32)"

definition common_prefix_len :: "bytes \<Rightarrow> bytes \<Rightarrow> nat" where
  "common_prefix_len a b = length (takeWhile (\<lambda>(ca, cb). ca = cb) (zip a b))"

record mst_entry =
  entry_k :: bytes
  entry_p :: "32 word"
  entry_t :: "cid option"
  entry_v :: cid

record mst_node =
  node_e :: "mst_entry list"
  node_l :: "cid option"

text \<open>What the derived serialisation makes of the two structs.\<close>

fun link_ipld :: "cid option \<Rightarrow> ipld" where
  "link_ipld None = INull"
| "link_ipld (Some c) = ILink c"

definition entry_ipld :: "mst_entry \<Rightarrow> ipld" where
  "entry_ipld e = IMap [(''k'', IBytes (entry_k e)), (''p'', IInteger (uint (entry_p e))),
     (''t'', link_ipld (entry_t e)), (''v'', ILink (entry_v e))]"

definition node_ipld :: "mst_node \<Rightarrow> ipld" where
  "node_ipld n = IMap [(''e'', IList (map entry_ipld (node_e n))), (''l'', link_ipld (node_l n))]"

type_synonym blocks = "(cid \<times> bytes) list"

text \<open>The local variables of \<open>build_layer\<close>.\<close>

record layer_state =
  ls_blocks :: blocks
  ls_entries :: "mst_entry list"
  ls_subtree :: "(string \<times> cid) list"
  ls_left :: "cid option"
  ls_prev :: bytes

definition layer_init :: layer_state where
  "layer_init = \<lparr>ls_blocks = [], ls_entries = [], ls_subtree = [], ls_left = None, ls_prev = []\<rparr>"

text \<open>\<open>node_entries.last_mut().unwrap().t = sc\<close>, or the left subtree when there is no entry yet.\<close>

definition attach_subtree :: "cid option \<Rightarrow> layer_state \<Rightarrow> layer_state" where
  "attach_subtree sc st =
     (if ls_entries st = [] then st\<lparr>ls_left := sc\<rparr>
      else st\<lparr>ls_entries := butlast (ls_entries st) @ [(last (ls_entries st))\<lparr>entry_t := sc\<rparr>]\<rparr>)"

text \<open>The closure \<open>flush_subtree\<close>; \<open>below\<close> is \<open>build_layer\<close> on the next layer.\<close>

definition flush_subtree ::
  "((string \<times> cid) list \<Rightarrow> repo_error + cid \<times> blocks) \<Rightarrow> layer_state
     \<Rightarrow> repo_error + cid option \<times> layer_state" where
  "flush_subtree below st =
     (if ls_subtree st = [] then Inr (None, st)
      else rbind (below (ls_subtree st)) (\<lambda>(sc, sb).
        Inr (Some sc, st\<lparr>ls_blocks := ls_blocks st @ sb, ls_subtree := []\<rparr>)))"

definition layer_step ::
  "atp_libs \<Rightarrow> ((string \<times> cid) list \<Rightarrow> repo_error + cid \<times> blocks) \<Rightarrow> nat \<Rightarrow> string \<times> cid
     \<Rightarrow> layer_state \<Rightarrow> repo_error + layer_state" where
  "layer_step L below layer = (\<lambda>(key, c) st.
     let h = leading_zeros_on_hash L key; key_bytes = as_bytes key in
     if h < layer then Inr (st\<lparr>ls_subtree := ls_subtree st @ [(key, c)]\<rparr>)
     else rbind (flush_subtree below st) (\<lambda>(sc, st).
       let st = attach_subtree sc st; prefix_len = common_prefix_len (ls_prev st) key_bytes
       in Inr (st\<lparr>ls_prev := key_bytes,
                 ls_entries := ls_entries st @
                   [\<lparr>entry_k = drop prefix_len key_bytes, entry_p = of_nat prefix_len,
                     entry_t = None, entry_v = c\<rparr>]\<rparr>)))"

text \<open>The trailing subtree.\<close>

definition layer_finish ::
  "((string \<times> cid) list \<Rightarrow> repo_error + cid \<times> blocks) \<Rightarrow> layer_state \<Rightarrow> repo_error + layer_state" where
  "layer_finish below st =
     (if ls_subtree st \<noteq> [] then
        rbind (below (ls_subtree st)) (\<lambda>(sc, sb).
          Inr (attach_subtree (Some sc) (st\<lparr>ls_blocks := ls_blocks st @ sb\<rparr>)))
      else Inr st)"

definition layer_node ::
  "atp_libs \<Rightarrow> ((string \<times> cid) list \<Rightarrow> repo_error + cid \<times> blocks) \<Rightarrow> nat \<Rightarrow> (string \<times> cid) list
     \<Rightarrow> repo_error + cid \<times> blocks" where
  "layer_node L below layer entries =
     rbind (rfold (layer_step L below layer) entries layer_init) (\<lambda>st.
     rbind (layer_finish below st) (\<lambda>st.
     rbind (map_err Cbor (dagcbor_to_vec L (node_ipld \<lparr>node_e = ls_entries st, node_l = ls_left st\<rparr>))) (\<lambda>cbor.
     let c = cid_from_dagcbor L cbor in Inr (c, ls_blocks st @ [(c, cbor)]))))"

text \<open>
  \<open>build_layer(.., layer)\<close> calls itself on \<open>layer - 1\<close>. On layer 0 no key is below the layer, so the
  call that the code would make there is never reached; \<open>layer_node_0\<close> below shows that the value
  used for it does not matter.
\<close>

primrec build_layer :: "atp_libs \<Rightarrow> nat \<Rightarrow> (string \<times> cid) list \<Rightarrow> repo_error + cid \<times> blocks" where
  "build_layer L 0 = layer_node L (\<lambda>buf. Inl (Cbor ''unreachable'')) 0"
| "build_layer L (Suc layer) = layer_node L (build_layer L layer) (Suc layer)"

definition build_mst :: "atp_libs \<Rightarrow> (string \<times> cid) list \<Rightarrow> repo_error + cid \<times> blocks" where
  "build_mst L entries =
     (if entries = [] then
        rbind (map_err Cbor (dagcbor_to_vec L (node_ipld \<lparr>node_e = [], node_l = None\<rparr>))) (\<lambda>cbor.
        let c = cid_from_dagcbor L cbor in Inr (c, [(c, cbor)]))
      else build_layer L (Max (set (map (\<lambda>(k, _). leading_zeros_on_hash L k) entries))) entries)"

section \<open>Walk\<close>

record mst_leaf =
  leaf_key :: string
  leaf_cid :: cid
  leaf_bytes :: bytes

definition ipld_map :: "ipld \<Rightarrow> car_error + (string \<times> ipld) list" where
  "ipld_map v = (case v of IMap m \<Rightarrow> Inr m | _ \<Rightarrow> Inl (Node ''not a map''))"

definition optional_link :: "(string \<times> ipld) list \<Rightarrow> string \<Rightarrow> car_error + cid option" where
  "optional_link m key = (case map_of m key of
      None \<Rightarrow> Inr None
    | Some INull \<Rightarrow> Inr None
    | Some (ILink c) \<Rightarrow> Inr (Some c)
    | _ \<Rightarrow> Inl (Node (key @ '' is neither a link nor null'')))"

text \<open>
  The part of the loop body up to the push of the leaf, and the right subtree that it found. An
  \<open>i128\<close> is read \<open>as usize\<close>.
\<close>

definition walk_entry ::
  "atp_libs \<Rightarrow> (cid \<Rightarrow> bytes option) \<Rightarrow> ipld \<Rightarrow> bytes \<Rightarrow> mst_leaf list
     \<Rightarrow> car_error + bytes \<times> mst_leaf list \<times> cid option" where
  "walk_entry L M entry prev_key leaves =
     rbind (ipld_map entry) (\<lambda>m.
     rbind (case map_of m ''p'' of
              Some (IInteger n) \<Rightarrow> (if n \<ge> 0 then Inr (nat (n mod 2 ^ 64)) else Inl (Node ''p is invalid''))
            | _ \<Rightarrow> Inl (Node ''p is invalid'')) (\<lambda>p.
     rbind (case map_of m ''k'' of Some (IBytes b) \<Rightarrow> Inr b | _ \<Rightarrow> Inl (Node ''k is invalid'')) (\<lambda>k_suffix.
     if p > length prev_key then Inl (Node ''p exceeds the previous key'')
     else let full_key = take p prev_key @ k_suffix in
       rbind (case map_of m ''v'' of Some (ILink c) \<Rightarrow> Inr c | _ \<Rightarrow> Inl (Node ''v is invalid'')) (\<lambda>v_cid.
       rbind (ok_or (from_utf8 full_key) InvalidKey) (\<lambda>key.
       rbind (ok_or (M v_cid) (MissingBlock (cid_display L v_cid))) (\<lambda>record_bytes.
       rbind (optional_link m ''t'') (\<lambda>right.
       Inr (full_key, leaves @ [\<lparr>leaf_key = key, leaf_cid = v_cid, leaf_bytes = record_bytes\<rparr>], right))))))))"

function walk_node ::
  "atp_libs \<Rightarrow> (cid \<Rightarrow> bytes option) \<Rightarrow> cid \<Rightarrow> mst_leaf list \<Rightarrow> nat \<Rightarrow> car_error + mst_leaf list" where
  "walk_node L M c leaves depth =
     (if depth > MAX_MST_DEPTH then Inl (TooDeep MAX_MST_DEPTH) else
     rbind (ok_or (M c) (MissingBlock (cid_display L c))) (\<lambda>bytes.
     rbind (map_err Node (dagcbor_from_slice L bytes)) (\<lambda>node.
     rbind (ipld_map node) (\<lambda>m.
     rbind (optional_link m ''l'') (\<lambda>left.
     rbind (case left of None \<Rightarrow> Inr leaves | Some l \<Rightarrow> walk_node L M l leaves (depth + 1)) (\<lambda>leaves.
     rbind (case map_of m ''e'' of Some (IList es) \<Rightarrow> Inr es | _ \<Rightarrow> Inl (Node ''no e field'')) (\<lambda>entries.
     rbind (rfold (\<lambda>entry st.
              rbind (walk_entry L M entry (fst st) (snd st)) (\<lambda>(prev_key, leaves, right).
              rbind (case right of None \<Rightarrow> Inr leaves | Some r \<Rightarrow> walk_node L M r leaves (depth + 1)) (\<lambda>leaves.
              Inr (prev_key, leaves))))
            entries ([], leaves)) (\<lambda>(prev_key, leaves).
     Inr leaves))))))))"
  by pat_completeness auto
termination
  by (relation "measure (\<lambda>(L, M, c, leaves, depth). Suc MAX_MST_DEPTH - depth)") auto

declare walk_node.simps [simp del]

definition walk_mst :: "atp_libs \<Rightarrow> (cid \<Rightarrow> bytes option) \<Rightarrow> cid \<Rightarrow> car_error + mst_leaf list" where
  "walk_mst L M root = walk_node L M root [] 0"

definition split_record_key :: "string \<Rightarrow> car_error + string \<times> string" where
  "split_record_key key = ok_or (split_once (CHR ''/'') key) (MalformedKey key)"

record decoded_record =
  dr_collection :: string
  dr_rkey :: string
  dr_cid :: cid
  dr_bytes :: bytes

definition decode_repo_records :: "atp_libs \<Rightarrow> bytes \<Rightarrow> car_error + decoded_record list" where
  "decode_repo_records L car_bytes =
     rbind (decode_car L car_bytes) (\<lambda>car.
     rbind (case roots car of [] \<Rightarrow> Inl Empty | r # _ \<Rightarrow> Inr r) (\<lambda>root.
     let M = blocks_to_map (car_blocks car) in
     rbind (ok_or (M root) (MissingBlock (cid_display L root))) (\<lambda>commit_bytes.
     rbind (map_err Node (dagcbor_from_slice L commit_bytes)) (\<lambda>commit.
     rbind (ipld_map commit) (\<lambda>commit_map.
     rbind (case map_of commit_map ''data'' of Some (ILink c) \<Rightarrow> Inr c | _ \<Rightarrow> Inl (Node ''commit has no data'')) (\<lambda>mst_root.
     rbind (walk_mst L M mst_root) (\<lambda>leaves.
     rmap (\<lambda>leaf. rbind (split_record_key (leaf_key leaf)) (\<lambda>(collection, rkey).
        Inr \<lparr>dr_collection = collection, dr_rkey = rkey, dr_cid = leaf_cid leaf,
             dr_bytes = leaf_bytes leaf\<rparr>)) leaves)))))))"

lemmas [repo_defs] = leading_zeros_on_hash_def layer_node_def build_mst_def walk_mst_def
  split_record_key_def decode_repo_records_def

end
