(* ===== verification/Records.thy ===== *)
theory Records
  imports Demo_Libs
begin

text \<open>
  The records that the server writes into an AT repository and the frames of its event stream:
  the embeds and the \<open>encode_*\<close> functions and the \<open>build_*_frame\<close> functions of
  \<open>seiran-common/src/atp/repo.rs\<close>, and \<open>blob_cids_for_embed\<close> of \<open>atp/service.rs\<close>, which lists the
  blobs that a commit announces.

  A struct with a derived \<open>Serialize\<close> is the DAG-CBOR map of its fields (the codec orders the keys),
  with the fields left out that \<open>skip_serializing_if\<close> leaves out.
\<close>

section \<open>Structs\<close>

record facet_index =
  byte_end :: nat
  byte_start :: nat

datatype facet_feature =
    Facet_Mention (facet_did: string) (facet_kind: string)
  | Facet_Link (facet_uri: string) (facet_kind: string)
  | Facet_Tag (facet_tag: string) (facet_kind: string)

record bsky_facet =
  facet_index :: facet_index
  facet_features :: "facet_feature list"

record bsky_image =
  img_sha256_hex :: string
  img_mime_type :: string
  img_size :: int
  img_width :: int
  img_height :: int
  img_alt :: string

record bsky_ref_record =
  ref_cid :: string
  ref_uri :: string

record bsky_post_reply =
  reply_root :: bsky_ref_record
  reply_parent :: bsky_ref_record

datatype bsky_embed =
    Embed_Images "bsky_image list"
  | Embed_Record string string
  | Embed_External string string string "bsky_image option"
  | Embed_Video string string int int int
  | Embed_RecordWithMedia string string bsky_embed

definition ipld_obj :: "(string \<times> ipld) list \<Rightarrow> ipld" where
  "ipld_obj kvs = IMap (btree_of kvs)"

text \<open>A field of \<open>Option\<close> type with \<open>skip_serializing_if = "Option::is_none"\<close>.\<close>

fun opt_field :: "string \<Rightarrow> ('a \<Rightarrow> ipld) \<Rightarrow> 'a option \<Rightarrow> (string \<times> ipld) list" where
  "opt_field k f None = []"
| "opt_field k f (Some x) = [(k, f x)]"

definition vec_field :: "string \<Rightarrow> ipld list \<Rightarrow> (string \<times> ipld) list" where
  "vec_field k xs = (if xs = [] then [] else [(k, IList xs)])"

definition facet_index_ipld :: "facet_index \<Rightarrow> ipld" where
  "facet_index_ipld i = ipld_obj [(''byteEnd'', IInteger (int (byte_end i))), (''byteStart'', IInteger (int (byte_start i)))]"

fun facet_feature_ipld :: "facet_feature \<Rightarrow> ipld" where
  "facet_feature_ipld (Facet_Mention did kind) = ipld_obj [(''did'', IString did), (''$type'', IString kind)]"
| "facet_feature_ipld (Facet_Link uri kind) = ipld_obj [(''uri'', IString uri), (''$type'', IString kind)]"
| "facet_feature_ipld (Facet_Tag tag kind) = ipld_obj [(''tag'', IString tag), (''$type'', IString kind)]"

definition facet_ipld :: "bsky_facet \<Rightarrow> ipld" where
  "facet_ipld f = ipld_obj [(''index'', facet_index_ipld (facet_index f)),
     (''features'', IList (map facet_feature_ipld (facet_features f)))]"

definition ref_record_ipld :: "bsky_ref_record \<Rightarrow> ipld" where
  "ref_record_ipld r = ipld_obj [(''cid'', IString (ref_cid r)), (''uri'', IString (ref_uri r))]"

definition post_reply_ipld :: "bsky_post_reply \<Rightarrow> ipld" where
  "post_reply_ipld r = ipld_obj [(''root'', ref_record_ipld (reply_root r)), (''parent'', ref_record_ipld (reply_parent r))]"

section \<open>Embeds\<close>

definition build_blob_ipld_from_cid_value :: "cid \<Rightarrow> string \<Rightarrow> int \<Rightarrow> ipld" where
  "build_blob_ipld_from_cid_value blob_cid mime_type sz =
     ipld_obj [(''ref'', ILink blob_cid), (''size'', IInteger sz), (''$type'', IString ''blob''),
       (''mimeType'', IString mime_type)]"

definition build_blob_ipld :: "atp_libs \<Rightarrow> string \<Rightarrow> string \<Rightarrow> int \<Rightarrow> repo_error + ipld" where
  "build_blob_ipld L sha256_hex mime_type sz =
     rbind (cid_from_sha256_hex L sha256_hex) (\<lambda>c.
     Inr (build_blob_ipld_from_cid_value c mime_type sz))"

definition build_blob_ipld_from_cid :: "atp_libs \<Rightarrow> string \<Rightarrow> string \<Rightarrow> int \<Rightarrow> repo_error + ipld" where
  "build_blob_ipld_from_cid L cid_str mime_type sz =
     rbind (cid_from_str L cid_str) (\<lambda>c.
     Inr (build_blob_ipld_from_cid_value c mime_type sz))"

definition build_embed_record_ipld :: "string \<Rightarrow> string \<Rightarrow> ipld" where
  "build_embed_record_ipld uri cid_str =
     ipld_obj [(''$type'', IString ''app.bsky.embed.record''),
       (''record'', ipld_obj [(''cid'', IString cid_str), (''uri'', IString uri)])]"

definition build_embed_record_with_media_ipld :: "string \<Rightarrow> string \<Rightarrow> ipld \<Rightarrow> ipld" where
  "build_embed_record_with_media_ipld uri cid_str media =
     ipld_obj [(''$type'', IString ''app.bsky.embed.recordWithMedia''), (''media'', media),
       (''record'', build_embed_record_ipld uri cid_str)]"

definition build_embed_external_ipld ::
  "atp_libs \<Rightarrow> string \<Rightarrow> string \<Rightarrow> string \<Rightarrow> bsky_image option \<Rightarrow> repo_error + ipld" where
  "build_embed_external_ipld L url title description thumb =
     rbind (case thumb of
         None \<Rightarrow> Inr []
       | Some t \<Rightarrow> rbind (build_blob_ipld L (img_sha256_hex t) (img_mime_type t) (img_size t))
           (\<lambda>blob. Inr [(''thumb'', blob)])) (\<lambda>thumb_field.
     Inr (ipld_obj [(''$type'', IString ''app.bsky.embed.external''),
       (''external'', ipld_obj ((''description'', IString description) # thumb_field
          @ [(''title'', IString title), (''uri'', IString url)]))]))"

definition aspect_ratio :: "int \<Rightarrow> int \<Rightarrow> ipld" where
  "aspect_ratio width height = ipld_obj [(''width'', IInteger width), (''height'', IInteger height)]"

definition build_embed_video_ipld ::
  "atp_libs \<Rightarrow> string \<Rightarrow> string \<Rightarrow> int \<Rightarrow> int \<Rightarrow> int \<Rightarrow> repo_error + ipld" where
  "build_embed_video_ipld L cid_str mime_type sz width height =
     rbind (build_blob_ipld_from_cid L cid_str mime_type sz) (\<lambda>blob_map.
     Inr (ipld_obj ([(''alt'', IString []), (''$type'', IString ''app.bsky.embed.video''), (''video'', blob_map)]
       @ (if width > 0 \<and> height > 0 then [(''aspectRatio'', aspect_ratio width height)] else []))))"

definition image_item :: "atp_libs \<Rightarrow> bsky_image \<Rightarrow> repo_error + ipld" where
  "image_item L img =
     rbind (build_blob_ipld L (img_sha256_hex img) (img_mime_type img) (img_size img)) (\<lambda>blob_map.
     Inr (ipld_obj [(''alt'', IString (img_alt img)), (''image'', blob_map),
       (''aspectRatio'', aspect_ratio (img_width img) (img_height img))]))"

definition build_embed_images_ipld :: "atp_libs \<Rightarrow> bsky_image list \<Rightarrow> repo_error + ipld" where
  "build_embed_images_ipld L images =
     rbind (rmap (image_item L) images) (\<lambda>image_list.
     Inr (ipld_obj [(''$type'', IString ''app.bsky.embed.images''), (''images'', IList image_list)]))"

text \<open>The \<open>match\<close> on the media of \<open>recordWithMedia\<close> and the one on the embed.\<close>

fun media_ipld :: "atp_libs \<Rightarrow> bsky_embed \<Rightarrow> repo_error + ipld" where
  "media_ipld L (Embed_Images images) =
     (if images \<noteq> [] then build_embed_images_ipld L images
      else Inl (Cbor ''recordWithMedia: media must be Images, Video or External''))"
| "media_ipld L (Embed_External url title description thumb) =
     build_embed_external_ipld L url title description thumb"
| "media_ipld L (Embed_Video c mime_type sz width height) =
     build_embed_video_ipld L c mime_type sz width height"
| "media_ipld L (Embed_Record uri c) = Inl (Cbor ''recordWithMedia: media must be Images, Video or External'')"
| "media_ipld L (Embed_RecordWithMedia uri c media) =
     Inl (Cbor ''recordWithMedia: media must be Images, Video or External'')"

fun embed_ipld :: "atp_libs \<Rightarrow> bsky_embed option \<Rightarrow> repo_error + ipld option" where
  "embed_ipld L None = Inr None"
| "embed_ipld L (Some (Embed_Images images)) =
     (if images = [] then Inr None else rbind (build_embed_images_ipld L images) (\<lambda>i. Inr (Some i)))"
| "embed_ipld L (Some (Embed_Record uri c)) = Inr (Some (build_embed_record_ipld uri c))"
| "embed_ipld L (Some (Embed_External url title description thumb)) =
     rbind (build_embed_external_ipld L url title description thumb) (\<lambda>i. Inr (Some i))"
| "embed_ipld L (Some (Embed_Video c mime_type sz width height)) =
     rbind (build_embed_video_ipld L c mime_type sz width height) (\<lambda>i. Inr (Some i))"
| "embed_ipld L (Some (Embed_RecordWithMedia uri c media)) =
     rbind (media_ipld L media) (\<lambda>m. Inr (Some (build_embed_record_with_media_ipld uri c m)))"

section \<open>Records\<close>

text \<open>The common end of the \<open>encode_*\<close> functions.\<close>

definition encode_record :: "atp_libs \<Rightarrow> ipld \<Rightarrow> repo_error + bytes \<times> cid" where
  "encode_record L record =
     rbind (map_err Cbor (dagcbor_to_vec L record)) (\<lambda>cbor. Inr (cbor, cid_from_dagcbor L cbor))"

text \<open>\<open>seiran_post\<close> is the value that the serialisation of the extension object gives.\<close>

definition encode_bsky_feed_post ::
  "atp_libs \<Rightarrow> string \<Rightarrow> string \<Rightarrow> bsky_facet list \<Rightarrow> bsky_embed option \<Rightarrow> bsky_post_reply option
     \<Rightarrow> string option \<Rightarrow> ipld option \<Rightarrow> repo_error + bytes \<times> cid" where
  "encode_bsky_feed_post L txt created_at facets emb reply lang seiran_post =
     rbind (embed_ipld L emb) (\<lambda>emb.
     encode_record L (ipld_obj
       ([(''text'', IString txt), (''$type'', IString ''app.bsky.feed.post'')]
        @ opt_field ''embed'' id emb
        @ vec_field ''langs'' (case lang of None \<Rightarrow> [] | Some l \<Rightarrow> [IString l])
        @ opt_field ''reply'' post_reply_ipld reply
        @ vec_field ''facets'' (map facet_ipld facets)
        @ [(''createdAt'', IString created_at)]
        @ opt_field ''seiranPost'' id seiran_post)))"

definition subject_ipld :: "string \<Rightarrow> string \<Rightarrow> ipld" where
  "subject_ipld at_uri at_cid = ref_record_ipld \<lparr>ref_cid = at_cid, ref_uri = at_uri\<rparr>"

definition encode_bsky_feed_repost :: "atp_libs \<Rightarrow> string \<Rightarrow> string \<Rightarrow> string \<Rightarrow> repo_error + bytes \<times> cid" where
  "encode_bsky_feed_repost L at_uri at_cid created_at =
     encode_record L (ipld_obj [(''$type'', IString ''app.bsky.feed.repost''),
       (''subject'', subject_ipld at_uri at_cid), (''createdAt'', IString created_at)])"

definition encode_bsky_feed_like ::
  "atp_libs \<Rightarrow> string \<Rightarrow> string \<Rightarrow> string \<Rightarrow> string option \<Rightarrow> int \<Rightarrow> repo_error + bytes \<times> cid" where
  "encode_bsky_feed_like L at_uri at_cid created_at emoji reaction_id =
     encode_record L (ipld_obj ([(''$type'', IString ''app.bsky.feed.like''),
       (''subject'', subject_ipld at_uri at_cid), (''createdAt'', IString created_at)]
       @ opt_field ''emoji'' IString emoji
       @ opt_field ''seiranReactionId'' IInteger (Some reaction_id)))"

fun blob_field :: "atp_libs \<Rightarrow> (string \<times> string \<times> int) option \<Rightarrow> repo_error + ipld option" where
  "blob_field L None = Inr None"
| "blob_field L (Some (sha256_hex, mime_type, sz)) =
     rbind (build_blob_ipld L sha256_hex mime_type sz) (\<lambda>b. Inr (Some b))"

definition encode_bsky_actor_profile ::
  "atp_libs \<Rightarrow> string \<Rightarrow> string option \<Rightarrow> (string \<times> string \<times> int) option \<Rightarrow> (string \<times> string \<times> int) option
     \<Rightarrow> (string \<times> string) option \<Rightarrow> string \<Rightarrow> repo_error + bytes \<times> cid" where
  "encode_bsky_actor_profile L display_name description avatar banner pinned_post created_at =
     rbind (blob_field L avatar) (\<lambda>avatar_ipld.
     rbind (blob_field L banner) (\<lambda>banner_ipld.
     encode_record L (ipld_obj ([(''$type'', IString ''app.bsky.actor.profile'')]
       @ opt_field ''avatar'' id avatar_ipld
       @ opt_field ''banner'' id banner_ipld
       @ [(''createdAt'', IString created_at)]
       @ opt_field ''pinnedPost'' (\<lambda>(uri, c). subject_ipld uri c) pinned_post
       @ opt_field ''description'' IString description
       @ [(''displayName'', IString display_name)]))))"

definition encode_chat_actor_declaration :: "atp_libs \<Rightarrow> string \<Rightarrow> repo_error + bytes \<times> cid" where
  "encode_chat_actor_declaration L allow_incoming =
     encode_record L (ipld_obj [(''$type'', IString ''chat.bsky.actor.declaration''),
       (''allowIncoming'', IString allow_incoming)])"

definition encode_seiran_actor_declaration :: "atp_libs \<Rightarrow> string \<Rightarrow> repo_error + bytes \<times> cid" where
  "encode_seiran_actor_declaration L ap_actor_uri =
     encode_record L (ipld_obj [(''$type'', IString ''org.seiran.actor.declaration''),
       (''apActorUri'', IString ap_actor_uri)])"

definition encode_content_visibility_declaration :: "atp_libs \<Rightarrow> bool \<Rightarrow> repo_error + bytes \<times> cid" where
  "encode_content_visibility_declaration L hide =
     encode_record L (ipld_obj [(''$type'', IString ''app.bsky.actor.contentVisibilityDeclaration''),
       (''hideFromAlgorithmicRecommendations'', IBool hide)])"

definition encode_bsky_graph_follow :: "atp_libs \<Rightarrow> string \<Rightarrow> string \<Rightarrow> repo_error + bytes \<times> cid" where
  "encode_bsky_graph_follow L subject_did created_at =
     encode_record L (ipld_obj [(''$type'', IString ''app.bsky.graph.follow''),
       (''subject'', IString subject_did), (''createdAt'', IString created_at)])"

definition encode_bsky_graph_block :: "atp_libs \<Rightarrow> string \<Rightarrow> string \<Rightarrow> repo_error + bytes \<times> cid" where
  "encode_bsky_graph_block L subject_did created_at =
     encode_record L (ipld_obj [(''$type'', IString ''app.bsky.graph.block''),
       (''subject'', IString subject_did), (''createdAt'', IString created_at)])"

definition encode_bsky_graph_list :: "atp_libs \<Rightarrow> string \<Rightarrow> string \<Rightarrow> repo_error + bytes \<times> cid" where
  "encode_bsky_graph_list L name created_at =
     encode_record L (ipld_obj [(''name'', IString name), (''$type'', IString ''app.bsky.graph.list''),
       (''purpose'', IString ''app.bsky.graph.defs#curatelist''), (''createdAt'', IString created_at)])"

definition encode_bsky_graph_listitem :: "atp_libs \<Rightarrow> string \<Rightarrow> string \<Rightarrow> string \<Rightarrow> repo_error + bytes \<times> cid" where
  "encode_bsky_graph_listitem L list_uri subject_did created_at =
     encode_record L (ipld_obj [(''list'', IString list_uri), (''$type'', IString ''app.bsky.graph.listitem''),
       (''subject'', IString subject_did), (''createdAt'', IString created_at)])"

section \<open>Frames of subscribeRepos\<close>

record commit_evt_op =
  op_action :: string
  op_path :: string
  op_cid :: "cid option"

record commit_frame =
  fr_seq :: int
  fr_did :: string
  fr_commit_cid :: cid
  fr_prev_cid :: "cid option"
  fr_rev :: string
  fr_since :: "string option"
  fr_car_bytes :: bytes
  fr_ops :: "commit_evt_op list"
  fr_blob_cids :: "cid list"
  fr_time :: string
  fr_prev_data :: "cid option"

text \<open>\<open>cbor(header)\<close> followed by \<open>cbor(body)\<close>.\<close>

definition build_frame :: "atp_libs \<Rightarrow> int \<Rightarrow> string \<Rightarrow> (string \<times> ipld) list \<Rightarrow> repo_error + bytes" where
  "build_frame L op kind body =
     rbind (map_err Cbor (dagcbor_to_vec L (ipld_obj [(''op'', IInteger op), (''t'', IString kind)]))) (\<lambda>header_cbor.
     rbind (map_err Cbor (dagcbor_to_vec L (ipld_obj body))) (\<lambda>body_cbor.
     Inr (header_cbor @ body_cbor)))"

definition op_ipld :: "commit_evt_op \<Rightarrow> ipld" where
  "op_ipld op = ipld_obj [(''action'', IString (op_action op)),
     (''cid'', case op_cid op of Some c \<Rightarrow> ILink c | None \<Rightarrow> INull), (''path'', IString (op_path op))]"

definition build_commit_frame :: "atp_libs \<Rightarrow> commit_frame \<Rightarrow> repo_error + bytes" where
  "build_commit_frame L fr = build_frame L 1 ''#commit''
     ([(''blobs'', IList (map ILink (fr_blob_cids fr))),
       (''blocks'', IBytes (fr_car_bytes fr)),
       (''commit'', ILink (fr_commit_cid fr)),
       (''did'', IString (fr_did fr)),
       (''ops'', IList (map op_ipld (fr_ops fr)))]
      @ opt_field ''prev'' ILink (fr_prev_cid fr)
      @ opt_field ''prevData'' ILink (fr_prev_data fr)
      @ [(''rebase'', IBool False), (''repo'', IString (fr_did fr)), (''rev'', IString (fr_rev fr)),
         (''seq'', IInteger (fr_seq fr))]
      @ opt_field ''since'' IString (fr_since fr)
      @ [(''time'', IString (fr_time fr)), (''tooBig'', IBool False)])"

definition build_identity_frame :: "atp_libs \<Rightarrow> int \<Rightarrow> string \<Rightarrow> string \<Rightarrow> string \<Rightarrow> repo_error + bytes" where
  "build_identity_frame L seq did handle time = build_frame L 1 ''#identity''
     [(''did'', IString did), (''handle'', IString handle), (''seq'', IInteger seq), (''time'', IString time)]"

definition build_account_frame ::
  "atp_libs \<Rightarrow> int \<Rightarrow> string \<Rightarrow> string \<Rightarrow> string \<Rightarrow> bool \<Rightarrow> string option \<Rightarrow> repo_error + bytes" where
  "build_account_frame L seq did handle time active status = build_frame L 1 ''#account''
     ([(''active'', IBool active), (''did'', IString did), (''handle'', IString handle), (''seq'', IInteger seq)]
      @ opt_field ''status'' IString status
      @ [(''time'', IString time)])"

definition build_error_frame :: "atp_libs \<Rightarrow> string \<Rightarrow> string \<Rightarrow> repo_error + bytes" where
  "build_error_frame L name message = build_frame L (- 1) ''#error''
     [(''message'', IString message), (''name'', IString name)]"

section \<open>Announced blobs\<close>

text \<open>\<open>.ok().into_iter().collect()\<close> and \<open>filter_map(.. .ok())\<close>.\<close>

fun ok_list :: "'e + 'a \<Rightarrow> 'a list" where
  "ok_list (Inl e) = []"
| "ok_list (Inr x) = [x]"

fun blob_cids_for_media :: "atp_libs \<Rightarrow> bsky_embed \<Rightarrow> cid list" where
  "blob_cids_for_media L (Embed_Images images) = concat (map (\<lambda>i. ok_list (cid_from_sha256_hex L (img_sha256_hex i))) images)"
| "blob_cids_for_media L (Embed_Video c _ _ _ _) = ok_list (cid_from_str L c)"
| "blob_cids_for_media L (Embed_External _ _ _ (Some t)) = ok_list (cid_from_sha256_hex L (img_sha256_hex t))"
| "blob_cids_for_media L (Embed_External _ _ _ None) = []"
| "blob_cids_for_media L (Embed_Record _ _) = []"
| "blob_cids_for_media L (Embed_RecordWithMedia _ _ _) = []"

fun blob_cids_for_embed :: "atp_libs \<Rightarrow> bsky_embed option \<Rightarrow> cid list" where
  "blob_cids_for_embed L None = []"
| "blob_cids_for_embed L (Some (Embed_Images images)) = concat (map (\<lambda>i. ok_list (cid_from_sha256_hex L (img_sha256_hex i))) images)"
| "blob_cids_for_embed L (Some (Embed_Video c _ _ _ _)) = ok_list (cid_from_str L c)"
| "blob_cids_for_embed L (Some (Embed_External _ _ _ (Some t))) = ok_list (cid_from_sha256_hex L (img_sha256_hex t))"
| "blob_cids_for_embed L (Some (Embed_External _ _ _ None)) = []"
| "blob_cids_for_embed L (Some (Embed_Record _ _)) = []"
| "blob_cids_for_embed L (Some (Embed_RecordWithMedia _ _ media)) = blob_cids_for_media L media"

section \<open>The announced blobs are the links of the record\<close>

fun ipld_links :: "ipld \<Rightarrow> cid set" where
  "ipld_links (ILink c) = {c}"
| "ipld_links (IList l) = (\<Union>v \<in> set l. ipld_links v)"
| "ipld_links (IMap m) = (\<Union>(k, v) \<in> set m. ipld_links v)"
| "ipld_links v = {}"

lemma set_btree_insert: "k \<notin> fst ` set m \<Longrightarrow> set (btree_insert k v m) = insert (k, v) (set m)"
  by (induction m) (auto split: if_splits)

lemma set_fold_btree_insert:
  "distinct (map fst kvs) \<Longrightarrow> fst ` set kvs \<inter> fst ` set m = {} \<Longrightarrow>
   set (fold (\<lambda>(k, v). btree_insert k v) kvs m) = set kvs \<union> set m"
proof (induction kvs arbitrary: m)
  case (Cons kv kvs)
  then show ?case by (cases kv) (auto simp: set_btree_insert)
qed simp

lemma set_btree_of: "distinct (map fst kvs) \<Longrightarrow> set (btree_of kvs) = set kvs"
  by (simp add: btree_of_def set_fold_btree_insert)

lemma ipld_links_obj:
  "distinct (map fst kvs) \<Longrightarrow> ipld_links (ipld_obj kvs) = (\<Union>(k, v) \<in> set kvs. ipld_links v)"
  by (simp add: ipld_obj_def set_btree_of)

lemma links_blob [simp]: "ipld_links (build_blob_ipld_from_cid_value c mime sz) = {c}"
  by (simp add: build_blob_ipld_from_cid_value_def ipld_links_obj)

lemma links_aspect [simp]: "ipld_links (aspect_ratio w h) = {}"
  by (simp add: aspect_ratio_def ipld_links_obj)

lemma links_embed_record [simp]: "ipld_links (build_embed_record_ipld uri c) = {}"
  by (simp add: build_embed_record_ipld_def ipld_links_obj)

lemma links_with_media [simp]:
  "ipld_links (build_embed_record_with_media_ipld uri c media) = ipld_links media"
  by (simp add: build_embed_record_with_media_ipld_def ipld_links_obj)

lemma links_external:
  "build_embed_external_ipld L url title description thumb = Inr i \<Longrightarrow>
   ipld_links i = set (blob_cids_for_media L (Embed_External url title description thumb))"
  by (cases thumb)
    (auto simp: build_embed_external_ipld_def build_blob_ipld_def rbind_Inr_iff ipld_links_obj)

lemma links_video:
  "build_embed_video_ipld L c mime sz w h = Inr i \<Longrightarrow>
   ipld_links i = set (blob_cids_for_media L (Embed_Video c mime sz w h))"
  by (auto simp: build_embed_video_ipld_def build_blob_ipld_from_cid_def rbind_Inr_iff ipld_links_obj
      split: if_splits)

lemma links_image_item: "image_item L img = Inr i \<Longrightarrow> ipld_links i = set (ok_list (cid_from_sha256_hex L (img_sha256_hex img)))"
  by (auto simp: image_item_def build_blob_ipld_def rbind_Inr_iff ipld_links_obj)

lemma links_image_items:
  "rmap (image_item L) imgs = Inr is \<Longrightarrow>
   (\<Union>i \<in> set is. ipld_links i) = set (concat (map (\<lambda>i. ok_list (cid_from_sha256_hex L (img_sha256_hex i))) imgs))"
proof (induction imgs arbitrary: "is")
  case (Cons img imgs)
  from Cons.prems obtain x xs where "image_item L img = Inr x" "rmap (image_item L) imgs = Inr xs" "is = x # xs"
    by (auto simp: rbind_Inr_iff)
  with Cons.IH [of xs] show ?case by (simp add: links_image_item)
qed simp

lemma links_images:
  "build_embed_images_ipld L imgs = Inr i \<Longrightarrow>
   ipld_links i = set (concat (map (\<lambda>i. ok_list (cid_from_sha256_hex L (img_sha256_hex i))) imgs))"
  by (auto simp: build_embed_images_ipld_def rbind_Inr_iff ipld_links_obj links_image_items)

lemma links_media: "media_ipld L media = Inr i \<Longrightarrow> ipld_links i = set (blob_cids_for_media L media)"
proof (cases media)
  case (Embed_Images imgs)
  then show "media_ipld L media = Inr i \<Longrightarrow> ?thesis" using links_images [of L imgs i] by (simp split: if_splits)
next
  case (Embed_External url title description thumb)
  then show "media_ipld L media = Inr i \<Longrightarrow> ?thesis" using links_external by simp
next
  case (Embed_Video c mime sz w h)
  then show "media_ipld L media = Inr i \<Longrightarrow> ?thesis" using links_video by simp
qed simp_all

lemma blob_cids_embed_media:
  "(\<And>uri c m. e \<noteq> Embed_RecordWithMedia uri c m) \<Longrightarrow> blob_cids_for_embed L (Some e) = blob_cids_for_media L e"
  by (induction L e rule: blob_cids_for_media.induct) auto

text \<open>
  Announced blobs: whenever the embed of a post can be encoded, the CIDs that the commit announces
  for it (\<open>blob_cids_for_embed\<close>) are exactly the CID links of the encoded embed, for every kind of embed
  including media beside a quotation; a post without an encoded embed announces none.
\<close>
theorem announced_blobs_are_links:
  assumes "embed_ipld L e = Inr r"
  shows "set (blob_cids_for_embed L e) = (case r of None \<Rightarrow> {} | Some i \<Rightarrow> ipld_links i)"
proof (cases e)
  case (Some emb)
  show ?thesis
  proof (cases emb)
    case (Embed_Images imgs)
    with Some assms links_images [of L imgs] show ?thesis by (auto simp: rbind_Inr_iff split: if_splits)
  next
    case (Embed_External url title description thumb)
    with Some assms links_external [of L url title description thumb] show ?thesis
      by (auto simp: rbind_Inr_iff blob_cids_embed_media)
  next
    case (Embed_RecordWithMedia uri c media)
    with Some assms links_media [of L media] show ?thesis by (auto simp: rbind_Inr_iff)
  next
    case (Embed_Video c mime sz w h)
    with Some assms links_video [of L c mime sz w h] show ?thesis by (auto simp: rbind_Inr_iff)
  qed (use Some assms in auto)
qed (use assms in simp)

definition demo_embed :: bsky_embed where
  "demo_embed = Embed_RecordWithMedia ''at://a'' ''c''
     (Embed_Images [\<lparr>img_sha256_hex = ''hi'', img_mime_type = ''image/png'', img_size = 3,
        img_width = 2, img_height = 1, img_alt = ''alt''\<rparr>])"

lemma demo_embed_encoded: "\<exists>i. embed_ipld demo_libs (Some demo_embed) = Inr (Some i)"
  by (simp add: demo_embed_def build_embed_images_ipld_def image_item_def build_blob_ipld_def
      cid_from_sha256_hex_def multihash_wrap_def demo_libs_def)

theorem announced_blobs_are_links_witness:
  "\<exists>i. embed_ipld demo_libs (Some demo_embed) = Inr (Some i)
     \<and> set (blob_cids_for_embed demo_libs (Some demo_embed)) = ipld_links i \<and> ipld_links i \<noteq> {}"
proof -
  obtain i where i: "embed_ipld demo_libs (Some demo_embed) = Inr (Some i)" using demo_embed_encoded by blast
  have "blob_cids_for_embed demo_libs (Some demo_embed) \<noteq> []"
    by (simp add: demo_embed_def cid_from_sha256_hex_def multihash_wrap_def demo_libs_def)
  with announced_blobs_are_links [OF i] i show ?thesis by auto
qed

end
