(* ===== verification/Commit.thy ===== *)
theory Commit
  imports Mst Records
begin

text \<open>
  The commit pipeline of the AT repository, \<open>AtpCommitService\<close> of \<open>seiran-common/src/atp/service.rs\<close>:
  the tables of one actor, the transaction that applies one write to them (\<open>try_apply_write\<close>), its
  retry after a serialization failure (\<open>apply_write\<close>), and the commit of each kind of record.

  A transaction is a function from the tables to an error or the new tables: an error rolls back. The
  TID, the number that the sequence of the event table hands out, the clock text and the functions
  of the signature and compression crates (\<open>signer_libs\<close>) are arguments.
\<close>

section \<open>Tables\<close>

record post_row =
  p_id :: int
  p_at_uri :: "string option"
  p_at_cid :: "string option"
  p_at_rkey :: "string option"
  p_deleted :: bool

record atp_record_row =
  r_collection :: string
  r_rkey :: string
  r_cid :: string

record repo_event =
  ev_seq :: int
  ev_commit_cid :: string
  ev_prev_cid :: "string option"
  ev_rev :: string
  ev_since_rev :: "string option"
  ev_car_bytes :: bytes
  ev_ops :: "(string \<times> string \<times> string option) list"
  ev_frame_bytes :: "bytes option"

record repo_db =
  at_did :: "string option"
  at_signing_key_pem :: "string option"
  at_repo_cid :: "string option"
  at_repo_rev :: "string option"
  at_repo_data_cid :: "string option"
  db_posts :: "post_row list"
  atp_records :: "atp_record_row list"
  atp_blocks :: "(string \<times> bytes) list"
  repo_events :: "repo_event list"
  post_record_blobs :: "(int \<times> string) list"

record signer_libs =
  key_from_pem :: "string \<Rightarrow> string + bytes"
  p256_sign :: "bytes \<Rightarrow> bytes \<Rightarrow> bytes"
  sig_normalize_s :: "bytes \<Rightarrow> bytes"
  zstd_encode :: "bytes \<Rightarrow> bytes option"

datatype db_error = Serialization_Failure | Unique_Violation string

datatype commit_error =
    Db db_error
  | Repo repo_error
  | Plc string
  | ActorConfig string

record commit_record =
  cr_collection :: string
  cr_rkey :: string
  cr_cbor :: bytes
  cr_cid :: cid
  cr_action :: string
  cr_blob_cids :: "cid list"

datatype repo_write = Put commit_record | Delete string string

fun write_collection :: "repo_write \<Rightarrow> string" where
  "write_collection (Put r) = cr_collection r"
| "write_collection (Delete c rk) = c"

fun write_rkey :: "repo_write \<Rightarrow> string" where
  "write_rkey (Put r) = cr_rkey r"
| "write_rkey (Delete c rk) = rk"

definition record_key :: "string \<Rightarrow> string \<Rightarrow> string" where
  "record_key collection rkey = collection @ ''/'' @ rkey"

definition POST_COLLECTION :: string where
  "POST_COLLECTION = ''app.bsky.feed.post''"

record commit_result =
  res_commit_cid :: cid
  res_rev :: string
  res_seq :: int
  res_at_did :: string

section \<open>Signed commits\<close>

definition commit_fields :: "cid \<Rightarrow> string \<Rightarrow> cid option \<Rightarrow> string \<Rightarrow> (string \<times> ipld) list" where
  "commit_fields mst_root did prev new_rev =
     [(''data'', ILink mst_root), (''did'', IString did), (''prev'', link_ipld prev), (''rev'', IString new_rev)]"

definition unsigned_commit :: "cid \<Rightarrow> string \<Rightarrow> cid option \<Rightarrow> string \<Rightarrow> ipld" where
  "unsigned_commit mst_root did prev new_rev =
     IMap (commit_fields mst_root did prev new_rev @ [(''version'', IInteger 3)])"

definition signed_commit :: "cid \<Rightarrow> string \<Rightarrow> cid option \<Rightarrow> string \<Rightarrow> bytes \<Rightarrow> ipld" where
  "signed_commit mst_root did prev new_rev sig =
     IMap (commit_fields mst_root did prev new_rev @ [(''sig'', IBytes sig), (''version'', IInteger 3)])"

definition create_commit ::
  "atp_libs \<Rightarrow> signer_libs \<Rightarrow> string \<Rightarrow> string \<Rightarrow> cid \<Rightarrow> cid option \<Rightarrow> bytes \<Rightarrow> repo_error + cid \<times> bytes" where
  "create_commit L S did new_rev mst_root prev signing_key =
     rbind (map_err Cbor (dagcbor_to_vec L (unsigned_commit mst_root did prev new_rev))) (\<lambda>unsigned_cbor.
     let sig = sig_normalize_s S (p256_sign S signing_key unsigned_cbor) in
     rbind (map_err Cbor (dagcbor_to_vec L (signed_commit mst_root did prev new_rev sig))) (\<lambda>commit_cbor.
     Inr (cid_from_dagcbor L commit_cbor, commit_cbor)))"

section \<open>The transaction\<close>

text \<open>\<open>load_atp_entries\<close>: the live posts that have an AT key, then the other records.\<close>

definition post_entries :: "repo_db \<Rightarrow> (string \<times> string) list" where
  "post_entries db = concat (map (\<lambda>p. case (p_at_rkey p, p_at_cid p) of
      (Some rk, Some c) \<Rightarrow> (if p_deleted p then [] else [(record_key POST_COLLECTION rk, c)])
    | _ \<Rightarrow> []) (db_posts db))"

definition record_entries :: "repo_db \<Rightarrow> (string \<times> string) list" where
  "record_entries db = map (\<lambda>r. (record_key (r_collection r) (r_rkey r), r_cid r)) (atp_records db)"

definition load_atp_entries :: "atp_libs \<Rightarrow> repo_db \<Rightarrow> commit_error + (string \<times> cid) list" where
  "load_atp_entries L db =
     map_err Repo (rmap (\<lambda>(k, s). rbind (cid_from_str L s) (\<lambda>c. Inr (k, c)))
       (post_entries db @ record_entries db))"

text \<open>The entry of the written key is replaced, and the list sorted by key (a stable sort).\<close>

definition replace_entry :: "repo_write \<Rightarrow> (string \<times> cid) list \<Rightarrow> (string \<times> cid) list" where
  "replace_entry write entries =
     (let entry_key = record_key (write_collection write) (write_rkey write);
          kept = filter (\<lambda>(k, _). k \<noteq> entry_key) entries
      in sort_key fst (kept @ (case write of Put r \<Rightarrow> [(entry_key, cr_cid r)] | Delete c rk \<Rightarrow> [])))"

definition parse_stored_cid :: "atp_libs \<Rightarrow> string option \<Rightarrow> cid option" where
  "parse_stored_cid L s = Option.bind s (\<lambda>t. case cid_from_str L t of Inr c \<Rightarrow> Some c | Inl e \<Rightarrow> None)"

text \<open>\<open>insert_blocks\<close>: \<open>ON CONFLICT DO NOTHING\<close>, also within the batch.\<close>

definition insert_block :: "atp_libs \<Rightarrow> cid \<times> bytes \<Rightarrow> (string \<times> bytes) list \<Rightarrow> (string \<times> bytes) list" where
  "insert_block L = (\<lambda>(c, b) bs.
     if cid_to_string L c \<in> fst ` set bs then bs else bs @ [(cid_to_string L c, b)])"

definition insert_blocks :: "atp_libs \<Rightarrow> blocks \<Rightarrow> repo_db \<Rightarrow> repo_db" where
  "insert_blocks L bs db = db\<lparr>atp_blocks := fold (insert_block L) bs (atp_blocks db)\<rparr>"

text \<open>Steps 1 to 6: everything that is computed before the first write.\<close>

record prepared =
  pr_did :: string
  pr_entries :: "(string \<times> cid) list"
  pr_mst_root :: cid
  pr_commit_cid :: cid
  pr_blocks :: blocks
  pr_car :: bytes

definition prepare_commit ::
  "atp_libs \<Rightarrow> signer_libs \<Rightarrow> repo_write \<Rightarrow> string \<Rightarrow> repo_db \<Rightarrow> commit_error + prepared" where
  "prepare_commit L S write new_rev db =
     rbind (ok_or (at_did db) (ActorConfig ''at_did is not set'')) (\<lambda>did.
     rbind (ok_or (at_signing_key_pem db) (ActorConfig ''at_signing_key_pem is not set'')) (\<lambda>pem.
     rbind (map_err Plc (key_from_pem S pem)) (\<lambda>signing_key.
     rbind (load_atp_entries L db) (\<lambda>loaded.
     let entries = replace_entry write loaded in
     rbind (map_err Repo (build_mst L entries)) (\<lambda>(mst_root, mst_blocks).
     rbind (map_err Repo (create_commit L S did new_rev mst_root
              (parse_stored_cid L (at_repo_cid db)) signing_key)) (\<lambda>(commit_cid, commit_cbor).
     let new_blocks = mst_blocks
           @ (case write of Put r \<Rightarrow> [(cr_cid r, cr_cbor r)] | Delete c rk \<Rightarrow> [])
           @ [(commit_cid, commit_cbor)] in
     rbind (map_err Repo (encode_car L commit_cid new_blocks)) (\<lambda>diff_car.
     Inr \<lparr>pr_did = did, pr_entries = entries, pr_mst_root = mst_root, pr_commit_cid = commit_cid,
          pr_blocks = new_blocks, pr_car = diff_car\<rparr>)))))))"

text \<open>The upsert into \<open>atp_records\<close>, whose primary key is the collection and the key.\<close>

fun upsert_record :: "string \<Rightarrow> string \<Rightarrow> string \<Rightarrow> atp_record_row list \<Rightarrow> atp_record_row list" where
  "upsert_record col rk c [] = [\<lparr>r_collection = col, r_rkey = rk, r_cid = c\<rparr>]"
| "upsert_record col rk c (r # rs) =
     (if r_collection r = col \<and> r_rkey r = rk then r\<lparr>r_cid := c\<rparr> # rs else r # upsert_record col rk c rs)"

text \<open>The update of the post's row; \<open>at_uri\<close> is unique in the table.\<close>

definition update_post :: "int \<Rightarrow> string \<Rightarrow> string \<Rightarrow> string \<Rightarrow> post_row list \<Rightarrow> commit_error + post_row list" where
  "update_post pid uri c rk ps =
     (if (\<exists>p \<in> set ps. p_id p = pid) \<and> (\<exists>p \<in> set ps. p_id p \<noteq> pid \<and> p_at_uri p = Some uri)
      then Inl (Db (Unique_Violation ''posts_at_uri_key''))
      else Inr (map (\<lambda>p. if p_id p = pid
        then p\<lparr>p_at_uri := Some uri, p_at_cid := Some c, p_at_rkey := Some rk\<rparr> else p) ps))"

definition post_at_uri :: "string \<Rightarrow> string \<Rightarrow> string" where
  "post_at_uri did rk = ''at://'' @ did @ ''/app.bsky.feed.post/'' @ rk"

text \<open>Step 9.\<close>

definition reflect_write ::
  "atp_libs \<Rightarrow> string \<Rightarrow> repo_write \<Rightarrow> int option \<Rightarrow> repo_db
     \<Rightarrow> commit_error + ((string \<times> string \<times> string option) list \<times> commit_evt_op list \<times> cid list) \<times> repo_db" where
  "reflect_write L did write post_id db =
     (let entry_key = record_key (write_collection write) (write_rkey write) in
      case write of
        Put r \<Rightarrow>
          let cid_str = cid_to_string L (cr_cid r);
              db1 = (if cr_collection r \<noteq> POST_COLLECTION
                     then db\<lparr>atp_records := upsert_record (cr_collection r) (cr_rkey r) cid_str (atp_records db)\<rparr>
                     else db)
          in rbind (case post_id of
               None \<Rightarrow> Inr db1
             | Some pid \<Rightarrow>
                 rbind (update_post pid (post_at_uri did (cr_rkey r)) cid_str (cr_rkey r) (db_posts db1)) (\<lambda>ps.
                 Inr (db1\<lparr>db_posts := ps,
                   post_record_blobs := post_record_blobs db1
                     @ map (Pair pid) (sha256_hexes_of_blob_cids L (cr_blob_cids r))\<rparr>))) (\<lambda>db2.
             Inr (([(cr_action r, entry_key, Some cid_str)],
                   [\<lparr>op_action = cr_action r, op_path = entry_key, op_cid = Some (cr_cid r)\<rparr>],
                   cr_blob_cids r), db2))
      | Delete col rk \<Rightarrow>
          Inr (([(''delete'', entry_key, None)],
                [\<lparr>op_action = ''delete'', op_path = entry_key, op_cid = None\<rparr>], []),
               db\<lparr>atp_records := filter (\<lambda>r. \<not> (r_collection r = col \<and> r_rkey r = rk)) (atp_records db)\<rparr>))"

fun ok_opt :: "'e + 'a \<Rightarrow> 'a option" where
  "ok_opt (Inl e) = None"
| "ok_opt (Inr x) = Some x"

text \<open>Steps 7 to 10 and the frame, saved with the event only when it could be built and compressed.\<close>

definition write_commit ::
  "atp_libs \<Rightarrow> signer_libs \<Rightarrow> repo_write \<Rightarrow> int option \<Rightarrow> string \<Rightarrow> string \<Rightarrow> int \<Rightarrow> prepared \<Rightarrow> repo_db
     \<Rightarrow> commit_error + (commit_result \<times> bytes option) \<times> repo_db" where
  "write_commit L S write post_id now_str new_rev seq pr db =
     (let db7 = insert_blocks L (pr_blocks pr) db;
          db8 = db7\<lparr>at_repo_cid := Some (cid_to_string L (pr_commit_cid pr)), at_repo_rev := Some new_rev,
                    at_repo_data_cid := Some (cid_to_string L (pr_mst_root pr))\<rparr>
      in rbind (reflect_write L (pr_did pr) write post_id db8) (\<lambda>((ops_json, ws_ops, blob_cids), db9).
         let frame = ok_opt (build_commit_frame L
               \<lparr>fr_seq = seq, fr_did = pr_did pr, fr_commit_cid = pr_commit_cid pr,
                fr_prev_cid = parse_stored_cid L (at_repo_cid db), fr_rev = new_rev,
                fr_since = at_repo_rev db, fr_car_bytes = pr_car pr, fr_ops = ws_ops,
                fr_blob_cids = blob_cids, fr_time = now_str,
                fr_prev_data = parse_stored_cid L (at_repo_data_cid db)\<rparr>);
             event = \<lparr>ev_seq = seq, ev_commit_cid = cid_to_string L (pr_commit_cid pr),
                ev_prev_cid = at_repo_cid db, ev_rev = new_rev, ev_since_rev = at_repo_rev db,
                ev_car_bytes = pr_car pr, ev_ops = ops_json,
                ev_frame_bytes = Option.bind frame (zstd_encode S)\<rparr>
         in Inr ((\<lparr>res_commit_cid = pr_commit_cid pr, res_rev = new_rev, res_seq = seq,
                   res_at_did = pr_did pr\<rparr>, frame), db9\<lparr>repo_events := repo_events db9 @ [event]\<rparr>)))"

definition try_apply_write ::
  "atp_libs \<Rightarrow> signer_libs \<Rightarrow> repo_write \<Rightarrow> int option \<Rightarrow> string \<Rightarrow> string \<Rightarrow> int \<Rightarrow> repo_db
     \<Rightarrow> commit_error + (commit_result \<times> bytes option) \<times> repo_db" where
  "try_apply_write L S write post_id now_str new_rev seq db =
     rbind (prepare_commit L S write new_rev db) (\<lambda>pr.
     write_commit L S write post_id now_str new_rev seq pr db)"

section \<open>Retry\<close>

definition MAX_SERIALIZATION_RETRIES :: nat where
  "MAX_SERIALIZATION_RETRIES = 10"

fun is_serialization_failure :: "db_error \<Rightarrow> bool" where
  "is_serialization_failure Serialization_Failure = True"
| "is_serialization_failure (Unique_Violation c) = False"

text \<open>
  What one attempt meets: the tables as the other transactions left them, the TID and the sequence
  number it draws, and whether the database aborts it for a conflict.
\<close>

record attempt_env =
  env_db :: repo_db
  env_rev :: string
  env_seq :: int
  env_conflict :: bool

definition attempt_write ::
  "atp_libs \<Rightarrow> signer_libs \<Rightarrow> repo_write \<Rightarrow> int option \<Rightarrow> string \<Rightarrow> attempt_env
     \<Rightarrow> commit_error + (commit_result \<times> bytes option) \<times> repo_db" where
  "attempt_write L S write post_id now_str e =
     (if env_conflict e then Inl (Db Serialization_Failure)
      else try_apply_write L S write post_id now_str (env_rev e) (env_seq e) (env_db e))"

text \<open>The result, the new tables and the frames published; \<open>attempt\<close> counts from 1.\<close>

function apply_write ::
  "atp_libs \<Rightarrow> signer_libs \<Rightarrow> repo_write \<Rightarrow> int option \<Rightarrow> string \<Rightarrow> (nat \<Rightarrow> attempt_env) \<Rightarrow> nat
     \<Rightarrow> commit_error + (commit_result \<times> repo_db \<times> (bytes \<times> int) list)" where
  "apply_write L S write post_id now_str env attempt =
     (case attempt_write L S write post_id now_str (env attempt) of
        Inr ((result, frame), db) \<Rightarrow>
          Inr (result, db, (case frame of Some f \<Rightarrow> [(f, res_seq result)] | None \<Rightarrow> []))
      | Inl (Db e) \<Rightarrow>
          (if is_serialization_failure e \<and> attempt < MAX_SERIALIZATION_RETRIES
           then apply_write L S write post_id now_str env (attempt + 1)
           else Inl (Db e))
      | Inl e \<Rightarrow> Inl e)"
  by pat_completeness auto
termination
  by (relation "measure (\<lambda>(L, S, write, post_id, now_str, env, attempt). MAX_SERIALIZATION_RETRIES - attempt)") auto

declare apply_write.simps [simp del]

end
