(* ===== verification/Mst_Round_Trip.thy ===== *)
theory Mst_Round_Trip
  imports Mst
begin

text \<open>
  The builder and the walk of the search tree fit together: walking the tree that \<open>build_mst\<close> made
  lists the records it was given, in their order, and an archive of a commit with its tree and its
  records is decoded to those records.
\<close>

section \<open>Keys and prefixes\<close>

lemma common_prefix_len_le: "common_prefix_len a b \<le> length a \<and> common_prefix_len a b \<le> length b"
  using length_takeWhile_le [of "\<lambda>(ca, cb). ca = cb" "zip a b"] by (simp add: common_prefix_len_def)

lemma take_common_prefix: "take (common_prefix_len a b) a = take (common_prefix_len a b) b"
proof (induction a arbitrary: b)
  case (Cons x a)
  then show ?case by (cases b) (auto simp: common_prefix_len_def)
qed (simp add: common_prefix_len_def)

lemma prefix_key: "take (common_prefix_len a b) a @ drop (common_prefix_len a b) b = b"
  by (metis append_take_drop_id take_common_prefix)

section \<open>The walk over the entries of a node\<close>

text \<open>A record that the store holds under a key that the walk can read back.\<close>

definition entry_ok :: "(cid \<Rightarrow> bytes option) \<Rightarrow> string \<times> cid \<Rightarrow> bool" where
  "entry_ok M entry \<longleftrightarrow> utf8_valid (as_bytes (fst entry)) \<and> length (fst entry) < 2 ^ 32
     \<and> M (snd entry) \<noteq> None"

definition leaf_of :: "(cid \<Rightarrow> bytes option) \<Rightarrow> string \<times> cid \<Rightarrow> mst_leaf" where
  "leaf_of M = (\<lambda>(key, c). \<lparr>leaf_key = key, leaf_cid = c, leaf_bytes = the (M c)\<rparr>)"

definition walks ::
  "atp_libs \<Rightarrow> (cid \<Rightarrow> bytes option) \<Rightarrow> cid \<Rightarrow> (string \<times> cid) list \<Rightarrow> nat \<Rightarrow> bool" where
  "walks L M c es height \<longleftrightarrow>
     (\<forall>leaves depth. depth + height \<le> MAX_MST_DEPTH \<longrightarrow>
        walk_node L M c leaves depth = Inr (leaves @ map (leaf_of M) es))"

text \<open>The subtree of a link, from the leaves found so far.\<close>

definition visit ::
  "atp_libs \<Rightarrow> (cid \<Rightarrow> bytes option) \<Rightarrow> nat \<Rightarrow> cid option \<Rightarrow> mst_leaf list \<Rightarrow> car_error + mst_leaf list" where
  "visit L M depth link leaves =
     (case link of None \<Rightarrow> Inr leaves | Some c \<Rightarrow> walk_node L M c leaves (depth + 1))"

definition visit_entry ::
  "atp_libs \<Rightarrow> (cid \<Rightarrow> bytes option) \<Rightarrow> nat \<Rightarrow> ipld \<Rightarrow> bytes \<times> mst_leaf list
     \<Rightarrow> car_error + bytes \<times> mst_leaf list" where
  "visit_entry L M depth entry st =
     rbind (walk_entry L M entry (fst st) (snd st)) (\<lambda>(prev_key, leaves, right).
     rbind (visit L M depth right leaves) (\<lambda>leaves. Inr (prev_key, leaves)))"

definition visit_node ::
  "atp_libs \<Rightarrow> (cid \<Rightarrow> bytes option) \<Rightarrow> nat \<Rightarrow> mst_entry list \<Rightarrow> cid option \<Rightarrow> mst_leaf list
     \<Rightarrow> car_error + bytes \<times> mst_leaf list" where
  "visit_node L M depth entries left leaves =
     rbind (visit L M depth left leaves) (\<lambda>leaves.
     rfold (visit_entry L M depth) (map entry_ipld entries) ([], leaves))"

lemma optional_link_link [simp]:
  "optional_link ((''l'', link_ipld c) # m) ''l'' = Inr c"
  "optional_link ((''e'', v) # m) ''l'' = optional_link m ''l''"
  "optional_link [(''k'', a), (''p'', b), (''t'', link_ipld c), (''v'', d)] ''t'' = Inr c"
  by (cases c; simp add: optional_link_def)+

lemma walk_node_visits:
  assumes "depth \<le> MAX_MST_DEPTH" "M c = Some bs"
    and "dagcbor_from_slice L bs = Inr (node_ipld \<lparr>node_e = entries, node_l = left\<rparr>)"
  shows "walk_node L M c leaves depth =
    rbind (visit_node L M depth entries left leaves) (\<lambda>(prev_key, leaves). Inr leaves)"
  using assms
  by (simp add: walk_node.simps [of L M c] node_ipld_def ipld_map_def visit_node_def visit_def
      visit_entry_def [abs_def] rbind_assoc)

lemma walk_entry_ipld:
  assumes "entry_ok M (key, c)" "prefix_len = common_prefix_len prev (as_bytes key)"
    and "entry = \<lparr>entry_k = drop prefix_len (as_bytes key), entry_p = of_nat prefix_len,
           entry_t = t, entry_v = c\<rparr>"
  shows "walk_entry L M (entry_ipld entry) prev leaves = Inr (as_bytes key, leaves @ [leaf_of M (key, c)], t)"
proof -
  have le: "prefix_len \<le> length prev" "prefix_len \<le> length (as_bytes key)"
    using common_prefix_len_le [of prev "as_bytes key"] assms(2) by auto
  then have "uint (of_nat prefix_len :: 32 word) = int prefix_len"
    using assms(1) by (simp add: entry_ok_def unsigned_of_nat take_bit_nat_eq_self flip: uint_nat)
  moreover have "nat (int prefix_len mod 2 ^ 64) = prefix_len"
    using le assms(1) by (simp add: entry_ok_def)
  moreover have "take prefix_len prev @ drop prefix_len (as_bytes key) = as_bytes key"
    unfolding assms(2) by (rule prefix_key)
  ultimately show ?thesis
    using assms(1) le
    by (auto simp: walk_entry_def entry_ipld_def ipld_map_def assms(3) entry_ok_def leaf_of_def
        from_utf8_as_bytes Let_def)
qed

text \<open>The right link of an entry is passed on and has no other effect.\<close>

lemma walk_entry_right: "walk_entry L M (entry_ipld e) prev ls = Inr (p, ls', r) \<Longrightarrow> r = entry_t e"
  by (auto simp: walk_entry_def entry_ipld_def ipld_map_def Let_def rbind_Inr_iff split: if_splits)

lemma walk_entry_link:
  "walk_entry L M (entry_ipld e) prev ls = Inr (p, ls', r) \<Longrightarrow>
   walk_entry L M (entry_ipld (e\<lparr>entry_t := t\<rparr>)) prev ls = Inr (p, ls', t)"
  by (auto simp: walk_entry_def entry_ipld_def ipld_map_def Let_def rbind_Inr_iff split: if_splits)

section \<open>The invariant of the builder's loop\<close>

text \<open>
  After the entries \<open>done\<close>: those that are not in the subtree buffer are what the walk finds in the
  node built so far, and the last entry has no right subtree yet.
\<close>

definition layer_open :: "layer_state \<Rightarrow> bool" where
  "layer_open st \<longleftrightarrow> (ls_entries st = [] \<longrightarrow> ls_left st = None) \<and>
     (ls_entries st \<noteq> [] \<longrightarrow> entry_t (last (ls_entries st)) = None)"

definition layer_inv ::
  "atp_libs \<Rightarrow> (cid \<Rightarrow> bytes option) \<Rightarrow> nat \<Rightarrow> (string \<times> cid) list \<Rightarrow> layer_state \<Rightarrow> bool" where
  "layer_inv L M layer done st \<longleftrightarrow>
     layer_open st \<and>
     (\<exists>found. done = found @ ls_subtree st \<and>
        (\<forall>leaves depth. depth + layer \<le> MAX_MST_DEPTH \<longrightarrow>
           visit_node L M depth (ls_entries st) (ls_left st) leaves
             = Inr (ls_prev st, leaves @ map (leaf_of M) found)))"

definition stored :: "(cid \<Rightarrow> bytes option) \<Rightarrow> blocks \<Rightarrow> bool" where
  "stored M bs \<longleftrightarrow> (\<forall>(c, b) \<in> set bs. M c = Some b)"

lemma stored_append [simp]: "stored M (bs @ cs) \<longleftrightarrow> stored M bs \<and> stored M cs"
  by (auto simp: stored_def)

lemma rfold_singleton: "rfold f [x] = f x"
proof
  show "rfold f [x] s = f x s" for s by (cases "f x s") simp_all
qed

lemma visit_node_snoc:
  "visit_node L M depth (es @ [e]) left leaves =
     rbind (visit_node L M depth es left leaves) (visit_entry L M depth (entry_ipld e))"
  by (simp add: visit_node_def rfold_append rbind_assoc rfold_singleton)

text \<open>Attaching a subtree below the last entry, or to the left, adds its leaves.\<close>

lemma visit_attach_subtree:
  assumes "layer_open st"
    and "visit_node L M depth (ls_entries st) (ls_left st) leaves = Inr (ls_prev st, leaves')"
    and "visit L M depth sc leaves' = Inr leaves''"
  shows "visit_node L M depth (ls_entries (attach_subtree sc st)) (ls_left (attach_subtree sc st)) leaves
    = Inr (ls_prev st, leaves'')"
proof (cases "ls_entries st = []")
  case True
  with assms have "ls_left st = None" by (simp add: layer_open_def)
  with True assms show ?thesis
    by (auto simp: attach_subtree_def visit_node_def visit_def)
next
  case False
  define es e where "es = butlast (ls_entries st)" and "e = last (ls_entries st)"
  with False have split: "ls_entries st = es @ [e]" by simp
  have t: "entry_t e = None" using assms(1) False by (simp add: layer_open_def e_def)
  have att: "attach_subtree sc st = st\<lparr>ls_entries := es @ [e\<lparr>entry_t := sc\<rparr>]\<rparr>"
    using False by (simp add: attach_subtree_def es_def e_def)
  from assms(2) obtain st1 ls r where st1: "visit_node L M depth es (ls_left st) leaves = Inr st1"
    and w: "walk_entry L M (entry_ipld e) (fst st1) (snd st1) = Inr (ls_prev st, ls, r)"
    and v: "visit L M depth r ls = Inr leaves'"
    unfolding split visit_node_snoc visit_entry_def by (fastforce simp: rbind_Inr_iff)
  from walk_entry_right [OF w] t v have "r = None" "ls = leaves'" by (simp_all add: visit_def)
  with w have "walk_entry L M (entry_ipld e) (fst st1) (snd st1) = Inr (ls_prev st, leaves', None)" by simp
  then have "walk_entry L M (entry_ipld (e\<lparr>entry_t := sc\<rparr>)) (fst st1) (snd st1) = Inr (ls_prev st, leaves', sc)"
    by (rule_tac walk_entry_link)
  with st1 assms(3) show ?thesis by (simp add: att visit_node_snoc visit_entry_def)
qed

text \<open>What is known of the builder one layer down.\<close>

definition below_ok ::
  "atp_libs \<Rightarrow> (cid \<Rightarrow> bytes option) \<Rightarrow> nat \<Rightarrow> ((string \<times> cid) list \<Rightarrow> repo_error + cid \<times> blocks) \<Rightarrow> bool" where
  "below_ok L M layer below \<longleftrightarrow>
     (\<forall>buf c bs. below buf = Inr (c, bs) \<longrightarrow> stored M bs \<longrightarrow> list_all (entry_ok M) buf \<longrightarrow>
        0 < layer \<and> walks L M c buf (layer - 1))"

lemma below_visit:
  assumes "below_ok L M layer below" "below buf = Inr (c, bs)" "stored M bs" "list_all (entry_ok M) buf"
    and "depth + layer \<le> MAX_MST_DEPTH"
  shows "visit L M depth (Some c) leaves = Inr (leaves @ map (leaf_of M) buf)"
proof -
  have "0 < layer" "walks L M c buf (layer - 1)"
    using assms(1-4) unfolding below_ok_def by blast+
  moreover from this(1) assms(5) have "depth + 1 + (layer - 1) \<le> MAX_MST_DEPTH" by simp
  ultimately show ?thesis unfolding walks_def visit_def by simp
qed

lemma flush_subtree_visit:
  assumes "flush_subtree below st = Inr (sc, st1)" "below_ok L M layer below"
    and "stored M (ls_blocks st1)" "list_all (entry_ok M) (ls_subtree st)"
  shows "ls_entries st1 = ls_entries st" "ls_left st1 = ls_left st" "ls_prev st1 = ls_prev st"
    "ls_subtree st1 = []"
    "depth + layer \<le> MAX_MST_DEPTH \<Longrightarrow> visit L M depth sc leaves = Inr (leaves @ map (leaf_of M) (ls_subtree st))"
proof -
  show "ls_entries st1 = ls_entries st" "ls_left st1 = ls_left st" "ls_prev st1 = ls_prev st"
    "ls_subtree st1 = []"
    using assms(1) by (auto simp: flush_subtree_def rbind_Inr_iff split: if_splits)
  assume d: "depth + layer \<le> MAX_MST_DEPTH"
  show "visit L M depth sc leaves = Inr (leaves @ map (leaf_of M) (ls_subtree st))"
  proof (cases "ls_subtree st = []")
    case True
    with assms(1) show ?thesis by (simp add: flush_subtree_def visit_def)
  next
    case False
    with assms(1) obtain c sb where "below (ls_subtree st) = Inr (c, sb)" "sc = Some c"
      "st1 = st\<lparr>ls_blocks := ls_blocks st @ sb, ls_subtree := []\<rparr>"
      by (auto simp: flush_subtree_def rbind_Inr_iff)
    with assms d show ?thesis using below_visit [OF assms(2)] by simp
  qed
qed

lemma layer_step_inv:
  assumes step: "layer_step L below layer (key, c) st = Inr st'"
    and below: "below_ok L M layer below" and "stored M (ls_blocks st')"
    and "list_all (entry_ok M) (done @ [(key, c)])" and inv: "layer_inv L M layer done st"
  shows "layer_inv L M layer (done @ [(key, c)]) st'"
proof (cases "leading_zeros_on_hash L key < layer")
  case True
  with step have "st' = st\<lparr>ls_subtree := ls_subtree st @ [(key, c)]\<rparr>" by (simp add: layer_step_def)
  with inv show ?thesis by (auto simp: layer_inv_def layer_open_def)
next
  case False
  with step obtain sc st1 where flush: "flush_subtree below st = Inr (sc, st1)"
    and st': "st' = (let st2 = attach_subtree sc st1; n = common_prefix_len (ls_prev st2) (as_bytes key) in
      st2\<lparr>ls_prev := as_bytes key, ls_entries := ls_entries st2 @
        [\<lparr>entry_k = drop n (as_bytes key), entry_p = of_nat n, entry_t = None, entry_v = c\<rparr>]\<rparr>)"
    by (auto simp: layer_step_def rbind_Inr_iff Let_def)
  define st2 where "st2 = attach_subtree sc st1"
  have st2: "ls_prev st2 = ls_prev st1" "ls_subtree st2 = ls_subtree st1" "ls_blocks st2 = ls_blocks st1"
    by (simp_all add: st2_def attach_subtree_def)
  from inv obtain found where "done": "done = found @ ls_subtree st"
    and visit: "\<And>leaves depth. depth + layer \<le> MAX_MST_DEPTH \<Longrightarrow>
      visit_node L M depth (ls_entries st) (ls_left st) leaves = Inr (ls_prev st, leaves @ map (leaf_of M) found)"
    and "layer_open st"
    by (auto simp: layer_inv_def)
  have stored: "stored M (ls_blocks st1)" using assms(3) by (simp add: st' Let_def st2 flip: st2_def)
  have oks: "list_all (entry_ok M) (ls_subtree st)" "entry_ok M (key, c)"
    using assms(4) by (simp_all add: "done")
  note fl = flush_subtree_visit [OF flush below stored oks(1)]
  have "layer_open st1" using \<open>layer_open st\<close> by (simp add: layer_open_def fl(1-4))
  have "visit_node L M depth (ls_entries st') (ls_left st') leaves
      = Inr (ls_prev st', leaves @ map (leaf_of M) (done @ [(key, c)]))"
    if d: "depth + layer \<le> MAX_MST_DEPTH" for leaves depth
  proof -
    have "visit_node L M depth (ls_entries st2) (ls_left st2) leaves
        = Inr (ls_prev st1, (leaves @ map (leaf_of M) found) @ map (leaf_of M) (ls_subtree st))"
      unfolding st2_def
      by (rule visit_attach_subtree [OF \<open>layer_open st1\<close> _ fl(5) [OF d]]) (simp add: fl(1-4) visit [OF d])
    then show ?thesis
      using walk_entry_ipld [OF oks(2) refl refl, of L "ls_prev st1" None]
      by (simp add: st' Let_def visit_node_snoc visit_entry_def visit_def st2 "done" flip: st2_def)
  qed
  moreover have "ls_subtree st' = []" by (simp add: st' Let_def st2 fl(4) flip: st2_def)
  moreover have "layer_open st'" by (simp add: st' Let_def layer_open_def)
  ultimately show ?thesis by (simp add: layer_inv_def)
qed

section \<open>The builder against the walk\<close>

lemma layer_step_blocks: "layer_step L below layer e st = Inr st' \<Longrightarrow> \<exists>sb. ls_blocks st' = ls_blocks st @ sb"
  by (cases e) (auto simp: layer_step_def flush_subtree_def attach_subtree_def Let_def rbind_Inr_iff
      split: if_splits)

lemma rfold_layer_blocks:
  "rfold (layer_step L below layer) es st = Inr st' \<Longrightarrow> \<exists>sb. ls_blocks st' = ls_blocks st @ sb"
proof (induction es arbitrary: st)
  case (Cons e es)
  then show ?case by (fastforce simp: rbind_Inr_iff dest: layer_step_blocks)
qed simp

lemma rfold_layer_inv:
  assumes "rfold (layer_step L below layer) es st = Inr st'" "below_ok L M layer below"
    and "stored M (ls_blocks st')" "list_all (entry_ok M) (done @ es)" "layer_inv L M layer done st"
  shows "layer_inv L M layer (done @ es) st'"
  using assms
proof (induction es arbitrary: st "done")
  case (Cons e es)
  obtain key c where e: "e = (key, c)" by (cases e)
  from Cons.prems(1) obtain st1 where st1: "layer_step L below layer e st = Inr st1"
    and rest: "rfold (layer_step L below layer) es st1 = Inr st'"
    by (auto simp: rbind_Inr_iff)
  from rfold_layer_blocks [OF rest] Cons.prems(3) have "stored M (ls_blocks st1)" by auto
  then have "layer_inv L M layer (done @ [e]) st1"
    using Cons.prems st1 unfolding e by (intro layer_step_inv) (auto simp: e)
  from Cons.IH [OF rest Cons.prems(2,3) _ this] Cons.prems(4) show ?case by simp
qed simp

lemma layer_inv_init: "layer_inv L M layer [] layer_init"
  by (simp add: layer_inv_def layer_open_def layer_init_def visit_node_def visit_def)

lemma layer_finish_visit:
  assumes fin: "layer_finish below st = Inr st'" and below: "below_ok L M layer below"
    and "stored M (ls_blocks st')" "list_all (entry_ok M) es" "layer_inv L M layer es st"
    and d: "depth + layer \<le> MAX_MST_DEPTH"
  shows "visit_node L M depth (ls_entries st') (ls_left st') leaves
    = Inr (ls_prev st', leaves @ map (leaf_of M) es)"
proof -
  from assms(5) obtain found where es: "es = found @ ls_subtree st"
    and visit: "visit_node L M depth (ls_entries st) (ls_left st) leaves = Inr (ls_prev st, leaves @ map (leaf_of M) found)"
    and op: "layer_open st"
    using d by (auto simp: layer_inv_def)
  show ?thesis
  proof (cases "ls_subtree st = []")
    case True
    with fin visit es show ?thesis by (simp add: layer_finish_def)
  next
    case False
    with fin obtain c sb where b: "below (ls_subtree st) = Inr (c, sb)"
      and st': "st' = attach_subtree (Some c) (st\<lparr>ls_blocks := ls_blocks st @ sb\<rparr>)"
      by (auto simp: layer_finish_def rbind_Inr_iff)
    have "stored M sb" "list_all (entry_ok M) (ls_subtree st)"
      using assms(3,4) by (simp_all add: st' attach_subtree_def es split: if_splits)
    note v = below_visit [OF below b this d]
    have "layer_open (st\<lparr>ls_blocks := ls_blocks st @ sb\<rparr>)" using op by (simp add: layer_open_def)
    then have "visit_node L M depth (ls_entries st') (ls_left st') leaves
        = Inr (ls_prev (st\<lparr>ls_blocks := ls_blocks st @ sb\<rparr>),
            (leaves @ map (leaf_of M) found) @ map (leaf_of M) (ls_subtree st))"
      unfolding st' by (rule visit_attach_subtree [OF _ _ v]) (simp add: visit)
    moreover have "ls_prev st' = ls_prev st" by (simp add: st' attach_subtree_def)
    ultimately show ?thesis by (simp add: es)
  qed
qed

text \<open>Documented behaviour of the DAG-CBOR codec: what it wrote, it reads back.\<close>

definition dagcbor_law :: "atp_libs \<Rightarrow> bool" where
  "dagcbor_law L \<longleftrightarrow> (\<forall>v bs. dagcbor_to_vec L v = Inr bs \<longrightarrow> dagcbor_from_slice L bs = Inr v)"

lemma layer_node_walks:
  assumes node: "layer_node L below layer es = Inr (c, bs)" and "below_ok L M layer below"
    and "stored M bs" "list_all (entry_ok M) es" "dagcbor_law L"
  shows "walks L M c es layer"
proof -
  from node obtain st st' cbor where fold: "rfold (layer_step L below layer) es layer_init = Inr st"
    and fin: "layer_finish below st = Inr st'"
    and vec: "dagcbor_to_vec L (node_ipld \<lparr>node_e = ls_entries st', node_l = ls_left st'\<rparr>) = Inr cbor"
    and c: "c = cid_from_dagcbor L cbor" and bs: "bs = ls_blocks st' @ [(c, cbor)]"
    by (auto simp: layer_node_def rbind_Inr_iff Let_def)
  have st': "stored M (ls_blocks st')" and "M c = Some cbor"
    using assms(3) by (simp_all add: bs stored_def)
  have "\<exists>sb. ls_blocks st' = ls_blocks st @ sb"
    using fin by (auto simp: layer_finish_def attach_subtree_def rbind_Inr_iff split: if_splits)
  then have "stored M (ls_blocks st)" using st' by auto
  then have inv: "layer_inv L M layer es st"
    using rfold_layer_inv [OF fold assms(2) _ _ layer_inv_init] assms(4) by simp
  show ?thesis unfolding walks_def
  proof (intro allI impI)
    fix leaves depth assume d: "depth + layer \<le> MAX_MST_DEPTH"
    have "walk_node L M c leaves depth
        = rbind (visit_node L M depth (ls_entries st') (ls_left st') leaves) (\<lambda>(p, ls). Inr ls)"
      using d vec assms(5) \<open>M c = Some cbor\<close>
      by (intro walk_node_visits) (auto simp: dagcbor_law_def)
    also have "\<dots> = Inr (leaves @ map (leaf_of M) es)"
      using layer_finish_visit [OF fin assms(2) st' assms(4) inv d] by simp
    finally show "walk_node L M c leaves depth = Inr (leaves @ map (leaf_of M) es)" .
  qed
qed

lemma build_layer_walks:
  "build_layer L layer es = Inr (c, bs) \<Longrightarrow> stored M bs \<Longrightarrow> list_all (entry_ok M) es \<Longrightarrow> dagcbor_law L
   \<Longrightarrow> walks L M c es layer"
proof (induction layer arbitrary: es c bs)
  case 0
  then show ?case by (auto simp: below_ok_def intro!: layer_node_walks)
next
  case (Suc layer)
  then have "below_ok L M (Suc layer) (build_layer L layer)" by (simp add: below_ok_def)
  with Suc.prems show ?case by (auto intro!: layer_node_walks)
qed

text \<open>The base 32 text of a digest has 52 characters; the depth bound leaves room for twice that.\<close>

definition base32_law :: "atp_libs \<Rightarrow> bool" where
  "base32_law L \<longleftrightarrow> (\<forall>d. length (base32_rfc4648 L (digest_bytes d)) \<le> MAX_MST_DEPTH)"

lemma leading_zeros_le: "base32_law L \<Longrightarrow> leading_zeros_on_hash L key \<le> MAX_MST_DEPTH"
proof -
  assume "base32_law L"
  then have "length (base32_rfc4648 L (digest_bytes (sha256 L (as_bytes key)))) \<le> MAX_MST_DEPTH"
    by (simp add: base32_law_def)
  then have "length (takeWhile p (to_ascii_lowercase (base32_rfc4648 L (digest_bytes (sha256 L (as_bytes key))))))
      \<le> MAX_MST_DEPTH" for p
    by (rule order.trans [rotated]) (simp add: length_takeWhile_le [THEN order.trans])
  then show ?thesis unfolding leading_zeros_on_hash_def Let_def
    by (rule order.trans [OF mod_less_eq_dividend])
qed

lemma build_mst_walks:
  assumes mst: "build_mst L es = Inr (root, bs)" and "stored M bs" "list_all (entry_ok M) es"
    and "dagcbor_law L" "base32_law L"
  shows "walk_mst L M root = Inr (map (leaf_of M) es)"
proof (cases "es = []")
  case True
  with mst obtain cbor where "dagcbor_to_vec L (node_ipld \<lparr>node_e = [], node_l = None\<rparr>) = Inr cbor"
    "bs = [(root, cbor)]"
    by (auto simp: build_mst_def rbind_Inr_iff Let_def)
  with assms True show ?thesis
    using walk_node_visits [of 0 M root cbor L "[]" None "[]"]
    by (auto simp: walk_mst_def dagcbor_law_def stored_def visit_node_def visit_def)
next
  case False
  define layer where "layer = Max (set (map (\<lambda>(k, _). leading_zeros_on_hash L k) es))"
  have "layer \<le> MAX_MST_DEPTH"
    unfolding layer_def using False leading_zeros_le [OF assms(5)] by (subst Max_le_iff) auto
  moreover have "build_layer L layer es = Inr (root, bs)"
    using mst False by (simp add: build_mst_def layer_def)
  then have "walks L M root es layer" using assms by (intro build_layer_walks)
  ultimately show ?thesis by (simp add: walk_mst_def walks_def)
qed

section \<open>Block stores\<close>

text \<open>
  What the walk needs of the place where the blocks are: blocks that were added are found, and adding
  blocks keeps those that are there. The blocks of an archive and the block table of the database both
  provide it.
\<close>

locale block_store =
  fixes lookup :: "'s \<Rightarrow> cid \<Rightarrow> bytes option"
    and add :: "blocks \<Rightarrow> 's \<Rightarrow> 's"
    and consistent :: "blocks \<Rightarrow> 's \<Rightarrow> bool"
  assumes add_finds: "consistent bs s \<Longrightarrow> (c, b) \<in> set bs \<Longrightarrow> lookup (add bs s) c = Some b"
    and add_keeps: "consistent bs s \<Longrightarrow> lookup s c = Some b \<Longrightarrow> lookup (add bs s) c = Some b"
begin

lemma stored_added: "consistent bs s \<Longrightarrow> set bs' \<subseteq> set bs \<Longrightarrow> stored (lookup (add bs s)) bs'"
  by (auto simp: stored_def intro: add_finds)

lemma walk_added:
  assumes "build_mst L es = Inr (root, bs')" "set bs' \<subseteq> set bs" "consistent bs s"
    and "list_all (entry_ok (lookup (add bs s))) es" "dagcbor_law L" "base32_law L"
  shows "walk_mst L (lookup (add bs s)) root = Inr (map (leaf_of (lookup (add bs s))) es)"
  using assms by (intro build_mst_walks stored_added)

lemma entry_ok_added:
  "consistent bs s \<Longrightarrow> entry_ok (lookup s) e \<Longrightarrow> entry_ok (lookup (add bs s)) e"
  by (auto simp: entry_ok_def dest: add_keeps)

lemma leaf_of_added:
  "consistent bs s \<Longrightarrow> entry_ok (lookup s) e \<Longrightarrow> leaf_of (lookup (add bs s)) e = leaf_of (lookup s) e"
  by (cases e) (auto simp: entry_ok_def leaf_of_def dest: add_keeps)

end

text \<open>No identifier with two contents.\<close>

definition functional :: "blocks \<Rightarrow> bool" where
  "functional bs \<longleftrightarrow> (\<forall>(c, b) \<in> set bs. \<forall>(c', b') \<in> set bs. c = c' \<longrightarrow> b = b')"

lemma functional_lookup: "functional bs \<Longrightarrow> (c, b) \<in> set bs \<Longrightarrow> blocks_to_map bs c = Some b"
proof -
  assume f: "functional bs" and mem: "(c, b) \<in> set bs"
  then obtain b' where b': "map_of (rev bs) c = Some b'"
    by (metis map_of_eq_None_iff not_None_eq set_rev image_eqI fst_conv)
  then have "(c, b') \<in> set bs" by (metis map_of_SomeD set_rev)
  with f mem have "b' = b" by (auto simp: functional_def)
  with b' show ?thesis by (simp add: blocks_to_map_def)
qed

lemma lookup_present: "c \<in> fst ` set bs \<Longrightarrow> blocks_to_map bs c \<noteq> None"
  by (simp add: blocks_to_map_def map_of_eq_None_iff)

interpretation archive: block_store blocks_to_map "\<lambda>bs s. s @ bs" "\<lambda>bs s. functional (s @ bs)"
proof
  show "functional (s @ bs) \<Longrightarrow> (c, b) \<in> set bs \<Longrightarrow> blocks_to_map (s @ bs) c = Some b" for bs s c b
    by (simp add: functional_lookup)
  show "functional (s @ bs) \<Longrightarrow> blocks_to_map s c = Some b \<Longrightarrow> blocks_to_map (s @ bs) c = Some b" for bs s c b
    by (rule functional_lookup) (auto simp: blocks_to_map_def dest: map_of_SomeD)
qed

section \<open>The properties\<close>

text \<open>
  C3. Search tree round trip: the tree that \<open>build_mst\<close> makes of any list of keys and record CIDs is
  walked by \<open>walk_mst\<close>, within its depth bound and without an error, to exactly those records in
  their order with their contents, given the blocks of the tree and of the records. The keys are
  UTF-8; the DAG-CBOR codec reads back what it wrote; base 32 text of a digest has at most 128
  characters; no CID of the archive has two contents.
\<close>
theorem mst_round_trip:
  assumes "build_mst L es = Inr (root, bs)" "functional (rs @ bs)"
    and "\<And>key c. (key, c) \<in> set es \<Longrightarrow>
      utf8_valid (as_bytes key) \<and> length key < 2 ^ 32 \<and> c \<in> fst ` set (rs @ bs)"
    and "dagcbor_law L" "base32_law L"
  shows "walk_mst L (blocks_to_map (rs @ bs)) root =
    Inr (map (\<lambda>(key, c). \<lparr>leaf_key = key, leaf_cid = c, leaf_bytes = the (blocks_to_map (rs @ bs) c)\<rparr>) es)"
proof -
  have "list_all (entry_ok (blocks_to_map (rs @ bs))) es"
    unfolding list_all_iff entry_ok_def using assms(3) lookup_present by fastforce
  with assms show ?thesis by (simp add: archive.walk_added leaf_of_def [abs_def])
qed

text \<open>Two layers: the key in the middle goes to a subtree of its left neighbour.\<close>

definition demo_record :: "byte \<Rightarrow> cid \<times> bytes" where
  "demo_record n = (cid_new_v1 0x55 \<lparr>mh_code = 0x12, mh_digest = [n]\<rparr>, [n, n])"

definition demo_entries :: "(string \<times> cid) list" where
  "demo_entries = [(''a/b'', fst (demo_record 1)), (''a/c'', fst (demo_record 2)), (''a/d'', fst (demo_record 3))]"

definition demo_cid :: "bytes \<Rightarrow> cid" where
  "demo_cid b = cid_new_v1 0x71 \<lparr>mh_code = 0x12, mh_digest = digest_bytes (demo_sum b)\<rparr>"

definition demo_nodes :: "ipld list" where
  "demo_nodes =
     [node_ipld \<lparr>node_e = [\<lparr>entry_k = as_bytes ''a/c'', entry_p = 0, entry_t = None, entry_v = fst (demo_record 2)\<rparr>],
        node_l = None\<rparr>,
      node_ipld \<lparr>node_e =
         [\<lparr>entry_k = as_bytes ''a/b'', entry_p = 0, entry_t = Some (demo_cid [0]), entry_v = fst (demo_record 1)\<rparr>,
          \<lparr>entry_k = as_bytes ''d'', entry_p = 2, entry_t = None, entry_v = fst (demo_record 3)\<rparr>],
        node_l = None\<rparr>]"

definition demo_blocks :: blocks where
  "demo_blocks = [(demo_cid [0], [0]), (demo_cid [1], [1])]"

lemma demo_layers:
  "leading_zeros_on_hash (table_libs tbl) ''a/b'' = 1"
  "leading_zeros_on_hash (table_libs tbl) ''a/c'' = 0"
  "leading_zeros_on_hash (table_libs tbl) ''a/d'' = 1"
  by (simp_all add: leading_zeros_on_hash_def demo_libs_def demo_sum_def as_bytes_def byte_of_char_def
      digest_bytes_def to_ascii_lowercase_def ascii_lower_def is_ascii_upper_def Let_def upt_rec char_of_def bit_Suc_0_iff)

lemma demo_cid_from_dagcbor [simp]: "cid_from_dagcbor (table_libs tbl) b = demo_cid b"
  by (simp add: cid_from_dagcbor_eq demo_cid_def cid_new_v1_def)

lemma demo_build:
  "build_mst (table_libs (demo_nodes @ tbl)) demo_entries = Inr (demo_cid [1], demo_blocks)"
proof -
  let ?L = "table_libs (demo_nodes @ tbl)"
  have sub: "build_layer ?L 0 [(''a/c'', fst (demo_record 2))] = Inr (demo_cid [0], [(demo_cid [0], [0])])"
    by (simp add: layer_node_def layer_step_def layer_init_def flush_subtree_def attach_subtree_def
        layer_finish_def demo_layers common_prefix_len_def table_to_vec_def demo_nodes_def
        Let_def)
  have "Max {1, 0, 1 :: nat} = Suc 0" by simp
  then show ?thesis
    by (simp add: build_mst_def demo_entries_def demo_layers)
      (simp add: layer_node_def layer_step_def layer_init_def flush_subtree_def attach_subtree_def
        layer_finish_def demo_layers common_prefix_len_def sub table_to_vec_def demo_nodes_def
        node_ipld_def entry_ipld_def as_bytes_def byte_of_char_def Let_def demo_blocks_def del: build_layer.simps)
qed

lemma demo_functional: "functional ([demo_record 1, demo_record 2, demo_record 3] @ demo_blocks)"
  by (simp add: functional_def demo_record_def demo_blocks_def demo_cid_def cid_new_v1_def demo_sum_def
     digest_bytes_def upt_rec)

lemma demo_dagcbor_law: "dagcbor_law (table_libs tbl)"
  using table_codec by (simp add: dagcbor_law_def)

lemma demo_base32_law: "base32_law (table_libs tbl)"
proof -
  have "n mod 2 \<le> 127" for n :: nat by presburger
  then show ?thesis by (simp add: base32_law_def demo_libs_def MAX_MST_DEPTH_def)
qed

theorem mst_round_trip_witness:
  "walk_mst (table_libs demo_nodes) (blocks_to_map ([demo_record 1, demo_record 2, demo_record 3] @ demo_blocks)) (demo_cid [1])
   = Inr (map (\<lambda>(key, c). \<lparr>leaf_key = key, leaf_cid = c, leaf_bytes =
       the (blocks_to_map ([demo_record 1, demo_record 2, demo_record 3] @ demo_blocks) c)\<rparr>) demo_entries)"
proof (rule mst_round_trip [OF demo_build [of "[]", simplified] demo_functional _ demo_dagcbor_law demo_base32_law])
  show "utf8_valid (as_bytes key) \<and> length key < 2 ^ 32
      \<and> c \<in> fst ` set ([demo_record 1, demo_record 2, demo_record 3] @ demo_blocks)"
    if "(key, c) \<in> set demo_entries" for key c
    using that by (auto simp: demo_entries_def as_bytes_def byte_of_char_def)
qed

lemma split_record_key_slash: "CHR ''/'' \<notin> set col \<Longrightarrow> split_record_key (col @ CHR ''/'' # rk) = Inr (col, rk)"
  by (simp add: split_record_key_def split_once_Some_iff)

lemma decode_archive:
  assumes car: "encode_car L commit bs = Inr car" "length car \<le> MAX_CAR_SIZE" "list_all (block_ok L) bs"
    and header: "\<And>h. dagcbor_to_vec L (car_header commit) = Inr h \<Longrightarrow> length h \<le> MAX_HEADER_SIZE"
    and mst: "build_mst L (map (\<lambda>(col, rk, c). (col @ ''/'' @ rk, c)) rows) = Inr (root, mst_bs)" "set mst_bs \<subseteq> set bs"
    and commit: "(commit, cbor) \<in> set bs" "dagcbor_from_slice L cbor = Inr (IMap m)" "map_of m ''data'' = Some (ILink root)"
    and rows: "\<And>col rk c. (col, rk, c) \<in> set rows \<Longrightarrow> CHR ''/'' \<notin> set col \<and> utf8_valid (as_bytes (col @ ''/'' @ rk))
      \<and> length (col @ ''/'' @ rk) < 2 ^ 32 \<and> c \<in> fst ` set bs"
    and laws: "functional bs" "dagcbor_law L" "base32_law L"
  shows "decode_repo_records L car = Inr (map (\<lambda>(col, rk, c).
    \<lparr>dr_collection = col, dr_rkey = rk, dr_cid = c, dr_bytes = the (blocks_to_map bs c)\<rparr>) rows)"
proof -
  let ?es = "map (\<lambda>(col, rk, c). (col @ ''/'' @ rk, c)) rows"
  have d: "decode_car L car = Inr \<lparr>roots = [commit], car_blocks = bs\<rparr>"
    using car header laws(2) by (intro decode_encoded_car) (auto simp: dagcbor_law_def)
  have "list_all (entry_ok (blocks_to_map ([] @ bs))) ?es"
    unfolding list_all_iff entry_ok_def using rows lookup_present by fastforce
  then have w: "walk_mst L (blocks_to_map bs) root = Inr (map (leaf_of (blocks_to_map bs)) ?es)"
    using archive.walk_added [OF mst(1,2), of "[]"] laws by simp
  have "rmap (\<lambda>leaf. rbind (split_record_key (leaf_key leaf)) (\<lambda>(collection, rkey).
        Inr \<lparr>dr_collection = collection, dr_rkey = rkey, dr_cid = leaf_cid leaf, dr_bytes = leaf_bytes leaf\<rparr>))
      (map (leaf_of (blocks_to_map bs)) ?es)
    = Inr (map (\<lambda>(col, rk, c).
        \<lparr>dr_collection = col, dr_rkey = rk, dr_cid = c, dr_bytes = the (blocks_to_map bs c)\<rparr>) rows)"
    using rows
  proof (induction rows)
    case (Cons row rows)
    obtain col rk c where row: "row = (col, rk, c)" by (cases row)
    have "CHR ''/'' \<notin> set col" using Cons.prems [of col rk c] by (simp add: row)
    then show ?case using Cons.IH [OF Cons.prems [OF list.set_intros(2)]]
      by (simp add: row leaf_of_def split_record_key_slash)
  qed simp
  with d w commit functional_lookup [OF laws(1) commit(1)] show ?thesis
    by (simp add: decode_repo_records_def ipld_map_def Let_def)
qed

text \<open>
  C4. Repository archive round trip: an archive written by \<open>encode_car\<close> that holds a commit, the tree
  that \<open>build_mst\<close> made for a list of records, and the records, is read back by \<open>decode_repo_records\<close>
  as exactly those records, with collection, key, CID and contents, in the order given. Collections
  have no slash and the libraries behave as documented; the archive respects the decoder's limits and
  has no CID with two contents.
\<close>
theorem archive_round_trip:
  assumes "encode_car L commit bs = Inr car" "length car \<le> MAX_CAR_SIZE" "list_all (block_ok L) bs"
    and "\<And>h. dagcbor_to_vec L (car_header commit) = Inr h \<Longrightarrow> length h \<le> MAX_HEADER_SIZE"
    and "build_mst L (map (\<lambda>(col, rk, c). (col @ ''/'' @ rk, c)) rows) = Inr (root, mst_bs)" "set mst_bs \<subseteq> set bs"
    and "(commit, cbor) \<in> set bs" "dagcbor_from_slice L cbor = Inr (IMap m)" "map_of m ''data'' = Some (ILink root)"
    and "\<And>col rk c. (col, rk, c) \<in> set rows \<Longrightarrow> CHR ''/'' \<notin> set col \<and> utf8_valid (as_bytes (col @ ''/'' @ rk))
      \<and> length (col @ ''/'' @ rk) < 2 ^ 32 \<and> c \<in> fst ` set bs"
    and "functional bs" "dagcbor_law L" "base32_law L"
  shows "decode_repo_records L car = Inr (map (\<lambda>(col, rk, c).
    \<lparr>dr_collection = col, dr_rkey = rk, dr_cid = c, dr_bytes = the (blocks_to_map bs c)\<rparr>) rows)"
  using assms by (rule decode_archive)

text \<open>The demonstration tree in an archive with a commit; the codec's table has the header and the commit too.\<close>

definition demo_rows :: "(string \<times> string \<times> cid) list" where
  "demo_rows = [(''a'', ''b'', fst (demo_record 1)), (''a'', ''c'', fst (demo_record 2)), (''a'', ''d'', fst (demo_record 3))]"

definition demo_commit_fields :: "(string \<times> ipld) list" where
  "demo_commit_fields = [(''data'', ILink (demo_cid [1])), (''version'', IInteger 3)]"

definition demo_table :: "ipld list" where
  "demo_table = demo_nodes @ [IMap demo_commit_fields, car_header (demo_cid [2])]"

definition demo_archive :: blocks where
  "demo_archive = demo_blocks @ [demo_record 1, demo_record 2, demo_record 3, (demo_cid [2], [2])]"

lemma demo_archive_blocks: "list_all (block_ok (table_libs tbl)) demo_archive"
proof -
  have "cid_bytes_law (table_libs tbl) (demo_cid b)" for b
    using demo_cid_read [of "digest_bytes (demo_sum b)" 0x71] by (simp add: cid_bytes_law_def demo_cid_def)
      (simp add: demo_libs_def cid_new_v1_def)
  moreover have "cid_bytes_law (table_libs tbl) (fst (demo_record n))" for n
    using demo_cid_read [of "[n]" 0x55] by (simp add: cid_bytes_law_def demo_record_def)
      (simp add: demo_libs_def cid_new_v1_def)
  ultimately show ?thesis
    by (simp add: demo_archive_def demo_blocks_def block_ok_def block_entry_def demo_record_def MAX_BLOCK_SIZE_def)
      (simp add: demo_libs_def demo_cid_def cid_new_v1_def)
qed

lemma demo_archive_car:
  "\<exists>car. encode_car (table_libs demo_table) (demo_cid [2]) demo_archive = Inr car \<and> length car \<le> MAX_CAR_SIZE"
proof -
  have "table_to_vec demo_table (car_header (demo_cid [2])) = Inr [3]"
    by (simp add: table_to_vec_def demo_table_def demo_nodes_def demo_commit_fields_def car_header_def node_ipld_def)
  then show ?thesis
    by (simp add: encode_car_eq demo_archive_def demo_blocks_def block_entry_def demo_record_def MAX_CAR_SIZE_def)
      (simp add: demo_libs_def demo_cid_def cid_new_v1_def encode_uvarint_step)
qed

lemma demo_archive_functional: "functional demo_archive"
  by (simp add: functional_def demo_archive_def demo_record_def demo_blocks_def demo_cid_def cid_new_v1_def
      demo_sum_def digest_bytes_def upt_rec)

theorem archive_round_trip_witness:
  "\<exists>car. encode_car (table_libs demo_table) (demo_cid [2]) demo_archive = Inr car
     \<and> decode_repo_records (table_libs demo_table) car = Inr (map (\<lambda>(col, rk, c).
         \<lparr>dr_collection = col, dr_rkey = rk, dr_cid = c, dr_bytes = the (blocks_to_map demo_archive c)\<rparr>) demo_rows)"
proof -
  obtain car where car: "encode_car (table_libs demo_table) (demo_cid [2]) demo_archive = Inr car"
    "length car \<le> MAX_CAR_SIZE" using demo_archive_car by blast
  have mst: "build_mst (table_libs demo_table) (map (\<lambda>(col, rk, c). (col @ ''/'' @ rk, c)) demo_rows)
      = Inr (demo_cid [1], demo_blocks)"
    using demo_build by (simp add: demo_table_def demo_rows_def demo_entries_def)
  have "decode_repo_records (table_libs demo_table) car = Inr (map (\<lambda>(col, rk, c).
         \<lparr>dr_collection = col, dr_rkey = rk, dr_cid = c, dr_bytes = the (blocks_to_map demo_archive c)\<rparr>) demo_rows)"
  proof (rule archive_round_trip [OF car demo_archive_blocks _ mst])
    show "length h \<le> MAX_HEADER_SIZE" if "dagcbor_to_vec (table_libs demo_table) (car_header (demo_cid [2])) = Inr h" for h
      using that table_codec [of demo_table "car_header (demo_cid [2])" h] by (simp add: MAX_HEADER_SIZE_def)
    show "dagcbor_from_slice (table_libs demo_table) [2] = Inr (IMap demo_commit_fields)"
      by (simp add: table_from_slice_def demo_table_def demo_nodes_def)
    show "CHR ''/'' \<notin> set col \<and> utf8_valid (as_bytes (col @ ''/'' @ rk))
        \<and> length (col @ ''/'' @ rk) < 2 ^ 32 \<and> c \<in> fst ` set demo_archive"
      if "(col, rk, c) \<in> set demo_rows" for col rk c
      using that by (auto simp: demo_rows_def demo_archive_def as_bytes_def byte_of_char_def)
  qed (simp_all add: demo_archive_def demo_commit_fields_def demo_archive_functional [unfolded demo_archive_def]
      demo_dagcbor_law demo_base32_law subset_insertI2)
  with car show ?thesis by blast
qed

section \<open>Failures of the builder\<close>

definition codec_error :: "atp_libs \<Rightarrow> repo_error \<Rightarrow> bool" where
  "codec_error L e \<longleftrightarrow> (\<exists>v m. dagcbor_to_vec L v = Inl m \<and> e = Cbor m)"

text \<open>On layer 0 no key goes to the subtree buffer, so the builder below is not called.\<close>

definition below_fails_by_codec ::
  "atp_libs \<Rightarrow> nat \<Rightarrow> ((string \<times> cid) list \<Rightarrow> repo_error + cid \<times> blocks) \<Rightarrow> layer_state \<Rightarrow> bool" where
  "below_fails_by_codec L layer below st \<longleftrightarrow>
     (layer = 0 \<and> ls_subtree st = []) \<or> (\<forall>buf e. below buf = Inl e \<longrightarrow> codec_error L e)"

lemma layer_step_fails:
  assumes "below_fails_by_codec L layer below st" "layer_step L below layer entry st = Inl e"
  shows "codec_error L e"
  using assms by (cases entry)
    (auto simp: layer_step_def flush_subtree_def below_fails_by_codec_def rbind_Inl_iff Let_def split: if_splits)

lemma layer_step_subtree:
  assumes "below_fails_by_codec L layer below st" "layer_step L below layer entry st = Inr st'"
  shows "below_fails_by_codec L layer below st'"
  using assms by (cases entry)
    (auto simp: layer_step_def flush_subtree_def below_fails_by_codec_def rbind_Inr_iff Let_def attach_subtree_def
      split: if_splits)

lemma rfold_layer_fails:
  "below_fails_by_codec L layer below st \<Longrightarrow>
   (case rfold (layer_step L below layer) es st of
      Inl e \<Rightarrow> codec_error L e | Inr st' \<Rightarrow> below_fails_by_codec L layer below st')"
proof (induction es arbitrary: st)
  case (Cons e es)
  then show ?case
    by (cases "layer_step L below layer e st") (auto dest: layer_step_fails layer_step_subtree)
qed simp

lemma map_err_Inl_iff: "map_err f r = Inl e \<longleftrightarrow> (\<exists>x. r = Inl x \<and> e = f x)"
  by (cases r) auto

lemma layer_node_fails:
  assumes "below_fails_by_codec L layer below layer_init" "layer_node L below layer es = Inl e"
  shows "codec_error L e"
proof (cases "rfold (layer_step L below layer) es layer_init")
  case (Inl e')
  with assms(2) rfold_layer_fails [OF assms(1), of es] show ?thesis by (simp add: layer_node_def)
next
  case (Inr st)
  then have st: "below_fails_by_codec L layer below st" using rfold_layer_fails [OF assms(1), of es] by simp
  from assms(2) Inr consider "layer_finish below st = Inl e"
    | v where "map_err Cbor (dagcbor_to_vec L v) = Inl e"
    by (auto simp: layer_node_def rbind_Inl_iff Let_def)
  then show ?thesis
  proof cases
    case 1
    with st show ?thesis
      by (auto simp: layer_finish_def below_fails_by_codec_def rbind_Inl_iff split: if_splits)
  next
    case 2
    then show ?thesis by (auto simp: codec_error_def map_err_Inl_iff)
  qed
qed

lemma build_layer_fails: "build_layer L layer es = Inl e \<Longrightarrow> codec_error L e"
proof (induction layer arbitrary: es e)
  case 0
  then show ?case
    by (auto intro!: layer_node_fails [of L 0] simp: below_fails_by_codec_def layer_init_def)
next
  case (Suc layer)
  then have "below_fails_by_codec L (Suc layer) (build_layer L layer) layer_init"
    by (simp add: below_fails_by_codec_def)
  from layer_node_fails [OF this] Suc.prems show ?case by simp
qed

text \<open>
  The builder does not fail by itself: when \<open>build_mst\<close> returns an error, the DAG-CBOR codec refused
  to encode a node. In particular the recursion over the layers always ends, and never at the point
  where layer 0 would have to descend further.
\<close>
theorem build_mst_fails_only_by_codec:
  assumes "build_mst L es = Inl e"
  shows "\<exists>v m. dagcbor_to_vec L v = Inl m \<and> e = Cbor m"
proof (cases "es = []")
  case True
  with assms show ?thesis
    by (auto simp: build_mst_def rbind_Inl_iff map_err_Inl_iff Let_def)
next
  case False
  with assms have "codec_error L e" by (auto simp: build_mst_def intro: build_layer_fails)
  then show ?thesis by (simp add: codec_error_def)
qed

lemma demo_build_fails: "build_mst demo_libs [] = Inl (Cbor ''unsupported value'')"
  by (simp add: build_mst_def demo_libs_def)

theorem build_mst_fails_only_by_codec_witness:
  "\<exists>v m. dagcbor_to_vec demo_libs v = Inl m \<and> Cbor ''unsupported value'' = Cbor m"
  by (rule build_mst_fails_only_by_codec [OF demo_build_fails])

end
