(* ===== verification/Commit_Inv.thy ===== *)
theory Commit_Inv
  imports Commit Mst_Round_Trip
begin

text \<open>
  The repository of an actor stays in agreement with its tables: after every committed write, walking
  the stored blocks from the stored root lists exactly the live posts and records of the tables.
\<close>

section \<open>Blocks are stored under their own identifiers\<close>

definition block_addressed :: "atp_libs \<Rightarrow> cid \<times> bytes \<Rightarrow> bool" where
  "block_addressed L = (\<lambda>(c, b). c = cid_from_dagcbor L b)"

lemma layer_step_addressed:
  assumes "layer_step L below layer e st = Inr st'" "list_all (block_addressed L) (ls_blocks st)"
    and "\<And>buf c bs. below buf = Inr (c, bs) \<Longrightarrow> list_all (block_addressed L) bs"
  shows "list_all (block_addressed L) (ls_blocks st')"
  using assms by (cases e) (auto simp: layer_step_def flush_subtree_def attach_subtree_def Let_def
      rbind_Inr_iff split: if_splits)

lemma layer_node_addressed:
  assumes "layer_node L below layer es = Inr (c, bs)"
    and below: "\<And>buf c bs. below buf = Inr (c, bs) \<Longrightarrow> list_all (block_addressed L) bs"
  shows "list_all (block_addressed L) bs"
proof -
  from assms(1) obtain st st' cbor where fold: "rfold (layer_step L below layer) es layer_init = Inr st"
    and fin: "layer_finish below st = Inr st'" and bs: "bs = ls_blocks st' @ [(cid_from_dagcbor L cbor, cbor)]"
    by (auto simp: layer_node_def rbind_Inr_iff Let_def)
  have "list_all (block_addressed L) (ls_blocks st)"
  proof (rule rfold_invariant [where P = "\<lambda>st. list_all (block_addressed L) (ls_blocks st)", OF _ _ fold])
    show "list_all (block_addressed L) (ls_blocks layer_init)" by (simp add: layer_init_def)
  qed (use layer_step_addressed below in blast)
  with fin below have "list_all (block_addressed L) (ls_blocks st')"
    by (auto simp: layer_finish_def attach_subtree_def rbind_Inr_iff split: if_splits)
  with bs show ?thesis by (simp add: block_addressed_def)
qed

lemma build_mst_addressed: "build_mst L es = Inr (c, bs) \<Longrightarrow> list_all (block_addressed L) bs"
proof -
  have layer: "build_layer L n es = Inr (c, bs) \<Longrightarrow> list_all (block_addressed L) bs" for n es c bs
  proof (induction n arbitrary: es c bs)
    case 0
    then show ?case using layer_node_addressed [of L _ 0 es c bs] by auto
  next
    case (Suc n)
    then show ?case using layer_node_addressed [of L "build_layer L n" "Suc n" es c bs] by auto
  qed
  show "build_mst L es = Inr (c, bs) \<Longrightarrow> list_all (block_addressed L) bs"
    by (auto simp: build_mst_def block_addressed_def rbind_Inr_iff Let_def split: if_splits dest: layer)
qed

lemma create_commit_addressed:
  "create_commit L S did new_rev root prev key = Inr (c, cbor) \<Longrightarrow> c = cid_from_dagcbor L cbor"
  by (auto simp: create_commit_def rbind_Inr_iff Let_def)

section \<open>The block table\<close>

text \<open>The text under which the bytes of a block are stored.\<close>

definition address :: "atp_libs \<Rightarrow> bytes \<Rightarrow> string" where
  "address L b = cid_display L (cid_from_dagcbor L b)"

text \<open>The lookup of a block by its identifier.\<close>

definition stored_block :: "atp_libs \<Rightarrow> repo_db \<Rightarrow> cid \<Rightarrow> bytes option" where
  "stored_block L db c = map_of (atp_blocks db) (cid_display L c)"

definition blocks_ok :: "atp_libs \<Rightarrow> (string \<times> bytes) list \<Rightarrow> bool" where
  "blocks_ok L bs \<longleftrightarrow> (\<forall>(s, b) \<in> set bs. s = address L b)"

lemma insert_block_keeps: "map_of bs s = Some b \<Longrightarrow> map_of (insert_block L e bs) s = Some b"
  by (cases e) (auto simp: insert_block_def map_add_Some_iff)

lemma fold_insert_block_keeps: "map_of bs s = Some b \<Longrightarrow> map_of (fold (insert_block L) es bs) s = Some b"
  by (induction es arbitrary: bs) (auto simp: insert_block_keeps)

lemma fold_insert_block_ok:
  "blocks_ok L bs \<Longrightarrow> list_all (block_addressed L) es \<Longrightarrow> blocks_ok L (fold (insert_block L) es bs)"
proof (induction es arbitrary: bs)
  case (Cons e es)
  then have "blocks_ok L (insert_block L e bs)"
    by (cases e) (auto simp: insert_block_def blocks_ok_def block_addressed_def address_def cid_to_string_def)
  with Cons show ?case by simp
qed simp

lemma fold_insert_block_subset:
  "snd ` set (fold (insert_block L) es bs) \<subseteq> snd ` set bs \<union> snd ` set es"
proof (induction es arbitrary: bs)
  case (Cons e es)
  have "snd ` set (insert_block L e bs) \<subseteq> snd ` set bs \<union> {snd e}"
    by (cases e) (auto simp: insert_block_def)
  with Cons [of "insert_block L e bs"] show ?case by auto
qed simp

text \<open>
  With no two different contents at one address, an inserted block is found with its own bytes, even
  when a row was there before.
\<close>

lemma fold_insert_block_finds:
  assumes "blocks_ok L bs" "list_all (block_addressed L) es" "(c, b) \<in> set es"
    and "inj_on (address L) (snd ` set bs \<union> snd ` set es)"
  shows "map_of (fold (insert_block L) es bs) (cid_display L c) = Some b"
  using assms
proof (induction es arbitrary: bs)
  case (Cons e es)
  obtain c' b' where e: "e = (c', b')" by (cases e)
  have ok: "blocks_ok L (insert_block L e bs)" "list_all (block_addressed L) es"
    using fold_insert_block_ok [of L bs "[e]"] Cons.prems by simp_all
  have sub: "snd ` set (insert_block L e bs) \<subseteq> snd ` set bs \<union> {snd e}"
    by (cases e) (auto simp: insert_block_def)
  show ?case
  proof (cases "(c, b) = e")
    case True
    then have addr: "cid_display L c = address L b"
      using Cons.prems(2) by (auto simp: block_addressed_def address_def e)
    have "map_of (insert_block L (c, b) bs) (cid_display L c) = Some b"
    proof (cases "cid_display L c \<in> fst ` set bs")
      case True
      then obtain b'' where b'': "map_of bs (cid_display L c) = Some b''"
        by (metis map_of_eq_None_iff not_None_eq)
      then have mem: "(cid_display L c, b'') \<in> set bs" by (rule map_of_SomeD)
      then have "address L b'' = address L b" using Cons.prems(1) addr by (auto simp: blocks_ok_def)
      moreover have "b'' \<in> snd ` set bs" "b \<in> snd ` set (e # es)" using mem \<open>(c, b) = e\<close> by force+
      ultimately have "b'' = b" by (intro inj_onD [OF Cons.prems(4)]) auto
      with b'' True show ?thesis by (simp add: insert_block_def cid_to_string_def)
    next
      case False
      then show ?thesis
        by (simp add: insert_block_def cid_to_string_def map_add_Some_iff map_of_eq_None_iff)
    qed
    with True show ?thesis by (simp add: fold_insert_block_keeps)
  next
    case False
    then have "(c, b) \<in> set es" using Cons.prems(3) by simp
    moreover have "inj_on (address L) (snd ` set (insert_block L e bs) \<union> snd ` set es)"
      by (rule inj_on_subset [OF Cons.prems(4)]) (use sub in auto)
    ultimately show ?thesis using Cons.IH [OF ok] by simp
  qed
qed simp

definition db_consistent :: "atp_libs \<Rightarrow> blocks \<Rightarrow> repo_db \<Rightarrow> bool" where
  "db_consistent L bs db \<longleftrightarrow> blocks_ok L (atp_blocks db) \<and> list_all (block_addressed L) bs
     \<and> inj_on (address L) (snd ` set (atp_blocks db) \<union> snd ` set bs)"

interpretation table: block_store "stored_block L" "insert_blocks L" "db_consistent L" for L
proof
  show "db_consistent L bs db \<Longrightarrow> (c, b) \<in> set bs \<Longrightarrow> stored_block L (insert_blocks L bs db) c = Some b" for bs db c b
    by (simp add: db_consistent_def stored_block_def insert_blocks_def fold_insert_block_finds)
  show "db_consistent L bs db \<Longrightarrow> stored_block L db c = Some b \<Longrightarrow> stored_block L (insert_blocks L bs db) c = Some b"
    for bs db c b
    by (simp add: stored_block_def insert_blocks_def fold_insert_block_keeps)
qed

section \<open>Entries\<close>

lemma record_key_inject:
  "CHR ''/'' \<notin> set col \<Longrightarrow> CHR ''/'' \<notin> set col' \<Longrightarrow> record_key col rk = record_key col' rk' \<longleftrightarrow> col = col' \<and> rk = rk'"
  unfolding record_key_def
  by (metis append_Cons append_Nil option.inject prod.inject split_once_Some_iff)

lemma post_collection_slash [simp]: "CHR ''/'' \<notin> set POST_COLLECTION"
  by (simp add: POST_COLLECTION_def)

definition live_post :: "post_row \<Rightarrow> bool" where
  "live_post p \<longleftrightarrow> \<not> p_deleted p \<and> p_at_rkey p \<noteq> None \<and> p_at_cid p \<noteq> None"

lemma post_entries_live:
  "post_entries db = map (\<lambda>p. (record_key POST_COLLECTION (the (p_at_rkey p)), the (p_at_cid p)))
     (filter live_post (db_posts db))"
proof -
  have "concat (map (\<lambda>p. case (p_at_rkey p, p_at_cid p) of
      (Some rk, Some c) \<Rightarrow> (if p_deleted p then [] else [(record_key POST_COLLECTION rk, c)]) | _ \<Rightarrow> []) ps)
    = map (\<lambda>p. (record_key POST_COLLECTION (the (p_at_rkey p)), the (p_at_cid p))) (filter live_post ps)" for ps
    by (induction ps) (auto simp: live_post_def split: option.split)
  then show ?thesis by (simp add: post_entries_def)
qed

text \<open>The rows that become entries, with the CID as stored.\<close>

definition table_entries :: "repo_db \<Rightarrow> (string \<times> string) list" where
  "table_entries db = post_entries db @ record_entries db"

definition rows_ok :: "repo_db \<Rightarrow> bool" where
  "rows_ok db \<longleftrightarrow>
     distinct (map (\<lambda>r. (r_collection r, r_rkey r)) (atp_records db)) \<and>
     (\<forall>r \<in> set (atp_records db). CHR ''/'' \<notin> set (r_collection r) \<and> r_collection r \<noteq> POST_COLLECTION) \<and>
     distinct (map p_id (db_posts db)) \<and>
     distinct (map (\<lambda>p. the (p_at_rkey p)) (filter live_post (db_posts db))) \<and>
     (\<forall>p \<in> set (db_posts db). live_post p \<longrightarrow>
        (\<exists>did. at_did db = Some did \<and> p_at_uri p = Some (post_at_uri did (the (p_at_rkey p)))))"

lemma distinct_table_entries: "rows_ok db \<Longrightarrow> distinct (map fst (table_entries db))"
proof -
  assume ok: "rows_ok db"
  have posts: "distinct (map fst (post_entries db))"
  proof -
    have "map fst (post_entries db)
        = map (record_key POST_COLLECTION) (map (\<lambda>p. the (p_at_rkey p)) (filter live_post (db_posts db)))"
      by (simp add: post_entries_live comp_def)
    moreover have "distinct (map (record_key POST_COLLECTION) ys) \<longleftrightarrow> distinct ys" for ys
      by (auto simp: distinct_map inj_on_def record_key_inject)
    ultimately show ?thesis using ok by (simp only: rows_ok_def)
  qed
  have records: "distinct (map fst (record_entries db))"
  proof -
    have "map fst (record_entries db)
        = map (\<lambda>(c, rk). record_key c rk) (map (\<lambda>r. (r_collection r, r_rkey r)) (atp_records db))"
      by (simp add: record_entries_def comp_def)
    moreover have "inj_on (\<lambda>(c, rk). record_key c rk) (set (map (\<lambda>r. (r_collection r, r_rkey r)) (atp_records db)))"
      using ok by (auto simp: inj_on_def rows_ok_def record_key_inject)
    ultimately show ?thesis using ok by (simp only: distinct_map) (simp add: rows_ok_def distinct_map)
  qed
  have "set (map fst (post_entries db)) \<inter> set (map fst (record_entries db)) = {}"
    using ok by (auto simp: post_entries_live record_entries_def rows_ok_def record_key_inject)
  with posts records show ?thesis by (simp add: table_entries_def)
qed

definition parsed_entry :: "atp_libs \<Rightarrow> string \<times> string \<Rightarrow> string \<times> cid" where
  "parsed_entry L = (\<lambda>(k, s). (k, projr (cid_parse L s)))"

lemma load_atp_entries_Inr_iff:
  "load_atp_entries L db = Inr es \<longleftrightarrow>
     es = map (parsed_entry L) (table_entries db) \<and> (\<forall>(k, s) \<in> set (table_entries db). \<exists>c. cid_parse L s = Inr c)"
proof -
  have "rmap (\<lambda>(k, s). rbind (cid_from_str L s) (\<lambda>c. Inr (k, c))) xs = Inr es \<longleftrightarrow>
      es = map (parsed_entry L) xs \<and> (\<forall>(k, s) \<in> set xs. \<exists>c. cid_parse L s = Inr c)" for xs es
  proof (induction xs arbitrary: es)
    case (Cons x xs)
    obtain k s where x: "x = (k, s)" by (cases x)
    show ?case
      by (cases "cid_parse L s") (auto simp: x rbind_Inr_iff cid_from_str_def parsed_entry_def
            Cons.IH [unfolded cid_from_str_def parsed_entry_def])
  qed auto
  then show ?thesis by (simp add: load_atp_entries_def table_entries_def)
qed

lemma fst_parsed_entry [simp]: "fst (parsed_entry L e) = fst e"
  by (cases e) (simp add: parsed_entry_def)

section \<open>The tables after a write\<close>

definition write_ok :: "atp_libs \<Rightarrow> repo_db \<Rightarrow> repo_write \<Rightarrow> int option \<Rightarrow> bool" where
  "write_ok L db write post_id \<longleftrightarrow>
     (case write of
        Put r \<Rightarrow>
          cr_cid r = cid_from_dagcbor L (cr_cbor r)
          \<and> utf8_valid (as_bytes (record_key (cr_collection r) (cr_rkey r)))
          \<and> length (record_key (cr_collection r) (cr_rkey r)) < 2 ^ 32
          \<and> (if cr_collection r = POST_COLLECTION
             then \<exists>p \<in> set (db_posts db). post_id = Some (p_id p) \<and> \<not> p_deleted p
               \<and> (p_at_rkey p = None \<or> p_at_rkey p = Some (cr_rkey r))
             else CHR ''/'' \<notin> set (cr_collection r) \<and> post_id = None)
      | Delete col rk \<Rightarrow>
          (if col = POST_COLLECTION
           then \<forall>p \<in> set (db_posts db). live_post p \<longrightarrow> p_at_rkey p \<noteq> Some rk
           else CHR ''/'' \<notin> set col))"

definition write_key :: "repo_write \<Rightarrow> string" where
  "write_key write = record_key (write_collection write) (write_rkey write)"

definition written_entries :: "atp_libs \<Rightarrow> repo_write \<Rightarrow> (string \<times> string) set" where
  "written_entries L write = (case write of
     Put r \<Rightarrow> {(write_key write, cid_to_string L (cr_cid r))} | Delete col rk \<Rightarrow> {})"

lemma keys_upsert:
  "(\<lambda>r. (r_collection r, r_rkey r)) ` set (upsert_record col rk c rs)
     = insert (col, rk) ((\<lambda>r. (r_collection r, r_rkey r)) ` set rs)"
  by (induction rs) auto

lemma distinct_upsert:
  "distinct (map (\<lambda>r. (r_collection r, r_rkey r)) rs) \<Longrightarrow>
   distinct (map (\<lambda>r. (r_collection r, r_rkey r)) (upsert_record col rk c rs))"
proof (induction rs)
  case (Cons r rs)
  then show ?case using keys_upsert [of col rk c rs] by (auto simp: image_iff)
qed simp

lemma set_upsert:
  "distinct (map (\<lambda>r. (r_collection r, r_rkey r)) rs) \<Longrightarrow>
   set (upsert_record col rk c rs)
     = {r \<in> set rs. (r_collection r, r_rkey r) \<noteq> (col, rk)} \<union> {\<lparr>r_collection = col, r_rkey = rk, r_cid = c\<rparr>}"
proof (induction rs)
  case (Cons r rs)
  show ?case
  proof (cases "r_collection r = col \<and> r_rkey r = rk")
    case True
    then have "r\<lparr>r_cid := c\<rparr> = \<lparr>r_collection = col, r_rkey = rk, r_cid = c\<rparr>" by (cases r) simp
    moreover have "{r' \<in> set (r # rs). (r_collection r', r_rkey r') \<noteq> (col, rk)} = set rs"
      using Cons.prems True by (auto simp: image_iff)
    moreover have "set (upsert_record col rk c (r # rs)) = insert (r\<lparr>r_cid := c\<rparr>) (set rs)"
      using True by simp
    ultimately show ?thesis by (simp only: Un_insert_right Un_empty_right)
  next
    case False
    then show ?thesis using Cons by auto
  qed
qed simp

definition tables_after :: "atp_libs \<Rightarrow> repo_write \<Rightarrow> repo_db \<Rightarrow> repo_db \<Rightarrow> bool" where
  "tables_after L write db db' \<longleftrightarrow> rows_ok db' \<and>
     set (table_entries db') = {e \<in> set (table_entries db). fst e \<noteq> write_key write} \<union> written_entries L write"

lemma table_entries_set:
  "set (table_entries db) =
     (\<lambda>p. (record_key POST_COLLECTION (the (p_at_rkey p)), the (p_at_cid p))) ` {p \<in> set (db_posts db). live_post p}
     \<union> (\<lambda>r. (record_key (r_collection r) (r_rkey r), r_cid r)) ` set (atp_records db)"
  by (simp add: table_entries_def post_entries_live record_entries_def)

lemma tables_after_put_record:
  assumes ok: "rows_ok db" and "CHR ''/'' \<notin> set (cr_collection r)" "cr_collection r \<noteq> POST_COLLECTION"
    and c: "c = cid_to_string L (cr_cid r)"
  shows "tables_after L (Put r) db
    (db\<lparr>atp_records := upsert_record (cr_collection r) (cr_rkey r) c (atp_records db)\<rparr>)"
proof -
  let ?db' = "db\<lparr>atp_records := upsert_record (cr_collection r) (cr_rkey r) c (atp_records db)\<rparr>"
  have d: "distinct (map (\<lambda>r. (r_collection r, r_rkey r)) (atp_records db))" using ok by (simp add: rows_ok_def)
  note set' = set_upsert [OF d, of "cr_collection r" "cr_rkey r" c]
  have rec: "CHR ''/'' \<notin> set (r_collection x)" "r_collection x \<noteq> POST_COLLECTION" if "x \<in> set (atp_records db)" for x
    using ok that by (auto simp: rows_ok_def)
  have "rows_ok ?db'"
    using ok assms(2,3) distinct_upsert [OF d, of "cr_collection r" "cr_rkey r" c]
    unfolding rows_ok_def by (simp add: set')
  moreover have "set (table_entries ?db') = {e \<in> set (table_entries db). fst e \<noteq> write_key (Put r)}
      \<union> {(write_key (Put r), c)}"
  proof -
    have P: "record_key POST_COLLECTION rk \<noteq> write_key (Put r)" for rk
      using assms(2,3) by (auto simp: write_key_def record_key_inject)
    have R: "record_key (r_collection x) (r_rkey x) = write_key (Put r)
        \<longleftrightarrow> r_collection x = cr_collection r \<and> r_rkey x = cr_rkey r" if "x \<in> set (atp_records db)" for x
      using rec(1) [OF that] assms(2) by (simp add: write_key_def record_key_inject)
    let ?f = "\<lambda>x. (record_key (r_collection x) (r_rkey x), r_cid x)"
    have "?f ` set (atp_records ?db') = {e \<in> ?f ` set (atp_records db). fst e \<noteq> write_key (Put r)} \<union> {(write_key (Put r), c)}"
      using R by (auto simp: set' write_key_def image_iff)
    then show ?thesis using P by (auto simp: table_entries_set)
  qed
  ultimately show ?thesis by (simp add: tables_after_def written_entries_def c)
qed

lemma tables_after_delete_record:
  assumes ok: "rows_ok db" and "CHR ''/'' \<notin> set col"
    and "col = POST_COLLECTION \<Longrightarrow> \<forall>p \<in> set (db_posts db). live_post p \<longrightarrow> p_at_rkey p \<noteq> Some rk"
  shows "tables_after L (Delete col rk) db
    (db\<lparr>atp_records := filter (\<lambda>r. \<not> (r_collection r = col \<and> r_rkey r = rk)) (atp_records db)\<rparr>)"
proof -
  let ?db' = "db\<lparr>atp_records := filter (\<lambda>r. \<not> (r_collection r = col \<and> r_rkey r = rk)) (atp_records db)\<rparr>"
  have "rows_ok ?db'" using ok by (auto simp: rows_ok_def distinct_map_filter)
  moreover have "set (table_entries ?db') = {e \<in> set (table_entries db). fst e \<noteq> write_key (Delete col rk)}"
  proof -
    have "record_key POST_COLLECTION (the (p_at_rkey p)) \<noteq> record_key col rk"
      if "p \<in> set (db_posts db)" "live_post p" for p
    proof -
      have "p_at_rkey p = Some (the (p_at_rkey p))" using that(2) by (auto simp: live_post_def)
      with assms(2,3) that show ?thesis by (auto simp: record_key_inject)
    qed
    then show ?thesis
      using ok assms(2) by (auto simp: table_entries_set write_key_def record_key_inject rows_ok_def)
  qed
  ultimately show ?thesis by (simp add: tables_after_def written_entries_def)
qed

lemma live_rkeys_iff:
  "distinct (map p_id ps) \<Longrightarrow>
   distinct (map (\<lambda>p. the (p_at_rkey p)) (filter live_post ps)) \<longleftrightarrow>
     (\<forall>p \<in> set ps. \<forall>q \<in> set ps. live_post p \<longrightarrow> live_post q \<longrightarrow> the (p_at_rkey p) = the (p_at_rkey q) \<longrightarrow> p = q)"
  by (auto simp: distinct_map inj_on_def)

lemma tables_after_put_post:
  assumes ok: "rows_ok db" and did: "at_did db = Some did"
    and upd: "update_post pid (post_at_uri did rk) c rk (db_posts db) = Inr ps"
    and p: "p \<in> set (db_posts db)" "p_id p = pid" "\<not> p_deleted p" "p_at_rkey p = None \<or> p_at_rkey p = Some rk"
    and r: "cr_collection r = POST_COLLECTION" "cr_rkey r = rk" "c = cid_to_string L (cr_cid r)"
  shows "tables_after L (Put r) db (db\<lparr>db_posts := ps\<rparr>)"
proof -
  let ?u = "\<lambda>q. if p_id q = pid then q\<lparr>p_at_uri := Some (post_at_uri did rk), p_at_cid := Some c, p_at_rkey := Some rk\<rparr> else q"
  have ps: "ps = map ?u (db_posts db)"
    and free: "p_at_uri q \<noteq> Some (post_at_uri did rk)" if "q \<in> set (db_posts db)" "p_id q \<noteq> pid" for q
    using upd p that by (auto simp: update_post_def split: if_splits)
  then have ps: "ps = map ?u (db_posts db)"
    using upd by (auto simp: update_post_def split: if_splits)
  have ids: "distinct (map p_id (db_posts db))" using ok by (simp add: rows_ok_def)
  have ids': "distinct (map p_id ps)"
  proof -
    have "map p_id ps = map p_id (db_posts db)" by (simp add: ps)
    with ids show ?thesis by simp
  qed
  have uniq: "q = p" if "q \<in> set (db_posts db)" "p_id q = pid" for q
    using ids p that by (auto simp: distinct_map dest: inj_onD)
  have uri: "p_at_uri q = Some (post_at_uri did (the (p_at_rkey q)))"
    if "q \<in> set (db_posts db)" "live_post q" for q
    using ok did that by (auto simp: rows_ok_def)
  have other: "the (p_at_rkey q) \<noteq> rk" if "q \<in> set (db_posts db)" "live_post q" "p_id q \<noteq> pid" for q
    using uri [OF that(1,2)] free [OF that(1,3)] by auto
  have live: "live_post (?u q) \<longleftrightarrow> p_id q = pid \<or> live_post q" if "q \<in> set (db_posts db)" for q
    using p(3) uniq [OF that] by (auto simp: live_post_def)
  have old: "\<forall>q \<in> set (db_posts db). \<forall>q' \<in> set (db_posts db). live_post q \<longrightarrow> live_post q'
      \<longrightarrow> the (p_at_rkey q) = the (p_at_rkey q') \<longrightarrow> q = q'"
    using ok live_rkeys_iff [OF ids] by (simp add: rows_ok_def)
  have "rows_ok (db\<lparr>db_posts := ps\<rparr>)"
  proof -
    have "?u q = ?u q'" if q: "q \<in> set (db_posts db)" "q' \<in> set (db_posts db)" "live_post (?u q)" "live_post (?u q')"
        "the (p_at_rkey (?u q)) = the (p_at_rkey (?u q'))" for q q'
    proof (cases "p_id q = pid"; cases "p_id q' = pid")
      assume "p_id q = pid" "p_id q' = pid"
      with uniq q show ?thesis by metis
    next
      assume "p_id q = pid" "p_id q' \<noteq> pid"
      with q live other [of q'] show ?thesis by auto
    next
      assume "p_id q \<noteq> pid" "p_id q' = pid"
      with q live other [of q] show ?thesis by auto
    next
      assume "p_id q \<noteq> pid" "p_id q' \<noteq> pid"
      with q live old show ?thesis by auto
    qed
    then have "distinct (map (\<lambda>p. the (p_at_rkey p)) (filter live_post ps))"
      unfolding live_rkeys_iff [OF ids'] by (simp only: ps set_map) blast
    moreover have "\<exists>did. at_did db = Some did \<and> p_at_uri q = Some (post_at_uri did (the (p_at_rkey q)))"
      if "q \<in> set ps" "live_post q" for q
      using that did uri live by (auto simp: ps split: if_splits)
    ultimately show ?thesis using ok ids' by (simp add: rows_ok_def)
  qed
  moreover have "set (table_entries (db\<lparr>db_posts := ps\<rparr>)) = {e \<in> set (table_entries db). fst e \<noteq> write_key (Put r)}
      \<union> {(write_key (Put r), c)}"
  proof -
    let ?g = "\<lambda>q. (record_key POST_COLLECTION (the (p_at_rkey q)), the (p_at_cid q))"
    have key: "write_key (Put r) = record_key POST_COLLECTION rk" by (simp add: write_key_def r)
    have R: "record_key (r_collection x) (r_rkey x) \<noteq> write_key (Put r)" if "x \<in> set (atp_records db)" for x
      using ok that by (auto simp: key record_key_inject rows_ok_def)
    have "?g ` {q \<in> set ps. live_post q}
        = {e \<in> ?g ` {q \<in> set (db_posts db). live_post q}. fst e \<noteq> write_key (Put r)} \<union> {(write_key (Put r), c)}"
      (is "?l = ?r")
    proof
      show "?l \<subseteq> ?r" using live other by (auto simp: ps key record_key_inject)
      show "?r \<subseteq> ?l"
      proof
        fix e assume "e \<in> ?r"
        then consider (old) q where "q \<in> set (db_posts db)" "live_post q" "e = ?g q" "the (p_at_rkey q) \<noteq> rk"
          | (new) "e = (write_key (Put r), c)"
          by (auto simp: key record_key_inject)
        then show "e \<in> ?l"
        proof cases
          case old
          then have "p_id q \<noteq> pid" using uniq p(4) by (auto simp: live_post_def)
          then have "?u q = q" by simp
          with old show ?thesis unfolding ps by (auto intro!: image_eqI [of _ _ q])
        next
          case new
          have "?u p \<in> set ps" "live_post (?u p)" "?g (?u p) = e"
            using p live [of p] by (auto simp: ps new key)
          then show ?thesis by blast
        qed
      qed
    qed
    then show ?thesis using R by (auto simp: table_entries_set)
  qed
  ultimately show ?thesis by (simp add: tables_after_def written_entries_def r(3))
qed

lemma same_tables:
  "db_posts db' = db_posts db \<Longrightarrow> atp_records db' = atp_records db \<Longrightarrow> at_did db' = at_did db \<Longrightarrow>
   rows_ok db' = rows_ok db \<and> table_entries db' = table_entries db"
  by (simp add: rows_ok_def table_entries_def post_entries_def record_entries_def)

lemma same_tables_after:
  assumes "tables_after L write db db1"
    and "db_posts db' = db_posts db1" "atp_records db' = atp_records db1" "at_did db' = at_did db1"
  shows "tables_after L write db db'"
  using assms(1) same_tables [OF assms(2,3,4)] by (simp add: tables_after_def)

lemma reflect_write_tables:
  assumes refl: "reflect_write L did write post_id db = Inr (x, db')"
    and ok: "rows_ok db" "write_ok L db write post_id" and did: "at_did db = Some did"
  shows "tables_after L write db db' \<and> atp_blocks db' = atp_blocks db
    \<and> at_repo_data_cid db' = at_repo_data_cid db \<and> at_did db' = at_did db"
proof (cases "write")
  case (Delete col rk)
  from refl have "db' = db\<lparr>atp_records := filter (\<lambda>r. \<not> (r_collection r = col \<and> r_rkey r = rk)) (atp_records db)\<rparr>"
    by (auto simp: reflect_write_def Delete Let_def)
  moreover have "CHR ''/'' \<notin> set col"
    using ok(2) by (auto simp: write_ok_def Delete split: if_splits)
  ultimately show ?thesis
    using ok tables_after_delete_record [of db col rk L] by (simp add: write_ok_def Delete split: if_splits)
next
  case (Put r)
  show ?thesis
  proof (cases "cr_collection r = POST_COLLECTION")
    case True
    then obtain p where p: "p \<in> set (db_posts db)" "post_id = Some (p_id p)" "\<not> p_deleted p"
      "p_at_rkey p = None \<or> p_at_rkey p = Some (cr_rkey r)"
      using ok(2) by (auto simp: write_ok_def Put)
    from refl obtain ps where ps: "update_post (p_id p) (post_at_uri did (cr_rkey r))
        (cid_to_string L (cr_cid r)) (cr_rkey r) (db_posts db) = Inr ps"
      and db': "db' = db\<lparr>db_posts := ps, post_record_blobs := post_record_blobs db
        @ map (Pair (p_id p)) (sha256_hexes_of_blob_cids L (cr_blob_cids r))\<rparr>"
      by (auto simp: reflect_write_def Put True p(2) rbind_Inr_iff Let_def)
    have "tables_after L (Put r) db (db\<lparr>db_posts := ps\<rparr>)"
      using tables_after_put_post [OF ok(1) did ps p(1) HOL.refl p(3,4) True HOL.refl HOL.refl] .
    then show ?thesis using db' by (auto simp: Put intro: same_tables_after)
  next
    case False
    then have "CHR ''/'' \<notin> set (cr_collection r)" "post_id = None" using ok(2) by (auto simp: write_ok_def Put)
    moreover from this refl False have "db' = db\<lparr>atp_records := upsert_record (cr_collection r) (cr_rkey r)
        (cid_to_string L (cr_cid r)) (atp_records db)\<rparr>"
      by (auto simp: reflect_write_def Put Let_def)
    ultimately show ?thesis
      using tables_after_put_record [OF ok(1) _ False HOL.refl] by (simp add: Put)
  qed
qed

section \<open>The invariant of the repository\<close>

text \<open>The text form of an identifier is read back.\<close>

definition cid_text_law :: "atp_libs \<Rightarrow> bool" where
  "cid_text_law L \<longleftrightarrow> (\<forall>b. cid_parse L (cid_display L (cid_from_dagcbor L b)) = Inr (cid_from_dagcbor L b))"

definition repo_view :: "atp_libs \<Rightarrow> repo_db \<Rightarrow> (string \<times> cid) list \<Rightarrow> bool" where
  "repo_view L db es \<longleftrightarrow> (\<exists>s root. at_repo_data_cid db = Some s \<and> cid_parse L s = Inr root
     \<and> walk_mst L (stored_block L db) root = Inr (map (leaf_of (stored_block L db)) (sort_key fst es)))"

definition repo_inv :: "atp_libs \<Rightarrow> repo_db \<Rightarrow> bool" where
  "repo_inv L db \<longleftrightarrow> blocks_ok L (atp_blocks db) \<and> rows_ok db
     \<and> (\<exists>es. load_atp_entries L db = Inr es \<and> list_all (entry_ok (stored_block L db)) es)"

lemma sort_key_same_set:
  fixes xs ys :: "(string \<times> cid) list"
  assumes "distinct (map fst xs)" "distinct (map fst ys)" "set xs = set ys"
  shows "sort_key fst xs = sort_key fst ys"
proof (rule sort_key_inj_key_eq)
  have "distinct xs" "distinct ys" using assms by (auto simp: distinct_map)
  with assms(3) show "mset xs = mset (sort_key fst ys)" by (simp add: set_eq_iff_mset_eq_distinct)
  show "inj_on fst (set xs)" using assms(1) by (simp add: distinct_map)
  show "sorted (map fst (sort_key fst ys))" by simp
qed

lemma entries_after:
  assumes load: "load_atp_entries L db = Inr es" and after: "tables_after L write db db'"
    and "rows_ok db" and law: "cid_text_law L"
    and put: "\<And>r. write = Put r \<Longrightarrow> cr_cid r = cid_from_dagcbor L (cr_cbor r)"
  shows "\<exists>es'. load_atp_entries L db' = Inr es' \<and> sort_key fst es' = replace_entry write es
    \<and> set es' = {e \<in> set es. fst e \<noteq> write_key write} \<union> (case write of Put r \<Rightarrow> {(write_key write, cr_cid r)} | Delete c rk \<Rightarrow> {})"
proof -
  let ?new = "case write of Put r \<Rightarrow> {(write_key write, cr_cid r)} | Delete c rk \<Rightarrow> {}"
  from load have es: "es = map (parsed_entry L) (table_entries db)"
    and parses: "\<forall>(k, s) \<in> set (table_entries db). \<exists>c. cid_parse L s = Inr c"
    by (simp_all add: load_atp_entries_Inr_iff)
  have tab: "set (table_entries db') = {e \<in> set (table_entries db). fst e \<noteq> write_key write} \<union> written_entries L write"
    and rows: "rows_ok db'" using after by (simp_all add: tables_after_def)
  have new: "parsed_entry L ` written_entries L write = ?new"
    "\<forall>(k, s) \<in> written_entries L write. \<exists>c. cid_parse L s = Inr c"
    using put law by (auto simp: written_entries_def parsed_entry_def cid_to_string_def cid_text_law_def
        split: repo_write.splits)
  let ?es' = "map (parsed_entry L) (table_entries db')"
  have load': "load_atp_entries L db' = Inr ?es'"
    using parses new(2) by (auto simp: load_atp_entries_Inr_iff tab)
  have set': "set ?es' = {e \<in> set es. fst e \<noteq> write_key write} \<union> ?new"
    by (auto simp: tab es new(1) [symmetric] image_Un image_iff)
  have key: "record_key (write_collection write) (write_rkey write) = write_key write"
    by (simp add: write_key_def)
  let ?kept = "filter (\<lambda>(k, _). k \<noteq> write_key write) es
      @ (case write of Put r \<Rightarrow> [(write_key write, cr_cid r)] | Delete c rk \<Rightarrow> [])"
  have "distinct (map fst es)"
    using distinct_table_entries [OF \<open>rows_ok db\<close>] by (simp add: es comp_def)
  then have "distinct (map fst ?kept)"
    by (auto simp: distinct_map_filter split: repo_write.split)
  moreover have "set ?kept = set ?es'"
    unfolding set' by (auto split: repo_write.split)
  moreover have "distinct (map fst ?es')" using distinct_table_entries [OF rows] by (simp add: comp_def)
  ultimately have "sort_key fst ?es' = sort_key fst ?kept" by (intro sort_key_same_set) simp_all
  then have "sort_key fst ?es' = replace_entry write es" by (simp add: replace_entry_def Let_def key)
  with load' set' show ?thesis by blast
qed

text \<open>What the first half of the transaction computed.\<close>

lemma prepare_commit_Inr:
  assumes "prepare_commit L S write new_rev db = Inr pr"
    and put: "\<And>r. write = Put r \<Longrightarrow> cr_cid r = cid_from_dagcbor L (cr_cbor r)"
  shows "\<exists>loaded mst_blocks. load_atp_entries L db = Inr loaded \<and> at_did db = Some (pr_did pr)
    \<and> pr_entries pr = replace_entry write loaded
    \<and> build_mst L (replace_entry write loaded) = Inr (pr_mst_root pr, mst_blocks)
    \<and> set mst_blocks \<subseteq> set (pr_blocks pr) \<and> list_all (block_addressed L) (pr_blocks pr)
    \<and> (\<forall>r. write = Put r \<longrightarrow> (cr_cid r, cr_cbor r) \<in> set (pr_blocks pr))"
proof -
  from assms(1) obtain did pem key loaded root mst_blocks c cbor car where
    did: "at_did db = Some did" and load: "load_atp_entries L db = Inr loaded"
    and mst: "build_mst L (replace_entry write loaded) = Inr (root, mst_blocks)"
    and commit: "create_commit L S did new_rev root (parse_stored_cid L (at_repo_cid db)) key = Inr (c, cbor)"
    and pr: "pr = \<lparr>pr_did = did, pr_entries = replace_entry write loaded, pr_mst_root = root, pr_commit_cid = c,
      pr_blocks = mst_blocks @ (case write of Put r \<Rightarrow> [(cr_cid r, cr_cbor r)] | Delete c rk \<Rightarrow> []) @ [(c, cbor)],
      pr_car = car\<rparr>"
    by (auto simp: prepare_commit_def rbind_Inr_iff Let_def)
  have "block_addressed L (c, cbor)"
    using create_commit_addressed [OF commit] by (simp add: block_addressed_def)
  then have "list_all (block_addressed L) (pr_blocks pr)"
    using build_mst_addressed [OF mst] put by (auto simp: pr block_addressed_def split: repo_write.split)
  then show ?thesis using did load mst by (auto simp: pr)
qed

lemma build_mst_root: "build_mst L es = Inr (root, bs) \<Longrightarrow> \<exists>b. root = cid_from_dagcbor L b"
proof -
  have "layer_node L below n es = Inr (root, bs) \<Longrightarrow> \<exists>b. root = cid_from_dagcbor L b" for below n
    by (auto simp: layer_node_def rbind_Inr_iff Let_def)
  moreover have "build_layer L n es = layer_node L (case n of 0 \<Rightarrow> \<lambda>buf. Inl (Cbor ''unreachable'') | Suc m \<Rightarrow> build_layer L m) n es" for n
    by (cases n) simp_all
  ultimately show "build_mst L es = Inr (root, bs) \<Longrightarrow> \<exists>b. root = cid_from_dagcbor L b"
    by (auto simp: build_mst_def rbind_Inr_iff Let_def split: if_splits)
qed

lemma write_commit_Inr:
  assumes "write_commit L S write post_id now_str new_rev seq pr db = Inr (res, db')"
  shows "\<exists>x db9 ev. reflect_write L (pr_did pr) write post_id ((insert_blocks L (pr_blocks pr) db)\<lparr>
      at_repo_cid := Some (cid_to_string L (pr_commit_cid pr)), at_repo_rev := Some new_rev,
      at_repo_data_cid := Some (cid_to_string L (pr_mst_root pr))\<rparr>) = Inr (x, db9)
    \<and> db' = db9\<lparr>repo_events := ev\<rparr>"
  using assms unfolding write_commit_def Let_def rbind_Inr_iff
  by (elim exE conjE) (simp split: prod.splits, blast)

lemma try_apply_write_inv:
  assumes inv: "repo_inv L db" and ok: "write_ok L db write post_id"
    and pr: "prepare_commit L S write new_rev db = Inr pr"
    and wr: "write_commit L S write post_id now_str new_rev seq pr db = Inr (res, db')"
    and inj: "inj_on (address L) (snd ` set (atp_blocks db) \<union> snd ` set (pr_blocks pr))"
    and laws: "dagcbor_law L" "base32_law L" "cid_text_law L"
  shows "repo_inv L db' \<and> repo_view L db' (pr_entries pr)
    \<and> (\<exists>es. load_atp_entries L db' = Inr es \<and> sort_key fst es = pr_entries pr)
    \<and> (\<forall>r. write = Put r \<longrightarrow> stored_block L db' (cr_cid r) = Some (cr_cbor r))"
proof -
  have put: "cr_cid r = cid_from_dagcbor L (cr_cbor r)" if "write = Put r" for r
    using ok that by (simp add: write_ok_def)
  from prepare_commit_Inr [OF pr put] obtain es mst_blocks where
    load: "load_atp_entries L db = Inr es" and did: "at_did db = Some (pr_did pr)"
    and ents: "pr_entries pr = replace_entry write es"
    and mst: "build_mst L (replace_entry write es) = Inr (pr_mst_root pr, mst_blocks)" "set mst_blocks \<subseteq> set (pr_blocks pr)"
    and addr: "list_all (block_addressed L) (pr_blocks pr)"
    and written: "\<forall>r. write = Put r \<longrightarrow> (cr_cid r, cr_cbor r) \<in> set (pr_blocks pr)"
    by blast
  from inv have bs: "blocks_ok L (atp_blocks db)" and rows: "rows_ok db"
    and eok: "list_all (entry_ok (stored_block L db)) es"
    using load by (auto simp: repo_inv_def)
  have cons: "db_consistent L (pr_blocks pr) db" using bs addr inj by (simp add: db_consistent_def)
  let ?db1 = "insert_blocks L (pr_blocks pr) db"
  let ?db8 = "?db1\<lparr>at_repo_cid := Some (cid_to_string L (pr_commit_cid pr)), at_repo_rev := Some new_rev,
      at_repo_data_cid := Some (cid_to_string L (pr_mst_root pr))\<rparr>"
  have same8: "db_posts ?db8 = db_posts db" "atp_records ?db8 = atp_records db" "at_did ?db8 = at_did db"
    by (simp_all add: insert_blocks_def)
  from wr obtain x db9 where refl: "reflect_write L (pr_did pr) write post_id ?db8 = Inr (x, db9)"
    and db': "\<exists>ev. db' = db9\<lparr>repo_events := ev\<rparr>"
    using write_commit_Inr [OF wr] by blast
  have ok8: "write_ok L ?db8 write post_id" using ok unfolding write_ok_def same8 .
  have rows8: "rows_ok ?db8" using rows same_tables [OF same8] by simp
  from reflect_write_tables [OF refl rows8 ok8] did same8(3)
  have after8: "tables_after L write ?db8 db9" and "atp_blocks db9 = atp_blocks ?db8"
    "at_repo_data_cid db9 = at_repo_data_cid ?db8" "at_did db9 = at_did ?db8" by auto
  then have blocks': "atp_blocks db' = atp_blocks ?db1"
    and head': "at_repo_data_cid db' = Some (cid_to_string L (pr_mst_root pr))"
    using db' by auto
  have same9: "rows_ok db' = rows_ok db9 \<and> table_entries db' = table_entries db9"
    using db' by (intro same_tables) auto
  have after: "tables_after L write db db'"
    using after8 unfolding tables_after_def by (simp only: same_tables [OF same8] same9)
  have look: "stored_block L db' = stored_block L ?db1"
    by (rule ext) (simp add: stored_block_def blocks')
  from entries_after [OF load after rows laws(3) put] obtain es' where
    load': "load_atp_entries L db' = Inr es'" and sorted: "sort_key fst es' = replace_entry write es"
    and set': "set es' = {e \<in> set es. fst e \<noteq> write_key write}
      \<union> (case write of Put r \<Rightarrow> {(write_key write, cr_cid r)} | Delete c rk \<Rightarrow> {})"
    by blast
  have stored: "stored_block L db' (cr_cid r) = Some (cr_cbor r)" if "write = Put r" for r
    using that written table.add_finds [OF cons] look by simp
  have "entry_ok (stored_block L db') e" if "e \<in> set es'" for e
  proof -
    from that set' consider "e \<in> set es" | r where "write = Put r" "e = (write_key write, cr_cid r)"
      by (auto split: repo_write.splits)
    then show ?thesis
    proof cases
      case 1
      then show ?thesis using eok look table.entry_ok_added [OF cons] by (simp add: list_all_iff)
    next
      case 2
      with stored ok show ?thesis by (simp add: entry_ok_def write_ok_def write_key_def)
    qed
  qed
  then have eok': "list_all (entry_ok (stored_block L db')) es'" by (simp add: list_all_iff)
  then have "list_all (entry_ok (stored_block L db')) (replace_entry write es)"
    by (simp add: list_all_iff flip: sorted)
  then have walk: "walk_mst L (stored_block L db') (pr_mst_root pr)
      = Inr (map (leaf_of (stored_block L db')) (replace_entry write es))"
    using table.walk_added [OF mst cons] laws(1,2) by (simp add: look)
  have "cid_parse L (cid_display L (pr_mst_root pr)) = Inr (pr_mst_root pr)"
    using build_mst_root [OF mst(1)] laws(3) by (auto simp: cid_text_law_def)
  then have view: "repo_view L db' es'"
    using head' walk sorted by (simp add: repo_view_def cid_to_string_def)
  have "sort_key fst (pr_entries pr) = sort_key fst es'"
    by (simp add: ents flip: sorted) (simp add: sort_key_id_if_sorted)
  then have "repo_view L db' (pr_entries pr)" using view by (simp add: repo_view_def)
  moreover have "blocks_ok L (atp_blocks db')"
    using fold_insert_block_ok [OF bs addr] by (simp add: blocks' insert_blocks_def)
  moreover have "rows_ok db'" using after by (simp add: tables_after_def)
  ultimately show ?thesis using load' eok' view sorted ents stored by (auto simp: repo_inv_def)
qed

section \<open>The event log\<close>

text \<open>Each event continues the one before it, and the head of the repository is the last event.\<close>

definition event_chain :: "repo_db \<Rightarrow> bool" where
  "event_chain db \<longleftrightarrow>
     successively (\<lambda>e1 e2. ev_prev_cid e2 = Some (ev_commit_cid e1) \<and> ev_since_rev e2 = Some (ev_rev e1)) (repo_events db)
     \<and> (if repo_events db = [] then at_repo_cid db = None \<and> at_repo_rev db = None
        else at_repo_cid db = Some (ev_commit_cid (last (repo_events db)))
          \<and> at_repo_rev db = Some (ev_rev (last (repo_events db))))"

lemma reflect_write_events:
  "reflect_write L did write post_id db = Inr (x, db') \<Longrightarrow>
   repo_events db' = repo_events db \<and> at_repo_cid db' = at_repo_cid db \<and> at_repo_rev db' = at_repo_rev db"
  by (auto simp: reflect_write_def rbind_Inr_iff Let_def split: repo_write.splits option.splits if_splits)

lemma event_chain_write:
  assumes "event_chain db" "write_commit L S write post_id now_str new_rev seq pr db = Inr (res, db')"
  shows "event_chain db'"
proof -
  let ?db8 = "(insert_blocks L (pr_blocks pr) db)\<lparr>at_repo_cid := Some (cid_to_string L (pr_commit_cid pr)),
      at_repo_rev := Some new_rev, at_repo_data_cid := Some (cid_to_string L (pr_mst_root pr))\<rparr>"
  from assms(2) obtain x db9 ev where refl: "reflect_write L (pr_did pr) write post_id ?db8 = Inr (x, db9)"
    and db': "db' = db9\<lparr>repo_events := repo_events db9 @ [ev]\<rparr>"
    and ev: "ev_prev_cid ev = at_repo_cid db" "ev_since_rev ev = at_repo_rev db"
      "ev_commit_cid ev = cid_to_string L (pr_commit_cid pr)" "ev_rev ev = new_rev"
    unfolding write_commit_def Let_def rbind_Inr_iff
    by (elim exE conjE) (simp split: prod.splits, fastforce)
  from reflect_write_events [OF refl] have "repo_events db9 = repo_events db"
    "at_repo_cid db9 = Some (cid_to_string L (pr_commit_cid pr))" "at_repo_rev db9 = Some new_rev"
    by (simp_all add: insert_blocks_def)
  with assms(1) ev show ?thesis
    by (auto simp: event_chain_def db' successively_append_iff)
qed

section \<open>Reachable repositories\<close>

text \<open>
  A new actor; a committed write; a post inserted by a handler, without AT columns; a post marked
  deleted by a handler (its record stays in the tree until the delete is committed).
\<close>

definition new_repository :: "repo_db \<Rightarrow> bool" where
  "new_repository db \<longleftrightarrow> at_repo_cid db = None \<and> at_repo_rev db = None \<and> at_repo_data_cid db = None
     \<and> db_posts db = [] \<and> atp_records db = [] \<and> atp_blocks db = [] \<and> repo_events db = []"

definition insert_post :: "int \<Rightarrow> repo_db \<Rightarrow> repo_db" where
  "insert_post pid db = db\<lparr>db_posts := db_posts db @
     [\<lparr>p_id = pid, p_at_uri = None, p_at_cid = None, p_at_rkey = None, p_deleted = False\<rparr>]\<rparr>"

definition soft_delete_by_id :: "int \<Rightarrow> repo_db \<Rightarrow> repo_db" where
  "soft_delete_by_id pid db = db\<lparr>db_posts :=
     map (\<lambda>p. if p_id p = pid then p\<lparr>p_deleted := True\<rparr> else p) (db_posts db)\<rparr>"

inductive repo_reachable :: "atp_libs \<Rightarrow> signer_libs \<Rightarrow> repo_db \<Rightarrow> bool" for L :: atp_libs and S :: signer_libs where
  start: "new_repository db \<Longrightarrow> repo_reachable L S db"
| commit: "\<lbrakk>repo_reachable L S db; write_ok L db write post_id; prepare_commit L S write new_rev db = Inr (pr :: prepared);
    write_commit L S write post_id now_str new_rev seq pr db = Inr (res, db');
    inj_on (address L) (snd ` set (atp_blocks db) \<union> snd ` set (pr_blocks pr))\<rbrakk> \<Longrightarrow> repo_reachable L S db'"
| post: "\<lbrakk>repo_reachable L S db; pid \<notin> p_id ` set (db_posts db)\<rbrakk> \<Longrightarrow> repo_reachable L S (insert_post pid db)"
| soft_delete: "repo_reachable L S db \<Longrightarrow> repo_reachable L S (soft_delete_by_id pid db)"

lemma repo_inv_posts:
  assumes "repo_inv L db" "rows_ok (db\<lparr>db_posts := ps\<rparr>)"
    and "set (table_entries (db\<lparr>db_posts := ps\<rparr>)) \<subseteq> set (table_entries db)"
  shows "repo_inv L (db\<lparr>db_posts := ps\<rparr>)"
proof -
  let ?db' = "db\<lparr>db_posts := ps\<rparr>"
  from assms(1) obtain es where es: "load_atp_entries L db = Inr es" "list_all (entry_ok (stored_block L db)) es"
    and "blocks_ok L (atp_blocks db)" by (auto simp: repo_inv_def)
  let ?es' = "map (parsed_entry L) (table_entries ?db')"
  have "load_atp_entries L ?db' = Inr ?es'"
    using es(1) assms(3) unfolding load_atp_entries_Inr_iff by auto
  moreover have "set ?es' \<subseteq> set es" using es(1) assms(3) unfolding load_atp_entries_Inr_iff by auto
  then have "list_all (entry_ok (stored_block L ?db')) ?es'"
    using es(2) by (auto simp: list_all_iff stored_block_def [abs_def])
  ultimately show ?thesis using assms(2) \<open>blocks_ok L (atp_blocks db)\<close> by (auto simp: repo_inv_def)
qed

lemma rows_ok_postsI:
  assumes "rows_ok db" "distinct (map p_id ps)" "distinct (map (\<lambda>p. the (p_at_rkey p)) (filter live_post ps))"
    and "\<And>p. p \<in> set ps \<Longrightarrow> live_post p \<Longrightarrow>
      \<exists>did. at_did db = Some did \<and> p_at_uri p = Some (post_at_uri did (the (p_at_rkey p)))"
  shows "rows_ok (db\<lparr>db_posts := ps\<rparr>)"
proof -
  have "\<forall>p \<in> set ps. live_post p \<longrightarrow>
      (\<exists>did. at_did db = Some did \<and> p_at_uri p = Some (post_at_uri did (the (p_at_rkey p))))"
    using assms(4) by blast
  with assms(1-3) show ?thesis unfolding rows_ok_def by simp
qed

lemma live_soft_delete:
  "filter live_post (map (\<lambda>p. if p_id p = pid then p\<lparr>p_deleted := True\<rparr> else p) ps)
     = filter (\<lambda>p. p_id p \<noteq> pid) (filter live_post ps)"
  by (induction ps) (auto simp: live_post_def)

lemma repo_reachable_inv:
  assumes "dagcbor_law L" "base32_law L" "cid_text_law L"
  shows "repo_reachable L S db \<Longrightarrow> repo_inv L db \<and> event_chain db"
proof (induction rule: repo_reachable.induct)
  case (start db)
  then show ?case
    by (simp add: new_repository_def repo_inv_def blocks_ok_def rows_ok_def load_atp_entries_def post_entries_def
        record_entries_def event_chain_def)
next
  case (commit db "write" post_id new_rev pr now_str seq res db')
  then show ?case using try_apply_write_inv [of L db "write" post_id S new_rev pr now_str seq res db'] assms
      event_chain_write [of db L S "write" post_id now_str new_rev seq pr res db'] by blast
next
  case (post db pid)
  let ?ps = "db_posts db @ [\<lparr>p_id = pid, p_at_uri = None, p_at_cid = None, p_at_rkey = None, p_deleted = False\<rparr>]"
  have rows: "rows_ok db" using post.IH by (simp add: repo_inv_def)
  have "rows_ok (db\<lparr>db_posts := ?ps\<rparr>)"
    using rows post.hyps(2) by (auto simp: rows_ok_def live_post_def)
  then have "repo_inv L (db\<lparr>db_posts := ?ps\<rparr>)"
    by (rule repo_inv_posts [OF conjunct1 [OF post.IH]]) (auto simp: table_entries_set live_post_def)
  then show ?case using post.IH by (simp add: insert_post_def event_chain_def)
next
  case (soft_delete db pid)
  let ?ps = "map (\<lambda>p. if p_id p = pid then p\<lparr>p_deleted := True\<rparr> else p) (db_posts db)"
  have rows: "rows_ok db" using soft_delete.IH by (simp add: repo_inv_def)
  have live: "p \<in> set (db_posts db) \<and> p_id p \<noteq> pid" if "p \<in> set ?ps" "live_post p" for p
    using that by (auto simp: live_post_def split: if_splits)
  have "map p_id ?ps = map p_id (db_posts db)" by simp
  then have "distinct (map p_id ?ps)" using rows unfolding rows_ok_def by (simp only:)
  moreover have "distinct (map (\<lambda>p. the (p_at_rkey p)) (filter live_post ?ps))"
    unfolding live_soft_delete by (rule distinct_map_filter) (use rows in \<open>simp add: rows_ok_def\<close>)
  moreover have "\<exists>did. at_did db = Some did \<and> p_at_uri p = Some (post_at_uri did (the (p_at_rkey p)))"
    if p: "p \<in> set ?ps" "live_post p" for p
  proof -
    have "\<forall>p \<in> set (db_posts db). live_post p \<longrightarrow>
        (\<exists>did. at_did db = Some did \<and> p_at_uri p = Some (post_at_uri did (the (p_at_rkey p))))"
      using rows by (simp add: rows_ok_def)
    with live [OF p] p(2) show ?thesis by blast
  qed
  ultimately have "rows_ok (db\<lparr>db_posts := ?ps\<rparr>)" using rows_ok_postsI [OF rows] by blast
  then have "repo_inv L (db\<lparr>db_posts := ?ps\<rparr>)"
    by (rule repo_inv_posts [OF conjunct1 [OF soft_delete.IH]]) (use live in \<open>auto simp: table_entries_set\<close>)
  then show ?case using soft_delete.IH by (simp add: soft_delete_by_id_def event_chain_def)
qed


text \<open>The first record of a new repository.\<close>

definition demo_write :: repo_write where
  "demo_write = Put \<lparr>cr_collection = ''c'', cr_rkey = ''k'', cr_cbor = [7], cr_cid = demo_cid [7],
     cr_action = ''create'', cr_blob_cids = []\<rparr>"

definition demo_db :: repo_db where
  "demo_db = \<lparr>at_did = Some ''did:plc:a'', at_signing_key_pem = Some [], at_repo_cid = None, at_repo_rev = None,
     at_repo_data_cid = None, db_posts = [], atp_records = [], atp_blocks = [], repo_events = [],
     post_record_blobs = []\<rparr>"

definition demo_signer :: signer_libs where
  "demo_signer = \<lparr>key_from_pem = Inr \<circ> as_bytes, p256_sign = (\<lambda>k m. k @ m), sig_normalize_s = id, zstd_encode = Some\<rparr>"

definition demo_commit_table :: "ipld list" where
  "demo_commit_table =
     [node_ipld \<lparr>node_e = [\<lparr>entry_k = as_bytes ''c/k'', entry_p = 0, entry_t = None, entry_v = demo_cid [7]\<rparr>], node_l = None\<rparr>,
      unsigned_commit (demo_cid [0]) ''did:plc:a'' None ''r1'',
      signed_commit (demo_cid [0]) ''did:plc:a'' None ''r1'' [1],
      car_header (demo_cid [2])]"

definition demo_commit_libs :: atp_libs where
  "demo_commit_libs = table_libs demo_commit_table"

definition demo_prepared :: "bytes \<Rightarrow> prepared" where
  "demo_prepared car = \<lparr>pr_did = ''did:plc:a'', pr_entries = [(''c/k'', demo_cid [7])], pr_mst_root = demo_cid [0],
     pr_commit_cid = demo_cid [2], pr_blocks = [(demo_cid [0], [0]), (demo_cid [7], [7]), (demo_cid [2], [2])],
     pr_car = car\<rparr>"

lemma demo_commit_cid [simp]: "cid_from_dagcbor demo_commit_libs b = demo_cid b"
  by (simp add: demo_commit_libs_def)

lemma demo_layer_ck: "leading_zeros_on_hash demo_commit_libs ''c/k'' = 0"
  by (simp add: leading_zeros_on_hash_def demo_commit_libs_def demo_libs_def demo_sum_def as_bytes_def byte_of_char_def
      digest_bytes_def to_ascii_lowercase_def ascii_lower_def is_ascii_upper_def Let_def upt_rec char_of_def bit_Suc_0_iff)

lemma demo_commit_mst:
  "build_mst demo_commit_libs [(''c/k'', demo_cid [7])] = Inr (demo_cid [0], [(demo_cid [0], [0])])"
  by (simp add: build_mst_def demo_layer_ck layer_node_def layer_step_def layer_init_def flush_subtree_def
      attach_subtree_def layer_finish_def common_prefix_len_def Let_def)
    (simp add: demo_commit_libs_def table_to_vec_def demo_commit_table_def)

lemma demo_commit_signed:
  "create_commit demo_commit_libs demo_signer ''did:plc:a'' ''r1'' (demo_cid [0]) None [] = Inr (demo_cid [2], [2])"
proof -
  have "table_to_vec demo_commit_table (unsigned_commit (demo_cid [0]) ''did:plc:a'' None ''r1'') = Inr [1]"
    "table_to_vec demo_commit_table (signed_commit (demo_cid [0]) ''did:plc:a'' None ''r1'' [1]) = Inr [2]"
    by (simp_all add: table_to_vec_def demo_commit_table_def node_ipld_def unsigned_commit_def signed_commit_def
        commit_fields_def)
  then show ?thesis
    by (simp add: create_commit_def demo_signer_def Let_def) (simp add: demo_commit_libs_def)
qed

lemma demo_prepare: "\<exists>car. prepare_commit demo_commit_libs demo_signer demo_write ''r1'' demo_db = Inr (demo_prepared car)"
proof -
  have "table_to_vec demo_commit_table (car_header (demo_cid [2])) = Inr [3]"
    by (simp add: table_to_vec_def demo_commit_table_def node_ipld_def unsigned_commit_def signed_commit_def
        commit_fields_def car_header_def)
  then have "\<exists>car. encode_car demo_commit_libs (demo_cid [2]) bs = Inr car" for bs
    by (simp add: encode_car_def Let_def demo_commit_libs_def)
  then obtain car where car: "encode_car demo_commit_libs (demo_cid [2])
      [(demo_cid [0], [0]), (demo_cid [7], [7]), (demo_cid [2], [2])] = Inr car" by blast
  have "load_atp_entries demo_commit_libs demo_db = Inr []"
    by (simp add: load_atp_entries_def post_entries_def record_entries_def demo_db_def)
  moreover have "replace_entry demo_write [] = [(''c/k'', demo_cid [7])]"
    by (simp add: replace_entry_def demo_write_def record_key_def)
  ultimately have "prepare_commit demo_commit_libs demo_signer demo_write ''r1'' demo_db = Inr (demo_prepared car)"
    using demo_commit_mst demo_commit_signed car
    by (simp add: prepare_commit_def demo_prepared_def parse_stored_cid_def Let_def)
      (simp add: demo_db_def demo_signer_def demo_write_def as_bytes_def)
  then show ?thesis by blast
qed

lemma demo_write_commit:
  "\<exists>res db'. write_commit demo_commit_libs demo_signer demo_write None ''now'' ''r1'' 1 (demo_prepared car) demo_db = Inr (res, db')"
  by (simp add: write_commit_def reflect_write_def demo_write_def Let_def)

lemma demo_cid_text: "cid_text_law demo_commit_libs"
proof -
  have "(ucast (ucast (0x71 :: 64 word) :: byte) :: 64 word) = 0x71" by simp
  then show ?thesis
    by (simp add: cid_text_law_def) (simp add: demo_commit_libs_def demo_libs_def demo_cid_def cid_new_v1_def)
qed


section \<open>Retries\<close>

lemma no_own_serialization_failure:
  "try_apply_write L S write post_id now_str new_rev seq db \<noteq> Inl (Db Serialization_Failure)"
proof -
  have "prepare_commit L S write new_rev db \<noteq> Inl (Db e)" for e
    by (auto simp: prepare_commit_def rbind_Inl_iff Let_def map_err_Inl_iff load_atp_entries_def
        elim!: ok_or.elims)
  moreover have "reflect_write L did write post_id db' \<noteq> Inl (Db Serialization_Failure)" for did db'
    by (auto simp: reflect_write_def rbind_Inl_iff Let_def update_post_def split: repo_write.split option.split if_splits)
  ultimately show ?thesis
    by (auto simp: try_apply_write_def rbind_Inl_iff write_commit_def Let_def)
qed

lemma attempt_serialization_failure:
  "attempt_write L S write post_id now_str e = Inl (Db Serialization_Failure) \<longleftrightarrow> env_conflict e"
  using no_own_serialization_failure by (simp add: attempt_write_def)

lemma is_serialization_failure_iff: "is_serialization_failure e \<longleftrightarrow> e = Serialization_Failure"
  by (cases e) auto

definition published_frames :: "bytes option \<Rightarrow> commit_result \<Rightarrow> (bytes \<times> int) list" where
  "published_frames frame result = (case frame of Some f \<Rightarrow> [(f, res_seq result)] | None \<Rightarrow> [])"

text \<open>The first attempt without a conflict decides.\<close>

lemma apply_write_attempts:
  "attempt \<le> k \<Longrightarrow> k \<le> MAX_SERIALIZATION_RETRIES \<Longrightarrow> (\<And>j. attempt \<le> j \<Longrightarrow> j < k \<Longrightarrow> env_conflict (env j)) \<Longrightarrow>
   apply_write L S write post_id now_str env attempt = apply_write L S write post_id now_str env k"
proof (induction "k - attempt" arbitrary: attempt)
  case (Suc n)
  then have lt: "attempt < k" by simp
  then have "env_conflict (env attempt)" using Suc.prems(3) by simp
  then have "apply_write L S write post_id now_str env attempt = apply_write L S write post_id now_str env (attempt + 1)"
    using lt Suc.prems(2) by (subst apply_write.simps) (simp add: attempt_write_def)
  moreover have "apply_write L S write post_id now_str env (attempt + 1) = apply_write L S write post_id now_str env k"
    using Suc.hyps Suc.prems lt by (intro Suc.hyps(1)) simp_all
  ultimately show ?case by simp
qed simp

lemma apply_write_decides:
  "\<not> env_conflict (env k) \<Longrightarrow> apply_write L S write post_id now_str env k =
     rbind (try_apply_write L S write post_id now_str (env_rev (env k)) (env_seq (env k)) (env_db (env k)))
       (\<lambda>((result, frame), db). Inr (result, db, published_frames frame result))"
proof -
  assume "\<not> env_conflict (env k)"
  then have a: "attempt_write L S write post_id now_str (env k)
      = try_apply_write L S write post_id now_str (env_rev (env k)) (env_seq (env k)) (env_db (env k))"
    by (simp add: attempt_write_def)
  show ?thesis
    using no_own_serialization_failure [of L S "write" post_id now_str "env_rev (env k)" "env_seq (env k)" "env_db (env k)"]
    by (subst apply_write.simps)
      (auto simp: a published_frames_def is_serialization_failure_iff split: sum.split commit_error.split prod.split)
qed

text \<open>
  Retries of a commit: \<open>apply_write\<close> makes at most ten attempts. When one of the first ten attempts
  meets no conflict, the outcome is that of the first such attempt on the tables it found, and its
  frame is published exactly once and only when the transaction committed; when all ten meet a
  conflict, the write fails with the serialization error and nothing is published.
\<close>
theorem apply_write_first_success:
  "apply_write L S write post_id now_str env 1 =
     (case find (\<lambda>k. \<not> env_conflict (env k)) [1..<Suc MAX_SERIALIZATION_RETRIES] of
        Some k \<Rightarrow> rbind (try_apply_write L S write post_id now_str (env_rev (env k)) (env_seq (env k)) (env_db (env k)))
          (\<lambda>((result, frame), db). Inr (result, db, published_frames frame result))
      | None \<Rightarrow> Inl (Db Serialization_Failure))"
proof (cases "find (\<lambda>k. \<not> env_conflict (env k)) [1..<Suc MAX_SERIALIZATION_RETRIES]")
  case None
  then have c: "env_conflict (env j)" if "1 \<le> j" "j \<le> MAX_SERIALIZATION_RETRIES" for j
    using that by (auto simp: find_None_iff)
  have "apply_write L S write post_id now_str env 1 = apply_write L S write post_id now_str env MAX_SERIALIZATION_RETRIES"
    by (rule apply_write_attempts) (auto simp: MAX_SERIALIZATION_RETRIES_def intro!: c)
  also have "\<dots> = Inl (Db Serialization_Failure)"
    using c [of MAX_SERIALIZATION_RETRIES] by (subst apply_write.simps) (simp add: attempt_write_def MAX_SERIALIZATION_RETRIES_def)
  finally show ?thesis using None by simp
next
  case (Some k)
  then obtain i where i: "i < length [1..<Suc MAX_SERIALIZATION_RETRIES]" "\<not> env_conflict (env k)" "k = [1..<Suc MAX_SERIALIZATION_RETRIES] ! i"
    "\<forall>j<i. env_conflict (env ([1..<Suc MAX_SERIALIZATION_RETRIES] ! j))"
    by (auto simp: find_Some_iff simp del: upt_Suc)
  have "i < MAX_SERIALIZATION_RETRIES" using i(1) by (simp del: upt_Suc)
  then have k: "k = Suc i" "k \<le> MAX_SERIALIZATION_RETRIES"
    unfolding i(3) by (subst nth_upt; simp del: upt_Suc)+
  have before: "env_conflict (env j)" if "1 \<le> j" "j < k" for j
  proof -
    have "j - 1 < i" using that k by simp
    with i(4) have "env_conflict (env ([1..<Suc MAX_SERIALIZATION_RETRIES] ! (j - 1)))" by blast
    moreover have "[1..<Suc MAX_SERIALIZATION_RETRIES] ! (j - 1) = j" using that k by (subst nth_upt) auto
    ultimately show ?thesis by simp
  qed
  have "apply_write L S write post_id now_str env 1 = apply_write L S write post_id now_str env k"
    by (rule apply_write_attempts) (use k before in auto)
  then show ?thesis using Some apply_write_decides [of env k] i(2) by simp
qed

end
