(* ===== verification/Tid.thy ===== *)
theory Tid
  imports Prelude "HOL-Library.Char_ord" "HOL-Library.List_Lexorder"
begin

text \<open>
  \<open>generate_tid\<close> of \<open>seiran-common/src/atp/repo.rs\<close>: the record keys and revisions of the AT
  repository. The clock and the random number are arguments. The timestamp is shifted by ten bits,
  or-ed with ten random bits and written as 13 digits of the sortable base 32 alphabet; the order of
  the texts is the order of the values, which is what the repository relies on.
\<close>

definition S32_CHARS :: string where
  "S32_CHARS = ''234567abcdefghijklmnopqrstuvwxyz''"

text \<open>The loop fills the array from its end, five bits at a time.\<close>

primrec tid_chars :: "nat \<Rightarrow> 64 word \<Rightarrow> string" where
  "tid_chars 0 v = []"
| "tid_chars (Suc i) v = tid_chars i (drop_bit 5 v) @ [S32_CHARS ! unat (v AND 0x1F)]"

definition tid_value :: "64 word \<Rightarrow> 32 word \<Rightarrow> 64 word" where
  "tid_value ts_us rand = push_bit 10 ts_us OR (ucast rand AND 0x3FF)"

definition generate_tid :: "64 word \<Rightarrow> 32 word \<Rightarrow> string" where
  "generate_tid ts_us rand = tid_chars 13 (tid_value ts_us rand)"

lemmas [repo_defs] = tid_value_def generate_tid_def

text \<open>The alphabet is in order.\<close>

lemma S32_CHARS_mono: "i < j \<Longrightarrow> j < 32 \<Longrightarrow> S32_CHARS ! i < S32_CHARS ! j"
proof -
  have "sorted_wrt (<) S32_CHARS" by (simp add: S32_CHARS_def)
  then show "i < j \<Longrightarrow> j < 32 \<Longrightarrow> S32_CHARS ! i < S32_CHARS ! j"
    by (rule sorted_wrt_nth_less) (simp_all add: S32_CHARS_def)
qed

lemma length_tid_chars [simp]: "length (tid_chars n v) = n"
  by (induction n arbitrary: v) auto

lemma unat_div_32: "unat (drop_bit 5 v :: 64 word) = unat v div 32"
  by (simp add: drop_bit_eq_div unat_div)

lemma unat_and_31: "unat (v AND 0x1F :: 64 word) = unat v mod 32"
proof -
  have "v AND 0x1F = take_bit 5 v" by (simp add: take_bit_eq_mask mask_eq_exp_minus_1)
  then show ?thesis by (simp add: take_bit_eq_mod unat_mod)
qed

lemma list_less_append:
  fixes xs ys :: "'a::linorder list"
  assumes "length xs = length ys"
  shows "xs @ us < ys @ vs \<longleftrightarrow> xs < ys \<or> xs = ys \<and> us < vs"
  using assms by (induction xs ys rule: list_induct2) auto

lemma tid_chars_mono:
  "unat v < unat w \<Longrightarrow> unat w < 32 ^ n \<Longrightarrow> tid_chars n v < tid_chars n w"
proof (induction n arbitrary: v w)
  case (Suc n)
  have w: "unat w div 32 < 32 ^ n"
    using Suc.prems(2) by (simp add: div_less_iff_less_mult mult.commute)
  have vw: "unat v div 32 \<le> unat w div 32" using Suc.prems(1) by (simp add: div_le_mono)
  show ?case
  proof (cases "unat v div 32 = unat w div 32")
    case True
    then have "drop_bit 5 v = drop_bit 5 w"
      by (metis unat_div_32 unsigned_word_eqI)
    moreover have "unat v mod 32 < unat w mod 32"
      using True Suc.prems(1) by (metis div_mult_mod_eq nat_add_left_cancel_less)
    ultimately show ?thesis
      by (simp add: list_less_append unat_and_31 S32_CHARS_mono)
  next
    case False
    with vw Suc.IH [of "drop_bit 5 v" "drop_bit 5 w"] w show ?thesis
      by (simp add: list_less_append unat_div_32)
  qed
qed simp

lemma unat_tid_value:
  assumes "unat ts_us < 2 ^ 54"
  shows "unat (tid_value ts_us rand) = unat ts_us * 1024 + unat rand mod 1024"
proof -
  have m: "ucast rand AND 0x3FF = (take_bit 10 (ucast rand) :: 64 word)"
    by (simp add: take_bit_eq_mask mask_eq_exp_minus_1)
  have r: "unat (take_bit 10 (ucast rand) :: 64 word) = unat rand mod 1024"
  proof -
    have "unat rand < 2 ^ LENGTH(32)" by (rule unsigned_less)
    then have "unat (ucast rand :: 64 word) = unat rand"
      by (simp add: unsigned_ucast_eq take_bit_nat_eq_self)
    then show ?thesis by (simp add: take_bit_eq_mod unat_mod)
  qed
  have "push_bit 10 ts_us AND take_bit 10 (ucast rand) = (0 :: 64 word)"
    by (rule bit_word_eqI) (simp add: bit_simps)
  then have "tid_value ts_us rand = push_bit 10 ts_us + take_bit 10 (ucast rand)"
    unfolding tid_value_def m by (simp add: disjunctive_add_eq_or)
  moreover have "unat (push_bit 10 ts_us) = unat ts_us * 1024"
    using assms by (simp add: push_bit_eq_mult unat_word_ariths)
  moreover have "unat ts_us * 1024 + unat rand mod 1024 < 2 ^ 64"
    using assms mod_less_divisor [of 1024 "unat rand"] by simp
  ultimately show ?thesis
    by (simp add: unat_word_ariths r)
qed

text \<open>
  TIDs are ordered by time: two keys generated at different microseconds, whatever the random
  clock identifiers, compare as texts the way their timestamps compare, for every timestamp below
  \<open>2 ^ 54\<close> microseconds (the year 2540).
\<close>
theorem generate_tid_ordered:
  assumes "unat ts1 < unat ts2" "unat ts2 < 2 ^ 54"
  shows "length (generate_tid ts1 r1) = 13 \<and> generate_tid ts1 r1 < generate_tid ts2 r2"
proof -
  have "unat ts1 * 1024 + unat r1 mod 1024 < unat ts2 * 1024 + unat r2 mod 1024"
    using assms(1) mod_less_divisor [of 1024 "unat r1"] by linarith
  moreover have "unat ts2 * 1024 + unat r2 mod 1024 < 32 ^ 13"
    using assms(2) mod_less_divisor [of 1024 "unat r2"] by simp
  ultimately have "generate_tid ts1 r1 < generate_tid ts2 r2"
    unfolding generate_tid_def using assms by (intro tid_chars_mono) (simp_all add: unat_tid_value)
  then show ?thesis by (simp add: generate_tid_def)
qed

theorem generate_tid_ordered_witness:
  "length (generate_tid 1700000000000000 5) = 13
   \<and> generate_tid 1700000000000000 1023 < generate_tid 1700000000000001 0"
  using generate_tid_ordered [of 1700000000000000 1700000000000001] by simp

end
