(* ===== verification/Commit_Ops.thy ===== *)
theory Commit_Ops
  imports Commit_Inv Tid
begin

text \<open>
  The commits of each kind of record: the \<open>commit_*\<close> and \<open>delete_atp_*\<close> methods of
  \<open>AtpCommitService\<close> in \<open>seiran-common/src/atp/service.rs\<close>. Each encodes its record, applies the write
  and then stores the new key or address in the row it belongs to; the rows of the other tables are
  described by an effect. The microseconds and the random number of the new record key, the text of the
  time and the environment of the attempts are arguments. The crawl request is fire-and-forget.
\<close>

section \<open>The operations\<close>

text \<open>What an operation does to the tables outside the repository, after the commit.\<close>

datatype row_effect =
    Set_Repost_Rkey int string
  | Set_Reaction_Uri int string

record service =
  sv_libs :: atp_libs
  sv_signer :: signer_libs
  sv_ts_us :: "64 word"
  sv_rand :: "32 word"
  sv_now_str :: string
  sv_env :: "nat \<Rightarrow> attempt_env"

text \<open>The common shape: the record, the write, the result, the new tables and the published frames.\<close>

type_synonym committed = "commit_result \<times> repo_db \<times> (bytes \<times> int) list"

definition commit_record_inner :: "service \<Rightarrow> commit_record \<Rightarrow> int option \<Rightarrow> commit_error + committed" where
  "commit_record_inner sv r post_id =
     apply_write (sv_libs sv) (sv_signer sv) (Put r) post_id (sv_now_str sv) (sv_env sv) 1"

definition new_rkey :: "service \<Rightarrow> string" where
  "new_rkey sv = generate_tid (sv_ts_us sv) (sv_rand sv)"

definition make_record :: "string \<Rightarrow> string \<Rightarrow> bytes \<times> cid \<Rightarrow> string \<Rightarrow> cid list \<Rightarrow> commit_record" where
  "make_record collection rkey enc action blobs =
     \<lparr>cr_collection = collection, cr_rkey = rkey, cr_cbor = fst enc, cr_cid = snd enc,
      cr_action = action, cr_blob_cids = blobs\<rparr>"

definition commit_generic_record ::
  "service \<Rightarrow> string \<Rightarrow> string \<Rightarrow> json \<Rightarrow> string \<Rightarrow> commit_error + committed \<times> cid" where
  "commit_generic_record sv collection rkey v action =
     rbind (map_err Repo (encode_generic_record (sv_libs sv) v)) (\<lambda>enc.
     rbind (commit_record_inner sv
       (make_record collection rkey enc action (collect_blob_cids (sv_libs sv) v)) None) (\<lambda>result.
     Inr (result, snd enc)))"

definition commit_post_record ::
  "service \<Rightarrow> int \<Rightarrow> string \<Rightarrow> json \<Rightarrow> string \<Rightarrow> commit_error + committed \<times> cid" where
  "commit_post_record sv post_id rkey v action =
     rbind (map_err Repo (encode_generic_record (sv_libs sv) v)) (\<lambda>enc.
     rbind (commit_record_inner sv
       (make_record POST_COLLECTION rkey enc action (collect_blob_cids (sv_libs sv) v)) (Some post_id)) (\<lambda>result.
     Inr (result, snd enc)))"

record post_commit =
  pc_post_id :: int
  pc_text :: string
  pc_facets :: "bsky_facet list"
  pc_embed :: "bsky_embed option"
  pc_reply :: "bsky_post_reply option"
  pc_lang :: "string option"

definition commit_post :: "service \<Rightarrow> post_commit \<Rightarrow> ipld option \<Rightarrow> commit_error + committed" where
  "commit_post sv post seiran_post =
     rbind (map_err Repo (encode_bsky_feed_post (sv_libs sv) (pc_text post) (sv_now_str sv) (pc_facets post)
         (pc_embed post) (pc_reply post) (pc_lang post) seiran_post)) (\<lambda>enc.
     commit_record_inner sv
       (make_record POST_COLLECTION (new_rkey sv) enc ''create'' (blob_cids_for_embed (sv_libs sv) (pc_embed post)))
       (Some (pc_post_id post)))"

definition commit_repost ::
  "service \<Rightarrow> string \<Rightarrow> string \<Rightarrow> int option \<Rightarrow> commit_error + committed \<times> row_effect list" where
  "commit_repost sv at_uri at_cid post_id =
     (let rkey = new_rkey sv in
      rbind (map_err Repo (encode_bsky_feed_repost (sv_libs sv) at_uri at_cid (sv_now_str sv))) (\<lambda>enc.
      rbind (commit_record_inner sv (make_record ''app.bsky.feed.repost'' rkey enc ''create'' []) None) (\<lambda>result.
      Inr (result, (case post_id of Some pid \<Rightarrow> [Set_Repost_Rkey pid rkey] | None \<Rightarrow> [])))))"

record like_commit =
  lc_post_id :: int
  lc_target_at_uri :: string
  lc_target_at_cid :: string
  lc_emoji :: "string option"
  lc_reaction_id :: int

definition commit_like :: "service \<Rightarrow> like_commit \<Rightarrow> commit_error + committed \<times> row_effect list" where
  "commit_like sv like =
     (let rkey = new_rkey sv in
      rbind (map_err Repo (encode_bsky_feed_like (sv_libs sv) (lc_target_at_uri like) (lc_target_at_cid like)
          (sv_now_str sv) (lc_emoji like) (lc_reaction_id like))) (\<lambda>enc.
      rbind (commit_record_inner sv (make_record ''app.bsky.feed.like'' rkey enc ''create'' []) None) (\<lambda>result.
      Inr (result, [Set_Reaction_Uri (lc_post_id like)
        (''at://'' @ res_at_did (fst result) @ ''/app.bsky.feed.like/'' @ rkey)]))))"

definition commit_follow :: "service \<Rightarrow> string \<Rightarrow> commit_error + committed \<times> string" where
  "commit_follow sv subject_did =
     (let rkey = new_rkey sv in
      rbind (map_err Repo (encode_bsky_graph_follow (sv_libs sv) subject_did (sv_now_str sv))) (\<lambda>enc.
      rbind (commit_record_inner sv (make_record ''app.bsky.graph.follow'' rkey enc ''create'' []) None) (\<lambda>result.
      Inr (result, rkey))))"

definition commit_block :: "service \<Rightarrow> string \<Rightarrow> commit_error + committed \<times> string" where
  "commit_block sv subject_did =
     (let rkey = new_rkey sv in
      rbind (map_err Repo (encode_bsky_graph_block (sv_libs sv) subject_did (sv_now_str sv))) (\<lambda>enc.
      rbind (commit_record_inner sv (make_record ''app.bsky.graph.block'' rkey enc ''create'' []) None) (\<lambda>result.
      Inr (result, rkey))))"

definition commit_graph_list :: "service \<Rightarrow> string \<Rightarrow> commit_error + committed \<times> string \<times> string \<times> string" where
  "commit_graph_list sv name =
     (let rkey = new_rkey sv in
      rbind (map_err Repo (encode_bsky_graph_list (sv_libs sv) name (sv_now_str sv))) (\<lambda>enc.
      rbind (commit_record_inner sv (make_record ''app.bsky.graph.list'' rkey enc ''create'' []) None) (\<lambda>result.
      Inr (result, rkey, ''at://'' @ res_at_did (fst result) @ ''/app.bsky.graph.list/'' @ rkey,
           cid_to_string (sv_libs sv) (snd enc)))))"

definition commit_graph_listitem :: "service \<Rightarrow> string \<Rightarrow> string \<Rightarrow> commit_error + committed \<times> string \<times> string" where
  "commit_graph_listitem sv list_uri subject_did =
     (let rkey = new_rkey sv in
      rbind (map_err Repo (encode_bsky_graph_listitem (sv_libs sv) list_uri subject_did (sv_now_str sv))) (\<lambda>enc.
      rbind (commit_record_inner sv (make_record ''app.bsky.graph.listitem'' rkey enc ''create'' []) None) (\<lambda>result.
      Inr (result, rkey, ''at://'' @ res_at_did (fst result) @ ''/app.bsky.graph.listitem/'' @ rkey))))"

text \<open>
  The records at the key \<open>self\<close>: the action depends on whether the record exists in the table that
  the query before the commit read.
\<close>

definition record_exists :: "repo_db \<Rightarrow> string \<Rightarrow> bool" where
  "record_exists db collection =
     (\<exists>r \<in> set (atp_records db). r_collection r = collection \<and> r_rkey r = ''self'')"

definition commit_self ::
  "service \<Rightarrow> repo_db \<Rightarrow> string \<Rightarrow> repo_error + bytes \<times> cid \<Rightarrow> commit_error + committed" where
  "commit_self sv db collection encoded =
     (let action = (if record_exists db collection then ''update'' else ''create'') in
      rbind (map_err Repo encoded) (\<lambda>enc.
      commit_record_inner sv (make_record collection ''self'' enc action []) None))"

record profile_commit =
  pf_display_name :: string
  pf_description :: "string option"
  pf_avatar_media :: "(string \<times> string \<times> int) option"
  pf_banner_media :: "(string \<times> string \<times> int) option"
  pf_pinned_post :: "(string \<times> string) option"

definition profile_commit_new :: "string \<Rightarrow> profile_commit" where
  "profile_commit_new display_name = \<lparr>pf_display_name = display_name, pf_description = None,
     pf_avatar_media = None, pf_banner_media = None, pf_pinned_post = None\<rparr>"

definition commit_profile :: "service \<Rightarrow> repo_db \<Rightarrow> profile_commit \<Rightarrow> commit_error + committed" where
  "commit_profile sv db profile = commit_self sv db ''app.bsky.actor.profile''
     (encode_bsky_actor_profile (sv_libs sv) (pf_display_name profile) (pf_description profile)
        (pf_avatar_media profile) (pf_banner_media profile) (pf_pinned_post profile) (sv_now_str sv))"

definition commit_chat_declaration :: "service \<Rightarrow> repo_db \<Rightarrow> commit_error + committed" where
  "commit_chat_declaration sv db = commit_self sv db ''chat.bsky.actor.declaration''
     (encode_chat_actor_declaration (sv_libs sv) ''all'')"

definition commit_seiran_actor_declaration :: "service \<Rightarrow> repo_db \<Rightarrow> string \<Rightarrow> commit_error + committed" where
  "commit_seiran_actor_declaration sv db ap_actor_uri = commit_self sv db ''org.seiran.actor.declaration''
     (encode_seiran_actor_declaration (sv_libs sv) ap_actor_uri)"

definition commit_content_visibility :: "service \<Rightarrow> repo_db \<Rightarrow> bool \<Rightarrow> commit_error + committed" where
  "commit_content_visibility sv db hide = commit_self sv db ''app.bsky.actor.contentVisibilityDeclaration''
     (encode_content_visibility_declaration (sv_libs sv) hide)"

text \<open>Deletions.\<close>

definition delete_atp_record_generic :: "service \<Rightarrow> string \<Rightarrow> string \<Rightarrow> commit_error + committed" where
  "delete_atp_record_generic sv collection rkey =
     apply_write (sv_libs sv) (sv_signer sv) (Delete collection rkey) None (sv_now_str sv) (sv_env sv) 1"

definition delete_atp_repost :: "service \<Rightarrow> string \<Rightarrow> commit_error + committed" where
  "delete_atp_repost sv rkey = delete_atp_record_generic sv ''app.bsky.feed.repost'' rkey"

definition delete_atp_post :: "service \<Rightarrow> string \<Rightarrow> commit_error + committed" where
  "delete_atp_post sv rkey = delete_atp_record_generic sv ''app.bsky.feed.post'' rkey"

definition delete_atp_like :: "service \<Rightarrow> string \<Rightarrow> commit_error + committed" where
  "delete_atp_like sv rkey = delete_atp_record_generic sv ''app.bsky.feed.like'' rkey"

definition commit_delete_follow :: "service \<Rightarrow> string \<Rightarrow> commit_error + committed" where
  "commit_delete_follow sv rkey = delete_atp_record_generic sv ''app.bsky.graph.follow'' rkey"

definition commit_delete_block :: "service \<Rightarrow> string \<Rightarrow> commit_error + committed" where
  "commit_delete_block sv rkey = delete_atp_record_generic sv ''app.bsky.graph.block'' rkey"

definition delete_atp_graph_list :: "service \<Rightarrow> string \<Rightarrow> commit_error + committed" where
  "delete_atp_graph_list sv rkey = delete_atp_record_generic sv ''app.bsky.graph.list'' rkey"

definition delete_atp_graph_listitem :: "service \<Rightarrow> string \<Rightarrow> commit_error + committed" where
  "delete_atp_graph_listitem sv rkey = delete_atp_record_generic sv ''app.bsky.graph.listitem'' rkey"

section \<open>A follow and its removal\<close>

text \<open>The first attempt of the service finds the tables \<open>db\<close> and meets no conflict.\<close>

definition first_attempt :: "service \<Rightarrow> repo_db \<Rightarrow> bool" where
  "first_attempt sv db \<longleftrightarrow> env_db (sv_env sv 1) = db \<and> \<not> env_conflict (sv_env sv 1)"

text \<open>The blocks of a write have no SHA-256 collision among them or with the stored ones.\<close>

definition no_collision :: "service \<Rightarrow> repo_write \<Rightarrow> repo_db \<Rightarrow> bool" where
  "no_collision sv write db \<longleftrightarrow>
     (\<forall>pr. prepare_commit (sv_libs sv) (sv_signer sv) write (env_rev (sv_env sv 1)) db = Inr pr \<longrightarrow>
        inj_on (address (sv_libs sv)) (snd ` set (atp_blocks db) \<union> snd ` set (pr_blocks pr)))"

definition codec_laws :: "atp_libs \<Rightarrow> bool" where
  "codec_laws L \<longleftrightarrow> dagcbor_law L \<and> base32_law L \<and> cid_text_law L"

lemma apply_write_first_attempt:
  assumes "first_attempt sv db"
    and "apply_write (sv_libs sv) (sv_signer sv) write post_id now_str (sv_env sv) 1 = Inr (res, db', frs)"
  obtains frame pr where
    "prepare_commit (sv_libs sv) (sv_signer sv) write (env_rev (sv_env sv 1)) db = Inr pr"
    "write_commit (sv_libs sv) (sv_signer sv) write post_id now_str (env_rev (sv_env sv 1)) (env_seq (sv_env sv 1)) pr db
      = Inr ((res, frame), db')"
  using assms by (auto simp: first_attempt_def apply_write_decides rbind_Inr_iff try_apply_write_def)

text \<open>What a write that succeeds at its first attempt makes of the repository.\<close>

lemma apply_write_entries:
  assumes reach: "repo_reachable (sv_libs sv) (sv_signer sv) db" and laws: "codec_laws (sv_libs sv)"
    and first: "first_attempt sv db" and coll: "no_collision sv write db"
    and ok: "write_ok (sv_libs sv) db write post_id"
    and run: "apply_write (sv_libs sv) (sv_signer sv) write post_id now_str (sv_env sv) 1 = Inr (res, db', frs)"
    and load: "load_atp_entries (sv_libs sv) db = Inr es"
  obtains es' where "repo_reachable (sv_libs sv) (sv_signer sv) db'"
    "load_atp_entries (sv_libs sv) db' = Inr es'" "sort_key fst es' = replace_entry write es"
    "repo_view (sv_libs sv) db' es'"
    "\<And>r. write = Put r \<Longrightarrow> stored_block (sv_libs sv) db' (cr_cid r) = Some (cr_cbor r)"
proof -
  from laws have l: "dagcbor_law (sv_libs sv)" "base32_law (sv_libs sv)" "cid_text_law (sv_libs sv)"
    by (simp_all add: codec_laws_def)
  from apply_write_first_attempt [OF first run] obtain frame pr where
    pr: "prepare_commit (sv_libs sv) (sv_signer sv) write (env_rev (sv_env sv 1)) db = Inr pr"
    and wr: "write_commit (sv_libs sv) (sv_signer sv) write post_id now_str (env_rev (sv_env sv 1))
      (env_seq (sv_env sv 1)) pr db = Inr ((res, frame), db')" by blast
  have inj: "inj_on (address (sv_libs sv)) (snd ` set (atp_blocks db) \<union> snd ` set (pr_blocks pr))"
    using coll pr by (simp add: no_collision_def)
  have inv: "repo_inv (sv_libs sv) db" using repo_reachable_inv [OF l reach] by blast
  note step = try_apply_write_inv [OF inv ok pr wr inj l]
  from step obtain es' where es': "load_atp_entries (sv_libs sv) db' = Inr es'" "sort_key fst es' = pr_entries pr"
    and view: "repo_view (sv_libs sv) db' (pr_entries pr)"
    and stored: "\<And>r. write = Put r \<Longrightarrow> stored_block (sv_libs sv) db' (cr_cid r) = Some (cr_cbor r)" by blast
  have ents: "pr_entries pr = replace_entry write es"
    using pr load by (auto simp: prepare_commit_def rbind_Inr_iff Let_def)
  show ?thesis
  proof (rule that)
    show "repo_reachable (sv_libs sv) (sv_signer sv) db'" by (rule repo_reachable.commit [OF reach ok pr wr inj])
    show "repo_view (sv_libs sv) db' es'"
      using view by (simp add: repo_view_def flip: es'(2))
        (simp add: sort_key_id_if_sorted)
    show "sort_key fst es' = replace_entry write es" using es'(2) ents by simp
    show "stored_block (sv_libs sv) db' (cr_cid r) = Some (cr_cbor r)" if "write = Put r" for r
      using stored that .
  qed (rule es'(1))
qed

text \<open>Removing an entry that was just added gives the old entries, and adding it keeps the others.\<close>

lemma replace_entry_put_delete:
  assumes "k = write_key (Put r)" "write_key (Delete col rk) = k" "k \<notin> fst ` set es"
    and "sort_key fst es' = replace_entry (Put r) es"
  shows "replace_entry (Delete col rk) es' = sort_key fst es" "set es' = insert (k, cr_cid r) (set es)"
proof -
  have keep: "filter (\<lambda>(k', _). k' \<noteq> k) es = es"
    using assms(3) by (force simp: filter_id_conv)
  have put: "sort_key fst es' = sort_key fst (es @ [(k, cr_cid r)])"
    using assms(1,4) keep by (simp add: replace_entry_def write_key_def Let_def)
  have "replace_entry (Delete col rk) es' = filter (\<lambda>(k', _). k' \<noteq> k) (sort_key fst es')"
    using assms(2) by (simp add: replace_entry_def write_key_def Let_def filter_sort)
  also have "\<dots> = sort_key fst es" unfolding put filter_sort by (simp add: keep)
  finally show "replace_entry (Delete col rk) es' = sort_key fst es" .
  have "set (sort_key fst es') = set (sort_key fst (es @ [(k, cr_cid r)]))" by (simp only: put)
  then show "set es' = insert (k, cr_cid r) (set es)" by simp
qed

text \<open>The key of a follow is fit for the tree.\<close>

lemma tid_chars_alphabet: "set (tid_chars n v) \<subseteq> set S32_CHARS"
proof (induction n arbitrary: v)
  case (Suc n)
  have "unat (v AND 0x1F) < length S32_CHARS" by (simp add: unat_and_31 S32_CHARS_def)
  then show ?case using Suc by (auto intro: nth_mem)
qed simp

lemma utf8_valid_tid: "utf8_valid (as_bytes (record_key ''app.bsky.graph.follow'' (new_rkey sv)))"
proof -
  have "byte_of_char c < 0x80" if "c \<in> set S32_CHARS" for c
    using that by (auto simp: S32_CHARS_def byte_of_char_def)
  then show ?thesis
    using tid_chars_alphabet [of 13 "tid_value (sv_ts_us sv) (sv_rand sv)"]
    by (intro utf8_valid_ascii)
      (fastforce simp: record_key_def as_bytes_def new_rkey_def generate_tid_def list_all_iff byte_of_char_def)
qed

lemma commit_follow_Inr:
  assumes "commit_follow sv subject_did = Inr (c, rkey)"
    and "encode_bsky_graph_follow (sv_libs sv) subject_did (sv_now_str sv) = Inr (cbor, cd)"
  shows "rkey = new_rkey sv" "cd = cid_from_dagcbor (sv_libs sv) cbor"
    "apply_write (sv_libs sv) (sv_signer sv) (Put (make_record ''app.bsky.graph.follow'' rkey (cbor, cd) ''create'' []))
       None (sv_now_str sv) (sv_env sv) 1 = Inr c"
  using assms by (auto simp: commit_follow_def Let_def rbind_Inr_iff commit_record_inner_def
      encode_bsky_graph_follow_def encode_record_def)

text \<open>
  C2. Unfollowing undoes the follow: the record of a follow is added to the repository under the key
  that the operation returns (which the caller stores), beside the records that were there, and its
  bytes are stored; deleting that key leads to a repository whose tree is walked to exactly the
  records before the follow. The new key is unused, the attempts meet no conflict, the stored blocks
  have no SHA-256 collision, and the libraries read back what they wrote.
\<close>
theorem follow_unfollow_restores:
  assumes "repo_reachable (sv_libs sv) (sv_signer sv) db" "codec_laws (sv_libs sv)"
    and "load_atp_entries (sv_libs sv) db = Inr es"
    and "record_key ''app.bsky.graph.follow'' (new_rkey sv) \<notin> fst ` set es"
    and "first_attempt sv db" "commit_follow sv subject_did = Inr ((res, db', frs), rkey)"
    and "encode_bsky_graph_follow (sv_libs sv) subject_did (sv_now_str sv) = Inr (cbor, c)"
    and "no_collision sv (Put (make_record ''app.bsky.graph.follow'' rkey (cbor, c) ''create'' [])) db"
    and "no_collision sv2 (Delete ''app.bsky.graph.follow'' rkey) db'"
    and "first_attempt sv2 db'" "commit_delete_follow sv2 rkey = Inr (res2, db'', frs2)"
    and "sv_libs sv2 = sv_libs sv" "sv_signer sv2 = sv_signer sv"
  shows "\<exists>es'. load_atp_entries (sv_libs sv) db' = Inr es'
    \<and> set es' = insert (record_key ''app.bsky.graph.follow'' rkey, c) (set es)
    \<and> repo_view (sv_libs sv) db' es' \<and> stored_block (sv_libs sv) db' c = Some cbor
    \<and> repo_view (sv_libs sv) db'' es"
proof -
  define r where "r = make_record ''app.bsky.graph.follow'' rkey (cbor, c) ''create'' []"
  note put = commit_follow_Inr [OF assms(6,7)]
  have rkey: "rkey = new_rkey sv" and c: "c = cid_from_dagcbor (sv_libs sv) cbor" by (rule put)+
  have run: "apply_write (sv_libs sv) (sv_signer sv) (Put r) None (sv_now_str sv) (sv_env sv) 1 = Inr (res, db', frs)"
    unfolding r_def by (rule put(3))
  have r: "cr_cid r = c" "cr_cbor r = cbor" "write_key (Put r) = record_key ''app.bsky.graph.follow'' rkey"
    by (simp_all add: r_def make_record_def write_key_def)
  have ok: "write_ok (sv_libs sv) db (Put r) None"
    using utf8_valid_tid [of sv]
    by (simp add: r_def make_record_def write_ok_def c rkey POST_COLLECTION_def record_key_def new_rkey_def generate_tid_def)
  from apply_write_entries [OF assms(1,2,5) assms(8) [folded r_def] ok run assms(3)] obtain es' where
    one: "repo_reachable (sv_libs sv) (sv_signer sv) db'" "load_atp_entries (sv_libs sv) db' = Inr es'"
      "sort_key fst es' = replace_entry (Put r) es" "repo_view (sv_libs sv) db' es'"
      "stored_block (sv_libs sv) db' c = Some cbor" by (metis r(1,2))
  have same: "write_key (Delete ''app.bsky.graph.follow'' rkey) = write_key (Put r)"
    unfolding r(3) by (simp add: write_key_def)
  note restored = replace_entry_put_delete [OF refl same _ one(3), unfolded r(3), OF assms(4) [folded rkey]]
  have ok2: "write_ok (sv_libs sv2) db' (Delete ''app.bsky.graph.follow'' rkey) None"
    by (simp add: write_ok_def POST_COLLECTION_def)
  have run2: "apply_write (sv_libs sv2) (sv_signer sv2) (Delete ''app.bsky.graph.follow'' rkey) None (sv_now_str sv2)
      (sv_env sv2) 1 = Inr (res2, db'', frs2)"
    using assms(11) by (simp add: commit_delete_follow_def delete_atp_record_generic_def)
  from apply_write_entries [of sv2 db', OF _ _ assms(10,9) ok2 run2, unfolded assms(12,13), OF one(1) assms(2) one(2)]
  obtain es'' where "sort_key fst es'' = sort_key fst es" "repo_view (sv_libs sv) db'' es''"
    using restored(1) by metis
  then have "repo_view (sv_libs sv) db'' es" by (simp add: repo_view_def)
  with one restored(2) r(1) show ?thesis by blast
qed

section \<open>A follow and its removal in a new repository\<close>

definition demo_follow_key :: string where
  "demo_follow_key = record_key ''app.bsky.graph.follow'' (generate_tid 0 0)"

definition follow_table :: "ipld list" where
  "follow_table =
     [node_ipld \<lparr>node_e = [\<lparr>entry_k = as_bytes demo_follow_key, entry_p = 0, entry_t = None, entry_v = demo_cid [4]\<rparr>],
        node_l = None\<rparr>,
      unsigned_commit (demo_cid [0]) ''did:plc:a'' None ''r1'',
      signed_commit (demo_cid [0]) ''did:plc:a'' None ''r1'' [1],
      car_header (demo_cid [2]),
      ipld_obj [(''$type'', IString ''app.bsky.graph.follow''), (''subject'', IString ''did:b''),
        (''createdAt'', IString ''now'')],
      node_ipld \<lparr>node_e = [], node_l = None\<rparr>,
      unsigned_commit (demo_cid [5]) ''did:plc:a'' (Some (demo_cid [2])) ''r2'',
      signed_commit (demo_cid [5]) ''did:plc:a'' (Some (demo_cid [2])) ''r2'' [6],
      car_header (demo_cid [7])]"

abbreviation "follow_libs \<equiv> table_libs follow_table"

definition follow_service :: "repo_db \<Rightarrow> string \<Rightarrow> service" where
  "follow_service db new_rev = \<lparr>sv_libs = follow_libs, sv_signer = demo_signer, sv_ts_us = 0, sv_rand = 0,
     sv_now_str = ''now'', sv_env = (\<lambda>k. \<lparr>env_db = db, env_rev = new_rev, env_seq = 1, env_conflict = False\<rparr>)\<rparr>"

lemma follow_service_sel [simp]:
  "sv_libs (follow_service db new_rev) = follow_libs" "sv_signer (follow_service db new_rev) = demo_signer"
  "sv_now_str (follow_service db new_rev) = ''now''" "new_rkey (follow_service db new_rev) = generate_tid 0 0"
  "sv_env (follow_service db new_rev) k = \<lparr>env_db = db, env_rev = new_rev, env_seq = 1, env_conflict = False\<rparr>"
  by (simp_all add: follow_service_def new_rkey_def)

text \<open>One-byte blocks have distinct addresses.\<close>

lemma last_digest_bytes: "last (digest_bytes d) = ucast d"
  by (simp add: digest_bytes_def last_map last_rev)

lemma demo_cid_byte: "demo_cid [a] = demo_cid [b] \<longleftrightarrow> a = b"
proof -
  have "(ucast (ucast c + 1 :: 256 word) :: byte) = c + 1" for c :: byte
    by transfer (simp add: take_bit_eq_mod mod_simps)
  then have "last (mh_digest (cid_hash (demo_cid [c]))) = c + 1" for c
    by (simp add: demo_cid_def cid_new_v1_def last_digest_bytes demo_sum_def)
  then show ?thesis by (metis add_right_cancel)
qed

lemma address_byte: "address (table_libs tbl) [a] = address (table_libs tbl) [b] \<longleftrightarrow> a = b"
proof -
  have "address (table_libs tbl) [c] = string_of_bytes (0x71 # mh_digest (cid_hash (demo_cid [c])))" for c
    by (simp add: address_def) (simp add: demo_libs_def demo_cid_def cid_new_v1_def)
  moreover have "string_of_bytes x = string_of_bytes y \<longleftrightarrow> x = y" for x y
    by (metis as_bytes_string_of_bytes)
  ultimately have "address (table_libs tbl) [a] = address (table_libs tbl) [b] \<longleftrightarrow>
      mh_digest (cid_hash (demo_cid [a])) = mh_digest (cid_hash (demo_cid [b]))" by simp
  also have "\<dots> \<longleftrightarrow> demo_cid [a] = demo_cid [b]" by (auto simp: demo_cid_def cid_new_v1_def)
  finally show ?thesis by (simp add: demo_cid_byte)
qed

lemma inj_on_address_bytes: "S \<subseteq> range (\<lambda>a. [a]) \<Longrightarrow> inj_on (address (table_libs tbl)) S"
  by (rule inj_on_subset [of _ "range (\<lambda>a. [a])"]) (auto simp: inj_on_def address_byte)

lemma table_cid_text: "cid_text_law (table_libs tbl)"
proof -
  have "(ucast (ucast (0x71 :: 64 word) :: byte) :: 64 word) = 0x71" by simp
  then show ?thesis
    by (simp add: cid_text_law_def) (simp add: demo_libs_def demo_cid_def cid_new_v1_def)
qed

lemma follow_codec_laws: "codec_laws follow_libs"
  by (simp add: codec_laws_def demo_dagcbor_law demo_base32_law table_cid_text)

lemma follow_encodings:
  "table_to_vec follow_table (follow_table ! k) = Inr [of_nat k]" if "k \<in> {..<9}"
proof -
  have "distinct follow_table"
    by (simp add: follow_table_def node_ipld_def unsigned_commit_def signed_commit_def commit_fields_def
        car_header_def ipld_obj_def btree_of_def demo_cid_byte)
  moreover have "position (xs ! k) xs = Some k" if "distinct xs" "k < length xs" for xs :: "ipld list" and k
    using that by (induction xs arbitrary: k) (auto simp: nth_Cons split: nat.splits)
  moreover have "length follow_table = 9" by (simp add: follow_table_def)
  ultimately show ?thesis using that by (simp add: table_to_vec_def)
qed


definition demo_follow :: commit_record where
  "demo_follow = make_record ''app.bsky.graph.follow'' (generate_tid 0 0) ([4], demo_cid [4]) ''create'' []"

lemma build_mst_single:
  assumes "dagcbor_to_vec L (node_ipld \<lparr>node_e = [\<lparr>entry_k = as_bytes k, entry_p = 0, entry_t = None, entry_v = c\<rparr>],
    node_l = None\<rparr>) = Inr b"
  shows "build_mst L [(k, c)] = Inr (cid_from_dagcbor L b, [(cid_from_dagcbor L b, b)])"
  using assms by (cases "leading_zeros_on_hash L k")
    (simp_all add: build_mst_def layer_node_def layer_step_def layer_init_def flush_subtree_def attach_subtree_def
      layer_finish_def common_prefix_len_def Let_def)

lemma encode_car_ok: "dagcbor_to_vec L (car_header root) = Inr h \<Longrightarrow> \<exists>car. encode_car L root blocks = Inr car"
  by (simp add: encode_car_def Let_def)

lemma follow_table_values:
  "table_to_vec follow_table (node_ipld \<lparr>node_e = [\<lparr>entry_k = as_bytes demo_follow_key, entry_p = 0, entry_t = None,
     entry_v = demo_cid [4]\<rparr>], node_l = None\<rparr>) = Inr [0]"
  "table_to_vec follow_table (unsigned_commit (demo_cid [0]) ''did:plc:a'' None ''r1'') = Inr [1]"
  "table_to_vec follow_table (signed_commit (demo_cid [0]) ''did:plc:a'' None ''r1'' [1]) = Inr [2]"
  "table_to_vec follow_table (car_header (demo_cid [2])) = Inr [3]"
  "table_to_vec follow_table (ipld_obj [(''$type'', IString ''app.bsky.graph.follow''), (''subject'', IString ''did:b''),
        (''createdAt'', IString ''now'')]) = Inr [4]"
  "table_to_vec follow_table (node_ipld \<lparr>node_e = [], node_l = None\<rparr>) = Inr [5]"
  "table_to_vec follow_table (unsigned_commit (demo_cid [5]) ''did:plc:a'' (Some (demo_cid [2])) ''r2'') = Inr [6]"
  "table_to_vec follow_table (signed_commit (demo_cid [5]) ''did:plc:a'' (Some (demo_cid [2])) ''r2'' [6]) = Inr [7]"
  "table_to_vec follow_table (car_header (demo_cid [7])) = Inr [8]"
  using follow_encodings [of 0] follow_encodings [of 1] follow_encodings [of 2] follow_encodings [of 3]
    follow_encodings [of 4] follow_encodings [of 5] follow_encodings [of 6] follow_encodings [of 7] follow_encodings [of 8]
  by (simp_all add: follow_table_def)

lemma follow_commits:
  "create_commit follow_libs demo_signer ''did:plc:a'' ''r1'' (demo_cid [0]) None [] = Inr (demo_cid [2], [2])"
  "create_commit follow_libs demo_signer ''did:plc:a'' ''r2'' (demo_cid [5]) (Some (demo_cid [2])) [] = Inr (demo_cid [7], [7])"
  by (simp_all add: create_commit_def demo_signer_def follow_table_values Let_def)

definition follow_prepared :: "bytes \<Rightarrow> prepared" where
  "follow_prepared car = \<lparr>pr_did = ''did:plc:a'', pr_entries = [(demo_follow_key, demo_cid [4])], pr_mst_root = demo_cid [0],
     pr_commit_cid = demo_cid [2], pr_blocks = [(demo_cid [0], [0]), (demo_cid [4], [4]), (demo_cid [2], [2])],
     pr_car = car\<rparr>"

lemma demo_follow_sel [simp]:
  "write_collection (Put demo_follow) = ''app.bsky.graph.follow''" "write_rkey (Put demo_follow) = generate_tid 0 0"
  "cr_cid demo_follow = demo_cid [4]" "cr_cbor demo_follow = [4]" "cr_collection demo_follow = ''app.bsky.graph.follow''"
  "cr_rkey demo_follow = generate_tid 0 0"
  by (simp_all add: demo_follow_def make_record_def)

lemma follow_prepare:
  "\<exists>car. prepare_commit follow_libs demo_signer (Put demo_follow) ''r1'' demo_db = Inr (follow_prepared car)"
proof -
  from encode_car_ok [of follow_libs "demo_cid [2]"] obtain car where car: "encode_car follow_libs (demo_cid [2])
      [(demo_cid [0], [0]), (demo_cid [4], [4]), (demo_cid [2], [2])] = Inr car"
    using follow_table_values by auto
  have "load_atp_entries follow_libs demo_db = Inr []"
    by (simp add: load_atp_entries_def post_entries_def record_entries_def demo_db_def)
  moreover have "replace_entry (Put demo_follow) [] = [(demo_follow_key, demo_cid [4])]"
    by (simp add: replace_entry_def demo_follow_key_def)
  moreover have "build_mst follow_libs [(demo_follow_key, demo_cid [4])] = Inr (demo_cid [0], [(demo_cid [0], [0])])"
    using build_mst_single [of follow_libs] follow_table_values by simp
  ultimately have "prepare_commit follow_libs demo_signer (Put demo_follow) ''r1'' demo_db = Inr (follow_prepared car)"
    using follow_commits car
    by (simp add: prepare_commit_def follow_prepared_def parse_stored_cid_def Let_def)
      (simp add: demo_db_def demo_signer_def as_bytes_def)
  then show ?thesis by blast
qed

text \<open>What the second operation reads of the tables.\<close>

definition followed :: "repo_db \<Rightarrow> bool" where
  "followed db \<longleftrightarrow> at_did db = Some ''did:plc:a'' \<and> at_signing_key_pem db = Some []
     \<and> at_repo_cid db = Some (cid_display follow_libs (demo_cid [2])) \<and> db_posts db = []
     \<and> atp_records db = [\<lparr>r_collection = ''app.bsky.graph.follow'', r_rkey = generate_tid 0 0,
          r_cid = cid_display follow_libs (demo_cid [4])\<rparr>]
     \<and> snd ` set (atp_blocks db) \<subseteq> range (\<lambda>a. [a])"

lemma insert_blocks_bytes:
  "snd ` set bs \<subseteq> A \<Longrightarrow> snd ` set ds \<subseteq> A \<Longrightarrow> snd ` set (fold (insert_block L) bs ds) \<subseteq> A"
proof (induction bs arbitrary: ds)
  case (Cons b bs)
  moreover have "snd ` set (insert_block L b ds) \<subseteq> A"
    using Cons.prems by (cases b) (simp add: insert_block_def)
  ultimately show ?case by simp
qed simp

lemma follow_write:
  "\<exists>res db'. write_commit follow_libs demo_signer (Put demo_follow) None ''now'' ''r1'' 1 (follow_prepared car) demo_db
     = Inr (res, db') \<and> followed db'"
proof -
  have "snd ` set (fold (insert_block follow_libs) (pr_blocks (follow_prepared car)) []) \<subseteq> range (\<lambda>a. [a])"
    by (rule insert_blocks_bytes) (auto simp: follow_prepared_def)
  then show ?thesis
    by (simp add: write_commit_def reflect_write_def followed_def insert_blocks_def POST_COLLECTION_def demo_db_def
        cid_to_string_def Let_def) (simp add: follow_prepared_def)
qed

lemma parse_demo_cid: "cid_parse follow_libs (cid_display follow_libs (demo_cid b)) = Inr (demo_cid b)"
  using table_cid_text [of follow_table] by (simp add: cid_text_law_def)

lemma unfollow_prepare:
  assumes "followed db"
  shows "\<exists>pr. prepare_commit follow_libs demo_signer (Delete ''app.bsky.graph.follow'' (generate_tid 0 0)) ''r2'' db = Inr pr
    \<and> snd ` set (pr_blocks pr) \<subseteq> range (\<lambda>a. [a])"
proof -
  from encode_car_ok [of follow_libs "demo_cid [7]"] obtain car where car: "encode_car follow_libs (demo_cid [7])
      [(demo_cid [5], [5]), (demo_cid [7], [7])] = Inr car"
    using follow_table_values by auto
  have "load_atp_entries follow_libs db = Inr [(demo_follow_key, demo_cid [4])]"
    using assms parse_demo_cid
    by (simp add: load_atp_entries_def post_entries_def record_entries_def followed_def demo_follow_key_def
        cid_from_str_def del: table_libs_sel)
  moreover have "replace_entry (Delete ''app.bsky.graph.follow'' (generate_tid 0 0)) [(demo_follow_key, demo_cid [4])] = []"
    by (simp add: replace_entry_def demo_follow_key_def)
  moreover have "build_mst follow_libs [] = Inr (demo_cid [5], [(demo_cid [5], [5])])"
    by (simp add: build_mst_def follow_table_values Let_def)
  moreover have "parse_stored_cid follow_libs (at_repo_cid db) = Some (demo_cid [2])"
    using assms parse_demo_cid by (simp add: parse_stored_cid_def followed_def cid_from_str_def del: table_libs_sel)
  moreover have "key_from_pem demo_signer [] = Inr []" by (simp add: demo_signer_def as_bytes_def)
  ultimately show ?thesis
    using follow_commits car assms by (auto simp: prepare_commit_def Let_def followed_def)
qed


lemma unfollow_runs:
  assumes "followed db"
  shows "\<exists>c. commit_delete_follow (follow_service db ''r2'') (generate_tid 0 0) = Inr c"
proof -
  obtain pr where "prepare_commit follow_libs demo_signer (Delete ''app.bsky.graph.follow'' (generate_tid 0 0)) ''r2'' db = Inr pr"
    using unfollow_prepare [OF assms] by blast
  then have "\<exists>x. try_apply_write follow_libs demo_signer (Delete ''app.bsky.graph.follow'' (generate_tid 0 0)) None ''now'' ''r2'' 1 db = Inr x"
    by (simp add: try_apply_write_def write_commit_def reflect_write_def Let_def)
  then show ?thesis
    by (auto simp: commit_delete_follow_def delete_atp_record_generic_def apply_write_decides)
qed

lemma unfollow_no_collision:
  "followed db \<Longrightarrow> no_collision (follow_service db ''r2'') (Delete ''app.bsky.graph.follow'' (generate_tid 0 0)) db"
proof -
  assume db: "followed db"
  then have "snd ` set (atp_blocks db) \<subseteq> range (\<lambda>a. [a])" by (simp add: followed_def)
  then show ?thesis
    using unfollow_prepare [OF db] inj_on_address_bytes Un_least by (clarsimp simp: no_collision_def)
qed

lemma follow_no_collision: "no_collision (follow_service demo_db ''r1'') (Put demo_follow) demo_db"
  using follow_prepare
  by (auto simp: no_collision_def demo_db_def follow_prepared_def intro!: inj_on_address_bytes)

lemma follow_encoded: "encode_bsky_graph_follow follow_libs ''did:b'' ''now'' = Inr ([4], demo_cid [4])"
  by (simp add: encode_bsky_graph_follow_def encode_record_def follow_table_values)

lemma follow_runs:
  "\<exists>res db' frs. commit_follow (follow_service demo_db ''r1'') ''did:b'' = Inr ((res, db', frs), generate_tid 0 0) \<and> followed db'"
proof -
  obtain car where pr: "prepare_commit follow_libs demo_signer (Put demo_follow) ''r1'' demo_db = Inr (follow_prepared car)"
    using follow_prepare by blast
  obtain res db' where "write_commit follow_libs demo_signer (Put demo_follow) None ''now'' ''r1'' 1 (follow_prepared car) demo_db
      = Inr (res, db')" "followed db'"
    using follow_write by blast
  with pr have "try_apply_write follow_libs demo_signer (Put demo_follow) None ''now'' ''r1'' 1 demo_db = Inr (res, db')"
    by (simp add: try_apply_write_def)
  with \<open>followed db'\<close> show ?thesis
    by (cases res) (auto simp: commit_follow_def follow_encoded commit_record_inner_def apply_write_decides demo_follow_def Let_def)
qed

theorem follow_unfollow_restores_witness:
  "\<exists>res db' frs rkey res2 db'' frs2. commit_follow (follow_service demo_db ''r1'') ''did:b'' = Inr ((res, db', frs), rkey)
     \<and> commit_delete_follow (follow_service db' ''r2'') rkey = Inr (res2, db'', frs2)
     \<and> stored_block follow_libs db' (demo_cid [4]) = Some [4] \<and> repo_view follow_libs db'' []"
proof -
  obtain res db' frs where f: "commit_follow (follow_service demo_db ''r1'') ''did:b'' = Inr ((res, db', frs), generate_tid 0 0)"
    and db': "followed db'" using follow_runs by blast
  obtain res2 db'' frs2 where u: "commit_delete_follow (follow_service db' ''r2'') (generate_tid 0 0) = Inr (res2, db'', frs2)"
    using unfollow_runs [OF db'] by (metis prod_cases3)
  have "repo_reachable follow_libs demo_signer demo_db"
    by (rule start) (simp add: new_repository_def demo_db_def)
  moreover have "load_atp_entries follow_libs demo_db = Inr []"
    by (simp add: load_atp_entries_def post_entries_def record_entries_def demo_db_def)
  ultimately have "stored_block follow_libs db' (demo_cid [4]) = Some [4] \<and> repo_view follow_libs db'' []"
    using follow_unfollow_restores [of "follow_service demo_db ''r1''" demo_db "[]" "''did:b''" res db' frs "generate_tid 0 0"
        "[4]" "demo_cid [4]" "follow_service db' ''r2''" res2 db'' frs2] f u follow_codec_laws follow_encoded
      follow_no_collision unfollow_no_collision [OF db']
    by (auto simp: first_attempt_def simp flip: demo_follow_def)
  with f u show ?thesis by blast
qed

section \<open>Keys with a slash\<close>

text \<open>
  A collection with a slash makes two rows of \<open>atp_records\<close> meet in one key of the tree: the
  uniqueness of the rows does not give distinct keys. The callers that take the collection from a
  request do not check it.
\<close>

lemma slash_keys_collide:
  "atp_records db = [\<lparr>r_collection = c @ CHR ''/'' # d, r_rkey = rk, r_cid = x\<rparr>,
     \<lparr>r_collection = c, r_rkey = d @ CHR ''/'' # rk, r_cid = y\<rparr>] \<Longrightarrow>
   distinct (map (\<lambda>r. (r_collection r, r_rkey r)) (atp_records db)) \<and> \<not> distinct (map fst (record_entries db))"
  by (simp add: record_entries_def record_key_def)

end
