(* ===== verification/Net.thy ===== *)
theory Net
  imports Prelude
begin

text \<open>
  The guard against requests to the internal network (\<open>crates/seiran-common/src/net.rs\<close>): which IP
  addresses are public, the check of an URL before a request, the fetch loop that validates every
  redirect and pins the connection to the validated addresses, the DNS resolver and the redirect
  policy of the federation client. The URL parser, DNS and the HTTP server on the other side are
  parameters; nothing is assumed of them, so that they may answer as an attacker wants.

  An \<open>Ipv4Addr\<close> is a \<open>32 word\<close> and an \<open>Ipv6Addr\<close> a \<open>128 word\<close>, most significant byte first.
\<close>

section \<open>Addresses\<close>

type_synonym ipv4 = "32 word"
type_synonym ipv6 = "128 word"

datatype ip_addr = V4 ipv4 | V6 ipv6

definition octet :: "ipv4 \<Rightarrow> nat \<Rightarrow> byte" where
  "octet ip i = ucast (drop_bit (24 - 8 * i) ip)"

definition segment :: "ipv6 \<Rightarrow> nat \<Rightarrow> 16 word" where
  "segment ip i = ucast (drop_bit (112 - 16 * i) ip)"

definition ipv4_new :: "byte \<Rightarrow> byte \<Rightarrow> byte \<Rightarrow> byte \<Rightarrow> ipv4" where
  "ipv4_new a b c d = push_bit 24 (ucast a) OR push_bit 16 (ucast b) OR push_bit 8 (ucast c) OR ucast d"

text \<open>The classification methods of \<open>std::net\<close> that the code calls.\<close>

definition v4_is_private :: "ipv4 \<Rightarrow> bool" where
  "v4_is_private ip \<longleftrightarrow> octet ip 0 = 10
     \<or> (octet ip 0 = 172 \<and> 16 \<le> octet ip 1 \<and> octet ip 1 \<le> 31)
     \<or> (octet ip 0 = 192 \<and> octet ip 1 = 168)"

definition v4_is_loopback :: "ipv4 \<Rightarrow> bool" where
  "v4_is_loopback ip \<longleftrightarrow> octet ip 0 = 127"

definition v4_is_link_local :: "ipv4 \<Rightarrow> bool" where
  "v4_is_link_local ip \<longleftrightarrow> octet ip 0 = 169 \<and> octet ip 1 = 254"

definition v4_is_multicast :: "ipv4 \<Rightarrow> bool" where
  "v4_is_multicast ip \<longleftrightarrow> 224 \<le> octet ip 0 \<and> octet ip 0 \<le> 239"

definition v4_is_broadcast :: "ipv4 \<Rightarrow> bool" where
  "v4_is_broadcast ip \<longleftrightarrow> ip = 0xFFFFFFFF"

definition v4_is_unspecified :: "ipv4 \<Rightarrow> bool" where
  "v4_is_unspecified ip \<longleftrightarrow> ip = 0"

definition v4_is_documentation :: "ipv4 \<Rightarrow> bool" where
  "v4_is_documentation ip \<longleftrightarrow> (octet ip 0 = 192 \<and> octet ip 1 = 0 \<and> octet ip 2 = 2)
     \<or> (octet ip 0 = 198 \<and> octet ip 1 = 51 \<and> octet ip 2 = 100)
     \<or> (octet ip 0 = 203 \<and> octet ip 1 = 0 \<and> octet ip 2 = 113)"

definition v6_is_loopback :: "ipv6 \<Rightarrow> bool" where
  "v6_is_loopback ip \<longleftrightarrow> ip = 1"

definition v6_is_unspecified :: "ipv6 \<Rightarrow> bool" where
  "v6_is_unspecified ip \<longleftrightarrow> ip = 0"

definition v6_is_multicast :: "ipv6 \<Rightarrow> bool" where
  "v6_is_multicast ip \<longleftrightarrow> segment ip 0 AND 0xFF00 = 0xFF00"

definition v6_to_ipv4_mapped :: "ipv6 \<Rightarrow> ipv4 option" where
  "v6_to_ipv4_mapped ip = (if map (segment ip) [0..<6] = [0, 0, 0, 0, 0, 0xFFFF] then Some (ucast ip) else None)"

section \<open>Public addresses\<close>

definition is_public_ipv4 :: "ipv4 \<Rightarrow> bool" where
  "is_public_ipv4 ip =
     (let a = octet ip 0; b = octet ip 1; c = octet ip 2 in
      \<not> (v4_is_private ip \<or> v4_is_loopback ip \<or> v4_is_link_local ip \<or> v4_is_multicast ip
         \<or> v4_is_broadcast ip \<or> v4_is_unspecified ip \<or> v4_is_documentation ip
         \<or> a = 0 \<or> a \<ge> 240 \<or> (a = 100 \<and> 64 \<le> b \<and> b \<le> 127)
         \<or> (a = 192 \<and> b = 0 \<and> c = 0) \<or> (a = 198 \<and> (b = 18 \<or> b = 19))))"

definition high_byte :: "16 word \<Rightarrow> byte" where
  "high_byte s = ucast (drop_bit 8 s)"

definition low_byte :: "16 word \<Rightarrow> byte" where
  "low_byte s = ucast s"

definition embedded_ipv4 :: "ipv6 \<Rightarrow> ipv4 option" where
  "embedded_ipv4 ip = (case v6_to_ipv4_mapped ip of
      Some v4 \<Rightarrow> Some v4
    | None \<Rightarrow>
        (let seg = segment ip; head = map seg [0..<6];
             tail = ipv4_new (high_byte (seg 6)) (low_byte (seg 6)) (high_byte (seg 7)) (low_byte (seg 7))
         in if head = [0, 0, 0, 0, 0, 0] \<and> \<not> v6_is_loopback ip \<and> \<not> v6_is_unspecified ip then Some tail
            else if head = [0x64, 0xFF9B, 0, 0, 0, 0] then Some tail
            else if seg 0 = 0x2002
            then Some (ipv4_new (high_byte (seg 1)) (low_byte (seg 1)) (high_byte (seg 2)) (low_byte (seg 2)))
            else None))"

fun is_public_ip :: "ip_addr \<Rightarrow> bool" where
  "is_public_ip (V4 ip) = is_public_ipv4 ip"
| "is_public_ip (V6 ip) = (case embedded_ipv4 ip of
      Some v4 \<Rightarrow> is_public_ipv4 v4
    | None \<Rightarrow> \<not> (v6_is_loopback ip \<or> v6_is_unspecified ip \<or> v6_is_multicast ip
         \<or> segment ip 0 AND 0xFE00 = 0xFC00 \<or> segment ip 0 AND 0xFFC0 = 0xFE80
         \<or> (segment ip 0 = 0x2001 \<and> segment ip 1 = 0x0DB8)))"

section \<open>URLs and requests\<close>

datatype fetch_error = InvalidUrl | DnsFailed | PrivateAddress | FetchFailed | TooManyRedirects
  | InvalidRedirect | UpstreamError | TooLarge | UnsupportedType

datatype url_host = Host_Ipv4 ipv4 | Host_Ipv6 ipv6 | Host_Domain string

text \<open>What the code reads of a parsed URL.\<close>

record url =
  url_scheme :: string
  url_username :: string
  url_password :: "string option"
  url_fragment :: "string option"
  url_host :: "url_host option"
  url_host_str :: "string option"
  url_port_or_known_default :: "nat option"
  url_as_str :: string

record http_response =
  resp_status :: nat
  resp_location :: "string option"
  resp_content_type :: "string option"
  resp_content_length :: "nat option"
  resp_chunks :: "(bytes option) list" \<comment> \<open>\<open>None\<close> is a failure of the transfer\<close>

text \<open>
  The environment: the URL parser and the resolution of a relative reference, and, for the n-th
  question of a run, the answer of the name service (\<open>None\<close> is a failure) and of the server.
\<close>

record net_env =
  parse_url :: "string \<Rightarrow> url option"
  url_join :: "url \<Rightarrow> string \<Rightarrow> url option"
  lookup_host :: "nat \<Rightarrow> string \<times> nat \<Rightarrow> ip_addr list option"
  http_get :: "nat \<Rightarrow> url \<Rightarrow> ip_addr list \<Rightarrow> http_response option"

definition MAX_FETCH_BYTES :: nat where
  "MAX_FETCH_BYTES = 25 * 1024 * 1024"

definition MAX_REDIRECTS :: nat where
  "MAX_REDIRECTS = 5"

definition MAX_FEDERATION_REDIRECTS :: nat where
  "MAX_FEDERATION_REDIRECTS = 10"

definition url_host_is_allowed :: "url \<Rightarrow> bool" where
  "url_host_is_allowed u = (case url_host u of
      Some (Host_Ipv4 ip) \<Rightarrow> is_public_ipv4 ip
    | Some (Host_Ipv6 ip) \<Rightarrow> is_public_ip (V6 ip)
    | Some (Host_Domain d) \<Rightarrow> True
    | None \<Rightarrow> False)"

definition http_scheme :: "url \<Rightarrow> bool" where
  "http_scheme u \<longleftrightarrow> url_scheme u = ''http'' \<or> url_scheme u = ''https''"

definition ensure_public_url :: "net_env \<Rightarrow> bool \<Rightarrow> string \<Rightarrow> fetch_error + unit" where
  "ensure_public_url E private_network_allowed raw =
     rbind (ok_or (parse_url E raw) InvalidUrl) (\<lambda>u.
     if \<not> http_scheme u then Inl InvalidUrl
     else if private_network_allowed \<or> url_host_is_allowed u then Inr ()
     else Inl PrivateAddress)"

text \<open>\<open>PublicOnlyResolver\<close>: the addresses that the federation client may connect to.\<close>

definition public_only_resolve :: "ip_addr list option \<Rightarrow> fetch_error + ip_addr list" where
  "public_only_resolve answer =
     rbind (ok_or answer DnsFailed) (\<lambda>addresses.
     if addresses = [] \<or> (\<exists>a \<in> set addresses. \<not> is_public_ip a) then Inl PrivateAddress
     else Inr addresses)"

text \<open>The redirect policy of the federation client: \<open>Inr\<close> follows.\<close>

definition federation_redirect :: "nat \<Rightarrow> url \<Rightarrow> fetch_error + unit" where
  "federation_redirect previous u =
     (if previous \<ge> MAX_FEDERATION_REDIRECTS then Inl TooManyRedirects
      else if \<not> http_scheme u \<or> \<not> url_host_is_allowed u then Inl PrivateAddress
      else Inr ())"

definition validate_url :: "net_env \<Rightarrow> nat \<Rightarrow> string \<Rightarrow> fetch_error + url \<times> ip_addr list" where
  "validate_url E n raw =
     rbind (ok_or (parse_url E raw) InvalidUrl) (\<lambda>u.
     if \<not> http_scheme u \<or> url_username u \<noteq> [] \<or> url_password u \<noteq> None \<or> url_fragment u \<noteq> None
     then Inl InvalidUrl
     else
       rbind (ok_or (url_host_str u) InvalidUrl) (\<lambda>host.
       rbind (ok_or (url_port_or_known_default u) InvalidUrl) (\<lambda>port.
       rbind (ok_or (lookup_host E n (host, port)) DnsFailed) (\<lambda>addresses.
       if \<exists>a \<in> set addresses. \<not> is_public_ip a then Inl PrivateAddress
       else if addresses = [] then Inl DnsFailed
       else Inr (u, addresses)))))"

fun read_chunks :: "bytes \<Rightarrow> bytes option list \<Rightarrow> fetch_error + bytes" where
  "read_chunks buf [] = Inr buf"
| "read_chunks buf (None # cs) = Inl FetchFailed"
| "read_chunks buf (Some chunk # cs) =
     (if length buf + length chunk > MAX_FETCH_BYTES then Inl TooLarge else read_chunks (buf @ chunk) cs)"

definition read_body_limited :: "http_response \<Rightarrow> fetch_error + bytes" where
  "read_body_limited r =
     (case resp_content_length r of
        Some n \<Rightarrow> if n > MAX_FETCH_BYTES then Inl TooLarge else read_chunks [] (resp_chunks r)
      | None \<Rightarrow> read_chunks [] (resp_chunks r))"

definition is_redirection :: "nat \<Rightarrow> bool" where
  "is_redirection status \<longleftrightarrow> 300 \<le> status \<and> status < 400"

definition is_success :: "nat \<Rightarrow> bool" where
  "is_success status \<longleftrightarrow> 200 \<le> status \<and> status < 300"

text \<open>
  The loop of \<open>fetch_following_validated_redirects\<close> from one validated URL on, and the connections it
  made, oldest first. The count never passes \<open>MAX_REDIRECTS\<close>, so that \<open>\<ge>\<close> is the \<open>==\<close> of the code. The client of a round resolves the host to the validated addresses only.
\<close>

function fetch_loop ::
  "net_env \<Rightarrow> nat \<Rightarrow> url \<times> ip_addr list \<Rightarrow> (url \<times> ip_addr list) list
     \<Rightarrow> (fetch_error + bytes \<times> string) \<times> (url \<times> ip_addr list) list" where
  "fetch_loop E redirect_count target made =
     (let (u, addresses) = target in
      if url_host_str u = None then (Inl InvalidUrl, made)
      else
        let made = made @ [(u, addresses)] in
        case http_get E redirect_count u addresses of
          None \<Rightarrow> (Inl FetchFailed, made)
        | Some r \<Rightarrow>
            (if is_redirection (resp_status r) then
               (if redirect_count \<ge> MAX_REDIRECTS then (Inl TooManyRedirects, made)
                else
                  (case rbind (ok_or (resp_location r) InvalidRedirect) (\<lambda>location.
                        rbind (ok_or (url_join E u location) InvalidRedirect) (\<lambda>next.
                        validate_url E (redirect_count + 1) (url_as_str next))) of
                     Inl e \<Rightarrow> (Inl e, made)
                   | Inr target' \<Rightarrow> fetch_loop E (redirect_count + 1) target' made))
             else if \<not> is_success (resp_status r) then (Inl UpstreamError, made)
             else
               (case read_body_limited r of
                  Inl e \<Rightarrow> (Inl e, made)
                | Inr body \<Rightarrow>
                    (Inr (body, (case resp_content_type r of Some t \<Rightarrow> t | None \<Rightarrow> ''application/octet-stream'')),
                     made))))"
  by pat_completeness auto
termination by (relation "measure (\<lambda>(E, n, target, made). MAX_REDIRECTS - n)") auto

declare fetch_loop.simps [simp del]

definition fetch_following_validated_redirects ::
  "net_env \<Rightarrow> string \<Rightarrow> (fetch_error + bytes \<times> string) \<times> (url \<times> ip_addr list) list" where
  "fetch_following_validated_redirects E raw =
     (case validate_url E 0 raw of Inl e \<Rightarrow> (Inl e, []) | Inr target \<Rightarrow> fetch_loop E 0 target [])"

text \<open>\<open>sniff\<close> is \<open>sniff_mime_type\<close> of \<open>storage/media_probe.rs\<close>; \<open>parse_json\<close> is \<open>serde_json::from_slice\<close>.\<close>

definition fetch_validated_with_accept ::
  "net_env \<Rightarrow> (bytes \<Rightarrow> string \<Rightarrow> string) \<Rightarrow> string \<Rightarrow> string list
     \<Rightarrow> (fetch_error + bytes \<times> string) \<times> (url \<times> ip_addr list) list" where
  "fetch_validated_with_accept E sniff raw accept_prefixes =
     (let (res, made) = fetch_following_validated_redirects E raw in
      (rbind res (\<lambda>(body, header_type).
         let content_type = (if \<exists>p \<in> set accept_prefixes. starts_with header_type p then header_type
                             else sniff body header_type)
         in if \<not> (\<exists>p \<in> set accept_prefixes. starts_with content_type p) then Inl UnsupportedType
            else Inr (body, content_type)), made))"

definition fetch_json_validated ::
  "net_env \<Rightarrow> (bytes \<Rightarrow> 'json option) \<Rightarrow> string \<Rightarrow> (fetch_error + 'json) \<times> (url \<times> ip_addr list) list" where
  "fetch_json_validated E parse_json raw =
     (let (res, made) = fetch_following_validated_redirects E raw in
      (rbind res (\<lambda>(body, _). ok_or (parse_json body) UpstreamError), made))"

section \<open>The special-purpose blocks\<close>

text \<open>An address block in CIDR notation, as base and prefix length.\<close>

definition in_block :: "ipv4 \<Rightarrow> ipv4 \<times> nat \<Rightarrow> bool" where
  "in_block ip = (\<lambda>(base, len). drop_bit (32 - len) ip = drop_bit (32 - len) base)"

definition special_blocks :: "(ipv4 \<times> nat) list" where
  "special_blocks =
     [(ipv4_new 0 0 0 0, 8), (ipv4_new 10 0 0 0, 8), (ipv4_new 100 64 0 0, 10), (ipv4_new 127 0 0 0, 8),
      (ipv4_new 169 254 0 0, 16), (ipv4_new 172 16 0 0, 12), (ipv4_new 192 0 0 0, 24), (ipv4_new 192 0 2 0, 24),
      (ipv4_new 192 168 0 0, 16), (ipv4_new 198 18 0 0, 15), (ipv4_new 198 51 100 0, 24), (ipv4_new 203 0 113 0, 24),
      (ipv4_new 224 0 0 0, 4), (ipv4_new 240 0 0 0, 4)]"

text \<open>The octets as numbers, and the prefixes of the address in them.\<close>

abbreviation octet_nat :: "ipv4 \<Rightarrow> nat \<Rightarrow> nat" where
  "octet_nat ip i \<equiv> unat (octet ip i)"

lemma octet_less: "octet_nat ip i < 256"
  using unsigned_less [of "octet ip i"] by simp

lemma unat_drop_bit_div: "unat (drop_bit k (w :: 'a::len word)) = unat w div 2 ^ k"
  unfolding unat_drop_bit_eq by (simp add: drop_bit_eq_div)

lemma octet_nat_div: "octet_nat ip i = unat ip div 2 ^ (24 - 8 * i) mod 256"
proof -
  have "octet_nat ip i = unat (drop_bit (24 - 8 * i) ip) mod 256"
    by (simp add: octet_def unsigned_ucast_eq take_bit_eq_mod)
  then show ?thesis by (simp only: unat_drop_bit_div)
qed

lemma prefix_octets:
  fixes ip :: ipv4
  shows "unat (drop_bit 24 ip) = octet_nat ip 0"
    and "unat (drop_bit 16 ip) = octet_nat ip 0 * 256 + octet_nat ip 1"
    and "unat (drop_bit 8 ip) = (octet_nat ip 0 * 256 + octet_nat ip 1) * 256 + octet_nat ip 2"
proof -
  have split: "unat ip div 2 ^ k = unat ip div 2 ^ (k + 8) * 256 + unat ip div 2 ^ k mod 256" for k
    using div_mult_mod_eq [of "unat ip div 2 ^ k" 256] by (simp add: power_add flip: div_mult2_eq)
  have "unat ip < 2 ^ 32" using unsigned_less [of ip] by simp
  then have "unat ip div 2 ^ 24 < 256" by (simp add: less_mult_imp_div_less)
  then show a: "unat (drop_bit 24 ip) = octet_nat ip 0"
    unfolding unat_drop_bit_div octet_nat_div by simp
  show b: "unat (drop_bit 16 ip) = octet_nat ip 0 * 256 + octet_nat ip 1"
    using split [of 16] a unfolding unat_drop_bit_div octet_nat_div by simp
  show "unat (drop_bit 8 ip) = (octet_nat ip 0 * 256 + octet_nat ip 1) * 256 + octet_nat ip 2"
    using split [of 8] b unfolding unat_drop_bit_div octet_nat_div by simp
qed

lemma prefix_parts:
  fixes ip :: ipv4
  shows "unat (drop_bit 28 ip) = octet_nat ip 0 div 16"
    and "unat (drop_bit 22 ip) = octet_nat ip 0 * 4 + octet_nat ip 1 div 64"
    and "unat (drop_bit 20 ip) = octet_nat ip 0 * 16 + octet_nat ip 1 div 16"
    and "unat (drop_bit 17 ip) = octet_nat ip 0 * 128 + octet_nat ip 1 div 2"
proof -
  have part: "unat (drop_bit (16 + k) ip) = unat (drop_bit 16 ip) div 2 ^ k"
    and part24: "unat (drop_bit (24 + k) ip) = unat (drop_bit 24 ip) div 2 ^ k" for k
    by (simp_all add: unat_drop_bit_div power_add div_mult2_eq)
  show "unat (drop_bit 28 ip) = octet_nat ip 0 div 16" using part24 [of 4] by (simp add: prefix_octets)
  show "unat (drop_bit 22 ip) = octet_nat ip 0 * 4 + octet_nat ip 1 div 64"
    using part [of 6] by (simp add: prefix_octets; presburger?)
  show "unat (drop_bit 20 ip) = octet_nat ip 0 * 16 + octet_nat ip 1 div 16"
    using part [of 4] by (simp add: prefix_octets; presburger?)
  show "unat (drop_bit 17 ip) = octet_nat ip 0 * 128 + octet_nat ip 1 div 2"
    using part [of 1] by (simp add: prefix_octets; presburger?)
qed

lemma word_eq_iff_unat: "(v :: 'a::len word) = w \<longleftrightarrow> unat v = unat w"
  by (rule word_unat_eq_iff)

lemma in_block_unat: "in_block ip (base, len) \<longleftrightarrow> unat (drop_bit (32 - len) ip) = unat base div 2 ^ (32 - len)"
  by (simp add: in_block_def word_eq_iff_unat unat_drop_bit_div)


text \<open>The classification in the octets as numbers.\<close>

lemma is_public_ipv4_octets:
  "is_public_ipv4 ip \<longleftrightarrow> (let a = octet_nat ip 0; b = octet_nat ip 1; c = octet_nat ip 2 in
     \<not> (a = 0 \<or> a = 10 \<or> (a = 100 \<and> 64 \<le> b \<and> b \<le> 127) \<or> a = 127 \<or> (a = 169 \<and> b = 254)
        \<or> (a = 172 \<and> 16 \<le> b \<and> b \<le> 31) \<or> (a = 192 \<and> b = 0 \<and> (c = 0 \<or> c = 2)) \<or> (a = 192 \<and> b = 168)
        \<or> (a = 198 \<and> (b = 18 \<or> b = 19)) \<or> (a = 198 \<and> b = 51 \<and> c = 100) \<or> (a = 203 \<and> b = 0 \<and> c = 113)
        \<or> 224 \<le> a))"
proof -
  have "octet_nat 0xFFFFFFFF 0 = 255" "octet_nat 0 0 = 0" by (simp_all add: octet_nat_div)
  then have "v4_is_broadcast ip \<Longrightarrow> octet_nat ip 0 = 255" "v4_is_unspecified ip \<Longrightarrow> octet_nat ip 0 = 0"
    by (auto simp: v4_is_broadcast_def v4_is_unspecified_def)
  then have ends: "v4_is_broadcast ip \<or> v4_is_unspecified ip \<longrightarrow> octet_nat ip 0 = 0 \<or> 224 \<le> octet_nat ip 0" by auto
  have multicast: "v4_is_multicast ip \<or> 240 \<le> octet ip 0 \<longleftrightarrow> 224 \<le> octet_nat ip 0"
    by (auto simp: v4_is_multicast_def word_le_nat_alt)
  have "is_public_ipv4 ip \<longleftrightarrow> \<not> (octet_nat ip 0 = 0 \<or> v4_is_private ip \<or> (octet_nat ip 0 = 100 \<and> 64 \<le> octet_nat ip 1 \<and> octet_nat ip 1 \<le> 127)
      \<or> v4_is_loopback ip \<or> v4_is_link_local ip \<or> v4_is_documentation ip \<or> (octet_nat ip 0 = 192 \<and> octet_nat ip 1 = 0 \<and> octet_nat ip 2 = 0)
      \<or> (octet_nat ip 0 = 198 \<and> (octet_nat ip 1 = 18 \<or> octet_nat ip 1 = 19)) \<or> 224 \<le> octet_nat ip 0)"
    using ends unfolding is_public_ipv4_def Let_def multicast [symmetric]
    by (simp add: word_eq_iff_unat word_le_nat_alt del: neq0_conv) argo
  then show ?thesis
    unfolding v4_is_private_def v4_is_loopback_def v4_is_link_local_def v4_is_documentation_def Let_def
    by (simp add: word_eq_iff_unat word_le_nat_alt del: neq0_conv) argo
qed

text \<open>The numbers of the prefixes, digit by digit.\<close>

lemma digits: "r < m \<Longrightarrow> a * m + r = k \<longleftrightarrow> a = k div m \<and> r = (k :: nat) mod m"
  by (auto simp: mult.commute)

lemma not_in_blocks_octets:
  "(\<forall>b \<in> set special_blocks. \<not> in_block ip b) \<longleftrightarrow> (let a = octet_nat ip 0; b = octet_nat ip 1; c = octet_nat ip 2 in
     \<not> (a = 0 \<or> a = 10 \<or> a * 4 + b div 64 = 401 \<or> a = 127 \<or> a * 256 + b = 43518
        \<or> a * 16 + b div 16 = 2753 \<or> (a * 256 + b) * 256 + c = 12582912 \<or> (a * 256 + b) * 256 + c = 12582914
        \<or> a * 256 + b = 49320 \<or> a * 128 + b div 2 = 25353 \<or> (a * 256 + b) * 256 + c = 12989284
        \<or> (a * 256 + b) * 256 + c = 13303921 \<or> a div 16 = 14 \<or> a div 16 = 15))"
  by (simp add: special_blocks_def in_block_unat ipv4_new_def prefix_octets prefix_parts Let_def)

text \<open>
  The address check is the table of special-purpose blocks: an IPv4 address is public exactly when
  it lies in none of the fourteen CIDR blocks of the IANA registry that the table lists, from 0.0.0.0/8
  to 240.0.0.0/4. Checked for all 2^32 addresses.
\<close>
theorem is_public_ipv4_cidr: "is_public_ipv4 ip \<longleftrightarrow> list_all (\<lambda>b. \<not> in_block ip b) special_blocks"
proof -
  have "a * 4 + b div 64 = 401 \<longleftrightarrow> a = 100 \<and> 64 \<le> b \<and> b \<le> 127" "a * 256 + b = 43518 \<longleftrightarrow> a = 169 \<and> b = 254"
    "a * 16 + b div 16 = 2753 \<longleftrightarrow> a = 172 \<and> 16 \<le> b \<and> b \<le> 31"
    "(a * 256 + b) * 256 + c = 12582912 \<longleftrightarrow> a = 192 \<and> b = 0 \<and> c = 0"
    "(a * 256 + b) * 256 + c = 12582914 \<longleftrightarrow> a = 192 \<and> b = 0 \<and> c = 2"
    "a * 256 + b = 49320 \<longleftrightarrow> a = 192 \<and> b = 168" "a * 128 + b div 2 = 25353 \<longleftrightarrow> a = 198 \<and> (b = 18 \<or> b = 19)"
    "(a * 256 + b) * 256 + c = 12989284 \<longleftrightarrow> a = 198 \<and> b = 51 \<and> c = 100"
    "(a * 256 + b) * 256 + c = 13303921 \<longleftrightarrow> a = 203 \<and> b = 0 \<and> c = 113"
    "a div 16 = 14 \<or> a div 16 = 15 \<longleftrightarrow> 224 \<le> a" if "a < 256" "b < 256" "c < 256" for a b c :: nat
  proof -
    have "b div 64 < 4" "b div 16 < 16" "b div 2 < 128" using that by (simp_all add: less_mult_imp_div_less)
    note d = digits [OF this(1)] digits [OF this(2)] digits [OF this(3)] digits [OF that(2)] digits [OF that(3)]
    have "b div 64 = 1 \<longleftrightarrow> 64 \<le> b \<and> b \<le> 127" "b div 16 = 1 \<longleftrightarrow> 16 \<le> b \<and> b \<le> 31" "b div 2 = 9 \<longleftrightarrow> b = 18 \<or> b = 19"
      by linarith+
    then show "a * 4 + b div 64 = 401 \<longleftrightarrow> a = 100 \<and> 64 \<le> b \<and> b \<le> 127" "a * 256 + b = 43518 \<longleftrightarrow> a = 169 \<and> b = 254"
      "a * 16 + b div 16 = 2753 \<longleftrightarrow> a = 172 \<and> 16 \<le> b \<and> b \<le> 31"
      "(a * 256 + b) * 256 + c = 12582912 \<longleftrightarrow> a = 192 \<and> b = 0 \<and> c = 0"
      "(a * 256 + b) * 256 + c = 12582914 \<longleftrightarrow> a = 192 \<and> b = 0 \<and> c = 2"
      "a * 256 + b = 49320 \<longleftrightarrow> a = 192 \<and> b = 168" "a * 128 + b div 2 = 25353 \<longleftrightarrow> a = 198 \<and> (b = 18 \<or> b = 19)"
      "(a * 256 + b) * 256 + c = 12989284 \<longleftrightarrow> a = 198 \<and> b = 51 \<and> c = 100"
      "(a * 256 + b) * 256 + c = 13303921 \<longleftrightarrow> a = 203 \<and> b = 0 \<and> c = 113"
      by (simp_all only: d) simp_all
    show "a div 16 = 14 \<or> a div 16 = 15 \<longleftrightarrow> 224 \<le> a" using that(1) by linarith
  qed
  note arith = this [of "octet_nat ip 0" "octet_nat ip 1" "octet_nat ip 2", OF octet_less octet_less octet_less]
  show ?thesis unfolding is_public_ipv4_octets list_all_iff not_in_blocks_octets Let_def arith by argo
qed

section \<open>Embedded addresses\<close>

lemma low_segments: "ipv4_new (high_byte (segment ip 6)) (low_byte (segment ip 6)) (high_byte (segment ip 7)) (low_byte (segment ip 7)) = ucast ip"
  by (rule bit_word_eqI)
    (auto simp: ipv4_new_def high_byte_def low_byte_def segment_def bit_or_iff bit_push_bit_iff bit_ucast_iff bit_drop_bit_eq)

lemma segments_6to4: "ipv4_new (high_byte (segment ip 1)) (low_byte (segment ip 1)) (high_byte (segment ip 2)) (low_byte (segment ip 2))
    = ucast (drop_bit 80 ip)"
  by (rule bit_word_eqI)
    (auto simp: ipv4_new_def high_byte_def low_byte_def segment_def bit_or_iff bit_push_bit_iff bit_ucast_iff bit_drop_bit_eq)

definition v6_head :: "ipv6 \<Rightarrow> 16 word list" where
  "v6_head ip = map (segment ip) [0..<6]"

lemma embedded_ipv4_eq:
  "embedded_ipv4 ip =
     (if v6_head ip = [0, 0, 0, 0, 0, 0xFFFF] then Some (ucast ip)
      else if v6_head ip = [0, 0, 0, 0, 0, 0] \<and> ip \<noteq> 1 \<and> ip \<noteq> 0 then Some (ucast ip)
      else if v6_head ip = [0x64, 0xFF9B, 0, 0, 0, 0] then Some (ucast ip)
      else if segment ip 0 = 0x2002 then Some (ucast (drop_bit 80 ip))
      else None)"
  unfolding embedded_ipv4_def v6_to_ipv4_mapped_def v6_is_loopback_def v6_is_unspecified_def low_segments segments_6to4
    v6_head_def Let_def by simp

lemma v6_head_0: "v6_head ip = a # as \<Longrightarrow> segment ip 0 = a"
  by (auto simp: v6_head_def upt_rec)

text \<open>
  An IPv4 address hidden in an IPv6 address is judged as itself: for IPv4-mapped (::ffff:0:0/96),
  IPv4-compatible (::/96) and NAT64 (64:ff9b::/96) addresses the decision is that of the low 32 bits, for
  6to4 (2002::/16) that of the 32 bits after the prefix, so that no wrapping makes an internal address
  public.
\<close>
theorem embedded_ipv4_judged:
  "(if v6_head ip \<in> {[0, 0, 0, 0, 0, 0xFFFF], [0, 0, 0, 0, 0, 0], [0x64, 0xFF9B, 0, 0, 0, 0]}
    then is_public_ip (V6 ip) = is_public_ipv4 (ucast ip)
    else if segment ip 0 = 0x2002 then is_public_ip (V6 ip) = is_public_ipv4 (ucast (drop_bit 80 ip))
    else embedded_ipv4 ip = None)"
proof -
  have low: "\<not> is_public_ipv4 0" "\<not> is_public_ipv4 1"
    by (simp_all add: is_public_ipv4_octets octet_nat_div)
  have local_v6: "\<not> is_public_ip (V6 ip) \<and> \<not> is_public_ipv4 (ucast ip)" if "ip = 0 \<or> ip = 1" for ip
  proof -
    have "segment ip 0 = 0" using that by (auto simp: segment_def drop_bit_eq_div)
    then have "embedded_ipv4 ip = None \<or> embedded_ipv4 ip = Some (ucast ip)"
      unfolding embedded_ipv4_eq by simp
    then show ?thesis using that low by (auto simp: v6_is_loopback_def v6_is_unspecified_def)
  qed
  consider "v6_head ip = [0, 0, 0, 0, 0, 0xFFFF]" | "v6_head ip = [0, 0, 0, 0, 0, 0]" | "v6_head ip = [0x64, 0xFF9B, 0, 0, 0, 0]"
    | "v6_head ip \<notin> {[0, 0, 0, 0, 0, 0xFFFF], [0, 0, 0, 0, 0, 0], [0x64, 0xFF9B, 0, 0, 0, 0]}" by blast
  then show ?thesis
  proof cases
    case 2
    then show ?thesis using local_v6 [of ip] by (cases "ip = 0 \<or> ip = 1") (auto simp: embedded_ipv4_eq)
  qed (simp_all add: embedded_ipv4_eq)
qed

section \<open>Where a fetch connects\<close>

definition public_target :: "url \<times> ip_addr list \<Rightarrow> bool" where
  "public_target t \<longleftrightarrow> http_scheme (fst t) \<and> snd t \<noteq> [] \<and> list_all is_public_ip (snd t)"

lemma validate_url_public: "validate_url E n raw = Inr t \<Longrightarrow> public_target t"
  by (auto simp: validate_url_def public_target_def rbind_Inr_iff list_all_iff split: if_splits)

lemma read_chunks_bounded: "read_chunks buf cs = Inr body \<Longrightarrow> length buf \<le> MAX_FETCH_BYTES \<Longrightarrow> length body \<le> MAX_FETCH_BYTES"
  by (induction buf cs rule: read_chunks.induct) (auto split: if_splits)

lemma read_body_bounded: "read_body_limited r = Inr body \<Longrightarrow> length body \<le> MAX_FETCH_BYTES"
  by (auto simp: read_body_limited_def read_chunks_bounded split: option.splits if_splits)

text \<open>What every run of the loop keeps.\<close>

definition safe_run :: "(fetch_error + bytes \<times> string) \<times> (url \<times> ip_addr list) list \<Rightarrow> bool" where
  "safe_run res \<longleftrightarrow> list_all public_target (snd res) \<and> length (snd res) \<le> MAX_REDIRECTS + 1
     \<and> (case fst res of Inl e \<Rightarrow> True | Inr (body, t) \<Rightarrow> length body \<le> MAX_FETCH_BYTES)"

lemma fetch_loop_safe:
  "public_target target \<Longrightarrow> list_all public_target made \<Longrightarrow> length made = n \<Longrightarrow> n \<le> MAX_REDIRECTS \<Longrightarrow>
   safe_run (fetch_loop E n target made)"
proof (induction E n target made rule: fetch_loop.induct)
  case (1 E n target made)
  obtain u addresses where t: "target = (u, addresses)" by fastforce
  let ?made = "made @ [(u, addresses)]"
  have made: "list_all public_target ?made" "length ?made = n + 1" using 1 t by simp_all
  have stop: "safe_run (Inl e, ?made)" for e using made 1(5) by (simp add: safe_run_def)
  have quit: "safe_run (Inl e, made)" for e using 1(3-5) by (simp add: safe_run_def)
  have body: "safe_run (Inr (body, c), ?made)" if "read_body_limited r = Inr body" for r body c
    using made 1(5) read_body_bounded [OF that] by (simp add: safe_run_def)
  have further: "safe_run (fetch_loop E (Suc n) t' ?made)"
    if "url_host_str u = Some h" "http_get E n u addresses = Some r" "is_redirection (resp_status r)" "\<not> MAX_REDIRECTS \<le> n"
      "rbind (ok_or (resp_location r) InvalidRedirect) (\<lambda>location.
         rbind (ok_or (url_join E u location) InvalidRedirect) (\<lambda>next. validate_url E (Suc n) (url_as_str next))) = Inr t'"
    for h r t'
    using that 1(1) [OF refl t [symmetric] _ refl that(2-4), of t'] made
    by (auto simp: rbind_Inr_iff dest: validate_url_public)
  show ?case
    using stop quit body further unfolding t
    by (subst fetch_loop.simps) (auto simp: Let_def split: option.split sum.split prod.split)
qed

text \<open>
  C31. A fetch never touches the internal network: whatever the URL, the DNS answers (which may change
  between two questions) and the redirects of the server are, every connection that the fetch makes is
  pinned to a non-empty list of public addresses, there are at most six of them, and a body that is
  returned has at most 25 MiB.
\<close>
theorem fetch_only_public:
  "list_all (\<lambda>(u, addresses). http_scheme u \<and> addresses \<noteq> [] \<and> list_all is_public_ip addresses)
     (snd (fetch_following_validated_redirects E raw))
   \<and> length (snd (fetch_following_validated_redirects E raw)) \<le> 6
   \<and> (case fst (fetch_following_validated_redirects E raw) of
        Inl e \<Rightarrow> True | Inr (body, t) \<Rightarrow> length body \<le> 25 * 1024 * 1024)"
proof -
  have "safe_run (fetch_following_validated_redirects E raw)"
    by (auto simp: fetch_following_validated_redirects_def safe_run_def [of "(Inl _, [])"] MAX_REDIRECTS_def
        intro!: fetch_loop_safe validate_url_public split: sum.split)
  then show ?thesis
    by (auto simp: safe_run_def public_target_def MAX_REDIRECTS_def MAX_FETCH_BYTES_def list_all_iff split: sum.splits)
qed

text \<open>
  The federation client: its resolver only hands out non-empty lists of public addresses, and its
  redirect policy follows at most ten times and never to an address literal that is not public.
\<close>
theorem federation_client_guard:
  "(case public_only_resolve answer of Inl e \<Rightarrow> True | Inr addresses \<Rightarrow> addresses \<noteq> [] \<and> list_all is_public_ip addresses)
   \<and> (case federation_redirect previous u of Inl e \<Rightarrow> True
      | Inr _ \<Rightarrow> previous < 10 \<and> http_scheme u \<and> (case url_host u of
          Some (Host_Ipv4 ip) \<Rightarrow> is_public_ip (V4 ip) | Some (Host_Ipv6 ip) \<Rightarrow> is_public_ip (V6 ip)
        | Some (Host_Domain d) \<Rightarrow> True | None \<Rightarrow> False))"
  by (auto simp: public_only_resolve_def federation_redirect_def url_host_is_allowed_def MAX_FEDERATION_REDIRECTS_def
      rbind_Inr_iff list_all_iff split: sum.split option.split url_host.split)

end
