(* ===== verification/Leader.thy ===== *)
theory Leader
  imports Prelude
begin

text \<open>
  One process out of many runs a resident task (\<open>crates/seiran-common/src/leader.rs\<close>): the loop of
  \<open>run_as_leader\<close>, \<open>try_acquire\<close> and \<open>lead\<close> as steps of a cluster of processes that share one
  PostgreSQL advisory lock, with a clock in seconds.

  A database round trip takes no time and a timer fires on time: the clock only advances when no
  process has something to do now. What the environment may do at any moment: a query of
  \<open>try_acquire\<close> fails, the session that holds the lock breaks (the server drops its lock at that
  moment or later), closing a connection fails, the task returns, a shutdown is requested. An aborted
  task runs on until its next await point. The ping of a broken session answers at once with an error; a
  connection that is half open, on which the ping of the code can wait without a limit, is left out.
\<close>

section \<open>State\<close>

definition ACQUIRE_RETRY_INTERVAL :: nat where "ACQUIRE_RETRY_INTERVAL = 5"
definition LOCK_CHECK_INTERVAL :: nat where "LOCK_CHECK_INTERVAL = 10"
definition STOP_TIMEOUT :: nat where "STOP_TIMEOUT = 30"

lemmas leader_intervals = ACQUIRE_RETRY_INTERVAL_def LOCK_CHECK_INTERVAL_def STOP_TIMEOUT_def

text \<open>
  Where a process is: in the loop of \<open>run_as_leader\<close> before its next attempt at the given time, in
  the loop of \<open>lead\<close> before the next check of its connection, waiting for its stopped task until a
  deadline, or out of \<open>run_as_leader\<close>.
\<close>

datatype leader_phase = Waiting nat | Leading nat | Stopping nat | Exited

text \<open>
  \<open>lp_task\<close>: the spawned task runs and was not aborted; \<open>lp_stop\<close>: its token is cancelled;
  \<open>lp_broken\<close>: since when the lock session of this leadership is broken; \<open>lp_aborted\<close>: aborted tasks
  that have not reached an await point.
\<close>

record leader_proc =
  lp_phase :: leader_phase
  lp_shutdown :: "nat option"
  lp_task :: bool
  lp_stop :: bool
  lp_broken :: "nat option"
  lp_aborted :: nat

record cluster =
  cl_now :: nat
  cl_lock :: "nat option"
  cl_procs :: "nat \<Rightarrow> leader_proc"

definition proc_start :: leader_proc where
  "proc_start = \<lparr>lp_phase = Waiting 0, lp_shutdown = None, lp_task = False, lp_stop = False,
     lp_broken = None, lp_aborted = 0\<rparr>"

definition cluster_start :: cluster where
  "cluster_start = \<lparr>cl_now = 0, cl_lock = None, cl_procs = (\<lambda>_. proc_start)\<rparr>"

definition set_proc :: "nat \<Rightarrow> leader_proc \<Rightarrow> cluster \<Rightarrow> cluster" where
  "set_proc p x s = s\<lparr>cl_procs := (cl_procs s)(p := x)\<rparr>"

section \<open>Operations\<close>

text \<open>\<open>db_ok\<close>: the pool gives a connection and the query answers.\<close>

definition try_acquire :: "bool \<Rightarrow> nat \<Rightarrow> cluster \<Rightarrow> (unit + bool) \<times> cluster" where
  "try_acquire db_ok p s =
     (if \<not> db_ok then (Inl (), s)
      else if cl_lock s = None then (Inr True, s\<lparr>cl_lock := Some p\<rparr>)
      else (Inr False, s))"

text \<open>The start of \<open>lead\<close>: the task is spawned; the first tick of the interval is consumed.\<close>

definition lead_start :: "nat \<Rightarrow> cluster \<Rightarrow> cluster" where
  "lead_start p s = set_proc p ((cl_procs s p)\<lparr>lp_phase := Leading (cl_now s + LOCK_CHECK_INTERVAL),
     lp_task := True, lp_stop := False, lp_broken := None\<rparr>) s"

definition wait_again :: "nat \<Rightarrow> cluster \<Rightarrow> cluster" where
  "wait_again p s =
     set_proc p ((cl_procs s p)\<lparr>lp_phase := Waiting (cl_now s + ACQUIRE_RETRY_INTERVAL)\<rparr>) s"

text \<open>One round of \<open>run_as_leader\<close> up to \<open>lead\<close> or to the sleep.\<close>

definition run_as_leader_round :: "bool \<Rightarrow> nat \<Rightarrow> cluster \<Rightarrow> cluster" where
  "run_as_leader_round db_ok p s = (case try_acquire db_ok p s of
      (Inr True, s') \<Rightarrow> lead_start p s'
    | (_, s') \<Rightarrow> wait_again p s')"

text \<open>The branches of the \<open>select!\<close> of \<open>lead\<close> that end its loop with the task still running.\<close>

definition lead_stop :: "nat \<Rightarrow> cluster \<Rightarrow> cluster" where
  "lead_stop p s = set_proc p ((cl_procs s p)\<lparr>lp_phase := Stopping (cl_now s + STOP_TIMEOUT), lp_stop := True\<rparr>) s"

text \<open>The tick: the connection is pinged. The next tick is counted from this one.\<close>

definition lead_check :: "nat \<Rightarrow> nat \<Rightarrow> cluster \<Rightarrow> cluster" where
  "lead_check p check s =
     (if lp_broken (cl_procs s p) = None
      then set_proc p ((cl_procs s p)\<lparr>lp_phase := Leading (check + LOCK_CHECK_INTERVAL)\<rparr>) s
      else lead_stop p s)"

text \<open>
  The end of \<open>lead\<close>: the connection is closed; closing may fail, and a broken session cannot be
  closed; then the server drops the lock later.
\<close>

definition lead_end :: "bool \<Rightarrow> nat \<Rightarrow> cluster \<Rightarrow> cluster" where
  "lead_end close_ok p s = wait_again p
     (if close_ok \<and> lp_broken (cl_procs s p) = None then s\<lparr>cl_lock := None\<rparr> else s)"

definition task_returned :: "bool \<Rightarrow> nat \<Rightarrow> cluster \<Rightarrow> cluster" where
  "task_returned close_ok p s = lead_end close_ok p (set_proc p ((cl_procs s p)\<lparr>lp_task := False\<rparr>) s)"

definition stop_timed_out :: "bool \<Rightarrow> nat \<Rightarrow> cluster \<Rightarrow> cluster" where
  "stop_timed_out close_ok p s = lead_end close_ok p
     (set_proc p ((cl_procs s p)\<lparr>lp_task := False, lp_aborted := lp_aborted (cl_procs s p) + 1\<rparr>) s)"

section \<open>Steps\<close>

datatype cluster_event =
    Attempt nat bool
  | Shutdown_requested nat
  | Leave nat
  | Session_breaks nat
  | Server_drops_lock
  | Lock_check nat
  | Stop_on_shutdown nat
  | Task_returns nat bool
  | Stop_timeout nat bool
  | Aborted_task_ends nat
  | Clock_tick

text \<open>Is the process \<open>p\<close> the one whose live session holds the lock?\<close>

definition in_lead :: "leader_proc \<Rightarrow> bool" where
  "in_lead x = (case lp_phase x of Leading _ \<Rightarrow> True | Stopping _ \<Rightarrow> True | _ \<Rightarrow> False)"

definition holds_session :: "leader_proc \<Rightarrow> bool" where
  "holds_session x \<longleftrightarrow> in_lead x \<and> lp_broken x = None"

text \<open>Something is due now; the clock waits.\<close>

definition due :: "nat \<Rightarrow> leader_proc \<Rightarrow> bool" where
  "due now x = (case lp_phase x of
      Waiting t \<Rightarrow> t \<le> now \<or> lp_shutdown x \<noteq> None
    | Leading t \<Rightarrow> t \<le> now \<or> lp_shutdown x \<noteq> None
    | Stopping t \<Rightarrow> t \<le> now
    | Exited \<Rightarrow> False)"

fun cluster_step :: "nat \<Rightarrow> cluster_event \<Rightarrow> cluster \<Rightarrow> cluster option" where
  "cluster_step n (Attempt p db_ok) s = (case lp_phase (cl_procs s p) of
      Waiting t \<Rightarrow> (if p < n \<and> t \<le> cl_now s \<and> lp_shutdown (cl_procs s p) = None
                    then Some (run_as_leader_round db_ok p s) else None)
    | _ \<Rightarrow> None)"
| "cluster_step n (Shutdown_requested p) s =
     (if p < n \<and> lp_shutdown (cl_procs s p) = None
      then Some (set_proc p ((cl_procs s p)\<lparr>lp_shutdown := Some (cl_now s)\<rparr>) s) else None)"
| "cluster_step n (Leave p) s = (case lp_phase (cl_procs s p) of
      Waiting t \<Rightarrow> (if p < n \<and> lp_shutdown (cl_procs s p) \<noteq> None
                    then Some (set_proc p ((cl_procs s p)\<lparr>lp_phase := Exited\<rparr>) s) else None)
    | _ \<Rightarrow> None)"
| "cluster_step n (Session_breaks p) s =
     (if p < n \<and> holds_session (cl_procs s p)
      then Some (set_proc p ((cl_procs s p)\<lparr>lp_broken := Some (cl_now s)\<rparr>) s) else None)"
| "cluster_step n Server_drops_lock s = (case cl_lock s of
      Some p \<Rightarrow> (if holds_session (cl_procs s p) then None else Some (s\<lparr>cl_lock := None\<rparr>))
    | None \<Rightarrow> None)"
| "cluster_step n (Lock_check p) s = (case lp_phase (cl_procs s p) of
      Leading t \<Rightarrow> (if p < n \<and> t \<le> cl_now s then Some (lead_check p t s) else None)
    | _ \<Rightarrow> None)"
| "cluster_step n (Stop_on_shutdown p) s = (case lp_phase (cl_procs s p) of
      Leading t \<Rightarrow> (if p < n \<and> lp_shutdown (cl_procs s p) \<noteq> None then Some (lead_stop p s) else None)
    | _ \<Rightarrow> None)"
| "cluster_step n (Task_returns p close_ok) s =
     (if p < n \<and> in_lead (cl_procs s p) then Some (task_returned close_ok p s) else None)"
| "cluster_step n (Stop_timeout p close_ok) s = (case lp_phase (cl_procs s p) of
      Stopping t \<Rightarrow> (if p < n \<and> t \<le> cl_now s then Some (stop_timed_out close_ok p s) else None)
    | _ \<Rightarrow> None)"
| "cluster_step n (Aborted_task_ends p) s =
     (if p < n \<and> 0 < lp_aborted (cl_procs s p)
      then Some (set_proc p ((cl_procs s p)\<lparr>lp_aborted := lp_aborted (cl_procs s p) - 1\<rparr>) s) else None)"
| "cluster_step n Clock_tick s =
     (if list_ex (\<lambda>p. due (cl_now s) (cl_procs s p)) [0..<n] then None
      else Some (s\<lparr>cl_now := cl_now s + 1\<rparr>))"

text \<open>The cluster of the processes below \<open>n\<close>.\<close>

inductive cluster_reachable :: "nat \<Rightarrow> cluster \<Rightarrow> bool" for n where
  start: "cluster_reachable n cluster_start"
| step: "cluster_reachable n s \<Longrightarrow> cluster_step n e s = Some t \<Longrightarrow> cluster_reachable n t"

text \<open>A run: the events and the states between them.\<close>

fun cluster_run :: "nat \<Rightarrow> cluster_event list \<Rightarrow> cluster \<Rightarrow> cluster option" where
  "cluster_run n [] s = Some s"
| "cluster_run n (e # es) s = (case cluster_step n e s of None \<Rightarrow> None | Some t \<Rightarrow> cluster_run n es t)"

lemma cluster_run_reachable: "cluster_reachable n s \<Longrightarrow> cluster_run n es s = Some t \<Longrightarrow> cluster_reachable n t"
  by (induction es arbitrary: s) (auto intro: cluster_reachable.step split: option.splits)

section \<open>Invariant\<close>

text \<open>A time at most \<open>k\<close> after another one, if that is known.\<close>

fun within :: "nat \<Rightarrow> nat option \<Rightarrow> nat \<Rightarrow> bool" where
  "within t None k = True"
| "within t (Some b) k = (t \<le> b + k)"

text \<open>The timers of one process lie ahead, and not too far from what started them.\<close>

definition phase_ok :: "nat \<Rightarrow> leader_proc \<Rightarrow> bool" where
  "phase_ok now x = (case lp_phase x of
      Waiting t \<Rightarrow> \<not> lp_task x \<and> now \<le> t \<and> t \<le> now + 5 \<and> within now (lp_shutdown x) 30
    | Leading t \<Rightarrow> lp_task x \<and> now \<le> t \<and> t \<le> now + 10 \<and> within t (lp_broken x) 10
        \<and> within now (lp_shutdown x) 0
    | Stopping t \<Rightarrow> lp_task x \<and> now \<le> t \<and> t \<le> now + 30 \<and> within t (lp_broken x) 40
        \<and> within t (lp_shutdown x) 30
    | Exited \<Rightarrow> \<not> lp_task x)"

lemma phase_ok_simps:
  "lp_phase x = Waiting t \<Longrightarrow> phase_ok now x \<longleftrightarrow>
     \<not> lp_task x \<and> now \<le> t \<and> t \<le> now + 5 \<and> within now (lp_shutdown x) 30"
  "lp_phase x = Leading t \<Longrightarrow> phase_ok now x \<longleftrightarrow>
     lp_task x \<and> now \<le> t \<and> t \<le> now + 10 \<and> within t (lp_broken x) 10 \<and> within now (lp_shutdown x) 0"
  "lp_phase x = Stopping t \<Longrightarrow> phase_ok now x \<longleftrightarrow>
     lp_task x \<and> now \<le> t \<and> t \<le> now + 30 \<and> within t (lp_broken x) 40 \<and> within t (lp_shutdown x) 30"
  "lp_phase x = Exited \<Longrightarrow> phase_ok now x \<longleftrightarrow> \<not> lp_task x"
  by (simp_all add: phase_ok_def)

lemma in_lead_simps [simp]:
  "lp_phase x = Waiting t \<Longrightarrow> \<not> in_lead x" "lp_phase x = Exited \<Longrightarrow> \<not> in_lead x"
  "lp_phase x = Leading t \<Longrightarrow> in_lead x" "lp_phase x = Stopping t \<Longrightarrow> in_lead x"
  by (simp_all add: in_lead_def)

definition cluster_inv :: "nat \<Rightarrow> cluster \<Rightarrow> bool" where
  "cluster_inv n s \<longleftrightarrow> (\<forall>p<n. phase_ok (cl_now s) (cl_procs s p))
     \<and> (\<forall>p\<ge>n. cl_procs s p = proc_start)
     \<and> (\<forall>p. holds_session (cl_procs s p) \<longrightarrow> cl_lock s = Some p)"

lemmas leader_op_defs = run_as_leader_round_def try_acquire_def lead_start_def wait_again_def lead_stop_def
  lead_check_def lead_end_def task_returned_def stop_timed_out_def set_proc_def leader_intervals

lemma cluster_inv_start: "cluster_inv n cluster_start"
  by (simp add: cluster_inv_def cluster_start_def proc_start_def phase_ok_def in_lead_def holds_session_def)

text \<open>An operation changes one process and perhaps the lock.\<close>

lemma cluster_inv_update:
  assumes "cluster_inv n s" "p < n" "phase_ok (cl_now s) x"
    and "holds_session x \<Longrightarrow> lock = Some p"
    and "\<And>q. q \<noteq> p \<Longrightarrow> cl_lock s = Some q \<Longrightarrow> lock = Some q"
  shows "cluster_inv n (s\<lparr>cl_lock := lock, cl_procs := (cl_procs s)(p := x)\<rparr>)"
  using assms by (simp add: cluster_inv_def)

lemma cluster_inv_proc:
  assumes "cluster_inv n s" "p < n" "phase_ok (cl_now s) x" "holds_session x \<Longrightarrow> cl_lock s = Some p"
  shows "cluster_inv n (set_proc p x s)"
  using cluster_inv_update [of n s p x "cl_lock s"] assms by (simp add: set_proc_def)

lemma cluster_invD:
  assumes "cluster_inv n s"
  shows "p < n \<Longrightarrow> phase_ok (cl_now s) (cl_procs s p)" "n \<le> p \<Longrightarrow> cl_procs s p = proc_start"
    "holds_session (cl_procs s p) \<Longrightarrow> cl_lock s = Some p"
  using assms by (simp_all add: cluster_inv_def)

lemma wait_again_inv:
  assumes "cluster_inv n s" "p < n" "within (cl_now s) (lp_shutdown (cl_procs s p)) 30"
    "\<not> lp_task (cl_procs s p)"
  shows "cluster_inv n (wait_again p s)"
  using assms unfolding wait_again_def
  by (intro cluster_inv_proc) (simp_all add: phase_ok_def holds_session_def in_lead_def ACQUIRE_RETRY_INTERVAL_def)

text \<open>Both ways out of \<open>lead\<close>: the task is gone, the lock is given back or left to the server.\<close>

lemma lead_end_inv:
  assumes inv: "cluster_inv n s" and p: "p < n" "in_lead (cl_procs s p)"
    and x: "\<not> lp_task x" "lp_shutdown x = lp_shutdown (cl_procs s p)" "lp_broken x = lp_broken (cl_procs s p)"
  shows "cluster_inv n (lead_end ok p (set_proc p x s))"
proof -
  let ?x = "x\<lparr>lp_phase := Waiting (cl_now s + 5)\<rparr>"
  let ?lock = "if ok \<and> lp_broken x = None then None else cl_lock s"
  have ok: "phase_ok (cl_now s) (cl_procs s p)" using cluster_invD [OF inv] p by blast
  have now: "within (cl_now s) (lp_shutdown x) 30"
    using ok p x by (cases "lp_shutdown (cl_procs s p)") (auto simp: phase_ok_def in_lead_def split: leader_phase.splits)
  have lock: "cl_lock s = Some q \<Longrightarrow> q \<noteq> p \<Longrightarrow> ?lock = Some q" for q
    using cluster_invD(3) [OF inv, of p] p x by (auto simp: holds_session_def)
  have "cluster_inv n (s\<lparr>cl_lock := ?lock, cl_procs := (cl_procs s)(p := ?x)\<rparr>)"
    using inv p now x lock
    by (intro cluster_inv_update) (auto simp: phase_ok_def holds_session_def in_lead_def)
  moreover have "lead_end ok p (set_proc p x s) = s\<lparr>cl_lock := ?lock, cl_procs := (cl_procs s)(p := ?x)\<rparr>"
    by (simp add: lead_end_def wait_again_def set_proc_def ACQUIRE_RETRY_INTERVAL_def)
  ultimately show ?thesis by simp
qed

lemma lead_stop_inv:
  assumes "cluster_inv n s" "p < n" "lp_task (cl_procs s p)"
    "within (cl_now s) (lp_broken (cl_procs s p)) 10" "within (cl_now s) (lp_shutdown (cl_procs s p)) 0"
    "in_lead (cl_procs s p)"
  shows "cluster_inv n (lead_stop p s)"
  unfolding lead_stop_def
proof (rule cluster_inv_proc [OF assms(1,2)])
  show "phase_ok (cl_now s) ((cl_procs s p)\<lparr>lp_phase := Stopping (cl_now s + STOP_TIMEOUT), lp_stop := True\<rparr>)"
    using assms
    by (cases "lp_broken (cl_procs s p)"; cases "lp_shutdown (cl_procs s p)") (simp_all add: phase_ok_def STOP_TIMEOUT_def)
next
  assume "holds_session ((cl_procs s p)\<lparr>lp_phase := Stopping (cl_now s + STOP_TIMEOUT), lp_stop := True\<rparr>)"
  then show "cl_lock s = Some p"
    using cluster_invD(3) [OF assms(1), of p] assms by (simp add: holds_session_def)
qed

lemma attempt_inv:
  assumes inv: "cluster_inv n s" and p: "p < n" "lp_phase (cl_procs s p) = Waiting w" "lp_shutdown (cl_procs s p) = None"
  shows "cluster_inv n (run_as_leader_round ok p s)"
proof -
  note I = cluster_invD(1) [OF inv p(1)]
  show ?thesis
  proof (cases "ok \<and> cl_lock s = None")
    case True
    then have "run_as_leader_round ok p s = s\<lparr>cl_lock := Some p, cl_procs := (cl_procs s)(p :=
       (cl_procs s p)\<lparr>lp_phase := Leading (cl_now s + 10), lp_task := True, lp_stop := False, lp_broken := None\<rparr>)\<rparr>"
      by (simp add: run_as_leader_round_def try_acquire_def lead_start_def set_proc_def LOCK_CHECK_INTERVAL_def)
    then show ?thesis
      using inv p True by (auto intro!: cluster_inv_update simp: phase_ok_def)
  next
    case False
    then have "run_as_leader_round ok p s = wait_again p s"
      by (auto simp: run_as_leader_round_def try_acquire_def)
    then show ?thesis using inv p I by (auto intro!: wait_again_inv simp: phase_ok_simps(1))
  qed
qed

lemma tick_inv:
  assumes inv: "cluster_inv n s" and idle: "\<not> list_ex (\<lambda>p. due (cl_now s) (cl_procs s p)) [0..<n]"
  shows "cluster_inv n (s\<lparr>cl_now := cl_now s + 1\<rparr>)"
proof -
  have "phase_ok (cl_now s + 1) (cl_procs s p)" if "p < n" for p
  proof -
    have "\<not> due (cl_now s) (cl_procs s p)" using idle that by (auto simp: list_ex_iff)
    then show ?thesis using cluster_invD(1) [OF inv that]
      by (cases "lp_phase (cl_procs s p)") (auto simp: phase_ok_def due_def)
  qed
  then show ?thesis using inv by (auto simp: cluster_inv_def)
qed

lemma cluster_step_inv:
  assumes inv: "cluster_inv n s" and step: "cluster_step n e s = Some t"
  shows "cluster_inv n t"
proof (cases e)
  case (Attempt p ok)
  with step attempt_inv [OF inv] show ?thesis by (auto split: leader_phase.splits if_splits)
next
  case (Shutdown_requested p)
  with step have t: "p < n" "lp_shutdown (cl_procs s p) = None"
      "t = set_proc p ((cl_procs s p)\<lparr>lp_shutdown := Some (cl_now s)\<rparr>) s"
    by (auto split: if_splits)
  have "phase_ok (cl_now s) ((cl_procs s p)\<lparr>lp_shutdown := Some (cl_now s)\<rparr>)"
    using cluster_invD(1) [OF inv t(1)] by (cases "lp_phase (cl_procs s p)") (auto simp: phase_ok_def)
  then show ?thesis using cluster_invD(3) [OF inv, of p] unfolding t(3)
    by (intro cluster_inv_proc [OF inv t(1)]) (simp_all add: holds_session_def in_lead_def)
next
  case (Leave p)
  with step obtain w where t: "p < n" "lp_phase (cl_procs s p) = Waiting w"
      "t = set_proc p ((cl_procs s p)\<lparr>lp_phase := Exited\<rparr>) s"
    by (auto split: if_splits leader_phase.splits)
  then show ?thesis using cluster_invD(1) [OF inv, of p] unfolding t(3)
    by (intro cluster_inv_proc [OF inv]) (auto simp: phase_ok_def holds_session_def in_lead_def)
next
  case (Session_breaks p)
  with step have t: "p < n" "holds_session (cl_procs s p)"
      "t = set_proc p ((cl_procs s p)\<lparr>lp_broken := Some (cl_now s)\<rparr>) s"
    by (auto split: if_splits)
  have "phase_ok (cl_now s) ((cl_procs s p)\<lparr>lp_broken := Some (cl_now s)\<rparr>)"
    using cluster_invD(1) [OF inv t(1)] by (cases "lp_phase (cl_procs s p)") (auto simp: phase_ok_def)
  then show ?thesis unfolding t(3) by (intro cluster_inv_proc [OF inv t(1)]) (simp_all add: holds_session_def)
next
  case Server_drops_lock
  with step obtain p where t: "cl_lock s = Some p" "\<not> holds_session (cl_procs s p)" "t = s\<lparr>cl_lock := None\<rparr>"
    by (auto split: option.splits if_splits)
  then have "\<not> holds_session (cl_procs s q)" for q using cluster_invD(3) [OF inv, of q] by (cases "q = p") auto
  then show ?thesis using inv t(3) by (simp add: cluster_inv_def)
next
  case (Lock_check p)
  with step obtain w where t: "p < n" "lp_phase (cl_procs s p) = Leading w" "w \<le> cl_now s" "t = lead_check p w s"
    by (auto split: if_splits leader_phase.splits)
  have ok: "lp_task (cl_procs s p)" "cl_now s = w" "within w (lp_broken (cl_procs s p)) 10"
      "within (cl_now s) (lp_shutdown (cl_procs s p)) 0"
    using cluster_invD(1) [OF inv t(1)] t by (auto simp: phase_ok_def)
  show ?thesis
  proof (cases "lp_broken (cl_procs s p)")
    case None
    then show ?thesis using cluster_invD(3) [OF inv, of p] t ok
      by (auto simp: lead_check_def holds_session_def phase_ok_def LOCK_CHECK_INTERVAL_def intro!: cluster_inv_proc [OF inv])
  next
    case (Some b)
    then show ?thesis using lead_stop_inv [OF inv, of p] t ok by (simp add: lead_check_def)
  qed
next
  case (Stop_on_shutdown p)
  with step obtain w where t: "p < n" "lp_phase (cl_procs s p) = Leading w" "t = lead_stop p s"
    by (auto split: if_splits leader_phase.splits)
  have "lp_task (cl_procs s p)" "within w (lp_broken (cl_procs s p)) 10" "cl_now s \<le> w"
      "within (cl_now s) (lp_shutdown (cl_procs s p)) 0"
    using cluster_invD(1) [OF inv t(1)] t by (auto simp: phase_ok_def)
  then show ?thesis using lead_stop_inv [OF inv, of p] t by (cases "lp_broken (cl_procs s p)") auto
next
  case (Task_returns p ok)
  with step have "p < n" "in_lead (cl_procs s p)" "t = task_returned ok p s" by (auto split: if_splits)
  then show ?thesis by (auto simp: task_returned_def intro: lead_end_inv [OF inv])
next
  case (Stop_timeout p ok)
  with step have "p < n" "in_lead (cl_procs s p)" "t = stop_timed_out ok p s"
    by (auto split: if_splits leader_phase.splits)
  then show ?thesis by (auto simp: stop_timed_out_def intro: lead_end_inv [OF inv])
next
  case (Aborted_task_ends p)
  with step have t: "p < n" "t = set_proc p ((cl_procs s p)\<lparr>lp_aborted := lp_aborted (cl_procs s p) - 1\<rparr>) s"
    by (auto split: if_splits)
  have "phase_ok (cl_now s) ((cl_procs s p)\<lparr>lp_aborted := lp_aborted (cl_procs s p) - 1\<rparr>)"
    using cluster_invD(1) [OF inv t(1)] by (cases "lp_phase (cl_procs s p)") (auto simp: phase_ok_def)
  then show ?thesis using cluster_invD(3) [OF inv, of p] unfolding t(2)
    by (intro cluster_inv_proc [OF inv t(1)]) (simp_all add: holds_session_def in_lead_def)
next
  case Clock_tick
  with step tick_inv [OF inv] show ?thesis by (auto split: if_splits)
qed

lemma cluster_reachable_inv: "cluster_reachable n s \<Longrightarrow> cluster_inv n s"
  by (induction rule: cluster_reachable.induct) (auto intro: cluster_inv_start cluster_step_inv)

section \<open>Properties\<close>

lemma task_in_lead:
  assumes inv: "cluster_inv n s" and task: "lp_task (cl_procs s p)"
  shows "p < n" "in_lead (cl_procs s p)" "within (cl_now s) (lp_broken (cl_procs s p)) 40"
proof -
  show p: "p < n" using cluster_invD(2) [OF inv, of p] task by (force simp: proc_start_def)
  note ok = cluster_invD(1) [OF inv p]
  show "in_lead (cl_procs s p)"
    using ok task by (cases "lp_phase (cl_procs s p)") (auto simp: phase_ok_def)
  show "within (cl_now s) (lp_broken (cl_procs s p)) 40"
    using ok task by (cases "lp_broken (cl_procs s p)"; cases "lp_phase (cl_procs s p)") (auto simp: phase_ok_def)
qed

text \<open>A process runs the task, in its leadership or as what is left of one that was aborted.\<close>

definition task_runs :: "leader_proc \<Rightarrow> bool" where
  "task_runs x \<longleftrightarrow> lp_task x \<or> 0 < lp_aborted x"

text \<open>
  C33. When two processes run the resident task at once, then one of them only runs a task that was aborted after
  its stop timeout and has not come to an await point yet, or both are in \<open>lead\<close>, the session of one of them is
  broken, and at most 40 seconds ago (one check interval and the stop timeout), and the other, if its own
  session is alive, owns the lock. So two processes never lead with live sessions. This counts on database
  calls that take no time, a ping of a broken session among them.
\<close>

theorem one_leader:
  assumes "cluster_reachable n s" "task_runs (cl_procs s p)" "task_runs (cl_procs s q)" "p \<noteq> q"
  shows "(\<exists>x \<in> {cl_procs s p, cl_procs s q}. \<not> lp_task x \<and> 0 < lp_aborted x)
    \<or> in_lead (cl_procs s p) \<and> in_lead (cl_procs s q)
    \<and> (case (lp_broken (cl_procs s p), lp_broken (cl_procs s q)) of
         (None, None) \<Rightarrow> False
       | (Some b, None) \<Rightarrow> cl_lock s = Some q \<and> cl_now s \<le> b + 40
       | (None, Some c) \<Rightarrow> cl_lock s = Some p \<and> cl_now s \<le> c + 40
       | (Some b, Some c) \<Rightarrow> cl_now s \<le> b + 40 \<and> cl_now s \<le> c + 40)"
proof (cases "lp_task (cl_procs s p) \<and> lp_task (cl_procs s q)")
  case True
  have inv: "cluster_inv n s" by (rule cluster_reachable_inv) (rule assms)
  note P = task_in_lead [OF inv conjunct1 [OF True]] and Q = task_in_lead [OF inv conjunct2 [OF True]]
  show ?thesis
    using P Q assms(4) cluster_invD(3) [OF inv, of p] cluster_invD(3) [OF inv, of q]
    by (cases "lp_broken (cl_procs s p)"; cases "lp_broken (cl_procs s q)") (simp_all add: holds_session_def)
next
  case False
  then show ?thesis using assms(2,3) by (auto simp: task_runs_def)
qed

text \<open>The states of a run after each event.\<close>

fun run_states :: "nat \<Rightarrow> cluster_event list \<Rightarrow> cluster \<Rightarrow> cluster list" where
  "run_states n [] s = []"
| "run_states n (e # es) s = (case cluster_step n e s of None \<Rightarrow> [] | Some t \<Rightarrow> t # run_states n es t)"

text \<open>What must not happen to the waiting process \<open>p\<close>.\<close>

fun disturbs :: "nat \<Rightarrow> cluster_event \<Rightarrow> bool" where
  "disturbs p (Attempt q ok) \<longleftrightarrow> p = q \<and> \<not> ok"
| "disturbs p (Shutdown_requested q) \<longleftrightarrow> p = q"
| "disturbs p _ \<longleftrightarrow> False"

lemma waiting_step:
  assumes "cluster_step n e s = Some t" "\<not> disturbs p e" "lp_phase (cl_procs s p) = Waiting w"
    "lp_shutdown (cl_procs s p) = None" "cl_lock s = None" "cl_lock t = None"
  shows "lp_phase (cl_procs t p) = Waiting w \<and> lp_shutdown (cl_procs t p) = None"
  using assms
  by (cases e) (auto simp: leader_op_defs holds_session_def split: leader_phase.splits if_splits)

lemma waiting_run:
  assumes "cluster_run n es s = Some t" "list_all (\<lambda>e. \<not> disturbs p e) es" "lp_phase (cl_procs s p) = Waiting w"
    "lp_shutdown (cl_procs s p) = None" "cl_lock s = None" "list_all (\<lambda>u. cl_lock u = None) (run_states n es s)"
  shows "lp_phase (cl_procs t p) = Waiting w"
  using assms
proof (induction es arbitrary: s)
  case (Cons e es)
  then obtain u where u: "cluster_step n e s = Some u" "cluster_run n es u = Some t"
    by (auto split: option.splits)
  with Cons.prems have "lp_phase (cl_procs u p) = Waiting w \<and> lp_shutdown (cl_procs u p) = None"
    using waiting_step [OF u(1)] by simp
  then show ?case using Cons u by simp
qed simp

text \<open>
  C34. The hand-over: while the lock is free and some process waits for it whose queries succeed and
  that is not told to shut down, at most five seconds pass before a process becomes the leader.
\<close>
theorem leader_handover:
  assumes "cluster_reachable n s" "p < n" "lp_phase (cl_procs s p) = Waiting w" "lp_shutdown (cl_procs s p) = None"
    and "cluster_run n es s = Some t" "list_all (\<lambda>e. \<not> disturbs p e) es"
    and "cl_now s + 5 < cl_now t"
  shows "list_ex (\<lambda>u. cl_lock u \<noteq> None) (s # run_states n es s)"
proof (rule ccontr)
  assume "\<not> ?thesis"
  then have free: "cl_lock s = None" "list_all (\<lambda>u. cl_lock u = None) (run_states n es s)"
    by (auto simp: list_ex_iff list_all_iff)
  have "cluster_reachable n t" by (rule cluster_run_reachable) (rule assms)+
  note inv = cluster_reachable_inv [OF assms(1)] cluster_reachable_inv [OF this]
  have "lp_phase (cl_procs t p) = Waiting w" using waiting_run [OF assms(5,6,3,4) free] .
  then have "cl_now t \<le> w" using cluster_invD(1) [OF inv(2) assms(2)] by (simp add: phase_ok_def)
  moreover have "w \<le> cl_now s + 5" using cluster_invD(1) [OF inv(1) assms(2)] assms(3) by (simp add: phase_ok_def)
  ultimately show False using assms(7) by simp
qed

text \<open>The events that the processes take part in by themselves, without the task or the environment.\<close>

fun own_event :: "cluster_event \<Rightarrow> bool" where
  "own_event (Attempt p ok) = True"
| "own_event (Leave p) = True"
| "own_event (Lock_check p) = True"
| "own_event (Stop_on_shutdown p) = True"
| "own_event (Stop_timeout p ok) = True"
| "own_event _ = False"

text \<open>Every process gets by them, now, to a point where it has nothing to do.\<close>

definition settles :: "nat \<Rightarrow> nat \<Rightarrow> cluster \<Rightarrow> cluster_event list \<Rightarrow> cluster \<Rightarrow> bool" where
  "settles n p s es t \<longleftrightarrow> list_all own_event es \<and> cluster_run n es s = Some t
     \<and> \<not> due (cl_now s) (cl_procs t p) \<and> cl_now t = cl_now s \<and> (\<forall>q. q \<noteq> p \<longrightarrow> cl_procs t q = cl_procs s q)"

lemma settles_waiting:
  assumes "p < n" "lp_phase (cl_procs s p) = Waiting w"
  shows "\<exists>es t. settles n p s es t"
proof (cases "lp_shutdown (cl_procs s p) = None")
  case True
  with assms have "settles n p s [] s" if "cl_now s < w"
    using that by (simp add: settles_def due_def)
  moreover from True assms have "settles n p s [Attempt p False] (wait_again p s)" if "w \<le> cl_now s"
    using that by (simp add: settles_def leader_op_defs due_def)
  ultimately show ?thesis by (meson not_le)
next
  case False
  with assms have "settles n p s [Leave p] (set_proc p ((cl_procs s p)\<lparr>lp_phase := Exited\<rparr>) s)"
    by (auto simp: settles_def set_proc_def due_def)
  then show ?thesis by blast
qed

lemma settles_leading:
  assumes inv: "cluster_inv n s" and p: "p < n" "lp_phase (cl_procs s p) = Leading w"
  shows "\<exists>es t. settles n p s es t"
proof (cases "lp_shutdown (cl_procs s p) = None")
  case True
  have w: "cl_now s \<le> w" using cluster_invD(1) [OF inv p(1)] p(2) by (simp add: phase_ok_def)
  have "settles n p s [] s" if "cl_now s < w"
    using that True p by (simp add: settles_def due_def)
  moreover have "settles n p s [Lock_check p] (lead_check p w s)" if "w \<le> cl_now s"
    using that True p w by (simp add: settles_def lead_check_def lead_stop_def set_proc_def due_def leader_intervals)
  ultimately show ?thesis by (meson not_le)
next
  case False
  with p have "settles n p s [Stop_on_shutdown p] (lead_stop p s)"
    by (simp add: settles_def lead_stop_def set_proc_def due_def leader_intervals)
  then show ?thesis by blast
qed

lemma settles_stopping:
  assumes p: "p < n" "lp_phase (cl_procs s p) = Stopping w"
  shows "\<exists>es t. settles n p s es t"
proof (cases "w \<le> cl_now s")
  case True
  let ?u = "stop_timed_out False p s"
  have u: "cluster_step n (Stop_timeout p False) s = Some ?u" "cl_now ?u = cl_now s"
      "lp_phase (cl_procs ?u p) = Waiting (cl_now s + 5)" "\<And>q. q \<noteq> p \<Longrightarrow> cl_procs ?u q = cl_procs s q"
    using p True by (simp_all add: leader_op_defs)
  obtain es t where "settles n p ?u es t" using settles_waiting [OF p(1) u(3)] by blast
  then have "settles n p s (Stop_timeout p False # es) t"
    using u unfolding settles_def by simp
  then show ?thesis by blast
next
  case False
  with p have "settles n p s [] s" by (simp add: settles_def due_def)
  then show ?thesis by blast
qed

lemma settles_exists:
  assumes "cluster_inv n s" "p < n"
  shows "\<exists>es t. settles n p s es t"
proof (cases "lp_phase (cl_procs s p)")
  case Exited
  then have "settles n p s [] s" by (simp add: settles_def due_def)
  then show ?thesis by blast
qed (use assms settles_waiting settles_leading settles_stopping in blast)+

lemma cluster_run_append:
  "cluster_run n (es @ es') s = (case cluster_run n es s of None \<Rightarrow> None | Some t \<Rightarrow> cluster_run n es' t)"
  by (induction es arbitrary: s) (auto split: option.splits)

lemma cluster_run_inv: "cluster_inv n s \<Longrightarrow> cluster_run n es s = Some t \<Longrightarrow> cluster_inv n t"
  by (induction es arbitrary: s) (auto intro: cluster_step_inv split: option.splits)

lemma all_settle:
  assumes "cluster_inv n s" "k \<le> n"
  shows "\<exists>es t. list_all own_event es \<and> cluster_run n es s = Some t \<and> cl_now t = cl_now s
    \<and> (\<forall>p<k. \<not> due (cl_now s) (cl_procs t p))"
  using assms(2)
proof (induction k)
  case 0
  show ?case by (rule exI [of _ "[]"]) simp
next
  case (Suc k)
  then obtain es t where t: "list_all own_event es" "cluster_run n es s = Some t" "cl_now t = cl_now s"
      "\<forall>p<k. \<not> due (cl_now s) (cl_procs t p)" by auto
  obtain es' u where "settles n k t es' u"
    using settles_exists [OF cluster_run_inv [OF assms(1) t(2)], of k] Suc.prems by auto
  with t have "list_all own_event (es @ es') \<and> cluster_run n (es @ es') s = Some u \<and> cl_now u = cl_now s
      \<and> (\<forall>p<Suc k. \<not> due (cl_now s) (cl_procs u p))"
    by (auto simp: settles_def cluster_run_append less_Suc_eq)
  then show ?case by blast
qed

text \<open>
  C35. A process that is told to shut down leaves: until it has left, at most 30 seconds pass, even if
  its task never returns; and nothing can stop the clock: from every state the processes get by their
  own events, without the task or the environment, to one where it advances.
\<close>
theorem leader_shutdown_terminates:
  assumes "cluster_reachable n s" "p < n" "lp_shutdown (cl_procs s p) = Some u"
  shows "(lp_phase (cl_procs s p) = Exited \<or> cl_now s \<le> u + 30)
    \<and> (\<exists>es t. list_all own_event es \<and> cluster_run n (es @ [Clock_tick]) s = Some t \<and> cl_now t = cl_now s + 1)"
proof -
  have inv: "cluster_inv n s" by (rule cluster_reachable_inv) (rule assms)
  obtain es t where t: "list_all own_event es" "cluster_run n es s = Some t" "cl_now t = cl_now s"
      "\<forall>q<n. \<not> due (cl_now s) (cl_procs t q)" using all_settle [OF inv order_refl] by blast
  then have "cluster_run n (es @ [Clock_tick]) s = Some (t\<lparr>cl_now := cl_now t + 1\<rparr>)"
    by (simp add: cluster_run_append list_ex_iff)
  then have "\<exists>es t. list_all own_event es \<and> cluster_run n (es @ [Clock_tick]) s = Some t \<and> cl_now t = cl_now s + 1"
    using t by fastforce
  moreover have "lp_phase (cl_procs s p) = Exited \<or> cl_now s \<le> u + 30"
    using cluster_invD(1) [OF inv assms(2)] assms(3)
    by (cases "lp_phase (cl_procs s p)") (auto simp: phase_ok_def)
  ultimately show ?thesis by blast
qed

section \<open>Example runs\<close>

text \<open>
  Process 0 leads, its session breaks and the server drops the lock; process 1 takes over after five
  seconds while the task of process 0 still runs; then process 0 is told to shut down.
\<close>

definition demo_takeover :: "cluster_event list" where
  "demo_takeover = [Attempt 0 True, Attempt 1 True, Session_breaks 0, Server_drops_lock, Clock_tick, Clock_tick,
     Clock_tick, Clock_tick, Clock_tick, Attempt 1 True, Shutdown_requested 0]"

definition demo_overlap :: cluster where
  "demo_overlap = the (cluster_run 2 demo_takeover cluster_start)"

lemmas demo_cluster_defs = cluster_start_def proc_start_def leader_op_defs due_def holds_session_def in_lead_def
  upt_rec numeral_eq_Suc

lemma demo_takeover_runs: "cluster_run 2 demo_takeover cluster_start = Some demo_overlap"
  "cl_now demo_overlap = 5" "lp_task (cl_procs demo_overlap 0)" "lp_task (cl_procs demo_overlap 1)"
  "lp_shutdown (cl_procs demo_overlap 0) = Some 5"
  by (simp_all add: demo_overlap_def demo_takeover_def demo_cluster_defs)

lemma demo_overlap_reachable: "cluster_reachable 2 demo_overlap"
  using cluster_run_reachable [OF cluster_reachable.start demo_takeover_runs(1)] .

lemma one_leader_witness:
  "task_runs (cl_procs demo_overlap 0) \<and> task_runs (cl_procs demo_overlap 1)
   \<and> in_lead (cl_procs demo_overlap 0) \<and> in_lead (cl_procs demo_overlap 1)
   \<and> (case (lp_broken (cl_procs demo_overlap 0), lp_broken (cl_procs demo_overlap 1)) of
         (None, None) \<Rightarrow> False
       | (Some b, None) \<Rightarrow> cl_lock demo_overlap = Some 1 \<and> cl_now demo_overlap \<le> b + 40
       | (None, Some c) \<Rightarrow> cl_lock demo_overlap = Some 0 \<and> cl_now demo_overlap \<le> c + 40
       | (Some b, Some c) \<Rightarrow> cl_now demo_overlap \<le> b + 40 \<and> cl_now demo_overlap \<le> c + 40)"
proof -
  have "task_runs (cl_procs demo_overlap 0)" "task_runs (cl_procs demo_overlap 1)"
    using demo_takeover_runs(3,4) by (simp_all add: task_runs_def)
  then show ?thesis using one_leader [OF demo_overlap_reachable, of 0 1] demo_takeover_runs(3,4) by simp
qed

text \<open>
  An aborted task and its successor: process 0 is told to shut down, its task does not return and is aborted after
  the stop timeout, the lock is given back, and process 1 takes it at once while the aborted task still runs.
\<close>

definition demo_abort :: "cluster_event list" where
  "demo_abort = [Attempt 0 True, Shutdown_requested 0, Stop_on_shutdown 0]
     @ concat (replicate 6 ([Attempt 1 True] @ replicate 5 Clock_tick)) @ [Stop_timeout 0 True, Attempt 1 True]"

lemma aborted_task_overlaps:
  "case cluster_run 2 demo_abort cluster_start of None \<Rightarrow> False
   | Some s \<Rightarrow> lp_aborted (cl_procs s 0) = 1 \<and> lp_task (cl_procs s 1) \<and> lp_broken (cl_procs s 0) = None \<and> lp_broken (cl_procs s 1) = None"
  by code_simp

lemma leader_shutdown_terminates_witness:
  "(lp_phase (cl_procs demo_overlap 0) = Exited \<or> cl_now demo_overlap \<le> 5 + 30)
    \<and> (\<exists>es t. list_all own_event es \<and> cluster_run 2 (es @ [Clock_tick]) demo_overlap = Some t
         \<and> cl_now t = cl_now demo_overlap + 1)"
  by (rule leader_shutdown_terminates [OF demo_overlap_reachable _ demo_takeover_runs(5)]) simp

text \<open>With one process the lock is free for five seconds at most: it tries again in time.\<close>

definition demo_free :: "cluster_event list" where
  "demo_free = [Attempt 0 True, Task_returns 0 True]"

definition demo_idle :: cluster where
  "demo_idle = the (cluster_run 1 demo_free cluster_start)"

definition demo_again :: "cluster_event list" where
  "demo_again = [Clock_tick, Clock_tick, Clock_tick, Clock_tick, Clock_tick, Attempt 0 True, Clock_tick]"

lemma demo_again_runs: "cluster_run 1 demo_free cluster_start = Some demo_idle"
  "cluster_run 1 demo_again demo_idle = Some (the (cluster_run 1 demo_again demo_idle))"
  "lp_phase (cl_procs demo_idle 0) = Waiting 5" "lp_shutdown (cl_procs demo_idle 0) = None"
  "cl_now demo_idle + 5 < cl_now (the (cluster_run 1 demo_again demo_idle))"
  by (simp_all add: demo_idle_def demo_free_def demo_again_def demo_cluster_defs)

lemma leader_handover_witness:
  "list_ex (\<lambda>u. cl_lock u \<noteq> None) (demo_idle # run_states 1 demo_again demo_idle)"
  by (rule leader_handover [OF cluster_run_reachable [OF cluster_reachable.start demo_again_runs(1)] _
        demo_again_runs(3,4,2) _ demo_again_runs(5)]) (simp_all add: demo_again_def)

end
