(* ===== verification/Client_Ip.thy ===== *)
theory Client_Ip
  imports Net
begin

text \<open>
  The client address that rate limits and address blocks are counted by
  (\<open>crates/seiran-api/src/middleware/client_ip.rs\<close>): the list of trusted proxies and the walk along
  \<open>X-Forwarded-For\<close> from the right. The text forms of addresses and networks (\<open>std::net\<close>, the crate
  \<open>ipnet\<close>) are a parameter, of which each theorem states what it needs; most hold for all of them.
\<close>

section \<open>Trusted proxies\<close>

datatype ip_net = Net4 ipv4 nat | Net6 ipv6 nat

fun net_contains :: "ip_net \<Rightarrow> ip_addr \<Rightarrow> bool" where
  "net_contains (Net4 base len) (V4 ip) = (drop_bit (32 - len) ip = drop_bit (32 - len) base)"
| "net_contains (Net6 base len) (V6 ip) = (drop_bit (128 - len) ip = drop_bit (128 - len) base)"
| "net_contains _ _ = False"

text \<open>\<open>IpNet::from(IpAddr)\<close>: the network of one address.\<close>

fun net_of_ip :: "ip_addr \<Rightarrow> ip_net" where
  "net_of_ip (V4 ip) = Net4 ip 32"
| "net_of_ip (V6 ip) = Net6 ip 128"

record ip_syntax =
  parse_ip :: "string \<Rightarrow> ip_addr option"
  parse_socket :: "string \<Rightarrow> (ip_addr \<times> nat) option"
  parse_net :: "string \<Rightarrow> ip_net option"
  show_ip :: "ip_addr \<Rightarrow> string"

type_synonym trusted_proxies = "ip_net list"

definition DEFAULT_TRUSTED_PROXIES :: "string list" where
  "DEFAULT_TRUSTED_PROXIES = [''127.0.0.0/8'', ''::1/128'', ''10.0.0.0/8'', ''172.16.0.0/12'',
     ''192.168.0.0/16'', ''fc00::/7'']"

definition trusted_proxies_parse :: "ip_syntax \<Rightarrow> string \<Rightarrow> trusted_proxies" where
  "trusted_proxies_parse syn value =
     List.map_filter (\<lambda>s. case parse_net syn s of
         Some net \<Rightarrow> Some net
       | None \<Rightarrow> map_option net_of_ip (parse_ip syn s))
       (filter (\<lambda>s. s \<noteq> []) (map trim (split_on CHR '','' value)))"

fun join_commas :: "string list \<Rightarrow> string" where
  "join_commas [] = []"
| "join_commas [s] = s"
| "join_commas (s # ss) = s @ CHR '','' # join_commas ss"

text \<open>\<open>env\<close> is the environment variable \<open>TRUSTED_PROXIES\<close>.\<close>

definition trusted_proxies_from_env :: "ip_syntax \<Rightarrow> string option \<Rightarrow> trusted_proxies" where
  "trusted_proxies_from_env syn env = (case env of
      Some value \<Rightarrow> (if trim value \<noteq> [] then trusted_proxies_parse syn value
                     else trusted_proxies_parse syn (join_commas DEFAULT_TRUSTED_PROXIES))
    | None \<Rightarrow> trusted_proxies_parse syn (join_commas DEFAULT_TRUSTED_PROXIES))"

definition proxies_contain :: "trusted_proxies \<Rightarrow> ip_addr \<Rightarrow> bool" where
  "proxies_contain nets ip \<longleftrightarrow> (\<exists>net \<in> set nets. net_contains net ip)"

section \<open>Walking the header\<close>

text \<open>\<open>IpAddr::to_canonical\<close>: an IPv4-mapped address becomes the IPv4 address.\<close>

fun to_canonical :: "ip_addr \<Rightarrow> ip_addr" where
  "to_canonical (V4 ip) = V4 ip"
| "to_canonical (V6 ip) = (case v6_to_ipv4_mapped ip of Some v4 \<Rightarrow> V4 v4 | None \<Rightarrow> V6 ip)"

definition parse_hop :: "ip_syntax \<Rightarrow> string \<Rightarrow> ip_addr option" where
  "parse_hop syn hop =
     (let hop = trim hop in
      map_option to_canonical
        (case parse_ip syn hop of Some ip \<Rightarrow> Some ip | None \<Rightarrow> map_option fst (parse_socket syn hop)))"

text \<open>\<open>HeaderValue::to_str\<close>: only visible ASCII, spaces and tabs.\<close>

definition header_byte_ok :: "char \<Rightarrow> bool" where
  "header_byte_ok c \<longleftrightarrow> (of_char c \<ge> (32::nat) \<and> of_char c < (127::nat)) \<or> of_char c = (9::nat)"

definition header_to_str :: "string \<Rightarrow> string option" where
  "header_to_str value = (if list_all header_byte_ok value then Some value else None)"

fun walk_hops :: "ip_syntax \<Rightarrow> trusted_proxies \<Rightarrow> string list \<Rightarrow> string option" where
  "walk_hops syn trusted [] = None"
| "walk_hops syn trusted (hop # hops) = (case parse_hop syn hop of
      None \<Rightarrow> None
    | Some ip \<Rightarrow> (if \<not> proxies_contain trusted ip then Some (show_ip syn ip) else walk_hops syn trusted hops))"

text \<open>\<open>headers\<close> are the values of \<open>x-forwarded-for\<close> in order.\<close>

definition forwarded_chain :: "string list \<Rightarrow> string list" where
  "forwarded_chain headers = concat (map (split_on CHR '','') (List.map_filter header_to_str headers))"

definition client_ip_resolve ::
  "ip_syntax \<Rightarrow> ip_addr option \<Rightarrow> string list \<Rightarrow> trusted_proxies \<Rightarrow> string option" where
  "client_ip_resolve syn peer headers trusted = (case map_option to_canonical peer of
      None \<Rightarrow> None
    | Some peer \<Rightarrow>
        (if \<not> proxies_contain trusted peer then Some (show_ip syn peer)
         else walk_hops syn trusted (rev (forwarded_chain headers))))"

section \<open>What the proxies send\<close>

text \<open>
  A proxy appends the address that connected to it to the last header line, as the reverse proxies
  that the deployment uses do.
\<close>

definition append_hop :: "string list \<Rightarrow> string \<Rightarrow> string list" where
  "append_hop headers hop =
     (if headers = [] then [hop] else butlast headers @ [last headers @ '', '' @ hop])"

definition header_text :: "string \<Rightarrow> bool" where
  "header_text v \<longleftrightarrow> list_all header_byte_ok v"

text \<open>How a proxy writes an address: readable, without separators.\<close>

definition writes_ip :: "ip_syntax \<Rightarrow> ip_addr \<Rightarrow> string \<Rightarrow> bool" where
  "writes_ip syn ip s \<longleftrightarrow> parse_ip syn s = Some ip \<and> header_text s
     \<and> list_all (\<lambda>c. c \<noteq> CHR '','' \<and> \<not> is_ascii_space c) s"

lemma split_on_append:
  "split_on sep (v @ sep # s) = split_on sep v @ split_on sep s"
  by (induction v) (auto split: list.splits)

lemma header_bytes [simp]: "header_byte_ok CHR '',''" "header_byte_ok CHR '' ''"
  by (simp_all add: header_byte_ok_def)

lemma map_filter_all: "(\<And>x. x \<in> set xs \<Longrightarrow> f x = Some x) \<Longrightarrow> List.map_filter f xs = xs"
  by (induction xs) (auto simp: map_filter_simps)

lemma forwarded_chain_text:
  "list_all header_text h \<Longrightarrow> forwarded_chain h = concat (map (split_on CHR '','') h)"
  by (simp add: forwarded_chain_def map_filter_all list_all_iff header_text_def header_to_str_def)

lemma trim_word:
  assumes "list_all (\<lambda>c. \<not> is_ascii_space c) s"
  shows "trim s = s" "trim (CHR '' '' # s) = s"
proof -
  have *: "dropWhile is_ascii_space t = t" if "list_all (\<lambda>c. \<not> is_ascii_space c) t" for t
    using that by (cases t) auto
  have "list_all (\<lambda>c. \<not> is_ascii_space c) (rev s)" using assms by (simp add: list_all_iff)
  then show "trim s = s" "trim (CHR '' '' # s) = s"
    using * assms by (simp_all add: trim_def trim_start_matches_def trim_end_matches_def is_ascii_space_def [of "CHR '' ''"])
qed

lemma append_hop_text:
  "list_all header_text h \<Longrightarrow> header_text s \<Longrightarrow> list_all header_text (append_hop h s)"
  by (cases h rule: rev_cases) (auto simp: append_hop_def header_text_def)

lemma forwarded_chain_append_hop:
  assumes "list_all header_text h" "writes_ip syn ip s"
  shows "\<exists>y. forwarded_chain (append_hop h s) = forwarded_chain h @ [y] \<and> parse_hop syn y = Some (to_canonical ip)"
proof -
  have s: "CHR '','' \<notin> set s" "list_all (\<lambda>c. \<not> is_ascii_space c) s" "parse_ip syn s = Some ip" "header_text s"
    using assms(2) by (auto simp: writes_ip_def list_all_iff)
  have parse: "parse_hop syn s = Some (to_canonical ip)" "parse_hop syn (CHR '' '' # s) = Some (to_canonical ip)"
    using s by (simp_all add: parse_hop_def trim_word)
  show ?thesis
  proof (cases h rule: rev_cases)
    case Nil
    then show ?thesis
      using s parse by (simp add: append_hop_def forwarded_chain_text split_on_last forwarded_chain_def map_filter_simps
          header_to_str_def header_text_def)
  next
    case (snoc h' v)
    have "split_on CHR '','' (v @ '', '' @ s) = split_on CHR '','' v @ [CHR '' '' # s]"
      using s split_on_append [of "CHR '',''" v "CHR '' '' # s"] by (simp add: split_on_last)
    then show ?thesis
      using snoc parse assms(1) append_hop_text [OF assms(1) s(4)]
      by (simp add: forwarded_chain_text) (simp add: append_hop_def)
  qed
qed

lemma walk_trusted:
  assumes "list_all (\<lambda>y. case parse_hop syn y of None \<Rightarrow> False | Some ip \<Rightarrow> proxies_contain trusted ip) ys"
  shows "walk_hops syn trusted (ys @ zs) = walk_hops syn trusted zs"
  using assms by (induction ys) (auto split: option.splits)

lemma walk_appended:
  assumes "list_all header_text h"
    and "list_all2 (writes_ip syn) ips ss" "list_all (\<lambda>ip. proxies_contain trusted (to_canonical ip)) ips"
  shows "walk_hops syn trusted (rev (forwarded_chain (foldl append_hop h ss)))
    = walk_hops syn trusted (rev (forwarded_chain h))"
  using assms(2,1,3)
proof (induction ips ss arbitrary: h rule: list_all2_induct)
  case (Cons ip ips s ss)
  obtain y where y: "forwarded_chain (append_hop h s) = forwarded_chain h @ [y]" "parse_hop syn y = Some (to_canonical ip)"
    using forwarded_chain_append_hop [OF Cons.prems(1) Cons.hyps(1)] by blast
  have "list_all header_text (append_hop h s)"
    using Cons append_hop_text by (simp add: writes_ip_def)
  then have "walk_hops syn trusted (rev (forwarded_chain (foldl append_hop h (s # ss))))
      = walk_hops syn trusted (rev (forwarded_chain (append_hop h s)))"
    using Cons by simp
  then show ?case using y Cons.prems walk_trusted [where syn = syn and trusted = trusted and ys = "[y]"] by simp
qed simp

text \<open>
  C32. The client address cannot be spoofed through the header: a client that connects directly is
  taken by its connection whatever the header says; behind any chain of trusted proxies that each
  append the address that connected to them, it is the address that connected to the outermost one,
  whatever readable header values the client sent along.
\<close>
theorem client_ip_not_spoofable:
  assumes "proxies_contain trusted (to_canonical client) = False"
    and "list_all header_text headers"
    and "writes_ip syn client s" "list_all2 (writes_ip syn) proxies ss"
    and "list_all (\<lambda>ip. proxies_contain trusted (to_canonical ip)) (last_proxy # proxies)"
  shows "client_ip_resolve syn (Some client) headers trusted = Some (show_ip syn (to_canonical client))
    \<and> client_ip_resolve syn (Some last_proxy) (foldl append_hop headers (s # ss)) trusted
        = Some (show_ip syn (to_canonical client))"
proof -
  obtain y where y: "forwarded_chain (append_hop headers s) = forwarded_chain headers @ [y]"
      "parse_hop syn y = Some (to_canonical client)"
    using forwarded_chain_append_hop [OF assms(2,3)] by blast
  have "list_all header_text (append_hop headers s)"
    using assms append_hop_text by (simp add: writes_ip_def)
  then have "walk_hops syn trusted (rev (forwarded_chain (foldl append_hop headers (s # ss))))
      = Some (show_ip syn (to_canonical client))"
    using walk_appended [where h = "append_hop headers s" and syn = syn and ips = proxies and ss = ss and trusted = trusted] assms y by simp
  then show ?thesis using assms by (simp add: client_ip_resolve_def)
qed

text \<open>
  One unreadable byte hides the client: when the client sends one header value with a byte outside
  visible ASCII, the trusted proxies append to a value that is skipped as a whole, and the request
  counts as one without a client address, which no address limit applies to.
\<close>
theorem opaque_header_hides_client:
  assumes "\<not> header_text v" "proxies_contain trusted (to_canonical last_proxy)"
  shows "client_ip_resolve syn (Some last_proxy) (foldl append_hop [v] ss) trusted = None"
proof -
  have "\<exists>w. foldl append_hop [v] ss = [w] \<and> \<not> header_text w"
    using assms(1)
  proof (induction ss arbitrary: v)
    case (Cons s ss)
    have "\<not> header_text (v @ '', '' @ s)" using Cons.prems by (simp add: header_text_def)
    then show ?case using Cons.IH [of "v @ '', '' @ s"] by (simp add: append_hop_def)
  qed simp
  then obtain w where "foldl append_hop [v] ss = [w]" "\<not> header_text w" by blast
  then show ?thesis
    using assms(2) by (simp add: client_ip_resolve_def forwarded_chain_def map_filter_simps header_to_str_def header_text_def)
qed

section \<open>Examples\<close>

definition demo_syntax :: ip_syntax where
  "demo_syntax = \<lparr>parse_ip = map_of [(''203.0.113.7'', V4 (ipv4_new 203 0 113 7)), (''172.18.0.5'', V4 (ipv4_new 172 18 0 5))],
     parse_socket = (\<lambda>_. None), parse_net = (\<lambda>_. None), show_ip = (\<lambda>_. ''203.0.113.7'')\<rparr>"

definition demo_proxies :: trusted_proxies where
  "demo_proxies = [Net4 (ipv4_new 127 0 0 0) 8, Net4 (ipv4_new 172 16 0 0) 12]"

lemma demo_contains:
  "proxies_contain demo_proxies (V4 (ipv4_new 203 0 113 7)) = False"
  "proxies_contain demo_proxies (V4 (ipv4_new 172 18 0 5))"
  "proxies_contain demo_proxies (V4 (ipv4_new 127 0 0 1))"
  by (simp_all add: demo_proxies_def proxies_contain_def ipv4_new_def)

lemma client_ip_not_spoofable_witness:
  "client_ip_resolve demo_syntax (Some (V4 (ipv4_new 203 0 113 7))) [''198.51.100.66''] demo_proxies = Some ''203.0.113.7''
   \<and> client_ip_resolve demo_syntax (Some (V4 (ipv4_new 127 0 0 1)))
       (foldl append_hop [''198.51.100.66''] [''203.0.113.7'', ''172.18.0.5'']) demo_proxies = Some ''203.0.113.7''"
  using client_ip_not_spoofable [of demo_proxies "V4 (ipv4_new 203 0 113 7)" "[''198.51.100.66'']" demo_syntax
      "''203.0.113.7''" "[V4 (ipv4_new 172 18 0 5)]" "[''172.18.0.5'']" "V4 (ipv4_new 127 0 0 1)"] demo_contains
  by (simp add: demo_syntax_def writes_ip_def header_text_def header_byte_ok_def is_ascii_space_def)

lemma opaque_header_hides_client_witness:
  "client_ip_resolve demo_syntax (Some (V4 (ipv4_new 127 0 0 1))) (foldl append_hop [[CHR 0xFF]] [''203.0.113.7'']) demo_proxies = None"
  by (rule opaque_header_hides_client) (simp_all add: demo_contains header_text_def header_byte_ok_def)

end
