(* ===== verification/Rate_Limits.thy ===== *)
theory Rate_Limits
  imports Numbers "HOL-Library.Sublist"
begin

text \<open>
  Rate limits (\<open>crates/seiran-common/src/rate_limit.rs\<close>, \<open>repository/rate_limit_log.rs\<close>,
  \<open>repository/auth_rate_limit.rs\<close>, \<open>crates/seiran-api/src/rate_limit.rs\<close>): the guard against guessed
  credentials, the limit of account creations per address, of searches and of people talked to.

  The tables are lists, newest row first. A query either fails, as \<open>faults\<close> says, or sees and changes
  the tables at once; what runs under a transaction and an advisory lock in the code is one query
  here. The clock of the database and of the process are one, in microseconds. Role names, settings
  and hashes are read through parameters.
\<close>

section \<open>Results, settings and roles\<close>

datatype api_error =
    Unauthorized string
  | NotFound string
  | BadRequest string
  | Conflict string
  | Forbidden string
  | ServiceUnavailable string
  | BadGateway string
  | InsufficientStorage
  | TooManyRequests string "int option"
  | Internal string

datatype rate_query = Q_Record_Attempt | Q_Count_Secrets | Q_Count_Identifiers | Q_Mark_Rejected
  | Q_Count_Rejections | Q_Block_Ip | Q_Find_Block | Q_Reserve | Q_Cancel | Q_Search | Q_Contacts
  | Q_Count_Posts | Q_Count_Follows

type_synonym faults = "rate_query \<Rightarrow> string option"

definition query :: "faults \<Rightarrow> rate_query \<Rightarrow> 'a \<Rightarrow> string + 'a" where
  "query faults q x = (case faults q of Some e \<Rightarrow> Inl e | None \<Rightarrow> Inr x)"

definition internal :: "string + 'a \<Rightarrow> api_error + 'a" where
  "internal r = (case r of Inl e \<Rightarrow> Inl (Internal e) | Inr x \<Rightarrow> Inr x)"

text \<open>The site settings and the roles as their repositories answer; \<open>pepper\<close> and the hash of \<open>crypto.rs\<close>.\<close>

record rate_env =
  settings :: "string \<Rightarrow> string + string option"
  role_rows :: "int \<Rightarrow> string + string option"
  to_lowercase :: "string \<Rightarrow> string"
  keyed_hash :: "bytes \<Rightarrow> string \<Rightarrow> bytes"
  pepper :: bytes

definition setting_i64 :: "rate_env \<Rightarrow> string \<Rightarrow> int \<Rightarrow> int" where
  "setting_i64 env key default_value = (case settings env key of
      Inr (Some v) \<Rightarrow> (case parse_i64 v of Some n \<Rightarrow> n | None \<Rightarrow> default_value)
    | _ \<Rightarrow> default_value)"

definition actor_role :: "rate_env \<Rightarrow> int \<Rightarrow> string" where
  "actor_role env actor_id = (case role_rows env actor_id of Inr (Some role) \<Rightarrow> role | _ \<Rightarrow> ''user'')"

definition role_limit :: "rate_env \<Rightarrow> string \<Rightarrow> string \<Rightarrow> int \<Rightarrow> string \<Rightarrow> int \<Rightarrow> int option" where
  "role_limit env role user_key user_default moderator_key moderator_default =
     (if role = ''admin'' then None
      else if role = ''moderator'' then Some (setting_i64 env moderator_key moderator_default)
      else Some (setting_i64 env user_key user_default))"

definition minutes :: "int \<Rightarrow> int" where "minutes n = n * 60 * 10 ^ 6"
definition hours :: "int \<Rightarrow> int" where "hours n = n * 3600 * 10 ^ 6"

section \<open>Tables\<close>

record attempt_row =
  at_id :: nat
  at_kind :: string
  at_identifier :: bytes
  at_secret :: bytes
  at_ip :: "string option"
  at_rejected :: bool
  at_created :: int

record creation_row =
  cr_id :: nat
  cr_ip :: string
  cr_created :: int

record search_row =
  se_id :: nat
  se_actor :: int
  se_created :: int

record contact_row =
  co_actor :: int
  co_target :: int
  co_created :: int

text \<open>\<open>rl_serial\<close> numbers the rows of all tables; \<open>auth_ip_blocks\<close> has one row per address.\<close>

record rate_db =
  rl_serial :: nat
  attempts :: "attempt_row list"
  ip_blocks :: "string \<Rightarrow> (int \<times> string) option"
  creations :: "creation_row list"
  searches :: "search_row list"
  contacts :: "contact_row list"

definition empty_rate_db :: rate_db where
  "empty_rate_db = \<lparr>rl_serial = 0, attempts = [], ip_blocks = (\<lambda>_. None), creations = [], searches = [], contacts = []\<rparr>"

subsection \<open>Attempts and blocks\<close>

definition record_attempt ::
  "int \<Rightarrow> string \<Rightarrow> bytes \<Rightarrow> bytes \<Rightarrow> string option \<Rightarrow> rate_db \<Rightarrow> attempt_row \<times> rate_db" where
  "record_attempt now kind identifier secret ip db =
     (let row = \<lparr>at_id = rl_serial db, at_kind = kind, at_identifier = identifier, at_secret = secret, at_ip = ip,
                 at_rejected = False, at_created = now\<rparr>
      in (row, db\<lparr>rl_serial := rl_serial db + 1, attempts := row # attempts db\<rparr>))"

definition mark_rejected :: "nat \<Rightarrow> rate_db \<Rightarrow> rate_db" where
  "mark_rejected i db =
     db\<lparr>attempts := map (\<lambda>r. if at_id r = i then r\<lparr>at_rejected := True\<rparr> else r) (attempts db)\<rparr>"

text \<open>\<open>COUNT(DISTINCT c)\<close>.\<close>

definition count_distinct :: "('a \<Rightarrow> 'b) \<Rightarrow> 'a list \<Rightarrow> int" where
  "count_distinct f xs = int (length (remdups (map f xs)))"

definition count_distinct_secrets :: "string \<Rightarrow> bytes \<Rightarrow> int \<Rightarrow> rate_db \<Rightarrow> int" where
  "count_distinct_secrets kind identifier since db = count_distinct at_secret
     (filter (\<lambda>r. at_kind r = kind \<and> at_identifier r = identifier \<and> since \<le> at_created r) (attempts db))"

definition count_distinct_identifiers :: "string \<Rightarrow> bytes \<Rightarrow> int \<Rightarrow> rate_db \<Rightarrow> int" where
  "count_distinct_identifiers kind secret since db = count_distinct at_identifier
     (filter (\<lambda>r. at_kind r = kind \<and> at_secret r = secret \<and> since \<le> at_created r) (attempts db))"

definition count_recent_rejections_by_ip :: "string \<Rightarrow> int \<Rightarrow> rate_db \<Rightarrow> int" where
  "count_recent_rejections_by_ip ip since db =
     int (length (filter (\<lambda>r. at_ip r = Some ip \<and> at_rejected r \<and> since \<le> at_created r) (attempts db)))"

definition find_active_ip_block :: "int \<Rightarrow> string \<Rightarrow> rate_db \<Rightarrow> int option" where
  "find_active_ip_block now ip db = (case ip_blocks db ip of
      Some (until, _) \<Rightarrow> if now < until then Some until else None
    | None \<Rightarrow> None)"

definition block_ip :: "string \<Rightarrow> int \<Rightarrow> string \<Rightarrow> rate_db \<Rightarrow> rate_db" where
  "block_ip ip until reason db = db\<lparr>ip_blocks := (ip_blocks db)(ip \<mapsto> (until, reason))\<rparr>"

definition unblock_ip :: "string \<Rightarrow> rate_db \<Rightarrow> bool \<times> rate_db" where
  "unblock_ip ip db = (ip_blocks db ip \<noteq> None, db\<lparr>ip_blocks := (ip_blocks db)(ip := None)\<rparr>)"

subsection \<open>Account creations\<close>

definition reserve_creation :: "int \<Rightarrow> string \<Rightarrow> int \<Rightarrow> int \<Rightarrow> rate_db \<Rightarrow> nat option \<times> rate_db" where
  "reserve_creation now ip since limit db =
     (let count = int (length (filter (\<lambda>r. cr_ip r = ip \<and> since \<le> cr_created r) (creations db))) in
      if count \<ge> limit then (None, db)
      else (Some (rl_serial db), db\<lparr>rl_serial := rl_serial db + 1,
              creations := \<lparr>cr_id = rl_serial db, cr_ip = ip, cr_created = now\<rparr> # creations db\<rparr>))"

definition cancel_creation :: "nat \<Rightarrow> rate_db \<Rightarrow> rate_db" where
  "cancel_creation i db = db\<lparr>creations := filter (\<lambda>r. cr_id r \<noteq> i) (creations db)\<rparr>"

subsection \<open>Searches and contacts\<close>

definition record_search_if_under_limit :: "int \<Rightarrow> int \<Rightarrow> int \<Rightarrow> int \<Rightarrow> rate_db \<Rightarrow> bool \<times> rate_db" where
  "record_search_if_under_limit now actor since limit db =
     (let count = int (length (filter (\<lambda>r. se_actor r = actor \<and> since \<le> se_created r) (searches db))) in
      if count \<ge> limit then (False, db)
      else (True, db\<lparr>rl_serial := rl_serial db + 1,
              searches := \<lparr>se_id = rl_serial db, se_actor = actor, se_created = now\<rparr> # searches db\<rparr>))"

text \<open>The target set is a list without duplicates.\<close>

definition record_contacts_if_under_limit ::
  "int \<Rightarrow> int \<Rightarrow> int \<Rightarrow> int list \<Rightarrow> nat \<Rightarrow> rate_db \<Rightarrow> bool \<times> rate_db" where
  "record_contacts_if_under_limit now actor since targets max_unique db =
     (let existing = remdups (map co_target (filter (\<lambda>r. co_actor r = actor \<and> since \<le> co_created r) (contacts db)));
          new_targets = filter (\<lambda>t. t \<notin> set existing) targets
      in if length existing + length new_targets > max_unique then (False, db)
         else (True, db\<lparr>contacts :=
                map (\<lambda>t. \<lparr>co_actor = actor, co_target = t, co_created = now\<rparr>) new_targets @ contacts db\<rparr>))"

section \<open>Handlers\<close>

datatype attempt_kind = Login | Totp

fun attempt_kind_str :: "attempt_kind \<Rightarrow> string" where
  "attempt_kind_str Login = ''login''"
| "attempt_kind_str Totp = ''totp''"

definition account_window :: "rate_env \<Rightarrow> int" where
  "account_window env = max (setting_i64 env ''account_creation_ip_window_minutes'' 60) 1"

definition account_max :: "rate_env \<Rightarrow> int" where
  "account_max env = max (setting_i64 env ''account_creation_ip_max'' 5) 1"

definition reserve_account_creation ::
  "rate_env \<Rightarrow> faults \<Rightarrow> int \<Rightarrow> string option \<Rightarrow> rate_db \<Rightarrow> (api_error + nat option) \<times> rate_db" where
  "reserve_account_creation env faults now ip db = (case ip of
      None \<Rightarrow> (Inr None, db)
    | Some ip \<Rightarrow>
        (case internal (query faults Q_Reserve (reserve_creation now ip (now - minutes (account_window env)) (account_max env) db)) of
           Inl e \<Rightarrow> (Inl e, db)
         | Inr (Some i, db') \<Rightarrow> (Inr (Some i), db')
         | Inr (None, db') \<Rightarrow>
             (Inl (TooManyRequests ''ACCOUNT_CREATION_RATE_LIMITED'' (Some (account_window env * 60))), db')))"

definition cancel_account_creation :: "faults \<Rightarrow> nat option \<Rightarrow> rate_db \<Rightarrow> rate_db" where
  "cancel_account_creation faults reservation db = (case reservation of
      None \<Rightarrow> db
    | Some i \<Rightarrow> (case query faults Q_Cancel (cancel_creation i db) of Inl e \<Rightarrow> db | Inr db' \<Rightarrow> db'))"

text \<open>\<open>posts\<close> counts the posts of the actor since a time (\<open>count_posts_since\<close>).\<close>

definition check_post_rate_limit :: "rate_env \<Rightarrow> faults \<Rightarrow> (int \<Rightarrow> int \<Rightarrow> int) \<Rightarrow> int \<Rightarrow> int \<Rightarrow> api_error + unit" where
  "check_post_rate_limit env faults posts now actor_id =
     (case role_limit env (actor_role env actor_id) ''post_rate_limit_max_user'' 30 ''post_rate_limit_max_moderator'' 100 of
        None \<Rightarrow> Inr ()
      | Some limit \<Rightarrow>
          (let window_minutes = max (setting_i64 env ''post_rate_limit_window_minutes'' 60) 1 in
           rbind (internal (query faults Q_Count_Posts (posts actor_id (now - minutes window_minutes)))) (\<lambda>count.
           if count \<ge> limit then Inl (TooManyRequests ''POST_RATE_LIMITED'' (Some (window_minutes * 60))) else Inr ())))"

text \<open>\<open>follows\<close> counts the follows of the actor since a time; a quarantined actor has its own limit.\<close>

datatype follow_limit_error = Exceeded int | Follow_Db string

definition check_follow_rate_limit :: "rate_env \<Rightarrow> faults \<Rightarrow> (int \<Rightarrow> int \<Rightarrow> int) \<Rightarrow> int \<Rightarrow> int \<Rightarrow> follow_limit_error + unit" where
  "check_follow_rate_limit env faults follows now actor_id =
     (let role = actor_role env actor_id;
          limit = (if role = ''quarantine'' then Some (setting_i64 env ''follow_rate_limit_max_quarantine'' 10)
                   else role_limit env role ''follow_rate_limit_max_user'' 100 ''follow_rate_limit_max_moderator'' 300)
      in case limit of
           None \<Rightarrow> Inr ()
         | Some limit \<Rightarrow>
             (let window_hours = max (setting_i64 env ''follow_rate_limit_window_hours'' 24) 1 in
              case query faults Q_Count_Follows (follows actor_id (now - hours window_hours)) of
                Inl e \<Rightarrow> Inl (Follow_Db e)
              | Inr followed \<Rightarrow> if followed \<ge> limit then Inl (Exceeded (window_hours * 3600)) else Inr ()))"

definition api_check_follow_rate_limit :: "rate_env \<Rightarrow> faults \<Rightarrow> (int \<Rightarrow> int \<Rightarrow> int) \<Rightarrow> int \<Rightarrow> int \<Rightarrow> api_error + unit" where
  "api_check_follow_rate_limit env faults follows now actor_id =
     (case check_follow_rate_limit env faults follows now actor_id of
        Inr u \<Rightarrow> Inr u
      | Inl (Exceeded secs) \<Rightarrow> Inl (TooManyRequests ''FOLLOW_RATE_LIMITED'' (Some secs))
      | Inl (Follow_Db e) \<Rightarrow> Inl (Internal e))"

definition list_creation_max :: "rate_env \<Rightarrow> int \<Rightarrow> int option" where
  "list_creation_max env actor_id =
     role_limit env (actor_role env actor_id) ''list_max_count_user'' 5 ''list_max_count_moderator'' 30"

definition list_member_max :: "rate_env \<Rightarrow> int \<Rightarrow> int option" where
  "list_member_max env actor_id =
     role_limit env (actor_role env actor_id) ''list_member_max_user'' 50 ''list_member_max_moderator'' 300"

definition search_window :: "rate_env \<Rightarrow> int" where
  "search_window env = max (setting_i64 env ''search_rate_limit_window_minutes'' 60) 1"

definition search_max :: "rate_env \<Rightarrow> int \<Rightarrow> int option" where
  "search_max env actor_id =
     role_limit env (actor_role env actor_id) ''search_rate_limit_max_user'' 10 ''search_rate_limit_max_moderator'' 50"

definition check_search_rate_limit ::
  "rate_env \<Rightarrow> faults \<Rightarrow> int \<Rightarrow> int \<Rightarrow> bool \<Rightarrow> rate_db \<Rightarrow> (api_error + unit) \<times> rate_db" where
  "check_search_rate_limit env faults now actor_id is_initial_search db =
     (if \<not> is_initial_search then (Inr (), db)
      else (case search_max env actor_id of
          None \<Rightarrow> (Inr (), db)
        | Some limit \<Rightarrow>
            (case internal (query faults Q_Search
                   (record_search_if_under_limit now actor_id (now - minutes (search_window env)) limit db)) of
               Inl e \<Rightarrow> (Inl e, db)
             | Inr (recorded, db') \<Rightarrow>
                 (if \<not> recorded then Inl (TooManyRequests ''SEARCH_RATE_LIMITED'' (Some (search_window env * 60))) else Inr (),
                  db'))))"

definition contact_limited_role :: "string \<Rightarrow> bool" where
  "contact_limited_role role \<longleftrightarrow> role \<in> {''user'', ''emoji-editor'', ''silence'', ''quarantine''}"

definition check_and_record_contacts ::
  "rate_env \<Rightarrow> faults \<Rightarrow> int \<Rightarrow> int \<Rightarrow> int list \<Rightarrow> rate_db \<Rightarrow> (api_error + unit) \<times> rate_db" where
  "check_and_record_contacts env faults now actor_id targets db =
     (if \<not> contact_limited_role (actor_role env actor_id) then (Inr (), db)
      else
        (let targets = remdups (filter (\<lambda>t. t \<noteq> actor_id) targets) in
         if targets = [] then (Inr (), db)
         else (case internal (query faults Q_Contacts
                   (record_contacts_if_under_limit now actor_id (now - hours 1) targets 30 db)) of
             Inl e \<Rightarrow> (Inl e, db)
           | Inr (recorded, db') \<Rightarrow>
               (if \<not> recorded then Inl (TooManyRequests ''CONTACT_RATE_LIMITED'' (Some 3600)) else Inr (), db'))))"

definition window_reset_at :: "string + int option \<Rightarrow> string + int option \<Rightarrow> int option" where
  "window_reset_at last_reset last_login =
     (case ((case last_reset of Inr t \<Rightarrow> t | Inl _ \<Rightarrow> None), (case last_login of Inr t \<Rightarrow> t | Inl _ \<Rightarrow> None)) of
        (Some a, Some b) \<Rightarrow> Some (max a b)
      | (Some a, None) \<Rightarrow> Some a
      | (None, Some b) \<Rightarrow> Some b
      | (None, None) \<Rightarrow> None)"

definition check_ip_not_blocked :: "faults \<Rightarrow> int \<Rightarrow> string option \<Rightarrow> rate_db \<Rightarrow> api_error + unit" where
  "check_ip_not_blocked faults now ip db = (case ip of
      None \<Rightarrow> Inr ()
    | Some ip \<Rightarrow>
        rbind (internal (query faults Q_Find_Block (find_active_ip_block now ip db))) (\<lambda>blocked_until.
        case blocked_until of
          Some until \<Rightarrow> Inl (TooManyRequests ''IP_BLOCKED'' (Some (max ((until - now) div 10 ^ 6) 1)))
        | None \<Rightarrow> Inr ()))"

subsection \<open>Credential attempts\<close>

text \<open>
  The handler in its database steps: the attempt is recorded, the secrets of the identifier are
  counted, then the identifiers of the secret are counted and the decision is taken.
\<close>

record pending_attempt =
  pa_row :: attempt_row
  pa_identifier_since :: int
  pa_window_start :: int

definition credential_window :: "rate_env \<Rightarrow> int" where
  "credential_window env = setting_i64 env ''auth_bruteforce_window_minutes'' 10"

definition credential_max :: "rate_env \<Rightarrow> int" where
  "credential_max env = setting_i64 env ''auth_bruteforce_max_variants'' 5"

definition credential_record ::
  "rate_env \<Rightarrow> faults \<Rightarrow> int \<Rightarrow> attempt_kind \<Rightarrow> string option \<Rightarrow> string \<Rightarrow> string \<Rightarrow> int option \<Rightarrow> rate_db
     \<Rightarrow> api_error + pending_attempt \<times> rate_db" where
  "credential_record env faults now kind ip identifier secret reset_at db =
     (let identifier_hash = keyed_hash env (pepper env) (to_lowercase env identifier);
          secret_hash = keyed_hash env (pepper env) secret;
          window_start = now - minutes (credential_window env);
          identifier_since = (case reset_at of Some t \<Rightarrow> if t > window_start then t else window_start | None \<Rightarrow> window_start)
      in rbind (internal (query faults Q_Record_Attempt
              (record_attempt now (attempt_kind_str kind) identifier_hash secret_hash ip db))) (\<lambda>(row, db').
         Inr (\<lparr>pa_row = row, pa_identifier_since = identifier_since, pa_window_start = window_start\<rparr>, db')))"

definition credential_count_secrets :: "faults \<Rightarrow> pending_attempt \<Rightarrow> rate_db \<Rightarrow> api_error + int" where
  "credential_count_secrets faults p db = internal (query faults Q_Count_Secrets
     (count_distinct_secrets (at_kind (pa_row p)) (at_identifier (pa_row p)) (pa_identifier_since p) db))"

definition BLOCK_REASON :: string where
  "BLOCK_REASON = string_of_bytes
     [0xE3, 0x83, 0xAD, 0xE3, 0x82, 0xB0, 0xE3, 0x82, 0xA4, 0xE3, 0x83, 0xB3, 0x2F, 0x54, 0x4F,
      0x54, 0x50, 0xE3, 0x83, 0x96, 0xE3, 0x83, 0xAB, 0xE3, 0x83, 0xBC, 0xE3, 0x83, 0x88, 0xE3,
      0x83, 0x95, 0xE3, 0x82, 0xA9, 0xE3, 0x83, 0xBC, 0xE3, 0x82, 0xB9, 0xE6, 0xA4, 0x9C, 0xE7,
      0x9F, 0xA5]"

definition record_ip_rejection_and_maybe_block ::
  "rate_env \<Rightarrow> faults \<Rightarrow> int \<Rightarrow> string \<Rightarrow> rate_db \<Rightarrow> (api_error + unit) \<times> rate_db" where
  "record_ip_rejection_and_maybe_block env faults now ip db =
     (let block_window = setting_i64 env ''auth_ip_block_window_minutes'' 10;
          block_threshold = setting_i64 env ''auth_ip_block_threshold'' 5;
          block_duration_hours = setting_i64 env ''auth_ip_block_duration_hours'' 24
      in case internal (query faults Q_Count_Rejections (count_recent_rejections_by_ip ip (now - minutes block_window) db)) of
           Inl e \<Rightarrow> (Inl e, db)
         | Inr rejections \<Rightarrow>
             (if rejections \<ge> block_threshold then
                (case internal (query faults Q_Block_Ip (block_ip ip (now + hours block_duration_hours) BLOCK_REASON db)) of
                   Inl e \<Rightarrow> (Inl e, db)
                 | Inr db' \<Rightarrow> (Inr (), db'))
              else (Inr (), db)))"

definition credential_decide ::
  "rate_env \<Rightarrow> faults \<Rightarrow> int \<Rightarrow> pending_attempt \<Rightarrow> int \<Rightarrow> rate_db \<Rightarrow> (api_error + unit) \<times> rate_db" where
  "credential_decide env faults now p variants_by_identifier db =
     (case internal (query faults Q_Count_Identifiers
             (count_distinct_identifiers (at_kind (pa_row p)) (at_secret (pa_row p)) (pa_window_start p) db)) of
        Inl e \<Rightarrow> (Inl e, db)
      | Inr variants_by_secret \<Rightarrow>
          (if variants_by_identifier > credential_max env \<or> variants_by_secret > credential_max env then
             (case internal (query faults Q_Mark_Rejected (mark_rejected (at_id (pa_row p)) db)) of
                Inl e \<Rightarrow> (Inl e, db)
              | Inr db' \<Rightarrow>
                  (case (case at_ip (pa_row p) of
                           Some ip \<Rightarrow> record_ip_rejection_and_maybe_block env faults now ip db'
                         | None \<Rightarrow> (Inr (), db')) of
                     (Inl e, db'') \<Rightarrow> (Inl e, db'')
                   | (Inr _, db'') \<Rightarrow>
                       (Inl (TooManyRequests ''AUTH_RATE_LIMITED'' (Some (max (credential_window env) 1 * 60))), db'')))
           else (Inr (), db)))"

definition check_and_record_credential_attempt ::
  "rate_env \<Rightarrow> faults \<Rightarrow> int \<Rightarrow> attempt_kind \<Rightarrow> string option \<Rightarrow> string \<Rightarrow> string \<Rightarrow> int option \<Rightarrow> rate_db
     \<Rightarrow> (api_error + unit) \<times> rate_db" where
  "check_and_record_credential_attempt env faults now kind ip identifier secret reset_at db =
     (case credential_record env faults now kind ip identifier secret reset_at db of
        Inl e \<Rightarrow> (Inl e, db)
      | Inr (p, db') \<Rightarrow>
          (case credential_count_secrets faults p db' of
             Inl e \<Rightarrow> (Inl e, db')
           | Inr variants \<Rightarrow> credential_decide env faults now p variants db'))"

end
