(* ===== verification/Rate_Guard.thy ===== *)
theory Rate_Guard
  imports Rate_Limits
begin

text \<open>
  What the rate limits promise in every interleaving of concurrent requests: the sliding windows of
  account creations, searches, contacts and credential attempts. The locale \<open>window_limit\<close> is the
  contract of a log that is only extended under a count of its window; each table interprets it.
\<close>

section \<open>A log with a limited window\<close>

text \<open>
  Newest entry first: when an entry was added, the entries of its key_of from its \<open>since\<close> on held at
  most \<open>M\<close> different items.
\<close>

fun windowed :: "('a \<Rightarrow> 'g) \<Rightarrow> ('a \<Rightarrow> int) \<Rightarrow> ('a \<Rightarrow> int) \<Rightarrow> ('a \<Rightarrow> 'k) \<Rightarrow> ('g \<Rightarrow> nat) \<Rightarrow> 'a list \<Rightarrow> bool" where
  "windowed key_of since created item M [] = True"
| "windowed key_of since created item M (x # xs) =
     (card (item ` {y \<in> set (x # xs). key_of y = key_of x \<and> since x \<le> created y}) \<le> M (key_of x)
      \<and> windowed key_of since created item M xs)"

lemma subseq_set: "subseq xs ys \<Longrightarrow> set xs \<subseteq> set ys"
  by (induction xs ys rule: list_emb.induct) auto

lemma windowed_subseq:
  "subseq xs ys \<Longrightarrow> windowed key_of since created item M ys \<Longrightarrow> windowed key_of since created item M xs"
proof (induction xs ys rule: list_emb.induct)
  case (list_emb_Cons2 x y xs ys)
  have "card (item ` {z \<in> set (x # xs). key_of z = key_of x \<and> since x \<le> created z})
      \<le> card (item ` {z \<in> set (x # ys). key_of z = key_of x \<and> since x \<le> created z})"
    using subseq_set [OF list_emb_Cons2(2)] by (intro card_mono image_mono) auto
  also have "\<dots> \<le> M (key_of x)" using list_emb_Cons2(1,4) by simp
  finally show ?case using list_emb_Cons2 by simp
qed simp_all

lemma windowed_append:
  assumes "windowed key_of since created item M ys"
    and "\<And>x. x \<in> set xs \<Longrightarrow>
      card (item ` {y \<in> set (xs @ ys). key_of y = key_of x \<and> since x \<le> created y}) \<le> M (key_of x)"
  shows "windowed key_of since created item M (xs @ ys)"
  using assms(2)
proof (induction xs)
  case (Cons x xs)
  have "card (item ` {z \<in> set (xs @ ys). key_of z = key_of y \<and> since y \<le> created z}) \<le> M (key_of y)"
    if "y \<in> set xs" for y
  proof -
    have "card (item ` {z \<in> set (xs @ ys). key_of z = key_of y \<and> since y \<le> created z})
        \<le> card (item ` {z \<in> set ((x # xs) @ ys). key_of z = key_of y \<and> since y \<le> created z})"
      by (rule card_mono) auto
    also have "\<dots> \<le> M (key_of y)" using Cons.prems that by simp
    finally show ?thesis .
  qed
  then have "windowed key_of since created item M (xs @ ys)" by (rule Cons.IH)
  then show ?case using Cons.prems [of x] by simp
qed (use assms(1) in simp)

lemma windowed_bound:
  "windowed key_of since created item M xs \<Longrightarrow>
     card (item ` {y \<in> set xs. key_of y = g \<and> since y \<le> lo \<and> lo \<le> created y}) \<le> M g"
proof (induction xs)
  case (Cons x xs)
  show ?case
  proof (cases "key_of x = g \<and> since x \<le> lo \<and> lo \<le> created x")
    case True
    have "card (item ` {y \<in> set (x # xs). key_of y = g \<and> since y \<le> lo \<and> lo \<le> created y})
        \<le> card (item ` {y \<in> set (x # xs). key_of y = key_of x \<and> since x \<le> created y})"
      using True by (intro card_mono) auto
    then show ?thesis using Cons.prems True by simp
  next
    case False
    then have "{y \<in> set (x # xs). key_of y = g \<and> since y \<le> lo \<and> lo \<le> created y}
        = {y \<in> set xs. key_of y = g \<and> since y \<le> lo \<and> lo \<le> created y}" by auto
    then show ?thesis using Cons by simp
  qed
qed simp

text \<open>How a step may change such a log: rows disappear, or new ones come with a full count of their window.\<close>

definition log_extends ::
  "('a \<Rightarrow> 'g) \<Rightarrow> ('a \<Rightarrow> int) \<Rightarrow> ('a \<Rightarrow> int) \<Rightarrow> ('a \<Rightarrow> 'k) \<Rightarrow> ('g \<Rightarrow> nat) \<Rightarrow> 'a list \<Rightarrow> 'a list \<Rightarrow> bool" where
  "log_extends key_of since created item M old log' \<longleftrightarrow> (\<exists>new kept. log' = new @ kept \<and> subseq kept old
     \<and> (\<forall>x \<in> set new. card (item ` {y \<in> set log'. key_of y = key_of x \<and> since x \<le> created y}) \<le> M (key_of x)))"

lemma log_extends_refl [simp]: "log_extends key_of since created item M xs xs"
  unfolding log_extends_def by (intro exI [of _ "[]"] exI [of _ xs]) simp

lemma log_extends_filter [simp]: "log_extends key_of since created item M xs (filter P xs)"
  unfolding log_extends_def by (intro exI [of _ "[]"] exI [of _ "filter P xs"]) simp

lemma log_extends_append:
  assumes "\<And>x. x \<in> set new \<Longrightarrow>
    card (item ` {y \<in> set (new @ xs). key_of y = key_of x \<and> since x \<le> created y}) \<le> M (key_of x)"
  shows "log_extends key_of since created item M xs (new @ xs)"
  unfolding log_extends_def using assms by (intro exI [of _ new] exI [of _ xs]) simp

text \<open>A counted row: the count is of rows, the window of items.\<close>

lemma log_extends_counted:
  assumes "length (filter (\<lambda>y. key_of y = key_of x \<and> since x \<le> created y) xs) < M (key_of x)"
  shows "log_extends key_of since created item M xs (x # xs)"
proof -
  let ?old = "filter (\<lambda>y. key_of y = key_of x \<and> since x \<le> created y) xs"
  have "item ` {y \<in> set (x # xs). key_of y = key_of x \<and> since x \<le> created y} \<subseteq> set (map item (x # ?old))" by auto
  then have "card (item ` {y \<in> set (x # xs). key_of y = key_of x \<and> since x \<le> created y}) \<le> length (map item (x # ?old))"
    by (meson card_length card_mono finite_set le_trans)
  also have "\<dots> \<le> M (key_of x)" using assms by simp
  finally show ?thesis using log_extends_append [of "[x]"] by simp
qed

locale window_limit =
  fixes step :: "'s \<Rightarrow> 's \<Rightarrow> bool" and start :: 's and inv :: "'s \<Rightarrow> bool" and log :: "'s \<Rightarrow> 'a list"
    and key_of :: "'a \<Rightarrow> 'g" and since :: "'a \<Rightarrow> int" and created :: "'a \<Rightarrow> int" and item :: "'a \<Rightarrow> 'k"
    and M :: "'g \<Rightarrow> nat"
  assumes inv_start: "inv start" and inv_step: "inv s \<Longrightarrow> step s t \<Longrightarrow> inv t"
    and log_start: "log start = []"
    and log_step: "inv s \<Longrightarrow> step s t \<Longrightarrow> log_extends key_of since created item M (log s) (log t)"
begin

lemma reachable_inv: "step\<^sup>*\<^sup>* start s \<Longrightarrow> inv s"
  by (induction rule: rtranclp_induct) (auto intro: inv_start inv_step)

lemma reachable_windowed: "step\<^sup>*\<^sup>* start s \<Longrightarrow> windowed key_of since created item M (log s)"
proof (induction rule: rtranclp_induct)
  case base
  then show ?case by (simp add: log_start)
next
  case (step s t)
  obtain new kept where t: "log t = new @ kept" "subseq kept (log s)"
      "\<forall>x \<in> set new. card (item ` {y \<in> set (log t). key_of y = key_of x \<and> since x \<le> created y}) \<le> M (key_of x)"
    using log_step [OF reachable_inv [OF step(1)] step(2)] unfolding log_extends_def by blast
  then show ?case using windowed_append [OF windowed_subseq [OF t(2) step(3)], of new] by simp
qed

lemma window_bound:
  "step\<^sup>*\<^sup>* start s \<Longrightarrow> card (item ` {y \<in> set (log s). key_of y = g \<and> since y \<le> lo \<and> lo \<le> created y}) \<le> M g"
  by (rule windowed_bound) (rule reachable_windowed)

end

section \<open>The system\<close>

text \<open>
  The tables, the credential attempts between their database steps, and what was let through:
  \<open>rs_passed\<close> after the first count, \<open>rs_accepted\<close> by the handler, \<open>rs_talked\<close> the contacts that were
  allowed.
\<close>

record rate_system =
  rs_now :: int
  rs_db :: rate_db
  rs_flight :: "pending_attempt list"
  rs_counted :: "(pending_attempt \<times> int) list"
  rs_passed :: "pending_attempt list"
  rs_accepted :: "pending_attempt list"
  rs_talked :: "contact_row list"

definition rate_start :: rate_system where
  "rate_start = \<lparr>rs_now = 0, rs_db = empty_rate_db, rs_flight = [], rs_counted = [], rs_passed = [],
     rs_accepted = [], rs_talked = []\<rparr>"

text \<open>Any request may take its next database step at any time; queries may fail.\<close>

inductive rate_step :: "rate_env \<Rightarrow> rate_system \<Rightarrow> rate_system \<Rightarrow> bool" for env where
  clock: "rs_now s \<le> now \<Longrightarrow> rate_step env s (s\<lparr>rs_now := now\<rparr>)"
| reserve: "rate_step env s (s\<lparr>rs_db := snd (reserve_account_creation env faults (rs_now s) ip (rs_db s))\<rparr>)"
| cancel: "rate_step env s (s\<lparr>rs_db := cancel_account_creation faults reservation (rs_db s)\<rparr>)"
| search: "rate_step env s (s\<lparr>rs_db := snd (check_search_rate_limit env faults (rs_now s) actor initial (rs_db s))\<rparr>)"
| contact: "check_and_record_contacts env faults (rs_now s) actor targets (rs_db s) = (r, db) \<Longrightarrow>
     rate_step env s (s\<lparr>rs_db := db,
       rs_talked := (if r = Inr () \<and> contact_limited_role (actor_role env actor)
         then map (\<lambda>t. \<lparr>co_actor = actor, co_target = t, co_created = rs_now s\<rparr>) (filter (\<lambda>t. t \<noteq> actor) targets) else [])
         @ rs_talked s\<rparr>)"
| record_it: "credential_record env faults (rs_now s) kind ip identifier secret reset_at (rs_db s) = Inr (p, db) \<Longrightarrow>
     rate_step env s (s\<lparr>rs_db := db, rs_flight := p # rs_flight s\<rparr>)"
| count_it: "p \<in> set (rs_flight s) \<Longrightarrow> credential_count_secrets faults p (rs_db s) = Inr n \<Longrightarrow>
     rate_step env s (s\<lparr>rs_flight := remove1 p (rs_flight s), rs_counted := (p, n) # rs_counted s,
       rs_passed := (if n \<le> credential_max env then p # rs_passed s else rs_passed s)\<rparr>)"
| decide: "(p, n) \<in> set (rs_counted s) \<Longrightarrow> credential_decide env faults (rs_now s) p n (rs_db s) = (r, db) \<Longrightarrow>
     rate_step env s (s\<lparr>rs_db := db, rs_counted := remove1 (p, n) (rs_counted s),
       rs_accepted := (if r = Inr () then p # rs_accepted s else rs_accepted s)\<rparr>)"

section \<open>What the operations do to the tables\<close>

lemma reserve_account_creation_cases:
  assumes "snd (reserve_account_creation env faults now ip db) = db'"
  obtains "db' = db"
  | i where "ip = Some i" "db' = db\<lparr>rl_serial := rl_serial db + 1,
        creations := \<lparr>cr_id = rl_serial db, cr_ip = i, cr_created = now\<rparr> # creations db\<rparr>"
      "int (length (filter (\<lambda>r. cr_ip r = i \<and> now - minutes (account_window env) \<le> cr_created r) (creations db)))
        < account_max env"
  using assms
  by (auto simp: reserve_account_creation_def internal_def query_def reserve_creation_def Let_def
      split: option.splits if_splits)

lemma cancel_account_creation_cases:
  obtains "cancel_account_creation faults r db = db" | i where "cancel_account_creation faults r db = cancel_creation i db"
proof (cases r)
  case (Some i)
  then show thesis using that by (cases "faults Q_Cancel") (simp_all add: cancel_account_creation_def query_def)
qed (use that in \<open>simp add: cancel_account_creation_def\<close>)

lemma check_search_cases:
  assumes "snd (check_search_rate_limit env faults now actor initial db) = db'"
  obtains "db' = db"
  | limit where "search_max env actor = Some limit" "db' = db\<lparr>rl_serial := rl_serial db + 1,
        searches := \<lparr>se_id = rl_serial db, se_actor = actor, se_created = now\<rparr> # searches db\<rparr>"
      "int (length (filter (\<lambda>r. se_actor r = actor \<and> now - minutes (search_window env) \<le> se_created r) (searches db))) < limit"
  using assms
  by (auto simp: check_search_rate_limit_def internal_def query_def record_search_if_under_limit_def Let_def
      split: option.splits if_splits)

lemma check_contacts_cases:
  assumes "check_and_record_contacts env faults now actor targets db = (r, db')"
  obtains "db' = db" "r = Inr () \<Longrightarrow> contact_limited_role (actor_role env actor) \<Longrightarrow> filter (\<lambda>t. t \<noteq> actor) targets = []"
  | new where "r = Inr ()"
      "db' = db\<lparr>contacts := map (\<lambda>t. \<lparr>co_actor = actor, co_target = t, co_created = now\<rparr>) new @ contacts db\<rparr>"
      "card (co_target ` {c \<in> set (contacts db'). co_actor c = actor \<and> now - hours 1 \<le> co_created c}) \<le> 30"
      "\<And>t. t \<in> set targets \<Longrightarrow> t \<noteq> actor \<Longrightarrow> t \<in> set new
        \<or> (\<exists>c \<in> set (contacts db). co_actor c = actor \<and> co_target c = t \<and> now - hours 1 \<le> co_created c)"
proof -
  let ?ts = "remdups (filter (\<lambda>t. t \<noteq> actor) targets)"
  let ?rows = "filter (\<lambda>c. co_actor c = actor \<and> now - hours 1 \<le> co_created c) (contacts db)"
  let ?existing = "remdups (map co_target ?rows)"
  let ?new = "filter (\<lambda>t. t \<notin> set ?existing) ?ts"
  let ?res = "record_contacts_if_under_limit now actor (now - hours 1) ?ts 30 db"
  have rec: "?res = (if length ?existing + length ?new > 30 then (False, db)
      else (True, db\<lparr>contacts := map (\<lambda>t. \<lparr>co_actor = actor, co_target = t, co_created = now\<rparr>) ?new @ contacts db\<rparr>))"
    unfolding record_contacts_if_under_limit_def Let_def ..
  consider (free) "\<not> contact_limited_role (actor_role env actor)" | (none) "filter (\<lambda>t. t \<noteq> actor) targets = []"
    | (fault) e where "contact_limited_role (actor_role env actor)" "?ts \<noteq> []" "faults Q_Contacts = Some e"
    | (asked) "contact_limited_role (actor_role env actor)" "?ts \<noteq> []" "faults Q_Contacts = None"
    by (cases "faults Q_Contacts") (auto simp del: remdups_filter)
  then consider (same) "db' = db" "r = Inr () \<Longrightarrow> contact_limited_role (actor_role env actor) \<Longrightarrow> filter (\<lambda>t. t \<noteq> actor) targets = []"
    | (added) "r = Inr ()" "length ?existing + length ?new \<le> 30"
        "db' = db\<lparr>contacts := map (\<lambda>t. \<lparr>co_actor = actor, co_target = t, co_created = now\<rparr>) ?new @ contacts db\<rparr>"
  proof cases
    case asked
    obtain b d where bd: "?res = (b, d)" by (cases ?res)
    have "(if b then Inr () else Inl (TooManyRequests ''CONTACT_RATE_LIMITED'' (Some 3600)), d) = (r, db')"
      using assms asked bd by (cases b) (simp_all add: check_and_record_contacts_def internal_def query_def Let_def)
    then have rd: "db' = d" "r = (if b then Inr () else Inl (TooManyRequests ''CONTACT_RATE_LIMITED'' (Some 3600)))"
      by simp_all
    show ?thesis
    proof (cases "length ?existing + length ?new \<le> 30")
      case True
      then have "b" "d = db\<lparr>contacts := map (\<lambda>t. \<lparr>co_actor = actor, co_target = t, co_created = now\<rparr>) ?new @ contacts db\<rparr>"
        using rec unfolding bd by simp_all
      then show ?thesis using that(2) rd True by metis
    next
      case False
      then have "\<not> b" "d = db" using rec unfolding bd by simp_all
      then show ?thesis using that(1) rd by simp
    qed
  next
    case free
    then have "db' = db" using assms by (simp add: check_and_record_contacts_def)
    then show ?thesis using free by (intro that(1)) simp_all
  next
    case none
    then have "db' = db" using assms by (simp add: check_and_record_contacts_def split: if_splits)
    then show ?thesis using none by (intro that(1)) simp_all
  next
    case (fault e)
    then have "db' = db" "r \<noteq> Inr ()"
      using assms by (auto simp: check_and_record_contacts_def internal_def query_def)
    then show ?thesis by (intro that(1)) simp_all
  qed
  then show thesis
  proof cases
    case same
    then show thesis by (rule that(1))
  next
    case added
    have "co_target c \<in> set (?existing @ ?new)"
      if c: "c \<in> set (contacts db')" "co_actor c = actor" "now - hours 1 \<le> co_created c" for c
    proof -
      have "c \<in> (\<lambda>t. \<lparr>co_actor = actor, co_target = t, co_created = now\<rparr>) ` set ?new \<or> c \<in> set (contacts db)"
        using c(1) unfolding added(3) by (simp del: set_filter set_remdups)
      then show ?thesis
      proof (elim disjE imageE)
        fix t assume "c = \<lparr>co_actor = actor, co_target = t, co_created = now\<rparr>" "t \<in> set ?new"
        then have "co_target c \<in> set ?new" by (simp only: contact_row.simps)
        then show ?thesis unfolding set_append by (rule UnI2)
      next
        assume "c \<in> set (contacts db)"
        then have "co_target c \<in> set ?existing" using c(2,3) by simp
        then show ?thesis unfolding set_append by (rule UnI1)
      qed
    qed
    then have "co_target ` {c \<in> set (contacts db'). co_actor c = actor \<and> now - hours 1 \<le> co_created c}
        \<subseteq> set (?existing @ ?new)"
      by blast
    then have "card (co_target ` {c \<in> set (contacts db'). co_actor c = actor \<and> now - hours 1 \<le> co_created c})
        \<le> length (?existing @ ?new)"
      by (meson card_length card_mono finite_set le_trans)
    also have "\<dots> \<le> 30" using added(2) by (simp only: length_append)
    finally show thesis using that(2) [OF added(1,3)] by (auto)
  qed
qed

lemma credential_record_Inr:
  assumes "credential_record env faults now kind ip identifier secret reset_at db = Inr (p, db')"
  shows "db' = db\<lparr>rl_serial := rl_serial db + 1, attempts := pa_row p # attempts db\<rparr>"
    "pa_window_start p = now - minutes (credential_window env)" "at_created (pa_row p) = now"
  using assms
  by (auto simp: credential_record_def internal_def query_def record_attempt_def Let_def rbind_Inr_iff split: option.splits)

lemma credential_count_secrets_Inr:
  "credential_count_secrets faults p db = Inr n \<Longrightarrow>
     n = count_distinct_secrets (at_kind (pa_row p)) (at_identifier (pa_row p)) (pa_identifier_since p) db"
  by (auto simp: credential_count_secrets_def internal_def query_def split: option.splits)

text \<open>The decision only touches rejection marks and blocks.\<close>

definition unmarked :: "attempt_row \<Rightarrow> attempt_row" where
  "unmarked r = r\<lparr>at_rejected := False\<rparr>"

definition tables_but_marks where
  "tables_but_marks db = (map unmarked (attempts db), creations db, searches db, contacts db, rl_serial db)"

lemma tables_mark [simp]: "tables_but_marks (mark_rejected i db) = tables_but_marks db"
  by (simp add: tables_but_marks_def mark_rejected_def unmarked_def)

lemma record_ip_rejection_tables:
  "record_ip_rejection_and_maybe_block env faults now ip db = (r, db') \<Longrightarrow> tables_but_marks db' = tables_but_marks db"
  by (auto simp: record_ip_rejection_and_maybe_block_def internal_def query_def block_ip_def Let_def tables_but_marks_def
      split: option.splits if_splits)

lemma credential_decide_tables:
  "credential_decide env faults now p n db = (r, db') \<Longrightarrow> tables_but_marks db' = tables_but_marks db"
  by (auto simp: credential_decide_def internal_def query_def dest: record_ip_rejection_tables
      split: option.splits if_splits sum.splits prod.splits)

lemma credential_decide_accepts:
  assumes "credential_decide env faults now p n db = (Inr (), db')"
  shows "n \<le> credential_max env \<and>
    count_distinct_identifiers (at_kind (pa_row p)) (at_secret (pa_row p)) (pa_window_start p) db \<le> credential_max env"
  using assms
  by (auto simp: credential_decide_def internal_def query_def split: option.splits if_splits sum.splits prod.splits)

section \<open>Invariants\<close>

definition serial_ok :: "rate_db \<Rightarrow> bool" where
  "serial_ok db \<longleftrightarrow> distinct (map cr_id (creations db)) \<and> (\<forall>r \<in> set (creations db). cr_id r < rl_serial db)
     \<and> distinct (map se_id (searches db)) \<and> (\<forall>r \<in> set (searches db). se_id r < rl_serial db)"

definition logged :: "rate_env \<Rightarrow> rate_db \<Rightarrow> pending_attempt \<Rightarrow> bool" where
  "logged env db p \<longleftrightarrow> unmarked (pa_row p) \<in> set (map unmarked (attempts db))
     \<and> pa_window_start p = at_created (pa_row p) - minutes (credential_window env)"

definition pending_ok :: "rate_env \<Rightarrow> rate_system \<Rightarrow> bool" where
  "pending_ok env s \<longleftrightarrow>
     (\<forall>p \<in> set (rs_flight s) \<union> fst ` set (rs_counted s) \<union> set (rs_passed s) \<union> set (rs_accepted s). logged env (rs_db s) p)
     \<and> (\<forall>(p, n) \<in> set (rs_counted s). n \<le> credential_max env \<longrightarrow> p \<in> set (rs_passed s))
     \<and> set (rs_accepted s) \<subseteq> set (rs_passed s)"

definition contacts_ok :: "rate_system \<Rightarrow> bool" where
  "contacts_ok s \<longleftrightarrow> (\<forall>c \<in> set (contacts (rs_db s)). co_created c \<le> rs_now s)
     \<and> (\<forall>z \<in> set (rs_talked s). \<exists>c \<in> set (contacts (rs_db s)). co_actor c = co_actor z \<and> co_target c = co_target z
          \<and> co_created z - hours 1 \<le> co_created c \<and> co_created c \<le> co_created z)"

definition rate_inv :: "rate_env \<Rightarrow> rate_system \<Rightarrow> bool" where
  "rate_inv env s \<longleftrightarrow> serial_ok (rs_db s) \<and> pending_ok env s \<and> contacts_ok s"

lemma rate_inv_start: "rate_inv env rate_start"
  by (simp add: rate_inv_def serial_ok_def pending_ok_def contacts_ok_def rate_start_def empty_rate_db_def)

lemma serial_ok_tables: "tables_but_marks db' = tables_but_marks db \<Longrightarrow> serial_ok db \<Longrightarrow> serial_ok db'"
  by (simp add: serial_ok_def tables_but_marks_def)

lemma logged_tables: "tables_but_marks db' = tables_but_marks db \<Longrightarrow> logged env db' p = logged env db p"
  by (simp add: logged_def tables_but_marks_def)

lemma serial_ok_step: "rate_step env s t \<Longrightarrow> serial_ok (rs_db s) \<Longrightarrow> serial_ok (rs_db t)"
proof (induction rule: rate_step.induct)
  case (reserve s faults ip)
  show ?case using reserve
    by (cases rule: reserve_account_creation_cases [OF refl, of env faults "rs_now s" ip "rs_db s"])
      (auto simp: serial_ok_def less_Suc_eq)
next
  case (cancel s faults reservation)
  show ?case using cancel
    by (cases rule: cancel_account_creation_cases [of faults reservation "rs_db s"])
      (auto simp: serial_ok_def cancel_creation_def distinct_map_filter)
next
  case (search s faults actor initial)
  show ?case using search
    by (cases rule: check_search_cases [OF refl, of env faults "rs_now s" actor initial "rs_db s"])
      (auto simp: serial_ok_def less_Suc_eq)
next
  case (contact faults s actor targets r db)
  from contact(1) show ?case using contact(2)
    by (cases rule: check_contacts_cases) (simp_all add: serial_ok_def)
next
  case (record_it faults s knd ip who secret reset_at p db)
  show ?case using credential_record_Inr(1) [OF record_it(1)] record_it(2) by (auto simp: serial_ok_def)
next
  case (decide p n s faults r db)
  show ?case using serial_ok_tables [OF credential_decide_tables [OF decide(2)] decide(3)] by simp
qed simp_all

text \<open>What keeps the attempts keeps what is known of the attempts under way.\<close>

lemma pending_ok_db:
  assumes "pending_ok env s" "\<And>p. logged env (rs_db s) p \<Longrightarrow> logged env db p"
  shows "pending_ok env (s\<lparr>rs_db := db\<rparr>)"
  using assms by (auto simp: pending_ok_def)

lemma logged_attempts: "attempts db' = attempts db \<Longrightarrow> logged env db' p = logged env db p"
  by (simp add: logged_def)

lemma pending_ok_step: "rate_step env s t \<Longrightarrow> pending_ok env s \<Longrightarrow> pending_ok env t"
proof (induction rule: rate_step.induct)
  case (clock s now)
  then show ?case by (simp add: pending_ok_def)
next
  case (reserve s faults ip)
  have "attempts (snd (reserve_account_creation env faults (rs_now s) ip (rs_db s))) = attempts (rs_db s)"
    by (cases rule: reserve_account_creation_cases [OF refl, of env faults "rs_now s" ip "rs_db s"]) simp_all
  then show ?case using reserve logged_attempts by (intro pending_ok_db) blast+
next
  case (cancel s faults reservation)
  have "attempts (cancel_account_creation faults reservation (rs_db s)) = attempts (rs_db s)"
    by (cases rule: cancel_account_creation_cases [of faults reservation "rs_db s"]) (simp_all add: cancel_creation_def)
  then show ?case using cancel logged_attempts by (intro pending_ok_db) blast+
next
  case (search s faults actor initial)
  have "attempts (snd (check_search_rate_limit env faults (rs_now s) actor initial (rs_db s))) = attempts (rs_db s)"
    by (cases rule: check_search_cases [OF refl, of env faults "rs_now s" actor initial "rs_db s"]) simp_all
  then show ?case using search logged_attempts by (intro pending_ok_db) blast+
next
  case (contact faults s actor targets r db)
  from contact(1) have "attempts db = attempts (rs_db s)"
    by (cases rule: check_contacts_cases) simp_all
  then have "pending_ok env (s\<lparr>rs_db := db\<rparr>)" using contact(2) logged_attempts by (intro pending_ok_db) blast+
  then show ?case by (simp add: pending_ok_def)
next
  case (record_it faults s knd ip who secret reset_at p db)
  note db = credential_record_Inr [OF record_it(1)]
  have "logged env db p" using db by (simp add: logged_def)
  moreover have "pending_ok env (s\<lparr>rs_db := db\<rparr>)"
    using db(1) record_it(2) by (intro pending_ok_db) (auto simp: logged_def)
  ultimately show ?case by (auto simp: pending_ok_def)
next
  case (count_it p s faults n)
  then show ?case by (auto simp: pending_ok_def dest: set_remove1_subset [THEN subsetD])
next
  case (decide p n s faults r db)
  have "pending_ok env (s\<lparr>rs_db := db\<rparr>)"
    using decide(3) logged_tables [OF credential_decide_tables [OF decide(2)]] by (intro pending_ok_db) blast+
  moreover have "r = Inr () \<Longrightarrow> p \<in> set (rs_passed s)"
    using decide credential_decide_accepts [of env faults "rs_now s" p n "rs_db s" db] by (auto simp: pending_ok_def)
  moreover have "fst ` set (remove1 (p, n) (rs_counted s)) \<subseteq> fst ` set (rs_counted s)"
    by (intro image_mono set_remove1_subset)
  ultimately show ?case using decide(1) by (auto simp: pending_ok_def dest: set_remove1_subset [THEN subsetD])
qed

lemma contacts_ok_step: "rate_step env s t \<Longrightarrow> contacts_ok s \<Longrightarrow> contacts_ok t"
proof (induction rule: rate_step.induct)
  case (clock s now)
  then show ?case by (auto simp: contacts_ok_def)
next
  case (reserve s faults ip)
  have "contacts (snd (reserve_account_creation env faults (rs_now s) ip (rs_db s))) = contacts (rs_db s)"
    by (cases rule: reserve_account_creation_cases [OF refl, of env faults "rs_now s" ip "rs_db s"]) simp_all
  then show ?case using reserve by (simp add: contacts_ok_def)
next
  case (cancel s faults reservation)
  have "contacts (cancel_account_creation faults reservation (rs_db s)) = contacts (rs_db s)"
    by (cases rule: cancel_account_creation_cases [of faults reservation "rs_db s"]) (simp_all add: cancel_creation_def)
  then show ?case using cancel by (simp add: contacts_ok_def)
next
  case (search s faults actor initial)
  have "contacts (snd (check_search_rate_limit env faults (rs_now s) actor initial (rs_db s))) = contacts (rs_db s)"
    by (cases rule: check_search_cases [OF refl, of env faults "rs_now s" actor initial "rs_db s"]) simp_all
  then show ?case using search by (simp add: contacts_ok_def)
next
  case (contact faults s actor targets r db)
  from contact(1) show ?case
  proof (cases rule: check_contacts_cases)
    case 1
    then show ?thesis using contact(2)
      by (cases "r = Inr () \<and> contact_limited_role (actor_role env actor)") (auto simp: contacts_ok_def)
  next
    case (2 new)
    have old: "c \<in> set (contacts db)" if "c \<in> set (contacts (rs_db s))" for c
      using that unfolding 2(2) by simp
    have new: "\<lparr>co_actor = actor, co_target = t, co_created = rs_now s\<rparr> \<in> set (contacts db)" if "t \<in> set new" for t
      using that unfolding 2(2) by simp
    have "\<exists>c \<in> set (contacts db). co_actor c = actor \<and> co_target c = t \<and> rs_now s - hours 1 \<le> co_created c
        \<and> co_created c \<le> rs_now s" if t: "t \<in> set targets" "t \<noteq> actor" for t
      using 2(4) [OF t]
    proof
      assume "t \<in> set new"
      then show ?thesis using new by (intro bexI [OF _ new]) (simp_all add: hours_def)
    next
      assume "\<exists>c \<in> set (contacts (rs_db s)). co_actor c = actor \<and> co_target c = t \<and> rs_now s - hours 1 \<le> co_created c"
      then show ?thesis using contact(2) old by (auto simp: contacts_ok_def)
    qed
    moreover have "co_created c \<le> rs_now s" if "c \<in> set (contacts db)" for c
      using that contact(2) unfolding 2(2) by (auto simp: contacts_ok_def)
    ultimately show ?thesis using contact(2) old by (fastforce simp: contacts_ok_def)
  qed
next
  case (record_it faults s knd ip who secret reset_at p db)
  show ?case using credential_record_Inr(1) [OF record_it(1)] record_it(2) by (simp add: contacts_ok_def)
next
  case (count_it p s faults n)
  then show ?case by (simp add: contacts_ok_def)
next
  case (decide p n s faults r db)
  then show ?case using credential_decide_tables [OF decide(2)] by (simp add: contacts_ok_def tables_but_marks_def)
qed

lemma rate_inv_step: "rate_inv env s \<Longrightarrow> rate_step env s t \<Longrightarrow> rate_inv env t"
  using serial_ok_step pending_ok_step contacts_ok_step unfolding rate_inv_def by blast

section \<open>The windows of the tables\<close>

text \<open>Which operations leave a table alone.\<close>

lemma reserve_others:
  "attempts (snd (reserve_account_creation env faults now ip db)) = attempts db"
  "searches (snd (reserve_account_creation env faults now ip db)) = searches db"
  "contacts (snd (reserve_account_creation env faults now ip db)) = contacts db"
  by (cases rule: reserve_account_creation_cases [OF refl, of env faults now ip db]; simp)+

lemma cancel_others:
  "attempts (cancel_account_creation faults r db) = attempts db"
  "searches (cancel_account_creation faults r db) = searches db"
  "contacts (cancel_account_creation faults r db) = contacts db"
  by (cases rule: cancel_account_creation_cases [of faults r db]; simp add: cancel_creation_def)+

lemma search_others:
  "attempts (snd (check_search_rate_limit env faults now actor initial db)) = attempts db"
  "creations (snd (check_search_rate_limit env faults now actor initial db)) = creations db"
  "contacts (snd (check_search_rate_limit env faults now actor initial db)) = contacts db"
  by (cases rule: check_search_cases [OF refl, of env faults now actor initial db]; simp)+

lemma contacts_others:
  assumes "check_and_record_contacts env faults now actor targets db = (r, db')"
  shows "attempts db' = attempts db" "creations db' = creations db" "searches db' = searches db"
  by (cases rule: check_contacts_cases [OF assms]; simp)+

lemma decide_others:
  assumes "credential_decide env faults now p n db = (r, db')"
  shows "creations db' = creations db" "searches db' = searches db" "contacts db' = contacts db"
  using credential_decide_tables [OF assms] by (simp_all add: tables_but_marks_def)

lemma record_others:
  assumes "credential_record env faults now k ip who secret reset_at db = Inr (p, db')"
  shows "creations db' = creations db" "searches db' = searches db" "contacts db' = contacts db"
  using credential_record_Inr(1) [OF assms] by simp_all

lemmas rate_others = reserve_others cancel_others search_others contacts_others decide_others record_others

abbreviation creations_extend where
  "creations_extend env \<equiv> log_extends cr_ip (\<lambda>r. cr_created r - minutes (account_window env)) cr_created cr_id
     (\<lambda>_. nat (account_max env))"

lemma creations_step: "rate_step env s t \<Longrightarrow> creations_extend env (creations (rs_db s)) (creations (rs_db t))"
proof (induction rule: rate_step.induct)
  case (reserve s faults ip)
  show ?case
    by (cases rule: reserve_account_creation_cases [OF refl, of env faults "rs_now s" ip "rs_db s"])
      (auto intro: log_extends_counted)
next
  case (cancel s faults reservation)
  show ?case
    by (cases rule: cancel_account_creation_cases [of faults reservation "rs_db s"]) (auto simp: cancel_creation_def)
qed (simp_all add: rate_others)

abbreviation searches_extend where
  "searches_extend env \<equiv> log_extends se_actor (\<lambda>r. se_created r - minutes (search_window env)) se_created se_id
     (\<lambda>a. nat (the (search_max env a)))"

lemma searches_step: "rate_step env s t \<Longrightarrow> searches_extend env (searches (rs_db s)) (searches (rs_db t))"
proof (induction rule: rate_step.induct)
  case (search s faults actor initial)
  show ?case
    by (cases rule: check_search_cases [OF refl, of env faults "rs_now s" actor initial "rs_db s"])
      (auto intro: log_extends_counted)
qed (simp_all add: rate_others)

abbreviation contacts_extend where
  "contacts_extend \<equiv> log_extends co_actor (\<lambda>c. co_created c - hours 1) co_created co_target (\<lambda>_. 30)"

lemma contacts_step: "rate_step env s t \<Longrightarrow> contacts_extend (contacts (rs_db s)) (contacts (rs_db t))"
proof (induction rule: rate_step.induct)
  case (contact faults s actor targets r db)
  from contact show ?case
  proof (cases rule: check_contacts_cases)
    case (2 new)
    show ?thesis using 2(3) unfolding 2(2) by (auto intro!: log_extends_append)
  qed simp
qed (simp_all add: rate_others)

abbreviation passed_extend where
  "passed_extend env \<equiv> log_extends (\<lambda>p. (at_kind (pa_row p), at_identifier (pa_row p))) pa_identifier_since
     (\<lambda>p. at_created (pa_row p)) (\<lambda>p. at_secret (pa_row p)) (\<lambda>_. nat (credential_max env))"

text \<open>What the count of a column bounds: the attempts of the log, whatever their marks.\<close>

lemma count_distinct_bound:
  assumes "\<And>p. p \<in> P \<Longrightarrow> \<exists>r \<in> set rows. f r = g p"
  shows "int (card (g ` P)) \<le> count_distinct f rows"
proof -
  have "g ` P \<subseteq> f ` set rows" using assms by force
  then have "card (g ` P) \<le> card (f ` set rows)" by (simp add: card_mono)
  also have "\<dots> = length (remdups (map f rows))" by (metis length_remdups_card_conv set_map)
  finally show ?thesis by (simp add: count_distinct_def)
qed

lemma int_le_nat: "int a \<le> c \<Longrightarrow> c \<le> m \<Longrightarrow> a \<le> nat m"
  by simp

lemma logged_row:
  assumes "logged env db p"
  obtains r where "r \<in> set (attempts db)" "at_kind r = at_kind (pa_row p)" "at_identifier r = at_identifier (pa_row p)"
    "at_secret r = at_secret (pa_row p)" "at_created r = at_created (pa_row p)"
proof -
  obtain r where r: "r \<in> set (attempts db)" "unmarked (pa_row p) = unmarked r"
    using assms by (auto simp: logged_def)
  have "at_kind (unmarked r) = at_kind (unmarked (pa_row p))" "at_identifier (unmarked r) = at_identifier (unmarked (pa_row p))"
    "at_secret (unmarked r) = at_secret (unmarked (pa_row p))" "at_created (unmarked r) = at_created (unmarked (pa_row p))"
    by (simp_all only: r(2))
  then show thesis using that r(1) by (simp add: unmarked_def)
qed

lemma passed_step: "rate_step env s t \<Longrightarrow> pending_ok env s \<Longrightarrow> passed_extend env (rs_passed s) (rs_passed t)"
proof (induction rule: rate_step.induct)
  case (count_it p s faults n)
  let ?in = "\<lambda>y. (at_kind (pa_row y), at_identifier (pa_row y)) = (at_kind (pa_row p), at_identifier (pa_row p))
    \<and> pa_identifier_since p \<le> at_created (pa_row y)"
  let ?rows = "filter (\<lambda>r. at_kind r = at_kind (pa_row p) \<and> at_identifier r = at_identifier (pa_row p)
    \<and> pa_identifier_since p \<le> at_created r) (attempts (rs_db s))"
  have "\<exists>r \<in> set ?rows. at_secret r = at_secret (pa_row y)" if y: "y \<in> set (p # rs_passed s)" "?in y" for y
  proof -
    have "logged env (rs_db s) y" using y(1) count_it by (auto simp: pending_ok_def)
    then obtain r where "r \<in> set (attempts (rs_db s))" "at_kind r = at_kind (pa_row y)"
      "at_identifier r = at_identifier (pa_row y)" "at_secret r = at_secret (pa_row y)" "at_created r = at_created (pa_row y)"
      by (rule logged_row)
    then show ?thesis using y(2) by (intro bexI [of _ r]) simp_all
  qed
  then have "int (card ((\<lambda>p. at_secret (pa_row p)) ` {y \<in> set (p # rs_passed s). ?in y})) \<le> count_distinct at_secret ?rows"
    by (intro count_distinct_bound) blast
  then have "card ((\<lambda>p. at_secret (pa_row p)) ` {y \<in> set (p # rs_passed s). ?in y}) \<le> nat (credential_max env)"
    if "n \<le> credential_max env"
    using that credential_count_secrets_Inr [OF count_it(2)] by (simp add: count_distinct_secrets_def)
  then have "passed_extend env (rs_passed s) ([p] @ rs_passed s)" if "n \<le> credential_max env"
    using that by (intro log_extends_append) simp
  then show ?case by simp
qed simp_all

abbreviation accepted_extend where
  "accepted_extend env \<equiv> log_extends (\<lambda>p. (at_kind (pa_row p), at_secret (pa_row p))) pa_window_start
     (\<lambda>p. at_created (pa_row p)) (\<lambda>p. at_identifier (pa_row p)) (\<lambda>_. nat (credential_max env))"

lemma accepted_step: "rate_step env s t \<Longrightarrow> pending_ok env s \<Longrightarrow> accepted_extend env (rs_accepted s) (rs_accepted t)"
proof (induction rule: rate_step.induct)
  case (decide p n s faults r db)
  let ?in = "\<lambda>y. (at_kind (pa_row y), at_secret (pa_row y)) = (at_kind (pa_row p), at_secret (pa_row p))
    \<and> pa_window_start p \<le> at_created (pa_row y)"
  let ?rows = "filter (\<lambda>r. at_kind r = at_kind (pa_row p) \<and> at_secret r = at_secret (pa_row p)
    \<and> pa_window_start p \<le> at_created r) (attempts (rs_db s))"
  have "\<exists>r \<in> set ?rows. at_identifier r = at_identifier (pa_row y)" if y: "y \<in> set (p # rs_accepted s)" "?in y" for y
  proof -
    have "logged env (rs_db s) y" using y(1) decide by (force simp: pending_ok_def)
    then obtain r where "r \<in> set (attempts (rs_db s))" "at_kind r = at_kind (pa_row y)"
      "at_identifier r = at_identifier (pa_row y)" "at_secret r = at_secret (pa_row y)" "at_created r = at_created (pa_row y)"
      by (rule logged_row)
    then show ?thesis using y(2) by (intro bexI [of _ r]) simp_all
  qed
  then have "int (card ((\<lambda>p. at_identifier (pa_row p)) ` {y \<in> set (p # rs_accepted s). ?in y}))
      \<le> count_distinct at_identifier ?rows"
    by (intro count_distinct_bound) blast
  then have "card ((\<lambda>p. at_identifier (pa_row p)) ` {y \<in> set (p # rs_accepted s). ?in y}) \<le> nat (credential_max env)"
    if "r = Inr ()"
    using that credential_decide_accepts [of env faults "rs_now s" p n "rs_db s" db] decide(2)
    unfolding count_distinct_identifiers_def by (auto intro: int_le_nat)
  then have "accepted_extend env (rs_accepted s) ([p] @ rs_accepted s)" if "r = Inr ()"
    using that by (intro log_extends_append) simp
  then show ?case by simp
qed simp_all

lemma rate_start_sel [simp]:
  "attempts (rs_db rate_start) = []" "creations (rs_db rate_start) = []" "searches (rs_db rate_start) = []"
  "contacts (rs_db rate_start) = []" "rs_passed rate_start = []" "rs_accepted rate_start = []"
  by (simp_all add: rate_start_def empty_rate_db_def)

lemma rate_inv_pending: "rate_inv env s \<Longrightarrow> pending_ok env s"
  by (simp add: rate_inv_def)

lemmas rate_laws = rate_inv_start rate_inv_step creations_step searches_step contacts_step
  passed_step [OF _ rate_inv_pending] accepted_step [OF _ rate_inv_pending]

interpretation creation_window: window_limit "rate_step env" rate_start "rate_inv env" "\<lambda>s. creations (rs_db s)"
  cr_ip "\<lambda>r. cr_created r - minutes (account_window env)" cr_created cr_id "\<lambda>_. nat (account_max env)" for env
  by unfold_locales (auto intro: rate_laws)

interpretation search_window: window_limit "rate_step env" rate_start "rate_inv env" "\<lambda>s. searches (rs_db s)"
  se_actor "\<lambda>r. se_created r - minutes (search_window env)" se_created se_id "\<lambda>a. nat (the (search_max env a))" for env
  by unfold_locales (auto intro: rate_laws)

interpretation contact_window: window_limit "rate_step env" rate_start "rate_inv env" "\<lambda>s. contacts (rs_db s)"
  co_actor "\<lambda>c. co_created c - hours 1" co_created co_target "\<lambda>_. 30" for env
  by unfold_locales (auto intro: rate_laws)

interpretation passed_window: window_limit "rate_step env" rate_start "rate_inv env" rs_passed
  "\<lambda>p. (at_kind (pa_row p), at_identifier (pa_row p))" pa_identifier_since "\<lambda>p. at_created (pa_row p)"
  "\<lambda>p. at_secret (pa_row p)" "\<lambda>_. nat (credential_max env)" for env
  by unfold_locales (auto intro: rate_laws)

interpretation accepted_window: window_limit "rate_step env" rate_start "rate_inv env" rs_accepted
  "\<lambda>p. (at_kind (pa_row p), at_secret (pa_row p))" pa_window_start "\<lambda>p. at_created (pa_row p)"
  "\<lambda>p. at_identifier (pa_row p)" "\<lambda>_. nat (credential_max env)" for env
  by unfold_locales (auto intro: rate_laws)

section \<open>Properties\<close>

text \<open>
  C28. Guessing credentials is limited, in every interleaving of concurrent requests: of the attempts
  that the guard let through, those recorded from any moment on whose window reaches back to that
  moment tried at most \<open>credential_max\<close> different secrets for one identifier, and within any span of
  one window one secret was tried for at most \<open>credential_max\<close> different identifiers.
\<close>
theorem credential_attempts_limited:
  assumes "(rate_step env)\<^sup>*\<^sup>* rate_start s"
  shows "card {at_secret (pa_row p) | p. p \<in> set (rs_accepted s) \<and> at_kind (pa_row p) = kd \<and> at_identifier (pa_row p) = who
            \<and> pa_identifier_since p \<le> lo \<and> lo \<le> at_created (pa_row p)} \<le> nat (credential_max env)
    \<and> card {at_identifier (pa_row p) | p. p \<in> set (rs_accepted s) \<and> at_kind (pa_row p) = kd \<and> at_secret (pa_row p) = secret
            \<and> lo \<le> at_created (pa_row p) \<and> at_created (pa_row p) \<le> lo + minutes (credential_window env)} \<le> nat (credential_max env)"
proof
  have inv: "pending_ok env s" using creation_window.reachable_inv [OF assms] by (simp add: rate_inv_def)
  have "card {at_secret (pa_row p) | p. p \<in> set (rs_accepted s) \<and> at_kind (pa_row p) = kd \<and> at_identifier (pa_row p) = who
            \<and> pa_identifier_since p \<le> lo \<and> lo \<le> at_created (pa_row p)}
      \<le> card ((\<lambda>p. at_secret (pa_row p)) ` {y \<in> set (rs_passed s). (at_kind (pa_row y), at_identifier (pa_row y)) = (kd, who)
            \<and> pa_identifier_since y \<le> lo \<and> lo \<le> at_created (pa_row y)})"
    using inv by (intro card_mono) (auto simp: pending_ok_def)
  then show "card {at_secret (pa_row p) | p. p \<in> set (rs_accepted s) \<and> at_kind (pa_row p) = kd \<and> at_identifier (pa_row p) = who
            \<and> pa_identifier_since p \<le> lo \<and> lo \<le> at_created (pa_row p)} \<le> nat (credential_max env)"
    using passed_window.window_bound [OF assms] by (rule le_trans)
  have same: "{at_identifier (pa_row p) | p. p \<in> set (rs_accepted s) \<and> at_kind (pa_row p) = kd \<and> at_secret (pa_row p) = secret
            \<and> lo \<le> at_created (pa_row p) \<and> at_created (pa_row p) \<le> lo + minutes (credential_window env)}
      = (\<lambda>p. at_identifier (pa_row p)) ` {y \<in> set (rs_accepted s). (at_kind (pa_row y), at_secret (pa_row y)) = (kd, secret)
            \<and> pa_window_start y \<le> lo \<and> lo \<le> at_created (pa_row y)}"
    using inv by (auto simp: pending_ok_def logged_def image_iff)
  show "card {at_identifier (pa_row p) | p. p \<in> set (rs_accepted s) \<and> at_kind (pa_row p) = kd \<and> at_secret (pa_row p) = secret
            \<and> lo \<le> at_created (pa_row p) \<and> at_created (pa_row p) \<le> lo + minutes (credential_window env)} \<le> nat (credential_max env)"
    unfolding same by (rule accepted_window.window_bound [OF assms])
qed

text \<open>
  C29. Account creations are limited: in every interleaving, the reservations of one address that were
  made within any span of one window and not cancelled never exceed \<open>account_max\<close>.
\<close>
theorem account_creations_limited:
  assumes "(rate_step env)\<^sup>*\<^sup>* rate_start s"
  shows "int (length (filter (\<lambda>r. cr_ip r = ip \<and> lo \<le> cr_created r \<and> cr_created r \<le> lo + minutes (account_window env))
    (creations (rs_db s)))) \<le> account_max env"
proof -
  let ?rows = "filter (\<lambda>r. cr_ip r = ip \<and> lo \<le> cr_created r \<and> cr_created r \<le> lo + minutes (account_window env)) (creations (rs_db s))"
  have "serial_ok (rs_db s)" using creation_window.reachable_inv [OF assms] by (simp add: rate_inv_def)
  then have "distinct (map cr_id ?rows)" by (simp add: serial_ok_def distinct_map_filter)
  from distinct_card [OF this] have "length ?rows = card (set (map cr_id ?rows))" by (simp only: length_map)
  also have "set (map cr_id ?rows) = cr_id ` {y \<in> set (creations (rs_db s)). cr_ip y = ip
      \<and> cr_created y - minutes (account_window env) \<le> lo \<and> lo \<le> cr_created y}"
    unfolding set_map set_filter by (intro arg_cong [of _ _ "image cr_id"] Collect_cong) auto
  also have "card \<dots> \<le> nat (account_max env)" by (rule creation_window.window_bound [OF assms])
  finally show ?thesis by (simp add: account_max_def)
qed

text \<open>
  The contact limit: an actor records at most 30 different people within any hour; what is allowed
  is at most twice as many, because a person recorded within the last hour is talked to again without
  a new record, whose hour then ends early.
\<close>
theorem contacts_limited:
  assumes "(rate_step env)\<^sup>*\<^sup>* rate_start s"
  shows "card {co_target c | c. c \<in> set (contacts (rs_db s)) \<and> co_actor c = a \<and> lo \<le> co_created c \<and> co_created c \<le> lo + hours 1} \<le> 30
    \<and> card {co_target z | z. z \<in> set (rs_talked s) \<and> co_actor z = a \<and> lo \<le> co_created z \<and> co_created z \<le> lo + hours 1} \<le> 60"
proof -
  let ?rec = "\<lambda>lo. co_target ` {c \<in> set (contacts (rs_db s)). co_actor c = a \<and> co_created c - hours 1 \<le> lo \<and> lo \<le> co_created c}"
  have rec: "card (?rec t) \<le> 30" for t by (rule contact_window.window_bound [OF assms])
  have ok: "contacts_ok s" using creation_window.reachable_inv [OF assms] by (simp add: rate_inv_def)
  have "co_target z \<in> ?rec (lo - hours 1) \<union> ?rec lo"
    if z: "z \<in> set (rs_talked s)" "co_actor z = a" "lo \<le> co_created z" "co_created z \<le> lo + hours 1" for z
  proof -
    obtain c where c: "c \<in> set (contacts (rs_db s))" "co_actor c = co_actor z" "co_target c = co_target z"
      "co_created z - hours 1 \<le> co_created c" "co_created c \<le> co_created z"
      using ok z(1) by (auto simp: contacts_ok_def)
    have mem: "co_target z \<in> ?rec l" if "co_created c - hours 1 \<le> l" "l \<le> co_created c" for l
      using c(1) z(2) that by (intro image_eqI [of _ _ c]) (simp_all add: c(2,3))
    show ?thesis
    proof (cases "lo \<le> co_created c")
      case True
      have "co_created c - hours 1 \<le> lo" using c(5) z(4) by linarith
      then show ?thesis using mem True by blast
    next
      case False
      then have "co_created c - hours 1 \<le> lo - hours 1" "lo - hours 1 \<le> co_created c" using c(4) z(3) by linarith+
      then show ?thesis using mem by blast
    qed
  qed
  then have "{co_target z | z. z \<in> set (rs_talked s) \<and> co_actor z = a \<and> lo \<le> co_created z \<and> co_created z \<le> lo + hours 1}
      \<subseteq> ?rec (lo - hours 1) \<union> ?rec lo"
    by blast
  then have "card {co_target z | z. z \<in> set (rs_talked s) \<and> co_actor z = a \<and> lo \<le> co_created z \<and> co_created z \<le> lo + hours 1}
      \<le> card (?rec (lo - hours 1)) + card (?rec lo)"
    by (intro order_trans [OF card_mono card_Un_le]) auto
  moreover have "{co_target c | c. c \<in> set (contacts (rs_db s)) \<and> co_actor c = a \<and> lo \<le> co_created c \<and> co_created c \<le> lo + hours 1} = ?rec lo"
    unfolding setcompr_eq_image by (intro arg_cong [of _ _ "image co_target"] Collect_cong) auto
  ultimately show ?thesis using rec [of lo] rec [of "lo - hours 1"] by simp
qed

section \<open>Examples\<close>

definition demo_rate_env :: rate_env where
  "demo_rate_env = \<lparr>settings = (\<lambda>_. Inr None), role_rows = (\<lambda>_. Inr (Some ''user'')), to_lowercase = (\<lambda>s. s),
     keyed_hash = (\<lambda>_. as_bytes), pepper = []\<rparr>"

abbreviation no_fault :: faults where
  "no_fault \<equiv> \<lambda>_. None"

text \<open>One login attempt that the guard lets through.\<close>

definition demo_attempt :: pending_attempt where
  "demo_attempt = fst (projr (credential_record demo_rate_env no_fault 0 Login None ''alice'' ''pw'' None empty_rate_db))"

definition demo_logged_in :: rate_system where
  "demo_logged_in = rate_start\<lparr>rs_db := empty_rate_db\<lparr>rl_serial := 1, attempts := [pa_row demo_attempt]\<rparr>,
     rs_passed := [demo_attempt], rs_accepted := [demo_attempt]\<rparr>"

lemmas demo_rate_defs = demo_rate_env_def credential_record_def credential_count_secrets_def credential_decide_def
  record_attempt_def count_distinct_secrets_def count_distinct_identifiers_def count_distinct_def internal_def query_def
  credential_max_def credential_window_def setting_i64_def minutes_def rate_start_def empty_rate_db_def Let_def

lemma demo_logged_in_reachable: "(rate_step demo_rate_env)\<^sup>*\<^sup>* rate_start demo_logged_in"
proof -
  let ?db = "empty_rate_db\<lparr>rl_serial := 1, attempts := [pa_row demo_attempt]\<rparr>"
  let ?s1 = "rate_start\<lparr>rs_db := ?db, rs_flight := [demo_attempt]\<rparr>"
  let ?s2 = "rate_start\<lparr>rs_db := ?db, rs_counted := [(demo_attempt, 1)], rs_passed := [demo_attempt]\<rparr>"
  have "rate_step demo_rate_env rate_start ?s1"
    using rate_step.record_it [of demo_rate_env no_fault rate_start Login None "''alice''" "''pw''" None demo_attempt ?db]
    by (simp add: demo_attempt_def demo_rate_defs)
  moreover have "rate_step demo_rate_env ?s1 ?s2"
    using rate_step.count_it [of demo_attempt ?s1 no_fault 1 demo_rate_env]
    by (simp add: demo_attempt_def demo_rate_defs)
  moreover have "rate_step demo_rate_env ?s2 demo_logged_in"
    using rate_step.decide [of demo_attempt 1 ?s2 demo_rate_env no_fault "Inr ()" ?db]
    by (simp add: demo_logged_in_def demo_attempt_def demo_rate_defs)
  ultimately show ?thesis by (meson rtranclp.rtrancl_refl rtranclp.rtrancl_into_rtrancl)
qed

lemma credential_attempts_limited_witness:
  "card {at_secret (pa_row p) | p. p \<in> set (rs_accepted demo_logged_in) \<and> at_kind (pa_row p) = ''login''
        \<and> at_identifier (pa_row p) = as_bytes ''alice'' \<and> pa_identifier_since p \<le> 0 \<and> 0 \<le> at_created (pa_row p)}
      \<le> nat (credential_max demo_rate_env)
   \<and> card {at_identifier (pa_row p) | p. p \<in> set (rs_accepted demo_logged_in) \<and> at_kind (pa_row p) = ''login''
        \<and> at_secret (pa_row p) = as_bytes ''pw'' \<and> 0 \<le> at_created (pa_row p)
        \<and> at_created (pa_row p) \<le> 0 + minutes (credential_window demo_rate_env)} \<le> nat (credential_max demo_rate_env)"
  by (rule credential_attempts_limited [OF demo_logged_in_reachable])

text \<open>One account is registered from an address.\<close>

definition demo_registered :: rate_system where
  "demo_registered = rate_start\<lparr>rs_db :=
     snd (reserve_account_creation demo_rate_env no_fault 0 (Some ''203.0.113.7'') empty_rate_db)\<rparr>"

lemma demo_registered_reachable: "(rate_step demo_rate_env)\<^sup>*\<^sup>* rate_start demo_registered"
  using rate_step.reserve [of demo_rate_env rate_start no_fault "Some ''203.0.113.7''"]
  by (simp add: demo_registered_def rate_start_def r_into_rtranclp)

lemma account_creations_limited_witness:
  "int (length (filter (\<lambda>r. cr_ip r = ''203.0.113.7'' \<and> 0 \<le> cr_created r
      \<and> cr_created r \<le> 0 + minutes (account_window demo_rate_env)) (creations (rs_db demo_registered)))) \<le> account_max demo_rate_env"
  by (rule account_creations_limited [OF demo_registered_reachable])

text \<open>
  Sixty people within two minutes: thirty are recorded at the start and talked to again after 59
  minutes, thirty others follow after 61 minutes.
\<close>

definition first_thirty :: "int list" where "first_thirty = map int [1..<31]"
definition next_thirty :: "int list" where "next_thirty = map int [31..<61]"

fun talk :: "int \<Rightarrow> int list \<Rightarrow> rate_system \<Rightarrow> rate_system" where
  "talk now targets s = (case check_and_record_contacts demo_rate_env no_fault now 0 targets (rs_db s) of (r, db) \<Rightarrow>
     s\<lparr>rs_now := now, rs_db := db, rs_talked := (if r = Inr () \<and> contact_limited_role (actor_role demo_rate_env 0)
         then map (\<lambda>t. \<lparr>co_actor = 0, co_target = t, co_created = now\<rparr>) (filter (\<lambda>t. t \<noteq> 0) targets) else [])
         @ rs_talked s\<rparr>)"

definition demo_talked :: rate_system where
  "demo_talked = talk (minutes 61) next_thirty (talk (minutes 59) first_thirty (talk 0 first_thirty rate_start))"

lemma talk_step: "rs_now s \<le> now \<Longrightarrow> (rate_step demo_rate_env)\<^sup>*\<^sup>* s (talk now targets s)"
proof -
  assume "rs_now s \<le> now"
  then have "rate_step demo_rate_env s (s\<lparr>rs_now := now\<rparr>)" by (rule rate_step.clock)
  moreover have "rate_step demo_rate_env (s\<lparr>rs_now := now\<rparr>) (talk now targets s)"
  proof -
    obtain r db where r: "check_and_record_contacts demo_rate_env no_fault now 0 targets (rs_db s) = (r, db)"
      by (cases "check_and_record_contacts demo_rate_env no_fault now 0 targets (rs_db s)")
    then show ?thesis
      using rate_step.contact [of demo_rate_env no_fault "s\<lparr>rs_now := now\<rparr>" 0 targets r db]
      by (simp cong: if_cong del: append_Nil)
  qed
  ultimately show ?thesis by (meson rtranclp.rtrancl_refl rtranclp.rtrancl_into_rtrancl)
qed

lemma demo_talked_reachable: "(rate_step demo_rate_env)\<^sup>*\<^sup>* rate_start demo_talked"
proof -
  have now: "rs_now (talk t ts s) = t" for t ts s by (simp split: prod.split)
  show ?thesis unfolding demo_talked_def
    by (intro rtranclp_trans [OF rtranclp_trans [OF talk_step talk_step] talk_step]) (simp_all only: now minutes_def rate_start_def rate_system.simps, simp_all)
qed

lemma demo_talked_people:
  "length (remdups (map co_target (filter (\<lambda>z. co_actor z = 0 \<and> minutes 59 \<le> co_created z \<and> co_created z \<le> minutes 61)
     (rs_talked demo_talked)))) = 60"
  by code_simp

lemma contacts_limited_witness:
  "card {co_target c | c. c \<in> set (contacts (rs_db demo_talked)) \<and> co_actor c = 0 \<and> 0 \<le> co_created c
      \<and> co_created c \<le> 0 + hours 1} \<le> 30
   \<and> card {co_target z | z. z \<in> set (rs_talked demo_talked) \<and> co_actor z = 0 \<and> 0 \<le> co_created z
      \<and> co_created z \<le> 0 + hours 1} \<le> 60"
  by (rule contacts_limited [OF demo_talked_reachable])

text \<open>
  The limit of 30 people per hour is not kept: there is a run in which an ordinary user is allowed
  to talk to 60 different people within two minutes.
\<close>
theorem sixty_contacts_allowed:
  "\<exists>s. (rate_step demo_rate_env)\<^sup>*\<^sup>* rate_start s
    \<and> card {co_target z | z. z \<in> set (rs_talked s) \<and> co_actor z = 0 \<and> minutes 59 \<le> co_created z
        \<and> co_created z \<le> minutes 61} = 60"
proof (intro exI conjI)
  show "(rate_step demo_rate_env)\<^sup>*\<^sup>* rate_start demo_talked" by (rule demo_talked_reachable)
  have "{co_target z | z. z \<in> set (rs_talked demo_talked) \<and> co_actor z = 0 \<and> minutes 59 \<le> co_created z \<and> co_created z \<le> minutes 61}
    = set (map co_target (filter (\<lambda>z. co_actor z = 0 \<and> minutes 59 \<le> co_created z \<and> co_created z \<le> minutes 61) (rs_talked demo_talked)))"
    by auto
  then show "card {co_target z | z. z \<in> set (rs_talked demo_talked) \<and> co_actor z = 0 \<and> minutes 59 \<le> co_created z
        \<and> co_created z \<le> minutes 61} = 60"
    using demo_talked_people by (simp only: length_remdups_card_conv)
qed

end
