(* ===== verification/Text_Spans.thy ===== *)
theory Text_Spans
  imports Prelude
begin

text \<open>
  Byte ranges of a Rust string: slices, character boundaries, \<open>replace_range\<close>, and the rendering of a
  text with some of its ranges replaced, which the loops of the facet and mention code implement.
\<close>

definition slice :: "'a list \<Rightarrow> nat \<Rightarrow> nat \<Rightarrow> 'a list" where
  "slice s a b = take (b - a) (drop a s)"

text \<open>\<open>str::is_char_boundary\<close>: an end of the string, or not a continuation byte of UTF-8.\<close>

definition is_char_boundary :: "string \<Rightarrow> nat \<Rightarrow> bool" where
  "is_char_boundary s i \<longleftrightarrow> i = 0 \<or> i = length s
     \<or> (i < length s \<and> \<not> (128 \<le> (of_char (s ! i) :: nat) \<and> of_char (s ! i) < (192::nat)))"

text \<open>\<open>String::replace_range\<close>, which panics outside of the string or between characters.\<close>

definition replace_range :: "'a list \<Rightarrow> nat \<Rightarrow> nat \<Rightarrow> 'a list \<Rightarrow> 'a list" where
  "replace_range s a b r = take a s @ r @ drop b s"

text \<open>A text from \<open>pos\<close> on, with the given ranges replaced, front to back.\<close>

fun render_from :: "'a list \<Rightarrow> nat \<Rightarrow> (nat \<times> nat \<times> 'a list) list \<Rightarrow> 'a list" where
  "render_from s pos [] = drop pos s"
| "render_from s pos ((a, b, r) # spans) = slice s pos a @ r @ render_from s b spans"

text \<open>The ranges are in order, disjoint, not empty and within \<open>[lo, hi)\<close>.\<close>

fun spans_within :: "nat \<Rightarrow> nat \<Rightarrow> (nat \<times> nat \<times> 'b) list \<Rightarrow> bool" where
  "spans_within lo hi [] = (lo \<le> hi)"
| "spans_within lo hi ((a, b, r) # spans) = (lo \<le> a \<and> a < b \<and> spans_within b hi spans)"

lemma spans_within_le: "spans_within lo hi spans \<Longrightarrow> lo \<le> hi"
  by (induction lo hi spans rule: spans_within.induct) auto

lemma spans_within_mono: "spans_within lo hi spans \<Longrightarrow> lo' \<le> lo \<Longrightarrow> hi \<le> hi' \<Longrightarrow> spans_within lo' hi' spans"
  by (induction lo hi spans arbitrary: lo' rule: spans_within.induct) auto

lemma spans_within_snoc:
  "spans_within lo a spans \<Longrightarrow> a < b \<Longrightarrow> b \<le> hi \<Longrightarrow> spans_within lo hi (spans @ [(a, b, r)])"
  by (induction lo a spans rule: spans_within.induct) auto

lemma spans_within_appendI:
  "spans_within lo mid xs \<Longrightarrow> spans_within mid hi ys \<Longrightarrow> spans_within lo hi (xs @ ys)"
  by (induction lo mid xs rule: spans_within.induct) (auto intro: spans_within_mono)

lemma slice_append: "p \<le> a \<Longrightarrow> a \<le> b \<Longrightarrow> slice s p b = slice s p a @ slice s a b"
  using take_add [of "a - p" "b - a" "drop p s"] by (simp add: slice_def)

lemma slice_drop: "p \<le> a \<Longrightarrow> drop p s = slice s p a @ drop a s"
  using append_take_drop_id [of "a - p" "drop p s"] by (simp add: slice_def)

lemma length_slice [simp]: "a \<le> b \<Longrightarrow> b \<le> length s \<Longrightarrow> length (slice s a b) = b - a"
  by (simp add: slice_def)

text \<open>The text before the first range is untouched; a range in front of the others is replaced in place.\<close>

lemma render_from_drop:
  assumes "spans_within a hi spans" "pos \<le> a"
  shows "render_from s pos spans = slice s pos a @ render_from s a spans"
proof (cases spans)
  case Nil
  then show ?thesis using slice_drop [OF assms(2), of s] by simp
next
  case (Cons x xs)
  obtain b c r where "x = (b, c, r)" by (cases x)
  then show ?thesis using Cons assms slice_append [OF assms(2), of b s] by simp
qed

lemma render_take:
  assumes "spans_within a hi spans" "a \<le> length s"
  shows "take a (render_from s 0 spans) = take a s" "drop a (render_from s 0 spans) = render_from s a spans"
  using render_from_drop [OF assms(1), of 0 s] assms(2) by (simp_all add: slice_def)

lemma render_replace:
  assumes "spans_within b hi spans" "a \<le> b" "b \<le> length s"
  shows "replace_range (render_from s 0 spans) a b r = render_from s 0 ((a, b, r) # spans)"
proof -
  have "take a (render_from s 0 spans) = take a s"
    using render_take(1) [OF assms(1,3)] assms(2) by (metis min.absorb1 take_take)
  then show ?thesis
    using render_take(2) [OF assms(1,3)] by (simp add: replace_range_def slice_def)
qed

lemma render_slice:
  assumes "spans_within u hi spans" "u \<le> length s" "b \<le> u"
  shows "slice (render_from s 0 spans) a b = slice s a b"
proof -
  have "take b (render_from s 0 spans) = take b s"
    using render_take(1) [OF assms(1,2)] assms(3) by (metis min.absorb1 take_take)
  then show ?thesis by (simp add: slice_def take_drop [symmetric] min_def drop_take) (metis drop_take)
qed

section \<open>Replacing from the back\<close>

text \<open>
  What a loop from the back has built: \<open>upper\<close> is where the replaced part starts, and the
  replacement there starts with a character.
\<close>

definition char_start :: "string \<Rightarrow> bool" where
  "char_start r \<longleftrightarrow> (case r of [] \<Rightarrow> False | c # _ \<Rightarrow> \<not> (128 \<le> (of_char c :: nat) \<and> of_char c < (192::nat)))"

definition spliced :: "string \<Rightarrow> nat \<Rightarrow> (nat \<times> nat \<times> string) list \<Rightarrow> string \<Rightarrow> bool" where
  "spliced s upper spans res \<longleftrightarrow> res = render_from s 0 spans \<and> spans_within upper (length s) spans
     \<and> is_char_boundary s upper
     \<and> (case spans of [] \<Rightarrow> upper = length s | (a, b, r) # _ \<Rightarrow> a = upper \<and> char_start r)"

lemma spliced_start: "spliced s (length s) [] s"
  by (simp add: spliced_def is_char_boundary_def)

lemma spliced_upper: "spliced s upper spans res \<Longrightarrow> upper \<le> length s"
  by (auto simp: spliced_def dest: spans_within_le)

lemma spliced_length: "spliced s upper spans res \<Longrightarrow> upper \<le> length res"
  using render_take(1) [of upper "length s" spans s] spliced_upper [of s upper spans res]
  by (simp add: spliced_def) (metis length_take min.absorb2 min.cobounded1)

lemma spliced_slice: "spliced s upper spans res \<Longrightarrow> b \<le> upper \<Longrightarrow> slice res a b = slice s a b"
  using render_slice spliced_upper by (simp add: spliced_def) blast

text \<open>Up to \<open>upper\<close>, the boundaries of the result are those of the text.\<close>

lemma spliced_boundary:
  assumes sp: "spliced s upper spans res" and i: "i \<le> upper"
  shows "is_char_boundary res i \<longleftrightarrow> is_char_boundary s i"
proof (cases "i = upper")
  case True
  show ?thesis
  proof (cases spans)
    case Nil
    then show ?thesis using sp True by (simp add: spliced_def)
  next
    case (Cons x xs)
    obtain b r where x: "x = (upper, b, r)" "char_start r" using sp Cons by (cases x) (auto simp: spliced_def)
    obtain c r' where r: "r = c # r'" using x(2) by (cases r) (auto simp: char_start_def)
    have "drop upper res = c # r' @ render_from s b xs"
      using sp Cons x(1) r render_take(2) [of upper "length s" spans s] spliced_upper [OF sp]
      by (simp add: spliced_def slice_def)
    then have "upper < length res" "res ! upper = c"
      by (metis drop_all list.distinct(1) not_le, metis nth_via_drop)
    then show ?thesis using sp x(2) r True by (simp add: spliced_def is_char_boundary_def char_start_def)
  qed
next
  case False
  have u: "upper \<le> length s" by (rule spliced_upper [OF sp])
  have t: "take upper res = take upper s" using sp render_take(1) [OF _ u] by (auto simp: spliced_def)
  then have "res ! i = s ! i" using False i by (metis le_neq_implies_less nth_take)
  then show ?thesis using False i u spliced_length [OF sp] by (simp add: is_char_boundary_def)
qed

text \<open>One more replacement in front.\<close>

lemma spliced_replace:
  assumes sp: "spliced s upper spans res" and ab: "a < b" "b \<le> upper" "is_char_boundary s a" "char_start r"
  shows "spliced s a ((a, b, r) # spans) (replace_range res a b r)"
proof -
  have w: "spans_within b (length s) spans" using sp ab(2) by (auto simp: spliced_def intro: spans_within_mono)
  have "replace_range res a b r = render_from s 0 ((a, b, r) # spans)"
    using sp render_replace [OF w, of a s r] ab spliced_upper [OF sp] by (simp add: spliced_def)
  then show ?thesis using ab w by (simp add: spliced_def)
qed

end
