(* ===== verification/Facets.thy ===== *)
theory Facets
  imports Ipld Text_Spans
begin

text \<open>
  Rich text that arrives from the AT network: \<open>apply_link_facets\<close> and \<open>apply_bsky_facets\<close>
  (\<open>crates/seiran-common/src/atp/facets.rs\<close>) bake link facets into the text and record the mentions;
  \<open>apply_mention_facets\<close> (\<open>crates/seiran-api/src/handlers/notes/dto.rs\<close>) replaces the recorded
  mentions when a post is shown, with the handles of \<open>actor_handle\<close> (\<open>username.rs\<close>).
\<close>

section \<open>Facets\<close>

datatype parsed_feature = P_Link string | P_Mention string | P_Tag | P_Unknown

record parsed_facet =
  pf_start :: nat
  pf_end :: nat
  pf_features :: "parsed_feature list"

record mention_span =
  ms_start :: nat
  ms_end :: nat
  ms_did :: string

fun is_link :: "parsed_feature \<Rightarrow> bool" where
  "is_link (P_Link uri) = True"
| "is_link _ = False"

fun mention_did :: "parsed_feature \<Rightarrow> string option" where
  "mention_did (P_Mention did) = Some did"
| "mention_did _ = None"

text \<open>The ranges of the mentions, as they are in the text that arrived.\<close>

definition facet_mentions :: "string \<Rightarrow> parsed_facet \<Rightarrow> mention_span list" where
  "facet_mentions txt f =
     (if pf_start f \<ge> pf_end f \<or> pf_end f > length txt \<or> \<not> is_char_boundary txt (pf_start f)
         \<or> \<not> is_char_boundary txt (pf_end f)
      then []
      else map (\<lambda>did. \<lparr>ms_start = pf_start f, ms_end = pf_end f, ms_did = did\<rparr>)
             (List.map_filter mention_did (pf_features f)))"

text \<open>\<open>sort_by_key(Reverse(byte_start))\<close>: stable, from the back.\<close>

definition from_the_back :: "('a \<Rightarrow> nat) \<Rightarrow> 'a list \<Rightarrow> 'a list" where
  "from_the_back f xs = sort_key (\<lambda>x. - int (f x)) xs"

definition markdown_link :: "string \<Rightarrow> string \<Rightarrow> string" where
  "markdown_link original uri = ''['' @ original @ '']('' @ uri @ '')''"

fun link_loop :: "parsed_facet list \<Rightarrow> string \<Rightarrow> nat \<Rightarrow> string" where
  "link_loop [] res upper_bound = res"
| "link_loop (f # fs) res upper_bound =
     (let a = pf_start f; b = pf_end f in
      if a \<ge> b \<or> b > length res \<or> b > upper_bound then link_loop fs res upper_bound
      else if \<not> is_char_boundary res a \<or> \<not> is_char_boundary res b then link_loop fs res upper_bound
      else (case find is_link (pf_features f) of
          Some (P_Link uri) \<Rightarrow> link_loop fs (replace_range res a b (markdown_link (slice res a b) uri)) a
        | _ \<Rightarrow> link_loop fs res upper_bound))"

definition apply_link_facets :: "string \<Rightarrow> parsed_facet list \<Rightarrow> string \<times> mention_span list" where
  "apply_link_facets txt facets =
     (if facets = [] then (txt, [])
      else (link_loop (from_the_back pf_start (filter (\<lambda>f. \<exists>x \<in> set (pf_features f). is_link x) facets)) txt (length txt),
            concat (map (facet_mentions txt) facets)))"

text \<open>A \<open>usize\<close> in a JSON number.\<close>

definition json_usize :: "nat \<Rightarrow> json" where
  "json_usize n = JNumber (PosInt (of_nat n))"

definition mention_json :: "mention_span \<Rightarrow> json" where
  "mention_json m = JObject [(''byteStart'', json_usize (ms_start m)), (''byteEnd'', json_usize (ms_end m)),
     (''did'', JString (ms_did m))]"

definition apply_bsky_facets :: "string \<Rightarrow> parsed_facet list \<Rightarrow> string \<times> json" where
  "apply_bsky_facets txt facets =
     (if facets = [] then (txt, JArray [])
      else (let (body, spans) = apply_link_facets txt facets in (body, JArray (map mention_json spans))))"

section \<open>Mentions when a post is shown\<close>

definition actor_handle :: "string \<Rightarrow> string \<Rightarrow> string \<Rightarrow> string" where
  "actor_handle username domain actor_type =
     (if actor_type = ''local'' \<or> domain = [] then ''@'' @ username else ''@'' @ username @ ''@'' @ domain)"

fun json_as_array :: "json \<Rightarrow> json list option" where
  "json_as_array (JArray xs) = Some xs"
| "json_as_array _ = None"

fun json_as_u64 :: "json \<Rightarrow> nat option" where
  "json_as_u64 (JNumber (PosInt w)) = Some (unat w)"
| "json_as_u64 _ = None"

definition read_mention :: "json \<Rightarrow> (nat \<times> nat \<times> string) option" where
  "read_mention f =
     Option.bind (Option.bind (json_get f ''byteStart'') json_as_u64) (\<lambda>a.
     Option.bind (Option.bind (json_get f ''byteEnd'') json_as_u64) (\<lambda>b.
     Option.bind (Option.bind (json_get f ''did'') json_as_str) (\<lambda>did.
     Some (a, b, did))))"

fun mention_loop :: "(string \<Rightarrow> string option) \<Rightarrow> (nat \<times> nat \<times> string) list \<Rightarrow> string \<Rightarrow> nat \<Rightarrow> string" where
  "mention_loop paths [] res upper_bound = res"
| "mention_loop paths ((a, b, did) # spans) res upper_bound =
     (if a \<ge> b \<or> b > length res \<or> b > upper_bound then mention_loop paths spans res upper_bound
      else if \<not> is_char_boundary res a \<or> \<not> is_char_boundary res b then mention_loop paths spans res upper_bound
      else (case paths did of
          Some handle \<Rightarrow> mention_loop paths spans (replace_range res a b handle) a
        | None \<Rightarrow> mention_loop paths spans res upper_bound))"

definition apply_mention_facets :: "string \<Rightarrow> json option \<Rightarrow> (string \<Rightarrow> string option) \<Rightarrow> string" where
  "apply_mention_facets body mention_facets paths =
     (case Option.bind mention_facets json_as_array of
        None \<Rightarrow> body
      | Some facets \<Rightarrow>
          (if facets = [] then body
           else mention_loop paths (from_the_back fst (List.map_filter read_mention facets)) body (length body)))"

text \<open>
  \<open>resolve_mention_facets_in_place\<close> for one post: \<open>rows\<close> are the actors of the known DIDs, as user
  name, domain and type.
\<close>

definition handle_of_did :: "(string \<Rightarrow> (string \<times> string \<times> string) option) \<Rightarrow> string \<Rightarrow> string option" where
  "handle_of_did rows did = map_option (\<lambda>(username, domain, actor_type). actor_handle username domain actor_type) (rows did)"

definition resolve_mention_facets :: "(string \<Rightarrow> (string \<times> string \<times> string) option) \<Rightarrow> string \<Rightarrow> json option \<Rightarrow> string" where
  "resolve_mention_facets rows body mention_facets =
     apply_mention_facets body mention_facets (handle_of_did rows)"

section \<open>What the loops accept\<close>

text \<open>
  The specification, from the back: a range counts if it is not empty, ends before the last one that
  counted, lies on character boundaries of the text and has a replacement.
\<close>

fun accepted :: "string \<Rightarrow> ('f \<Rightarrow> nat \<times> nat) \<Rightarrow> ('f \<Rightarrow> string \<Rightarrow> string option) \<Rightarrow> 'f list \<Rightarrow> nat
    \<Rightarrow> (nat \<times> nat \<times> string) list \<Rightarrow> (nat \<times> nat \<times> string) list" where
  "accepted s span_of repl [] upper acc = acc"
| "accepted s span_of repl (f # fs) upper acc =
     (let (a, b) = span_of f in
      if a < b \<and> b \<le> upper \<and> is_char_boundary s a \<and> is_char_boundary s b
      then (case repl f (slice s a b) of
          Some r \<Rightarrow> accepted s span_of repl fs a ((a, b, r) # acc)
        | None \<Rightarrow> accepted s span_of repl fs upper acc)
      else accepted s span_of repl fs upper acc)"

lemma accepted_spliced:
  assumes "\<And>f o' r. repl f o' = Some r \<Longrightarrow> char_start r" "spliced s upper acc res"
  shows "\<exists>u. spliced s u (accepted s span_of repl fs upper acc) (render_from s 0 (accepted s span_of repl fs upper acc))"
  using assms(2)
proof (induction fs arbitrary: upper acc res)
  case (Cons f fs)
  obtain a b where ab: "span_of f = (a, b)" by (cases "span_of f")
  show ?case
  proof (cases "a < b \<and> b \<le> upper \<and> is_char_boundary s a \<and> is_char_boundary s b")
    case True
    show ?thesis
    proof (cases "repl f (slice s a b)")
      case (Some r)
      have "spliced s a ((a, b, r) # acc) (replace_range res a b r)"
        using True assms(1) [OF Some] by (intro spliced_replace [OF Cons.prems]) auto
      then show ?thesis using Cons.IH True ab Some by simp
    qed (use True ab Cons in simp)
  qed (use ab Cons in auto)
qed (auto simp: spliced_def)

definition link_replacement :: "parsed_facet \<Rightarrow> string \<Rightarrow> string option" where
  "link_replacement f original = (case find is_link (pf_features f) of
      Some (P_Link uri) \<Rightarrow> Some (markdown_link original uri) | _ \<Rightarrow> None)"

definition mention_replacement :: "(string \<Rightarrow> string option) \<Rightarrow> nat \<times> nat \<times> string \<Rightarrow> string \<Rightarrow> string option" where
  "mention_replacement paths f original = paths (snd (snd f))"

lemma char_start_ascii: "(of_char c :: nat) < 128 \<Longrightarrow> char_start (c # r)"
  by (simp add: char_start_def)

lemma link_replacement_start: "link_replacement f o' = Some r \<Longrightarrow> char_start r"
  by (auto simp: link_replacement_def markdown_link_def char_start_def split: option.splits parsed_feature.splits)

lemma link_loop_accepted:
  assumes "spliced s upper acc res"
  shows "link_loop fs res upper = render_from s 0 (accepted s (\<lambda>f. (pf_start f, pf_end f)) link_replacement fs upper acc)"
  using assms
proof (induction fs arbitrary: upper acc res)
  case (Cons f fs)
  let ?a = "pf_start f" and ?b = "pf_end f"
  have len: "upper \<le> length res" by (rule spliced_length [OF Cons.prems])
  show ?case
  proof (cases "?a < ?b \<and> ?b \<le> upper \<and> is_char_boundary s ?a \<and> is_char_boundary s ?b")
    case True
    then have bd: "is_char_boundary res ?a" "is_char_boundary res ?b"
      using spliced_boundary [OF Cons.prems] by auto
    show ?thesis
    proof (cases "link_replacement f (slice s ?a ?b)")
      case None
      then show ?thesis using True bd len Cons
        by (auto simp: link_replacement_def split: option.splits parsed_feature.splits)
    next
      case (Some r)
      then obtain uri where uri: "find is_link (pf_features f) = Some (P_Link uri)" "r = markdown_link (slice s ?a ?b) uri"
        by (auto simp: link_replacement_def split: option.splits parsed_feature.splits)
      have sl: "slice res ?a ?b = slice s ?a ?b" using True by (intro spliced_slice [OF Cons.prems]) simp
      have "spliced s ?a ((?a, ?b, r) # acc) (replace_range res ?a ?b r)"
        using True link_replacement_start [OF Some] by (intro spliced_replace [OF Cons.prems]) auto
      then show ?thesis using Cons.IH True bd len Some uri sl by (simp add: Let_def)
    qed
  next
    case False
    then have "?a \<ge> ?b \<or> ?b > upper \<or> \<not> is_char_boundary res ?a \<or> \<not> is_char_boundary res ?b"
      using spliced_boundary [OF Cons.prems, of ?a] spliced_boundary [OF Cons.prems, of ?b] by auto
    then show ?thesis using False Cons by (auto simp: Let_def)
  qed
qed (simp add: spliced_def)

lemma mention_loop_accepted:
  assumes "\<And>did h. paths did = Some h \<Longrightarrow> char_start h" "spliced s upper acc res"
  shows "mention_loop paths fs res upper
    = render_from s 0 (accepted s (\<lambda>f. (fst f, fst (snd f))) (mention_replacement paths) fs upper acc)"
  using assms(2)
proof (induction fs arbitrary: upper acc res)
  case (Cons f fs)
  obtain a b did where f: "f = (a, b, did)" by (cases f)
  have len: "upper \<le> length res" by (rule spliced_length [OF Cons.prems])
  show ?case
  proof (cases "a < b \<and> b \<le> upper \<and> is_char_boundary s a \<and> is_char_boundary s b")
    case True
    then have bd: "is_char_boundary res a" "is_char_boundary res b"
      using spliced_boundary [OF Cons.prems] by auto
    show ?thesis
    proof (cases "paths did")
      case None
      then show ?thesis using True bd len Cons f by (simp add: mention_replacement_def)
    next
      case (Some h)
      have "spliced s a ((a, b, h) # acc) (replace_range res a b h)"
        using True assms(1) [OF Some] by (intro spliced_replace [OF Cons.prems]) auto
      then show ?thesis using Cons.IH True bd len Some f by (simp add: mention_replacement_def)
    qed
  next
    case False
    then have "a \<ge> b \<or> b > upper \<or> \<not> is_char_boundary res a \<or> \<not> is_char_boundary res b"
      using spliced_boundary [OF Cons.prems, of a] spliced_boundary [OF Cons.prems, of b] by auto
    then show ?thesis using False Cons f by auto
  qed
qed (simp add: spliced_def)

lemma accepted_within:
  assumes "spans_within upper hi acc" "list_all (\<lambda>(a, b, r). is_char_boundary s a \<and> is_char_boundary s b) acc"
  shows "spans_within 0 hi (accepted s span_of repl fs upper acc)
    \<and> list_all (\<lambda>(a, b, r). is_char_boundary s a \<and> is_char_boundary s b) (accepted s span_of repl fs upper acc)"
  using assms
proof (induction fs arbitrary: upper acc)
  case (Cons f fs)
  obtain a b where ab: "span_of f = (a, b)" by (cases "span_of f")
  have "spans_within a hi ((a, b, r) # acc)" if "a < b" "b \<le> upper" for r
    using that Cons.prems(1) by (auto intro: spans_within_mono)
  then show ?case using Cons ab by (auto split: option.split)
qed (auto intro: spans_within_mono)

section \<open>Properties\<close>

definition accepted_links :: "string \<Rightarrow> parsed_facet list \<Rightarrow> (nat \<times> nat \<times> string) list" where
  "accepted_links s facets = accepted s (\<lambda>f. (pf_start f, pf_end f)) link_replacement
     (from_the_back pf_start (filter (\<lambda>f. \<exists>x \<in> set (pf_features f). is_link x) facets)) (length s) []"

definition accepted_mentions ::
  "(string \<Rightarrow> (string \<times> string \<times> string) option) \<Rightarrow> string \<Rightarrow> json list \<Rightarrow> (nat \<times> nat \<times> string) list" where
  "accepted_mentions rows s facets = accepted s (\<lambda>f. (fst f, fst (snd f)))
     (mention_replacement (handle_of_did rows))
     (from_the_back fst (List.map_filter read_mention facets)) (length s) []"

definition spans_ok :: "string \<Rightarrow> (nat \<times> nat \<times> string) list \<Rightarrow> bool" where
  "spans_ok s spans \<longleftrightarrow> spans_within 0 (length s) spans
     \<and> list_all (\<lambda>(a, b, r). is_char_boundary s a \<and> is_char_boundary s b) spans"

lemma accepted_ok: "spans_ok s (accepted s span_of repl fs (length s) [])"
  using accepted_within [of "length s" "length s" "[]"] by (simp add: spans_ok_def)

lemma accepted_links_ok: "spans_ok s (accepted_links s facets)"
  unfolding accepted_links_def by (rule accepted_ok)

lemma accepted_mentions_ok: "spans_ok s (accepted_mentions rows s js)"
  unfolding accepted_mentions_def by (rule accepted_ok)

lemma actor_handle_start: "char_start (actor_handle u d t)"
  by (simp add: actor_handle_def char_start_def)

lemma find_is_link_none: "\<not> (\<exists>x \<in> set xs. is_link x) \<Longrightarrow> find is_link xs = None"
  by (auto simp: find_None_iff)

text \<open>
  Replacing from the back is replacing in place: for any facets, also unsorted, overlapping, out of
  range or inside a character, the text with its links baked in, and the text whose mentions are shown,
  is the text with a list of ranges replaced front to back; these ranges are in order, disjoint, within
  the text and on character boundaries, so no replacement panics and nothing else of the text changes.
\<close>
theorem facets_replace_in_place:
  "fst (apply_link_facets txt facets) = render_from txt 0 (accepted_links txt facets)
   \<and> spans_ok txt (accepted_links txt facets)
   \<and> resolve_mention_facets rows txt (Some (JArray js)) = render_from txt 0 (accepted_mentions rows txt js)
   \<and> spans_ok txt (accepted_mentions rows txt js)"
proof -
  have links: "fst (apply_link_facets txt facets) = render_from txt 0 (accepted_links txt facets)"
    by (simp add: apply_link_facets_def accepted_links_def link_loop_accepted [OF spliced_start] from_the_back_def)
  have "char_start h" if "handle_of_did rows did = Some h" for did h
    using that actor_handle_start by (auto simp: handle_of_did_def)
  note shown = mention_loop_accepted [OF this spliced_start]
  have "resolve_mention_facets rows txt (Some (JArray js)) = render_from txt 0 (accepted_mentions rows txt js)"
  proof (cases "js = []")
    case False
    then show ?thesis
      by (simp add: resolve_mention_facets_def apply_mention_facets_def accepted_mentions_def shown)
  qed (simp add: resolve_mention_facets_def apply_mention_facets_def accepted_mentions_def map_filter_simps from_the_back_def)
  then show ?thesis using links accepted_links_ok accepted_mentions_ok by blast
qed

text \<open>
  The mentions of a post with a link go astray: the ranges of the mentions are those of the text
  that arrived, but they are stored beside the text into which the links were baked, which are longer;
  when the post is shown, the handle then overwrites the middle of the link.
\<close>
theorem mention_after_link_corrupts:
  "(let txt = ''see x.io, @al.b'';
        facets = [\<lparr>pf_start = 4, pf_end = 8, pf_features = [P_Link ''http://x.io'']\<rparr>,
                  \<lparr>pf_start = 10, pf_end = 15, pf_features = [P_Mention ''did:plc:1'']\<rparr>];
        (body, stored) = apply_bsky_facets txt facets
    in body = ''see [x.io](http://x.io), @al.b''
       \<and> resolve_mention_facets (\<lambda>did. Some (''al'', ''b'', ''bsky'')) body (Some stored) = ''see [x.io]@al@b://x.io), @al.b'')"
  by code_simp

end
