(* ===== verification/Mentions.thy ===== *)
theory Mentions
  imports Records Text_Spans
begin

text \<open>
  Mentions, hashtags and URLs of a post (\<open>crates/seiran-common/src/mention.rs\<close>, \<open>hashtag.rs\<close>): the
  conversion of a text for the AT network with its facets and for ActivityPub with its inline spans,
  and the extraction of mentions and hashtags from it.

  A text is the list of its code points (\<open>text.chars().collect()\<close>), the result a UTF-8 string, so that
  offsets count bytes. The character classes of Unicode are a parameter; so are the answers of the
  database and the network, which may differ between two positions of the text.
\<close>

section \<open>Characters\<close>

type_synonym uchar = nat

record unicode =
  is_alphanumeric :: "uchar \<Rightarrow> bool"
  is_alphabetic :: "uchar \<Rightarrow> bool"
  is_whitespace :: "uchar \<Rightarrow> bool"
  to_lowercase :: "uchar list \<Rightarrow> uchar list"

definition u :: "char \<Rightarrow> uchar" where
  "u c = of_char c"

definition encode_char :: "uchar \<Rightarrow> string" where
  "encode_char c =
     (if c < 0x80 then [char_of c]
      else if c < 0x800 then [char_of (0xC0 + c div 64), char_of (0x80 + c mod 64)]
      else if c < 0x10000 then [char_of (0xE0 + c div 4096), char_of (0x80 + c div 64 mod 64), char_of (0x80 + c mod 64)]
      else [char_of (0xF0 + c div 262144), char_of (0x80 + c div 4096 mod 64), char_of (0x80 + c div 64 mod 64),
            char_of (0x80 + c mod 64)])"

text \<open>\<open>iter().collect::<String>()\<close>.\<close>

definition to_str :: "uchar list \<Rightarrow> string" where
  "to_str xs = concat (map encode_char xs)"

definition ascii_word :: "uchar \<Rightarrow> bool" where
  "ascii_word c \<longleftrightarrow> (48 \<le> c \<and> c \<le> 57) \<or> (65 \<le> c \<and> c \<le> 90) \<or> (97 \<le> c \<and> c \<le> 122) \<or> c = u CHR ''_''"

section \<open>Scanning\<close>

function scan_while :: "(uchar \<Rightarrow> bool) \<Rightarrow> uchar list \<Rightarrow> nat \<Rightarrow> nat" where
  "scan_while P xs i = (if i < length xs \<and> P (xs ! i) then scan_while P xs (i + 1) else i)"
  by pat_completeness auto
termination by (relation "measure (\<lambda>(P, xs, i). length xs - i)") auto

declare scan_while.simps [simp del]

definition chars_start_with :: "uchar list \<Rightarrow> string \<Rightarrow> bool" where
  "chars_start_with xs p \<longleftrightarrow> take (length p) xs = map u p"

definition url_char :: "unicode \<Rightarrow> uchar \<Rightarrow> bool" where
  "url_char U c \<longleftrightarrow> \<not> (is_whitespace U c \<or> c \<in> set (map u ''<>()[]''))"

definition scan_url :: "unicode \<Rightarrow> uchar list \<Rightarrow> nat \<Rightarrow> nat option" where
  "scan_url U xs start =
     (case (if chars_start_with (drop start xs) ''https://'' then Some 8
            else if chars_start_with (drop start xs) ''http://'' then Some 7 else None) of
        None \<Rightarrow> None
      | Some prefix_len \<Rightarrow>
          (let e = scan_while (url_char U) xs (start + prefix_len) in
           if e = start + prefix_len then None else Some e))"

definition tag_char :: "unicode \<Rightarrow> uchar \<Rightarrow> bool" where
  "tag_char U c \<longleftrightarrow> is_alphanumeric U c \<or> c = u CHR ''_''"

definition tag_blocked :: "uchar \<Rightarrow> bool" where
  "tag_blocked c \<longleftrightarrow> ascii_word c \<or> c = u CHR ''/''"

definition scan_hashtag :: "unicode \<Rightarrow> uchar list \<Rightarrow> nat \<Rightarrow> (uchar list \<times> nat) option" where
  "scan_hashtag U xs start =
     (if 0 < start \<and> tag_blocked (xs ! (start - 1)) then None
      else
        (let tag_start = start + 1; e = scan_while (tag_char U) xs tag_start in
         if e = tag_start then None
         else (let tag_body = slice xs tag_start e in
               if \<not> list_ex (is_alphabetic U) tag_body then None else Some (tag_body, e))))"

definition name_char :: "unicode \<Rightarrow> uchar \<Rightarrow> bool" where
  "name_char U c \<longleftrightarrow> is_alphanumeric U c \<or> c = u CHR ''_'' \<or> c = u CHR ''-'' \<or> c = u CHR ''.''"

definition domain_char :: "unicode \<Rightarrow> uchar \<Rightarrow> bool" where
  "domain_char U c \<longleftrightarrow> is_alphanumeric U c \<or> c = u CHR ''.'' \<or> c = u CHR ''-''"

definition is_atproto_handle_like :: "string \<Rightarrow> bool" where
  "is_atproto_handle_like username =
     (let parts = split_on CHR ''.'' username in 2 \<le> length parts \<and> 2 \<le> length (last parts))"

section \<open>What is asked of the database and the network\<close>

text \<open>Every question comes with the position of the mention in the text.\<close>

record mention_env =
  get_local_actor_did :: "nat \<Rightarrow> string \<Rightarrow> string option"
  is_local_actor :: "nat \<Rightarrow> string \<Rightarrow> bool"
  get_local_actor_id :: "nat \<Rightarrow> string \<Rightarrow> int option"
  get_known_remote_seiran_did :: "nat \<Rightarrow> string \<Rightarrow> string \<Rightarrow> (string \<times> string option) option"
  get_fedi_actor_home_url :: "nat \<Rightarrow> string \<Rightarrow> string \<Rightarrow> string option"
  resolve_bsky_handle_did :: "nat \<Rightarrow> string \<Rightarrow> string option"
  bridged_actor_exists :: "nat \<Rightarrow> string \<Rightarrow> bool"
  webfinger_get :: "nat \<Rightarrow> string \<Rightarrow> json option"

definition resolve_fedi_for_bsky ::
  "mention_env \<Rightarrow> nat \<Rightarrow> string \<Rightarrow> string \<Rightarrow> (string \<times> string option) option" where
  "resolve_fedi_for_bsky E i username domain =
     (case get_known_remote_seiran_did E i username domain of
        Some (at_did, at_handle) \<Rightarrow>
          Some ((case at_handle of Some h \<Rightarrow> h | None \<Rightarrow> username @ ''.'' @ domain), Some at_did)
      | None \<Rightarrow>
          (let bridgy_username = username @ ''.'' @ domain; bridgy_handle = bridgy_username @ ''.ap.brid.gy'' in
           case resolve_bsky_handle_did E i bridgy_handle of
             Some did \<Rightarrow> Some (bridgy_handle, Some did)
           | None \<Rightarrow> (if bridged_actor_exists E i bridgy_username then Some (bridgy_handle, None) else None)))"

definition str_contains :: "string \<Rightarrow> string \<Rightarrow> bool" where
  "str_contains s p \<longleftrightarrow> list_ex (\<lambda>i. starts_with (drop i s) p) [0..<length s + 1]"

definition webfinger_link :: "json \<Rightarrow> string option" where
  "webfinger_link l =
     Option.bind (Option.bind (json_get l ''rel'') json_as_str) (\<lambda>rel.
     if rel \<noteq> ''self'' then None
     else if (case Option.bind (json_get l ''type'') json_as_str of Some t \<Rightarrow> str_contains t ''json'' | None \<Rightarrow> True)
          then Option.bind (json_get l ''href'') json_as_str else None)"

fun find_map :: "('a \<Rightarrow> 'b option) \<Rightarrow> 'a list \<Rightarrow> 'b option" where
  "find_map f [] = None"
| "find_map f (x # xs) = (case f x of Some y \<Rightarrow> Some y | None \<Rightarrow> find_map f xs)"

definition resolve_ap_actor_href_via_webfinger :: "mention_env \<Rightarrow> nat \<Rightarrow> string \<Rightarrow> string \<Rightarrow> string option" where
  "resolve_ap_actor_href_via_webfinger E i username domain =
     (case webfinger_get E i (''https://'' @ domain @ ''/.well-known/webfinger?resource=acct:'' @ username @ ''@'' @ domain) of
        None \<Rightarrow> None
      | Some body \<Rightarrow>
          (case json_get body ''links'' of
             Some (JArray links) \<Rightarrow> find_map webfinger_link links
           | _ \<Rightarrow> None))"

definition resolve_fedi_mention_href :: "mention_env \<Rightarrow> nat \<Rightarrow> string \<Rightarrow> string \<Rightarrow> string option" where
  "resolve_fedi_mention_href E i username domain =
     (case get_fedi_actor_home_url E i username domain of
        Some uri \<Rightarrow> Some uri
      | None \<Rightarrow> resolve_ap_actor_href_via_webfinger E i username domain)"

section \<open>Conversion for the AT network\<close>

definition make_facet :: "facet_feature \<Rightarrow> nat \<Rightarrow> nat \<Rightarrow> bsky_facet" where
  "make_facet feature a b = \<lparr>facet_index = \<lparr>byte_end = b, byte_start = a\<rparr>, facet_features = [feature]\<rparr>"

definition make_tag_facet :: "nat \<Rightarrow> nat \<Rightarrow> string \<Rightarrow> bsky_facet" where
  "make_tag_facet a b tag = make_facet (Facet_Tag tag ''app.bsky.richtext.facet#tag'') a b"

definition make_mention_facet :: "nat \<Rightarrow> nat \<Rightarrow> string \<Rightarrow> bsky_facet" where
  "make_mention_facet a b did = make_facet (Facet_Mention did ''app.bsky.richtext.facet#mention'') a b"

definition make_link_facet :: "nat \<Rightarrow> nat \<Rightarrow> string \<Rightarrow> bsky_facet" where
  "make_link_facet a b uri = make_facet (Facet_Link uri ''app.bsky.richtext.facet#link'') a b"

text \<open>\<open>push_str\<close>, with a facet on what is pushed if there is something to point to.\<close>

definition push_with :: "(nat \<Rightarrow> nat \<Rightarrow> 'x \<Rightarrow> 'f) \<Rightarrow> string \<Rightarrow> 'x option \<Rightarrow> string \<times> 'f list \<Rightarrow> string \<times> 'f list" where
  "push_with mk s target st = (case st of (res, fs) \<Rightarrow>
     (res @ s, fs @ (case target of Some x \<Rightarrow> [mk (length res) (length res + length s) x] | None \<Rightarrow> [])))"

definition push_plain :: "string \<Rightarrow> string \<times> 'f list \<Rightarrow> string \<times> 'f list" where
  "push_plain s st = (case st of (res, fs) \<Rightarrow> (res @ s, fs))"

text \<open>\<open>@user@domain\<close>, and \<open>@name\<close> without a second part.\<close>

definition bsky_fedi_mention ::
  "mention_env \<Rightarrow> string \<Rightarrow> nat \<Rightarrow> string \<Rightarrow> string \<Rightarrow> string \<times> bsky_facet list \<Rightarrow> string \<times> bsky_facet list" where
  "bsky_fedi_mention E local_domain i username domain st =
     (if eq_ignore_ascii_case domain local_domain
      then push_with make_mention_facet (''@'' @ username @ ''.'' @ local_domain) (get_local_actor_did E i username) st
      else (case resolve_fedi_for_bsky E i username domain of
          Some (handle, did) \<Rightarrow> push_with make_mention_facet (''@'' @ handle) did st
        | None \<Rightarrow>
            push_with make_link_facet (''@'' @ username @ ''@'' @ domain)
              (Some (case get_fedi_actor_home_url E i username domain of
                 Some home_url \<Rightarrow> home_url
               | None \<Rightarrow> ''https://'' @ local_domain @ ''/@'' @ username @ ''@'' @ domain)) st))"

definition bsky_name_mention ::
  "mention_env \<Rightarrow> string \<Rightarrow> nat \<Rightarrow> string \<Rightarrow> string \<times> bsky_facet list \<Rightarrow> string \<times> bsky_facet list" where
  "bsky_name_mention E local_domain i username st =
     (if is_atproto_handle_like username then
        push_with make_mention_facet (''@'' @ username)
          (case strip_suffix username (''.'' @ local_domain) of
             Some local_username \<Rightarrow> get_local_actor_did E i local_username
           | None \<Rightarrow> resolve_bsky_handle_did E i username) st
      else if is_local_actor E i username then
        push_with make_mention_facet (''@'' @ username @ ''.'' @ local_domain) (get_local_actor_did E i username) st
      else push_plain (''@'' @ username) st)"

text \<open>One round of the loop: the next position and what has been pushed.\<close>

definition bsky_step ::
  "unicode \<Rightarrow> mention_env \<Rightarrow> string \<Rightarrow> uchar list \<Rightarrow> nat \<Rightarrow> string \<times> bsky_facet list \<Rightarrow> nat \<times> (string \<times> bsky_facet list)" where
  "bsky_step U E local_domain xs i st =
     (let ch = xs ! i in
      case (if ch = u CHR ''h'' then scan_url U xs i else None) of
        Some e \<Rightarrow> (let url = to_str (slice xs i e) in (e, push_with make_link_facet url (Some url) st))
      | None \<Rightarrow>
      case (if ch = u CHR ''#'' then scan_hashtag U xs i else None) of
        Some (tag_body, e) \<Rightarrow>
          (e, push_with make_tag_facet (''#'' @ to_str tag_body) (Some (to_str tag_body)) st)
      | None \<Rightarrow>
      if ch \<noteq> u CHR ''@'' then (i + 1, push_plain (encode_char ch) st)
      else if 0 < i \<and> ascii_word (xs ! (i - 1)) then (i + 1, push_plain ''@'' st)
      else
        (let name_end = scan_while (name_char U) xs (i + 1) in
         if name_end = i + 1 then (name_end, push_plain ''@'' st)
         else
           (let username = to_str (slice xs (i + 1) name_end) in
            if name_end < length xs \<and> xs ! name_end = u CHR ''@'' then
              (let domain_end = scan_while (domain_char U) xs (name_end + 1) in
               if domain_end = name_end + 1 then (domain_end, push_plain (''@'' @ username @ ''@'') st)
               else (domain_end, bsky_fedi_mention E local_domain i username (to_str (slice xs (name_end + 1) domain_end)) st))
            else (name_end, bsky_name_mention E local_domain i username st))))"

section \<open>Conversion for ActivityPub\<close>

datatype ap_span_kind = Span_Mention | Span_Hashtag | Span_Link

record ap_inline_mention =
  am_start :: nat
  am_end :: nat
  am_href :: string
  am_name :: string
  am_kind :: ap_span_kind

definition make_span :: "ap_span_kind \<Rightarrow> string \<Rightarrow> nat \<Rightarrow> nat \<Rightarrow> string \<Rightarrow> ap_inline_mention" where
  "make_span kind name a b href = \<lparr>am_start = a, am_end = b, am_href = href, am_name = name, am_kind = kind\<rparr>"

definition ap_name_mention ::
  "mention_env \<Rightarrow> string \<Rightarrow> nat \<Rightarrow> string \<Rightarrow> string \<times> ap_inline_mention list \<Rightarrow> string \<times> ap_inline_mention list" where
  "ap_name_mention E local_domain i ident st =
     (if is_atproto_handle_like ident then
        (case strip_suffix ident (''.'' @ local_domain) of
           Some local_username \<Rightarrow>
             (if is_local_actor E i local_username then
                (let name = ''@'' @ local_username @ ''@'' @ local_domain in
                 push_with (make_span Span_Mention name) name
                   (Some (''https://'' @ local_domain @ ''/users/'' @ local_username)) st)
              else push_plain (''@'' @ ident) st)
         | None \<Rightarrow>
             (case resolve_fedi_mention_href E i ident ''bsky.brid.gy'' of
                Some href \<Rightarrow>
                  (let name = ''@'' @ ident @ ''@bsky.brid.gy'' in push_with (make_span Span_Mention name) name (Some href) st)
              | None \<Rightarrow> push_with (make_span Span_Link ident) ident (Some (''https://bsky.app/profile/'' @ ident)) st))
      else if is_local_actor E i ident then
        (let name = ''@'' @ ident @ ''@'' @ local_domain in
         push_with (make_span Span_Mention name) name (Some (''https://'' @ local_domain @ ''/users/'' @ ident)) st)
      else push_plain (''@'' @ ident) st)"

definition ap_step ::
  "unicode \<Rightarrow> mention_env \<Rightarrow> string \<Rightarrow> uchar list \<Rightarrow> nat \<Rightarrow> string \<times> ap_inline_mention list
     \<Rightarrow> nat \<times> (string \<times> ap_inline_mention list)" where
  "ap_step U E local_domain xs i st =
     (let ch = xs ! i in
      case (if ch = u CHR ''h'' then scan_url U xs i else None) of
        Some e \<Rightarrow> (let url = to_str (slice xs i e) in (e, push_with (make_span Span_Link url) url (Some url) st))
      | None \<Rightarrow>
      case (if ch = u CHR ''#'' then scan_hashtag U xs i else None) of
        Some (tag_body, e) \<Rightarrow>
          (let name = ''#'' @ to_str tag_body in
           (e, push_with (make_span Span_Hashtag name) name
                 (Some (''https://'' @ local_domain @ ''/tags/'' @ to_str (to_lowercase U tag_body))) st))
      | None \<Rightarrow>
      if ch \<noteq> u CHR ''@'' then (i + 1, push_plain (encode_char ch) st)
      else if 0 < i \<and> ascii_word (xs ! (i - 1)) then (i + 1, push_plain ''@'' st)
      else
        (let ident_end = scan_while (name_char U) xs (i + 1) in
         if ident_end = i + 1 then (ident_end, push_plain ''@'' st)
         else
           (let ident = to_str (slice xs (i + 1) ident_end) in
            if ident_end < length xs \<and> xs ! ident_end = u CHR ''@'' then
              (let domain_end = scan_while (domain_char U) xs (ident_end + 1) in
               if domain_end = ident_end + 1 then (domain_end, push_plain (''@'' @ ident @ ''@'') st)
               else
                 (let domain = to_str (slice xs (ident_end + 1) domain_end); name = ''@'' @ ident @ ''@'' @ domain in
                  (domain_end, push_with (make_span Span_Mention name) name (resolve_fedi_mention_href E i ident domain) st)))
            else (ident_end, ap_name_mention E local_domain i ident st))))"

section \<open>The loops\<close>

lemma scan_while_ge: "i \<le> scan_while P xs i"
  by (induction P xs i rule: scan_while.induct) (subst scan_while.simps, auto)

lemma scan_url_gt: "scan_url U xs i = Some e \<Longrightarrow> i + 7 < e"
  using scan_while_ge [of "i + 7" "url_char U" xs] scan_while_ge [of "i + 8" "url_char U" xs]
  by (auto simp: scan_url_def Let_def split: if_splits)

lemma scan_hashtag_gt: "scan_hashtag U xs i = Some (tag, e) \<Longrightarrow> i + 1 < e"
  using scan_while_ge [of "i + 1" "tag_char U" xs] by (auto simp: scan_hashtag_def Let_def split: if_splits)

lemma slice_empty_iff: "slice xs a b = [] \<longleftrightarrow> b \<le> a \<or> length xs \<le> a"
  by (auto simp: slice_def)

lemma scan_while_nonempty: "scan_while P xs i \<noteq> i \<Longrightarrow> slice xs i (scan_while P xs i) \<noteq> []"
  using scan_while_ge [of i P xs] scan_while.simps [of P xs i] by (auto simp: slice_empty_iff split: if_splits)

text \<open>The cases of a round, with what was scanned.\<close>

lemma round_cases [case_names url tag other]:
  obtains e where "(if xs ! i = u CHR ''h'' then scan_url U xs i else None) = Some e" "i < e" "xs ! i = u CHR ''h''"
  | t e where "(if xs ! i = u CHR ''h'' then scan_url U xs i else None) = None"
      "(if xs ! i = u CHR ''#'' then scan_hashtag U xs i else None) = Some (t, e)" "t = slice xs (i + 1) e" "i < e"
      "xs ! i = u CHR ''#''"
  | "(if xs ! i = u CHR ''h'' then scan_url U xs i else None) = None"
      "(if xs ! i = u CHR ''#'' then scan_hashtag U xs i else None) = None"
proof (cases "if xs ! i = u CHR ''h'' then scan_url U xs i else None")
  case (Some e)
  then show thesis using that(1) [OF Some] scan_url_gt [of U xs i e] by (auto split: if_splits)
next
  case no_url: None
  show thesis
  proof (cases "if xs ! i = u CHR ''#'' then scan_hashtag U xs i else None")
    case (Some te)
    obtain t e where te: "te = (t, e)" by (cases te)
    then have h: "scan_hashtag U xs i = Some (t, e)" "xs ! i = u CHR ''#''" using Some by (auto split: if_splits)
    then have "t = slice xs (i + 1) e" by (auto simp: scan_hashtag_def Let_def split: if_splits)
    then show thesis using that(2) [OF no_url] Some te scan_hashtag_gt [OF h(1)] h(2) by auto
  qed (use that(3) no_url in auto)
qed

lemma scan_while_gt: "i < scan_while P xs (i + 1)"
  using scan_while_ge [of "i + 1" P xs] by linarith

lemma scan_pair_gt: "i < scan_while Q xs (scan_while P xs (i + 1) + 1)"
  using scan_while_gt [of i P xs] scan_while_gt [of "scan_while P xs (i + 1)" Q xs] by linarith

lemma bsky_step_advances: "i < fst (bsky_step U E d xs i st)"
proof (cases rule: round_cases [where U = U and xs = xs and i = i])
  case other
  then show ?thesis using scan_while_gt [of i "name_char U" xs] scan_pair_gt [of i "domain_char U" xs "name_char U"] unfolding bsky_step_def Let_def by auto
qed (simp_all add: bsky_step_def Let_def)

lemma ap_step_advances: "i < fst (ap_step U E d xs i st)"
proof (cases rule: round_cases [where U = U and xs = xs and i = i])
  case other
  then show ?thesis using scan_while_gt [of i "name_char U" xs] scan_pair_gt [of i "domain_char U" xs "name_char U"] unfolding ap_step_def Let_def by auto
qed (simp_all add: ap_step_def Let_def)

function bsky_loop ::
  "unicode \<Rightarrow> mention_env \<Rightarrow> string \<Rightarrow> uchar list \<Rightarrow> nat \<Rightarrow> string \<times> bsky_facet list \<Rightarrow> string \<times> bsky_facet list" where
  "bsky_loop U E local_domain xs i st =
     (if i < length xs then
        (case bsky_step U E local_domain xs i st of (j, st') \<Rightarrow> bsky_loop U E local_domain xs j st')
      else st)"
  by pat_completeness auto
termination
proof (relation "measure (\<lambda>(U, E, d, xs, i, st). length xs - i)")
  fix U E d xs i st x y
  assume "i < length xs" "(x, y) = bsky_step U E d xs i st"
  then show "((U, E, d, xs, x, y), U, E, d, xs, i, st) \<in> measure (\<lambda>(U, E, d, xs, i, st). length xs - i)"
    using bsky_step_advances [of i U E d xs st] by (cases "bsky_step U E d xs i st") auto
qed simp

function ap_loop ::
  "unicode \<Rightarrow> mention_env \<Rightarrow> string \<Rightarrow> uchar list \<Rightarrow> nat \<Rightarrow> string \<times> ap_inline_mention list
     \<Rightarrow> string \<times> ap_inline_mention list" where
  "ap_loop U E local_domain xs i st =
     (if i < length xs then
        (case ap_step U E local_domain xs i st of (j, st') \<Rightarrow> ap_loop U E local_domain xs j st')
      else st)"
  by pat_completeness auto
termination
proof (relation "measure (\<lambda>(U, E, d, xs, i, st). length xs - i)")
  fix U E d xs i st x y
  assume "i < length xs" "(x, y) = ap_step U E d xs i st"
  then show "((U, E, d, xs, x, y), U, E, d, xs, i, st) \<in> measure (\<lambda>(U, E, d, xs, i, st). length xs - i)"
    using ap_step_advances [of i U E d xs st] by (cases "ap_step U E d xs i st") auto
qed simp

declare bsky_loop.simps [simp del] ap_loop.simps [simp del]

definition convert_mentions_for_bsky ::
  "unicode \<Rightarrow> mention_env \<Rightarrow> uchar list \<Rightarrow> string \<Rightarrow> string \<times> bsky_facet list" where
  "convert_mentions_for_bsky U E txt local_domain = bsky_loop U E local_domain txt 0 ([], [])"

definition convert_mentions_for_ap ::
  "unicode \<Rightarrow> mention_env \<Rightarrow> uchar list \<Rightarrow> string \<Rightarrow> string \<times> ap_inline_mention list" where
  "convert_mentions_for_ap U E txt local_domain = ap_loop U E local_domain txt 0 ([], [])"

fun span_tag_json :: "ap_inline_mention \<Rightarrow> json option" where
  "span_tag_json m = (case am_kind m of
      Span_Mention \<Rightarrow> Some (JObject [(''type'', JString ''Mention''), (''href'', JString (am_href m)), (''name'', JString (am_name m))])
    | Span_Hashtag \<Rightarrow> Some (JObject [(''type'', JString ''Hashtag''), (''href'', JString (am_href m)), (''name'', JString (am_name m))])
    | Span_Link \<Rightarrow> None)"

definition ap_inline_mentions_to_tag_json :: "ap_inline_mention list \<Rightarrow> json list" where
  "ap_inline_mentions_to_tag_json mentions = List.map_filter span_tag_json mentions"

section \<open>Extraction\<close>

record mention_token =
  mt_position :: nat
  mt_username :: string
  mt_domain :: "string option"

text \<open>One round of \<open>scan_mention_tokens\<close>: the next position and the token found, with where it stands.\<close>

definition token_step :: "unicode \<Rightarrow> uchar list \<Rightarrow> nat \<Rightarrow> nat \<times> mention_token list" where
  "token_step U xs i =
     (let ch = xs ! i in
      case (if ch = u CHR ''h'' then scan_url U xs i else None) of
        Some e \<Rightarrow> (e, [])
      | None \<Rightarrow>
      case (if ch = u CHR ''#'' then scan_hashtag U xs i else None) of
        Some (_, e) \<Rightarrow> (e, [])
      | None \<Rightarrow>
      if ch \<noteq> u CHR ''@'' then (i + 1, [])
      else if 0 < i \<and> ascii_word (xs ! (i - 1)) then (i + 1, [])
      else
        (let name_end = scan_while (name_char U) xs (i + 1) in
         if name_end = i + 1 then (name_end, [])
         else
           (let username = to_str (slice xs (i + 1) name_end) in
            if name_end < length xs \<and> xs ! name_end = u CHR ''@'' then
              (let domain_end = scan_while (domain_char U) xs (name_end + 1) in
               (domain_end, [\<lparr>mt_position = i, mt_username = username,
                  mt_domain = Some (to_str (slice xs (name_end + 1) domain_end))\<rparr>]))
            else (name_end, [\<lparr>mt_position = i, mt_username = username, mt_domain = None\<rparr>]))))"

lemma token_step_advances: "i < fst (token_step U xs i)"
proof (cases rule: round_cases [where U = U and xs = xs and i = i])
  case other
  then show ?thesis using scan_while_gt [of i "name_char U" xs] scan_pair_gt [of i "domain_char U" xs "name_char U"] unfolding token_step_def Let_def by auto
qed (simp_all add: token_step_def Let_def)

function token_loop :: "unicode \<Rightarrow> uchar list \<Rightarrow> nat \<Rightarrow> mention_token list \<Rightarrow> mention_token list" where
  "token_loop U xs i tokens =
     (if i < length xs then (case token_step U xs i of (j, found) \<Rightarrow> token_loop U xs j (tokens @ found)) else tokens)"
  by pat_completeness auto
termination
proof (relation "measure (\<lambda>(U, xs, i, tokens). length xs - i)")
  fix U xs i tokens x y
  assume "i < length xs" "(x, y) = token_step U xs i"
  then show "((U, xs, x, tokens @ y), U, xs, i, tokens) \<in> measure (\<lambda>(U, xs, i, tokens). length xs - i)"
    using token_step_advances [of i U xs] by (cases "token_step U xs i") auto
qed simp

declare token_loop.simps [simp del]

definition scan_mention_tokens :: "unicode \<Rightarrow> uchar list \<Rightarrow> mention_token list" where
  "scan_mention_tokens U xs = token_loop U xs 0 []"

definition token_local_username :: "string \<Rightarrow> mention_token \<Rightarrow> string option" where
  "token_local_username local_domain t = (case mt_domain t of
      Some domain \<Rightarrow> (if eq_ignore_ascii_case domain local_domain then Some (mt_username t) else None)
    | None \<Rightarrow> (if is_atproto_handle_like (mt_username t) then strip_suffix (mt_username t) (''.'' @ local_domain)
               else Some (mt_username t)))"

text \<open>\<open>if seen.insert(x) { result.push(x) }\<close>.\<close>

fun push_new :: "'a \<Rightarrow> 'a list \<Rightarrow> 'a list" where
  "push_new x xs = (if x \<in> set xs then xs else xs @ [x])"

definition extract_local_mention_actor_ids :: "unicode \<Rightarrow> mention_env \<Rightarrow> uchar list \<Rightarrow> string \<Rightarrow> int list" where
  "extract_local_mention_actor_ids U E txt local_domain =
     fold (\<lambda>t ids. case token_local_username local_domain t of
         Some username \<Rightarrow> (case get_local_actor_id E (mt_position t) username of Some i \<Rightarrow> push_new i ids | None \<Rightarrow> ids)
       | None \<Rightarrow> ids) (scan_mention_tokens U txt) []"

datatype remote_mention_handle = Fedi_Handle string string | Atproto_Handle string

definition token_remote_handle :: "string \<Rightarrow> mention_token \<Rightarrow> remote_mention_handle option" where
  "token_remote_handle local_domain t = (case mt_domain t of
      Some domain \<Rightarrow> (if domain \<noteq> [] \<and> \<not> eq_ignore_ascii_case domain local_domain
                      then Some (Fedi_Handle (mt_username t) domain) else None)
    | None \<Rightarrow> (if is_atproto_handle_like (mt_username t)
                  \<and> strip_suffix (to_ascii_lowercase (mt_username t)) (''.'' @ to_ascii_lowercase local_domain) = None
               then Some (Atproto_Handle (mt_username t)) else None))"

definition extract_remote_mention_handles :: "unicode \<Rightarrow> uchar list \<Rightarrow> string \<Rightarrow> remote_mention_handle list" where
  "extract_remote_mention_handles U txt local_domain =
     fold (\<lambda>t hs. case token_remote_handle local_domain t of Some h \<Rightarrow> push_new h hs | None \<Rightarrow> hs)
       (scan_mention_tokens U txt) []"

text \<open>\<open>hashtag.rs\<close>.\<close>

definition hashtag_step :: "unicode \<Rightarrow> uchar list \<Rightarrow> nat \<Rightarrow> uchar list list \<Rightarrow> nat \<times> uchar list list" where
  "hashtag_step U xs i result =
     (if xs ! i = u CHR ''#'' \<and> (i = 0 \<or> \<not> tag_blocked (xs ! (i - 1))) then
        (let start = i + 1; j = scan_while (tag_char U) xs start in
         if start < j then
           (let raw = slice xs start j in
            (j, if list_ex (is_alphabetic U) raw then push_new (to_lowercase U raw) result else result))
         else (i + 1, result))
      else (i + 1, result))"

function hashtag_loop :: "unicode \<Rightarrow> uchar list \<Rightarrow> nat \<Rightarrow> uchar list list \<Rightarrow> uchar list list" where
  "hashtag_loop U xs i result =
     (if i < length xs then (case hashtag_step U xs i result of (j, result') \<Rightarrow> hashtag_loop U xs j result') else result)"
  by pat_completeness auto
termination
proof (relation "measure (\<lambda>(U, xs, i, result). length xs - i)")
  fix U xs i result x y
  assume "i < length xs" "(x, y) = hashtag_step U xs i result"
  then show "((U, xs, x, y), U, xs, i, result) \<in> measure (\<lambda>(U, xs, i, result). length xs - i)"
    by (auto simp: hashtag_step_def Let_def split: if_splits)
qed simp

declare hashtag_loop.simps [simp del]

definition extract_hashtags :: "unicode \<Rightarrow> uchar list \<Rightarrow> uchar list list" where
  "extract_hashtags U txt = hashtag_loop U txt 0 []"

section \<open>Spans of the result\<close>

text \<open>
  \<open>span_of\<close> is the byte range of a facet, \<open>text_ok\<close> what the text there must be: the ranges are in order,
  disjoint and not empty, and each shows its text.
\<close>

definition well_spanned :: "('f \<Rightarrow> nat \<times> nat) \<Rightarrow> ('f \<Rightarrow> string \<Rightarrow> bool) \<Rightarrow> string \<times> 'f list \<Rightarrow> bool" where
  "well_spanned span_of text_ok st = (case st of (res, fs) \<Rightarrow>
     spans_within 0 (length res) (map (\<lambda>f. (fst (span_of f), snd (span_of f), f)) fs)
     \<and> list_all (\<lambda>f. text_ok f (slice res (fst (span_of f)) (snd (span_of f)))) fs)"

lemma well_spanned_start: "well_spanned span_of text_ok ([], [])"
  by (simp add: well_spanned_def)

lemma spans_within_member: "spans_within lo hi spans \<Longrightarrow> (a, b, r) \<in> set spans \<Longrightarrow> b \<le> hi"
  by (induction lo hi spans rule: spans_within.induct) (auto dest: spans_within_le)

lemma slice_append_left: "b \<le> length res \<Longrightarrow> slice (res @ s) a b = slice res a b"
  by (simp add: slice_def drop_take [symmetric])

lemma well_spanned_old:
  assumes "well_spanned span_of text_ok (res, fs)"
  shows "list_all (\<lambda>f. text_ok f (slice (res @ s) (fst (span_of f)) (snd (span_of f)))) fs"
  using assms spans_within_member
  by (fastforce simp: well_spanned_def list_all_iff slice_append_left)

lemma well_spanned_plain [simp]:
  assumes "well_spanned span_of text_ok st"
  shows "well_spanned span_of text_ok (push_plain s st)"
proof -
  obtain res fs where st: "st = (res, fs)" by (cases st)
  show ?thesis using assms well_spanned_old [of span_of text_ok res fs s] unfolding st
    by (auto simp: push_plain_def well_spanned_def intro: spans_within_mono)
qed

lemma well_spanned_with:
  assumes "well_spanned span_of text_ok st" "s \<noteq> []"
    and "\<And>a b x. target = Some x \<Longrightarrow> span_of (mk a b x) = (a, b) \<and> text_ok (mk a b x) s"
  shows "well_spanned span_of text_ok (push_with mk s target st)"
proof -
  obtain res fs where st: "st = (res, fs)" by (cases st)
  show ?thesis
  proof (cases target)
    case None
    then show ?thesis using well_spanned_plain [OF assms(1), of s] by (simp add: push_with_def push_plain_def st)
  next
    case (Some x)
    then show ?thesis
      using assms(1,2) assms(3) [OF Some] well_spanned_old [of span_of text_ok res fs s] unfolding st
      by (auto simp: push_with_def well_spanned_def slice_def intro: spans_within_snoc)
  qed
qed

lemma encode_char_nonempty [simp]: "encode_char c \<noteq> []"
  by (simp add: encode_char_def)

lemma to_str_append [simp]: "to_str (xs @ ys) = to_str xs @ to_str ys"
  by (simp add: to_str_def)

lemma to_str_empty_iff [simp]: "to_str xs = [] \<longleftrightarrow> xs = []"
  by (cases xs) (simp_all add: to_str_def)

lemma slice_Cons: "i < e \<Longrightarrow> i < length xs \<Longrightarrow> slice xs i e = xs ! i # slice xs (i + 1) e"
  by (simp add: slice_def Cons_nth_drop_Suc [symmetric] take_Cons')

lemma scan_while_le: "i \<le> length xs \<Longrightarrow> scan_while P xs i \<le> length xs"
  by (induction P xs i rule: scan_while.induct) (subst scan_while.simps, auto)

definition bsky_span :: "bsky_facet \<Rightarrow> nat \<times> nat" where
  "bsky_span f = (byte_start (facet_index f), byte_end (facet_index f))"

text \<open>
  What a facet may stand for, and the text it then covers: an at sign opens a mention unless an ASCII word ends in front
  of it; the name behind it goes on as long as it can, and so does the domain behind a second at sign.
\<close>

definition name_at :: "unicode \<Rightarrow> uchar list \<Rightarrow> nat \<Rightarrow> string \<Rightarrow> nat \<Rightarrow> bool" where
  "name_at U xs i name e \<longleftrightarrow> i < length xs \<and> xs ! i = u CHR ''@'' \<and> \<not> (0 < i \<and> ascii_word (xs ! (i - 1)))
     \<and> e = scan_while (name_char U) xs (i + 1) \<and> i + 1 < e \<and> name = to_str (slice xs (i + 1) e)"

definition plain_mention :: "unicode \<Rightarrow> uchar list \<Rightarrow> nat \<Rightarrow> string \<Rightarrow> bool" where
  "plain_mention U xs i name \<longleftrightarrow> (\<exists>e. name_at U xs i name e \<and> \<not> (e < length xs \<and> xs ! e = u CHR ''@''))"

definition fedi_mention :: "unicode \<Rightarrow> uchar list \<Rightarrow> nat \<Rightarrow> string \<Rightarrow> string \<Rightarrow> bool" where
  "fedi_mention U xs i name dmn \<longleftrightarrow> (\<exists>e d. name_at U xs i name e \<and> e < length xs \<and> xs ! e = u CHR ''@''
     \<and> d = scan_while (domain_char U) xs (e + 1) \<and> e + 1 < d \<and> dmn = to_str (slice xs (e + 1) d))"

inductive stands_for ::
  "unicode \<Rightarrow> mention_env \<Rightarrow> string \<Rightarrow> uchar list \<Rightarrow> facet_feature \<Rightarrow> string \<Rightarrow> bool" for U E local_domain xs where
  url: "i < length xs \<Longrightarrow> scan_url U xs i = Some e \<Longrightarrow> s = to_str (slice xs i e) \<Longrightarrow>
     stands_for U E local_domain xs (Facet_Link s ''app.bsky.richtext.facet#link'') s"
| tag: "i < length xs \<Longrightarrow> xs ! i = u CHR ''#'' \<Longrightarrow> scan_hashtag U xs i = Some (t, e) \<Longrightarrow>
     stands_for U E local_domain xs (Facet_Tag (to_str t) ''app.bsky.richtext.facet#tag'') (''#'' @ to_str t)"
| own_user: "fedi_mention U xs i name dmn \<Longrightarrow> eq_ignore_ascii_case dmn local_domain \<Longrightarrow> get_local_actor_did E i name = Some did \<Longrightarrow>
     stands_for U E local_domain xs (Facet_Mention did ''app.bsky.richtext.facet#mention'') (''@'' @ name @ ''.'' @ local_domain)"
| bridged: "fedi_mention U xs i name dmn \<Longrightarrow> \<not> eq_ignore_ascii_case dmn local_domain \<Longrightarrow>
     resolve_fedi_for_bsky E i name dmn = Some (handle, Some did) \<Longrightarrow>
     stands_for U E local_domain xs (Facet_Mention did ''app.bsky.richtext.facet#mention'') (''@'' @ handle)"
| not_bridged: "fedi_mention U xs i name dmn \<Longrightarrow> \<not> eq_ignore_ascii_case dmn local_domain \<Longrightarrow>
     resolve_fedi_for_bsky E i name dmn = None \<Longrightarrow>
     uri = (case get_fedi_actor_home_url E i name dmn of Some home \<Rightarrow> home | None \<Rightarrow> ''https://'' @ local_domain @ ''/@'' @ name @ ''@'' @ dmn) \<Longrightarrow>
     stands_for U E local_domain xs (Facet_Link uri ''app.bsky.richtext.facet#link'') (''@'' @ name @ ''@'' @ dmn)"
| own_handle: "plain_mention U xs i name \<Longrightarrow> is_atproto_handle_like name \<Longrightarrow> strip_suffix name (''.'' @ local_domain) = Some user \<Longrightarrow>
     get_local_actor_did E i user = Some did \<Longrightarrow>
     stands_for U E local_domain xs (Facet_Mention did ''app.bsky.richtext.facet#mention'') (''@'' @ name)"
| handle: "plain_mention U xs i name \<Longrightarrow> is_atproto_handle_like name \<Longrightarrow> strip_suffix name (''.'' @ local_domain) = None \<Longrightarrow>
     resolve_bsky_handle_did E i name = Some did \<Longrightarrow>
     stands_for U E local_domain xs (Facet_Mention did ''app.bsky.richtext.facet#mention'') (''@'' @ name)"
| local_name: "plain_mention U xs i name \<Longrightarrow> \<not> is_atproto_handle_like name \<Longrightarrow> is_local_actor E i name \<Longrightarrow>
     get_local_actor_did E i name = Some did \<Longrightarrow>
     stands_for U E local_domain xs (Facet_Mention did ''app.bsky.richtext.facet#mention'') (''@'' @ name @ ''.'' @ local_domain)"

definition bsky_shows :: "unicode \<Rightarrow> mention_env \<Rightarrow> string \<Rightarrow> uchar list \<Rightarrow> bsky_facet \<Rightarrow> string \<Rightarrow> bool" where
  "bsky_shows U E local_domain xs f s \<longleftrightarrow> (\<exists>ft. facet_features f = [ft] \<and> stands_for U E local_domain xs ft s)"

definition ap_span :: "ap_inline_mention \<Rightarrow> nat \<times> nat" where
  "ap_span m = (am_start m, am_end m)"

definition ap_shows :: "ap_inline_mention \<Rightarrow> string \<Rightarrow> bool" where
  "ap_shows m s \<longleftrightarrow> s = am_name m"

lemmas make_facet_defs = make_tag_facet_def make_mention_facet_def make_link_facet_def make_facet_def
  bsky_span_def bsky_shows_def

lemma bsky_name_mention_spans:
  assumes "well_spanned bsky_span (bsky_shows U E d xs) st" "plain_mention U xs i name"
  shows "well_spanned bsky_span (bsky_shows U E d xs) (bsky_name_mention E d i name st)"
  using assms unfolding bsky_name_mention_def
  by (auto simp: make_facet_defs intro!: well_spanned_with dest: own_handle [where E = E] handle [where E = E] local_name [where E = E]
      split: option.splits)

lemma bsky_fedi_mention_spans:
  assumes "well_spanned bsky_span (bsky_shows U E d xs) st" "fedi_mention U xs i name dmn"
  shows "well_spanned bsky_span (bsky_shows U E d xs) (bsky_fedi_mention E d i name dmn st)"
  using assms not_bridged [OF assms(2) _ _ refl, of d E] unfolding bsky_fedi_mention_def
  by (cases "get_fedi_actor_home_url E i name dmn")
     (auto simp: make_facet_defs intro!: well_spanned_with dest: own_user [where E = E] bridged [where E = E] split: option.split prod.split)

lemma bsky_step_spans:
  assumes "well_spanned bsky_span (bsky_shows U E d xs) st" "i < length xs"
  shows "well_spanned bsky_span (bsky_shows U E d xs) (snd (bsky_step U E d xs i st))"
proof (cases rule: round_cases [where U = U and xs = xs and i = i])
  case (url e)
  then have "stands_for U E d xs (Facet_Link (to_str (slice xs i e)) ''app.bsky.richtext.facet#link'') (to_str (slice xs i e))"
    by (intro stands_for.url [OF assms(2)]) simp_all
  then show ?thesis using assms url
    by (simp add: bsky_step_def Let_def) (auto simp: make_facet_defs slice_empty_iff intro!: well_spanned_with)
next
  case (tag t e)
  then have "stands_for U E d xs (Facet_Tag (to_str t) ''app.bsky.richtext.facet#tag'') (''#'' @ to_str t)"
    by (intro stands_for.tag [OF assms(2)]) simp_all
  then show ?thesis using assms(1) tag
    by (simp add: bsky_step_def Let_def) (auto simp: make_facet_defs intro!: well_spanned_with)
next
  case other
  define e where "e = scan_while (name_char U) xs (i + 1)"
  define dmn_end where "dmn_end = scan_while (domain_char U) xs (e + 1)"
  define name where "name = to_str (slice xs (i + 1) e)"
  define dmn where "dmn = to_str (slice xs (e + 1) dmn_end)"
  define at where "at \<longleftrightarrow> xs ! i = u CHR ''@'' \<and> \<not> (0 < i \<and> ascii_word (xs ! (i - 1))) \<and> e \<noteq> i + 1"
  define second where "second \<longleftrightarrow> e < length xs \<and> xs ! e = u CHR ''@''"
  have name: "name_at U xs i name e" if at
    using that assms(2) scan_while_ge [of "i + 1" "name_char U" xs] by (simp add: name_at_def at_def e_def name_def)
  have "plain_mention U xs i name" if at "\<not> second"
    using name that unfolding plain_mention_def second_def by blast
  moreover have "fedi_mention U xs i name dmn" if at second "dmn_end \<noteq> e + 1"
  proof -
    have "e + 1 < dmn_end" using that(3) scan_while_ge [of "e + 1" "domain_char U" xs] by (simp add: dmn_end_def)
    then show ?thesis using name that(1,2) unfolding fedi_mention_def second_def dmn_def dmn_end_def by blast
  qed
  moreover have "snd (bsky_step U E d xs i st) = (if xs ! i \<noteq> u CHR ''@'' then push_plain (encode_char (xs ! i)) st
      else if \<not> at then push_plain ''@'' st
      else if \<not> second then bsky_name_mention E d i name st
      else if dmn_end = e + 1 then push_plain (''@'' @ name @ ''@'') st else bsky_fedi_mention E d i name dmn st)"
    unfolding bsky_step_def Let_def other option.case e_def [symmetric] dmn_end_def [symmetric] name_def [symmetric] dmn_def [symmetric]
      at_def second_def by simp
  ultimately show ?thesis using bsky_name_mention_spans [OF assms(1)] bsky_fedi_mention_spans [OF assms(1)] well_spanned_plain [OF assms(1)]
    by simp
qed

lemma bsky_loop_spans:
  "well_spanned bsky_span (bsky_shows U E d xs) st \<Longrightarrow> well_spanned bsky_span (bsky_shows U E d xs) (bsky_loop U E d xs i st)"
proof (induction U E d xs i st rule: bsky_loop.induct)
  case (1 U E d xs i st)
  obtain j st' where step: "bsky_step U E d xs i st = (j, st')" by (cases "bsky_step U E d xs i st")
  show ?case
  proof (cases "i < length xs")
    case True
    have "well_spanned bsky_span (bsky_shows U E d xs) (bsky_loop U E d xs j st')"
      using "1.IH" [OF True step [symmetric]] bsky_step_spans [OF "1.prems" True] step by simp
    then show ?thesis by (subst bsky_loop.simps) (use True step in simp)
  qed (use 1 in \<open>simp add: bsky_loop.simps [of U E d xs i]\<close>)
qed

lemma ap_name_mention_spans:
  "well_spanned ap_span ap_shows st \<Longrightarrow> name \<noteq> [] \<Longrightarrow> well_spanned ap_span ap_shows (ap_name_mention E d i name st)"
  by (auto simp: ap_name_mention_def Let_def make_span_def ap_span_def ap_shows_def intro!: well_spanned_with
      split: option.split)

lemma ap_step_spans:
  assumes "well_spanned ap_span ap_shows st" "i < length xs"
  shows "well_spanned ap_span ap_shows (snd (ap_step U E d xs i st))"
proof (cases rule: round_cases [where U = U and xs = xs and i = i])
  case (url e)
  then show ?thesis using assms
    by (simp add: ap_step_def Let_def) (auto simp: make_span_def ap_span_def ap_shows_def slice_empty_iff intro!: well_spanned_with)
next
  case (tag t e)
  then show ?thesis using assms(1)
    by (simp add: ap_step_def Let_def) (auto simp: make_span_def ap_span_def ap_shows_def intro!: well_spanned_with)
next
  case other
  have pushed: "well_spanned ap_span ap_shows (push_with (make_span k (''@'' @ name)) (''@'' @ name) t st)" for k name t
    using assms(1) by (intro well_spanned_with) (auto simp: make_span_def ap_span_def ap_shows_def)
  have named: "scan_while (name_char U) xs (i + 1) \<noteq> i + 1
      \<Longrightarrow> well_spanned ap_span ap_shows (ap_name_mention E d i (to_str (slice xs (i + 1) (scan_while (name_char U) xs (i + 1)))) st)"
    using ap_name_mention_spans [OF assms(1)] scan_while_nonempty [of "name_char U" xs "i + 1"] by simp
  show ?thesis unfolding ap_step_def Let_def other
    using named assms(1) pushed by (auto simp del: append_Cons append_Nil)
qed

lemma ap_loop_spans:
  "well_spanned ap_span ap_shows st \<Longrightarrow> well_spanned ap_span ap_shows (ap_loop U E d xs i st)"
proof (induction U E d xs i st rule: ap_loop.induct)
  case (1 U E d xs i st)
  obtain j st' where step: "ap_step U E d xs i st = (j, st')" by (cases "ap_step U E d xs i st")
  show ?case
  proof (cases "i < length xs")
    case True
    have "well_spanned ap_span ap_shows (ap_loop U E d xs j st')"
      using "1.IH" [OF True step [symmetric]] ap_step_spans [OF "1.prems" True, of U E d] step by simp
    then show ?thesis by (subst ap_loop.simps) (use True step in simp)
  qed (use 1 in \<open>simp add: ap_loop.simps [of U E d xs i]\<close>)
qed

section \<open>Text without mentions\<close>

text \<open>Where the text has no mention, a round copies the text it has read.\<close>

lemma to_str_slice_split: "i \<le> j \<Longrightarrow> to_str (drop i xs) = to_str (slice xs i j) @ to_str (drop j xs)"
  using slice_drop [of i j xs] to_str_append by metis

lemma url_text: "to_str (slice xs i (i + 1)) = encode_char (xs ! i)" if "i < length xs"
  using that by (simp add: slice_def to_str_def take_Suc_conv_app_nth Cons_nth_drop_Suc [symmetric])

lemma encode_ascii: "u c < 128 \<Longrightarrow> encode_char (u c) = [c]"
  by (simp add: encode_char_def u_def)

lemma tag_text: "i < e \<Longrightarrow> i < length xs \<Longrightarrow> xs ! i = u CHR ''#'' \<Longrightarrow> to_str (slice xs i e) = ''#'' @ to_str (slice xs (i + 1) e)"
  using encode_ascii [of "CHR ''#''"] by (simp add: u_def slice_Cons to_str_def)

lemma bsky_step_copies:
  assumes "i < length xs" "xs ! i \<noteq> u CHR ''@''"
  shows "fst (snd (bsky_step U E d xs i st)) = fst st @ to_str (slice xs i (fst (bsky_step U E d xs i st)))"
proof (cases rule: round_cases [where U = U and xs = xs and i = i])
  case (tag t e)
  then show ?thesis using assms by (simp add: bsky_step_def Let_def push_with_def tag_text split: prod.split)
qed (use assms in \<open>simp_all add: bsky_step_def Let_def push_with_def push_plain_def url_text [simplified] split: prod.split\<close>)

lemma bsky_loop_copies:
  "list_all (\<lambda>c. c \<noteq> u CHR ''@'') xs \<Longrightarrow> fst (bsky_loop U E d xs i st) = fst st @ to_str (drop i xs)"
proof (induction U E d xs i st rule: bsky_loop.induct)
  case (1 U E d xs i st)
  obtain j st' where step: "bsky_step U E d xs i st = (j, st')" by (cases "bsky_step U E d xs i st")
  show ?case
  proof (cases "i < length xs")
    case True
    have "fst st' = fst st @ to_str (slice xs i j)"
      using bsky_step_copies [OF True, of U E d st] step "1.prems" True by (simp add: list_all_length)
    moreover have "fst (bsky_loop U E d xs j st') = fst st' @ to_str (drop j xs)"
      using "1.IH" [OF True step [symmetric]] "1.prems" by simp
    ultimately have "fst (bsky_loop U E d xs j st') = fst st @ to_str (drop i xs)"
      using to_str_slice_split [of i j xs] bsky_step_advances [of i U E d xs st] step by simp
    then show ?thesis by (subst bsky_loop.simps) (use True step in simp)
  qed (simp add: bsky_loop.simps [of U E d xs i])
qed

lemma span_tags_are_named:
  "map (\<lambda>t. json_get t ''name'') (ap_inline_mentions_to_tag_json spans)
     = map (\<lambda>m. Some (JString (am_name m))) (filter (\<lambda>m. am_kind m \<noteq> Span_Link) spans)"
  by (induction spans)
    (auto simp: ap_inline_mentions_to_tag_json_def map_filter_simps split: ap_span_kind.splits)

section \<open>Hashtags of URLs\<close>

text \<open>
  The stored hashtags are looked for in URLs too, where the facets and the spans have a link: a hashtag
  character behind a question mark is a fragment of the URL for one and a hashtag for the other.
\<close>

definition ascii :: unicode where
  "ascii = \<lparr>is_alphanumeric = (\<lambda>c. ascii_word c \<and> c \<noteq> 95), is_alphabetic = (\<lambda>c. ascii_word c \<and> 57 < c \<and> c \<noteq> 95),
     is_whitespace = (\<lambda>c. c = 32), to_lowercase = map (\<lambda>c. if 65 \<le> c \<and> c \<le> 90 then c + 32 else c)\<rparr>"

lemma url_fragment_is_a_stored_hashtag:
  "extract_hashtags ascii (map u ''http://x/?#foo'') = [map u ''foo''] \<and> scan_url ascii (map u ''http://x/?#foo'') 0 = Some 14"
  by (simp add: extract_hashtags_def hashtag_loop.simps hashtag_step_def Let_def tag_blocked_def ascii_word_def u_def
      scan_while.simps tag_char_def ascii_def slice_def scan_url_def chars_start_with_def url_char_def)

section \<open>The converted text\<close>

text \<open>
  C30. What is sent to the AT network: the facets are in the order of the text, disjoint and within it, counted in
  bytes of UTF-8, and each covers the whole of what it stands for and nothing else: a link facet its URL, or the
  user and domain of a mention that has no handle; a hashtag facet its own tag behind the number sign; a mention facet
  the at sign and the whole handle that the account with its DID was found under, for a mention written in
  the text. A text without an at sign is sent unchanged.
\<close>

theorem bsky_facets_well_placed:
  "well_spanned bsky_span (bsky_shows U E local_domain txt) (convert_mentions_for_bsky U E txt local_domain)
    \<and> (if list_all (\<lambda>c. c \<noteq> u CHR ''@'') txt
       then fst (convert_mentions_for_bsky U E txt local_domain) = to_str txt else True)"
  using bsky_loop_spans [OF well_spanned_start, of U E local_domain "txt" 0]
    bsky_loop_copies [of "txt" U E local_domain 0 "([], [])"]
  by (simp add: convert_mentions_for_bsky_def)

text \<open>
  What is sent over ActivityPub: the spans are in the order of the text, disjoint and within it, each
  shows the name it is sent with, and the tags are exactly the mentions and hashtags among them.
\<close>

theorem ap_spans_show_their_names:
  "well_spanned ap_span ap_shows (convert_mentions_for_ap U E txt local_domain)
    \<and> (let spans = snd (convert_mentions_for_ap U E txt local_domain) in
       map (\<lambda>t. json_get t ''name'') (ap_inline_mentions_to_tag_json spans)
         = map (\<lambda>m. Some (JString (am_name m))) (filter (\<lambda>m. am_kind m \<noteq> Span_Link) spans))"
  using ap_loop_spans [OF well_spanned_start, of U E local_domain "txt" 0] span_tags_are_named
  by (simp add: convert_mentions_for_ap_def Let_def)

end
