(* ===== verification/Follows.thy ===== *)
theory Follows
  imports Ipld
begin

text \<open>
  The follow table (\<open>crates/seiran-common/src/repository/follow.rs\<close>) and the trigger that keeps the counters
  of the actors (\<open>migrations/20260831000000_follows_count_trigger.sql\<close>). A statement is one atomic
  operation on the table; its failure is a matter of the callers. \<open>created_at\<close> and the profile columns
  that the listings join are left out, and a statement that conflicts does not use up an identity here.
\<close>

type_synonym actor_id = int

datatype follow_status = Pending | Accepted

record follow_row =
  follow_id :: int
  follower_actor_id :: actor_id
  target_actor_id :: actor_id
  status :: follow_status
  atp_rkey :: "string option"
  pending_follow_activity :: "json option"

record follow_db =
  follows :: "follow_row list"
  next_follow_id :: int
  following_count :: "actor_id \<Rightarrow> nat"
  followers_count :: "actor_id \<Rightarrow> nat"

definition empty_follow_db :: follow_db where
  "empty_follow_db = \<lparr>follows = [], next_follow_id = 1, following_count = (\<lambda>_. 0), followers_count = (\<lambda>_. 0)\<rparr>"

definition of_pair :: "actor_id \<Rightarrow> actor_id \<Rightarrow> follow_row \<Rightarrow> bool" where
  "of_pair f t r \<longleftrightarrow> follower_actor_id r = f \<and> target_actor_id r = t"

section \<open>The trigger\<close>

text \<open>\<open>follows_sync_counts\<close>: both counters of the pair are counted anew.\<close>

definition count_following :: "actor_id \<Rightarrow> follow_row list \<Rightarrow> nat" where
  "count_following f rows = length (filter (\<lambda>r. follower_actor_id r = f \<and> status r = Accepted) rows)"

definition count_followers :: "actor_id \<Rightarrow> follow_row list \<Rightarrow> nat" where
  "count_followers t rows = length (filter (\<lambda>r. target_actor_id r = t \<and> status r = Accepted) rows)"

definition follows_sync_counts :: "actor_id \<Rightarrow> actor_id \<Rightarrow> follow_db \<Rightarrow> follow_db" where
  "follows_sync_counts f t db =
     db\<lparr>following_count := (following_count db)(f := count_following f (follows db)),
        followers_count := (followers_count db)(t := count_followers t (follows db))\<rparr>"

section \<open>Statements\<close>

definition find_row :: "actor_id \<Rightarrow> actor_id \<Rightarrow> follow_db \<Rightarrow> follow_row option" where
  "find_row f t db = find (of_pair f t) (follows db)"

definition insert_row ::
  "actor_id \<Rightarrow> actor_id \<Rightarrow> follow_status \<Rightarrow> string option \<Rightarrow> json option \<Rightarrow> follow_db \<Rightarrow> follow_db" where
  "insert_row f t st rkey act db =
     follows_sync_counts f t
       (db\<lparr>follows := follows db @ [\<lparr>follow_id = next_follow_id db, follower_actor_id = f, target_actor_id = t,
             status = st, atp_rkey = rkey, pending_follow_activity = act\<rparr>],
           next_follow_id := next_follow_id db + 1\<rparr>)"

text \<open>\<open>UPDATE follows SET ... WHERE\<close> the pair, and the condition: the number of rows changed. The trigger fires for them.\<close>

definition update_rows :: "actor_id \<Rightarrow> actor_id \<Rightarrow> (follow_row \<Rightarrow> bool) \<Rightarrow> (follow_row \<Rightarrow> follow_row) \<Rightarrow> follow_db \<Rightarrow> nat \<times> follow_db" where
  "update_rows f t P g db =
     (let hit = (\<lambda>r. of_pair f t r \<and> P r); n = length (filter hit (follows db)) in
      (n, if n = 0 then db
          else follows_sync_counts f t (db\<lparr>follows := map (\<lambda>r. if hit r then g r else r) (follows db)\<rparr>)))"

section \<open>The repository\<close>

datatype pending_follow_upsert = Inserted | AlreadyPending | AlreadyAccepted

text \<open>\<open>ON CONFLICT DO UPDATE SET status = follows.status\<close> leaves the row as it is; \<open>xmax = 0\<close> tells an insertion.\<close>

definition upsert_pending :: "actor_id \<Rightarrow> actor_id \<Rightarrow> follow_db \<Rightarrow> pending_follow_upsert \<times> follow_db" where
  "upsert_pending f t db = (case find_row f t db of
      None \<Rightarrow> (Inserted, insert_row f t Pending None None db)
    | Some r \<Rightarrow> (if status r = Accepted then AlreadyAccepted else AlreadyPending,
                 snd (update_rows f t (\<lambda>_. True) (\<lambda>r. r) db)))"

definition find_status :: "actor_id \<Rightarrow> actor_id \<Rightarrow> follow_db \<Rightarrow> follow_status option" where
  "find_status f t db = map_option status (find_row f t db)"

definition insert_accepted_with_rkey :: "actor_id \<Rightarrow> actor_id \<Rightarrow> string option \<Rightarrow> follow_db \<Rightarrow> bool \<times> follow_db" where
  "insert_accepted_with_rkey f t rkey db = (case find_row f t db of
      None \<Rightarrow> (True, insert_row f t Accepted rkey None db) | Some _ \<Rightarrow> (False, db))"

definition insert_accepted :: "actor_id \<Rightarrow> actor_id \<Rightarrow> follow_db \<Rightarrow> follow_db" where
  "insert_accepted f t db = (case find_row f t db of
      None \<Rightarrow> insert_row f t Accepted None None db | Some _ \<Rightarrow> db)"

definition insert_accepted_bsky :: "actor_id \<Rightarrow> actor_id \<Rightarrow> string \<Rightarrow> follow_db \<Rightarrow> bool \<times> follow_db" where
  "insert_accepted_bsky f t rkey db = (case find_row f t db of
      None \<Rightarrow> (True, insert_row f t Accepted (Some rkey) None db) | Some _ \<Rightarrow> (False, db))"

definition accept :: "actor_id \<Rightarrow> actor_id \<Rightarrow> follow_db \<Rightarrow> nat \<times> follow_db" where
  "accept f t db = update_rows f t (\<lambda>r. status r = Pending) (\<lambda>r. r\<lparr>status := Accepted\<rparr>) db"

text \<open>\<open>COALESCE($3, atp_rkey)\<close>: no new key leaves the old one.\<close>

definition accept_and_set_rkey :: "actor_id \<Rightarrow> actor_id \<Rightarrow> string option \<Rightarrow> follow_db \<Rightarrow> nat \<times> follow_db" where
  "accept_and_set_rkey f t rkey db =
     update_rows f t (\<lambda>r. status r = Pending)
       (\<lambda>r. r\<lparr>status := Accepted, atp_rkey := (case rkey of Some k \<Rightarrow> Some k | None \<Rightarrow> atp_rkey r)\<rparr>) db"

definition set_atp_rkey :: "actor_id \<Rightarrow> actor_id \<Rightarrow> string \<Rightarrow> follow_db \<Rightarrow> bool \<times> follow_db" where
  "set_atp_rkey f t rkey db =
     (case update_rows f t (\<lambda>_. True) (\<lambda>r. r\<lparr>atp_rkey := Some rkey\<rparr>) db of (n, db') \<Rightarrow> (0 < n, db'))"

definition delete_by_actors :: "actor_id \<Rightarrow> actor_id \<Rightarrow> follow_db \<Rightarrow> follow_db" where
  "delete_by_actors f t db =
     (if list_ex (of_pair f t) (follows db)
      then follows_sync_counts f t (db\<lparr>follows := filter (\<lambda>r. \<not> of_pair f t r) (follows db)\<rparr>)
      else db)"

definition find_atp_rkey :: "actor_id \<Rightarrow> actor_id \<Rightarrow> follow_db \<Rightarrow> string option" where
  "find_atp_rkey f t db = Option.bind (find_row f t db) atp_rkey"

definition upsert_pending_with_activity :: "actor_id \<Rightarrow> actor_id \<Rightarrow> json \<Rightarrow> follow_db \<Rightarrow> bool \<times> follow_db" where
  "upsert_pending_with_activity f t act db = (case find_row f t db of
      None \<Rightarrow> (True, insert_row f t Pending None (Some act) db)
    | Some _ \<Rightarrow> (False, snd (update_rows f t (\<lambda>_. True) (\<lambda>r. r\<lparr>status := Pending, pending_follow_activity := Some act\<rparr>) db)))"

definition find_pending_follow_activity :: "actor_id \<Rightarrow> actor_id \<Rightarrow> follow_db \<Rightarrow> json option" where
  "find_pending_follow_activity f t db = Option.bind (find_row f t db) pending_follow_activity"

text \<open>The listings; \<open>is_local\<close> is the actor type of the actors table.\<close>

definition find_statuses_among :: "actor_id \<Rightarrow> actor_id list \<Rightarrow> follow_db \<Rightarrow> (actor_id \<times> follow_status) list" where
  "find_statuses_among f candidates db =
     map (\<lambda>r. (target_actor_id r, status r))
       (filter (\<lambda>r. follower_actor_id r = f \<and> target_actor_id r \<in> set candidates) (follows db))"

definition find_statuses_by_followers_among :: "actor_id \<Rightarrow> actor_id list \<Rightarrow> follow_db \<Rightarrow> (actor_id \<times> follow_status) list" where
  "find_statuses_by_followers_among t candidates db =
     map (\<lambda>r. (follower_actor_id r, status r))
       (filter (\<lambda>r. target_actor_id r = t \<and> follower_actor_id r \<in> set candidates) (follows db))"

definition find_accepted_local_follower_ids :: "(actor_id \<Rightarrow> bool) \<Rightarrow> actor_id \<Rightarrow> follow_db \<Rightarrow> actor_id list" where
  "find_accepted_local_follower_ids is_local t db =
     map follower_actor_id (filter (\<lambda>r. target_actor_id r = t \<and> status r = Accepted \<and> is_local (follower_actor_id r)) (follows db))"

definition find_accepted_target_ids :: "actor_id \<Rightarrow> follow_db \<Rightarrow> actor_id list" where
  "find_accepted_target_ids f db =
     map target_actor_id (filter (\<lambda>r. follower_actor_id r = f \<and> status r = Accepted) (follows db))"

definition find_all_local_followers_with_status ::
  "(actor_id \<Rightarrow> bool) \<Rightarrow> actor_id \<Rightarrow> follow_db \<Rightarrow> (actor_id \<times> follow_status) list" where
  "find_all_local_followers_with_status is_local t db =
     map (\<lambda>r. (follower_actor_id r, status r)) (filter (\<lambda>r. target_actor_id r = t \<and> is_local (follower_actor_id r)) (follows db))"

definition follower_ids_of :: "actor_id \<Rightarrow> follow_db \<Rightarrow> actor_id list" where
  "follower_ids_of t db = map follower_actor_id (filter (\<lambda>r. target_actor_id r = t) (follows db))"

definition count_relations :: "actor_id \<Rightarrow> follow_db \<Rightarrow> nat \<times> nat" where
  "count_relations a db = (following_count db a, followers_count db a)"

definition count_pending :: "actor_id \<Rightarrow> follow_db \<Rightarrow> nat" where
  "count_pending t db = length (filter (\<lambda>r. target_actor_id r = t \<and> status r = Pending) (follows db))"

definition find_pending_followers_raw :: "actor_id \<Rightarrow> follow_db \<Rightarrow> (actor_id \<times> json option) list" where
  "find_pending_followers_raw t db =
     map (\<lambda>r. (follower_actor_id r, pending_follow_activity r))
       (filter (\<lambda>r. target_actor_id r = t \<and> status r = Pending) (follows db))"

text \<open>
  The pages of a profile (\<open>list_following\<close>, \<open>list_followers\<close>), newest first: \<open>shown\<close> tells whether the
  other actor of the row is shown to the viewer, which the actors table decides.
\<close>

definition page :: "(follow_row \<Rightarrow> bool) \<Rightarrow> nat \<Rightarrow> int option \<Rightarrow> int option \<Rightarrow> follow_db \<Rightarrow> follow_row list" where
  "page P limit until_id since_id db =
     take limit (rev (sort_key follow_id (filter (\<lambda>r. P r
         \<and> follow_id r < (case until_id of Some i \<Rightarrow> i | None \<Rightarrow> 9223372036854775807)
         \<and> follow_id r > (case since_id of Some i \<Rightarrow> i | None \<Rightarrow> 0)) (follows db))))"

definition list_following ::
  "(actor_id \<Rightarrow> bool) \<Rightarrow> actor_id \<Rightarrow> nat \<Rightarrow> int option \<Rightarrow> int option \<Rightarrow> follow_db \<Rightarrow> follow_row list" where
  "list_following shown f = page (\<lambda>r. follower_actor_id r = f \<and> status r = Accepted \<and> shown (target_actor_id r))"

definition list_followers ::
  "(actor_id \<Rightarrow> bool) \<Rightarrow> actor_id \<Rightarrow> nat \<Rightarrow> int option \<Rightarrow> int option \<Rightarrow> follow_db \<Rightarrow> follow_row list" where
  "list_followers shown t = page (\<lambda>r. target_actor_id r = t \<and> status r = Accepted \<and> shown (follower_actor_id r))"

definition list_pending_followers :: "actor_id \<Rightarrow> nat \<Rightarrow> follow_db \<Rightarrow> follow_row list" where
  "list_pending_followers t limit db =
     take limit (rev (sort_key follow_id (filter (\<lambda>r. target_actor_id r = t \<and> status r = Pending) (follows db))))"

section \<open>The invariant of the table\<close>

text \<open>One row for a pair, identities not yet given out are unused, and the counters are the numbers of accepted rows.\<close>

definition follow_db_ok :: "follow_db \<Rightarrow> bool" where
  "follow_db_ok db \<longleftrightarrow>
     distinct (map (\<lambda>r. (follower_actor_id r, target_actor_id r)) (follows db))
     \<and> sorted_wrt (<) (map follow_id (follows db))
     \<and> list_all (\<lambda>i. 0 < i \<and> i < next_follow_id db) (map follow_id (follows db)) \<and> 0 < next_follow_id db
     \<and> (\<forall>a. following_count db a = count_following a (follows db) \<and> followers_count db a = count_followers a (follows db))"

lemma find_row_None: "find_row f t db = None \<longleftrightarrow> (f, t) \<notin> (\<lambda>r. (follower_actor_id r, target_actor_id r)) ` set (follows db)"
  by (auto simp: find_row_def find_None_iff of_pair_def)

lemma find_row_SomeD:
  assumes "find_row f t db = Some r"
  shows "r \<in> set (follows db)" "follower_actor_id r = f" "target_actor_id r = t"
  using assms by (auto simp: find_row_def find_Some_iff of_pair_def)

text \<open>A count changes only for the actors of the rows that change.\<close>

lemma counts_insert [simp]:
  "count_following a (rows @ [r]) = count_following a rows + (if follower_actor_id r = a \<and> status r = Accepted then 1 else 0)"
  "count_followers a (rows @ [r]) = count_followers a rows + (if target_actor_id r = a \<and> status r = Accepted then 1 else 0)"
  by (auto simp: count_following_def count_followers_def)

lemma counts_other:
  assumes "list_all2 (\<lambda>r r'. r = r' \<or> (of_pair f t r \<and> of_pair f t r')) rows rows'"
  shows "a \<noteq> f \<Longrightarrow> count_following a rows' = count_following a rows" "b \<noteq> t \<Longrightarrow> count_followers b rows' = count_followers b rows"
  using assms by (induction rows rows' rule: list_all2_induct)
    (auto simp: count_following_def count_followers_def of_pair_def)

lemma counts_delete:
  "a \<noteq> f \<Longrightarrow> count_following a (filter (\<lambda>r. \<not> of_pair f t r) rows) = count_following a rows"
  "b \<noteq> t \<Longrightarrow> count_followers b (filter (\<lambda>r. \<not> of_pair f t r) rows) = count_followers b rows"
  by (induction rows) (auto simp: count_following_def count_followers_def of_pair_def)

lemma insert_row_ok:
  assumes "follow_db_ok db" "find_row f t db = None"
  shows "follow_db_ok (insert_row f t st rkey act db)"
  using assms by (auto simp: follow_db_ok_def insert_row_def follows_sync_counts_def find_row_None sorted_wrt_append list_all_iff)

lemma rows_changed_ok:
  assumes "follow_db_ok db" "map follow_id rows = map follow_id (follows db)"
    and "list_all2 (\<lambda>r r'. r = r' \<or> (of_pair f t r \<and> of_pair f t r')) (follows db) rows"
  shows "follow_db_ok (follows_sync_counts f t (db\<lparr>follows := rows\<rparr>))"
proof -
  have "map (\<lambda>r. (follower_actor_id r, target_actor_id r)) rows = map (\<lambda>r. (follower_actor_id r, target_actor_id r)) (follows db)"
    using assms(3) by (induction rule: list_all2_induct) (auto simp: of_pair_def)
  then show ?thesis
    using assms(1,2) counts_other [OF assms(3)] by (simp add: follow_db_ok_def follows_sync_counts_def)
qed

lemma update_rows_ok:
  assumes "follow_db_ok db" "\<And>r. of_pair f t r \<Longrightarrow> of_pair f t (g r) \<and> follow_id (g r) = follow_id r"
  shows "follow_db_ok (snd (update_rows f t P g db))"
proof -
  let ?rows = "map (\<lambda>r. if of_pair f t r \<and> P r then g r else r) (follows db)"
  have "map follow_id ?rows = map follow_id (follows db)" using assms(2) by auto
  moreover have "list_all2 (\<lambda>r r'. r = r' \<or> (of_pair f t r \<and> of_pair f t r')) (follows db) ?rows"
    using assms(2) by (auto simp: list_all2_map2 list_all2_same)
  ultimately show ?thesis using rows_changed_ok [OF assms(1)] assms(1) by (simp add: update_rows_def Let_def)
qed

lemma delete_by_actors_ok: "follow_db_ok db \<Longrightarrow> follow_db_ok (delete_by_actors f t db)"
  by (auto simp: follow_db_ok_def delete_by_actors_def follows_sync_counts_def counts_delete distinct_map_filter
      sorted_wrt_filter list_all_iff sorted_wrt_map)

lemma empty_follow_db_ok: "follow_db_ok empty_follow_db"
  by (simp add: follow_db_ok_def empty_follow_db_def count_following_def count_followers_def)


section \<open>The row of a pair\<close>

lemma find_snoc: "find P (xs @ [x]) = (case find P xs of Some y \<Rightarrow> Some y | None \<Rightarrow> if P x then Some x else None)"
  by (induction xs) auto

lemma find_map_same: "(\<And>r. P (h r) \<longleftrightarrow> P r) \<Longrightarrow> find P (map h xs) = map_option h (find P xs)"
  by (induction xs) auto

lemma find_filter_keep: "(\<And>r. P r \<Longrightarrow> Q r) \<Longrightarrow> find P (filter Q xs) = find P xs"
  by (induction xs) auto

lemma find_filter_drop: "(\<And>r. P r \<Longrightarrow> \<not> Q r) \<Longrightarrow> find P (filter Q xs) = None"
  by (induction xs) auto

lemma table_sync [simp]: "follows (follows_sync_counts f t db) = follows db"
  by (simp add: follows_sync_counts_def)

lemma find_row_insert: "find_row a b (insert_row f t st rkey act db) =
    (case find_row a b db of Some r \<Rightarrow> Some r | None \<Rightarrow> if a = f \<and> b = t
       then Some \<lparr>follow_id = next_follow_id db, follower_actor_id = f, target_actor_id = t, status = st, atp_rkey = rkey,
                  pending_follow_activity = act\<rparr> else None)"
  by (auto simp: find_row_def insert_row_def of_pair_def find_snoc split: option.split)

lemma find_row_update:
  assumes "\<And>r. of_pair f t r \<Longrightarrow> of_pair f t (g r)"
  shows "find_row a b (snd (update_rows f t P g db)) = map_option (\<lambda>r. if of_pair f t r \<and> P r then g r else r) (find_row a b db)"
proof -
  have "find_row a b (db\<lparr>follows := map (\<lambda>r. if of_pair f t r \<and> P r then g r else r) (follows db)\<rparr>)
      = map_option (\<lambda>r. if of_pair f t r \<and> P r then g r else r) (find_row a b db)"
    using assms by (simp add: find_row_def) (rule find_map_same, auto simp: of_pair_def)
  moreover have "map_option (\<lambda>r. if of_pair f t r \<and> P r then g r else r) (find_row a b db) = find_row a b db"
    if "filter (\<lambda>r. of_pair f t r \<and> P r) (follows db) = []"
    using that by (cases "find_row a b db") (auto simp: filter_empty_conv dest: find_row_SomeD(1))
  ultimately show ?thesis by (auto simp: update_rows_def Let_def find_row_def)
qed

lemma find_row_delete: "find_row a b (delete_by_actors f t db) = (if a = f \<and> b = t then None else find_row a b db)"
proof (cases "list_ex (of_pair f t) (follows db)")
  case True
  moreover have "find (of_pair a b) (filter (\<lambda>r. \<not> of_pair f t r) xs) = (if a = f \<and> b = t then None else find (of_pair a b) xs)" for xs
    by (cases "a = f \<and> b = t") (auto simp: of_pair_def intro!: find_filter_keep find_filter_drop)
  ultimately show ?thesis by (simp add: find_row_def delete_by_actors_def)
next
  case False
  then have "find (of_pair f t) (follows db) = None" by (simp add: find_None_iff list_ex_iff)
  then show ?thesis using False by (auto simp: find_row_def delete_by_actors_def)
qed

section \<open>Pages\<close>

lemma sort_key_sorted_id: "sorted_wrt (<) (map follow_id rows) \<Longrightarrow> sort_key follow_id rows = rows"
  by (rule sort_key_id_if_sorted, rule strict_sorted_imp_sorted)

lemma take_while_below:
  "sorted_wrt (\<lambda>r r'. follow_id r' < follow_id r) rows \<Longrightarrow> 0 < m \<Longrightarrow> rows \<noteq> []
    \<Longrightarrow> filter (\<lambda>r. follow_id r < follow_id (last (take m rows))) rows = drop m rows"
proof (induction rows arbitrary: m)
  case (Cons r rows)
  show ?case
  proof (cases "m = 1 \<or> rows = []")
    case True
    then show ?thesis using Cons.prems by (cases m) (auto simp: filter_id_conv)
  next
    case False
    then obtain k where k: "m = Suc k" "0 < k" using Cons.prems by (cases m) auto
    then have "last (take m (r # rows)) = last (take k rows)" using False by simp
    moreover have "last (take k rows) \<in> set rows" using False k by (metis in_set_takeD last_in_set take_eq_Nil less_numeral_extra(3))
    ultimately show ?thesis using Cons.IH [of k] Cons.prems k False by auto
  qed
qed simp

text \<open>Asking for the rows behind the last one of a page goes on where the page ended.\<close>

lemma page_continues:
  assumes "follow_db_ok db" "0 < m" "page P m until_id since_id db \<noteq> []"
  shows "page P (m + n) until_id since_id db
    = page P m until_id since_id db @ page P n (Some (follow_id (last (page P m until_id since_id db)))) since_id db"
proof -
  define lo where "lo = (case since_id of Some i \<Rightarrow> i | None \<Rightarrow> 0)"
  define all where "all i = rev (filter (\<lambda>r. P r \<and> follow_id r < i \<and> follow_id r > lo) (follows db))" for i
  define hi where "hi = (case until_id of Some i \<Rightarrow> i | None \<Rightarrow> 9223372036854775807)"
  have sorted: "sorted_wrt (<) (map follow_id (filter Q (follows db)))" for Q
    using assms(1) by (auto simp: follow_db_ok_def sorted_wrt_filter sorted_wrt_map)
  have pg: "page P k u since_id db = take k (all (case u of Some i \<Rightarrow> i | None \<Rightarrow> 9223372036854775807))" for k u
    by (simp add: page_def all_def lo_def sort_key_sorted_id [OF sorted])
  have desc: "sorted_wrt (\<lambda>r r'. follow_id r' < follow_id r) (all hi)"
    using sorted by (simp add: all_def sorted_wrt_rev sorted_wrt_map)
  let ?last = "follow_id (last (take m (all hi)))"
  have ne: "all hi \<noteq> []" using assms(3) by (auto simp: pg hi_def)
  then have "last (take m (all hi)) \<in> set (all hi)" using assms(2) by (metis in_set_takeD last_in_set take_eq_Nil less_numeral_extra(3))
  then have "?last < hi" by (auto simp: all_def)
  then have "all ?last = filter (\<lambda>r. follow_id r < ?last) (all hi)"
    by (auto simp: all_def rev_filter intro!: filter_cong)
  also have "\<dots> = drop m (all hi)" by (rule take_while_below [OF desc assms(2) ne])
  finally show ?thesis by (simp add: pg hi_def [symmetric] take_add)
qed

end
