(* ===== verification/Follow_World.thy ===== *)
theory Follow_World
  imports Follows Text_Spans Numbers
begin

text \<open>
  The world in which follows are established and ended: the follow and block tables, the follow and block
  records of the AT repositories, and what has been sent. Every call of a repository, of the commit
  service and of the network may fail; the environment tells which.
\<close>

section \<open>Actors and targets\<close>

record actor =
  actor_id :: actor_id
  username :: string
  domain :: string
  display_name :: "string option"
  actor_type :: string
  ap_uri :: "string option"
  ap_inbox_url :: "string option"
  at_did :: "string option"
  is_locked :: bool

text \<open>What is taken from the actor document of another server.\<close>

record fedi_document =
  fd_username :: string
  fd_domain :: string
  fd_display_name :: string
  fd_inbox :: string
  fd_locked :: bool

text \<open>\<open>ap/mod.rs\<close>, \<open>username.rs\<close>, \<open>follow_target.rs\<close>.\<close>

definition extract_local_username :: "string \<Rightarrow> string \<Rightarrow> string option" where
  "extract_local_username actor_uri local_domain =
     Option.bind (strip_prefix actor_uri (''https://'' @ local_domain @ ''/users/'')) (\<lambda>rest.
     if rest \<noteq> [] \<and> CHR ''/'' \<notin> set rest then Some rest else None)"

definition strip_local_domain_suffix :: "string \<Rightarrow> string \<Rightarrow> string option" where
  "strip_local_domain_suffix s local_domain =
     (let suffix_len = length local_domain in
      if length s \<le> suffix_len + 1 \<or> \<not> is_char_boundary s (length s - suffix_len) then None
      else if \<not> eq_ignore_ascii_case (drop (length s - suffix_len) s) local_domain then None
      else strip_suffix (take (length s - suffix_len) s) ''.'')"

datatype follow_target_kind = Local_Target string | Bsky_Target string | Fedi_Target string

definition trimmed_target :: "string \<Rightarrow> string" where
  "trimmed_target target = trim_start_matches (\<lambda>c. c = CHR ''@'') (trim target)"

definition classify_follow_target :: "string \<Rightarrow> string \<Rightarrow> follow_target_kind" where
  "classify_follow_target target local_domain =
     (let t = trimmed_target target in
      if starts_with t ''https://'' \<or> starts_with t ''http://'' then Fedi_Target t
      else if starts_with t ''did:'' then Bsky_Target t
      else (case strip_local_domain_suffix t local_domain of
          Some name \<Rightarrow> Local_Target name
        | None \<Rightarrow>
            if CHR ''.'' \<in> set t \<and> CHR ''@'' \<notin> set t then Bsky_Target t
            else (case split_once CHR ''@'' t of
                None \<Rightarrow> Local_Target t
              | Some (name, dmn) \<Rightarrow> if dmn = local_domain then Local_Target name else Fedi_Target t)))"

section \<open>The world\<close>

datatype notification_kind = Follow | Reaction | Follow_Request | Follow_Request_Accepted | Mention | Reply | Repost | Quote
  | Move_Refollowed | Move_Already_Following

datatype follow_effect =
    Notified actor_id actor_id notification_kind
  | Published actor_id string json
  | Posted string json
  | History_Sync string
  | Jetstream_Touched

text \<open>A record of a repository: its collection's actor, its key and the DID it is about.\<close>

type_synonym subject_record = "actor_id \<times> string \<times> string"

record follow_world =
  table :: follow_db
  blocks :: "((actor_id \<times> actor_id) \<times> string option) list"
  follow_records :: "subject_record list"
  block_records :: "subject_record list"
  calls :: nat
  effects :: "follow_effect list"

text \<open>
  \<open>call_fails\<close> by the number of the call, the keys of \<open>generate_tid\<close> and \<open>generate_snowflake_id\<close> likewise; the actors table, the webfinger
  and actor documents of other servers, and the discovery of their actors by what they are asked for.
\<close>

record follow_env =
  call_fails :: "nat \<Rightarrow> bool"
  tid :: "nat \<Rightarrow> string"
  local_domain :: string
  actor_named :: "string \<Rightarrow> string \<Rightarrow> actor option"
  actor_or_withdrawn :: "string \<Rightarrow> string \<Rightarrow> actor option"
  actor_with_id :: "actor_id \<Rightarrow> actor option"
  actor_with_uri :: "string \<Rightarrow> actor option"
  webfinger :: "string \<Rightarrow> string \<Rightarrow> string option"
  appview_profile :: "string \<Rightarrow> string option"
  actor_with_did :: "string \<Rightarrow> actor option"
  bsky_actor :: "string \<Rightarrow> actor_id"
  fedi_actor :: "string \<Rightarrow> actor_id"
  fedi_profile :: "string \<Rightarrow> fedi_document option"
  snowflake :: "nat \<Rightarrow> int"

section \<open>Calls\<close>

definition call :: "follow_env \<Rightarrow> (follow_world \<Rightarrow> 'a \<times> follow_world) \<Rightarrow> follow_world \<Rightarrow> 'a option \<times> follow_world" where
  "call E f w =
     (if call_fails E (calls w) then (None, w\<lparr>calls := calls w + 1\<rparr>)
      else (case f w of (x, w') \<Rightarrow> (Some x, w'\<lparr>calls := calls w + 1\<rparr>)))"

definition sql :: "follow_env \<Rightarrow> (follow_db \<Rightarrow> 'a \<times> follow_db) \<Rightarrow> follow_world \<Rightarrow> 'a option \<times> follow_world" where
  "sql E f = call E (\<lambda>w. case f (table w) of (x, d) \<Rightarrow> (x, w\<lparr>table := d\<rparr>))"

definition ask :: "follow_env \<Rightarrow> 'a \<Rightarrow> follow_world \<Rightarrow> 'a option \<times> follow_world" where
  "ask E x = call E (\<lambda>w. (x, w))"

text \<open>A call whose failure is only logged.\<close>

definition try_effect :: "follow_env \<Rightarrow> follow_effect \<Rightarrow> follow_world \<Rightarrow> follow_world" where
  "try_effect E x w = snd (call E (\<lambda>w. ((), w\<lparr>effects := effects w @ [x]\<rparr>)) w)"

definition publish :: "follow_effect \<Rightarrow> follow_world \<Rightarrow> follow_world" where
  "publish x w = w\<lparr>effects := effects w @ [x]\<rparr>"

definition post :: "follow_env \<Rightarrow> string \<Rightarrow> json \<Rightarrow> follow_world \<Rightarrow> unit option \<times> follow_world" where
  "post E inbox body = call E (\<lambda>w. ((), w\<lparr>effects := effects w @ [Posted inbox body]\<rparr>))"

definition touch_jetstream_wanted_dids :: "follow_env \<Rightarrow> follow_world \<Rightarrow> follow_world" where
  "touch_jetstream_wanted_dids E = try_effect E Jetstream_Touched"

text \<open>The question mark, with the error a failed call is turned into.\<close>

definition or_fail :: "'a option \<times> follow_world \<Rightarrow> 'e \<Rightarrow> ('a \<Rightarrow> follow_world \<Rightarrow> ('e + 'b) \<times> follow_world) \<Rightarrow> ('e + 'b) \<times> follow_world" where
  "or_fail m e k = (case m of (Some x, w) \<Rightarrow> k x w | (None, w) \<Rightarrow> (Inl e, w))"

definition and_then :: "('e + 'a) \<times> follow_world \<Rightarrow> ('a \<Rightarrow> follow_world \<Rightarrow> ('e + 'b) \<times> follow_world) \<Rightarrow> ('e + 'b) \<times> follow_world" where
  "and_then m k = (case m of (Inr x, w) \<Rightarrow> k x w | (Inl e, w) \<Rightarrow> (Inl e, w))"

section \<open>The commit service and the block table\<close>

definition commit_follow :: "follow_env \<Rightarrow> actor_id \<Rightarrow> string \<Rightarrow> follow_world \<Rightarrow> string option \<times> follow_world" where
  "commit_follow E a did = call E (\<lambda>w. let rkey = tid E (calls w) in
     (rkey, w\<lparr>follow_records := follow_records w @ [(a, rkey, did)]\<rparr>))"

definition commit_delete_follow :: "follow_env \<Rightarrow> actor_id \<Rightarrow> string \<Rightarrow> follow_world \<Rightarrow> unit option \<times> follow_world" where
  "commit_delete_follow E a rkey = call E (\<lambda>w.
     ((), w\<lparr>follow_records := filter (\<lambda>(b, k, _). \<not> (b = a \<and> k = rkey)) (follow_records w)\<rparr>))"

definition commit_block :: "follow_env \<Rightarrow> actor_id \<Rightarrow> string \<Rightarrow> follow_world \<Rightarrow> string option \<times> follow_world" where
  "commit_block E a did = call E (\<lambda>w. let rkey = tid E (calls w) in
     (rkey, w\<lparr>block_records := block_records w @ [(a, rkey, did)]\<rparr>))"

definition commit_delete_block :: "follow_env \<Rightarrow> actor_id \<Rightarrow> string \<Rightarrow> follow_world \<Rightarrow> unit option \<times> follow_world" where
  "commit_delete_block E a rkey = call E (\<lambda>w.
     ((), w\<lparr>block_records := filter (\<lambda>(b, k, _). \<not> (b = a \<and> k = rkey)) (block_records w)\<rparr>))"

text \<open>\<open>repository/block.rs\<close>: inserting again keeps the row and takes the new key.\<close>

definition insert_block :: "actor_id \<Rightarrow> actor_id \<Rightarrow> string option \<Rightarrow> follow_world \<Rightarrow> unit \<times> follow_world" where
  "insert_block a b rkey w = ((), w\<lparr>blocks :=
     (if map_of (blocks w) (a, b) = None then blocks w @ [((a, b), rkey)]
      else map (\<lambda>(p, k). if p = (a, b) then (p, rkey) else (p, k)) (blocks w))\<rparr>)"

definition delete_block :: "actor_id \<Rightarrow> actor_id \<Rightarrow> follow_world \<Rightarrow> unit \<times> follow_world" where
  "delete_block a b w = ((), w\<lparr>blocks := filter (\<lambda>(p, _). p \<noteq> (a, b)) (blocks w)\<rparr>)"

definition delete_by_blocker_and_rkey :: "actor_id \<Rightarrow> string \<Rightarrow> follow_world \<Rightarrow> unit \<times> follow_world" where
  "delete_by_blocker_and_rkey a rkey w = ((), w\<lparr>blocks := filter (\<lambda>((b, _), k). \<not> (b = a \<and> k = Some rkey)) (blocks w)\<rparr>)"

definition find_block_rkey :: "actor_id \<Rightarrow> actor_id \<Rightarrow> follow_world \<Rightarrow> string option" where
  "find_block_rkey a b w = (case map_of (blocks w) (a, b) of Some k \<Rightarrow> k | None \<Rightarrow> None)"

definition find_relationship :: "actor_id \<Rightarrow> actor_id \<Rightarrow> follow_world \<Rightarrow> bool \<times> bool" where
  "find_relationship a b w = (map_of (blocks w) (a, b) \<noteq> None, map_of (blocks w) (b, a) \<noteq> None)"

section \<open>What the calls keep\<close>

named_theorems world_defs "definitions of calls of the follow world"

lemmas [world_defs] = call_def sql_def ask_def try_effect_def publish_def post_def touch_jetstream_wanted_dids_def or_fail_def and_then_def
  commit_follow_def commit_delete_follow_def commit_block_def commit_delete_block_def

lemma call_keeps: "(\<And>x v'. f w = (x, v') \<Longrightarrow> P (v'\<lparr>calls := calls w + 1\<rparr>)) \<Longrightarrow> P (w\<lparr>calls := calls w + 1\<rparr>) \<Longrightarrow> P (snd (call E f w))"
  by (cases "f w") (simp add: call_def)

end
