(* ===== verification/Follow_Exec.thy ===== *)
theory Follow_Exec
  imports Follow_World
begin

text \<open>
  Following (\<open>crates/seiran-common/src/follow_exec.rs\<close>): the paths to a local actor, to an actor of the AT
  network and to one of the Fediverse. The text of an error is left out where it only carries that of a
  failed call.
\<close>

datatype follow_outcome = Accepted_Outcome string bool | Pending_Outcome string bool

datatype follow_error = Not_Found | Self_Follow | Blocked | No_At_Did | Local_Via_Fedi_Guard | Bad_Gateway | Internal_Error

section \<open>The AT record of a follow\<close>

definition check_not_blocked ::
  "follow_env \<Rightarrow> actor_id \<Rightarrow> actor_id \<Rightarrow> follow_world \<Rightarrow> (follow_error + unit) \<times> follow_world" where
  "check_not_blocked E a b w =
     or_fail (ask E (find_relationship a b w) w) Internal_Error (\<lambda>(blocking, blocked_by) w.
       if blocking \<or> blocked_by then (Inl Blocked, w) else (Inr (), w))"

text \<open>The three phases of \<open>establish_atp_follow\<close>: the row, the commit, the key in the row.\<close>

definition claim_follow :: "follow_env \<Rightarrow> actor_id \<Rightarrow> actor_id \<Rightarrow> follow_world \<Rightarrow> (follow_error + bool) \<times> follow_world" where
  "claim_follow E f t w =
     or_fail (sql E (insert_accepted_with_rkey f t None) w) Internal_Error (\<lambda>claimed w. (Inr claimed, w))"

definition commit_claimed ::
  "follow_env \<Rightarrow> actor_id \<Rightarrow> actor_id \<Rightarrow> string \<Rightarrow> follow_world \<Rightarrow> (follow_error + string) \<times> follow_world" where
  "commit_claimed E f t did w = (case commit_follow E f did w of
      (Some rkey, w) \<Rightarrow> (Inr rkey, w)
    | (None, w) \<Rightarrow> (Inl Internal_Error, snd (sql E (\<lambda>d. ((), delete_by_actors f t d)) w)))"

definition record_rkey ::
  "follow_env \<Rightarrow> actor_id \<Rightarrow> actor_id \<Rightarrow> string \<Rightarrow> follow_world \<Rightarrow> (follow_error + unit) \<times> follow_world" where
  "record_rkey E f t rkey w =
     or_fail (sql E (set_atp_rkey f t rkey) w) Internal_Error (\<lambda>recorded w.
       (Inr (), if recorded then w else snd (commit_delete_follow E f rkey w)))"

definition establish_atp_follow ::
  "follow_env \<Rightarrow> actor_id \<Rightarrow> actor_id \<Rightarrow> string \<Rightarrow> follow_world \<Rightarrow> (follow_error + bool) \<times> follow_world" where
  "establish_atp_follow E f t did w =
     and_then (claim_follow E f t w) (\<lambda>claimed w.
       if \<not> claimed then (Inr False, w)
       else and_then (commit_claimed E f t did w) (\<lambda>rkey w.
            and_then (record_rkey E f t rkey w) (\<lambda>_ w. (Inr True, w))))"

section \<open>A local target\<close>

definition user_uri :: "follow_env \<Rightarrow> string \<Rightarrow> string" where
  "user_uri E name = ''https://'' @ local_domain E @ ''/users/'' @ name"

definition actor_event :: "string \<Rightarrow> string \<Rightarrow> json" where
  "actor_event name dmn = JObject [(''actor'', JObject [(''username'', JString name), (''domain'', JString dmn)])]"

definition follow_local ::
  "follow_env \<Rightarrow> string \<Rightarrow> actor_id \<Rightarrow> string \<Rightarrow> follow_world \<Rightarrow> (follow_error + follow_outcome) \<times> follow_world" where
  "follow_local E name me my_name w =
     or_fail (ask E (actor_named E name (local_domain E)) w) Internal_Error (\<lambda>found w.
     case found of None \<Rightarrow> (Inl Not_Found, w) | Some target \<Rightarrow>
     if me = actor_id target then (Inl Self_Follow, w)
     else and_then (check_not_blocked E me (actor_id target) w) (\<lambda>_ w.
     if is_locked target then
       or_fail (sql E (upsert_pending me (actor_id target)) w) Internal_Error (\<lambda>upsert w.
         (Inr (if upsert = AlreadyAccepted then Accepted_Outcome (user_uri E name) True
               else Pending_Outcome (user_uri E name) (upsert = AlreadyPending)),
          if upsert = Inserted
          then publish (Published (actor_id target) ''followRequest'' (actor_event my_name (local_domain E)))
                 (try_effect E (Notified (actor_id target) me Follow_Request) w)
          else w))
     else (case at_did target of None \<Rightarrow> (Inl No_At_Did, w) | Some did \<Rightarrow>
       and_then (establish_atp_follow E me (actor_id target) did w) (\<lambda>inserted w.
         (Inr (Accepted_Outcome (user_uri E name) (\<not> inserted)),
          if inserted
          then publish (Published (actor_id target) ''follow'' (actor_event my_name (local_domain E)))
                 (try_effect E (Notified (actor_id target) me Follow) w)
          else w)))))"

section \<open>A target of the AT network\<close>

definition resolve_bsky_target_actor ::
  "follow_env \<Rightarrow> string \<Rightarrow> follow_world \<Rightarrow> (follow_error + actor_id \<times> string) \<times> follow_world" where
  "resolve_bsky_target_actor E target w =
     (case ask E (appview_profile E target) w of
        (Some (Some did), w) \<Rightarrow>
          (case ask E (actor_with_did E did) w of
             (found, w) \<Rightarrow>
               (case found of
                  Some (Some existing) \<Rightarrow>
                    (if actor_type existing = ''local'' then (Inr (actor_id existing, did), w)
                     else or_fail (ask E (bsky_actor E did) w) Internal_Error (\<lambda>i w. (Inr (i, did), w)))
                | _ \<Rightarrow> or_fail (ask E (bsky_actor E did) w) Internal_Error (\<lambda>i w. (Inr (i, did), w))))
      | (_, w) \<Rightarrow> (Inl Bad_Gateway, w))"

definition follow_bsky ::
  "follow_env \<Rightarrow> string \<Rightarrow> actor_id \<Rightarrow> follow_world \<Rightarrow> (follow_error + follow_outcome) \<times> follow_world" where
  "follow_bsky E target me w =
     and_then (resolve_bsky_target_actor E target w) (\<lambda>(remote, did) w.
     and_then (check_not_blocked E me remote w) (\<lambda>_ w.
     and_then (establish_atp_follow E me remote did w) (\<lambda>inserted w.
       (Inr (Accepted_Outcome (''at://'' @ did) (\<not> inserted)),
        try_effect E (History_Sync did) (touch_jetstream_wanted_dids E w)))))"

text \<open>The follow of a migrated account is in its repository already: no commit.\<close>

definition link_bsky_follow_with_existing_rkey ::
  "follow_env \<Rightarrow> string \<Rightarrow> actor_id \<Rightarrow> string \<Rightarrow> follow_world \<Rightarrow> (follow_error + follow_outcome) \<times> follow_world" where
  "link_bsky_follow_with_existing_rkey E target_did me existing_rkey w =
     and_then (resolve_bsky_target_actor E target_did w) (\<lambda>(remote, did) w.
     and_then (check_not_blocked E me remote w) (\<lambda>_ w.
     or_fail (sql E (insert_accepted_bsky me remote existing_rkey) w) Internal_Error (\<lambda>inserted w.
       (Inr (Accepted_Outcome (''at://'' @ did) (\<not> inserted)),
        try_effect E (History_Sync did) (touch_jetstream_wanted_dids E w)))))"

section \<open>A target of the Fediverse\<close>

definition resolve_target_uri :: "follow_env \<Rightarrow> string \<Rightarrow> follow_world \<Rightarrow> string option \<times> follow_world" where
  "resolve_target_uri E target w =
     (let t = trimmed_target target in
      if starts_with t ''https://'' \<or> starts_with t ''http://'' then (Some t, w)
      else (case split_once CHR ''@'' t of
          Some (name, dmn) \<Rightarrow> (case ask E (webfinger E name dmn) w of (Some uri, w) \<Rightarrow> (uri, w) | (None, w) \<Rightarrow> (None, w))
        | None \<Rightarrow> (None, w)))"

definition follow_activity_id :: "follow_env \<Rightarrow> actor_id \<Rightarrow> actor_id \<Rightarrow> string" where
  "follow_activity_id E me remote =
     ''https://'' @ local_domain E @ ''/activities/follow/'' @ show_i64 me @ ''-'' @ show_i64 remote"

definition follow_activity :: "follow_env \<Rightarrow> actor_id \<Rightarrow> string \<Rightarrow> actor_id \<Rightarrow> string \<Rightarrow> json" where
  "follow_activity E me my_name remote target_uri = JObject
     [(''@context'', JString ''https://www.w3.org/ns/activitystreams''), (''type'', JString ''Follow''),
      (''id'', JString (follow_activity_id E me remote)), (''actor'', JString (user_uri E my_name)), (''object'', JString target_uri)]"

text \<open>The AT record that goes with a follow of an actor known on both networks; its failure is only logged.\<close>

definition commit_married ::
  "follow_env \<Rightarrow> actor_id \<Rightarrow> actor option \<Rightarrow> follow_world \<Rightarrow> string option \<times> follow_world" where
  "commit_married E me remote w =
     (case remote of
        Some a \<Rightarrow> (if actor_type a = ''remote_seiran''
                   then (case at_did a of Some did \<Rightarrow> commit_follow E me did w | None \<Rightarrow> (None, w)) else (None, w))
      | None \<Rightarrow> (None, w))"

text \<open>The row of a follow that is sent: whether it is new, and whether it waits for an answer.\<close>

definition fedi_follow_row ::
  "follow_env \<Rightarrow> actor_id \<Rightarrow> actor_id \<Rightarrow> bool \<Rightarrow> follow_world \<Rightarrow> (follow_error + bool \<times> bool) \<times> follow_world" where
  "fedi_follow_row E me remote locked w =
     (if locked then
        or_fail (sql E (upsert_pending me remote) w) Internal_Error (\<lambda>upsert w.
          (Inr (upsert = Inserted, upsert \<noteq> AlreadyAccepted), w))
      else
        (case ask E (actor_with_id E remote) w of (found, w) \<Rightarrow>
         case commit_married E me (case found of Some a \<Rightarrow> a | None \<Rightarrow> None) w of (rkey, w) \<Rightarrow>
         or_fail (sql E (insert_accepted_with_rkey me remote rkey) w) Internal_Error (\<lambda>_ w.
           (Inr (True, False), if rkey \<noteq> None then touch_jetstream_wanted_dids E w else w))))"

definition follow_fedi ::
  "follow_env \<Rightarrow> string \<Rightarrow> actor_id \<Rightarrow> string \<Rightarrow> follow_world \<Rightarrow> (follow_error + follow_outcome) \<times> follow_world" where
  "follow_fedi E target me my_name w =
     or_fail (resolve_target_uri E target w) Internal_Error (\<lambda>target_uri w.
     if extract_local_username target_uri (local_domain E) \<noteq> None then (Inl Local_Via_Fedi_Guard, w)
     else (case ask E (fedi_profile E target_uri) w of
        (Some (Some doc), w) \<Rightarrow>
          or_fail (ask E (fedi_actor E target_uri) w) Internal_Error (\<lambda>remote w.
          and_then (check_not_blocked E me remote w) (\<lambda>_ w.
          and_then (fedi_follow_row E me remote (fd_locked doc) w) (\<lambda>(inserted, is_pending) w.
          or_fail (post E (fd_inbox doc) (follow_activity E me my_name remote target_uri) w) Bad_Gateway (\<lambda>_ w.
            (Inr (if is_pending then Pending_Outcome target_uri (\<not> inserted) else Accepted_Outcome target_uri (\<not> inserted)), w)))))
      | (_, w) \<Rightarrow> (Inl Bad_Gateway, w)))"

definition execute_follow ::
  "follow_env \<Rightarrow> string \<Rightarrow> actor_id \<Rightarrow> string \<Rightarrow> follow_world \<Rightarrow> (follow_error + follow_outcome) \<times> follow_world" where
  "execute_follow E target me my_name w =
     (case classify_follow_target target (local_domain E) of
        Local_Target name \<Rightarrow> follow_local E name me my_name w
      | Bsky_Target t \<Rightarrow> follow_bsky E t me w
      | Fedi_Target t \<Rightarrow> follow_fedi E t me my_name w)"

end
