(* ===== verification/Follow_Handlers.thy ===== *)
theory Follow_Handlers
  imports Follow_Exec
begin

text \<open>
  What ends, answers or undoes a follow: approval and rejection of a request
  (\<open>follow_approval.rs\<close>), the activities Follow, Accept, Undo and Block of other servers
  (\<open>jobs/inbound_activity_process/\<close>), and the API's unfollow, block and unblock
  (\<open>crates/seiran-api/src/handlers/follows.rs\<close>, \<open>blocks.rs\<close>).
\<close>

datatype handler_error = Malformed | Unknown_Actor | Not_Local | Answer_Mismatch | No_Inbox | No_Did | Call_Failed
  | Own_Account

definition str_field :: "json \<Rightarrow> string \<Rightarrow> string option" where
  "str_field v k = Option.bind (json_get v k) json_as_str"

text \<open>\<open>activity["object"]\<close>, null where there is none.\<close>

definition object_of :: "json \<Rightarrow> json" where
  "object_of v = (case json_get v ''object'' of Some x \<Rightarrow> x | None \<Rightarrow> JNull)"

definition answer_activity :: "string \<Rightarrow> string \<Rightarrow> string \<Rightarrow> json \<Rightarrow> json" where
  "answer_activity ty aid uri object = JObject
     [(''@context'', JString ''https://www.w3.org/ns/activitystreams''), (''type'', JString ty), (''id'', JString aid),
      (''actor'', JString uri), (''object'', object)]"

definition answer_id :: "follow_env \<Rightarrow> string \<Rightarrow> follow_world \<Rightarrow> string" where
  "answer_id E path w = ''https://'' @ local_domain E @ ''/'' @ path @ ''/'' @ show_i64 (snowflake E (calls w))"

section \<open>Approval\<close>

text \<open>The request as it came, or one built from the actors; a failed query counts as none.\<close>

definition answered_object :: "follow_env \<Rightarrow> actor \<Rightarrow> actor \<Rightarrow> string \<Rightarrow> follow_world \<Rightarrow> json \<times> follow_world" where
  "answered_object E flw target flw_uri w =
     (case ask E (find_pending_follow_activity (actor_id flw) (actor_id target) (table w)) w of (found, w) \<Rightarrow>
        ((case found of Some (Some act) \<Rightarrow> act
          | _ \<Rightarrow> JObject [(''type'', JString ''Follow''), (''actor'', JString flw_uri),
                          (''object'', JString (user_uri E (username target)))]), w))"

definition send_answer :: "follow_env \<Rightarrow> string \<Rightarrow> string \<Rightarrow> actor \<Rightarrow> actor \<Rightarrow> follow_world \<Rightarrow> follow_world" where
  "send_answer E ty path flw target w =
     (case (ap_inbox_url flw, ap_uri flw) of
        (Some inbox, Some flw_uri) \<Rightarrow>
          (case answered_object E flw target flw_uri w of (object, w) \<Rightarrow>
            snd (post E inbox (answer_activity ty (answer_id E path w) (user_uri E (username target)) object) w))
      | _ \<Rightarrow> w)"

definition name_event :: "string \<Rightarrow> string \<Rightarrow> string option \<Rightarrow> json" where
  "name_event name dmn shown = JObject [(''actor'', JObject [(''username'', JString name), (''domain'', JString dmn),
     (''displayName'', (case shown of Some s \<Rightarrow> JString s | None \<Rightarrow> JNull))])]"

definition approve_pending_follow ::
  "follow_env \<Rightarrow> actor \<Rightarrow> actor \<Rightarrow> follow_world \<Rightarrow> (handler_error + unit) \<times> follow_world" where
  "approve_pending_follow E flw target w =
     (if actor_type flw = ''local'' then
        (case at_did target of None \<Rightarrow> (Inl No_Did, w) | Some did \<Rightarrow>
         or_fail (commit_follow E (actor_id flw) did w) Call_Failed (\<lambda>rkey w.
         or_fail (sql E (accept_and_set_rkey (actor_id flw) (actor_id target) (Some rkey)) w) Call_Failed (\<lambda>_ w.
           (Inr (), try_effect E (Notified (actor_id flw) (actor_id target) Follow_Request_Accepted)
                      (publish (Published (actor_id flw) ''followAccepted''
                         (name_event (username target) (local_domain E) (display_name target)))
                        (touch_jetstream_wanted_dids E w))))))
      else
        or_fail (sql E (accept_and_set_rkey (actor_id flw) (actor_id target) None) w) Call_Failed (\<lambda>_ w.
          (Inr (), if actor_type flw \<noteq> ''bsky'' then send_answer E ''Accept'' ''accepts'' flw target w else w)))"

definition reject_pending_follow ::
  "follow_env \<Rightarrow> actor \<Rightarrow> actor \<Rightarrow> follow_world \<Rightarrow> (handler_error + unit) \<times> follow_world" where
  "reject_pending_follow E flw target w =
     (let w = (if actor_type flw \<noteq> ''local'' \<and> actor_type flw \<noteq> ''bsky''
               then send_answer E ''Reject'' ''rejects'' flw target w else w) in
      or_fail (sql E (\<lambda>d. ((), delete_by_actors (actor_id flw) (actor_id target) d)) w) Call_Failed (\<lambda>_ w. (Inr (), w)))"

section \<open>Activities of other servers\<close>

record remote_actor_info =
  ri_actor_id :: actor_id
  ri_username :: string
  ri_display_name :: string
  ri_domain :: string
  ri_inbox :: string

definition upsert_remote_fedi_actor ::
  "follow_env \<Rightarrow> string \<Rightarrow> follow_world \<Rightarrow> (handler_error + remote_actor_info) \<times> follow_world" where
  "upsert_remote_fedi_actor E uri w =
     (case extract_local_username uri (local_domain E) of
        Some name \<Rightarrow>
          or_fail (ask E (actor_or_withdrawn E name (local_domain E)) w) Call_Failed (\<lambda>found w. (case found of
             Some a \<Rightarrow> (if actor_type a = ''local''
                then (Inr \<lparr>ri_actor_id = actor_id a, ri_username = username a,
                            ri_display_name = (case display_name a of Some d \<Rightarrow> d | None \<Rightarrow> []), ri_domain = domain a,
                            ri_inbox = []\<rparr>, w)
                else (Inl Unknown_Actor, w))
           | None \<Rightarrow> (Inl Unknown_Actor, w)))
      | None \<Rightarrow>
          (case ask E (fedi_profile E uri) w of
             (Some (Some doc), w) \<Rightarrow>
               or_fail (ask E (fedi_actor E uri) w) Call_Failed (\<lambda>i w.
                 (Inr \<lparr>ri_actor_id = i, ri_username = fd_username doc, ri_display_name = fd_display_name doc,
                       ri_domain = fd_domain doc, ri_inbox = fd_inbox doc\<rparr>, w))
           | (_, w) \<Rightarrow> (Inl Call_Failed, w)))"

definition handle_follow :: "follow_env \<Rightarrow> json \<Rightarrow> follow_world \<Rightarrow> (handler_error + unit) \<times> follow_world" where
  "handle_follow E activity w =
     (case (str_field activity ''actor'', str_field activity ''object'') of
        (Some flw_uri, Some target_uri) \<Rightarrow>
          (case extract_local_username target_uri (local_domain E) of None \<Rightarrow> (Inl Not_Local, w) | Some name \<Rightarrow>
           or_fail (ask E (actor_named E name (local_domain E)) w) Call_Failed (\<lambda>found w.
           case found of None \<Rightarrow> (Inl Unknown_Actor, w) | Some me \<Rightarrow>
           if actor_type me \<noteq> ''local'' then (Inl Not_Local, w)
           else and_then (upsert_remote_fedi_actor E flw_uri w) (\<lambda>remote w.
           if ri_inbox remote = [] then (Inl No_Inbox, w)
           else or_fail (ask E (find_relationship (actor_id me) (ri_actor_id remote) w) w) Call_Failed (\<lambda>(blocking, _) w.
           if blocking then (Inr (), w)
           else if is_locked me then
             or_fail (sql E (upsert_pending_with_activity (ri_actor_id remote) (actor_id me) activity) w) Call_Failed (\<lambda>_ w.
               (Inr (), try_effect E (Notified (actor_id me) (ri_actor_id remote) Follow_Request)
                 (publish (Published (actor_id me) ''followRequest''
                    (name_event (ri_username remote) (ri_domain remote) (Some (ri_display_name remote)))) w)))
           else
             or_fail (sql E (\<lambda>d. ((), insert_accepted (ri_actor_id remote) (actor_id me) d)) w) Call_Failed (\<lambda>_ w.
             let w = try_effect E (Notified (actor_id me) (ri_actor_id remote) Follow)
                 (publish (Published (actor_id me) ''follow''
                    (name_event (ri_username remote) (ri_domain remote) (Some (ri_display_name remote)))) w) in
             or_fail (post E (ri_inbox remote)
                 (answer_activity ''Accept'' (answer_id E ''accepts'' w) (user_uri E name) activity) w) Call_Failed (\<lambda>_ w.
               (Inr (), w)))))))
      | _ \<Rightarrow> (Inl Malformed, w))"

definition parse_local_follow_activity_id :: "string \<Rightarrow> string \<Rightarrow> (actor_id \<times> actor_id) option" where
  "parse_local_follow_activity_id uri dmn =
     Option.bind (strip_prefix uri (''https://'' @ dmn @ ''/activities/follow/'')) (\<lambda>ids.
     Option.bind (split_once CHR ''-'' ids) (\<lambda>(a, b).
     Option.bind (parse_i64 a) (\<lambda>x. Option.bind (parse_i64 b) (\<lambda>y. Some (x, y)))))"

text \<open>The local actor whose request is accepted: none where the object is no follow.\<close>

definition accepting_actor ::
  "follow_env \<Rightarrow> json \<Rightarrow> string \<Rightarrow> follow_world \<Rightarrow> (handler_error + actor option) \<times> follow_world" where
  "accepting_actor E obj remote_uri w =
     (case Option.bind (json_as_str obj) (\<lambda>uri. parse_local_follow_activity_id uri (local_domain E)) of
        Some (me, expected) \<Rightarrow>
          or_fail (ask E (actor_with_uri E remote_uri) w) Call_Failed (\<lambda>found w. (case found of
             None \<Rightarrow> (Inl Unknown_Actor, w)
           | Some remote \<Rightarrow> if actor_id remote \<noteq> expected then (Inl Answer_Mismatch, w)
               else or_fail (ask E (actor_with_id E me) w) Call_Failed (\<lambda>found w.
                 (case found of None \<Rightarrow> (Inl Unknown_Actor, w) | Some a \<Rightarrow> (Inr (Some a), w)))))
      | None \<Rightarrow>
          if str_field obj ''type'' \<noteq> Some ''Follow'' then (Inr None, w)
          else (case str_field obj ''actor'' of None \<Rightarrow> (Inl Malformed, w) | Some uri \<Rightarrow>
           (case strip_prefix uri (''https://'' @ local_domain E @ ''/users/'') of None \<Rightarrow> (Inl Not_Local, w) | Some name \<Rightarrow>
             or_fail (ask E (actor_or_withdrawn E name (local_domain E)) w) Call_Failed (\<lambda>found w.
               (case found of None \<Rightarrow> (Inl Unknown_Actor, w) | Some a \<Rightarrow> (Inr (Some a), w))))))"

definition handle_accept :: "follow_env \<Rightarrow> json \<Rightarrow> follow_world \<Rightarrow> (handler_error + unit) \<times> follow_world" where
  "handle_accept E activity w =
     (case str_field activity ''actor'' of None \<Rightarrow> (Inl Malformed, w) | Some remote_uri \<Rightarrow>
      and_then (accepting_actor E (object_of activity) remote_uri w) (\<lambda>me w. (case me of None \<Rightarrow> (Inr (), w) | Some me \<Rightarrow>
      if actor_type me \<noteq> ''local'' then (Inl Not_Local, w)
      else or_fail (ask E (actor_with_uri E remote_uri) w) Call_Failed (\<lambda>found w.
      case found of None \<Rightarrow> (Inl Unknown_Actor, w) | Some remote \<Rightarrow>
      case commit_married E (actor_id me) (Some remote) w of (rkey, w) \<Rightarrow>
      or_fail (sql E (accept_and_set_rkey (actor_id me) (actor_id remote) rkey) w) Call_Failed (\<lambda>rows w.
      let w = (if rkey \<noteq> None then touch_jetstream_wanted_dids E w else w) in
      (Inr (), if 0 < rows
               then try_effect E (Notified (actor_id me) (actor_id remote) Follow_Request_Accepted)
                      (publish (Published (actor_id me) ''followAccepted''
                         (name_event (username remote) (domain remote) (display_name remote))) w)
               else w))))))"

text \<open>\<open>Undo\<close> of a follow, and of a block, whose errors are only logged.\<close>

definition handle_undo_follow :: "follow_env \<Rightarrow> json \<Rightarrow> follow_world \<Rightarrow> (handler_error + unit) \<times> follow_world" where
  "handle_undo_follow E activity w =
     (case (str_field activity ''actor'', str_field (object_of activity) ''object'') of
        (Some flw_uri, Some target_uri) \<Rightarrow>
          (case extract_local_username target_uri (local_domain E) of None \<Rightarrow> (Inl Not_Local, w) | Some name \<Rightarrow>
           or_fail (ask E (actor_with_uri E flw_uri) w) Call_Failed (\<lambda>found w.
           case found of None \<Rightarrow> (Inr (), w) | Some flw \<Rightarrow>
           or_fail (ask E (actor_or_withdrawn E name (local_domain E)) w) Call_Failed (\<lambda>found w.
           case found of None \<Rightarrow> (Inr (), w) | Some target \<Rightarrow>
           if actor_type target \<noteq> ''local'' then (Inr (), w)
           else or_fail (sql E (\<lambda>d. ((), delete_by_actors (actor_id flw) (actor_id target) d)) w) Call_Failed (\<lambda>_ w.
             (Inr (), w)))))
      | _ \<Rightarrow> (Inl Malformed, w))"

definition handle_undo_block :: "follow_env \<Rightarrow> json \<Rightarrow> follow_world \<Rightarrow> (handler_error + unit) \<times> follow_world" where
  "handle_undo_block E activity w =
     (let blocker_uri = (case str_field activity ''actor'' of Some s \<Rightarrow> s | None \<Rightarrow> []);
          target_uri = (case str_field (object_of activity) ''object'' of Some s \<Rightarrow> s | None \<Rightarrow> []);
          name = (case extract_local_username target_uri (local_domain E) of Some s \<Rightarrow> s | None \<Rightarrow> []) in
      case ask E (actor_with_uri E blocker_uri) w of (blocker, w) \<Rightarrow>
      case ask E (actor_or_withdrawn E name (local_domain E)) w of (target, w) \<Rightarrow>
      (Inr (), (case (blocker, target) of
         (Some (Some b), Some (Some t)) \<Rightarrow>
           (if actor_type t = ''local'' then snd (call E (delete_block (actor_id b) (actor_id t)) w) else w)
       | _ \<Rightarrow> w)))"

definition handle_block :: "follow_env \<Rightarrow> json \<Rightarrow> follow_world \<Rightarrow> (handler_error + unit) \<times> follow_world" where
  "handle_block E activity w =
     (case (str_field activity ''actor'', str_field activity ''object'') of
        (Some blocker_uri, Some target_uri) \<Rightarrow>
          (case extract_local_username target_uri (local_domain E) of None \<Rightarrow> (Inl Not_Local, w) | Some name \<Rightarrow>
           or_fail (ask E (actor_or_withdrawn E name (local_domain E)) w) Call_Failed (\<lambda>found w.
           case found of None \<Rightarrow> (Inl Unknown_Actor, w) | Some me \<Rightarrow>
           if actor_type me \<noteq> ''local'' then (Inl Not_Local, w)
           else and_then (upsert_remote_fedi_actor E blocker_uri w) (\<lambda>remote w.
           or_fail (call E (insert_block (ri_actor_id remote) (actor_id me) None) w) Call_Failed (\<lambda>_ w.
           or_fail (sql E (\<lambda>d. ((), delete_by_actors (actor_id me) (ri_actor_id remote) d)) w) Call_Failed (\<lambda>_ w.
             (Inr (), w))))))
      | _ \<Rightarrow> (Inl Malformed, w))"

section \<open>The API\<close>

definition undo_activity :: "string \<Rightarrow> string \<Rightarrow> string \<Rightarrow> string \<Rightarrow> json" where
  "undo_activity ty aid uri object_uri = JObject
     [(''@context'', JString ''https://www.w3.org/ns/activitystreams''), (''type'', JString ''Undo''),
      (''id'', JString (aid @ ''/undo'')), (''actor'', JString uri),
      (''object'', JObject [(''type'', JString ty), (''id'', JString aid), (''actor'', JString uri), (''object'', JString object_uri)])]"

definition unfollow_target ::
  "follow_env \<Rightarrow> actor_id \<Rightarrow> string \<Rightarrow> actor \<Rightarrow> follow_world \<Rightarrow> (handler_error + unit) \<times> follow_world" where
  "unfollow_target E me my_name target w =
     or_fail (ask E (find_atp_rkey me (actor_id target) (table w)) w) Call_Failed (\<lambda>rkey w.
     and_then (case rkey of None \<Rightarrow> (Inr (), w) | Some k \<Rightarrow>
         or_fail (commit_delete_follow E me k w) Call_Failed (\<lambda>_ w. (Inr (), touch_jetstream_wanted_dids E w))) (\<lambda>_ w.
     let w = (if actor_type target \<noteq> ''local'' \<and> actor_type target \<noteq> ''bsky'' then
                (case (ap_inbox_url target, ap_uri target) of
                   (Some inbox, Some uri) \<Rightarrow>
                     snd (post E inbox (undo_activity ''Follow'' (follow_activity_id E me (actor_id target)) (user_uri E my_name) uri) w)
                 | _ \<Rightarrow> w)
              else w) in
     or_fail (sql E (\<lambda>d. ((), delete_by_actors me (actor_id target) d)) w) Call_Failed (\<lambda>_ w. (Inr (), w))))"

definition block_activity_id :: "follow_env \<Rightarrow> actor_id \<Rightarrow> string" where
  "block_activity_id E target = ''https://'' @ local_domain E @ ''/activities/block/'' @ show_i64 target"

definition block_actor ::
  "follow_env \<Rightarrow> actor_id \<Rightarrow> string \<Rightarrow> actor \<Rightarrow> follow_world \<Rightarrow> (handler_error + unit) \<times> follow_world" where
  "block_actor E me my_name target w =
     (if actor_id target = me then (Inl Own_Account, w)
      else
        (let w = snd (unfollow_target E me my_name target w);
             w = snd (sql E (\<lambda>d. ((), delete_by_actors (actor_id target) me d)) w) in
         case (case at_did target of Some did \<Rightarrow> commit_block E me did w | None \<Rightarrow> (None, w)) of (rkey, w) \<Rightarrow>
         let w = (if actor_type target \<noteq> ''local'' then
                    (case (ap_inbox_url target, ap_uri target) of
                       (Some inbox, Some uri) \<Rightarrow>
                         snd (post E inbox (answer_activity ''Block'' (block_activity_id E (actor_id target))
                                (user_uri E my_name) (JString uri)) w)
                     | _ \<Rightarrow> w)
                  else w) in
         or_fail (call E (insert_block me (actor_id target) rkey) w) Call_Failed (\<lambda>_ w. (Inr (), w))))"

definition unblock_actor ::
  "follow_env \<Rightarrow> actor_id \<Rightarrow> string \<Rightarrow> actor \<Rightarrow> follow_world \<Rightarrow> (handler_error + unit) \<times> follow_world" where
  "unblock_actor E me my_name target w =
     (case ask E (find_block_rkey me (actor_id target) w) w of (found, w) \<Rightarrow>
      let w = (case found of Some (Some rkey) \<Rightarrow> snd (commit_delete_block E me rkey w) | _ \<Rightarrow> w);
          w = (if actor_type target \<noteq> ''local'' then
                 (case (ap_inbox_url target, ap_uri target) of
                    (Some inbox, Some uri) \<Rightarrow>
                      snd (post E inbox (undo_activity ''Block'' (block_activity_id E (actor_id target)) (user_uri E my_name) uri) w)
                  | _ \<Rightarrow> w)
               else w) in
      or_fail (call E (delete_block me (actor_id target)) w) Call_Failed (\<lambda>_ w. (Inr (), w)))"

end
