(* ===== verification/Follow_Safety.thy ===== *)
theory Follow_Safety
  imports Follow_Handlers
begin

text \<open>
  What following, unfollowing and blocking keep and achieve: the table and its counters, the wait for a
  locked account, a follow that is taken back, and the end of all follows under a block.
\<close>

section \<open>Keeping a predicate of the world\<close>

text \<open>
  A predicate that does not look at the number of calls and the effects is kept by asking, sending and
  publishing; what remains are the statements and commits.
\<close>

locale kept =
  fixes P :: "follow_world \<Rightarrow> bool"
  assumes P_calls [simp]: "P (w\<lparr>calls := n\<rparr>) \<longleftrightarrow> P w"
    and P_effects [simp]: "P (w\<lparr>effects := es\<rparr>) \<longleftrightarrow> P w"
begin

lemma kept_call: "P w \<Longrightarrow> P (snd (f w)) \<Longrightarrow> P (snd (call E f w))"
  by (cases "f w") (simp add: call_def)

lemma kept_ask: "P w \<Longrightarrow> P (snd (ask E x w))"
  by (simp add: ask_def kept_call)

lemma kept_publish: "P w \<Longrightarrow> P (publish x w)"
  by (simp add: publish_def)

lemma kept_try_effect: "P w \<Longrightarrow> P (try_effect E x w)"
  by (simp add: try_effect_def kept_call)

lemma kept_post: "P w \<Longrightarrow> P (snd (post E inbox body w))"
  by (simp add: post_def kept_call)

lemma kept_touch: "P w \<Longrightarrow> P (touch_jetstream_wanted_dids E w)"
  by (simp add: touch_jetstream_wanted_dids_def kept_try_effect)

lemma kept_or_fail: "P (snd m) \<Longrightarrow> (\<And>x w. m = (Some x, w) \<Longrightarrow> P w \<Longrightarrow> P (snd (k x w))) \<Longrightarrow> P (snd (or_fail m e k))"
  by (cases m) (auto simp: or_fail_def split: option.split)

lemma kept_and_then: "P (snd m) \<Longrightarrow> (\<And>x w. m = (Inr x, w) \<Longrightarrow> P w \<Longrightarrow> P (snd (k x w))) \<Longrightarrow> P (snd (and_then m k))"
  by (cases m) (auto simp: and_then_def split: sum.split)

lemma kept_case: "P (snd m) \<Longrightarrow> (\<And>x w. m = (x, w) \<Longrightarrow> P w \<Longrightarrow> P (snd (k x w))) \<Longrightarrow> P (snd (case m of (x, w) \<Rightarrow> k x w))"
  by (cases m) auto

lemma kept_askD: "ask E x w = (y, w') \<Longrightarrow> P w \<Longrightarrow> P w'"
  using kept_ask [of w E x] by simp

lemma kept_send_answer: "P w \<Longrightarrow> P (send_answer E ty path flw target w)"
  by (auto simp: send_answer_def answered_object_def split: option.split prod.split intro!: kept_post dest: kept_askD)

lemmas kept_rules = kept_publish kept_try_effect kept_post kept_touch kept_or_fail kept_and_then kept_case kept_send_answer

end

text \<open>What the statements and commits keep, every handler keeps.\<close>

locale kept_store = kept +
  assumes P_insert: "P w \<Longrightarrow> find_row f t (table w) = None \<Longrightarrow> P (w\<lparr>table := insert_row f t st rkey act (table w)\<rparr>)"
    and P_update: "P w \<Longrightarrow> (\<And>r. of_pair f t r \<Longrightarrow> of_pair f t (g r) \<and> follow_id (g r) = follow_id r)
      \<Longrightarrow> P (w\<lparr>table := snd (update_rows f t Q g (table w))\<rparr>)"
    and P_delete: "P w \<Longrightarrow> P (w\<lparr>table := delete_by_actors f t (table w)\<rparr>)"
    and P_follow_records: "P w \<Longrightarrow> P (w\<lparr>follow_records := rs\<rparr>)"
    and P_block_records: "P w \<Longrightarrow> P (w\<lparr>block_records := rs\<rparr>)"
    and P_insert_block: "P w \<Longrightarrow> P (snd (insert_block a b rkey w))"
    and P_delete_block: "P w \<Longrightarrow> P (snd (delete_block a b w))"
begin

lemma kept_sql: "P w \<Longrightarrow> P (w\<lparr>table := snd (q (table w))\<rparr>) \<Longrightarrow> P (snd (sql E q w))"
  by (simp add: sql_def kept_call split_def)

lemma kept_insert_rkey: "P w \<Longrightarrow> P (snd (sql E (insert_accepted_with_rkey f t rkey) w))"
  by (rule kept_sql) (auto simp: insert_accepted_with_rkey_def P_insert split: option.split)

lemma kept_insert_bsky: "P w \<Longrightarrow> P (snd (sql E (insert_accepted_bsky f t rkey) w))"
  by (rule kept_sql) (auto simp: insert_accepted_bsky_def P_insert split: option.split)

lemma kept_insert_accepted: "P w \<Longrightarrow> P (snd (sql E (\<lambda>d. ((), insert_accepted f t d)) w))"
  by (rule kept_sql) (auto simp: insert_accepted_def P_insert split: option.split)

lemma kept_upsert: "P w \<Longrightarrow> P (snd (sql E (upsert_pending f t) w))"
  by (rule kept_sql) (auto simp: upsert_pending_def P_insert P_update split: option.split)

lemma kept_upsert_activity: "P w \<Longrightarrow> P (snd (sql E (upsert_pending_with_activity f t act) w))"
  by (rule kept_sql) (auto simp: upsert_pending_with_activity_def P_insert of_pair_def intro!: P_update split: option.split)

lemma kept_accept: "P w \<Longrightarrow> P (snd (sql E (accept_and_set_rkey f t rkey) w))"
  by (rule kept_sql) (auto simp: accept_and_set_rkey_def of_pair_def intro!: P_update)

lemma kept_set_rkey: "P w \<Longrightarrow> P (snd (sql E (set_atp_rkey f t rkey) w))"
  using P_update [of w f t "\<lambda>r. r\<lparr>atp_rkey := Some rkey\<rparr>" "\<lambda>_. True"]
  by (intro kept_sql) (auto simp: set_atp_rkey_def of_pair_def split_def)

lemma kept_delete: "P w \<Longrightarrow> P (snd (sql E (\<lambda>d. ((), delete_by_actors f t d)) w))"
  by (rule kept_sql) (auto simp: P_delete)

lemma kept_commit_follow: "P w \<Longrightarrow> P (snd (commit_follow E a did w))"
  unfolding commit_follow_def by (rule kept_call) (auto simp: Let_def P_follow_records)

lemma kept_commit_delete_follow: "P w \<Longrightarrow> P (snd (commit_delete_follow E a rkey w))"
  unfolding commit_delete_follow_def by (rule kept_call) (auto simp: P_follow_records)

lemma kept_commit_block: "P w \<Longrightarrow> P (snd (commit_block E a did w))"
  unfolding commit_block_def by (rule kept_call) (auto simp: Let_def P_block_records)

lemma kept_commit_delete_block: "P w \<Longrightarrow> P (snd (commit_delete_block E a rkey w))"
  unfolding commit_delete_block_def by (rule kept_call) (auto simp: P_block_records)

lemma kept_insert_block: "P w \<Longrightarrow> P (snd (call E (insert_block a b rkey) w))"
  by (rule kept_call) (auto simp: P_insert_block)

lemma kept_delete_block: "P w \<Longrightarrow> P (snd (call E (delete_block a b) w))"
  by (rule kept_call) (auto simp: P_delete_block)

lemmas statements = kept_rules kept_ask kept_insert_rkey kept_insert_bsky kept_insert_accepted kept_upsert kept_upsert_activity kept_accept
  kept_set_rkey kept_delete kept_commit_follow kept_commit_delete_follow kept_commit_block kept_commit_delete_block
  kept_insert_block kept_delete_block

lemma kept_claim: "P w \<Longrightarrow> P (snd (claim_follow E f t w))"
  unfolding claim_follow_def by (auto intro!: statements)

lemma kept_commit_claimed: "P w \<Longrightarrow> P (snd (commit_claimed E f t did w))"
  using kept_commit_follow [of w E f did] by (auto simp: commit_claimed_def split: prod.split option.split intro!: statements)

lemma kept_record: "P w \<Longrightarrow> P (snd (record_rkey E f t rkey w))"
  unfolding record_rkey_def by (auto intro!: statements)

lemma kept_establish: "P w \<Longrightarrow> P (snd (establish_atp_follow E f t did w))"
  unfolding establish_atp_follow_def
  by (auto intro!: kept_and_then kept_claim kept_commit_claimed kept_record)

lemma kept_not_blocked: "P w \<Longrightarrow> P (snd (check_not_blocked E a b w))"
  unfolding check_not_blocked_def by (auto intro!: statements split: prod.split)

lemma kept_follow_local: "P w \<Longrightarrow> P (snd (follow_local E name me my_name w))"
  unfolding follow_local_def
  by (auto intro!: statements kept_not_blocked kept_establish split: option.split)

lemma kept_resolve_bsky: "P w \<Longrightarrow> P (snd (resolve_bsky_target_actor E target w))"
  unfolding resolve_bsky_target_actor_def
  by (auto split: prod.split option.split intro!: statements dest: kept_askD)

lemma kept_follow_bsky: "P w \<Longrightarrow> P (snd (follow_bsky E target me w))"
  unfolding follow_bsky_def
  by (auto intro!: statements kept_not_blocked kept_establish kept_resolve_bsky split: prod.split)

lemma kept_link: "P w \<Longrightarrow> P (snd (link_bsky_follow_with_existing_rkey E target me rkey w))"
  unfolding link_bsky_follow_with_existing_rkey_def
  by (auto intro!: statements kept_not_blocked kept_resolve_bsky split: prod.split)

lemma kept_commit_married: "P w \<Longrightarrow> P (snd (commit_married E me remote w))"
  by (auto simp: commit_married_def kept_commit_follow split: option.split)

lemma kept_fedi_row: "P w \<Longrightarrow> P (snd (fedi_follow_row E me remote locked w))"
  unfolding fedi_follow_row_def by (auto intro!: statements kept_commit_married)

lemma kept_resolve_uri: "P w \<Longrightarrow> P (snd (resolve_target_uri E target w))"
  by (auto simp: resolve_target_uri_def Let_def split: option.split prod.split dest: kept_askD)

lemma kept_follow_fedi: "P w \<Longrightarrow> P (snd (follow_fedi E target me my_name w))"
  unfolding follow_fedi_def
  by (auto intro!: statements kept_not_blocked kept_fedi_row kept_resolve_uri split: prod.split option.split dest: kept_askD)

lemma kept_execute_follow: "P w \<Longrightarrow> P (snd (execute_follow E target me my_name w))"
  by (auto simp: execute_follow_def kept_follow_local kept_follow_bsky kept_follow_fedi split: follow_target_kind.split)

lemma kept_approve: "P w \<Longrightarrow> P (snd (approve_pending_follow E flw target w))"
  unfolding approve_pending_follow_def by (auto intro!: statements split: option.split)

lemma kept_reject: "P w \<Longrightarrow> P (snd (reject_pending_follow E flw target w))"
  unfolding reject_pending_follow_def Let_def by (auto intro!: statements)

lemma kept_remote_actor: "P w \<Longrightarrow> P (snd (upsert_remote_fedi_actor E uri w))"
  unfolding upsert_remote_fedi_actor_def
  by (auto intro!: statements split: option.split prod.split dest: kept_askD)

lemma kept_handle_follow: "P w \<Longrightarrow> P (snd (handle_follow E activity w))"
  unfolding handle_follow_def Let_def
  by (auto intro!: statements kept_remote_actor split: option.split prod.split)

lemma kept_accepting: "P w \<Longrightarrow> P (snd (accepting_actor E obj uri w))"
  unfolding accepting_actor_def by (auto intro!: statements split: option.split)

lemma kept_handle_accept: "P w \<Longrightarrow> P (snd (handle_accept E activity w))"
  unfolding handle_accept_def Let_def
  by (auto intro!: statements kept_accepting kept_commit_married split: option.split)

lemma kept_undo_follow: "P w \<Longrightarrow> P (snd (handle_undo_follow E activity w))"
  unfolding handle_undo_follow_def by (auto intro!: statements split: option.split)

lemma kept_undo_block: "P w \<Longrightarrow> P (snd (handle_undo_block E activity w))"
  unfolding handle_undo_block_def Let_def by (auto intro!: statements split: option.split)

lemma kept_handle_block: "P w \<Longrightarrow> P (snd (handle_block E activity w))"
  unfolding handle_block_def by (auto intro!: statements kept_remote_actor split: option.split)

lemma kept_unfollow: "P w \<Longrightarrow> P (snd (unfollow_target E me my_name target w))"
  unfolding unfollow_target_def Let_def by (auto intro!: statements split: option.split)

lemma kept_block: "P w \<Longrightarrow> P (snd (block_actor E me my_name target w))"
  unfolding block_actor_def Let_def by (auto intro!: statements kept_unfollow split: option.split)

lemma kept_unblock: "P w \<Longrightarrow> P (snd (unblock_actor E me my_name target w))"
  unfolding unblock_actor_def Let_def by (auto intro!: statements split: option.split)

lemmas handlers = kept_execute_follow kept_link kept_approve kept_reject kept_handle_follow kept_handle_accept kept_undo_follow
  kept_undo_block kept_handle_block kept_unfollow kept_block kept_unblock

end

text \<open>The table stays well formed, and there is one row for a block.\<close>

definition store_ok :: "follow_world \<Rightarrow> bool" where
  "store_ok w \<longleftrightarrow> follow_db_ok (table w) \<and> distinct (map fst (blocks w))"

lemma distinct_fst_rekey: "map fst (map (\<lambda>(p, k). if p = q then (p, x) else (p, k)) xs) = map fst xs"
  by (induction xs) auto

interpretation store: kept_store store_ok
proof unfold_locales
  fix w a b rkey
  show "store_ok w \<Longrightarrow> store_ok (snd (insert_block a b rkey w))"
    by (auto simp: store_ok_def insert_block_def distinct_fst_rekey map_of_eq_None_iff simp del: map_map)
  show "store_ok w \<Longrightarrow> store_ok (snd (delete_block a b w))"
    by (simp add: store_ok_def delete_block_def distinct_map_filter)
qed (auto simp: store_ok_def insert_row_ok update_rows_ok delete_by_actors_ok)

text \<open>Any sequence of requests and activities, each with its own environment.\<close>

inductive follow_step :: "follow_world \<Rightarrow> follow_world \<Rightarrow> bool" where
  follow: "follow_step w (snd (execute_follow E target me my_name w))"
| link: "follow_step w (snd (link_bsky_follow_with_existing_rkey E target me rkey w))"
| approve: "follow_step w (snd (approve_pending_follow E flw target_actor w))"
| reject: "follow_step w (snd (reject_pending_follow E flw target_actor w))"
| follow_activity: "follow_step w (snd (handle_follow E activity w))"
| accept_activity: "follow_step w (snd (handle_accept E activity w))"
| undo_follow: "follow_step w (snd (handle_undo_follow E activity w))"
| undo_block: "follow_step w (snd (handle_undo_block E activity w))"
| block_activity: "follow_step w (snd (handle_block E activity w))"
| unfollow: "follow_step w (snd (unfollow_target E me my_name target_actor w))"
| block: "follow_step w (snd (block_actor E me my_name target_actor w))"
| unblock: "follow_step w (snd (unblock_actor E me my_name target_actor w))"

definition empty_world :: follow_world where
  "empty_world = \<lparr>table = empty_follow_db, blocks = [], follow_records = [], block_records = [], calls = 0, effects = []\<rparr>"

lemma store_reachable: "follow_step\<^sup>*\<^sup>* empty_world w \<Longrightarrow> store_ok w"
proof (induction rule: rtranclp_induct)
  case base
  show ?case by (simp add: store_ok_def empty_world_def empty_follow_db_ok)
next
  case (step w w')
  then show ?case by (auto elim!: follow_step.cases intro: store.handlers)
qed

text \<open>
  C24. Whatever is requested, answered, undone or blocked, and whichever calls fail on the way: there is at
  most one row for two actors, and the numbers of followers and of followed actors that a profile shows
  are those of the accepted rows.
\<close>

theorem follow_counters_exact:
  assumes "follow_step\<^sup>*\<^sup>* empty_world w"
  shows "distinct (map (\<lambda>r. (follower_actor_id r, target_actor_id r)) (follows (table w)))
    \<and> count_relations a (table w)
        = (length (find_accepted_target_ids a (table w)), length (find_accepted_local_follower_ids (\<lambda>_. True) a (table w)))"
  using store_reachable [OF assms]
  by (simp add: store_ok_def follow_db_ok_def count_relations_def count_following_def count_followers_def
      find_accepted_target_ids_def find_accepted_local_follower_ids_def)

definition demo_actor :: "actor_id \<Rightarrow> string \<Rightarrow> bool \<Rightarrow> actor" where
  "demo_actor i name locked = \<lparr>actor_id = i, username = name, domain = ''here'', display_name = None, actor_type = ''local'',
     ap_uri = None, ap_inbox_url = None, at_did = Some (''did:plc:'' @ name), is_locked = locked\<rparr>"

text \<open>Two local accounts, of which bob answers requests himself if \<open>locked\<close>; no call fails.\<close>

definition demo_env :: "bool \<Rightarrow> follow_env" where
  "demo_env locked = \<lparr>call_fails = (\<lambda>_. False), tid = (\<lambda>n. show_i64 (int n)), local_domain = ''here'',
     actor_named = (\<lambda>name _. if name = ''bob'' then Some (demo_actor 2 name locked) else Some (demo_actor 1 name False)),
     actor_or_withdrawn = (\<lambda>name _. None), actor_with_id = (\<lambda>_. None), actor_with_uri = (\<lambda>_. None), webfinger = (\<lambda>_ _. None),
     appview_profile = (\<lambda>_. None), actor_with_did = (\<lambda>_. None), bsky_actor = (\<lambda>_. 0), fedi_actor = (\<lambda>_. 0),
     fedi_profile = (\<lambda>_. None), snowflake = int\<rparr>"

definition demo_world :: follow_world where
  "demo_world = snd (execute_follow (demo_env False) ''bob'' 1 ''alice'' empty_world)"

lemma demo_world_eval:
  "count_relations 1 (table demo_world) = (1, 0) \<and> find_atp_rkey 1 2 (table demo_world) = Some ''3''
    \<and> follow_records demo_world = [(1, ''3'', ''did:plc:bob'')]"
  by code_simp

theorem follow_counters_exact_witness:
  "(1, 0) = (length (find_accepted_target_ids 1 (table demo_world)),
      length (find_accepted_local_follower_ids (\<lambda>_. True) 1 (table demo_world)))"
proof -
  have "follow_step\<^sup>*\<^sup>* empty_world demo_world" unfolding demo_world_def by (rule r_into_rtranclp, rule follow)
  then show ?thesis using follow_counters_exact [of demo_world 1] demo_world_eval by simp
qed

section \<open>A locked account\<close>

lemma upsert_pending_accepted:
  "find_status a b (snd (upsert_pending f t db)) = Some Accepted \<longleftrightarrow> find_status a b db = Some Accepted"
  by (auto simp: upsert_pending_def find_status_def find_row_insert find_row_update split: option.split)

definition follows_unchanged :: "actor_id \<Rightarrow> actor_id \<Rightarrow> subject_record list \<Rightarrow> bool \<Rightarrow> follow_world \<Rightarrow> bool" where
  "follows_unchanged a b rs accepted w \<longleftrightarrow>
     follow_records w = rs \<and> (find_status a b (table w) = Some Accepted) = accepted"

interpretation waiting: kept "follows_unchanged a b rs accepted" for a b rs accepted
  by unfold_locales (simp_all add: follows_unchanged_def)

lemma waiting_upsert: "follows_unchanged a b rs accepted w \<Longrightarrow> follows_unchanged a b rs accepted (snd (sql E (upsert_pending f t) w))"
  using upsert_pending_accepted [of a b f t "table w"] unfolding sql_def
  by (intro waiting.kept_call) (auto simp: follows_unchanged_def split_def)

lemma waiting_local:
  assumes "actor_named E name (local_domain E) = Some target" "is_locked target" "follows_unchanged a b rs accepted w"
  shows "follows_unchanged a b rs accepted (snd (follow_local E name me my_name w))"
  using assms unfolding follow_local_def check_not_blocked_def
  by (auto intro!: waiting.kept_rules waiting.kept_ask waiting_upsert simp: ask_def call_def split: if_splits)

text \<open>
  Asking to follow a locked account neither writes a follow record into the repository nor makes
  any follow an accepted one: that is left to the answer.
\<close>

theorem locked_account_decides:
  assumes "actor_named E name (local_domain E) = Some target" "is_locked target"
  shows "follow_records (snd (follow_local E name me my_name w)) = follow_records w
    \<and> (find_status a b (table (snd (follow_local E name me my_name w))) = Some Accepted
         \<longleftrightarrow> find_status a b (table w) = Some Accepted)"
  using waiting_local [OF assms, of a b "follow_records w" "find_status a b (table w) = Some Accepted" w me my_name]
  by (simp add: follows_unchanged_def)

theorem locked_account_decides_witness:
  "find_status 1 2 (table (snd (follow_local (demo_env True) ''bob'' 1 ''alice'' empty_world))) \<noteq> Some Accepted
    \<and> find_status 1 2 (table (snd (follow_local (demo_env True) ''bob'' 1 ''alice'' empty_world))) = Some Pending"
proof
  have "actor_named (demo_env True) ''bob'' (local_domain (demo_env True)) = Some (demo_actor 2 ''bob'' True)"
    "is_locked (demo_actor 2 ''bob'' True)" by (simp_all add: demo_env_def demo_actor_def)
  moreover have "find_status 1 2 (table empty_world) \<noteq> Some Accepted" by code_simp
  ultimately show "find_status 1 2 (table (snd (follow_local (demo_env True) ''bob'' 1 ''alice'' empty_world))) \<noteq> Some Accepted"
    using locked_account_decides by blast
qed code_simp

section \<open>A follow and its end\<close>

definition reliable :: "follow_env \<Rightarrow> bool" where
  "reliable E \<longleftrightarrow> call_fails E = (\<lambda>_. False)"

lemma reliable_call: "reliable E \<Longrightarrow> call E f w = (case f w of (x, w') \<Rightarrow> (Some x, w'\<lparr>calls := calls w + 1\<rparr>))"
  by (simp add: reliable_def call_def)

lemma no_row_iff: "find_row f t db = None \<longleftrightarrow> list_all (\<lambda>r. \<not> of_pair f t r) (follows db)"
  by (auto simp: find_row_def find_None_iff list_all_iff)

lemma all_rows_kept: "list_all (\<lambda>r. \<not> of_pair f t r) rows \<Longrightarrow> filter (\<lambda>r. \<not> of_pair f t r) rows = rows
    \<and> map (\<lambda>r. if of_pair f t r then g r else r) rows = rows \<and> filter (of_pair f t) rows = []"
  by (induction rows) auto

text \<open>The row a claim leaves behind, with the key of its record, and the table once it is deleted.\<close>

definition claimed_db :: "actor_id \<Rightarrow> actor_id \<Rightarrow> string \<Rightarrow> follow_db \<Rightarrow> follow_db" where
  "claimed_db f t k db = snd (set_atp_rkey f t k (insert_row f t Accepted None None db))"

lemma claimed_db_rows:
  assumes "find_row f t db = None"
  shows "fst (set_atp_rkey f t k (insert_row f t Accepted None None db))" "find_atp_rkey f t (claimed_db f t k db) = Some k"
    "find_status f t (claimed_db f t k db) = Some Accepted" "follows (delete_by_actors f t (claimed_db f t k db)) = follows db"
proof -
  have rows: "follows (claimed_db f t k db) = follows db @ [\<lparr>follow_id = next_follow_id db, follower_actor_id = f,
      target_actor_id = t, status = Accepted, atp_rkey = Some k, pending_follow_activity = None\<rparr>]"
    and fst: "fst (set_atp_rkey f t k (insert_row f t Accepted None None db))"
    using all_rows_kept [of f t "follows db"] assms
    by (simp_all add: claimed_db_def set_atp_rkey_def update_rows_def Let_def insert_row_def no_row_iff of_pair_def)
  show "fst (set_atp_rkey f t k (insert_row f t Accepted None None db))" by (rule fst)
  show "find_atp_rkey f t (claimed_db f t k db) = Some k" "find_status f t (claimed_db f t k db) = Some Accepted"
    using assms by (simp_all add: find_atp_rkey_def find_status_def find_row_def rows find_snoc of_pair_def)
  show "follows (delete_by_actors f t (claimed_db f t k db)) = follows db"
    using all_rows_kept [of f t "follows db"] assms
    by (simp add: delete_by_actors_def rows no_row_iff of_pair_def)
qed

lemma establish_reliable:
  assumes "reliable E" "find_row f t (table w) = None"
  shows "establish_atp_follow E f t did w = (Inr True, w\<lparr>table := claimed_db f t (tid E (calls w + 1)) (table w),
       calls := calls w + 3, follow_records := follow_records w @ [(f, tid E (calls w + 1), did)]\<rparr>)"
  using assms claimed_db_rows(1) [OF assms(2)]
  by (simp add: establish_atp_follow_def claim_follow_def commit_claimed_def record_rkey_def sql_def reliable_call
      or_fail_def and_then_def commit_follow_def insert_accepted_with_rkey_def claimed_db_def Let_def split_def)

lemma reliable_effects [simp]:
  assumes "reliable E"
  shows "table (try_effect E x w) = table w" "follow_records (try_effect E x w) = follow_records w"
    "table (snd (post E inbox body w)) = table w" "follow_records (snd (post E inbox body w)) = follow_records w"
    "table (touch_jetstream_wanted_dids E w) = table w" "follow_records (touch_jetstream_wanted_dids E w) = follow_records w"
  using assms by (simp_all add: try_effect_def post_def touch_jetstream_wanted_dids_def reliable_call)

lemma unfollow_reliable:
  assumes "reliable E" "find_atp_rkey me (actor_id target) (table w) = Some k"
  shows "fst (unfollow_target E me my_name target w) = Inr ()"
    "table (snd (unfollow_target E me my_name target w)) = delete_by_actors me (actor_id target) (table w)"
    "follow_records (snd (unfollow_target E me my_name target w)) = filter (\<lambda>(b, k', _). \<not> (b = me \<and> k' = k)) (follow_records w)"
  using assms
  by (simp_all add: unfollow_target_def ask_def sql_def reliable_call or_fail_def and_then_def commit_delete_follow_def Let_def
      split: option.split)

text \<open>
  A follow over the AT network that is taken back leaves nothing behind: the rows of the table and
  the records of the repository are what they were before, if no call fails and the new key is one
  that the repository does not have yet.
\<close>

theorem follow_then_unfollow:
  assumes "reliable E" "find_row me (actor_id target) (table w) = None"
    and "list_all (\<lambda>(b, k, _). \<not> (b = me \<and> k = tid E (calls w + 1))) (follow_records w)"
    and "w1 = snd (establish_atp_follow E me (actor_id target) did w)" "w2 = snd (unfollow_target E me my_name target w1)"
  shows "find_status me (actor_id target) (table w1) = Some Accepted
    \<and> set (follow_records w1) = insert (me, tid E (calls w + 1), did) (set (follow_records w))
    \<and> follows (table w2) = follows (table w) \<and> follow_records w2 = follow_records w"
proof -
  let ?k = "tid E (calls w + 1)"
  have w1: "table w1 = claimed_db me (actor_id target) ?k (table w)" "follow_records w1 = follow_records w @ [(me, ?k, did)]"
    using establish_reliable [OF assms(1,2), of did] assms(4) by simp_all
  have rk: "find_atp_rkey me (actor_id target) (table w1) = Some ?k" using claimed_db_rows(2) [OF assms(2)] w1(1) by simp
  have "follows (table w2) = follows (table w)"
    using unfollow_reliable(2) [OF assms(1) rk] claimed_db_rows(4) [OF assms(2)] assms(5) w1(1) by simp
  moreover have "follow_records w2 = follow_records w"
    using unfollow_reliable(3) [OF assms(1) rk] assms(3,5) w1(2) by (simp add: filter_id_conv list_all_iff)
  moreover have "find_status me (actor_id target) (table w1) = Some Accepted"
    using claimed_db_rows(3) [OF assms(2)] w1(1) by simp
  ultimately show ?thesis using w1(2) by auto
qed

theorem follow_then_unfollow_witness:
  "find_status 1 2 (table demo_world) = Some Accepted
    \<and> follows (table (snd (unfollow_target (demo_env False) 1 ''alice'' (demo_actor 2 ''bob'' False)
        (snd (establish_atp_follow (demo_env False) 1 2 ''did:plc:bob'' empty_world))))) = []"
proof -
  have "reliable (demo_env False)" "find_row 1 (actor_id (demo_actor 2 ''bob'' False)) (table empty_world) = None"
    "list_all (\<lambda>(b, k, _). \<not> (b = 1 \<and> k = tid (demo_env False) (calls empty_world + 1))) (follow_records empty_world)"
    by (simp_all add: reliable_def demo_env_def empty_world_def empty_follow_db_def find_row_def)
  from follow_then_unfollow [OF this refl refl, of "''did:plc:bob''" "''alice''"]
  have "follows (table (snd (unfollow_target (demo_env False) 1 ''alice'' (demo_actor 2 ''bob'' False)
        (snd (establish_atp_follow (demo_env False) 1 2 ''did:plc:bob'' empty_world))))) = []"
    by (simp add: demo_actor_def empty_world_def empty_follow_db_def)
  moreover have "find_status 1 2 (table demo_world) = Some Accepted" by code_simp
  ultimately show ?thesis by simp
qed

section \<open>Blocks\<close>

text \<open>Calls that leave the rows of the follows alone, whether they fail or not.\<close>

lemma table_kept [simp]:
  "table (snd (ask E q w)) = table w" "table (try_effect E x w) = table w" "table (touch_jetstream_wanted_dids E w) = table w"
  "table (snd (post E inbox body w)) = table w" "table (snd (commit_delete_follow E me k w)) = table w"
  "table (snd (commit_block E me did w)) = table w" "table (snd (call E (insert_block a b rkey) w)) = table w"
  by (simp_all add: ask_def try_effect_def touch_jetstream_wanted_dids_def post_def commit_delete_follow_def commit_block_def
      call_def insert_block_def Let_def)

lemma table_kept_result:
  "commit_delete_follow E me k w = (x, w') \<Longrightarrow> table w' = table w" "commit_block E me did w = (y, w') \<Longrightarrow> table w' = table w"
  using table_kept(5) [of E me k w] table_kept(6) [of E me did w] by simp_all

lemma or_fail_Some: "or_fail (Some x, w) e k = k x w"
  by (simp add: or_fail_def)

lemma table_sql_delete:
  "table (snd (sql E (\<lambda>d. ((), delete_by_actors f t d)) w)) = (if call_fails E (calls w) then table w else delete_by_actors f t (table w))"
  by (simp add: sql_def call_def)

lemma unfollow_end:
  "or_fail (sql E (\<lambda>d. ((), delete_by_actors f t d)) w) e (\<lambda>_ w. (Inr (), w)) = (r, w') \<Longrightarrow>
   table w' = (if r = Inr () then delete_by_actors f t (table w) else table w)"
  by (auto simp: or_fail_def sql_def call_def split: if_splits)

text \<open>An unfollow deletes the row if it succeeds and leaves it if anything fails.\<close>

lemma unfollow_table:
  assumes "unfollow_target E me my_name target w = (r, w')"
  shows "table w' = (if r = Inr () then delete_by_actors me (actor_id target) (table w) else table w)"
proof -
  obtain x w1 where 1: "ask E (find_atp_rkey me (actor_id target) (table w)) w = (x, w1)" by fastforce
  have w1: "table w1 = table w" using table_kept(1) [of E "find_atp_rkey me (actor_id target) (table w)" w] by (simp add: 1)
  show ?thesis
  proof (cases x)
    case None
    then show ?thesis using assms w1 by (auto simp: unfollow_target_def 1 or_fail_def)
  next
    case (Some rkey)
    define m where "m = (case rkey of None \<Rightarrow> (Inr (), w1) | Some k \<Rightarrow>
         or_fail (commit_delete_follow E me k w1) Call_Failed (\<lambda>_ w. (Inr (), touch_jetstream_wanted_dids E w)))"
    have m: "table (snd m) = table w"
      using w1 by (auto simp: m_def or_fail_def split: option.split prod.split dest!: table_kept_result(1))
    define v where "v = (\<lambda>w. if actor_type target \<noteq> ''local'' \<and> actor_type target \<noteq> ''bsky'' then
                (case (ap_inbox_url target, ap_uri target) of
                   (Some inbox, Some uri) \<Rightarrow>
                     snd (post E inbox (undo_activity ''Follow'' (follow_activity_id E me (actor_id target)) (user_uri E my_name) uri) w)
                 | _ \<Rightarrow> w)
              else w)"
    have v: "table (v u) = table u" for u by (simp add: v_def split: option.split)
    have run: "and_then m (\<lambda>_ w. or_fail (sql E (\<lambda>d. ((), delete_by_actors me (actor_id target) d)) (v w)) Call_Failed (\<lambda>_ w. (Inr (), w))) = (r, w')"
      using assms unfolding unfollow_target_def 1 Some or_fail_Some m_def v_def Let_def .
    then show ?thesis using m by (cases m; cases "fst m") (auto simp: and_then_def v dest!: unfollow_end)
  qed
qed

lemma insert_block_related: "map_of (blocks (snd (insert_block a b rkey w))) (a, b) \<noteq> None"
proof (cases "map_of (blocks w) (a, b) = None")
  case False
  then have "(a, b) \<in> fst ` set (blocks w)" by (simp add: map_of_eq_None_iff)
  then have "(a, b) \<in> fst ` set (map (\<lambda>(p, k). if p = (a, b) then (p, rkey) else (p, k)) (blocks w))" by force
  then show ?thesis using False by (simp add: insert_block_def map_of_eq_None_iff)
qed (simp add: insert_block_def map_add_def)

lemma check_blocked:
  "map_of (blocks w) (a, b) \<noteq> None \<Longrightarrow> fst (check_not_blocked F a b w) = Inl (if call_fails F (calls w) then Internal_Error else Blocked)
     \<and> fst (check_not_blocked F b a w) = Inl (if call_fails F (calls w) then Internal_Error else Blocked)"
  by (simp add: check_not_blocked_def ask_def call_def or_fail_def find_relationship_def)

lemma unfollow_never_fails: "\<forall>n. \<not> call_fails E n \<Longrightarrow> fst (unfollow_target E me my_name target w) = Inr ()"
  by (cases "find_atp_rkey me (actor_id target) (table w)")
    (simp_all add: unfollow_target_def ask_def sql_def call_def or_fail_def and_then_def commit_delete_follow_def Let_def split: option.split)

text \<open>
  C26. What a block does to follows, whatever calls fail: the row of the blocker's own follow is gone if its unfollow
  succeeded, the row of the opposite follow if the statement that deletes it succeeded, and a row whose deletion
  failed stays, because the handler only logs that and stores the block all the same; the rows of other
  pairs are as before in every case. If the handler answers that the account is blocked, then afterwards
  neither of the two can start to follow the other: both directions are refused. If no call fails, both follows end
  and the handler answers so.
\<close>

theorem block_ends_follows:
  assumes "actor_id target \<noteq> me" "unfollow_target E me my_name target w = (u, w1)" "block_actor E me my_name target w = (r, w')"
  shows "find_row a b (table w') = (if (a, b) = (me, actor_id target) \<and> u = Inr ()
        \<or> (a, b) = (actor_id target, me) \<and> \<not> call_fails E (calls w1) then None else find_row a b (table w))
    \<and> (r = Inr () \<longrightarrow> fst (check_not_blocked F me (actor_id target) w') = Inl (if call_fails F (calls w') then Internal_Error else Blocked)
        \<and> fst (check_not_blocked F (actor_id target) me w') = Inl (if call_fails F (calls w') then Internal_Error else Blocked))
    \<and> ((\<forall>n. \<not> call_fails E n) \<longrightarrow> u = Inr () \<and> r = Inr ())"
proof (intro conjI impI)
  define w2 where "w2 = snd (sql E (\<lambda>d. ((), delete_by_actors (actor_id target) me d)) w1)"
  obtain rkey w3 where w3: "(case at_did target of Some did \<Rightarrow> commit_block E me did w2 | None \<Rightarrow> (None, w2)) = (rkey, w3)"
    by fastforce
  define v where "v = (if actor_type target \<noteq> ''local'' then (case (ap_inbox_url target, ap_uri target) of
       (Some inbox, Some uri) \<Rightarrow> snd (post E inbox (answer_activity ''Block'' (block_activity_id E (actor_id target))
           (user_uri E my_name) (JString uri)) w3) | _ \<Rightarrow> w3) else w3)"
  have run: "or_fail (call E (insert_block me (actor_id target) rkey) v) Call_Failed (\<lambda>_ w. (Inr (), w)) = (r, w')"
    using assms(1,3) w3 unfolding block_actor_def Let_def assms(2) snd_conv w2_def [symmetric] v_def by simp
  have "table w3 = table w2" using w3 by (auto split: option.splits dest!: table_kept_result(2))
  then have v: "table v = table w2" by (simp add: v_def split: option.split)
  have "table w' = table v" using run table_kept(7) [of E me "actor_id target" rkey v]
    by (cases "call E (insert_block me (actor_id target) rkey) v") (auto simp: or_fail_def split: option.splits)
  then have "table w' = (if call_fails E (calls w1) then table w1 else delete_by_actors (actor_id target) me (table w1))"
    by (simp add: v w2_def table_sql_delete)
  then show "find_row a b (table w') = (if (a, b) = (me, actor_id target) \<and> u = Inr ()
        \<or> (a, b) = (actor_id target, me) \<and> \<not> call_fails E (calls w1) then None else find_row a b (table w))"
    unfolding unfollow_table [OF assms(2)] using assms(1) by (cases "u = Inr ()"; cases "call_fails E (calls w1)") (auto simp: find_row_delete)
  have blocked: "map_of (blocks w') (me, actor_id target) \<noteq> None" if "r = Inr ()"
  proof -
    have "w' = snd (insert_block me (actor_id target) rkey v)\<lparr>calls := calls v + 1\<rparr>"
      using run that by (simp add: or_fail_def call_def split_def split: if_splits)
    then show ?thesis using insert_block_related [of me "actor_id target" rkey v] by simp
  qed
  show "fst (check_not_blocked F me (actor_id target) w') = Inl (if call_fails F (calls w') then Internal_Error else Blocked)"
    "fst (check_not_blocked F (actor_id target) me w') = Inl (if call_fails F (calls w') then Internal_Error else Blocked)"
    if "r = Inr ()" using check_blocked [OF blocked [OF that]] by blast+
  show "u = Inr ()" if "\<forall>n. \<not> call_fails E n" using unfollow_never_fails [OF that, of me my_name target w] assms(2) by simp
  show "r = Inr ()" if "\<forall>n. \<not> call_fails E n" using run that by (simp add: or_fail_def call_def insert_block_def)
qed

theorem block_ends_follows_witness:
  "find_row 1 2 (table (snd (block_actor (demo_env False) 2 ''bob'' (demo_actor 1 ''alice'' False) demo_world))) = None
    \<and> fst (check_not_blocked (demo_env False) 1 2 (snd (block_actor (demo_env False) 2 ''bob'' (demo_actor 1 ''alice'' False) demo_world))) = Inl Blocked"
proof -
  have "actor_id (demo_actor 1 ''alice'' False) \<noteq> 2" by (simp add: demo_actor_def)
  note * = block_ends_follows [OF this prod.collapse [symmetric] prod.collapse [symmetric], of 1 2 "demo_env False" "''bob''" demo_world "demo_env False"]
  have "\<forall>n. \<not> call_fails (demo_env False) n" by (simp add: demo_env_def)
  then show ?thesis using * by (simp add: demo_actor_def)
qed

end
