(* ===== verification/Follow_Race.thy ===== *)
theory Follow_Race
  imports Follow_Safety
begin

text \<open>
  Follow requests at the same time, the answers of other servers, and the identifier that an answer may
  quote. A request runs in the three phases of \<open>establish_atp_follow\<close>, which other requests may interrupt.
\<close>

section \<open>A request in phases\<close>

datatype request = Ready | Claimed | Committed string | Finished "follow_error + bool"

fun phase :: "follow_env \<Rightarrow> actor_id \<Rightarrow> actor_id \<Rightarrow> string \<Rightarrow> request \<Rightarrow> follow_world \<Rightarrow> request \<times> follow_world" where
  "phase E f t did Ready w = (case claim_follow E f t w of
      (Inl e, w) \<Rightarrow> (Finished (Inl e), w) | (Inr b, w) \<Rightarrow> (if b then Claimed else Finished (Inr False), w))"
| "phase E f t did Claimed w = (case commit_claimed E f t did w of
      (Inl e, w) \<Rightarrow> (Finished (Inl e), w) | (Inr k, w) \<Rightarrow> (Committed k, w))"
| "phase E f t did (Committed k) w = (case record_rkey E f t k w of
      (Inl e, w) \<Rightarrow> (Finished (Inl e), w) | (Inr _, w) \<Rightarrow> (Finished (Inr True), w))"
| "phase E f t did (Finished r) w = (Finished r, w)"

text \<open>Alone, the three phases are the whole operation.\<close>

lemma establish_is_its_phases:
  "(case phase E f t did Ready w of (r, w) \<Rightarrow> case phase E f t did r w of (r, w) \<Rightarrow> phase E f t did r w)
    = (case establish_atp_follow E f t did w of (r, w) \<Rightarrow> (Finished r, w))"
  by (auto simp: establish_atp_follow_def and_then_def split: prod.split sum.split)

inductive race_step :: "follow_env \<Rightarrow> actor_id \<Rightarrow> actor_id \<Rightarrow> string \<Rightarrow> follow_world \<times> request list \<Rightarrow> follow_world \<times> request list \<Rightarrow> bool"
  for E f t did where
  "i < length rs \<Longrightarrow> phase E f t did (rs ! i) w = (r, w') \<Longrightarrow> race_step E f t did (w, rs) (w', rs[i := r])"

section \<open>What a phase does\<close>

text \<open>The keys of the records of \<open>f\<close> about \<open>did\<close>, and the requests that hold the row.\<close>

definition keys_about :: "actor_id \<Rightarrow> string \<Rightarrow> follow_world \<Rightarrow> string list" where
  "keys_about f did w = map (\<lambda>(_, k, _). k) (filter (\<lambda>(a, _, d). a = f \<and> d = did) (follow_records w))"

fun holds_row :: "request \<Rightarrow> bool" where
  "holds_row Claimed = True" | "holds_row (Committed k) = True" | "holds_row r = False"

definition row_of :: "actor_id \<Rightarrow> actor_id \<Rightarrow> follow_world \<Rightarrow> (follow_status \<times> string option) option" where
  "row_of f t w = map_option (\<lambda>r. (status r, atp_rkey r)) (find_row f t (table w))"

lemma claim_cases:
  assumes "claim_follow E f t w = (res, w')"
  obtains e where "res = Inl e" "row_of f t w' = row_of f t w" "keys_about a did w' = keys_about a did w"
  | "res = Inr False" "row_of f t w' = row_of f t w" "keys_about a did w' = keys_about a did w" "row_of f t w \<noteq> None"
  | "res = Inr True" "row_of f t w = None" "row_of f t w' = Some (Accepted, None)" "keys_about a did w' = keys_about a did w"
  using assms
  by (cases "find_row f t (table w)")
    (auto simp: claim_follow_def sql_def call_def or_fail_def insert_accepted_with_rkey_def row_of_def keys_about_def find_row_insert
      split: if_splits)

lemma commit_cases:
  assumes "commit_claimed E f t did w = (res, w')"
  obtains e where "res = Inl e" "row_of f t w' \<in> {row_of f t w, None}" "keys_about f did w' = keys_about f did w"
  | k where "res = Inr k" "row_of f t w' = row_of f t w" "keys_about f did w' = keys_about f did w @ [k]"
  using assms
  by (auto simp: commit_claimed_def commit_follow_def sql_def call_def row_of_def keys_about_def find_row_delete Let_def
      split: if_splits)

lemma record_cases:
  assumes "record_rkey E f t k w = (res, w')" "row_of f t w = Some (st, rk)"
  obtains e where "res = Inl e" "row_of f t w' = row_of f t w" "keys_about f did w' = keys_about f did w"
  | "res = Inr ()" "row_of f t w' = Some (st, Some k)" "keys_about f did w' = keys_about f did w"
proof -
  obtain r where r: "find_row f t (table w) = Some r" "status r = st" using assms(2) by (auto simp: row_of_def)
  have "fst (set_atp_rkey f t k (table w))"
    using r(1) by (auto simp: set_atp_rkey_def update_rows_def Let_def filter_empty_conv find_row_def find_Some_iff)
  moreover have "find_row f t (snd (set_atp_rkey f t k (table w))) = Some (r\<lparr>atp_rkey := Some k\<rparr>)"
    using find_row_update [of f t "\<lambda>r. r\<lparr>atp_rkey := Some k\<rparr>" f t "\<lambda>_. True" "table w"] r(1) find_row_SomeD(2,3) [OF r(1)]
    by (simp add: set_atp_rkey_def split_def of_pair_def)
  ultimately show thesis using assms(1) that r
    by (auto simp: record_rkey_def sql_def call_def or_fail_def row_of_def keys_about_def split_def split: if_splits)
qed

section \<open>Any interleaving\<close>

definition holders :: "request list \<Rightarrow> request multiset" where
  "holders rs = filter_mset holds_row (mset rs)"

definition winners :: "request list \<Rightarrow> nat" where
  "winners rs = count (mset rs) (Finished (Inr True))"

lemma holders_update: "i < length rs \<Longrightarrow> holders (rs[i := r]) =
    (if holds_row r then {#r#} else {#}) + (holders rs - (if holds_row (rs ! i) then {#rs ! i#} else {#}))"
  by (simp add: holders_def mset_update)

lemma winners_update: "i < length rs \<Longrightarrow> winners (rs[i := r]) =
    (if r = Finished (Inr True) then 1 else 0) + (winners rs - (if rs ! i = Finished (Inr True) then 1 else 0))"
  by (simp add: winners_def mset_update)

lemma holder_member: "i < length rs \<Longrightarrow> holds_row (rs ! i) \<Longrightarrow> rs ! i \<in># holders rs"
  by (simp add: holders_def)

text \<open>Who holds the row, what is in the repository, and how many requests have succeeded.\<close>

inductive race_inv :: "actor_id \<Rightarrow> actor_id \<Rightarrow> string \<Rightarrow> follow_world \<Rightarrow> request list \<Rightarrow> bool" for f t did w rs where
  free: "row_of f t w = None \<Longrightarrow> holders rs = {#} \<Longrightarrow> keys_about f did w = [] \<Longrightarrow> winners rs = 0 \<Longrightarrow> race_inv f t did w rs"
| claimed: "row_of f t w = Some (Accepted, None) \<Longrightarrow> holders rs = {#Claimed#} \<Longrightarrow> keys_about f did w = [] \<Longrightarrow> winners rs = 0
    \<Longrightarrow> race_inv f t did w rs"
| committed: "row_of f t w = Some (Accepted, None) \<Longrightarrow> holders rs = {#Committed k#} \<Longrightarrow> keys_about f did w = [k] \<Longrightarrow> winners rs = 0
    \<Longrightarrow> race_inv f t did w rs"
| abandoned: "row_of f t w = Some (Accepted, None) \<Longrightarrow> holders rs = {#} \<Longrightarrow> length (keys_about f did w) \<le> 1 \<Longrightarrow> winners rs = 0
    \<Longrightarrow> race_inv f t did w rs"
| recorded: "row_of f t w = Some (Accepted, Some k) \<Longrightarrow> holders rs = {#} \<Longrightarrow> keys_about f did w = [k] \<Longrightarrow> winners rs = 1
    \<Longrightarrow> race_inv f t did w rs"

lemma race_claim:
  assumes inv: "race_inv f t did w rs" and i: "i < length rs" "rs ! i = Ready" and step: "phase E f t did Ready w = (r, w')"
  shows "race_inv f t did w' (rs[i := r])"
proof -
  obtain res where c: "claim_follow E f t w = (res, w')" using step by (cases "claim_follow E f t w") (auto split: sum.splits)
  have upd: "holders (rs[i := r]) = (if holds_row r then {#r#} else {#}) + holders rs"
    "winners (rs[i := r]) = (if r = Finished (Inr True) then 1 else 0) + winners rs"
    using holders_update [OF i(1), of r] winners_update [OF i(1), of r] i(2) by simp_all
  from c show ?thesis
  proof (cases rule: claim_cases [where a = f and did = did])
    case (1 e)
    then have "r = Finished (Inl e)" using step c by simp
    then show ?thesis using inv 1 upd by (simp add: race_inv.simps)
  next
    case 2
    then have "r = Finished (Inr False)" using step c by simp
    then show ?thesis using inv 2 upd by (simp add: race_inv.simps)
  next
    case 3
    then have r: "r = Claimed" using step c by simp
    from inv 3(2) have "holders rs = {#}" "keys_about f did w = []" "winners rs = 0" by (auto elim!: race_inv.cases)
    then show ?thesis using 3 upd by (intro race_inv.claimed) (simp_all add: r)
  qed
qed

lemma race_commit:
  assumes inv: "race_inv f t did w rs" and i: "i < length rs" "rs ! i = Claimed" and step: "phase E f t did Claimed w = (r, w')"
  shows "race_inv f t did w' (rs[i := r])"
proof -
  obtain res where c: "commit_claimed E f t did w = (res, w')" using step by (cases "commit_claimed E f t did w") (auto split: sum.splits)
  have upd: "holders (rs[i := r]) = (if holds_row r then {#r#} else {#}) + (holders rs - {#Claimed#})"
    "winners (rs[i := r]) = (if r = Finished (Inr True) then 1 else 0) + winners rs"
    using holders_update [OF i(1), of r] winners_update [OF i(1), of r] i(2) by simp_all
  have "Claimed \<in># holders rs" using holder_member [OF i(1)] i(2) by simp
  with inv have held: "row_of f t w = Some (Accepted, None)" "holders rs = {#Claimed#}" "keys_about f did w = []" "winners rs = 0"
    by (auto elim!: race_inv.cases)
  from c show ?thesis
  proof (cases rule: commit_cases)
    case (1 e)
    then have r: "r = Finished (Inl e)" using step c by simp
    show ?thesis
    proof (cases "row_of f t w' = None")
      case True
      then show ?thesis using held 1(3) upd by (intro race_inv.free) (simp_all add: r)
    next
      case False
      then show ?thesis using held 1 upd by (intro race_inv.abandoned) (auto simp: r)
    qed
  next
    case (2 k)
    then have "r = Committed k" using step c by simp
    then show ?thesis using held 2 upd by (intro race_inv.committed) simp_all
  qed
qed

lemma race_record:
  assumes inv: "race_inv f t did w rs" and i: "i < length rs" "rs ! i = Committed k" and step: "phase E f t did (Committed k) w = (r, w')"
  shows "race_inv f t did w' (rs[i := r])"
proof -
  obtain res where c: "record_rkey E f t k w = (res, w')" using step by (cases "record_rkey E f t k w") (auto split: sum.splits)
  have upd: "holders (rs[i := r]) = (if holds_row r then {#r#} else {#}) + (holders rs - {#Committed k#})"
    "winners (rs[i := r]) = (if r = Finished (Inr True) then 1 else 0) + winners rs"
    using holders_update [OF i(1), of r] winners_update [OF i(1), of r] i(2) by simp_all
  have mem: "Committed k \<in># holders rs" using holder_member [OF i(1)] i(2) by simp
  from inv mem have held: "row_of f t w = Some (Accepted, None)" "holders rs = {#Committed k#}" "keys_about f did w = [k]" "winners rs = 0"
    by (auto elim!: race_inv.cases)
  from c held(1) show ?thesis
  proof (cases rule: record_cases [where did = did])
    case (1 e)
    then show ?thesis using held step c by (auto simp: upd race_inv.simps)
  next
    case 2
    then show ?thesis using held step c by (auto simp: upd race_inv.simps)
  qed
qed

lemma race_step_inv: "race_step E f t did (w, rs) (w', rs') \<Longrightarrow> race_inv f t did w rs \<Longrightarrow> race_inv f t did w' rs'"
proof (induction "(w, rs)" "(w', rs')" rule: race_step.induct)
  case (1 i r)
  then show ?case
  proof (cases "rs ! i")
    case (Finished x)
    then have "rs[i := r] = rs" "w' = w" using 1 by auto
    then show ?thesis using 1 by simp
  qed (use 1 race_claim race_commit race_record in \<open>metis\<close>)+
qed

lemma race_inv_reachable:
  assumes "(race_step E f t did)\<^sup>*\<^sup>* (w, rs) (w', rs')" "race_inv f t did w rs"
  shows "race_inv f t did w' rs'"
  using assms by (induction rule: rtranclp_induct2) (auto intro: race_step_inv)

text \<open>
  C25. However many requests to follow the same actor run at the same time, and whichever of their calls
  fail: the repository never has more than one record of the follow, at most one request reports it as
  new, and once one has, the row is accepted and has the key of that record.
\<close>

theorem concurrent_follows_commit_once:
  assumes "(race_step E f t did)\<^sup>*\<^sup>* (w, replicate n Ready) (w', rs)" "row_of f t w = None" "keys_about f did w = []"
  shows "length (keys_about f did w') \<le> 1 \<and> winners rs \<le> 1
    \<and> (if winners rs = 1 then map_option (\<lambda>(st, k). (st, map_option (\<lambda>k. [k]) k)) (row_of f t w') = Some (Accepted, Some (keys_about f did w'))
       else True)"
proof -
  have "race_inv f t did w (replicate n Ready)"
    using assms(2,3) by (intro race_inv.free) (auto simp: holders_def winners_def)
  then have "race_inv f t did w' rs" using race_inv_reachable [OF assms(1)] by blast
  then show ?thesis by cases auto
qed

text \<open>Two requests of alice to follow bob, the second of which comes too late.\<close>

definition demo_race :: "follow_world \<times> request list" where
  "demo_race = (let (r, w) = phase (demo_env False) 1 2 ''did:plc:bob'' Ready empty_world;
       (r', w) = phase (demo_env False) 1 2 ''did:plc:bob'' Ready w;
       (r, w) = phase (demo_env False) 1 2 ''did:plc:bob'' r w;
       (r, w) = phase (demo_env False) 1 2 ''did:plc:bob'' r w in (w, [r, r']))"

lemma demo_race_steps: "(race_step (demo_env False) 1 2 ''did:plc:bob'')\<^sup>*\<^sup>* (empty_world, replicate 2 Ready) demo_race"
proof -
  let ?p = "phase (demo_env False) 1 2 ''did:plc:bob''"
  obtain r1 w1 where 1: "?p Ready empty_world = (r1, w1)" by (cases "?p Ready empty_world")
  obtain r2 w2 where 2: "?p Ready w1 = (r2, w2)" by (cases "?p Ready w1")
  obtain r3 w3 where 3: "?p r1 w2 = (r3, w3)" by (cases "?p r1 w2")
  obtain r4 w4 where 4: "?p r3 w3 = (r4, w4)" by (cases "?p r3 w3")
  have s1: "race_step (demo_env False) 1 2 ''did:plc:bob'' (empty_world, [Ready, Ready]) (w1, [r1, Ready])"
    using race_step.intros [of 0 "[Ready, Ready]" "demo_env False" 1 2 "''did:plc:bob''" empty_world r1 w1] 1 by simp
  have s2: "race_step (demo_env False) 1 2 ''did:plc:bob'' (w1, [r1, Ready]) (w2, [r1, r2])"
    using race_step.intros [of 1 "[r1, Ready]" "demo_env False" 1 2 "''did:plc:bob''" w1 r2 w2] 2 by simp
  have s3: "race_step (demo_env False) 1 2 ''did:plc:bob'' (w2, [r1, r2]) (w3, [r3, r2])"
    using race_step.intros [of 0 "[r1, r2]" "demo_env False" 1 2 "''did:plc:bob''" w2 r3 w3] 3 by simp
  have s4: "race_step (demo_env False) 1 2 ''did:plc:bob'' (w3, [r3, r2]) (w4, [r4, r2])"
    using race_step.intros [of 0 "[r3, r2]" "demo_env False" 1 2 "''did:plc:bob''" w3 r4 w4] 4 by simp
  have "demo_race = (w4, [r4, r2])" using 1 2 3 4 by (simp add: demo_race_def Let_def)
  moreover have "(race_step (demo_env False) 1 2 ''did:plc:bob'')\<^sup>*\<^sup>* (empty_world, [Ready, Ready]) (w4, [r4, r2])"
    using s1 s2 s3 s4 by (meson rtranclp.rtrancl_refl rtranclp.rtrancl_into_rtrancl)
  ultimately show ?thesis by (simp add: numeral_2_eq_2)
qed

theorem concurrent_follows_commit_once_witness:
  "winners (snd demo_race) = 1 \<and> keys_about 1 ''did:plc:bob'' (fst demo_race) = [''2'']
    \<and> length (keys_about 1 ''did:plc:bob'' (fst demo_race)) \<le> 1"
proof -
  have "row_of 1 2 empty_world = None" "keys_about 1 ''did:plc:bob'' empty_world = []" by code_simp+
  from concurrent_follows_commit_once [OF _ this, of "demo_env False" 2 "fst demo_race" "snd demo_race"] demo_race_steps
  have "length (keys_about 1 ''did:plc:bob'' (fst demo_race)) \<le> 1" by simp
  moreover have "winners (snd demo_race) = 1 \<and> keys_about 1 ''did:plc:bob'' (fst demo_race) = [''2'']" by code_simp
  ultimately show ?thesis by simp
qed

section \<open>A follow that is taken back too early\<close>

text \<open>
  The record of the key goes by the two actors, not by the request: alice's first request is cut
  short by an unfollow, her second one takes the row anew, and the first writes its key into that row before
  the second does. Both requests report success, the repository has two records, and the row knows the
  key of one only, so that ending the follow leaves the other record behind.
\<close>

definition overtaken :: "request \<times> request \<times> follow_world" where
  "overtaken = (let E = demo_env False; p = phase E 1 2 ''did:plc:bob'';
       (a, w) = p Ready empty_world;
       w = snd (unfollow_target E 1 ''alice'' (demo_actor 2 ''bob'' False) w);
       (b, w) = p Ready w; (a, w) = p a w; (a, w) = p a w; (b, w) = p b w; (b, w) = p b w in (a, b, w))"

theorem overtaken_follow_leaves_record:
  "case overtaken of (a, b, w) \<Rightarrow>
     a = Finished (Inr True) \<and> b = Finished (Inr True) \<and> keys_about 1 ''did:plc:bob'' w = [''4'', ''6'']
     \<and> find_atp_rkey 1 2 (table w) = Some ''6''
     \<and> (let w' = snd (unfollow_target (demo_env False) 1 ''alice'' (demo_actor 2 ''bob'' False) w) in
        find_row 1 2 (table w') = None \<and> keys_about 1 ''did:plc:bob'' w' = [''4''])"
  by code_simp

section \<open>An answer nobody asked for\<close>

lemma strip_user_uri: "strip_prefix (user_uri E name) (''https://'' @ local_domain E @ ''/users/'') = Some name"
  using strip_prefix_append [of "''https://'' @ local_domain E @ ''/users/''" name] by (simp add: user_uri_def)

text \<open>
  The answer of an actor known on both networks is not checked against a request: where there is no
  follow at all, an Accept for a follow of a local account writes a follow record into that account's
  repository, while the table stays as it is and does not know the record's key.
\<close>

theorem unasked_accept_follows:
  assumes "reliable E" "str_field activity ''actor'' = Some uri"
    and "object_of activity = JObject [(''type'', JString ''Follow''), (''actor'', JString (user_uri E name))]"
    and "actor_or_withdrawn E name (local_domain E) = Some me" "actor_type me = ''local''"
    and "actor_with_uri E uri = Some remote" "actor_type remote = ''remote_seiran''" "at_did remote = Some did"
    and "find_row (actor_id me) (actor_id remote) (table w) = None"
  shows "\<exists>k. follow_records (snd (handle_accept E activity w)) = follow_records w @ [(actor_id me, k, did)]
    \<and> table (snd (handle_accept E activity w)) = table w"
proof -
  have "snd (accept_and_set_rkey (actor_id me) (actor_id remote) k (table w)) = table w"
    "fst (accept_and_set_rkey (actor_id me) (actor_id remote) k (table w)) = 0" for k
    using assms(9) all_rows_kept [of "actor_id me" "actor_id remote" "follows (table w)"]
    by (auto simp: accept_and_set_rkey_def update_rows_def Let_def no_row_iff filter_empty_conv list_all_iff)
  then have "sql E (accept_and_set_rkey (actor_id me) (actor_id remote) k) v = (Some 0, v\<lparr>calls := calls v + 1\<rparr>)"
    if "table v = table w" for k v
    using assms(1) that by (simp add: sql_def reliable_call split_def)
  moreover have "accepting_actor E (object_of activity) uri w = (Inr (Some me), w\<lparr>calls := calls w + 1\<rparr>)"
    using assms(1,4) strip_user_uri [of E name]
    by (simp add: assms(3) accepting_actor_def str_field_def ask_def reliable_call or_fail_def)
  ultimately show ?thesis
    using assms(1,2,5-8)
    by (simp add: handle_accept_def ask_def reliable_call or_fail_def and_then_def commit_married_def commit_follow_def Let_def)
qed

definition accept_env :: follow_env where
  "accept_env = (demo_env False)\<lparr>actor_or_withdrawn := (\<lambda>_ _. Some (demo_actor 1 ''alice'' False)),
     actor_with_uri := (\<lambda>_. Some ((demo_actor 9 ''mallory'' False)\<lparr>actor_type := ''remote_seiran'', domain := ''there''\<rparr>))\<rparr>"

definition accept_activity_json :: json where
  "accept_activity_json = JObject [(''type'', JString ''Accept''), (''actor'', JString ''https://there/users/mallory''),
     (''object'', JObject [(''type'', JString ''Follow''), (''actor'', JString (user_uri accept_env ''alice''))])]"

theorem unasked_accept_follows_witness:
  "\<exists>k. follow_records (snd (handle_accept accept_env accept_activity_json empty_world)) = [(1, k, ''did:plc:mallory'')]"
proof -
  have "reliable accept_env" "find_row 1 9 (table empty_world) = None"
    by (simp_all add: reliable_def accept_env_def demo_env_def empty_world_def empty_follow_db_def find_row_def)
  with unasked_accept_follows [of accept_env accept_activity_json "''https://there/users/mallory''" "''alice''"
      "demo_actor 1 ''alice'' False" "(demo_actor 9 ''mallory'' False)\<lparr>actor_type := ''remote_seiran'', domain := ''there''\<rparr>"
      "''did:plc:mallory''" empty_world]
  show ?thesis
    by (simp add: accept_activity_json_def str_field_def object_of_def accept_env_def demo_actor_def empty_world_def)
qed

section \<open>The identifier of a follow\<close>

lemma split_once_first: "sep \<notin> set a \<Longrightarrow> split_once sep (a @ sep # b) = Some (a, b)"
  by (induction a) auto

text \<open>
  The identifier under which a follow is sent is read back to the two actors by the handler of an
  Accept that quotes it.
\<close>

theorem follow_id_round_trip:
  assumes "0 \<le> a" "a < 2 ^ 63" "0 \<le> b" "b < 2 ^ 63"
  shows "parse_local_follow_activity_id (follow_activity_id E a b) (local_domain E) = Some (a, b)"
proof -
  have "CHR ''-'' \<notin> set (show_i64 a)"
    using decimal_digits [of "CHR ''-''" "nat a"] assms(1) by (auto simp: show_i64_def is_ascii_digit_def)
  then have "split_once CHR ''-'' (show_i64 a @ CHR ''-'' # show_i64 b) = Some (show_i64 a, show_i64 b)"
    by (rule split_once_first)
  then show ?thesis
    using assms parse_show_i64 [of a] parse_show_i64 [of b]
      strip_prefix_append [of "''https://'' @ local_domain E @ ''/activities/follow/''" "show_i64 a @ ''-'' @ show_i64 b"]
    by (simp add: parse_local_follow_activity_id_def follow_activity_id_def)
qed

theorem follow_id_round_trip_witness:
  "parse_local_follow_activity_id (follow_activity_id (demo_env True) 17 42) ''here'' = Some (17, 42)"
  using follow_id_round_trip [of 17 42 "demo_env True"] by (simp add: demo_env_def)

end
