(* ===== verification/Follow_Requests.thy ===== *)
theory Follow_Requests
  imports Follow_Safety
begin

text \<open>
  The requests of a locked account: the API's list, approval and rejection
  (\<open>crates/seiran-api/src/handlers/follow_requests.rs\<close>) and the job that approves all of them when the account
  is unlocked (\<open>crates/seiran-common/src/jobs/follow_requests_bulk_accept.rs\<close>).
\<close>

section \<open>The API\<close>

datatype request_error = Request_Not_Found | Request_Internal

definition load_pending_pair ::
  "follow_env \<Rightarrow> actor_id \<Rightarrow> actor_id \<Rightarrow> follow_world \<Rightarrow> (request_error + actor \<times> actor) \<times> follow_world" where
  "load_pending_pair E me flw w =
     or_fail (ask E (find_status flw me (table w)) w) Request_Internal (\<lambda>st w.
     if st \<noteq> Some Pending then (Inl Request_Not_Found, w)
     else or_fail (ask E (actor_with_id E flw) w) Request_Internal (\<lambda>found w.
       case found of None \<Rightarrow> (Inl Request_Not_Found, w) | Some flw_actor \<Rightarrow>
       or_fail (ask E (actor_with_id E me) w) Request_Internal (\<lambda>found w.
         case found of None \<Rightarrow> (Inl Request_Internal, w) | Some target \<Rightarrow> (Inr (flw_actor, target), w))))"

text \<open>The error of the inner operation becomes an internal one.\<close>

definition internally :: "(handler_error + 'a) \<times> follow_world \<Rightarrow> (request_error + 'a) \<times> follow_world" where
  "internally m = (case m of (Inr x, w) \<Rightarrow> (Inr x, w) | (Inl e, w) \<Rightarrow> (Inl Request_Internal, w))"

definition accept_follow_request :: "follow_env \<Rightarrow> actor_id \<Rightarrow> actor_id \<Rightarrow> follow_world \<Rightarrow> (request_error + unit) \<times> follow_world" where
  "accept_follow_request E me flw w =
     and_then (load_pending_pair E me flw w) (\<lambda>(flw_actor, target) w. internally (approve_pending_follow E flw_actor target w))"

definition reject_follow_request :: "follow_env \<Rightarrow> actor_id \<Rightarrow> actor_id \<Rightarrow> follow_world \<Rightarrow> (request_error + unit) \<times> follow_world" where
  "reject_follow_request E me flw w =
     and_then (load_pending_pair E me flw w) (\<lambda>(flw_actor, target) w. internally (reject_pending_follow E flw_actor target w))"

definition list_follow_requests :: "follow_env \<Rightarrow> actor_id \<Rightarrow> follow_world \<Rightarrow> (request_error + follow_row list) \<times> follow_world" where
  "list_follow_requests E me w =
     or_fail (ask E (list_pending_followers me 200 (table w)) w) Request_Internal (\<lambda>rows w. (Inr rows, w))"

definition count_follow_requests :: "follow_env \<Rightarrow> actor_id \<Rightarrow> follow_world \<Rightarrow> (request_error + nat) \<times> follow_world" where
  "count_follow_requests E me w =
     or_fail (ask E (count_pending me (table w)) w) Request_Internal (\<lambda>n w. (Inr n, w))"

section \<open>The job\<close>

definition approve_found :: "follow_env \<Rightarrow> actor \<Rightarrow> actor_id \<Rightarrow> follow_world \<Rightarrow> follow_world" where
  "approve_found E target flw w =
     (case ask E (actor_with_id E flw) w of
        (Some (Some flw_actor), w) \<Rightarrow> snd (approve_pending_follow E flw_actor target w)
      | (_, w) \<Rightarrow> w)"

definition process_locked :: "follow_env \<Rightarrow> actor_id \<Rightarrow> follow_world \<Rightarrow> (handler_error + unit) \<times> follow_world" where
  "process_locked E me w =
     or_fail (ask E (actor_with_id E me) w) Call_Failed (\<lambda>found w.
     case found of None \<Rightarrow> (Inl Unknown_Actor, w) | Some target \<Rightarrow>
     or_fail (ask E (find_pending_followers_raw me (table w)) w) Call_Failed (\<lambda>pending w.
       (Inr (), fold (\<lambda>(flw, _). approve_found E target flw) pending w)))"

section \<open>What an approval changes\<close>

lemma accept_status: "find_status a b (snd (accept_and_set_rkey f t k db))
    = (if (a, b) = (f, t) then map_option (\<lambda>_. Accepted) (find_status a b db) else find_status a b db)"
proof -
  have "find_row a b (snd (accept_and_set_rkey f t k db)) = map_option (\<lambda>r. if of_pair f t r \<and> status r = Pending
      then r\<lparr>status := Accepted, atp_rkey := (case k of Some k \<Rightarrow> Some k | None \<Rightarrow> atp_rkey r)\<rparr> else r) (find_row a b db)"
    unfolding accept_and_set_rkey_def by (rule find_row_update) (simp add: of_pair_def)
  moreover have "status r = Accepted" if "status r \<noteq> Pending" for r :: follow_row using that by (cases "status r") auto
  ultimately show ?thesis
  proof (cases "find_row a b db")
    case (Some r)
    then show ?thesis using find_row_SomeD(2,3) [OF Some] \<open>\<And>r. status r \<noteq> Pending \<Longrightarrow> status r = Accepted\<close>
      \<open>find_row a b (snd (accept_and_set_rkey f t k db)) = _\<close>
      by (auto simp: find_status_def of_pair_def)
  qed (auto simp: find_status_def)
qed

lemma reliable_send_answer [simp]: "reliable E \<Longrightarrow> table (send_answer E ty path flw target w) = table w"
  by (simp add: send_answer_def answered_object_def ask_def reliable_call split: option.split)

lemma publish_table [simp]: "table (publish x w) = table w"
  by (simp add: publish_def)

lemma approve_table:
  assumes "reliable E" "at_did target = Some did"
  shows "\<exists>k. table (snd (approve_pending_follow E flw target w))
    = snd (accept_and_set_rkey (actor_id flw) (actor_id target) k (table w))"
  using assms
  by (auto simp: approve_pending_follow_def sql_def reliable_call or_fail_def commit_follow_def Let_def split_def)

lemma approve_found_status:
  assumes "reliable E" "at_did target = Some did" "actor_with_id E flw = Some a" "actor_id a = flw"
  shows "find_status f t (table (approve_found E target flw w))
    = (if (f, t) = (flw, actor_id target) then map_option (\<lambda>_. Accepted) (find_status f t (table w)) else find_status f t (table w))"
proof -
  have "table (approve_found E target flw w) = table (snd (approve_pending_follow E a target (w\<lparr>calls := calls w + 1\<rparr>)))"
    using assms(1,3) by (simp add: approve_found_def ask_def reliable_call)
  then show ?thesis using approve_table [OF assms(1,2), of a "w\<lparr>calls := calls w + 1\<rparr>"] assms(4) by (auto simp: accept_status)
qed

lemma approve_all_status:
  assumes "reliable E" "at_did target = Some did" "list_all (\<lambda>(flw, _). \<exists>a. actor_with_id E flw = Some a \<and> actor_id a = flw) pending"
  shows "find_status f (actor_id target) (table (fold (\<lambda>(flw, _). approve_found E target flw) pending w))
    = (if f \<in> fst ` set pending then map_option (\<lambda>_. Accepted) (find_status f (actor_id target) (table w))
       else find_status f (actor_id target) (table w))"
  using assms(3)
proof (induction pending arbitrary: w)
  case (Cons p pending)
  then show ?case
    by (cases p) (auto simp: approve_found_status [OF assms(1,2)] option.map_comp comp_def)
qed simp

lemma store_process: "store_ok w \<Longrightarrow> store_ok (snd (process_locked E me w))"
proof -
  have one: "store_ok v \<Longrightarrow> store_ok (approve_found E target flw v)" for v target flw
    by (auto simp: approve_found_def split: prod.split option.split intro: store.kept_approve dest: store.kept_askD)
  have "store_ok v \<Longrightarrow> store_ok (fold (\<lambda>(flw, _). approve_found E target flw) pending v)" for v target pending
    using one by (induction pending arbitrary: v) auto
  then show "store_ok w \<Longrightarrow> ?thesis"
    unfolding process_locked_def by (auto intro!: store.statements split: option.split)
qed

lemma pending_rows:
  assumes "follow_db_ok db" "r \<in> set (follows db)"
  shows "find_row (follower_actor_id r) (target_actor_id r) db = Some r"
proof -
  have "inj_on (\<lambda>r. (follower_actor_id r, target_actor_id r)) (set (follows db))"
    using assms(1) by (simp add: follow_db_ok_def distinct_map)
  moreover obtain x where x: "find_row (follower_actor_id r) (target_actor_id r) db = Some x"
    using assms(2) by (cases "find_row (follower_actor_id r) (target_actor_id r) db") (auto simp: find_row_None)
  ultimately have "x = r" using find_row_SomeD [OF x] assms(2) by (auto dest: inj_onD)
  then show ?thesis using x by simp
qed

text \<open>
  Unlocking an account answers all its requests: in a reachable world and with no failing call, the
  job leaves no request pending, whoever asked to follow or followed the account is an accepted
  follower, and nobody else is.
\<close>

theorem bulk_accept_clears_requests:
  assumes "follow_step\<^sup>*\<^sup>* empty_world w" "reliable E"
    and "actor_with_id E me = Some target" "actor_id target = me" "at_did target = Some did"
    and "list_all (\<lambda>(flw, _). \<exists>a. actor_with_id E flw = Some a \<and> actor_id a = flw) (find_pending_followers_raw me (table w))"
    and "w' = snd (process_locked E me w)"
  shows "count_pending me (table w') = 0
    \<and> find_status f me (table w') = map_option (\<lambda>_. Accepted) (find_status f me (table w))"
proof -
  let ?pending = "find_pending_followers_raw me (table w)"
  have ok: "store_ok w" by (rule store_reachable [OF assms(1)])
  have "w' = fold (\<lambda>(flw, _). approve_found E target flw) ?pending (w\<lparr>calls := calls w + 2\<rparr>)"
    using assms(2,3,7) by (simp add: process_locked_def ask_def reliable_call or_fail_def)
  then have st: "find_status g me (table w') = (if g \<in> fst ` set ?pending then map_option (\<lambda>_. Accepted) (find_status g me (table w))
       else find_status g me (table w))" for g
    using approve_all_status [OF assms(2,5,6), of g "w\<lparr>calls := calls w + 2\<rparr>"] assms(4) by simp
  have waiting: "g \<in> fst ` set ?pending" if p: "find_status g me (table w) = Some Pending" for g
  proof -
    obtain r where r: "find_row g me (table w) = Some r" "status r = Pending" using p by (auto simp: find_status_def)
    then show ?thesis using find_row_SomeD [OF r(1)] by (force simp: find_pending_followers_raw_def)
  qed
  have accepted: "find_status g me (table w') = map_option (\<lambda>_. Accepted) (find_status g me (table w))" for g
    using st [of g] waiting [of g] by (cases "find_status g me (table w)") (auto intro: follow_status.exhaust)
  have "status r \<noteq> Pending" if r: "r \<in> set (follows (table w'))" "target_actor_id r = me" for r
  proof -
    have "find_status (follower_actor_id r) me (table w') = Some (status r)"
      using pending_rows [of "table w'" r] store_process [OF ok, of E me] assms(7) r by (simp add: store_ok_def find_status_def)
    then show ?thesis using accepted [of "follower_actor_id r"] by (cases "find_status (follower_actor_id r) me (table w)") auto
  qed
  then have "count_pending me (table w') = 0" by (simp add: count_pending_def filter_empty_conv)
  then show ?thesis using accepted by simp
qed

definition request_env :: follow_env where
  "request_env = (demo_env True)\<lparr>actor_with_id := (\<lambda>i. Some (demo_actor i (if i = 1 then ''alice'' else ''bob'') (i = 2)))\<rparr>"

definition request_world :: follow_world where
  "request_world = snd (execute_follow request_env ''bob'' 1 ''alice'' empty_world)"

theorem bulk_accept_clears_requests_witness:
  "find_status 1 2 (table request_world) = Some Pending
    \<and> find_status 1 2 (table (snd (process_locked request_env 2 request_world))) = Some Accepted"
proof -
  have "follow_step\<^sup>*\<^sup>* empty_world request_world" unfolding request_world_def by (rule r_into_rtranclp, rule follow)
  moreover have "reliable request_env" "actor_with_id request_env 2 = Some (demo_actor 2 ''bob'' True)"
    "actor_id (demo_actor 2 ''bob'' True) = 2" "at_did (demo_actor 2 ''bob'' True) = Some ''did:plc:bob''"
    by (simp_all add: reliable_def request_env_def demo_env_def demo_actor_def)
  moreover have "list_all (\<lambda>(flw, _). \<exists>a. actor_with_id request_env flw = Some a \<and> actor_id a = flw)
      (find_pending_followers_raw 2 (table request_world))"
    by (auto simp: list_all_iff request_env_def demo_actor_def)
  moreover have "find_status 1 2 (table request_world) = Some Pending" by code_simp
  ultimately show ?thesis
    using bulk_accept_clears_requests [OF _ _ _ _ _ _ refl, of request_world request_env 2 "demo_actor 2 ''bob'' True" "''did:plc:bob''" 1]
    by simp
qed

end
