(* ===== verification/Post_Tables.thy ===== *)
theory Post_Tables
  imports Follows
begin

text \<open>
  The tables around posts: the columns and constraints of \<open>posts\<close> that the code of
  \<open>crates/seiran-common/src/repository/post.rs\<close> reads and writes, the actors with their counter of posts,
  recipients, attachments, follows, blocks, mutes, lists and notifications, and the statements the
  operations are made of: insertion with the triggers \<open>posts_set_is_local\<close> and
  \<open>posts_apply_relation_counts\<close> and the unique indexes, update and soft deletion.

  A column \<open>p.x\<close> is the field \<open>p_x\<close>, a table \<open>x\<close> the field \<open>t_x\<close>. The nine columns of the three
  references of a post (reply, quote, repost) are one field indexed by \<open>ReferenceKind\<close>, as are the three
  counters of a post. A time is its milliseconds. Columns that only pass through (\<open>at_cid\<close>, facets, polls,
  emoji maps and the like) are kept where an operation writes them.
\<close>

section \<open>Rows\<close>

type_synonym post_id = int

datatype visibility = Public | Unlisted | Followers_Only | Direct

datatype reference_kind = Reply_Ref | Quote_Ref | Repost_Ref

datatype ref_status = Ref_Pending | Ref_Gone

record post_reference =
  ref_post_id :: "post_id option"
  ref_ap_uri :: "string option"
  ref_state :: "ref_status option"

definition no_reference :: post_reference where
  "no_reference = \<lparr>ref_post_id = None, ref_ap_uri = None, ref_state = None\<rparr>"

record posts_row =
  p_id :: post_id
  p_actor_id :: actor_id
  p_body :: string
  p_content_html :: "string option"
  p_created_at :: int
  p_visibility :: visibility
  p_is_local :: bool
  p_refs :: "reference_kind \<Rightarrow> post_reference"
  p_counts :: "reference_kind \<Rightarrow> int"
  p_seiran_post_uuid :: "string option"
  p_parent_original_post_id :: "post_id option"
  p_thread_root_post_id :: "post_id option"
  p_ap_object_id :: "string option"
  p_at_uri :: "string option"
  p_at_cid :: "string option"
  p_at_rkey :: "string option"
  p_atp_repost_rkey :: "string option"
  p_claimed_ap_object_id :: "string option"
  p_claimed_at_uri :: "string option"
  p_deliver_fedi :: bool
  p_deliver_bsky :: bool
  p_emoji_map :: json
  p_mention_facets :: json
  p_content_warning :: "string option"
  p_poll :: "json option"
  p_poll_fetched_at :: "int option"
  p_poll_update_received :: bool
  p_language :: "string option"
  p_bridge_of_post_id :: "post_id option"
  p_bridged_original_uri :: "string option"
  p_deleted_at :: "int option"

text \<open>What \<open>INSERT INTO posts\<close> fills in for the columns it does not name.\<close>

definition new_post :: "post_id \<Rightarrow> actor_id \<Rightarrow> string \<Rightarrow> int \<Rightarrow> posts_row" where
  "new_post i a body created_at =
     \<lparr>p_id = i, p_actor_id = a, p_body = body, p_content_html = None, p_created_at = created_at,
      p_visibility = Public, p_is_local = False, p_refs = (\<lambda>_. no_reference), p_counts = (\<lambda>_. 0),
      p_seiran_post_uuid = None, p_parent_original_post_id = None, p_thread_root_post_id = None,
      p_ap_object_id = None, p_at_uri = None, p_at_cid = None, p_at_rkey = None, p_atp_repost_rkey = None,
      p_claimed_ap_object_id = None, p_claimed_at_uri = None, p_deliver_fedi = True, p_deliver_bsky = True,
      p_emoji_map = JObject [], p_mention_facets = JArray [], p_content_warning = None, p_poll = None,
      p_poll_fetched_at = None, p_poll_update_received = False, p_language = None,
      p_bridge_of_post_id = None, p_bridged_original_uri = None, p_deleted_at = None\<rparr>"

record actor_row =
  a_id :: actor_id
  a_actor_type :: string
  a_username :: string
  a_domain :: string
  a_display_name :: "string option"
  a_at_did :: "string option"
  a_notes_count :: int
  a_withdrawn_at :: "int option"
  a_suspended_at :: "int option"

record attachment_row =
  att_post_id :: post_id
  att_media_file_id :: "int option"
  att_remote_url :: "string option"
  att_remote_mime_type :: "string option"
  att_remote_thumbnail_url :: "string option"
  att_is_sensitive :: bool
  att_is_gif :: bool
  att_position :: int

record media_row =
  mf_id :: int
  mf_mime_type :: string
  mf_last_uploaded_at :: int

record notification_row =
  n_note_id :: "post_id option"
  n_recipient_actor_id :: actor_id
  n_type :: string

record post_db =
  t_posts :: "posts_row list"
  t_actors :: "actor_row list"
  t_post_recipients :: "(post_id \<times> actor_id) list"
  t_post_attachments :: "attachment_row list"
  t_media_files :: "media_row list"
  t_follows :: follow_db
  t_blocks :: "(actor_id \<times> actor_id) list"
  t_mutes :: "(actor_id \<times> actor_id) list"
  t_repost_mutes :: "(actor_id \<times> actor_id) list"
  t_list_members :: "(int \<times> actor_id) list"
  t_notifications :: "notification_row list"

datatype sql_error = Unique_Error | Sql_Error

type_synonym 'a sql_result = "sql_error + 'a"

abbreviation ref_of :: "reference_kind \<Rightarrow> posts_row \<Rightarrow> post_id option" where
  "ref_of k p \<equiv> ref_post_id (p_refs p k)"

abbreviation live :: "posts_row \<Rightarrow> bool" where
  "live p \<equiv> p_deleted_at p = None"

definition find_post :: "post_id \<Rightarrow> post_db \<Rightarrow> posts_row option" where
  "find_post i db = find (\<lambda>p. p_id p = i) (t_posts db)"

definition find_actor :: "actor_id \<Rightarrow> post_db \<Rightarrow> actor_row option" where
  "find_actor a db = find (\<lambda>r. a_id r = a) (t_actors db)"

definition post_known :: "post_db \<Rightarrow> post_id \<Rightarrow> bool" where
  "post_known db i \<longleftrightarrow> find_post i db \<noteq> None"

definition actor_known :: "post_db \<Rightarrow> actor_id \<Rightarrow> bool" where
  "actor_known db a \<longleftrightarrow> find_actor a db \<noteq> None"

section \<open>Constraints\<close>

text \<open>A unique index holds no equal keys, and a NULL is equal to nothing.\<close>

definition same_key :: "'a option \<Rightarrow> 'a option \<Rightarrow> bool" where
  "same_key x y \<longleftrightarrow> x \<noteq> None \<and> x = y"

definition coalesce :: "'a option \<Rightarrow> 'a option \<Rightarrow> 'a option" where
  "coalesce x y = (case x of Some _ \<Rightarrow> x | None \<Rightarrow> y)"

text \<open>\<open>posts_mutual_claim_key\<close> (\<open>migrations/20260906000000_actor_post_mutual_claim_unique.sql\<close>), on the live rows.\<close>

definition same_claims :: "posts_row \<Rightarrow> posts_row \<Rightarrow> bool" where
  "same_claims p q \<longleftrightarrow> live p \<and> live q
     \<and> same_key (coalesce (p_ap_object_id p) (p_claimed_ap_object_id p)) (coalesce (p_ap_object_id q) (p_claimed_ap_object_id q))
     \<and> same_key (coalesce (p_at_uri p) (p_claimed_at_uri p)) (coalesce (p_at_uri q) (p_claimed_at_uri q))"

definition unique_conflict :: "posts_row \<Rightarrow> posts_row \<Rightarrow> bool" where
  "unique_conflict p q \<longleftrightarrow> p_id p = p_id q
     \<or> same_key (p_seiran_post_uuid p) (p_seiran_post_uuid q)
     \<or> same_key (p_ap_object_id p) (p_ap_object_id q)
     \<or> same_key (p_at_uri p) (p_at_uri q)
     \<or> same_claims p q"

text \<open>The columns of a post that name another one.\<close>

definition foreign_posts :: "posts_row \<Rightarrow> post_id list" where
  "foreign_posts p = List.map_filter id
     [ref_of Reply_Ref p, ref_of Quote_Ref p, ref_of Repost_Ref p,
      p_parent_original_post_id p, p_thread_root_post_id p, p_bridge_of_post_id p]"

definition references_known :: "post_db \<Rightarrow> posts_row \<Rightarrow> bool" where
  "references_known db p \<longleftrightarrow> list_all (\<lambda>i. i = p_id p \<or> post_known db i) (foreign_posts p)"

section \<open>Statements\<close>

definition set_post :: "post_id \<Rightarrow> (posts_row \<Rightarrow> posts_row) \<Rightarrow> post_db \<Rightarrow> post_db" where
  "set_post i f db = db\<lparr>t_posts := map (\<lambda>p. if p_id p = i then f p else p) (t_posts db)\<rparr>"

definition update_actor :: "actor_id \<Rightarrow> (actor_row \<Rightarrow> actor_row) \<Rightarrow> post_db \<Rightarrow> post_db" where
  "update_actor a f db = db\<lparr>t_actors := map (\<lambda>r. if a_id r = a then f r else r) (t_actors db)\<rparr>"

text \<open>The trigger \<open>posts_apply_relation_counts\<close> on a row that appears and on one whose \<open>deleted_at\<close> gets a value.\<close>

definition bump_count :: "(int \<Rightarrow> int) \<Rightarrow> reference_kind \<Rightarrow> posts_row \<Rightarrow> post_db \<Rightarrow> post_db" where
  "bump_count f k child db = (case ref_of k child of None \<Rightarrow> db
     | Some parent \<Rightarrow> set_post parent (\<lambda>p. p\<lparr>p_counts := (p_counts p)(k := f (p_counts p k))\<rparr>) db)"

definition relation_counts_inserted :: "posts_row \<Rightarrow> post_db \<Rightarrow> post_db" where
  "relation_counts_inserted p db =
     (if live p then bump_count (\<lambda>n. n + 1) Repost_Ref p (bump_count (\<lambda>n. n + 1) Quote_Ref p (bump_count (\<lambda>n. n + 1) Reply_Ref p db))
      else db)"

definition relation_counts_deleted :: "posts_row \<Rightarrow> post_db \<Rightarrow> post_db" where
  "relation_counts_deleted p db =
     (let less = (\<lambda>n. max (n - 1) 0)
      in bump_count less Repost_Ref p (bump_count less Quote_Ref p (bump_count less Reply_Ref p db)))"

text \<open>
  \<open>INSERT INTO posts\<close>: the trigger \<open>posts_set_is_local\<close> reads the author before the row is stored, the
  unique indexes are checked when it is, the foreign keys and the counters after it.
\<close>

definition insert_posts :: "posts_row \<Rightarrow> post_db \<Rightarrow> post_db sql_result" where
  "insert_posts p db = (case find_actor (p_actor_id p) db of
       None \<Rightarrow> Inl Sql_Error
     | Some a \<Rightarrow>
         let row = p\<lparr>p_is_local := (a_actor_type a = ''local'')\<rparr>
         in if list_ex (unique_conflict row) (t_posts db) then Inl Unique_Error
            else if \<not> references_known db row then Inl Sql_Error
            else Inr (relation_counts_inserted row (db\<lparr>t_posts := t_posts db @ [row]\<rparr>)))"

text \<open>\<open>ON CONFLICT (column) DO NOTHING\<close>: a row with that key makes the statement do nothing; whether a row was inserted.\<close>

definition insert_unless :: "(posts_row \<Rightarrow> string option) \<Rightarrow> posts_row \<Rightarrow> post_db \<Rightarrow> (bool \<times> post_db) sql_result" where
  "insert_unless key p db =
     (if list_ex (\<lambda>q. same_key (key p) (key q)) (t_posts db) then Inr (False, db)
      else rbind (insert_posts p db) (\<lambda>db'. Inr (True, db')))"

text \<open>An update of columns under the unique indexes.\<close>

definition change_post :: "post_id \<Rightarrow> (posts_row \<Rightarrow> posts_row) \<Rightarrow> post_db \<Rightarrow> post_db sql_result" where
  "change_post i f db = (case find_post i db of
       None \<Rightarrow> Inr db
     | Some p \<Rightarrow>
         if list_ex (\<lambda>q. p_id q \<noteq> i \<and> unique_conflict (f p) q) (t_posts db) then Inl Unique_Error
         else if \<not> references_known db (f p) then Inl Sql_Error
         else Inr (set_post i f db))"

text \<open>\<open>UPDATE posts SET deleted_at = ... WHERE\<close> the row is live: the rows it returns.\<close>

definition soft_delete :: "(posts_row \<Rightarrow> bool) \<Rightarrow> int \<Rightarrow> post_db \<Rightarrow> posts_row list \<times> post_db" where
  "soft_delete P now db =
     (let hit = filter (\<lambda>p. P p \<and> live p) (t_posts db);
          marked = db\<lparr>t_posts := map (\<lambda>p. if P p \<and> live p then p\<lparr>p_deleted_at := Some now\<rparr> else p) (t_posts db)\<rparr>
      in (hit, fold relation_counts_deleted hit marked))"

definition count_note :: "actor_id \<Rightarrow> post_db \<Rightarrow> post_db" where
  "count_note a = update_actor a (\<lambda>r. r\<lparr>a_notes_count := a_notes_count r + 1\<rparr>)"

definition uncount_note :: "actor_id \<Rightarrow> post_db \<Rightarrow> post_db" where
  "uncount_note a = update_actor a (\<lambda>r. r\<lparr>a_notes_count := max (a_notes_count r - 1) 0\<rparr>)"

text \<open>
  \<open>INSERT INTO post_recipients\<close> of a new row: the table's key \<open>(post_id, actor_id)\<close>, its foreign keys.
\<close>

definition insert_recipients :: "post_id \<Rightarrow> actor_id list \<Rightarrow> post_db \<Rightarrow> post_db sql_result" where
  "insert_recipients i actors db =
     (let rows = map (Pair i) actors in
      if \<not> distinct actors \<or> list_ex (\<lambda>r. r \<in> set (t_post_recipients db)) rows then Inl Unique_Error
      else if \<not> list_all (actor_known db) actors \<or> (actors \<noteq> [] \<and> \<not> post_known db i) then Inl Sql_Error
      else Inr (db\<lparr>t_post_recipients := t_post_recipients db @ rows\<rparr>))"

text \<open>\<open>ORDER BY id DESC LIMIT n\<close>: a negative limit is refused.\<close>

definition newest_first :: "post_id list \<Rightarrow> post_id list" where
  "newest_first ids = rev (sort ids)"

definition limit_rows :: "int \<Rightarrow> 'a list \<Rightarrow> 'a list sql_result" where
  "limit_rows n rows = (if n < 0 then Inl Sql_Error else Inr (take (nat n) rows))"

text \<open>\<open>COALESCE($until, 9223372036854775807)\<close> and \<open>COALESCE($since, 0)\<close>.\<close>

definition i64_max :: int where "i64_max = 9223372036854775807"

definition until_bound :: "post_id option \<Rightarrow> post_id" where
  "until_bound u = (case u of Some i \<Rightarrow> i | None \<Rightarrow> i64_max)"

definition since_bound :: "post_id option \<Rightarrow> post_id" where
  "since_bound s = (case s of Some i \<Rightarrow> i | None \<Rightarrow> 0)"

end
