(* ===== verification/Posts.thy ===== *)
theory Posts
  imports Post_Tables
begin

text \<open>
  The writing half of \<open>PostRepository\<close> (\<open>crates/seiran-common/src/repository/post.rs\<close>), the ingestion of
  Bluesky posts (\<open>repository/bsky_ingest.rs\<close>), the deletion of a reported post (\<open>repository/report.rs\<close>) and
  the retry of a transaction that violated a unique index (\<open>unique_retry.rs\<close>). An operation is one
  transaction: an error leaves the tables as they were.
\<close>

section \<open>Names of the enums\<close>

fun parse_reference_kind :: "string \<Rightarrow> reference_kind option" where
  "parse_reference_kind s =
     (if s = ''reply'' then Some Reply_Ref else if s = ''quote'' then Some Quote_Ref
      else if s = ''repost'' then Some Repost_Ref else None)"

fun reference_kind_as_str :: "reference_kind \<Rightarrow> string" where
  "reference_kind_as_str Reply_Ref = ''reply''"
| "reference_kind_as_str Quote_Ref = ''quote''"
| "reference_kind_as_str Repost_Ref = ''repost''"

text \<open>The casts \<open>::post_visibility_enum\<close> and \<open>::post_reference_status\<close>.\<close>

definition cast_visibility :: "string \<Rightarrow> visibility sql_result" where
  "cast_visibility s =
     (if s = ''public'' then Inr Public else if s = ''unlisted'' then Inr Unlisted
      else if s = ''followers_only'' then Inr Followers_Only else if s = ''direct'' then Inr Direct
      else Inl Sql_Error)"

definition cast_ref_status :: "string option \<Rightarrow> ref_status option sql_result" where
  "cast_ref_status s = (case s of None \<Rightarrow> Inr None
     | Some t \<Rightarrow> if t = ''pending'' then Inr (Some Ref_Pending) else if t = ''gone'' then Inr (Some Ref_Gone)
                 else Inl Sql_Error)"

definition set_ref_id :: "reference_kind \<Rightarrow> post_id option \<Rightarrow> posts_row \<Rightarrow> posts_row" where
  "set_ref_id k i p = p\<lparr>p_refs := (p_refs p)(k := (p_refs p k)\<lparr>ref_post_id := i\<rparr>)\<rparr>"

definition set_ref :: "reference_kind \<Rightarrow> post_id option \<Rightarrow> string option \<Rightarrow> ref_status option \<Rightarrow> posts_row \<Rightarrow> posts_row" where
  "set_ref k i uri st p = p\<lparr>p_refs := (p_refs p)(k := \<lparr>ref_post_id = i, ref_ap_uri = uri, ref_state = st\<rparr>)\<rparr>"

section \<open>Insertions\<close>

definition counted_insert :: "posts_row \<Rightarrow> post_db \<Rightarrow> post_db sql_result" where
  "counted_insert p db = rbind (insert_posts p db) (\<lambda>db'. Inr (count_note (p_actor_id p) db'))"

definition post_insert :: "post_id \<Rightarrow> actor_id \<Rightarrow> string \<Rightarrow> string \<Rightarrow> int \<Rightarrow> post_db \<Rightarrow> post_db sql_result" where
  "post_insert i a body ap_object_id created_at =
     counted_insert ((new_post i a body created_at)\<lparr>p_ap_object_id := Some ap_object_id\<rparr>)"

definition insert_remote :: "post_id \<Rightarrow> actor_id \<Rightarrow> string \<Rightarrow> string \<Rightarrow> int \<Rightarrow> post_db \<Rightarrow> post_db sql_result" where
  "insert_remote i a body ap_object_id created_at db =
     rbind (insert_unless p_ap_object_id ((new_post i a body created_at)\<lparr>p_ap_object_id := Some ap_object_id\<rparr>) db)
       (\<lambda>(inserted, db'). Inr (if inserted then count_note a db' else db'))"

record insert_full_params =
  if_id :: post_id
  if_actor_id :: actor_id
  if_body :: string
  if_ap_object_id :: string
  if_seiran_post_uuid :: string
  if_reply_to_post_id :: "post_id option"
  if_quote_of_post_id :: "post_id option"
  if_created_at :: int
  if_visibility :: string
  if_deliver_fedi :: bool
  if_deliver_bsky :: bool
  if_thread_root_post_id :: "post_id option"
  if_recipient_actor_ids :: "actor_id list"
  if_emoji_map :: json
  if_poll :: "json option"
  if_content_warning :: "string option"
  if_language :: "string option"

definition full_row :: "insert_full_params \<Rightarrow> visibility \<Rightarrow> posts_row" where
  "full_row q v =
     set_ref_id Quote_Ref (if_quote_of_post_id q) (set_ref_id Reply_Ref (if_reply_to_post_id q)
       ((new_post (if_id q) (if_actor_id q) (if_body q) (if_created_at q))
         \<lparr>p_ap_object_id := Some (if_ap_object_id q), p_seiran_post_uuid := Some (if_seiran_post_uuid q),
          p_visibility := v, p_deliver_fedi := if_deliver_fedi q, p_deliver_bsky := if_deliver_bsky q,
          p_thread_root_post_id := if_thread_root_post_id q, p_emoji_map := if_emoji_map q,
          p_poll := if_poll q, p_content_warning := if_content_warning q, p_language := if_language q\<rparr>))"

definition insert_full :: "insert_full_params \<Rightarrow> post_db \<Rightarrow> post_db sql_result" where
  "insert_full q db =
     rbind (cast_visibility (if_visibility q)) (\<lambda>v.
     rbind (insert_posts (full_row q v) db) (\<lambda>db1.
     rbind (if if_recipient_actor_ids q \<noteq> [] then insert_recipients (if_id q) (if_recipient_actor_ids q) db1
            else Inr db1) (\<lambda>db2.
     Inr (count_note (if_actor_id q) db2))))"

record insert_repost_params =
  rp_id :: post_id
  rp_actor_id :: actor_id
  rp_ap_object_id :: string
  rp_repost_of_post_id :: "post_id option"
  rp_repost_of_ap_uri :: "string option"
  rp_repost_of_ref_status :: "string option"
  rp_created_at :: int
  rp_visibility :: string

definition insert_repost :: "insert_repost_params \<Rightarrow> post_db \<Rightarrow> post_db sql_result" where
  "insert_repost q db =
     rbind (cast_visibility (rp_visibility q)) (\<lambda>v.
     rbind (cast_ref_status (rp_repost_of_ref_status q)) (\<lambda>st.
     rbind (insert_unless p_ap_object_id
         (set_ref Repost_Ref (rp_repost_of_post_id q) (rp_repost_of_ap_uri q) st
           ((new_post (rp_id q) (rp_actor_id q) [] (rp_created_at q))
             \<lparr>p_ap_object_id := Some (rp_ap_object_id q), p_visibility := v\<rparr>)) db) (\<lambda>(inserted, db').
     Inr (if inserted then count_note (rp_actor_id q) db' else db'))))"

definition insert_repost_bsky :: "post_id \<Rightarrow> actor_id \<Rightarrow> string \<Rightarrow> post_id \<Rightarrow> int \<Rightarrow> post_db \<Rightarrow> post_db sql_result" where
  "insert_repost_bsky i a at_uri repost_of created_at =
     counted_insert (set_ref_id Repost_Ref (Some repost_of)
       ((new_post i a [] created_at)\<lparr>p_at_uri := Some at_uri, p_visibility := Public\<rparr>))"

section \<open>Deletions\<close>

text \<open>\<open>UPDATE actors ... WHERE id = (SELECT actor_id FROM deleted)\<close>: the number of actors changed.\<close>

definition soft_delete_counted :: "(posts_row \<Rightarrow> bool) \<Rightarrow> int \<Rightarrow> post_db \<Rightarrow> nat \<times> post_db" where
  "soft_delete_counted P now db = (case soft_delete P now db of (hit, db') \<Rightarrow>
     (case hit of [] \<Rightarrow> (0, db') | p # _ \<Rightarrow> (1, uncount_note (p_actor_id p) db')))"

text \<open>\<open>touched\<close>: the media of the post get a fresh upload time in the same statement.\<close>

definition soft_delete_by_id :: "post_id \<Rightarrow> int \<Rightarrow> post_db \<Rightarrow> post_db" where
  "soft_delete_by_id i now db =
     (let touched = db\<lparr>t_media_files := map (\<lambda>m.
            if list_ex (\<lambda>pa. att_post_id pa = i \<and> att_media_file_id pa = Some (mf_id m)) (t_post_attachments db)
            then m\<lparr>mf_last_uploaded_at := now\<rparr> else m) (t_media_files db)\<rparr>
      in snd (soft_delete_counted (\<lambda>p. p_id p = i) now touched))"

definition soft_delete_by_ap_object_id :: "string \<Rightarrow> int \<Rightarrow> post_db \<Rightarrow> nat \<times> post_db" where
  "soft_delete_by_ap_object_id ap_object_id = soft_delete_counted (\<lambda>p. p_ap_object_id p = Some ap_object_id)"

definition soft_delete_by_at_uri :: "string \<Rightarrow> int \<Rightarrow> post_db \<Rightarrow> (post_id \<times> actor_id) option \<times> post_db" where
  "soft_delete_by_at_uri at_uri now db =
     (case soft_delete (\<lambda>p. p_at_uri p = Some at_uri) now db of (hit, db') \<Rightarrow>
       (case hit of [] \<Rightarrow> (None, db')
        | p # _ \<Rightarrow> (Some (p_id p, p_actor_id p), uncount_note (p_actor_id p) db')))"

text \<open>\<open>report.rs\<close>: the reported post, when the report names one; whether it was live.\<close>

definition delete_subject_post :: "post_id option \<Rightarrow> int \<Rightarrow> post_db \<Rightarrow> bool \<times> post_db" where
  "delete_subject_post subject now db =
     (case soft_delete (\<lambda>p. subject = Some (p_id p)) now db of (hit, db') \<Rightarrow> (hit \<noteq> [], db'))"

section \<open>Changes of columns\<close>

definition update_mention_facets :: "post_id \<Rightarrow> json \<Rightarrow> post_db \<Rightarrow> post_db" where
  "update_mention_facets i facets = set_post i (\<lambda>p. p\<lparr>p_mention_facets := facets\<rparr>)"

definition apply_reference_resolution ::
  "post_id \<Rightarrow> reference_kind \<Rightarrow> post_id option \<Rightarrow> string option \<Rightarrow> post_db \<Rightarrow> post_db sql_result" where
  "apply_reference_resolution i k resolved_post_id ref_status db =
     (case resolved_post_id of
        Some resolved \<Rightarrow> change_post i (set_ref_id k (Some resolved)) db
      | None \<Rightarrow> (case ref_status of
          Some st \<Rightarrow> rbind (cast_ref_status (Some st)) (\<lambda>s.
            change_post i (\<lambda>p. p\<lparr>p_refs := (p_refs p)(k := (p_refs p k)\<lparr>ref_state := s\<rparr>)\<rparr>) db)
        | None \<Rightarrow> Inr db))"

definition update_ap_object_id :: "post_id \<Rightarrow> string \<Rightarrow> post_db \<Rightarrow> post_db sql_result" where
  "update_ap_object_id i ap_object_id = change_post i (\<lambda>p. p\<lparr>p_ap_object_id := Some ap_object_id\<rparr>)"

definition set_at_uri_and_cid :: "post_id \<Rightarrow> string \<Rightarrow> string \<Rightarrow> post_db \<Rightarrow> post_db sql_result" where
  "set_at_uri_and_cid i at_uri at_cid =
     change_post i (\<lambda>p. p\<lparr>p_at_uri := Some at_uri, p_at_cid := Some at_cid\<rparr>)"

definition set_fedi_content_metadata :: "post_id \<Rightarrow> string option \<Rightarrow> json option \<Rightarrow> post_db \<Rightarrow> post_db" where
  "set_fedi_content_metadata i cw poll =
     set_post i (\<lambda>p. p\<lparr>p_content_warning := cw, p_poll := poll,
        p_poll_fetched_at := (if poll \<noteq> None then Some (p_created_at p) else p_poll_fetched_at p)\<rparr>)"

definition add_recipient :: "post_id \<Rightarrow> actor_id \<Rightarrow> post_db \<Rightarrow> post_db sql_result" where
  "add_recipient i a db =
     (if (i, a) \<in> set (t_post_recipients db) then Inr db else insert_recipients i [a] db)"

section \<open>Attachments\<close>

record remote_attachment =
  ra_url :: string
  ra_mime_type :: "string option"
  ra_thumbnail_url :: "string option"
  ra_is_sensitive :: bool
  ra_is_gif :: bool
  ra_position :: int

text \<open>The key of \<open>post_attachments\<close> is \<open>(post_id, position)\<close>.\<close>

definition attachment_taken :: "post_db \<Rightarrow> post_id \<Rightarrow> int \<Rightarrow> bool" where
  "attachment_taken db i pos = list_ex (\<lambda>pa. att_post_id pa = i \<and> att_position pa = pos) (t_post_attachments db)"

definition attach_media :: "post_id \<Rightarrow> int \<Rightarrow> int \<Rightarrow> post_db \<Rightarrow> post_db sql_result" where
  "attach_media i media position db =
     (if attachment_taken db i position then Inl Unique_Error
      else if \<not> post_known db i \<or> \<not> list_ex (\<lambda>m. mf_id m = media) (t_media_files db) then Inl Sql_Error
      else Inr (db\<lparr>t_post_attachments := t_post_attachments db @
        [\<lparr>att_post_id = i, att_media_file_id = Some media, att_remote_url = None, att_remote_mime_type = None,
          att_remote_thumbnail_url = None, att_is_sensitive = False, att_is_gif = False, att_position = position\<rparr>]\<rparr>))"

definition attach_remote_media_url :: "post_id \<Rightarrow> remote_attachment \<Rightarrow> post_db \<Rightarrow> post_db sql_result" where
  "attach_remote_media_url i m db =
     (if attachment_taken db i (ra_position m) then Inr db
      else if \<not> post_known db i then Inl Sql_Error
      else Inr (db\<lparr>t_post_attachments := t_post_attachments db @
        [\<lparr>att_post_id = i, att_media_file_id = None, att_remote_url = Some (ra_url m), att_remote_mime_type = ra_mime_type m,
          att_remote_thumbnail_url = ra_thumbnail_url m, att_is_sensitive = ra_is_sensitive m, att_is_gif = ra_is_gif m,
          att_position = ra_position m\<rparr>]\<rparr>))"

section \<open>Retry\<close>

definition MAX_UNIQUE_VIOLATION_RETRIES :: nat where
  "MAX_UNIQUE_VIOLATION_RETRIES = 5"

definition is_unique_violation :: "sql_error \<Rightarrow> bool" where
  "is_unique_violation e \<longleftrightarrow> e = Unique_Error"

text \<open>The loop at its \<open>attempt\<close>th round; the operation is told the round, as others may have written since the last one.\<close>

function retry_from :: "nat \<Rightarrow> (nat \<Rightarrow> 's \<Rightarrow> 'a sql_result \<times> 's) \<Rightarrow> 's \<Rightarrow> 'a sql_result \<times> 's" where
  "retry_from attempt f s = (case f attempt s of
       (Inr v, s') \<Rightarrow> (Inr v, s')
     | (Inl e, s') \<Rightarrow>
         if is_unique_violation e \<and> attempt < MAX_UNIQUE_VIOLATION_RETRIES then retry_from (attempt + 1) f s'
         else (Inl e, s'))"
  by pat_completeness auto
termination
  by (relation "measure (\<lambda>(attempt, _, _). MAX_UNIQUE_VIOLATION_RETRIES - attempt)") auto

declare retry_from.simps [simp del]

definition retry_on_unique_violation :: "(nat \<Rightarrow> 's \<Rightarrow> 'a sql_result \<times> 's) \<Rightarrow> 's \<Rightarrow> 'a sql_result \<times> 's" where
  "retry_on_unique_violation f s = retry_from 1 f s"

text \<open>A transaction on the tables: an error rolls back.\<close>

definition transact :: "(post_db \<Rightarrow> ('a \<times> post_db) sql_result) \<Rightarrow> post_db \<Rightarrow> 'a sql_result \<times> post_db" where
  "transact f db = (case f db of Inl e \<Rightarrow> (Inl e, db) | Inr (x, db') \<Rightarrow> (Inr x, db'))"

end
