(* ===== verification/Post_Merge.thy ===== *)
theory Post_Merge
  imports Posts
begin

text \<open>
  Posts of another seiran server arrive twice, over ActivityPub and over the AT network, and each copy names
  the other one. \<open>insert_remote_with_dedup_once\<close>, \<open>claim_or_find_seiranpost_merge_target\<close> and
  \<open>finalize_post_merge\<close> of \<open>repository/post.rs\<close> and \<open>insert_or_merge_bsky_post\<close> of
  \<open>repository/bsky_ingest.rs\<close> bring the two copies into one row; the unique index on the pair of names and
  the retry of \<open>unique_retry.rs\<close> decide between copies that arrive at the same time.
\<close>

section \<open>The ActivityPub side\<close>

record insert_remote_with_dedup_params =
  rd_id :: post_id
  rd_actor_id :: actor_id
  rd_body :: string
  rd_content_html :: "string option"
  rd_ap_object_id :: string
  rd_seiran_uuid :: "string option"
  rd_parent_original_post_id :: "post_id option"
  rd_created_at :: int
  rd_emoji_map :: json
  rd_visibility :: string
  rd_reply_to_post_id :: "post_id option"
  rd_reply_to_ap_uri :: "string option"
  rd_reply_to_ref_status :: "string option"
  rd_quote_of_post_id :: "post_id option"
  rd_quote_of_ap_uri :: "string option"
  rd_quote_of_ref_status :: "string option"
  rd_thread_root_post_id :: "post_id option"
  rd_recipient_actor_ids :: "actor_id list"
  rd_claimed_at_uri :: "string option"
  rd_bridge_of_post_id :: "post_id option"
  rd_bridged_original_uri :: "string option"

definition dedup_row ::
  "insert_remote_with_dedup_params \<Rightarrow> visibility \<Rightarrow> ref_status option \<Rightarrow> ref_status option \<Rightarrow> posts_row" where
  "dedup_row q v reply_status quote_status =
     set_ref Quote_Ref (rd_quote_of_post_id q) (rd_quote_of_ap_uri q) quote_status
       (set_ref Reply_Ref (rd_reply_to_post_id q) (rd_reply_to_ap_uri q) reply_status
         ((new_post (rd_id q) (rd_actor_id q) (rd_body q) (rd_created_at q))
           \<lparr>p_content_html := rd_content_html q, p_ap_object_id := Some (rd_ap_object_id q),
            p_seiran_post_uuid := rd_seiran_uuid q, p_parent_original_post_id := rd_parent_original_post_id q,
            p_thread_root_post_id := rd_thread_root_post_id q, p_emoji_map := rd_emoji_map q, p_visibility := v,
            p_claimed_at_uri := rd_claimed_at_uri q, p_bridge_of_post_id := rd_bridge_of_post_id q,
            p_bridged_original_uri := rd_bridged_original_uri q\<rparr>))"

text \<open>The row with the claimed \<open>at_uri\<close>, when the post claims one.\<close>

definition dedup_existing :: "insert_remote_with_dedup_params \<Rightarrow> post_db \<Rightarrow> posts_row option" where
  "dedup_existing q db = Option.bind (rd_claimed_at_uri q) (\<lambda>at_uri. find (\<lambda>p. p_at_uri p = Some at_uri) (t_posts db))"

definition dedup_insert :: "insert_remote_with_dedup_params \<Rightarrow> post_db \<Rightarrow> post_db sql_result" where
  "dedup_insert q db =
     rbind (cast_visibility (rd_visibility q)) (\<lambda>v.
     rbind (cast_ref_status (rd_reply_to_ref_status q)) (\<lambda>reply_status.
     rbind (cast_ref_status (rd_quote_of_ref_status q)) (\<lambda>quote_status.
     rbind (insert_unless p_ap_object_id (dedup_row q v reply_status quote_status) db) (\<lambda>(inserted, db1).
     if \<not> inserted then Inr db1
     else rbind (if rd_recipient_actor_ids q \<noteq> [] then insert_recipients (rd_id q) (rd_recipient_actor_ids q) db1
                 else Inr db1) (\<lambda>db2.
          Inr (count_note (rd_actor_id q) db2))))))"

definition dedup_write :: "insert_remote_with_dedup_params \<Rightarrow> posts_row option \<Rightarrow> post_db \<Rightarrow> post_db sql_result" where
  "dedup_write q existing db = (case existing of
       Some e \<Rightarrow>
         if p_claimed_ap_object_id e = Some (rd_ap_object_id q) \<and> p_actor_id e = rd_actor_id q
         then change_post (p_id e) (\<lambda>p. p\<lparr>p_ap_object_id := Some (rd_ap_object_id q), p_claimed_ap_object_id := None\<rparr>) db
         else dedup_insert q db
     | None \<Rightarrow> dedup_insert q db)"

text \<open>
  One transaction. \<open>others\<close> is what the rest of the server commits between its \<open>SELECT\<close> and its writes: at
  the isolation level \<open>READ COMMITTED\<close> the writes see it.
\<close>

definition insert_remote_with_dedup_once ::
  "(post_db \<Rightarrow> post_db) \<Rightarrow> insert_remote_with_dedup_params \<Rightarrow> post_db \<Rightarrow> unit sql_result \<times> post_db" where
  "insert_remote_with_dedup_once others q db =
     transact (\<lambda>db1. rbind (dedup_write q (dedup_existing q db) db1) (\<lambda>db2. Inr ((), db2))) (others db)"

definition insert_remote_with_dedup ::
  "(nat \<Rightarrow> post_db \<Rightarrow> post_db) \<Rightarrow> insert_remote_with_dedup_params \<Rightarrow> post_db \<Rightarrow> unit sql_result \<times> post_db" where
  "insert_remote_with_dedup others q =
     retry_on_unique_violation (\<lambda>attempt. insert_remote_with_dedup_once (others attempt) q)"

section \<open>The AT side\<close>

record bsky_post_row =
  bp_post_id :: post_id
  bp_actor_id :: actor_id
  bp_text :: string
  bp_at_uri :: string
  bp_at_cid :: string
  bp_created_at :: int
  bp_reply_to_post_id :: "post_id option"
  bp_mention_facets :: json
  bp_emoji_map :: json
  bp_quote_of_post_id :: "post_id option"
  bp_claimed_ap_object_id :: "string option"
  bp_bridge_of_post_id :: "post_id option"
  bp_bridged_original_uri :: "string option"

datatype insert_or_merge_outcome = Merged_Row post_id | Inserted_Row | Duplicate_Skipped

definition bsky_row :: "bsky_post_row \<Rightarrow> posts_row" where
  "bsky_row b =
     set_ref_id Quote_Ref (bp_quote_of_post_id b) (set_ref_id Reply_Ref (bp_reply_to_post_id b)
       ((new_post (bp_post_id b) (bp_actor_id b) (bp_text b) (bp_created_at b))
         \<lparr>p_at_uri := Some (bp_at_uri b), p_at_cid := Some (bp_at_cid b), p_mention_facets := bp_mention_facets b,
          p_emoji_map := bp_emoji_map b, p_claimed_ap_object_id := bp_claimed_ap_object_id b,
          p_bridge_of_post_id := bp_bridge_of_post_id b, p_bridged_original_uri := bp_bridged_original_uri b\<rparr>))"

definition bsky_existing :: "bsky_post_row \<Rightarrow> post_db \<Rightarrow> posts_row option" where
  "bsky_existing b db =
     Option.bind (bp_claimed_ap_object_id b) (\<lambda>ap_object_id. find (\<lambda>p. p_ap_object_id p = Some ap_object_id) (t_posts db))"

definition bsky_insert :: "bsky_post_row \<Rightarrow> post_db \<Rightarrow> (insert_or_merge_outcome \<times> post_db) sql_result" where
  "bsky_insert b db =
     rbind (insert_unless p_at_uri (bsky_row b) db) (\<lambda>(inserted, db').
       Inr (if inserted then Inserted_Row else Duplicate_Skipped, db'))"

definition bsky_write :: "bsky_post_row \<Rightarrow> posts_row option \<Rightarrow> post_db \<Rightarrow> (insert_or_merge_outcome \<times> post_db) sql_result" where
  "bsky_write b existing db = (case existing of
       Some e \<Rightarrow>
         if p_claimed_at_uri e = Some (bp_at_uri b) \<and> p_actor_id e = bp_actor_id b
         then rbind (change_post (p_id e) (\<lambda>p. p\<lparr>p_at_uri := Some (bp_at_uri b), p_at_cid := Some (bp_at_cid b),
                       p_claimed_at_uri := None\<rparr>) db) (\<lambda>db'. Inr (Merged_Row (p_id e), db'))
         else bsky_insert b db
     | None \<Rightarrow> bsky_insert b db)"

definition insert_or_merge_bsky_post ::
  "(post_db \<Rightarrow> post_db) \<Rightarrow> bsky_post_row \<Rightarrow> post_db \<Rightarrow> insert_or_merge_outcome sql_result \<times> post_db" where
  "insert_or_merge_bsky_post others b db = transact (bsky_write b (bsky_existing b db)) (others db)"

section \<open>A claim that arrives later\<close>

text \<open>
  \<open>Update(Note)\<close> may bring the claim of a post that is already stored: its copy on the AT side, when the
  claim is mutual and the author the same, else the claim is stored.
\<close>

definition claim_or_find_seiranpost_merge_target ::
  "post_id \<Rightarrow> actor_id \<Rightarrow> string \<Rightarrow> string \<Rightarrow> post_db \<Rightarrow> (post_id option \<times> post_db) sql_result" where
  "claim_or_find_seiranpost_merge_target post_id author ap_object_id at_uri db =
     (let merge_target = Option.bind (find (\<lambda>p. p_at_uri p = Some at_uri) (t_posts db)) (\<lambda>doomed.
            if p_claimed_ap_object_id doomed = Some ap_object_id \<and> p_actor_id doomed = author
            then Some (p_id doomed) else None)
      in case merge_target of
           Some i \<Rightarrow> Inr (Some i, db)
         | None \<Rightarrow> rbind (change_post post_id (\<lambda>p. p\<lparr>p_claimed_at_uri := Some at_uri\<rparr>) db) (\<lambda>db'. Inr (None, db')))"

text \<open>The row that is given up loses its names first, as the indexes are checked statement by statement.\<close>

definition finalize_post_merge :: "post_id \<Rightarrow> post_id \<Rightarrow> string \<Rightarrow> string \<Rightarrow> int \<Rightarrow> post_db \<Rightarrow> post_db sql_result" where
  "finalize_post_merge survivor doomed ap_object_id at_uri now db =
     rbind (change_post doomed (\<lambda>p. p\<lparr>p_ap_object_id := None, p_at_uri := None\<rparr>) db) (\<lambda>db1.
     rbind (change_post survivor (\<lambda>p. p\<lparr>p_ap_object_id := Some ap_object_id, p_at_uri := Some at_uri,
              p_claimed_ap_object_id := None, p_claimed_at_uri := None\<rparr>) db1) (\<lambda>db2.
     rbind (change_post doomed (\<lambda>p. p\<lparr>p_parent_original_post_id := Some survivor, p_deleted_at := Some now\<rparr>) db2) (\<lambda>db3.
     Inr (case find_post doomed db2 of
            Some p \<Rightarrow> if live p then relation_counts_deleted p db3 else db3
          | None \<Rightarrow> db3))))"

end
