(* ===== verification/Post_Facts.thy ===== *)
theory Post_Facts
  imports Post_Merge
begin

text \<open>
  What the statements on the post tables do to the rows: the counters of other posts change, nothing else.
\<close>

section \<open>Rows and counters\<close>

definition bumped :: "(int \<Rightarrow> int) \<Rightarrow> reference_kind \<Rightarrow> posts_row \<Rightarrow> posts_row \<Rightarrow> posts_row" where
  "bumped f k child p =
     p\<lparr>p_counts := (if ref_of k child = Some (p_id p) then (p_counts p)(k := f (p_counts p k)) else p_counts p)\<rparr>"

definition recounted :: "(int \<Rightarrow> int) \<Rightarrow> posts_row \<Rightarrow> posts_row \<Rightarrow> posts_row" where
  "recounted f child p =
     p\<lparr>p_counts := (\<lambda>k. if ref_of k child = Some (p_id p) then f (p_counts p k) else p_counts p k)\<rparr>"

lemma recounted_sel [simp]:
  "p_id (recounted f c p) = p_id p" "p_actor_id (recounted f c p) = p_actor_id p"
  "p_visibility (recounted f c p) = p_visibility p" "p_is_local (recounted f c p) = p_is_local p"
  "p_refs (recounted f c p) = p_refs p" "p_seiran_post_uuid (recounted f c p) = p_seiran_post_uuid p"
  "p_parent_original_post_id (recounted f c p) = p_parent_original_post_id p"
  "p_thread_root_post_id (recounted f c p) = p_thread_root_post_id p"
  "p_ap_object_id (recounted f c p) = p_ap_object_id p" "p_at_uri (recounted f c p) = p_at_uri p"
  "p_claimed_ap_object_id (recounted f c p) = p_claimed_ap_object_id p"
  "p_claimed_at_uri (recounted f c p) = p_claimed_at_uri p"
  "p_bridge_of_post_id (recounted f c p) = p_bridge_of_post_id p"
  "p_deleted_at (recounted f c p) = p_deleted_at p"
  by (simp_all add: recounted_def)

lemma recounted_counts [simp]:
  "p_counts (recounted f c p) k = (if ref_of k c = Some (p_id p) then f (p_counts p k) else p_counts p k)"
  by (simp add: recounted_def)

lemma unique_conflict_recounted [simp]:
  "unique_conflict (recounted f c p) q = unique_conflict p q"
  "unique_conflict p (recounted f c q) = unique_conflict p q"
  by (simp_all add: unique_conflict_def same_claims_def)

lemma foreign_posts_recounted [simp]: "foreign_posts (recounted f c p) = foreign_posts p"
  by (simp add: foreign_posts_def)

lemma t_posts_set_post: "t_posts (set_post i f db) = map (\<lambda>p. if p_id p = i then f p else p) (t_posts db)"
  by (simp add: set_post_def)

lemma bump_count_posts: "t_posts (bump_count f k c db) = map (bumped f k c) (t_posts db)"
proof -
  have "bumped f k c = (\<lambda>p. p)" if "ref_of k c = None" using that by (simp add: bumped_def fun_eq_iff)
  then show ?thesis by (cases "ref_of k c") (auto simp: bump_count_def bumped_def set_post_def)
qed

lemma bumped_recounted:
  "bumped f Repost_Ref c (bumped f Quote_Ref c (bumped f Reply_Ref c p)) = recounted f c p"
proof -
  have "p_counts (bumped f Repost_Ref c (bumped f Quote_Ref c (bumped f Reply_Ref c p))) k
      = (if ref_of k c = Some (p_id p) then f (p_counts p k) else p_counts p k)" for k
    by (cases k) (simp_all add: bumped_def)
  then have counts: "p_counts (bumped f Repost_Ref c (bumped f Quote_Ref c (bumped f Reply_Ref c p)))
      = (\<lambda>k. if ref_of k c = Some (p_id p) then f (p_counts p k) else p_counts p k)" by blast
  have "bumped f Repost_Ref c (bumped f Quote_Ref c (bumped f Reply_Ref c p))
      = p\<lparr>p_counts := p_counts (bumped f Repost_Ref c (bumped f Quote_Ref c (bumped f Reply_Ref c p)))\<rparr>"
    by (simp add: bumped_def)
  also have "\<dots> = recounted f c p" by (simp only: counts recounted_def)
  finally show ?thesis .
qed

lemma relation_counts_posts:
  "live c \<Longrightarrow> t_posts (relation_counts_inserted c db) = map (recounted (\<lambda>n. n + 1) c) (t_posts db)"
  "\<not> live c \<Longrightarrow> relation_counts_inserted c db = db"
  "t_posts (relation_counts_deleted c db) = map (recounted (\<lambda>n. max (n - 1) 0) c) (t_posts db)"
  by (simp_all add: relation_counts_inserted_def relation_counts_deleted_def Let_def bump_count_posts
      bumped_recounted comp_def del: not_None_eq)

text \<open>The other tables.\<close>

lemma other_tables_bump [simp]:
  "t_actors (bump_count f k c db) = t_actors db" "t_post_recipients (bump_count f k c db) = t_post_recipients db"
  "t_post_attachments (bump_count f k c db) = t_post_attachments db" "t_media_files (bump_count f k c db) = t_media_files db"
  "t_follows (bump_count f k c db) = t_follows db" "t_blocks (bump_count f k c db) = t_blocks db"
  "t_mutes (bump_count f k c db) = t_mutes db" "t_repost_mutes (bump_count f k c db) = t_repost_mutes db"
  "t_list_members (bump_count f k c db) = t_list_members db" "t_notifications (bump_count f k c db) = t_notifications db"
  by (auto simp: bump_count_def set_post_def split: option.splits)

lemma actors_relation_counts [simp]:
  "t_actors (relation_counts_inserted c db) = t_actors db" "t_actors (relation_counts_deleted c db) = t_actors db"
  by (simp_all add: relation_counts_inserted_def relation_counts_deleted_def Let_def)

lemma find_post_map:
  "(\<And>p. p_id (g p) = p_id p) \<Longrightarrow> t_posts db' = map g (t_posts db) \<Longrightarrow> find_post i db' = map_option g (find_post i db)"
  using find_map_same [of "\<lambda>p. p_id p = i" g] by (simp add: find_post_def)

lemma post_known_iff: "post_known db i \<longleftrightarrow> i \<in> p_id ` set (t_posts db)"
  by (auto simp: post_known_def find_post_def find_None_iff)

lemma actor_known_iff: "actor_known db a \<longleftrightarrow> a \<in> a_id ` set (t_actors db)"
  by (auto simp: actor_known_def find_actor_def find_None_iff)

section \<open>The statements\<close>

definition stored_row :: "posts_row \<Rightarrow> post_db \<Rightarrow> posts_row" where
  "stored_row p db = p\<lparr>p_is_local := (map_option a_actor_type (find_actor (p_actor_id p) db) = Some ''local'')\<rparr>"

lemma stored_row_sel [simp]:
  "p_id (stored_row p db) = p_id p" "p_actor_id (stored_row p db) = p_actor_id p"
  "p_visibility (stored_row p db) = p_visibility p" "p_refs (stored_row p db) = p_refs p"
  "p_counts (stored_row p db) = p_counts p" "p_seiran_post_uuid (stored_row p db) = p_seiran_post_uuid p"
  "p_ap_object_id (stored_row p db) = p_ap_object_id p" "p_at_uri (stored_row p db) = p_at_uri p"
  "p_claimed_ap_object_id (stored_row p db) = p_claimed_ap_object_id p"
  "p_claimed_at_uri (stored_row p db) = p_claimed_at_uri p" "p_deleted_at (stored_row p db) = p_deleted_at p"
  by (simp_all add: stored_row_def)

lemma stored_row_eqs [simp]:
  "unique_conflict (stored_row p db) q = unique_conflict p q"
  "unique_conflict q (stored_row p db) = unique_conflict q p"
  "foreign_posts (stored_row p db) = foreign_posts p"
  by (simp_all add: unique_conflict_def same_claims_def foreign_posts_def stored_row_def)

lemma insert_posts_Inr_iff:
  "insert_posts p db = Inr db' \<longleftrightarrow>
     actor_known db (p_actor_id p) \<and> list_all (\<lambda>q. \<not> unique_conflict p q) (t_posts db)
     \<and> references_known db (stored_row p db)
     \<and> db' = relation_counts_inserted (stored_row p db) (db\<lparr>t_posts := t_posts db @ [stored_row p db]\<rparr>)"
proof (cases "find_actor (p_actor_id p) db")
  case None
  then show ?thesis by (simp add: insert_posts_def actor_known_def)
next
  case (Some a)
  then have "p\<lparr>p_is_local := (a_actor_type a = ''local'')\<rparr> = stored_row p db" by (simp add: stored_row_def)
  then show ?thesis using Some
    by (auto simp: insert_posts_def actor_known_def Let_def list_ex_iff list_all_iff)
qed

lemma insert_posts_rows:
  assumes "insert_posts p db = Inr db'" "live p"
  shows "t_posts db' = map (recounted (\<lambda>n. n + 1) p) (t_posts db @ [stored_row p db])" "t_actors db' = t_actors db"
proof -
  have "recounted (\<lambda>n. n + 1) (stored_row p db) = recounted (\<lambda>n. n + 1) p" by (simp add: recounted_def fun_eq_iff)
  then show "t_posts db' = map (recounted (\<lambda>n. n + 1) p) (t_posts db @ [stored_row p db])" "t_actors db' = t_actors db"
    using assms by (auto simp: insert_posts_Inr_iff relation_counts_posts(1))
qed

lemma insert_unless_cases:
  assumes "insert_unless key p db = Inr (inserted, db')"
  obtains "\<not> inserted" "db' = db" | "inserted" "insert_posts p db = Inr db'"
  using assms by (auto simp: insert_unless_def rbind_Inr_iff split: if_splits)

lemma change_post_Inr_cases:
  assumes "change_post i f db = Inr db'"
  obtains "find_post i db = None" "db' = db"
  | p where "find_post i db = Some p" "list_all (\<lambda>q. p_id q \<noteq> i \<longrightarrow> \<not> unique_conflict (f p) q) (t_posts db)"
      "references_known db (f p)" "db' = set_post i f db"
  using assms by (auto simp: change_post_def list_ex_iff list_all_iff split: option.splits if_splits)

lemma count_note_sel [simp]:
  "t_posts (count_note a db) = t_posts db" "t_posts (uncount_note a db) = t_posts db"
  by (simp_all add: count_note_def uncount_note_def update_actor_def)

lemma insert_recipients_Inr:
  "insert_recipients i as db = Inr db' \<Longrightarrow> t_posts db' = t_posts db \<and> t_actors db' = t_actors db"
  by (auto simp: insert_recipients_def Let_def split: if_splits)

text \<open>A soft deletion: rows marked, then the counters of what they refer to.\<close>

definition marked :: "(posts_row \<Rightarrow> bool) \<Rightarrow> int \<Rightarrow> posts_row \<Rightarrow> posts_row" where
  "marked P now p = (if P p \<and> live p then p\<lparr>p_deleted_at := Some now\<rparr> else p)"

lemma fold_relation_counts_deleted:
  "t_posts (fold relation_counts_deleted hit db) = map (\<lambda>p. fold (recounted (\<lambda>n. max (n - 1) 0)) hit p) (t_posts db)"
  "t_actors (fold relation_counts_deleted hit db) = t_actors db"
  by (induction hit arbitrary: db) (simp_all add: relation_counts_posts(3) comp_def)

lemma soft_delete_rows:
  "t_posts (snd (soft_delete P now db)) =
     map (\<lambda>p. fold (recounted (\<lambda>n. max (n - 1) 0)) (filter (\<lambda>p. P p \<and> live p) (t_posts db)) (marked P now p)) (t_posts db)"
  "t_actors (snd (soft_delete P now db)) = t_actors db"
  "fst (soft_delete P now db) = filter (\<lambda>p. P p \<and> live p) (t_posts db)"
  by (simp_all add: soft_delete_def Let_def fold_relation_counts_deleted marked_def comp_def)

end
