(* ===== verification/Post_Inv.thy ===== *)
theory Post_Inv
  imports Post_Facts
begin

text \<open>
  Histories of the operations on the post tables: the keys, references and authors stay well formed, and the
  counters of relations and of posts are the numbers of rows they stand for.
\<close>

section \<open>Operations\<close>

datatype post_op =
    Op_Insert post_id actor_id string string int
  | Op_Insert_Remote post_id actor_id string string int
  | Op_Insert_Full insert_full_params
  | Op_Insert_Repost insert_repost_params
  | Op_Insert_Repost_Bsky post_id actor_id string post_id int
  | Op_Remote_With_Dedup insert_remote_with_dedup_params
  | Op_Bsky_Post bsky_post_row
  | Op_Delete_By_Id post_id int
  | Op_Delete_By_Ap_Object_Id string int
  | Op_Delete_By_At_Uri string int
  | Op_Delete_Subject "post_id option" int
  | Op_Mention_Facets post_id json
  | Op_Reference post_id reference_kind "post_id option" "string option"
  | Op_Ap_Object_Id post_id string
  | Op_At_Uri_And_Cid post_id string string
  | Op_Content_Metadata post_id "string option" "json option"
  | Op_Add_Recipient post_id actor_id
  | Op_Attach_Media post_id int int
  | Op_Attach_Remote post_id remote_attachment
  | Op_Claim post_id actor_id string string
  | Op_Finalize_Merge post_id post_id string string int

fun run_post_op :: "post_op \<Rightarrow> post_db \<Rightarrow> post_db sql_result" where
  "run_post_op (Op_Insert i a body ap t) db = post_insert i a body ap t db"
| "run_post_op (Op_Insert_Remote i a body ap t) db = insert_remote i a body ap t db"
| "run_post_op (Op_Insert_Full q) db = insert_full q db"
| "run_post_op (Op_Insert_Repost q) db = insert_repost q db"
| "run_post_op (Op_Insert_Repost_Bsky i a at_uri orig t) db = insert_repost_bsky i a at_uri orig t db"
| "run_post_op (Op_Remote_With_Dedup q) db = dedup_write q (dedup_existing q db) db"
| "run_post_op (Op_Bsky_Post b) db = rbind (bsky_write b (bsky_existing b db) db) (\<lambda>(_, db'). Inr db')"
| "run_post_op (Op_Delete_By_Id i now) db = Inr (soft_delete_by_id i now db)"
| "run_post_op (Op_Delete_By_Ap_Object_Id ap now) db = Inr (snd (soft_delete_by_ap_object_id ap now db))"
| "run_post_op (Op_Delete_By_At_Uri at_uri now) db = Inr (snd (soft_delete_by_at_uri at_uri now db))"
| "run_post_op (Op_Delete_Subject subject now) db = Inr (snd (delete_subject_post subject now db))"
| "run_post_op (Op_Mention_Facets i facets) db = Inr (update_mention_facets i facets db)"
| "run_post_op (Op_Reference i k resolved st) db = apply_reference_resolution i k resolved st db"
| "run_post_op (Op_Ap_Object_Id i ap) db = update_ap_object_id i ap db"
| "run_post_op (Op_At_Uri_And_Cid i at_uri cid) db = set_at_uri_and_cid i at_uri cid db"
| "run_post_op (Op_Content_Metadata i cw poll) db = Inr (set_fedi_content_metadata i cw poll db)"
| "run_post_op (Op_Add_Recipient i a) db = add_recipient i a db"
| "run_post_op (Op_Attach_Media i media pos) db = attach_media i media pos db"
| "run_post_op (Op_Attach_Remote i media) db = attach_remote_media_url i media db"
| "run_post_op (Op_Claim i author ap at_uri) db =
     rbind (claim_or_find_seiranpost_merge_target i author ap at_uri db) (\<lambda>(_, db'). Inr db')"
| "run_post_op (Op_Finalize_Merge s d ap at_uri now) db = finalize_post_merge s d ap at_uri now db"

text \<open>An operation that fails leaves the tables as they were.\<close>

definition after_op :: "post_op \<Rightarrow> post_db \<Rightarrow> post_db" where
  "after_op op db = (case run_post_op op db of Inl _ \<Rightarrow> db | Inr db' \<Rightarrow> db')"

section \<open>The invariants\<close>

definition posts_wf :: "post_db \<Rightarrow> bool" where
  "posts_wf db \<longleftrightarrow>
     distinct (map p_id (t_posts db)) \<and> distinct (map a_id (t_actors db))
     \<and> (\<forall>p \<in> set (t_posts db). \<forall>q \<in> set (t_posts db). p_id p \<noteq> p_id q \<longrightarrow> \<not> unique_conflict p q)
     \<and> (\<forall>p \<in> set (t_posts db). references_known db p)
     \<and> (\<forall>p \<in> set (t_posts db). \<exists>a. find_actor (p_actor_id p) db = Some a \<and> p_is_local p = (a_actor_type a = ''local''))"

definition children :: "reference_kind \<Rightarrow> post_id \<Rightarrow> posts_row list \<Rightarrow> nat" where
  "children k i rows = length (filter (\<lambda>c. live c \<and> ref_of k c = Some i) rows)"

definition counts_exact :: "post_db \<Rightarrow> bool" where
  "counts_exact db \<longleftrightarrow> (\<forall>p \<in> set (t_posts db). \<forall>k. p_counts p k = int (children k (p_id p) (t_posts db)))"

definition live_posts_of :: "actor_id \<Rightarrow> posts_row list \<Rightarrow> nat" where
  "live_posts_of a rows = length (filter (\<lambda>p. live p \<and> p_actor_id p = a) rows)"

definition notes_exact :: "post_db \<Rightarrow> bool" where
  "notes_exact db \<longleftrightarrow> (\<forall>a \<in> set (t_actors db). a_notes_count a = int (live_posts_of (a_id a) (t_posts db)))"

text \<open>The operations that the counters follow.\<close>

fun counts_references :: "post_op \<Rightarrow> bool" where
  "counts_references (Op_Reference _ _ (Some _) _) = False"
| "counts_references _ = True"

fun counts_notes :: "post_op \<Rightarrow> bool" where
  "counts_notes (Op_Bsky_Post _) = False"
| "counts_notes (Op_Delete_Subject _ _) = False"
| "counts_notes (Op_Finalize_Merge _ _ _ _ _) = False"
| "counts_notes _ = True"

section \<open>Well-formed rows\<close>

lemma references_known_mono:
  "references_known db p \<Longrightarrow> foreign_posts q = foreign_posts p \<Longrightarrow> p_id q = p_id p
    \<Longrightarrow> p_id ` set (t_posts db) \<subseteq> p_id ` set (t_posts db') \<Longrightarrow> references_known db' q"
  by (auto simp: references_known_def list_all_iff post_known_iff)

lemma same_key_sym: "same_key x y = same_key y x"
  unfolding same_key_def by metis

lemma unique_conflict_sym: "unique_conflict p q = unique_conflict q p"
proof -
  have "same_claims p q = same_claims q p" unfolding same_claims_def by (metis same_key_sym)
  then show ?thesis unfolding unique_conflict_def by (metis same_key_sym)
qed

lemma find_actor_same: "t_actors db' = t_actors db \<Longrightarrow> find_actor a db' = find_actor a db"
  by (simp add: find_actor_def)

text \<open>Rows are changed one by one, no key is taken that another row has, and no reference is lost.\<close>

lemma posts_wf_map:
  assumes wf: "posts_wf db" and rows: "t_posts db' = map g (t_posts db)" and actors: "t_actors db' = t_actors db"
    and same: "\<And>p. p \<in> set (t_posts db) \<Longrightarrow> p_id (g p) = p_id p \<and> p_actor_id (g p) = p_actor_id p \<and> p_is_local (g p) = p_is_local p"
    and keys: "\<And>p q. p \<in> set (t_posts db) \<Longrightarrow> q \<in> set (t_posts db) \<Longrightarrow> p_id p \<noteq> p_id q
      \<Longrightarrow> unique_conflict (g p) (g q) \<Longrightarrow> unique_conflict p q"
    and known: "\<And>p. p \<in> set (t_posts db) \<Longrightarrow> references_known db p \<Longrightarrow> references_known db (g p)"
  shows "posts_wf db'"
proof -
  have ids: "map p_id (t_posts db') = map p_id (t_posts db)" using rows same by simp
  then have "p_id ` set (t_posts db') = p_id ` set (t_posts db)" by (metis set_map)
  then have "references_known db' p = references_known db p" for p
    by (simp add: references_known_def post_known_iff)
  moreover have "distinct (map p_id (t_posts db'))" using wf by (simp add: ids posts_wf_def)
  moreover have "\<not> unique_conflict (g p) (g q)" if "p \<in> set (t_posts db)" "q \<in> set (t_posts db)" "p_id p \<noteq> p_id q" for p q
    using wf that keys [of p q] by (auto simp: posts_wf_def)
  ultimately show ?thesis using wf rows actors same known
    by (auto simp: posts_wf_def find_actor_same [OF actors] simp del: map_map)
qed

lemma posts_wf_insert:
  assumes wf: "posts_wf db" and ins: "insert_posts p db = Inr db'" and new: "live p"
  shows "posts_wf db'"
proof -
  let ?row = "stored_row p db"
  define db1 where "db1 = db\<lparr>t_posts := t_posts db @ [?row]\<rparr>"
  have p: "actor_known db (p_actor_id p)" "\<And>q. q \<in> set (t_posts db) \<Longrightarrow> \<not> unique_conflict p q"
    "references_known db ?row"
    using ins by (auto simp: insert_posts_Inr_iff list_all_iff)
  note sym = unique_conflict_sym [of _ p]
  have "p_id p \<notin> p_id ` set (t_posts db)" using p(2) by (auto simp: unique_conflict_def)
  then have "distinct (map p_id (t_posts db1))" using wf by (auto simp: posts_wf_def db1_def)
  moreover have "references_known db1 q" if "q \<in> set (t_posts db1)" for q
    using that wf p(3) references_known_mono [of db q q db1] references_known_mono [of db ?row ?row db1]
    by (auto simp: posts_wf_def db1_def)
  moreover have "\<exists>a. find_actor (p_actor_id q) db1 = Some a \<and> p_is_local q = (a_actor_type a = ''local'')"
    if "q \<in> set (t_posts db1)" for q
    using that wf p(1) by (auto simp: posts_wf_def db1_def find_actor_def actor_known_def stored_row_def)
  moreover have "\<not> unique_conflict q r" if "q \<in> set (t_posts db1)" "r \<in> set (t_posts db1)" "p_id q \<noteq> p_id r" for q r
    using that wf p(2) sym by (auto simp: posts_wf_def db1_def)
  ultimately have "posts_wf db1" using wf by (simp add: posts_wf_def db1_def)
  then show ?thesis
  proof (rule posts_wf_map)
    show "t_posts db' = map (recounted (\<lambda>n. n + 1) p) (t_posts db1)" "t_actors db' = t_actors db1"
      using insert_posts_rows [OF ins new] by (simp_all add: db1_def)
  qed (simp_all add: references_known_def)
qed

lemma posts_wf_change:
  assumes wf: "posts_wf db" and ch: "change_post i f db = Inr db'"
    and same: "\<And>p. p_id (f p) = p_id p" "\<And>p. p_actor_id (f p) = p_actor_id p" "\<And>p. p_is_local (f p) = p_is_local p"
  shows "posts_wf db'"
  using ch
proof (cases rule: change_post_Inr_cases)
  case 1
  then show ?thesis using wf by simp
next
  case (2 p)
  have p: "p \<in> set (t_posts db)" "p_id p = i" using 2(1) by (auto simp: find_post_def find_Some_iff)
  have the: "q = p" if "q \<in> set (t_posts db)" "p_id q = i" for q
    using that p wf by (auto simp: posts_wf_def distinct_map inj_on_def)
  show ?thesis using wf
  proof (rule posts_wf_map)
    show "t_posts db' = map (\<lambda>q. if p_id q = i then f q else q) (t_posts db)" "t_actors db' = t_actors db"
      using 2(4) by (simp_all add: set_post_def)
  next
    fix q r assume qr: "q \<in> set (t_posts db)" "r \<in> set (t_posts db)" "p_id q \<noteq> p_id r"
      and "unique_conflict (if p_id q = i then f q else q) (if p_id r = i then f r else r)"
    moreover have "\<not> unique_conflict (f p) s" if "s \<in> set (t_posts db)" "p_id s \<noteq> i" for s
      using that 2(2) by (auto simp: list_all_iff)
    ultimately show "unique_conflict q r" using the [of q] the [of r] unique_conflict_sym [of q "f r"]
      by (auto split: if_splits simp: unique_conflict_sym [of "f p"])
  next
    fix q assume "q \<in> set (t_posts db)" "references_known db q"
    then show "references_known db (if p_id q = i then f q else q)" using the [of q] 2(3) by auto
  qed (simp_all add: same)
qed

lemma fold_recounted_sel:
  "p_id (fold (recounted f) hit p) = p_id p" "p_actor_id (fold (recounted f) hit p) = p_actor_id p"
  "p_is_local (fold (recounted f) hit p) = p_is_local p" "p_deleted_at (fold (recounted f) hit p) = p_deleted_at p"
  "p_refs (fold (recounted f) hit p) = p_refs p"
  "unique_conflict (fold (recounted f) hit p) q = unique_conflict p q"
  "unique_conflict q (fold (recounted f) hit p) = unique_conflict q p"
  "foreign_posts (fold (recounted f) hit p) = foreign_posts p"
  by (induction hit arbitrary: p) simp_all

lemma marked_sel [simp]:
  "p_id (marked P now p) = p_id p" "p_actor_id (marked P now p) = p_actor_id p"
  "p_is_local (marked P now p) = p_is_local p" "p_refs (marked P now p) = p_refs p"
  "p_counts (marked P now p) = p_counts p" "foreign_posts (marked P now p) = foreign_posts p"
  by (cases "P p \<and> live p"; simp add: marked_def foreign_posts_def del: map_filter_simps)+

lemma live_marked [simp]: "live (marked P now p) \<longleftrightarrow> live p \<and> \<not> P p"
  unfolding marked_def by (cases "P p \<and> live p") auto

lemma unique_conflict_marked: "unique_conflict (marked P now p) (marked Q now' q) \<Longrightarrow> unique_conflict p q"
  by (auto simp: unique_conflict_def same_claims_def marked_def split: if_splits)

lemma posts_wf_soft_delete: "posts_wf db \<Longrightarrow> posts_wf (snd (soft_delete P now db))"
  by (erule posts_wf_map, rule soft_delete_rows(1), rule soft_delete_rows(2))
    (auto simp: fold_recounted_sel references_known_def dest: unique_conflict_marked)

section \<open>Counters\<close>

abbreviation less_one :: "int \<Rightarrow> int" where "less_one n \<equiv> max (n - 1) 0"

lemma children_map:
  "(\<And>p. p \<in> set rows \<Longrightarrow> live (g p) = live p \<and> ref_of k (g p) = ref_of k p) \<Longrightarrow> children k i (map g rows) = children k i rows"
  by (induction rows) (auto simp: children_def)

lemma children_append: "children k i (xs @ ys) = children k i xs + children k i ys"
  by (simp add: children_def)

lemma counts_exact_map:
  assumes "counts_exact db" "t_posts db' = map g (t_posts db)"
    and "\<And>p. p \<in> set (t_posts db) \<Longrightarrow> p_id (g p) = p_id p \<and> p_counts (g p) = p_counts p \<and> live (g p) = live p
      \<and> (\<forall>k. ref_of k (g p) = ref_of k p)"
  shows "counts_exact db'"
  using assms by (auto simp: counts_exact_def children_map)

lemma counts_exact_insert:
  assumes wf: "posts_wf db" and exact: "counts_exact db"
    and ins: "insert_posts p db = Inr db'" and new: "live p" "p_counts p = (\<lambda>_. 0)"
  shows "counts_exact db'"
proof -
  let ?row = "stored_row p db"
  have rows: "t_posts db' = map (recounted (\<lambda>n. n + 1) p) (t_posts db @ [?row])"
    using insert_posts_rows [OF ins new(1)] by simp
  have kids: "children k i (t_posts db') = children k i (t_posts db) + (if ref_of k p = Some i then 1 else 0)" for k i
    unfolding rows using new(1) by (subst children_map) (auto simp: children_append, auto simp: children_def)
  have fresh: "p_id p \<notin> p_id ` set (t_posts db)"
    using ins by (auto simp: insert_posts_Inr_iff list_all_iff unique_conflict_def)
  have "ref_of k c \<noteq> Some (p_id p)" if "c \<in> set (t_posts db)" for k c
  proof
    assume "ref_of k c = Some (p_id p)"
    then have "p_id p \<in> set (foreign_posts c)" by (cases k) (auto simp: foreign_posts_def map_filter_def)
    moreover have "p_id p \<noteq> p_id c" using fresh that by auto
    ultimately show False using wf that fresh
      by (auto simp: posts_wf_def references_known_def list_all_iff post_known_iff)
  qed
  then have "children k (p_id p) (t_posts db) = 0" for k by (auto simp: children_def filter_empty_conv)
  then show ?thesis using exact new(2) by (auto simp: counts_exact_def kids) (auto simp: rows)
qed

lemma fold_less_one:
  "int (length (filter (\<lambda>h. ref_of k h = Some (p_id p)) hit)) \<le> p_counts p k \<Longrightarrow>
   p_counts (fold (recounted less_one) hit p) k = p_counts p k - int (length (filter (\<lambda>h. ref_of k h = Some (p_id p)) hit))"
proof (induction hit arbitrary: p)
  case (Cons h hit)
  have "less_one (p_counts p k) = p_counts p k - 1" if "ref_of k h = Some (p_id p)"
    using Cons.prems that by simp
  then show ?case using Cons.prems Cons.IH [of "recounted less_one h p"]
    by (cases "ref_of k h = Some (p_id p)") simp_all
qed simp

lemma children_delete:
  assumes "\<And>p. p \<in> set rows \<Longrightarrow> live (g p) = (live p \<and> \<not> Q p) \<and> ref_of k (g p) = ref_of k p"
    and "\<And>p. p \<in> set rows \<Longrightarrow> Q p \<Longrightarrow> live p"
  shows "children k i rows = children k i (map g rows) + length (filter (\<lambda>h. ref_of k h = Some i) (filter Q rows))"
  using assms
proof (induction rows)
  case (Cons p rows)
  have "children k i rows = children k i (map g rows) + length (filter (\<lambda>h. ref_of k h = Some i) (filter Q rows))"
    using Cons by simp
  then show ?case using Cons.prems(1) [of p] Cons.prems(2) [of p] by (auto simp: children_def)
qed (simp add: children_def)

text \<open>Rows that are given up, with the counters of what they refer to.\<close>

lemma counts_exact_delete:
  assumes exact: "counts_exact db"
    and rows: "t_posts db' = map (\<lambda>p. fold (recounted less_one) (filter Q (t_posts db)) (g p)) (t_posts db)"
    and g: "\<And>p. p \<in> set (t_posts db) \<Longrightarrow> p_id (g p) = p_id p \<and> p_counts (g p) = p_counts p
      \<and> live (g p) = (live p \<and> \<not> Q p) \<and> (\<forall>k. ref_of k (g p) = ref_of k p)"
    and Q: "\<And>p. p \<in> set (t_posts db) \<Longrightarrow> Q p \<Longrightarrow> live p"
  shows "counts_exact db'"
proof -
  let ?hit = "filter Q (t_posts db)"
  let ?refs = "\<lambda>k i. length (filter (\<lambda>h. ref_of k h = Some i) ?hit)"
  have rows': "t_posts db' = map (fold (recounted less_one) ?hit) (map g (t_posts db))" using rows by simp
  have kids: "children k i (t_posts db) = children k i (t_posts db') + ?refs k i" for k i
  proof -
    have "children k i (t_posts db') = children k i (map g (t_posts db))"
      unfolding rows' by (rule children_map) (simp add: fold_recounted_sel)
    then show ?thesis using children_delete [of "t_posts db" g Q k i] g Q by simp
  qed
  show ?thesis
    unfolding counts_exact_def
  proof (intro ballI allI)
    fix r k assume "r \<in> set (t_posts db')"
    then obtain p where p: "p \<in> set (t_posts db)" and r: "r = fold (recounted less_one) ?hit (g p)"
      using rows by auto
    have "p_counts (g p) k = int (children k (p_id p) (t_posts db))" using exact p g [OF p] by (auto simp: counts_exact_def)
    moreover have "p_counts r k = p_counts (g p) k - int (?refs k (p_id (g p)))"
      unfolding r by (rule fold_less_one) (use calculation kids [of k "p_id p"] g [OF p] in simp)
    ultimately show "p_counts r k = int (children k (p_id r) (t_posts db'))"
      using kids [of k "p_id p"] g [OF p] by (simp add: r fold_recounted_sel)
  qed
qed

lemma counts_exact_soft_delete: "counts_exact db \<Longrightarrow> counts_exact (snd (soft_delete P now db))"
  by (erule counts_exact_delete [where g = "marked P now" and Q = "\<lambda>p. P p \<and> live p"])
    (auto simp: soft_delete_rows(1))

lemma counts_exact_change:
  assumes "counts_exact db" "change_post i f db = Inr db'"
    and "\<And>p. p_id (f p) = p_id p \<and> p_counts (f p) = p_counts p \<and> live (f p) = live p \<and> (\<forall>k. ref_of k (f p) = ref_of k p)"
  shows "counts_exact db'"
  using assms(2)
proof (cases rule: change_post_Inr_cases)
  case 1
  then show ?thesis using assms(1) by simp
next
  case (2 p)
  show ?thesis
    by (rule counts_exact_map [OF assms(1), where g = "\<lambda>p. if p_id p = i then f p else p"])
      (use 2(4) assms(3) in \<open>auto simp: t_posts_set_post\<close>)
qed

lemma live_posts_of_map:
  "(\<And>p. p \<in> set rows \<Longrightarrow> live (g p) = live p \<and> p_actor_id (g p) = p_actor_id p) \<Longrightarrow> live_posts_of a (map g rows) = live_posts_of a rows"
  by (induction rows) (auto simp: live_posts_of_def)

lemma notes_exact_map:
  assumes "notes_exact db" "t_posts db' = map g (t_posts db)" "t_actors db' = t_actors db"
    and "\<And>p. p \<in> set (t_posts db) \<Longrightarrow> live (g p) = live p \<and> p_actor_id (g p) = p_actor_id p"
  shows "notes_exact db'"
  using assms by (simp add: notes_exact_def live_posts_of_map)

lemma notes_exact_insert:
  assumes exact: "notes_exact db" and ins: "insert_posts p db = Inr db'" and new: "live p"
    and more: "t_posts db'' = t_posts db'" "t_actors db'' = t_actors db'"
  shows "notes_exact (count_note (p_actor_id p) db'')"
proof -
  have rows: "t_posts db' = map (recounted (\<lambda>n. n + 1) p) (t_posts db @ [stored_row p db])" "t_actors db' = t_actors db"
    using insert_posts_rows [OF ins new] by simp_all
  have "live_posts_of a (t_posts db') = live_posts_of a (t_posts db) + (if p_actor_id p = a then 1 else 0)" for a
    unfolding rows using new by (subst live_posts_of_map) (auto simp: live_posts_of_def)
  then show ?thesis using exact more rows(2)
    by (auto simp: notes_exact_def count_note_def update_actor_def)
qed

lemma live_posts_of_delete:
  assumes "\<And>p. p \<in> set rows \<Longrightarrow> live (g p) = (live p \<and> \<not> Q p) \<and> p_actor_id (g p) = p_actor_id p"
    and "\<And>p. p \<in> set rows \<Longrightarrow> Q p \<Longrightarrow> live p"
  shows "live_posts_of a rows = live_posts_of a (map g rows) + length (filter (\<lambda>h. p_actor_id h = a) (filter Q rows))"
  using assms
proof (induction rows)
  case (Cons p rows)
  have "live_posts_of a rows = live_posts_of a (map g rows) + length (filter (\<lambda>h. p_actor_id h = a) (filter Q rows))"
    using Cons by simp
  then show ?case using Cons.prems(1) [of p] Cons.prems(2) [of p] by (auto simp: live_posts_of_def)
qed (simp add: live_posts_of_def)

text \<open>At most one row is deleted: no two have the key the statement asks for.\<close>

lemma notes_exact_soft_delete_counted:
  assumes exact: "notes_exact db" and one: "length (filter (\<lambda>p. P p \<and> live p) (t_posts db)) \<le> 1"
  shows "notes_exact (snd (soft_delete_counted P now db))"
proof -
  let ?hit = "filter (\<lambda>p. P p \<and> live p) (t_posts db)"
  obtain db' where del: "soft_delete P now db = (?hit, db')"
    using soft_delete_rows(3) [of P now db] by (metis prod.collapse)
  have rows: "t_posts db' = map (fold (recounted less_one) ?hit) (map (marked P now) (t_posts db))" "t_actors db' = t_actors db"
    using soft_delete_rows(1,2) [of P now db] by (simp_all add: del)
  have "live_posts_of a (t_posts db') = live_posts_of a (map (marked P now) (t_posts db))" for a
    unfolding rows by (rule live_posts_of_map) (simp add: fold_recounted_sel)
  moreover have "live_posts_of a (t_posts db)
      = live_posts_of a (map (marked P now) (t_posts db)) + length (filter (\<lambda>h. p_actor_id h = a) ?hit)" for a
    by (rule live_posts_of_delete) auto
  ultimately have count: "live_posts_of a (t_posts db) = live_posts_of a (t_posts db') + length (filter (\<lambda>h. p_actor_id h = a) ?hit)" for a
    by (simp only:)
  show ?thesis
  proof (cases ?hit)
    case Nil
    have "t_actors (snd (soft_delete_counted P now db)) = t_actors db" "t_posts (snd (soft_delete_counted P now db)) = t_posts db'"
      unfolding soft_delete_counted_def del using rows(2) by (simp_all add: Nil)
    moreover have "live_posts_of a (t_posts db) = live_posts_of a (t_posts db')" for a using count [of a] by (simp only: Nil) simp
    ultimately show ?thesis using exact by (simp add: notes_exact_def)
  next
    case (Cons h rest)
    then have hit: "?hit = [h]" using one by (cases rest) auto
    have "snd (soft_delete_counted P now db) = uncount_note (p_actor_id h) db'"
      unfolding soft_delete_counted_def del by (simp only: hit) simp
    moreover have "live_posts_of a (t_posts db) = live_posts_of a (t_posts db') + (if p_actor_id h = a then 1 else 0)" for a
      using count [of a] by (simp only: hit) simp
    ultimately show ?thesis using exact rows(2)
      by (auto simp: notes_exact_def uncount_note_def update_actor_def)
  qed
qed

lemma one_hit:
  assumes "posts_wf db" "\<And>p q. P p \<Longrightarrow> P q \<Longrightarrow> unique_conflict p q"
  shows "length (filter (\<lambda>p. P p \<and> live p) (t_posts db)) \<le> 1"
proof (rule ccontr)
  let ?hit = "filter (\<lambda>p. P p \<and> live p) (t_posts db)"
  assume "\<not> length ?hit \<le> 1"
  then obtain p q rest where hit: "?hit = p # q # rest" by (cases ?hit; cases "tl ?hit") auto
  have "distinct (map p_id ?hit)" using assms(1) by (simp add: posts_wf_def distinct_map inj_on_def)
  then have "p_id p \<noteq> p_id q" by (simp add: hit)
  moreover have "p \<in> set ?hit" "q \<in> set ?hit" by (simp_all only: hit) simp_all
  ultimately show False using assms by (auto simp: posts_wf_def)
qed

end
