(* ===== verification/Post_History.thy ===== *)
theory Post_History
  imports Post_Inv
begin

text \<open>The invariants of the post tables along every history of operations.\<close>

section \<open>Operations that only touch other tables or columns\<close>

lemma find_actor_type:
  "map_option a_actor_type (find_actor a db) = map_of (map (\<lambda>r. (a_id r, a_actor_type r)) (t_actors db)) a"
proof -
  have "map_option a_actor_type (find (\<lambda>r. a_id r = a) rows) = map_of (map (\<lambda>r. (a_id r, a_actor_type r)) rows) a" for rows
    by (induction rows) auto
  then show ?thesis by (simp add: find_actor_def)
qed

lemma posts_wf_cong:
  assumes "t_posts db' = t_posts db"
    and "map (\<lambda>r. (a_id r, a_actor_type r)) (t_actors db') = map (\<lambda>r. (a_id r, a_actor_type r)) (t_actors db)"
  shows "posts_wf db' = posts_wf db"
proof -
  have "map a_id (t_actors db') = map a_id (t_actors db)"
    using arg_cong [OF assms(2), of "map fst"] by (simp add: comp_def)
  moreover have "(\<exists>x. find_actor a db'' = Some x \<and> b = (a_actor_type x = ''local''))
      \<longleftrightarrow> (\<exists>t. map_option a_actor_type (find_actor a db'') = Some t \<and> b = (t = ''local''))" for a b and db'' :: post_db
    by (cases "find_actor a db''") auto
  ultimately show ?thesis
    using assms by (simp add: posts_wf_def references_known_def post_known_iff find_actor_type)
qed

lemma update_actor_types:
  "(\<And>r. a_id (f r) = a_id r \<and> a_actor_type (f r) = a_actor_type r) \<Longrightarrow>
   map (\<lambda>r. (a_id r, a_actor_type r)) (t_actors (update_actor a f db)) = map (\<lambda>r. (a_id r, a_actor_type r)) (t_actors db)"
  by (auto simp: update_actor_def)

lemma posts_wf_notes [simp]: "posts_wf (count_note a db) = posts_wf db" "posts_wf (uncount_note a db) = posts_wf db"
  by (rule posts_wf_cong, simp, simp add: count_note_def update_actor_types)
    (rule posts_wf_cong, simp, simp add: uncount_note_def update_actor_types)

lemma counts_exact_notes [simp]:
  "counts_exact (count_note a db) = counts_exact db" "counts_exact (uncount_note a db) = counts_exact db"
  by (simp_all add: counts_exact_def)

lemma wf_same_rows: "posts_wf db \<Longrightarrow> t_posts db' = t_posts db \<Longrightarrow> t_actors db' = t_actors db \<Longrightarrow> posts_wf db'"
  using posts_wf_cong by metis

lemma counts_same_rows: "counts_exact db \<Longrightarrow> t_posts db' = t_posts db \<Longrightarrow> counts_exact db'"
  by (simp add: counts_exact_def)

lemma notes_same_rows: "notes_exact db \<Longrightarrow> t_posts db' = t_posts db \<Longrightarrow> t_actors db' = t_actors db \<Longrightarrow> notes_exact db'"
  by (simp add: notes_exact_def)

text \<open>All three at once, for a statement that inserts a row and counts it.\<close>

definition posts_ok :: "bool \<Rightarrow> bool \<Rightarrow> post_db \<Rightarrow> bool" where
  "posts_ok refs notes db \<longleftrightarrow>
     posts_wf db \<and> (refs \<longrightarrow> counts_exact db) \<and> (notes \<longrightarrow> notes_exact db)"

lemma posts_ok_same_rows:
  "posts_ok refs notes db \<Longrightarrow> t_posts db' = t_posts db \<Longrightarrow> t_actors db' = t_actors db \<Longrightarrow> posts_ok refs notes db'"
  unfolding posts_ok_def using wf_same_rows counts_same_rows notes_same_rows by metis

lemma posts_ok_insert:
  assumes "posts_ok refs notes db" "insert_posts p db = Inr db'" "live p" "p_counts p = (\<lambda>_. 0)"
    and "t_posts db'' = t_posts db'" "t_actors db'' = t_actors db'"
  shows "posts_ok refs notes (count_note (p_actor_id p) db'')"
proof -
  have "posts_wf db'" "refs \<longrightarrow> counts_exact db'"
    using assms posts_wf_insert counts_exact_insert by (auto simp: posts_ok_def)
  then have "posts_wf db''" "refs \<longrightarrow> counts_exact db''"
    using assms(5,6) wf_same_rows counts_same_rows by metis+
  moreover have "notes \<longrightarrow> notes_exact (count_note (p_actor_id p) db'')"
    using assms notes_exact_insert by (auto simp: posts_ok_def)
  ultimately show ?thesis by (simp add: posts_ok_def)
qed

lemma posts_ok_insert_unless:
  assumes "posts_ok refs notes db" "insert_unless key p db = Inr (inserted, db')" "live p" "p_counts p = (\<lambda>_. 0)"
  shows "posts_ok refs notes (if inserted then count_note (p_actor_id p) db' else db')"
  using assms(2)
proof (cases rule: insert_unless_cases)
  case 1
  then show ?thesis using assms(1) by simp
next
  case 2
  then show ?thesis using posts_ok_insert [OF assms(1) _ assms(3,4), of db' db'] by simp
qed

lemma posts_ok_soft_delete_counted:
  assumes "posts_ok refs notes db" "\<And>p q. P p \<Longrightarrow> P q \<Longrightarrow> unique_conflict p q"
  shows "posts_ok refs notes (snd (soft_delete_counted P now db))"
proof -
  have "posts_wf (snd (soft_delete_counted P now db))" "refs \<longrightarrow> counts_exact (snd (soft_delete_counted P now db))"
    using assms(1) posts_wf_soft_delete [of db P now] counts_exact_soft_delete [of db P now]
    by (auto simp: posts_ok_def soft_delete_counted_def split: prod.splits list.splits)
  moreover have "notes \<longrightarrow> notes_exact (snd (soft_delete_counted P now db))"
    using assms one_hit [of db P] notes_exact_soft_delete_counted [of db P now] by (auto simp: posts_ok_def)
  ultimately show ?thesis by (simp add: posts_ok_def)
qed

lemma posts_ok_change:
  assumes "posts_ok refs notes db" "change_post i f db = Inr db'"
    and f: "\<And>p. p_id (f p) = p_id p \<and> p_actor_id (f p) = p_actor_id p \<and> p_is_local (f p) = p_is_local p
      \<and> p_counts (f p) = p_counts p \<and> live (f p) = live p"
    and r: "refs \<Longrightarrow> \<forall>p k. ref_of k (f p) = ref_of k p"
  shows "posts_ok refs notes db'"
proof -
  have "posts_wf db'" using assms(1,2) f posts_wf_change [of db i f db'] by (auto simp: posts_ok_def)
  moreover have "refs \<longrightarrow> counts_exact db'"
    using assms(1,2) f r counts_exact_change [of db i f db'] by (auto simp: posts_ok_def)
  moreover have "notes_exact db'" if "notes"
  proof -
    have ex: "notes_exact db" using that assms(1) by (simp add: posts_ok_def)
    show ?thesis using assms(2)
    proof (cases rule: change_post_Inr_cases)
      case 1
      then show ?thesis using ex by simp
    next
      case (2 p)
      show ?thesis
        by (rule notes_exact_map [OF ex, where g = "\<lambda>p. if p_id p = i then f p else p"])
          (use 2(4) f in \<open>auto simp: set_post_def\<close>)
    qed
  qed
  ultimately show ?thesis by (simp add: posts_ok_def)
qed

lemma posts_ok_set:
  assumes ok: "posts_ok refs notes db"
    and f: "\<And>p. p_id (f p) = p_id p \<and> p_actor_id (f p) = p_actor_id p \<and> p_is_local (f p) = p_is_local p
      \<and> p_counts (f p) = p_counts p \<and> p_deleted_at (f p) = p_deleted_at p \<and> p_refs (f p) = p_refs p
      \<and> foreign_posts (f p) = foreign_posts p"
    and u: "\<And>p q. unique_conflict (f p) q = unique_conflict p q"
  shows "posts_ok refs notes (set_post i f db)"
proof -
  let ?g = "\<lambda>p. if p_id p = i then f p else p"
  have rows: "t_posts (set_post i f db) = map ?g (t_posts db)" "t_actors (set_post i f db) = t_actors db"
    by (simp_all add: set_post_def)
  have "unique_conflict p (f q) = unique_conflict p q" for p q using u unique_conflict_sym by metis
  then have "posts_wf (set_post i f db)"
    using ok f u by (intro posts_wf_map [OF _ rows]) (auto simp: posts_ok_def references_known_def split: if_splits)
  moreover have "refs \<longrightarrow> counts_exact (set_post i f db)"
    using ok f by (auto simp: posts_ok_def intro!: counts_exact_map [OF _ rows(1)] split: if_splits)
  moreover have "notes \<longrightarrow> notes_exact (set_post i f db)"
    using ok f by (auto simp: posts_ok_def intro!: notes_exact_map [OF _ rows] split: if_splits)
  ultimately show ?thesis by (simp add: posts_ok_def)
qed

section \<open>Every operation\<close>

lemma filter_id_singleton:
  assumes "distinct (map h xs)" "x \<in> set xs" "P x" and inj: "\<And>y. P y \<Longrightarrow> h y = h x"
  shows "filter P xs = [x]"
proof -
  obtain ys zs where xs: "xs = ys @ x # zs" using assms(2) by (meson split_list)
  have "h x \<notin> h ` set ys" "h x \<notin> h ` set zs" using assms(1) by (auto simp: xs)
  then have "\<not> P y" if "y \<in> set ys \<union> set zs" for y using inj [of y] that by (metis UnE image_eqI)
  then have "filter P ys = []" "filter P zs = []" by (auto simp: filter_empty_conv)
  then show ?thesis using assms(3) by (simp add: xs)
qed

lemma new_post_sel [simp]:
  "p_deleted_at (new_post i a body t) = None" "p_counts (new_post i a body t) = (\<lambda>_. 0)"
  "p_actor_id (new_post i a body t) = a" "p_id (new_post i a body t) = i"
  by (simp_all add: new_post_def)

lemma set_ref_sel [simp]:
  "p_deleted_at (set_ref_id k r p) = p_deleted_at p" "p_counts (set_ref_id k r p) = p_counts p"
  "p_actor_id (set_ref_id k r p) = p_actor_id p" "p_id (set_ref_id k r p) = p_id p"
  "p_is_local (set_ref_id k r p) = p_is_local p"
  "p_deleted_at (set_ref k r u st p) = p_deleted_at p" "p_counts (set_ref k r u st p) = p_counts p"
  "p_actor_id (set_ref k r u st p) = p_actor_id p" "p_id (set_ref k r u st p) = p_id p"
  by (simp_all add: set_ref_id_def set_ref_def)

lemma full_row_sel [simp]:
  "p_deleted_at (full_row q v) = None" "p_counts (full_row q v) = (\<lambda>_. 0)" "p_actor_id (full_row q v) = if_actor_id q"
  by (simp_all add: full_row_def)

lemma dedup_row_sel [simp]:
  "p_deleted_at (dedup_row q v x y) = None" "p_counts (dedup_row q v x y) = (\<lambda>_. 0)"
  "p_actor_id (dedup_row q v x y) = rd_actor_id q" "p_id (dedup_row q v x y) = rd_id q"
  by (simp_all add: dedup_row_def)

lemma bsky_row_sel [simp]:
  "p_deleted_at (bsky_row b) = None" "p_counts (bsky_row b) = (\<lambda>_. 0)" "p_actor_id (bsky_row b) = bp_actor_id b"
  "p_id (bsky_row b) = bp_post_id b"
  by (simp_all add: bsky_row_def)

lemma posts_ok_counted_insert:
  assumes "posts_ok refs notes db" "counted_insert p db = Inr db'" "live p" "p_counts p = (\<lambda>_. 0)"
  shows "posts_ok refs notes db'"
  using assms(2) posts_ok_insert [OF assms(1) _ assms(3,4)] by (auto simp: counted_insert_def rbind_Inr_iff)

lemma posts_ok_insert_full:
  assumes ok: "posts_ok refs notes db" and run: "insert_full q db = Inr db'"
  shows "posts_ok refs notes db'"
proof -
  obtain v db1 db2 where ins: "insert_posts (full_row q v) db = Inr db1"
    and rec: "(if if_recipient_actor_ids q \<noteq> [] then insert_recipients (if_id q) (if_recipient_actor_ids q) db1 else Inr db1) = Inr db2"
    and db': "db' = count_note (if_actor_id q) db2"
    using run by (auto simp: insert_full_def rbind_Inr_iff)
  have "t_posts db2 = t_posts db1" "t_actors db2 = t_actors db1"
    using rec insert_recipients_Inr [of "if_id q" "if_recipient_actor_ids q" db1 db2] by (auto split: if_splits)
  then show ?thesis using posts_ok_insert [OF ok ins, of db2] by (simp add: db')
qed

lemma posts_ok_insert_repost:
  assumes ok: "posts_ok refs notes db" and run: "insert_repost q db = Inr db'"
  shows "posts_ok refs notes db'"
proof -
  obtain v st inserted db1 where ins: "insert_unless p_ap_object_id
         (set_ref Repost_Ref (rp_repost_of_post_id q) (rp_repost_of_ap_uri q) st
           ((new_post (rp_id q) (rp_actor_id q) [] (rp_created_at q))
             \<lparr>p_ap_object_id := Some (rp_ap_object_id q), p_visibility := v\<rparr>)) db = Inr (inserted, db1)"
    and db': "db' = (if inserted then count_note (rp_actor_id q) db1 else db1)"
    using run by (auto simp: insert_repost_def rbind_Inr_iff)
  show ?thesis using posts_ok_insert_unless [OF ok ins] by (cases inserted) (simp_all add: db')
qed

lemma posts_ok_insert_remote:
  assumes ok: "posts_ok refs notes db" and run: "insert_remote i a body ap t db = Inr db'"
  shows "posts_ok refs notes db'"
proof -
  obtain inserted db1 where ins: "insert_unless p_ap_object_id ((new_post i a body t)\<lparr>p_ap_object_id := Some ap\<rparr>) db = Inr (inserted, db1)"
    and db': "db' = (if inserted then count_note a db1 else db1)"
    using run by (auto simp: insert_remote_def rbind_Inr_iff)
  show ?thesis using posts_ok_insert_unless [OF ok ins] by (cases inserted) (simp_all add: db')
qed

lemma posts_ok_dedup_insert:
  assumes ok: "posts_ok refs notes db" and run: "dedup_insert q db = Inr db'"
  shows "posts_ok refs notes db'"
proof -
  obtain v x y inserted db1 where ins: "insert_unless p_ap_object_id (dedup_row q v x y) db = Inr (inserted, db1)"
    and rest: "(if \<not> inserted then Inr db1
       else rbind (if rd_recipient_actor_ids q \<noteq> [] then insert_recipients (rd_id q) (rd_recipient_actor_ids q) db1
                   else Inr db1) (\<lambda>db2. Inr (count_note (rd_actor_id q) db2))) = Inr db'"
    using run by (auto simp: dedup_insert_def rbind_Inr_iff)
  show ?thesis using ins
  proof (cases rule: insert_unless_cases)
    case 1
    then show ?thesis using rest ok by simp
  next
    case 2
    then obtain db2 where db2: "(if rd_recipient_actor_ids q \<noteq> [] then insert_recipients (rd_id q) (rd_recipient_actor_ids q) db1
        else Inr db1) = Inr db2" "db' = count_note (rd_actor_id q) db2"
      using rest by (auto simp: rbind_Inr_iff)
    have "t_posts db2 = t_posts db1" "t_actors db2 = t_actors db1"
      using db2(1) insert_recipients_Inr [of "rd_id q" "rd_recipient_actor_ids q" db1 db2] by (auto split: if_splits)
    then show ?thesis using posts_ok_insert [OF ok 2(2), of db2] by (simp add: db2(2))
  qed
qed

lemma posts_ok_dedup_write:
  assumes ok: "posts_ok refs notes db" and run: "dedup_write q existing db = Inr db'"
  shows "posts_ok refs notes db'"
  using run posts_ok_dedup_insert [OF ok] posts_ok_change [OF ok]
  by (auto simp: dedup_write_def split: option.splits if_splits)

lemma posts_ok_bsky_write:
  assumes ok: "posts_ok refs False db" and run: "bsky_write b existing db = Inr (r, db')"
  shows "posts_ok refs False db'"
proof -
  have inserted: "posts_ok refs False db2" if ins: "bsky_insert b db = Inr (r2, db2)" for r2 db2
  proof -
    obtain inserted where "insert_unless p_at_uri (bsky_row b) db = Inr (inserted, db2)"
      using ins by (auto simp: bsky_insert_def rbind_Inr_iff)
    then show ?thesis
    proof (cases rule: insert_unless_cases)
      case 1
      then show ?thesis using ok by simp
    next
      case 2
      then show ?thesis using ok posts_wf_insert [OF _ 2(2)] counts_exact_insert [OF _ _ 2(2)] by (auto simp: posts_ok_def)
    qed
  qed
  show ?thesis using run inserted posts_ok_change [OF ok]
    by (auto simp: bsky_write_def rbind_Inr_iff split: option.splits if_splits)
qed

lemma posts_ok_finalize:
  assumes ok: "posts_ok refs False db" and run: "finalize_post_merge survivor doomed ap at_uri now db = Inr db'"
  shows "posts_ok refs False db'"
proof -
  let ?f = "\<lambda>p. p\<lparr>p_parent_original_post_id := Some survivor, p_deleted_at := Some now\<rparr>"
  obtain db1 db2 db3 where steps:
    "change_post doomed (\<lambda>p. p\<lparr>p_ap_object_id := None, p_at_uri := None\<rparr>) db = Inr db1"
    "change_post survivor (\<lambda>p. p\<lparr>p_ap_object_id := Some ap, p_at_uri := Some at_uri,
       p_claimed_ap_object_id := None, p_claimed_at_uri := None\<rparr>) db1 = Inr db2"
    "change_post doomed ?f db2 = Inr db3"
    and db': "db' = (case find_post doomed db2 of Some p \<Rightarrow> if live p then relation_counts_deleted p db3 else db3 | None \<Rightarrow> db3)"
    using run by (auto simp: finalize_post_merge_def rbind_Inr_iff)
  have ok2: "posts_ok refs False db2"
    by (rule posts_ok_change [OF posts_ok_change [OF ok steps(1)] steps(2)]) auto
  show ?thesis using steps(3)
  proof (cases rule: change_post_Inr_cases)
    case 1
    then show ?thesis using ok2 db' by simp
  next
    case (2 p)
    have wf3: "posts_wf db3" using ok2 steps(3) posts_wf_change [of db2 doomed ?f db3] by (auto simp: posts_ok_def)
    have p: "p \<in> set (t_posts db2)" "p_id p = doomed" using 2(1) by (auto simp: find_post_def find_Some_iff)
    have rows3: "t_posts db3 = map (\<lambda>q. if p_id q = doomed then ?f q else q) (t_posts db2)" by (simp add: 2(4) set_post_def)
    show ?thesis
    proof (cases "live p")
      case True
      have the: "filter (\<lambda>q. p_id q = doomed \<and> live q) (t_posts db2) = [p]"
        using ok2 p True by (intro filter_id_singleton [where h = p_id]) (auto simp: posts_ok_def posts_wf_def)
      have rows: "t_posts db' = map (recounted less_one p) (t_posts db3)" "t_actors db' = t_actors db3"
        using True by (simp_all add: db' 2(1) relation_counts_posts(3))
      have "posts_wf db'" by (rule posts_wf_map [OF wf3 rows]) (auto simp: references_known_def)
      moreover have "counts_exact db'" if refs
        by (rule counts_exact_delete [where db = db2 and Q = "\<lambda>q. p_id q = doomed \<and> live q"
              and g = "\<lambda>q. if p_id q = doomed then ?f q else q"])
          (use that ok2 in \<open>auto simp: posts_ok_def rows rows3 the\<close>)
      ultimately show ?thesis by (simp add: posts_ok_def)
    next
      case False
      have "counts_exact db3" if refs
        by (rule counts_exact_map [where db = db2 and g = "\<lambda>q. if p_id q = doomed then ?f q else q"])
          (use that ok2 rows3 False p in \<open>auto simp: posts_ok_def posts_wf_def distinct_map inj_on_def\<close>)
      then show ?thesis using wf3 False by (auto simp: db' 2(1) posts_ok_def)
    qed
  qed
qed

lemma posts_ok_delete_subject:
  assumes "posts_ok refs False db"
  shows "posts_ok refs False (snd (delete_subject_post subject now db))"
  using assms posts_wf_soft_delete [of db "\<lambda>p. subject = Some (p_id p)" now]
    counts_exact_soft_delete [of db "\<lambda>p. subject = Some (p_id p)" now]
  by (auto simp: posts_ok_def delete_subject_post_def split: prod.splits)

lemma soft_delete_by_at_uri_counted:
  "snd (soft_delete_by_at_uri at_uri now db) = snd (soft_delete_counted (\<lambda>p. p_at_uri p = Some at_uri) now db)"
  by (simp add: soft_delete_by_at_uri_def soft_delete_counted_def split: prod.splits list.splits)

lemma posts_ok_tables:
  "posts_ok refs notes db \<Longrightarrow> insert_recipients i as db = Inr db' \<Longrightarrow> posts_ok refs notes db'"
  "posts_ok refs notes db \<Longrightarrow> attach_media i m pos db = Inr db' \<Longrightarrow> posts_ok refs notes db'"
  "posts_ok refs notes db \<Longrightarrow> attach_remote_media_url i ra db = Inr db' \<Longrightarrow> posts_ok refs notes db'"
  by (erule posts_ok_same_rows; auto simp: attach_media_def attach_remote_media_url_def
      dest: insert_recipients_Inr split: if_splits)+

lemma posts_ok_reference:
  assumes ok: "posts_ok refs notes db" and run: "apply_reference_resolution i k resolved st db = Inr db'"
    and r: "refs \<Longrightarrow> resolved = None"
  shows "posts_ok refs notes db'"
proof (cases resolved)
  case (Some r)
  then have "change_post i (set_ref_id k (Some r)) db = Inr db'" using run by (simp add: apply_reference_resolution_def)
  then show ?thesis by (rule posts_ok_change [OF ok]) (use r Some in auto)
next
  case None
  then show ?thesis using run ok
    by (auto simp: apply_reference_resolution_def rbind_Inr_iff split: option.splits intro: posts_ok_change [OF ok])
qed

lemma posts_ok_media:
  assumes "posts_ok refs notes db"
  shows "posts_ok refs notes (soft_delete_by_id i now db)"
  unfolding soft_delete_by_id_def Let_def
  by (rule posts_ok_soft_delete_counted, rule posts_ok_same_rows [OF assms]) (simp_all add: unique_conflict_def)

lemma posts_ok_op:
  assumes ok: "posts_ok refs notes db" and run: "run_post_op op db = Inr db'"
    and c: "refs \<longrightarrow> counts_references op" "notes \<longrightarrow> counts_notes op"
  shows "posts_ok refs notes db'"
proof (cases op)
  case (Op_Insert i a body ap t)
  then show ?thesis using run posts_ok_counted_insert [OF ok] by (auto simp: post_insert_def)
next
  case (Op_Insert_Remote i a body ap t)
  then show ?thesis using run posts_ok_insert_remote [OF ok] by auto
next
  case (Op_Insert_Full q)
  then show ?thesis using run posts_ok_insert_full [OF ok] by auto
next
  case (Op_Insert_Repost q)
  then show ?thesis using run posts_ok_insert_repost [OF ok] by auto
next
  case (Op_Insert_Repost_Bsky i a at_uri orig t)
  then show ?thesis using run posts_ok_counted_insert [OF ok] by (auto simp: insert_repost_bsky_def)
next
  case (Op_Remote_With_Dedup q)
  then show ?thesis using run posts_ok_dedup_write [OF ok] by auto
next
  case (Op_Bsky_Post b)
  then have n: "notes = False" using c by auto
  show ?thesis using run Op_Bsky_Post posts_ok_bsky_write [OF ok [unfolded n]] by (auto simp: n rbind_Inr_iff)
next
  case (Op_Delete_By_Id i now)
  then show ?thesis using run posts_ok_media [OF ok] by auto
next
  case (Op_Delete_By_Ap_Object_Id ap now)
  then show ?thesis using run posts_ok_soft_delete_counted [OF ok, of "\<lambda>p. p_ap_object_id p = Some ap"]
    by (auto simp: soft_delete_by_ap_object_id_def unique_conflict_def same_key_def)
next
  case (Op_Delete_By_At_Uri at_uri now)
  then show ?thesis using run posts_ok_soft_delete_counted [OF ok, of "\<lambda>p. p_at_uri p = Some at_uri"]
    by (auto simp: soft_delete_by_at_uri_counted unique_conflict_def same_key_def)
next
  case (Op_Delete_Subject subject now)
  then have n: "notes = False" using c by auto
  show ?thesis using run Op_Delete_Subject posts_ok_delete_subject [OF ok [unfolded n]] by (auto simp: n)
next
  case (Op_Mention_Facets i facets)
  have "posts_ok refs notes (update_mention_facets i facets db)"
    unfolding update_mention_facets_def
    by (rule posts_ok_set [OF ok]) (simp_all add: foreign_posts_def unique_conflict_def same_claims_def)
  then show ?thesis using run Op_Mention_Facets by simp
next
  case (Op_Reference i k resolved st)
  then show ?thesis using run c posts_ok_reference [OF ok] by (cases resolved) auto
next
  case (Op_Ap_Object_Id i ap)
  then show ?thesis using run by (auto simp: update_ap_object_id_def intro: posts_ok_change [OF ok])
next
  case (Op_At_Uri_And_Cid i at_uri cid)
  then show ?thesis using run by (auto simp: set_at_uri_and_cid_def intro: posts_ok_change [OF ok])
next
  case (Op_Content_Metadata i cw poll)
  have "posts_ok refs notes (set_fedi_content_metadata i cw poll db)"
    unfolding set_fedi_content_metadata_def
    by (rule posts_ok_set [OF ok]) (simp_all add: foreign_posts_def unique_conflict_def same_claims_def)
  then show ?thesis using run Op_Content_Metadata by simp
next
  case (Op_Add_Recipient i a)
  then show ?thesis using run ok posts_ok_tables(1) [OF ok] by (auto simp: add_recipient_def split: if_splits)
next
  case (Op_Attach_Media i media pos)
  then show ?thesis using run posts_ok_tables(2) [OF ok] by auto
next
  case (Op_Attach_Remote i media)
  then show ?thesis using run posts_ok_tables(3) [OF ok] by auto
next
  case (Op_Claim i author ap at_uri)
  then show ?thesis using run ok
    by (auto simp: claim_or_find_seiranpost_merge_target_def rbind_Inr_iff split: option.splits intro: posts_ok_change [OF ok])
next
  case (Op_Finalize_Merge s d ap at_uri now)
  then have n: "notes = False" using c by auto
  show ?thesis using run Op_Finalize_Merge posts_ok_finalize [OF ok [unfolded n]] by (auto simp: n)
qed

section \<open>Histories\<close>

lemma find_postD: "find_post i db = Some p \<Longrightarrow> p \<in> set (t_posts db) \<and> p_id p = i"
  by (auto simp: find_post_def find_Some_iff)

text \<open>
  C13. Along every history of operations on the post tables (insertions of local and remote posts and reposts,
  the merge of copies, deletions, changes of columns, recipients and attachments, failed ones rolled back)
  the tables stay well formed: identifiers, ActivityPub ids, AT URIs and pairs of claimed names are unique,
  every reference names a stored post, every post has its author and is local when the author is. If the
  history never resolves a reference later, the reply, quote and repost counters of every post are the
  numbers of its live replies, quotes and reposts; if nothing is ingested from Bluesky, no bridged copies are
  merged and no moderator deletes a post, every actor's \<open>notes_count\<close> is the number of its live posts.
  Both conditions are needed: see \<open>resolved_reference_uncounted\<close> and \<open>bsky_post_uncounted\<close>.
\<close>

theorem post_tables_invariant:
  assumes "posts_ok refs notes db"
    and "refs \<longrightarrow> list_all counts_references ops" "notes \<longrightarrow> list_all counts_notes ops"
  shows "posts_ok refs notes (fold after_op ops db)"
  using assms
proof (induction ops arbitrary: db)
  case (Cons op ops)
  have "posts_ok refs notes (after_op op db)"
    using Cons.prems posts_ok_op [of refs "notes" db op] by (auto simp: after_op_def split: sum.splits)
  then show ?case using Cons by simp
qed simp

text \<open>
  A reference that is resolved after its post was stored is not counted: the counter of the post it
  names is one less than the number of its live replies, quotes or reposts.
\<close>

theorem resolved_reference_uncounted:
  assumes wf: "posts_wf db" and exact: "counts_exact db"
    and child: "find_post i db = Some c" "live c" "ref_of k c = None"
    and run: "apply_reference_resolution i k (Some parent) st db = Inr db'"
    and p: "find_post parent db' = Some p"
  shows "p_counts p k = int (children k parent (t_posts db')) - 1"
proof -
  let ?f = "\<lambda>q. if p_id q = i then set_ref_id k (Some parent) q else q"
  have "change_post i (set_ref_id k (Some parent)) db = Inr db'" using run by (simp add: apply_reference_resolution_def)
  then have rows: "t_posts db' = map ?f (t_posts db)"
    using child(1) by (cases rule: change_post_Inr_cases) (auto simp: set_post_def)
  have c: "c \<in> set (t_posts db)" "p_id c = i" using find_postD [OF child(1)] by auto
  then have one: "filter (\<lambda>q. p_id q = i) (t_posts db) = [c]"
    using wf by (intro filter_id_singleton [where h = p_id]) (auto simp: posts_wf_def)
  have kids: "length (filter (\<lambda>q. live q \<and> ref_of k q = Some parent) (map ?f rows))
      = length (filter (\<lambda>q. live q \<and> ref_of k q = Some parent) rows) + length (filter (\<lambda>q. p_id q = i) rows)"
    if "\<And>q. q \<in> set rows \<Longrightarrow> p_id q = i \<Longrightarrow> live q \<and> ref_of k q = None" for rows
    using that by (induction rows) (auto simp: set_ref_id_def)
  have "q = c" if "q \<in> set (t_posts db)" "p_id q = i" for q
    using that c wf by (auto simp: posts_wf_def distinct_map inj_on_def)
  then have "children k parent (t_posts db') = children k parent (t_posts db) + 1"
    unfolding rows children_def using child(2,3) by (subst kids) (auto simp: one)
  moreover obtain q where q: "q \<in> set (t_posts db)" "p = ?f q"
    using find_postD [OF p] rows by auto
  have "p_id (?f q) = p_id q" by simp
  then have "p_id q = parent" using find_postD [OF p] q(2) by simp
  have "p_counts p k = p_counts q k" by (simp add: q(2))
  moreover have "p_counts q k = int (children k parent (t_posts db))" using exact q(1) \<open>p_id q = parent\<close> by (auto simp: counts_exact_def)
  ultimately show ?thesis by simp
qed

text \<open>
  A post ingested from Bluesky is not counted: when the table of actors was exact before, the author's
  \<open>notes_count\<close> is one less than the number of live posts afterwards.
\<close>

theorem bsky_post_uncounted:
  assumes exact: "notes_exact db" and run: "bsky_write b existing db = Inr (Inserted_Row, db')"
    and a: "a \<in> set (t_actors db')" "a_id a = bp_actor_id b"
  shows "a_notes_count a = int (live_posts_of (a_id a) (t_posts db')) - 1"
proof -
  have "bsky_insert b db = Inr (Inserted_Row, db')"
    using run by (auto simp: bsky_write_def rbind_Inr_iff split: option.splits if_splits)
  then have ins: "insert_posts (bsky_row b) db = Inr db'"
    by (auto simp: bsky_insert_def insert_unless_def rbind_Inr_iff split: if_splits)
  have rows: "t_posts db' = map (recounted (\<lambda>n. n + 1) (bsky_row b)) (t_posts db @ [stored_row (bsky_row b) db])"
    "t_actors db' = t_actors db"
    using insert_posts_rows [OF ins] by simp_all
  have "live_posts_of (a_id a) (t_posts db') = live_posts_of (a_id a) (t_posts db) + 1"
    unfolding rows using a(2) by (subst live_posts_of_map) (auto simp: live_posts_of_def)
  then show ?thesis using exact a rows(2) by (simp add: notes_exact_def)
qed

section \<open>Examples\<close>

lemma counts_exact_code [code]:
  "counts_exact db = list_all (\<lambda>p. list_all (\<lambda>k. p_counts p k = int (children k (p_id p) (t_posts db)))
     [Reply_Ref, Quote_Ref, Repost_Ref]) (t_posts db)"
proof -
  have "(\<forall>k. P k) \<longleftrightarrow> P Reply_Ref \<and> P Quote_Ref \<and> P Repost_Ref" for P
    by (metis reference_kind.exhaust)
  then show ?thesis by (simp add: counts_exact_def list_all_iff)
qed

definition demo_actor :: "actor_id \<Rightarrow> string \<Rightarrow> string \<Rightarrow> actor_row" where
  "demo_actor i kind name = \<lparr>a_id = i, a_actor_type = kind, a_username = name, a_domain = ''here'', a_display_name = None,
     a_at_did = None, a_notes_count = 0, a_withdrawn_at = None, a_suspended_at = None\<rparr>"

text \<open>Alice and Bob are local, Carol is on another server.\<close>

definition demo_post_db :: post_db where
  "demo_post_db = \<lparr>t_posts = [], t_actors = [demo_actor 1 ''local'' ''alice'', demo_actor 2 ''local'' ''bob'', demo_actor 3 ''fedi'' ''carol''],
     t_post_recipients = [], t_post_attachments = [], t_media_files = [], t_follows = empty_follow_db, t_blocks = [], t_mutes = [],
     t_repost_mutes = [], t_list_members = [], t_notifications = []\<rparr>"

definition demo_dedup :: "post_id \<Rightarrow> actor_id \<Rightarrow> string \<Rightarrow> string option \<Rightarrow> insert_remote_with_dedup_params" where
  "demo_dedup i a ap claim = \<lparr>rd_id = i, rd_actor_id = a, rd_body = ''hi'', rd_content_html = None, rd_ap_object_id = ap,
     rd_seiran_uuid = None, rd_parent_original_post_id = None, rd_created_at = 0, rd_emoji_map = JObject [],
     rd_visibility = ''public'', rd_reply_to_post_id = None, rd_reply_to_ap_uri = Some ''ap:first'',
     rd_reply_to_ref_status = Some ''pending'', rd_quote_of_post_id = None, rd_quote_of_ap_uri = None,
     rd_quote_of_ref_status = None, rd_thread_root_post_id = None, rd_recipient_actor_ids = [], rd_claimed_at_uri = claim,
     rd_bridge_of_post_id = None, rd_bridged_original_uri = None\<rparr>"

definition demo_bsky :: "post_id \<Rightarrow> actor_id \<Rightarrow> string \<Rightarrow> string option \<Rightarrow> bsky_post_row" where
  "demo_bsky i a at_uri claim = \<lparr>bp_post_id = i, bp_actor_id = a, bp_text = ''hi'', bp_at_uri = at_uri, bp_at_cid = ''cid'',
     bp_created_at = 0, bp_reply_to_post_id = None, bp_mention_facets = JArray [], bp_emoji_map = JObject [],
     bp_quote_of_post_id = None, bp_claimed_ap_object_id = claim, bp_bridge_of_post_id = None, bp_bridged_original_uri = None\<rparr>"

definition demo_ops :: "post_op list" where
  "demo_ops = [Op_Insert 10 1 ''hello'' ''ap:first'' 0, Op_Remote_With_Dedup (demo_dedup 11 3 ''ap:second'' None),
     Op_Insert 10 2 ''taken id'' ''ap:third'' 0, Op_Insert_Repost_Bsky 12 2 ''at:r'' 10 0, Op_Delete_By_Id 11 5, Op_Delete_By_Id 11 6]"

lemma demo_post_db_ok: "posts_ok True True demo_post_db"
  by (simp add: posts_ok_def posts_wf_def counts_exact_def notes_exact_def live_posts_of_def demo_post_db_def demo_actor_def)

lemma post_tables_invariant_witness:
  "posts_ok True True (fold after_op demo_ops demo_post_db)
   \<and> map p_id (t_posts (fold after_op demo_ops demo_post_db)) = [10, 11, 12]"
proof
  show "posts_ok True True (fold after_op demo_ops demo_post_db)"
    by (rule post_tables_invariant [OF demo_post_db_ok]) (simp_all add: demo_ops_def)
  show "map p_id (t_posts (fold after_op demo_ops demo_post_db)) = [10, 11, 12]" by code_simp
qed

definition demo_pending_db :: post_db where
  "demo_pending_db = fold after_op (take 2 demo_ops) demo_post_db"

definition demo_resolved_db :: post_db where
  "demo_resolved_db = (case apply_reference_resolution 11 Reply_Ref (Some 10) None demo_pending_db of Inr db \<Rightarrow> db | Inl _ \<Rightarrow> demo_pending_db)"

lemma demo_pending_ok: "posts_ok True True demo_pending_db"
proof -
  have "posts_ok True True (after_op op db)" if "posts_ok True True db" "counts_references op" "counts_notes op" for op db
    using posts_ok_op [OF that(1), of op] that(2,3) that(1) by (auto simp: after_op_def split: sum.splits)
  then show ?thesis using demo_post_db_ok by (simp add: demo_pending_db_def demo_ops_def)
qed

lemma resolved_reference_uncounted_witness:
  "map_option (\<lambda>p. p_counts p Reply_Ref) (find_post 10 demo_resolved_db) = Some 0
   \<and> children Reply_Ref 10 (t_posts demo_resolved_db) = 1"
proof -
  obtain c where c: "find_post 11 demo_pending_db = Some c" "live c" "ref_of Reply_Ref c = None"
  proof -
    have "(case find_post 11 demo_pending_db of None \<Rightarrow> False | Some c \<Rightarrow> live c \<and> ref_of Reply_Ref c = None)" by code_simp
    then show ?thesis using that by (auto split: option.splits)
  qed
  have run: "apply_reference_resolution 11 Reply_Ref (Some 10) None demo_pending_db = Inr demo_resolved_db"
  proof -
    have "(case apply_reference_resolution 11 Reply_Ref (Some 10) None demo_pending_db of Inl _ \<Rightarrow> False | Inr _ \<Rightarrow> True)" by code_simp
    then show ?thesis by (auto simp: demo_resolved_db_def split: sum.splits)
  qed
  obtain p where p: "find_post 10 demo_resolved_db = Some p"
  proof -
    have "find_post 10 demo_resolved_db \<noteq> None" by code_simp
    then show ?thesis using that by auto
  qed
  have "children Reply_Ref 10 (t_posts demo_resolved_db) = 1" by code_simp
  moreover have "posts_wf demo_pending_db" "counts_exact demo_pending_db" using demo_pending_ok by (simp_all add: posts_ok_def)
  ultimately show ?thesis using resolved_reference_uncounted [OF _ _ c run p] p by simp
qed

lemma bsky_post_uncounted_witness:
  "(case bsky_write (demo_bsky 20 3 ''at:1'' None) None demo_post_db of
      Inr (Inserted_Row, db') \<Rightarrow> list_all (\<lambda>a. if a_id a = 3 then a_notes_count a = int (live_posts_of 3 (t_posts db')) - 1 else True) (t_actors db')
    | _ \<Rightarrow> False)"
proof -
  obtain db' where run: "bsky_write (demo_bsky 20 3 ''at:1'' None) None demo_post_db = Inr (Inserted_Row, db')"
  proof -
    have "(case bsky_write (demo_bsky 20 3 ''at:1'' None) None demo_post_db of Inr (Inserted_Row, _) \<Rightarrow> True | _ \<Rightarrow> False)" by code_simp
    then show ?thesis using that by (auto split: sum.splits insert_or_merge_outcome.splits)
  qed
  have exact: "notes_exact demo_post_db" using demo_post_db_ok by (simp add: posts_ok_def)
  have "bp_actor_id (demo_bsky 20 3 ''at:1'' None) = 3" by (simp add: demo_bsky_def)
  then show ?thesis using bsky_post_uncounted [OF exact run] by (simp add: run list_all_iff)
qed

end
