(* ===== verification/Post_Race.thy ===== *)
theory Post_Race
  imports Post_History
begin

text \<open>
  The two copies of a post of another seiran server arriving at the same time: \<open>insert_remote_with_dedup\<close>
  for the ActivityPub copy and \<open>insert_or_merge_bsky_post\<close> under its retry for the AT copy
  (\<open>crates/seiran-atp-repo/src/firehose.rs\<close>), each of them a \<open>SELECT\<close> and then its writes, interleaved with
  each other and with whatever else the server does to other posts.
\<close>

section \<open>The two transactions, step by step\<close>

datatype 'r copy_phase = Trying nat | Selected nat "posts_row option" | Finished "'r sql_result"

record copies =
  cp_db :: post_db
  cp_ap :: "unit copy_phase"
  cp_at :: "insert_or_merge_outcome copy_phase"

text \<open>What \<open>retry_on_unique_violation\<close> does with the error of an attempt.\<close>

definition retry_phase :: "nat \<Rightarrow> sql_error \<Rightarrow> 'r copy_phase" where
  "retry_phase attempt e =
     (if is_unique_violation e \<and> attempt < MAX_UNIQUE_VIOLATION_RETRIES then Trying (attempt + 1) else Finished (Inl e))"

definition ap_copy_step :: "insert_remote_with_dedup_params \<Rightarrow> copies \<Rightarrow> copies" where
  "ap_copy_step q s = (case cp_ap s of
       Trying k \<Rightarrow> s\<lparr>cp_ap := Selected k (dedup_existing q (cp_db s))\<rparr>
     | Selected k existing \<Rightarrow> (case dedup_write q existing (cp_db s) of
           Inr db' \<Rightarrow> s\<lparr>cp_db := db', cp_ap := Finished (Inr ())\<rparr>
         | Inl e \<Rightarrow> s\<lparr>cp_ap := retry_phase k e\<rparr>)
     | Finished r \<Rightarrow> s)"

definition at_copy_step :: "bsky_post_row \<Rightarrow> copies \<Rightarrow> copies" where
  "at_copy_step b s = (case cp_at s of
       Trying k \<Rightarrow> s\<lparr>cp_at := Selected k (bsky_existing b (cp_db s))\<rparr>
     | Selected k existing \<Rightarrow> (case bsky_write b existing (cp_db s) of
           Inr (r, db') \<Rightarrow> s\<lparr>cp_db := db', cp_at := Finished (Inr r)\<rparr>
         | Inl e \<Rightarrow> s\<lparr>cp_at := retry_phase k e\<rparr>)
     | Finished r \<Rightarrow> s)"

text \<open>
  The rest of the server: it leaves the names and references of the two copies alone (their counters may
  change), keeps the actors and posts the copies refer to, and no other post has a name of theirs.
\<close>

type_synonym key_view =
  "(post_id \<times> actor_id \<times> string option \<times> bool) \<times> (string option \<times> string option \<times> string option \<times> string option) \<times> post_id list"

definition key_view :: "posts_row \<Rightarrow> key_view" where
  "key_view p = ((p_id p, p_actor_id p, p_seiran_post_uuid p, live p),
     (p_ap_object_id p, p_claimed_ap_object_id p, p_at_uri p, p_claimed_at_uri p), foreign_posts p)"

definition our_ids :: "insert_remote_with_dedup_params \<Rightarrow> bsky_post_row \<Rightarrow> post_id set" where
  "our_ids q b = {rd_id q, bp_post_id b}"

definition our_views :: "insert_remote_with_dedup_params \<Rightarrow> bsky_post_row \<Rightarrow> post_db \<Rightarrow> key_view list" where
  "our_views q b db = map key_view (filter (\<lambda>p. p_id p \<in> our_ids q b) (t_posts db))"

definition other_post :: "insert_remote_with_dedup_params \<Rightarrow> bsky_post_row \<Rightarrow> posts_row \<Rightarrow> bool" where
  "other_post q b p \<longleftrightarrow>
     p_ap_object_id p \<noteq> Some (rd_ap_object_id q) \<and> p_claimed_ap_object_id p \<noteq> Some (rd_ap_object_id q)
     \<and> p_at_uri p \<noteq> Some (bp_at_uri b) \<and> p_claimed_at_uri p \<noteq> Some (bp_at_uri b)
     \<and> \<not> same_key (rd_seiran_uuid q) (p_seiran_post_uuid p)"

definition references_of :: "insert_remote_with_dedup_params \<Rightarrow> bsky_post_row \<Rightarrow> post_id list" where
  "references_of q b = foreign_posts (dedup_row q Public None None) @ foreign_posts (bsky_row b)"

definition surroundings :: "insert_remote_with_dedup_params \<Rightarrow> bsky_post_row \<Rightarrow> post_db \<Rightarrow> bool" where
  "surroundings q b db \<longleftrightarrow>
     (\<forall>p \<in> set (t_posts db). p_id p \<notin> our_ids q b \<longrightarrow> other_post q b p)
     \<and> list_all (actor_known db) (rd_actor_id q # bp_actor_id b # rd_recipient_actor_ids q)
     \<and> list_all (post_known db) (references_of q b)"

inductive copies_reachable :: "insert_remote_with_dedup_params \<Rightarrow> bsky_post_row \<Rightarrow> post_db \<Rightarrow> copies \<Rightarrow> bool"
  for q b db0 where
  copies_start: "copies_reachable q b db0 \<lparr>cp_db = db0, cp_ap = Trying 1, cp_at = Trying 1\<rparr>"
| copies_ap: "copies_reachable q b db0 s \<Longrightarrow> copies_reachable q b db0 (ap_copy_step q s)"
| copies_at: "copies_reachable q b db0 s \<Longrightarrow> copies_reachable q b db0 (at_copy_step b s)"
| copies_others: "copies_reachable q b db0 s \<Longrightarrow> surroundings q b db' \<Longrightarrow> our_views q b db' = our_views q b (cp_db s)
    \<Longrightarrow> (\<forall>a. (rd_id q, a) \<in> set (t_post_recipients db') \<longleftrightarrow> (rd_id q, a) \<in> set (t_post_recipients (cp_db s)))
    \<Longrightarrow> copies_reachable q b db0 (s\<lparr>cp_db := db'\<rparr>)"

text \<open>The copies name each other, and both authors are the same known actor.\<close>

definition mutual_copies :: "insert_remote_with_dedup_params \<Rightarrow> bsky_post_row \<Rightarrow> bool" where
  "mutual_copies q b \<longleftrightarrow>
     rd_claimed_at_uri q = Some (bp_at_uri b) \<and> bp_claimed_ap_object_id b = Some (rd_ap_object_id q)
     \<and> rd_actor_id q = bp_actor_id b \<and> rd_id q \<noteq> bp_post_id b
     \<and> list_all (\<lambda>i. i \<notin> our_ids q b) (references_of q b)
     \<and> cast_visibility (rd_visibility q) \<noteq> Inl Sql_Error
     \<and> cast_ref_status (rd_reply_to_ref_status q) \<noteq> Inl Sql_Error
     \<and> cast_ref_status (rd_quote_of_ref_status q) \<noteq> Inl Sql_Error
     \<and> distinct (rd_recipient_actor_ids q)"

definition neither_stored :: "insert_remote_with_dedup_params \<Rightarrow> bsky_post_row \<Rightarrow> post_db \<Rightarrow> bool" where
  "neither_stored q b db \<longleftrightarrow> our_views q b db = [] \<and> (\<forall>a. (rd_id q, a) \<notin> set (t_post_recipients db))"

section \<open>The statements seen through the keys\<close>

lemma key_view_recounted [simp]: "key_view (recounted f c p) = key_view p"
  by (simp add: key_view_def)

lemma key_view_stored_row [simp]: "key_view (stored_row p db) = key_view p"
  by (simp add: key_view_def)

lemma key_viewD:
  assumes "key_view p = key_view p'"
  shows "p_id p = p_id p'" "p_actor_id p = p_actor_id p'" "p_ap_object_id p = p_ap_object_id p'"
    "p_claimed_ap_object_id p = p_claimed_ap_object_id p'" "p_at_uri p = p_at_uri p'"
    "p_claimed_at_uri p = p_claimed_at_uri p'" "foreign_posts p = foreign_posts p'"
    "unique_conflict p r = unique_conflict p' r" "live p = live p'"
  using assms by (auto simp: key_view_def unique_conflict_def same_claims_def)

text \<open>The rows of the two copies: as first stored, and with both names.\<close>

definition ap_view :: "insert_remote_with_dedup_params \<Rightarrow> bsky_post_row \<Rightarrow> key_view" where
  "ap_view q b = ((rd_id q, rd_actor_id q, rd_seiran_uuid q, True),
     (Some (rd_ap_object_id q), None, None, Some (bp_at_uri b)), foreign_posts (dedup_row q Public None None))"

definition at_view :: "insert_remote_with_dedup_params \<Rightarrow> bsky_post_row \<Rightarrow> key_view" where
  "at_view q b = ((bp_post_id b, bp_actor_id b, None, True),
     (None, Some (rd_ap_object_id q), Some (bp_at_uri b), None), foreign_posts (bsky_row b))"

fun married :: "insert_remote_with_dedup_params \<Rightarrow> bsky_post_row \<Rightarrow> key_view \<Rightarrow> key_view" where
  "married q b (ident, _, refs) = (ident, (Some (rd_ap_object_id q), None, Some (bp_at_uri b), None), refs)"

lemma foreign_posts_dedup_row: "foreign_posts (dedup_row q v x y) = foreign_posts (dedup_row q Public None None)"
  by (simp add: foreign_posts_def dedup_row_def set_ref_def del: map_filter_simps)

lemma key_view_rows:
  assumes "mutual_copies q b"
  shows "key_view (dedup_row q v x y) = ap_view q b" "key_view (bsky_row b) = at_view q b"
proof -
  have "foreign_posts (dedup_row q v x y) = foreign_posts (dedup_row q Public None None)" by (rule foreign_posts_dedup_row)
  then show "key_view (dedup_row q v x y) = ap_view q b"
    using assms by (auto simp: key_view_def ap_view_def mutual_copies_def) (simp_all add: dedup_row_def set_ref_def new_post_def)
  show "key_view (bsky_row b) = at_view q b"
    using assms by (auto simp: key_view_def at_view_def mutual_copies_def) (simp_all add: bsky_row_def set_ref_id_def new_post_def)
qed

text \<open>A row of the copies is in no conflict with the other posts.\<close>

definition copy_row :: "insert_remote_with_dedup_params \<Rightarrow> bsky_post_row \<Rightarrow> posts_row \<Rightarrow> bool" where
  "copy_row q b p \<longleftrightarrow> p_id p \<in> our_ids q b \<and> (p_seiran_post_uuid p = None \<or> p_seiran_post_uuid p = rd_seiran_uuid q)
     \<and> (p_ap_object_id p = None \<or> p_ap_object_id p = Some (rd_ap_object_id q))
     \<and> (p_at_uri p = None \<or> p_at_uri p = Some (bp_at_uri b))
     \<and> coalesce (p_ap_object_id p) (p_claimed_ap_object_id p) = Some (rd_ap_object_id q)"

lemma copy_row_no_conflict:
  assumes "surroundings q b db" "copy_row q b p" "r \<in> set (t_posts db)" "p_id r \<notin> our_ids q b"
  shows "\<not> unique_conflict p r"
proof -
  have r: "other_post q b r" using assms by (simp add: surroundings_def)
  then have "coalesce (p_ap_object_id r) (p_claimed_ap_object_id r) \<noteq> Some (rd_ap_object_id q)"
    by (auto simp: other_post_def coalesce_def split: option.splits)
  then show ?thesis using assms(2,4) r
    by (auto simp: unique_conflict_def same_claims_def copy_row_def other_post_def same_key_def)
qed

lemma our_views_memD: "p \<in> set (t_posts db) \<Longrightarrow> p_id p \<in> our_ids q b \<Longrightarrow> key_view p \<in> set (our_views q b db)"
  by (auto simp: our_views_def)

lemma our_views_map:
  assumes "t_posts db' = map g (t_posts db)" "\<And>p. p_id (g p) = p_id p"
  shows "our_views q b db' = map (\<lambda>p. key_view (g p)) (filter (\<lambda>p. p_id p \<in> our_ids q b) (t_posts db))"
  using assms by (simp add: our_views_def filter_map comp_def)

lemma surroundings_map:
  assumes "surroundings q b db" "t_posts db' = map g (t_posts db)" "\<And>p. p_id (g p) = p_id p"
    and "map a_id (t_actors db') = map a_id (t_actors db)"
    and "\<And>p. p_id p \<notin> our_ids q b \<Longrightarrow> key_view (g p) = key_view p"
  shows "surroundings q b db'"
proof -
  have "post_known db' i = post_known db i" for i using assms(2,3) by (simp add: post_known_iff image_image)
  moreover have "actor_known db' a = actor_known db a" for a
    using assms(4) by (simp add: actor_known_iff flip: set_map)
  moreover have "other_post q b (g p)" if "p \<in> set (t_posts db)" "p_id p \<notin> our_ids q b" for p
    using that assms(1) key_viewD [OF assms(5) [OF that(2)]] assms(5) [OF that(2)]
    by (auto simp: surroundings_def other_post_def key_view_def)
  ultimately show ?thesis using assms(1,2,3) by (auto simp: surroundings_def list_all_iff)
qed

lemma surroundings_add:
  assumes "surroundings q b db" "p_id p \<in> our_ids q b" "t_posts db' = t_posts db @ [p]" "t_actors db' = t_actors db"
  shows "surroundings q b db'"
  using assms by (auto simp: surroundings_def list_all_iff post_known_iff actor_known_iff)

text \<open>Storing a copy when there is none.\<close>

lemma insert_copy:
  assumes sur: "surroundings q b db" and none: "our_views q b db = []" and p: "copy_row q b p" "live p"
    and known: "actor_known db (p_actor_id p)" "list_all (post_known db) (foreign_posts p)"
  obtains db' where "insert_posts p db = Inr db'" "surroundings q b db'" "our_views q b db' = [key_view p]"
    "t_post_recipients db' = t_post_recipients db" "t_actors db' = t_actors db" "post_known db' (p_id p)"
proof -
  let ?row = "stored_row p db"
  define db1 where "db1 = db\<lparr>t_posts := t_posts db @ [?row]\<rparr>"
  define db' where "db' = relation_counts_inserted ?row db1"
  have "p_id r \<notin> our_ids q b" if "r \<in> set (t_posts db)" for r
    using none that by (auto simp: our_views_def filter_empty_conv)
  then have "list_all (\<lambda>r. \<not> unique_conflict p r) (t_posts db)"
    using copy_row_no_conflict [OF sur p(1)] by (simp add: list_all_iff)
  moreover have "references_known db ?row" using known(2) by (auto simp: references_known_def list_all_iff)
  ultimately have ins: "insert_posts p db = Inr db'"
    using known(1) by (simp add: insert_posts_Inr_iff db'_def db1_def)
  have rows: "t_posts db' = map (recounted (\<lambda>n. n + 1) p) (t_posts db1)" "t_actors db' = t_actors db1"
    using insert_posts_rows [OF ins p(2)] by (simp_all add: db1_def)
  have id: "p_id ?row \<in> our_ids q b" using p(1) by (simp add: copy_row_def)
  have "surroundings q b db1" by (rule surroundings_add [OF sur id]) (simp_all add: db1_def)
  then have "surroundings q b db'" by (rule surroundings_map [OF _ rows(1)]) (simp_all add: rows(2))
  moreover have "our_views q b db' = [key_view p]"
    unfolding our_views_map [OF rows(1), simplified] using none id
    by (simp add: db1_def our_views_def copy_row_def)
  moreover have "t_post_recipients db' = t_post_recipients db"
    by (simp add: db'_def db1_def relation_counts_inserted_def)
  moreover have "post_known db' (p_id p)" by (simp add: post_known_iff rows(1) db1_def image_image)
  ultimately show ?thesis using that ins rows(2) by (simp add: db1_def)
qed

text \<open>A second copy is refused by the index on the pair of names.\<close>

lemma insert_second_copy:
  assumes "r \<in> set (t_posts db)" "unique_conflict p r" "actor_known db (p_actor_id p)"
  shows "insert_posts p db = Inl Unique_Error"
proof -
  obtain a where a: "find_actor (p_actor_id p) db = Some a" using assms(3) by (auto simp: actor_known_def)
  have "p\<lparr>p_is_local := a_actor_type a = ''local''\<rparr> = stored_row p db" using a by (simp add: stored_row_def)
  then show ?thesis using assms(1,2) a by (auto simp: insert_posts_def Let_def list_ex_iff)
qed

text \<open>The names are completed in the row that is there.\<close>

lemma merge_copy:
  assumes sur: "surroundings q b db" and wf: "our_views q b db = [key_view e]"
    and e: "p_id e \<in> our_ids q b" "list_all (post_known db) (foreign_posts e)"
    and f: "\<And>p. key_view p = key_view e \<Longrightarrow> key_view (f p) = married q b (key_view e)" "\<And>p. p_id (f p) = p_id p"
    and copy: "copy_row q b (f e)"
  obtains db' where "change_post (p_id e) f db = Inr db'" "surroundings q b db'"
    "our_views q b db' = [married q b (key_view e)]"
proof -
  obtain r where r: "filter (\<lambda>p. p_id p \<in> our_ids q b) (t_posts db) = [r]" "key_view r = key_view e"
    using wf by (auto simp: our_views_def)
  have rid: "p_id r = p_id e" using r(2) by (rule key_viewD)
  have "r \<in> set (filter (\<lambda>p. p_id p \<in> our_ids q b) (t_posts db))" by (simp only: r(1)) simp
  then have rmem: "r \<in> set (t_posts db)" by simp
  have only: "p = r" if "p \<in> set (t_posts db)" "p_id p \<in> our_ids q b" for p
  proof -
    have "p \<in> set (filter (\<lambda>p. p_id p \<in> our_ids q b) (t_posts db))" using that by simp
    then show ?thesis by (simp only: r(1)) simp
  qed
  obtain r' where r': "find_post (p_id e) db = Some r'"
    using rmem rid by (cases "find_post (p_id e) db") (auto simp: find_post_def find_None_iff)
  then have "r' = r" using find_postD [OF r'] only e(1) by auto
  have view: "key_view (f r) = married q b (key_view e)" using f(1) [OF r(2)] .
  have "key_view (f r) = key_view (f e)" using f(1) [of e] view by simp
  then have "copy_row q b (f r)" using copy by (auto simp: copy_row_def key_view_def)
  then have "\<not> unique_conflict (f r) p" if "p \<in> set (t_posts db)" "p_id p \<noteq> p_id e" for p
    using copy_row_no_conflict [OF sur _ that(1)] only [OF that(1)] that(2) rid by auto
  moreover have "foreign_posts (f r) = foreign_posts e"
    using view by (cases "key_view e") (auto simp: key_view_def)
  then have "references_known db (f r)" using e(2) by (auto simp: references_known_def list_all_iff)
  ultimately have run: "change_post (p_id e) f db = Inr (set_post (p_id e) f db)"
    using r' \<open>r' = r\<close> by (auto simp: change_post_def list_ex_iff)
  let ?g = "\<lambda>p. if p_id p = p_id e then f p else p"
  have rows: "t_posts (set_post (p_id e) f db) = map ?g (t_posts db)" "t_actors (set_post (p_id e) f db) = t_actors db"
    by (simp_all add: set_post_def)
  have gid: "p_id (?g p) = p_id p" for p using f(2) by simp
  have "surroundings q b (set_post (p_id e) f db)"
    by (rule surroundings_map [OF sur rows(1) gid]) (use rows(2) e(1) in auto)
  moreover have "our_views q b (set_post (p_id e) f db) = [married q b (key_view e)]"
    unfolding our_views_map [OF rows(1) gid] r(1) using rid view by simp
  ultimately show ?thesis using that run by blast
qed

text \<open>What a \<open>SELECT\<close> by one of the names finds.\<close>

lemma find_copy_None:
  assumes "\<And>p. p \<in> set (t_posts db) \<Longrightarrow> P p \<Longrightarrow> p_id p \<in> our_ids q b"
    and "\<And>p. key_view p \<in> set (our_views q b db) \<Longrightarrow> \<not> P p"
  shows "find P (t_posts db) = None"
  using assms our_views_memD unfolding find_None_iff by blast

lemma find_copy_Some:
  assumes "\<And>p. p \<in> set (t_posts db) \<Longrightarrow> P p \<Longrightarrow> p_id p \<in> our_ids q b"
    and "our_views q b db = [v]" "\<And>p. key_view p = v \<Longrightarrow> P p"
  obtains e where "find P (t_posts db) = Some e" "key_view e = v" "p_id e \<in> our_ids q b"
proof -
  obtain r where r: "filter (\<lambda>p. p_id p \<in> our_ids q b) (t_posts db) = [r]" "key_view r = v"
    using assms(2) by (auto simp: our_views_def)
  have "r \<in> set (filter (\<lambda>p. p_id p \<in> our_ids q b) (t_posts db))" by (simp only: r(1)) simp
  then have "r \<in> set (t_posts db)" "P r" using assms(3) r(2) by auto
  then obtain e where e: "find P (t_posts db) = Some e" by (cases "find P (t_posts db)") (auto simp: find_None_iff)
  then have "e \<in> set (t_posts db)" "P e" by (auto simp: find_Some_iff)
  then have "p_id e \<in> our_ids q b" "e \<in> set (t_posts db)" using assms(1) by auto
  then have "key_view e = v" using our_views_memD [of e db q b] assms(2) by simp
  then show ?thesis using that e \<open>p_id e \<in> our_ids q b\<close> by blast
qed

section \<open>The statements of the two sides\<close>

lemma surroundings_same:
  assumes "surroundings q b db" "t_posts db' = t_posts db" "map a_id (t_actors db') = map a_id (t_actors db)"
  shows "surroundings q b db'"
  by (rule surroundings_map [OF assms(1), where g = id]) (simp_all add: assms)

lemma our_views_same: "t_posts db' = t_posts db \<Longrightarrow> our_views q b db' = our_views q b db"
  by (simp add: our_views_def)

lemma count_note_ids [simp]: "map a_id (t_actors (count_note a db)) = map a_id (t_actors db)"
  by (auto simp: count_note_def update_actor_def)

lemma copy_rows:
  assumes m: "mutual_copies q b"
  shows "copy_row q b (dedup_row q v x y)" "copy_row q b (bsky_row b)"
    "key_view e = at_view q b \<Longrightarrow> copy_row q b (e\<lparr>p_ap_object_id := Some (rd_ap_object_id q), p_claimed_ap_object_id := None\<rparr>)"
    "key_view e = ap_view q b \<Longrightarrow> copy_row q b (e\<lparr>p_at_uri := Some (bp_at_uri b), p_at_cid := cid, p_claimed_at_uri := None\<rparr>)"
proof -
  have "key_view (dedup_row q v x y) = ap_view q b" "key_view (bsky_row b) = at_view q b" using key_view_rows [OF m] by auto
  then show "copy_row q b (dedup_row q v x y)" "copy_row q b (bsky_row b)"
    by (auto simp: copy_row_def key_view_def ap_view_def at_view_def our_ids_def coalesce_def)
  show "copy_row q b (e\<lparr>p_ap_object_id := Some (rd_ap_object_id q), p_claimed_ap_object_id := None\<rparr>)"
    if "key_view e = at_view q b"
    using that by (auto simp: copy_row_def key_view_def at_view_def our_ids_def coalesce_def)
  show "copy_row q b (e\<lparr>p_at_uri := Some (bp_at_uri b), p_at_cid := cid, p_claimed_at_uri := None\<rparr>)"
    if "key_view e = ap_view q b"
    using that by (auto simp: copy_row_def key_view_def ap_view_def our_ids_def coalesce_def)
qed

lemma copies_conflict:
  assumes m: "mutual_copies q b"
  shows "key_view r = at_view q b \<Longrightarrow> unique_conflict (dedup_row q v x y) r"
    and "key_view r = ap_view q b \<Longrightarrow> unique_conflict (bsky_row b) r"
proof -
  have views: "key_view (dedup_row q v x y) = ap_view q b" "key_view (bsky_row b) = at_view q b" using key_view_rows [OF m] by auto
  show "unique_conflict (dedup_row q v x y) r" if "key_view r = at_view q b"
    using views(1) that
    by (auto simp: unique_conflict_def same_claims_def same_key_def coalesce_def key_view_def ap_view_def at_view_def)
  show "unique_conflict (bsky_row b) r" if "key_view r = ap_view q b"
    using views(2) that
    by (auto simp: unique_conflict_def same_claims_def same_key_def coalesce_def key_view_def ap_view_def at_view_def)
qed

lemma copies_known:
  assumes "mutual_copies q b" "surroundings q b db"
  shows "actor_known db (rd_actor_id q)" "actor_known db (bp_actor_id b)"
    "list_all (post_known db) (foreign_posts (dedup_row q v x y))" "list_all (post_known db) (foreign_posts (bsky_row b))"
  using assms foreign_posts_dedup_row [of q v x y] by (auto simp: surroundings_def references_of_def)

lemma other_names:
  assumes "surroundings q b db" "p \<in> set (t_posts db)"
  shows "p_at_uri p = Some (bp_at_uri b) \<Longrightarrow> p_id p \<in> our_ids q b"
    and "p_ap_object_id p = Some (rd_ap_object_id q) \<Longrightarrow> p_id p \<in> our_ids q b"
  using assms by (auto simp: surroundings_def other_post_def)

lemma dedup_existing_cases:
  assumes m: "mutual_copies q b" and sur: "surroundings q b db"
  shows "our_views q b db = [] \<Longrightarrow> dedup_existing q db = None"
    and "our_views q b db = [ap_view q b] \<Longrightarrow> dedup_existing q db = None"
    and "our_views q b db = [at_view q b] \<Longrightarrow> \<exists>e. dedup_existing q db = Some e \<and> key_view e = at_view q b"
proof -
  have ex: "dedup_existing q db = find (\<lambda>p. p_at_uri p = Some (bp_at_uri b)) (t_posts db)"
    using m by (simp add: dedup_existing_def mutual_copies_def)
  show "dedup_existing q db = None" if "our_views q b db = []"
    unfolding ex by (rule find_copy_None [of db _ q b]) (use other_names(1) [OF sur] that in auto)
  show "dedup_existing q db = None" if "our_views q b db = [ap_view q b]"
    unfolding ex by (rule find_copy_None [of db _ q b]) (use other_names(1) [OF sur] that in \<open>auto simp: key_view_def ap_view_def\<close>)
  show "\<exists>e. dedup_existing q db = Some e \<and> key_view e = at_view q b" if "our_views q b db = [at_view q b]"
  proof (rule find_copy_Some [of db "\<lambda>p. p_at_uri p = Some (bp_at_uri b)" q b "at_view q b"])
    show "p_id p \<in> our_ids q b" if "p \<in> set (t_posts db)" "p_at_uri p = Some (bp_at_uri b)" for p
      using other_names(1) [OF sur that] .
    show "p_at_uri p = Some (bp_at_uri b)" if "key_view p = at_view q b" for p using that by (simp add: key_view_def at_view_def)
    show "our_views q b db = [at_view q b]" by (rule that)
  qed (auto simp: ex)
qed

lemma bsky_existing_cases:
  assumes m: "mutual_copies q b" and sur: "surroundings q b db"
  shows "our_views q b db = [] \<Longrightarrow> bsky_existing b db = None"
    and "our_views q b db = [at_view q b] \<Longrightarrow> bsky_existing b db = None"
    and "our_views q b db = [ap_view q b] \<Longrightarrow> \<exists>e. bsky_existing b db = Some e \<and> key_view e = ap_view q b"
proof -
  have ex: "bsky_existing b db = find (\<lambda>p. p_ap_object_id p = Some (rd_ap_object_id q)) (t_posts db)"
    using m by (simp add: bsky_existing_def mutual_copies_def)
  show "bsky_existing b db = None" if "our_views q b db = []"
    unfolding ex by (rule find_copy_None [of db _ q b]) (use other_names(2) [OF sur] that in auto)
  show "bsky_existing b db = None" if "our_views q b db = [at_view q b]"
    unfolding ex by (rule find_copy_None [of db _ q b]) (use other_names(2) [OF sur] that in \<open>auto simp: key_view_def at_view_def\<close>)
  show "\<exists>e. bsky_existing b db = Some e \<and> key_view e = ap_view q b" if "our_views q b db = [ap_view q b]"
  proof (rule find_copy_Some [of db "\<lambda>p. p_ap_object_id p = Some (rd_ap_object_id q)" q b "ap_view q b"])
    show "p_id p \<in> our_ids q b" if "p \<in> set (t_posts db)" "p_ap_object_id p = Some (rd_ap_object_id q)" for p
      using other_names(2) [OF sur that] .
    show "p_ap_object_id p = Some (rd_ap_object_id q)" if "key_view p = ap_view q b" for p
      using that by (simp add: key_view_def ap_view_def)
    show "our_views q b db = [ap_view q b]" by (rule that)
  qed (auto simp: ex)
qed

lemma not_same_key:
  assumes "mutual_copies q b" "surroundings q b db" "\<And>p. key_view p \<in> set (our_views q b db) \<Longrightarrow> \<not> P p"
    and "\<And>p. p \<in> set (t_posts db) \<Longrightarrow> P p \<Longrightarrow> p_id p \<in> our_ids q b"
  shows "\<not> list_ex P (t_posts db)"
  using assms(3,4) our_views_memD unfolding list_ex_iff by blast

lemma sql_ok:
  assumes "r \<noteq> Inl Sql_Error" "r \<noteq> Inl Unique_Error"
  shows "\<exists>x. r = Inr x"
proof (cases r)
  case (Inl e)
  then show ?thesis using assms by (cases e) auto
qed auto

lemma cast_visibility_not_unique: "cast_visibility t \<noteq> Inl Unique_Error"
  by (simp add: cast_visibility_def)

lemma cast_ref_status_not_unique: "cast_ref_status t \<noteq> Inl Unique_Error"
  by (simp add: cast_ref_status_def split: option.splits)

lemma dedup_write_stores:
  assumes m: "mutual_copies q b" and sur: "surroundings q b db" and none: "neither_stored q b db"
  obtains db' where "dedup_write q None db = Inr db'" "surroundings q b db'" "our_views q b db' = [ap_view q b]"
proof -
  obtain v x y where casts: "cast_visibility (rd_visibility q) = Inr v" "cast_ref_status (rd_reply_to_ref_status q) = Inr x"
    "cast_ref_status (rd_quote_of_ref_status q) = Inr y"
    using m sql_ok [of "cast_visibility (rd_visibility q)"] sql_ok [of "cast_ref_status (rd_reply_to_ref_status q)"]
      sql_ok [of "cast_ref_status (rd_quote_of_ref_status q)"] cast_visibility_not_unique cast_ref_status_not_unique
    unfolding mutual_copies_def by blast
  let ?p = "dedup_row q v x y"
  have views: "our_views q b db = []" using none by (simp add: neither_stored_def)
  obtain db1 where db1: "insert_posts ?p db = Inr db1" "surroundings q b db1" "our_views q b db1 = [key_view ?p]"
    "t_post_recipients db1 = t_post_recipients db" "t_actors db1 = t_actors db" "post_known db1 (p_id ?p)"
    using insert_copy [OF sur views copy_rows(1) [OF m, of v x y]] copies_known(1) [OF m sur] copies_known(3) [OF m sur, of v x y] by auto
  have "\<not> list_ex (\<lambda>r. same_key (p_ap_object_id ?p) (p_ap_object_id r)) (t_posts db)"
    by (rule not_same_key [OF m sur]) (use views other_names(2) [OF sur] in \<open>auto simp: same_key_def dedup_row_def set_ref_def\<close>)
  then have unless: "insert_unless p_ap_object_id ?p db = Inr (True, db1)" using db1(1) by (simp add: insert_unless_def)
  obtain db2 where db2: "(if rd_recipient_actor_ids q \<noteq> [] then insert_recipients (rd_id q) (rd_recipient_actor_ids q) db1
      else Inr db1) = Inr db2"
  proof -
    have "distinct (rd_recipient_actor_ids q)" using m by (simp add: mutual_copies_def)
    moreover have "list_all (actor_known db1) (rd_recipient_actor_ids q)"
      using db1(2) by (simp add: surroundings_def)
    moreover have "\<not> list_ex (\<lambda>r. r \<in> set (t_post_recipients db1)) (map (Pair (rd_id q)) (rd_recipient_actor_ids q))"
      using none by (auto simp: list_ex_iff neither_stored_def db1(4))
    ultimately have "\<exists>db2. insert_recipients (rd_id q) (rd_recipient_actor_ids q) db1 = Inr db2"
      using db1(6) by (auto simp: insert_recipients_def)
    then show ?thesis using that by (cases "rd_recipient_actor_ids q = []") auto
  qed
  have same: "t_posts db2 = t_posts db1" "t_actors db2 = t_actors db1"
    using db2 insert_recipients_Inr [of "rd_id q" "rd_recipient_actor_ids q" db1 db2] by (auto split: if_splits)
  have "dedup_write q None db = Inr (count_note (rd_actor_id q) db2)"
    using db2 by (simp add: dedup_write_def dedup_insert_def casts unless)
  moreover have "surroundings q b (count_note (rd_actor_id q) db2)"
    by (rule surroundings_same [OF db1(2)]) (simp_all add: same)
  moreover have "our_views q b (count_note (rd_actor_id q) db2) = [ap_view q b]"
    using db1(3) key_view_rows(1) [OF m, of v x y] by (simp add: our_views_def same)
  ultimately show ?thesis using that by blast
qed

lemma dedup_write_refused:
  assumes m: "mutual_copies q b" and sur: "surroundings q b db" and at: "our_views q b db = [at_view q b]"
  shows "dedup_write q None db = Inl Unique_Error"
proof -
  obtain v x y where casts: "cast_visibility (rd_visibility q) = Inr v" "cast_ref_status (rd_reply_to_ref_status q) = Inr x"
    "cast_ref_status (rd_quote_of_ref_status q) = Inr y"
    using m sql_ok [of "cast_visibility (rd_visibility q)"] sql_ok [of "cast_ref_status (rd_reply_to_ref_status q)"]
      sql_ok [of "cast_ref_status (rd_quote_of_ref_status q)"] cast_visibility_not_unique cast_ref_status_not_unique
    unfolding mutual_copies_def by blast
  let ?p = "dedup_row q v x y"
  obtain r where r: "filter (\<lambda>p. p_id p \<in> our_ids q b) (t_posts db) = [r]" "key_view r = at_view q b"
    using at by (auto simp: our_views_def)
  have "r \<in> set (filter (\<lambda>p. p_id p \<in> our_ids q b) (t_posts db))" by (simp only: r(1)) simp
  then have mem: "r \<in> set (t_posts db)" by simp
  have "\<not> list_ex (\<lambda>r. same_key (p_ap_object_id ?p) (p_ap_object_id r)) (t_posts db)"
    by (rule not_same_key [OF m sur])
      (use at other_names(2) [OF sur] in \<open>auto simp: same_key_def dedup_row_def set_ref_def key_view_def at_view_def\<close>)
  moreover have "insert_posts ?p db = Inl Unique_Error"
    by (rule insert_second_copy [OF mem copies_conflict(1) [OF m r(2)]]) (simp add: copies_known(1) [OF m sur])
  ultimately have "insert_unless p_ap_object_id ?p db = Inl Unique_Error" by (simp add: insert_unless_def)
  then show ?thesis by (simp add: dedup_write_def dedup_insert_def casts)
qed

lemma dedup_write_marries:
  assumes m: "mutual_copies q b" and sur: "surroundings q b db" and at: "our_views q b db = [at_view q b]"
    and e: "key_view e = at_view q b"
  obtains db' where "dedup_write q (Some e) db = Inr db'" "surroundings q b db'" "our_views q b db' = [married q b (at_view q b)]"
proof -
  have claims: "p_claimed_ap_object_id e = Some (rd_ap_object_id q)" "p_actor_id e = rd_actor_id q" "p_id e \<in> our_ids q b"
    "foreign_posts e = foreign_posts (bsky_row b)"
    using e m by (auto simp: key_view_def at_view_def mutual_copies_def our_ids_def)
  have known: "list_all (post_known db) (foreign_posts e)" using copies_known(4) [OF m sur] claims(4) by simp
  have views: "our_views q b db = [key_view e]" using at e by simp
  show ?thesis
  proof (rule merge_copy [OF sur views claims(3) known])
    show "copy_row q b (e\<lparr>p_ap_object_id := Some (rd_ap_object_id q), p_claimed_ap_object_id := None\<rparr>)"
      by (rule copy_rows(3) [OF m e])
    show "key_view (p\<lparr>p_ap_object_id := Some (rd_ap_object_id q), p_claimed_ap_object_id := None\<rparr>) = married q b (key_view e)"
      if "key_view p = key_view e" for p
      using that e by (auto simp: key_view_def at_view_def foreign_posts_def simp del: map_filter_simps)
  next
    fix db' assume "change_post (p_id e) (\<lambda>p. p\<lparr>p_ap_object_id := Some (rd_ap_object_id q), p_claimed_ap_object_id := None\<rparr>) db = Inr db'"
      "surroundings q b db'" "our_views q b db' = [married q b (key_view e)]"
    then show ?thesis by (intro that [of db']) (use claims e in \<open>simp_all add: dedup_write_def\<close>)
  qed simp
qed

lemma bsky_write_stores:
  assumes m: "mutual_copies q b" and sur: "surroundings q b db" and none: "our_views q b db = []"
  obtains db' where "bsky_write b None db = Inr (Inserted_Row, db')" "surroundings q b db'" "our_views q b db' = [at_view q b]"
proof -
  obtain db' where db': "insert_posts (bsky_row b) db = Inr db'" "surroundings q b db'" "our_views q b db' = [key_view (bsky_row b)]"
    using insert_copy [OF sur none copy_rows(2) [OF m]] copies_known(2,4) [OF m sur] by auto
  have "\<not> list_ex (\<lambda>r. same_key (p_at_uri (bsky_row b)) (p_at_uri r)) (t_posts db)"
    by (rule not_same_key [OF m sur])
      (use none other_names(1) [OF sur] in \<open>auto simp: same_key_def bsky_row_def set_ref_id_def\<close>)
  then have "bsky_write b None db = Inr (Inserted_Row, db')"
    using db'(1) by (simp add: bsky_write_def bsky_insert_def insert_unless_def)
  then show ?thesis using that db' key_view_rows(2) [OF m] by simp
qed

lemma bsky_write_refused:
  assumes m: "mutual_copies q b" and sur: "surroundings q b db" and ap: "our_views q b db = [ap_view q b]"
  shows "bsky_write b None db = Inl Unique_Error"
proof -
  obtain r where r: "filter (\<lambda>p. p_id p \<in> our_ids q b) (t_posts db) = [r]" "key_view r = ap_view q b"
    using ap by (auto simp: our_views_def)
  have "r \<in> set (filter (\<lambda>p. p_id p \<in> our_ids q b) (t_posts db))" by (simp only: r(1)) simp
  then have mem: "r \<in> set (t_posts db)" by simp
  have "\<not> list_ex (\<lambda>r. same_key (p_at_uri (bsky_row b)) (p_at_uri r)) (t_posts db)"
    by (rule not_same_key [OF m sur])
      (use ap other_names(1) [OF sur] in \<open>auto simp: same_key_def bsky_row_def set_ref_id_def key_view_def ap_view_def\<close>)
  moreover have "insert_posts (bsky_row b) db = Inl Unique_Error"
    by (rule insert_second_copy [OF mem copies_conflict(2) [OF m r(2)]]) (simp add: copies_known(2) [OF m sur])
  ultimately show ?thesis by (simp add: bsky_write_def bsky_insert_def insert_unless_def)
qed

lemma bsky_write_marries:
  assumes m: "mutual_copies q b" and sur: "surroundings q b db" and ap: "our_views q b db = [ap_view q b]"
    and e: "key_view e = ap_view q b"
  obtains db' where "bsky_write b (Some e) db = Inr (Merged_Row (rd_id q), db')" "surroundings q b db'"
    "our_views q b db' = [married q b (ap_view q b)]"
proof -
  have claims: "p_claimed_at_uri e = Some (bp_at_uri b)" "p_actor_id e = bp_actor_id b" "p_id e = rd_id q"
    "foreign_posts e = foreign_posts (dedup_row q Public None None)"
    using e m by (auto simp: key_view_def ap_view_def mutual_copies_def)
  have id: "p_id e \<in> our_ids q b" using claims(3) by (simp add: our_ids_def)
  have known: "list_all (post_known db) (foreign_posts e)"
    using copies_known(3) [OF m sur, of Public None None] claims(4) by simp
  have views: "our_views q b db = [key_view e]" using ap e by simp
  show ?thesis
  proof (rule merge_copy [OF sur views id known])
    show "copy_row q b (e\<lparr>p_at_uri := Some (bp_at_uri b), p_at_cid := Some (bp_at_cid b), p_claimed_at_uri := None\<rparr>)"
      by (rule copy_rows(4) [OF m e])
    show "key_view (p\<lparr>p_at_uri := Some (bp_at_uri b), p_at_cid := Some (bp_at_cid b), p_claimed_at_uri := None\<rparr>) = married q b (key_view e)"
      if "key_view p = key_view e" for p
      using that e by (auto simp: key_view_def ap_view_def foreign_posts_def simp del: map_filter_simps)
  next
    fix db' assume "change_post (p_id e) (\<lambda>p. p\<lparr>p_at_uri := Some (bp_at_uri b), p_at_cid := Some (bp_at_cid b), p_claimed_at_uri := None\<rparr>) db = Inr db'"
      "surroundings q b db'" "our_views q b db' = [married q b (key_view e)]"
    then show ?thesis by (intro that [of db']) (use claims e in \<open>simp_all add: bsky_write_def\<close>)
  qed simp
qed

section \<open>Every interleaving\<close>

text \<open>
  No copy is stored; one of them is, and the other one has yet to look, has looked too early, or has seen it;
  or one row has both names.
\<close>

definition waits_for :: "key_view \<Rightarrow> 'r copy_phase \<Rightarrow> bool" where
  "waits_for v ph \<longleftrightarrow> (case ph of
       Trying k \<Rightarrow> k = 1 \<or> k = 2
     | Selected k existing \<Rightarrow> (case existing of None \<Rightarrow> k = 1 | Some e \<Rightarrow> k \<le> 2 \<and> key_view e = v)
     | Finished _ \<Rightarrow> False)"

definition untouched :: "'r copy_phase \<Rightarrow> bool" where
  "untouched ph \<longleftrightarrow> ph = Trying 1 \<or> ph = Selected 1 None"

definition copies_inv :: "insert_remote_with_dedup_params \<Rightarrow> bsky_post_row \<Rightarrow> copies \<Rightarrow> bool" where
  "copies_inv q b s \<longleftrightarrow> surroundings q b (cp_db s) \<and>
     (neither_stored q b (cp_db s) \<and> untouched (cp_ap s) \<and> untouched (cp_at s)
    \<or> our_views q b (cp_db s) = [ap_view q b] \<and> cp_ap s = Finished (Inr ()) \<and> waits_for (ap_view q b) (cp_at s)
    \<or> our_views q b (cp_db s) = [at_view q b] \<and> cp_at s = Finished (Inr Inserted_Row) \<and> waits_for (at_view q b) (cp_ap s)
    \<or> our_views q b (cp_db s) = [married q b (ap_view q b)] \<and> cp_ap s = Finished (Inr ())
       \<and> cp_at s = Finished (Inr (Merged_Row (rd_id q)))
    \<or> our_views q b (cp_db s) = [married q b (at_view q b)] \<and> cp_ap s = Finished (Inr ())
       \<and> cp_at s = Finished (Inr Inserted_Row))"

lemma waits_cases:
  assumes "waits_for v ph"
  obtains "ph = Trying 1" | "ph = Trying 2" | "ph = Selected 1 None" | k e where "ph = Selected k (Some e)" "k \<le> 2" "key_view e = v"
  using assms by (auto simp: waits_for_def split: copy_phase.splits option.splits)

lemma retry_first: "retry_phase (Suc 0) Unique_Error = Trying 2"
  by (simp add: retry_phase_def is_unique_violation_def MAX_UNIQUE_VIOLATION_RETRIES_def)

lemma ap_step_inv:
  assumes m: "mutual_copies q b" and inv: "copies_inv q b s"
  shows "copies_inv q b (ap_copy_step q s)"
proof -
  have sur: "surroundings q b (cp_db s)" using inv by (simp add: copies_inv_def)
  consider (none) "neither_stored q b (cp_db s)" "untouched (cp_ap s)" "untouched (cp_at s)"
    | (at) "our_views q b (cp_db s) = [at_view q b]" "cp_at s = Finished (Inr Inserted_Row)" "waits_for (at_view q b) (cp_ap s)"
    | (over) "cp_ap s = Finished (Inr ())"
    using inv by (auto simp: copies_inv_def)
  then show ?thesis
  proof cases
    case none
    then have views: "our_views q b (cp_db s) = []" by (simp add: neither_stored_def)
    show ?thesis
    proof (cases "cp_ap s = Trying 1")
      case True
      then show ?thesis using none sur dedup_existing_cases(1) [OF m sur views]
        by (simp add: ap_copy_step_def copies_inv_def untouched_def)
    next
      case False
      then have ph: "cp_ap s = Selected 1 None" using none by (simp add: untouched_def)
      obtain db' where "dedup_write q None (cp_db s) = Inr db'" "surroundings q b db'" "our_views q b db' = [ap_view q b]"
        using dedup_write_stores [OF m sur none(1)] by blast
      moreover have "waits_for (ap_view q b) (cp_at s)" using none(3) by (auto simp: untouched_def waits_for_def)
      ultimately show ?thesis by (simp add: ap_copy_step_def ph copies_inv_def)
    qed
  next
    case at
    from at(3) show ?thesis
    proof (cases rule: waits_cases)
      case (4 k e)
      obtain db' where "dedup_write q (Some e) (cp_db s) = Inr db'" "surroundings q b db'"
        "our_views q b db' = [married q b (at_view q b)]"
        using dedup_write_marries [OF m sur at(1) 4(3)] by blast
      then show ?thesis using at by (simp add: ap_copy_step_def 4(1) copies_inv_def)
    next
      case 3
      then show ?thesis using at sur dedup_write_refused [OF m sur at(1)]
        by (simp add: ap_copy_step_def copies_inv_def retry_first waits_for_def)
    qed (use at sur dedup_existing_cases(3) [OF m sur at(1)] in \<open>auto simp: ap_copy_step_def copies_inv_def waits_for_def\<close>)
  next
    case over
    then show ?thesis using inv by (simp add: ap_copy_step_def)
  qed
qed

lemma at_step_inv:
  assumes m: "mutual_copies q b" and inv: "copies_inv q b s"
  shows "copies_inv q b (at_copy_step b s)"
proof -
  have sur: "surroundings q b (cp_db s)" using inv by (simp add: copies_inv_def)
  consider (none) "neither_stored q b (cp_db s)" "untouched (cp_ap s)" "untouched (cp_at s)"
    | (ap) "our_views q b (cp_db s) = [ap_view q b]" "cp_ap s = Finished (Inr ())" "waits_for (ap_view q b) (cp_at s)"
    | (over) r where "cp_at s = Finished r"
    using inv by (auto simp: copies_inv_def)
  then show ?thesis
  proof cases
    case none
    then have views: "our_views q b (cp_db s) = []" by (simp add: neither_stored_def)
    show ?thesis
    proof (cases "cp_at s = Trying 1")
      case True
      then show ?thesis using none sur bsky_existing_cases(1) [OF m sur views]
        by (simp add: at_copy_step_def copies_inv_def untouched_def)
    next
      case False
      then have ph: "cp_at s = Selected 1 None" using none by (simp add: untouched_def)
      obtain db' where "bsky_write b None (cp_db s) = Inr (Inserted_Row, db')" "surroundings q b db'" "our_views q b db' = [at_view q b]"
        using bsky_write_stores [OF m sur views] by blast
      moreover have "waits_for (at_view q b) (cp_ap s)" using none(2) by (auto simp: untouched_def waits_for_def)
      ultimately show ?thesis by (simp add: at_copy_step_def ph copies_inv_def)
    qed
  next
    case ap
    from ap(3) show ?thesis
    proof (cases rule: waits_cases)
      case (4 k e)
      obtain db' where "bsky_write b (Some e) (cp_db s) = Inr (Merged_Row (rd_id q), db')" "surroundings q b db'"
        "our_views q b db' = [married q b (ap_view q b)]"
        using bsky_write_marries [OF m sur ap(1) 4(3)] by blast
      then show ?thesis using ap by (simp add: at_copy_step_def 4(1) copies_inv_def)
    next
      case 3
      then show ?thesis using ap sur bsky_write_refused [OF m sur ap(1)]
        by (simp add: at_copy_step_def copies_inv_def retry_first waits_for_def)
    qed (use ap sur bsky_existing_cases(3) [OF m sur ap(1)] in \<open>auto simp: at_copy_step_def copies_inv_def waits_for_def\<close>)
  next
    case over
    then show ?thesis using inv by (simp add: at_copy_step_def)
  qed
qed

lemma copies_inv_reachable:
  assumes m: "mutual_copies q b" and start: "surroundings q b db0" "neither_stored q b db0"
  shows "copies_reachable q b db0 s \<Longrightarrow> copies_inv q b s"
proof (induction rule: copies_reachable.induct)
  case copies_start
  then show ?case using start by (simp add: copies_inv_def untouched_def)
next
  case (copies_others s db')
  then show ?case by (auto simp: copies_inv_def neither_stored_def)
qed (use ap_step_inv at_step_inv m in blast)+

text \<open>Rounds left to a side; each of its steps takes one.\<close>

fun steps_left :: "'r copy_phase \<Rightarrow> nat" where
  "steps_left (Trying k) = 2 * (3 - k)"
| "steps_left (Selected k _) = 2 * (3 - k) - 1"
| "steps_left (Finished _) = 0"

lemma steps_left_retry: "steps_left (retry_phase k e) \<le> 2 * (3 - k) - 1 - 1"
  by (auto simp: retry_phase_def)

lemma steps_left_less:
  "steps_left (cp_ap (ap_copy_step q s)) \<le> steps_left (cp_ap s) - 1"
  "steps_left (cp_at (at_copy_step b s)) \<le> steps_left (cp_at s) - 1"
  using steps_left_retry by (auto simp: ap_copy_step_def at_copy_step_def split: copy_phase.splits sum.splits)

lemma copies_finished:
  assumes inv: "copies_inv q b s" and over: "steps_left (cp_ap s) = 0" "steps_left (cp_at s) = 0"
  shows "cp_ap s = Finished (Inr ()) \<and> (\<exists>r. cp_at s = Finished (Inr r))
    \<and> (\<exists>v \<in> {ap_view q b, at_view q b}. our_views q b (cp_db s) = [married q b v])"
proof -
  have no: "\<not> untouched (cp_ap s)" "\<not> untouched (cp_at s)" "\<not> waits_for (at_view q b) (cp_ap s)" "\<not> waits_for (ap_view q b) (cp_at s)"
    using over by (auto simp: untouched_def waits_for_def split: copy_phase.splits option.splits)
  show ?thesis using inv unfolding copies_inv_def by (simp add: no) blast
qed

definition names_of_pair :: "insert_remote_with_dedup_params \<Rightarrow> bsky_post_row \<Rightarrow> posts_row \<Rightarrow> bool" where
  "names_of_pair q b p \<longleftrightarrow>
     p_ap_object_id p = Some (rd_ap_object_id q) \<or> p_claimed_ap_object_id p = Some (rd_ap_object_id q)
     \<or> p_at_uri p = Some (bp_at_uri b) \<or> p_claimed_at_uri p = Some (bp_at_uri b)"


text \<open>
  When the authors of the two copies are not yet known to be the same actor, the copy that arrives second
  is refused: the index on the pair of names does not look at the author, so each of the five attempts of
  the retry fails, the error is returned and nothing is stored.
\<close>

theorem unlike_authors_refused:
  assumes r: "find (\<lambda>p. p_at_uri p = Some (bp_at_uri b)) (t_posts db) = Some r"
    and stored: "live r" "p_ap_object_id r = None" "p_claimed_ap_object_id r = Some (rd_ap_object_id q)" "p_actor_id r \<noteq> rd_actor_id q"
    and copy: "rd_claimed_at_uri q = Some (bp_at_uri b)" "actor_known db (rd_actor_id q)"
      "cast_visibility (rd_visibility q) = Inr v" "cast_ref_status (rd_reply_to_ref_status q) = Inr x"
      "cast_ref_status (rd_quote_of_ref_status q) = Inr y"
    and fresh: "\<not> list_ex (\<lambda>p. p_ap_object_id p = Some (rd_ap_object_id q)) (t_posts db)"
  shows "insert_remote_with_dedup (\<lambda>_ db. db) q db = (Inl Unique_Error, db)"
proof -
  let ?p = "dedup_row q v x y"
  have mem: "r \<in> set (t_posts db)" "p_at_uri r = Some (bp_at_uri b)" using r by (auto simp: find_Some_iff)
  have p: "p_ap_object_id ?p = Some (rd_ap_object_id q)" "p_claimed_at_uri ?p = Some (bp_at_uri b)" "p_at_uri ?p = None"
    using copy(1) by (simp_all add: dedup_row_def set_ref_def new_post_def)
  then have "unique_conflict ?p r"
    using stored mem(2) by (auto simp: unique_conflict_def same_claims_def same_key_def coalesce_def)
  then have "insert_posts ?p db = Inl Unique_Error" using insert_second_copy [OF mem(1), of ?p] copy(2) by simp
  moreover have "\<not> list_ex (\<lambda>r. same_key (p_ap_object_id ?p) (p_ap_object_id r)) (t_posts db)"
    using fresh p(1) by (auto simp: list_ex_iff same_key_def)
  ultimately have "insert_unless p_ap_object_id ?p db = Inl Unique_Error" by (simp add: insert_unless_def)
  then have "dedup_write q (dedup_existing q db) db = Inl Unique_Error"
    using r stored copy by (simp add: dedup_existing_def dedup_write_def dedup_insert_def)
  then have once: "insert_remote_with_dedup_once (\<lambda>db. db) q db = (Inl Unique_Error, db)"
    by (simp add: insert_remote_with_dedup_once_def transact_def)
  have "retry_from k (\<lambda>_. insert_remote_with_dedup_once (\<lambda>db. db) q) db = (Inl Unique_Error, db)" for k
  proof (induction "MAX_UNIQUE_VIOLATION_RETRIES - k" arbitrary: k)
    case (Suc n)
    have "retry_from (k + 1) (\<lambda>_. insert_remote_with_dedup_once (\<lambda>db. db) q) db = (Inl Unique_Error, db)"
      by (rule Suc.hyps(1)) (use Suc.hyps(2) in simp)
    then show ?case by (subst retry_from.simps) (simp add: once)
  qed (subst retry_from.simps, simp add: once)
  then show ?thesis by (simp add: insert_remote_with_dedup_def retry_on_unique_violation_def)
qed

section \<open>Examples\<close>

abbreviation race_ap :: insert_remote_with_dedup_params where
  "race_ap \<equiv> demo_dedup 30 3 ''ap:x'' (Some ''at:x'')"

abbreviation race_at :: bsky_post_row where
  "race_at \<equiv> demo_bsky 31 3 ''at:x'' (Some ''ap:x'')"

text \<open>Both look before either has written; the AT copy is stored, the other one is refused and looks again.\<close>

definition demo_copies :: copies where
  "demo_copies = (ap_copy_step race_ap (ap_copy_step race_ap (ap_copy_step race_ap (at_copy_step race_at
     (at_copy_step race_at (ap_copy_step race_ap \<lparr>cp_db = demo_post_db, cp_ap = Trying 1, cp_at = Trying 1\<rparr>))))))"

lemma race_mutual: "mutual_copies race_ap race_at"
  by (simp add: mutual_copies_def demo_dedup_def demo_bsky_def references_of_def foreign_posts_def map_filter_def
      dedup_row_def bsky_row_def set_ref_def set_ref_id_def new_post_def no_reference_def cast_visibility_def cast_ref_status_def)

lemma race_start: "surroundings race_ap race_at demo_post_db" "neither_stored race_ap race_at demo_post_db"
  by (simp_all add: surroundings_def neither_stored_def our_views_def demo_post_db_def demo_actor_def demo_dedup_def
      demo_bsky_def references_of_def foreign_posts_def map_filter_def dedup_row_def bsky_row_def set_ref_def set_ref_id_def
      new_post_def no_reference_def actor_known_def find_actor_def)

lemma demo_copies_reachable: "copies_reachable race_ap race_at demo_post_db demo_copies"
  unfolding demo_copies_def by (intro copies_ap copies_at copies_start)


definition unlike_db :: post_db where
  "unlike_db = (case bsky_write race_at None demo_post_db of Inr (_, db) \<Rightarrow> db | Inl _ \<Rightarrow> demo_post_db)"

abbreviation unlike_ap :: insert_remote_with_dedup_params where
  "unlike_ap \<equiv> demo_dedup 30 2 ''ap:x'' (Some ''at:x'')"

lemma unlike_authors_refused_witness:
  "insert_remote_with_dedup (\<lambda>_ db. db) unlike_ap unlike_db = (Inl Unique_Error, unlike_db)"
proof -
  obtain r where r: "find (\<lambda>p. p_at_uri p = Some (bp_at_uri race_at)) (t_posts unlike_db) = Some r"
    "live r" "p_ap_object_id r = None" "p_claimed_ap_object_id r = Some (rd_ap_object_id unlike_ap)" "p_actor_id r \<noteq> rd_actor_id unlike_ap"
  proof -
    have "(case find (\<lambda>p. p_at_uri p = Some (bp_at_uri race_at)) (t_posts unlike_db) of None \<Rightarrow> False
      | Some r \<Rightarrow> live r \<and> p_ap_object_id r = None \<and> p_claimed_ap_object_id r = Some (rd_ap_object_id unlike_ap)
         \<and> p_actor_id r \<noteq> rd_actor_id unlike_ap)" by code_simp
    then show ?thesis using that by (auto split: option.splits)
  qed
  have db: "actor_known unlike_db (rd_actor_id unlike_ap)"
    "\<not> list_ex (\<lambda>p. p_ap_object_id p = Some (rd_ap_object_id unlike_ap)) (t_posts unlike_db)" by code_simp+
  show ?thesis
    by (rule unlike_authors_refused [OF r _ db(1) _ _ _ db(2)])
      (simp_all add: demo_dedup_def demo_bsky_def cast_visibility_def cast_ref_status_def)
qed

end
