(* ===== verification/Post_Visibility.thy ===== *)
theory Post_Visibility
  imports Post_Tables
begin

text \<open>
  Who sees a post: the SQL functions \<open>post_is_visible_to\<close>, \<open>actor_is_hidden_for_viewer\<close>,
  \<open>post_reply_target_followed\<close> and \<open>repost_is_muted_for_viewer\<close> of \<open>crates/seiran-common/migrations\<close>, and the
  macros of \<open>crates/seiran-common/src/repository/feed.rs\<close> that write the same conditions out for a viewer
  that is there. A comparison with a viewer that is NULL is never true.
\<close>

section \<open>The SQL functions\<close>

definition is_viewer :: "actor_id option \<Rightarrow> actor_id \<Rightarrow> bool" where
  "is_viewer viewer a \<longleftrightarrow> viewer = Some a"

definition follows_accepted :: "post_db \<Rightarrow> actor_id option \<Rightarrow> actor_id \<Rightarrow> bool" where
  "follows_accepted db viewer a \<longleftrightarrow>
     list_ex (\<lambda>f. is_viewer viewer (follower_actor_id f) \<and> target_actor_id f = a \<and> status f = Accepted) (follows (t_follows db))"

definition is_recipient :: "post_db \<Rightarrow> actor_id option \<Rightarrow> post_id \<Rightarrow> bool" where
  "is_recipient db viewer i \<longleftrightarrow> list_ex (\<lambda>(p, a). p = i \<and> is_viewer viewer a) (t_post_recipients db)"

definition post_is_visible_to :: "post_db \<Rightarrow> actor_id option \<Rightarrow> actor_id \<Rightarrow> visibility \<Rightarrow> post_id \<Rightarrow> bool \<Rightarrow> bool" where
  "post_is_visible_to db viewer author v i exclude_direct \<longleftrightarrow>
     (viewer \<noteq> None \<or> list_ex (\<lambda>a. a_id a = author \<and> a_actor_type a = ''local'') (t_actors db))
     \<and> (v \<noteq> Followers_Only \<and> v \<noteq> Direct
        \<or> v = Followers_Only \<and> (is_viewer viewer author \<or> follows_accepted db viewer author)
        \<or> v = Direct \<and> \<not> exclude_direct \<and> (is_viewer viewer author \<or> is_recipient db viewer i))"

definition actor_is_hidden_for_viewer :: "post_db \<Rightarrow> actor_id option \<Rightarrow> actor_id \<Rightarrow> bool" where
  "actor_is_hidden_for_viewer db viewer other \<longleftrightarrow>
     list_ex (\<lambda>(a, b). is_viewer viewer a \<and> b = other \<or> a = other \<and> is_viewer viewer b) (t_blocks db)
     \<or> list_ex (\<lambda>(a, b). is_viewer viewer a \<and> b = other) (t_mutes db)
     \<or> list_ex (\<lambda>a. a_id a = other \<and> (a_withdrawn_at a \<noteq> None \<or> a_suspended_at a \<noteq> None)) (t_actors db)"

definition post_reply_target_followed :: "post_db \<Rightarrow> actor_id option \<Rightarrow> post_id option \<Rightarrow> bool" where
  "post_reply_target_followed db viewer reply_to = (case reply_to of None \<Rightarrow> True
     | Some i \<Rightarrow> list_ex (\<lambda>parent. p_id parent = i
         \<and> (is_viewer viewer (p_actor_id parent) \<or> follows_accepted db viewer (p_actor_id parent))) (t_posts db))"

definition repost_is_muted_for_viewer :: "post_db \<Rightarrow> actor_id option \<Rightarrow> actor_id \<Rightarrow> bool" where
  "repost_is_muted_for_viewer db viewer reposter \<longleftrightarrow>
     viewer \<noteq> None \<and> list_ex (\<lambda>(a, b). is_viewer viewer a \<and> b = reposter) (t_repost_mutes db)"

definition is_repost :: "posts_row \<Rightarrow> bool" where
  "is_repost p \<longleftrightarrow> ref_of Repost_Ref p \<noteq> None \<or> ref_ap_uri (p_refs p Repost_Ref) \<noteq> None"

section \<open>The macros\<close>

definition post_visible_to_viewer_sql :: "post_db \<Rightarrow> actor_id \<Rightarrow> bool \<Rightarrow> posts_row \<Rightarrow> bool" where
  "post_visible_to_viewer_sql db viewer exclude_direct p \<longleftrightarrow>
     p_visibility p \<noteq> Followers_Only \<and> p_visibility p \<noteq> Direct
     \<or> p_visibility p = Followers_Only \<and> (p_actor_id p = viewer
         \<or> list_ex (\<lambda>vf. follower_actor_id vf = viewer \<and> target_actor_id vf = p_actor_id p \<and> status vf = Accepted) (follows (t_follows db)))
     \<or> p_visibility p = Direct \<and> \<not> exclude_direct \<and> (p_actor_id p = viewer
         \<or> list_ex (\<lambda>vpr. vpr = (p_id p, viewer)) (t_post_recipients db))"

definition reply_target_followed_sql :: "post_db \<Rightarrow> actor_id \<Rightarrow> posts_row \<Rightarrow> bool" where
  "reply_target_followed_sql db viewer p \<longleftrightarrow>
     ref_of Reply_Ref p = None \<or> list_ex (\<lambda>rp. ref_of Reply_Ref p = Some (p_id rp) \<and> (p_actor_id rp = viewer
       \<or> list_ex (\<lambda>rf. follower_actor_id rf = viewer \<and> target_actor_id rf = p_actor_id rp \<and> status rf = Accepted) (follows (t_follows db))))
       (t_posts db)"

definition repost_not_muted_sql :: "post_db \<Rightarrow> actor_id \<Rightarrow> posts_row \<Rightarrow> bool" where
  "repost_not_muted_sql db viewer p \<longleftrightarrow>
     \<not> (is_repost p \<and> list_ex (\<lambda>rm. rm = (viewer, p_actor_id p)) (t_repost_mutes db))"

definition actor_not_hidden_sql :: "post_db \<Rightarrow> actor_id \<Rightarrow> actor_id \<Rightarrow> bool" where
  "actor_not_hidden_sql db viewer other \<longleftrightarrow>
     \<not> list_ex (\<lambda>hb. hb = (viewer, other) \<or> hb = (other, viewer)) (t_blocks db)
     \<and> \<not> list_ex (\<lambda>hm. hm = (viewer, other)) (t_mutes db)
     \<and> \<not> list_ex (\<lambda>ha. a_id ha = other \<and> (a_withdrawn_at ha \<noteq> None \<or> a_suspended_at ha \<noteq> None)) (t_actors db)"

text \<open>\<open>following_post_filter_sql\<close>, for the viewer and the flag of the query.\<close>

definition following_post_filter_sql :: "post_db \<Rightarrow> actor_id \<Rightarrow> bool \<Rightarrow> posts_row \<Rightarrow> bool" where
  "following_post_filter_sql db viewer exclude_direct p \<longleftrightarrow>
     post_visible_to_viewer_sql db viewer exclude_direct p \<and> reply_target_followed_sql db viewer p \<and> repost_not_muted_sql db viewer p"

section \<open>The macros are the functions\<close>

lemma macros_match_sql_functions:
  "post_visible_to_viewer_sql db viewer ex p = post_is_visible_to db (Some viewer) (p_actor_id p) (p_visibility p) (p_id p) ex"
  "reply_target_followed_sql db viewer p = post_reply_target_followed db (Some viewer) (ref_of Reply_Ref p)"
  "repost_not_muted_sql db viewer p = (\<not> (is_repost p \<and> repost_is_muted_for_viewer db (Some viewer) (p_actor_id p)))"
  "actor_not_hidden_sql db viewer other = (\<not> actor_is_hidden_for_viewer db (Some viewer) other)"
  by (auto simp: post_visible_to_viewer_sql_def post_is_visible_to_def reply_target_followed_sql_def post_reply_target_followed_def
      repost_not_muted_sql_def repost_is_muted_for_viewer_def actor_not_hidden_sql_def actor_is_hidden_for_viewer_def
      is_viewer_def follows_accepted_def is_recipient_def list_ex_iff split: option.splits)

end
