(* ===== verification/Newest_First.thy ===== *)
theory Newest_First
  imports Post_Tables
begin

text \<open>
  \<open>ORDER BY id DESC LIMIT n\<close> as a function of the rows found: it depends on their multiset, and the newest of a
  union are found among the newest of its parts.
\<close>

definition newest_between :: "int \<Rightarrow> post_id \<Rightarrow> post_id \<Rightarrow> post_id list \<Rightarrow> post_id list" where
  "newest_between limit since until ids = take (nat limit) (newest_first (filter (\<lambda>i. since < i \<and> i < until) ids))"

lemma newest_first_mset: "mset xs = mset ys \<Longrightarrow> newest_first xs = newest_first ys"
  unfolding newest_first_def by (metis properties_for_sort mset_sort sorted_sort)

lemma set_newest_first [simp]: "set (newest_first xs) = set xs"
  by (simp add: newest_first_def)

lemma length_newest_first [simp]: "length (newest_first xs) = length xs"
  by (simp add: newest_first_def)

lemma mset_newest_first [simp]: "mset (newest_first xs) = mset xs"
  by (simp add: newest_first_def)

lemma sorted_newest_first: "sorted_wrt (\<ge>) (newest_first xs)"
  unfolding newest_first_def by (subst sorted_wrt_rev) simp

lemma newest_first_unique: "sorted_wrt (\<ge>) xs \<Longrightarrow> newest_first xs = xs"
  using properties_for_sort [of "rev xs" xs] sorted_wrt_rev [of "(\<le>)" xs]
  by (metis mset_rev newest_first_def rev_rev_ident)

text \<open>One list above another.\<close>

lemma newest_first_append:
  assumes "\<forall>x \<in> set xs. \<forall>y \<in> set ys. x \<ge> y"
  shows "newest_first (xs @ ys) = newest_first xs @ newest_first ys"
proof -
  have "sorted_wrt (\<ge>) (newest_first xs @ newest_first ys)"
    using assms sorted_newest_first by (auto simp: sorted_wrt_append)
  then have "newest_first (newest_first xs @ newest_first ys) = newest_first xs @ newest_first ys"
    by (rule newest_first_unique)
  moreover have "newest_first (newest_first xs @ newest_first ys) = newest_first (xs @ ys)"
    by (rule newest_first_mset) simp
  ultimately show ?thesis by simp
qed

text \<open>An element with \<open>n\<close> others above it is not among the newest \<open>n\<close>.\<close>

fun insert_desc :: "int \<Rightarrow> int list \<Rightarrow> int list" where
  "insert_desc y [] = [y]"
| "insert_desc y (s # ss) = (if s \<ge> y then s # insert_desc y ss else y # s # ss)"

lemma mset_insert_desc [simp]: "mset (insert_desc y S) = add_mset y (mset S)"
  by (induction S) auto

lemma set_insert_desc [simp]: "set (insert_desc y S) = insert y (set S)"
  by (induction S) auto

lemma sorted_insert_desc: "sorted_wrt (\<ge>) S \<Longrightarrow> sorted_wrt (\<ge>) (insert_desc y S)"
  by (induction S) auto

lemma take_insert_desc:
  "sorted_wrt (\<ge>) S \<Longrightarrow> n \<le> length (filter (\<lambda>x. x \<ge> y) S) \<Longrightarrow> take n (insert_desc y S) = take n S"
proof (induction S arbitrary: n)
  case (Cons s ss)
  show ?case
  proof (cases "s \<ge> y")
    case True
    then show ?thesis using Cons by (cases n) auto
  next
    case False
    then have "filter (\<lambda>x. x \<ge> y) (s # ss) = []" using Cons.prems(1) by (auto simp: filter_empty_conv)
    then show ?thesis using Cons.prems(2) by simp
  qed
qed simp

lemma newest_first_Cons: "newest_first (y # xs) = insert_desc y (newest_first xs)"
proof -
  have "newest_first (y # xs) = newest_first (insert_desc y (newest_first xs))" by (rule newest_first_mset) simp
  also have "\<dots> = insert_desc y (newest_first xs)"
    by (rule newest_first_unique [OF sorted_insert_desc [OF sorted_newest_first]])
  finally show ?thesis .
qed

lemma take_newest_drop:
  assumes "n \<le> length X" "\<forall>y \<in> set Y. \<forall>x \<in> set X. y \<le> x"
  shows "take n (newest_first (Y @ X @ B)) = take n (newest_first (X @ B))"
  using assms
proof (induction Y)
  case (Cons y Y)
  have "length X \<le> length (filter (\<lambda>x. x \<ge> y) (newest_first (Y @ X @ B)))"
  proof -
    have "filter (\<lambda>x. x \<ge> y) X = X" using Cons.prems(2) by (simp add: filter_id_conv)
    moreover have "length (filter (\<lambda>x. x \<ge> y) (newest_first (Y @ X @ B))) = length (filter (\<lambda>x. x \<ge> y) (Y @ X @ B))"
      by (metis mset_filter mset_newest_first size_mset)
    ultimately show ?thesis by simp
  qed
  then have "take n (newest_first ((y # Y) @ X @ B)) = take n (newest_first (Y @ X @ B))"
    using Cons.prems(1) take_insert_desc [OF sorted_newest_first] by (simp add: newest_first_Cons)
  then show ?case using Cons by simp
qed simp

lemma take_newest_merge:
  "take n (newest_first (take n (newest_first A) @ B)) = take n (newest_first (A @ B))"
proof (cases "n \<le> length A")
  case True
  let ?X = "take n (newest_first A)" and ?Y = "drop n (newest_first A)"
  have "sorted_wrt (\<ge>) (?X @ ?Y)" using sorted_newest_first [of A] by simp
  then have "\<forall>y \<in> set ?Y. \<forall>x \<in> set ?X. y \<le> x" unfolding sorted_wrt_append by blast
  then have "take n (newest_first (?Y @ ?X @ B)) = take n (newest_first (?X @ B))"
    using True by (intro take_newest_drop) simp_all
  moreover have "newest_first (?Y @ ?X @ B) = newest_first (A @ B)"
  proof (rule newest_first_mset)
    have "mset ?X + mset ?Y = mset A" by (metis append_take_drop_id mset_append mset_newest_first)
    then show "mset (?Y @ ?X @ B) = mset (A @ B)" by (simp add: ac_simps flip: add.assoc)
  qed
  ultimately show ?thesis by simp
next
  case False
  then have "take n (newest_first A) = newest_first A" by simp
  moreover have "newest_first (newest_first A @ B) = newest_first (A @ B)" by (rule newest_first_mset) simp
  ultimately show ?thesis by simp
qed

lemma take_newest_mset: "mset xs = mset ys \<Longrightarrow> take n (newest_first xs) = take n (newest_first ys)"
  using newest_first_mset [of xs ys] by simp

lemma take_newest_merges:
  "take n (newest_first (concat (map (\<lambda>t. take n (newest_first (G t))) ts) @ B)) = take n (newest_first (concat (map G ts) @ B))"
proof (induction ts arbitrary: B)
  case (Cons t ts)
  let ?C = "concat (map (\<lambda>t. take n (newest_first (G t))) ts)"
  have "take n (newest_first (concat (map (\<lambda>t. take n (newest_first (G t))) (t # ts)) @ B))
      = take n (newest_first (take n (newest_first (G t)) @ (?C @ B)))" by simp
  also have "\<dots> = take n (newest_first (G t @ (?C @ B)))" by (rule take_newest_merge)
  also have "\<dots> = take n (newest_first (?C @ (G t @ B)))" by (rule take_newest_mset) simp
  also have "\<dots> = take n (newest_first (concat (map G ts) @ (G t @ B)))" by (rule Cons.IH)
  also have "\<dots> = take n (newest_first (concat (map G (t # ts)) @ B))" by (rule take_newest_mset) simp
  finally show ?case .
qed simp

text \<open>Ranges.\<close>

lemma in_newest_between: "i \<in> set (newest_between n s u ids) \<Longrightarrow> i \<in> set ids \<and> s < i \<and> i < u"
  by (auto simp: newest_between_def dest: in_set_takeD)

lemma length_newest_between: "length (newest_between n s u ids) \<le> nat n"
  by (simp add: newest_between_def)

lemma newest_between_empty: "u \<le> s + 1 \<Longrightarrow> newest_between n s u ids = []"
  by (simp add: newest_between_def filter_empty_conv newest_first_def)

lemma newest_between_mset: "mset xs = mset ys \<Longrightarrow> newest_between n s u xs = newest_between n s u ys"
  unfolding newest_between_def by (metis mset_filter take_newest_mset)

lemma strictly_descending: "distinct xs \<Longrightarrow> sorted_wrt (\<ge>) (xs :: int list) \<Longrightarrow> sorted_wrt (>) xs"
  by (induction xs) (auto simp: order_less_le)

lemma sorted_newest_between: "distinct ids \<Longrightarrow> sorted_wrt (>) (newest_between n s u ids)"
proof -
  assume "distinct ids"
  then have "distinct (newest_between n s u ids)" by (simp add: newest_between_def newest_first_def)
  moreover have "sorted_wrt (\<ge>) (newest_between n s u ids)"
    unfolding newest_between_def by (intro sorted_wrt_take sorted_newest_first)
  ultimately show ?thesis by (rule strictly_descending)
qed

text \<open>A range is taken from its newer part and, as far as that does not fill it, from the older one.\<close>

lemma newest_first_split:
  assumes "s \<le> m" "m < u"
  shows "newest_first (filter (\<lambda>i. s < i \<and> i < u) ids)
    = newest_first (filter (\<lambda>i. m < i \<and> i < u) ids) @ newest_first (filter (\<lambda>i. s < i \<and> i < m + 1) ids)"
proof -
  have "mset (filter (\<lambda>i. s < i \<and> i < u) ids)
      = mset (filter (\<lambda>i. m < i \<and> i < u) ids @ filter (\<lambda>i. s < i \<and> i < m + 1) ids)"
    using assms by (induction ids) auto
  then have "newest_first (filter (\<lambda>i. s < i \<and> i < u) ids)
      = newest_first (filter (\<lambda>i. m < i \<and> i < u) ids @ filter (\<lambda>i. s < i \<and> i < m + 1) ids)"
    by (rule newest_first_mset)
  also have "\<dots> = newest_first (filter (\<lambda>i. m < i \<and> i < u) ids) @ newest_first (filter (\<lambda>i. s < i \<and> i < m + 1) ids)"
    by (rule newest_first_append) auto
  finally show ?thesis .
qed

lemma newest_between_filled:
  assumes "s \<le> m" "m < u" "n \<le> int (length (newest_between n m u ids))"
  shows "newest_between n s u ids = newest_between n m u ids"
proof -
  have "nat n \<le> length (newest_first (filter (\<lambda>i. m < i \<and> i < u) ids))"
    using assms(3) by (auto simp: newest_between_def min_def split: if_splits)
  then show ?thesis by (simp add: newest_between_def newest_first_split [OF assms(1,2)] del: length_newest_first)
qed

lemma newest_between_rest:
  assumes "s \<le> m" "m < u" "int (length (newest_between n m u ids)) < n"
  shows "newest_between n s u ids
    = newest_between n m u ids @ newest_between (n - int (length (newest_between n m u ids))) s (m + 1) ids"
proof -
  let ?X = "newest_first (filter (\<lambda>i. m < i \<and> i < u) ids)"
  have X: "newest_between n m u ids = ?X" "length ?X < nat n"
    using assms(3) by (auto simp: newest_between_def min_def split: if_splits)
  then have "nat (n - int (length ?X)) = nat n - length ?X" by simp
  then show ?thesis unfolding X(1) using X(2)
    by (simp add: newest_between_def newest_first_split [OF assms(1,2)] del: length_newest_first)
qed

section \<open>Unions of pages\<close>

lemma strictly_descending_unique:
  "sorted_wrt (>) xs \<Longrightarrow> sorted_wrt (>) ys \<Longrightarrow> set xs = set ys \<Longrightarrow> xs = (ys :: int list)"
  using strict_sorted_equal [of "rev xs" "rev ys"] by (simp add: sorted_wrt_rev)

lemma strictly_newest_first: "distinct xs \<Longrightarrow> sorted_wrt (>) (newest_first xs)"
  by (intro strictly_descending sorted_newest_first) (simp add: newest_first_def)

lemma strictly_remdups_adj: "sorted_wrt (\<ge>) xs \<Longrightarrow> sorted_wrt (>) (remdups_adj (xs :: int list))"
  by (induction xs rule: remdups_adj.induct) (auto simp: order_less_le)

text \<open>A member is among the first \<open>n\<close> when fewer than \<open>n\<close> are above it.\<close>

lemma in_take_descending:
  "sorted_wrt (>) xs \<Longrightarrow> x \<in> set xs \<Longrightarrow> x \<in> set (take n xs) \<longleftrightarrow> length (filter (\<lambda>y. x < y) xs) < n" for x :: int
proof (induction xs arbitrary: n)
  case (Cons a xs)
  have above: "filter (\<lambda>y. a < y) xs = []" using Cons.prems(1) by (auto simp: filter_empty_conv)
  show ?case using Cons above by (cases n) auto
qed simp

lemma length_above: "distinct xs \<Longrightarrow> length (filter (\<lambda>y. x < y) (newest_first xs)) = card {y \<in> set xs. x < y}"
  using distinct_card [of "filter (\<lambda>y. x < y) (newest_first xs)"] by (simp add: newest_first_def)

lemma newest_of_union:
  assumes "distinct A" "distinct B" "distinct C" "set C = set A \<union> set B"
  shows "take n (remdups_adj (newest_first (take n (newest_first A) @ take n (newest_first B)))) = take n (newest_first C)"
proof -
  let ?N = "newest_first C"
  define L where "L = remdups_adj (newest_first (take n (newest_first A) @ take n (newest_first B)))"
  have L_sorted: "sorted_wrt (>) L" unfolding L_def by (rule strictly_remdups_adj [OF sorted_newest_first])
  have L_set: "set L = set (take n (newest_first A)) \<union> set (take n (newest_first B))" by (simp add: L_def)
  have above: "length (filter (\<lambda>y. x < y) (newest_first D)) \<le> length (filter (\<lambda>y. x < y) ?N)"
    if "distinct D" "set D \<subseteq> set C" for x D
    unfolding length_above [OF that(1)] length_above [OF assms(3)] using that(2) by (intro card_mono) auto
  have kept: "x \<in> set (take n (newest_first D))" if "x \<in> set (take n ?N)" "x \<in> set D" "distinct D" "set D \<subseteq> set C" for x D
  proof -
    have x: "x \<in> set ?N" "x \<in> set (newest_first D)" using that(1,2) by (simp_all add: in_set_takeD [of x n ?N, simplified])
    have "length (filter (\<lambda>y. x < y) ?N) < n"
      using that(1) unfolding in_take_descending [OF strictly_newest_first [OF assms(3)] x(1)] .
    then have "length (filter (\<lambda>y. x < y) (newest_first D)) < n" using above [OF that(3,4), of x] by (rule le_less_trans [rotated])
    then show ?thesis unfolding in_take_descending [OF strictly_newest_first [OF that(3)] x(2)] .
  qed
  have sub: "set (take n ?N) \<subseteq> set L"
  proof
    fix x assume x: "x \<in> set (take n ?N)"
    from in_set_takeD [OF x] have "x \<in> set C" by simp
    then have "x \<in> set A \<or> x \<in> set B" unfolding assms(4) by simp
    then have "x \<in> set (take n (newest_first A)) \<or> x \<in> set (take n (newest_first B))"
      using kept [OF x _ assms(1)] kept [OF x _ assms(2)] unfolding assms(4) by blast
    then show "x \<in> set L" unfolding L_set by blast
  qed
  have "L = filter (\<lambda>i. i \<in> set L) ?N"
  proof (rule strictly_descending_unique)
    show "sorted_wrt (>) L" by (rule L_sorted)
    show "sorted_wrt (>) (filter (\<lambda>i. i \<in> set L) ?N)" by (intro sorted_wrt_filter strictly_newest_first assms)
    have "set L \<subseteq> set ?N"
      using assms(4) set_take_subset [of n "newest_first A"] set_take_subset [of n "newest_first B"] by (auto simp: L_set)
    then show "set L = set (filter (\<lambda>i. i \<in> set L) ?N)" unfolding set_filter by blast
  qed
  also have "\<dots> = filter (\<lambda>i. i \<in> set L) (take n ?N) @ filter (\<lambda>i. i \<in> set L) (drop n ?N)"
    by (metis append_take_drop_id filter_append)
  also have "filter (\<lambda>i. i \<in> set L) (take n ?N) = take n ?N" using sub by (simp add: filter_id_conv subset_iff)
  finally have "L = take n ?N @ filter (\<lambda>i. i \<in> set L) (drop n ?N)" .
  moreover have "take n (take n ?N @ filter P (drop n ?N)) = take n ?N" for P
    by (cases "n \<le> length ?N") simp_all
  ultimately have "take n L = take n ?N" by metis
  then show ?thesis by (simp only: L_def)
qed

end
