(* ===== verification/Snowflake.thy ===== *)
theory Snowflake
  imports Prelude
begin

text \<open>
  The identifiers of the tables (\<open>crates/seiran-common/src/id.rs\<close>): milliseconds and a sequence number in
  one \<open>i64\<close>. A \<open>DateTime<Utc>\<close> is its \<open>timestamp_millis\<close>, the global sequence counter an \<open>AtomicU32\<close> that
  wraps.
\<close>

text \<open>\<open>as i64\<close>: the low 64 bits read with their sign.\<close>

definition as_i64 :: "int \<Rightarrow> int" where
  "as_i64 n = signed_take_bit 63 n"

definition generate_snowflake_id :: "int \<Rightarrow> int \<Rightarrow> 32 word \<Rightarrow> int \<times> 32 word" where
  "generate_snowflake_id created_at now sequence =
     (let target_time = (if created_at > now then now else created_at);
          masked_timestamp = target_time AND 0x0000FFFFFFFFFFFF;
          seq = uint sequence AND 0xFFFF;
          snowflake = push_bit 16 masked_timestamp OR seq
      in (as_i64 snowflake, sequence + 1))"

definition snowflake_id_floor :: "int \<Rightarrow> int" where
  "snowflake_id_floor at_time = as_i64 (push_bit 16 (max at_time 0 AND 0x0000FFFFFFFFFFFF))"

definition snowflake_id_time :: "int \<Rightarrow> int" where
  "snowflake_id_time i = drop_bit 16 i"

text \<open>Several identifiers in a row, each for the time of a post and the clock at that moment.\<close>

fun generate_snowflake_ids :: "(int \<times> int) list \<Rightarrow> 32 word \<Rightarrow> int list" where
  "generate_snowflake_ids [] s = []"
| "generate_snowflake_ids ((created_at, now) # rest) s =
     (case generate_snowflake_id created_at now s of (i, s') \<Rightarrow> i # generate_snowflake_ids rest s')"

section \<open>Arithmetic\<close>

text \<open>The times whose milliseconds fit 47 bits (until the year 6429).\<close>

definition snowflake_time_ok :: "int \<Rightarrow> bool" where
  "snowflake_time_ok t \<longleftrightarrow> 0 \<le> t \<and> t < 2 ^ 47"

lemma and_mask48: "(n :: int) AND 0xFFFFFFFFFFFF = n mod 2 ^ 48"
  using take_bit_eq_mask [of 48 n] by (simp add: take_bit_eq_mod mask_eq_exp_minus_1)

lemma and_mask16: "(n :: int) AND 0xFFFF = n mod 2 ^ 16"
  using take_bit_eq_mask [of 16 n] by (simp add: take_bit_eq_mod mask_eq_exp_minus_1)

lemma push_or_add: "0 \<le> (s :: int) \<Longrightarrow> s < 2 ^ 16 \<Longrightarrow> push_bit 16 n OR s = n * 65536 + s"
proof -
  assume s: "0 \<le> s" "s < 2 ^ 16"
  have low: "s = take_bit 16 s" using s by (simp add: take_bit_int_eq_self)
  have "push_bit 16 n AND s = 0"
    by (subst low, rule bit_eqI) (auto simp: bit_simps)
  then have "push_bit 16 n OR s = push_bit 16 n + s" by (simp add: disjunctive_add_eq_or)
  then show ?thesis by (simp add: push_bit_eq_mult)
qed

lemma as_i64_small: "0 \<le> n \<Longrightarrow> n < 2 ^ 63 \<Longrightarrow> as_i64 n = n"
  by (simp add: as_i64_def signed_take_bit_int_eq_self)

lemma as_i64_mod: "as_i64 n mod 2 ^ 16 = n mod 2 ^ 16"
proof -
  have "take_bit 16 (signed_take_bit 63 n) = take_bit 16 n" by (simp add: take_bit_signed_take_bit)
  then show ?thesis by (simp add: as_i64_def take_bit_eq_mod)
qed

lemma snowflake_floor_value: "snowflake_time_ok t \<Longrightarrow> snowflake_id_floor t = t * 65536"
  by (simp add: snowflake_id_floor_def snowflake_time_ok_def and_mask48 as_i64_small push_bit_eq_mult max_def)

lemma snowflake_floor_past: "t \<le> 0 \<Longrightarrow> snowflake_id_floor t = 0"
  by (simp add: snowflake_id_floor_def as_i64_def)

lemma snowflake_value:
  assumes "snowflake_time_ok (min created_at now)"
  shows "fst (generate_snowflake_id created_at now s) = min created_at now * 65536 + uint s mod 65536"
proof -
  define u where "u = min created_at now"
  have t: "(if created_at > now then now else created_at) = u" by (simp add: u_def min_def)
  have "0 \<le> uint s mod 65536" "uint s mod 65536 < 65536" by simp_all
  moreover have "0 \<le> u" "u < 2 ^ 47" using assms by (simp_all add: u_def snowflake_time_ok_def)
  ultimately have "u * 65536 + uint s mod 65536 < 2 ^ 63" "0 \<le> u * 65536 + uint s mod 65536" by simp_all
  moreover have "u mod 2 ^ 48 = u" using \<open>0 \<le> u\<close> \<open>u < 2 ^ 47\<close> by simp
  ultimately show ?thesis
    by (simp add: generate_snowflake_id_def Let_def t and_mask48 and_mask16 push_or_add as_i64_small flip: u_def)
qed

lemma snowflake_low_bits: "fst (generate_snowflake_id created_at now s) mod 2 ^ 16 = uint s mod 2 ^ 16"
proof -
  have "0 \<le> uint s mod 65536" "uint s mod 65536 < 65536" by simp_all
  then show ?thesis
    by (simp add: generate_snowflake_id_def Let_def and_mask48 and_mask16 push_or_add as_i64_mod [simplified])
qed

lemma snowflake_time_value: "snowflake_id_time i = i div 65536"
  by (simp add: snowflake_id_time_def drop_bit_eq_div)

section \<open>Properties\<close>

text \<open>
  An identifier says when its post was made: \<open>snowflake_id_time\<close> returns the time it was generated
  for, a time in the future being replaced by the clock, and \<open>snowflake_id_floor\<close> splits the identifiers
  by time: those generated for a later or equal time are at or above the floor, the others below it.
\<close>

theorem snowflake_time_order:
  assumes "snowflake_time_ok (min created_at now)" "snowflake_time_ok t"
  shows "snowflake_id_time (fst (generate_snowflake_id created_at now s)) = min created_at now
    \<and> (snowflake_id_floor t \<le> fst (generate_snowflake_id created_at now s) \<longleftrightarrow> t \<le> min created_at now)"
proof
  have s: "0 \<le> uint s mod 65536" "uint s mod 65536 < 65536" by simp_all
  show "snowflake_id_time (fst (generate_snowflake_id created_at now s)) = min created_at now"
    using assms(1) s by (simp add: snowflake_value snowflake_time_value)
  show "snowflake_id_floor t \<le> fst (generate_snowflake_id created_at now s) \<longleftrightarrow> t \<le> min created_at now"
    using s by (simp add: snowflake_value [OF assms(1)] snowflake_floor_value [OF assms(2)]) linarith
qed

lemma snowflake_ids_nth:
  "i < length ts \<Longrightarrow> generate_snowflake_ids ts s ! i mod 65536 = (uint s + int i) mod 65536"
proof (induction ts arbitrary: s i)
  case (Cons p ts)
  obtain c n where p: "p = (c, n)" by (cases p)
  have step: "snd (generate_snowflake_id c n s) = s + 1" by (simp add: generate_snowflake_id_def Let_def)
  have next_low: "uint (s + 1) mod 65536 = (uint s + 1) mod 65536"
    by (simp add: uint_word_ariths mod_mod_cancel)
  show ?case
  proof (cases i)
    case 0
    then show ?thesis using snowflake_low_bits [of c n s] by (auto simp: p split: prod.splits)
  next
    case (Suc j)
    then have "generate_snowflake_ids ts (s + 1) ! j mod 65536 = (uint (s + 1) + int j) mod 65536"
      using Cons by simp
    also have "\<dots> = (uint s + 1 + int j) mod 65536" by (metis next_low mod_add_left_eq)
    finally show ?thesis using step Suc by (cases "generate_snowflake_id c n s") (simp add: p algebra_simps)
  qed
qed simp

lemma length_snowflake_ids [simp]: "length (generate_snowflake_ids ts s) = length ts"
  by (induction ts arbitrary: s) (auto split: prod.splits)

text \<open>
  Up to 65536 identifiers generated one after another are all different, whatever the times of the
  posts and the clock, also when the sequence counter wraps in between.
\<close>

theorem snowflake_ids_distinct:
  assumes "length ts \<le> 65536"
  shows "distinct (generate_snowflake_ids ts s)"
proof (unfold distinct_conv_nth, intro allI impI)
  fix i j assume ij: "i < length (generate_snowflake_ids ts s)" "j < length (generate_snowflake_ids ts s)" "i \<noteq> j"
  have "(uint s + int i) mod 65536 \<noteq> (uint s + int j) mod 65536"
  proof
    assume "(uint s + int i) mod 65536 = (uint s + int j) mod 65536"
    then have "(int i - int j) mod 65536 = 0" by (metis add_diff_cancel_left mod_eq_dvd_iff mod_0_imp_dvd dvd_imp_mod_0)
    moreover have "\<bar>int i - int j\<bar> < 65536" using ij assms by (simp add: abs_if)
    ultimately show False using ij(3) by (metis dvd_imp_le_int eq_iff_diff_eq_0 linorder_not_less mod_0_imp_dvd of_nat_eq_iff abs_numeral)
  qed
  then show "generate_snowflake_ids ts s ! i \<noteq> generate_snowflake_ids ts s ! j"
    using ij snowflake_ids_nth [of i ts s] snowflake_ids_nth [of j ts s] by auto
qed

lemma snowflake_time_order_witness:
  "snowflake_id_time (fst (generate_snowflake_id 1700000000000 1600000000000 65535)) = 1600000000000
   \<and> snowflake_id_floor 1600000000000 \<le> fst (generate_snowflake_id 1700000000000 1600000000000 65535)"
  using snowflake_time_order [of 1700000000000 1600000000000 1600000000000 65535]
  by (simp add: snowflake_time_ok_def)

lemma snowflake_ids_distinct_witness:
  "distinct (generate_snowflake_ids [(5, 9), (5, 9), (7, 6)] (-2))"
  using snowflake_ids_distinct [of "[(5, 9), (5, 9), (7, 6)]" "-2"] by simp

end
