(* ===== verification/Feed.thy ===== *)
theory Feed
  imports Post_Visibility Newest_First Snowflake
begin

text \<open>
  The candidates of the home timeline, of the followed half of the social timeline and of list timelines
  (\<open>crates/seiran-common/src/repository/feed.rs\<close>): per author for few authors, in growing windows of time for
  many. Each query reads the tables at its own moment, the \<open>k\<close>th query the state \<open>dbs k\<close>.
\<close>

section \<open>Queries\<close>

definition LATERAL_MAX_TARGETS :: int where "LATERAL_MAX_TARGETS = 100"

definition WINDOW_HOURS :: "int list" where "WINDOW_HOURS = [1, 24, 168]"

datatype feed_source = Following actor_id bool | List_Members int

record feed_page =
  fp_limit :: int
  fp_until_id :: "post_id option"
  fp_since_id :: "post_id option"

fun target_count :: "post_db \<Rightarrow> feed_source \<Rightarrow> int" where
  "target_count db (Following viewer _) =
     int (length (filter (\<lambda>f. follower_actor_id f = viewer \<and> status f = Accepted) (follows (t_follows db))))"
| "target_count db (List_Members l) = int (length (filter (\<lambda>lm. fst lm = l) (t_list_members db)))"

text \<open>The authors of \<open>lateral_ids\<close>: a \<open>UNION\<close> for the viewer, the rows of the list for a list.\<close>

fun lateral_targets :: "post_db \<Rightarrow> feed_source \<Rightarrow> actor_id list" where
  "lateral_targets db (Following viewer _) =
     remdups (viewer # map target_actor_id (filter (\<lambda>f. follower_actor_id f = viewer \<and> status f = Accepted
       \<and> actor_not_hidden_sql db viewer (target_actor_id f)) (follows (t_follows db))))"
| "lateral_targets db (List_Members l) = map snd (filter (\<lambda>lm. fst lm = l) (t_list_members db))"

text \<open>What both queries ask of a post besides its author.\<close>

fun source_filter :: "post_db \<Rightarrow> feed_source \<Rightarrow> posts_row \<Rightarrow> bool" where
  "source_filter db (Following viewer exclude_direct) p = following_post_filter_sql db viewer exclude_direct p"
| "source_filter db (List_Members _) p = (p_visibility p \<noteq> Direct)"

definition lateral_ids :: "post_db \<Rightarrow> feed_source \<Rightarrow> feed_page \<Rightarrow> post_id list" where
  "lateral_ids db source pg =
     (let limit = nat (fp_limit pg);
          of_target = (\<lambda>t. take limit (newest_first (map p_id (filter (\<lambda>p. p_actor_id p = t \<and> live p
            \<and> p_id p < until_bound (fp_until_id pg) \<and> p_id p > since_bound (fp_since_id pg)
            \<and> source_filter db source p) (t_posts db)))))
      in take limit (newest_first (concat (map of_target (lateral_targets db source)))))"

fun window_target :: "post_db \<Rightarrow> feed_source \<Rightarrow> actor_id \<Rightarrow> bool" where
  "window_target db (Following viewer _) a \<longleftrightarrow> a = viewer \<or> list_ex (\<lambda>f. follower_actor_id f = viewer
     \<and> target_actor_id f = a \<and> status f = Accepted \<and> actor_not_hidden_sql db viewer (target_actor_id f)) (follows (t_follows db))"
| "window_target db (List_Members l) a \<longleftrightarrow> list_ex (\<lambda>lm. lm = (l, a)) (t_list_members db)"

definition window_ids :: "post_db \<Rightarrow> feed_source \<Rightarrow> post_id \<Rightarrow> post_id \<Rightarrow> int \<Rightarrow> post_id list" where
  "window_ids db source upper lower limit =
     take (nat limit) (newest_first (map p_id (filter (\<lambda>p. live p \<and> p_id p < upper \<and> p_id p > lower
       \<and> window_target db source (p_actor_id p) \<and> source_filter db source p) (t_posts db))))"

section \<open>The windows\<close>

text \<open>
  The loop of \<open>windowed_ids\<close> over its two queries, at its \<open>k\<close>th query: a window that fills the page or reaches
  \<open>since\<close> ends it, after the last window the rest is taken per author.
\<close>

definition hours :: "int \<Rightarrow> int" where "hours h = h * 3600000"

fun window_loop ::
  "(nat \<Rightarrow> post_id \<Rightarrow> post_id \<Rightarrow> int \<Rightarrow> post_id list) \<Rightarrow> (nat \<Rightarrow> feed_page \<Rightarrow> post_id list) \<Rightarrow> feed_page \<Rightarrow> int \<Rightarrow>
   int list \<Rightarrow> nat \<Rightarrow> post_id \<Rightarrow> post_id list \<Rightarrow> post_id list" where
  "window_loop window lateral pg anchor [] k upper ids =
     ids @ lateral k \<lparr>fp_limit = fp_limit pg - int (length ids), fp_until_id = Some upper, fp_since_id = fp_since_id pg\<rparr>"
| "window_loop window lateral pg anchor (h # hs) k upper ids =
     (let since = since_bound (fp_since_id pg);
          lower = max (snowflake_id_floor (anchor - hours h) - 1) since;
          ids' = ids @ window k upper lower (fp_limit pg - int (length ids))
      in if int (length ids') \<ge> fp_limit pg \<or> lower = since then ids'
         else window_loop window lateral pg anchor hs (k + 1) (lower + 1) ids')"

definition windowed_ids :: "(nat \<Rightarrow> post_db) \<Rightarrow> int \<Rightarrow> feed_source \<Rightarrow> feed_page \<Rightarrow> post_id list" where
  "windowed_ids dbs now source pg =
     (let anchor = (case fp_until_id pg of Some i \<Rightarrow> snowflake_id_time i | None \<Rightarrow> now)
      in window_loop (\<lambda>k. window_ids (dbs k) source) (\<lambda>k. lateral_ids (dbs k) source) pg anchor
           WINDOW_HOURS 1 (until_bound (fp_until_id pg)) [])"

definition feed_candidate_ids :: "(nat \<Rightarrow> post_db) \<Rightarrow> int \<Rightarrow> feed_source \<Rightarrow> feed_page \<Rightarrow> post_id list" where
  "feed_candidate_ids dbs now source pg =
     (if fp_limit pg \<le> 0 then []
      else if target_count (dbs 0) source \<le> LATERAL_MAX_TARGETS then lateral_ids (dbs 1) source pg
      else windowed_ids dbs now source pg)"

section \<open>What the candidates are\<close>

text \<open>The conditions in terms of the SQL functions.\<close>

fun feed_member :: "post_db \<Rightarrow> feed_source \<Rightarrow> posts_row \<Rightarrow> bool" where
  "feed_member db (Following viewer exclude_direct) p \<longleftrightarrow> live p
     \<and> (p_actor_id p = viewer
        \<or> follows_accepted db (Some viewer) (p_actor_id p) \<and> \<not> actor_is_hidden_for_viewer db (Some viewer) (p_actor_id p))
     \<and> post_is_visible_to db (Some viewer) (p_actor_id p) (p_visibility p) (p_id p) exclude_direct
     \<and> post_reply_target_followed db (Some viewer) (ref_of Reply_Ref p)
     \<and> \<not> (is_repost p \<and> repost_is_muted_for_viewer db (Some viewer) (p_actor_id p))"
| "feed_member db (List_Members l) p \<longleftrightarrow> live p \<and> (l, p_actor_id p) \<in> set (t_list_members db) \<and> p_visibility p \<noteq> Direct"

definition feed_ids :: "post_db \<Rightarrow> feed_source \<Rightarrow> post_id list" where
  "feed_ids db source = map p_id (filter (feed_member db source) (t_posts db))"

section \<open>The two queries select the same posts\<close>

definition feed_tables_ok :: "post_db \<Rightarrow> bool" where
  "feed_tables_ok db \<longleftrightarrow> distinct (map p_id (t_posts db)) \<and> distinct (t_list_members db)"

lemma distinct_feed_ids: "feed_tables_ok db \<Longrightarrow> distinct (feed_ids db source)"
  by (simp add: feed_tables_ok_def feed_ids_def distinct_map_filter)

lemma feed_member_window:
  "feed_member db source p \<longleftrightarrow> live p \<and> window_target db source (p_actor_id p) \<and> source_filter db source p"
  by (cases source)
     (auto simp: following_post_filter_sql_def macros_match_sql_functions follows_accepted_def is_viewer_def list_ex_iff)

lemma lateral_targets_window: "a \<in> set (lateral_targets db source) \<longleftrightarrow> window_target db source a"
  by (cases source) (force simp: list_ex_iff)+

lemma feed_member_lateral:
  "feed_member db source p \<longleftrightarrow> live p \<and> p_actor_id p \<in> set (lateral_targets db source) \<and> source_filter db source p"
  by (simp add: feed_member_window lateral_targets_window)

lemma distinct_lateral_targets: "feed_tables_ok db \<Longrightarrow> distinct (lateral_targets db source)"
  by (cases source) (auto simp: feed_tables_ok_def distinct_map inj_on_def)

text \<open>The rows of distinct authors, author by author.\<close>

lemma mset_by_author:
  "distinct ts \<Longrightarrow> mset (concat (map (\<lambda>t. map f (filter (\<lambda>p. g p = t \<and> P p) ps)) ts)) = mset (map f (filter (\<lambda>p. g p \<in> set ts \<and> P p) ps))"
proof (induction ts)
  case (Cons t ts)
  have "mset (map f (filter (\<lambda>p. g p = t \<and> P p) ps)) + mset (map f (filter (\<lambda>p. g p \<in> set ts \<and> P p) ps))
      = mset (map f (filter (\<lambda>p. g p \<in> set (t # ts) \<and> P p) ps))"
    using Cons.prems by (induction ps) auto
  then show ?case using Cons by simp
qed simp

lemma window_ids_newest: "window_ids db source upper lower limit = newest_between limit lower upper (feed_ids db source)"
  by (simp add: window_ids_def newest_between_def feed_ids_def filter_map o_def feed_member_window conj_ac)

lemma lateral_ids_newest:
  assumes "feed_tables_ok db"
  shows "lateral_ids db source pg
    = newest_between (fp_limit pg) (since_bound (fp_since_id pg)) (until_bound (fp_until_id pg)) (feed_ids db source)"
proof -
  let ?P = "\<lambda>p. live p \<and> p_id p < until_bound (fp_until_id pg) \<and> p_id p > since_bound (fp_since_id pg) \<and> source_filter db source p"
  let ?G = "\<lambda>t. map p_id (filter (\<lambda>p. p_actor_id p = t \<and> ?P p) (t_posts db))" and ?n = "nat (fp_limit pg)"
  have "mset (concat (map ?G (lateral_targets db source)))
      = mset (map p_id (filter (\<lambda>p. p_actor_id p \<in> set (lateral_targets db source) \<and> ?P p) (t_posts db)))"
    by (rule mset_by_author [OF distinct_lateral_targets [OF assms]])
  also have "\<dots> = mset (filter (\<lambda>i. since_bound (fp_since_id pg) < i \<and> i < until_bound (fp_until_id pg)) (feed_ids db source))"
    by (simp add: feed_ids_def filter_map o_def feed_member_lateral conj_ac)
  finally have "take ?n (newest_first (concat (map ?G (lateral_targets db source))))
      = newest_between (fp_limit pg) (since_bound (fp_since_id pg)) (until_bound (fp_until_id pg)) (feed_ids db source)"
    unfolding newest_between_def by (rule take_newest_mset)
  moreover have "lateral_ids db source pg = take ?n (newest_first (concat (map ?G (lateral_targets db source))))"
    using take_newest_merges [of ?n ?G "lateral_targets db source" "[]"] by (simp add: lateral_ids_def Let_def)
  ultimately show ?thesis by simp
qed

section \<open>The windows select what one query over the range would\<close>

text \<open>
  Two queries on the same posts: the newest of a range, and the newest of a page. The loop of the windows
  rests on nothing else.
\<close>

definition window_floor :: "int \<Rightarrow> int \<Rightarrow> post_id" where
  "window_floor anchor h = snowflake_id_floor (anchor - hours h) - 1"

definition windows_below :: "int \<Rightarrow> post_id \<Rightarrow> int list \<Rightarrow> bool" where
  "windows_below anchor upper hs \<longleftrightarrow> list_all (\<lambda>h. window_floor anchor h < upper) hs
     \<and> sorted_wrt (\<lambda>h h'. window_floor anchor h' \<le> window_floor anchor h) hs"

lemma windows_below_Cons:
  "windows_below anchor upper (h # hs) \<Longrightarrow> window_floor anchor h \<le> l \<Longrightarrow> window_floor anchor h < upper \<and> windows_below anchor (l + 1) hs"
  by (auto simp: windows_below_def list_all_iff)

locale newest_source =
  fixes ids :: "'d \<Rightarrow> post_id list"
    and window :: "'d \<Rightarrow> post_id \<Rightarrow> post_id \<Rightarrow> int \<Rightarrow> post_id list"
    and lateral :: "'d \<Rightarrow> feed_page \<Rightarrow> post_id list"
    and ok :: "'d \<Rightarrow> bool"
  assumes distinct_ids: "ok d \<Longrightarrow> distinct (ids d)"
    and window_newest: "ok d \<Longrightarrow> window d u l n = newest_between n l u (ids d)"
    and lateral_newest: "ok d \<Longrightarrow> lateral d pg = newest_between (fp_limit pg) (since_bound (fp_since_id pg)) (until_bound (fp_until_id pg)) (ids d)"
begin

text \<open>One state of the tables: the windows find what the whole range holds.\<close>

lemma window_loop_newest:
  assumes "ok d" "windows_below anchor upper hs" "upper \<le> until" "since_bound (fp_since_id pg) < upper \<or> upper = until"
    "acc = newest_first (filter (\<lambda>i. upper - 1 < i \<and> i < until) (ids d))" "int (length acc) < fp_limit pg"
  shows "window_loop (\<lambda>k. window d) (\<lambda>k. lateral d) pg anchor hs k upper acc
    = newest_between (fp_limit pg) (since_bound (fp_since_id pg)) until (ids d)"
  using assms(2-)
proof (induction hs arbitrary: k upper acc)
  case Nil
  let ?s = "since_bound (fp_since_id pg)"
  show ?case
  proof (cases "?s < upper \<and> upper - 1 < until")
    case True
    have acc: "acc = newest_between (fp_limit pg) (upper - 1) until (ids d)"
      using Nil.prems(4,5) by (simp add: newest_between_def)
    then show ?thesis
      using newest_between_rest [of ?s "upper - 1" until "fp_limit pg" "ids d"] True Nil.prems(5)
      by (simp add: lateral_newest [OF assms(1)] until_bound_def)
  next
    case False
    then have "upper = until" using Nil.prems(2,3) by auto
    then have "acc = []" using Nil.prems(4) by (simp add: newest_first_def filter_empty_conv)
    then show ?thesis using \<open>upper = until\<close> by (simp add: lateral_newest [OF assms(1)] until_bound_def)
  qed
next
  case (Cons h hs)
  let ?s = "since_bound (fp_since_id pg)" and ?n = "fp_limit pg"
  let ?l = "max (window_floor anchor h) ?s"
  let ?w = "window d upper ?l (?n - int (length acc))"
  have low: "window_floor anchor h < upper" "windows_below anchor (?l + 1) hs"
    using windows_below_Cons [OF Cons.prems(1), of ?l] by simp_all
  have unfold_loop: "window_loop (\<lambda>k. window d) (\<lambda>k. lateral d) pg anchor (h # hs) k upper acc
      = (if int (length (acc @ ?w)) \<ge> ?n \<or> ?l = ?s then acc @ ?w
         else window_loop (\<lambda>k. window d) (\<lambda>k. lateral d) pg anchor hs (k + 1) (?l + 1) (acc @ ?w))"
    by (simp add: Let_def flip: window_floor_def)
  have page: "acc @ ?w = newest_between ?n ?l until (ids d)"
  proof (cases "?l < upper \<and> upper - 1 < until")
    case True
    have "acc = newest_between ?n (upper - 1) until (ids d)" using Cons.prems(4,5) by (simp add: newest_between_def)
    then show ?thesis
      using newest_between_rest [of ?l "upper - 1" until ?n "ids d"] True Cons.prems(5)
      by (simp add: window_newest [OF assms(1)])
  next
    case False
    then have "upper = until" using Cons.prems(2,3) low(1) by auto
    then have "acc = []" using Cons.prems(4) by (simp add: newest_first_def filter_empty_conv)
    then show ?thesis using \<open>upper = until\<close> by (simp add: window_newest [OF assms(1)])
  qed
  consider (since) "?l = ?s" | (full) "?l \<noteq> ?s" "int (length (acc @ ?w)) \<ge> ?n" | (more) "?l \<noteq> ?s" "int (length (acc @ ?w)) < ?n"
    by linarith
  then show ?case
  proof cases
    case since
    then show ?thesis using page by (simp only: unfold_loop) simp
  next
    case full
    then have "?l < until" using low(1) Cons.prems(2) by auto
    moreover have "?n \<le> int (length (newest_between ?n ?l until (ids d)))" using full(2) unfolding page .
    ultimately have "newest_between ?n ?s until (ids d) = newest_between ?n ?l until (ids d)"
      by (intro newest_between_filled) simp_all
    then show ?thesis using page full by (simp only: unfold_loop) simp
  next
    case more
    then have l: "?s < ?l" "?l < upper" using low(1) by auto
    have "int (length (newest_between ?n ?l until (ids d))) < ?n" using more(2) unfolding page .
    then have "acc @ ?w = newest_first (filter (\<lambda>i. ?l < i \<and> i < until) (ids d))"
      unfolding page by (auto simp: newest_between_def)
    then have "window_loop (\<lambda>k. window d) (\<lambda>k. lateral d) pg anchor hs (k + 1) (?l + 1) (acc @ ?w) = newest_between ?n ?s until (ids d)"
      using l Cons.prems(2) more(2) low(2) by (intro Cons.IH) auto
    then show ?thesis using more by (simp only: unfold_loop) auto
  qed
qed

text \<open>Tables that change between the queries: every result was found in one of the states, none twice.\<close>

definition page_of :: "(nat \<Rightarrow> 'd) \<Rightarrow> int \<Rightarrow> post_id \<Rightarrow> post_id \<Rightarrow> post_id list \<Rightarrow> bool" where
  "page_of ds limit since until r \<longleftrightarrow> sorted_wrt (>) r \<and> int (length r) \<le> limit
     \<and> (\<forall>i \<in> set r. since < i \<and> i < until \<and> (\<exists>k. i \<in> set (ids (ds k))))"

lemma page_of_append:
  assumes "page_of ds limit since until acc" "ok (ds k)" "\<forall>i \<in> set acc. u \<le> i" "u \<le> until" "since \<le> l"
  shows "page_of ds limit since until (acc @ newest_between (limit - int (length acc)) l u (ids (ds k)))"
proof -
  let ?w = "newest_between (limit - int (length acc)) l u (ids (ds k))"
  have w: "i \<in> set (ids (ds k)) \<and> l < i \<and> i < u" if "i \<in> set ?w" for i
    using that by (rule in_newest_between)
  have "sorted_wrt (>) (acc @ ?w)"
    using assms(1,3) w sorted_newest_between [OF distinct_ids [OF assms(2)]]
    by (fastforce simp: page_of_def sorted_wrt_append)
  moreover have "int (length (acc @ ?w)) \<le> limit"
    using assms(1) length_newest_between [of "limit - int (length acc)" l u "ids (ds k)"] by (auto simp: page_of_def le_nat_iff)
  ultimately show ?thesis using assms(1,4,5) w by (fastforce simp: page_of_def)
qed

lemma window_loop_page:
  assumes "\<And>k. ok (ds k)" "windows_below anchor upper hs" "upper \<le> until" "since_bound (fp_since_id pg) < upper \<or> acc = []"
    "\<forall>i \<in> set acc. upper \<le> i" "page_of ds (fp_limit pg) (since_bound (fp_since_id pg)) until acc"
  shows "page_of ds (fp_limit pg) (since_bound (fp_since_id pg)) until
    (window_loop (\<lambda>k. window (ds k)) (\<lambda>k. lateral (ds k)) pg anchor hs k upper acc)"
  using assms(2-)
proof (induction hs arbitrary: k upper acc)
  case Nil
  then show ?case
    using page_of_append [OF Nil.prems(5) assms(1) Nil.prems(4,2) order_refl] by (simp add: lateral_newest [OF assms(1)] until_bound_def)
next
  case (Cons h hs)
  let ?s = "since_bound (fp_since_id pg)" and ?n = "fp_limit pg"
  let ?l = "max (window_floor anchor h) ?s"
  let ?w = "window (ds k) upper ?l (?n - int (length acc))"
  have low: "window_floor anchor h < upper" "windows_below anchor (?l + 1) hs"
    using windows_below_Cons [OF Cons.prems(1), of ?l] by simp_all
  have page: "page_of ds ?n ?s until (acc @ ?w)"
    using page_of_append [OF Cons.prems(5) assms(1) Cons.prems(4,2), of ?l] by (simp add: window_newest [OF assms(1)])
  have unfold_loop: "window_loop (\<lambda>k. window (ds k)) (\<lambda>k. lateral (ds k)) pg anchor (h # hs) k upper acc
      = (if int (length (acc @ ?w)) \<ge> ?n \<or> ?l = ?s then acc @ ?w
         else window_loop (\<lambda>k. window (ds k)) (\<lambda>k. lateral (ds k)) pg anchor hs (k + 1) (?l + 1) (acc @ ?w))"
    by (simp add: Let_def flip: window_floor_def)
  show ?case
  proof (cases "int (length (acc @ ?w)) \<ge> ?n \<or> ?l = ?s")
    case False
    then have l: "?s < ?l" "?l < upper" using low(1) by auto
    have "\<forall>i \<in> set (acc @ ?w). ?l + 1 \<le> i"
      using Cons.prems(4) l(2) by (fastforce simp: window_newest [OF assms(1)] dest: in_newest_between)
    then have "page_of ds ?n ?s until (window_loop (\<lambda>k. window (ds k)) (\<lambda>k. lateral (ds k)) pg anchor hs (k + 1) (?l + 1) (acc @ ?w))"
      using Cons.prems(2) l low(2) page by (intro Cons.IH) auto
    then show ?thesis using False by (simp only: unfold_loop) simp
  qed (use page in \<open>simp only: unfold_loop, simp\<close>)
qed

end

section \<open>The model's queries\<close>

interpretation feed: newest_source "\<lambda>(db, source). feed_ids db source" "\<lambda>(db, source). window_ids db source"
  "\<lambda>(db, source). lateral_ids db source" "\<lambda>(db, source). feed_tables_ok db"
  by unfold_locales (auto simp: distinct_feed_ids window_ids_newest lateral_ids_newest)

text \<open>The times of a page: the clock, and the time of the identifier it ends before.\<close>

definition page_ok :: "int \<Rightarrow> feed_page \<Rightarrow> bool" where
  "page_ok now pg \<longleftrightarrow> (case fp_until_id pg of Some i \<Rightarrow> 0 \<le> i \<and> i \<le> i64_max | None \<Rightarrow> snowflake_time_ok now)"

lemma snowflake_floor_max: "t < 2 ^ 47 \<Longrightarrow> snowflake_id_floor t = max t 0 * 65536"
  using snowflake_floor_value [of t] snowflake_floor_past [of t] by (cases "t \<le> 0") (auto simp: snowflake_time_ok_def max_def)

lemma page_windows_below:
  assumes "page_ok now pg"
  shows "windows_below (case fp_until_id pg of Some i \<Rightarrow> snowflake_id_time i | None \<Rightarrow> now) (until_bound (fp_until_id pg)) WINDOW_HOURS"
proof -
  define a where "a = (case fp_until_id pg of Some i \<Rightarrow> snowflake_id_time i | None \<Rightarrow> now)"
  have a: "0 \<le> a" "a < 2 ^ 47" "a * 65536 \<le> until_bound (fp_until_id pg)"
    using assms by (auto simp: a_def page_ok_def snowflake_time_ok_def snowflake_time_value until_bound_def i64_max_def split: option.splits)
  then have "window_floor a h = max (a - hours h) 0 * 65536 - 1" if "0 \<le> h" for h
    using that unfolding window_floor_def by (subst snowflake_floor_max) (auto simp: hours_def)
  then show ?thesis using a unfolding a_def [symmetric]
    by (auto simp: windows_below_def WINDOW_HOURS_def hours_def max_def)
qed

section \<open>Properties\<close>

lemma candidates_newest:
  assumes "feed_tables_ok db" "page_ok now pg"
  shows "feed_candidate_ids (\<lambda>_. db) now source pg
    = newest_between (fp_limit pg) (since_bound (fp_since_id pg)) (until_bound (fp_until_id pg)) (feed_ids db source)"
proof -
  let ?u = "until_bound (fp_until_id pg)"
  have "newest_first (filter (\<lambda>i. ?u - 1 < i \<and> i < ?u) ids) = []" for ids
    by (simp add: newest_first_def filter_empty_conv)
  then have "windowed_ids (\<lambda>_. db) now source pg
      = newest_between (fp_limit pg) (since_bound (fp_since_id pg)) ?u (feed_ids db source)" if "0 < fp_limit pg"
    using feed.window_loop_newest [of "(db, source)" _ ?u WINDOW_HOURS ?u pg "[]" 1] page_windows_below [OF assms(2)] assms(1) that
    by (simp add: windowed_ids_def Let_def)
  then show ?thesis by (simp add: feed_candidate_ids_def lateral_ids_newest [OF assms(1)]) (simp add: newest_between_def)
qed

text \<open>
  C11. The home timeline and list timelines show the right posts in the right order: whether few or many
  accounts are followed, the candidates are the newest \<open>limit\<close> of all posts in the asked range that are by the
  viewer or someone followed and not hidden, visible to the viewer, no reply into an unknown conversation
  and no muted repost (for a list: by a member and not direct). The switch between the two strategies, the
  windows of 1, 24 and 168 hours and the rest behind them lose no post and repeat none.
\<close>

theorem feed_newest:
  assumes "feed_tables_ok db" "page_ok now pg"
  shows "feed_candidate_ids (\<lambda>_. db) now source pg
    = newest_between (fp_limit pg) (since_bound (fp_since_id pg)) (until_bound (fp_until_id pg)) (feed_ids db source)"
  by (rule candidates_newest [OF assms])

text \<open>
  Other requests may write between the queries of one page: the candidates still are strictly
  descending, at most \<open>limit\<close>, within the range, and each is a post of the timeline in one of the states read.
\<close>

theorem feed_page_sound:
  assumes "\<And>k. feed_tables_ok (dbs k)" "page_ok now pg"
  shows "sorted_wrt (>) (feed_candidate_ids dbs now source pg)
    \<and> int (length (feed_candidate_ids dbs now source pg)) \<le> max (fp_limit pg) 0
    \<and> list_all (\<lambda>i. since_bound (fp_since_id pg) < i \<and> i < until_bound (fp_until_id pg) \<and> (\<exists>k. i \<in> set (feed_ids (dbs k) source)))
        (feed_candidate_ids dbs now source pg)"
proof -
  let ?ds = "\<lambda>k. (dbs k, source)" and ?s = "since_bound (fp_since_id pg)" and ?u = "until_bound (fp_until_id pg)"
  have start: "feed.page_of ?ds (fp_limit pg) ?s ?u []" if "0 < fp_limit pg"
    using that by (simp add: feed.page_of_def)
  have "feed.page_of ?ds (fp_limit pg) ?s ?u (windowed_ids dbs now source pg)" if "0 < fp_limit pg"
    using feed.window_loop_page [of ?ds _ ?u WINDOW_HOURS ?u pg "[]" 1] page_windows_below [OF assms(2)] assms(1) start [OF that]
    by (simp add: windowed_ids_def Let_def)
  moreover have "feed.page_of ?ds (fp_limit pg) ?s ?u (lateral_ids (dbs 1) source pg)" if "0 < fp_limit pg"
    using feed.page_of_append [OF start [OF that], of 1 ?u ?s] assms(1) by (simp add: lateral_ids_newest)
  ultimately have "0 < fp_limit pg \<Longrightarrow> feed.page_of ?ds (fp_limit pg) ?s ?u (feed_candidate_ids dbs now source pg)"
    by (simp add: feed_candidate_ids_def)
  then show ?thesis by (cases "0 < fp_limit pg") (auto simp: feed.page_of_def list_all_iff feed_candidate_ids_def)
qed

section \<open>Witnesses\<close>

text \<open>A list of 101 accounts, three of which wrote: within the hour, a day before and a year before.\<close>

definition demo_list_db :: post_db where
  "demo_list_db = \<lparr>t_posts = [new_post 111411200000 5 ''new'' 1700000, new_post 99614720000 6 ''yesterday'' 1520000,
       new_post 65536 7 ''old'' 1, new_post 111411200001 200 ''other'' 1700000],
     t_actors = [], t_post_recipients = [], t_post_attachments = [], t_media_files = [],
     t_follows = empty_follow_db,
     t_blocks = [], t_mutes = [], t_repost_mutes = [], t_list_members = map (Pair 9) (upto 1 101), t_notifications = []\<rparr>"

lemma demo_list_db_ok: "feed_tables_ok demo_list_db"
  by code_simp

lemma feed_newest_witness:
  "target_count demo_list_db (List_Members 9) > LATERAL_MAX_TARGETS
   \<and> feed_candidate_ids (\<lambda>_. demo_list_db) 1700001 (List_Members 9) \<lparr>fp_limit = 2, fp_until_id = None, fp_since_id = None\<rparr>
     = [111411200000, 99614720000]"
proof -
  have ok: "page_ok 1700001 \<lparr>fp_limit = 2, fp_until_id = None, fp_since_id = None\<rparr>"
    by (simp add: page_ok_def snowflake_time_ok_def)
  have "target_count demo_list_db (List_Members 9) > LATERAL_MAX_TARGETS" by code_simp
  moreover have "newest_between 2 0 i64_max (feed_ids demo_list_db (List_Members 9)) = [111411200000, 99614720000]" by code_simp
  ultimately show ?thesis
    using feed_newest [OF demo_list_db_ok ok, of "List_Members 9"] by (simp add: since_bound_def until_bound_def)
qed

lemma feed_page_sound_witness:
  "sorted_wrt (>) (feed_candidate_ids (\<lambda>k. if k < 2 then demo_list_db else demo_list_db\<lparr>t_posts := []\<rparr>) 1700001 (List_Members 9)
     \<lparr>fp_limit = 2, fp_until_id = Some 99614720001, fp_since_id = Some 7\<rparr>)"
proof -
  have "feed_tables_ok (if k < 2 then demo_list_db else demo_list_db\<lparr>t_posts := []\<rparr>)" for k :: nat
    using demo_list_db_ok by (simp add: feed_tables_ok_def)
  moreover have "page_ok 1700001 \<lparr>fp_limit = 2, fp_until_id = Some 99614720001, fp_since_id = Some 7\<rparr>"
    by (simp add: page_ok_def i64_max_def)
  ultimately show ?thesis by (rule feed_page_sound [THEN conjunct1])
qed

end
