(* ===== verification/Timelines.thy ===== *)
theory Timelines
  imports Feed
begin

text \<open>
  The reading half of \<open>PostRepository\<close> (\<open>crates/seiran-common/src/repository/post.rs\<close>), \<open>fetch_feed_posts\<close> of
  \<open>repository/feed.rs\<close> and the timeline of \<open>repository/list.rs\<close>: timelines, profiles, threads and look-ups. The
  columns of the avatar, of the emoji in names and of the bridged copies are left out. A query whose
  \<open>LIMIT\<close> is negative is an error; other failures of the database are not modelled.
\<close>

section \<open>Rows of a timeline\<close>

record timeline_post =
  tp_id :: post_id
  tp_body :: string
  tp_created_at :: int
  tp_actor_id :: actor_id
  tp_username :: string
  tp_domain :: string
  tp_display_name :: "string option"
  tp_actor_type :: string
  tp_refs :: "reference_kind \<Rightarrow> post_reference"
  tp_parent_original_post_id :: "post_id option"
  tp_post_emoji_map :: json
  tp_visibility :: visibility
  tp_deliver_fedi :: bool
  tp_deliver_bsky :: bool
  tp_mention_facets :: json
  tp_post_ap_object_id :: "string option"
  tp_post_at_uri :: "string option"
  tp_content_warning :: "string option"
  tp_poll :: "json option"
  tp_counts :: "reference_kind \<Rightarrow> int"
  tp_content_html :: "string option"
  tp_actor_suspended_at :: "int option"
  tp_bridge_of_post_id :: "post_id option"
  tp_thread_root_post_id :: "post_id option"

definition timeline_post_columns :: "posts_row \<Rightarrow> actor_row \<Rightarrow> timeline_post" where
  "timeline_post_columns p a =
     \<lparr>tp_id = p_id p, tp_body = p_body p, tp_created_at = p_created_at p, tp_actor_id = p_actor_id p,
      tp_username = a_username a, tp_domain = a_domain a, tp_display_name = a_display_name a, tp_actor_type = a_actor_type a,
      tp_refs = p_refs p, tp_parent_original_post_id = p_parent_original_post_id p, tp_post_emoji_map = p_emoji_map p,
      tp_visibility = p_visibility p, tp_deliver_fedi = p_deliver_fedi p, tp_deliver_bsky = p_deliver_bsky p,
      tp_mention_facets = p_mention_facets p, tp_post_ap_object_id = p_ap_object_id p, tp_post_at_uri = p_at_uri p,
      tp_content_warning = p_content_warning p, tp_poll = p_poll p, tp_counts = p_counts p,
      tp_content_html = p_content_html p, tp_actor_suspended_at = None, tp_bridge_of_post_id = p_bridge_of_post_id p,
      tp_thread_root_post_id = p_thread_root_post_id p\<rparr>"

text \<open>The inner join with the author, and the column some queries append.\<close>

definition timeline_post_joins :: "post_db \<Rightarrow> posts_row list \<Rightarrow> timeline_post list" where
  "timeline_post_joins db ps =
     List.map_filter (\<lambda>p. map_option (timeline_post_columns p) (find_actor (p_actor_id p) db)) ps"

definition with_suspended_at :: "post_db \<Rightarrow> timeline_post \<Rightarrow> timeline_post" where
  "with_suspended_at db t = t\<lparr>tp_actor_suspended_at := Option.bind (find_actor (tp_actor_id t) db) a_suspended_at\<rparr>"

definition newest_rows :: "posts_row list \<Rightarrow> posts_row list" where
  "newest_rows ps = rev (sort_key p_id ps)"

definition in_page :: "feed_page \<Rightarrow> posts_row \<Rightarrow> bool" where
  "in_page pg p \<longleftrightarrow> p_id p < until_bound (fp_until_id pg) \<and> p_id p > since_bound (fp_since_id pg)"

definition select_page :: "post_db \<Rightarrow> int \<Rightarrow> (posts_row \<Rightarrow> bool) \<Rightarrow> timeline_post list sql_result" where
  "select_page db limit P = limit_rows limit (timeline_post_joins db (newest_rows (filter P (t_posts db))))"

text \<open>\<open>$1 IS NULL OR p.actor_id = $1 OR NOT actor_is_hidden_for_viewer($1, p.actor_id)\<close>\<close>

definition not_hidden :: "post_db \<Rightarrow> actor_id option \<Rightarrow> actor_id \<Rightarrow> bool" where
  "not_hidden db viewer a \<longleftrightarrow> viewer = None \<or> is_viewer viewer a \<or> \<not> actor_is_hidden_for_viewer db viewer a"

section \<open>Timelines\<close>

definition fetch_feed_posts :: "post_db \<Rightarrow> post_id list \<Rightarrow> timeline_post list" where
  "fetch_feed_posts db ids =
     (if ids = [] then []
      else timeline_post_joins db (newest_rows (filter (\<lambda>p. p_id p \<in> set ids \<and> live p) (t_posts db))))"

definition home_timeline :: "(nat \<Rightarrow> post_db) \<Rightarrow> int \<Rightarrow> actor_id \<Rightarrow> feed_page \<Rightarrow> bool \<Rightarrow> timeline_post list" where
  "home_timeline dbs now viewer pg exclude_direct =
     fetch_feed_posts (dbs 5) (feed_candidate_ids dbs now (Following viewer exclude_direct) pg)"

definition list_timeline :: "(nat \<Rightarrow> post_db) \<Rightarrow> int \<Rightarrow> int \<Rightarrow> feed_page \<Rightarrow> timeline_post list" where
  "list_timeline dbs now l pg = fetch_feed_posts (dbs 5) (feed_candidate_ids dbs now (List_Members l) pg)"

definition public_member :: "post_db \<Rightarrow> actor_id option \<Rightarrow> bool \<Rightarrow> posts_row \<Rightarrow> bool" where
  "public_member db viewer exclude_direct p \<longleftrightarrow> live p
     \<and> p_visibility p \<noteq> Unlisted \<and> p_visibility p \<noteq> Followers_Only
     \<and> not_hidden db viewer (p_actor_id p)
     \<and> (viewer = None \<or> \<not> (is_repost p \<and> repost_is_muted_for_viewer db viewer (p_actor_id p)))
     \<and> post_is_visible_to db viewer (p_actor_id p) (p_visibility p) (p_id p) exclude_direct"

definition local_timeline :: "post_db \<Rightarrow> actor_id option \<Rightarrow> feed_page \<Rightarrow> bool \<Rightarrow> timeline_post list sql_result" where
  "local_timeline db viewer pg exclude_direct =
     select_page db (fp_limit pg) (\<lambda>p. p_is_local p \<and> in_page pg p \<and> public_member db viewer exclude_direct p)"

definition global_timeline :: "post_db \<Rightarrow> actor_id option \<Rightarrow> feed_page \<Rightarrow> bool \<Rightarrow> timeline_post list sql_result" where
  "global_timeline db viewer pg exclude_direct =
     select_page db (fp_limit pg) (\<lambda>p. in_page pg p \<and> public_member db viewer exclude_direct p)"

definition social_local_member :: "post_db \<Rightarrow> actor_id \<Rightarrow> bool \<Rightarrow> posts_row \<Rightarrow> bool" where
  "social_local_member db viewer exclude_direct p \<longleftrightarrow> p_is_local p \<and> live p
     \<and> (p_visibility p \<noteq> Unlisted \<or> p_actor_id p = viewer)
     \<and> (p_actor_id p = viewer \<or> \<not> actor_is_hidden_for_viewer db (Some viewer) (p_actor_id p))
     \<and> \<not> (is_repost p \<and> repost_is_muted_for_viewer db (Some viewer) (p_actor_id p))
     \<and> post_is_visible_to db (Some viewer) (p_actor_id p) (p_visibility p) (p_id p) exclude_direct"

definition social_timeline ::
  "(nat \<Rightarrow> post_db) \<Rightarrow> int \<Rightarrow> actor_id \<Rightarrow> feed_page \<Rightarrow> bool \<Rightarrow> timeline_post list sql_result" where
  "social_timeline dbs now viewer pg exclude_direct =
     (let followed = feed_candidate_ids dbs now (Following viewer exclude_direct) pg in
      rbind (limit_rows (fp_limit pg) (newest_first (map p_id
          (filter (\<lambda>p. in_page pg p \<and> social_local_member (dbs 5) viewer exclude_direct p) (t_posts (dbs 5)))))) (\<lambda>local_ids.
      Inr (fetch_feed_posts (dbs 6)
        (take (nat (max (fp_limit pg) 0)) (remdups_adj (newest_first (followed @ local_ids)))))))"

section \<open>Profiles\<close>

record profile_feed_filter =
  pf_kinds :: "string list option"
  pf_media :: "string list option"

definition has_ref :: "reference_kind \<Rightarrow> posts_row \<Rightarrow> bool" where
  "has_ref k p \<longleftrightarrow> ref_of k p \<noteq> None \<or> ref_ap_uri (p_refs p k) \<noteq> None"

definition refers_to_viewer :: "post_db \<Rightarrow> actor_id option \<Rightarrow> reference_kind \<Rightarrow> posts_row \<Rightarrow> bool" where
  "refers_to_viewer db viewer k p \<longleftrightarrow>
     list_ex (\<lambda>t. ref_of k p = Some (p_id t) \<and> is_viewer viewer (p_actor_id t)) (t_posts db)"

definition attachment_mime :: "post_db \<Rightarrow> attachment_row \<Rightarrow> string option" where
  "attachment_mime db pa =
     coalesce (Option.bind (att_media_file_id pa) (\<lambda>m. map_option mf_mime_type (find (\<lambda>mf. mf_id mf = m) (t_media_files db))))
       (att_remote_mime_type pa)"

definition has_media :: "post_db \<Rightarrow> string \<Rightarrow> posts_row \<Rightarrow> bool" where
  "has_media db kind p \<longleftrightarrow>
     list_ex (\<lambda>pa. Some (att_post_id pa) = coalesce (ref_of Repost_Ref p) (Some (p_id p))
       \<and> (case attachment_mime db pa of None \<Rightarrow> False | Some m \<Rightarrow> take (length kind) m = kind)) (t_post_attachments db)"

definition profile_feed_filter_sql :: "post_db \<Rightarrow> actor_id option \<Rightarrow> profile_feed_filter \<Rightarrow> posts_row \<Rightarrow> bool" where
  "profile_feed_filter_sql db viewer f p \<longleftrightarrow>
     (case pf_kinds f of None \<Rightarrow> True | Some kinds \<Rightarrow>
        ''normal'' \<in> set kinds \<and> \<not> has_ref Reply_Ref p \<and> \<not> has_ref Quote_Ref p \<and> \<not> has_ref Repost_Ref p
        \<or> ''reply'' \<in> set kinds \<and> has_ref Reply_Ref p
        \<or> ''reply_to_me'' \<in> set kinds \<and> viewer \<noteq> None \<and> refers_to_viewer db viewer Reply_Ref p
        \<or> ''quote'' \<in> set kinds \<and> has_ref Quote_Ref p
        \<or> ''quote_of_mine'' \<in> set kinds \<and> viewer \<noteq> None \<and> refers_to_viewer db viewer Quote_Ref p
        \<or> ''repost'' \<in> set kinds \<and> has_ref Repost_Ref p
        \<or> ''repost_of_mine'' \<in> set kinds \<and> viewer \<noteq> None \<and> refers_to_viewer db viewer Repost_Ref p)
     \<and> (case pf_media f of None \<Rightarrow> True | Some media \<Rightarrow>
        (''none'' \<notin> set media
          \<or> \<not> list_ex (\<lambda>pa. Some (att_post_id pa) = coalesce (ref_of Repost_Ref p) (Some (p_id p))) (t_post_attachments db))
        \<and> (''image'' \<notin> set media \<or> has_media db ''image/'' p)
        \<and> (''video'' \<notin> set media \<or> has_media db ''video/'' p)
        \<and> (''audio'' \<notin> set media \<or> has_media db ''audio/'' p))"

definition timeline_by_actor_filtered ::
  "post_db \<Rightarrow> actor_id \<Rightarrow> actor_id option \<Rightarrow> feed_page \<Rightarrow> bool \<Rightarrow> profile_feed_filter \<Rightarrow> timeline_post list sql_result" where
  "timeline_by_actor_filtered db actor viewer pg exclude_direct f =
     select_page db (fp_limit pg) (\<lambda>p. p_actor_id p = actor \<and> live p \<and> in_page pg p \<and> not_hidden db viewer actor
       \<and> post_is_visible_to db viewer (p_actor_id p) (p_visibility p) (p_id p) exclude_direct \<and> profile_feed_filter_sql db viewer f p)"

definition timeline_by_actor ::
  "post_db \<Rightarrow> actor_id \<Rightarrow> actor_id option \<Rightarrow> feed_page \<Rightarrow> bool \<Rightarrow> timeline_post list sql_result" where
  "timeline_by_actor db actor viewer pg exclude_direct =
     timeline_by_actor_filtered db actor viewer pg exclude_direct \<lparr>pf_kinds = None, pf_media = None\<rparr>"

definition mentions_timeline :: "post_db \<Rightarrow> actor_id \<Rightarrow> bool \<Rightarrow> feed_page \<Rightarrow> timeline_post list sql_result" where
  "mentions_timeline db actor specified_only pg =
     select_page db (fp_limit pg) (\<lambda>p. live p \<and> p_actor_id p \<noteq> actor \<and> in_page pg p
       \<and> (p_visibility p = Direct \<and> (p_id p, actor) \<in> set (t_post_recipients db)
          \<or> \<not> specified_only \<and> list_ex (\<lambda>n. n_note_id n = Some (p_id p) \<and> n_recipient_actor_id n = actor
              \<and> n_type n \<in> {''mention'', ''reply''}) (t_notifications db)))"

record post_summary =
  ps_id :: post_id
  ps_body :: string
  ps_created_at :: int

definition recent_by_actor :: "post_db \<Rightarrow> actor_id \<Rightarrow> int \<Rightarrow> post_summary list sql_result" where
  "recent_by_actor db actor limit = limit_rows limit
     (map (\<lambda>p. \<lparr>ps_id = p_id p, ps_body = p_body p, ps_created_at = p_created_at p\<rparr>)
       (newest_rows (filter (\<lambda>p. p_actor_id p = actor \<and> live p) (t_posts db))))"

section \<open>Around a post\<close>

definition shown_to :: "post_db \<Rightarrow> actor_id option \<Rightarrow> posts_row \<Rightarrow> bool" where
  "shown_to db viewer p \<longleftrightarrow> live p \<and> not_hidden db viewer (p_actor_id p)
     \<and> post_is_visible_to db viewer (p_actor_id p) (p_visibility p) (p_id p) False"

definition context_before :: "post_db \<Rightarrow> actor_id \<Rightarrow> post_id \<Rightarrow> int \<Rightarrow> actor_id option \<Rightarrow> timeline_post list sql_result" where
  "context_before db actor note limit viewer =
     select_page db limit (\<lambda>p. p_actor_id p = actor \<and> p_id p < note \<and> shown_to db viewer p)"

definition context_after :: "post_db \<Rightarrow> actor_id \<Rightarrow> post_id \<Rightarrow> int \<Rightarrow> actor_id option \<Rightarrow> timeline_post list sql_result" where
  "context_after db actor note limit viewer =
     limit_rows limit (timeline_post_joins db (sort_key p_id
       (filter (\<lambda>p. p_actor_id p = actor \<and> p_id p > note \<and> shown_to db viewer p) (t_posts db))))"

text \<open>
  The recursive query: \<open>UNION ALL\<close> keeps one row for every parent that is answered or quoted. The rows of one
  depth are the working table of the next; a result is sorted by depth and identifier.
\<close>

definition MAX_DEPTH :: nat where "MAX_DEPTH = 20"

definition answers :: "posts_row \<Rightarrow> post_id \<Rightarrow> bool" where
  "answers p i \<longleftrightarrow> ref_of Reply_Ref p = Some i \<or> ref_of Quote_Ref p = Some i"

definition next_descendants :: "post_db \<Rightarrow> actor_id option \<Rightarrow> post_id list \<Rightarrow> posts_row list" where
  "next_descendants db viewer parents =
     concat (map (\<lambda>i. filter (\<lambda>p. answers p i \<and> shown_to db viewer p) (t_posts db)) parents)"

function descendants :: "post_db \<Rightarrow> actor_id option \<Rightarrow> nat \<Rightarrow> posts_row list \<Rightarrow> posts_row list" where
  "descendants db viewer depth rows = sort_key p_id rows @
     (if depth < MAX_DEPTH then descendants db viewer (depth + 1) (next_descendants db viewer (map p_id rows)) else [])"
  by pat_completeness auto
termination
  by (relation "measure (\<lambda>(_, _, depth, _). MAX_DEPTH - depth)") auto

declare descendants.simps [simp del]

definition thread_descendants :: "post_db \<Rightarrow> post_id \<Rightarrow> int \<Rightarrow> actor_id option \<Rightarrow> timeline_post list sql_result" where
  "thread_descendants db note limit viewer =
     limit_rows limit (timeline_post_joins db (descendants db viewer 1 (next_descendants db viewer [note])))"

end
