(* ===== verification/Lists.thy ===== *)
theory Lists
  imports Timelines Numbers
begin

text \<open>
  Lists of accounts: the tables of \<open>crates/seiran-common/src/repository/list.rs\<close>, the handlers of
  \<open>crates/seiran-api/src/handlers/lists.rs\<close> with the records a public list has in its owner's repository, and the
  job \<open>jobs/proxy_follow_sync.rs\<close> by which the relay account follows the members of lists on other servers.

  Commits to the repository may fail, statements of the database do not. Trimming and counting of characters, the
  resolution of names, the identifiers and keys that are generated and the limits of a role are parameters;
  the \<open>n\<close>th call of the outside world gets the \<open>n\<close>th answer. A handler is modelled from its first statement to its last;
  two handlers that run at the same time are not interleaved.
\<close>

section \<open>Tables and the world around them\<close>

record list_row =
  l_id :: int
  l_owner_actor_id :: actor_id
  l_name :: string
  l_is_public :: bool
  l_at_rkey :: "string option"
  l_at_uri :: "string option"
  l_at_cid :: "string option"
  l_created_at :: int

record list_member_row =
  lm_list_id :: int
  lm_actor_id :: actor_id
  lm_added_at :: int
  lm_at_rkey :: "string option"
  lm_at_uri :: "string option"

datatype graph_record = Graph_List string | Graph_Listitem string string

text \<open>The repositories: owner, key and record.\<close>

record list_world =
  lw_lists :: "list_row list"
  lw_members :: "list_member_row list"
  lw_actors :: "actor_row list"
  lw_records :: "(actor_id \<times> string \<times> graph_record) list"
  lw_proxy_jobs :: "(actor_id \<times> bool) list"
  lw_touched :: nat
  lw_calls :: nat

record list_env =
  le_trim :: "string \<Rightarrow> string"
  le_chars :: "string \<Rightarrow> nat"
  le_new_id :: "nat \<Rightarrow> int"
  le_now :: "nat \<Rightarrow> int"
  le_rkey :: "nat \<Rightarrow> string"
  le_cid :: "nat \<Rightarrow> string"
  le_commit_ok :: "nat \<Rightarrow> bool"
  le_did :: "actor_id \<Rightarrow> string"
  le_list_max :: "actor_id \<Rightarrow> int option"
  le_member_max :: "actor_id \<Rightarrow> int option"
  le_resolve :: "string \<Rightarrow> nat \<Rightarrow> actor_row option"

datatype list_error = Did_Moved_Out | Bad_Id | Bad_Name | Bad_Target | List_Limit_Exceeded | Member_Limit_Exceeded
  | List_Not_Owned | List_Not_Found | Member_Not_Found | Actor_Not_Found | List_Internal

record list_user =
  lu_actor_id :: actor_id
  lu_did_moved_out :: bool

abbreviation tick :: "list_world \<Rightarrow> list_world" where
  "tick w \<equiv> w\<lparr>lw_calls := lw_calls w + 1\<rparr>"

section \<open>The repository of lists\<close>

definition is_member :: "int \<Rightarrow> actor_id \<Rightarrow> list_member_row \<Rightarrow> bool" where
  "is_member i a m \<longleftrightarrow> lm_list_id m = i \<and> lm_actor_id m = a"

definition find_list :: "list_world \<Rightarrow> int \<Rightarrow> list_row option" where
  "find_list w i = find (\<lambda>l. l_id l = i) (lw_lists w)"

definition find_list_actor :: "list_world \<Rightarrow> actor_id \<Rightarrow> actor_row option" where
  "find_list_actor w a = find (\<lambda>r. a_id r = a) (lw_actors w)"

definition list_by_owner :: "list_world \<Rightarrow> actor_id \<Rightarrow> list_row list" where
  "list_by_owner w owner = sort_key l_created_at (filter (\<lambda>l. l_owner_actor_id l = owner) (lw_lists w))"

definition list_public_by_owner :: "list_world \<Rightarrow> actor_id \<Rightarrow> list_row list" where
  "list_public_by_owner w owner = sort_key l_created_at (filter (\<lambda>l. l_owner_actor_id l = owner \<and> l_is_public l) (lw_lists w))"

definition count_by_owner :: "list_world \<Rightarrow> actor_id \<Rightarrow> int" where
  "count_by_owner w owner = int (length (filter (\<lambda>l. l_owner_actor_id l = owner) (lw_lists w)))"

definition lists_create :: "int \<Rightarrow> actor_id \<Rightarrow> string \<Rightarrow> bool \<Rightarrow> int \<Rightarrow> list_world \<Rightarrow> list_world option" where
  "lists_create i owner name public now w =
     (if find_list w i \<noteq> None then None
      else Some (w\<lparr>lw_lists := lw_lists w @ [\<lparr>l_id = i, l_owner_actor_id = owner, l_name = name, l_is_public = public,
        l_at_rkey = None, l_at_uri = None, l_at_cid = None, l_created_at = now\<rparr>]\<rparr>))"

definition lists_update :: "int \<Rightarrow> actor_id \<Rightarrow> string \<Rightarrow> bool \<Rightarrow> list_world \<Rightarrow> nat \<times> list_world" where
  "lists_update i owner name public w =
     (length (filter (\<lambda>l. l_id l = i \<and> l_owner_actor_id l = owner) (lw_lists w)),
      w\<lparr>lw_lists := map (\<lambda>l. if l_id l = i \<and> l_owner_actor_id l = owner then l\<lparr>l_name := name, l_is_public := public\<rparr> else l) (lw_lists w)\<rparr>)"

text \<open>The members go with their list.\<close>

definition lists_delete :: "int \<Rightarrow> actor_id \<Rightarrow> list_world \<Rightarrow> nat \<times> list_world" where
  "lists_delete i owner w =
     (let gone = filter (\<lambda>l. l_id l = i \<and> l_owner_actor_id l = owner) (lw_lists w) in
      (length gone, w\<lparr>lw_lists := filter (\<lambda>l. \<not> (l_id l = i \<and> l_owner_actor_id l = owner)) (lw_lists w),
         lw_members := (if gone = [] then lw_members w else filter (\<lambda>m. lm_list_id m \<noteq> i) (lw_members w))\<rparr>))"

definition lists_add_member :: "int \<Rightarrow> actor_id \<Rightarrow> int \<Rightarrow> list_world \<Rightarrow> list_world" where
  "lists_add_member i a now w =
     (if list_ex (is_member i a) (lw_members w) then w
      else w\<lparr>lw_members := lw_members w @ [\<lparr>lm_list_id = i, lm_actor_id = a, lm_added_at = now, lm_at_rkey = None, lm_at_uri = None\<rparr>]\<rparr>)"

definition lists_remove_member :: "int \<Rightarrow> actor_id \<Rightarrow> list_world \<Rightarrow> bool \<times> list_world" where
  "lists_remove_member i a w =
     (list_ex (is_member i a) (lw_members w), w\<lparr>lw_members := filter (\<lambda>m. \<not> is_member i a m) (lw_members w)\<rparr>)"

text \<open>The members in the order they were added, the last first, without accounts that have left.\<close>

definition lists_members :: "list_world \<Rightarrow> int \<Rightarrow> (list_member_row \<times> actor_row) list" where
  "lists_members w i = rev (sort_key (\<lambda>(m, _). lm_added_at m) (List.map_filter (\<lambda>m.
     if lm_list_id m = i then (case find_list_actor w (lm_actor_id m) of
         None \<Rightarrow> None | Some a \<Rightarrow> if a_withdrawn_at a = None then Some (m, a) else None) else None) (lw_members w)))"

definition member_count :: "list_world \<Rightarrow> int \<Rightarrow> int" where
  "member_count w i = int (length (filter (\<lambda>m. lm_list_id m = i) (lw_members w)))"

definition actor_referenced_by_any_list :: "list_world \<Rightarrow> actor_id \<Rightarrow> bool" where
  "actor_referenced_by_any_list w a \<longleftrightarrow> list_ex (\<lambda>m. lm_actor_id m = a) (lw_members w)"

definition list_ids_containing_actor :: "list_world \<Rightarrow> actor_id \<Rightarrow> int list" where
  "list_ids_containing_actor w a = map lm_list_id (filter (\<lambda>m. lm_actor_id m = a) (lw_members w))"

definition change_list :: "int \<Rightarrow> (list_row \<Rightarrow> list_row) \<Rightarrow> list_world \<Rightarrow> list_world" where
  "change_list i f w = w\<lparr>lw_lists := map (\<lambda>l. if l_id l = i then f l else l) (lw_lists w)\<rparr>"

definition change_member :: "int \<Rightarrow> actor_id \<Rightarrow> (list_member_row \<Rightarrow> list_member_row) \<Rightarrow> list_world \<Rightarrow> list_world" where
  "change_member i a f w = w\<lparr>lw_members := map (\<lambda>m. if is_member i a m then f m else m) (lw_members w)\<rparr>"

definition set_atp_list_record :: "int \<Rightarrow> string \<Rightarrow> string \<Rightarrow> string \<Rightarrow> list_world \<Rightarrow> list_world" where
  "set_atp_list_record i rkey uri cid = change_list i (\<lambda>l. l\<lparr>l_at_rkey := Some rkey, l_at_uri := Some uri, l_at_cid := Some cid\<rparr>)"

definition clear_atp_list_record :: "int \<Rightarrow> list_world \<Rightarrow> list_world" where
  "clear_atp_list_record i = change_list i (\<lambda>l. l\<lparr>l_at_rkey := None, l_at_uri := None, l_at_cid := None\<rparr>)"

definition set_member_atp_record :: "int \<Rightarrow> actor_id \<Rightarrow> string \<Rightarrow> string \<Rightarrow> list_world \<Rightarrow> list_world" where
  "set_member_atp_record i a rkey uri = change_member i a (\<lambda>m. m\<lparr>lm_at_rkey := Some rkey, lm_at_uri := Some uri\<rparr>)"

definition clear_member_atp_record :: "int \<Rightarrow> actor_id \<Rightarrow> list_world \<Rightarrow> list_world" where
  "clear_member_atp_record i a = change_member i a (\<lambda>m. m\<lparr>lm_at_rkey := None, lm_at_uri := None\<rparr>)"

definition find_member_atp_rkey :: "list_world \<Rightarrow> int \<Rightarrow> actor_id \<Rightarrow> string option" where
  "find_member_atp_rkey w i a = Option.bind (find (is_member i a) (lw_members w)) lm_at_rkey"

definition members_with_atp_record :: "list_world \<Rightarrow> int \<Rightarrow> (actor_id \<times> string) list" where
  "members_with_atp_record w i = List.map_filter (\<lambda>m. if lm_list_id m = i then map_option (Pair (lm_actor_id m)) (lm_at_rkey m) else None) (lw_members w)"

section \<open>The owner's repository\<close>

definition commit_graph_list :: "list_env \<Rightarrow> actor_id \<Rightarrow> string \<Rightarrow> list_world \<Rightarrow> (string \<times> string \<times> string) option \<times> list_world" where
  "commit_graph_list E owner name w =
     (let n = lw_calls w; rkey = le_rkey E n in
      if le_commit_ok E n
      then (Some (rkey, ''at://'' @ le_did E owner @ ''/app.bsky.graph.list/'' @ rkey, le_cid E n),
            tick (w\<lparr>lw_records := lw_records w @ [(owner, rkey, Graph_List name)]\<rparr>))
      else (None, tick w))"

definition commit_graph_listitem :: "list_env \<Rightarrow> actor_id \<Rightarrow> string \<Rightarrow> string \<Rightarrow> list_world \<Rightarrow> (string \<times> string) option \<times> list_world" where
  "commit_graph_listitem E owner list_uri subject w =
     (let n = lw_calls w; rkey = le_rkey E n in
      if le_commit_ok E n
      then (Some (rkey, ''at://'' @ le_did E owner @ ''/app.bsky.graph.listitem/'' @ rkey),
            tick (w\<lparr>lw_records := lw_records w @ [(owner, rkey, Graph_Listitem list_uri subject)]\<rparr>))
      else (None, tick w))"

fun is_graph_list :: "graph_record \<Rightarrow> bool" where
  "is_graph_list (Graph_List _) = True"
| "is_graph_list (Graph_Listitem _ _) = False"

definition delete_graph_record :: "list_env \<Rightarrow> bool \<Rightarrow> actor_id \<Rightarrow> string \<Rightarrow> list_world \<Rightarrow> list_world" where
  "delete_graph_record E a_list owner rkey w =
     (if le_commit_ok E (lw_calls w)
      then tick (w\<lparr>lw_records := filter (\<lambda>(o', k, r). \<not> (o' = owner \<and> k = rkey \<and> is_graph_list r = a_list)) (lw_records w)\<rparr>)
      else tick w)"

abbreviation delete_atp_graph_list :: "list_env \<Rightarrow> actor_id \<Rightarrow> string \<Rightarrow> list_world \<Rightarrow> list_world" where
  "delete_atp_graph_list E \<equiv> delete_graph_record E True"

abbreviation delete_atp_graph_listitem :: "list_env \<Rightarrow> actor_id \<Rightarrow> string \<Rightarrow> list_world \<Rightarrow> list_world" where
  "delete_atp_graph_listitem E \<equiv> delete_graph_record E False"

definition publish_list_to_atp :: "list_env \<Rightarrow> int \<Rightarrow> actor_id \<Rightarrow> string \<Rightarrow> list_world \<Rightarrow> list_world" where
  "publish_list_to_atp E i owner name w = (case commit_graph_list E owner name w of
       (Some (rkey, uri, cid), w1) \<Rightarrow> set_atp_list_record i rkey uri cid w1
     | (None, w1) \<Rightarrow> w1)"

definition maybe_publish_listitem :: "list_env \<Rightarrow> int \<Rightarrow> string option \<Rightarrow> actor_id \<Rightarrow> actor_row \<Rightarrow> list_world \<Rightarrow> list_world" where
  "maybe_publish_listitem E i list_at_uri owner target w = (case (list_at_uri, a_at_did target) of
       (Some list_uri, Some subject) \<Rightarrow>
         if a_actor_type target = ''fedi'' then w
         else (case commit_graph_listitem E owner list_uri subject w of
             (Some (rkey, uri), w1) \<Rightarrow> set_member_atp_record i (a_id target) rkey uri w1
           | (None, w1) \<Rightarrow> w1)
     | _ \<Rightarrow> w)"

definition unpublish_list_from_atp :: "list_env \<Rightarrow> int \<Rightarrow> actor_id \<Rightarrow> string option \<Rightarrow> list_world \<Rightarrow> list_world" where
  "unpublish_list_from_atp E i owner list_at_rkey w =
     (let w1 = fold (\<lambda>(a, rkey) w. clear_member_atp_record i a (delete_atp_graph_listitem E owner rkey w)) (members_with_atp_record w i) w;
          w2 = (case list_at_rkey of Some rkey \<Rightarrow> delete_atp_graph_list E owner rkey w1 | None \<Rightarrow> w1)
      in clear_atp_list_record i w2)"

section \<open>The relay account\<close>

definition enqueue_proxy_follow_sync :: "actor_id \<Rightarrow> bool \<Rightarrow> list_world \<Rightarrow> list_world" where
  "enqueue_proxy_follow_sync a want w = w\<lparr>lw_proxy_jobs := lw_proxy_jobs w @ [(a, want)]\<rparr>"

definition maybe_unfollow_if_unreferenced :: "actor_id \<Rightarrow> list_world \<Rightarrow> list_world" where
  "maybe_unfollow_if_unreferenced a w = (case find_list_actor w a of
       None \<Rightarrow> w
     | Some r \<Rightarrow> if a_actor_type r \<noteq> ''fedi'' then w
         else if actor_referenced_by_any_list w a then w
         else enqueue_proxy_follow_sync a False w)"

section \<open>Handlers\<close>

type_synonym 'a list_result = "(list_error + 'a) \<times> list_world"

definition valid_name :: "list_env \<Rightarrow> string \<Rightarrow> bool" where
  "valid_name E name \<longleftrightarrow> le_trim E name \<noteq> [] \<and> le_chars E (le_trim E name) \<le> 100"

definition create_list :: "list_env \<Rightarrow> list_user \<Rightarrow> string \<Rightarrow> bool \<Rightarrow> list_world \<Rightarrow> list_row list_result" where
  "create_list E user name public w =
     (let me = lu_actor_id user; name = le_trim E name in
      if lu_did_moved_out user then (Inl Did_Moved_Out, w)
      else if name = [] \<or> le_chars E name > 100 then (Inl Bad_Name, w)
      else if (case le_list_max E me of Some m \<Rightarrow> count_by_owner w me \<ge> m | None \<Rightarrow> False) then (Inl List_Limit_Exceeded, w)
      else let n = lw_calls w; i = le_new_id E n in
        case lists_create i me name public (le_now E n) (tick w) of
          None \<Rightarrow> (Inl List_Internal, tick w)
        | Some w1 \<Rightarrow>
            let w2 = (if public then publish_list_to_atp E i me name w1 else w1)
            in (case find_list w2 i of Some row \<Rightarrow> (Inr row, w2) | None \<Rightarrow> (Inl List_Internal, w2)))"

text \<open>The list of its owner, by the identifier in the path.\<close>

definition owned_list :: "list_user \<Rightarrow> string \<Rightarrow> list_world \<Rightarrow> list_error + list_row" where
  "owned_list user i w = (case parse_i64 i of
       None \<Rightarrow> Inl Bad_Id
     | Some i \<Rightarrow> (case find_list w i of
         None \<Rightarrow> Inl List_Not_Found
       | Some l \<Rightarrow> if l_owner_actor_id l = lu_actor_id user then Inr l else Inl List_Not_Owned))"

definition publish_members :: "list_env \<Rightarrow> list_row \<Rightarrow> actor_id \<Rightarrow> list_world \<Rightarrow> list_world" where
  "publish_members E l owner w =
     fold (\<lambda>(m, _) w. case find_list_actor w (lm_actor_id m) of
         Some actor \<Rightarrow> maybe_publish_listitem E (l_id l) (l_at_uri l) owner actor w
       | None \<Rightarrow> w) (lists_members w (l_id l)) w"

definition update_list :: "list_env \<Rightarrow> list_user \<Rightarrow> string \<Rightarrow> string \<Rightarrow> bool \<Rightarrow> list_world \<Rightarrow> list_row list_result" where
  "update_list E user i name public w =
     (let me = lu_actor_id user; name = le_trim E name in
      if lu_did_moved_out user then (Inl Did_Moved_Out, w)
      else if parse_i64 i = None then (Inl Bad_Id, w)
      else if name = [] \<or> le_chars E name > 100 then (Inl Bad_Name, w)
      else case owned_list user i w of
        Inl e \<Rightarrow> (Inl e, w)
      | Inr before \<Rightarrow>
          (case lists_update (l_id before) me name public w of (changed, w1) \<Rightarrow>
            if changed = 0 then (Inl List_Not_Found, w1)
            else let w2 = (if \<not> l_is_public before \<and> public
                then (let wp = publish_list_to_atp E (l_id before) me name w1 in
                      case find_list wp (l_id before) of Some l \<Rightarrow> publish_members E l me wp | None \<Rightarrow> wp)
                else if l_is_public before \<and> \<not> public
                then unpublish_list_from_atp E (l_id before) me (l_at_rkey before) w1
                else w1)
              in (case find_list w2 (l_id before) of Some row \<Rightarrow> (Inr row, w2) | None \<Rightarrow> (Inl List_Internal, w2))))"

definition delete_list :: "list_env \<Rightarrow> list_user \<Rightarrow> string \<Rightarrow> list_world \<Rightarrow> unit list_result" where
  "delete_list E user i w =
     (let me = lu_actor_id user in
      if lu_did_moved_out user then (Inl Did_Moved_Out, w)
      else case parse_i64 i of
        None \<Rightarrow> (Inl Bad_Id, w)
      | Some i \<Rightarrow>
          let before = find_list w i;
              fedi_member_ids = map (\<lambda>(m, _). lm_actor_id m) (filter (\<lambda>(_, a). a_actor_type a = ''fedi'') (lists_members w i));
              member_atp_records = members_with_atp_record w i
          in (case lists_delete i me w of (deleted, w1) \<Rightarrow>
              if deleted = 0 then (Inl List_Not_Found, w1)
              else let w2 = w1\<lparr>lw_touched := lw_touched w1 + 1\<rparr>;
                       w3 = fold maybe_unfollow_if_unreferenced fedi_member_ids w2;
                       w4 = (case before of
                           Some b \<Rightarrow> if l_is_public b
                             then (let wi = fold (\<lambda>(_, rkey). delete_atp_graph_listitem E me rkey) member_atp_records w3
                                   in case l_at_rkey b of Some rkey \<Rightarrow> delete_atp_graph_list E me rkey wi | None \<Rightarrow> wi)
                             else w3
                         | None \<Rightarrow> w3)
                   in (Inr (), w4)))"

record add_member_request =
  amr_target :: "string option"
  amr_actor_id :: "string option"

definition resolve_add_member_target :: "list_env \<Rightarrow> add_member_request \<Rightarrow> list_world \<Rightarrow> actor_row list_result" where
  "resolve_add_member_target E req w = (case amr_actor_id req of
       Some raw \<Rightarrow> (case parse_i64 raw of
           None \<Rightarrow> (Inl Bad_Id, w)
         | Some a \<Rightarrow> (case find_list_actor w a of Some r \<Rightarrow> (Inr r, w) | None \<Rightarrow> (Inl Actor_Not_Found, w)))
     | None \<Rightarrow> (case amr_target req of
           None \<Rightarrow> (Inl Bad_Target, w)
         | Some target \<Rightarrow> (case le_resolve E target (lw_calls w) of
             None \<Rightarrow> (Inl Bad_Target, tick w)
           | Some r \<Rightarrow> (case find_list_actor w (a_id r) of
               Some known \<Rightarrow> (Inr known, tick w)
             | None \<Rightarrow> (Inr r, tick (w\<lparr>lw_actors := lw_actors w @ [r]\<rparr>))))))"

definition add_member :: "list_env \<Rightarrow> list_user \<Rightarrow> string \<Rightarrow> add_member_request \<Rightarrow> list_world \<Rightarrow> (list_member_row \<times> actor_row) list list_result" where
  "add_member E user i req w =
     (let me = lu_actor_id user in
      if lu_did_moved_out user then (Inl Did_Moved_Out, w)
      else case owned_list user i w of
        Inl e \<Rightarrow> (Inl e, w)
      | Inr l \<Rightarrow>
          if (case le_member_max E me of Some m \<Rightarrow> member_count w (l_id l) \<ge> m | None \<Rightarrow> False) then (Inl Member_Limit_Exceeded, w)
          else (case resolve_add_member_target E req w of
            (Inl e, w1) \<Rightarrow> (Inl e, w1)
          | (Inr target, w1) \<Rightarrow>
              let was_referenced = actor_referenced_by_any_list w1 (a_id target);
                  w2 = lists_add_member (l_id l) (a_id target) (le_now E (lw_calls w1)) w1;
                  w3 = (if a_actor_type target = ''fedi'' \<and> \<not> was_referenced then enqueue_proxy_follow_sync (a_id target) True w2 else w2);
                  w4 = (if a_actor_type target \<in> {''bsky'', ''remote_seiran''} then w3\<lparr>lw_touched := lw_touched w3 + 1\<rparr> else w3);
                  w5 = (if l_is_public l then maybe_publish_listitem E (l_id l) (l_at_uri l) me target w4 else w4)
              in (Inr (lists_members w5 (l_id l)), w5)))"

definition remove_member :: "list_env \<Rightarrow> list_user \<Rightarrow> string \<Rightarrow> string \<Rightarrow> list_world \<Rightarrow> unit list_result" where
  "remove_member E user i a w =
     (if lu_did_moved_out user then (Inl Did_Moved_Out, w)
      else if parse_i64 i = None then (Inl Bad_Id, w)
      else case parse_i64 a of
        None \<Rightarrow> (Inl Bad_Id, w)
      | Some a \<Rightarrow> (case owned_list user i w of
          Inl e \<Rightarrow> (Inl e, w)
        | Inr l \<Rightarrow>
            let atp_rkey = find_member_atp_rkey w (l_id l) a in
            (case lists_remove_member (l_id l) a w of (removed, w1) \<Rightarrow>
              if \<not> removed then (Inl Member_Not_Found, w1)
              else let w2 = maybe_unfollow_if_unreferenced a w1;
                       w3 = w2\<lparr>lw_touched := lw_touched w2 + 1\<rparr>
                   in (Inr (), case atp_rkey of Some rkey \<Rightarrow> delete_atp_graph_listitem E (lu_actor_id user) rkey w3 | None \<Rightarrow> w3))))"

text \<open>A list is shown to its owner, a public one to everybody.\<close>

definition readable_list :: "actor_id option \<Rightarrow> string \<Rightarrow> list_world \<Rightarrow> list_error + list_row" where
  "readable_list viewer i w = (case parse_i64 i of
       None \<Rightarrow> Inl Bad_Id
     | Some i \<Rightarrow> (case find_list w i of
         None \<Rightarrow> Inl List_Not_Found
       | Some l \<Rightarrow> if \<not> l_is_public l \<and> viewer \<noteq> Some (l_owner_actor_id l) then Inl List_Not_Found else Inr l))"

definition get_list :: "actor_id option \<Rightarrow> string \<Rightarrow> list_world \<Rightarrow> list_error + list_row \<times> (list_member_row \<times> actor_row) list \<times> bool" where
  "get_list viewer i w = rbind (readable_list viewer i w) (\<lambda>l. Inr (l,
     filter (\<lambda>(_, a). viewer \<noteq> None \<or> a_actor_type a = ''local'') (lists_members w (l_id l)), viewer = Some (l_owner_actor_id l)))"

definition list_membership :: "list_user \<Rightarrow> string \<Rightarrow> list_world \<Rightarrow> list_error + (list_row \<times> bool) list" where
  "list_membership user a w = (case parse_i64 a of
       None \<Rightarrow> Inl Bad_Id
     | Some a \<Rightarrow> Inr (map (\<lambda>l. (l, l_id l \<in> set (list_ids_containing_actor w a))) (list_by_owner w (lu_actor_id user))))"

record timeline_query =
  tq_limit :: "int option"
  tq_until_id :: "string option"
  tq_since_id :: "string option"
  tq_exclude_direct :: bool

definition handle_list_timeline ::
  "(nat \<Rightarrow> post_db) \<Rightarrow> int \<Rightarrow> timeline_query \<Rightarrow> actor_id option \<Rightarrow> string \<Rightarrow> list_world \<Rightarrow> list_error + timeline_post list" where
  "handle_list_timeline dbs now q viewer i w = rbind (readable_list viewer i w) (\<lambda>l.
     Inr (list_timeline dbs now (l_id l)
       \<lparr>fp_limit = min (case tq_limit q of Some n \<Rightarrow> n | None \<Rightarrow> 30) 100, fp_until_id = Option.bind (tq_until_id q) parse_i64,
        fp_since_id = Option.bind (tq_since_id q) parse_i64\<rparr>))"

section \<open>The job\<close>

text \<open>
  \<open>proxy_follow_sync::handle\<close> for an account on another server with its address and inbox: the rows of the relay account,
  the activities it sent (\<open>True\<close> a Follow, \<open>False\<close> its Undo) and whether sending succeeds.
\<close>

record relay =
  rl_follows :: "actor_id list"
  rl_sent :: "(actor_id \<times> bool) list"

definition proxy_follow_sync :: "actor_id \<Rightarrow> bool \<Rightarrow> bool \<Rightarrow> relay \<Rightarrow> bool \<times> relay" where
  "proxy_follow_sync a want sends r =
     (if want then
        if a \<in> set (rl_follows r) then (True, r)
        else if \<not> sends then (False, r)
        else (True, r\<lparr>rl_follows := rl_follows r @ [a], rl_sent := rl_sent r @ [(a, True)]\<rparr>)
      else
        if a \<notin> set (rl_follows r) then (True, r)
        else if \<not> sends then (False, r)
        else (True, r\<lparr>rl_follows := removeAll a (rl_follows r), rl_sent := rl_sent r @ [(a, False)]\<rparr>))"

end
