(* ===== verification/List_Keys.thy ===== *)
theory List_Keys
  imports Lists Post_History
begin

text \<open>
  Which key is stored by which row of the lists and members, and which record of whose repository it names; how the
  statements of the lists change that.
\<close>

section \<open>Keys and records\<close>

text \<open>Who stores a key, and which record of whose repository it names.\<close>

datatype holder = Of_List int | Of_Member int actor_id

fun list_of :: "holder \<Rightarrow> int" where
  "list_of (Of_List i) = i"
| "list_of (Of_Member i a) = i"

type_synonym graph_ref = "actor_id \<times> string \<times> bool"

definition record_ref :: "actor_id \<times> string \<times> graph_record \<Rightarrow> graph_ref" where
  "record_ref r = (fst r, fst (snd r), is_graph_list (snd (snd r)))"

definition record_refs :: "list_world \<Rightarrow> graph_ref set" where
  "record_refs w = record_ref ` set (lw_records w)"

definition list_refs :: "list_row \<Rightarrow> (holder \<times> graph_ref) set" where
  "list_refs l = (case l_at_rkey l of None \<Rightarrow> {} | Some k \<Rightarrow> {(Of_List (l_id l), l_owner_actor_id l, k, True)})"

definition member_refs :: "list_row \<Rightarrow> list_member_row \<Rightarrow> (holder \<times> graph_ref) set" where
  "member_refs l m = (if l_id l \<noteq> lm_list_id m then {} else
     (case lm_at_rkey m of None \<Rightarrow> {} | Some k \<Rightarrow> {(Of_Member (lm_list_id m) (lm_actor_id m), l_owner_actor_id l, k, False)}))"

definition stored :: "list_world \<Rightarrow> (holder \<times> graph_ref) set" where
  "stored w = (\<Union>l \<in> set (lw_lists w). list_refs l) \<union> (\<Union>m \<in> set (lw_members w). \<Union>l \<in> set (lw_lists w). member_refs l m)"

definition public_ids :: "list_world \<Rightarrow> int set" where
  "public_ids w = l_id ` {l \<in> set (lw_lists w). l_is_public l}"

definition member_pair :: "list_member_row \<Rightarrow> int \<times> actor_id" where
  "member_pair m = (lm_list_id m, lm_actor_id m)"

text \<open>The keys of the tables, and every member in a list.\<close>

definition rows_ok :: "list_world \<Rightarrow> bool" where
  "rows_ok w \<longleftrightarrow> distinct (map l_id (lw_lists w)) \<and> distinct (map member_pair (lw_members w))
     \<and> lm_list_id ` set (lw_members w) \<subseteq> l_id ` set (lw_lists w)"

definition generated :: "list_env \<Rightarrow> nat \<Rightarrow> string set" where
  "generated E c = le_rkey E ` {..<c}"

text \<open>The stored keys name records, no two rows the same; the keys of all records have been generated.\<close>

definition ref_key :: "graph_ref \<Rightarrow> string" where
  "ref_key r = fst (snd r)"

definition ledger :: "string set \<Rightarrow> graph_ref set \<Rightarrow> (holder \<times> graph_ref) set \<Rightarrow> bool" where
  "ledger G R S \<longleftrightarrow> ref_key ` R \<subseteq> G \<and> snd ` S \<subseteq> R
     \<and> (\<forall>x \<in> S. \<forall>y \<in> S. ref_key (snd x) = ref_key (snd y) \<longrightarrow> fst x = fst y)"

definition keys_ok :: "list_env \<Rightarrow> list_world \<Rightarrow> bool" where
  "keys_ok E w \<longleftrightarrow> ledger (generated E (lw_calls w)) (record_refs w) (stored w)"

definition private_ok :: "list_world \<Rightarrow> bool" where
  "private_ok w \<longleftrightarrow> list_of ` fst ` stored w \<subseteq> public_ids w"

section \<open>The rows under the operations\<close>

lemma generated_mono: "c \<le> c' \<Longrightarrow> generated E c \<subseteq> generated E c'"
  by (auto simp: generated_def)

lemma fresh_key: "inj (le_rkey E) \<Longrightarrow> le_rkey E c \<notin> generated E c"
  by (auto simp: generated_def inj_def)

lemma list_at:
  assumes "rows_ok w" "find_list w i = Some l" "l' \<in> set (lw_lists w)" "l_id l' = i"
  shows "l' = l"
proof -
  have "l \<in> set (lw_lists w)" "l_id l = i" using assms(2) by (auto simp: find_list_def find_Some_iff)
  then show ?thesis using assms(1,3,4) by (auto simp: rows_ok_def distinct_map dest: inj_onD)
qed

lemma find_list_in: "find_list w i = Some l \<Longrightarrow> l \<in> set (lw_lists w) \<and> l_id l = i"
  by (auto simp: find_list_def find_Some_iff)

lemma stored_lists_members: "lw_lists w' = lw_lists w \<Longrightarrow> lw_members w' = lw_members w \<Longrightarrow> stored w' = stored w"
  by (simp add: stored_def)

lemma holders_refs: "x \<in> list_refs l \<Longrightarrow> fst x = Of_List (l_id l)" "x \<in> member_refs l m \<Longrightarrow> fst x = Of_Member (lm_list_id m) (lm_actor_id m)"
  by (auto simp: list_refs_def member_refs_def split: option.splits if_splits)

definition held_by :: "holder \<Rightarrow> (holder \<times> graph_ref) set" where
  "held_by h = {x. fst x = h}"

lemma refs_of_others:
  "list_refs l - held_by (Of_Member i a) = list_refs l"
  "member_refs l m - held_by (Of_List i) = member_refs l m"
  "list_refs l - held_by (Of_List i) = (if l_id l = i then {} else list_refs l)"
  "member_refs l m - held_by (Of_Member i a) = (if is_member i a m then {} else member_refs l m)"
  by (auto simp: held_by_def is_member_def dest: holders_refs)

lemma stored_minus:
  "stored w - H = (\<Union>l \<in> set (lw_lists w). list_refs l - H) \<union> (\<Union>m \<in> set (lw_members w). \<Union>l \<in> set (lw_lists w). member_refs l m - H)"
  by (simp add: stored_def Un_Diff)

lemma stored_mapped:
  assumes "lw_lists w' = map f (lw_lists w)" "lw_members w' = map g (lw_members w)"
    "\<And>l. l \<in> set (lw_lists w) \<Longrightarrow> list_refs (f l) = list_refs l - H \<union> A l"
    "\<And>l m. l \<in> set (lw_lists w) \<Longrightarrow> m \<in> set (lw_members w) \<Longrightarrow> member_refs (f l) (g m) = member_refs l m - H \<union> B l m"
  shows "stored w' = stored w - H \<union> (\<Union>l \<in> set (lw_lists w). A l) \<union> (\<Union>m \<in> set (lw_members w). \<Union>l \<in> set (lw_lists w). B l m)"
proof -
  have "stored w' = (\<Union>l \<in> set (lw_lists w). list_refs (f l)) \<union> (\<Union>m \<in> set (lw_members w). \<Union>l \<in> set (lw_lists w). member_refs (f l) (g m))"
    by (simp add: stored_def assms(1,2))
  also have "\<dots> = (\<Union>l \<in> set (lw_lists w). list_refs l - H \<union> A l)
      \<union> (\<Union>m \<in> set (lw_members w). \<Union>l \<in> set (lw_lists w). member_refs l m - H \<union> B l m)"
    by (intro arg_cong2 [of _ _ _ _ "(\<union>)"] SUP_cong refl assms(3,4))
  finally show ?thesis unfolding stored_minus by (simp only: UN_Un_distrib Un_ac)
qed

lemma refs_set_key:
  "list_refs (l\<lparr>l_at_rkey := k, l_at_uri := u, l_at_cid := c\<rparr>)
     = (case k of None \<Rightarrow> {} | Some k \<Rightarrow> {(Of_List (l_id l), l_owner_actor_id l, k, True)})"
  "member_refs (l\<lparr>l_at_rkey := k, l_at_uri := u, l_at_cid := c\<rparr>) m = member_refs l m"
  "member_refs l (m\<lparr>lm_at_rkey := k, lm_at_uri := u\<rparr>) = (if l_id l \<noteq> lm_list_id m then {} else
     (case k of None \<Rightarrow> {} | Some k \<Rightarrow> {(Of_Member (lm_list_id m) (lm_actor_id m), l_owner_actor_id l, k, False)}))"
  by (simp_all add: list_refs_def member_refs_def split: option.splits)

lemma stored_clear_member: "stored (clear_member_atp_record i a w) = stored w - held_by (Of_Member i a)"
proof -
  have "stored (clear_member_atp_record i a w) = stored w - held_by (Of_Member i a)
      \<union> (\<Union>l \<in> set (lw_lists w). {}) \<union> (\<Union>m \<in> set (lw_members w). \<Union>l \<in> set (lw_lists w). {})"
    by (rule stored_mapped [where f = id and g = "\<lambda>m. if is_member i a m then m\<lparr>lm_at_rkey := None, lm_at_uri := None\<rparr> else m"])
       (simp_all add: clear_member_atp_record_def change_member_def refs_set_key refs_of_others)
  then show ?thesis by simp
qed

lemma stored_clear_list: "stored (clear_atp_list_record i w) = stored w - held_by (Of_List i)"
proof -
  have "stored (clear_atp_list_record i w) = stored w - held_by (Of_List i)
      \<union> (\<Union>l \<in> set (lw_lists w). {}) \<union> (\<Union>m \<in> set (lw_members w). \<Union>l \<in> set (lw_lists w). {})"
    by (rule stored_mapped [where g = id and f = "\<lambda>l. if l_id l = i then l\<lparr>l_at_rkey := None, l_at_uri := None, l_at_cid := None\<rparr> else l"])
       (simp_all add: clear_atp_list_record_def change_list_def refs_set_key refs_of_others)
  then show ?thesis by simp
qed

lemma set_member_rows:
  "lw_lists (set_member_atp_record i a k uri w) = map id (lw_lists w)"
  "lw_members (set_member_atp_record i a k uri w)
     = map (\<lambda>m. if is_member i a m then m\<lparr>lm_at_rkey := Some k, lm_at_uri := Some uri\<rparr> else m) (lw_members w)"
  by (simp_all add: set_member_atp_record_def change_member_def)

lemma set_list_rows:
  "lw_members (set_atp_list_record i k uri cid w) = map id (lw_members w)"
  "lw_lists (set_atp_list_record i k uri cid w)
     = map (\<lambda>l. if l_id l = i then l\<lparr>l_at_rkey := Some k, l_at_uri := Some uri, l_at_cid := Some cid\<rparr> else l) (lw_lists w)"
  by (simp_all add: set_atp_list_record_def change_list_def)

lemma stored_set_member:
  assumes "rows_ok w" "find_list w i = Some l" "(i, a) \<in> member_pair ` set (lw_members w)"
  shows "stored (set_member_atp_record i a k uri w)
    = insert (Of_Member i a, l_owner_actor_id l, k, False) (stored w - held_by (Of_Member i a))"
proof -
  let ?new = "(Of_Member i a, l_owner_actor_id l, k, False)"
  let ?B = "\<lambda>l' m. if is_member i a m \<and> l' = l then {?new} else {}"
  have l: "l \<in> set (lw_lists w)" "l_id l = i" using find_list_in [OF assms(2)] by simp_all
  obtain m where m: "m \<in> set (lw_members w)" "is_member i a m" using assms(3) by (auto simp: member_pair_def is_member_def)
  have "stored (set_member_atp_record i a k uri w) = stored w - held_by (Of_Member i a)
      \<union> (\<Union>l \<in> set (lw_lists w). {}) \<union> (\<Union>m \<in> set (lw_members w). \<Union>l' \<in> set (lw_lists w). ?B l' m)"
  proof (rule stored_mapped [OF set_member_rows])
    fix l' assume "l' \<in> set (lw_lists w)"
    show "list_refs (id l') = list_refs l' - held_by (Of_Member i a) \<union> {}" by (simp add: refs_of_others(1))
  next
    fix l' m assume l': "l' \<in> set (lw_lists w)"
    show "member_refs (id l') (if is_member i a m then m\<lparr>lm_at_rkey := Some k, lm_at_uri := Some uri\<rparr> else m)
        = member_refs l' m - held_by (Of_Member i a) \<union> ?B l' m"
    proof (cases "is_member i a m")
      case True
      then have m: "lm_list_id m = i" "lm_actor_id m = a" by (simp_all add: is_member_def)
      show ?thesis
      proof (cases "l' = l")
        case True
        then show ?thesis using \<open>is_member i a m\<close> m l(2) by (simp add: refs_of_others(4) refs_set_key(3))
      next
        case False
        then have "l_id l' \<noteq> i" using list_at [OF assms(1,2) l'] by blast
        then show ?thesis using \<open>is_member i a m\<close> m False by (simp add: refs_of_others(4) refs_set_key(3))
      qed
    qed (simp add: refs_of_others(4))
  qed
  moreover have "(\<Union>m \<in> set (lw_members w). \<Union>l' \<in> set (lw_lists w). ?B l' m) = {?new}"
  proof (rule equalityI)
    show "(\<Union>m \<in> set (lw_members w). \<Union>l' \<in> set (lw_lists w). ?B l' m) \<subseteq> {?new}" by (intro UN_least) simp
    have "?new \<in> ?B l m" using m(2) by simp
    then show "{?new} \<subseteq> (\<Union>m \<in> set (lw_members w). \<Union>l' \<in> set (lw_lists w). ?B l' m)" using l(1) m(1) by blast
  qed
  ultimately show ?thesis by simp
qed

lemma stored_set_list:
  assumes "rows_ok w" "find_list w i = Some l"
  shows "stored (set_atp_list_record i k uri cid w)
    = insert (Of_List i, l_owner_actor_id l, k, True) (stored w - held_by (Of_List i))"
proof -
  let ?new = "(Of_List i, l_owner_actor_id l, k, True)"
  have l: "l \<in> set (lw_lists w)" "l_id l = i" using find_list_in [OF assms(2)] by simp_all
  have "stored (set_atp_list_record i k uri cid w) = stored w - held_by (Of_List i)
      \<union> (\<Union>l' \<in> set (lw_lists w). if l' = l then {?new} else {}) \<union> (\<Union>m \<in> set (lw_members w). \<Union>l' \<in> set (lw_lists w). {})"
  proof (rule stored_mapped [OF set_list_rows(2,1)])
    fix l' assume l': "l' \<in> set (lw_lists w)"
    have "l' = l \<longleftrightarrow> l_id l' = i" using list_at [OF assms l'] l(2) by blast
    then show "list_refs (if l_id l' = i then l'\<lparr>l_at_rkey := Some k, l_at_uri := Some uri, l_at_cid := Some cid\<rparr> else l')
        = list_refs l' - held_by (Of_List i) \<union> (if l' = l then {?new} else {})"
      using l(2) by (cases "l' = l") (simp_all add: refs_set_key(1) refs_of_others(3))
  next
    fix l' m
    show "member_refs (if l_id l' = i then l'\<lparr>l_at_rkey := Some k, l_at_uri := Some uri, l_at_cid := Some cid\<rparr> else l') (id m)
        = member_refs l' m - held_by (Of_List i) \<union> {}"
      by (simp add: refs_set_key(2) refs_of_others(2))
  qed
  moreover have "(\<Union>l' \<in> set (lw_lists w). if l' = l then {?new} else {}) = {?new}" using l(1) by (auto split: if_splits)
  ultimately show ?thesis by simp
qed

section \<open>The ledger of keys\<close>

lemma ledger_less: "ledger G R S \<Longrightarrow> S' \<subseteq> S \<Longrightarrow> ledger G R S'"
  unfolding ledger_def by blast

lemma ledger_more: "ledger G R S \<Longrightarrow> G \<subseteq> G' \<Longrightarrow> ledger G' R S"
  unfolding ledger_def by blast

lemma ledger_record: "ledger G R S \<Longrightarrow> ref_key r \<in> G \<Longrightarrow> ledger G (insert r R) S"
  unfolding ledger_def by blast

lemma ledger_store:
  assumes "ledger G R S" "r \<in> R" "ref_key r \<notin> ref_key ` snd ` S"
  shows "ledger G R (insert (h, r) S)"
proof -
  have "\<forall>x \<in> S. ref_key (snd x) \<noteq> ref_key r" using assms(3) by (metis image_eqI)
  moreover have "ref_key ` R \<subseteq> G" "snd ` S \<subseteq> R" and one: "\<And>x y. x \<in> S \<Longrightarrow> y \<in> S \<Longrightarrow> ref_key (snd x) = ref_key (snd y) \<Longrightarrow> fst x = fst y"
    using assms(1) unfolding ledger_def by blast+
  moreover have "snd ` insert (h, r) S \<subseteq> R" using calculation(3) assms(2) by simp
  ultimately show ?thesis unfolding ledger_def by (metis insertE snd_conv)
qed

lemma ledger_fresh: "ledger G R S \<Longrightarrow> k \<notin> G \<Longrightarrow> k \<notin> ref_key ` snd ` S"
  unfolding ledger_def by blast

lemma ledger_publish:
  assumes "ledger G R S" "ref_key r \<notin> G" "G \<subseteq> G'" "ref_key r \<in> G'"
  shows "ledger G' (insert r R) (insert (h, r) (S - H))"
proof (rule ledger_store)
  show "ledger G' (insert r R) (S - H)"
    by (rule ledger_record [OF ledger_more [OF ledger_less [OF assms(1)] assms(3)] assms(4)]) blast
  show "ref_key r \<notin> ref_key ` snd ` (S - H)" using ledger_fresh [OF assms(1,2)] by blast
qed simp

text \<open>A record may go when no row but one that is cleared as well has its key.\<close>

definition only_holder :: "(holder \<times> graph_ref) set \<Rightarrow> string \<Rightarrow> holder \<Rightarrow> bool" where
  "only_holder S k h \<longleftrightarrow> (\<forall>x \<in> S. ref_key (snd x) = k \<longrightarrow> fst x = h)"

lemma only_holder_less: "only_holder S k h \<Longrightarrow> S' \<subseteq> S \<Longrightarrow> only_holder S' k h"
  unfolding only_holder_def by blast

lemma ledger_only: "ledger G R S \<Longrightarrow> (h, r) \<in> S \<Longrightarrow> only_holder S (ref_key r) h"
  unfolding ledger_def only_holder_def by (metis fst_conv snd_conv)

lemma ledger_delete:
  assumes "ledger G R S" "only_holder S (ref_key r) h" "S' \<subseteq> S - held_by h"
  shows "ledger G (R - {r}) S'"
proof -
  have "\<forall>x \<in> S'. snd x \<noteq> r" using assms(2,3) unfolding only_holder_def held_by_def by blast
  moreover have "ledger G R S'" by (rule ledger_less [OF assms(1)]) (use assms(3) in blast)
  ultimately show ?thesis unfolding ledger_def by blast
qed

section \<open>The repository\<close>

lemma delete_record_simps [simp]:
  "lw_lists (delete_graph_record E b o' k w) = lw_lists w" "lw_members (delete_graph_record E b o' k w) = lw_members w"
  "lw_actors (delete_graph_record E b o' k w) = lw_actors w" "lw_proxy_jobs (delete_graph_record E b o' k w) = lw_proxy_jobs w"
  "lw_calls (delete_graph_record E b o' k w) = lw_calls w + 1"
  by (simp_all add: delete_graph_record_def)

lemma record_refs_delete:
  "record_refs (delete_graph_record E b o' k w) = (if le_commit_ok E (lw_calls w) then record_refs w - {(o', k, b)} else record_refs w)"
proof -
  have "filter (\<lambda>(p, l, g). \<not> (p = o' \<and> l = k \<and> is_graph_list g = b)) xs = filter (\<lambda>r. record_ref r \<noteq> (o', k, b)) xs" for xs
    by (rule filter_cong) (auto simp: record_ref_def)
  moreover have "record_ref ` set (filter (\<lambda>r. record_ref r \<noteq> x) xs) = record_ref ` set xs - {x}" for x xs
    by auto
  ultimately have "record_ref ` set (filter (\<lambda>(p, l, g). \<not> (p = o' \<and> l = k \<and> is_graph_list g = b)) xs) = record_ref ` set xs - {(o', k, b)}" for xs
    by simp
  then show ?thesis by (simp add: record_refs_def delete_graph_record_def)
qed

lemma stored_delete [simp]: "stored (delete_graph_record E b o' k w) = stored w"
  by (simp add: stored_def)

lemma generated_next: "generated E (Suc c) = insert (le_rkey E c) (generated E c)"
  by (simp add: generated_def lessThan_Suc)

text \<open>A record whose key no other row has is deleted and the row cleared.\<close>

lemma keys_delete:
  assumes "keys_ok E w" "only_holder (stored w) k h" "stored w' \<subseteq> stored w - held_by h"
    "record_refs w' = record_refs (delete_graph_record E b o' k w)" "lw_calls w' = lw_calls w + 1"
  shows "keys_ok E w'"
proof -
  have "generated E (lw_calls w) \<subseteq> generated E (lw_calls w')" using assms(5) by (simp add: generated_mono)
  then have L: "ledger (generated E (lw_calls w')) (record_refs w) (stored w)"
    using assms(1) unfolding keys_ok_def by (rule ledger_more [rotated])
  show ?thesis
  proof (cases "le_commit_ok E (lw_calls w)")
    case True
    then have "record_refs w' = record_refs w - {(o', k, b)}" using assms(4) by (simp add: record_refs_delete)
    then show ?thesis using ledger_delete [OF L _ assms(3), of "(o', k, b)"] assms(2) unfolding keys_ok_def by (simp add: ref_key_def)
  next
    case False
    then have "record_refs w' = record_refs w" using assms(4) by (simp add: record_refs_delete)
    then show ?thesis using ledger_less [OF L, of "stored w'"] assms(3) unfolding keys_ok_def by auto
  qed
qed

end
