(* ===== verification/List_Inv.thy ===== *)
theory List_Inv
  imports List_Keys
begin

text \<open>
  What the handlers of lists keep: the keys the rows store name records that exist in the owner's repository, each
  of them once, and a private list has none there; and the last job of the relay account for an account says
  whether a list has it.
\<close>

section \<open>Operations\<close>

datatype list_op =
    L_Create list_user string bool
  | L_Update list_user string string bool
  | L_Delete list_user string
  | L_Add list_user string add_member_request
  | L_Remove list_user string string

fun list_step :: "list_env \<Rightarrow> list_op \<Rightarrow> list_world \<Rightarrow> list_world" where
  "list_step E (L_Create u name public) w = snd (create_list E u name public w)"
| "list_step E (L_Update u i name public) w = snd (update_list E u i name public w)"
| "list_step E (L_Delete u i) w = snd (delete_list E u i w)"
| "list_step E (L_Add u i req) w = snd (add_member E u i req w)"
| "list_step E (L_Remove u i a) w = snd (remove_member E u i a w)"

definition lists_ok :: "list_env \<Rightarrow> list_world \<Rightarrow> bool" where
  "lists_ok E w \<longleftrightarrow> rows_ok w \<and> keys_ok E w \<and> private_ok w"

section \<open>Frames\<close>

definition list_key :: "list_row \<Rightarrow> int \<times> actor_id \<times> bool" where
  "list_key l = (l_id l, l_owner_actor_id l, l_is_public l)"

definition same_rows :: "list_world \<Rightarrow> list_world \<Rightarrow> bool" where
  "same_rows w w' \<longleftrightarrow> map list_key (lw_lists w') = map list_key (lw_lists w) \<and> map member_pair (lw_members w') = map member_pair (lw_members w)"

lemma same_rows_refl [simp]: "same_rows w w"
  by (simp add: same_rows_def)

lemma same_rows_trans [trans]: "same_rows w w' \<Longrightarrow> same_rows w' w'' \<Longrightarrow> same_rows w w''"
  by (simp add: same_rows_def)

lemma same_rows_parts: "lw_lists w' = lw_lists w \<Longrightarrow> lw_members w' = lw_members w \<Longrightarrow> same_rows w w'"
  by (simp add: same_rows_def)

lemma keyed_ids: "map l_id xs = map fst (map list_key xs)" "map lm_list_id ms = map fst (map member_pair ms)"
  by (simp_all add: list_key_def member_pair_def)

lemma same_rows_ok: "same_rows w w' \<Longrightarrow> rows_ok w \<Longrightarrow> rows_ok w'"
  unfolding rows_ok_def same_rows_def set_map [symmetric] keyed_ids by simp

lemma same_rows_public: "same_rows w w' \<Longrightarrow> public_ids w' = public_ids w"
proof -
  have "public_ids v = fst ` {k \<in> set (map list_key (lw_lists v)). snd (snd k)}" for v
    by (force simp: public_ids_def list_key_def)
  moreover assume "same_rows w w'"
  ultimately show "public_ids w' = public_ids w" by (simp only: same_rows_def)
qed

lemma find_keyed: "map f xs = map f ys \<Longrightarrow> map_option f (find (\<lambda>x. P (f x)) xs) = map_option f (find (\<lambda>x. P (f x)) ys)"
proof (induction xs arbitrary: ys)
  case (Cons x xs)
  then obtain y zs where "ys = y # zs" "f y = f x" "map f xs = map f zs" by (cases ys) auto
  then show ?case using Cons.IH [of zs] by simp
qed simp

lemma same_rows_find:
  assumes "same_rows w w'" "find_list w i = Some l"
  obtains l' where "find_list w' i = Some l'" "list_key l' = list_key l"
proof -
  have "map_option list_key (find_list w' i) = map_option list_key (find_list w i)"
    using find_keyed [of list_key "lw_lists w'" "lw_lists w" "\<lambda>k. fst k = i"] assms(1)
    by (simp add: find_list_def same_rows_def list_key_def)
  then show ?thesis using assms(2) that by auto
qed

lemma same_rows_pairs: "same_rows w w' \<Longrightarrow> member_pair ` set (lw_members w') = member_pair ` set (lw_members w)"
  unfolding same_rows_def set_map [symmetric] by simp

lemma lists_ok_cong:
  assumes "lists_ok E w" "lw_lists w' = lw_lists w" "lw_members w' = lw_members w" "lw_records w' = lw_records w" "lw_calls w \<le> lw_calls w'"
  shows "lists_ok E w'"
proof -
  have "stored w' = stored w" by (rule stored_lists_members [OF assms(2,3)])
  moreover have "record_refs w' = record_refs w" by (simp add: record_refs_def assms(4))
  moreover have "generated E (lw_calls w) \<subseteq> generated E (lw_calls w')" by (rule generated_mono [OF assms(5)])
  ultimately show ?thesis
    using assms(1) ledger_more [of "generated E (lw_calls w)"] by (simp add: lists_ok_def rows_ok_def keys_ok_def private_ok_def public_ids_def assms(2,3))
qed

section \<open>Publishing\<close>

lemma lists_ok_publish:
  assumes "lists_ok E w" "inj (le_rkey E)" "ref_key r = le_rkey E (lw_calls w)"
    "record_refs w' = insert r (record_refs w)" "stored w' = insert (h, r) (stored w - held_by h)"
    "lw_calls w' = Suc (lw_calls w)" "same_rows w w'" "list_of h \<in> public_ids w"
  shows "lists_ok E w'"
proof -
  have "ledger (generated E (Suc (lw_calls w))) (insert r (record_refs w)) (insert (h, r) (stored w - held_by h))"
    by (rule ledger_publish [of "generated E (lw_calls w)"])
       (use assms(1,2) in \<open>auto simp: lists_ok_def keys_ok_def assms(3) fresh_key generated_next\<close>)
  then have "keys_ok E w'" by (simp add: keys_ok_def assms(4-6))
  moreover have "private_ok w'"
    using assms(1,8) unfolding private_ok_def lists_ok_def same_rows_public [OF assms(7)] assms(5) by auto
  ultimately show ?thesis using assms(1) same_rows_ok [OF assms(7)] by (simp add: lists_ok_def)
qed

lemma record_refs_commit:
  "record_refs (w\<lparr>lw_records := lw_records w @ [(o', k, g)], lw_calls := n\<rparr>) = insert (o', k, is_graph_list g) (record_refs w)"
  by (simp add: record_refs_def record_ref_def)

lemma change_frames:
  "same_rows w (set_member_atp_record i a k uri w)" "same_rows w (set_atp_list_record i k uri cid w)"
  "same_rows w (clear_member_atp_record i a w)" "same_rows w (clear_atp_list_record i w)"
  "record_refs (set_member_atp_record i a k uri w) = record_refs w" "record_refs (set_atp_list_record i k uri cid w) = record_refs w"
  "record_refs (clear_member_atp_record i a w) = record_refs w" "record_refs (clear_atp_list_record i w) = record_refs w"
  "lw_calls (set_member_atp_record i a k uri w) = lw_calls w" "lw_calls (set_atp_list_record i k uri cid w) = lw_calls w"
  "lw_calls (clear_member_atp_record i a w) = lw_calls w" "lw_calls (clear_atp_list_record i w) = lw_calls w"
  by (simp_all add: same_rows_def list_key_def member_pair_def record_refs_def set_member_atp_record_def set_atp_list_record_def
      clear_member_atp_record_def clear_atp_list_record_def change_list_def change_member_def)

lemma commit_frame:
  "same_rows w (w\<lparr>lw_records := R, lw_calls := n\<rparr>)" "stored (w\<lparr>lw_records := R, lw_calls := n\<rparr>) = stored w"
  "find_list (w\<lparr>lw_records := R, lw_calls := n\<rparr>) i = find_list w i" "rows_ok (w\<lparr>lw_records := R, lw_calls := n\<rparr>) = rows_ok w"
  by (simp_all add: same_rows_def stored_def find_list_def rows_ok_def)

lemma lists_ok_tick: "lists_ok E w \<Longrightarrow> lists_ok E (tick w)"
  by (erule lists_ok_cong) simp_all

lemma publish_list_ok:
  assumes "lists_ok E w" "inj (le_rkey E)" "find_list w i = Some l" "l_owner_actor_id l = owner" "l_is_public l"
  shows "lists_ok E (publish_list_to_atp E i owner name w) \<and> same_rows w (publish_list_to_atp E i owner name w)"
proof (cases "le_commit_ok E (lw_calls w)")
  case True
  let ?k = "le_rkey E (lw_calls w)"
  let ?uri = "''at://'' @ le_did E owner @ ''/app.bsky.graph.list/'' @ ?k"
  let ?w = "tick (w\<lparr>lw_records := lw_records w @ [(owner, ?k, Graph_List name)]\<rparr>)"
  let ?v = "set_atp_list_record i ?k ?uri (le_cid E (lw_calls w)) ?w"
  have v: "publish_list_to_atp E i owner name w = ?v"
    using True by (simp add: publish_list_to_atp_def commit_graph_list_def Let_def)
  have frame: "same_rows w ?v" using same_rows_trans [OF commit_frame(1) change_frames(2)] .
  have "rows_ok ?w" "find_list ?w i = Some l" using assms(1,3) by (simp_all add: commit_frame lists_ok_def)
  then have "stored ?v = insert (Of_List i, owner, ?k, True) (stored w - held_by (Of_List i))"
    using stored_set_list assms(4) by (metis commit_frame(2))
  moreover have "list_of (Of_List i) \<in> public_ids w" using find_list_in [OF assms(3)] assms(5) by (auto simp: public_ids_def)
  ultimately have "lists_ok E ?v"
    by (intro lists_ok_publish [OF assms(1,2) _ _ _ _ frame, where h = "Of_List i"]) (simp_all add: ref_key_def change_frames record_refs_commit)
  then show ?thesis using frame v by simp
qed (use lists_ok_tick [OF assms(1)] in \<open>simp add: publish_list_to_atp_def commit_graph_list_def Let_def same_rows_parts\<close>)

lemma publish_item_ok:
  assumes "lists_ok E w" "inj (le_rkey E)" "find_list w i = Some l" "l_owner_actor_id l = owner" "l_is_public l"
    "(i, a_id target) \<in> member_pair ` set (lw_members w)"
  shows "lists_ok E (maybe_publish_listitem E i list_uri owner target w) \<and> same_rows w (maybe_publish_listitem E i list_uri owner target w)"
proof (cases "\<exists>u s. list_uri = Some u \<and> a_at_did target = Some s \<and> a_actor_type target \<noteq> ''fedi'' \<and> le_commit_ok E (lw_calls w)")
  case True
  then obtain u s where us: "list_uri = Some u" "a_at_did target = Some s" "a_actor_type target \<noteq> ''fedi''" "le_commit_ok E (lw_calls w)" by blast
  let ?k = "le_rkey E (lw_calls w)"
  let ?uri = "''at://'' @ le_did E owner @ ''/app.bsky.graph.listitem/'' @ ?k"
  let ?w = "tick (w\<lparr>lw_records := lw_records w @ [(owner, ?k, Graph_Listitem u s)]\<rparr>)"
  let ?v = "set_member_atp_record i (a_id target) ?k ?uri ?w"
  have v: "maybe_publish_listitem E i list_uri owner target w = ?v"
    using us by (simp add: maybe_publish_listitem_def commit_graph_listitem_def Let_def)
  have frame: "same_rows w ?v" using same_rows_trans [OF commit_frame(1) change_frames(1)] .
  have "rows_ok ?w" "find_list ?w i = Some l" "(i, a_id target) \<in> member_pair ` set (lw_members ?w)"
    using assms(1,3,6) by (simp_all add: commit_frame lists_ok_def)
  then have "stored ?v = insert (Of_Member i (a_id target), owner, ?k, False) (stored w - held_by (Of_Member i (a_id target)))"
    using stored_set_member assms(4) by (metis commit_frame(2))
  moreover have "list_of (Of_Member i (a_id target)) \<in> public_ids w" using find_list_in [OF assms(3)] assms(5) by (auto simp: public_ids_def)
  ultimately have "lists_ok E ?v"
    by (intro lists_ok_publish [OF assms(1,2) _ _ _ _ frame, where h = "Of_Member i (a_id target)"]) (simp_all add: ref_key_def change_frames record_refs_commit)
  then show ?thesis using frame v by simp
next
  case False
  then have "maybe_publish_listitem E i list_uri owner target w \<in> {w, tick w}"
    by (auto simp: maybe_publish_listitem_def commit_graph_listitem_def Let_def split: option.splits)
  then show ?thesis using assms(1) lists_ok_tick same_rows_parts [of "tick w" w] by auto
qed

section \<open>Unpublishing\<close>

lemma refs_iff:
  "x \<in> list_refs l \<longleftrightarrow> (\<exists>k. l_at_rkey l = Some k \<and> x = (Of_List (l_id l), l_owner_actor_id l, k, True))"
  "x \<in> member_refs l m \<longleftrightarrow> l_id l = lm_list_id m
     \<and> (\<exists>k. lm_at_rkey m = Some k \<and> x = (Of_Member (lm_list_id m) (lm_actor_id m), l_owner_actor_id l, k, False))"
  by (auto simp: list_refs_def member_refs_def split: option.splits)

lemma stored_member: "(Of_Member i a, r) \<in> stored w \<longleftrightarrow>
    (\<exists>m \<in> set (lw_members w). \<exists>l \<in> set (lw_lists w). is_member i a m \<and> l_id l = i
       \<and> (\<exists>k. lm_at_rkey m = Some k \<and> r = (l_owner_actor_id l, k, False)))"
  unfolding stored_def Un_iff UN_iff refs_iff is_member_def by blast

lemma stored_list: "(Of_List i, r) \<in> stored w \<longleftrightarrow>
    (\<exists>l \<in> set (lw_lists w). l_id l = i \<and> (\<exists>k. l_at_rkey l = Some k \<and> r = (l_owner_actor_id l, k, True)))"
  unfolding stored_def Un_iff UN_iff refs_iff by blast

lemma with_atp_record: "(a, k) \<in> set (members_with_atp_record w i) \<longleftrightarrow> (\<exists>m \<in> set (lw_members w). is_member i a m \<and> lm_at_rkey m = Some k)"
  by (auto simp: members_with_atp_record_def map_filter_def is_member_def image_iff split: if_splits)

lemma with_atp_record_stored:
  assumes "find_list w i = Some l" "(a, k) \<in> set (members_with_atp_record w i)"
  shows "(Of_Member i a, l_owner_actor_id l, k, False) \<in> stored w"
  using assms find_list_in [OF assms(1)] unfolding with_atp_record stored_member by blast

lemma stored_with_atp_record: "(Of_Member i a, r) \<in> stored w \<Longrightarrow> \<exists>k. (a, k) \<in> set (members_with_atp_record w i)"
  unfolding with_atp_record stored_member by blast

lemma member_only:
  assumes "keys_ok E w" "find_list w i = Some l" "(a, k) \<in> set (members_with_atp_record w i)"
  shows "only_holder (stored w) k (Of_Member i a)"
  using ledger_only [OF assms(1) [unfolded keys_ok_def] with_atp_record_stored [OF assms(2,3)]] by (simp add: ref_key_def)

lemma list_only:
  assumes "keys_ok E w" "find_list w i = Some l" "l_at_rkey l = Some k"
  shows "only_holder (stored w) k (Of_List i)"
proof -
  have "(Of_List i, l_owner_actor_id l, k, True) \<in> stored w" using assms(2,3) find_list_in unfolding stored_list by blast
  then show ?thesis using ledger_only [OF assms(1) [unfolded keys_ok_def]] by (fastforce simp: ref_key_def)
qed

text \<open>Each step of a withdrawal deletes a record and forgets its key; the rows stay.\<close>

definition withdrawn_to :: "list_env \<Rightarrow> holder set \<Rightarrow> list_world \<Rightarrow> list_world \<Rightarrow> bool" where
  "withdrawn_to E H w w' \<longleftrightarrow> keys_ok E w' \<and> same_rows w w' \<and> stored w' = stored w - (\<Union>h \<in> H. held_by h)"

lemma clear_member_step:
  assumes "keys_ok E w" "only_holder (stored w) k (Of_Member i a)"
  shows "withdrawn_to E {Of_Member i a} w (clear_member_atp_record i a (delete_graph_record E b owner k w))"
proof -
  let ?v = "clear_member_atp_record i a (delete_graph_record E b owner k w)"
  have "stored ?v = stored w - held_by (Of_Member i a)" by (simp add: stored_clear_member)
  moreover have "keys_ok E ?v" by (rule keys_delete [OF assms]) (simp_all add: stored_clear_member change_frames)
  moreover have "same_rows w ?v" by (rule same_rows_trans [OF same_rows_parts change_frames(3)]) simp_all
  ultimately show ?thesis by (simp add: withdrawn_to_def)
qed

lemma withdrawn_trans: "withdrawn_to E H w w' \<Longrightarrow> withdrawn_to E H' w' w'' \<Longrightarrow> withdrawn_to E (H \<union> H') w w''"
  unfolding withdrawn_to_def by (auto intro: same_rows_trans)

lemma withdraw_members:
  assumes "keys_ok E w" "\<And>a k. (a, k) \<in> set ps \<Longrightarrow> only_holder (stored w) k (Of_Member i a)"
  shows "withdrawn_to E (Of_Member i ` fst ` set ps) w
    (fold (\<lambda>(a, rkey) w. clear_member_atp_record i a (delete_graph_record E False owner rkey w)) ps w)"
  using assms
proof (induction ps arbitrary: w)
  case (Cons p ps)
  obtain a k where p: "p = (a, k)" by fastforce
  let ?v = "clear_member_atp_record i a (delete_graph_record E False owner k w)"
  have v: "withdrawn_to E {Of_Member i a} w ?v" by (rule clear_member_step) (use Cons.prems p in auto)
  then have "keys_ok E ?v" "stored ?v \<subseteq> stored w" by (auto simp: withdrawn_to_def)
  then have "withdrawn_to E (Of_Member i ` fst ` set ps) ?v
      (fold (\<lambda>(a, rkey) w. clear_member_atp_record i a (delete_graph_record E False owner rkey w)) ps ?v)"
    using Cons.prems(2) only_holder_less by (intro Cons.IH) (meson list.set_intros(2))+
  from withdrawn_trans [OF v this] show ?case using p by simp
qed (simp add: withdrawn_to_def)

lemma unpublish_withdraws:
  assumes "keys_ok E w" "find_list w i = Some l" "l_at_rkey l = rkey" "rows_ok w"
  shows "keys_ok E (unpublish_list_from_atp E i owner rkey w)" "same_rows w (unpublish_list_from_atp E i owner rkey w)"
    "stored (unpublish_list_from_atp E i owner rkey w) = {x \<in> stored w. list_of (fst x) \<noteq> i}"
proof -
  let ?ps = "members_with_atp_record w i"
  let ?w1 = "fold (\<lambda>(a, rkey) w. clear_member_atp_record i a (delete_graph_record E False owner rkey w)) ?ps w"
  let ?w2 = "case rkey of Some rkey \<Rightarrow> delete_atp_graph_list E owner rkey ?w1 | None \<Rightarrow> ?w1"
  let ?w3 = "unpublish_list_from_atp E i owner rkey w"
  have w1: "withdrawn_to E (Of_Member i ` fst ` set ?ps) w ?w1"
    by (rule withdraw_members [OF assms(1)]) (rule member_only [OF assms(1,2)])
  have w3: "?w3 = clear_atp_list_record i ?w2" by (simp add: unpublish_list_from_atp_def Let_def)
  have kept: "keys_ok E ?w3 \<and> same_rows ?w1 ?w3 \<and> stored ?w3 = stored ?w1 - held_by (Of_List i)"
  proof (cases rkey)
    case None
    have "keys_ok E (clear_atp_list_record i ?w1)"
      using w1 ledger_less [of _ _ "stored ?w1"] by (auto simp: withdrawn_to_def keys_ok_def change_frames stored_clear_list)
    then show ?thesis using None w3 by (simp add: change_frames stored_clear_list)
  next
    case (Some k)
    have "only_holder (stored ?w1) k (Of_List i)"
      by (rule only_holder_less [OF list_only [OF assms(1,2)]]) (use Some assms(3) w1 in \<open>auto simp: withdrawn_to_def\<close>)
    then have "keys_ok E (clear_atp_list_record i (delete_atp_graph_list E owner k ?w1))"
      by (rule keys_delete [rotated]) (use w1 in \<open>simp_all add: withdrawn_to_def stored_clear_list change_frames\<close>)
    moreover have "same_rows ?w1 (clear_atp_list_record i (delete_atp_graph_list E owner k ?w1))"
      by (rule same_rows_trans [OF same_rows_parts change_frames(4)]) simp_all
    ultimately show ?thesis using Some w3 by (simp add: stored_clear_list)
  qed
  then show "keys_ok E ?w3" "same_rows w ?w3" using w1 by (auto simp: withdrawn_to_def intro: same_rows_trans)
  show "stored ?w3 = {x \<in> stored w. list_of (fst x) \<noteq> i}"
  proof (rule set_eqI)
    fix x :: "holder \<times> graph_ref"
    obtain h r where x: "x = (h, r)" by (cases x)
    have st: "stored ?w3 = stored w - (\<Union>h \<in> Of_Member i ` fst ` set ?ps. held_by h) - held_by (Of_List i)"
      using kept w1 by (simp add: withdrawn_to_def)
    show "x \<in> stored ?w3 \<longleftrightarrow> x \<in> {x \<in> stored w. list_of (fst x) \<noteq> i}"
    proof (cases h)
      case (Of_Member j a)
      have "(Of_Member i a, r) \<in> stored w \<Longrightarrow> a \<in> fst ` set ?ps" by (drule stored_with_atp_record) force
      then show ?thesis unfolding st x Of_Member by (auto simp: held_by_def)
    qed (auto simp: st x held_by_def)
  qed
qed

section \<open>The handlers\<close>

lemma owned_list_found: "owned_list u i w = Inr l \<Longrightarrow> find_list w (l_id l) = Some l \<and> l_owner_actor_id l = lu_actor_id u"
proof -
  assume "owned_list u i w = Inr l"
  then obtain j where "find_list w j = Some l" "l_owner_actor_id l = lu_actor_id u"
    by (auto simp: owned_list_def split: option.splits if_splits)
  then show ?thesis using find_list_in by metis
qed

lemma create_rows:
  assumes "lists_ok E w" "lists_create i owner name public now w = Some w'"
  shows "lists_ok E w' \<and> (\<exists>l. find_list w' i = Some l \<and> l_owner_actor_id l = owner \<and> l_is_public l = public)"
proof -
  let ?l = "\<lparr>l_id = i, l_owner_actor_id = owner, l_name = name, l_is_public = public,
        l_at_rkey = None, l_at_uri = None, l_at_cid = None, l_created_at = now\<rparr>"
  have fresh: "find (\<lambda>l. l_id l = i) (lw_lists w) = None" and w': "w' = w\<lparr>lw_lists := lw_lists w @ [?l]\<rparr>"
    using assms(2) by (auto simp: lists_create_def find_list_def split: if_splits)
  have new: "i \<notin> l_id ` set (lw_lists w)" using fresh by (auto simp: find_None_iff)
  have "list_refs ?l = {}" by (simp add: list_refs_def)
  moreover have "member_refs ?l m = {}" if "m \<in> set (lw_members w)" for m
    using assms(1) that new by (auto simp: member_refs_def lists_ok_def rows_ok_def)
  ultimately have st: "stored w' = stored w" by (simp add: stored_def w')
  have "rows_ok w'" using assms(1) new by (auto simp: w' lists_ok_def rows_ok_def)
  moreover have "record_refs w' = record_refs w" "lw_calls w' = lw_calls w" by (simp_all add: w' record_refs_def)
  then have "keys_ok E w'" using assms(1) by (simp add: lists_ok_def keys_ok_def st)
  moreover have "public_ids w \<subseteq> public_ids w'" by (auto simp: public_ids_def w')
  then have "private_ok w'" using assms(1) by (auto simp: lists_ok_def private_ok_def st)
  moreover have "find_list w' i = Some ?l" using fresh by (simp add: find_list_def w' find_snoc)
  ultimately show ?thesis unfolding lists_ok_def by auto
qed

lemma create_ok:
  assumes "lists_ok E w" "inj (le_rkey E)"
  shows "lists_ok E (snd (create_list E u name public w))"
proof -
  have "lists_ok E (if public then publish_list_to_atp E i me n w' else w')"
    if "lists_create i me n public t (tick w) = Some w'" for i me n t w'
    using create_rows [OF lists_ok_tick [OF assms(1)] that] publish_list_ok [OF _ assms(2)] by auto
  then show ?thesis using assms(1) lists_ok_tick [OF assms(1)]
    by (auto simp: create_list_def Let_def split: option.splits)
qed

lemma update_rows:
  assumes "rows_ok w" "find_list w i = Some l" "l_owner_actor_id l = me" "lists_update i me name public w = (n, w')"
  shows "rows_ok w'" "stored w' = stored w" "record_refs w' = record_refs w" "lw_calls w' = lw_calls w"
    "\<exists>l'. find_list w' i = Some l' \<and> l_owner_actor_id l' = me \<and> l_is_public l' = public \<and> l_at_rkey l' = l_at_rkey l"
    "public_ids w' = (if public then insert i (public_ids w) else public_ids w - {i})"
proof -
  let ?f = "\<lambda>l::list_row. if l_id l = i \<and> l_owner_actor_id l = me then l\<lparr>l_name := name, l_is_public := public\<rparr> else l"
  have w': "w' = w\<lparr>lw_lists := map ?f (lw_lists w)\<rparr>" using assms(4) by (simp add: lists_update_def)
  have ids: "map l_id (map ?f xs) = map l_id xs" for xs by (simp cong: map_cong)
  have rows: "lw_lists w' = map ?f (lw_lists w)" "lw_members w' = lw_members w" by (simp_all add: w')
  show "rows_ok w'" using assms(1) unfolding rows_ok_def set_map [symmetric] rows ids .
  have "stored w' = stored w - {} \<union> (\<Union>l \<in> set (lw_lists w). {}) \<union> (\<Union>m \<in> set (lw_members w). \<Union>l \<in> set (lw_lists w). {})"
    by (rule stored_mapped [where f = ?f and g = id]) (simp_all add: rows list_refs_def member_refs_def split: option.splits)
  then show "stored w' = stored w" by simp
  show "record_refs w' = record_refs w" "lw_calls w' = lw_calls w" by (simp_all add: w' record_refs_def)
  have "find (\<lambda>l. l_id l = i) (map ?f xs) = map_option ?f (find (\<lambda>l. l_id l = i) xs)" for xs
    by (induction xs) auto
  then have "find_list w' i = map_option ?f (find_list w i)" by (simp only: find_list_def rows)
  then have "find_list w' i = Some (?f l)" using assms(2) by simp
  then show "\<exists>l'. find_list w' i = Some l' \<and> l_owner_actor_id l' = me \<and> l_is_public l' = public \<and> l_at_rkey l' = l_at_rkey l"
    using assms(3) find_list_in [OF assms(2)] by simp
  have l: "l \<in> set (lw_lists w)" "l_id l = i" using find_list_in [OF assms(2)] by simp_all
  have "l_owner_actor_id l' = me" if "l' \<in> set (lw_lists w)" "l_id l' = i" for l'
    using list_at [OF assms(1,2) that] assms(3) by simp
  then have f: "l_id (?f l') = l_id l'" "l_is_public (?f l') \<longleftrightarrow> (if l_id l' = i then public else l_is_public l')"
    if "l' \<in> set (lw_lists w)" for l' using that by simp_all
  have "j \<in> public_ids w' \<longleftrightarrow> (\<exists>l' \<in> set (lw_lists w). l_id (?f l') = j \<and> l_is_public (?f l'))" for j
    unfolding public_ids_def rows set_map image_iff by blast
  also have "(\<exists>l' \<in> set (lw_lists w). l_id (?f l') = j \<and> l_is_public (?f l'))
      \<longleftrightarrow> (\<exists>l' \<in> set (lw_lists w). l_id l' = j \<and> (if l_id l' = i then public else l_is_public l'))" for j
    by (rule bex_cong [OF refl]) (simp only: f)
  also have "\<dots> j \<longleftrightarrow> (if j = i then public else j \<in> public_ids w)" for j
    using l by (cases "j = i") (auto simp: public_ids_def)
  finally have j: "j \<in> public_ids w' \<longleftrightarrow> (if j = i then public else j \<in> public_ids w)" for j .
  show "public_ids w' = (if public then insert i (public_ids w) else public_ids w - {i})"
    by (rule set_eqI) (simp add: j)
qed

lemma owned_update: "find_list w i = Some l \<Longrightarrow> l_owner_actor_id l = me \<Longrightarrow> fst (lists_update i me name public w) \<noteq> 0"
  by (auto simp: lists_update_def dest!: find_list_in simp: filter_empty_conv)

lemma lists_members_in:
  assumes "(m, a) \<in> set (lists_members w i)"
  shows "m \<in> set (lw_members w)" "lm_list_id m = i"
proof -
  let ?f = "\<lambda>m. if lm_list_id m = i then (case find_list_actor w (lm_actor_id m) of
         None \<Rightarrow> None | Some a \<Rightarrow> if a_withdrawn_at a = None then Some (m, a) else None) else None"
  have "(m, a) \<in> set (List.map_filter ?f (lw_members w))" using assms unfolding lists_members_def by (simp only: set_rev set_sort)
  then obtain m' where "m' \<in> set (lw_members w)" "?f m' = Some (m, a)" by (auto simp: map_filter_def)
  then show "m \<in> set (lw_members w)" "lm_list_id m = i" by (simp_all split: if_splits option.splits)
qed

lemma publish_members_ok:
  assumes "lists_ok E w" "inj (le_rkey E)" "find_list w (l_id l) = Some l" "l_owner_actor_id l = me" "l_is_public l"
  shows "lists_ok E (publish_members E l me w)"
proof -
  let ?step = "\<lambda>(m :: list_member_row, a :: actor_row) w. case find_list_actor w (lm_actor_id m) of
      Some actor \<Rightarrow> maybe_publish_listitem E (l_id l) (l_at_uri l) me actor w | None \<Rightarrow> w"
  have "lists_ok E (fold ?step ps v) \<and> same_rows v (fold ?step ps v)"
    if "lists_ok E v" "same_rows w v" "\<And>m a. (m, a) \<in> set ps \<Longrightarrow> member_pair m \<in> member_pair ` set (lw_members w) \<and> lm_list_id m = l_id l" for ps v
    using that
  proof (induction ps arbitrary: v)
    case (Cons p ps)
    obtain m a where p: "p = (m, a)" by (cases p)
    have m: "member_pair m \<in> member_pair ` set (lw_members v)" "lm_list_id m = l_id l"
      using Cons.prems(2,3) p same_rows_pairs by auto
    obtain l' where l': "find_list v (l_id l) = Some l'" "list_key l' = list_key l"
      by (rule same_rows_find [OF Cons.prems(2) assms(3)])
    have ok: "lists_ok E (?step p v) \<and> same_rows v (?step p v)"
    proof (cases "find_list_actor v (lm_actor_id m)")
      case (Some actor)
      then have "(l_id l, a_id actor) \<in> member_pair ` set (lw_members v)"
        using m by (auto simp: find_list_actor_def find_Some_iff member_pair_def)
      then show ?thesis using publish_item_ok [OF Cons.prems(1) assms(2) l'(1)] l'(2) assms(4,5) Some p by (simp add: list_key_def)
    qed (simp add: p Cons.prems(1))
    then have "same_rows w (?step p v)" using Cons.prems(2) same_rows_trans by blast
    then have "lists_ok E (fold ?step ps (?step p v)) \<and> same_rows (?step p v) (fold ?step ps (?step p v))"
      using ok Cons.prems(3) by (intro Cons.IH) auto
    then have "lists_ok E (fold ?step ps (?step p v)) \<and> same_rows v (fold ?step ps (?step p v))" using ok same_rows_trans by blast
    then show ?case by (simp only: fold_simps)
  qed simp
  from this [OF assms(1) same_rows_refl, of "lists_members w (l_id l)"] lists_members_in show ?thesis
    unfolding publish_members_def by blast
qed

lemma update_ok:
  assumes "lists_ok E w" "inj (le_rkey E)"
  shows "lists_ok E (snd (update_list E u i name public w))"
proof (cases "owned_list u i w")
  case (Inl e)
  then show ?thesis using assms(1) by (simp add: update_list_def Let_def)
next
  case (Inr l)
  let ?me = "lu_actor_id u" and ?n = "le_trim E name"
  note found = owned_list_found [OF Inr]
  obtain n w1 where upd: "lists_update (l_id l) ?me ?n public w = (n, w1)" by fastforce
  have n: "n \<noteq> 0" using owned_update [OF conjunct1 [OF found] conjunct2 [OF found], of ?n public] upd by simp
  have ok: "rows_ok w" "keys_ok E w" "private_ok w" using assms(1) by (simp_all add: lists_ok_def)
  note rows = update_rows [OF ok(1) conjunct1 [OF found] conjunct2 [OF found] upd]
  obtain l' where l': "find_list w1 (l_id l) = Some l'" "l_owner_actor_id l' = ?me" "l_is_public l' = public" "l_at_rkey l' = l_at_rkey l"
    using rows(5) by blast
  have keys: "keys_ok E w1" using ok(2) by (simp add: keys_ok_def rows(2-4))
  let ?wp = "publish_list_to_atp E (l_id l) ?me ?n w1"
  let ?w2 = "if \<not> l_is_public l \<and> public then (case find_list ?wp (l_id l) of Some l \<Rightarrow> publish_members E l ?me ?wp | None \<Rightarrow> ?wp)
     else if l_is_public l \<and> \<not> public then unpublish_list_from_atp E (l_id l) ?me (l_at_rkey l) w1 else w1"
  have "lists_ok E ?w2"
  proof (cases "l_is_public l \<and> \<not> public")
    case True
    note un = unpublish_withdraws [OF keys l'(1) l'(4) rows(1), of ?me]
    have "private_ok (unpublish_list_from_atp E (l_id l) ?me (l_at_rkey l) w1)"
      using ok(3) True unfolding private_ok_def un(3) same_rows_public [OF un(2)] rows(2,6) by auto
    then show ?thesis using True un(1) same_rows_ok [OF un(2) rows(1)] by (simp add: lists_ok_def)
  next
    case False
    have "l_id l \<in> public_ids w" if "l_is_public l" using find_list_in [OF conjunct1 [OF found]] that by (auto simp: public_ids_def)
    moreover have "l_id l \<notin> public_ids w" if "\<not> l_is_public l"
      using list_at [OF ok(1) conjunct1 [OF found]] that by (auto simp: public_ids_def)
    ultimately have "public_ids w \<subseteq> public_ids w1" using False by (auto simp: rows(6))
    then have ok1: "lists_ok E w1" using ok(3) rows(1) keys by (auto simp: lists_ok_def private_ok_def rows(2))
    show ?thesis
    proof (cases public)
      case True
      have pub: "lists_ok E ?wp" "same_rows w1 ?wp"
        using publish_list_ok [OF ok1 assms(2) l'(1,2)] l'(3) True by simp_all
      obtain lp where lp: "find_list ?wp (l_id l) = Some lp" "list_key lp = list_key l'"
        by (rule same_rows_find [OF pub(2) l'(1)])
      then have "lists_ok E (publish_members E lp ?me ?wp)"
        using l'(2,3) True find_list_in [OF lp(1)] by (intro publish_members_ok [OF pub(1) assms(2)]) (simp_all add: list_key_def)
      then show ?thesis using ok1 lp(1) True by simp
    qed (use False ok1 in simp)
  qed
  moreover define w2 where "w2 = ?w2"
  moreover have "snd (update_list E u i name public w) \<in> {w, w2}"
    unfolding update_list_def Let_def Inr sum.case upd prod.case w2_def [symmetric] using n by (simp split: option.split)
  ultimately show ?thesis using assms(1) by auto
qed

lemma touched_ok: "lists_ok E w \<Longrightarrow> lists_ok E (w\<lparr>lw_touched := n\<rparr>)"
  by (erule lists_ok_cong) (simp_all add: order.refl)

lemma unfollow_rows:
  "lw_lists (maybe_unfollow_if_unreferenced a w) = lw_lists w" "lw_members (maybe_unfollow_if_unreferenced a w) = lw_members w"
  "lw_records (maybe_unfollow_if_unreferenced a w) = lw_records w" "lw_calls (maybe_unfollow_if_unreferenced a w) = lw_calls w"
  "lw_actors (maybe_unfollow_if_unreferenced a w) = lw_actors w"
  by (simp_all add: maybe_unfollow_if_unreferenced_def enqueue_proxy_follow_sync_def split: option.splits)

lemma unfollow_ok: "lists_ok E w \<Longrightarrow> lists_ok E (maybe_unfollow_if_unreferenced a w)"
  by (erule lists_ok_cong) (simp_all add: unfollow_rows)

lemma unfollow_all_ok: "lists_ok E w \<Longrightarrow> lists_ok E (fold maybe_unfollow_if_unreferenced as w)
    \<and> stored (fold maybe_unfollow_if_unreferenced as w) = stored w"
proof (induction as arbitrary: w)
  case (Cons a as)
  then show ?case using unfollow_ok [OF Cons.prems, of a] stored_lists_members [OF unfollow_rows(1,2)] by simp
qed simp

text \<open>A record whose row is gone is deleted.\<close>

lemma delete_record_ok:
  assumes "lists_ok E w" "only_holder S k h" "stored w \<subseteq> S - held_by h"
  shows "lists_ok E (delete_graph_record E b owner k w)"
proof -
  have st: "stored w \<subseteq> S" "stored w \<subseteq> stored w - held_by h" using assms(3) by blast+
  have "keys_ok E (delete_graph_record E b owner k w)"
    by (rule keys_delete [OF _ only_holder_less [OF assms(2) st(1)]]) (use assms(1) st(2) in \<open>simp_all add: lists_ok_def\<close>)
  then show ?thesis using assms(1)
    by (simp add: lists_ok_def same_rows_ok [OF same_rows_parts] private_ok_def public_ids_def rows_ok_def)
qed

lemma rows_dropped_ok:
  assumes "lists_ok E w" "rows_ok w'" "stored w' \<subseteq> stored w" "lw_records w' = lw_records w" "lw_calls w' = lw_calls w"
    "list_of ` fst ` stored w' \<subseteq> public_ids w'"
  shows "lists_ok E w'"
proof -
  have "record_refs w' = record_refs w" by (simp add: record_refs_def assms(4))
  then have "keys_ok E w'" using ledger_less [OF _ assms(3)] assms(1) unfolding lists_ok_def keys_ok_def assms(5) by simp
  then show ?thesis using assms(2,6) by (simp add: lists_ok_def private_ok_def)
qed

lemma remove_ok:
  assumes "lists_ok E w"
  shows "lists_ok E (snd (remove_member E u i a w))"
proof (cases "owned_list u i w")
  case (Inr l)
  note found = owned_list_found [OF Inr]
  have "lists_ok E (snd (lists_remove_member (l_id l) a w)) \<and> stored (snd (lists_remove_member (l_id l) a w)) \<subseteq> stored w - held_by (Of_Member (l_id l) a)" for a
  proof -
    let ?w1 = "snd (lists_remove_member (l_id l) a w)"
    have w1: "?w1 = w\<lparr>lw_members := filter (\<lambda>m. \<not> is_member (l_id l) a m) (lw_members w)\<rparr>" by (simp add: lists_remove_member_def)
    have st: "stored ?w1 \<subseteq> stored w - held_by (Of_Member (l_id l) a)"
    proof (rule subsetI)
      fix x assume x: "x \<in> stored ?w1"
      then have "x \<in> stored w" unfolding stored_def w1 by auto
      moreover have "fst x \<noteq> Of_Member (l_id l) a"
        using x unfolding stored_def w1 Un_iff UN_iff refs_iff by (auto simp: is_member_def)
      ultimately show "x \<in> stored w - held_by (Of_Member (l_id l) a)" by (simp add: held_by_def)
    qed
    have st': "stored ?w1 \<subseteq> stored w" using st by blast
    have "rows_ok ?w1" using assms unfolding w1 lists_ok_def rows_ok_def by (auto simp: distinct_map_filter)
    moreover have "public_ids ?w1 = public_ids w" by (simp add: w1 public_ids_def)
    then have "list_of ` fst ` stored ?w1 \<subseteq> public_ids ?w1"
      by (intro subset_trans [OF image_mono [OF image_mono [OF st']]]) (use assms in \<open>simp add: lists_ok_def private_ok_def\<close>)
    ultimately have "lists_ok E ?w1" by (intro rows_dropped_ok [OF assms _ st']) (simp_all add: w1)
    then show ?thesis using st by simp
  qed
  note removed = this
  have "lists_ok E (case find_member_atp_rkey w (l_id l) b of
      Some rkey \<Rightarrow> delete_atp_graph_listitem E (lu_actor_id u) rkey v | None \<Rightarrow> v)"
    if "lists_ok E v" "stored v \<subseteq> stored w - held_by (Of_Member (l_id l) b)" for b v
  proof (cases "find_member_atp_rkey w (l_id l) b")
    case (Some k)
    then have "(b, k) \<in> set (members_with_atp_record w (l_id l))"
      by (auto simp: find_member_atp_rkey_def with_atp_record find_Some_iff bind_eq_Some_conv)
    then have "only_holder (stored w) k (Of_Member (l_id l) b)"
      using assms found member_only by (auto simp: lists_ok_def)
    then show ?thesis using delete_record_ok [OF that(1) _ that(2)] Some by simp
  qed (use that in simp)
  note deleted = this
  have "lists_ok E (snd (remove_member E u i a w))" if "parse_i64 a = Some b" for b
  proof -
    obtain d w1 where d: "lists_remove_member (l_id l) b w = (d, w1)" by fastforce
    let ?w3 = "(maybe_unfollow_if_unreferenced b w1)\<lparr>lw_touched := lw_touched (maybe_unfollow_if_unreferenced b w1) + 1\<rparr>"
    have w1: "lists_ok E w1 \<and> stored w1 \<subseteq> stored w - held_by (Of_Member (l_id l) b)" using removed [of b] d by simp
    have "stored ?w3 = stored w1" by (rule stored_lists_members) (simp_all add: unfollow_rows)
    then have "lists_ok E ?w3" "stored ?w3 \<subseteq> stored w - held_by (Of_Member (l_id l) b)"
      using w1 touched_ok unfollow_ok by auto
    note step = deleted [OF this]
    define v where "v = (case find_member_atp_rkey w (l_id l) b of
      Some rkey \<Rightarrow> delete_atp_graph_listitem E (lu_actor_id u) rkey ?w3 | None \<Rightarrow> ?w3)"
    have "snd (remove_member E u i a w) \<in> {w, w1, v}"
      unfolding remove_member_def Let_def that option.case Inr sum.case d prod.case v_def [symmetric] by simp
    moreover have "lists_ok E v" unfolding v_def by (rule step)
    ultimately show ?thesis using assms w1 by auto
  qed
  then show ?thesis using assms by (cases "parse_i64 a") (simp_all add: remove_member_def)
qed (use assms in \<open>simp add: remove_member_def split: option.split\<close>)

lemma delete_rows:
  assumes "lists_ok E w" "find_list w i = Some l" "l_owner_actor_id l = me"
  shows "lists_ok E (snd (lists_delete i me w))" "\<And>x. x \<in> stored (snd (lists_delete i me w)) \<Longrightarrow> x \<in> stored w \<and> list_of (fst x) \<noteq> i"
proof -
  let ?w1 = "snd (lists_delete i me w)"
  have ok: "rows_ok w" using assms(1) by (simp add: lists_ok_def)
  have l: "l \<in> set (lw_lists w)" "l_id l = i" using find_list_in [OF assms(2)] by simp_all
  have only: "l_id l' = i \<and> l_owner_actor_id l' = me \<longleftrightarrow> l_id l' = i" if "l' \<in> set (lw_lists w)" for l'
    using list_at [OF ok assms(2) that] assms(3) by auto
  have "filter (\<lambda>l. l_id l = i \<and> l_owner_actor_id l = me) (lw_lists w) \<noteq> []"
    using l assms(3) by (auto simp: filter_empty_conv)
  moreover have "filter (\<lambda>l. \<not> (l_id l = i \<and> l_owner_actor_id l = me)) (lw_lists w) = filter (\<lambda>l. l_id l \<noteq> i) (lw_lists w)"
    by (rule filter_cong [OF refl]) (use only in simp)
  ultimately have w1: "?w1 = w\<lparr>lw_lists := filter (\<lambda>l. l_id l \<noteq> i) (lw_lists w), lw_members := filter (\<lambda>m. lm_list_id m \<noteq> i) (lw_members w)\<rparr>"
    by (simp add: lists_delete_def Let_def del: de_Morgan_conj)
  show kept: "x \<in> stored w \<and> list_of (fst x) \<noteq> i" if "x \<in> stored ?w1" for x
  proof
    show "x \<in> stored w" using that unfolding stored_def w1 Un_iff UN_iff by auto
    show "list_of (fst x) \<noteq> i" using that unfolding stored_def w1 Un_iff UN_iff refs_iff by auto
  qed
  have "l_id ` set (lw_lists ?w1) = l_id ` set (lw_lists w) - {i}" by (auto simp: w1)
  then have "lm_list_id ` set (lw_members ?w1) \<subseteq> l_id ` set (lw_lists ?w1)" using ok by (auto simp: w1 rows_ok_def)
  then have "rows_ok ?w1" using ok by (simp add: w1 rows_ok_def distinct_map_filter)
  moreover have pub: "public_ids ?w1 = public_ids w - {i}" by (auto simp: public_ids_def w1)
  have "list_of (fst x) \<in> public_ids w" if "x \<in> stored w" for x
    using assms(1) that unfolding lists_ok_def private_ok_def by blast
  then have "list_of ` fst ` stored ?w1 \<subseteq> public_ids ?w1" unfolding pub using kept by blast
  moreover have "stored ?w1 \<subseteq> stored w" using kept by blast
  moreover have "lw_records ?w1 = lw_records w" "lw_calls ?w1 = lw_calls w" by (simp_all add: w1)
  ultimately show "lists_ok E ?w1" using rows_dropped_ok [OF assms(1)] by blast
qed

lemma delete_items_ok:
  assumes "lists_ok E w" "\<And>a k. (a, k) \<in> set ps \<Longrightarrow> only_holder S k (Of_Member i a)" "stored w \<subseteq> S"
    "\<And>x. x \<in> stored w \<Longrightarrow> list_of (fst x) \<noteq> i"
  shows "lists_ok E (fold (\<lambda>(_, rkey). delete_atp_graph_listitem E me rkey) ps w)
    \<and> stored (fold (\<lambda>(_, rkey). delete_atp_graph_listitem E me rkey) ps w) = stored w"
  using assms(1,2,3,4)
proof (induction ps arbitrary: w)
  case (Cons p ps)
  obtain a k where p: "p = (a, k)" by (cases p)
  have "stored w \<subseteq> S - held_by (Of_Member i a)" using Cons.prems(3,4) by (fastforce simp: held_by_def)
  then have "lists_ok E (delete_atp_graph_listitem E me k w)"
    by (intro delete_record_ok [OF Cons.prems(1) Cons.prems(2)]) (simp_all add: p)
  then have "lists_ok E (fold (\<lambda>(_, rkey). delete_atp_graph_listitem E me rkey) ps (delete_atp_graph_listitem E me k w))
    \<and> stored (fold (\<lambda>(_, rkey). delete_atp_graph_listitem E me rkey) ps (delete_atp_graph_listitem E me k w)) = stored w"
    using Cons.IH [of "delete_atp_graph_listitem E me k w"] Cons.prems(2,3,4) by (simp add: p)
  then show ?case by (simp add: p)
qed simp

lemma delete_ok:
  assumes "lists_ok E w"
  shows "lists_ok E (snd (delete_list E u i w))"
proof -
  let ?me = "lu_actor_id u"
  have "lists_ok E (snd (delete_list E u i w))" if i: "parse_i64 i = Some j" and moved: "\<not> lu_did_moved_out u" for j
  proof (cases "fst (lists_delete j ?me w) = 0")
    case True
    then have "snd (lists_delete j ?me w) = w" by (auto simp: lists_delete_def Let_def filter_id_conv filter_empty_conv)
    then have "lists_delete j ?me w = (0, w)" using True by (simp add: prod_eq_iff)
    then show ?thesis using assms i moved by (simp add: delete_list_def Let_def)
  next
    case False
    then obtain l where l: "l \<in> set (lw_lists w)" "l_id l = j" "l_owner_actor_id l = ?me"
      by (auto simp: lists_delete_def Let_def filter_empty_conv)
    then have "find_list w j \<noteq> None" by (auto simp: find_list_def find_None_iff)
    then obtain l' where f: "find_list w j = Some l'" by blast
    have ok: "rows_ok w" "keys_ok E w" using assms by (simp_all add: lists_ok_def)
    have found: "find_list w j = Some l" using list_at [OF ok(1) f l(1,2)] f by simp
    obtain n w1 where n: "lists_delete j ?me w = (n, w1)" by fastforce
    let ?w2 = "w1\<lparr>lw_touched := lw_touched w1 + 1\<rparr>"
    define w3 where "w3 = fold maybe_unfollow_if_unreferenced (map (\<lambda>(m, _). lm_actor_id m) (filter (\<lambda>(_, a). a_actor_type a = ''fedi'') (lists_members w j))) ?w2"
    have st2: "stored ?w2 = stored w1" by (rule stored_lists_members) simp_all
    have "lists_ok E w1" using delete_rows(1) [OF assms found l(3)] n by simp
    then have w3: "lists_ok E w3" "stored w3 = stored w1"
      using unfollow_all_ok [OF touched_ok] unfolding w3_def st2 [symmetric] by blast+
    have gone: "x \<in> stored w \<and> list_of (fst x) \<noteq> j" if "x \<in> stored w3" for x
      using delete_rows(2) [OF assms found l(3)] that w3(2) n by simp
    define wi where "wi = fold (\<lambda>(_, rkey). delete_atp_graph_listitem E ?me rkey) (members_with_atp_record w j) w3"
    have wi: "lists_ok E wi \<and> stored wi = stored w3"
      unfolding wi_def by (rule delete_items_ok [OF w3(1) member_only [OF ok(2) found]]) (use gone in blast)+
    have list: "lists_ok E (delete_atp_graph_list E ?me k wi)" if "l_at_rkey l = Some k" for k
      by (rule delete_record_ok [OF _ list_only [OF ok(2) found that]]) (use wi in \<open>simp_all\<close>, use gone in \<open>fastforce simp: held_by_def\<close>)
    have "snd (delete_list E u i w) = (if l_is_public l then (case l_at_rkey l of Some k \<Rightarrow> delete_atp_graph_list E ?me k wi | None \<Rightarrow> wi) else w3)"
      unfolding delete_list_def Let_def i option.case found n prod.case w3_def [symmetric] wi_def [symmetric]
      using False n moved by simp
    then show ?thesis using wi w3(1) list by (simp split: option.split)
  qed
  then show ?thesis using assms by (cases "parse_i64 i") (auto simp: delete_list_def Let_def)
qed

lemma resolve_rows:
  "resolve_add_member_target E req w = (r, w1) \<Longrightarrow> lw_lists w1 = lw_lists w \<and> lw_members w1 = lw_members w
     \<and> lw_records w1 = lw_records w \<and> lw_calls w \<le> lw_calls w1 \<and> lw_proxy_jobs w1 = lw_proxy_jobs w"
  by (auto simp: resolve_add_member_target_def split: option.splits)

lemma add_rows:
  assumes "lists_ok E w" "find_list w i = Some l"
  shows "lists_ok E (lists_add_member i a now w)" "find_list (lists_add_member i a now w) j = find_list w j"
    "(i, a) \<in> member_pair ` set (lw_members (lists_add_member i a now w))"
proof -
  let ?w1 = "lists_add_member i a now w"
  let ?m = "\<lparr>lm_list_id = i, lm_actor_id = a, lm_added_at = now, lm_at_rkey = None, lm_at_uri = None\<rparr>"
  have l: "l \<in> set (lw_lists w)" "l_id l = i" using find_list_in [OF assms(2)] by simp_all
  show "find_list ?w1 j = find_list w j" by (simp add: lists_add_member_def find_list_def)
  show "(i, a) \<in> member_pair ` set (lw_members ?w1)"
    by (auto simp: lists_add_member_def list_ex_iff is_member_def member_pair_def image_iff)
  show "lists_ok E ?w1"
  proof (cases "list_ex (is_member i a) (lw_members w)")
    case False
    then have w1: "?w1 = w\<lparr>lw_members := lw_members w @ [?m]\<rparr>" by (simp add: lists_add_member_def)
    have "member_refs l' ?m = {}" for l' by (simp add: member_refs_def)
    then have st: "stored ?w1 = stored w" by (simp add: stored_def w1)
    have "(i, a) \<notin> member_pair ` set (lw_members w)" using False by (auto simp: list_ex_iff is_member_def member_pair_def)
    then have "rows_ok ?w1" using assms(1) l by (auto simp: w1 lists_ok_def rows_ok_def member_pair_def)
    moreover have "public_ids ?w1 = public_ids w" by (simp add: w1 public_ids_def)
    then have "list_of ` fst ` stored ?w1 \<subseteq> public_ids ?w1" using assms(1) by (simp add: st lists_ok_def private_ok_def)
    ultimately show ?thesis by (intro rows_dropped_ok [OF assms(1)]) (simp_all add: st, simp_all add: w1)
  qed (use assms(1) in \<open>simp add: lists_add_member_def\<close>)
qed

lemma add_ok:
  assumes "lists_ok E w" "inj (le_rkey E)"
  shows "lists_ok E (snd (add_member E u i req w))"
proof (cases "owned_list u i w")
  case (Inl e)
  then show ?thesis using assms(1) by (simp add: add_member_def Let_def)
next
  case (Inr l)
  note found = owned_list_found [OF Inr]
  obtain r w1 where r: "resolve_add_member_target E req w = (r, w1)" by fastforce
  note same = resolve_rows [OF r]
  have ok1: "lists_ok E w1" by (rule lists_ok_cong [OF assms(1)]) (simp_all add: same)
  have found1: "find_list w1 (l_id l) = Some l" using found same by (simp add: find_list_def)
  show ?thesis
  proof (cases r)
    case (Inl e)
    then have "snd (add_member E u i req w) \<in> {w, w1}" by (simp add: add_member_def Let_def Inr r)
    then show ?thesis using assms(1) ok1 by auto
  next
    case R: (Inr target)
    define w2 where "w2 = lists_add_member (l_id l) (a_id target) (le_now E (lw_calls w1)) w1"
    define w3 where "w3 = (if a_actor_type target = ''fedi'' \<and> \<not> actor_referenced_by_any_list w1 (a_id target) then enqueue_proxy_follow_sync (a_id target) True w2 else w2)"
    define w4 where "w4 = (if a_actor_type target \<in> {''bsky'', ''remote_seiran''} then w3\<lparr>lw_touched := lw_touched w3 + 1\<rparr> else w3)"
    define w5 where "w5 = (if l_is_public l then maybe_publish_listitem E (l_id l) (l_at_uri l) (lu_actor_id u) target w4 else w4)"
    have same4: "lw_lists w4 = lw_lists w2" "lw_members w4 = lw_members w2" "lw_records w4 = lw_records w2" "lw_calls w4 = lw_calls w2"
      by (simp_all add: w4_def w3_def enqueue_proxy_follow_sync_def)
    have "lists_ok E w2" unfolding w2_def by (rule add_rows(1) [OF ok1 found1])
    then have ok4: "lists_ok E w4" by (rule lists_ok_cong) (simp_all add: same4)
    have "find_list w2 (l_id l) = Some l" unfolding w2_def add_rows(2) [OF ok1 found1] by (rule found1)
    then have found4: "find_list w4 (l_id l) = Some l" by (simp add: find_list_def same4)
    have "(l_id l, a_id target) \<in> member_pair ` set (lw_members w4)"
      unfolding same4 w2_def by (rule add_rows(3) [OF ok1 found1])
    then have "lists_ok E w5" using publish_item_ok [OF ok4 assms(2) found4] found ok4 by (simp add: w5_def)
    moreover have "snd (add_member E u i req w) \<in> {w, w5}"
      unfolding add_member_def Let_def Inr sum.case r prod.case R w2_def [symmetric] w3_def [symmetric] w4_def [symmetric] w5_def [symmetric] by simp
    ultimately show ?thesis using assms(1) by auto
  qed
qed

lemma list_step_ok: "lists_ok E w \<Longrightarrow> inj (le_rkey E) \<Longrightarrow> lists_ok E (list_step E op w)"
  by (cases op) (simp_all add: create_ok update_ok delete_ok add_ok remove_ok)

lemma list_history_ok: "lists_ok E w \<Longrightarrow> inj (le_rkey E) \<Longrightarrow> lists_ok E (fold (list_step E) ops w)"
  by (induction ops arbitrary: w) (simp_all add: list_step_ok)

end
