(* ===== verification/List_Relay.thy ===== *)
theory List_Relay
  imports List_Inv
begin

text \<open>
  The relay account. The handlers of lists enqueue jobs that say for an account on another server whether the relay
  is to follow it; the workers run them in between. A handler is one step here: what it does between its database
  statements is not interleaved with other handlers. A job whose message cannot be sent stays to be retried.
\<close>

section \<open>The last job of an account\<close>

definition wanted_after :: "(actor_id \<times> bool) list \<Rightarrow> actor_id \<Rightarrow> bool \<Rightarrow> bool" where
  "wanted_after jobs a = fold (\<lambda>(b, want) x. if b = a then want else x) jobs"

lemma wanted_after_append [simp]: "wanted_after (js @ ks) a x = wanted_after ks a (wanted_after js a x)"
  by (simp add: wanted_after_def)

lemma wanted_after_single [simp]: "wanted_after [(b, want)] a x = (if b = a then want else x)" "wanted_after [] a x = x"
  by (simp_all add: wanted_after_def)

lemma wanted_after_others: "a \<notin> fst ` set js \<Longrightarrow> wanted_after js a x = x"
  unfolding wanted_after_def by (induction js arbitrary: x) auto

definition relayed_actor :: "list_world \<Rightarrow> actor_id \<Rightarrow> bool" where
  "relayed_actor w a \<longleftrightarrow> (case find_list_actor w a of None \<Rightarrow> False | Some r \<Rightarrow> a_actor_type r = ''fedi'' \<and> a_withdrawn_at r = None)"

definition relay_ok :: "actor_id set \<Rightarrow> list_world \<Rightarrow> bool" where
  "relay_ok F w \<longleftrightarrow> (\<forall>a. relayed_actor w a \<longrightarrow> wanted_after (lw_proxy_jobs w) a (a \<in> F) = actor_referenced_by_any_list w a)
     \<and> lm_actor_id ` set (lw_members w) \<subseteq> dom (find_list_actor w) \<and> fst ` set (lw_proxy_jobs w) \<subseteq> dom (find_list_actor w)
     \<and> F \<subseteq> dom (find_list_actor w)"

section \<open>What leaves the jobs alone\<close>

definition same_relay :: "list_world \<Rightarrow> list_world \<Rightarrow> bool" where
  "same_relay w w' \<longleftrightarrow> lw_proxy_jobs w' = lw_proxy_jobs w \<and> lw_actors w' = lw_actors w
     \<and> map lm_actor_id (lw_members w') = map lm_actor_id (lw_members w)"

lemma same_relay_refl [simp]: "same_relay w w"
  by (simp add: same_relay_def)

lemma same_relay_trans: "same_relay w w' \<Longrightarrow> same_relay w' w'' \<Longrightarrow> same_relay w w''"
  by (simp add: same_relay_def)

lemma referenced_iff: "actor_referenced_by_any_list w a \<longleftrightarrow> a \<in> lm_actor_id ` set (lw_members w)"
  by (auto simp: actor_referenced_by_any_list_def list_ex_iff)

lemma same_relay_ok: "same_relay w w' \<Longrightarrow> relay_ok F w \<Longrightarrow> relay_ok F w'"
  unfolding same_relay_def relay_ok_def relayed_actor_def find_list_actor_def referenced_iff set_map [symmetric] by simp

lemma same_relay_steps:
  "same_relay w (w\<lparr>lw_records := R, lw_calls := n\<rparr>)" "same_relay w (w\<lparr>lw_calls := n\<rparr>)" "same_relay w (w\<lparr>lw_touched := t\<rparr>)"
  "same_relay w (delete_graph_record E b o' k w)"
  "same_relay w (set_member_atp_record i a k uri w)" "same_relay w (clear_member_atp_record i a w)"
  "same_relay w (set_atp_list_record i k uri cid w)" "same_relay w (clear_atp_list_record i w)"
  by (simp_all add: same_relay_def set_member_atp_record_def clear_member_atp_record_def set_atp_list_record_def
      clear_atp_list_record_def change_list_def change_member_def)

lemma same_relay_fold: "(\<And>x v. same_relay v (f x v)) \<Longrightarrow> same_relay w (fold f xs w)"
  by (induction xs arbitrary: w) (simp_all, meson same_relay_trans)

lemma publish_same_relay: "same_relay w (publish_list_to_atp E i owner name w)" "same_relay w (maybe_publish_listitem E i uri owner target w)"
proof -
  show "same_relay w (publish_list_to_atp E i owner name w)"
    by (cases "le_commit_ok E (lw_calls w)")
       (auto simp: publish_list_to_atp_def commit_graph_list_def Let_def
          intro: same_relay_steps(2) same_relay_trans [OF same_relay_steps(1) same_relay_steps(7)])
  show "same_relay w (maybe_publish_listitem E i uri owner target w)"
    by (cases "le_commit_ok E (lw_calls w)")
       (auto simp: maybe_publish_listitem_def commit_graph_listitem_def Let_def split: option.splits
          intro: same_relay_steps(2) same_relay_trans [OF same_relay_steps(1) same_relay_steps(5)])
qed

lemma publish_members_same_relay: "same_relay w (publish_members E l owner w)"
  unfolding publish_members_def by (rule same_relay_fold) (simp split: prod.split option.split add: publish_same_relay)

lemma unpublish_same_relay: "same_relay w (unpublish_list_from_atp E i owner k w)"
proof -
  let ?w1 = "fold (\<lambda>(a, rkey) w. clear_member_atp_record i a (delete_atp_graph_listitem E owner rkey w)) (members_with_atp_record w i) w"
  have "same_relay w ?w1"
    by (rule same_relay_fold) (auto intro: same_relay_trans [OF same_relay_steps(4) same_relay_steps(6)])
  moreover have "same_relay ?w1 (unpublish_list_from_atp E i owner k w)"
    unfolding unpublish_list_from_atp_def Let_def
    by (cases k) (auto intro: same_relay_steps same_relay_trans [OF same_relay_steps(4) same_relay_steps(8)])
  ultimately show ?thesis by (rule same_relay_trans)
qed

section \<open>The jobs\<close>

definition unneeded :: "list_world \<Rightarrow> actor_id \<Rightarrow> bool" where
  "unneeded w a \<longleftrightarrow> \<not> actor_referenced_by_any_list w a \<and> (\<exists>r. find_list_actor w a = Some r \<and> a_actor_type r = ''fedi'')"

lemma unfollow_wanted:
  "wanted_after (lw_proxy_jobs (fold maybe_unfollow_if_unreferenced as w)) a x
     = (\<not> (a \<in> set as \<and> unneeded w a) \<and> wanted_after (lw_proxy_jobs w) a x)"
  "fst ` set (lw_proxy_jobs (fold maybe_unfollow_if_unreferenced as w)) \<subseteq> fst ` set (lw_proxy_jobs w) \<union> dom (find_list_actor w)"
  "lw_members (fold maybe_unfollow_if_unreferenced as w) = lw_members w" "lw_actors (fold maybe_unfollow_if_unreferenced as w) = lw_actors w"
proof (induction as arbitrary: w)
  case (Cons b as)
  let ?v = "maybe_unfollow_if_unreferenced b"
  have v: "lw_members (?v w) = lw_members w" "lw_actors (?v w) = lw_actors w" for w by (simp_all add: unfollow_rows)
  then have same: "unneeded (?v w) = unneeded w" "find_list_actor (?v w) = find_list_actor w" for w
    by (simp_all add: fun_eq_iff unneeded_def referenced_iff find_list_actor_def)
  have jobs: "lw_proxy_jobs (?v w) = lw_proxy_jobs w @ (if unneeded w b then [(b, False)] else [])" for w
    by (auto simp: maybe_unfollow_if_unreferenced_def enqueue_proxy_follow_sync_def unneeded_def split: option.split)
  { case 1
    have "wanted_after (lw_proxy_jobs (?v w)) a x = (\<not> (a = b \<and> unneeded w b) \<and> wanted_after (lw_proxy_jobs w) a x)"
      unfolding jobs by simp
    then show ?case using Cons.IH(1) [of "?v w"] unfolding same by auto }
  { case 2
    have "fst ` set (lw_proxy_jobs (?v w)) \<subseteq> fst ` set (lw_proxy_jobs w) \<union> dom (find_list_actor w)"
      unfolding jobs by (auto simp: unneeded_def)
    then show ?case using Cons.IH(2) [of "?v w"] unfolding same fold_simps by blast }
  { case 3 show ?case using Cons.IH(3) [of "?v w"] v by simp }
  { case 4 show ?case using Cons.IH(4) [of "?v w"] v by simp }
qed simp_all

section \<open>The handlers\<close>

lemma relayed_actor_cong: "lw_actors w' = lw_actors w \<Longrightarrow> relayed_actor w' a = relayed_actor w a"
  by (simp add: relayed_actor_def find_list_actor_def)

text \<open>Some members go, and each that is on another server is looked at.\<close>

lemma unfollow_relay_ok:
  assumes "relay_ok F w" "lw_proxy_jobs w1 = lw_proxy_jobs w" "lw_actors w1 = lw_actors w"
    "lm_actor_id ` set (lw_members w1) \<subseteq> lm_actor_id ` set (lw_members w)"
    "\<And>a. relayed_actor w a \<Longrightarrow> a \<in> lm_actor_id ` set (lw_members w) \<Longrightarrow> a \<notin> lm_actor_id ` set (lw_members w1) \<Longrightarrow> a \<in> set as"
  shows "relay_ok F (fold maybe_unfollow_if_unreferenced as w1)"
proof -
  let ?v = "fold maybe_unfollow_if_unreferenced as w1"
  have find: "find_list_actor ?v = find_list_actor w" "find_list_actor w1 = find_list_actor w"
    by (simp_all add: fun_eq_iff find_list_actor_def unfollow_wanted(4) assms(3))
  have relayed: "relayed_actor ?v a = relayed_actor w a" for a by (rule relayed_actor_cong) (simp add: unfollow_wanted(4) assms(3))
  have "wanted_after (lw_proxy_jobs ?v) a (a \<in> F) = actor_referenced_by_any_list ?v a" if a: "relayed_actor w a" for a
  proof -
    have un: "unneeded w1 a \<longleftrightarrow> a \<notin> lm_actor_id ` set (lw_members w1)"
      using a by (auto simp: unneeded_def referenced_iff relayed_actor_def find(2) split: option.splits)
    have "wanted_after (lw_proxy_jobs w1) a (a \<in> F) \<longleftrightarrow> a \<in> lm_actor_id ` set (lw_members w)"
      using assms(1) a by (simp add: relay_ok_def referenced_iff assms(2))
    then show ?thesis using assms(4) assms(5) [OF a]
      unfolding unfollow_wanted(1) un referenced_iff unfollow_wanted(3) by blast
  qed
  moreover have "lm_actor_id ` set (lw_members ?v) \<subseteq> dom (find_list_actor w)"
    unfolding unfollow_wanted(3) by (rule subset_trans [OF assms(4)]) (use assms(1) in \<open>simp add: relay_ok_def\<close>)
  moreover have "fst ` set (lw_proxy_jobs ?v) \<subseteq> dom (find_list_actor w)"
    by (rule subset_trans [OF unfollow_wanted(2)]) (use assms(1) in \<open>simp add: relay_ok_def assms(2) find(2)\<close>)
  moreover have "F \<subseteq> dom (find_list_actor w)" using assms(1) by (simp add: relay_ok_def)
  ultimately show ?thesis by (simp add: relay_ok_def relayed find)
qed

lemma create_same_relay: "same_relay w (snd (create_list E u name public w))"
proof -
  have "same_relay w (if public then publish_list_to_atp E i me n w' else w')" if "lists_create i me n public t (tick w) = Some w'" for i me n t w'
  proof -
    have "same_relay w w'" using that by (auto simp: lists_create_def same_relay_def split: if_splits)
    then show ?thesis using publish_same_relay(1) same_relay_trans by auto
  qed
  then show ?thesis using same_relay_steps(2) by (auto simp: create_list_def Let_def split: option.splits)
qed

lemma update_same_relay: "same_relay w (snd (update_list E u i name public w))"
proof (cases "owned_list u i w")
  case (Inr l)
  let ?me = "lu_actor_id u" and ?n = "le_trim E name"
  obtain n w1 where upd: "lists_update (l_id l) ?me ?n public w = (n, w1)" by fastforce
  have w1: "same_relay w w1" using upd by (auto simp: lists_update_def same_relay_def)
  define w2 where "w2 = (if \<not> l_is_public l \<and> public then (let wp = publish_list_to_atp E (l_id l) ?me ?n w1 in
       case find_list wp (l_id l) of Some l \<Rightarrow> publish_members E l ?me wp | None \<Rightarrow> wp)
     else if l_is_public l \<and> \<not> public then unpublish_list_from_atp E (l_id l) ?me (l_at_rkey l) w1 else w1)"
  have "same_relay w1 w2"
    using same_relay_trans [OF publish_same_relay(1) publish_members_same_relay] publish_same_relay(1) unpublish_same_relay
    by (auto simp: w2_def Let_def split: option.split)
  then have "same_relay w w2" by (rule same_relay_trans [OF w1])
  moreover have "snd (update_list E u i name public w) \<in> {w, w1, w2}"
    unfolding update_list_def Let_def Inr sum.case upd prod.case w2_def [unfolded Let_def, symmetric] by (simp split: option.split)
  ultimately show ?thesis using w1 by auto
qed (simp add: update_list_def Let_def)

lemma in_lists_members:
  assumes "m \<in> set (lw_members w)" "find_list_actor w (lm_actor_id m) = Some r" "a_withdrawn_at r = None"
  shows "(m, r) \<in> set (lists_members w (lm_list_id m))"
proof -
  let ?f = "\<lambda>m'. if lm_list_id m' = lm_list_id m then (case find_list_actor w (lm_actor_id m') of
         None \<Rightarrow> None | Some a \<Rightarrow> if a_withdrawn_at a = None then Some (m', a) else None) else None"
  have "(m, r) \<in> set (List.map_filter ?f (lw_members w))" using assms by (force simp: map_filter_def image_iff)
  then show ?thesis unfolding lists_members_def by (simp only: set_rev set_sort)
qed

lemma relay_ok_touched: "relay_ok F w \<Longrightarrow> relay_ok F (w\<lparr>lw_touched := n\<rparr>)"
  by (rule same_relay_ok [OF same_relay_steps(3)])

lemma delete_items_same_relay: "same_relay w (fold (\<lambda>(_, rkey). delete_atp_graph_listitem E me rkey) ps w)"
  by (rule same_relay_fold) (auto intro: same_relay_steps)

lemma delete_relay_ok:
  assumes "relay_ok F w"
  shows "relay_ok F (snd (delete_list E u i w))"
proof -
  let ?me = "lu_actor_id u"
  have "relay_ok F (snd (delete_list E u i w))" if i: "parse_i64 i = Some j" for j
  proof -
    obtain n w1 where n: "lists_delete j ?me w = (n, w1)" by fastforce
    have w1: "lw_proxy_jobs w1 = lw_proxy_jobs w" "lw_actors w1 = lw_actors w"
      "lw_members w1 = lw_members w \<or> lw_members w1 = filter (\<lambda>m. lm_list_id m \<noteq> j) (lw_members w)" "n = 0 \<Longrightarrow> w1 = w"
      using n by (auto simp: lists_delete_def Let_def filter_id_conv filter_empty_conv split: if_splits)
    let ?as = "map (\<lambda>(m, _). lm_actor_id m) (filter (\<lambda>(_, a). a_actor_type a = ''fedi'') (lists_members w j))"
    define w3 where "w3 = fold maybe_unfollow_if_unreferenced ?as (w1\<lparr>lw_touched := lw_touched w1 + 1\<rparr>)"
    have w3: "relay_ok F w3" unfolding w3_def
    proof (rule unfollow_relay_ok [OF assms])
      show "lm_actor_id ` set (lw_members (w1\<lparr>lw_touched := lw_touched w1 + 1\<rparr>)) \<subseteq> lm_actor_id ` set (lw_members w)"
        using w1(3) by auto
      fix a assume a: "relayed_actor w a" "a \<in> lm_actor_id ` set (lw_members w)"
        "a \<notin> lm_actor_id ` set (lw_members (w1\<lparr>lw_touched := lw_touched w1 + 1\<rparr>))"
      then obtain m where m: "m \<in> set (lw_members w)" "lm_actor_id m = a" "m \<notin> set (lw_members w1)" by (auto simp: image_iff)
      then have j: "lm_list_id m = j" using w1(3) by auto
      obtain r where r: "find_list_actor w a = Some r" "a_actor_type r = ''fedi''" "a_withdrawn_at r = None"
        using a(1) by (auto simp: relayed_actor_def split: option.splits)
      then have "(m, r) \<in> set (lists_members w j)" using in_lists_members [OF m(1), of r] m j by simp
      then show "a \<in> set ?as" using m(2) r(2) by (force simp: image_iff)
    qed (simp_all add: w1)
    define wi where "wi = fold (\<lambda>(_, rkey). delete_atp_graph_listitem E ?me rkey) (members_with_atp_record w j) w3"
    have wi: "relay_ok F wi" unfolding wi_def by (rule same_relay_ok [OF delete_items_same_relay w3])
    have "relay_ok F (delete_atp_graph_list E ?me k wi)" for k by (rule same_relay_ok [OF same_relay_steps(4) wi])
    then have "relay_ok F (case find_list w j of Some b \<Rightarrow> if l_is_public b
          then (case l_at_rkey b of Some rkey \<Rightarrow> delete_atp_graph_list E ?me rkey wi | None \<Rightarrow> wi) else w3 | None \<Rightarrow> w3)"
      using wi w3 by (simp split: option.split)
    then show ?thesis
      unfolding delete_list_def Let_def i option.case n prod.case w3_def [symmetric] wi_def [symmetric] using assms w1(4) by simp
  qed
  then show ?thesis using assms by (cases "parse_i64 i") (auto simp: delete_list_def Let_def)
qed

lemma remove_relay_ok:
  assumes "relay_ok F w"
  shows "relay_ok F (snd (remove_member E u i a w))"
proof (cases "owned_list u i w")
  case (Inr l)
  have "relay_ok F (snd (remove_member E u i a w))" if b: "parse_i64 a = Some b" for b
  proof -
    obtain d w1 where d: "lists_remove_member (l_id l) b w = (d, w1)" by fastforce
    then have w1: "lw_proxy_jobs w1 = lw_proxy_jobs w" "lw_actors w1 = lw_actors w" "\<not> d \<Longrightarrow> w1 = w"
      "lw_members w1 = filter (\<lambda>m. \<not> is_member (l_id l) b m) (lw_members w)"
      by (auto simp: lists_remove_member_def filter_id_conv list_ex_iff)
    have "relay_ok F (fold maybe_unfollow_if_unreferenced [b] w1)"
    proof (rule unfollow_relay_ok [OF assms w1(1,2)])
      show "lm_actor_id ` set (lw_members w1) \<subseteq> lm_actor_id ` set (lw_members w)" by (auto simp: w1(4))
    qed (auto simp: w1(4) is_member_def)
    then have w3: "relay_ok F ((maybe_unfollow_if_unreferenced b w1)\<lparr>lw_touched := t\<rparr>)" for t
      using relay_ok_touched by simp
    have "relay_ok F (case find_member_atp_rkey w (l_id l) b of
        Some rkey \<Rightarrow> delete_atp_graph_listitem E (lu_actor_id u) rkey ((maybe_unfollow_if_unreferenced b w1)\<lparr>lw_touched := t\<rparr>)
      | None \<Rightarrow> (maybe_unfollow_if_unreferenced b w1)\<lparr>lw_touched := t\<rparr>)" for t
      using w3 same_relay_ok [OF same_relay_steps(4) w3] by (simp split: option.split)
    then show ?thesis unfolding remove_member_def Let_def b option.case Inr sum.case d prod.case using assms w1(3) by simp
  qed
  then show ?thesis using assms by (cases "parse_i64 a") (simp_all add: remove_member_def)
qed (use assms in \<open>simp add: remove_member_def split: option.split\<close>)

lemma resolve_relay_ok:
  assumes "relay_ok F w" "resolve_add_member_target E req w = (r, w1)"
  shows "relay_ok F w1" "r = Inr t \<Longrightarrow> find_list_actor w1 (a_id t) = Some t"
proof -
  have new: "relay_ok F (w\<lparr>lw_actors := lw_actors w @ [r], lw_calls := n\<rparr>)" if "find_list_actor w (a_id r) = None" for r n
  proof -
    let ?v = "w\<lparr>lw_actors := lw_actors w @ [r], lw_calls := n\<rparr>"
    have find: "find_list_actor ?v a = (if a = a_id r then Some r else find_list_actor w a)" for a
      using that by (auto simp: find_list_actor_def find_snoc split: option.split)
    have "a_id r \<notin> lm_actor_id ` set (lw_members w)" "a_id r \<notin> fst ` set (lw_proxy_jobs w)" "a_id r \<notin> F"
      using that assms(1) unfolding relay_ok_def by blast+
    then have "wanted_after (lw_proxy_jobs w) (a_id r) (a_id r \<in> F) = actor_referenced_by_any_list w (a_id r)"
      by (simp add: wanted_after_others referenced_iff)
    moreover have "dom (find_list_actor w) \<subseteq> dom (find_list_actor ?v)" by (auto simp: find)
    ultimately show ?thesis using assms(1)
      by (auto simp: relay_ok_def relayed_actor_def find referenced_iff split: if_splits option.splits)
  qed
  have "find_list_actor w a = Some k \<Longrightarrow> a_id k = a" for a k by (auto simp: find_list_actor_def find_Some_iff)
  moreover have "find_list_actor (tick w) a = find_list_actor w a" for a by (simp add: find_list_actor_def)
  moreover have "find_list_actor (w\<lparr>lw_actors := lw_actors w @ [r], lw_calls := n\<rparr>) (a_id r) = Some r" if "find_list_actor w (a_id r) = None" for r n
    using that by (simp add: find_list_actor_def find_snoc)
  ultimately show "relay_ok F w1" "r = Inr t \<Longrightarrow> find_list_actor w1 (a_id t) = Some t"
    using assms new same_relay_ok [OF same_relay_steps(2) assms(1)]
    by (auto simp: resolve_add_member_target_def split: option.splits)
qed

lemma add_relay_ok:
  assumes "relay_ok F w"
  shows "relay_ok F (snd (add_member E u i req w))"
proof (cases "owned_list u i w")
  case (Inl e)
  then show ?thesis using assms by (simp add: add_member_def Let_def)
next
  case (Inr l)
  obtain r w1 where r: "resolve_add_member_target E req w = (r, w1)" by fastforce
  have ok1: "relay_ok F w1" by (rule resolve_relay_ok(1) [OF assms r])
  show ?thesis
  proof (cases r)
    case (Inl e)
    then have "snd (add_member E u i req w) \<in> {w, w1}" by (simp add: add_member_def Let_def Inr r)
    then show ?thesis using assms ok1 by auto
  next
    case R: (Inr target)
    let ?t = "a_id target"
    have t: "find_list_actor w1 ?t = Some target" by (rule resolve_relay_ok(2) [OF assms r R])
    define w2 where "w2 = lists_add_member (l_id l) ?t (le_now E (lw_calls w1)) w1"
    define w3 where "w3 = (if a_actor_type target = ''fedi'' \<and> \<not> actor_referenced_by_any_list w1 ?t then enqueue_proxy_follow_sync ?t True w2 else w2)"
    define w4 where "w4 = (if a_actor_type target \<in> {''bsky'', ''remote_seiran''} then w3\<lparr>lw_touched := lw_touched w3 + 1\<rparr> else w3)"
    define w5 where "w5 = (if l_is_public l then maybe_publish_listitem E (l_id l) (l_at_uri l) (lu_actor_id u) target w4 else w4)"
    have members: "lm_actor_id ` set (lw_members w2) = insert ?t (lm_actor_id ` set (lw_members w1))"
    proof (cases "list_ex (is_member (l_id l) ?t) (lw_members w1)")
      case True
      then have "?t \<in> lm_actor_id ` set (lw_members w1)" unfolding list_ex_iff is_member_def by (metis image_eqI)
      then show ?thesis using True by (simp add: w2_def lists_add_member_def insert_absorb)
    qed (simp add: w2_def lists_add_member_def)
    have w3: "lw_members w3 = lw_members w2" "find_list_actor w3 = find_list_actor w1"
      "lw_proxy_jobs w3 = lw_proxy_jobs w1 @ (if a_actor_type target = ''fedi'' \<and> \<not> actor_referenced_by_any_list w1 ?t then [(?t, True)] else [])"
      by (auto simp: w3_def w2_def lists_add_member_def enqueue_proxy_follow_sync_def find_list_actor_def fun_eq_iff)
    have "wanted_after (lw_proxy_jobs w3) a (a \<in> F) = actor_referenced_by_any_list w3 a" if a: "relayed_actor w1 a" for a
    proof -
      have "wanted_after (lw_proxy_jobs w1) a (a \<in> F) = actor_referenced_by_any_list w1 a" using ok1 a by (simp add: relay_ok_def)
      moreover have "a_actor_type target = ''fedi''" if "a = ?t" using a t that by (simp add: relayed_actor_def)
      ultimately show ?thesis by (auto simp: w3(3) referenced_iff w3(1) members)
    qed
    moreover have "relayed_actor w3 a = relayed_actor w1 a" for a by (simp add: relayed_actor_def w3(2))
    moreover have "lm_actor_id ` set (lw_members w3) \<subseteq> dom (find_list_actor w1)" "fst ` set (lw_proxy_jobs w3) \<subseteq> dom (find_list_actor w1)"
      "F \<subseteq> dom (find_list_actor w1)"
      using ok1 t unfolding w3 members relay_ok_def by auto
    ultimately have "relay_ok F w3" by (simp add: relay_ok_def w3(2))
    then have "relay_ok F w4" using relay_ok_touched by (simp add: w4_def)
    then have "relay_ok F w5" using same_relay_ok [OF publish_same_relay(2)] by (simp add: w5_def)
    moreover have "snd (add_member E u i req w) \<in> {w, w5}"
      unfolding add_member_def Let_def Inr sum.case r prod.case R w2_def [symmetric] w3_def [symmetric] w4_def [symmetric] w5_def [symmetric] by simp
    ultimately show ?thesis using assms by auto
  qed
qed

lemma list_step_relay_ok: "relay_ok F w \<Longrightarrow> relay_ok F (list_step E op w)"
  by (cases op) (simp_all add: same_relay_ok [OF create_same_relay] same_relay_ok [OF update_same_relay] delete_relay_ok add_relay_ok remove_relay_ok)

section \<open>Handlers and workers\<close>

text \<open>
  The jobs wait in the order in which they were enqueued. A worker takes one that no job about the same account
  waits before, and its message is sent or not. When it is not, the job stays to be retried; jobs about
  other accounts may overtake it, those about its own account do not.
\<close>

datatype relay_event = Handle list_op | Run_Sync nat bool

definition may_run :: "(actor_id \<times> bool) list \<Rightarrow> nat \<Rightarrow> bool" where
  "may_run jobs i \<longleftrightarrow> i < length jobs \<and> fst (jobs ! i) \<notin> fst ` set (take i jobs)"

fun relay_step :: "list_env \<Rightarrow> relay_event \<Rightarrow> list_world \<times> relay \<Rightarrow> list_world \<times> relay" where
  "relay_step E (Handle op) (w, r) = (list_step E op w, r)"
| "relay_step E (Run_Sync i sends) (w, r) =
     (let jobs = lw_proxy_jobs w; (done, r') = proxy_follow_sync (fst (jobs ! i)) (snd (jobs ! i)) sends r
      in if may_run jobs i \<and> done then (w\<lparr>lw_proxy_jobs := take i jobs @ drop (Suc i) jobs\<rparr>, r') else (w, r))"

lemma wanted_after_ran:
  assumes "may_run jobs i"
  shows "wanted_after (take i jobs @ drop (Suc i) jobs) a (if a = fst (jobs ! i) then snd (jobs ! i) else x) = wanted_after jobs a x"
proof -
  have "jobs = take i jobs @ [jobs ! i] @ drop (Suc i) jobs" using assms by (simp add: may_run_def id_take_nth_drop)
  from arg_cong [OF this, of "\<lambda>js. wanted_after js a x"]
  have "wanted_after jobs a x = wanted_after (drop (Suc i) jobs) a (wanted_after [jobs ! i] a (wanted_after (take i jobs) a x))"
    unfolding wanted_after_append .
  moreover have "wanted_after [jobs ! i] a y = (if a = fst (jobs ! i) then snd (jobs ! i) else y)" for y
    by (simp add: wanted_after_def case_prod_beta)
  moreover have "wanted_after (take i jobs) a y = y" if "a = fst (jobs ! i)" for y
    using assms that by (simp add: may_run_def wanted_after_others)
  ultimately show ?thesis unfolding wanted_after_append by (cases "a = fst (jobs ! i)") (simp_all only: if_True if_False)
qed

lemma sync_done: "proxy_follow_sync a want sends r = (True, r') \<Longrightarrow>
  set (rl_follows r') = (if want then insert a (set (rl_follows r)) else set (rl_follows r) - {a})"
  by (auto simp: proxy_follow_sync_def split: if_splits)

lemma run_sync_relay_ok:
  assumes ok: "relay_ok (set (rl_follows r)) w" and run: "may_run (lw_proxy_jobs w) i"
    and sync: "proxy_follow_sync (fst (lw_proxy_jobs w ! i)) (snd (lw_proxy_jobs w ! i)) sends r = (True, r')"
  shows "relay_ok (set (rl_follows r')) (w\<lparr>lw_proxy_jobs := take i (lw_proxy_jobs w) @ drop (Suc i) (lw_proxy_jobs w)\<rparr>)"
proof -
  let ?jobs = "lw_proxy_jobs w"
  let ?w = "w\<lparr>lw_proxy_jobs := take i ?jobs @ drop (Suc i) ?jobs\<rparr>"
  have same: "find_list_actor ?w = find_list_actor w" "relayed_actor ?w = relayed_actor w"
    "actor_referenced_by_any_list ?w = actor_referenced_by_any_list w"
    by (simp_all add: fun_eq_iff find_list_actor_def relayed_actor_def actor_referenced_by_any_list_def)
  have in_r': "(a \<in> set (rl_follows r')) = (if a = fst (?jobs ! i) then snd (?jobs ! i) else a \<in> set (rl_follows r))" for a
    unfolding sync_done [OF sync] by auto
  have known: "fst ` set ?jobs \<subseteq> dom (find_list_actor w)" "set (rl_follows r) \<subseteq> dom (find_list_actor w)"
    using ok unfolding relay_ok_def by simp_all
  have "fst (?jobs ! i) \<in> fst ` set ?jobs" using run by (simp add: may_run_def)
  then have "insert (fst (?jobs ! i)) (set (rl_follows r)) \<subseteq> dom (find_list_actor w)"
    using known(2) subsetD [OF known(1)] by (simp only: insert_subset)
  moreover have "set (rl_follows r') \<subseteq> insert (fst (?jobs ! i)) (set (rl_follows r))" unfolding sync_done [OF sync] by auto
  ultimately have follows: "set (rl_follows r') \<subseteq> dom (find_list_actor w)" by (rule order_trans [rotated])
  have "fst ` set (take i ?jobs @ drop (Suc i) ?jobs) \<subseteq> fst ` set ?jobs" by (auto dest: in_set_takeD in_set_dropD)
  then have "fst ` set (take i ?jobs @ drop (Suc i) ?jobs) \<subseteq> dom (find_list_actor w)" by (rule order_trans) (rule known(1))
  moreover have "wanted_after (take i ?jobs @ drop (Suc i) ?jobs) a (a \<in> set (rl_follows r'))
      = wanted_after ?jobs a (a \<in> set (rl_follows r))" for a
    unfolding in_r' by (rule wanted_after_ran [OF run])
  moreover have "lw_proxy_jobs ?w = take i ?jobs @ drop (Suc i) ?jobs" "lw_members ?w = lw_members w" by simp_all
  ultimately show ?thesis using ok follows unfolding relay_ok_def same by (simp only: simp_thms) (elim conjE, assumption)
qed

lemma relay_step_ok:
  assumes "relay_ok (set (rl_follows r)) w" "relay_step E ev (w, r) = (w', r')"
  shows "relay_ok (set (rl_follows r')) w'"
  using assms by (cases ev) (auto simp: Let_def list_step_relay_ok run_sync_relay_ok split: prod.splits if_splits)

lemma relay_history_ok:
  "relay_ok (set (rl_follows r)) w \<Longrightarrow> fold (relay_step E) evs (w, r) = (w', r') \<Longrightarrow> relay_ok (set (rl_follows r')) w'"
proof (induction evs arbitrary: w r)
  case (Cons ev evs)
  obtain w1 r1 where 1: "relay_step E ev (w, r) = (w1, r1)" by fastforce
  show ?case using Cons.IH [OF relay_step_ok [OF Cons.prems(1) 1]] Cons.prems(2) 1 by simp
qed simp

text \<open>The jobs that wait can be run to the end, without a change of the lists.\<close>

lemma relay_drains:
  "lw_proxy_jobs w = jobs \<Longrightarrow>
   \<exists>r'. fold (relay_step E) (replicate (length jobs) (Run_Sync 0 True)) (w, r) = (w\<lparr>lw_proxy_jobs := []\<rparr>, r')"
proof (induction jobs arbitrary: w r)
  case (Cons j jobs)
  let ?s = "proxy_follow_sync (fst j) (snd j) True r"
  have "fst ?s" by (simp add: proxy_follow_sync_def)
  then have "relay_step E (Run_Sync 0 True) (w, r) = (w\<lparr>lw_proxy_jobs := jobs\<rparr>, snd ?s)"
    using Cons.prems by (simp add: Let_def may_run_def case_prod_beta)
  then show ?case using Cons.IH [of "w\<lparr>lw_proxy_jobs := jobs\<rparr>" "snd ?s"] by (simp del: relay_step.simps)
qed simp

end
