(* ===== verification/Timeline_Facts.thy ===== *)
theory Timeline_Facts
  imports Timelines Post_History
begin

text \<open>
  What the timelines contain: the posts the viewer may see, the newest of the union for the social timeline,
  all descendants of a post up to the depth of the query, and, for a public list, posts for followers only.
\<close>

section \<open>Rows and their joins\<close>

definition authors_known :: "post_db \<Rightarrow> bool" where
  "authors_known db \<longleftrightarrow> list_all (\<lambda>p. actor_known db (p_actor_id p)) (t_posts db)"

lemma timeline_post_joins_Cons:
  "timeline_post_joins db (p # ps) = (case find_actor (p_actor_id p) db of None \<Rightarrow> timeline_post_joins db ps
     | Some a \<Rightarrow> timeline_post_columns p a # timeline_post_joins db ps)"
  by (simp add: timeline_post_joins_def List.map_filter_def split: option.splits)

lemma timeline_post_joins_Nil [simp]: "timeline_post_joins db [] = []"
  by (simp add: timeline_post_joins_def List.map_filter_def)

lemma in_timeline_post_joins:
  "t \<in> set (timeline_post_joins db ps) \<Longrightarrow> \<exists>p a. p \<in> set ps \<and> find_actor (p_actor_id p) db = Some a \<and> t = timeline_post_columns p a"
  by (induction ps) (auto simp: timeline_post_joins_Cons split: option.splits)

lemma joined_row:
  "p \<in> set ps \<Longrightarrow> find_actor (p_actor_id p) db = Some a \<Longrightarrow> timeline_post_columns p a \<in> set (timeline_post_joins db ps)"
  by (induction ps) (auto simp: timeline_post_joins_Cons split: option.splits)

lemma tp_id_timeline_post_joins:
  "list_all (\<lambda>p. actor_known db (p_actor_id p)) ps \<Longrightarrow> map tp_id (timeline_post_joins db ps) = map p_id ps"
  by (induction ps) (auto simp: timeline_post_joins_Cons actor_known_def timeline_post_columns_def)

lemma set_newest_rows [simp]: "set (newest_rows ps) = set ps"
  by (simp add: newest_rows_def)

lemma p_id_newest_rows: "map p_id (newest_rows ps) = newest_first (map p_id ps)"
  unfolding newest_rows_def newest_first_def rev_map [symmetric]
  by (rule arg_cong [of _ _ rev], rule properties_for_sort [symmetric]) simp_all

lemma newest_ids_of_rows:
  assumes "authors_known db"
  shows "map tp_id (timeline_post_joins db (newest_rows (filter P (t_posts db)))) = newest_first (map p_id (filter P (t_posts db)))"
proof -
  have "list_all (\<lambda>p. actor_known db (p_actor_id p)) (newest_rows (filter P (t_posts db)))"
    using assms by (simp add: authors_known_def list_all_iff)
  then show ?thesis by (simp add: tp_id_timeline_post_joins p_id_newest_rows)
qed

section \<open>Only what the viewer may see\<close>

definition shows_post :: "post_db \<Rightarrow> actor_id option \<Rightarrow> bool \<Rightarrow> timeline_post \<Rightarrow> bool" where
  "shows_post db viewer exclude_direct t \<longleftrightarrow> list_ex (\<lambda>p. tp_id t = p_id p \<and> tp_actor_id t = p_actor_id p \<and> tp_body t = p_body p
     \<and> live p
     \<and> (case viewer of None \<Rightarrow> True | Some u \<Rightarrow> p_actor_id p = u \<or> \<not> actor_is_hidden_for_viewer db (Some u) (p_actor_id p))
     \<and> post_is_visible_to db viewer (p_actor_id p) (p_visibility p) (p_id p) exclude_direct) (t_posts db)"

lemma not_hidden_cases:
  "not_hidden db viewer a = (case viewer of None \<Rightarrow> True | Some u \<Rightarrow> a = u \<or> \<not> actor_is_hidden_for_viewer db (Some u) a)"
  by (auto simp: not_hidden_def is_viewer_def split: option.split)

definition all_rows :: "('a \<Rightarrow> bool) \<Rightarrow> 'a list sql_result \<Rightarrow> bool" where
  "all_rows P r \<longleftrightarrow> (case r of Inl _ \<Rightarrow> True | Inr rows \<Rightarrow> list_all P rows)"

lemma shows_joined:
  "t \<in> set (timeline_post_joins db ps) \<Longrightarrow> set ps \<subseteq> set (t_posts db) \<Longrightarrow>
   (\<And>p. p \<in> set ps \<Longrightarrow> live p \<and> not_hidden db viewer (p_actor_id p)
      \<and> post_is_visible_to db viewer (p_actor_id p) (p_visibility p) (p_id p) ex) \<Longrightarrow> shows_post db viewer ex t"
  by (drule in_timeline_post_joins) (force simp: shows_post_def not_hidden_cases list_ex_iff timeline_post_columns_def)

lemma all_rows_limit: "list_all P rows \<Longrightarrow> all_rows P (limit_rows n rows)"
  by (auto simp: all_rows_def limit_rows_def list_all_iff dest: in_set_takeD)

lemma all_rows_select_page:
  "(\<And>p. P p \<Longrightarrow> live p \<and> not_hidden db viewer (p_actor_id p)
      \<and> post_is_visible_to db viewer (p_actor_id p) (p_visibility p) (p_id p) ex) \<Longrightarrow>
   all_rows (shows_post db viewer ex) (select_page db n P)"
  unfolding select_page_def by (rule all_rows_limit) (auto simp: list_all_iff intro!: shows_joined)

lemma feed_member_following:
  "feed_member db (Following v ex) p \<Longrightarrow> live p \<and> not_hidden db (Some v) (p_actor_id p)
    \<and> post_is_visible_to db (Some v) (p_actor_id p) (p_visibility p) (p_id p) ex"
  by (auto simp: not_hidden_def is_viewer_def)

lemma fetched_rows_shown:
  assumes "feed_tables_ok db"
    "\<And>i. i \<in> set ids \<Longrightarrow> \<exists>p \<in> set (t_posts db). p_id p = i \<and> live p \<and> not_hidden db viewer (p_actor_id p)
       \<and> post_is_visible_to db viewer (p_actor_id p) (p_visibility p) (p_id p) ex"
  shows "list_all (shows_post db viewer ex) (fetch_feed_posts db ids)"
proof -
  have "inj_on p_id (set (t_posts db))" using assms(1) by (simp add: feed_tables_ok_def distinct_map)
  then have same: "p = q" if "p \<in> set (t_posts db)" "q \<in> set (t_posts db)" "p_id p = p_id q" for p q
    using that by (auto dest: inj_onD)
  show ?thesis unfolding fetch_feed_posts_def list_all_iff
    by (auto intro!: shows_joined dest!: assms(2) dest: same)
qed

lemma candidate_is_member:
  assumes "feed_tables_ok db" "page_ok now pg" "i \<in> set (feed_candidate_ids (\<lambda>_. db) now source pg)"
  shows "\<exists>p \<in> set (t_posts db). p_id p = i \<and> feed_member db source p"
  using assms(3) unfolding candidates_newest [OF assms(1,2)] by (auto dest!: in_newest_between simp: feed_ids_def)

lemma set_descendants_shown: "p \<in> set (next_descendants db viewer is) \<Longrightarrow> p \<in> set (t_posts db) \<and> shown_to db viewer p"
  by (auto simp: next_descendants_def)

lemma descendants_shown:
  "list_all (\<lambda>p. p \<in> set (t_posts db) \<and> shown_to db viewer p) rows \<Longrightarrow>
   list_all (\<lambda>p. p \<in> set (t_posts db) \<and> shown_to db viewer p) (descendants db viewer d rows)"
proof (induction db viewer d rows rule: descendants.induct)
  case (1 db viewer d rows)
  have "list_all (\<lambda>p. p \<in> set (t_posts db) \<and> shown_to db viewer p) (next_descendants db viewer (map p_id rows))"
    by (auto simp: list_all_iff dest: set_descendants_shown)
  then show ?case using 1 by (subst descendants.simps) (auto simp: list_all_iff)
qed

lemma home_timeline_shown:
  assumes "feed_tables_ok db" "page_ok now pg"
  shows "list_all (shows_post db (Some viewer) ex) (home_timeline (\<lambda>_. db) now viewer pg ex)"
  unfolding home_timeline_def
  by (rule fetched_rows_shown [OF assms(1)]) (metis candidate_is_member [OF assms] feed_member_following)

lemma social_timeline_shown:
  assumes "feed_tables_ok db" "page_ok now pg"
  shows "all_rows (shows_post db (Some viewer) ex) (social_timeline (\<lambda>_. db) now viewer pg ex)"
proof -
  let ?local = "newest_first (map p_id (filter (\<lambda>p. in_page pg p \<and> social_local_member db viewer ex p) (t_posts db)))"
  let ?ids = "\<lambda>m l. take m
    (remdups_adj (newest_first (feed_candidate_ids (\<lambda>_. db) now (Following viewer ex) pg @ l)))"
  have "list_all (shows_post db (Some viewer) ex) (fetch_feed_posts db (?ids m (take n ?local)))" for m n
  proof (rule fetched_rows_shown [OF assms(1)])
    fix i assume "i \<in> set (?ids m (take n ?local))"
    then have "i \<in> set (feed_candidate_ids (\<lambda>_. db) now (Following viewer ex) pg) \<or> i \<in> set ?local"
      by (auto dest!: in_set_takeD)
    then show "\<exists>p \<in> set (t_posts db). p_id p = i \<and> live p \<and> not_hidden db (Some viewer) (p_actor_id p)
        \<and> post_is_visible_to db (Some viewer) (p_actor_id p) (p_visibility p) (p_id p) ex"
    proof
      assume "i \<in> set (feed_candidate_ids (\<lambda>_. db) now (Following viewer ex) pg)"
      then show ?thesis by (metis candidate_is_member [OF assms] feed_member_following)
    next
      assume "i \<in> set ?local"
      then show ?thesis by (auto simp: social_local_member_def not_hidden_def is_viewer_def)
    qed
  qed
  then show ?thesis by (simp add: social_timeline_def Let_def limit_rows_def all_rows_def)
qed

lemma thread_descendants_shown: "all_rows (shows_post db viewer False) (thread_descendants db note limit viewer)"
proof -
  let ?rows = "descendants db viewer 1 (next_descendants db viewer [note])"
  have "list_all (\<lambda>p. p \<in> set (t_posts db) \<and> shown_to db viewer p) ?rows"
    by (rule descendants_shown) (auto simp: list_all_iff dest: set_descendants_shown)
  then have "list_all (shows_post db viewer False) (timeline_post_joins db ?rows)"
    by (auto simp: list_all_iff shown_to_def intro!: shows_joined)
  then show ?thesis unfolding thread_descendants_def by (rule all_rows_limit)
qed

lemma context_after_shown: "all_rows (shows_post db viewer False) (context_after db actor note limit viewer)"
  unfolding context_after_def
  by (rule all_rows_limit) (auto simp: list_all_iff shown_to_def intro!: shows_joined)

text \<open>
  C10. The listings of posts keep to what the viewer may see: every row of the home and the social timeline of a
  signed-in user, and of the local and global timelines, a profile with any filter, the posts around a post and
  those below it, for a signed-in or an anonymous viewer, is a post that is not deleted and that the viewer
  may see (followers-only posts as author or follower, direct posts as author or recipient, and none of these when
  direct posts are excluded; to an anonymous viewer nothing of a remote author). For a signed-in viewer
  its author is moreover the viewer or not hidden from them by a block in either direction, a mute, a
  withdrawal or a suspension; of an anonymous viewer the queries do not ask this (\<open>anonymous_shown_suspended\<close>).
  The timelines of lists and of mentions are not among these listings.
\<close>

theorem timelines_show_visible:
  assumes "feed_tables_ok db" "page_ok now pg"
  shows "list_all (shows_post db (Some viewer) ex) (home_timeline (\<lambda>_. db) now viewer pg ex)
    \<and> all_rows (shows_post db (Some viewer) ex) (social_timeline (\<lambda>_. db) now viewer pg ex)
    \<and> all_rows (shows_post db v ex) (local_timeline db v pg ex)
    \<and> all_rows (shows_post db v ex) (global_timeline db v pg ex)
    \<and> all_rows (shows_post db v ex) (timeline_by_actor_filtered db actor v pg ex f)
    \<and> all_rows (shows_post db v False) (context_before db actor note limit v)
    \<and> all_rows (shows_post db v False) (context_after db actor note limit v)
    \<and> all_rows (shows_post db v False) (thread_descendants db note limit v)"
  by (intro conjI home_timeline_shown social_timeline_shown assms thread_descendants_shown context_after_shown)
     (auto simp: local_timeline_def global_timeline_def timeline_by_actor_filtered_def context_before_def public_member_def
        shown_to_def intro!: all_rows_select_page)

text \<open>
  An anonymous viewer is shown the posts of a suspended author: \<open>$1 IS NULL OR ...\<close> skips the question whether
  the author is hidden, so the listings that should leave such posts out do so only for signed-in viewers.
\<close>

lemma newest_row_shown:
  "p \<in> set (t_posts db) \<Longrightarrow> P p \<Longrightarrow> find_actor (p_actor_id p) db = Some a \<Longrightarrow>
   timeline_post_columns p a \<in> set (timeline_post_joins db (newest_rows (filter P (t_posts db))))"
  by (rule joined_row) simp_all

lemma anonymous_shown_suspended:
  assumes "p \<in> set (t_posts db)" "live p" "p_visibility p = Public" "p_is_local p" "in_page pg p"
    "find_actor (p_actor_id p) db = Some a" "a_actor_type a = ''local''" "a_suspended_at a = Some at"
    "length (t_posts db) \<le> nat (fp_limit pg)" "0 \<le> fp_limit pg"
  shows "\<exists>l g. local_timeline db None pg ex = Inr l \<and> timeline_post_columns p a \<in> set l
    \<and> global_timeline db None pg ex = Inr g \<and> timeline_post_columns p a \<in> set g"
proof -
  have member: "public_member db None ex p"
    using assms(2,3,6,7) by (auto simp: public_member_def not_hidden_def post_is_visible_to_def find_actor_def list_ex_iff
        find_Some_iff)
  have short: "length (timeline_post_joins db (newest_rows (filter P (t_posts db)))) \<le> nat (fp_limit pg)" for P
  proof -
    have "length (timeline_post_joins db rows) \<le> length rows" for rows
      by (induction rows) (auto simp: timeline_post_joins_Cons split: option.split)
    then have "length (timeline_post_joins db (newest_rows (filter P (t_posts db)))) \<le> length (newest_rows (filter P (t_posts db)))" .
    also have "\<dots> \<le> nat (fp_limit pg)" using assms(9) by (simp add: newest_rows_def order_trans [OF length_filter_le])
    finally show ?thesis .
  qed
  show ?thesis
    using member assms by (simp add: local_timeline_def global_timeline_def select_page_def limit_rows_def short newest_row_shown)
qed

section \<open>The social timeline\<close>

lemma fetched_ids:
  assumes "feed_tables_ok db" "authors_known db" "sorted_wrt (>) ids"
    "\<And>i. i \<in> set ids \<Longrightarrow> \<exists>p \<in> set (t_posts db). p_id p = i \<and> live p"
  shows "map tp_id (fetch_feed_posts db ids) = ids"
proof (cases "ids = []")
  case False
  let ?P = "\<lambda>p. p_id p \<in> set ids \<and> live p"
  have "distinct (map p_id (filter ?P (t_posts db)))" using assms(1) by (simp add: feed_tables_ok_def distinct_map_filter)
  then have "sorted_wrt (>) (newest_first (map p_id (filter ?P (t_posts db))))" by (rule strictly_newest_first)
  moreover have "set (newest_first (map p_id (filter ?P (t_posts db)))) = set ids" using assms(4) by (fastforce simp: image_iff)
  ultimately have "newest_first (map p_id (filter ?P (t_posts db))) = ids" by (intro strictly_descending_unique assms(3))
  then show ?thesis using False newest_ids_of_rows [OF assms(2)] by (simp add: fetch_feed_posts_def)
qed (simp add: fetch_feed_posts_def)

definition social_member :: "post_db \<Rightarrow> actor_id \<Rightarrow> bool \<Rightarrow> posts_row \<Rightarrow> bool" where
  "social_member db viewer ex p \<longleftrightarrow> feed_member db (Following viewer ex) p \<or> social_local_member db viewer ex p"

text \<open>
  C12. The social timeline is the union it is meant to be: merging a page of followed posts with a page of local
  posts gives the newest \<open>limit\<close> posts in the range that belong to either, in order and each of them once.
\<close>

theorem social_timeline_newest:
  assumes "feed_tables_ok db" "authors_known db" "page_ok now pg" "0 \<le> fp_limit pg"
  shows "\<exists>rows. social_timeline (\<lambda>_. db) now viewer pg ex = Inr rows
    \<and> map tp_id rows = newest_between (fp_limit pg) (since_bound (fp_since_id pg)) (until_bound (fp_until_id pg))
        (map p_id (filter (social_member db viewer ex) (t_posts db)))"
proof -
  let ?n = "nat (fp_limit pg)"
  let ?in = "\<lambda>i. since_bound (fp_since_id pg) < i \<and> i < until_bound (fp_until_id pg)"
  let ?A = "filter ?in (feed_ids db (Following viewer ex))"
  let ?B = "map p_id (filter (\<lambda>p. in_page pg p \<and> social_local_member db viewer ex p) (t_posts db))"
  let ?C = "filter ?in (map p_id (filter (social_member db viewer ex) (t_posts db)))"
  define ids where "ids = take ?n (newest_first ?C)"
  have dist: "distinct (map p_id (t_posts db))" using assms(1) by (simp add: feed_tables_ok_def)
  have "set ?C = set ?A \<union> set ?B" by (auto simp: feed_ids_def in_page_def social_member_def)
  then have merged: "take ?n (remdups_adj (newest_first (take ?n (newest_first ?A) @ take ?n (newest_first ?B)))) = ids"
    unfolding ids_def using dist distinct_feed_ids [OF assms(1)] by (intro newest_of_union) (simp_all add: distinct_map_filter)
  have cands: "feed_candidate_ids (\<lambda>_. db) now (Following viewer ex) pg = take ?n (newest_first ?A)"
    by (simp add: candidates_newest [OF assms(1,3)] newest_between_def)
  have social: "social_timeline (\<lambda>_. db) now viewer pg ex = Inr (fetch_feed_posts db ids)"
    unfolding social_timeline_def cands Let_def limit_rows_def using assms(4) merged by simp
  have "sorted_wrt (>) ids" unfolding ids_def
    by (intro sorted_wrt_take strictly_newest_first) (simp add: dist distinct_map_filter)
  moreover have "\<exists>p \<in> set (t_posts db). p_id p = i \<and> live p" if "i \<in> set ids" for i
    using that unfolding ids_def
    by (auto dest!: in_set_takeD simp: social_member_def social_local_member_def dest: feed_member_following)
  ultimately have "map tp_id (fetch_feed_posts db ids) = ids" by (rule fetched_ids [OF assms(1,2)])
  then show ?thesis using social by (auto simp: ids_def newest_between_def)
qed

section \<open>Threads\<close>

text \<open>A post \<open>n\<close> steps below another one, every step an answer or a quote the viewer is shown.\<close>

inductive descends :: "post_db \<Rightarrow> actor_id option \<Rightarrow> post_id \<Rightarrow> nat \<Rightarrow> posts_row \<Rightarrow> bool"
  for db :: post_db and viewer :: "actor_id option" and i :: post_id where
  direct: "p \<in> set (t_posts db) \<Longrightarrow> answers p i \<Longrightarrow> shown_to db viewer p \<Longrightarrow> descends db viewer i (Suc 0) p"
| deeper: "descends db viewer i n q \<Longrightarrow> p \<in> set (t_posts db) \<Longrightarrow> answers p (p_id q) \<Longrightarrow> shown_to db viewer p \<Longrightarrow>
    descends db viewer i (Suc n) p"

lemma descends_pos: "descends db viewer i n p \<Longrightarrow> 0 < n"
  by (induction rule: descends.induct) auto

inductive_cases descends_SucE: "descends db viewer i (Suc n) p"

lemma in_next_descendants:
  "p \<in> set (next_descendants db viewer is) \<longleftrightarrow> p \<in> set (t_posts db) \<and> shown_to db viewer p \<and> list_ex (answers p) is"
  by (auto simp: next_descendants_def list_ex_iff)

lemma descends_first: "p \<in> set (next_descendants db viewer [i]) \<longleftrightarrow> descends db viewer i (Suc 0) p"
  by (auto simp: in_next_descendants elim!: descends_SucE dest: descends_pos intro: descends.direct)

lemma descends_next:
  assumes "0 < n" "\<And>q. q \<in> set rows \<longleftrightarrow> descends db viewer i n q"
  shows "p \<in> set (next_descendants db viewer (map p_id rows)) \<longleftrightarrow> descends db viewer i (Suc n) p"
  using assms by (auto simp: in_next_descendants list_ex_iff elim!: descends_SucE intro: descends.deeper)

lemma descendants_step:
  "d < MAX_DEPTH \<Longrightarrow> descendants db viewer d rows
     = sort_key p_id rows @ descendants db viewer (Suc d) (next_descendants db viewer (map p_id rows))"
  by (subst descendants.simps) simp

lemma in_descendants:
  "0 < d \<Longrightarrow> d \<le> MAX_DEPTH \<Longrightarrow> (\<And>q. q \<in> set rows \<longleftrightarrow> descends db viewer i d q) \<Longrightarrow>
   p \<in> set (descendants db viewer d rows) \<longleftrightarrow> (\<exists>n. d \<le> n \<and> n \<le> MAX_DEPTH \<and> descends db viewer i n p)"
proof (induction "MAX_DEPTH - d" arbitrary: d rows)
  case 0
  then have "d = MAX_DEPTH" by simp
  then show ?case using 0 by (subst descendants.simps) (auto dest: order_antisym)
next
  case (Suc m)
  then have d: "d < MAX_DEPTH" by simp
  have "p \<in> set (descendants db viewer (Suc d) (next_descendants db viewer (map p_id rows)))
      \<longleftrightarrow> (\<exists>n. Suc d \<le> n \<and> n \<le> MAX_DEPTH \<and> descends db viewer i n p)"
    using Suc.hyps(2) d descends_next [OF Suc.prems(1,3)] by (intro Suc.hyps(1)) simp_all
  moreover have "p \<in> set rows \<longleftrightarrow> descends db viewer i d p" by (rule Suc.prems(3))
  ultimately have "p \<in> set (descendants db viewer d rows)
      \<longleftrightarrow> descends db viewer i d p \<or> (\<exists>n. Suc d \<le> n \<and> n \<le> MAX_DEPTH \<and> descends db viewer i n p)"
    using d by (subst descendants.simps) simp
  also have "\<dots> \<longleftrightarrow> (\<exists>n. d \<le> n \<and> n \<le> MAX_DEPTH \<and> descends db viewer i n p)"
    using d by (metis Suc_leD Suc_leI le_neq_implies_less less_imp_le_nat order_refl)
  finally show ?case .
qed

text \<open>
  C15. Below a post the viewer gets exactly the posts that can be reached from it in at most twenty steps, each an
  answer or a quote that the viewer is shown: one hidden or deleted post cuts off what is only below it.
\<close>

theorem thread_descendants_reached:
  assumes "0 \<le> limit"
  shows "\<exists>rows. thread_descendants db note limit viewer = Inr (take (nat limit) (timeline_post_joins db rows))
    \<and> (\<forall>p. p \<in> set rows \<longleftrightarrow> (\<exists>n. n \<le> 20 \<and> descends db viewer note n p))"
proof (intro exI conjI allI)
  let ?rows = "descendants db viewer 1 (next_descendants db viewer [note])"
  show "thread_descendants db note limit viewer = Inr (take (nat limit) (timeline_post_joins db ?rows))"
    using assms by (simp add: thread_descendants_def limit_rows_def)
  show "p \<in> set ?rows \<longleftrightarrow> (\<exists>n. n \<le> 20 \<and> descends db viewer note n p)" for p
    using in_descendants [of 1 "next_descendants db viewer [note]" db viewer "note" p] descends_first [of _ db viewer "note"]
    by (auto simp: MAX_DEPTH_def dest: descends_pos simp: Suc_le_eq)
qed

text \<open>
  A post comes twice in a thread when it answers the post at the top and quotes another answer to it: the recursive
  query finds it at depth one and again at depth two, as nothing removes what was found before.
\<close>

theorem thread_repeats_post:
  assumes "p \<in> set (t_posts db)" "q \<in> set (t_posts db)" "shown_to db viewer p" "shown_to db viewer q"
    "ref_of Reply_Ref p = Some note" "ref_of Reply_Ref q = Some note" "ref_of Quote_Ref p = Some (p_id q)"
    "find_actor (p_actor_id p) db = Some a"
  shows "\<exists>rows. thread_descendants db note limit viewer = limit_rows limit rows
    \<and> 2 \<le> length (filter (\<lambda>t. t = timeline_post_columns p a) rows)"
proof -
  let ?t = "timeline_post_columns p a" and ?first = "next_descendants db viewer [note]"
  let ?second = "next_descendants db viewer (map p_id ?first)"
  obtain rest where rows: "descendants db viewer 1 ?first = sort_key p_id ?first @ sort_key p_id ?second @ rest"
    using descendants_step [of 1 db viewer ?first] descendants_step [of 2 db viewer ?second]
    by (simp add: MAX_DEPTH_def numeral_2_eq_2)
  have once: "1 \<le> length (filter (\<lambda>t. t = ?t) (timeline_post_joins db ps))" if "p \<in> set ps" for ps
    using joined_row [OF that assms(8)] by (auto simp: Suc_le_eq filter_empty_conv)
  have append: "timeline_post_joins db (xs @ ys) = timeline_post_joins db xs @ timeline_post_joins db ys" for xs ys
    by (induction xs) (auto simp: timeline_post_joins_Cons split: option.splits)
  have "p \<in> set (sort_key p_id ?first)" "p \<in> set (sort_key p_id ?second)"
    using assms(1-7) by (auto simp: in_next_descendants list_ex_iff answers_def)
  then have "2 \<le> length (filter (\<lambda>t. t = ?t) (timeline_post_joins db (descendants db viewer 1 ?first)))"
    unfolding rows append using once [of "sort_key p_id ?first"] once [of "sort_key p_id ?second"] by simp
  then show ?thesis unfolding thread_descendants_def by blast
qed

section \<open>Witnesses\<close>

text \<open>
  Alice (1) follows Bob (2) and Carol (3, another server) and has muted Carol. Bob answers Alice's post 9, and with
  post 14 answers it again and quotes his first answer.
\<close>

definition demo_home_db :: post_db where
  "demo_home_db = demo_post_db\<lparr>
     t_posts := [(new_post 9 1 ''question'' 0)\<lparr>p_is_local := True\<rparr>,
       (new_post 10 2 ''hello'' 0)\<lparr>p_is_local := True, p_refs := (\<lambda>_. no_reference)(Reply_Ref := no_reference\<lparr>ref_post_id := Some 9\<rparr>)\<rparr>,
       new_post 11 3 ''muted'' 0,
       (new_post 12 1 ''mine'' 0)\<lparr>p_is_local := True, p_visibility := Followers_Only\<rparr>,
       (new_post 13 2 ''quiet'' 0)\<lparr>p_is_local := True, p_visibility := Unlisted\<rparr>,
       (new_post 14 2 ''again'' 0)\<lparr>p_is_local := True, p_refs := (\<lambda>_. no_reference)
          (Reply_Ref := no_reference\<lparr>ref_post_id := Some 9\<rparr>, Quote_Ref := no_reference\<lparr>ref_post_id := Some 10\<rparr>)\<rparr>],
     t_follows := empty_follow_db\<lparr>follows := [
       \<lparr>follow_id = 1, follower_actor_id = 1, target_actor_id = 2, status = Accepted, atp_rkey = None, pending_follow_activity = None\<rparr>,
       \<lparr>follow_id = 2, follower_actor_id = 1, target_actor_id = 3, status = Accepted, atp_rkey = None, pending_follow_activity = None\<rparr>]\<rparr>,
     t_mutes := [(1, 3)]\<rparr>"

abbreviation demo_page :: feed_page where
  "demo_page \<equiv> \<lparr>fp_limit = 20, fp_until_id = None, fp_since_id = None\<rparr>"

lemma demo_home_db_ok: "feed_tables_ok demo_home_db" "authors_known demo_home_db" "page_ok 5 demo_page"
  by code_simp+

lemma timelines_show_visible_witness:
  "list_all (shows_post demo_home_db (Some 1) True) (home_timeline (\<lambda>_. demo_home_db) 5 1 demo_page True)
   \<and> map tp_id (home_timeline (\<lambda>_. demo_home_db) 5 1 demo_page True) = [14, 13, 12, 10, 9]"
  using timelines_show_visible [OF demo_home_db_ok(1,3), of 1 True, THEN conjunct1] by (rule conjI) code_simp

lemma social_timeline_newest_witness:
  "\<exists>rows. social_timeline (\<lambda>_. demo_home_db) 5 3 demo_page True = Inr rows \<and> map tp_id rows = [14, 11, 10, 9]"
proof -
  have "newest_between 20 0 i64_max (map p_id (filter (social_member demo_home_db 3 True) (t_posts demo_home_db))) = [14, 11, 10, 9]"
    by code_simp
  then show ?thesis using social_timeline_newest [OF demo_home_db_ok, of 3 True] by (simp add: since_bound_def until_bound_def)
qed

lemma thread_descendants_reached_witness:
  "\<exists>rows. thread_descendants demo_home_db 9 40 (Some 1) = Inr (take (nat 40) (timeline_post_joins demo_home_db rows))"
  using thread_descendants_reached [of 40 demo_home_db 9 "Some 1"] by auto

lemma thread_repeats_post_witness:
  "map_sum id (map tp_id) (thread_descendants demo_home_db 9 40 (Some 1)) = Inr [10, 14, 14]
   \<and> (\<exists>rows. thread_descendants demo_home_db 9 40 (Some 1) = limit_rows 40 rows
        \<and> 2 \<le> length (filter (\<lambda>t. t = timeline_post_columns (t_posts demo_home_db ! 5) (demo_actor 2 ''local'' ''bob'')) rows))"
proof
  show "map_sum id (map tp_id) (thread_descendants demo_home_db 9 40 (Some 1)) = Inr [10, 14, 14]" by code_simp
  show "\<exists>rows. thread_descendants demo_home_db 9 40 (Some 1) = limit_rows 40 rows
        \<and> 2 \<le> length (filter (\<lambda>t. t = timeline_post_columns (t_posts demo_home_db ! 5) (demo_actor 2 ''local'' ''bob'')) rows)"
    by (rule thread_repeats_post [of _ _ "t_posts demo_home_db ! 1"]) (simp_all add: demo_home_db_def new_post_def no_reference_def
        shown_to_def not_hidden_def actor_is_hidden_for_viewer_def post_is_visible_to_def is_viewer_def demo_post_db_def demo_actor_def find_actor_def)
qed

end
