(* ===== verification/List_Facts.thy ===== *)
theory List_Facts
  imports List_Relay Timeline_Facts
begin

text \<open>
  What the handlers of lists promise and where they do not keep it: the records of lists and the keys that name
  them, the timeline of a public list, and the jobs of the relay account when one is retried.
\<close>

section \<open>Records and keys\<close>

lemma public_of_id:
  assumes "rows_ok w" "l_id l \<in> public_ids w" "l \<in> set (lw_lists w)"
  shows "l_is_public l"
  using assms by (auto simp: rows_ok_def public_ids_def distinct_map dest: inj_onD)

text \<open>
  C16. After any sequence of the handlers of lists, in which commits may fail, every key that a list or a member stores names
  a record of the right collection in the repository of the list's owner, no two rows store the same
  key, and only a public list and its members store one: a list that was made private has no record left
  that is known.
\<close>

theorem lists_keep_records:
  assumes "lists_ok E w" "inj (le_rkey E)"
  shows "(let w' = fold (list_step E) ops w in
      (\<forall>l \<in> set (lw_lists w'). \<forall>k. l_at_rkey l = Some k \<longrightarrow> l_is_public l \<and> (l_owner_actor_id l, k, True) \<in> record_refs w')
      \<and> (\<forall>m \<in> set (lw_members w'). \<forall>k. lm_at_rkey m = Some k \<longrightarrow> (\<exists>l \<in> set (lw_lists w').
          l_id l = lm_list_id m \<and> l_is_public l \<and> (l_owner_actor_id l, k, False) \<in> record_refs w'))
      \<and> (\<forall>x \<in> stored w'. \<forall>y \<in> stored w'. ref_key (snd x) = ref_key (snd y) \<longrightarrow> fst x = fst y))"
proof -
  define w' where "w' = fold (list_step E) ops w"
  have ok: "rows_ok w'" "keys_ok E w'" "private_ok w'"
    using list_history_ok [OF assms] by (simp_all add: w'_def lists_ok_def)
  have kept: "snd x \<in> record_refs w'" "list_of (fst x) \<in> public_ids w'" if "x \<in> stored w'" for x
    using that ok(2,3) unfolding keys_ok_def ledger_def private_ok_def by blast+
  have "l_is_public l \<and> (l_owner_actor_id l, k, True) \<in> record_refs w'" if "l \<in> set (lw_lists w')" "l_at_rkey l = Some k" for l k
  proof -
    have "(Of_List (l_id l), l_owner_actor_id l, k, True) \<in> stored w'" unfolding stored_list using that by blast
    then show ?thesis using kept public_of_id [OF ok(1) _ that(1)] by fastforce
  qed
  moreover have "\<exists>l \<in> set (lw_lists w'). l_id l = lm_list_id m \<and> l_is_public l \<and> (l_owner_actor_id l, k, False) \<in> record_refs w'"
    if "m \<in> set (lw_members w')" "lm_at_rkey m = Some k" for m k
  proof -
    have "lm_list_id m \<in> l_id ` set (lw_lists w')" using ok(1) that(1) by (auto simp: rows_ok_def)
    then obtain l where l: "l \<in> set (lw_lists w')" "l_id l = lm_list_id m" by (metis imageE)
    have "is_member (lm_list_id m) (lm_actor_id m) m" by (simp add: is_member_def)
    then have "(Of_Member (lm_list_id m) (lm_actor_id m), l_owner_actor_id l, k, False) \<in> stored w'"
      unfolding stored_member using that l by blast
    then show ?thesis using kept public_of_id [OF ok(1) _ l(1)] l by fastforce
  qed
  moreover have "fst x = fst y" if "x \<in> stored w'" "y \<in> stored w'" "ref_key (snd x) = ref_key (snd y)" for x y
    using ok(2) that unfolding keys_ok_def ledger_def by blast
  ultimately show ?thesis unfolding w'_def [symmetric] Let_def by blast
qed

text \<open>
  Adding an account to a public list that has it already is answered as a success and commits a second
  record of it. The row takes the new key, and no row has the key of the first record any more: it stays in
  the repository, whatever is removed or made private later.
\<close>

theorem readded_member_record_lost:
  assumes "lists_ok E w" "inj (le_rkey E)" "owned_list u i w = Inr l" "l_is_public l" "l_at_uri l = Some uri"
    "\<not> lu_did_moved_out u" "le_member_max E (lu_actor_id u) = None" "le_commit_ok E (lw_calls w)"
    "amr_actor_id req = Some raw" "parse_i64 raw = Some a" "find_list_actor w a = Some t" "a_at_did t = Some did" "a_actor_type t \<noteq> ''fedi''"
    "m \<in> set (lw_members w)" "is_member (l_id l) a m" "lm_at_rkey m = Some k"
  shows "\<exists>ms w'. add_member E u i req w = (Inr ms, w') \<and> length (lw_members w') = length (lw_members w)
    \<and> (lu_actor_id u, k, False) \<in> record_refs w' \<and> (lu_actor_id u, le_rkey E (lw_calls w), False) \<in> record_refs w'
    \<and> k \<notin> ref_key ` snd ` stored w'"
proof -
  let ?i = "l_id l" and ?me = "lu_actor_id u" and ?n = "le_rkey E (lw_calls w)"
  note found = owned_list_found [OF assms(3)]
  have t: "a_id t = a" using assms(11) by (auto simp: find_list_actor_def find_Some_iff)
  have "list_ex (is_member ?i a) (lw_members w)" "actor_referenced_by_any_list w a"
    using assms(14,15) by (auto simp: list_ex_iff actor_referenced_by_any_list_def is_member_def)
  then have same: "lists_add_member ?i a now w = w" for now by (simp add: lists_add_member_def)
  define w4 where "w4 = (if a_actor_type t \<in> {''bsky'', ''remote_seiran''} then w\<lparr>lw_touched := lw_touched w + 1\<rparr> else w)"
  have w4: "lw_lists w4 = lw_lists w" "lw_members w4 = lw_members w" "lw_records w4 = lw_records w" "lw_calls w4 = lw_calls w"
    by (simp_all add: w4_def)
  then have st4: "stored w4 = stored w" "record_refs w4 = record_refs w" by (simp_all add: stored_def record_refs_def)
  let ?uri = "''at://'' @ le_did E ?me @ ''/app.bsky.graph.listitem/'' @ ?n"
  let ?c = "tick (w4\<lparr>lw_records := lw_records w4 @ [(?me, ?n, Graph_Listitem uri did)]\<rparr>)"
  let ?v = "set_member_atp_record ?i a ?n ?uri ?c"
  have pub: "maybe_publish_listitem E ?i (l_at_uri l) ?me t w4 = ?v"
    using assms(5,8,12,13) by (simp add: maybe_publish_listitem_def commit_graph_listitem_def Let_def w4(4) t)
  have run: "add_member E u i req w = (Inr (lists_members ?v ?i), ?v)"
  proof -
    have resolve: "resolve_add_member_target E req w = (Inr t, w)" using assms(9-11) by (simp add: resolve_add_member_target_def)
    have fedi: "(if a_actor_type t = ''fedi'' \<and> X then A else w) = w" for X A using assms(13) by simp
    have "add_member E u i req w = (Inr (lists_members (maybe_publish_listitem E ?i (l_at_uri l) ?me t w4) ?i), maybe_publish_listitem E ?i (l_at_uri l) ?me t w4)"
      unfolding add_member_def Let_def assms(3,7) sum.case option.case resolve prod.case t same fedi w4_def [symmetric] using assms(4,6) by simp
    then show ?thesis unfolding pub .
  qed
  have ok: "rows_ok w" "keys_ok E w" using assms(1) by (simp_all add: lists_ok_def)
  have l: "l \<in> set (lw_lists w)" using found find_list_in by metis
  have old: "(Of_Member ?i a, ?me, k, False) \<in> stored w"
    unfolding stored_member by (intro bexI [OF _ assms(14)] bexI [OF _ l]) (use assms(15,16) found in simp)
  have refs: "record_refs ?v = insert (?me, ?n, False) (record_refs w)"
    by (simp add: change_frames record_refs_commit st4)
  have "(?i, a) \<in> member_pair ` set (lw_members w)"
    by (rule image_eqI [OF _ assms(14)]) (use assms(15) in \<open>simp add: member_pair_def is_member_def\<close>)
  then have "rows_ok ?c" "find_list ?c ?i = Some l" "(?i, a) \<in> member_pair ` set (lw_members ?c)"
    using ok(1) found by (simp_all add: rows_ok_def find_list_def w4)
  from stored_set_member [OF this] have st: "stored ?v = insert (Of_Member ?i a, ?me, ?n, False) (stored w - held_by (Of_Member ?i a))"
    using found st4 by (simp add: commit_frame)
  have in_refs: "(?me, k, False) \<in> record_refs w" using old ok(2) unfolding keys_ok_def ledger_def by force
  then have "k \<in> generated E (lw_calls w)" using ok(2) unfolding keys_ok_def ledger_def by (force simp: ref_key_def)
  then have new: "k \<noteq> ?n" using fresh_key [OF assms(2)] by metis
  have only: "only_holder (stored w) k (Of_Member ?i a)"
    using ledger_only [OF ok(2) [unfolded keys_ok_def] old] by (simp add: ref_key_def)
  have "k \<notin> ref_key ` snd ` stored ?v"
  proof
    assume "k \<in> ref_key ` snd ` stored ?v"
    then obtain x where "x \<in> stored ?v" "ref_key (snd x) = k" by blast
    then have "x \<in> stored w" "fst x \<noteq> Of_Member ?i a" using new unfolding st by (auto simp: ref_key_def held_by_def)
    then show False using only \<open>ref_key (snd x) = k\<close> by (simp add: only_holder_def)
  qed
  moreover have "length (lw_members ?v) = length (lw_members w)" by (simp add: set_member_rows w4)
  moreover have "(?me, k, False) \<in> record_refs ?v" "(?me, ?n, False) \<in> record_refs ?v" unfolding refs using in_refs by blast+
  ultimately show ?thesis using run by blast
qed

section \<open>The timeline of a list\<close>

text \<open>
  C40. The timeline of a public list is the same for everybody: whoever may read the list, signed in or not, is
  shown the posts of its members that are for followers only, and those of other servers, although neither is
  visible to them and both are left out of every other listing.
\<close>

theorem list_timeline_shows_followers_only:
  assumes "feed_tables_ok db" "authors_known db" "readable_list viewer i w = Inr l"
    "page_ok now \<lparr>fp_limit = 30, fp_until_id = None, fp_since_id = None\<rparr>"
    "p \<in> set (t_posts db)" "live p" "0 < p_id p" "p_id p < i64_max" "(l_id l, p_actor_id p) \<in> set (t_list_members db)"
    "p_visibility p \<noteq> Direct" "\<not> post_is_visible_to db viewer (p_actor_id p) (p_visibility p) (p_id p) False"
    "length (feed_ids db (List_Members (l_id l))) \<le> 30"
  shows "\<exists>rows. handle_list_timeline (\<lambda>_. db) now \<lparr>tq_limit = None, tq_until_id = None, tq_since_id = None, tq_exclude_direct = False\<rparr> viewer i w = Inr rows
    \<and> p_id p \<in> set (map tp_id rows) \<and> \<not> list_all (shows_post db viewer False) rows"
proof -
  let ?pg = "\<lparr>fp_limit = 30, fp_until_id = None, fp_since_id = None\<rparr>" and ?src = "List_Members (l_id l)"
  let ?ids = "newest_between 30 0 i64_max (feed_ids db ?src)"
  have cand: "feed_candidate_ids (\<lambda>_. db) now ?src ?pg = ?ids"
    using candidates_newest [OF assms(1,4), of ?src] by (simp add: since_bound_def until_bound_def)
  have "p_id p \<in> set (feed_ids db ?src)" using assms(5,6,9,10) by (auto simp: feed_ids_def)
  moreover have "length (newest_first (filter (\<lambda>i. 0 < i \<and> i < i64_max) (feed_ids db ?src))) \<le> nat 30"
    using le_trans [OF length_filter_le assms(12), of "\<lambda>i. 0 < i \<and> i < i64_max"] by simp
  ultimately have p: "p_id p \<in> set ?ids" using assms(7,8) by (simp add: newest_between_def)
  have "\<exists>q \<in> set (t_posts db). p_id q = j \<and> live q" if "j \<in> set ?ids" for j
    using in_newest_between [OF that] by (auto simp: feed_ids_def)
  then have ids: "map tp_id (list_timeline (\<lambda>_. db) now (l_id l) ?pg) = ?ids"
    unfolding list_timeline_def cand
    by (intro fetched_ids [OF assms(1,2)] sorted_newest_between distinct_feed_ids assms(1))
  have "\<not> list_all (shows_post db viewer False) (list_timeline (\<lambda>_. db) now (l_id l) ?pg)"
  proof
    assume "list_all (shows_post db viewer False) (list_timeline (\<lambda>_. db) now (l_id l) ?pg)"
    moreover obtain t where "t \<in> set (list_timeline (\<lambda>_. db) now (l_id l) ?pg)" "tp_id t = p_id p"
      using p unfolding ids [symmetric] by auto
    ultimately obtain q where "q \<in> set (t_posts db)" "p_id q = p_id p"
      "post_is_visible_to db viewer (p_actor_id q) (p_visibility q) (p_id q) False"
      by (auto simp: list_all_iff shows_post_def list_ex_iff)
    moreover have "inj_on p_id (set (t_posts db))" using assms(1) by (simp add: feed_tables_ok_def distinct_map)
    ultimately show False using assms(5,11) by (auto dest: inj_onD)
  qed
  moreover have "p_id p \<in> set (map tp_id (list_timeline (\<lambda>_. db) now (l_id l) ?pg))" unfolding ids by (rule p)
  moreover have "handle_list_timeline (\<lambda>_. db) now \<lparr>tq_limit = None, tq_until_id = None, tq_since_id = None, tq_exclude_direct = False\<rparr> viewer i w
      = Inr (list_timeline (\<lambda>_. db) now (l_id l) ?pg)"
    using assms(3) by (simp add: handle_list_timeline_def)
  ultimately show ?thesis by blast
qed

section \<open>The relay\<close>


section \<open>A retried job\<close>

definition demo_list_env :: list_env where
  "demo_list_env = \<lparr>le_trim = (\<lambda>s. s), le_chars = length, le_new_id = (\<lambda>n. int n + 100), le_now = int, le_rkey = (\<lambda>n. replicate n CHR ''k''),
     le_cid = (\<lambda>n. replicate n CHR ''c''), le_commit_ok = (\<lambda>n. n \<noteq> 6), le_did = (\<lambda>_. ''did:plc:alice''), le_list_max = (\<lambda>_. None), le_member_max = (\<lambda>_. None),
     le_resolve = (\<lambda>_ _. None)\<rparr>"

definition demo_list_actors :: "actor_row list" where
  "demo_list_actors = [demo_actor 1 ''local'' ''alice'', (demo_actor 2 ''bsky'' ''bob'')\<lparr>a_at_did := Some ''did:plc:bob''\<rparr>, demo_actor 3 ''fedi'' ''carol'']"

definition demo_list_world :: list_world where
  "demo_list_world = \<lparr>lw_lists = [], lw_members = [], lw_actors = demo_list_actors, lw_records = [], lw_proxy_jobs = [], lw_touched = 0, lw_calls = 0\<rparr>"

abbreviation demo_alice :: list_user where
  "demo_alice \<equiv> \<lparr>lu_actor_id = 1, lu_did_moved_out = False\<rparr>"

definition demo_add :: "string \<Rightarrow> list_op" where
  "demo_add a = L_Add demo_alice ''100'' \<lparr>amr_target = None, amr_actor_id = Some a\<rparr>"

text \<open>
  Jobs are not run in order when one of them fails. An account is added to a list and removed again; the relay
  cannot send its Follow, the job that undoes it finds no follow and succeeds, and the first job, retried, does not
  look at the lists again: the relay follows for ever an account that no list has.
\<close>

theorem retried_follow_overtakes:
  "let w = fold (list_step demo_list_env) [L_Create demo_alice ''friends'' False, demo_add ''3'', L_Remove demo_alice ''100'' ''3''] demo_list_world;
       r = \<lparr>rl_follows = [], rl_sent = []\<rparr>
   in lw_proxy_jobs w = [(3, True), (3, False)] \<and> \<not> actor_referenced_by_any_list w 3
     \<and> proxy_follow_sync 3 True False r = (False, r) \<and> proxy_follow_sync 3 False True r = (True, r)
     \<and> rl_follows (snd (proxy_follow_sync 3 True True r)) = [3]"
  by code_simp

section \<open>Witnesses\<close>

lemma demo_list_ok: "lists_ok demo_list_env demo_list_world" "inj (le_rkey demo_list_env)"
  by (simp_all add: lists_ok_def rows_ok_def keys_ok_def private_ok_def ledger_def stored_def record_refs_def demo_list_world_def
      demo_list_env_def inj_def)

definition demo_list_ops :: "list_op list" where
  "demo_list_ops = [L_Create demo_alice ''friends'' True, demo_add ''2'', demo_add ''3'']"

lemma lists_keep_records_witness:
  "(let w' = fold (list_step demo_list_env) demo_list_ops demo_list_world in
      (\<forall>l \<in> set (lw_lists w'). \<forall>k. l_at_rkey l = Some k \<longrightarrow> l_is_public l \<and> (l_owner_actor_id l, k, True) \<in> record_refs w'))
   \<and> map l_at_rkey (lw_lists (fold (list_step demo_list_env) demo_list_ops demo_list_world)) = [Some ''k'']
   \<and> map lm_at_rkey (lw_members (fold (list_step demo_list_env) demo_list_ops demo_list_world)) = [Some ''kk'', None]"
proof -
  have "map l_at_rkey (lw_lists (fold (list_step demo_list_env) demo_list_ops demo_list_world)) = [Some ''k'']" by code_simp
  moreover have "map lm_at_rkey (lw_members (fold (list_step demo_list_env) demo_list_ops demo_list_world)) = [Some ''kk'', None]" by code_simp
  ultimately show ?thesis using lists_keep_records [OF demo_list_ok, of demo_list_ops] unfolding Let_def by blast
qed

definition demo_relay_events :: "relay_event list" where
  "demo_relay_events = map Handle demo_list_ops @ [Run_Sync 0 False, Handle (L_Remove demo_alice ''100'' ''2''), Run_Sync 0 True]"


definition demo_public_world :: list_world where
  "demo_public_world = fold (list_step demo_list_env) demo_list_ops demo_list_world"

lemma readded_member_record_lost_witness:
  "\<exists>ms w'. add_member demo_list_env demo_alice ''100'' \<lparr>amr_target = None, amr_actor_id = Some ''2''\<rparr> demo_public_world = (Inr ms, w')
     \<and> ''kk'' \<notin> ref_key ` snd ` stored w' \<and> (1, ''kk'', False) \<in> record_refs w'"
proof -
  let ?l = "hd (lw_lists demo_public_world)" and ?m = "hd (lw_members demo_public_world)" and ?t = "demo_list_actors ! 1"
  have "owned_list demo_alice ''100'' demo_public_world = Inr ?l
    \<and> l_is_public ?l
    \<and> l_at_uri ?l = Some ''at://did:plc:alice/app.bsky.graph.list/k''
    \<and> le_member_max demo_list_env 1 = None
    \<and> le_commit_ok demo_list_env (lw_calls demo_public_world)
    \<and> parse_i64 ''2'' = Some 2
    \<and> find_list_actor demo_public_world 2 = Some ?t
    \<and> a_at_did ?t = Some ''did:plc:bob''
    \<and> a_actor_type ?t \<noteq> ''fedi''
    \<and> is_member (l_id ?l) 2 ?m
    \<and> lm_at_rkey ?m = Some ''kk''
    \<and> lw_members demo_public_world \<noteq> []"
    by code_simp
  moreover have "lists_ok demo_list_env demo_public_world"
    unfolding demo_public_world_def by (rule list_history_ok [OF demo_list_ok])
  ultimately have "\<exists>ms w'. add_member demo_list_env demo_alice ''100'' \<lparr>amr_target = None, amr_actor_id = Some ''2''\<rparr> demo_public_world = (Inr ms, w')
     \<and> length (lw_members w') = length (lw_members demo_public_world) \<and> (lu_actor_id demo_alice, ''kk'', False) \<in> record_refs w'
     \<and> (lu_actor_id demo_alice, le_rkey demo_list_env (lw_calls demo_public_world), False) \<in> record_refs w' \<and> ''kk'' \<notin> ref_key ` snd ` stored w'"
    by (intro readded_member_record_lost [of _ _ _ _ ?l _ _ "''2''" 2 ?t _ ?m]) (simp_all add: demo_list_ok(2))
  then show ?thesis by auto
qed

text \<open>A public list of Bob, read by nobody who signed in: his post for followers is shown.\<close>

definition demo_timeline_db :: post_db where
  "demo_timeline_db = demo_home_db\<lparr>t_posts := [(new_post 12 2 ''for followers'' 0)\<lparr>p_is_local := True, p_visibility := Followers_Only\<rparr>], t_list_members := [(100, 2)]\<rparr>"

lemma list_timeline_shows_followers_only_witness:
  "\<exists>rows. handle_list_timeline (\<lambda>_. demo_timeline_db) 5 \<lparr>tq_limit = None, tq_until_id = None, tq_since_id = None, tq_exclude_direct = False\<rparr>
      None ''100'' demo_public_world = Inr rows \<and> 12 \<in> set (map tp_id rows) \<and> \<not> list_all (shows_post demo_timeline_db None False) rows"
proof -
  let ?p = "hd (t_posts demo_timeline_db)" and ?l = "hd (lw_lists demo_public_world)"
  have "feed_tables_ok demo_timeline_db" "authors_known demo_timeline_db" "readable_list None ''100'' demo_public_world = Inr ?l"
    "page_ok 5 \<lparr>fp_limit = 30, fp_until_id = None, fp_since_id = None\<rparr>" "live ?p" "0 < p_id ?p" "p_id ?p < i64_max"
    "(l_id ?l, p_actor_id ?p) \<in> set (t_list_members demo_timeline_db)" "p_visibility ?p \<noteq> Direct" "p_id ?p = 12"
    "\<not> post_is_visible_to demo_timeline_db None (p_actor_id ?p) (p_visibility ?p) (p_id ?p) False"
    "length (feed_ids demo_timeline_db (List_Members (l_id ?l))) \<le> 30"
    by code_simp+
  moreover have "?p \<in> set (t_posts demo_timeline_db)" by (simp add: demo_timeline_db_def)
  ultimately show ?thesis using list_timeline_shows_followers_only [of demo_timeline_db None "''100''" demo_public_world ?l 5 ?p] by simp
qed

end
