(* ===== verification/Post_Lookups.thy ===== *)
theory Post_Lookups
  imports Timelines
begin

text \<open>
  The look-ups of \<open>crates/seiran-common/src/repository/post.rs\<close> and \<open>repository/bsky_ingest.rs\<close>. A query without
  an order returns its rows in the order of the table here, one with \<open>LIMIT 1\<close> the first of them.
\<close>

section \<open>Posts by identifier\<close>

definition find_visible_by_ids :: "post_db \<Rightarrow> post_id list \<Rightarrow> actor_id option \<Rightarrow> timeline_post list" where
  "find_visible_by_ids db ids viewer =
     (if ids = [] then []
      else map (with_suspended_at db) (timeline_post_joins db (filter (\<lambda>p. p_id p \<in> set ids \<and> live p
        \<and> post_is_visible_to db viewer (p_actor_id p) (p_visibility p) (p_id p) False) (t_posts db))))"

definition find_by_ids_including_deleted :: "post_db \<Rightarrow> post_id list \<Rightarrow> timeline_post list" where
  "find_by_ids_including_deleted db ids =
     (if ids = [] then [] else timeline_post_joins db (filter (\<lambda>p. p_id p \<in> set ids) (t_posts db)))"

definition find_by_ids :: "post_db \<Rightarrow> post_id list \<Rightarrow> timeline_post list" where
  "find_by_ids db ids = timeline_post_joins db (filter (\<lambda>p. p_id p \<in> set ids \<and> live p) (t_posts db))"

definition first_row :: "'a list \<Rightarrow> 'a option" where
  "first_row xs = (case xs of [] \<Rightarrow> None | x # _ \<Rightarrow> Some x)"

definition find_by_id :: "post_db \<Rightarrow> post_id \<Rightarrow> timeline_post option" where
  "find_by_id db i = first_row (map (with_suspended_at db)
     (timeline_post_joins db (filter (\<lambda>p. p_id p = i \<and> live p) (t_posts db))))"

definition find_by_id_including_deleted :: "post_db \<Rightarrow> post_id \<Rightarrow> timeline_post option" where
  "find_by_id_including_deleted db i = first_row (timeline_post_joins db (filter (\<lambda>p. p_id p = i) (t_posts db)))"

definition find_by_id_for_viewer :: "post_db \<Rightarrow> post_id \<Rightarrow> actor_id option \<Rightarrow> timeline_post option" where
  "find_by_id_for_viewer db i viewer = first_row (map (with_suspended_at db)
     (timeline_post_joins db (filter (\<lambda>p. p_id p = i \<and> live p
        \<and> post_is_visible_to db viewer (p_actor_id p) (p_visibility p) (p_id p) False) (t_posts db))))"

definition find_post_ids_by_media_file_id :: "post_db \<Rightarrow> int \<Rightarrow> post_id list" where
  "find_post_ids_by_media_file_id db m =
     newest_first (remdups (map att_post_id (filter (\<lambda>pa. att_media_file_id pa = Some m) (t_post_attachments db))))"

section \<open>Reposts and deletion\<close>

record repost_entry =
  re_id :: post_id
  re_actor_id :: actor_id
  re_username :: string
  re_domain :: string
  re_display_name :: "string option"
  re_actor_type :: string
  re_created_at :: int
  re_deleted_at :: "int option"

definition reposts_of :: "post_db \<Rightarrow> post_id \<Rightarrow> int \<Rightarrow> repost_entry list sql_result" where
  "reposts_of db i limit = limit_rows limit (List.map_filter (\<lambda>p. map_option (\<lambda>a.
       \<lparr>re_id = p_id p, re_actor_id = p_actor_id p, re_username = a_username a, re_domain = a_domain a,
        re_display_name = a_display_name a, re_actor_type = a_actor_type a, re_created_at = p_created_at p,
        re_deleted_at = p_deleted_at p\<rparr>) (find_actor (p_actor_id p) db))
     (newest_rows (filter (\<lambda>p. ref_of Repost_Ref p = Some i) (t_posts db))))"

record repost_undo_info =
  ru_repost_id :: post_id
  ru_repost_ap_id :: "string option"
  ru_orig_ap_id :: "string option"
  ru_atp_repost_rkey :: "string option"
  ru_at_rkey :: "string option"
  ru_orig_at_uri :: "string option"

definition find_repost_undo_info :: "post_db \<Rightarrow> actor_id \<Rightarrow> post_id \<Rightarrow> repost_undo_info option" where
  "find_repost_undo_info db actor note =
     first_row (List.map_filter (\<lambda>p. map_option (\<lambda>orig.
         \<lparr>ru_repost_id = p_id p, ru_repost_ap_id = p_ap_object_id p, ru_orig_ap_id = p_ap_object_id orig,
          ru_atp_repost_rkey = p_atp_repost_rkey p, ru_at_rkey = p_at_rkey p, ru_orig_at_uri = p_at_uri orig\<rparr>)
         (find_post note db))
       (filter (\<lambda>p. p_actor_id p = actor \<and> ref_of Repost_Ref p = Some note \<and> live p) (t_posts db)))"

record post_delete_info =
  pd_actor_id :: actor_id
  pd_deliver_fedi :: bool
  pd_visibility :: visibility
  pd_at_rkey :: "string option"

definition find_delete_info :: "post_db \<Rightarrow> post_id \<Rightarrow> post_delete_info option" where
  "find_delete_info db i = map_option (\<lambda>p. \<lparr>pd_actor_id = p_actor_id p, pd_deliver_fedi = p_deliver_fedi p,
     pd_visibility = p_visibility p, pd_at_rkey = p_at_rkey p\<rparr>) (find (\<lambda>p. p_id p = i \<and> live p) (t_posts db))"

section \<open>Posts by their names\<close>

definition find_by_seiran_uuid :: "post_db \<Rightarrow> string \<Rightarrow> (post_id \<times> string option) option" where
  "find_by_seiran_uuid db uuid =
     map_option (\<lambda>p. (p_id p, p_ap_object_id p)) (find (\<lambda>p. p_seiran_post_uuid p = Some uuid) (t_posts db))"

definition find_id_by_at_uri :: "post_db \<Rightarrow> string \<Rightarrow> post_id option" where
  "find_id_by_at_uri db at_uri = map_option p_id (find (\<lambda>p. p_at_uri p = Some at_uri) (t_posts db))"

definition find_id_by_ap_or_at_uri :: "post_db \<Rightarrow> string \<Rightarrow> post_id option" where
  "find_id_by_ap_or_at_uri db uri =
     map_option p_id (find (\<lambda>p. p_ap_object_id p = Some uri \<or> p_at_uri p = Some uri) (t_posts db))"

definition find_id_and_actor_by_ap_object_id :: "post_db \<Rightarrow> string \<Rightarrow> (post_id \<times> actor_id) option" where
  "find_id_and_actor_by_ap_object_id db ap =
     map_option (\<lambda>p. (p_id p, p_actor_id p)) (find (\<lambda>p. p_ap_object_id p = Some ap \<and> live p) (t_posts db))"

definition find_id_and_actor_by_at_uri :: "post_db \<Rightarrow> string \<Rightarrow> (post_id \<times> actor_id) option" where
  "find_id_and_actor_by_at_uri db at_uri =
     map_option (\<lambda>p. (p_id p, p_actor_id p)) (find (\<lambda>p. p_at_uri p = Some at_uri \<and> live p) (t_posts db))"

definition id_author_at_uri_by_ap_object_id :: "post_db \<Rightarrow> string \<Rightarrow> (post_id \<times> actor_id \<times> string option) option" where
  "id_author_at_uri_by_ap_object_id db ap =
     map_option (\<lambda>p. (p_id p, p_actor_id p, p_at_uri p)) (find (\<lambda>p. p_ap_object_id p = Some ap) (t_posts db))"

definition post_exists_by_at_uri :: "post_db \<Rightarrow> string \<Rightarrow> bool" where
  "post_exists_by_at_uri db at_uri \<longleftrightarrow> list_ex (\<lambda>p. p_at_uri p = Some at_uri) (t_posts db)"

section \<open>Single columns\<close>

definition live_post_author :: "post_db \<Rightarrow> post_id \<Rightarrow> actor_id option" where
  "live_post_author db i = map_option p_actor_id (find (\<lambda>p. p_id p = i \<and> live p) (t_posts db))"

definition author_of :: "post_db \<Rightarrow> post_id \<Rightarrow> actor_id option" where
  "author_of db i = map_option p_actor_id (find_post i db)"

definition created_at_of :: "post_db \<Rightarrow> post_id \<Rightarrow> int option" where
  "created_at_of db i = map_option p_created_at (find_post i db)"

definition is_direct :: "post_db \<Rightarrow> post_id \<Rightarrow> bool" where
  "is_direct db i \<longleftrightarrow> (case find_post i db of Some p \<Rightarrow> p_visibility p = Direct | None \<Rightarrow> False)"

definition direct_post_visible_to :: "post_db \<Rightarrow> actor_id \<Rightarrow> actor_id \<Rightarrow> post_id \<Rightarrow> bool" where
  "direct_post_visible_to db viewer author i \<longleftrightarrow> post_is_visible_to db (Some viewer) author Direct i False"

definition at_ref_of :: "post_db \<Rightarrow> post_id \<Rightarrow> (string option \<times> string option) option" where
  "at_ref_of db i = map_option (\<lambda>p. (p_at_uri p, p_at_cid p)) (find_post i db)"

definition author_if_sent_to_fedi :: "post_db \<Rightarrow> post_id \<Rightarrow> actor_id option" where
  "author_if_sent_to_fedi db i =
     map_option p_actor_id (find (\<lambda>p. p_id p = i \<and> p_deliver_fedi p \<and> p_ap_object_id p \<noteq> None) (t_posts db))"

definition local_post_author :: "post_db \<Rightarrow> post_id \<Rightarrow> actor_id option" where
  "local_post_author db i = map_option p_actor_id (find (\<lambda>p. p_id p = i
     \<and> list_ex (\<lambda>a. a_id a = p_actor_id p \<and> a_actor_type a = ''local'') (t_actors db)) (t_posts db))"

record deferred_commit_row =
  dc_body :: string
  dc_created_at :: int
  dc_reply_to_post_id :: "post_id option"
  dc_language :: "string option"

definition deferred_commit_material :: "post_db \<Rightarrow> post_id \<Rightarrow> deferred_commit_row option" where
  "deferred_commit_material db i = map_option (\<lambda>p. \<lparr>dc_body = p_body p, dc_created_at = p_created_at p,
     dc_reply_to_post_id = ref_of Reply_Ref p, dc_language = p_language p\<rparr>) (find_post i db)"

definition latest_unpublished_to_atp :: "post_db \<Rightarrow> actor_id \<Rightarrow> (post_id \<times> string \<times> int) option" where
  "latest_unpublished_to_atp db actor = first_row (map (\<lambda>p. (p_id p, p_body p, p_created_at p))
     (newest_rows (filter (\<lambda>p. p_actor_id p = actor \<and> p_at_uri p = None \<and> live p) (t_posts db))))"

text \<open>Local posts of accounts and local accounts that have not left.\<close>

definition local_stats :: "post_db \<Rightarrow> nat \<times> nat" where
  "local_stats db =
     (length (filter (\<lambda>p. live p \<and> list_ex (\<lambda>a. a_id a = p_actor_id p \<and> a_actor_type a = ''local'') (t_actors db)) (t_posts db)),
      length (filter (\<lambda>a. a_actor_type a = ''local'' \<and> a_withdrawn_at a = None) (t_actors db)))"

text \<open>The polls not fetched since their threshold; a NULL is not before anything.\<close>

definition find_stale_remote_poll_post_ids :: "post_db \<Rightarrow> (post_id \<times> int) list \<Rightarrow> post_id list" where
  "find_stale_remote_poll_post_ids db candidates =
     concat (map (\<lambda>p. map fst (filter (\<lambda>(i, threshold). i = p_id p \<and> p_poll p \<noteq> None
       \<and> \<not> p_poll_update_received p
       \<and> (case p_poll_fetched_at p of None \<Rightarrow> False | Some t \<Rightarrow> t < threshold)) candidates)) (t_posts db))"

section \<open>Authors of received posts\<close>

record saveable_author_row =
  sa_id :: actor_id
  sa_username :: string
  sa_display_name :: "string option"

definition saveable_author :: "post_db \<Rightarrow> string \<Rightarrow> saveable_author_row option" where
  "saveable_author db did =
     map_option (\<lambda>a. \<lparr>sa_id = a_id a, sa_username = a_username a, sa_display_name = a_display_name a\<rparr>)
       (find (\<lambda>a. a_at_did a = Some did \<and> a_suspended_at a = None
         \<and> (list_ex (\<lambda>f. target_actor_id f = a_id a \<and> status f = Accepted
               \<and> list_ex (\<lambda>follower. a_id follower = follower_actor_id f \<and> a_actor_type follower = ''local'') (t_actors db))
             (follows (t_follows db))
           \<or> list_ex (\<lambda>lm. snd lm = a_id a) (t_list_members db))) (t_actors db))"

definition is_actor_suspended :: "post_db \<Rightarrow> actor_id \<Rightarrow> bool" where
  "is_actor_suspended db a \<longleftrightarrow> (case find_actor a db of Some r \<Rightarrow> a_suspended_at r \<noteq> None | None \<Rightarrow> False)"

definition list_ids_containing :: "post_db \<Rightarrow> actor_id \<Rightarrow> int list" where
  "list_ids_containing db a = map fst (filter (\<lambda>lm. snd lm = a) (t_list_members db))"

definition home_recipients :: "post_db \<Rightarrow> actor_id \<Rightarrow> post_id option \<Rightarrow> actor_id list" where
  "home_recipients db actor reply_to =
     map follower_actor_id (filter (\<lambda>f. target_actor_id f = actor \<and> status f = Accepted
       \<and> list_ex (\<lambda>a. a_id a = follower_actor_id f \<and> a_actor_type a = ''local'') (t_actors db)
       \<and> post_reply_target_followed db (Some (follower_actor_id f)) reply_to) (follows (t_follows db)))"

end
