(* ===== verification/Streams.thy ===== *)
theory Streams
  imports List_Facts Post_Lookups "HOL-Library.AList"
begin

text \<open>
  Real-time delivery: the channels and events of \<open>crates/seiran-common/src/streaming.rs\<close>, the websocket of
  \<open>crates/seiran-api/src/handlers/streaming.rs\<close>, and the functions that send a new post to its readers in
  \<open>handlers/notes/delivery.rs\<close>, \<open>inbound_activity_process/create.rs\<close> and \<open>seiran-atp-repo/src/firehose.rs\<close>.

  Messages are JSON values, not their text. The lower case of a tag and the hashtags of a text are parameters. The
  order in which a connection goes through its subscriptions is that of a hash table in the code and of a list here.
\<close>

section \<open>Channels\<close>

datatype channel_kind = Home_Timeline | Local_Timeline | Hybrid_Timeline | Global_Timeline | User_List int | Hashtag string

definition parse_channel :: "(string \<Rightarrow> string) \<Rightarrow> string \<Rightarrow> json \<Rightarrow> channel_kind option" where
  "parse_channel lower channel params =
     (if channel = ''homeTimeline'' then Some Home_Timeline
      else if channel = ''localTimeline'' then Some Local_Timeline
      else if channel = ''hybridTimeline'' then Some Hybrid_Timeline
      else if channel = ''globalTimeline'' then Some Global_Timeline
      else if channel = ''userList'' then
        map_option User_List (Option.bind (Option.bind (json_get params ''listId'') json_as_str) parse_i64)
      else if channel = ''hashtag'' then
        Option.bind (Option.bind (json_get params ''tag'') json_as_str) (\<lambda>tag. if tag = [] then None else Some (Hashtag (lower tag)))
      else None)"

record channel_scope =
  cs_is_local :: bool
  cs_visibility :: string
  cs_home_recipients :: "actor_id set"
  cs_list_ids :: "int set"
  cs_hashtags :: "string set"

definition scope_matches :: "channel_scope \<Rightarrow> channel_kind \<Rightarrow> actor_id \<Rightarrow> bool" where
  "scope_matches scope kind viewer =
     (let is_public_ish = cs_visibility scope \<noteq> ''unlisted'' \<and> cs_visibility scope \<noteq> ''followers_only'' in
      case kind of
        Home_Timeline \<Rightarrow> viewer \<in> cs_home_recipients scope
      | Local_Timeline \<Rightarrow> cs_is_local scope \<and> is_public_ish
      | Hybrid_Timeline \<Rightarrow> cs_is_local scope \<and> is_public_ish \<or> viewer \<in> cs_home_recipients scope
      | Global_Timeline \<Rightarrow> is_public_ish
      | User_List i \<Rightarrow> i \<in> cs_list_ids scope
      | Hashtag tag \<Rightarrow> cs_visibility scope \<noteq> ''followers_only'' \<and> tag \<in> cs_hashtags scope)"

section \<open>Events\<close>

record stream_event =
  se_recipients :: "actor_id set"
  se_payload :: "json option"
  se_channel :: "(channel_scope \<times> json) option"
  se_broadcast_all :: bool

definition event_payload :: "string \<Rightarrow> json \<Rightarrow> json" where
  "event_payload kind body = JObject [(''type'', JString kind), (''body'', body)]"

text \<open>The hub: what has been published.\<close>

type_synonym stream_hub = "stream_event list"

definition publish_event :: "actor_id set \<Rightarrow> string \<Rightarrow> json \<Rightarrow> stream_hub \<Rightarrow> stream_hub" where
  "publish_event recipients kind body hub =
     (if recipients = {} then hub
      else hub @ [\<lparr>se_recipients = recipients, se_payload = Some (event_payload kind body), se_channel = None, se_broadcast_all = False\<rparr>])"

definition publish_broadcast :: "string \<Rightarrow> json \<Rightarrow> stream_hub \<Rightarrow> stream_hub" where
  "publish_broadcast kind body hub =
     hub @ [\<lparr>se_recipients = {}, se_payload = Some (event_payload kind body), se_channel = None, se_broadcast_all = True\<rparr>]"

definition publish_note :: "actor_id set \<Rightarrow> json \<Rightarrow> stream_hub \<Rightarrow> stream_hub" where
  "publish_note recipients note_json = publish_event recipients ''note'' note_json"

definition publish_channel_note :: "channel_scope \<Rightarrow> json \<Rightarrow> stream_hub \<Rightarrow> stream_hub" where
  "publish_channel_note scope note_json hub =
     hub @ [\<lparr>se_recipients = {}, se_payload = None, se_channel = Some (scope, note_json), se_broadcast_all = False\<rparr>]"

section \<open>Who is sent a new post\<close>

definition find_home_recipient_ids :: "post_db \<Rightarrow> actor_id \<Rightarrow> post_id option \<Rightarrow> actor_id list" where
  "find_home_recipient_ids db target reply_to =
     map follower_actor_id (filter (\<lambda>f. target_actor_id f = target \<and> status f = Accepted
       \<and> list_ex (\<lambda>a. a_id a = follower_actor_id f \<and> a_actor_type a = ''local'') (t_actors db)
       \<and> post_reply_target_followed db (Some (follower_actor_id f)) reply_to) (follows (t_follows db)))"

definition dm_recipient_ids :: "post_db \<Rightarrow> post_id \<Rightarrow> actor_id list" where
  "dm_recipient_ids db i = map snd (filter (\<lambda>r. fst r = i) (t_post_recipients db))"

definition accepted_local_followers :: "post_db \<Rightarrow> actor_id \<Rightarrow> actor_id list" where
  "accepted_local_followers db a =
     find_accepted_local_follower_ids (\<lambda>f. list_ex (\<lambda>r. a_id r = f \<and> a_actor_type r = ''local'') (t_actors db)) a (t_follows db)"

record stream_note =
  sn_actor_id :: actor_id
  sn_text :: string
  sn_visibility :: "string option"
  sn_reply_to_post_id :: "post_id option"
  sn_json :: json

definition broadcast_new_note :: "(string \<Rightarrow> string list) \<Rightarrow> post_db \<Rightarrow> actor_id \<Rightarrow> stream_note \<Rightarrow> stream_hub \<Rightarrow> stream_hub" where
  "broadcast_new_note extract_hashtags db actor n =
     publish_channel_note \<lparr>cs_is_local = True,
       cs_visibility = (case sn_visibility n of Some v \<Rightarrow> v | None \<Rightarrow> ''public''),
       cs_home_recipients = insert actor (set (find_home_recipient_ids db actor (sn_reply_to_post_id n))),
       cs_list_ids = set (list_ids_containing db actor),
       cs_hashtags = set (extract_hashtags (sn_text n))\<rparr> (sn_json n)"

definition broadcast_direct_message :: "post_db \<Rightarrow> actor_id \<Rightarrow> post_id \<Rightarrow> stream_note \<Rightarrow> stream_hub \<Rightarrow> stream_hub" where
  "broadcast_direct_message db actor i n = publish_note (insert actor (set (dm_recipient_ids db i))) (sn_json n)"

definition set_field :: "string \<Rightarrow> json \<Rightarrow> json \<Rightarrow> json" where
  "set_field k v j = (case j of JObject fs \<Rightarrow> JObject (AList.update k v fs) | _ \<Rightarrow> j)"

definition broadcast_created_note :: "(string \<Rightarrow> string list) \<Rightarrow> post_db \<Rightarrow> stream_note \<Rightarrow> string \<Rightarrow> actor_id list \<Rightarrow> stream_hub \<Rightarrow> stream_hub" where
  "broadcast_created_note extract_hashtags db n v recipient_actor_ids hub =
     (if v = ''direct'' then
        (if recipient_actor_ids = [] then hub
         else publish_note (set recipient_actor_ids) (set_field ''visibility'' (JString ''direct'') (sn_json n)) hub)
      else publish_channel_note \<lparr>cs_is_local = False, cs_visibility = v,
        cs_home_recipients = insert (sn_actor_id n) (set (find_home_recipient_ids db (sn_actor_id n) (sn_reply_to_post_id n))),
        cs_list_ids = set (list_ids_containing db (sn_actor_id n)),
        cs_hashtags = set (extract_hashtags (sn_text n))\<rparr> (sn_json n) hub)"

definition publish_bsky_post_to_timelines :: "(string \<Rightarrow> string list) \<Rightarrow> post_db \<Rightarrow> stream_note \<Rightarrow> stream_hub \<Rightarrow> stream_hub" where
  "publish_bsky_post_to_timelines extract_hashtags db n =
     publish_channel_note \<lparr>cs_is_local = False, cs_visibility = ''public'',
       cs_home_recipients = set (home_recipients db (sn_actor_id n) (sn_reply_to_post_id n)),
       cs_list_ids = set (list_ids_containing db (sn_actor_id n)),
       cs_hashtags = set (extract_hashtags (sn_text n))\<rparr> (sn_json n)"

section \<open>Reactions and polls\<close>

definition reaction_agg_to_json :: "(string \<times> int \<times> string option) list \<Rightarrow> json list" where
  "reaction_agg_to_json agg = map (\<lambda>(emoji, count, emoji_url). JObject [(''emoji'', JString emoji),
       (''count'', JNumber (if 0 \<le> count then PosInt (word_of_int count) else NegInt (word_of_int count))),
       (''emojiUrl'', (case emoji_url of Some url \<Rightarrow> JString url | None \<Rightarrow> JNull))]) (filter (\<lambda>(emoji, _, _). emoji \<noteq> []) agg)"

definition publish_reaction_update :: "actor_id set \<Rightarrow> post_id \<Rightarrow> json list \<Rightarrow> actor_id \<Rightarrow> string option \<Rightarrow> stream_hub \<Rightarrow> stream_hub" where
  "publish_reaction_update recipients i reactions reactor emoji =
     publish_event recipients ''noteUpdated'' (JObject [(''postId'', JString (show_i64 i)), (''reactions'', JArray reactions),
       (''reactorActorId'', JString (show_i64 reactor)), (''reactorEmoji'', (case emoji of Some e \<Rightarrow> JString e | None \<Rightarrow> JNull))])"

definition broadcast_reaction_update ::
  "post_db \<Rightarrow> (string \<times> int \<times> string option) list \<Rightarrow> post_id \<Rightarrow> actor_id \<Rightarrow> actor_id \<Rightarrow> string option \<Rightarrow> stream_hub \<Rightarrow> stream_hub" where
  "broadcast_reaction_update db agg i author reactor emoji =
     publish_reaction_update (insert author (set (accepted_local_followers db author))) i (reaction_agg_to_json agg) reactor emoji"

definition broadcast_dm_reaction_update ::
  "post_db \<Rightarrow> (string \<times> int \<times> string option) list \<Rightarrow> post_id \<Rightarrow> actor_id \<Rightarrow> actor_id \<Rightarrow> string option \<Rightarrow> stream_hub \<Rightarrow> stream_hub" where
  "broadcast_dm_reaction_update db agg i author reactor emoji =
     publish_reaction_update (insert author (set (dm_recipient_ids db i))) i (reaction_agg_to_json agg) reactor emoji"

definition broadcast_poll_update :: "post_db \<Rightarrow> post_id \<Rightarrow> actor_id \<Rightarrow> json \<Rightarrow> stream_hub \<Rightarrow> stream_hub" where
  "broadcast_poll_update db i author poll =
     publish_event (insert author (set (accepted_local_followers db author))) ''pollUpdated''
       (JObject [(''postId'', JString (show_i64 i)), (''poll'', poll)])"

section \<open>A connection\<close>

datatype client_message = Connect string string json | Disconnect string | Unknown

datatype stream_input = Shutdown | Event stream_event | Lagged | Bus_Closed | Ping_Tick
  | Client "client_message option" | Client_Closed | Client_Other

datatype stream_frame = Payload "json option" | Channel_Frame string json | Error_Frame string | Ping | Restart_Close

text \<open>\<open>sc_tries\<close> counts the frames handed to the socket; \<open>sends\<close> says which of them it takes.\<close>

record stream_conn =
  sc_subscriptions :: "(string \<times> channel_kind) list"
  sc_sent :: "stream_frame list"
  sc_tries :: nat
  sc_open :: bool

definition send_frame :: "(nat \<Rightarrow> bool) \<Rightarrow> stream_frame \<Rightarrow> stream_conn \<Rightarrow> bool \<times> stream_conn" where
  "send_frame sends f c =
     (if sends (sc_tries c) then (True, c\<lparr>sc_sent := sc_sent c @ [f], sc_tries := sc_tries c + 1\<rparr>)
      else (False, c\<lparr>sc_tries := sc_tries c + 1\<rparr>))"

definition send_or_stop :: "(nat \<Rightarrow> bool) \<Rightarrow> stream_frame \<Rightarrow> stream_conn \<Rightarrow> stream_conn" where
  "send_or_stop sends f c = (case send_frame sends f c of (ok, c') \<Rightarrow> if ok then c' else c'\<lparr>sc_open := False\<rparr>)"

definition authorize_user_list :: "list_world \<Rightarrow> actor_id \<Rightarrow> int \<Rightarrow> bool" where
  "authorize_user_list w actor i = (case find_list w i of Some row \<Rightarrow> l_is_public row \<or> l_owner_actor_id row = actor | None \<Rightarrow> False)"

text \<open>The loop over the subscriptions; it returns from the handler when a frame cannot be sent.\<close>

fun send_to_subscriptions :: "(nat \<Rightarrow> bool) \<Rightarrow> actor_id \<Rightarrow> channel_scope \<Rightarrow> json \<Rightarrow> (string \<times> channel_kind) list \<Rightarrow> stream_conn \<Rightarrow> stream_conn" where
  "send_to_subscriptions sends viewer scope note_json [] c = c"
| "send_to_subscriptions sends viewer scope note_json ((sub_id, kind) # subs) c =
     (if scope_matches scope kind viewer
      then (case send_frame sends (Channel_Frame sub_id note_json) c of (ok, c') \<Rightarrow>
          if ok then send_to_subscriptions sends viewer scope note_json subs c' else c'\<lparr>sc_open := False\<rparr>)
      else send_to_subscriptions sends viewer scope note_json subs c)"

definition on_event :: "(nat \<Rightarrow> bool) \<Rightarrow> actor_id \<Rightarrow> stream_event \<Rightarrow> stream_conn \<Rightarrow> stream_conn" where
  "on_event sends viewer ev c =
     (let c1 = (if se_broadcast_all ev \<or> viewer \<in> se_recipients ev then send_or_stop sends (Payload (se_payload ev)) c else c) in
      if \<not> sc_open c1 then c1
      else case se_channel ev of
          Some (scope, note_json) \<Rightarrow> send_to_subscriptions sends viewer scope note_json (sc_subscriptions c1) c1
        | None \<Rightarrow> c1)"

definition on_connect :: "(string \<Rightarrow> string) \<Rightarrow> (nat \<Rightarrow> bool) \<Rightarrow> list_world \<Rightarrow> actor_id \<Rightarrow> string \<Rightarrow> string \<Rightarrow> json \<Rightarrow> stream_conn \<Rightarrow> stream_conn" where
  "on_connect lower sends w viewer channel sub_id params c =
     (let kind = (case parse_channel lower channel params of
          Some (User_List i) \<Rightarrow> if authorize_user_list w viewer i then Some (User_List i) else None
        | other \<Rightarrow> other)
      in case kind of
          Some k \<Rightarrow> c\<lparr>sc_subscriptions := AList.update sub_id k (sc_subscriptions c)\<rparr>
        | None \<Rightarrow> send_or_stop sends (Error_Frame sub_id) c)"

text \<open>One turn of the loop, with the lists as they are at that moment.\<close>

definition stream_turn :: "(string \<Rightarrow> string) \<Rightarrow> (nat \<Rightarrow> bool) \<Rightarrow> actor_id \<Rightarrow> list_world \<times> stream_input \<Rightarrow> stream_conn \<Rightarrow> stream_conn" where
  "stream_turn lower sends viewer = (\<lambda>(w, i) c.
     if \<not> sc_open c then c
     else case i of
         Shutdown \<Rightarrow> (snd (send_frame sends Restart_Close c))\<lparr>sc_open := False\<rparr>
       | Event ev \<Rightarrow> on_event sends viewer ev c
       | Lagged \<Rightarrow> c
       | Bus_Closed \<Rightarrow> c\<lparr>sc_open := False\<rparr>
       | Ping_Tick \<Rightarrow> send_or_stop sends Ping c
       | Client None \<Rightarrow> c
       | Client (Some (Connect channel sub_id params)) \<Rightarrow> on_connect lower sends w viewer channel sub_id params c
       | Client (Some (Disconnect sub_id)) \<Rightarrow> c\<lparr>sc_subscriptions := AList.delete sub_id (sc_subscriptions c)\<rparr>
       | Client (Some Unknown) \<Rightarrow> c
       | Client_Closed \<Rightarrow> c\<lparr>sc_open := False\<rparr>
       | Client_Other \<Rightarrow> c)"

definition handle_stream :: "(string \<Rightarrow> string) \<Rightarrow> (nat \<Rightarrow> bool) \<Rightarrow> actor_id \<Rightarrow> (list_world \<times> stream_input) list \<Rightarrow> stream_conn" where
  "handle_stream lower sends viewer inputs =
     fold (stream_turn lower sends viewer) inputs \<lparr>sc_subscriptions = [], sc_sent = [], sc_tries = 0, sc_open = True\<rparr>"

end
