(* ===== verification/Stream_Facts.thy ===== *)
theory Stream_Facts
  imports Streams
begin

text \<open>
  Real-time delivery shows what the timelines show: the channels match the queries of the timelines, a connection
  is sent only what is for its viewer, and while its socket works it misses nothing.
\<close>

section \<open>Channels and timelines\<close>

fun visibility_name :: "visibility \<Rightarrow> string" where
  "visibility_name Public = ''public''"
| "visibility_name Unlisted = ''unlisted''"
| "visibility_name Followers_Only = ''followers_only''"
| "visibility_name Direct = ''direct''"

definition note_of :: "posts_row \<Rightarrow> stream_note \<Rightarrow> bool" where
  "note_of p n \<longleftrightarrow> sn_actor_id n = p_actor_id p \<and> sn_visibility n = Some (visibility_name (p_visibility p))
     \<and> sn_reply_to_post_id n = ref_of Reply_Ref p"

definition local_actor :: "post_db \<Rightarrow> actor_id \<Rightarrow> bool" where
  "local_actor db a \<longleftrightarrow> list_ex (\<lambda>r. a_id r = a \<and> a_actor_type r = ''local'') (t_actors db)"

lemma in_home_recipients:
  "local_actor db viewer \<Longrightarrow> viewer \<in> set (find_home_recipient_ids db a reply_to)
     \<longleftrightarrow> follows_accepted db (Some viewer) a \<and> post_reply_target_followed db (Some viewer) reply_to"
  by (auto simp: find_home_recipient_ids_def local_actor_def follows_accepted_def is_viewer_def list_ex_iff)

lemma home_recipients_same: "home_recipients db a reply_to = find_home_recipient_ids db a reply_to"
  by (simp add: home_recipients_def find_home_recipient_ids_def)

lemma in_list_ids: "l \<in> set (list_ids_containing db a) \<longleftrightarrow> (l, a) \<in> set (t_list_members db)"
  by (force simp: list_ids_containing_def)

text \<open>
  What the timeline of a channel selects for a viewer. The social timeline also shows the followers-only answers of a
  followed author of this server to somebody the viewer does not follow; the hybrid channel leaves them out.
\<close>

fun channel_selects :: "(string \<Rightarrow> string list) \<Rightarrow> post_db \<Rightarrow> actor_id \<Rightarrow> posts_row \<Rightarrow> string \<Rightarrow> channel_kind \<Rightarrow> bool" where
  "channel_selects tags db viewer p txt Home_Timeline = feed_member db (Following viewer True) p"
| "channel_selects tags db viewer p txt Local_Timeline = (p_is_local p \<and> public_member db (Some viewer) True p)"
| "channel_selects tags db viewer p txt Global_Timeline = public_member db (Some viewer) True p"
| "channel_selects tags db viewer p txt Hybrid_Timeline = (social_member db viewer True p
     \<and> \<not> (p_visibility p = Followers_Only \<and> \<not> post_reply_target_followed db (Some viewer) (ref_of Reply_Ref p)))"
| "channel_selects tags db viewer p txt (User_List l) = feed_member db (List_Members l) p"
| "channel_selects tags db viewer p txt (Hashtag t) = (p_visibility p \<noteq> Followers_Only \<and> t \<in> set (tags txt))"

text \<open>The scope that a post calls for; \<open>own\<close> says whether the author is among the readers at home.\<close>

definition scope_of :: "(string \<Rightarrow> string list) \<Rightarrow> post_db \<Rightarrow> posts_row \<Rightarrow> string \<Rightarrow> actor_id set \<Rightarrow> channel_scope" where
  "scope_of tags db p txt own = \<lparr>cs_is_local = p_is_local p, cs_visibility = visibility_name (p_visibility p),
     cs_home_recipients = own \<union> set (find_home_recipient_ids db (p_actor_id p) (ref_of Reply_Ref p)),
     cs_list_ids = set (list_ids_containing db (p_actor_id p)), cs_hashtags = set (tags txt)\<rparr>"

lemma scope_matches_selected:
  assumes "live p" "p_visibility p \<noteq> Direct" "local_actor db viewer" "viewer \<noteq> p_actor_id p"
    "\<not> actor_is_hidden_for_viewer db (Some viewer) (p_actor_id p)"
    "\<not> (is_repost p \<and> repost_is_muted_for_viewer db (Some viewer) (p_actor_id p))" "own \<subseteq> {p_actor_id p}"
  shows "scope_matches (scope_of tags db p txt own) k viewer = channel_selects tags db viewer p txt k"
proof -
  let ?v = "visibility_name (p_visibility p)" and ?scope = "scope_of tags db p txt own"
  have v: "(?v \<noteq> ''unlisted'' \<and> ?v \<noteq> ''followers_only'') \<longleftrightarrow> p_visibility p = Public"
    "?v \<noteq> ''followers_only'' \<longleftrightarrow> p_visibility p \<noteq> Followers_Only"
    using assms(2) by (cases "p_visibility p"; simp)+
  have visible: "post_is_visible_to db (Some viewer) (p_actor_id p) (p_visibility p) (p_id p) True
      \<longleftrightarrow> (p_visibility p = Followers_Only \<longrightarrow> follows_accepted db (Some viewer) (p_actor_id p))"
    using assms(2,4) by (auto simp: post_is_visible_to_def is_viewer_def)
  have home: "viewer \<in> cs_home_recipients ?scope \<longleftrightarrow> feed_member db (Following viewer True) p"
    using assms(1,4-7) by (auto simp: scope_of_def in_home_recipients [OF assms(3)] visible)
  have public: "p_visibility p = Public \<longleftrightarrow> public_member db (Some viewer) True p"
    using assms(1,2,5,6) unfolding public_member_def not_hidden_def visible by (cases "p_visibility p") auto
  have social: "social_local_member db viewer True p \<longleftrightarrow> p_is_local p \<and> (p_visibility p = Public
      \<or> p_visibility p = Followers_Only \<and> follows_accepted db (Some viewer) (p_actor_id p))"
    using assms(1,2,4-6) unfolding social_local_member_def visible by (cases "p_visibility p") auto
  have feed: "feed_member db (Following viewer True) p \<longleftrightarrow> follows_accepted db (Some viewer) (p_actor_id p)
      \<and> post_reply_target_followed db (Some viewer) (ref_of Reply_Ref p)"
    unfolding home [symmetric] using assms(3,4,7) by (auto simp: scope_of_def in_home_recipients)
  have lists: "l \<in> cs_list_ids ?scope \<longleftrightarrow> feed_member db (List_Members l) p" for l
    using assms(1,2) by (simp add: scope_of_def in_list_ids)
  have scope: "cs_is_local ?scope = p_is_local p" "cs_visibility ?scope = ?v" "cs_hashtags ?scope = set (tags txt)"
    by (simp_all add: scope_of_def)
  show ?thesis
  proof (cases k)
    case Hybrid_Timeline
    have "scope_matches ?scope Hybrid_Timeline viewer \<longleftrightarrow> p_is_local p \<and> p_visibility p = Public \<or> feed_member db (Following viewer True) p"
      by (simp add: scope_matches_def scope v(1) home del: feed_member.simps)
    then show ?thesis unfolding Hybrid_Timeline channel_selects.simps social_member_def social feed
      by (cases "p_visibility p") auto
  qed (simp_all add: scope_matches_def scope v(2) home lists flip: v(1) public del: feed_member.simps)
qed


text \<open>A comment of \<open>firehose.rs\<close> says that posts from Bluesky do not reach the global channel. They do, for everybody.\<close>

lemma bsky_posts_reach_global:
  "\<exists>scope. publish_bsky_post_to_timelines tags db n hub = publish_channel_note scope (sn_json n) hub
     \<and> scope_matches scope Global_Timeline viewer \<and> \<not> scope_matches scope Local_Timeline viewer"
  by (simp add: publish_bsky_post_to_timelines_def scope_matches_def)
     (rule exI, rule conjI, rule refl, simp)

section \<open>What a connection is sent\<close>

text \<open>The client asked for channel \<open>k\<close> under \<open>sub_id\<close> when it could read the list, and later the event came.\<close>

definition connected :: "(string \<Rightarrow> string) \<Rightarrow> actor_id \<Rightarrow> (list_world \<times> stream_input) list \<Rightarrow> string \<Rightarrow> channel_kind \<Rightarrow> bool" where
  "connected lower viewer inputs sub_id k \<longleftrightarrow> (\<exists>w channel params. (w, Client (Some (Connect channel sub_id params))) \<in> set inputs
     \<and> parse_channel lower channel params = Some k \<and> (\<forall>i. k = User_List i \<longrightarrow> authorize_user_list w viewer i))"

definition meant_for :: "(string \<Rightarrow> string) \<Rightarrow> actor_id \<Rightarrow> (list_world \<times> stream_input) list \<Rightarrow> stream_frame \<Rightarrow> bool" where
  "meant_for lower viewer inputs f = (case f of
       Payload j \<Rightarrow> (\<exists>w ev. (w, Event ev) \<in> set inputs \<and> se_payload ev = j \<and> (se_broadcast_all ev \<or> viewer \<in> se_recipients ev))
     | Channel_Frame sub_id note_json \<Rightarrow> (\<exists>before w ev after scope k. inputs = before @ (w, Event ev) # after
         \<and> se_channel ev = Some (scope, note_json) \<and> scope_matches scope k viewer \<and> connected lower viewer before sub_id k)
     | _ \<Rightarrow> True)"

lemma connected_more: "connected lower viewer xs sub_id k \<Longrightarrow> connected lower viewer (xs @ ys) sub_id k"
  by (auto simp: connected_def)

lemma meant_for_more:
  assumes "meant_for lower viewer xs f"
  shows "meant_for lower viewer (xs @ ys) f"
proof (cases f)
  case (Channel_Frame sub_id j)
  then obtain before w ev after scope k where "xs = before @ (w, Event ev) # after"
    "se_channel ev = Some (scope, j)" "scope_matches scope k viewer" "connected lower viewer before sub_id k"
    using assms by (auto simp: meant_for_def)
  moreover from this have "xs @ ys = before @ (w, Event ev) # (after @ ys)" by simp
  ultimately show ?thesis unfolding meant_for_def Channel_Frame stream_frame.case by blast
qed (use assms in \<open>auto simp: meant_for_def\<close>)

definition conn_ok :: "(string \<Rightarrow> string) \<Rightarrow> actor_id \<Rightarrow> (list_world \<times> stream_input) list \<Rightarrow> stream_conn \<Rightarrow> bool" where
  "conn_ok lower viewer inputs c \<longleftrightarrow> (\<forall>(sub_id, k) \<in> set (sc_subscriptions c). connected lower viewer inputs sub_id k)
     \<and> (\<forall>f \<in> set (sc_sent c). meant_for lower viewer inputs f)"

lemma conn_ok_send:
  assumes "conn_ok lower viewer xs c" "meant_for lower viewer xs f"
  shows "conn_ok lower viewer xs (snd (send_frame sends f c))" "conn_ok lower viewer xs (send_or_stop sends f c)"
  using assms by (auto simp: send_or_stop_def send_frame_def conn_ok_def)

lemma conn_ok_closed: "conn_ok lower viewer xs c \<Longrightarrow> conn_ok lower viewer xs (c\<lparr>sc_open := b\<rparr>)"
  by (simp add: conn_ok_def)

lemma conn_ok_subscriptions:
  assumes "conn_ok lower viewer xs c" "\<And>sub_id k. (sub_id, k) \<in> set subs \<Longrightarrow> scope_matches scope k viewer \<Longrightarrow> meant_for lower viewer xs (Channel_Frame sub_id j)"
  shows "conn_ok lower viewer xs (send_to_subscriptions sends viewer scope j subs c)"
  using assms
proof (induction subs arbitrary: c)
  case (Cons s subs)
  obtain sub_id k where s: "s = (sub_id, k)" by (cases s)
  show ?case
  proof (cases "scope_matches scope k viewer")
    case True
    obtain ok c' where c': "send_frame sends (Channel_Frame sub_id j) c = (ok, c')" by (cases "send_frame sends (Channel_Frame sub_id j) c")
    have "meant_for lower viewer xs (Channel_Frame sub_id j)" by (rule Cons.prems(2) [OF _ True]) (simp add: s)
    then have "conn_ok lower viewer xs c'" using conn_ok_send(1) [OF Cons.prems(1), of _ sends] c' by (metis snd_conv)
    moreover from this have "conn_ok lower viewer xs (send_to_subscriptions sends viewer scope j subs c')"
      by (rule Cons.IH) (rule Cons.prems(2), simp_all)
    ultimately show ?thesis using s True c' by (simp add: conn_ok_closed)
  qed (use Cons s in auto)
qed simp

lemma in_updated: "x \<in> set (AList.update k v al) \<Longrightarrow> x = (k, v) \<or> x \<in> set al"
  by (induction al) (auto split: if_splits)

lemma conn_ok_turn:
  assumes "conn_ok lower viewer xs c"
  shows "conn_ok lower viewer (xs @ [(w, i)]) (stream_turn lower sends viewer (w, i) c)"
proof -
  let ?xs = "xs @ [(w, i)]"
  have subs: "connected lower viewer xs sub_id k" if "(sub_id, k) \<in> set (sc_subscriptions c)" for sub_id k
    using assms that unfolding conn_ok_def by auto
  have c: "conn_ok lower viewer ?xs c"
    using assms connected_more meant_for_more unfolding conn_ok_def by blast
  have other: "meant_for lower viewer ?xs f" if "\<forall>j. f \<noteq> Payload j" "\<forall>s j. f \<noteq> Channel_Frame s j" for f
    using that by (cases f) (auto simp: meant_for_def)
  show ?thesis
  proof (cases "sc_open c")
    case True
    show ?thesis
    proof (cases i)
      case (Event ev)
      let ?c1 = "if se_broadcast_all ev \<or> viewer \<in> se_recipients ev then send_or_stop sends (Payload (se_payload ev)) c else c"
      have "meant_for lower viewer ?xs (Payload (se_payload ev))" if "se_broadcast_all ev \<or> viewer \<in> se_recipients ev"
        unfolding meant_for_def stream_frame.case using that Event by (intro exI [of _ w] exI [of _ ev]) simp
      then have "conn_ok lower viewer ?xs ?c1" using conn_ok_send(2) [OF c] c by simp
      moreover have "sc_subscriptions ?c1 = sc_subscriptions c" by (simp add: send_or_stop_def send_frame_def)
      moreover have "meant_for lower viewer ?xs (Channel_Frame sub_id j)"
        if "se_channel ev = Some (scope, j)" "(sub_id, k) \<in> set (sc_subscriptions c)" "scope_matches scope k viewer" for scope j sub_id k
        using that subs Event unfolding meant_for_def by (simp, blast)
      ultimately have "conn_ok lower viewer ?xs (on_event sends viewer ev c)"
        by (auto simp: on_event_def Let_def intro!: conn_ok_subscriptions split: option.split)
      then show ?thesis using True Event by (simp add: stream_turn_def)
    next
      case (Client m)
      have "conn_ok lower viewer ?xs (on_connect lower sends w viewer channel sub_id params c)"
        if "m = Some (Connect channel sub_id params)" for channel sub_id params
      proof -
        have new: "connected lower viewer ?xs sub_id k"
          if "parse_channel lower channel params = Some k" "\<forall>i. k = User_List i \<longrightarrow> authorize_user_list w viewer i" for k
          using that \<open>m = _\<close> Client unfolding connected_def by auto
        have "conn_ok lower viewer ?xs (c\<lparr>sc_subscriptions := AList.update sub_id k (sc_subscriptions c)\<rparr>)" if "connected lower viewer ?xs sub_id k" for k
          using c that unfolding conn_ok_def by (auto dest!: in_updated)
        then show ?thesis using new conn_ok_send(2) [OF c other]
          by (auto simp: on_connect_def Let_def split: option.split channel_kind.split)
      qed
      moreover have "conn_ok lower viewer ?xs (c\<lparr>sc_subscriptions := AList.delete sub_id (sc_subscriptions c)\<rparr>)" for sub_id
        using c by (auto simp: conn_ok_def AList.delete_eq)
      ultimately show ?thesis using True Client c by (auto simp: stream_turn_def split: option.split client_message.split)
    qed (use True c other in \<open>auto simp: stream_turn_def intro!: conn_ok_send conn_ok_closed\<close>)
  qed (use c in \<open>simp add: stream_turn_def\<close>)
qed

lemma handle_stream_ok: "conn_ok lower viewer inputs (handle_stream lower sends viewer inputs)"
proof (induction inputs rule: rev_induct)
  case (snoc x xs)
  then show ?case using conn_ok_turn [of lower viewer xs _ "fst x" "snd x"] by (simp add: handle_stream_def)
qed (simp add: handle_stream_def conn_ok_def)

text \<open>
  C19. Nobody is sent what is not for them, whatever requests the client makes and whatever is published: every event
  a connection forwards names its viewer or is for everybody, and every post it forwards on a channel matches a
  channel that this client had asked for before, under that very id, and, for a list, could read at that time.
\<close>

theorem stream_only_meant_for_viewer:
  "list_all (meant_for lower viewer inputs) (sc_sent (handle_stream lower sends viewer inputs))"
  using handle_stream_ok [of lower viewer inputs sends] by (simp add: conn_ok_def list_all_iff)

section \<open>What a connection is not denied\<close>

fun ends_stream :: "stream_input \<Rightarrow> bool" where
  "ends_stream Shutdown = True"
| "ends_stream Bus_Closed = True"
| "ends_stream Client_Closed = True"
| "ends_stream _ = False"

definition event_frames :: "actor_id \<Rightarrow> (string \<times> channel_kind) list \<Rightarrow> stream_event \<Rightarrow> stream_frame list" where
  "event_frames viewer subs ev = (if se_broadcast_all ev \<or> viewer \<in> se_recipients ev then [Payload (se_payload ev)] else [])
     @ (case se_channel ev of None \<Rightarrow> [] | Some (scope, j) \<Rightarrow>
          map (\<lambda>(sub_id, _). Channel_Frame sub_id j) (filter (\<lambda>(_, k). scope_matches scope k viewer) subs))"

abbreviation works :: "nat \<Rightarrow> bool" where
  "works \<equiv> \<lambda>_. True"

lemma send_works: "send_frame works f c = (True, c\<lparr>sc_sent := sc_sent c @ [f], sc_tries := sc_tries c + 1\<rparr>)"
  by (simp add: send_frame_def)

lemma subscriptions_work:
  "sc_open c \<Longrightarrow> sc_sent (send_to_subscriptions works viewer scope j subs c)
     = sc_sent c @ map (\<lambda>(sub_id, _). Channel_Frame sub_id j) (filter (\<lambda>(_, k). scope_matches scope k viewer) subs)
   \<and> sc_open (send_to_subscriptions works viewer scope j subs c)
   \<and> sc_subscriptions (send_to_subscriptions works viewer scope j subs c) = sc_subscriptions c"
proof (induction subs arbitrary: c)
  case (Cons s subs)
  obtain sub_id k where s: "s = (sub_id, k)" by (cases s)
  let ?c = "c\<lparr>sc_sent := sc_sent c @ [Channel_Frame sub_id j], sc_tries := sc_tries c + 1\<rparr>"
  show ?case
  proof (cases "scope_matches scope k viewer")
    case True
    have "sc_open ?c" "sc_sent ?c = sc_sent c @ [Channel_Frame sub_id j]" "sc_subscriptions ?c = sc_subscriptions c"
      using Cons.prems by simp_all
    then show ?thesis using Cons.IH [of ?c] True unfolding s by (simp add: send_works del: stream_conn.select_convs)
  next
    case False
    then show ?thesis using Cons.IH [OF Cons.prems] unfolding s by simp
  qed
qed simp

lemma event_works:
  "sc_open c \<Longrightarrow> sc_sent (on_event works viewer ev c) = sc_sent c @ event_frames viewer (sc_subscriptions c) ev
   \<and> sc_open (on_event works viewer ev c) \<and> sc_subscriptions (on_event works viewer ev c) = sc_subscriptions c"
  by (auto simp: on_event_def event_frames_def send_or_stop_def send_works subscriptions_work split: option.split)

lemma turn_works:
  assumes "sc_open c" "\<not> ends_stream i"
  shows "sc_open (stream_turn lower works viewer (w, i) c)"
  using assms event_works [OF assms(1)]
  by (cases i) (auto simp: stream_turn_def send_or_stop_def send_works on_connect_def Let_def split: option.split client_message.split channel_kind.split)

lemma stream_works: "\<forall>x \<in> set inputs. \<not> ends_stream (snd x) \<Longrightarrow> sc_open (handle_stream lower works viewer inputs)"
proof (induction inputs rule: rev_induct)
  case (snoc x xs)
  then show ?case using turn_works [of _ "snd x" lower viewer "fst x"] by (simp add: handle_stream_def)
qed (simp add: handle_stream_def)

text \<open>
  C20. While the socket works and nobody ends the connection, it misses nothing: each event adds exactly its payload,
  when it names the viewer or is for everybody, and one frame for each subscription whose channel it matches.
\<close>

theorem stream_forwards_all:
  assumes "\<forall>x \<in> set inputs. \<not> ends_stream (snd x)"
  shows "sc_sent (handle_stream lower (\<lambda>_. True) viewer (inputs @ [(w, Event ev)]))
    = sc_sent (handle_stream lower (\<lambda>_. True) viewer inputs)
      @ event_frames viewer (sc_subscriptions (handle_stream lower (\<lambda>_. True) viewer inputs)) ev"
  using event_works [OF stream_works [OF assms]] stream_works [OF assms, of lower viewer]
  by (simp add: handle_stream_def stream_turn_def)

section \<open>Witnesses and limits\<close>

definition demo_note :: stream_note where
  "demo_note = \<lparr>sn_actor_id = 2, sn_text = ''hello'', sn_visibility = Some ''public'', sn_reply_to_post_id = Some 9, sn_json = JString ''note''\<rparr>"


definition demo_stream :: "(list_world \<times> stream_input) list" where
  "demo_stream = [(demo_public_world, Client (Some (Connect ''userList'' ''a'' (JObject [(''listId'', JString ''100'')])))),
     (demo_public_world, Client (Some (Connect ''homeTimeline'' ''b'' JNull)))]"

definition demo_list_event :: stream_event where
  "demo_list_event = hd (broadcast_new_note (\<lambda>_. []) demo_timeline_db 2 demo_note [])"

lemma stream_forwards_all_witness:
  "sc_sent (handle_stream id (\<lambda>_. True) 3 (demo_stream @ [(demo_public_world, Event demo_list_event)])) = [Channel_Frame ''a'' (JString ''note'')]"
proof -
  have "\<forall>x \<in> set demo_stream. \<not> ends_stream (snd x)" by (simp add: demo_stream_def)
  moreover have "sc_sent (handle_stream id (\<lambda>_. True) 3 demo_stream) = []" by code_simp
  moreover have "event_frames 3 (sc_subscriptions (handle_stream id (\<lambda>_. True) 3 demo_stream)) demo_list_event = [Channel_Frame ''a'' (JString ''note'')]"
    by code_simp
  ultimately show ?thesis using stream_forwards_all [of demo_stream id 3 demo_public_world demo_list_event] by simp
qed

text \<open>The right to read a list is asked for once: made private, the list goes on to be streamed to the subscriber.\<close>

lemma private_list_keeps_streaming:
  "let w = list_step demo_list_env (L_Update demo_alice ''100'' ''friends'' False) demo_public_world in
   \<not> authorize_user_list w 3 100
   \<and> Channel_Frame ''a'' (JString ''note'') \<in> set (sc_sent (handle_stream id (\<lambda>_. True) 3 (demo_stream @ [(w, Event demo_list_event)])))"
  by code_simp

text \<open>An author's own answer to somebody not followed is streamed to the home channel, which the home timeline does not show.\<close>

lemma own_reply_only_streamed:
  "let db = demo_home_db\<lparr>t_follows := empty_follow_db\<rparr>; p = t_posts db ! 1 in
   \<not> feed_member db (Following 2 True) p
   \<and> list_all (\<lambda>ev. case se_channel ev of Some (scope, _) \<Rightarrow> scope_matches scope Home_Timeline 2 | None \<Rightarrow> False)
       (broadcast_new_note (\<lambda>_. []) db (p_actor_id p) demo_note [])"
  by code_simp

end
