(* ===== verification/Migration_Table.thy ===== *)
theory Migration_Table
  imports Mst
begin

text \<open>
  The tables of the migration of accounts (\<open>migrations/20260908063030_create_at_migration_tables.sql\<close> and the
  later columns) and their repository, \<open>crates/seiran-common/src/repository/at_migration.rs\<close>: requests, the
  records and blobs that wait to be imported. A statement is atomic; \<open>NOW()\<close> and the bound times are
  arguments, in microseconds. \<open>updated_at\<close> and \<open>created_at\<close> are not kept: nothing reads them.
\<close>

section \<open>Rows\<close>

datatype at_migration_status =
    Awaiting_Source_2fa | Fetching_Repo | Awaiting_Seiran_Email | Requesting_Plc_Signature
  | Awaiting_Plc_Token | Awaiting_Dns_Txt | Submitting_Plc | Importing_Data | Deactivating_Source
  | Mig_Completed | Mig_Failed | Failed_Post_Submit | Mig_Abandoned

fun migration_status_text :: "at_migration_status \<Rightarrow> string" where
  "migration_status_text Awaiting_Source_2fa = ''awaiting_source_2fa''"
| "migration_status_text Fetching_Repo = ''fetching_repo''"
| "migration_status_text Awaiting_Seiran_Email = ''awaiting_seiran_email''"
| "migration_status_text Requesting_Plc_Signature = ''requesting_plc_signature''"
| "migration_status_text Awaiting_Plc_Token = ''awaiting_plc_token''"
| "migration_status_text Awaiting_Dns_Txt = ''awaiting_dns_txt''"
| "migration_status_text Submitting_Plc = ''submitting_plc''"
| "migration_status_text Importing_Data = ''importing_data''"
| "migration_status_text Deactivating_Source = ''deactivating_source''"
| "migration_status_text Mig_Completed = ''completed''"
| "migration_status_text Mig_Failed = ''failed''"
| "migration_status_text Failed_Post_Submit = ''failed_post_submit''"
| "migration_status_text Mig_Abandoned = ''abandoned''"

text \<open>The request with the columns of the wait for DNS (\<open>MigrationDnsStage\<close>).\<close>

record mig_request =
  mr_id :: int
  mr_status :: at_migration_status
  mr_token_hash :: string
  mr_source_handle :: string
  mr_source_pds_endpoint :: string
  mr_source_did :: string
  mr_source_access_jwt :: "string option"
  mr_source_refresh_jwt :: "string option"
  mr_new_username :: string
  mr_password_hash :: string
  mr_new_signing_key_pem :: "string option"
  mr_new_rotation_key_pem :: "string option"
  mr_plc_submitted_at :: "int option"
  mr_actor_id :: "int option"
  mr_user_id :: "int option"
  mr_email :: "string option"
  mr_last_error :: "string option"
  mr_agreed_tos_text :: "string option"
  mr_staged_plc_operation :: "json option"
  mr_staged_signing_key_pem :: "string option"
  mr_staged_rotation_key_pem :: "string option"
  mr_cf_txt_record_id :: "string option"
  mr_txt_visible_at :: "int option"
  mr_dns_locked_until :: "int option"

record migration_dns_stage =
  ds_id :: int
  ds_plc_operation :: "json option"
  ds_signing_key_pem :: "string option"
  ds_rotation_key_pem :: "string option"
  ds_cf_txt_record_id :: "string option"
  ds_txt_visible_at :: "int option"

record staged_record =
  sg_collection :: string
  sg_rkey :: string
  sg_cid :: string
  sg_bytes :: bytes

record mig_record =
  rc_id :: int
  rc_request_id :: int
  rc_staged :: staged_record
  rc_imported_at :: "int option"
  rc_follow_materialized_at :: "int option"

record mig_blob =
  bl_id :: int
  bl_request_id :: int
  bl_cid :: string
  bl_imported_at :: "int option"

record mig_db =
  md_requests :: "mig_request list"
  md_records :: "mig_record list"
  md_blobs :: "mig_blob list"
  md_record_seq :: int
  md_blob_seq :: int

record new_migration_request =
  nm_token_hash :: string
  nm_source_handle :: string
  nm_source_pds_endpoint :: string
  nm_source_did :: string
  nm_source_access_jwt :: string
  nm_source_refresh_jwt :: string
  nm_new_username :: string
  nm_password_hash :: string
  nm_email :: "string option"
  nm_agreed_tos_text :: "string option"

section \<open>Requests\<close>

definition new_request_row :: "int \<Rightarrow> new_migration_request \<Rightarrow> mig_request" where
  "new_request_row i q =
     \<lparr>mr_id = i, mr_status = Fetching_Repo, mr_token_hash = nm_token_hash q, mr_source_handle = nm_source_handle q,
      mr_source_pds_endpoint = nm_source_pds_endpoint q, mr_source_did = nm_source_did q,
      mr_source_access_jwt = Some (nm_source_access_jwt q), mr_source_refresh_jwt = Some (nm_source_refresh_jwt q),
      mr_new_username = nm_new_username q, mr_password_hash = nm_password_hash q,
      mr_new_signing_key_pem = None, mr_new_rotation_key_pem = None, mr_plc_submitted_at = None,
      mr_actor_id = None, mr_user_id = None, mr_email = nm_email q, mr_last_error = None,
      mr_agreed_tos_text = nm_agreed_tos_text q, mr_staged_plc_operation = None,
      mr_staged_signing_key_pem = None, mr_staged_rotation_key_pem = None, mr_cf_txt_record_id = None,
      mr_txt_visible_at = None, mr_dns_locked_until = None\<rparr>"

text \<open>The insertion fails on the primary key only.\<close>

definition create_migration_request :: "int \<Rightarrow> new_migration_request \<Rightarrow> mig_db \<Rightarrow> mig_db option" where
  "create_migration_request i q db =
     (if i \<in> mr_id ` set (md_requests db) then None
      else Some (db\<lparr>md_requests := md_requests db @ [new_request_row i q]\<rparr>))"

definition get_request :: "int \<Rightarrow> mig_db \<Rightarrow> mig_request option" where
  "get_request i db = find (\<lambda>r. mr_id r = i) (md_requests db)"

definition find_by_token_hash :: "string \<Rightarrow> mig_db \<Rightarrow> mig_request option" where
  "find_by_token_hash h db = find (\<lambda>r. mr_token_hash r = h) (md_requests db)"

text \<open>\<open>UPDATE at_migration_requests SET ... WHERE id = $1\<close>, and with one more condition: whether a row changed.\<close>

definition change_request :: "int \<Rightarrow> (mig_request \<Rightarrow> mig_request) \<Rightarrow> mig_db \<Rightarrow> mig_db" where
  "change_request i f db =
     db\<lparr>md_requests := map (\<lambda>r. if mr_id r = i then f r else r) (md_requests db)\<rparr>"

definition change_request_if ::
  "int \<Rightarrow> (mig_request \<Rightarrow> bool) \<Rightarrow> (mig_request \<Rightarrow> mig_request) \<Rightarrow> mig_db \<Rightarrow> bool \<times> mig_db" where
  "change_request_if i P f db =
     (list_ex (\<lambda>r. mr_id r = i \<and> P r) (md_requests db), change_request i (\<lambda>r. if P r then f r else r) db)"

definition set_migration_status :: "int \<Rightarrow> at_migration_status \<Rightarrow> mig_db \<Rightarrow> mig_db" where
  "set_migration_status i st = change_request i (\<lambda>r. r\<lparr>mr_status := st\<rparr>)"

definition set_migration_failed :: "int \<Rightarrow> at_migration_status \<Rightarrow> string \<Rightarrow> mig_db \<Rightarrow> mig_db" where
  "set_migration_failed i st error = change_request i (\<lambda>r. r\<lparr>mr_status := st, mr_last_error := Some error\<rparr>)"

definition mark_plc_submitted :: "int \<Rightarrow> string \<Rightarrow> string \<Rightarrow> int \<Rightarrow> mig_db \<Rightarrow> mig_db" where
  "mark_plc_submitted i signing rotation now = change_request i (\<lambda>r. r
     \<lparr>mr_status := Submitting_Plc, mr_new_signing_key_pem := Some signing,
      mr_new_rotation_key_pem := Some rotation, mr_plc_submitted_at := Some now\<rparr>)"

definition confirm_account_created :: "int \<Rightarrow> int \<Rightarrow> int \<Rightarrow> mig_db \<Rightarrow> mig_db" where
  "confirm_account_created i actor user = change_request i (\<lambda>r. r
     \<lparr>mr_status := Importing_Data, mr_actor_id := Some actor, mr_user_id := Some user\<rparr>)"

definition list_by_statuses :: "at_migration_status list \<Rightarrow> mig_db \<Rightarrow> int list" where
  "list_by_statuses sts db = map mr_id (filter (\<lambda>r. mr_status r \<in> set sts) (md_requests db))"

definition incomplete_status_for_user :: "int \<Rightarrow> mig_db \<Rightarrow> at_migration_status option" where
  "incomplete_status_for_user user db = map_option mr_status
     (find (\<lambda>r. mr_user_id r = Some user \<and> mr_status r \<notin> {Mig_Completed, Mig_Abandoned}) (md_requests db))"

definition stage_plc_operation :: "int \<Rightarrow> json \<Rightarrow> string \<Rightarrow> string \<Rightarrow> mig_db \<Rightarrow> bool \<times> mig_db" where
  "stage_plc_operation i operation signing rotation =
     change_request_if i (\<lambda>r. mr_status r = Awaiting_Plc_Token)
       (\<lambda>r. r\<lparr>mr_status := Awaiting_Dns_Txt, mr_staged_plc_operation := Some operation,
              mr_staged_signing_key_pem := Some signing, mr_staged_rotation_key_pem := Some rotation,
              mr_cf_txt_record_id := None, mr_txt_visible_at := None, mr_last_error := None\<rparr>)"

text \<open>The lease of the wait for DNS.\<close>

definition dns_free :: "int \<Rightarrow> mig_request \<Rightarrow> bool" where
  "dns_free now r \<longleftrightarrow> mr_status r = Awaiting_Dns_Txt
     \<and> (case mr_dns_locked_until r of None \<Rightarrow> True | Some t \<Rightarrow> t < now)"

definition list_dns_wait_ids :: "int \<Rightarrow> mig_db \<Rightarrow> int list" where
  "list_dns_wait_ids now db = sort (map mr_id (filter (dns_free now) (md_requests db)))"

definition dns_stage :: "mig_request \<Rightarrow> migration_dns_stage" where
  "dns_stage r = \<lparr>ds_id = mr_id r, ds_plc_operation = mr_staged_plc_operation r,
     ds_signing_key_pem = mr_staged_signing_key_pem r, ds_rotation_key_pem = mr_staged_rotation_key_pem r,
     ds_cf_txt_record_id = mr_cf_txt_record_id r, ds_txt_visible_at = mr_txt_visible_at r\<rparr>"

definition claim_dns_wait :: "int \<Rightarrow> int \<Rightarrow> int \<Rightarrow> mig_db \<Rightarrow> migration_dns_stage option \<times> mig_db" where
  "claim_dns_wait i lease_secs now db =
     (case get_request i db of
        Some r \<Rightarrow> if dns_free now r
          then (Some (dns_stage r),
                change_request i (\<lambda>r. r\<lparr>mr_dns_locked_until := Some (now + lease_secs * 1000000)\<rparr>) db)
          else (None, db)
      | None \<Rightarrow> (None, db))"

definition release_dns_wait :: "int \<Rightarrow> mig_db \<Rightarrow> mig_db" where
  "release_dns_wait i = change_request i (\<lambda>r. r\<lparr>mr_dns_locked_until := None\<rparr>)"

definition set_dns_txt_record_id :: "int \<Rightarrow> string \<Rightarrow> mig_db \<Rightarrow> mig_db" where
  "set_dns_txt_record_id i record_id = change_request i (\<lambda>r. r\<lparr>mr_cf_txt_record_id := Some record_id\<rparr>)"

definition mark_dns_txt_visible :: "int \<Rightarrow> int \<Rightarrow> mig_db \<Rightarrow> mig_db" where
  "mark_dns_txt_visible i now = change_request i
     (\<lambda>r. if mr_txt_visible_at r = None then r\<lparr>mr_txt_visible_at := Some now\<rparr> else r)"

definition transition_status :: "int \<Rightarrow> at_migration_status \<Rightarrow> at_migration_status \<Rightarrow> mig_db \<Rightarrow> bool \<times> mig_db" where
  "transition_status i from_st to_st = change_request_if i (\<lambda>r. mr_status r = from_st) (\<lambda>r. r\<lparr>mr_status := to_st\<rparr>)"

section \<open>Staged records and blobs\<close>

text \<open>
  A batch is inserted row by row; a row whose key is there, from before or from the same batch, is skipped.
  The identity of a skipped row is used up.
\<close>

definition stage_one_record :: "int \<Rightarrow> staged_record \<Rightarrow> mig_db \<Rightarrow> mig_db" where
  "stage_one_record i s db =
     (if list_ex (\<lambda>r. rc_request_id r = i \<and> sg_collection (rc_staged r) = sg_collection s
                      \<and> sg_rkey (rc_staged r) = sg_rkey s) (md_records db)
      then db\<lparr>md_record_seq := md_record_seq db + 1\<rparr>
      else db\<lparr>md_records := md_records db @ [\<lparr>rc_id = md_record_seq db, rc_request_id = i, rc_staged = s,
                rc_imported_at = None, rc_follow_materialized_at = None\<rparr>],
              md_record_seq := md_record_seq db + 1\<rparr>)"

definition stage_records :: "int \<Rightarrow> staged_record list \<Rightarrow> mig_db \<Rightarrow> mig_db" where
  "stage_records i records db = fold (stage_one_record i) records db"

definition stage_one_blob :: "int \<Rightarrow> string \<Rightarrow> mig_db \<Rightarrow> mig_db" where
  "stage_one_blob i c db =
     (if list_ex (\<lambda>b. bl_request_id b = i \<and> bl_cid b = c) (md_blobs db)
      then db\<lparr>md_blob_seq := md_blob_seq db + 1\<rparr>
      else db\<lparr>md_blobs := md_blobs db @ [\<lparr>bl_id = md_blob_seq db, bl_request_id = i, bl_cid = c,
                bl_imported_at = None\<rparr>], md_blob_seq := md_blob_seq db + 1\<rparr>)"

definition stage_blobs :: "int \<Rightarrow> string list \<Rightarrow> mig_db \<Rightarrow> mig_db" where
  "stage_blobs i cids db = fold (stage_one_blob i) cids db"

text \<open>
  \<open>ORDER BY id LIMIT 1 FOR UPDATE SKIP LOCKED\<close> in a statement of its own: the lock of the row ends with the
  statement and the assignment changes nothing, so a claim is a read.
\<close>

definition record_pending :: "int \<Rightarrow> mig_record \<Rightarrow> bool" where
  "record_pending i r \<longleftrightarrow> rc_request_id r = i \<and> rc_imported_at r = None"

definition blob_pending :: "int \<Rightarrow> mig_blob \<Rightarrow> bool" where
  "blob_pending i b \<longleftrightarrow> bl_request_id b = i \<and> bl_imported_at b = None"

definition first_by :: "('a \<Rightarrow> int) \<Rightarrow> ('a \<Rightarrow> bool) \<Rightarrow> 'a list \<Rightarrow> 'a option" where
  "first_by k P xs = (case sort_key k (filter P xs) of [] \<Rightarrow> None | x # _ \<Rightarrow> Some x)"

definition claim_next_record :: "int \<Rightarrow> mig_db \<Rightarrow> mig_record option" where
  "claim_next_record i db = first_by rc_id (record_pending i) (md_records db)"

definition mark_record_imported :: "int \<Rightarrow> int \<Rightarrow> mig_db \<Rightarrow> mig_db" where
  "mark_record_imported k now db =
     db\<lparr>md_records := map (\<lambda>r. if rc_id r = k then r\<lparr>rc_imported_at := Some now\<rparr> else r) (md_records db)\<rparr>"

definition claim_next_blob :: "int \<Rightarrow> mig_db \<Rightarrow> mig_blob option" where
  "claim_next_blob i db = first_by bl_id (blob_pending i) (md_blobs db)"

definition mark_blob_imported :: "int \<Rightarrow> int \<Rightarrow> mig_db \<Rightarrow> mig_db" where
  "mark_blob_imported k now db =
     db\<lparr>md_blobs := map (\<lambda>b. if bl_id b = k then b\<lparr>bl_imported_at := Some now\<rparr> else b) (md_blobs db)\<rparr>"

definition import_progress :: "int \<Rightarrow> mig_db \<Rightarrow> int \<times> int" where
  "import_progress i db =
     (int (length (filter (\<lambda>r. rc_request_id r = i \<and> rc_imported_at r \<noteq> None) (md_records db)))
        + int (length (filter (\<lambda>b. bl_request_id b = i \<and> bl_imported_at b \<noteq> None) (md_blobs db))),
      int (length (filter (\<lambda>r. rc_request_id r = i) (md_records db)))
        + int (length (filter (\<lambda>b. bl_request_id b = i) (md_blobs db))))"

definition follow_pending :: "mig_record \<Rightarrow> bool" where
  "follow_pending r \<longleftrightarrow> sg_collection (rc_staged r) = ''app.bsky.graph.follow''
     \<and> rc_imported_at r \<noteq> None \<and> rc_follow_materialized_at r = None"

definition claim_next_follow_record :: "int \<Rightarrow> mig_db \<Rightarrow> mig_record option" where
  "claim_next_follow_record i db = first_by rc_id (\<lambda>r. rc_request_id r = i \<and> follow_pending r) (md_records db)"

definition mark_follow_materialized :: "int \<Rightarrow> int \<Rightarrow> mig_db \<Rightarrow> mig_db" where
  "mark_follow_materialized k now db =
     db\<lparr>md_records := map (\<lambda>r. if rc_id r = k then r\<lparr>rc_follow_materialized_at := Some now\<rparr> else r) (md_records db)\<rparr>"

definition list_request_ids_with_pending_follow_materialization :: "mig_db \<Rightarrow> int list" where
  "list_request_ids_with_pending_follow_materialization db =
     remdups (map rc_request_id (filter follow_pending (md_records db)))"

section \<open>What the statements do to a request\<close>

lemma get_request_id: "get_request i db = Some r \<Longrightarrow> mr_id r = i"
  by (simp add: get_request_def find_Some_iff) metis

lemma get_change_request:
  assumes "\<And>r. mr_id (f r) = mr_id r"
  shows "get_request j (change_request i f db) = (if i = j then map_option f (get_request j db) else get_request j db)"
proof -
  have "find (\<lambda>r. mr_id r = j) (map (\<lambda>r. if mr_id r = i then f r else r) rs)
      = (if i = j then map_option f (find (\<lambda>r. mr_id r = j) rs) else find (\<lambda>r. mr_id r = j) rs)" for rs
    by (induction rs) (auto simp: assms)
  then show ?thesis by (simp add: get_request_def change_request_def)
qed

lemma change_request_others [simp]:
  "md_records (change_request i f db) = md_records db" "md_blobs (change_request i f db) = md_blobs db"
  by (simp_all add: change_request_def)

lemma change_request_ids [simp]:
  assumes "\<And>r. mr_id (f r) = mr_id r"
  shows "map mr_id (md_requests (change_request i f db)) = map mr_id (md_requests db)"
  by (auto simp: change_request_def assms)

lemma stage_records_requests [simp]:
  "md_requests (stage_records i rs db) = md_requests db" "md_blobs (stage_records i rs db) = md_blobs db"
  by (induction rs arbitrary: db) (simp_all add: stage_records_def stage_one_record_def)

lemma stage_blobs_requests [simp]:
  "md_requests (stage_blobs i cs db) = md_requests db" "md_records (stage_blobs i cs db) = md_records db"
  by (induction cs arbitrary: db) (simp_all add: stage_blobs_def stage_one_blob_def)

lemma first_by_Some:
  assumes "first_by k P xs = Some x"
  shows "x \<in> set xs" "P x" "\<And>y. y \<in> set xs \<Longrightarrow> P y \<Longrightarrow> k x \<le> k y"
proof -
  obtain ys where s: "sort_key k (filter P xs) = x # ys"
    using assms by (auto simp: first_by_def split: list.splits)
  have "x \<in> set (sort_key k (filter P xs))" by (simp add: s)
  then show "x \<in> set xs" "P x" by simp_all
  fix y assume "y \<in> set xs" "P y"
  then have "y \<in> set (sort_key k (filter P xs))" by simp
  moreover have "sorted (map k (x # ys))" by (metis s sorted_sort_key)
  ultimately show "k x \<le> k y" by (auto simp: s)
qed

lemma first_by_None: "first_by k P xs = None \<longleftrightarrow> (\<forall>x \<in> set xs. \<not> P x)"
proof -
  have "first_by k P xs = None \<longleftrightarrow> sort_key k (filter P xs) = []"
    by (simp add: first_by_def split: list.split)
  also have "\<dots> \<longleftrightarrow> filter P xs = []" by (metis length_0_conv length_sort)
  finally show ?thesis by (simp add: filter_empty_conv)
qed

end
