(* ===== verification/Migration_Accounts.thy ===== *)
theory Migration_Accounts
  imports Migration_Table
begin

text \<open>
  The account that a migration creates: \<open>materialize_local_account\<close> (\<open>did_provision/migration.rs\<close>) over the
  columns of \<open>users\<close>, \<open>actors\<close> and the agreements it reads and writes, with the statements of
  \<open>repository/user.rs\<close> and \<open>repository/actor.rs\<close> that it calls. The unique columns are \<open>users.email\<close>,
  \<open>actors.ap_uri\<close> and \<open>actors.at_did\<close>; \<open>actors.user_id\<close> and \<open>actors.username\<close> are not unique.
\<close>

section \<open>Tables\<close>

record user_row =
  us_id :: int
  us_email :: string
  us_password_hash :: string
  us_role :: string

record account_actor =
  ac_id :: int
  ac_user_id :: "int option"
  ac_actor_type :: string
  ac_username :: string
  ac_domain :: string
  ac_ap_uri :: "string option"
  ac_at_did :: "string option"
  ac_signing_key_pem :: "string option"
  ac_rotation_key_pem :: "string option"

record account_db =
  ad_users :: "user_row list"
  ad_user_seq :: int
  ad_actors :: "account_actor list"
  ad_agreements :: "(int \<times> string) list"

definition account_email_exists :: "string \<Rightarrow> account_db \<Rightarrow> bool" where
  "account_email_exists email db = list_ex (\<lambda>u. us_email u = email) (ad_users db)"

definition find_id_by_email :: "string \<Rightarrow> account_db \<Rightarrow> int option" where
  "find_id_by_email email db = map_option us_id (find (\<lambda>u. us_email u = email) (ad_users db))"

definition account_find_by_did :: "string \<Rightarrow> account_db \<Rightarrow> account_actor option" where
  "account_find_by_did did db = find (\<lambda>a. ac_at_did a = Some did) (ad_actors db)"

definition find_including_withdrawn_by_username_domain :: "string \<Rightarrow> string \<Rightarrow> account_db \<Rightarrow> account_actor option" where
  "find_including_withdrawn_by_username_domain username domain db =
     find (\<lambda>a. to_ascii_lowercase (ac_username a) = to_ascii_lowercase username \<and> ac_domain a = domain) (ad_actors db)"

text \<open>One transaction; the identity of a failed insertion is used up.\<close>

definition record_agreement_tx :: "int \<Rightarrow> string \<Rightarrow> account_db \<Rightarrow> account_db" where
  "record_agreement_tx user agreed_text db = db\<lparr>ad_agreements := ad_agreements db @ [(user, agreed_text)]\<rparr>"

definition insert_local_user ::
  "string \<Rightarrow> string \<Rightarrow> string \<Rightarrow> string option \<Rightarrow> account_db \<Rightarrow> (string + int) \<times> account_db" where
  "insert_local_user email password_hash role agreed_tos_text db =
     (if account_email_exists email db then (Inl ''users_email_key'', db\<lparr>ad_user_seq := ad_user_seq db + 1\<rparr>)
      else let user = ad_user_seq db;
               db1 = db\<lparr>ad_user_seq := user + 1, ad_users := ad_users db @
                 [\<lparr>us_id = user, us_email = email, us_password_hash = password_hash, us_role = role\<rparr>]\<rparr>
           in (Inr user, case agreed_tos_text of Some t \<Rightarrow> record_agreement_tx user t db1 | None \<Rightarrow> db1))"

record new_local_actor =
  na_id :: int
  na_username :: string
  na_domain :: string
  na_at_did :: "string option"
  na_at_signing_key_pem :: "string option"
  na_at_rotation_key_pem :: "string option"

definition user_ap_uri :: "string \<Rightarrow> string \<Rightarrow> string" where
  "user_ap_uri domain username = ''https://'' @ domain @ ''/users/'' @ username"

definition insert_local :: "int \<Rightarrow> new_local_actor \<Rightarrow> account_db \<Rightarrow> string + account_db" where
  "insert_local user a db =
     (let uri = user_ap_uri (na_domain a) (na_username a) in
      if list_ex (\<lambda>b. ac_id b = na_id a) (ad_actors db) then Inl ''actors_pkey''
      else if list_ex (\<lambda>b. ac_ap_uri b = Some uri) (ad_actors db) then Inl ''actors_ap_uri_key''
      else if na_at_did a \<noteq> None \<and> list_ex (\<lambda>b. ac_at_did b = na_at_did a) (ad_actors db) then Inl ''actors_at_did_key''
      else Inr (db\<lparr>ad_actors := ad_actors db @
        [\<lparr>ac_id = na_id a, ac_user_id = Some user, ac_actor_type = ''local'', ac_username = na_username a,
          ac_domain = na_domain a, ac_ap_uri = Some uri, ac_at_did = na_at_did a,
          ac_signing_key_pem = na_at_signing_key_pem a, ac_rotation_key_pem = na_at_rotation_key_pem a\<rparr>]\<rparr>))"

record convert_to_local =
  cl_actor_id :: int
  cl_user_id :: int
  cl_username :: string
  cl_domain :: string
  cl_ap_uri :: string
  cl_signing_key_pem :: string
  cl_rotation_key_pem :: string

definition convert_remote_to_local :: "convert_to_local \<Rightarrow> account_db \<Rightarrow> string + account_db" where
  "convert_remote_to_local c db =
     (if list_ex (\<lambda>a. ac_id a = cl_actor_id c) (ad_actors db)
         \<and> list_ex (\<lambda>a. ac_id a \<noteq> cl_actor_id c \<and> ac_ap_uri a = Some (cl_ap_uri c)) (ad_actors db)
      then Inl ''actors_ap_uri_key''
      else Inr (db\<lparr>ad_actors := map (\<lambda>a. if ac_id a = cl_actor_id c
         then a\<lparr>ac_actor_type := ''local'', ac_user_id := Some (cl_user_id c), ac_username := cl_username c,
                ac_domain := cl_domain c, ac_ap_uri := Some (cl_ap_uri c),
                ac_signing_key_pem := Some (cl_signing_key_pem c),
                ac_rotation_key_pem := Some (cl_rotation_key_pem c)\<rparr>
         else a) (ad_actors db)\<rparr>))"

section \<open>The account of a migration\<close>

text \<open>\<open>new_id\<close> is the identifier that \<open>generate_snowflake_id\<close> gives when an actor is inserted.\<close>

definition materialize_local_account ::
  "string \<Rightarrow> int \<Rightarrow> mig_request \<Rightarrow> string \<Rightarrow> string \<Rightarrow> string \<Rightarrow> account_db \<Rightarrow> (string + int \<times> int) \<times> account_db" where
  "materialize_local_account local_domain new_id req email signing rotation db =
     (let existing_actor = map_option ac_id (account_find_by_did (mr_source_did req) db) in
      case (case find_id_by_email email db of
              Some uid \<Rightarrow> (Inr uid, db)
            | None \<Rightarrow> insert_local_user email (mr_password_hash req) ''user'' (mr_agreed_tos_text req) db) of
        (Inl e, db1) \<Rightarrow> (Inl e, db1)
      | (Inr user, db1) \<Rightarrow>
          (case existing_actor of
             Some actor \<Rightarrow>
               (case convert_remote_to_local
                       \<lparr>cl_actor_id = actor, cl_user_id = user, cl_username = mr_new_username req,
                        cl_domain = local_domain, cl_ap_uri = user_ap_uri local_domain (mr_new_username req),
                        cl_signing_key_pem = signing, cl_rotation_key_pem = rotation\<rparr> db1 of
                  Inl e \<Rightarrow> (Inl e, db1) | Inr db2 \<Rightarrow> (Inr (user, actor), db2))
           | None \<Rightarrow>
               (case insert_local user
                       \<lparr>na_id = new_id, na_username = mr_new_username req, na_domain = local_domain,
                        na_at_did = Some (mr_source_did req), na_at_signing_key_pem = Some signing,
                        na_at_rotation_key_pem = Some rotation\<rparr> db1 of
                  Inl e \<Rightarrow> (Inl e, db1) | Inr db2 \<Rightarrow> (Inr (user, new_id), db2))))"

section \<open>The unique columns\<close>

text \<open>The primary keys and unique indexes of the tables.\<close>

definition accounts_ok :: "account_db \<Rightarrow> bool" where
  "accounts_ok db \<longleftrightarrow> distinct (map us_email (ad_users db)) \<and> distinct (map us_id (ad_users db))
     \<and> (\<forall>u \<in> set (ad_users db). us_id u < ad_user_seq db)
     \<and> distinct (map ac_id (ad_actors db))
     \<and> (\<forall>a \<in> set (ad_actors db). \<forall>b \<in> set (ad_actors db). ac_at_did a \<noteq> None \<longrightarrow> ac_at_did a = ac_at_did b \<longrightarrow> a = b)
     \<and> (\<forall>a \<in> set (ad_actors db). \<forall>b \<in> set (ad_actors db). ac_ap_uri a \<noteq> None \<longrightarrow> ac_ap_uri a = ac_ap_uri b \<longrightarrow> a = b)"

lemma find_append: "find P (xs @ ys) = (case find P xs of None \<Rightarrow> find P ys | Some x \<Rightarrow> Some x)"
  by (induction xs) auto

lemma find_unique:
  assumes "x \<in> set xs" "P x" "\<And>y. y \<in> set xs \<Longrightarrow> P y \<Longrightarrow> y = x"
  shows "find P xs = Some x"
proof (cases "find P xs")
  case None
  then show ?thesis using assms(1,2) by (simp add: find_None_iff)
next
  case (Some y)
  then have "y \<in> set xs" "P y" by (auto simp: find_Some_iff)
  then have "y = x" by (rule assms(3))
  then show ?thesis using Some by simp
qed

lemma find_id_by_email_None: "find_id_by_email email db = None \<longleftrightarrow> \<not> account_email_exists email db"
  by (auto simp: find_id_by_email_def account_email_exists_def list_ex_iff find_None_iff)

lemma insert_local_user_emails:
  assumes "insert_local_user email h role t db = (Inr user, db')"
  shows "find_id_by_email email db' = Some user" "ad_actors db' = ad_actors db"
proof -
  have new: "\<not> account_email_exists email db"
    using assms by (simp add: insert_local_user_def split: if_splits)
  then have none: "find (\<lambda>u. us_email u = email) (ad_users db) = None"
    using find_id_by_email_None [of email db] by (simp add: find_id_by_email_def)
  have user: "user = ad_user_seq db" and users: "ad_users db' = ad_users db @
      [\<lparr>us_id = user, us_email = email, us_password_hash = h, us_role = role\<rparr>]"
    and actors: "ad_actors db' = ad_actors db"
    using assms new by (auto simp: insert_local_user_def Let_def record_agreement_tx_def split: option.splits)
  show "find_id_by_email email db' = Some user"
    unfolding find_id_by_email_def users find_append none by simp
  show "ad_actors db' = ad_actors db" by (rule actors)
qed

lemma materialize_cases:
  assumes run: "materialize_local_account host i req email s r db = (Inr (user, actor), db')"
  obtains db1 where "find_id_by_email email db1 = Some user" "ad_actors db1 = ad_actors db"
      "map_option ac_id (account_find_by_did (mr_source_did req) db) = Some actor"
      "convert_remote_to_local
         \<lparr>cl_actor_id = actor, cl_user_id = user, cl_username = mr_new_username req, cl_domain = host,
          cl_ap_uri = user_ap_uri host (mr_new_username req), cl_signing_key_pem = s, cl_rotation_key_pem = r\<rparr> db1 = Inr db'"
  | db1 where "find_id_by_email email db1 = Some user" "ad_actors db1 = ad_actors db"
      "account_find_by_did (mr_source_did req) db = None" "actor = i"
      "insert_local user \<lparr>na_id = i, na_username = mr_new_username req, na_domain = host,
         na_at_did = Some (mr_source_did req), na_at_signing_key_pem = Some s, na_at_rotation_key_pem = Some r\<rparr> db1 = Inr db'"
proof -
  obtain db1 where u: "(case find_id_by_email email db of Some uid \<Rightarrow> (Inr uid, db)
      | None \<Rightarrow> insert_local_user email (mr_password_hash req) ''user'' (mr_agreed_tos_text req) db) = (Inr user, db1)"
    using run unfolding materialize_local_account_def Let_def
    by (auto split: prod.splits sum.splits option.splits)
  then have "find_id_by_email email db1 = Some user" "ad_actors db1 = ad_actors db"
    by (auto split: option.splits dest: insert_local_user_emails)
  then show thesis
    using that run u unfolding materialize_local_account_def Let_def
    by (auto split: option.splits sum.splits)
qed

text \<open>The actor that results: local, of that user, with the DID of the request and the given keys.\<close>

definition account_of :: "string \<Rightarrow> mig_request \<Rightarrow> int \<Rightarrow> string \<Rightarrow> string \<Rightarrow> account_actor \<Rightarrow> bool" where
  "account_of host req user s r a \<longleftrightarrow> ac_user_id a = Some user \<and> ac_actor_type a = ''local''
     \<and> ac_username a = mr_new_username req \<and> ac_domain a = host
     \<and> ac_ap_uri a = Some (user_ap_uri host (mr_new_username req))
     \<and> ac_at_did a = Some (mr_source_did req) \<and> ac_signing_key_pem a = Some s \<and> ac_rotation_key_pem a = Some r"

lemma materialize_account:
  assumes ok: "accounts_ok db" and run: "materialize_local_account host i req email s r db = (Inr (user, actor), db')"
  obtains a where "account_find_by_did (mr_source_did req) db' = Some a" "ac_id a = actor" "account_of host req user s r a"
    "find_id_by_email email db' = Some user"
    "\<And>b. b \<in> set (ad_actors db') \<Longrightarrow> ac_ap_uri b = Some (user_ap_uri host (mr_new_username req)) \<Longrightarrow> ac_id b = actor"
  using run
proof (cases rule: materialize_cases)
  case (1 db1)
  let ?uri = "user_ap_uri host (mr_new_username req)"
  let ?f = "\<lambda>a. a\<lparr>ac_actor_type := ''local'', ac_user_id := Some user, ac_username := mr_new_username req,
                ac_domain := host, ac_ap_uri := Some ?uri, ac_signing_key_pem := Some s, ac_rotation_key_pem := Some r\<rparr>"
  obtain a where a: "find (\<lambda>a. ac_at_did a = Some (mr_source_did req)) (ad_actors db) = Some a" "ac_id a = actor"
    using 1(3) by (auto simp: account_find_by_did_def)
  have mem: "a \<in> set (ad_actors db)" "ac_at_did a = Some (mr_source_did req)"
    using a(1) by (auto simp: find_Some_iff)
  have db': "db' = db1\<lparr>ad_actors := map (\<lambda>a. if ac_id a = actor then ?f a else a) (ad_actors db)\<rparr>"
    and free: "\<And>b. b \<in> set (ad_actors db) \<Longrightarrow> ac_id b \<noteq> actor \<Longrightarrow> ac_ap_uri b \<noteq> Some ?uri"
    using 1(4) mem a(2) by (auto simp: convert_remote_to_local_def 1(2) list_ex_iff split: if_splits)
  have one: "b = a" if "b \<in> set (ad_actors db)" "ac_id b = actor" for b
    using ok that mem a(2) by (auto simp: accounts_ok_def distinct_map inj_on_def)
  have did: "b = a" if "b \<in> set (ad_actors db)" "ac_at_did b = Some (mr_source_did req)" for b
    using ok that mem unfolding accounts_ok_def by (metis option.distinct(1))
  have "account_find_by_did (mr_source_did req) db' = Some (?f a)"
    unfolding account_find_by_did_def
  proof (rule find_unique)
    show "?f a \<in> set (ad_actors db')" using mem a(2) by (force simp: db')
    show "ac_at_did (?f a) = Some (mr_source_did req)" using mem by simp
    fix y assume "y \<in> set (ad_actors db')" "ac_at_did y = Some (mr_source_did req)"
    then show "y = ?f a" using did one a(2) by (auto simp: db' split: if_splits)
  qed
  moreover have "account_of host req user s r (?f a)" using mem by (simp add: account_of_def)
  moreover have "find_id_by_email email db' = Some user" using 1(1) by (simp add: db' find_id_by_email_def)
  moreover have "ac_id b = actor" if "b \<in> set (ad_actors db')" "ac_ap_uri b = Some ?uri" for b
    using that free by (auto simp: db' split: if_splits)
  ultimately show thesis using that a(2) by simp
next
  case (2 db1)
  let ?uri = "user_ap_uri host (mr_new_username req)"
  let ?a = "\<lparr>ac_id = i, ac_user_id = Some user, ac_actor_type = ''local'', ac_username = mr_new_username req,
          ac_domain = host, ac_ap_uri = Some ?uri, ac_at_did = Some (mr_source_did req),
          ac_signing_key_pem = Some s, ac_rotation_key_pem = Some r\<rparr>"
  have db': "db' = db1\<lparr>ad_actors := ad_actors db @ [?a]\<rparr>"
    and free: "\<And>b. b \<in> set (ad_actors db) \<Longrightarrow> ac_ap_uri b \<noteq> Some ?uri"
    using 2(5) by (auto simp: insert_local_def Let_def 2(2) list_ex_iff split: if_splits)
  have "account_find_by_did (mr_source_did req) db' = Some ?a"
    using 2(3) by (simp add: account_find_by_did_def db' find_append)
  moreover have "account_of host req user s r ?a" by (simp add: account_of_def)
  moreover have "find_id_by_email email db' = Some user" using 2(1) by (simp add: db' find_id_by_email_def)
  moreover have "ac_id b = actor" if "b \<in> set (ad_actors db')" "ac_ap_uri b = Some ?uri" for b
    using that free 2(4) by (auto simp: db')
  ultimately show thesis using that 2(4) by simp
qed

text \<open>
  The creation of the account can be repeated: once it has succeeded, a second call, as the client makes
  when the answer was lost, finds the same user and the same actor and changes nothing.
\<close>

theorem materialize_again:
  assumes ok: "accounts_ok db" and run: "materialize_local_account host i req email s r db = (Inr (user, actor), db')"
  shows "materialize_local_account host j req email s r db' = (Inr (user, actor), db')"
proof -
  obtain a where a: "account_find_by_did (mr_source_did req) db' = Some a" "ac_id a = actor" "account_of host req user s r a"
    "find_id_by_email email db' = Some user"
    and free: "\<And>b. b \<in> set (ad_actors db') \<Longrightarrow> ac_ap_uri b = Some (user_ap_uri host (mr_new_username req)) \<Longrightarrow> ac_id b = actor"
    using materialize_account [OF ok run] by metis
  have ids: "map ac_id (ad_actors db') = (if account_find_by_did (mr_source_did req) db = None
      then map ac_id (ad_actors db) @ [actor] else map ac_id (ad_actors db))
      \<and> (account_find_by_did (mr_source_did req) db = None \<longrightarrow> actor \<notin> ac_id ` set (ad_actors db))"
    using run
    by (cases rule: materialize_cases)
      (auto simp: convert_remote_to_local_def insert_local_def Let_def list_ex_iff split: if_splits)
  then have "distinct (map ac_id (ad_actors db'))"
    using ok by (auto simp: accounts_ok_def)
  moreover have "a \<in> set (ad_actors db')"
    using a(1) by (auto simp: account_find_by_did_def find_Some_iff)
  ultimately have one: "b = a" if "b \<in> set (ad_actors db')" "ac_id b = actor" for b
    using that a(2) by (auto simp: distinct_map inj_on_def)
  have same: "b\<lparr>ac_actor_type := ''local'', ac_user_id := Some user, ac_username := mr_new_username req,
                ac_domain := host, ac_ap_uri := Some (user_ap_uri host (mr_new_username req)),
                ac_signing_key_pem := Some s, ac_rotation_key_pem := Some r\<rparr> = b"
    if "b \<in> set (ad_actors db')" "ac_id b = actor" for b
    using a(3) one [OF that] by (cases b) (simp add: account_of_def)
  have "convert_remote_to_local
      \<lparr>cl_actor_id = actor, cl_user_id = user, cl_username = mr_new_username req, cl_domain = host,
       cl_ap_uri = user_ap_uri host (mr_new_username req), cl_signing_key_pem = s, cl_rotation_key_pem = r\<rparr> db' = Inr db'"
    using free same by (auto simp: convert_remote_to_local_def list_ex_iff map_idI)
  then show ?thesis
    by (simp add: materialize_local_account_def a)
qed

end
