(* ===== verification/Migration.thy ===== *)
theory Migration
  imports Migration_Accounts Jobs Rate_Limits
begin

text \<open>
  The migration of an account, as its background jobs (\<open>crates/seiran-common/src/jobs/at_migration.rs\<close>), its
  handlers (\<open>crates/seiran-api/src/handlers/migration.rs\<close>) and the wait for DNS
  (\<open>did_provision/migration.rs\<close>) carry it out. A task is one running job, handler or advance of one request; a
  step of a task is its code up to and including the next statement on the tables of migrations, so that what the
  other tasks do in between is visible; the four statements on users and actors that create the account
  (\<open>materialize_local_account\<close>) are one step. What the PDS of origin, Cloudflare, plc.directory and the settings answer
  during the step is an argument, as is whether the statement fails. \<open>mw_accepted\<close> records the operations that
  plc.directory has accepted, which the program cannot see.
\<close>

section \<open>The wait for the TXT record\<close>

datatype txt_state = Txt_Created string | Txt_Visible | Txt_Waiting | Txt_Ready

definition LEASE_SECS :: int where "LEASE_SECS = 60"

text \<open>\<open>TXT_PUBLISH_GRACE\<close>, in microseconds.\<close>

definition grace :: int where "grace = 2000000"

text \<open>The answers of Cloudflare: the identifier of the record that was made, and whether it is published.\<close>

fun txt_progress :: "string + string \<Rightarrow> string + bool \<Rightarrow> int \<Rightarrow> string option \<Rightarrow> int option \<Rightarrow> string + txt_state" where
  "txt_progress made published now None visible_at =
     (case made of Inl e \<Rightarrow> Inl e | Inr record_id \<Rightarrow> Inr (Txt_Created record_id))"
| "txt_progress made published now (Some record_id) None =
     (case published of Inl e \<Rightarrow> Inl e | Inr p \<Rightarrow> Inr (if p then Txt_Visible else Txt_Waiting))"
| "txt_progress made published now (Some record_id) (Some at) =
     (if now - at < grace then Inr Txt_Waiting else Inr Txt_Ready)"

section \<open>The world and the answers\<close>

datatype plc_error = Plc_Key_Gen string | Plc_Cbor string | Plc_Http string | Plc_Directory int string

text \<open>\<open>matches!(&e, PlcError::PlcDirectory { status, .. } if (400..500).contains(status))\<close>.\<close>

fun plc_rejected :: "plc_error \<Rightarrow> bool" where
  "plc_rejected (Plc_Directory status body) \<longleftrightarrow> 400 \<le> status \<and> status < 500"
| "plc_rejected _ \<longleftrightarrow> False"

record plc_submission =
  ps_operation :: json
  ps_signing_key_pem :: string
  ps_rotation_key_pem :: string

record mig_world =
  mw_db :: mig_db
  mw_accounts :: account_db
  mw_accepted :: "(int \<times> plc_submission) list"

record mig_config =
  mc_libs :: atp_libs
  mc_local_domain :: string
  mc_token_hash :: "string \<Rightarrow> string"

record mig_answers =
  an_now :: int
  an_db_error :: "string option"
  an_endpoint :: "string + unit"
  an_repo :: "string + bytes"
  an_blobs :: "string + string list"
  an_request_signature :: "string + unit"
  an_registration_open :: "api_error + unit"
  an_new_keys :: "api_error + string \<times> string"
  an_sign :: "string + json"
  an_import_record :: "job_error + unit"
  an_import_blob :: "string + unit"
  an_cloudflare :: bool
  an_txt_made :: "string + string"
  an_txt_published :: "string + bool"
  an_plc :: "plc_error + unit"
  an_plc_accepts :: bool
  an_new_id :: int

text \<open>What plc.directory documents: an operation answered with success is in force, one answered 4xx is not.\<close>

definition plc_honest :: "mig_answers \<Rightarrow> bool" where
  "plc_honest A \<longleftrightarrow> (case an_plc A of Inr _ \<Rightarrow> an_plc_accepts A | Inl e \<Rightarrow> plc_rejected e \<longrightarrow> \<not> an_plc_accepts A)"

datatype mig_outcome =
    Job_Ok "job list"
  | Job_Err job_error
  | Api_Err api_error
  | Token_Staged
  | Account_Confirmed "job list"
  | Advanced bool "job list"
  | Abandon_Ok

datatype mig_task =
    Fetch_Begin | Fetch_Repo mig_request | Fetch_Blobs mig_request | Fetch_Done
  | Sig_Begin | Sig_Request mig_request
  | Import_Begin | Import_Next mig_request | Import_Record mig_request mig_record
  | Import_Blob mig_request mig_blob | Import_Finish
  | Deact_Begin | Deact_Source mig_request
  | Token_Begin "string option" | Token_Sign mig_request | Token_Account mig_request string string
  | Token_Confirm int int
  | Dns_Begin | Dns_Step migration_dns_stage | Dns_Submit mig_request plc_submission
  | Dns_Call mig_request plc_submission | Dns_Answered mig_request plc_submission "plc_error + unit"
  | Dns_Account mig_request plc_submission | Dns_Confirm int int | Dns_Release bool "job list"
  | Abandon_Begin "string option" | Abandon_Write at_migration_status
  | Task_Done mig_outcome

section \<open>The jobs\<close>

text \<open>A job reads its request and ends when the request is gone or in another status.\<close>

definition request_in_status :: "at_migration_status \<Rightarrow> int \<Rightarrow> mig_db \<Rightarrow> mig_request option" where
  "request_in_status st i db = (case get_request i db of
     Some r \<Rightarrow> if mr_status r = st then Some r else None | None \<Rightarrow> None)"

definition staged_of :: "atp_libs \<Rightarrow> decoded_record \<Rightarrow> staged_record" where
  "staged_of L r = \<lparr>sg_collection = dr_collection r, sg_rkey = dr_rkey r,
     sg_cid = cid_to_string L (dr_cid r), sg_bytes = dr_bytes r\<rparr>"

definition with_db :: "(mig_db \<Rightarrow> mig_db) \<Rightarrow> mig_world \<Rightarrow> mig_world" where
  "with_db f w = w\<lparr>mw_db := f (mw_db w)\<rparr>"

definition job_result :: "job_error \<Rightarrow> mig_task" where
  "job_result e = Task_Done (Job_Err e)"

fun fetch_step :: "mig_config \<Rightarrow> mig_answers \<Rightarrow> int \<Rightarrow> mig_task \<Rightarrow> mig_world \<Rightarrow> mig_task \<times> mig_world" where
  "fetch_step C A i Fetch_Begin w = (case request_in_status Fetching_Repo i (mw_db w) of
     Some r \<Rightarrow> (Fetch_Repo r, w) | None \<Rightarrow> (Task_Done (Job_Ok []), w))"
| "fetch_step C A i (Fetch_Repo r) w =
     (case an_endpoint A of Inl e \<Rightarrow> (job_result (Transient e), w)
      | Inr _ \<Rightarrow> (case an_repo A of Inl e \<Rightarrow> (job_result (Transient e), w)
      | Inr car \<Rightarrow> (case decode_repo_records (mc_libs C) car of
          Inl e \<Rightarrow> (job_result (Permanent ''CAR''), with_db (set_migration_failed i Mig_Failed ''CAR'') w)
        | Inr records \<Rightarrow> (Fetch_Blobs r, with_db (stage_records i (map (staged_of (mc_libs C)) records)) w))))"
| "fetch_step C A i (Fetch_Blobs r) w =
     (case an_blobs A of Inl e \<Rightarrow> (job_result (Transient e), w)
      | Inr cids \<Rightarrow> (Fetch_Done, with_db (stage_blobs i cids) w))"
| "fetch_step C A i Fetch_Done w =
     (Task_Done (Job_Ok [MigrationRequestPlcSignature i]), with_db (set_migration_status i Requesting_Plc_Signature) w)"
| "fetch_step C A i t w = (t, w)"

fun signature_step :: "mig_answers \<Rightarrow> int \<Rightarrow> mig_task \<Rightarrow> mig_world \<Rightarrow> mig_task \<times> mig_world" where
  "signature_step A i Sig_Begin w = (case request_in_status Requesting_Plc_Signature i (mw_db w) of
     Some r \<Rightarrow> (Sig_Request r, w) | None \<Rightarrow> (Task_Done (Job_Ok []), w))"
| "signature_step A i (Sig_Request r) w =
     (case an_endpoint A of Inl e \<Rightarrow> (job_result (Transient e), w)
      | Inr _ \<Rightarrow> (case an_request_signature A of Inl e \<Rightarrow> (job_result (Transient e), w)
      | Inr _ \<Rightarrow> (Task_Done (Job_Ok []), with_db (set_migration_status i Awaiting_Plc_Token) w)))"
| "signature_step A i t w = (t, w)"

text \<open>
  The import of one item. What it writes elsewhere, into the posts, the repository of the account and the
  storage, is not in the world: whether it succeeds is an answer. \<open>Continue\<close> enqueues the job again; a queue
  that refuses the job is not modelled.
\<close>

fun import_step :: "mig_answers \<Rightarrow> int \<Rightarrow> mig_task \<Rightarrow> mig_world \<Rightarrow> mig_task \<times> mig_world" where
  "import_step A i Import_Begin w = (case request_in_status Importing_Data i (mw_db w) of
     Some r \<Rightarrow> (if mr_actor_id r = None then job_result (Permanent ''actor_id'') else Import_Next r, w)
   | None \<Rightarrow> (Task_Done (Job_Ok []), w))"
| "import_step A i (Import_Next r) w = (case claim_next_record i (mw_db w) of
     Some rec \<Rightarrow> (Import_Record r rec, w)
   | None \<Rightarrow> (case claim_next_blob i (mw_db w) of
       Some b \<Rightarrow> (Import_Blob r b, w) | None \<Rightarrow> (Import_Finish, w)))"
| "import_step A i (Import_Record r rec) w =
     (case an_import_record A of Inl e \<Rightarrow> (job_result e, w)
      | Inr _ \<Rightarrow> (Task_Done (Job_Ok [MigrationImportProcess i]), with_db (mark_record_imported (rc_id rec) (an_now A)) w))"
| "import_step A i (Import_Blob r b) w =
     (case an_endpoint A of Inl e \<Rightarrow> (job_result (Transient e), w)
      | Inr _ \<Rightarrow> (case an_import_blob A of Inl e \<Rightarrow> (job_result (Transient e), w)
      | Inr _ \<Rightarrow> (Task_Done (Job_Ok [MigrationImportProcess i]), with_db (mark_blob_imported (bl_id b) (an_now A)) w)))"
| "import_step A i Import_Finish w =
     (Task_Done (Job_Ok [MigrationDeactivateSource i, MigrationImportFollows i]),
      with_db (set_migration_status i Deactivating_Source) w)"
| "import_step A i t w = (t, w)"

text \<open>The deactivation of the source is attempted; its failure is logged.\<close>

fun deactivate_step :: "int \<Rightarrow> mig_task \<Rightarrow> mig_world \<Rightarrow> mig_task \<times> mig_world" where
  "deactivate_step i Deact_Begin w = (case request_in_status Deactivating_Source i (mw_db w) of
     Some r \<Rightarrow> (Deact_Source r, w) | None \<Rightarrow> (Task_Done (Job_Ok []), w))"
| "deactivate_step i (Deact_Source r) w =
     (Task_Done (Job_Ok []), with_db (set_migration_status i Mig_Completed) w)"
| "deactivate_step i t w = (t, w)"

section \<open>The handlers\<close>

definition authorize_migration_request ::
  "mig_config \<Rightarrow> string option \<Rightarrow> int \<Rightarrow> mig_db \<Rightarrow> api_error + mig_request" where
  "authorize_migration_request C token i db =
     (case token of None \<Rightarrow> Inl (Unauthorized ''MIGRATION_TOKEN_REQUIRED'')
      | Some t \<Rightarrow> if t = [] then Inl (Unauthorized ''MIGRATION_TOKEN_REQUIRED'')
        else (case find_by_token_hash (mc_token_hash C t) db of
           None \<Rightarrow> Inl (Unauthorized ''MIGRATION_TOKEN_INVALID'')
         | Some r \<Rightarrow> if mr_id r \<noteq> i then Inl (Unauthorized ''MIGRATION_TOKEN_INVALID'') else Inr r))"

definition api_result :: "api_error \<Rightarrow> mig_task" where
  "api_result e = Task_Done (Api_Err e)"

text \<open>
  \<open>submit_plc_token\<close> up to the staging of the signed operation; a request whose operation is submitted goes on
  with the creation of its account. The advance that follows is a task of its own.
\<close>

fun token_step :: "mig_config \<Rightarrow> mig_answers \<Rightarrow> int \<Rightarrow> mig_task \<Rightarrow> mig_world \<Rightarrow> mig_task \<times> mig_world" where
  "token_step C A i (Token_Begin token) w = (case authorize_migration_request C token i (mw_db w) of
     Inl e \<Rightarrow> (api_result e, w)
   | Inr r \<Rightarrow> (case (mr_new_signing_key_pem r, mr_new_rotation_key_pem r) of
       (Some s, Some k) \<Rightarrow> (if mr_status r \<noteq> Submitting_Plc then api_result (BadRequest ''INVALID_STATE'')
                           else Token_Account r s k, w)
     | _ \<Rightarrow> (if mr_status r \<noteq> Awaiting_Plc_Token then api_result (BadRequest ''INVALID_STATE'')
              else Token_Sign r, w)))"
| "token_step C A i (Token_Sign r) w =
     (case an_registration_open A of Inl e \<Rightarrow> (api_result e, w)
      | Inr _ \<Rightarrow> (case an_endpoint A of Inl e \<Rightarrow> (api_result (BadGateway ''SOURCE_PDS_UNREACHABLE''), w)
      | Inr _ \<Rightarrow> (case an_new_keys A of Inl e \<Rightarrow> (api_result e, w)
      | Inr (s, k) \<Rightarrow> (case an_sign A of Inl e \<Rightarrow> (api_result (BadGateway ''PLC_SIGN_FAILED''), w)
      | Inr operation \<Rightarrow> (case stage_plc_operation i operation s k (mw_db w) of
          (staged, db') \<Rightarrow> (if staged then Task_Done Token_Staged else api_result (BadRequest ''INVALID_STATE''),
                           w\<lparr>mw_db := db'\<rparr>))))))"
| "token_step C A i (Token_Account r s k) w =
     (case mr_email r of None \<Rightarrow> (api_result (Internal ''email''), w)
      | Some email \<Rightarrow>
         (case materialize_local_account (mc_local_domain C) (an_new_id A) r email s k (mw_accounts w) of
            (Inl e, acc) \<Rightarrow> (api_result (Internal e), w\<lparr>mw_accounts := acc\<rparr>)
          | (Inr (user, actor), acc) \<Rightarrow> (Token_Confirm user actor, w\<lparr>mw_accounts := acc\<rparr>)))"
| "token_step C A i (Token_Confirm user actor) w =
     (Task_Done (Account_Confirmed [MigrationImportProcess i]), with_db (confirm_account_created i actor user) w)"
| "token_step C A i t w = (t, w)"

fun abandon_step :: "mig_config \<Rightarrow> int \<Rightarrow> mig_task \<Rightarrow> mig_world \<Rightarrow> mig_task \<times> mig_world" where
  "abandon_step C i (Abandon_Begin token) w = (case authorize_migration_request C token i (mw_db w) of
     Inl e \<Rightarrow> (api_result e, w)
   | Inr r \<Rightarrow> (if mr_plc_submitted_at r \<noteq> None then api_result (BadRequest ''CANNOT_ABANDON_AFTER_PLC_SUBMIT'')
              else if mr_status r = Submitting_Plc then api_result (Conflict ''CANNOT_ABANDON_NOW'')
              else Abandon_Write (mr_status r), w))"
| "abandon_step C i (Abandon_Write st) w = (case transition_status i st Mig_Abandoned (mw_db w) of
     (moved, db') \<Rightarrow> (if moved then Task_Done Abandon_Ok else api_result (Conflict ''CANNOT_ABANDON_NOW''), w\<lparr>mw_db := db'\<rparr>))"
| "abandon_step C i t w = (t, w)"

section \<open>The advance of a request that waits for DNS\<close>

definition staged_submission :: "migration_dns_stage \<Rightarrow> plc_submission option" where
  "staged_submission st = (case (ds_plc_operation st, ds_signing_key_pem st, ds_rotation_key_pem st) of
     (Some op, Some s, Some k) \<Rightarrow> Some \<lparr>ps_operation = op, ps_signing_key_pem = s, ps_rotation_key_pem = k\<rparr>
   | _ \<Rightarrow> None)"

text \<open>\<open>Dns_Release\<close> carries whether the request still waits.\<close>

fun dns_step :: "mig_config \<Rightarrow> mig_answers \<Rightarrow> int \<Rightarrow> mig_task \<Rightarrow> mig_world \<Rightarrow> mig_task \<times> mig_world" where
  "dns_step C A i Dns_Begin w = (case claim_dns_wait i LEASE_SECS (an_now A) (mw_db w) of
     (Some st, db') \<Rightarrow> (Dns_Step st, w\<lparr>mw_db := db'\<rparr>)
   | (None, _) \<Rightarrow> (Task_Done (Advanced (request_in_status Awaiting_Dns_Txt i (mw_db w) \<noteq> None) []), w))"
| "dns_step C A i (Dns_Step st) w = (case get_request (ds_id st) (mw_db w) of
     None \<Rightarrow> (Dns_Release True [], w)
   | Some r \<Rightarrow>
       (case (if an_cloudflare A
              then txt_progress (an_txt_made A) (an_txt_published A) (an_now A) (ds_cf_txt_record_id st) (ds_txt_visible_at st)
              else Inr Txt_Ready) of
          Inl e \<Rightarrow> (Dns_Release True [], w)
        | Inr (Txt_Created record_id) \<Rightarrow> (Dns_Release True [], with_db (set_dns_txt_record_id (ds_id st) record_id) w)
        | Inr Txt_Visible \<Rightarrow> (Dns_Release True [], with_db (mark_dns_txt_visible (ds_id st) (an_now A)) w)
        | Inr Txt_Waiting \<Rightarrow> (Dns_Release True [], w)
        | Inr Txt_Ready \<Rightarrow> (case staged_submission st of
            None \<Rightarrow> (Dns_Release True [], w) | Some sub \<Rightarrow> (Dns_Submit r sub, w))))"
| "dns_step C A i (Dns_Submit r sub) w = (case transition_status (mr_id r) Awaiting_Dns_Txt Submitting_Plc (mw_db w) of
     (moved, db') \<Rightarrow> (if moved then Dns_Call r sub else Dns_Release False [], w\<lparr>mw_db := db'\<rparr>))"
| "dns_step C A i (Dns_Call r sub) w =
     (Dns_Answered r sub (an_plc A),
      if an_plc_accepts A then w\<lparr>mw_accepted := mw_accepted w @ [(mr_id r, sub)]\<rparr> else w)"
| "dns_step C A i (Dns_Answered r sub (Inl e)) w =
     (Dns_Release True [],
      if plc_rejected e then with_db (set_migration_failed (mr_id r) Mig_Failed ''PLC'') w
      else with_db (snd \<circ> transition_status (mr_id r) Submitting_Plc Awaiting_Dns_Txt) w)"
| "dns_step C A i (Dns_Answered r sub (Inr _)) w =
     (Dns_Account r sub,
      with_db (mark_plc_submitted (mr_id r) (ps_signing_key_pem sub) (ps_rotation_key_pem sub) (an_now A)) w)"
| "dns_step C A i (Dns_Account r sub) w =
     (case mr_email r of None \<Rightarrow> (Dns_Release True [], w)
      | Some email \<Rightarrow>
         (case materialize_local_account (mc_local_domain C) (an_new_id A) r email
                 (ps_signing_key_pem sub) (ps_rotation_key_pem sub) (mw_accounts w) of
            (Inl e, acc) \<Rightarrow> (Dns_Release True [], w\<lparr>mw_accounts := acc\<rparr>)
          | (Inr (user, actor), acc) \<Rightarrow> (Dns_Confirm user actor, w\<lparr>mw_accounts := acc\<rparr>)))"
| "dns_step C A i (Dns_Confirm user actor) w =
     (Dns_Release False [MigrationImportProcess i], with_db (confirm_account_created i actor user) w)"
| "dns_step C A i (Dns_Release pending jobs) w = (Task_Done (Advanced pending jobs), with_db (release_dns_wait i) w)"
| "dns_step C A i t w = (t, w)"

section \<open>A step of any task\<close>

text \<open>
  What a task does when the statement of the step fails: jobs end with a retryable error, handlers with an
  internal error; the confirmation and the release are only logged. \<open>Dns_Call\<close> runs no statement.
\<close>

fun on_db_error :: "string \<Rightarrow> int \<Rightarrow> mig_task \<Rightarrow> mig_task" where
  "on_db_error e i (Token_Begin token) = api_result (Internal e)"
| "on_db_error e i (Token_Sign r) = api_result (Internal e)"
| "on_db_error e i (Token_Account r s k) = api_result (Internal e)"
| "on_db_error e i (Token_Confirm user actor) = Task_Done (Account_Confirmed [MigrationImportProcess i])"
| "on_db_error e i (Abandon_Begin token) = api_result (Internal e)"
| "on_db_error e i (Abandon_Write st) = api_result (Internal e)"
| "on_db_error e i Dns_Begin = Task_Done (Advanced True [])"
| "on_db_error e i (Dns_Step st) = Dns_Release True []"
| "on_db_error e i (Dns_Submit r sub) = Dns_Release True []"
| "on_db_error e i (Dns_Call r sub) = Dns_Call r sub"
| "on_db_error e i (Dns_Answered r sub a) = Dns_Release True []"
| "on_db_error e i (Dns_Account r sub) = Dns_Release True []"
| "on_db_error e i (Dns_Confirm user actor) = Dns_Release False [MigrationImportProcess i]"
| "on_db_error e i (Dns_Release pending jobs) = Task_Done (Advanced pending jobs)"
| "on_db_error e i (Task_Done r) = Task_Done r"
| "on_db_error e i t = job_result (Transient e)"

datatype mig_kind = K_Fetch | K_Signature | K_Import | K_Deactivate | K_Token | K_Dns | K_Abandon | K_Done

fun task_kind :: "mig_task \<Rightarrow> mig_kind" where
  "task_kind Fetch_Begin = K_Fetch" | "task_kind (Fetch_Repo r) = K_Fetch" | "task_kind (Fetch_Blobs r) = K_Fetch"
| "task_kind Fetch_Done = K_Fetch" | "task_kind Sig_Begin = K_Signature" | "task_kind (Sig_Request r) = K_Signature"
| "task_kind Import_Begin = K_Import" | "task_kind (Import_Next r) = K_Import"
| "task_kind (Import_Record r c) = K_Import" | "task_kind (Import_Blob r b) = K_Import"
| "task_kind Import_Finish = K_Import" | "task_kind Deact_Begin = K_Deactivate"
| "task_kind (Deact_Source r) = K_Deactivate" | "task_kind (Token_Begin token) = K_Token"
| "task_kind (Token_Sign r) = K_Token" | "task_kind (Token_Account r s k) = K_Token"
| "task_kind (Token_Confirm user actor) = K_Token" | "task_kind (Abandon_Begin token) = K_Abandon"
| "task_kind (Abandon_Write st) = K_Abandon" | "task_kind (Task_Done r) = K_Done"
| "task_kind t = K_Dns"

definition task_step :: "mig_config \<Rightarrow> mig_answers \<Rightarrow> int \<Rightarrow> mig_task \<Rightarrow> mig_world \<Rightarrow> mig_task \<times> mig_world" where
  "task_step C A i t w =
     (case an_db_error A of
        Some e \<Rightarrow> (on_db_error e i t, w)
      | None \<Rightarrow> (case task_kind t of
          K_Fetch \<Rightarrow> fetch_step C A i t w | K_Signature \<Rightarrow> signature_step A i t w | K_Import \<Rightarrow> import_step A i t w
        | K_Deactivate \<Rightarrow> deactivate_step i t w | K_Token \<Rightarrow> token_step C A i t w | K_Dns \<Rightarrow> dns_step C A i t w
        | K_Abandon \<Rightarrow> abandon_step C i t w | K_Done \<Rightarrow> (t, w)))"

text \<open>The three jobs that take the advisory lock of the request.\<close>

definition locks_request :: "mig_task \<Rightarrow> bool" where
  "locks_request t \<longleftrightarrow> task_kind t \<in> {K_Fetch, K_Signature, K_Import}"

text \<open>A whole job, handler or advance, alone: its steps, each with its answers, until it is done.\<close>

fun run_task :: "nat \<Rightarrow> mig_config \<Rightarrow> (nat \<Rightarrow> mig_answers) \<Rightarrow> int \<Rightarrow> mig_task \<Rightarrow> mig_world \<Rightarrow> mig_task \<times> mig_world" where
  "run_task 0 C A i t w = (t, w)"
| "run_task (Suc n) C A i t w = (case t of Task_Done r \<Rightarrow> (t, w)
     | _ \<Rightarrow> (case task_step C (A 0) i t w of (t', w') \<Rightarrow> run_task n C (A \<circ> Suc) i t' w'))"

text \<open>\<open>advance_migration\<close>: eight steps at most (\<open>advance_migration_ends\<close>).\<close>

definition advance_migration :: "mig_config \<Rightarrow> (nat \<Rightarrow> mig_answers) \<Rightarrow> int \<Rightarrow> mig_world \<Rightarrow> mig_task \<times> mig_world" where
  "advance_migration C As i w = run_task 8 C As i Dns_Begin w"

section \<open>The start of a migration\<close>

record migration_start_request =
  sq_source_handle :: string
  sq_source_password :: string
  sq_new_username :: string
  sq_new_password :: string
  sq_email :: "string option"
  sq_agree_tos :: bool

datatype session_failure = Auth_Factor_Token_Required | Session_Failed

text \<open>
  What the settings, the identity services and the PDS of origin answer: the DID and address of the source,
  the tokens and address of its session.
\<close>

record start_answers =
  sa_registration_open :: "api_error + unit"
  sa_source :: "string + string \<times> string"
  sa_session :: "session_failure + string \<times> string \<times> string option"
  sa_tos :: "bool \<Rightarrow> api_error + string option"
  sa_password_hash :: "string + string"
  sa_request_id :: int
  sa_token :: string

definition RESERVED_LOCAL_USERNAMES :: "string list" where
  "RESERVED_LOCAL_USERNAMES = [''list-relay'', ''relay-agent'']"

definition is_reserved_username :: "string \<Rightarrow> bool" where
  "is_reserved_username s \<longleftrightarrow> list_ex (\<lambda>r. to_ascii_lowercase r = to_ascii_lowercase s) RESERVED_LOCAL_USERNAMES"

definition is_valid_local_username :: "string \<Rightarrow> bool" where
  "is_valid_local_username s \<longleftrightarrow> s \<noteq> [] \<and> length s \<le> 63
     \<and> is_ascii_alphanumeric (hd s) \<and> is_ascii_alphanumeric (last s)
     \<and> list_all (\<lambda>c. is_ascii_alphanumeric c \<or> c = CHR ''-'') s"

text \<open>The address of the session, or that of the request when the PDS gives none (ASCII).\<close>

definition migration_email :: "string option \<Rightarrow> string option \<Rightarrow> string option" where
  "migration_email of_session of_request =
     (case Option.bind of_session (\<lambda>e. if e \<noteq> [] then Some e else None) of
        Some e \<Rightarrow> Some (to_ascii_lowercase (trim e))
      | None \<Rightarrow> map_option (to_ascii_lowercase \<circ> trim)
          (Option.bind of_request (\<lambda>e. if e \<noteq> [] \<and> CHR ''@'' \<in> set e then Some e else None)))"

definition check_start :: "mig_config \<Rightarrow> start_answers \<Rightarrow> migration_start_request \<Rightarrow> account_db \<Rightarrow> api_error + new_migration_request" where
  "check_start C S q acc =
     rbind (sa_registration_open S) (\<lambda>_.
     if trim (sq_source_handle q) = [] \<or> sq_source_password q = [] then Inl (BadRequest ''INVALID_INPUT'')
     else if length (sq_new_password q) < 8 then Inl (BadRequest ''INVALID_INPUT'')
     else if \<not> is_valid_local_username (sq_new_username q) then Inl (BadRequest ''USERNAME_INVALID_FORMAT'')
     else if is_reserved_username (sq_new_username q) then Inl (BadRequest ''USERNAME_RESERVED'')
     else if find_including_withdrawn_by_username_domain (sq_new_username q) (mc_local_domain C) acc \<noteq> None
     then Inl (Conflict ''USERNAME_TAKEN'')
     else rbind (map_err (\<lambda>_. BadRequest ''SOURCE_HANDLE_UNRESOLVABLE'') (sa_source S)) (\<lambda>(did, url).
     if (case account_find_by_did did acc of Some a \<Rightarrow> ac_actor_type a = ''local'' | None \<Rightarrow> False)
     then Inl (Conflict ''DID_ALREADY_REGISTERED'')
     else rbind (map_err (\<lambda>e. case e of Auth_Factor_Token_Required \<Rightarrow> BadRequest ''AUTH_FACTOR_TOKEN_REQUIRED''
                   | Session_Failed \<Rightarrow> BadRequest ''SOURCE_AUTH_FAILED'') (sa_session S)) (\<lambda>(access, refresh, of_session).
     rbind (ok_or (migration_email of_session (sq_email q)) (BadRequest ''SOURCE_EMAIL_REQUIRED'')) (\<lambda>email.
     if account_email_exists email acc then Inl (Conflict ''EMAIL_ALREADY_REGISTERED'')
     else rbind (sa_tos S (sq_agree_tos q)) (\<lambda>tos.
     rbind (map_err Internal (sa_password_hash S)) (\<lambda>h.
     Inr \<lparr>nm_token_hash = mc_token_hash C (sa_token S), nm_source_handle = sq_source_handle q,
          nm_source_pds_endpoint = url, nm_source_did = did, nm_source_access_jwt = access,
          nm_source_refresh_jwt = refresh, nm_new_username = sq_new_username q, nm_password_hash = h,
          nm_email = Some email, nm_agreed_tos_text = tos\<rparr>))))))"

definition start_migration ::
  "mig_config \<Rightarrow> start_answers \<Rightarrow> migration_start_request \<Rightarrow> mig_world \<Rightarrow> api_error + job list \<times> mig_world" where
  "start_migration C S q w = rbind (check_start C S q (mw_accounts w)) (\<lambda>m.
     case create_migration_request (sa_request_id S) m (mw_db w) of
       None \<Rightarrow> Inl (Internal ''at_migration_requests_pkey'')
     | Some db' \<Rightarrow> Inr ([MigrationFetchRepo (sa_request_id S)], w\<lparr>mw_db := db'\<rparr>))"

section \<open>The other handlers\<close>

definition needs_input_for :: "at_migration_status \<Rightarrow> string option" where
  "needs_input_for st = (if st = Awaiting_Plc_Token then Some ''plc_token'' else None)"

definition is_job_driven_status :: "at_migration_status \<Rightarrow> bool" where
  "is_job_driven_status st \<longleftrightarrow> st \<in> {Fetching_Repo, Requesting_Plc_Signature, Awaiting_Dns_Txt, Importing_Data, Deactivating_Source}"

record migration_status_response =
  rs_status :: at_migration_status
  rs_last_error :: "string option"
  rs_needs_input :: "string option"
  rs_retryable :: bool
  rs_can_abandon :: bool
  rs_import :: "(int \<times> int) option"

definition status_response :: "int \<Rightarrow> mig_request \<Rightarrow> mig_db \<Rightarrow> migration_status_response" where
  "status_response i r db =
     \<lparr>rs_status = mr_status r, rs_last_error = mr_last_error r, rs_needs_input = needs_input_for (mr_status r),
      rs_retryable = is_job_driven_status (mr_status r),
      rs_can_abandon = (mr_plc_submitted_at r = None \<and> mr_status r \<notin> {Submitting_Plc, Mig_Completed, Mig_Abandoned}),
      rs_import = (if mr_status r = Importing_Data then Some (import_progress i db) else None)\<rparr>"

definition get_status ::
  "mig_config \<Rightarrow> (nat \<Rightarrow> mig_answers) \<Rightarrow> string option \<Rightarrow> int \<Rightarrow> mig_world \<Rightarrow> (api_error + migration_status_response) \<times> mig_world" where
  "get_status C As token i w = (case authorize_migration_request C token i (mw_db w) of
     Inl e \<Rightarrow> (Inl e, w)
   | Inr r \<Rightarrow>
       if mr_status r = Awaiting_Dns_Txt
       then let w' = snd (advance_migration C As i w) in
         (case get_request i (mw_db w') of None \<Rightarrow> (Inl (NotFound ''NOT_FOUND''), w')
          | Some r' \<Rightarrow> (Inr (status_response i r' (mw_db w')), w'))
       else (Inr (status_response i r (mw_db w)), w))"

definition retry_migration ::
  "mig_config \<Rightarrow> (nat \<Rightarrow> mig_answers) \<Rightarrow> string option \<Rightarrow> int \<Rightarrow> mig_world
     \<Rightarrow> (api_error + at_migration_status \<times> job list) \<times> mig_world" where
  "retry_migration C As token i w = (case authorize_migration_request C token i (mw_db w) of
     Inl e \<Rightarrow> (Inl e, w)
   | Inr r \<Rightarrow> (case mr_status r of
       Fetching_Repo \<Rightarrow> (Inr (Fetching_Repo, [MigrationFetchRepo i]), w)
     | Requesting_Plc_Signature \<Rightarrow> (Inr (Requesting_Plc_Signature, [MigrationRequestPlcSignature i]), w)
     | Awaiting_Dns_Txt \<Rightarrow> (Inr (Awaiting_Dns_Txt, []), snd (advance_migration C As i w))
     | Importing_Data \<Rightarrow> (Inr (Importing_Data, [MigrationImportProcess i]), w)
     | Deactivating_Source \<Rightarrow> (Inr (Deactivating_Source, [MigrationDeactivateSource i]), w)
     | _ \<Rightarrow> (Inl (BadRequest ''NOT_RETRYABLE''), w)))"

text \<open>The session of the created account; \<open>generate_token\<close> signs for the user \<open>au_user_id\<close>.\<close>

record auth_response =
  au_user_id :: int
  au_username :: string
  au_email :: string
  au_actor_id :: int
  au_migration_status :: "at_migration_status option"

definition account_auth_response :: "int \<Rightarrow> mig_db \<Rightarrow> api_error + auth_response" where
  "account_auth_response i db = rbind (ok_or (get_request i db) (NotFound ''NOT_FOUND'')) (\<lambda>r.
     case (mr_user_id r, mr_actor_id r, mr_email r) of
       (Some user, Some actor, Some email) \<Rightarrow>
         Inr \<lparr>au_user_id = user, au_username = mr_new_username r, au_email = email, au_actor_id = actor,
              au_migration_status = (if mr_status r \<noteq> Mig_Completed then Some (mr_status r) else None)\<rparr>
     | _ \<Rightarrow> if mr_status r = Mig_Failed then Inl (BadGateway ''PLC_SUBMIT_FAILED'') else Inl (Conflict ''ACCOUNT_NOT_READY''))"

definition migration_session :: "mig_config \<Rightarrow> string option \<Rightarrow> int \<Rightarrow> mig_db \<Rightarrow> api_error + auth_response" where
  "migration_session C token i db = rbind (authorize_migration_request C token i db) (\<lambda>_. account_auth_response i db)"

text \<open>The jobs that are enqueued again when the process starts.\<close>

definition resume_running_migrations :: "mig_db \<Rightarrow> job list" where
  "resume_running_migrations db =
     map MigrationFetchRepo (list_by_statuses [Fetching_Repo] db)
     @ map MigrationRequestPlcSignature (list_by_statuses [Requesting_Plc_Signature] db)
     @ map MigrationImportProcess (list_by_statuses [Importing_Data] db)
     @ map MigrationDeactivateSource (list_by_statuses [Deactivating_Source] db)
     @ map MigrationImportFollows (list_request_ids_with_pending_follow_materialization db)"

end
