(* ===== verification/Migration_Steps.thy ===== *)
theory Migration_Steps
  imports Migration
begin

text \<open>
  All tasks of all requests at once: a task may be started at any time, by a job that is delivered, even twice,
  a client or the timer; steps of different tasks interleave in any way; a process may stop at any point, which
  ends its tasks and frees their advisory locks; accounts are registered and changed meanwhile. The invariant
  says, for one request, which rows and tasks can be there at the same time.
\<close>

section \<open>The steps\<close>

fun begins :: "mig_task \<Rightarrow> bool" where
  "begins Fetch_Begin = True" | "begins Sig_Begin = True" | "begins Import_Begin = True" | "begins Deact_Begin = True"
| "begins (Token_Begin token) = True" | "begins Dns_Begin = True" | "begins (Abandon_Begin token) = True"
| "begins _ = False"

datatype mig_event =
    Ev_Start int mig_task
  | Ev_Step int mig_task mig_answers
  | Ev_End int mig_task
  | Ev_Create int new_migration_request
  | Ev_Accounts account_db
  | Ev_Follow int int

type_synonym mig_sys = "mig_world \<times> (int \<times> mig_task) multiset"

inductive mig_step :: "mig_config \<Rightarrow> mig_sys \<Rightarrow> mig_event \<Rightarrow> mig_sys \<Rightarrow> bool" for C where
  ms_start: "begins t \<Longrightarrow> locks_request t \<longrightarrow> (\<forall>u. (i, u) \<in># T \<longrightarrow> \<not> locks_request u)
    \<Longrightarrow> mig_step C (w, T) (Ev_Start i t) (w, add_mset (i, t) T)"
| ms_task: "task_step C A i t w = (t', w')
    \<Longrightarrow> mig_step C (w, add_mset (i, t) T) (Ev_Step i t A) (w', add_mset (i, t') T)"
| ms_end: "mig_step C (w, add_mset (i, t) T) (Ev_End i t) (w, T)"
| ms_create: "create_migration_request i q (mw_db w) = Some db'
    \<Longrightarrow> mig_step C (w, T) (Ev_Create i q) (w\<lparr>mw_db := db'\<rparr>, T)"
| ms_accounts: "mig_step C (w, T) (Ev_Accounts acc) (w\<lparr>mw_accounts := acc\<rparr>, T)"
| ms_follow: "mig_step C (w, T) (Ev_Follow k now) (with_db (mark_follow_materialized k now) w, T)"

text \<open>The states that events with the property \<open>P\<close> reach.\<close>

inductive mig_reach :: "mig_config \<Rightarrow> (mig_event \<Rightarrow> bool) \<Rightarrow> mig_sys \<Rightarrow> mig_sys \<Rightarrow> bool" for C P where
  mr_refl: "mig_reach C P s s"
| mr_step: "mig_reach C P s s' \<Longrightarrow> mig_step C s' e s'' \<Longrightarrow> P e \<Longrightarrow> mig_reach C P s s''"

inductive_cases mig_stepE: "mig_step C s e s'"

text \<open>plc.directory keeps to its documentation; in \<open>answered\<close> events, its answer moreover arrives.\<close>

fun honest :: "mig_event \<Rightarrow> bool" where
  "honest (Ev_Step i t A) \<longleftrightarrow> plc_honest A" | "honest e \<longleftrightarrow> True"

fun answered :: "mig_event \<Rightarrow> bool" where
  "answered (Ev_Step i t A) \<longleftrightarrow> (an_plc_accepts A \<longleftrightarrow> (\<exists>u. an_plc A = Inr u))" | "answered e \<longleftrightarrow> True"

lemma answered_honest: "answered e \<Longrightarrow> honest e"
  by (cases e) (auto simp: plc_honest_def split: sum.split)

definition no_migrations :: "mig_world \<Rightarrow> bool" where
  "no_migrations w \<longleftrightarrow> md_requests (mw_db w) = [] \<and> mw_accepted w = []"

lemma mig_reach_mono: "mig_reach C P s s' \<Longrightarrow> (\<And>e. P e \<Longrightarrow> Q e) \<Longrightarrow> mig_reach C Q s s'"
  by (induction rule: mig_reach.induct) (auto intro: mig_reach.intros)

lemma mig_reach_trans: "mig_reach C P s s' \<Longrightarrow> mig_reach C P s' s'' \<Longrightarrow> mig_reach C P s s''"
  by (rotate_tac, induction rule: mig_reach.induct) (auto intro: mig_reach.intros)

section \<open>One request\<close>

definition row_sub :: "mig_request \<Rightarrow> plc_submission option" where
  "row_sub r = staged_submission (dns_stage r)"

definition submitted :: "mig_request \<Rightarrow> bool" where
  "submitted r \<longleftrightarrow> mr_plc_submitted_at r \<noteq> None"

definition confirmed :: "mig_request \<Rightarrow> bool" where
  "confirmed r \<longleftrightarrow> mr_actor_id r \<noteq> None \<and> mr_user_id r \<noteq> None"

definition import_done :: "int \<Rightarrow> mig_db \<Rightarrow> bool" where
  "import_done i db \<longleftrightarrow> (\<forall>r \<in> set (md_records db). \<not> record_pending i r) \<and> (\<forall>b \<in> set (md_blobs db). \<not> blob_pending i b)"

definition accepted_of :: "int \<Rightarrow> mig_world \<Rightarrow> plc_submission set" where
  "accepted_of i w = {s. (i, s) \<in> set (mw_accepted w)}"

definition tasks_of :: "int \<Rightarrow> (int \<times> mig_task) multiset \<Rightarrow> mig_task multiset" where
  "tasks_of i T = image_mset snd (filter_mset (\<lambda>p. fst p = i) T)"

lemma tasks_of_add [simp]: "tasks_of i (add_mset (j, t) T) = (if i = j then add_mset t (tasks_of i T) else tasks_of i T)"
  by (simp add: tasks_of_def)

lemma tasks_of_empty [simp]: "tasks_of i {#} = {#}"
  by (simp add: tasks_of_def)

lemma in_tasks_of: "t \<in># tasks_of i T \<longleftrightarrow> (i, t) \<in># T"
  by (force simp: tasks_of_def)

text \<open>The row, with the submissions plc.directory has accepted and whether nothing waits to be imported.\<close>

definition keys_from :: "plc_submission set \<Rightarrow> mig_request \<Rightarrow> bool" where
  "keys_from acc r \<longleftrightarrow> (\<exists>s \<in> acc. mr_new_signing_key_pem r = Some (ps_signing_key_pem s)
     \<and> mr_new_rotation_key_pem r = Some (ps_rotation_key_pem s))"

definition blank :: "mig_request \<Rightarrow> bool" where
  "blank r \<longleftrightarrow> mr_new_signing_key_pem r = None \<and> mr_new_rotation_key_pem r = None \<and> mr_actor_id r = None \<and> mr_user_id r = None"

fun status_ok :: "at_migration_status \<Rightarrow> bool \<Rightarrow> mig_request \<Rightarrow> bool" where
  "status_ok Fetching_Repo d r \<longleftrightarrow> row_sub r = None \<and> \<not> submitted r"
| "status_ok Requesting_Plc_Signature d r \<longleftrightarrow> row_sub r = None \<and> \<not> submitted r"
| "status_ok Awaiting_Plc_Token d r \<longleftrightarrow> row_sub r = None \<and> \<not> submitted r"
| "status_ok Awaiting_Dns_Txt d r \<longleftrightarrow> row_sub r \<noteq> None \<and> \<not> submitted r"
| "status_ok Submitting_Plc d r \<longleftrightarrow> row_sub r \<noteq> None"
| "status_ok Importing_Data d r \<longleftrightarrow> submitted r \<and> confirmed r"
| "status_ok Deactivating_Source d r \<longleftrightarrow> submitted r \<and> confirmed r \<and> d"
| "status_ok Mig_Completed d r \<longleftrightarrow> submitted r \<and> confirmed r \<and> d"
| "status_ok Mig_Failed d r \<longleftrightarrow> \<not> submitted r"
| "status_ok Mig_Abandoned d r \<longleftrightarrow> \<not> submitted r"
| "status_ok _ d r \<longleftrightarrow> False"

definition row_ok :: "plc_submission set \<Rightarrow> bool \<Rightarrow> mig_request \<Rightarrow> bool" where
  "row_ok acc d r \<longleftrightarrow> acc \<subseteq> set_option (row_sub r) \<and> (if submitted r then keys_from acc r else blank r)
     \<and> status_ok (mr_status r) d r"

definition late :: "at_migration_status set" where
  "late = {Submitting_Plc, Importing_Data, Deactivating_Source, Mig_Completed}"

fun task_ok :: "int \<Rightarrow> plc_submission set \<Rightarrow> bool \<Rightarrow> mig_request \<Rightarrow> mig_task \<Rightarrow> bool" where
  "task_ok i acc d r (Fetch_Repo q) \<longleftrightarrow> mr_status r \<in> {Fetching_Repo, Mig_Abandoned} \<and> row_sub r = None"
| "task_ok i acc d r (Fetch_Blobs q) \<longleftrightarrow> mr_status r \<in> {Fetching_Repo, Mig_Abandoned} \<and> row_sub r = None"
| "task_ok i acc d r Fetch_Done \<longleftrightarrow> mr_status r \<in> {Fetching_Repo, Mig_Abandoned} \<and> row_sub r = None"
| "task_ok i acc d r (Sig_Request q) \<longleftrightarrow> mr_status r \<in> {Requesting_Plc_Signature, Mig_Abandoned} \<and> row_sub r = None"
| "task_ok i acc d r (Import_Next q) \<longleftrightarrow> submitted r \<and> confirmed r"
| "task_ok i acc d r (Import_Record q c) \<longleftrightarrow> submitted r \<and> confirmed r"
| "task_ok i acc d r (Import_Blob q b) \<longleftrightarrow> submitted r \<and> confirmed r"
| "task_ok i acc d r Import_Finish \<longleftrightarrow> submitted r \<and> confirmed r \<and> d"
| "task_ok i acc d r (Deact_Source q) \<longleftrightarrow> submitted r \<and> confirmed r \<and> d"
| "task_ok i acc d r (Token_Account q s k) \<longleftrightarrow> submitted r"
| "task_ok i acc d r (Token_Confirm user actor) \<longleftrightarrow> submitted r"
| "task_ok i acc d r (Dns_Step st) \<longleftrightarrow> ds_id st = i \<and> (\<exists>s. row_sub r = Some s \<and> staged_submission st = Some s)"
| "task_ok i acc d r (Dns_Submit q sub) \<longleftrightarrow> mr_id q = i \<and> row_sub r = Some sub"
| "task_ok i acc d r (Dns_Call q sub) \<longleftrightarrow> mr_id q = i \<and> row_sub r = Some sub \<and> mr_status r = Submitting_Plc \<and> \<not> submitted r"
| "task_ok i acc d r (Dns_Answered q sub a) \<longleftrightarrow> mr_id q = i \<and> row_sub r = Some sub \<and> mr_status r = Submitting_Plc
     \<and> \<not> submitted r \<and> ((\<exists>u. a = Inr u) \<longrightarrow> sub \<in> acc)"
| "task_ok i acc d r (Dns_Account q sub) \<longleftrightarrow> submitted r"
| "task_ok i acc d r (Dns_Confirm user actor) \<longleftrightarrow> submitted r"
| "task_ok i acc d r (Abandon_Write st) \<longleftrightarrow> st \<notin> late"
| "task_ok i acc d r _ \<longleftrightarrow> True"

text \<open>A task that has read no row yet, or needs none.\<close>

fun rowless :: "mig_task \<Rightarrow> bool" where
  "rowless (Dns_Release p js) = True" | "rowless (Task_Done r) = True" | "rowless t = begins t"

fun owns_submission :: "mig_task \<Rightarrow> bool" where
  "owns_submission (Dns_Call q sub) = True" | "owns_submission (Dns_Answered q sub a) = True" | "owns_submission _ = False"

definition at_most_one :: "('a \<Rightarrow> bool) \<Rightarrow> 'a multiset \<Rightarrow> bool" where
  "at_most_one P U \<longleftrightarrow> size (filter_mset P U) \<le> 1"

lemma at_most_one_none: "\<forall>u \<in># U. \<not> P u \<Longrightarrow> at_most_one P U"
  by (induction U) (auto simp: at_most_one_def)

lemma at_most_one_add:
  "at_most_one P (add_mset t U) \<longleftrightarrow> (if P t then \<forall>u \<in># U. \<not> P u else at_most_one P U)"
  by (auto simp: at_most_one_def)

lemma at_most_one_next:
  assumes "at_most_one P (add_mset t U)" "P t' \<Longrightarrow> P t \<or> (\<forall>u \<in># U. \<not> P u)"
  shows "at_most_one P (add_mset t' U)"
  using assms by (cases "P t"; cases "P t'") (auto simp: at_most_one_add intro: at_most_one_none)

lemma at_most_one_alone: "at_most_one P (add_mset t U) \<Longrightarrow> P t \<Longrightarrow> u \<in># U \<Longrightarrow> \<not> P u"
  by (simp add: at_most_one_add)

lemma at_most_one_empty [simp]: "at_most_one P {#}"
  by (simp add: at_most_one_def)

definition request_ok :: "int \<Rightarrow> mig_request option \<times> plc_submission set \<times> bool \<Rightarrow> mig_task multiset \<Rightarrow> bool" where
  "request_ok i v U \<longleftrightarrow> (case v of (row, acc, d) \<Rightarrow>
     at_most_one locks_request U \<and> at_most_one owns_submission U
   \<and> (case row of None \<Rightarrow> acc = {} \<and> (\<forall>t \<in># U. rowless t)
      | Some r \<Rightarrow> mr_id r = i \<and> row_ok acc d r \<and> (\<forall>t \<in># U. task_ok i acc d r t)))"

definition view :: "int \<Rightarrow> mig_world \<Rightarrow> mig_request option \<times> plc_submission set \<times> bool" where
  "view i w = (get_request i (mw_db w), accepted_of i w, import_done i (mw_db w))"

definition sys_ok :: "mig_sys \<Rightarrow> bool" where
  "sys_ok s \<longleftrightarrow> distinct (map mr_id (md_requests (mw_db (fst s))))
     \<and> (\<forall>i. request_ok i (view i (fst s)) (tasks_of i (snd s)))"

section \<open>What the statements do to the view of a request\<close>

named_theorems mig_view "views after a statement"

lemma view_change [mig_view]:
  assumes "\<And>r. mr_id (f r) = mr_id r"
  shows "view j (w\<lparr>mw_db := change_request i f (mw_db w)\<rparr>)
    = (if i = j then map_option f (get_request j (mw_db w)) else get_request j (mw_db w), accepted_of j w, import_done j (mw_db w))"
  by (simp add: view_def accepted_of_def import_done_def get_change_request assms)

lemma import_done_follow: "import_done j (mark_follow_materialized k now db) = import_done j db"
proof -
  have "record_pending j (if rc_id r = k then r\<lparr>rc_follow_materialized_at := Some now\<rparr> else r) = record_pending j r" for r
    by (simp add: record_pending_def)
  then show ?thesis by (simp add: import_done_def mark_follow_materialized_def del: if_image_distrib)
qed

lemma view_others [mig_view]:
  "view j (w\<lparr>mw_accounts := acc\<rparr>) = view j w"
  "view j (with_db (mark_follow_materialized k now) w) = view j w"
  by (simp_all add: view_def accepted_of_def with_db_def get_request_def import_done_follow)
    (simp add: mark_follow_materialized_def)

lemma request_ok_mono:
  assumes "request_ok i (row, acc, d) U" "d \<Longrightarrow> d'"
  shows "request_ok i (row, acc, d') U"
proof -
  have "task_ok i acc d' r t" if "task_ok i acc d r t" for r t
    using that assms(2) by (cases t) auto
  moreover have "status_ok st d' r" if "status_ok st d r" for st r
    using that assms(2) by (cases st) auto
  ultimately show ?thesis using assms(1) by (auto simp: request_ok_def row_ok_def split: option.splits)
qed

lemma request_ok_not_submitted:
  assumes "request_ok i (row, acc, d) U" "\<And>r. row = Some r \<Longrightarrow> \<not> submitted r"
  shows "request_ok i (row, acc, d') U"
proof -
  have "task_ok i acc d' r t" if "task_ok i acc d r t" "row = Some r" for r t
    using that assms(2) by (cases t) auto
  moreover have "status_ok st d' r" if "status_ok st d r" "row = Some r" for st r
    using that assms(2) by (cases st) auto
  ultimately show ?thesis using assms(1) by (auto simp: request_ok_def row_ok_def split: option.splits)
qed

text \<open>A task of a request with a row goes on: what the other tasks of the request have to keep.\<close>

lemma request_ok_next:
  assumes ok: "request_ok i (Some r, acc, d) (add_mset t U)"
    and row: "mr_id r' = i" "row_ok acc' d' r'" and new: "task_ok i acc' d' r' t'"
    and keep: "\<And>u. u \<in># U \<Longrightarrow> task_ok i acc d r u \<Longrightarrow> locks_request t \<longrightarrow> \<not> locks_request u
      \<Longrightarrow> owns_submission t \<longrightarrow> \<not> owns_submission u \<Longrightarrow> task_ok i acc' d' r' u"
    and locks: "locks_request t' \<Longrightarrow> locks_request t"
    and owns: "owns_submission t' \<Longrightarrow> owns_submission t \<or> (\<forall>u \<in># U. \<not> owns_submission u)"
  shows "request_ok i (Some r', acc', d') (add_mset t' U)"
proof -
  have l: "at_most_one locks_request (add_mset t U)" and o: "at_most_one owns_submission (add_mset t U)"
    and all: "\<forall>u \<in># add_mset t U. task_ok i acc d r u"
    using ok unfolding request_ok_def prod.case option.case by auto
  have "task_ok i acc' d' r' u" if u: "u \<in># U" for u
    using keep [OF u] all u at_most_one_alone [OF l _ u] at_most_one_alone [OF o _ u] by simp
  moreover have "at_most_one locks_request (add_mset t' U)"
    using at_most_one_next [OF l] locks by blast
  moreover have "at_most_one owns_submission (add_mset t' U)"
    using at_most_one_next [OF o] owns by blast
  ultimately show ?thesis
    unfolding request_ok_def prod.case option.case using row new by simp
qed

lemma request_ok_row:
  assumes "request_ok i (Some r, acc, d) (add_mset t U)"
  shows "mr_id r = i" "row_ok acc d r" "task_ok i acc d r t" "\<And>u. u \<in># U \<Longrightarrow> task_ok i acc d r u"
  using assms unfolding request_ok_def prod.case option.case by auto

lemma request_ok_rowless:
  assumes "request_ok i (None, acc, d) (add_mset t U)"
  shows "rowless t"
  using assms unfolding request_ok_def prod.case option.case by auto

text \<open>The task ends, or changes without a change of the tables.\<close>

lemma request_ok_same_row:
  assumes ok: "request_ok i (Some r, acc, d) (add_mset t U)"
    and "task_ok i acc d r t'" "locks_request t' \<Longrightarrow> locks_request t" "owns_submission t' \<Longrightarrow> owns_submission t"
  shows "request_ok i (Some r, acc, d) (add_mset t' U)"
  using request_ok_row [OF ok] assms by (intro request_ok_next [OF ok]) auto

lemma request_ok_end:
  assumes "request_ok i (row, acc, d) (add_mset t U)"
    and "\<And>r. task_ok i acc d r t'" "rowless t'" "\<not> locks_request t'" "\<not> owns_submission t'"
  shows "request_ok i (row, acc, d) (add_mset t' U)"
  using assms unfolding request_ok_def prod.case
  by (auto simp: at_most_one_add intro: at_most_one_none split: option.splits if_splits)

lemma request_ok_drop:
  assumes "request_ok i v (add_mset t U)"
  shows "request_ok i v U"
  using assms unfolding request_ok_def
  by (cases v) (auto simp: at_most_one_add intro: at_most_one_none split: option.splits if_splits)

section \<open>A step of a task keeps the request\<close>

lemma view_other_db:
  assumes "get_request j db' = get_request j (mw_db w)" "import_done j db' = import_done j (mw_db w)"
  shows "view j (w\<lparr>mw_db := db'\<rparr>) = view j w"
  using assms by (simp add: view_def accepted_of_def)

lemma import_done_stage_one:
  "j \<noteq> i \<Longrightarrow> import_done j (stage_one_record i c db) = import_done j db"
  "j \<noteq> i \<Longrightarrow> import_done j (stage_one_blob i b db) = import_done j db"
  by (auto simp: stage_one_record_def stage_one_blob_def import_done_def record_pending_def blob_pending_def)

lemma import_done_stage:
  assumes "j \<noteq> i"
  shows "import_done j (stage_records i rs db) = import_done j db" "import_done j (stage_blobs i cs db) = import_done j db"
proof -
  show "import_done j (stage_records i rs db) = import_done j db"
    by (induction rs arbitrary: db) (simp_all add: stage_records_def import_done_stage_one assms)
  show "import_done j (stage_blobs i cs db) = import_done j db"
    by (induction cs arbitrary: db) (simp_all add: stage_blobs_def import_done_stage_one assms)
qed

lemma import_done_mark:
  "import_done j db \<Longrightarrow> import_done j (mark_record_imported k now db)"
  "import_done j db \<Longrightarrow> import_done j (mark_blob_imported k now db)"
  by (auto simp: import_done_def mark_record_imported_def mark_blob_imported_def record_pending_def blob_pending_def)

lemma get_request_same:
  "get_request j (stage_records i rs db) = get_request j db" "get_request j (stage_blobs i cs db) = get_request j db"
  "get_request j (mark_record_imported k now db) = get_request j db"
  "get_request j (mark_blob_imported k now db) = get_request j db"
  by (simp_all add: get_request_def mark_record_imported_def mark_blob_imported_def)

lemma row_sub_same [simp]:
  "row_sub (r\<lparr>mr_status := st\<rparr>) = row_sub r" "row_sub (r\<lparr>mr_last_error := e\<rparr>) = row_sub r"
  "row_sub (r\<lparr>mr_dns_locked_until := t\<rparr>) = row_sub r" "row_sub (r\<lparr>mr_cf_txt_record_id := c\<rparr>) = row_sub r"
  "row_sub (r\<lparr>mr_txt_visible_at := v\<rparr>) = row_sub r" "row_sub (r\<lparr>mr_new_signing_key_pem := s\<rparr>) = row_sub r"
  "row_sub (r\<lparr>mr_new_rotation_key_pem := s\<rparr>) = row_sub r" "row_sub (r\<lparr>mr_plc_submitted_at := v\<rparr>) = row_sub r"
  "row_sub (r\<lparr>mr_actor_id := a\<rparr>) = row_sub r" "row_sub (r\<lparr>mr_user_id := a\<rparr>) = row_sub r"
  by (simp_all add: row_sub_def staged_submission_def dns_stage_def)

lemma row_flags_same [simp]:
  "submitted (r\<lparr>mr_status := st\<rparr>) = submitted r" "confirmed (r\<lparr>mr_status := st\<rparr>) = confirmed r"
  "submitted (r\<lparr>mr_last_error := e\<rparr>) = submitted r" "confirmed (r\<lparr>mr_last_error := e\<rparr>) = confirmed r"
  "submitted (r\<lparr>mr_dns_locked_until := t\<rparr>) = submitted r" "confirmed (r\<lparr>mr_dns_locked_until := t\<rparr>) = confirmed r"
  "submitted (r\<lparr>mr_cf_txt_record_id := c\<rparr>) = submitted r" "confirmed (r\<lparr>mr_cf_txt_record_id := c\<rparr>) = confirmed r"
  "submitted (r\<lparr>mr_txt_visible_at := v\<rparr>) = submitted r" "confirmed (r\<lparr>mr_txt_visible_at := v\<rparr>) = confirmed r"
  "submitted (r\<lparr>mr_actor_id := a\<rparr>) = submitted r" "submitted (r\<lparr>mr_user_id := a\<rparr>) = submitted r"
  "confirmed (r\<lparr>mr_actor_id := Some x, mr_user_id := Some y\<rparr>)"
  by (simp_all add: submitted_def confirmed_def)

lemma row_keys_same [simp]:
  "keys_from acc (r\<lparr>mr_status := st\<rparr>) = keys_from acc r" "blank (r\<lparr>mr_status := st\<rparr>) = blank r"
  "keys_from acc (r\<lparr>mr_last_error := e\<rparr>) = keys_from acc r" "blank (r\<lparr>mr_last_error := e\<rparr>) = blank r"
  "keys_from acc (r\<lparr>mr_dns_locked_until := t\<rparr>) = keys_from acc r" "blank (r\<lparr>mr_dns_locked_until := t\<rparr>) = blank r"
  "keys_from acc (r\<lparr>mr_cf_txt_record_id := c\<rparr>) = keys_from acc r" "blank (r\<lparr>mr_cf_txt_record_id := c\<rparr>) = blank r"
  "keys_from acc (r\<lparr>mr_txt_visible_at := v\<rparr>) = keys_from acc r" "blank (r\<lparr>mr_txt_visible_at := v\<rparr>) = blank r"
  "keys_from acc (r\<lparr>mr_actor_id := a\<rparr>) = keys_from acc r" "keys_from acc (r\<lparr>mr_user_id := a\<rparr>) = keys_from acc r"
  by (simp_all add: keys_from_def blank_def)

lemma status_ok_same [simp]:
  "status_ok st d (r\<lparr>mr_dns_locked_until := t\<rparr>) = status_ok st d r"
  "status_ok st d (r\<lparr>mr_cf_txt_record_id := c\<rparr>) = status_ok st d r"
  "status_ok st d (r\<lparr>mr_txt_visible_at := v\<rparr>) = status_ok st d r"
  by (cases st; simp)+

text \<open>The changes of a row, and the other tasks.\<close>

lemma view_row:
  "view i w = (row, acc, d) \<longleftrightarrow> get_request i (mw_db w) = row \<and> accepted_of i w = acc \<and> import_done i (mw_db w) = d"
  by (auto simp: view_def)

lemma row_ok_submitted: "row_ok acc d r \<Longrightarrow> submitted r \<Longrightarrow> mr_status r \<in> late"
  by (cases "mr_status r") (auto simp: row_ok_def late_def)

text \<open>A step of a task with a row that does not write, or whose task ends.\<close>

definition stays :: "int \<Rightarrow> mig_world \<Rightarrow> mig_task \<Rightarrow> mig_task multiset \<Rightarrow> mig_world \<Rightarrow> mig_task \<Rightarrow> bool" where
  "stays i w t U w' t' \<longleftrightarrow> request_ok i (view i w) (add_mset t U) \<longrightarrow> request_ok i (view i w') (add_mset t' U)"

lemma stays_done: "view i w' = view i w \<Longrightarrow> stays i w t U w' (Task_Done x)"
  by (cases "view i w") (auto simp: stays_def locks_request_def intro: request_ok_end)

lemma stays_release: "view i w' = view i w \<Longrightarrow> stays i w t U w' (Dns_Release p js)"
  by (cases "view i w") (auto simp: stays_def locks_request_def intro: request_ok_end)

lemma stays_rowless:
  assumes "get_request i (mw_db w) = None" "rowless t \<Longrightarrow> stays i w t U w' t'"
  shows "stays i w t U w' t'"
  using assms request_ok_rowless by (auto simp: stays_def view_def)

lemma stays_row:
  assumes "get_request i (mw_db w) = Some r" "view i w' = (Some r', acc', d')"
    and "mr_id r = i \<Longrightarrow> row_ok (accepted_of i w) (import_done i (mw_db w)) r
      \<Longrightarrow> task_ok i (accepted_of i w) (import_done i (mw_db w)) r t
      \<Longrightarrow> mr_id r' = i \<and> row_ok acc' d' r' \<and> task_ok i acc' d' r' t'"
    and "\<And>u. row_ok (accepted_of i w) (import_done i (mw_db w)) r \<Longrightarrow> submitted r \<longrightarrow> mr_status r \<in> late
      \<Longrightarrow> task_ok i (accepted_of i w) (import_done i (mw_db w)) r t
      \<Longrightarrow> task_ok i (accepted_of i w) (import_done i (mw_db w)) r u \<Longrightarrow> locks_request t \<longrightarrow> \<not> locks_request u
      \<Longrightarrow> owns_submission t \<longrightarrow> \<not> owns_submission u \<Longrightarrow> task_ok i acc' d' r' u"
    and "locks_request t' \<Longrightarrow> locks_request t"
    and "row_ok (accepted_of i w) (import_done i (mw_db w)) r \<Longrightarrow> owns_submission t'
      \<Longrightarrow> owns_submission t \<or> mr_status r \<noteq> Submitting_Plc"
  shows "stays i w t U w' t'"
proof -
  have "request_ok i (Some r', acc', d') (add_mset t' U)"
    if ok: "request_ok i (Some r, accepted_of i w, import_done i (mw_db w)) (add_mset t U)"
  proof -
    note row = request_ok_row [OF ok]
    have "owns_submission t \<or> (\<forall>u \<in># U. \<not> owns_submission u)" if "owns_submission t'"
    proof -
      have "\<not> owns_submission u" if "mr_status r \<noteq> Submitting_Plc" "u \<in># U" for u
        using row(4) [OF that(2)] that(1) by (cases u) auto
      then show ?thesis using assms(6) [OF row(2) \<open>owns_submission t'\<close>] by blast
    qed
    then show ?thesis
      using assms(3) [OF row(1-3)] assms(4) [OF row(2) _ row(3)] row_ok_submitted [OF row(2)] assms(5)
      by (intro request_ok_next [OF ok]) blast+
  qed
  then show ?thesis using assms(1,2) by (simp add: stays_def view_def)
qed

lemma fetch_stays:
  assumes run: "fetch_step C A i t w = (t', w')" and k: "task_kind t = K_Fetch"
  shows "stays i w t U w' t'"
proof (cases "get_request i (mw_db w)")
  case None
  show ?thesis
  proof (rule stays_rowless [OF None])
    assume "rowless t"
    then have "t = Fetch_Begin" using k by (cases t) auto
    then show "stays i w t U w' t'" using run None by (auto simp: request_in_status_def intro: stays_done)
  qed
next
  case (Some r)
  have same: "view i w = (Some r, accepted_of i w, import_done i (mw_db w))" using Some by (simp add: view_def)
  show ?thesis
  proof (cases t)
    case Fetch_Begin
    show ?thesis
    proof (cases "mr_status r = Fetching_Repo")
      case True
      then have "t' = Fetch_Repo r" "w' = w" using run Some Fetch_Begin by (auto simp: request_in_status_def)
      then show ?thesis using True Fetch_Begin
        by (intro stays_row [OF Some]) (auto simp: same row_ok_def locks_request_def)
    next
      case False
      then show ?thesis using run Some Fetch_Begin by (auto simp: request_in_status_def intro: stays_done)
    qed
  next
    case (Fetch_Repo q)
    consider e where "t' = job_result e" "w' = w"
      | rs where "t' = Fetch_Blobs q" "w' = with_db (stage_records i rs) w"
      | e where "t' = job_result e" "w' = with_db (set_migration_failed i Mig_Failed ''CAR'') w"
      using run Fetch_Repo by (auto split: sum.splits)
    then show ?thesis
    proof cases
      case 1
      then show ?thesis by (simp add: job_result_def stays_done)
    next
      case 2
      have v: "view i w' = (Some r, accepted_of i w, import_done i (stage_records i rs (mw_db w)))"
        using 2 Some by (simp add: view_def with_db_def get_request_same accepted_of_def)
      show ?thesis
        proof (rule stays_row [OF Some v], goal_cases)
          case (2 u)
          then show ?case using 2 Fetch_Repo by (cases u) (auto simp: locks_request_def late_def)
        qed (use 2 Fetch_Repo in \<open>auto simp: row_ok_def locks_request_def\<close>)
    next
      case 3
      have v: "view i w' = (Some (r\<lparr>mr_status := Mig_Failed, mr_last_error := Some ''CAR''\<rparr>), accepted_of i w, import_done i (mw_db w))"
        by (simp add: 3 with_db_def set_migration_failed_def mig_view Some)
      show ?thesis
        proof (rule stays_row [OF Some v], goal_cases)
          case (2 u)
          then show ?case using 3 Fetch_Repo by (cases u) (auto simp: locks_request_def job_result_def)
        qed (use 3 Fetch_Repo in \<open>auto simp: row_ok_def locks_request_def job_result_def\<close>)
    qed
  next
    case (Fetch_Blobs q)
    show ?thesis
    proof (cases "an_blobs A")
      case (Inl e)
      then show ?thesis using run Fetch_Blobs by (auto simp: job_result_def stays_done)
    next
      case (Inr cs)
      have w': "w' = with_db (stage_blobs i cs) w" and t': "t' = Fetch_Done" using run Fetch_Blobs Inr by auto
      have v: "view i w' = (Some r, accepted_of i w, import_done i (stage_blobs i cs (mw_db w)))"
        using w' Some by (simp add: view_def with_db_def get_request_same accepted_of_def)
      show ?thesis
        proof (rule stays_row [OF Some v], goal_cases)
          case (2 u)
          then show ?case using t' Fetch_Blobs by (cases u) (auto simp: locks_request_def late_def)
        qed (use t' Fetch_Blobs in \<open>auto simp: row_ok_def locks_request_def\<close>)
    qed
  next
    case Fetch_Done
    then have w': "w' = with_db (set_migration_status i Requesting_Plc_Signature) w"
      and t': "t' = Task_Done (Job_Ok [MigrationRequestPlcSignature i])"
      using run by auto
    have v: "view i w' = (Some (r\<lparr>mr_status := Requesting_Plc_Signature\<rparr>), accepted_of i w, import_done i (mw_db w))"
      by (simp add: w' with_db_def set_migration_status_def mig_view Some)
    show ?thesis
      proof (rule stays_row [OF Some v], goal_cases)
        case (2 u)
        then show ?case using t' Fetch_Done by (cases u) (auto simp: locks_request_def late_def)
      qed (use t' Fetch_Done in \<open>auto simp: row_ok_def locks_request_def\<close>)
  qed (use k in simp_all)
qed

lemma stays_nothing: "stays i w t U w t"
  by (simp add: stays_def)

lemma stays_read:
  assumes "get_request i (mw_db w) = Some r" "\<not> owns_submission t'" "locks_request t' \<Longrightarrow> locks_request t"
    and "row_ok (accepted_of i w) (import_done i (mw_db w)) r \<Longrightarrow> task_ok i (accepted_of i w) (import_done i (mw_db w)) r t
      \<Longrightarrow> task_ok i (accepted_of i w) (import_done i (mw_db w)) r t'"
  shows "stays i w t U w t'"
proof -
  have "request_ok i (Some r, accepted_of i w, import_done i (mw_db w)) (add_mset t' U)"
    if ok: "request_ok i (Some r, accepted_of i w, import_done i (mw_db w)) (add_mset t U)"
    using request_ok_same_row [OF ok] request_ok_row [OF ok] assms(2-4) by blast
  then show ?thesis using assms(1) by (simp add: stays_def view_def)
qed

lemma signature_stays:
  assumes run: "signature_step A i t w = (t', w')" and k: "task_kind t = K_Signature"
  shows "stays i w t U w' t'"
proof (cases "get_request i (mw_db w)")
  case None
  show ?thesis
  proof (rule stays_rowless [OF None])
    assume "rowless t"
    then have "t = Sig_Begin" using k by (cases t) auto
    then show "stays i w t U w' t'" using run None by (auto simp: request_in_status_def intro: stays_done)
  qed
next
  case (Some r)
  show ?thesis
  proof (cases t)
    case Sig_Begin
    then show ?thesis using run Some
      by (auto simp: request_in_status_def locks_request_def row_ok_def intro: stays_done stays_read split: if_splits)
  next
    case (Sig_Request q)
    consider x where "t' = Task_Done x" "w' = w"
      | x where "t' = Task_Done x" "w' = with_db (set_migration_status i Awaiting_Plc_Token) w"
      using run Sig_Request by (auto simp: job_result_def split: sum.splits)
    then show ?thesis
    proof cases
      case 1
      then show ?thesis by (simp add: stays_done)
    next
      case 2
      have v: "view i w' = (Some (r\<lparr>mr_status := Awaiting_Plc_Token\<rparr>), accepted_of i w, import_done i (mw_db w))"
        by (simp add: 2 with_db_def set_migration_status_def mig_view Some)
      show ?thesis
      proof (rule stays_row [OF Some v], goal_cases)
        case (2 u)
        then show ?case using Sig_Request by (cases u) (auto simp: locks_request_def late_def)
      qed (use 2 Sig_Request in \<open>auto simp: row_ok_def locks_request_def\<close>)
    qed
  qed (use k in simp_all)
qed

lemma claim_None_done: "claim_next_record i db = None \<Longrightarrow> claim_next_blob i db = None \<Longrightarrow> import_done i db"
  by (simp add: claim_next_record_def claim_next_blob_def first_by_None import_done_def)

lemma stays_marked:
  assumes Some: "get_request i (mw_db w) = Some r" and "t = Import_Record q c \<or> t = Import_Blob q b"
    and "w' = with_db (mark_record_imported k now) w \<or> w' = with_db (mark_blob_imported k now) w"
  shows "stays i w t U w' (Task_Done x)"
proof -
  have v: "view i w' = (Some r, accepted_of i w, import_done i (mw_db w'))"
    using assms(3) Some by (auto simp: view_def with_db_def get_request_same accepted_of_def)
  have d: "import_done i (mw_db w) \<Longrightarrow> import_done i (mw_db w')"
    using assms(3) by (auto simp: with_db_def import_done_mark)
  have "request_ok i (Some r, accepted_of i w, import_done i (mw_db w')) (add_mset (Task_Done x) U)"
    if "request_ok i (Some r, accepted_of i w, import_done i (mw_db w)) (add_mset t U)"
  proof -
    have "request_ok i (Some r, accepted_of i w, import_done i (mw_db w')) (add_mset t U)"
      using that d by (rule request_ok_mono)
    then show ?thesis by (rule request_ok_end) (simp_all add: locks_request_def)
  qed
  then show ?thesis using Some v by (simp add: stays_def view_def)
qed

lemma import_stays:
  assumes run: "import_step A i t w = (t', w')" and k: "task_kind t = K_Import"
  shows "stays i w t U w' t'"
proof (cases "get_request i (mw_db w)")
  case None
  show ?thesis
  proof (rule stays_rowless [OF None])
    assume "rowless t"
    then have "t = Import_Begin" using k by (cases t) auto
    then show "stays i w t U w' t'" using run None by (auto simp: request_in_status_def intro: stays_done)
  qed
next
  case (Some r)
  show ?thesis
  proof (cases t)
    case Import_Begin
    then show ?thesis using run Some
      by (auto simp: request_in_status_def locks_request_def row_ok_def job_result_def intro: stays_done stays_read split: if_splits)
  next
    case (Import_Next q)
    then show ?thesis using run Some claim_None_done [of i "mw_db w"]
      by (auto simp: locks_request_def intro!: stays_read split: option.splits)
  next
    case (Import_Record q c)
    then show ?thesis using run by (auto simp: job_result_def intro: stays_done stays_marked [OF Some] split: sum.splits)
  next
    case (Import_Blob q b)
    then show ?thesis using run by (auto simp: job_result_def intro: stays_done stays_marked [OF Some] split: sum.splits)
  next
    case Import_Finish
    then have w': "w' = with_db (set_migration_status i Deactivating_Source) w" and t': "\<exists>x. t' = Task_Done x"
      using run by auto
    have v: "view i w' = (Some (r\<lparr>mr_status := Deactivating_Source\<rparr>), accepted_of i w, import_done i (mw_db w))"
      by (simp add: w' with_db_def set_migration_status_def mig_view Some)
    show ?thesis
    proof (rule stays_row [OF Some v], goal_cases)
      case (2 u)
      then show ?case using Import_Finish by (cases u) (auto simp: locks_request_def late_def)
    qed (use t' Import_Finish in \<open>auto simp: row_ok_def locks_request_def\<close>)
  qed (use k in simp_all)
qed

lemma deactivate_stays:
  assumes run: "deactivate_step i t w = (t', w')" and k: "task_kind t = K_Deactivate"
  shows "stays i w t U w' t'"
proof (cases "get_request i (mw_db w)")
  case None
  show ?thesis
  proof (rule stays_rowless [OF None])
    assume "rowless t"
    then have "t = Deact_Begin" using k by (cases t) auto
    then show "stays i w t U w' t'" using run None by (auto simp: request_in_status_def intro: stays_done)
  qed
next
  case (Some r)
  show ?thesis
  proof (cases t)
    case Deact_Begin
    then show ?thesis using run Some
      by (auto simp: request_in_status_def locks_request_def row_ok_def intro: stays_done stays_read split: if_splits)
  next
    case (Deact_Source q)
    then have w': "w' = with_db (set_migration_status i Mig_Completed) w" and t': "\<exists>x. t' = Task_Done x"
      using run by auto
    have v: "view i w' = (Some (r\<lparr>mr_status := Mig_Completed\<rparr>), accepted_of i w, import_done i (mw_db w))"
      by (simp add: w' with_db_def set_migration_status_def mig_view Some)
    show ?thesis
    proof (rule stays_row [OF Some v], goal_cases)
      case (2 u)
      then show ?case using Deact_Source by (cases u) (auto simp: late_def)
    qed (use t' Deact_Source in \<open>auto simp: row_ok_def locks_request_def\<close>)
  qed (use k in simp_all)
qed

end
