(* ===== verification/Migration_Inv.thy ===== *)
theory Migration_Inv
  imports Migration_Steps
begin

text \<open>
  Every step of every task keeps \<open>sys_ok\<close>: \<open>stays\<close> says it for the request the task works on, one lemma per
  kind of task; \<open>untouched\<close> says that the other requests are left alone.
\<close>

section \<open>One task and its request\<close>

lemma get_request_mem:
  assumes "distinct (map mr_id (md_requests db))" "r \<in> set (md_requests db)"
  shows "get_request (mr_id r) db = Some r"
  unfolding get_request_def
  using assms by (intro find_unique) (auto simp: distinct_map inj_on_def)

lemma authorized_request:
  assumes "distinct (map mr_id (md_requests db))" "authorize_migration_request C token i db = Inr r"
  shows "get_request i db = Some r"
proof -
  have "r \<in> set (md_requests db)" "mr_id r = i"
    using assms(2)
    by (auto simp: authorize_migration_request_def find_by_token_hash_def find_Some_iff split: option.splits if_splits)
  then show ?thesis using get_request_mem [OF assms(1)] by auto
qed

lemma change_request_if_moved:
  assumes "distinct (map mr_id (md_requests db))"
  shows "fst (change_request_if i P f db) \<longleftrightarrow> (\<exists>r. get_request i db = Some r \<and> P r)"
proof -
  have "get_request i db = Some r" if "r \<in> set (md_requests db)" "mr_id r = i" for r
    using get_request_mem [OF assms that(1)] that(2) by simp
  moreover have "r \<in> set (md_requests db) \<and> mr_id r = i" if "get_request i db = Some r" for r
    using that by (auto simp: get_request_def find_Some_iff)
  ultimately show ?thesis unfolding change_request_if_def list_ex_iff fst_conv by blast
qed

lemma view_change_if:
  assumes "\<And>r. mr_id (f r) = mr_id r" "get_request i (mw_db w) = Some r"
  shows "view i (w\<lparr>mw_db := snd (change_request_if i P f (mw_db w))\<rparr>)
    = (Some (if P r then f r else r), accepted_of i w, import_done i (mw_db w))"
  using view_change [of "\<lambda>r. if P r then f r else r" i i w] assms by (simp add: change_request_if_def)

lemma view_change_if_none:
  assumes "\<And>r. mr_id (f r) = mr_id r" "get_request i (mw_db w) = None"
  shows "view i (w\<lparr>mw_db := snd (change_request_if i P f (mw_db w))\<rparr>) = view i w"
  using view_change [of "\<lambda>r. if P r then f r else r" i i w] assms by (simp add: change_request_if_def view_def)

lemma token_stays:
  assumes dist: "distinct (map mr_id (md_requests (mw_db w)))"
    and run: "token_step C A i t w = (t', w')" and k: "task_kind t = K_Token"
  shows "stays i w t U w' t'"
proof (cases t)
  case (Token_Begin token)
  show ?thesis
  proof (cases "authorize_migration_request C token i (mw_db w)")
    case (Inl e)
    then show ?thesis using run Token_Begin by (auto simp: api_result_def stays_done)
  next
    case (Inr r)
    then have Some: "get_request i (mw_db w) = Some r" using dist by (intro authorized_request)
    have w': "w' = w" and t': "(\<exists>x. t' = Task_Done x) \<or> t' = Token_Sign r
        \<or> (\<exists>s k. t' = Token_Account r s k \<and> mr_new_signing_key_pem r = Some s)"
      using run Token_Begin Inr by (auto simp: api_result_def split: option.splits if_splits)
    show ?thesis
      unfolding w' using t'
      by (auto simp: Token_Begin locks_request_def row_ok_def blank_def intro!: stays_done stays_read [OF Some] split: if_splits)
  qed
next
  case (Token_Sign q)
  let ?f = "\<lambda>op s k r. r\<lparr>mr_status := Awaiting_Dns_Txt, mr_staged_plc_operation := Some op,
              mr_staged_signing_key_pem := Some s, mr_staged_rotation_key_pem := Some k,
              mr_cf_txt_record_id := None, mr_txt_visible_at := None, mr_last_error := None\<rparr>"
  let ?w = "\<lambda>op s k. w\<lparr>mw_db := snd (change_request_if i (\<lambda>r. mr_status r = Awaiting_Plc_Token) (?f op s k) (mw_db w))\<rparr>"
  consider x where "t' = Task_Done x" "w' = w" | x op s k where "t' = Task_Done x" "w' = ?w op s k"
    using run Token_Sign
    by (auto simp: api_result_def stage_plc_operation_def case_prod_beta split: sum.splits if_splits)
  then show ?thesis
  proof cases
    case 1
    then show ?thesis by (simp add: stays_done)
  next
    case (2 x op s k)
    show ?thesis
    proof (cases "get_request i (mw_db w)")
      case None
      then show ?thesis using 2 by (simp add: stays_done view_change_if_none)
    next
      case (Some r)
      let ?r = "?f op s k r"
      have v: "view i w' = (Some (if mr_status r = Awaiting_Plc_Token then ?r else r), accepted_of i w, import_done i (mw_db w))"
        unfolding 2 by (rule view_change_if) (simp_all add: Some)
      show ?thesis
      proof (cases "mr_status r = Awaiting_Plc_Token")
        case False
        then show ?thesis using v 2(1) Some by (auto simp: view_def intro: stays_done)
      next
        case True
        have sub: "row_sub ?r = Some \<lparr>ps_operation = op, ps_signing_key_pem = s, ps_rotation_key_pem = k\<rparr>"
          by (simp add: row_sub_def dns_stage_def staged_submission_def)
        have flags: "submitted ?r = submitted r" "blank ?r = blank r"
          by (simp_all add: submitted_def blank_def)
        show ?thesis
        proof (rule stays_row [OF Some v [unfolded if_P [OF True]]], goal_cases)
          case (2 u)
          moreover from 2 have "row_sub r = None" using True by (simp add: row_ok_def)
          ultimately show ?case using True flags by (cases u) (auto simp: late_def)
        qed (use True 2(1) flags sub in \<open>auto simp: row_ok_def locks_request_def\<close>)
      qed
    qed
  qed
next
  case (Token_Account q s k)
  then obtain x acc where w': "w' = w \<or> w' = w\<lparr>mw_accounts := acc\<rparr>"
    and t': "t' = Task_Done x \<or> (\<exists>user actor. t' = Token_Confirm user actor)"
    using run by (auto simp: api_result_def split: option.splits prod.splits sum.splits)
  have same: "view i w' = view i w" using w' by (auto simp: mig_view)
  show ?thesis
  proof (cases "get_request i (mw_db w)")
    case None
    show ?thesis by (rule stays_rowless [OF None]) (simp add: Token_Account)
  next
    case (Some r)
    have "stays i w t U w t'"
      using t' Token_Account by (auto simp: locks_request_def intro!: stays_read [OF Some])
    then show ?thesis by (simp add: stays_def same)
  qed
next
  case (Token_Confirm user actor)
  have w': "w' = with_db (confirm_account_created i actor user) w" and t': "\<exists>x. t' = Task_Done x"
    using run Token_Confirm by auto
  show ?thesis
  proof (cases "get_request i (mw_db w)")
    case None
    show ?thesis by (rule stays_rowless [OF None]) (simp add: Token_Confirm)
  next
    case (Some r)
    let ?r = "r\<lparr>mr_status := Importing_Data, mr_actor_id := Some actor, mr_user_id := Some user\<rparr>"
    have v: "view i w' = (Some ?r, accepted_of i w, import_done i (mw_db w))"
      by (simp add: w' with_db_def confirm_account_created_def mig_view Some)
    have c: "confirmed ?r" by (simp add: confirmed_def)
    show ?thesis
    proof (rule stays_row [OF Some v], goal_cases)
      case (2 u)
      then show ?case using Token_Confirm c by (cases u) (auto simp: late_def)
    qed (use t' Token_Confirm c in \<open>auto simp: row_ok_def locks_request_def\<close>)
  qed
qed (use k in simp_all)

lemma abandon_stays:
  assumes dist: "distinct (map mr_id (md_requests (mw_db w)))"
    and run: "abandon_step C i t w = (t', w')" and k: "task_kind t = K_Abandon"
  shows "stays i w t U w' t'"
proof (cases t)
  case (Abandon_Begin token)
  show ?thesis
  proof (cases "authorize_migration_request C token i (mw_db w)")
    case (Inl e)
    then show ?thesis using run Abandon_Begin by (auto simp: api_result_def stays_done)
  next
    case (Inr r)
    then have Some: "get_request i (mw_db w) = Some r" using dist by (intro authorized_request)
    have "mr_status r \<notin> late" if "row_ok acc d r" "\<not> submitted r" "mr_status r \<noteq> Submitting_Plc" for acc d
      using that by (cases "mr_status r") (auto simp: row_ok_def late_def)
    note early = this
    have w': "w' = w" and t': "(\<exists>x. t' = Task_Done x) \<or> (t' = Abandon_Write (mr_status r) \<and> \<not> submitted r \<and> mr_status r \<noteq> Submitting_Plc)"
      using run Abandon_Begin Inr by (auto simp: api_result_def submitted_def split: if_splits)
    show ?thesis
      unfolding w' using t' early
      by (auto simp: Abandon_Begin locks_request_def intro!: stays_done stays_read [OF Some])
  qed
next
  case (Abandon_Write st)
  let ?w = "w\<lparr>mw_db := snd (change_request_if i (\<lambda>r. mr_status r = st) (\<lambda>r. r\<lparr>mr_status := Mig_Abandoned\<rparr>) (mw_db w))\<rparr>"
  have w': "w' = ?w" and t': "\<exists>x. t' = Task_Done x"
    using run Abandon_Write by (auto simp: transition_status_def api_result_def case_prod_beta)
  show ?thesis
  proof (cases "get_request i (mw_db w)")
    case None
    show ?thesis by (rule stays_rowless [OF None]) (simp add: Abandon_Write)
  next
    case (Some r)
    have v: "view i w' = (Some (if mr_status r = st then r\<lparr>mr_status := Mig_Abandoned\<rparr> else r), accepted_of i w, import_done i (mw_db w))"
      unfolding w' by (rule view_change_if) (simp_all add: Some)
    show ?thesis
    proof (cases "mr_status r = st")
      case False
      then show ?thesis using v t' Some by (auto simp: view_def intro: stays_done)
    next
      case True
      show ?thesis
      proof (rule stays_row [OF Some v [unfolded if_P [OF True]]], goal_cases)
        case 1
        then have "\<not> submitted r" using Abandon_Write True row_ok_submitted by auto
        then show ?case using 1 t' by (auto simp: row_ok_def)
      next
        case (2 u)
        then show ?case using True Abandon_Write by (cases u) (auto simp: locks_request_def late_def)
      qed (use t' in \<open>auto simp: locks_request_def\<close>)
    qed
  qed
qed (use k in simp_all)

section \<open>The advance\<close>

lemma dns_task_row:
  assumes "request_ok i (view i w) (add_mset t U)" "\<not> rowless t"
  obtains r where "get_request i (mw_db w) = Some r"
    "row_ok (accepted_of i w) (import_done i (mw_db w)) r" "task_ok i (accepted_of i w) (import_done i (mw_db w)) r t"
proof (cases "get_request i (mw_db w)")
  case None
  then show thesis using assms request_ok_rowless by (auto simp: view_def)
next
  case (Some r)
  then have ok: "request_ok i (Some r, accepted_of i w, import_done i (mw_db w)) (add_mset t U)"
    using assms(1) by (simp add: view_def)
  show thesis using that [OF Some request_ok_row(2,3) [OF ok]] .
qed

text \<open>A change of the columns of the lease and of the TXT record.\<close>

lemma stays_column:
  assumes f: "\<And>r. mr_id (f r) = mr_id r" "\<And>r. row_sub (f r) = row_sub r" "\<And>r. submitted (f r) = submitted r"
      "\<And>r. confirmed (f r) = confirmed r" "\<And>r acc. keys_from acc (f r) = keys_from acc r" "\<And>r. blank (f r) = blank r"
      "\<And>r. mr_status (f r) = mr_status r" "\<And>st d r. status_ok st d (f r) = status_ok st d r"
    and w': "w' = w\<lparr>mw_db := change_request i f (mw_db w)\<rparr>"
    and t': "\<And>r. get_request i (mw_db w) = Some r \<Longrightarrow> row_ok (accepted_of i w) (import_done i (mw_db w)) r
      \<Longrightarrow> task_ok i (accepted_of i w) (import_done i (mw_db w)) r t \<Longrightarrow> task_ok i (accepted_of i w) (import_done i (mw_db w)) r t'"
      "\<not> locks_request t'" "\<not> owns_submission t'" "get_request i (mw_db w) = None \<Longrightarrow> rowless t'"
  shows "stays i w t U w' t'"
proof (cases "get_request i (mw_db w)")
  case None
  then have v: "view i w' = view i w" using w' f(1) by (simp add: view_change) (simp add: view_def)
  have "rowless t'" by (rule t'(4) [OF None])
  show ?thesis
    using v None t' \<open>rowless t'\<close>
    by (auto simp: stays_def view_def request_ok_def at_most_one_add intro: at_most_one_none split: if_splits)
next
  case (Some r)
  have v: "view i w' = (Some (f r), accepted_of i w, import_done i (mw_db w))"
    using w' f(1) Some by (simp add: view_change)
  have keep: "task_ok i acc d (f r) u = task_ok i acc d r u" for acc d u
    by (cases u) (simp_all add: f)
  show ?thesis
    by (rule stays_row [OF Some v]) (use t' Some in \<open>auto simp: keep row_ok_def f\<close>)
qed

lemma stays_submission:
  assumes run: "t = Dns_Submit q sub" "dns_step C A i t w = (t', w')" and dist: "distinct (map mr_id (md_requests (mw_db w)))"
  shows "stays i w t U w' t'"
proof (cases "get_request i (mw_db w)")
  case None
  show ?thesis by (rule stays_rowless [OF None]) (simp add: run)
next
  case (Some r)
  let ?P = "\<lambda>r. mr_status r = Awaiting_Dns_Txt" and ?f = "\<lambda>r. r\<lparr>mr_status := Submitting_Plc\<rparr>"
  show ?thesis
  proof (cases "mr_id q = i")
    case False
    then show ?thesis
      using run(1) request_ok_row(3) by (force simp: stays_def view_def Some)
  next
    case True
    have w': "w' = w\<lparr>mw_db := snd (change_request_if i ?P ?f (mw_db w))\<rparr>"
      and t': "t' = (if fst (change_request_if i ?P ?f (mw_db w)) then Dns_Call q sub else Dns_Release False [])"
      using run True by (auto simp: transition_status_def case_prod_beta)
    have v: "view i w' = (Some (if mr_status r = Awaiting_Dns_Txt then ?f r else r), accepted_of i w, import_done i (mw_db w))"
      unfolding w' by (rule view_change_if) (simp_all add: Some)
    have moved: "fst (change_request_if i ?P ?f (mw_db w)) \<longleftrightarrow> mr_status r = Awaiting_Dns_Txt"
      unfolding change_request_if_moved [OF dist] by (simp add: Some)
    show ?thesis
    proof (cases "mr_status r = Awaiting_Dns_Txt")
      case False
      then show ?thesis using v t' moved Some by (auto simp: view_def intro: stays_release)
    next
      case st: True
      have t'': "t' = Dns_Call q sub" using t' moved st by simp
      show ?thesis
      proof (rule stays_row [OF Some v [unfolded if_P [OF st]]], goal_cases)
        case (2 u)
        then show ?case using st by (cases u) (auto simp: row_ok_def late_def)
      qed (use st t'' run(1) True in \<open>auto simp: row_ok_def locks_request_def\<close>)
    qed
  qed
qed

lemma stays_call:
  assumes run: "t = Dns_Call q sub" "dns_step C A i t w = (t', w')" and honest: "plc_honest A"
  shows "stays i w t U w' t'"
proof (cases "get_request i (mw_db w)")
  case None
  show ?thesis by (rule stays_rowless [OF None]) (simp add: run)
next
  case (Some r)
  define acc where "acc = (if an_plc_accepts A \<and> mr_id q = i then insert sub (accepted_of i w) else accepted_of i w)"
  have t': "t' = Dns_Answered q sub (an_plc A)" and w': "w' = (if an_plc_accepts A then w\<lparr>mw_accepted := mw_accepted w @ [(mr_id q, sub)]\<rparr> else w)"
    using run by auto
  have v: "view i w' = (Some r, acc, import_done i (mw_db w))"
    using Some by (auto simp: w' acc_def view_def accepted_of_def)
  show ?thesis
  proof (rule stays_row [OF Some v], goal_cases)
    case 1
    then show ?case using run(1) t' honest by (auto simp: row_ok_def acc_def plc_honest_def split: sum.splits)
  next
    case (2 u)
    then show ?case using run(1) by (cases u) (auto simp: acc_def)
  qed (use t' run(1) in \<open>auto simp: locks_request_def\<close>)
qed

lemma stays_answered:
  assumes run: "t = Dns_Answered q sub a" "dns_step C A i t w = (t', w')"
  shows "stays i w t U w' t'"
proof (cases "get_request i (mw_db w)")
  case None
  show ?thesis by (rule stays_rowless [OF None]) (simp add: run)
next
  case (Some r)
  show ?thesis
  proof (cases "mr_id q = i \<and> mr_status r = Submitting_Plc")
    case False
    then show ?thesis
      using run(1) request_ok_row(3) by (force simp: stays_def view_def Some)
  next
    case True
    then have q: "mr_id q = i" and st: "mr_status r = Submitting_Plc" by auto
    show ?thesis
    proof (cases a)
      case (Inl e)
      define r' where "r' = (if plc_rejected e then r\<lparr>mr_status := Mig_Failed, mr_last_error := Some ''PLC''\<rparr>
        else r\<lparr>mr_status := Awaiting_Dns_Txt\<rparr>)"
      have t': "t' = Dns_Release True []" using run Inl by auto
      have v: "view i w' = (Some r', accepted_of i w, import_done i (mw_db w))"
      proof (cases "plc_rejected e")
        case True
        then have "w' = w\<lparr>mw_db := change_request i (\<lambda>r. r\<lparr>mr_status := Mig_Failed, mr_last_error := Some ''PLC''\<rparr>) (mw_db w)\<rparr>"
          using run Inl q by (auto simp: with_db_def set_migration_failed_def)
        then show ?thesis using True Some by (simp add: view_change r'_def)
      next
        case False
        then have "w' = w\<lparr>mw_db := snd (change_request_if i (\<lambda>r. mr_status r = Submitting_Plc) (\<lambda>r. r\<lparr>mr_status := Awaiting_Dns_Txt\<rparr>) (mw_db w))\<rparr>"
          using run Inl q by (auto simp: with_db_def transition_status_def)
        then show ?thesis using False st Some by (simp add: view_change_if r'_def)
      qed
      show ?thesis
      proof (rule stays_row [OF Some v], goal_cases)
        case 1
        then show ?case using run(1) t' by (auto simp: row_ok_def r'_def)
      next
        case (2 u)
        then show ?case using run(1) st by (cases u) (auto simp: r'_def late_def)
      qed (use t' run(1) in \<open>auto simp: locks_request_def\<close>)
    next
      case (Inr x)
      let ?f = "\<lambda>r. r\<lparr>mr_status := Submitting_Plc, mr_new_signing_key_pem := Some (ps_signing_key_pem sub),
        mr_new_rotation_key_pem := Some (ps_rotation_key_pem sub), mr_plc_submitted_at := Some (an_now A)\<rparr>"
      have t': "t' = Dns_Account q sub" and w': "w' = w\<lparr>mw_db := change_request i ?f (mw_db w)\<rparr>"
        using run Inr q by (auto simp: with_db_def mark_plc_submitted_def)
      have v: "view i w' = (Some (?f r), accepted_of i w, import_done i (mw_db w))"
        using w' Some by (simp add: view_change)
      have flags: "submitted (?f r)" "confirmed (?f r) = confirmed r" by (simp_all add: submitted_def confirmed_def)
      show ?thesis
      proof (rule stays_row [OF Some v], goal_cases)
        case 1
        then have "sub \<in> accepted_of i w" using run(1) Inr by auto
        then have "keys_from (accepted_of i w) (?f r)" by (auto simp: keys_from_def)
        then show ?case using 1 run(1) t' flags by (auto simp: row_ok_def)
      next
        case (2 u)
        then show ?case using run(1) st flags by (cases u) (auto simp: late_def)
      qed (use t' run(1) in \<open>auto simp: locks_request_def\<close>)
    qed
  qed
qed

lemma dns_stays:
  assumes dist: "distinct (map mr_id (md_requests (mw_db w)))" and honest: "plc_honest A"
    and run: "dns_step C A i t w = (t', w')" and k: "task_kind t = K_Dns"
  shows "stays i w t U w' t'"
proof (cases t)
  case Dns_Begin
  show ?thesis
  proof (cases "get_request i (mw_db w)")
    case None
    then show ?thesis using run Dns_Begin by (auto simp: claim_dns_wait_def intro: stays_done)
  next
    case (Some r)
    show ?thesis
    proof (cases "dns_free (an_now A) r")
      case False
      then show ?thesis using run Dns_Begin Some by (auto simp: claim_dns_wait_def intro: stays_done)
    next
      case True
      have w': "w' = w\<lparr>mw_db := change_request i (\<lambda>r. r\<lparr>mr_dns_locked_until := Some (an_now A + LEASE_SECS * 1000000)\<rparr>) (mw_db w)\<rparr>"
        and t': "t' = Dns_Step (dns_stage r)"
        using run Dns_Begin Some True by (auto simp: claim_dns_wait_def)
      have "mr_id r = i" using Some by (rule get_request_id)
      then show ?thesis
        using True Some
        by (intro stays_column [OF _ _ _ _ _ _ _ _ w'])
          (auto simp: t' dns_free_def row_ok_def row_sub_def dns_stage_def locks_request_def)
    qed
  qed
next
  case (Dns_Step st)
  have st: ?thesis if "get_request i (mw_db w) = None \<or> ds_id st \<noteq> i"
  proof (cases "get_request i (mw_db w)")
    case None
    show ?thesis by (rule stays_rowless [OF None]) (simp add: Dns_Step)
  next
    case (Some r)
    then show ?thesis using that Dns_Step request_ok_row(3) by (force simp: stays_def view_def)
  qed
  show ?thesis
  proof (cases "get_request i (mw_db w)")
    case None
    then show ?thesis using st by simp
  next
    case (Some r)
    show ?thesis
    proof (cases "ds_id st = i")
      case False
      then show ?thesis using st by simp
    next
      case id: True
      consider "t' = Dns_Release True []" "w' = w"
        | c where "t' = Dns_Release True []" "w' = w\<lparr>mw_db := change_request i (\<lambda>r. r\<lparr>mr_cf_txt_record_id := Some c\<rparr>) (mw_db w)\<rparr>"
        | "t' = Dns_Release True []" "w' = w\<lparr>mw_db := change_request i
              (\<lambda>r. if mr_txt_visible_at r = None then r\<lparr>mr_txt_visible_at := Some (an_now A)\<rparr> else r) (mw_db w)\<rparr>"
        | sub where "t' = Dns_Submit r sub" "w' = w" "staged_submission st = Some sub"
        using run Dns_Step Some id
        by (auto simp: with_db_def set_dns_txt_record_id_def mark_dns_txt_visible_def
            split: sum.splits txt_state.splits option.splits)
      then show ?thesis
      proof cases
        case 1
        then show ?thesis by (simp add: stays_release)
      next
        case 2
        show ?thesis by (rule stays_column [OF _ _ _ _ _ _ _ _ 2(2)]) (simp_all add: 2(1) locks_request_def)
      next
        case 3
        show ?thesis by (rule stays_column [OF _ _ _ _ _ _ _ _ 3(2)]) (simp_all add: 3(1) locks_request_def)
      next
        case 4
        show ?thesis
          unfolding 4(2)
          by (rule stays_read [OF Some]) (use 4 Dns_Step get_request_id [OF Some] in \<open>auto simp: locks_request_def\<close>)
      qed
    qed
  qed
next
  case (Dns_Submit q sub)
  then show ?thesis using run dist by (rule stays_submission)
next
  case (Dns_Call q sub)
  then show ?thesis using run honest by (rule stays_call)
next
  case (Dns_Answered q sub a)
  then show ?thesis using run by (rule stays_answered)
next
  case (Dns_Account q sub)
  have w': "\<exists>acc. w' = w \<or> w' = w\<lparr>mw_accounts := acc\<rparr>"
    and t': "t' = Dns_Release True [] \<or> (\<exists>user actor. t' = Dns_Confirm user actor)"
    using run Dns_Account by (auto split: option.splits prod.splits sum.splits)
  have same: "view i w' = view i w" using w' by (auto simp: mig_view)
  show ?thesis
  proof (cases "get_request i (mw_db w)")
    case None
    show ?thesis by (rule stays_rowless [OF None]) (simp add: Dns_Account)
  next
    case (Some r)
    have "stays i w t U w t'"
      using t' Dns_Account by (auto simp: locks_request_def intro!: stays_read [OF Some])
    then show ?thesis by (simp add: stays_def same)
  qed
next
  case (Dns_Confirm user actor)
  have w': "w' = with_db (confirm_account_created i actor user) w" and t': "t' = Dns_Release False [MigrationImportProcess i]"
    using run Dns_Confirm by auto
  show ?thesis
  proof (cases "get_request i (mw_db w)")
    case None
    show ?thesis by (rule stays_rowless [OF None]) (simp add: Dns_Confirm)
  next
    case (Some r)
    let ?r = "r\<lparr>mr_status := Importing_Data, mr_actor_id := Some actor, mr_user_id := Some user\<rparr>"
    have v: "view i w' = (Some ?r, accepted_of i w, import_done i (mw_db w))"
      by (simp add: w' with_db_def confirm_account_created_def mig_view Some)
    have c: "confirmed ?r" by (simp add: confirmed_def)
    show ?thesis
    proof (rule stays_row [OF Some v], goal_cases)
      case (2 u)
      then show ?case using Dns_Confirm c by (cases u) (auto simp: late_def)
    qed (use t' Dns_Confirm c in \<open>auto simp: row_ok_def locks_request_def\<close>)
  qed
next
  case (Dns_Release p js)
  have w': "w' = w\<lparr>mw_db := change_request i (\<lambda>r. r\<lparr>mr_dns_locked_until := None\<rparr>) (mw_db w)\<rparr>"
    and t': "t' = Task_Done (Advanced p js)"
    using run Dns_Release by (auto simp: with_db_def release_dns_wait_def)
  show ?thesis by (rule stays_column [OF _ _ _ _ _ _ _ _ w']) (simp_all add: t' locks_request_def)
qed (use k in simp_all)

lemma error_stays: "stays i w t U w (on_db_error e i t)"
proof -
  have "(\<exists>x. on_db_error e i t = Task_Done x) \<or> (\<exists>p js. on_db_error e i t = Dns_Release p js) \<or> on_db_error e i t = t"
    by (cases t) (auto simp: job_result_def api_result_def)
  then show ?thesis by (auto simp: stays_done stays_release stays_nothing)
qed

lemma task_stays:
  assumes "distinct (map mr_id (md_requests (mw_db w)))" "plc_honest A" "task_step C A i t w = (t', w')"
  shows "stays i w t U w' t'"
proof (cases "an_db_error A")
  case (Some e)
  then show ?thesis using assms(3) error_stays by (auto simp: task_step_def)
next
  case None
  then show ?thesis
    using assms fetch_stays signature_stays import_stays deactivate_stays token_stays dns_stays abandon_stays stays_nothing
    by (cases "task_kind t") (simp_all add: task_step_def)
qed

section \<open>The other requests\<close>

lemma sys_okD: "sys_ok (w, T) \<Longrightarrow> request_ok i (view i w) (tasks_of i T)"
  by (simp add: sys_ok_def)

lemma sys_okD_ids: "sys_ok (w, T) \<Longrightarrow> distinct (map mr_id (md_requests (mw_db w)))"
  by (simp add: sys_ok_def)

definition untouched :: "int \<Rightarrow> mig_world \<Rightarrow> mig_world \<Rightarrow> bool" where
  "untouched j w w' \<longleftrightarrow> get_request j (mw_db w') = get_request j (mw_db w) \<and> accepted_of j w' = accepted_of j w
     \<and> (import_done j (mw_db w) \<longrightarrow> import_done j (mw_db w'))
     \<and> map mr_id (md_requests (mw_db w')) = map mr_id (md_requests (mw_db w))"

lemma untouched_simps [simp]:
  "untouched j w w" "untouched j w (w\<lparr>mw_accounts := acc\<rparr>)"
  by (simp_all add: untouched_def accepted_of_def)

lemma untouched_change:
  assumes "\<And>r. mr_id (f r) = mr_id r" "i \<noteq> j"
  shows "untouched j w (w\<lparr>mw_db := change_request i f (mw_db w)\<rparr>)"
    "untouched j w (w\<lparr>mw_db := snd (change_request_if i P f (mw_db w))\<rparr>)"
  using assms change_request_ids [of f i "mw_db w"] change_request_ids [of "\<lambda>r. if P r then f r else r" i "mw_db w"]
  by (simp_all add: untouched_def accepted_of_def import_done_def get_change_request change_request_if_def)

text \<open>The tasks of an advance name the request themselves.\<close>

fun named_request :: "int \<Rightarrow> mig_task \<Rightarrow> bool" where
  "named_request i (Dns_Step st) \<longleftrightarrow> ds_id st = i"
| "named_request i (Dns_Submit q sub) \<longleftrightarrow> mr_id q = i"
| "named_request i (Dns_Call q sub) \<longleftrightarrow> mr_id q = i"
| "named_request i (Dns_Answered q sub a) \<longleftrightarrow> mr_id q = i"
| "named_request i _ \<longleftrightarrow> True"

lemma request_ok_named: "request_ok i v (add_mset t U) \<Longrightarrow> named_request i t"
  by (cases v; cases t) (auto simp: request_ok_def split: option.splits)

lemmas statement_defs = with_db_def set_migration_status_def set_migration_failed_def mark_plc_submitted_def
  confirm_account_created_def stage_plc_operation_def release_dns_wait_def set_dns_txt_record_id_def
  mark_dns_txt_visible_def transition_status_def

lemma untouched_staged:
  assumes "i \<noteq> j"
  shows "untouched j w (with_db (stage_records i rs) w)" "untouched j w (with_db (stage_blobs i cs) w)"
    "untouched j w (with_db (mark_record_imported k now) w)" "untouched j w (with_db (mark_blob_imported k now) w)"
  using assms
  by (simp_all add: untouched_def with_db_def get_request_same accepted_of_def import_done_stage import_done_mark)
    (simp_all add: mark_record_imported_def mark_blob_imported_def)

lemma untouched_statements:
  assumes "i \<noteq> j"
  shows "untouched j w (with_db (set_migration_status i st) w)" "untouched j w (with_db (set_migration_failed i st e) w)"
    "untouched j w (with_db (mark_plc_submitted i s k now) w)" "untouched j w (with_db (confirm_account_created i a user) w)"
    "untouched j w (with_db (release_dns_wait i) w)" "untouched j w (with_db (set_dns_txt_record_id i c) w)"
    "untouched j w (with_db (mark_dns_txt_visible i now) w)" "untouched j w (with_db (snd \<circ> transition_status i st st2) w)"
    "untouched j w (w\<lparr>mw_db := snd (transition_status i st st2 (mw_db w))\<rparr>)"
    "untouched j w (w\<lparr>mw_db := snd (stage_plc_operation i op s k (mw_db w))\<rparr>)"
    "untouched j w (w\<lparr>mw_db := snd (claim_dns_wait i lease now (mw_db w))\<rparr>)"
  using assms
  by (simp_all add: statement_defs untouched_change claim_dns_wait_def split: option.split)

lemma task_untouched:
  assumes run: "task_step C A i t w = (t', w')" and named: "named_request i t" and ij: "i \<noteq> j"
  shows "untouched j w w'"
proof -
  note u = untouched_statements [OF ij] untouched_staged [OF ij]
  have "untouched j w (snd (fetch_step C A i t w))"
    by (cases t) (auto simp: u split: option.splits sum.splits)
  moreover have "untouched j w (snd (signature_step A i t w))"
    by (cases t) (auto simp: u split: option.splits sum.splits)
  moreover have "untouched j w (snd (import_step A i t w))"
    by (cases t) (auto simp: u split: option.splits sum.splits)
  moreover have "untouched j w (snd (deactivate_step i t w))"
    by (cases t) (auto simp: u split: option.splits)
  moreover have "untouched j w (snd (token_step C A i t w))"
    by (cases t) (simp_all add: u case_prod_beta split: option.split sum.split)
  moreover have "untouched j w (snd (abandon_step C i t w))"
    by (cases t) (simp_all add: u case_prod_beta split: sum.split)
  moreover have "untouched j w (snd (dns_step C A i t w))"
  proof (cases t)
    case Dns_Begin
    have "snd (dns_step C A i Dns_Begin w) = w\<lparr>mw_db := snd (claim_dns_wait i LEASE_SECS (an_now A) (mw_db w))\<rparr>
        \<or> snd (dns_step C A i Dns_Begin w) = w"
      by (auto split: prod.split option.split)
    then show ?thesis using u unfolding Dns_Begin by auto
  next
    case (Dns_Step st)
    then have "ds_id st = i" using named by simp
    then show ?thesis by (simp add: Dns_Step u split: option.split sum.split txt_state.split)
  next
    case (Dns_Submit q sub)
    then have "mr_id q = i" using named by simp
    then show ?thesis by (simp add: Dns_Submit u case_prod_beta)
  next
    case (Dns_Call q sub)
    then have "mr_id q = i" using named by simp
    then show ?thesis using ij by (simp add: Dns_Call untouched_def accepted_of_def)
  next
    case (Dns_Answered q sub a)
    then have "mr_id q = i" using named by simp
    then show ?thesis by (cases a) (simp_all add: Dns_Answered u)
  qed (simp_all add: u case_prod_beta split: option.split sum.split)
  ultimately show ?thesis
    using run by (cases "task_kind t") (auto simp: task_step_def split: option.splits)
qed

lemma task_ids:
  assumes "task_step C A i t w = (t', w')" "named_request i t"
  shows "map mr_id (md_requests (mw_db w')) = map mr_id (md_requests (mw_db w))"
proof -
  have "untouched (i + 1) w w'" by (rule task_untouched [OF assms]) simp
  then show ?thesis by (simp add: untouched_def)
qed

section \<open>The invariant\<close>

lemma request_ok_untouched:
  assumes "untouched j w w'" "request_ok j (view j w) U"
  shows "request_ok j (view j w') U"
proof -
  have "view j w' = (get_request j (mw_db w), accepted_of j w, import_done j (mw_db w'))"
    "import_done j (mw_db w) \<Longrightarrow> import_done j (mw_db w')"
    using assms(1) by (auto simp: untouched_def view_def)
  then show ?thesis using assms(2) request_ok_mono by (simp add: view_def)
qed

lemma sys_ok_start:
  assumes ok: "sys_ok (w, T)" and "begins t" "locks_request t \<longrightarrow> (\<forall>u. (i, u) \<in># T \<longrightarrow> \<not> locks_request u)"
  shows "sys_ok (w, add_mset (i, t) T)"
proof -
  have t: "rowless t" "\<not> owns_submission t" "task_ok i acc d r t" for acc d r
    using assms(2) by (cases t; simp)+
  have i: "request_ok i (view i w) (tasks_of i T)" using ok by (simp add: sys_ok_def)
  obtain row acc d where v: "view i w = (row, acc, d)" by (cases "view i w")
  have "at_most_one locks_request (tasks_of i T)" and own: "at_most_one owns_submission (tasks_of i T)"
    using i unfolding v request_ok_def prod.case by blast+
  then have lock: "at_most_one locks_request (add_mset t (tasks_of i T))"
    using assms(3) by (simp add: at_most_one_add in_tasks_of)
  have "request_ok i (row, acc, d) (add_mset t (tasks_of i T))"
    using i t lock own unfolding v request_ok_def prod.case
    by (cases row) (simp_all add: at_most_one_add)
  then show ?thesis using ok v by (simp add: sys_ok_def)
qed

lemma sys_ok_task:
  assumes ok: "sys_ok (w, add_mset (i, t) T)" and run: "task_step C A i t w = (t', w')" and honest: "plc_honest A"
  shows "sys_ok (w', add_mset (i, t') T)"
proof -
  have i: "request_ok i (view i w) (add_mset t (tasks_of i T))"
    using sys_okD [OF ok, of i] by simp
  have dist: "distinct (map mr_id (md_requests (mw_db w)))" using ok by (rule sys_okD_ids)
  have j: "request_ok j (view j w) (tasks_of j T)" if "j \<noteq> i" for j
    using sys_okD [OF ok, of j] that by simp
  have named: "named_request i t" using i by (rule request_ok_named)
  have "request_ok i (view i w') (add_mset t' (tasks_of i T))"
    using task_stays [OF dist honest run] i by (simp add: stays_def)
  moreover have "request_ok j (view j w') (tasks_of j T)" if "j \<noteq> i" for j
    using request_ok_untouched [OF task_untouched [OF run named] j] that by simp
  ultimately have "request_ok j (view j w') (tasks_of j (add_mset (i, t') T))" for j
    by (cases "j = i") simp_all
  then show ?thesis
    using dist task_ids [OF run named] by (simp add: sys_ok_def)
qed

lemma sys_ok_create:
  assumes ok: "sys_ok (w, T)" and new: "create_migration_request i q (mw_db w) = Some db'"
  shows "sys_ok (w\<lparr>mw_db := db'\<rparr>, T)"
proof -
  have fresh: "i \<notin> mr_id ` set (md_requests (mw_db w))"
    and db': "db' = (mw_db w)\<lparr>md_requests := md_requests (mw_db w) @ [new_request_row i q]\<rparr>"
    using new by (auto simp: create_migration_request_def split: if_splits)
  have none: "get_request i (mw_db w) = None"
    using fresh by (auto simp: get_request_def find_None_iff)
  have id: "mr_id (new_request_row i q) = i" by (simp add: new_request_row_def)
  have get: "get_request j db' = (if j = i then Some (new_request_row i q) else get_request j (mw_db w))" for j
    using none id by (auto simp: get_request_def db' find_append split: option.split)
  have same: "md_records db' = md_records (mw_db w)" "md_blobs db' = md_blobs (mw_db w)" by (simp_all add: db')
  have "request_ok j (view j (w\<lparr>mw_db := db'\<rparr>)) (tasks_of j T)" for j
  proof (cases "j = i")
    case False
    have "view j (w\<lparr>mw_db := db'\<rparr>) = view j w"
      using False by (simp add: view_def get accepted_of_def import_done_def same)
    then show ?thesis using ok by (simp add: sys_ok_def)
  next
    case True
    have ok': "request_ok i (None, accepted_of i w, import_done i (mw_db w)) (tasks_of i T)"
      using sys_okD [OF ok, of i] none by (simp add: view_def)
    have rowless: "task_ok i acc d r u" if "rowless u" for acc d r u
      using that by (cases u) auto
    have "row_ok {} d (new_request_row i q)" for d
      by (simp add: row_ok_def new_request_row_def row_sub_def staged_submission_def dns_stage_def submitted_def blank_def)
    then have "request_ok i (Some (new_request_row i q), accepted_of i w, import_done i db') (tasks_of i T)"
      using ok' id rowless by (auto simp: request_ok_def)
    then show ?thesis using True by (simp add: view_def get accepted_of_def)
  qed
  moreover have "distinct (map mr_id (md_requests db'))"
    using ok fresh id by (auto simp: db' sys_ok_def)
  ultimately show ?thesis by (simp add: sys_ok_def)
qed

lemma sys_ok_step:
  assumes "sys_ok s" "mig_step C s e s'" "honest e"
  shows "sys_ok s'"
  using assms(2)
proof (cases rule: mig_step.cases)
  case (ms_start t i T w)
  then show ?thesis using assms(1) sys_ok_start by auto
next
  case (ms_task A i t w t' w' T)
  then show ?thesis using assms(1,3) sys_ok_task by auto
next
  case (ms_end w i t T)
  then have ok: "sys_ok (w, add_mset (i, t) T)" using assms(1) by simp
  have "request_ok j (view j w) (tasks_of j T)" for j
    using sys_okD [OF ok, of j] request_ok_drop [of j "view j w" t] by (cases "j = i") simp_all
  then show ?thesis using sys_okD_ids [OF ok] ms_end by (simp add: sys_ok_def)
next
  case (ms_create i q w db' T)
  then show ?thesis using assms(1) sys_ok_create by auto
next
  case (ms_accounts w T acc)
  then show ?thesis using assms(1) by (simp add: sys_ok_def mig_view)
next
  case (ms_follow w T k now)
  then have "md_requests (mw_db (fst s')) = md_requests (mw_db w)"
    by (simp add: with_db_def mark_follow_materialized_def)
  then show ?thesis using assms(1) ms_follow by (simp add: sys_ok_def mig_view)
qed

lemma sys_ok_none: "no_migrations w \<Longrightarrow> sys_ok (w, {#})"
  by (simp add: sys_ok_def request_ok_def view_def no_migrations_def get_request_def accepted_of_def)

lemma sys_ok_reach:
  assumes "mig_reach C P s s'" "sys_ok s" "\<And>e. P e \<Longrightarrow> honest e"
  shows "sys_ok s'"
  using assms by (induction rule: mig_reach.induct) (auto intro: sys_ok_step)

end
