(* ===== verification/Migration_Facts.thy ===== *)
theory Migration_Facts
  imports Migration_Inv
begin

text \<open>
  What the invariant gives: how a step moves the status of its request, that an operation in force keeps its
  request from being abandoned as long as the answers arrive, that an advance ends, and two sets of states that
  no run leaves: an interrupted submission, and a request whose code was asked for.
\<close>

section \<open>The moves of the status\<close>

fun status_step :: "mig_task \<Rightarrow> at_migration_status \<Rightarrow> at_migration_status \<Rightarrow> bool" where
  "status_step (Fetch_Repo q) a b \<longleftrightarrow> b = Mig_Failed"
| "status_step Fetch_Done a b \<longleftrightarrow> b = Requesting_Plc_Signature"
| "status_step (Sig_Request q) a b \<longleftrightarrow> b = Awaiting_Plc_Token"
| "status_step Import_Finish a b \<longleftrightarrow> b = Deactivating_Source"
| "status_step (Deact_Source q) a b \<longleftrightarrow> b = Mig_Completed"
| "status_step (Token_Sign q) a b \<longleftrightarrow> a = Awaiting_Plc_Token \<and> b = Awaiting_Dns_Txt"
| "status_step (Token_Confirm user actor) a b \<longleftrightarrow> b = Importing_Data"
| "status_step (Dns_Submit q sub) a b \<longleftrightarrow> a = Awaiting_Dns_Txt \<and> b = Submitting_Plc"
| "status_step (Dns_Answered q sub (Inl e)) a b \<longleftrightarrow> b = Mig_Failed \<or> (a = Submitting_Plc \<and> b = Awaiting_Dns_Txt)"
| "status_step (Dns_Answered q sub (Inr x)) a b \<longleftrightarrow> b = Submitting_Plc"
| "status_step (Dns_Confirm user actor) a b \<longleftrightarrow> b = Importing_Data"
| "status_step (Abandon_Write st) a b \<longleftrightarrow> a = st \<and> b = Mig_Abandoned"
| "status_step _ a b \<longleftrightarrow> False"

definition moved_by :: "int \<Rightarrow> mig_task \<Rightarrow> mig_world \<Rightarrow> mig_world \<Rightarrow> bool" where
  "moved_by i t w w' \<longleftrightarrow> (\<forall>r. get_request i (mw_db w) = Some r \<longrightarrow>
     (\<exists>r'. get_request i (mw_db w') = Some r'
       \<and> (mr_status r' = mr_status r \<or> status_step t (mr_status r) (mr_status r'))
       \<and> (submitted r' \<longrightarrow> submitted r \<or> (\<exists>q sub x. t = Dns_Answered q sub (Inr x)))))"

lemma moved_change:
  assumes "\<And>r. mr_id (f r) = mr_id r"
    and "\<And>r. get_request i (mw_db w) = Some r \<Longrightarrow> mr_status (f r) = mr_status r \<or> status_step t (mr_status r) (mr_status (f r))"
    and "\<And>r. get_request i (mw_db w) = Some r \<Longrightarrow> submitted (f r) \<longrightarrow> submitted r \<or> (\<exists>q sub x. t = Dns_Answered q sub (Inr x))"
  shows "moved_by i t w (w\<lparr>mw_db := change_request i f (mw_db w)\<rparr>)"
  using assms by (simp add: moved_by_def get_change_request)

lemma moved_change_if:
  assumes "\<And>r. mr_id (f r) = mr_id r" "\<And>r. submitted (f r) = submitted r"
    and "\<And>r. P r \<Longrightarrow> status_step t (mr_status r) (mr_status (f r))"
  shows "moved_by i t w (w\<lparr>mw_db := snd (change_request_if i P f (mw_db w))\<rparr>)"
  using assms moved_change [of "\<lambda>r. if P r then f r else r" i w t] by (simp add: change_request_if_def)

lemma moved_same: "get_request i (mw_db w') = get_request i (mw_db w) \<Longrightarrow> moved_by i t w w'"
  by (simp add: moved_by_def)

lemma moved_staged:
  "moved_by i t w w" "moved_by i t w (w\<lparr>mw_accounts := acc\<rparr>)" "moved_by i t w (w\<lparr>mw_accepted := xs\<rparr>)"
  "moved_by i t w (with_db (stage_records i rs) w)" "moved_by i t w (with_db (stage_blobs i cs) w)"
  "moved_by i t w (with_db (mark_record_imported k now) w)" "moved_by i t w (with_db (mark_blob_imported k now) w)"
  by (rule moved_same, simp add: with_db_def get_request_same)+

lemma submitted_update [simp]: "submitted (r\<lparr>mr_staged_plc_operation := a\<rparr>) = submitted r"
  "submitted (r\<lparr>mr_staged_signing_key_pem := b\<rparr>) = submitted r" "submitted (r\<lparr>mr_staged_rotation_key_pem := b\<rparr>) = submitted r"
  by (simp_all add: submitted_def)

lemma moved_statements:
  "(\<And>a. status_step t a st) \<Longrightarrow> moved_by i t w (with_db (set_migration_status i st) w)"
  "(\<And>a. status_step t a st) \<Longrightarrow> moved_by i t w (with_db (set_migration_failed i st e) w)"
  "(\<And>a. status_step t a Importing_Data) \<Longrightarrow> moved_by i t w (with_db (confirm_account_created i a user) w)"
  "(\<And>a. status_step t a Submitting_Plc) \<Longrightarrow> (\<exists>q sub x. t = Dns_Answered q sub (Inr x))
    \<Longrightarrow> moved_by i t w (with_db (mark_plc_submitted i s k now) w)"
  "moved_by i t w (with_db (release_dns_wait i) w)" "moved_by i t w (with_db (set_dns_txt_record_id i c) w)"
  "moved_by i t w (with_db (mark_dns_txt_visible i now) w)"
  "status_step t st st2 \<Longrightarrow> moved_by i t w (with_db (snd \<circ> transition_status i st st2) w)"
  "status_step t st st2 \<Longrightarrow> moved_by i t w (w\<lparr>mw_db := snd (transition_status i st st2 (mw_db w))\<rparr>)"
  "status_step t Awaiting_Plc_Token Awaiting_Dns_Txt \<Longrightarrow> moved_by i t w (w\<lparr>mw_db := snd (stage_plc_operation i op s k (mw_db w))\<rparr>)"
  "moved_by i t w (w\<lparr>mw_db := snd (claim_dns_wait i lease now (mw_db w))\<rparr>)"
  by (simp_all add: statement_defs moved_change claim_dns_wait_def moved_staged split: option.split)
    (rule moved_change_if; simp)+

lemma task_moves:
  assumes run: "task_step C A i t w = (t', w')" and named: "named_request i t"
  shows "moved_by i t w w'"
proof -
  note m = moved_statements moved_staged
  have "moved_by i t w (snd (fetch_step C A i t w))"
    by (cases t) (simp_all add: m split: option.split sum.split)
  moreover have "moved_by i t w (snd (signature_step A i t w))"
    by (cases t) (simp_all add: m split: option.split sum.split)
  moreover have "moved_by i t w (snd (import_step A i t w))"
    by (cases t) (simp_all add: m split: option.split sum.split)
  moreover have "moved_by i t w (snd (deactivate_step i t w))"
    by (cases t) (simp_all add: m split: option.split)
  moreover have "moved_by i t w (snd (token_step C A i t w))"
    by (cases t) (simp_all add: m case_prod_beta split: option.split sum.split)
  moreover have "moved_by i t w (snd (abandon_step C i t w))"
    by (cases t) (simp_all add: m case_prod_beta split: sum.split)
  moreover have "moved_by i t w (snd (dns_step C A i t w))"
  proof (cases t)
    case Dns_Begin
    have "snd (dns_step C A i Dns_Begin w) = w\<lparr>mw_db := snd (claim_dns_wait i LEASE_SECS (an_now A) (mw_db w))\<rparr>
        \<or> snd (dns_step C A i Dns_Begin w) = w"
      by (auto split: prod.split option.split)
    then show ?thesis using m unfolding Dns_Begin by auto
  next
    case (Dns_Step st)
    then have "ds_id st = i" using named by simp
    then show ?thesis by (simp add: Dns_Step m split: option.split sum.split txt_state.split)
  next
    case (Dns_Submit q sub)
    then have "mr_id q = i" using named by simp
    then show ?thesis by (simp add: Dns_Submit m case_prod_beta)
  next
    case (Dns_Call q sub)
    then show ?thesis by (simp add: m)
  next
    case (Dns_Answered q sub a)
    then have "mr_id q = i" using named by simp
    then show ?thesis by (cases a) (simp_all add: Dns_Answered m)
  qed (simp_all add: m case_prod_beta split: option.split sum.split)
  ultimately show ?thesis
    using run by (cases "task_kind t") (auto simp: task_step_def m split: option.splits)
qed

text \<open>The steps of all tasks, for one request.\<close>

lemma step_cases:
  assumes ok: "sys_ok s" and st: "mig_step C s e s'" and h: "honest e" and get: "get_request i (mw_db (fst s)) = Some r"
  obtains "get_request i (mw_db (fst s')) = Some r" "accepted_of i (fst s') = accepted_of i (fst s)"
      "\<And>t. t \<in># tasks_of i (snd s') \<Longrightarrow> t \<in># tasks_of i (snd s) \<or> begins t"
  | t A t' U where "tasks_of i (snd s) = add_mset t U" "tasks_of i (snd s') = add_mset t' U"
      "task_step C A i t (fst s) = (t', fst s')" "e = Ev_Step i t A"
      "request_ok i (view i (fst s)) (add_mset t U)" "moved_by i t (fst s) (fst s')"
  using st
proof (cases rule: mig_step.cases)
  case (ms_start t j T w)
  show thesis
    by (rule that(1)) (use ms_start get in \<open>auto split: if_splits\<close>)
next
  case (ms_task A j t w t' w' T)
  have oks: "sys_ok (w, add_mset (j, t) T)" using ok ms_task by simp
  have j: "request_ok j (view j w) (add_mset t (tasks_of j T))" using sys_okD [OF oks, of j] by simp
  have named: "named_request j t" using j by (rule request_ok_named)
  show thesis
  proof (cases "j = i")
    case True
    then show thesis
      using that(2) [of t "tasks_of i T" t' A] ms_task j task_moves [OF ms_task(4) named] by simp
  next
    case False
    then show thesis
      using that(1) task_untouched [OF ms_task(4) named False] ms_task get by (simp add: untouched_def)
  qed
next
  case (ms_end w j t T)
  show thesis
    by (rule that(1)) (use ms_end get in \<open>auto split: if_splits\<close>)
next
  case (ms_create j q w db' T)
  have "get_request i db' = Some r"
    using ms_create get
    by (auto simp: create_migration_request_def get_request_def find_append split: if_splits)
  then show thesis using that(1) ms_create by (simp add: accepted_of_def)
next
  case (ms_accounts w T acc)
  then show thesis using that(1) get by (simp add: accepted_of_def)
next
  case (ms_follow w T k now)
  then show thesis using that(1) get
    by (simp add: accepted_of_def with_db_def mark_follow_materialized_def get_request_def)
qed

lemma request_ok_at:
  assumes "request_ok i (view i w) (add_mset t U)" "get_request i (mw_db w) = Some r"
  shows "row_ok (accepted_of i w) (import_done i (mw_db w)) r" "task_ok i (accepted_of i w) (import_done i (mw_db w)) r t"
    "\<And>u. u \<in># U \<Longrightarrow> task_ok i (accepted_of i w) (import_done i (mw_db w)) r u"
    "owns_submission t \<Longrightarrow> u \<in># U \<Longrightarrow> \<not> owns_submission u"
  using assms at_most_one_alone [of owns_submission t U u] by (auto simp: view_def request_ok_def)

lemma accepted_same:
  assumes "task_step C A i t w = (t', w')" "\<And>q sub. t \<noteq> Dns_Call q sub"
  shows "mw_accepted w' = mw_accepted w"
proof -
  have d: "mw_accepted (snd (dns_step C A i t w)) = mw_accepted w"
    using assms(2) by (cases "(C, A, i, t, w)" rule: dns_step.cases)
      (simp_all add: with_db_def case_prod_beta split: option.split sum.split txt_state.split)
  have "mw_accepted (snd (fetch_step C A i t w)) = mw_accepted w" "mw_accepted (snd (signature_step A i t w)) = mw_accepted w"
    "mw_accepted (snd (import_step A i t w)) = mw_accepted w" "mw_accepted (snd (deactivate_step i t w)) = mw_accepted w"
    "mw_accepted (snd (token_step C A i t w)) = mw_accepted w" "mw_accepted (snd (abandon_step C i t w)) = mw_accepted w"
    by (cases t, simp_all add: with_db_def case_prod_beta split: option.split sum.split)+
  then show ?thesis
    using assms(1) d by (cases "task_kind t") (auto simp: task_step_def split: option.splits)
qed

section \<open>Runs in which the answer of plc.directory arrives\<close>

fun unanswered :: "mig_task \<Rightarrow> bool" where
  "unanswered (Dns_Call q sub) = True" | "unanswered (Dns_Answered q sub (Inl e)) = True" | "unanswered _ = False"

definition settled :: "int \<Rightarrow> mig_sys \<Rightarrow> bool" where
  "settled i s \<longleftrightarrow> (accepted_of i (fst s) \<noteq> {} \<longrightarrow>
     (\<forall>r. get_request i (mw_db (fst s)) = Some r \<longrightarrow> mr_status r \<in> late) \<and> (\<forall>t \<in># tasks_of i (snd s). \<not> unanswered t))"

lemma owns_from:
  assumes "task_step C A i t w = (t', w')" "owns_submission t'" "named_request i t" "distinct (map mr_id (md_requests (mw_db w)))"
  shows "owns_submission t \<or> (\<exists>q sub r. t = Dns_Submit q sub \<and> get_request i (mw_db w) = Some r \<and> mr_status r = Awaiting_Dns_Txt)"
proof (cases "an_db_error A")
  case (Some e)
  then show ?thesis using assms(1,2) by (cases t) (auto simp: task_step_def api_result_def job_result_def)
next
  case None
  then have k: "task_step C A i t w = (case task_kind t of
        K_Fetch \<Rightarrow> fetch_step C A i t w | K_Signature \<Rightarrow> signature_step A i t w | K_Import \<Rightarrow> import_step A i t w
      | K_Deactivate \<Rightarrow> deactivate_step i t w | K_Token \<Rightarrow> token_step C A i t w | K_Dns \<Rightarrow> dns_step C A i t w
      | K_Abandon \<Rightarrow> abandon_step C i t w | K_Done \<Rightarrow> (t, w))"
    by (simp add: task_step_def)
  show ?thesis
  proof (cases t)
    case (Dns_Submit q sub)
    then have q: "mr_id q = i" using assms(3) by simp
    have "fst (change_request_if i (\<lambda>r. mr_status r = Awaiting_Dns_Txt) (\<lambda>r. r\<lparr>mr_status := Submitting_Plc\<rparr>) (mw_db w))"
      using assms(1,2) k Dns_Submit q by (auto simp: transition_status_def case_prod_beta split: if_splits)
    then show ?thesis unfolding change_request_if_moved [OF assms(4)] using Dns_Submit by auto
  qed (use assms(1,2) k in \<open>auto simp: api_result_def job_result_def request_in_status_def claim_dns_wait_def
       split: option.splits sum.splits if_splits prod.splits txt_state.splits\<close>)
qed

lemma unanswered_from:
  assumes "task_step C A i t w = (t', w')" "unanswered t'" "named_request i t" "distinct (map mr_id (md_requests (mw_db w)))"
  shows "unanswered t \<or> (\<exists>q sub r. t = Dns_Submit q sub \<and> get_request i (mw_db w) = Some r \<and> mr_status r = Awaiting_Dns_Txt)"
proof -
  have "owns_submission t'" using assms(2) by (cases t' rule: unanswered.cases) auto
  moreover have "unanswered t" if own: "owns_submission t"
  proof (rule ccontr)
    assume "\<not> unanswered t"
    then have "\<exists>q sub u. t = Dns_Answered q sub (Inr u)"
      using own by (cases t rule: unanswered.cases) auto
    then show False using assms(1,2) by (auto simp: task_step_def split: option.splits)
  qed
  ultimately show ?thesis using owns_from [OF assms(1) _ assms(3,4)] by blast
qed

lemma stays_late:
  assumes ok: "request_ok i (view i w) (add_mset t U)" and get: "get_request i (mw_db w) = Some r"
    and "mr_status r \<in> late" "status_step t (mr_status r) b" "\<not> unanswered t"
  shows "b \<in> late"
  using assms(3-5) request_ok_at(2) [OF ok get]
  by (cases "(t, mr_status r, b)" rule: status_step.cases) (auto simp: late_def)

lemma accepted_none:
  assumes ok: "sys_ok s" and st: "mig_step C s e s'" and none: "get_request i (mw_db (fst s)) = None"
  shows "accepted_of i (fst s') = {}"
proof -
  have empty: "accepted_of i (fst s) = {}"
    using sys_okD [of "fst s" "snd s" i] ok none by (auto simp: view_def request_ok_def)
  show ?thesis
    using st
  proof (cases rule: mig_step.cases)
    case (ms_task A j t w t' w' T)
    have oks: "sys_ok (w, add_mset (j, t) T)" using ok ms_task by simp
    have j: "request_ok j (view j w) (add_mset t (tasks_of j T))" using sys_okD [OF oks, of j] by simp
    show ?thesis
    proof (cases "j = i")
      case True
      then have "rowless t" using j none ms_task request_ok_rowless by (auto simp: view_def)
      then have "t \<noteq> Dns_Call q sub" for q sub by auto
      then show ?thesis using accepted_same [OF ms_task(4)] empty ms_task by (simp add: accepted_of_def)
    next
      case False
      then show ?thesis
        using task_untouched [OF ms_task(4) request_ok_named [OF j] False] empty ms_task by (simp add: untouched_def)
    qed
  qed (use empty in \<open>auto simp: accepted_of_def with_db_def\<close>)
qed

lemma settled_step:
  assumes ok: "sys_ok s" and set: "settled i s" and st: "mig_step C s e s'" and a: "answered e"
  shows "settled i s'"
proof (cases "get_request i (mw_db (fst s))")
  case None
  have "accepted_of i (fst s') = {}" using ok st None by (rule accepted_none)
  then show ?thesis by (simp add: settled_def)
next
  case (Some r)
  show ?thesis
    using ok st answered_honest [OF a] Some
  proof (cases rule: step_cases)
    case 1
    have "\<not> unanswered t" if "begins t" for t using that by (cases t) auto
    then show ?thesis using 1 set Some unfolding settled_def by fastforce
  next
    case (2 t A t' U)
    note at = request_ok_at [OF 2(5) Some]
    have named: "named_request i t" using 2(5) by (rule request_ok_named)
    have dist: "distinct (map mr_id (md_requests (mw_db (fst s))))" using ok by (simp add: sys_ok_def)
    obtain r' where r': "get_request i (mw_db (fst s')) = Some r'"
      "mr_status r' = mr_status r \<or> status_step t (mr_status r) (mr_status r')"
      using 2(6) Some by (auto simp: moved_by_def)
    show ?thesis
    proof (cases "\<exists>q sub. t = Dns_Call q sub")
      case True
      then obtain q sub where t: "t = Dns_Call q sub" by blast
      have none: "accepted_of i (fst s) = {}" using set 2(1) t by (auto simp: settled_def)
      have late: "mr_status r \<in> late" using at(2) t by (simp add: late_def)
      have "\<not> unanswered u" if "u \<in># U" for u
        using at(4) [OF _ that] t by (cases u rule: unanswered.cases) auto
      moreover have "t' = t \<and> fst s' = fst s \<or> t' = Dns_Answered q sub (an_plc A)
          \<and> (an_plc_accepts A \<or> mw_accepted (fst s') = mw_accepted (fst s))"
        using 2(3) t by (auto simp: task_step_def split: option.splits)
      moreover have "an_plc_accepts A \<longleftrightarrow> (\<exists>u. an_plc A = Inr u)" using a 2(4) by simp
      ultimately show ?thesis
        using none late r' t 2(2) by (auto simp: settled_def accepted_of_def)
    next
      case False
      then have same: "accepted_of i (fst s') = accepted_of i (fst s)"
        using accepted_same [OF 2(3)] by (simp add: accepted_of_def)
      show ?thesis
      proof (cases "accepted_of i (fst s) = {}")
        case True
        then show ?thesis by (simp add: settled_def same)
      next
        case some: False
        then have late: "mr_status r \<in> late" and un: "\<not> unanswered t" "\<And>u. u \<in># U \<Longrightarrow> \<not> unanswered u"
          using set Some 2(1) by (auto simp: settled_def)
        have "mr_status r' \<in> late"
          using r'(2) stays_late [OF 2(5) Some late _ un(1)] late by auto
        moreover have "\<not> unanswered t'"
          using unanswered_from [OF 2(3) _ named dist] un(1) Some late by (auto simp: late_def)
        ultimately show ?thesis using un(2) r'(1) 2(2) by (auto simp: settled_def)
      qed
    qed
  qed
qed

lemma settled_reach:
  assumes "mig_reach C answered (w0, {#}) s" "no_migrations w0"
  shows "sys_ok s \<and> settled i s"
  using assms
proof (induction "(w0, {#} :: (int \<times> mig_task) multiset)" s rule: mig_reach.induct)
  case mr_refl
  then show ?case using sys_ok_none by (simp add: settled_def accepted_of_def no_migrations_def)
next
  case (mr_step s' e s'')
  then show ?case using settled_step sys_ok_step answered_honest by blast
qed

section \<open>An advance ends\<close>

text \<open>The steps that are left, and the number of steps until the call of plc.directory, which runs no statement.\<close>

fun dns_rank :: "mig_task \<Rightarrow> nat" where
  "dns_rank Dns_Begin = 8" | "dns_rank (Dns_Step st) = 7" | "dns_rank (Dns_Submit q sub) = 6" | "dns_rank (Dns_Call q sub) = 5"
| "dns_rank (Dns_Answered q sub a) = 4" | "dns_rank (Dns_Account q sub) = 3" | "dns_rank (Dns_Confirm user actor) = 2"
| "dns_rank (Dns_Release p js) = 1" | "dns_rank (Task_Done x) = 0" | "dns_rank t = 9"

fun calls_in :: "mig_task \<Rightarrow> nat option" where
  "calls_in Dns_Begin = Some 3" | "calls_in (Dns_Step st) = Some 2" | "calls_in (Dns_Submit q sub) = Some 1"
| "calls_in (Dns_Call q sub) = Some 0" | "calls_in t = None"

lemma dns_rank_step:
  assumes "task_step C A i t w = (t', w')" "0 < dns_rank t" "dns_rank t \<le> 8" "calls_in t = Some 0 \<longrightarrow> an_db_error A = None"
  shows "dns_rank t' < dns_rank t \<and> (\<forall>k. calls_in t' = Some k \<longrightarrow> calls_in t = Some (Suc k))"
proof (cases "an_db_error A")
  case (Some e)
  then show ?thesis using assms by (cases t) (auto simp: task_step_def)
next
  case None
  show ?thesis
  proof (cases t)
    case (Dns_Answered q sub a)
    then show ?thesis using assms None by (cases a) (auto simp: task_step_def)
  qed (use assms None in \<open>auto simp: task_step_def split: option.splits sum.splits if_splits prod.splits txt_state.splits\<close>)
qed

lemma run_task_ends:
  assumes "dns_rank t \<le> n" "n \<le> 8" "\<forall>k. calls_in t = Some k \<longrightarrow> an_db_error (As k) = None"
  shows "\<exists>x. fst (run_task n C As i t w) = Task_Done x"
  using assms
proof (induction n arbitrary: t w As)
  case 0
  then show ?case by (cases t) auto
next
  case (Suc n)
  show ?case
  proof (cases "dns_rank t = 0")
    case True
    then obtain x where "t = Task_Done x" by (cases t) auto
    then show ?thesis by simp
  next
    case False
    obtain t' w' where s: "task_step C (As 0) i t w = (t', w')" by fastforce
    have d: "dns_rank t' < dns_rank t" "\<And>k. calls_in t' = Some k \<Longrightarrow> calls_in t = Some (Suc k)"
      using dns_rank_step [OF s] False Suc.prems by auto
    have "\<exists>x. fst (run_task n C (As \<circ> Suc) i t' w') = Task_Done x"
      by (rule Suc.IH) (use d Suc.prems in auto)
    then show ?thesis using False s by (cases t) auto
  qed
qed

lemma advance_migration_ends:
  assumes "an_db_error (As 3) = None"
  shows "\<exists>x. fst (advance_migration C As i w) = Task_Done x"
  unfolding advance_migration_def by (rule run_task_ends) (use assms in simp_all)

section \<open>A submission that was interrupted\<close>

definition stuck :: "int \<Rightarrow> mig_sys \<Rightarrow> bool" where
  "stuck i s \<longleftrightarrow> (\<exists>r. get_request i (mw_db (fst s)) = Some r \<and> mr_status r = Submitting_Plc \<and> \<not> submitted r)
     \<and> (\<forall>t \<in># tasks_of i (snd s). \<not> owns_submission t)"

lemma stuck_status:
  assumes ok: "request_ok i (view i w) (add_mset t U)" and get: "get_request i (mw_db w) = Some r"
    and "mr_status r = Submitting_Plc" "\<not> submitted r" "\<not> owns_submission t"
  shows "\<not> status_step t (mr_status r) b"
  using assms(3-5) request_ok_at(2) [OF ok get]
  by (cases "(t, mr_status r, b)" rule: status_step.cases) (auto simp: late_def)

lemma stuck_step:
  assumes ok: "sys_ok s" and stuck: "stuck i s" and st: "mig_step C s e s'" and h: "honest e"
  shows "stuck i s'"
proof -
  obtain r where r: "get_request i (mw_db (fst s)) = Some r" "mr_status r = Submitting_Plc" "\<not> submitted r"
    and none: "\<And>t. t \<in># tasks_of i (snd s) \<Longrightarrow> \<not> owns_submission t"
    using stuck by (auto simp: stuck_def)
  show ?thesis
    using ok st h r(1)
  proof (cases rule: step_cases)
    case 1
    have "\<not> owns_submission t" if "begins t" for t using that by (cases t) auto
    then show ?thesis using 1(1,3) r none unfolding stuck_def by blast
  next
    case (2 t A t' U)
    have t: "\<not> owns_submission t" and U: "\<And>u. u \<in># U \<Longrightarrow> \<not> owns_submission u" using none 2(1) by auto
    have dist: "distinct (map mr_id (md_requests (mw_db (fst s))))" using ok by (simp add: sys_ok_def)
    obtain r' where r': "get_request i (mw_db (fst s')) = Some r'"
      "mr_status r' = mr_status r \<or> status_step t (mr_status r) (mr_status r')"
      "submitted r' \<longrightarrow> submitted r \<or> (\<exists>q sub x. t = Dns_Answered q sub (Inr x))"
      using 2(6) r(1) by (auto simp: moved_by_def)
    have "mr_status r' = Submitting_Plc" using r'(2) stuck_status [OF 2(5) r t] r(2) by auto
    moreover have "\<not> submitted r'" using r'(3) r(3) t by auto
    moreover have "\<not> owns_submission t'"
      using owns_from [OF 2(3) _ request_ok_named [OF 2(5)] dist] t r by auto
    ultimately show ?thesis using r'(1) U 2(2) by (simp add: stuck_def)
  qed
qed

lemma stuck_reach:
  assumes "mig_reach C honest s s'" "sys_ok s" "stuck i s"
  shows "sys_ok s' \<and> stuck i s'"
  using assms by (induction rule: mig_reach.induct) (blast intro: sys_ok_step stuck_step)+

section \<open>A request whose code was asked for\<close>

text \<open>No job that fetches the repository or asks for the code works on the request any more.\<close>

fun asks_source :: "mig_task \<Rightarrow> bool" where
  "asks_source (Fetch_Repo q) = True" | "asks_source (Fetch_Blobs q) = True" | "asks_source Fetch_Done = True"
| "asks_source (Sig_Request q) = True" | "asks_source _ = False"

definition code_asked :: "int \<Rightarrow> mig_sys \<Rightarrow> bool" where
  "code_asked i s \<longleftrightarrow> (\<exists>r. get_request i (mw_db (fst s)) = Some r \<and> mr_status r \<notin> {Fetching_Repo, Requesting_Plc_Signature})
     \<and> (\<forall>t \<in># tasks_of i (snd s). \<not> asks_source t)"

lemma asks_from:
  assumes "task_step C A i t w = (t', w')" "asks_source t'"
  shows "asks_source t \<or> (\<exists>r. get_request i (mw_db w) = Some r \<and> mr_status r \<in> {Fetching_Repo, Requesting_Plc_Signature})"
proof (cases "an_db_error A")
  case (Some e)
  then show ?thesis using assms by (cases t) (auto simp: task_step_def api_result_def job_result_def)
next
  case None
  then have k: "task_step C A i t w = (case task_kind t of
        K_Fetch \<Rightarrow> fetch_step C A i t w | K_Signature \<Rightarrow> signature_step A i t w | K_Import \<Rightarrow> import_step A i t w
      | K_Deactivate \<Rightarrow> deactivate_step i t w | K_Token \<Rightarrow> token_step C A i t w | K_Dns \<Rightarrow> dns_step C A i t w
      | K_Abandon \<Rightarrow> abandon_step C i t w | K_Done \<Rightarrow> (t, w))"
    by (simp add: task_step_def)
  show ?thesis
  proof (cases t)
    case (Dns_Answered q sub a)
    then show ?thesis using assms k by (cases a) auto
  qed (use assms k in \<open>auto simp: api_result_def job_result_def request_in_status_def claim_dns_wait_def
       split: option.splits sum.splits if_splits prod.splits txt_state.splits\<close>)
qed

lemma asks_status: "status_step t a b \<Longrightarrow> b \<in> {Fetching_Repo, Requesting_Plc_Signature} \<Longrightarrow> asks_source t"
  by (cases "(t, a, b)" rule: status_step.cases) auto

lemma code_asked_step:
  assumes ok: "sys_ok s" and asked: "code_asked i s" and st: "mig_step C s e s'" and h: "honest e"
  shows "code_asked i s'"
proof -
  obtain r where r: "get_request i (mw_db (fst s)) = Some r" "mr_status r \<notin> {Fetching_Repo, Requesting_Plc_Signature}"
    and none: "\<And>t. t \<in># tasks_of i (snd s) \<Longrightarrow> \<not> asks_source t"
    using asked by (auto simp: code_asked_def)
  show ?thesis
    using ok st h r(1)
  proof (cases rule: step_cases)
    case 1
    have "\<not> asks_source t" if "begins t" for t using that by (cases t) auto
    then show ?thesis using 1(1,3) r none unfolding code_asked_def by blast
  next
    case (2 t A t' U)
    have t: "\<not> asks_source t" and U: "\<And>u. u \<in># U \<Longrightarrow> \<not> asks_source u" using none 2(1) by auto
    obtain r' where r': "get_request i (mw_db (fst s')) = Some r'"
      "mr_status r' = mr_status r \<or> status_step t (mr_status r) (mr_status r')"
      using 2(6) r(1) by (auto simp: moved_by_def)
    have "mr_status r' \<notin> {Fetching_Repo, Requesting_Plc_Signature}" using r'(2) asks_status t r(2) by fastforce
    moreover have "\<not> asks_source t'" using asks_from [OF 2(3)] t r by auto
    ultimately show ?thesis using r'(1) U 2(2) unfolding code_asked_def by auto
  qed
qed

lemma code_asked_reach:
  assumes "mig_reach C honest s s'" "sys_ok s" "code_asked i s"
  shows "sys_ok s' \<and> code_asked i s'"
  using assms by (induction rule: mig_reach.induct) (blast intro: sys_ok_step code_asked_step)+

text \<open>In \<open>Awaiting_Plc_Token\<close> the jobs before it are over.\<close>

lemma awaiting_code_asked:
  assumes "sys_ok (w, T)" "get_request i (mw_db w) = Some r" "mr_status r = Awaiting_Plc_Token"
  shows "code_asked i (w, T)"
proof -
  have "\<And>t. t \<in># tasks_of i T \<Longrightarrow> task_ok i (accepted_of i w) (import_done i (mw_db w)) r t"
    using sys_okD [OF assms(1), of i] assms(2) by (auto simp: view_def request_ok_def)
  moreover have "\<not> asks_source t" if "task_ok i acc d r t" for t acc d
    using that assms(3) by (cases t) auto
  ultimately show ?thesis using assms(2,3) by (auto simp: code_asked_def)
qed

end
