(* ===== verification/Migration_Runs.thy ===== *)
theory Migration_Runs
  imports Migration_Facts
begin

text \<open>
  Runs that the handlers do not foresee, on concrete requests: a schedule starts tasks, lets one of them take
  its next step with given answers, or stops it; every schedule is a run of \<open>mig_step\<close>.
\<close>

section \<open>Schedules\<close>

datatype schedule_item = Begin_Task int mig_task | Go nat mig_answers | Stop_Task nat | New_Request int new_migration_request

fun do_item :: "mig_config \<Rightarrow> schedule_item \<Rightarrow> mig_world \<times> (int \<times> mig_task) list \<Rightarrow> (mig_world \<times> (int \<times> mig_task) list) option" where
  "do_item C (Begin_Task i t) (w, ts) =
     (if begins t \<and> (locks_request t \<longrightarrow> list_all (\<lambda>(j, u). j = i \<longrightarrow> \<not> locks_request u) ts)
      then Some (w, (i, t) # ts) else None)"
| "do_item C (Go k A) (w, ts) =
     (if k < length ts then (case ts ! k of (i, t) \<Rightarrow> case task_step C A i t w of (t', w') \<Rightarrow> Some (w', (i, t') # take k ts @ drop (Suc k) ts))
      else None)"
| "do_item C (Stop_Task k) (w, ts) = (if k < length ts then Some (w, take k ts @ drop (Suc k) ts) else None)"
| "do_item C (New_Request i q) (w, ts) =
     (case create_migration_request i q (mw_db w) of None \<Rightarrow> None | Some db' \<Rightarrow> Some (w\<lparr>mw_db := db'\<rparr>, ts))"

fun run_schedule :: "mig_config \<Rightarrow> schedule_item list \<Rightarrow> mig_world \<times> (int \<times> mig_task) list \<Rightarrow> (mig_world \<times> (int \<times> mig_task) list) option" where
  "run_schedule C [] s = Some s"
| "run_schedule C (x # xs) s = Option.bind (do_item C x s) (run_schedule C xs)"

fun item_answers :: "(mig_answers \<Rightarrow> bool) \<Rightarrow> schedule_item \<Rightarrow> bool" where
  "item_answers P (Go k A) \<longleftrightarrow> P A" | "item_answers P x \<longleftrightarrow> True"

lemma mset_nth: "k < length ts \<Longrightarrow> mset ts = add_mset (ts ! k) (mset (take k ts @ drop (Suc k) ts))"
  by (metis id_take_nth_drop mset.simps(2) mset_append union_mset_add_mset_right)

lemma do_item_step:
  assumes "do_item C x (w, ts) = Some (w', ts')"
    and "item_answers Q x" "\<And>i t A. Q A \<Longrightarrow> P (Ev_Step i t A)" "\<And>e. \<forall>i t A. e \<noteq> Ev_Step i t A \<Longrightarrow> P e"
  shows "\<exists>e. mig_step C (w, mset ts) e (w', mset ts') \<and> P e"
proof (cases x)
  case (Begin_Task i t)
  then have "mig_step C (w, mset ts) (Ev_Start i t) (w', mset ts')"
    using assms(1) by (auto simp: list_all_iff intro!: ms_start split: if_splits) blast
  then show ?thesis using assms(4) by blast
next
  case (Go k A)
  then have k: "k < length ts" using assms(1) by (simp split: if_splits)
  obtain i t where t: "ts ! k = (i, t)" by fastforce
  have "mig_step C (w, add_mset (i, t) (mset (take k ts @ drop (Suc k) ts))) (Ev_Step i t A) (w', mset ts')"
    using assms(1) Go k t by (auto simp: ms_task split: prod.splits)
  then show ?thesis using mset_nth [OF k] t Go assms(2,3) by auto
next
  case (Stop_Task k)
  then have k: "k < length ts" "ts' = take k ts @ drop (Suc k) ts" "w' = w"
    using assms(1) by (auto split: if_splits)
  obtain i t where t: "ts ! k = (i, t)" by fastforce
  have "mig_step C (w, mset ts) (Ev_End i t) (w', mset ts')"
    using mset_nth [OF k(1)] t k(2,3) ms_end by simp
  then show ?thesis using assms(4) by blast
next
  case (New_Request i q)
  then have "mig_step C (w, mset ts) (Ev_Create i q) (w', mset ts')"
    using assms(1) by (auto intro: ms_create split: option.splits)
  then show ?thesis using assms(4) by blast
qed

lemma run_schedule_reach:
  assumes "run_schedule C xs (w, ts) = Some (w', ts')" "list_all (item_answers Q) xs"
    and "\<And>i t A. Q A \<Longrightarrow> P (Ev_Step i t A)" "\<And>e. \<forall>i t A. e \<noteq> Ev_Step i t A \<Longrightarrow> P e"
  shows "mig_reach C P (w, mset ts) (w', mset ts')"
  using assms(1,2)
proof (induction xs arbitrary: w ts)
  case Nil
  then show ?case by (simp add: mr_refl)
next
  case (Cons x xs)
  then obtain w1 ts1 where 1: "do_item C x (w, ts) = Some (w1, ts1)" "run_schedule C xs (w1, ts1) = Some (w', ts')"
    by (cases "do_item C x (w, ts)") auto
  obtain e where "mig_step C (w, mset ts) e (w1, mset ts1)" "P e"
    using do_item_step [OF 1(1), of Q P] Cons.prems(2) assms(3,4) by auto
  then have "mig_reach C P (w, mset ts) (w1, mset ts1)" using mr_refl mr_step by metis
  then show ?case using mig_reach_trans Cons.IH [OF 1(2)] Cons.prems(2) by fastforce
qed

lemma schedule_honest:
  assumes "run_schedule C xs (w, []) = Some (w', ts')" "list_all (item_answers plc_honest) xs"
  shows "mig_reach C honest (w, {#}) (w', mset ts')"
proof -
  have "honest e" if "\<forall>i t A. e \<noteq> Ev_Step i t A" for e using that by (cases e) auto
  then show ?thesis using run_schedule_reach [OF assms(1,2), of honest] by simp
qed

lemma schedule_answered:
  assumes "run_schedule C xs (w, []) = Some (w', ts')"
    and "list_all (item_answers (\<lambda>A. an_plc_accepts A = (case an_plc A of Inr u \<Rightarrow> True | Inl e \<Rightarrow> False))) xs"
  shows "mig_reach C answered (w, {#}) (w', mset ts')"
proof -
  have "answered e" if "\<forall>i t A. e \<noteq> Ev_Step i t A" for e using that by (cases e) auto
  then show ?thesis
    by (intro run_schedule_reach [OF assms(1,2), of answered, simplified mset.simps]) (auto split: sum.splits)
qed

section \<open>A request\<close>

definition demo_mig_libs :: atp_libs where
  "demo_mig_libs = table_libs [car_header demo_root, IMap [(''data'', ILink demo_root), (''e'', IList [])]]"

definition demo_mig_config :: mig_config where
  "demo_mig_config = \<lparr>mc_libs = demo_mig_libs, mc_local_domain = ''seiran.example'', mc_token_hash = (\<lambda>t. t)\<rparr>"

definition demo_mig_request :: new_migration_request where
  "demo_mig_request = \<lparr>nm_token_hash = ''token'', nm_source_handle = ''alice.bsky.example'',
     nm_source_pds_endpoint = ''https://bsky.example'', nm_source_did = ''did:plc:alice'', nm_source_access_jwt = ''a'',
     nm_source_refresh_jwt = ''r'', nm_new_username = ''alice'', nm_password_hash = ''h'',
     nm_email = Some ''alice@mail.example'', nm_agreed_tos_text = None\<rparr>"

definition demo_mig_answers :: mig_answers where
  "demo_mig_answers = \<lparr>an_now = 0, an_db_error = None, an_endpoint = Inr (), an_repo = Inr [1, 0, 6, 113, 3, 1, 2, 3, 1],
     an_blobs = Inr [], an_request_signature = Inr (), an_registration_open = Inr (), an_new_keys = Inr (''signing'', ''rotation''),
     an_sign = Inr JNull, an_import_record = Inr (), an_import_blob = Inr (), an_cloudflare = False, an_txt_made = Inr '''',
     an_txt_published = Inr True, an_plc = Inr (), an_plc_accepts = True, an_new_id = 7\<rparr>"

definition demo_mig_world :: mig_world where
  "demo_mig_world = \<lparr>mw_db = \<lparr>md_requests = [], md_records = [], md_blobs = [], md_record_seq = 1, md_blob_seq = 1\<rparr>,
     mw_accounts = \<lparr>ad_users = [], ad_user_seq = 1, ad_actors = [], ad_agreements = []\<rparr>, mw_accepted = []\<rparr>"

lemma demo_mig_world_none: "no_migrations demo_mig_world"
  by (simp add: no_migrations_def demo_mig_world_def)

text \<open>A task from its start through \<open>n\<close> steps.\<close>

definition demo_task :: "nat \<Rightarrow> mig_task \<Rightarrow> schedule_item list" where
  "demo_task n t = Begin_Task 1 t # replicate n (Go 0 demo_mig_answers)"

lemma demo_repo: "decode_repo_records demo_mig_libs [1, 0, 6, 113, 3, 1, 2, 3, 1] = Inr []"
proof -
  let ?car = "[1, 0, 6, 113, 3, 1, 2, 3, 1] :: bytes"
  have enc: "encode_car demo_mig_libs demo_root [(demo_root, [1])] = Inr ?car"
    by (simp add: encode_car_def encode_block_def demo_mig_libs_def table_to_vec_def encode_uvarint.simps
        demo_root_def demo_libs_def cid_new_v1_def)
  have block: "block_ok demo_mig_libs (demo_root, [1])"
    using demo_cid_read [of "[1, 2, 3]" 0x71]
    by (simp add: block_ok_def cid_bytes_law_def demo_mig_libs_def demo_root_def block_entry_def
        MAX_BLOCK_SIZE_def demo_libs_def cid_new_v1_def)
  have car: "decode_car demo_mig_libs ?car = Inr \<lparr>roots = [demo_root], car_blocks = [(demo_root, [1])]\<rparr>"
    using decode_encoded_car [OF enc] block
      table_codec [of "[car_header demo_root, IMap [(''data'', ILink demo_root), (''e'', IList [])]]" "car_header demo_root"]
    by (simp add: demo_mig_libs_def MAX_CAR_SIZE_def MAX_HEADER_SIZE_def)
  have node: "dagcbor_from_slice demo_mig_libs [1] = Inr (IMap [(''data'', ILink demo_root), (''e'', IList [])])"
    by (simp add: demo_mig_libs_def table_from_slice_def)
  have "walk_mst demo_mig_libs (blocks_to_map [(demo_root, [1])]) demo_root = Inr []"
    by (simp add: walk_mst_def walk_node.simps blocks_to_map_def node ipld_map_def optional_link_def MAX_MST_DEPTH_def)
  then show ?thesis
    by (simp add: decode_repo_records_def car node ipld_map_def blocks_to_map_def)
qed

definition demo_fetched :: mig_world where
  "demo_fetched = demo_mig_world\<lparr>mw_db := (mw_db demo_mig_world)\<lparr>md_requests :=
     [(new_request_row 1 demo_mig_request)\<lparr>mr_status := Requesting_Plc_Signature\<rparr>]\<rparr>\<rparr>"

lemma demo_fetch:
  "run_schedule demo_mig_config (New_Request 1 demo_mig_request # demo_task 4 Fetch_Begin) (demo_mig_world, [])
     = Some (demo_fetched, [(1, Task_Done (Job_Ok [MigrationRequestPlcSignature 1]))])"
proof -
  have four: "replicate 4 x = [x, x, x, x]" for x :: schedule_item by (simp add: eval_nat_numeral)
  show ?thesis
    by (simp add: demo_task_def four demo_mig_config_def demo_mig_world_def demo_fetched_def create_migration_request_def
        task_step_def demo_mig_answers_def request_in_status_def get_request_def new_request_row_def locks_request_def
        demo_repo with_db_def stage_records_def stage_blobs_def set_migration_status_def change_request_def)
qed

definition demo_test :: "schedule_item list \<Rightarrow> (mig_request \<Rightarrow> bool) \<Rightarrow> (mig_world \<times> (int \<times> mig_task) list \<Rightarrow> bool) \<Rightarrow> bool" where
  "demo_test xs P Q \<longleftrightarrow> (case run_schedule demo_mig_config xs (demo_fetched, []) of None \<Rightarrow> False
     | Some s \<Rightarrow> (case get_request 1 (mw_db (fst s)) of None \<Rightarrow> False | Some r \<Rightarrow> P r \<and> Q s))"

lemma demo_testE:
  assumes "demo_test xs P Q" "list_all (item_answers plc_honest) xs"
  obtains w ts r where "mig_reach demo_mig_config honest (demo_mig_world, {#}) (w, mset ts)"
    "get_request 1 (mw_db w) = Some r" "P r" "Q (w, ts)"
    "list_all (item_answers (\<lambda>A. an_plc_accepts A = (case an_plc A of Inr u \<Rightarrow> True | Inl e \<Rightarrow> False))) xs
      \<Longrightarrow> mig_reach demo_mig_config answered (demo_mig_world, {#}) (w, mset ts)"
proof -
  let ?xs = "(New_Request 1 demo_mig_request # demo_task 4 Fetch_Begin) @ Stop_Task 0 # xs"
  obtain w ts r where s: "run_schedule demo_mig_config xs (demo_fetched, []) = Some (w, ts)"
    "get_request 1 (mw_db w) = Some r" "P r" "Q (w, ts)"
    using assms(1) by (auto simp: demo_test_def split: option.splits)
  have app: "run_schedule C (ys @ zs) s0 = Option.bind (run_schedule C ys s0) (run_schedule C zs)" for C ys zs s0
    by (induction ys arbitrary: s0) (auto split: option.splits bind_splits)
  have run: "run_schedule demo_mig_config ?xs (demo_mig_world, []) = Some (w, ts)"
    unfolding app demo_fetch using s(1) by simp
  have ans: "list_all (item_answers P) ?xs" if "list_all (item_answers P) xs" "P demo_mig_answers" for P
    using that by (simp add: demo_task_def list_all_iff)
  have "plc_honest demo_mig_answers" by code_simp
  then have "mig_reach demo_mig_config honest (demo_mig_world, {#}) (w, mset ts)"
    using schedule_honest [OF run ans] assms(2) by simp
  moreover have "mig_reach demo_mig_config answered (demo_mig_world, {#}) (w, mset ts)"
    if "list_all (item_answers (\<lambda>A. an_plc_accepts A = (case an_plc A of Inr u \<Rightarrow> True | Inl e \<Rightarrow> False))) xs"
    using schedule_answered [OF run ans [OF that]] by (simp add: demo_mig_answers_def)
  ultimately show thesis using that s by blast
qed

section \<open>A migration that succeeds\<close>

definition demo_to_dns :: "schedule_item list" where
  "demo_to_dns = demo_task 2 Sig_Begin @ demo_task 2 (Token_Begin (Some ''token''))"

definition demo_complete :: "schedule_item list" where
  "demo_complete = demo_to_dns @ demo_task 8 Dns_Begin @ demo_task 3 Import_Begin @ demo_task 2 Deact_Begin"

fun status_is :: "at_migration_status \<Rightarrow> mig_request \<Rightarrow> bool" where
  "status_is st r \<longleftrightarrow> mr_status r = st"

definition some_accepted :: "mig_world \<times> (int \<times> mig_task) list \<Rightarrow> bool" where
  "some_accepted s \<longleftrightarrow> (case mw_accepted (fst s) of p # _ \<Rightarrow> fst p = 1 | [] \<Rightarrow> False)"

lemma some_acceptedE:
  assumes "some_accepted (w, ts)"
  obtains s where "(1, s) \<in> set (mw_accepted w)"
proof (cases "mw_accepted w")
  case (Cons p ps)
  then show thesis using assms that [of "snd p"] by (cases p) (simp add: some_accepted_def)
qed (use assms in \<open>simp add: some_accepted_def\<close>)

lemma demo_completes: "demo_test demo_complete (status_is Mig_Completed) some_accepted"
  by code_simp

lemma demo_complete_answers: "list_all (item_answers plc_honest) demo_complete"
  "list_all (item_answers (\<lambda>A. an_plc_accepts A = (case an_plc A of Inr u \<Rightarrow> True | Inl e \<Rightarrow> False))) demo_complete"
  by (code_simp)+

end
