(* ===== verification/Migration_Results.thy ===== *)
theory Migration_Results
  imports Migration_Runs
begin

text \<open>
  The properties of a migration, over every interleaving of its jobs, handlers and advances, and the runs
  that show where the code does not do what its comments say.
\<close>

section \<open>What holds in every run\<close>

text \<open>
  C5. The keys of a submitted operation are never lost: in every state that any interleaving of jobs, handlers
  and advances, lost answers, failing statements and stopped processes can reach, an operation that
  plc.directory has accepted belongs to a request that still holds that operation and both private keys it
  was made with; and once the request is marked as submitted, its keys are those of an accepted operation.
\<close>

theorem migration_keys_kept:
  assumes "no_migrations w0" "mig_reach C honest (w0, {#}) (w, T)" "(i, s) \<in> set (mw_accepted w)"
  shows "\<exists>r. get_request i (mw_db w) = Some r \<and> mr_staged_plc_operation r = Some (ps_operation s)
    \<and> mr_staged_signing_key_pem r = Some (ps_signing_key_pem s) \<and> mr_staged_rotation_key_pem r = Some (ps_rotation_key_pem s)
    \<and> (mr_plc_submitted_at r \<noteq> None \<longrightarrow> mr_new_signing_key_pem r = Some (ps_signing_key_pem s)
         \<and> mr_new_rotation_key_pem r = Some (ps_rotation_key_pem s))"
proof -
  have ok: "sys_ok (w, T)" using sys_ok_reach [OF assms(2) sys_ok_none [OF assms(1)]] by simp
  have req: "request_ok i (view i w) (tasks_of i T)" using ok by (rule sys_okD)
  have acc: "s \<in> accepted_of i w" using assms(3) by (simp add: accepted_of_def)
  obtain r where r: "get_request i (mw_db w) = Some r" "row_ok (accepted_of i w) (import_done i (mw_db w)) r"
    using req acc by (cases "get_request i (mw_db w)") (auto simp: view_def request_ok_def)
  have sub: "row_sub r = Some u" if "u \<in> accepted_of i w" for u
    using r(2) that by (auto simp: row_ok_def)
  have one: "u = s" if "u \<in> accepted_of i w" for u using sub [OF that] sub [OF acc] by simp
  have "mr_staged_plc_operation r = Some (ps_operation s)" "mr_staged_signing_key_pem r = Some (ps_signing_key_pem s)"
    "mr_staged_rotation_key_pem r = Some (ps_rotation_key_pem s)"
    using sub [OF acc] by (auto simp: row_sub_def staged_submission_def dns_stage_def split: option.splits)
  moreover have "keys_from {s} r" if "mr_plc_submitted_at r \<noteq> None"
  proof -
    have "keys_from (accepted_of i w) r" using r(2) that by (simp add: row_ok_def submitted_def)
    then show ?thesis using one by (auto simp: keys_from_def)
  qed
  ultimately show ?thesis using r(1) by (auto simp: keys_from_def)
qed

theorem migration_keys_kept_witness:
  "\<exists>(w :: mig_world) s r. (1, s) \<in> set (mw_accepted w) \<and> get_request 1 (mw_db w) = Some r \<and> mr_status r = Mig_Completed
     \<and> mr_staged_signing_key_pem r = Some (ps_signing_key_pem s)"
proof -
  obtain w ts r where run: "mig_reach demo_mig_config honest (demo_mig_world, {#}) (w, mset ts)"
    and r: "get_request 1 (mw_db w) = Some r" "status_is Mig_Completed r" and acc: "some_accepted (w, ts)"
    using demo_testE [OF demo_completes demo_complete_answers(1)] by metis
  obtain s where s: "(1, s) \<in> set (mw_accepted w)" using acc by (rule some_acceptedE)
  then have "mr_staged_signing_key_pem r = Some (ps_signing_key_pem s)"
    using migration_keys_kept [OF demo_mig_world_none run s] r(1) by auto
  moreover have "mr_status r = Mig_Completed" using r(2) by simp
  ultimately show ?thesis using s r(1) by blast
qed

text \<open>
  C6. A status tells the truth: a request that is importing, deactivating or completed has an operation that
  plc.directory has accepted, an account, and keys; when it deactivates the source or is completed, every
  record and every blob that was fetched for it has been imported.
\<close>

theorem migration_status_truthful:
  assumes "no_migrations w0" "mig_reach C honest (w0, {#}) (w, T)" "get_request i (mw_db w) = Some r"
    and "mr_status r \<in> {Importing_Data, Deactivating_Source, Mig_Completed}"
  shows "(\<exists>s. (i, s) \<in> set (mw_accepted w)) \<and> mr_actor_id r \<noteq> None \<and> mr_user_id r \<noteq> None
    \<and> (mr_status r \<noteq> Importing_Data \<longrightarrow> fst (import_progress i (mw_db w)) = snd (import_progress i (mw_db w)))"
proof -
  have ok: "sys_ok (w, T)" using sys_ok_reach [OF assms(2) sys_ok_none [OF assms(1)]] by simp
  have row: "row_ok (accepted_of i w) (import_done i (mw_db w)) r"
    using sys_okD [OF ok, of i] assms(3) by (auto simp: view_def request_ok_def)
  have "submitted r" "confirmed r" and d: "mr_status r \<noteq> Importing_Data \<longrightarrow> import_done i (mw_db w)"
    using row assms(4) by (auto simp: row_ok_def)
  moreover have "accepted_of i w \<noteq> {}" using row \<open>submitted r\<close> by (auto simp: row_ok_def keys_from_def)
  moreover have "fst (import_progress i db) = snd (import_progress i db)" if "import_done i db" for db
  proof -
    have "filter (\<lambda>r. rc_request_id r = i \<and> rc_imported_at r \<noteq> None) (md_records db) = filter (\<lambda>r. rc_request_id r = i) (md_records db)"
      "filter (\<lambda>b. bl_request_id b = i \<and> bl_imported_at b \<noteq> None) (md_blobs db) = filter (\<lambda>b. bl_request_id b = i) (md_blobs db)"
      using that by (auto simp: import_done_def record_pending_def blob_pending_def intro!: filter_cong)
    then show ?thesis by (simp add: import_progress_def)
  qed
  ultimately show ?thesis by (auto simp: accepted_of_def confirmed_def)
qed

theorem migration_status_truthful_witness:
  "\<exists>(w :: mig_world) r s. get_request 1 (mw_db w) = Some r \<and> mr_status r = Mig_Completed \<and> (1, s) \<in> set (mw_accepted w)
     \<and> mr_actor_id r \<noteq> None"
proof -
  obtain w ts r where run: "mig_reach demo_mig_config honest (demo_mig_world, {#}) (w, mset ts)"
    and r: "get_request 1 (mw_db w) = Some r" "status_is Mig_Completed r"
    using demo_testE [OF demo_completes demo_complete_answers(1)] by metis
  have "mr_status r = Mig_Completed" using r(2) by simp
  moreover from this have "(\<exists>s. (1, s) \<in> set (mw_accepted w)) \<and> mr_actor_id r \<noteq> None"
    using migration_status_truthful [OF demo_mig_world_none run r(1)] by blast
  ultimately show ?thesis using r(1) by blast
qed

text \<open>
  C7. As long as the answers of plc.directory arrive, a request that is abandoned, failed, or can still be
  abandoned has no operation in force: its identity still belongs to the source. (This is what the condition
  on \<open>plc_submitted_at\<close> in \<open>abandon\<close> is for; without the answers it does not hold, see below.)
\<close>

theorem abandoned_not_submitted:
  assumes "no_migrations w0" "mig_reach C answered (w0, {#}) (w, T)" "get_request i (mw_db w) = Some r"
    and "mr_status r \<in> {Mig_Abandoned, Mig_Failed} \<or> rs_can_abandon (status_response i r (mw_db w))"
  shows "(i, s) \<notin> set (mw_accepted w)"
proof
  assume s: "(i, s) \<in> set (mw_accepted w)"
  have ok: "sys_ok (w, T)" and "settled i (w, T)" using settled_reach [OF assms(2,1)] by auto
  then have late: "mr_status r \<in> late" using assms(3) s by (auto simp: settled_def accepted_of_def)
  have "row_ok (accepted_of i w) (import_done i (mw_db w)) r"
    using sys_okD [OF ok, of i] assms(3) by (auto simp: view_def request_ok_def)
  then show False using late assms(4)
    by (auto simp: late_def row_ok_def status_response_def submitted_def)
qed

lemma demo_waits: "demo_test demo_to_dns (status_is Awaiting_Dns_Txt) (\<lambda>s. True)"
  by code_simp

lemma demo_to_dns_answers: "list_all (item_answers plc_honest) demo_to_dns"
  "list_all (item_answers (\<lambda>A. an_plc_accepts A = (case an_plc A of Inr u \<Rightarrow> True | Inl e \<Rightarrow> False))) demo_to_dns"
  by code_simp+

theorem abandoned_not_submitted_witness:
  "\<exists>(w :: mig_world) r. get_request 1 (mw_db w) = Some r \<and> mr_status r = Awaiting_Dns_Txt \<and> rs_can_abandon (status_response 1 r (mw_db w))
     \<and> (\<forall>s. (1, s) \<notin> set (mw_accepted w))"
proof -
  obtain w ts r where run: "mig_reach demo_mig_config answered (demo_mig_world, {#}) (w, mset ts)"
    and reach: "mig_reach demo_mig_config honest (demo_mig_world, {#}) (w, mset ts)"
    and r: "get_request 1 (mw_db w) = Some r" "mr_status r = Awaiting_Dns_Txt"
    using demo_testE [OF demo_waits demo_to_dns_answers(1)] demo_to_dns_answers(2) by (metis status_is.simps)
  have "sys_ok (w, mset ts)" using sys_ok_reach [OF reach sys_ok_none [OF demo_mig_world_none]] by simp
  then have "row_ok (accepted_of 1 w) (import_done 1 (mw_db w)) r"
    using sys_okD [of w "mset ts" 1] r(1) by (auto simp: view_def request_ok_def)
  then have "rs_can_abandon (status_response 1 r (mw_db w))"
    using r(2) by (simp add: row_ok_def status_response_def submitted_def)
  moreover from this have "\<forall>s. (1, s) \<notin> set (mw_accepted w)"
    using abandoned_not_submitted [OF demo_mig_world_none run r(1)] by blast
  ultimately show ?thesis using r by blast
qed

section \<open>What does not hold\<close>

lemma transition_row:
  assumes "distinct (map mr_id (md_requests db))" "get_request i db = Some r"
  shows "fst (transition_status i st st' db) \<longleftrightarrow> mr_status r = st"
    "get_request i (snd (transition_status i st st' db)) = Some (if mr_status r = st then r\<lparr>mr_status := st'\<rparr> else r)"
  unfolding transition_status_def change_request_if_moved [OF assms(1)]
  using assms(2) by (simp_all add: change_request_if_def get_change_request)

lemma authorize_changed:
  assumes "authorize_migration_request C token i db = Inr r" "\<And>r. mr_token_hash (f r) = mr_token_hash r" "\<And>r. mr_id (f r) = mr_id r"
  shows "authorize_migration_request C token i (change_request i f db) = Inr (f r)"
proof -
  let ?g = "\<lambda>r. if mr_id r = i then f r else r"
  have "find (\<lambda>r. mr_token_hash r = h) (map ?g rs) = map_option ?g (find (\<lambda>r. mr_token_hash r = h) rs)" for h rs
    using assms(2) by (induction rs) auto
  then have hash: "find_by_token_hash h (change_request i f db) = map_option ?g (find_by_token_hash h db)" for h
    by (simp add: find_by_token_hash_def change_request_def)
  show ?thesis using assms(1,3) by (auto simp: authorize_migration_request_def hash split: option.splits if_splits)
qed

text \<open>
  C38. A lost answer of plc.directory breaks the border that \<open>abandon\<close> guards. In every reachable state in which an
  advance is about to send its operation: if plc.directory accepts it but the answer does not arrive (any error
  other than a refusal), then the request goes back to \<open>awaiting_dns_txt\<close> and its owner is allowed to abandon it; the
  operation stays in force, so the identity points to this server, where the abandoned request has no account.
\<close>

theorem lost_answer_abandoned:
  assumes "no_migrations w0" "mig_reach C honest (w0, {#}) (w, add_mset (i, Dns_Call q sub) T)"
    and "authorize_migration_request C token i (mw_db w) = Inr r"
    and "an_db_error A = None" "an_plc A = Inl e" "\<not> plc_rejected e" "an_plc_accepts A"
  shows "\<exists>w1 w2 w3 r'. task_step C A i (Dns_Call q sub) w = (Dns_Answered q sub (Inl e), w1)
    \<and> task_step C A i (Dns_Answered q sub (Inl e)) w1 = (Dns_Release True [], w2)
    \<and> task_step C A i (Abandon_Begin token) w2 = (Abandon_Write Awaiting_Dns_Txt, w2)
    \<and> task_step C A i (Abandon_Write Awaiting_Dns_Txt) w2 = (Task_Done Abandon_Ok, w3)
    \<and> (i, sub) \<in> set (mw_accepted w3) \<and> get_request i (mw_db w3) = Some r'
    \<and> mr_status r' = Mig_Abandoned \<and> mr_actor_id r' = None \<and> mr_user_id r' = None"
proof -
  have ok: "sys_ok (w, add_mset (i, Dns_Call q sub) T)" using sys_ok_reach [OF assms(2) sys_ok_none [OF assms(1)]] by simp
  note ids = sys_okD_ids [OF ok]
  have get: "get_request i (mw_db w) = Some r" by (rule authorized_request [OF ids assms(3)])
  have r: "mr_id q = i" "mr_status r = Submitting_Plc" "\<not> submitted r" "blank r"
    using sys_okD [OF ok, of i] get by (auto simp: view_def request_ok_def row_ok_def)
  let ?resent = "\<lambda>r. if mr_status r = Submitting_Plc then r\<lparr>mr_status := Awaiting_Dns_Txt\<rparr> else r"
  define w1 where "w1 = w\<lparr>mw_accepted := mw_accepted w @ [(i, sub)]\<rparr>"
  define w2 where "w2 = w1\<lparr>mw_db := change_request i ?resent (mw_db w)\<rparr>"
  define w3 where "w3 = w2\<lparr>mw_db := snd (transition_status i Awaiting_Dns_Txt Mig_Abandoned (mw_db w2))\<rparr>"
  have db2: "mw_db w2 = change_request i ?resent (mw_db w)" by (simp add: w2_def)
  have auth: "authorize_migration_request C token i (mw_db w2) = Inr (r\<lparr>mr_status := Awaiting_Dns_Txt\<rparr>)"
    unfolding db2 using authorize_changed [OF assms(3), of ?resent] r(2) by simp
  have "distinct (map mr_id (md_requests (mw_db w2)))" using ids by (simp add: db2 change_request_ids)
  moreover have "get_request i (mw_db w2) = Some (r\<lparr>mr_status := Awaiting_Dns_Txt\<rparr>)"
    using get r(2) by (simp add: db2 get_change_request)
  ultimately have moved: "fst (transition_status i Awaiting_Dns_Txt Mig_Abandoned (mw_db w2))"
    "get_request i (mw_db w3) = Some (r\<lparr>mr_status := Mig_Abandoned\<rparr>)"
    using transition_row by (simp_all add: w3_def)
  have "task_step C A i (Dns_Call q sub) w = (Dns_Answered q sub (Inl e), w1)"
    using assms(4,5,7) r(1) by (simp add: task_step_def w1_def)
  moreover have "task_step C A i (Dns_Answered q sub (Inl e)) w1 = (Dns_Release True [], w2)"
    using assms(4,6) r(1) by (simp add: task_step_def w1_def w2_def with_db_def transition_status_def change_request_if_def)
  moreover have "task_step C A i (Abandon_Begin token) w2 = (Abandon_Write Awaiting_Dns_Txt, w2)"
    using assms(4) r(3) by (simp add: task_step_def auth submitted_def)
  moreover have "task_step C A i (Abandon_Write Awaiting_Dns_Txt) w2 = (Task_Done Abandon_Ok, w3)"
    using assms(4) moved(1) by (simp add: task_step_def w3_def split_def)
  moreover have "(i, sub) \<in> set (mw_accepted w3)" by (simp add: w1_def w2_def w3_def)
  ultimately show ?thesis using moved(2) r(4) by (auto simp: blank_def)
qed

text \<open>The steps of an advance whose answer from plc.directory is lost after the operation is in force.\<close>

definition demo_lost :: mig_answers where
  "demo_lost = demo_mig_answers\<lparr>an_plc := Inl (Plc_Http ''connection reset'')\<rparr>"

definition demo_calling :: "schedule_item list" where
  "demo_calling = demo_to_dns @ demo_task 3 Dns_Begin"

fun is_call :: "mig_task \<Rightarrow> bool" where
  "is_call (Dns_Call q sub) = True" | "is_call _ = False"

definition calls_first :: "mig_world \<times> (int \<times> mig_task) list \<Rightarrow> bool" where
  "calls_first s \<longleftrightarrow> (case snd s of (i, t) # ts \<Rightarrow> i = 1 \<and> is_call t | [] \<Rightarrow> False)
     \<and> (case authorize_migration_request demo_mig_config (Some ''token'') 1 (mw_db (fst s)) of Inl e \<Rightarrow> False | Inr r \<Rightarrow> True)"

lemma demo_calling_test: "demo_test demo_calling (status_is Submitting_Plc) calls_first"
  by code_simp

lemma demo_calling_answers: "list_all (item_answers plc_honest) demo_calling"
  by code_simp

theorem lost_answer_abandoned_witness:
  "\<exists>(w3 :: mig_world) sub r'. (1, sub) \<in> set (mw_accepted w3) \<and> get_request 1 (mw_db w3) = Some r' \<and> mr_status r' = Mig_Abandoned"
proof -
  obtain w ts r where run: "mig_reach demo_mig_config honest (demo_mig_world, {#}) (w, mset ts)" and first: "calls_first (w, ts)"
    using demo_testE [OF demo_calling_test demo_calling_answers] by metis
  obtain t ts' where t: "ts = (1, t) # ts'" "is_call t" using first by (auto simp: calls_first_def split: list.splits)
  obtain q sub where q: "t = Dns_Call q sub" using t(2) by (cases t rule: is_call.cases) auto
  obtain r where auth: "authorize_migration_request demo_mig_config (Some ''token'') 1 (mw_db w) = Inr r"
    using first by (auto simp: calls_first_def split: sum.splits)
  have "mig_reach demo_mig_config honest (demo_mig_world, {#}) (w, add_mset (1, Dns_Call q sub) (mset ts'))" using run t(1) q by simp
  from lost_answer_abandoned [OF demo_mig_world_none this auth, of demo_lost "Plc_Http ''connection reset''"] show ?thesis
    by (auto simp: demo_lost_def demo_mig_answers_def)
qed

text \<open>
  C39. An abandoned migration comes back. In every reachable state in which a job is about to store its next status,
  when the source was asked for its code or everything was fetched, and in which the user may still abandon the
  migration: the user abandons it and is told so, and then the step of the job moves the abandoned request on to the
  state in which the token of the source is asked for, or the code is requested, because the jobs write their next
  status without a condition.
\<close>

theorem abandon_undone:
  assumes "no_migrations w0" "mig_reach C honest (w0, {#}) (w, add_mset (i, t) T)"
    and "(t, next_status) \<in> {(Sig_Request q, Awaiting_Plc_Token), (Fetch_Done, Requesting_Plc_Signature)}"
    and "authorize_migration_request C token i (mw_db w) = Inr r" "rs_can_abandon (status_response i r (mw_db w))"
    and "an_db_error A = None" "an_endpoint A = Inr ()" "an_request_signature A = Inr ()"
  shows "\<exists>w1 w2 jobs. task_step C A i (Abandon_Begin token) w = (Abandon_Write (mr_status r), w)
    \<and> task_step C A i (Abandon_Write (mr_status r)) w = (Task_Done Abandon_Ok, w1)
    \<and> get_request i (mw_db w1) = Some (r\<lparr>mr_status := Mig_Abandoned\<rparr>)
    \<and> task_step C A i t w1 = (Task_Done (Job_Ok jobs), w2)
    \<and> get_request i (mw_db w2) = Some (r\<lparr>mr_status := next_status\<rparr>)"
proof -
  have ok: "sys_ok (w, add_mset (i, t) T)" using sys_ok_reach [OF assms(2) sys_ok_none [OF assms(1)]] by simp
  note ids = sys_okD_ids [OF ok]
  have get: "get_request i (mw_db w) = Some r" by (rule authorized_request [OF ids assms(4)])
  define w1 where "w1 = w\<lparr>mw_db := snd (transition_status i (mr_status r) Mig_Abandoned (mw_db w))\<rparr>"
  define w2 where "w2 = with_db (set_migration_status i next_status) w1"
  have moved: "fst (transition_status i (mr_status r) Mig_Abandoned (mw_db w))"
    "get_request i (mw_db w1) = Some (r\<lparr>mr_status := Mig_Abandoned\<rparr>)"
    using transition_row [OF ids get] by (simp_all add: w1_def)
  have can: "mr_plc_submitted_at r = None" "mr_status r \<noteq> Submitting_Plc" using assms(5) by (simp_all add: status_response_def)
  have "task_step C A i (Abandon_Begin token) w = (Abandon_Write (mr_status r), w)"
    using assms(4,6) can by (simp add: task_step_def)
  moreover have "task_step C A i (Abandon_Write (mr_status r)) w = (Task_Done Abandon_Ok, w1)"
    using assms(6) moved(1) by (simp add: task_step_def w1_def split_def)
  moreover have "\<exists>jobs. task_step C A i t w1 = (Task_Done (Job_Ok jobs), w2)"
    using assms(3,6-8) by (auto simp: task_step_def w2_def)
  moreover have "get_request i (mw_db w2) = Some (r\<lparr>mr_status := next_status\<rparr>)"
    using moved(2) by (simp add: w2_def with_db_def set_migration_status_def get_change_request)
  ultimately show ?thesis using moved(2) by blast
qed

text \<open>The job is about to store that the code was asked for.\<close>

fun asks_code :: "mig_task \<Rightarrow> bool" where
  "asks_code (Sig_Request q) = True" | "asks_code _ = False"

definition asks_first :: "mig_world \<times> (int \<times> mig_task) list \<Rightarrow> bool" where
  "asks_first s \<longleftrightarrow> (case snd s of (i, t) # ts \<Rightarrow> i = 1 \<and> asks_code t | [] \<Rightarrow> False)
     \<and> (case authorize_migration_request demo_mig_config (Some ''token'') 1 (mw_db (fst s)) of
          Inl e \<Rightarrow> False | Inr r \<Rightarrow> rs_can_abandon (status_response 1 r (mw_db (fst s))))"

lemma demo_asking_test: "demo_test (demo_task 1 Sig_Begin) (status_is Requesting_Plc_Signature) asks_first"
  by code_simp

lemma demo_asking_answers: "list_all (item_answers plc_honest) (demo_task 1 Sig_Begin)"
  by code_simp

theorem abandon_undone_witness:
  "\<exists>(w1 :: mig_world) w2 r1 r2 q jobs. get_request 1 (mw_db w1) = Some r1 \<and> mr_status r1 = Mig_Abandoned
    \<and> task_step demo_mig_config demo_mig_answers 1 (Sig_Request q) w1 = (Task_Done (Job_Ok jobs), w2)
    \<and> get_request 1 (mw_db w2) = Some r2 \<and> mr_status r2 = Awaiting_Plc_Token"
proof -
  obtain w ts r where run: "mig_reach demo_mig_config honest (demo_mig_world, {#}) (w, mset ts)" and first: "asks_first (w, ts)"
    using demo_testE [OF demo_asking_test demo_asking_answers] by metis
  obtain t ts' where t: "ts = (1, t) # ts'" "asks_code t" using first by (auto simp: asks_first_def split: list.splits)
  obtain q where q: "t = Sig_Request q" using t(2) by (cases t rule: asks_code.cases) auto
  obtain r where auth: "authorize_migration_request demo_mig_config (Some ''token'') 1 (mw_db w) = Inr r"
    "rs_can_abandon (status_response 1 r (mw_db w))"
    using first by (auto simp: asks_first_def split: sum.splits)
  have reach: "mig_reach demo_mig_config honest (demo_mig_world, {#}) (w, add_mset (1, t) (mset ts'))" using run t(1) by simp
  have ans: "an_db_error demo_mig_answers = None" "an_endpoint demo_mig_answers = Inr ()" "an_request_signature demo_mig_answers = Inr ()"
    by (simp_all add: demo_mig_answers_def)
  obtain w1 w2 jobs where "get_request 1 (mw_db w1) = Some (r\<lparr>mr_status := Mig_Abandoned\<rparr>)"
    "task_step demo_mig_config demo_mig_answers 1 t w1 = (Task_Done (Job_Ok jobs), w2)"
    "get_request 1 (mw_db w2) = Some (r\<lparr>mr_status := Awaiting_Plc_Token\<rparr>)"
    using abandon_undone [OF demo_mig_world_none reach _ auth ans, of Awaiting_Plc_Token q] q by auto
  then show ?thesis using q by (intro exI conjI) (assumption | simp)+
qed

text \<open>
  C36. A submission that is interrupted cannot be taken up again: when the process stops, or a statement fails,
  after the request is marked \<open>submitting_plc\<close> and before it is marked as submitted, no sequence of jobs,
  handlers and restarts changes its status again: it can neither be retried nor abandoned, its token is
  refused, and no job is resumed for it.
\<close>

theorem interrupted_submission_stuck:
  assumes "no_migrations w0" "mig_reach C honest (w0, {#}) (w, T)"
    and "get_request i (mw_db w) = Some r" "mr_status r = Submitting_Plc" "mr_plc_submitted_at r = None"
    and "\<forall>t. (i, t) \<in># T \<longrightarrow> \<not> owns_submission t" and "mig_reach C honest (w, T) (w', T')"
  shows "\<exists>r'. get_request i (mw_db w') = Some r' \<and> mr_status r' = Submitting_Plc
    \<and> \<not> rs_retryable (status_response i r' (mw_db w')) \<and> \<not> rs_can_abandon (status_response i r' (mw_db w'))
    \<and> (\<forall>token As. authorize_migration_request C token i (mw_db w') = Inr r' \<longrightarrow>
         retry_migration C As token i w' = (Inl (BadRequest ''NOT_RETRYABLE''), w')
         \<and> token_step C (As 0) i (Token_Begin token) w' = (api_result (BadRequest ''INVALID_STATE''), w')
         \<and> abandon_step C i (Abandon_Begin token) w' = (api_result (Conflict ''CANNOT_ABANDON_NOW''), w'))
    \<and> set (resume_running_migrations (mw_db w')) \<inter> {MigrationFetchRepo i, MigrationRequestPlcSignature i,
         MigrationImportProcess i, MigrationDeactivateSource i} = {}"
proof -
  have ok: "sys_ok (w, T)" using sys_ok_reach [OF assms(2) sys_ok_none [OF assms(1)]] by simp
  have "stuck i (w, T)" using assms(3-6) by (auto simp: stuck_def submitted_def in_tasks_of)
  then have ok': "sys_ok (w', T')" and "stuck i (w', T')" using stuck_reach [OF assms(7) ok] by auto
  then obtain r' where r': "get_request i (mw_db w') = Some r'" "mr_status r' = Submitting_Plc" "\<not> submitted r'"
    by (auto simp: stuck_def)
  have "row_ok (accepted_of i w') (import_done i (mw_db w')) r'"
    using sys_okD [OF ok', of i] r'(1) by (auto simp: view_def request_ok_def)
  then have keys: "mr_new_signing_key_pem r' = None" "mr_plc_submitted_at r' = None"
    using r'(3) by (auto simp: row_ok_def blank_def submitted_def)
  have only: "mr_status q = Submitting_Plc" if "q \<in> set (md_requests (mw_db w'))" "mr_id q = i" for q
    using get_request_mem [OF sys_okD_ids [OF ok'] that(1)] that(2) r'(1,2) by simp
  have "\<not> rs_retryable (status_response i r' (mw_db w'))" "\<not> rs_can_abandon (status_response i r' (mw_db w'))"
    using r'(2) by (simp_all add: status_response_def is_job_driven_status_def)
  moreover have "set (resume_running_migrations (mw_db w')) \<inter> {MigrationFetchRepo i, MigrationRequestPlcSignature i,
         MigrationImportProcess i, MigrationDeactivateSource i} = {}"
    using only by (auto simp: resume_running_migrations_def list_by_statuses_def)
  ultimately show ?thesis
    using r'(1,2) keys by (auto simp: retry_migration_def)
qed

definition demo_interrupted :: "schedule_item list" where
  "demo_interrupted = demo_to_dns @ Stop_Task 0 # Stop_Task 0 # demo_task 3 Dns_Begin @ [Stop_Task 0]"

lemma demo_interrupted_test: "demo_test demo_interrupted
    (\<lambda>r. status_is Submitting_Plc r \<and> mr_plc_submitted_at r = None) (\<lambda>s. snd s = [])"
  by code_simp

lemma demo_interrupted_answers: "list_all (item_answers plc_honest) demo_interrupted"
  by code_simp

theorem interrupted_submission_stuck_witness:
  "\<exists>(w :: mig_world) r. get_request 1 (mw_db w) = Some r \<and> mr_status r = Submitting_Plc
    \<and> \<not> rs_retryable (status_response 1 r (mw_db w)) \<and> \<not> rs_can_abandon (status_response 1 r (mw_db w))"
proof -
  obtain w ts r where run: "mig_reach demo_mig_config honest (demo_mig_world, {#}) (w, mset ts)"
    and r: "get_request 1 (mw_db w) = Some r" "status_is Submitting_Plc r \<and> mr_plc_submitted_at r = None"
    and none: "snd (w, ts) = []"
    using demo_testE [OF demo_interrupted_test demo_interrupted_answers] by metis
  have "mr_status r = Submitting_Plc" "mr_plc_submitted_at r = None" "\<forall>t. (1, t) \<in># mset ts \<longrightarrow> \<not> owns_submission t"
    using r(2) none by simp_all
  from interrupted_submission_stuck [OF demo_mig_world_none run r(1) this mr_refl] show ?thesis by blast
qed

text \<open>
  The code of the source is asked for once: a request that has waited for the token of the source never
  asks the source again, whatever the user and the jobs do; a token that has expired or was refused cannot be
  replaced, only the migration abandoned.
\<close>

theorem code_requested_once:
  assumes "no_migrations w0" "mig_reach C honest (w0, {#}) (w, T)"
    and "get_request i (mw_db w) = Some r" "mr_status r = Awaiting_Plc_Token" and "mig_reach C honest (w, T) (w', T')"
  shows "(i, Sig_Request q) \<notin># T' \<and> (\<exists>r'. get_request i (mw_db w') = Some r' \<and> mr_status r' \<noteq> Requesting_Plc_Signature)"
proof -
  have ok: "sys_ok (w, T)" using sys_ok_reach [OF assms(2) sys_ok_none [OF assms(1)]] by simp
  have "code_asked i (w', T')"
    using code_asked_reach [OF assms(5) ok awaiting_code_asked [OF ok assms(3,4)]] by simp
  then show ?thesis using in_tasks_of [of "Sig_Request q" i T'] by (auto simp: code_asked_def)
qed

lemma demo_asked: "demo_test (demo_task 2 Sig_Begin) (status_is Awaiting_Plc_Token) (\<lambda>s. True)"
  by code_simp

lemma demo_asked_answers: "list_all (item_answers plc_honest) (demo_task 2 Sig_Begin)"
  by code_simp

theorem code_requested_once_witness:
  "\<exists>(w :: mig_world) T r. get_request 1 (mw_db w) = Some r \<and> mr_status r = Awaiting_Plc_Token
    \<and> (\<forall>q. (1, Sig_Request q) \<notin># (T :: (int \<times> mig_task) multiset))"
proof -
  obtain w ts r where run: "mig_reach demo_mig_config honest (demo_mig_world, {#}) (w, mset ts)"
    and r: "get_request 1 (mw_db w) = Some r" "status_is Awaiting_Plc_Token r"
    using demo_testE [OF demo_asked demo_asked_answers] by metis
  have st: "mr_status r = Awaiting_Plc_Token" using r(2) by simp
  have "\<forall>q. (1, Sig_Request q) \<notin># mset ts"
    using code_requested_once [OF demo_mig_world_none run r(1) st mr_refl] by blast
  then show ?thesis using r(1) st by blast
qed

text \<open>
  C37. The account of somebody else is joined: the address of a migration is compared with the registered ones
  when it starts, and again by nobody; when a user with that address has registered meanwhile, the migrated
  actor becomes that user's, and the session that the migrating client gets is a session of that user.
\<close>

theorem migration_joins_user:
  assumes "an_db_error A = None" "get_request i (mw_db w) = Some r" "mr_email r = Some email"
    and "find_id_by_email email (mw_accounts w) = Some user"
    and "account_find_by_did (mr_source_did r) (mw_accounts w) = None"
    and "\<forall>a \<in> set (ad_actors (mw_accounts w)). ac_id a \<noteq> an_new_id A
          \<and> ac_ap_uri a \<noteq> Some (user_ap_uri (mc_local_domain C) (mr_new_username r))"
  shows "\<exists>w1 w2 p. task_step C A i (Dns_Account r sub) w = (Dns_Confirm user (an_new_id A), w1)
    \<and> task_step C A i (Dns_Confirm user (an_new_id A)) w1 = (Dns_Release False [MigrationImportProcess i], w2)
    \<and> account_auth_response i (mw_db w2) = Inr p \<and> au_user_id p = user
    \<and> ad_users (mw_accounts w2) = ad_users (mw_accounts w)"
proof -
  have "account_find_by_did (mr_source_did r) (mw_accounts w) = None \<longrightarrow>
      (\<forall>a \<in> set (ad_actors (mw_accounts w)). ac_at_did a \<noteq> Some (mr_source_did r))"
    by (simp add: account_find_by_did_def find_None_iff)
  then have did: "\<forall>a \<in> set (ad_actors (mw_accounts w)). ac_at_did a \<noteq> Some (mr_source_did r)" using assms(5) by simp
  obtain acc where acc: "materialize_local_account (mc_local_domain C) (an_new_id A) r email (ps_signing_key_pem sub)
      (ps_rotation_key_pem sub) (mw_accounts w) = (Inr (user, an_new_id A), acc)" "ad_users acc = ad_users (mw_accounts w)"
    using assms(4-6) did
    by (auto simp: materialize_local_account_def insert_local_def Let_def list_ex_iff)
  show ?thesis
    using assms(1-3) acc
    by (simp add: task_step_def with_db_def confirm_account_created_def account_auth_response_def get_change_request)
qed

text \<open>Bob's account has the address of the request.\<close>

definition demo_bob :: account_db where
  "demo_bob = \<lparr>ad_users = [\<lparr>us_id = 3, us_email = ''alice@mail.example'', us_password_hash = ''b'', us_role = ''user''\<rparr>],
     ad_user_seq = 4, ad_actors = [\<lparr>ac_id = 5, ac_user_id = Some 3, ac_actor_type = ''local'', ac_username = ''bob'',
       ac_domain = ''seiran.example'', ac_ap_uri = Some ''https://seiran.example/users/bob'', ac_at_did = Some ''did:plc:bob'',
       ac_signing_key_pem = None, ac_rotation_key_pem = None\<rparr>], ad_agreements = []\<rparr>"

definition demo_bob_request :: mig_request where
  "demo_bob_request = (new_request_row 1 demo_mig_request)\<lparr>mr_status := Submitting_Plc\<rparr>"

definition demo_bob_world :: mig_world where
  "demo_bob_world = \<lparr>mw_db = (mw_db demo_mig_world)\<lparr>md_requests := [demo_bob_request]\<rparr>, mw_accounts = demo_bob, mw_accepted = []\<rparr>"

theorem migration_joins_user_witness:
  "\<exists>w1 w2 p. task_step demo_mig_config demo_mig_answers 1
      (Dns_Account demo_bob_request \<lparr>ps_operation = JNull, ps_signing_key_pem = ''s'', ps_rotation_key_pem = ''k''\<rparr>) demo_bob_world
      = (Dns_Confirm 3 7, w1)
    \<and> task_step demo_mig_config demo_mig_answers 1 (Dns_Confirm 3 7) w1 = (Dns_Release False [MigrationImportProcess 1], w2)
    \<and> account_auth_response 1 (mw_db w2) = Inr p \<and> au_user_id p = 3"
proof -
  have "an_db_error demo_mig_answers = None" "an_new_id demo_mig_answers = 7" "mc_local_domain demo_mig_config = ''seiran.example''"
    by (simp_all add: demo_mig_answers_def demo_mig_config_def)
  moreover have "get_request 1 (mw_db demo_bob_world) = Some demo_bob_request" "mr_email demo_bob_request = Some ''alice@mail.example''"
    "mw_accounts demo_bob_world = demo_bob" "mr_source_did demo_bob_request = ''did:plc:alice''" "mr_new_username demo_bob_request = ''alice''"
    by (simp_all add: get_request_def demo_bob_world_def demo_bob_request_def new_request_row_def demo_mig_request_def)
  moreover have "find_id_by_email ''alice@mail.example'' demo_bob = Some 3" "account_find_by_did ''did:plc:alice'' demo_bob = None"
    "\<forall>a \<in> set (ad_actors demo_bob). ac_id a \<noteq> 7 \<and> ac_ap_uri a \<noteq> Some (user_ap_uri ''seiran.example'' ''alice'')"
    by (simp_all add: find_id_by_email_def account_find_by_did_def demo_bob_def user_ap_uri_def)
  ultimately show ?thesis
    using migration_joins_user [of demo_mig_answers 1 demo_bob_world demo_bob_request "''alice@mail.example''" 3 demo_mig_config]
    by metis
qed

end
