(* ===== verification/Spec2Isabelle.thy ===== *)
theory Spec2Isabelle
  imports Worker Redis_Queue Ipld_Json Commit_Ops Net Leader Client_Ip Rate_Guard Facets Mentions Follow_Race Follow_Requests
    Post_Race Stream_Facts Migration_Results
begin

text \<open>
  A verification library for the server of seiran, a social network server that speaks ActivityPub and
  is an AT Protocol repository host at once. All modelled code is Rust, under \<open>src/crates/\<close>; the
  paths below are relative to it.

  \<^bold>\<open>The program.\<close> Requests of users and of other servers arrive at \<open>seiran-api\<close> and
  \<open>seiran-federation-inbox\<close>. What takes time becomes a job: it is put into a queue, in memory or in
  Redis, and run by the worker engine. What a user writes, follows or blocks is committed to the user's
  signed repository, a Merkle search tree of DAG-CBOR records whose blocks go to PostgreSQL and, as CAR
  files, to other servers. Resident tasks run in one process of several, chosen by a lock of the
  database. Before a password is checked, or another server is asked for a document, a guard decides
  whether that may happen.

  \<^bold>\<open>Conventions.\<close> A result is a sum, \<open>Inl\<close> the error; machine integers are words or bounded
  integers; strings are byte strings; a statement of SQL is one atomic operation on lists of rows, a
  script of Redis one operation on its keys. What is not under \<open>src/\<close> (codecs, hashes, signatures, DNS,
  HTTP, the answers of other servers) is a parameter, a record of functions, and what the code relies
  on is a named predicate on that record, which \<open>Demo_Libs\<close> and the \<open>demo_\<close> definitions of the theories show to be
  satisfiable. A call that may fail does so where a parameter says so. Handlers of which nothing is said about interleaving
  (lists, for instance) are one step; the parts whose properties are about races say which statements are steps.

  \<^bold>\<open>Theories.\<close>
  \<^item> \<open>Prelude\<close>, \<open>Numbers\<close>, \<open>Utf8\<close>, \<open>Text_Spans\<close>, \<open>Float_Score\<close>: results, strings, decimal numbers, UTF-8, byte
    ranges of a text, and the double-precision arithmetic of the queue scores.
  \<^item> \<open>Jobs\<close>, \<open>Job_Queue\<close>, \<open>Memory_Queue\<close>, \<open>Redis_Queue\<close>, \<open>Worker\<close>: \<open>seiran-common/src/traits.rs\<close>, \<open>queue/\<close>. The locale of
    \<open>Job_Queue\<close> is the contract of a queue; both queues interpret it. The in-memory queue answers any sequence
    of operations as a stable priority queue and loses no wake-up; the Redis queue, as interleaved commands of any number of processes,
    loses and duplicates no job, but its scores are doubles, so that equal priorities are served in
    order only from seventeen jobs apart. The worker engine accounts for permits, running jobs and
    attempts; retries end because the attempt number grows towards a maximum.
  \<^item> \<open>Ipld\<close>, \<open>Ipld_Json\<close>, \<open>Car\<close>, \<open>Mst\<close>, \<open>Mst_Round_Trip\<close>, \<open>Tid\<close>, \<open>Records\<close>: \<open>seiran-common/src/atp/repo.rs\<close>, \<open>car.rs\<close>,
    \<open>mst_walk.rs\<close>, \<open>embed.rs\<close> and the records. Values, archives and trees are read back as they were written, within the size limits.
    The walk of a tree has the code's limit of depth, 128, which a tree of keys hashed to 256 bits
    does not reach.
  \<^item> \<open>Commit\<close>, \<open>Commit_Inv\<close>, \<open>Commit_Ops\<close>: \<open>atp/service.rs\<close>. Every committed write keeps the invariant that the stored
    root is walked to exactly the records of the table; a serialization failure is retried, ten attempts at most.
  \<^item> \<open>Follows\<close>, \<open>Follow_World\<close>, \<open>Follow_Exec\<close>, \<open>Follow_Handlers\<close>, \<open>Follow_Safety\<close>, \<open>Follow_Race\<close>, \<open>Follow_Requests\<close>:
    \<open>repository/follow.rs\<close>, \<open>repository/block.rs\<close>, \<open>follow_exec.rs\<close>, \<open>follow_approval.rs\<close>, the handlers of the activities Follow,
    Accept, Block and their Undo, and those of the API. The locales \<open>kept\<close> and \<open>kept_store\<close> say when a
    predicate of the world survives a handler; the counters and the uniqueness of rows rest on them.
    Simultaneous requests commit one record; two theorems show where a record is left without its key.
  \<^item> \<open>Snowflake\<close>, \<open>Post_Tables\<close>, \<open>Posts\<close>, \<open>Post_Facts\<close>, \<open>Post_Inv\<close>, \<open>Post_History\<close>: \<open>id.rs\<close>, the tables of posts with their triggers and
    indexes, the writing operations of \<open>repository/post.rs\<close>, and the invariants that hold after any history of them, those of the
    counters for the histories that have no late reference, ingestion from Bluesky, merge or moderation.
  \<^item> \<open>Post_Merge\<close>, \<open>Post_Race\<close>: the two paths on which a post of another seiran server arrives
    (\<open>repository/post.rs\<close>, \<open>repository/bsky_ingest.rs\<close>, \<open>unique_retry.rs\<close>). Their interleavings end in one row when the authors are one actor.
  \<^item> \<open>Post_Visibility\<close>, \<open>Newest_First\<close>, \<open>Feed\<close>, \<open>Timelines\<close>, \<open>Timeline_Facts\<close>, \<open>Post_Lookups\<close>: the SQL functions and macros of visibility,
    \<open>repository/feed.rs\<close> and the queries of \<open>repository/post.rs\<close>. The locale \<open>newest_source\<close> carries the loop over windows of time; the
    timelines of a user and of everybody, profiles and threads show only what the viewer may see, and the newest of it;
    what is hidden is left out for signed-in viewers only.
  \<^item> \<open>Lists\<close>, \<open>List_Keys\<close>, \<open>List_Inv\<close>, \<open>List_Relay\<close>, \<open>List_Facts\<close>: \<open>repository/list.rs\<close>, \<open>handlers/lists.rs\<close>,
    \<open>jobs/proxy_follow_sync.rs\<close>. A ledger of keys, holders and records is kept by every handler; the jobs of the relay account
    make it follow the members of lists in every interleaving with the handlers that keeps the order of the jobs about one account.
  \<^item> \<open>Streams\<close>, \<open>Stream_Facts\<close>: \<open>streaming.rs\<close>, \<open>handlers/streaming.rs\<close> and the functions that send a new post to its readers.
    The channels of each sender match the queries of the timelines; a connection forwards what is for its viewer, and all of it.
  \<^item> \<open>Migration_Table\<close>, \<open>Migration_Accounts\<close>, \<open>Migration\<close>, \<open>Migration_Steps\<close>, \<open>Migration_Inv\<close>, \<open>Migration_Facts\<close>, \<open>Migration_Runs\<close>,
    \<open>Migration_Results\<close>: \<open>repository/at_migration.rs\<close>, \<open>jobs/at_migration.rs\<close>, \<open>did_provision/\<close> and \<open>handlers/migration.rs\<close>, the move of an
    account from another server. Each job, handler and wait for DNS is a task, with one statement on the migration tables per step; the four
    statements that create the account are one step. Tasks of all requests interleave, fail and stop. \<open>sys_ok\<close> says which rows and tasks can be there together; the properties are read
    off it, and three of them say where an interruption, a lost answer or a late job is not foreseen; \<open>Migration_Runs\<close> evaluates schedules for the witnesses.
  \<^item> \<open>Net\<close>: \<open>net.rs\<close>, the guard against requests into the own network. A fetch makes six connections at most, one and five
    redirects, each pinned to an address that was found public.
  \<^item> \<open>Leader\<close>: \<open>leader.rs\<close>, a timed transition system. The lock is asked for every five seconds, a lost session is
    noticed within forty, a stop takes thirty at most; an aborted task may go on for longer. Database and processes share one
    clock and calls take no time: a ping that hangs is left out.
  \<^item> \<open>Client_Ip\<close>: \<open>seiran-api/src/middleware/client_ip.rs\<close>, the address behind proxies.
  \<^item> \<open>Rate_Limits\<close>, \<open>Rate_Guard\<close>: \<open>rate_limit.rs\<close> of both crates and their tables. The locale \<open>window_limit\<close> is interpreted by five
    limits; the bounds hold in every interleaving of requests.
  \<^item> \<open>Facets\<close>, \<open>Mentions\<close>: \<open>atp/facets.rs\<close>, \<open>mention.rs\<close>, \<open>hashtag.rs\<close> and the facets of \<open>handlers/notes/\<close>. Ranges are in order, disjoint
    and on the whole of the text they stand for, in bytes of UTF-8; a theorem shows where they are not.

  \<^bold>\<open>Bounds and fuel.\<close> Loops are structural recursions or have a measure, and the cut-offs are those of the code named
    above. \<open>run_task\<close> alone counts steps: an advance of a migration has eight at most, which is what \<open>advance_migration\<close> gives it.

  \<^bold>\<open>Not modelled.\<close> The conversions of the Mastodon, Misskey and XRPC responses are shapes of JSON over rows that the model
  has. The parsing of activities on posts turns documents into arguments of the modelled operations of the post tables. Delivery,
  media, sessions and the polling of other networks are calls of HTTP, storage and cryptographic libraries whose answers decide
  what happens. The administration is single statements behind a check of the role, and the start of the process is configuration.
  Of the migration, what the import of a record or blob writes elsewhere is an answer. The manifest lists the parts one by one.
\<close>

end
